(* ===== verification/Prelude.thy ===== *)
theory Prelude
  imports Main "HOL-Library.Word" "HOL-Library.Signed_Division"
begin

text \<open>
  Shared vocabulary of the development: the machine-integer types of
  \<^verbatim>\<open>include/general/common.h\<close>, the bit-field macros of \<^verbatim>\<open>include/general/utils.h\<close>,
  the results of code that can stop the simulator or has no defined behaviour, little-endian byte
  access, and the facts on lists, words and results that every component uses.
\<close>

unbundle bit_operations_syntax

section \<open>Types\<close>

type_synonym byte = "8 word"
type_synonym u32 = "32 word"
type_synonym word_t = "64 word"
type_synonym paddr_t = "64 word"
type_synonym vaddr_t = "64 word"

text \<open>
  What stops the simulator: a failed \<^verbatim>\<open>Assert\<close>/\<^verbatim>\<open>panic\<close>, a call of \<^verbatim>\<open>abort\<close>, and the C operations
  without a defined result (an access outside an array, a division by zero or with an
  unrepresentable quotient, a shift by the width or more, a signed overflow, a use of a null pointer,
  a use of a variable that was never set).
\<close>

datatype c_error =
    Assertion_failed
  | Aborted
  | Out_of_bounds
  | Division_undefined
  | Shift_undefined
  | Signed_overflow
  | Null_pointer
  | Indeterminate_value

type_synonym 'a res = "c_error + 'a"

definition bind_res :: "'a res \<Rightarrow> ('a \<Rightarrow> 'b res) \<Rightarrow> 'b res" where
  "bind_res r f = (case r of Inl e \<Rightarrow> Inl e | Inr x \<Rightarrow> f x)"

definition is_ok :: "'a res \<Rightarrow> bool" where
  "is_ok r = (case r of Inl _ \<Rightarrow> False | Inr _ \<Rightarrow> True)"

text \<open>\<open>guard c e\<close> is the check of a condition before an operation that has no result without it.\<close>

definition guard :: "bool \<Rightarrow> c_error \<Rightarrow> unit res" where
  "guard c e = (if c then Inr () else Inl e)"

section \<open>Macros of utils.h\<close>

definition BITMASK :: "nat \<Rightarrow> word_t" where
  "BITMASK bits = push_bit bits 1 - 1"

definition BITS :: "word_t \<Rightarrow> nat \<Rightarrow> nat \<Rightarrow> word_t" where
  "BITS x hi lo = drop_bit lo x AND BITMASK (hi - lo + 1)"

text \<open>A bit-field of \<open>len\<close> bits keeps the low \<open>len\<close> bits of what is stored; reading it back extends them.\<close>

definition SEXT :: "word_t \<Rightarrow> nat \<Rightarrow> word_t" where
  "SEXT x len = signed_take_bit (len - 1) x"

definition UEXT :: "word_t \<Rightarrow> nat \<Rightarrow> word_t" where
  "UEXT x len = take_bit len x"

section \<open>Little-endian byte access\<close>

definition byte_of :: "word_t \<Rightarrow> nat \<Rightarrow> byte" where
  "byte_of w i = ucast (drop_bit (8 * i) w)"

definition bytes_of_word :: "nat \<Rightarrow> word_t \<Rightarrow> byte list" where
  "bytes_of_word len w = map (byte_of w) [0..<len]"

fun word_of_bytes :: "byte list \<Rightarrow> word_t" where
  "word_of_bytes [] = 0"
| "word_of_bytes (b # bs) = (ucast b OR push_bit 8 (word_of_bytes bs))"

definition load_bytes :: "(nat \<Rightarrow> byte) \<Rightarrow> nat \<Rightarrow> nat \<Rightarrow> byte list" where
  "load_bytes m off len = map (\<lambda>i. m (off + i)) [0..<len]"

definition store_bytes :: "(nat \<Rightarrow> byte) \<Rightarrow> nat \<Rightarrow> byte list \<Rightarrow> (nat \<Rightarrow> byte)" where
  "store_bytes m off bs = (\<lambda>a. if off \<le> a \<and> a < off + length bs then bs ! (a - off) else m a)"

text \<open>A write of the bytes \<open>bs\<close> at offset \<open>off\<close> inside a buffer (\<^verbatim>\<open>memcpy(buf + off, bs, len)\<close>).\<close>

definition splice :: "byte list \<Rightarrow> nat \<Rightarrow> byte list \<Rightarrow> byte list" where
  "splice d off bs = take off d @ bs @ drop (off + length bs) d"

section \<open>Results\<close>

named_theorems res_simps \<open>rewriting of results\<close>

lemma bind_res_Inl [simp, res_simps]: "bind_res (Inl e) f = Inl e"
  by (simp add: bind_res_def)

lemma bind_res_Inr [simp, res_simps]: "bind_res (Inr x) f = f x"
  by (simp add: bind_res_def)

lemma bind_res_eq_Inr [res_simps]:
  "bind_res r f = Inr y \<longleftrightarrow> (\<exists>x. r = Inr x \<and> f x = Inr y)"
  by (cases r) auto

lemma bind_res_eq_InrE [elim!]:
  assumes "bind_res r f = Inr y"
  obtains x where "r = Inr x" and "f x = Inr y"
  using assms by (auto simp: bind_res_eq_Inr)

lemma bind_res_assoc: "bind_res (bind_res r f) g = bind_res r (\<lambda>x. bind_res (f x) g)"
  by (cases r) auto

lemma is_ok_simps [simp]: "is_ok (Inr x)" "\<not> is_ok (Inl e)"
  by (simp_all add: is_ok_def)

lemma guard_eq_Inr [simp, res_simps]: "guard c e = Inr u \<longleftrightarrow> c"
  by (simp add: guard_def)

lemma guard_True [simp]: "guard True e = Inr ()"
  by (simp add: guard_def)

lemma guard_False [simp]: "guard False e = Inl e"
  by (simp add: guard_def)

section \<open>Words\<close>

named_theorems bits_simps \<open>the bit-field macros\<close>

lemma bit_BITMASK [bits_simps]: "bit (BITMASK n) i \<longleftrightarrow> i < n \<and> i < 64"
proof -
  have "BITMASK n = mask n"
    by (simp add: BITMASK_def mask_eq_exp_minus_1 push_bit_eq_mult)
  then show ?thesis by (simp add: bit_mask_iff conj_commute)
qed

lemma bit_BITS [bits_simps]:
  "bit (BITS x hi lo) i \<longleftrightarrow> i < hi - lo + 1 \<and> bit x (lo + i)"
  using bit_imp_le_length [of x "lo + i"] by (auto simp: BITS_def bit_simps bit_BITMASK)

lemma bit_SEXT [bits_simps]:
  "0 < len \<Longrightarrow> bit (SEXT x len) i \<longleftrightarrow> i < 64 \<and> bit x (min i (len - 1))"
  by (auto simp: SEXT_def bit_simps min.commute)

lemma bit_UEXT [bits_simps]: "bit (UEXT x len) i \<longleftrightarrow> i < len \<and> bit x i"
  by (auto simp: UEXT_def bit_simps)

lemma SEXT_idem: "0 < len \<Longrightarrow> SEXT (SEXT x len) len = SEXT x len"
  by (simp add: SEXT_def)

lemma BITS_less: "unat (BITS x hi lo) < 2 ^ (hi - lo + 1)"
proof (cases "hi - lo + 1 < 64")
  case True
  have "BITS x hi lo = take_bit (hi - lo + 1) (BITS x hi lo)"
    by (rule bit_word_eqI) (auto simp: bit_simps bit_BITS)
  then have "unat (BITS x hi lo) = take_bit (hi - lo + 1) (unat (BITS x hi lo))"
    by (metis unsigned_take_bit_eq)
  then show ?thesis
    by (metis take_bit_nat_less_exp)
next
  case False
  have "unat (BITS x hi lo) < 2 ^ 64"
    by (rule order_less_le_trans [OF unsigned_less]) simp
  also have "(2::nat) ^ 64 \<le> 2 ^ (hi - lo + 1)"
    using False by (intro power_increasing) auto
  finally show ?thesis .
qed

lemma word_take_bit_self:
  assumes "unat (w :: 64 word) < 2 ^ n"
  shows "take_bit n w = w"
proof -
  have "unat (take_bit n w) = unat w"
    using assms by (simp add: unsigned_take_bit_eq take_bit_nat_eq_self)
  then show ?thesis by (rule word_unat_eq_iff [THEN iffD2])
qed

lemma word_bit_above: "unat (w :: 64 word) < 2 ^ n \<Longrightarrow> n \<le> i \<Longrightarrow> \<not> bit w i"
  by (metis word_take_bit_self bit_take_bit_iff linorder_not_less)

section \<open>Lists\<close>

lemma filter_upt_update:
  assumes "i < n" "\<And>j. j < n \<Longrightarrow> j \<noteq> i \<Longrightarrow> P j = Q j"
  shows "length (filter P [0..<n]) + of_bool (Q i) = length (filter Q [0..<n]) + of_bool (P i)"
proof -
  have a: "length (filter P [0..<n]) = card {j. j < n \<and> P j}" for P :: "nat \<Rightarrow> bool"
  proof -
    have "{i. i < n \<and> P ([0..<n] ! i)} = {j. j < n \<and> P j}" by auto
    then show ?thesis by (simp add: length_filter_conv_card)
  qed
  have b: "card {j. j < n \<and> P j} = card {j. j < n \<and> j \<noteq> i \<and> P j} + of_bool (P i)" for P
  proof (cases "P i")
    case True
    then have "{j. j < n \<and> P j} = insert i {j. j < n \<and> j \<noteq> i \<and> P j}"
      using assms(1) by auto
    with True show ?thesis by simp
  next
    case False
    then have "{j. j < n \<and> P j} = {j. j < n \<and> j \<noteq> i \<and> P j}" by auto
    with False show ?thesis by simp
  qed
  have "{j. j < n \<and> j \<noteq> i \<and> P j} = {j. j < n \<and> j \<noteq> i \<and> Q j}"
    using assms(2) by auto
  then show ?thesis unfolding a b [of P] b [of Q] by simp
qed

lemma length_filter_upt_le: "length (filter P [0..<n]) \<le> n"
  using length_filter_le [of P "[0..<n]"] by simp

section \<open>Bytes\<close>

lemma length_bytes_of_word [simp]: "length (bytes_of_word n w) = n"
  by (simp add: bytes_of_word_def)

lemma nth_bytes_of_word [simp]: "i < n \<Longrightarrow> bytes_of_word n w ! i = byte_of w i"
  by (simp add: bytes_of_word_def)

lemma bytes_of_word_Suc:
  "bytes_of_word (Suc n) w = ucast w # bytes_of_word n (drop_bit 8 w)"
proof -
  have "bytes_of_word (Suc n) w = byte_of w 0 # map (byte_of w) (map Suc [0..<n])"
    by (simp add: bytes_of_word_def map_Suc_upt upt_conv_Cons del: upt_Suc)
  also have "map (byte_of w) (map Suc [0..<n]) = bytes_of_word n (drop_bit 8 w)"
    by (simp add: bytes_of_word_def byte_of_def add.commute)
  finally show ?thesis
    by (simp add: byte_of_def)
qed

lemma bytes_of_word_0 [simp]: "bytes_of_word 0 w = []"
  by (simp add: bytes_of_word_def)

text \<open>Storing a value and loading it back gives its low bytes, zero-extended.\<close>

lemma word_of_bytes_of_word: "word_of_bytes (bytes_of_word n w) = take_bit (8 * n) w"
proof (induction n arbitrary: w)
  case 0
  then show ?case by simp
next
  case (Suc n)
  show ?case
    by (rule bit_word_eqI)
      (auto simp: bytes_of_word_Suc Suc.IH bit_simps le_less_Suc_eq not_less)
qed

lemma bit_word_of_bytes:
  "bit (word_of_bytes bs) i \<longleftrightarrow> i < 64 \<and> i div 8 < length bs \<and> bit (bs ! (i div 8)) (i mod 8)"
proof (induction bs arbitrary: i)
  case Nil
  then show ?case by simp
next
  case (Cons b bs)
  show ?case
  proof (cases "i < 8")
    case True
    then show ?thesis by (auto simp: bit_simps)
  next
    case False
    then have "i div 8 = Suc ((i - 8) div 8)" "i mod 8 = (i - 8) mod 8"
      by (simp_all add: le_div_geq le_mod_geq)
    with False show ?thesis
      by (auto simp: bit_simps Cons.IH bit_imp_le_length dest: bit_imp_le_length)
  qed
qed

lemma bytes_of_word_of_bytes:
  assumes "length bs = n" and "n \<le> 8"
  shows "bytes_of_word n (word_of_bytes bs) = bs"
proof (rule nth_equalityI)
  fix i
  assume "i < length (bytes_of_word n (word_of_bytes bs))"
  then have i: "i < n" by simp
  have "byte_of (word_of_bytes bs) i = bs ! i"
  proof (rule bit_word_eqI)
    fix k
    assume "k < LENGTH(8)"
    with i assms have "8 * i + k < 64" "(8 * i + k) div 8 = i" "(8 * i + k) mod 8 = k"
      by auto
    with i assms \<open>k < LENGTH(8)\<close> show "bit (byte_of (word_of_bytes bs) i) k = bit (bs ! i) k"
      by (simp add: byte_of_def bit_simps bit_word_of_bytes)
  qed
  with i show "bytes_of_word n (word_of_bytes bs) ! i = bs ! i"
    by simp
qed (simp add: assms)

lemma length_load_bytes [simp]: "length (load_bytes m off n) = n"
  by (simp add: load_bytes_def)

lemma nth_load_bytes [simp]: "i < n \<Longrightarrow> load_bytes m off n ! i = m (off + i)"
  by (simp add: load_bytes_def)

lemma load_store_bytes [simp]: "load_bytes (store_bytes m off bs) off (length bs) = bs"
  by (rule nth_equalityI) (simp_all add: store_bytes_def)

lemma store_bytes_outside:
  "a < off \<or> off + length bs \<le> a \<Longrightarrow> store_bytes m off bs a = m a"
  by (auto simp: store_bytes_def)

lemma load_store_bytes_disjoint:
  "off + length bs \<le> a \<or> a + n \<le> off \<Longrightarrow> load_bytes (store_bytes m off bs) a n = load_bytes m a n"
  by (rule nth_equalityI) (auto simp: store_bytes_def)

lemma length_splice [simp]: "off + length bs \<le> length d \<Longrightarrow> length (splice d off bs) = length d"
  by (simp add: splice_def)

lemma nth_splice:
  assumes "off + length bs \<le> length d" and "i < length d"
  shows "splice d off bs ! i = (if off \<le> i \<and> i < off + length bs then bs ! (i - off) else d ! i)"
  using assms by (auto simp: splice_def nth_append)

lemma take_drop_splice:
  "off + length bs \<le> length d \<Longrightarrow> take (length bs) (drop off (splice d off bs)) = bs"
  by (simp add: splice_def)

end
