(* ===== verification/Machine.thy ===== *)
theory Machine
  imports Prelude
begin

text \<open>
  The data of the simulator: the structs of \<^verbatim>\<open>include/cpu\<close>, \<^verbatim>\<open>include/memory\<close> and
  \<^verbatim>\<open>include/simulator\<close> as records, its enums as datatypes, and one record \<open>machine\<close>
  that holds the program's globals. C flags that only take the values 0 and 1 are \<open>bool\<close>,
  C ints that also hold -1 or -2 are \<open>int\<close>, array indices are \<open>nat\<close>, and the
  fixed-width integers are words of their width. Pointers into arrays are indices; pointers to
  caches are indices into the store \<open>caches\<close>, since \<^verbatim>\<open>L1D_cache\<close> and
  \<^verbatim>\<open>cores[i].l1d\<close> name the same object while a core runs.
\<close>

section \<open>Instructions (ir.h)\<close>

datatype IRInstType =
    ITYPE_ALU | ITYPE_LOAD | ITYPE_STORE | ITYPE_BRANCH | ITYPE_JAL | ITYPE_JALR
  | ITYPE_LUI | ITYPE_AUIPC | ITYPE_CSR | ITYPE_SYSTEM | ITYPE_FENCE | ITYPE_INVALID

text \<open>The executor functions a decoded instruction can point to.\<close>

datatype exec_op =
    X_auipc | X_lui
  | X_add | X_mul | X_sub | X_or | X_xor | X_and | X_slt | X_sltu | X_sll | X_srl | X_sra
  | X_div | X_divu | X_rem | X_remu
  | X_addw | X_mulw | X_subw | X_sllw | X_srlw | X_sraw | X_divw | X_divuw | X_remw | X_remuw
  | X_addi | X_ori | X_xori | X_andi | X_slti | X_sltiu | X_slli | X_srli | X_srai
  | X_addiw | X_slliw | X_srliw | X_sraiw
  | X_jal | X_jalr
  | X_beq | X_bne | X_blt | X_bge | X_bltu | X_bgeu
  | X_ld | X_lw | X_lh | X_lb | X_lwu | X_lhu | X_lbu
  | X_sd | X_sw | X_sh | X_sb
  | X_csrrw | X_csrrs | X_csrrc | X_ecall | X_mret | X_ebreak
  | X_fence_i | X_fence | X_inv

record IR_Inst =
  ir_pc :: vaddr_t
  ir_snpc :: vaddr_t
  ir_raw :: u32
  ir_type :: IRInstType
  ir_name :: string
  ir_rd :: int
  ir_rs1 :: int
  ir_rs2 :: int
  src1_val :: word_t
  src2_val :: word_t
  imm :: word_t
  mem_addr :: vaddr_t
  mem_width :: nat
  mem_sign :: bool
  result :: word_t
  dnpc :: vaddr_t
  taken :: bool
  bp_predict_taken :: bool
  bp_predicted_pc :: vaddr_t
  ras_top_snap :: int
  ras_cnt_snap :: int
  serializing :: bool
  fault :: bool
  ir_phys_rd :: int
  ir_rob_idx :: int
  ir_cycles_rem :: int
  exec_fn :: exec_op

section \<open>Registers (reg.h, csr.h)\<close>

record CPU_state =
  gpr :: "word_t list"
  cpu_pc :: vaddr_t

record CSR =
  mstatus :: word_t
  mepc :: word_t
  mcause :: word_t
  mtvec :: word_t
  mideleg :: word_t
  medeleg :: word_t
  mie :: word_t
  mip :: word_t
  mtval :: word_t
  misa :: word_t
  mscratch :: word_t
  sstatus :: word_t
  sepc :: word_t
  scause :: word_t
  sie :: word_t
  sip :: word_t
  stval :: word_t
  stvec :: word_t
  satp :: word_t
  sscratch :: word_t

section \<open>Caches (cache.h)\<close>

record CacheLine =
  cl_valid :: bool
  cl_dirty :: bool
  cl_tag :: word_t
  cl_last_access :: word_t
  cl_data :: "byte list"

record CacheSet =
  cs_lines :: "CacheLine list"
  cs_mru_way :: int

record Cache =
  c_s :: nat
  c_w :: nat
  c_off :: nat
  c_sets :: "CacheSet list"
  c_timer :: word_t
  c_name :: string
  c_hits :: int
  c_misses :: int
  c_evictions :: int
  c_writebacks :: int

section \<open>Memory-mapped devices (mmio.h and the statics of src/device)\<close>

datatype io_callback =
    serial_io_handler | rtc_io_handler | i8042_data_io_handler | flash_io_handler

record IOMap =
  map_name :: string
  map_low :: paddr_t
  map_high :: paddr_t
  map_space :: nat
  map_callback :: "io_callback option"

text \<open>
  The device statics. \<open>io_space\<close> is the pool \<^verbatim>\<open>new_space\<close> cuts device memory from, so a
  device's base pointer is an offset in it. \<open>host_clock\<close> is the host's \<^verbatim>\<open>gettimeofday\<close>
  (the seconds and microseconds its n-th call gives), \<open>clock_calls\<close> the calls made so far, and
  \<open>serial_out\<close> the bytes \<^verbatim>\<open>putc\<close> has sent to stderr.
\<close>

record devices =
  maps :: "IOMap list"
  p_space :: nat
  io_space :: "nat \<Rightarrow> byte"
  g_fb_base :: "nat option"
  serial_base :: nat
  serial_out :: "byte list"
  rtc_port_base :: nat
  boot_time :: "int \<times> int"
  host_clock :: "nat \<Rightarrow> int \<times> int"
  clock_calls :: nat
  vgactl_port_base :: nat
  i8042_data_port_base :: nat
  keymap :: "u32 list"
  key_queue :: "u32 list"
  key_f :: nat
  key_r :: nat

section \<open>Branch predictor (bpred.h)\<close>

record BTBEntry =
  btb_tag :: vaddr_t
  btb_target :: vaddr_t
  btb_valid :: bool

record BranchPredictor =
  btb :: "BTBEntry list"
  lht :: "u32 list"
  lpht :: "byte list"
  ghr :: u32
  gpht :: "byte list"
  meta :: "byte list"
  ras :: "vaddr_t list"
  ras_top :: int
  ras_count :: int
  predictions :: word_t
  mispredictions :: word_t
  btb_misses :: word_t

record BPredResult =
  bpr_taken :: bool
  bpr_target :: vaddr_t
  bpr_btb_hit :: bool

section \<open>In-order pipeline (pipeline.h)\<close>

record PipeReg =
  pr_ir :: IR_Inst
  pr_valid :: bool

text \<open>The latch pointers are indices into \<open>slots\<close>.\<close>

record Pipeline =
  p_id :: nat
  p_ex :: nat
  p_mem :: nat
  p_wb :: nat
  slots :: "PipeReg list"
  fetch_pc :: vaddr_t
  mem_stall_rem :: int

record PipeStats =
  ps_cycles :: word_t
  ps_insts :: word_t
  stall_load_use :: word_t
  stall_control :: word_t
  stall_cache_miss :: word_t

section \<open>Out-of-order engine (ooo.h)\<close>

text \<open>Numbers of physical registers are \<open>int\<close>, -1 being none; indices of ROB slots and reservation stations are \<open>nat\<close>.\<close>

record PhysReg =
  p_value :: word_t
  p_ready :: bool

record FreeList =
  fl_regs :: "int list"
  fl_head :: nat
  fl_tail :: nat
  fl_count :: int

record ROBEntry =
  rob_ir :: IR_Inst
  arch_rd :: int
  rob_phys_rd :: int
  old_phys :: int
  store_data :: word_t
  rob_ready :: bool
  rob_valid :: bool

record RSEntry =
  rs_valid :: bool
  rs_phys_rd :: int
  rs_rob_idx :: nat
  src1_ready :: bool
  rs_src1_val :: word_t
  src1_ptag :: int
  src2_ready :: bool
  rs_src2_val :: word_t
  src2_ptag :: int
  rs_cycles_rem :: int
  eu_type :: nat

record MSHREntry =
  mshr_valid :: bool
  line_addr :: paddr_t
  mshr_cycles_rem :: int

record OOOLatch =
  l_rob_idx :: nat
  l_phys_rd :: int
  l_valid :: bool
  l_cycles_rem :: int
  l_mshr_idx :: int
  l_flushed :: bool
  l_src1_val :: word_t
  l_src2_val :: word_t

record OOOStats =
  os_cycles :: word_t
  os_insts :: word_t
  rob_full_stalls :: word_t
  rs_full_stalls :: word_t
  mispred_flushes :: word_t
  serializing_stalls :: word_t
  eu_contention_stalls :: word_t
  branch_penalty_cycles :: word_t

record StoreBufEntry =
  se_addr :: vaddr_t
  se_data :: word_t
  se_width :: nat
  se_valid :: bool

record OOOState =
  phys :: "PhysReg list"
  rat :: "int list"
  rrat :: "int list"
  freelist :: FreeList
  rob :: "ROBEntry list"
  rob_head :: nat
  rob_tail :: nat
  rob_count :: int
  rs_tab :: "RSEntry list"
  unready_store_count :: int
  rs_ready_mask :: "u32 list"
  rs_free_mask :: u32
  latch_if_id :: "PipeReg list"
  latch_id_rn :: "PipeReg list"
  latch_int :: "OOOLatch list"
  latch_mul :: "OOOLatch list"
  latch_lsu :: "OOOLatch list"
  eu_int_busy :: int
  eu_mul_busy :: int
  eu_lsu_busy :: int
  mshr :: "MSHREntry list"
  ooo_fetch_pc :: vaddr_t
  sbuf :: "StoreBufEntry list"
  sbuf_head :: nat
  sbuf_tail :: nat
  sbuf_count :: int
  sbuf_drain_tick :: int

section \<open>Cores (core.h)\<close>

datatype CoreMode = CORE_MODE_FUNCTIONAL | CORE_MODE_INORDER | CORE_MODE_OOO

record Core =
  core_id :: nat
  core_mode :: CoreMode
  core_cpu :: CPU_state
  core_csr :: CSR
  core_priv_level :: word_t
  core_pmpcfg :: "byte list"
  core_pmpaddr :: "word_t list"
  core_pmp_on_count :: byte
  core_sim_cycles :: word_t
  core_sim_instret :: word_t
  core_l1i :: "nat option"
  core_l1d :: "nat option"
  core_pipe :: Pipeline
  core_pipe_stats :: PipeStats
  core_ooo :: OOOState
  core_ooo_stats :: OOOStats
  core_bpred :: BranchPredictor
  core_bpred_enabled :: bool

section \<open>The legacy decode record (decode.h) and the run state (state.h)\<close>

record Decode =
  s_pc :: vaddr_t
  s_snpc :: vaddr_t
  s_dnpc :: vaddr_t
  s_inst_val :: u32

datatype nemu_state = NEMU_RUNNING | NEMU_STOP | NEMU_ABORT | NEMU_END | NEMU_QUIT

section \<open>Function trace (elftl.c)\<close>

text \<open>A name is an offset into \<^verbatim>\<open>strtab\<close>; the pointer \<^verbatim>\<open>func_name\<close> into it too, with \<open>None\<close> for the null pointer.\<close>

record Elf64_Sym =
  st_name :: u32
  st_value :: word_t
  st_size :: word_t

record ftrace_element =
  ft_func_name :: "u32 option"
  ft_addr :: word_t
  ft_is_call :: bool
  ft_depth :: int

section \<open>Watchpoints (watchpoint.h)\<close>

record WP =
  wp_NO :: nat
  wp_expr :: string
  wp_value :: word_t

section \<open>The globals\<close>

text \<open>
  \<open>wp_head\<close> and \<open>wp_free\<close> are the linked lists from \<^verbatim>\<open>head\<close> and \<^verbatim>\<open>free_\<close> of \<^verbatim>\<open>watchpoint.c\<close>; \<open>exec_last\<close>,
  \<open>pip_last\<close>, \<open>pip_cycle_ctr\<close>, \<open>ooo_last\<close>, \<open>ooo_cycle_ctr\<close> and \<open>cores_initialised\<close> are the statics inside the functions
  of \<^verbatim>\<open>exec.c\<close>, \<open>g_pipe_stalled\<close>, \<open>g_fetch_slot\<close>, \<open>diff_cpu\<close> and \<open>diff_init\<close> those of \<^verbatim>\<open>pipeline.c\<close>, \<open>difftest_ref\<close> and
  \<open>difftest_active\<close> those of \<^verbatim>\<open>ooo.c\<close>.
\<close>

record machine =
  cpu :: CPU_state
  csr :: CSR
  priv_level :: word_t
  pmpcfg :: "byte list"
  pmpaddr :: "word_t list"
  pmp_on_count :: byte
  g_sim_cycles :: word_t
  g_sim_instret :: word_t
  g_current_hartid :: nat
  state :: nemu_state
  is_bad :: bool
  halt_pc :: vaddr_t
  dec_s :: Decode
  pmem :: "nat \<Rightarrow> byte"
  dev :: devices
  caches :: "Cache list"
  L1I_cache :: "nat option"
  L1D_cache :: "nat option"
  L2_cache :: "nat option"
  cores :: "Core list"
  g_num_cores :: nat
  bpred_state :: BranchPredictor
  bpred2_state :: BranchPredictor
  spec_lht :: "u32 list"
  g_bpred_mode :: bool
  g_bpred2_mode :: bool
  cpu_pipe :: Pipeline
  pipe_stats :: PipeStats
  g_ftrace_en :: bool
  strtab :: "byte list"
  symtab :: "Elf64_Sym list"
  ftrace_depth :: int
  ftrace :: "ftrace_element list"
  g_inorder_mode :: bool
  g_ooo_mode :: bool
  ooo :: OOOState
  ooo_stats :: OOOStats
  difftest_ref :: CPU_state
  difftest_active :: bool
  g_difftest_en :: bool
  diff_cpu :: CPU_state
  diff_init :: bool
  g_pipe_stalled :: bool
  g_fetch_slot :: nat
  exec_last :: word_t
  pip_last :: word_t
  pip_cycle_ctr :: word_t
  ooo_last :: word_t
  ooo_cycle_ctr :: word_t
  cores_initialised :: bool
  wp_head :: "WP list"
  wp_free :: "WP list"
  img_size :: word_t

section \<open>Physical memory map (pmem.h)\<close>

abbreviation (input) MBASE :: paddr_t where "MBASE \<equiv> 0x80000000"
abbreviation (input) MSIZE :: paddr_t where "MSIZE \<equiv> 0x8000000"

section \<open>The globals at program start\<close>

text \<open>
  C initialises statics to zero where the source gives no initialiser: \<open>priv_level\<close> starts at 3,
  \<open>halt_pc\<close> and \<open>g_num_cores\<close> at the values of their declarations.
\<close>

definition zero_ir :: IR_Inst where
  "zero_ir = \<lparr>ir_pc = 0, ir_snpc = 0, ir_raw = 0, ir_type = ITYPE_ALU, ir_name = [], ir_rd = 0, ir_rs1 = 0,
     ir_rs2 = 0, src1_val = 0, src2_val = 0, imm = 0, mem_addr = 0, mem_width = 0, mem_sign = False,
     result = 0, dnpc = 0, taken = False, bp_predict_taken = False, bp_predicted_pc = 0,
     ras_top_snap = 0, ras_cnt_snap = 0, serializing = False, fault = False, ir_phys_rd = 0,
     ir_rob_idx = 0, ir_cycles_rem = 0, exec_fn = X_inv\<rparr>"

definition zero_cpu :: CPU_state where
  "zero_cpu = \<lparr>gpr = replicate 32 0, cpu_pc = 0\<rparr>"

definition zero_csr :: CSR where
  "zero_csr = \<lparr>mstatus = 0, mepc = 0, mcause = 0, mtvec = 0, mideleg = 0, medeleg = 0, mie = 0, mip = 0,
     mtval = 0, misa = 0, mscratch = 0, sstatus = 0, sepc = 0, scause = 0, sie = 0, sip = 0, stval = 0,
     stvec = 0, satp = 0, sscratch = 0\<rparr>"

definition zero_devices :: devices where
  "zero_devices = \<lparr>maps = [], p_space = 0, io_space = (\<lambda>_. 0), g_fb_base = None, serial_base = 0,
     serial_out = [], rtc_port_base = 0, boot_time = (0, 0), host_clock = (\<lambda>_. (0, 0)), clock_calls = 0,
     vgactl_port_base = 0, i8042_data_port_base = 0, keymap = replicate 256 0,
     key_queue = replicate 1024 0, key_f = 0, key_r = 0\<rparr>"

definition zero_bpred :: BranchPredictor where
  "zero_bpred = \<lparr>btb = replicate 512 \<lparr>btb_tag = 0, btb_target = 0, btb_valid = False\<rparr>,
     lht = replicate 1024 0, lpht = replicate 1024 0, ghr = 0, gpht = replicate 4096 0,
     meta = replicate 4096 0, ras = replicate 16 0, ras_top = 0, ras_count = 0, predictions = 0,
     mispredictions = 0, btb_misses = 0\<rparr>"

definition zero_pipe :: Pipeline where
  "zero_pipe = \<lparr>p_id = 0, p_ex = 0, p_mem = 0, p_wb = 0,
     slots = replicate 4 \<lparr>pr_ir = zero_ir, pr_valid = False\<rparr>, fetch_pc = 0, mem_stall_rem = 0\<rparr>"

definition zero_pipe_stats :: PipeStats where
  "zero_pipe_stats = \<lparr>ps_cycles = 0, ps_insts = 0, stall_load_use = 0, stall_control = 0, stall_cache_miss = 0\<rparr>"

definition zero_rob :: ROBEntry where
  "zero_rob = \<lparr>rob_ir = zero_ir, arch_rd = 0, rob_phys_rd = 0, old_phys = 0, store_data = 0, rob_ready = False, rob_valid = False\<rparr>"

definition zero_rs :: RSEntry where
  "zero_rs = \<lparr>rs_valid = False, rs_phys_rd = 0, rs_rob_idx = 0, src1_ready = False, rs_src1_val = 0, src1_ptag = 0,
     src2_ready = False, rs_src2_val = 0, src2_ptag = 0, rs_cycles_rem = 0, eu_type = 0\<rparr>"

definition zero_latch :: OOOLatch where
  "zero_latch = \<lparr>l_rob_idx = 0, l_phys_rd = 0, l_valid = False, l_cycles_rem = 0, l_mshr_idx = 0, l_flushed = False,
     l_src1_val = 0, l_src2_val = 0\<rparr>"

definition zero_ooo :: OOOState where
  "zero_ooo = \<lparr>phys = replicate 64 \<lparr>p_value = 0, p_ready = False\<rparr>, rat = replicate 32 0, rrat = replicate 32 0,
     freelist = \<lparr>fl_regs = replicate 64 0, fl_head = 0, fl_tail = 0, fl_count = 0\<rparr>,
     rob = replicate 32 zero_rob, rob_head = 0, rob_tail = 0, rob_count = 0, rs_tab = replicate 16 zero_rs,
     unready_store_count = 0, rs_ready_mask = [0, 0, 0], rs_free_mask = 0,
     latch_if_id = replicate 2 \<lparr>pr_ir = zero_ir, pr_valid = False\<rparr>, latch_id_rn = replicate 2 \<lparr>pr_ir = zero_ir, pr_valid = False\<rparr>,
     latch_int = replicate 2 zero_latch, latch_mul = replicate 1 zero_latch, latch_lsu = replicate 2 zero_latch,
     eu_int_busy = 0, eu_mul_busy = 0, eu_lsu_busy = 0,
     mshr = replicate 8 \<lparr>mshr_valid = False, line_addr = 0, mshr_cycles_rem = 0\<rparr>, ooo_fetch_pc = 0,
     sbuf = replicate 16 \<lparr>se_addr = 0, se_data = 0, se_width = 0, se_valid = False\<rparr>, sbuf_head = 0, sbuf_tail = 0,
     sbuf_count = 0, sbuf_drain_tick = 0\<rparr>"

definition zero_ooo_stats :: OOOStats where
  "zero_ooo_stats = \<lparr>os_cycles = 0, os_insts = 0, rob_full_stalls = 0, rs_full_stalls = 0, mispred_flushes = 0,
     serializing_stalls = 0, eu_contention_stalls = 0, branch_penalty_cycles = 0\<rparr>"

definition zero_core :: Core where
  "zero_core = \<lparr>core_id = 0, core_mode = CORE_MODE_FUNCTIONAL, core_cpu = zero_cpu, core_csr = zero_csr,
     core_priv_level = 0, core_pmpcfg = replicate 8 0, core_pmpaddr = replicate 8 0, core_pmp_on_count = 0,
     core_sim_cycles = 0, core_sim_instret = 0, core_l1i = None, core_l1d = None, core_pipe = zero_pipe,
     core_pipe_stats = zero_pipe_stats, core_ooo = zero_ooo, core_ooo_stats = zero_ooo_stats, core_bpred = zero_bpred, core_bpred_enabled = False\<rparr>"

definition zero_machine :: machine where
  "zero_machine = \<lparr>cpu = zero_cpu, csr = zero_csr, priv_level = 3, pmpcfg = replicate 8 0,
     pmpaddr = replicate 8 0, pmp_on_count = 0, g_sim_cycles = 0, g_sim_instret = 0, g_current_hartid = 0,
     state = NEMU_RUNNING, is_bad = False, halt_pc = 0x80000000,
     dec_s = \<lparr>s_pc = 0, s_snpc = 0, s_dnpc = 0, s_inst_val = 0\<rparr>, pmem = (\<lambda>_. 0), dev = zero_devices,
     caches = [], L1I_cache = None, L1D_cache = None, L2_cache = None, cores = replicate 2 zero_core, g_num_cores = 1,
     bpred_state = zero_bpred, bpred2_state = zero_bpred, spec_lht = replicate 1024 0, g_bpred_mode = False,
     g_bpred2_mode = False, cpu_pipe = zero_pipe, pipe_stats = zero_pipe_stats, g_ftrace_en = False,
     strtab = [], symtab = [], ftrace_depth = 0, ftrace = [], g_inorder_mode = False, g_ooo_mode = False, ooo = zero_ooo,
     ooo_stats = zero_ooo_stats, difftest_ref = zero_cpu, difftest_active = False, g_difftest_en = False, diff_cpu = zero_cpu,
     diff_init = False, g_pipe_stalled = False, g_fetch_slot = 0, exec_last = 0, pip_last = 0, pip_cycle_ctr = 0, ooo_last = 0, ooo_cycle_ctr = 0,
     cores_initialised = False, wp_head = [], wp_free = [], img_size = 0\<rparr>"

end
