(* ===== verification/Sim_State.thy ===== *)
theory Sim_State
  imports Machine
begin

text \<open>
  The run state of the simulator (\<^verbatim>\<open>src/simulator/state.c\<close>) and the architectural
  register file (\<^verbatim>\<open>src/cpu/reg.c\<close>). Messages on the terminal are not modelled.
\<close>

section \<open>state.c\<close>

definition set_bad :: "machine \<Rightarrow> machine" where
  "set_bad m = m\<lparr>is_bad := True\<rparr>"

definition status :: "machine \<Rightarrow> bool" where
  "status m = is_bad m"

definition set_halt_pc :: "vaddr_t \<Rightarrow> machine \<Rightarrow> machine" where
  "set_halt_pc p m = m\<lparr>halt_pc := p\<rparr>"

definition get_halt_pc :: "machine \<Rightarrow> vaddr_t" where
  "get_halt_pc m = halt_pc m"

definition INV :: "vaddr_t \<Rightarrow> machine \<Rightarrow> machine" where
  "INV addr m = (set_bad m)\<lparr>state := NEMU_ABORT\<rparr>"

text \<open>The three lines with which every checker reports a violation.\<close>

definition abort_bad :: "machine \<Rightarrow> machine" where
  "abort_bad m = (set_bad m)\<lparr>state := NEMU_ABORT\<rparr>"

section \<open>reg.c\<close>

definition regs :: "string list" where
  "regs = [''$0'', ''ra'', ''sp'', ''gp'', ''tp'', ''t0'', ''t1'', ''t2'',
           ''s0'', ''s1'', ''a0'', ''a1'', ''a2'', ''a3'', ''a4'', ''a5'',
           ''a6'', ''a7'', ''s2'', ''s3'', ''s4'', ''s5'', ''s6'', ''s7'',
           ''s8'', ''s9'', ''s10'', ''s11'', ''t3'', ''t4'', ''t5'', ''t6'']"

definition init_regs :: "machine \<Rightarrow> machine" where
  "init_regs m = m\<lparr>cpu := \<lparr>gpr = replicate 32 0, cpu_pc = 0x80000000\<rparr>\<rparr>"

text \<open>The loop over \<open>regs\<close>: the index of the first entry equal to the name.\<close>

fun reg_index :: "string \<Rightarrow> string list \<Rightarrow> nat \<Rightarrow> nat option" where
  "reg_index s [] i = None"
| "reg_index s (r # rs) i = (if s = r then Some i else reg_index s rs (Suc i))"

text \<open>The result is the value and the flag \<^verbatim>\<open>*success\<close>.\<close>

definition reg_str2val :: "string \<Rightarrow> machine \<Rightarrow> word_t \<times> bool" where
  "reg_str2val s m =
     (case reg_index s regs 0 of
        Some i \<Rightarrow> (gpr (cpu m) ! i, True)
      | None \<Rightarrow> if s = ''pc'' then (cpu_pc (cpu m), True) else (0, False))"

section \<open>Facts\<close>

named_theorems machine_simps \<open>how the small state changes read\<close>

lemma abort_bad_simps [simp, machine_simps]:
  "state (abort_bad m) = NEMU_ABORT"
  "is_bad (abort_bad m)"
  "cpu (abort_bad m) = cpu m"
  "csr (abort_bad m) = csr m"
  "priv_level (abort_bad m) = priv_level m"
  "pmpcfg (abort_bad m) = pmpcfg m"
  "pmpaddr (abort_bad m) = pmpaddr m"
  "pmp_on_count (abort_bad m) = pmp_on_count m"
  "pmem (abort_bad m) = pmem m"
  "dev (abort_bad m) = dev m"
  "caches (abort_bad m) = caches m"
  "L1I_cache (abort_bad m) = L1I_cache m"
  "L1D_cache (abort_bad m) = L1D_cache m"
  "L2_cache (abort_bad m) = L2_cache m"
  "cores (abort_bad m) = cores m"
  "g_num_cores (abort_bad m) = g_num_cores m"
  "g_current_hartid (abort_bad m) = g_current_hartid m"
  "g_sim_cycles (abort_bad m) = g_sim_cycles m"
  "g_sim_instret (abort_bad m) = g_sim_instret m"
  "cpu_pipe (abort_bad m) = cpu_pipe m"
  "pipe_stats (abort_bad m) = pipe_stats m"
  "bpred_state (abort_bad m) = bpred_state m"
  "g_bpred_mode (abort_bad m) = g_bpred_mode m"
  by (simp_all add: abort_bad_def set_bad_def)

lemma INV_eq_abort_bad: "INV a m = abort_bad m"
  by (simp add: INV_def abort_bad_def)

lemma length_regs [simp]: "length regs = 32"
  by (simp add: regs_def)

lemma distinct_regs: "distinct regs"
  by (simp add: regs_def)

lemma reg_index_Some:
  assumes "distinct rs" and "j < length rs"
  shows "reg_index (rs ! j) rs i = Some (i + j)"
  using assms by (induction rs arbitrary: i j) (auto simp: nth_Cons split: nat.splits)

lemma reg_index_None: "reg_index s rs i = None \<longleftrightarrow> s \<notin> set rs"
  by (induction rs arbitrary: i) auto

lemma reg_str2val_reg:
  assumes "i < 32"
  shows "reg_str2val (regs ! i) m = (gpr (cpu m) ! i, True)"
  using reg_index_Some [OF distinct_regs, of i 0] assms by (simp add: reg_str2val_def)

lemma reg_str2val_unknown:
  "s \<notin> set regs \<Longrightarrow> s \<noteq> ''pc'' \<Longrightarrow> reg_str2val s m = (0, False)"
  by (simp add: reg_str2val_def reg_index_None [THEN iffD2])

end
