(* ===== verification/Csr.thy ===== *)
theory Csr
  imports Sim_State
begin

text \<open>
  Control and status registers, privilege levels and physical memory protection:
  \<^verbatim>\<open>src/cpu/csr.c\<close> with the constants of \<^verbatim>\<open>include/cpu/csr.h\<close>.
\<close>

section \<open>Constants of csr.h\<close>

abbreviation (input) PMP_NUMBER_IN_SUSTEMU :: nat where "PMP_NUMBER_IN_SUSTEMU \<equiv> 8"
abbreviation (input) PMP_R :: byte where "PMP_R \<equiv> 0x01"
abbreviation (input) PMP_W :: byte where "PMP_W \<equiv> 0x02"
abbreviation (input) PMP_X :: byte where "PMP_X \<equiv> 0x04"
abbreviation (input) PMP_A :: byte where "PMP_A \<equiv> 0x18"
abbreviation (input) PMP_L :: byte where "PMP_L \<equiv> 0x80"
abbreviation (input) PMP_A_OFF :: byte where "PMP_A_OFF \<equiv> 0x00"
abbreviation (input) PMP_A_TOR :: byte where "PMP_A_TOR \<equiv> 0x08"
abbreviation (input) PMP_A_NA4 :: byte where "PMP_A_NA4 \<equiv> 0x10"
abbreviation (input) PMP_A_NAPOT :: byte where "PMP_A_NAPOT \<equiv> 0x18"

abbreviation (input) MSTATUS :: word_t where "MSTATUS \<equiv> 0x300"
abbreviation (input) MISA :: word_t where "MISA \<equiv> 0x301"
abbreviation (input) MEDELEG :: word_t where "MEDELEG \<equiv> 0x302"
abbreviation (input) MIDELEG :: word_t where "MIDELEG \<equiv> 0x303"
abbreviation (input) MIE :: word_t where "MIE \<equiv> 0x304"
abbreviation (input) MTVEC :: word_t where "MTVEC \<equiv> 0x305"
abbreviation (input) MCOUNTERN :: word_t where "MCOUNTERN \<equiv> 0x306"
abbreviation (input) MSCRATCH :: word_t where "MSCRATCH \<equiv> 0x340"
abbreviation (input) MEPC :: word_t where "MEPC \<equiv> 0x341"
abbreviation (input) MCAUSE :: word_t where "MCAUSE \<equiv> 0x342"
abbreviation (input) MTVAL :: word_t where "MTVAL \<equiv> 0x343"
abbreviation (input) MIP :: word_t where "MIP \<equiv> 0x344"
abbreviation (input) MHARTID :: word_t where "MHARTID \<equiv> 0xf14"
abbreviation (input) SSTATUS :: word_t where "SSTATUS \<equiv> 0x100"
abbreviation (input) SIE :: word_t where "SIE \<equiv> 0x104"
abbreviation (input) STVEC :: word_t where "STVEC \<equiv> 0x105"
abbreviation (input) SSCRATCH :: word_t where "SSCRATCH \<equiv> 0x140"
abbreviation (input) SEPC :: word_t where "SEPC \<equiv> 0x141"
abbreviation (input) SCAUSE :: word_t where "SCAUSE \<equiv> 0x142"
abbreviation (input) STVAL :: word_t where "STVAL \<equiv> 0x143"
abbreviation (input) SIP :: word_t where "SIP \<equiv> 0x144"
abbreviation (input) SATP :: word_t where "SATP \<equiv> 0x180"
abbreviation (input) PMPCFG0 :: word_t where "PMPCFG0 \<equiv> 0x3a0"
abbreviation (input) PMPCFG2 :: word_t where "PMPCFG2 \<equiv> 0x3a2"
abbreviation (input) PMPCFG4 :: word_t where "PMPCFG4 \<equiv> 0x3a4"
abbreviation (input) PMPCFG6 :: word_t where "PMPCFG6 \<equiv> 0x3a6"
abbreviation (input) PMPCFG8 :: word_t where "PMPCFG8 \<equiv> 0x3a8"
abbreviation (input) PMPCFGA :: word_t where "PMPCFGA \<equiv> 0x3aa"
abbreviation (input) PMPCFGC :: word_t where "PMPCFGC \<equiv> 0x3ac"
abbreviation (input) PMPCFGE :: word_t where "PMPCFGE \<equiv> 0x3ae"
abbreviation (input) PMPADDR0 :: word_t where "PMPADDR0 \<equiv> 0x3b0"
abbreviation (input) PMPADDR1 :: word_t where "PMPADDR1 \<equiv> 0x3b1"
abbreviation (input) PMPADDR2 :: word_t where "PMPADDR2 \<equiv> 0x3b2"
abbreviation (input) PMPADDR4 :: word_t where "PMPADDR4 \<equiv> 0x3b4"
abbreviation (input) PMPADDR6 :: word_t where "PMPADDR6 \<equiv> 0x3b6"
abbreviation (input) PMPADDR8 :: word_t where "PMPADDR8 \<equiv> 0x3b8"
abbreviation (input) CYCLE :: word_t where "CYCLE \<equiv> 0xc00"
abbreviation (input) INSTRET :: word_t where "INSTRET \<equiv> 0xc02"
abbreviation (input) L1D_HITS :: word_t where "L1D_HITS \<equiv> 0xc03"
abbreviation (input) L1D_MISSES :: word_t where "L1D_MISSES \<equiv> 0xc04"
abbreviation (input) L1I_HITS :: word_t where "L1I_HITS \<equiv> 0xc05"
abbreviation (input) L1I_MISSES :: word_t where "L1I_MISSES \<equiv> 0xc06"
abbreviation (input) L2_HITS :: word_t where "L2_HITS \<equiv> 0xc07"
abbreviation (input) L2_MISSES :: word_t where "L2_MISSES \<equiv> 0xc08"

abbreviation (input) USER :: word_t where "USER \<equiv> 0"
abbreviation (input) SUPERVISOR :: word_t where "SUPERVISOR \<equiv> 1"
abbreviation (input) MACHINE :: word_t where "MACHINE \<equiv> 3"

section \<open>The privilege table\<close>

text \<open>Each row: the register, the lowest level allowed, readable, writable.\<close>

definition csr_table :: "(word_t \<times> word_t \<times> bool \<times> bool) list" where
  "csr_table =
    [(MSTATUS, MACHINE, True, True), (MISA, MACHINE, True, False),
     (MEDELEG, MACHINE, True, True), (MIDELEG, MACHINE, True, True),
     (MIE, MACHINE, True, True), (MTVEC, MACHINE, True, True),
     (MCOUNTERN, MACHINE, True, False), (MSCRATCH, MACHINE, True, True),
     (MEPC, MACHINE, True, True), (MCAUSE, MACHINE, True, True),
     (MTVAL, MACHINE, True, True), (MIP, MACHINE, True, True),
     (MHARTID, MACHINE, True, False), (SSTATUS, SUPERVISOR, True, True),
     (SIE, SUPERVISOR, True, True), (STVEC, SUPERVISOR, True, True),
     (SSCRATCH, SUPERVISOR, True, True), (SEPC, SUPERVISOR, True, True),
     (SCAUSE, SUPERVISOR, True, True), (STVAL, SUPERVISOR, True, True),
     (SIP, SUPERVISOR, True, True), (SATP, SUPERVISOR, True, True),
     (PMPCFG0, MACHINE, True, True), (PMPCFG2, MACHINE, True, True),
     (PMPCFG4, MACHINE, True, True), (PMPCFG6, MACHINE, True, True),
     (PMPCFG8, MACHINE, True, True), (PMPCFGA, MACHINE, True, True),
     (PMPCFGC, MACHINE, True, True), (PMPCFGE, MACHINE, True, True),
     (PMPADDR0, MACHINE, True, True), (PMPADDR2, MACHINE, True, True),
     (PMPADDR4, MACHINE, True, True), (PMPADDR6, MACHINE, True, True),
     (PMPADDR8, MACHINE, True, True),
     (CYCLE, USER, True, False), (INSTRET, USER, True, False),
     (L1D_HITS, USER, True, False), (L1D_MISSES, USER, True, False),
     (L1I_HITS, USER, True, False), (L1I_MISSES, USER, True, False),
     (L2_HITS, USER, True, False), (L2_MISSES, USER, True, False)]"

fun priv_check_loop ::
  "(word_t \<times> word_t \<times> bool \<times> bool) list \<Rightarrow> word_t \<Rightarrow> bool \<Rightarrow> machine \<Rightarrow> bool \<times> machine" where
  "priv_check_loop [] no is_write m = (False, m)"
| "priv_check_loop ((i, level, rd, wr) # rows) no is_write m =
     (if no = i then
        if priv_level m < level then (False, abort_bad m)
        else if \<not> is_write \<and> \<not> rd then (False, abort_bad m)
        else if is_write \<and> \<not> wr then (False, abort_bad m)
        else (True, m)
      else priv_check_loop rows no is_write m)"

definition priv_check :: "word_t \<Rightarrow> bool \<Rightarrow> machine \<Rightarrow> bool \<times> machine" where
  "priv_check no is_write m = priv_check_loop csr_table no is_write m"

section \<open>Privilege transfer\<close>

definition mret_priv_transfer :: "machine \<Rightarrow> machine" where
  "mret_priv_transfer m =
    (let m = m\<lparr>priv_level := drop_bit 11 (mstatus (csr m) AND 0x18000)\<rparr>;
         m = m\<lparr>csr := (csr m)\<lparr>mstatus := mstatus (csr m) AND NOT 0x18000\<rparr>\<rparr>;
         m = m\<lparr>csr := (csr m)\<lparr>mstatus :=
               drop_bit 4 (mstatus (csr m) AND 0x80) OR (mstatus (csr m) AND NOT 0x80)\<rparr>\<rparr>
     in m\<lparr>csr := (csr m)\<lparr>mstatus := mstatus (csr m) OR 0x80\<rparr>\<rparr>)"

definition exception_priv_transfer :: "machine \<Rightarrow> machine" where
  "exception_priv_transfer m =
    (let m = m\<lparr>csr := (csr m)\<lparr>mstatus :=
               (mstatus (csr m) AND NOT 0x18000) OR push_bit 11 (priv_level m)\<rparr>\<rparr>;
         m = m\<lparr>priv_level := MACHINE\<rparr>;
         m = m\<lparr>csr := (csr m)\<lparr>mstatus :=
               push_bit 4 (mstatus (csr m) AND 0x08) OR (mstatus (csr m) AND NOT 0x80)\<rparr>\<rparr>
     in m\<lparr>csr := (csr m)\<lparr>mstatus := mstatus (csr m) AND NOT 0x08\<rparr>\<rparr>)"

definition raise_intr :: "word_t \<Rightarrow> vaddr_t \<Rightarrow> u32 \<Rightarrow> machine \<Rightarrow> word_t \<times> machine" where
  "raise_intr NO epc args m =
    (let m = m\<lparr>csr := (csr m)\<lparr>mepc := epc, mcause := NO\<rparr>\<rparr> in (mtvec (csr m), m))"

section \<open>Register access\<close>

definition is_pmp_on :: "nat \<Rightarrow> machine \<Rightarrow> bool" where
  "is_pmp_on pmp_id m \<longleftrightarrow> pmpcfg m ! pmp_id AND PMP_A \<noteq> PMP_A_OFF"

text \<open>\<^verbatim>\<open>pmpcfg\<close> has eight entries; an index past them has no defined behaviour.\<close>

definition set_pmpcfg :: "nat \<Rightarrow> byte \<Rightarrow> machine \<Rightarrow> machine res" where
  "set_pmpcfg i d m =
    bind_res (guard (i < PMP_NUMBER_IN_SUSTEMU) Out_of_bounds) (\<lambda>_.
    let old_on = is_pmp_on i m;
        m = m\<lparr>pmpcfg := (pmpcfg m)[i := d]\<rparr>;
        new_on = is_pmp_on i m
    in Inr (if old_on \<and> \<not> new_on then m\<lparr>pmp_on_count := pmp_on_count m - 1\<rparr>
            else if \<not> old_on \<and> new_on then m\<lparr>pmp_on_count := pmp_on_count m + 1\<rparr>
            else m))"

text \<open>The loop \<^verbatim>\<open>for(i...) set_pmpcfg(i + base, (data >> (i*8)) & 0xFF)\<close>.\<close>

fun set_pmpcfg_loop :: "nat list \<Rightarrow> nat \<Rightarrow> word_t \<Rightarrow> machine \<Rightarrow> machine res" where
  "set_pmpcfg_loop [] base d m = Inr m"
| "set_pmpcfg_loop (i # is) base d m =
     bind_res (set_pmpcfg (i + base) (ucast (drop_bit (i * 8) d AND 0xFF)) m)
       (set_pmpcfg_loop is base d)"

definition set_csr :: "word_t \<Rightarrow> word_t \<Rightarrow> machine \<Rightarrow> machine res" where
  "set_csr no d m =
    (let (ok, m) = priv_check no True m in
     if \<not> ok then Inr m
     else if no = MEPC then Inr (m\<lparr>csr := (csr m)\<lparr>mepc := d\<rparr>\<rparr>)
     else if no = MCAUSE then Inr (m\<lparr>csr := (csr m)\<lparr>mcause := d\<rparr>\<rparr>)
     else if no = MTVEC then Inr (m\<lparr>csr := (csr m)\<lparr>mtvec := d\<rparr>\<rparr>)
     else if no = MHARTID then Inr m
     else if no = MTVAL then Inr (m\<lparr>csr := (csr m)\<lparr>mtval := d\<rparr>\<rparr>)
     else if no = MIP then Inr (m\<lparr>csr := (csr m)\<lparr>mip := d\<rparr>\<rparr>)
     else if no = MIE then Inr (m\<lparr>csr := (csr m)\<lparr>mie := d\<rparr>\<rparr>)
     else if no = MIDELEG then Inr (m\<lparr>csr := (csr m)\<lparr>mideleg := d\<rparr>\<rparr>)
     else if no = MEDELEG then Inr (m\<lparr>csr := (csr m)\<lparr>medeleg := d\<rparr>\<rparr>)
     else if no = MSCRATCH then Inr (m\<lparr>csr := (csr m)\<lparr>mscratch := d\<rparr>\<rparr>)
     else if no = SSTATUS then Inr (m\<lparr>csr := (csr m)\<lparr>sstatus := d\<rparr>\<rparr>)
     else if no = SIE then Inr (m\<lparr>csr := (csr m)\<lparr>sie := d\<rparr>\<rparr>)
     else if no = STVEC then Inr (m\<lparr>csr := (csr m)\<lparr>stvec := d\<rparr>\<rparr>)
     else if no = SSCRATCH then Inr (m\<lparr>csr := (csr m)\<lparr>sscratch := d\<rparr>\<rparr>)
     else if no = STVAL then Inr (m\<lparr>csr := (csr m)\<lparr>stval := d\<rparr>\<rparr>)
     else if no = SIP then Inr (m\<lparr>csr := (csr m)\<lparr>sip := d\<rparr>\<rparr>)
     else if no = SATP then Inr (m\<lparr>csr := (csr m)\<lparr>satp := d\<rparr>\<rparr>)
     else if no = PMPCFG0 then set_pmpcfg_loop [0..<8] 0 d m
     else if no = PMPCFG2 then set_pmpcfg_loop [0..<8] 8 d m
     else if no = PMPADDR0 then Inr (m\<lparr>pmpaddr := (pmpaddr m)[0 := d]\<rparr>)
     else if no = PMPADDR2 then Inr (m\<lparr>pmpaddr := (pmpaddr m)[1 := d]\<rparr>)
     else if no = PMPADDR4 then Inr (m\<lparr>pmpaddr := (pmpaddr m)[2 := d]\<rparr>)
     else if no = PMPADDR6 then Inr (m\<lparr>pmpaddr := (pmpaddr m)[3 := d]\<rparr>)
     else if no = PMPADDR8 then Inr (m\<lparr>pmpaddr := (pmpaddr m)[4 := d]\<rparr>)
     else Inr m)"

text \<open>A statistics register of a cache, 0 when the cache pointer is null.\<close>

definition cache_stat :: "nat option \<Rightarrow> (Cache \<Rightarrow> int) \<Rightarrow> machine \<Rightarrow> word_t" where
  "cache_stat p f m = (case p of None \<Rightarrow> 0 | Some c \<Rightarrow> word_of_int (f (caches m ! c)))"

definition read_pmpcfg0 :: "machine \<Rightarrow> word_t" where
  "read_pmpcfg0 m = foldl (\<lambda>val i. val OR push_bit (i * 8) (ucast (pmpcfg m ! i))) 0 [0..<8]"

definition read_csr :: "word_t \<Rightarrow> machine \<Rightarrow> (word_t \<times> machine) res" where
  "read_csr no m =
    (let (ok, m) = priv_check no False m in
     if \<not> ok then Inr (0xbadbeef, m)
     else if no = MEPC then Inr (mepc (csr m), m)
     else if no = MCAUSE then Inr (mcause (csr m), m)
     else if no = MTVEC then Inr (mtvec (csr m), m)
     else if no = MSTATUS then Inr (mstatus (csr m), m)
     else if no = MHARTID then Inr (word_of_nat (g_current_hartid m), m)
     else if no = MTVAL then Inr (mtval (csr m), m)
     else if no = MIP then Inr (mip (csr m), m)
     else if no = MIE then Inr (mie (csr m), m)
     else if no = MIDELEG then Inr (mideleg (csr m), m)
     else if no = MEDELEG then Inr (medeleg (csr m), m)
     else if no = MISA then Inr (0x8000000000001100, m)
     else if no = MSCRATCH then Inr (mscratch (csr m), m)
     else if no = SSTATUS then Inr (sstatus (csr m), m)
     else if no = SIE then Inr (sie (csr m), m)
     else if no = STVEC then Inr (stvec (csr m), m)
     else if no = SSCRATCH then Inr (sscratch (csr m), m)
     else if no = SEPC then Inr (sepc (csr m), m)
     else if no = SCAUSE then Inr (scause (csr m), m)
     else if no = STVAL then Inr (stval (csr m), m)
     else if no = SIP then Inr (sip (csr m), m)
     else if no = PMPCFG0 then Inr (read_pmpcfg0 m, m)
     else if no = PMPADDR0 then Inr (pmpaddr m ! 0, m)
     else if no = PMPADDR2 then Inr (pmpaddr m ! 1, m)
     else if no = CYCLE then Inr (g_sim_cycles m, m)
     else if no = INSTRET then Inr (g_sim_instret m, m)
     else if no = L1D_HITS then Inr (cache_stat (L1D_cache m) c_hits m, m)
     else if no = L1D_MISSES then Inr (cache_stat (L1D_cache m) c_misses m, m)
     else if no = L1I_HITS then Inr (cache_stat (L1I_cache m) c_hits m, m)
     else if no = L1I_MISSES then Inr (cache_stat (L1I_cache m) c_misses m, m)
     else if no = L2_HITS then Inr (cache_stat (L2_cache m) c_hits m, m)
     else if no = L2_MISSES then Inr (cache_stat (L2_cache m) c_misses m, m)
     else Inl Assertion_failed)"

section \<open>Physical memory protection\<close>

text \<open>\<^verbatim>\<open>while (mask & 1) { mask >>= 1; size <<= 1; }\<close>: the mask shrinks at every turn.\<close>

function napot_loop :: "word_t \<Rightarrow> word_t \<Rightarrow> word_t" where
  "napot_loop msk sz =
     (if msk AND 1 \<noteq> 0 then napot_loop (drop_bit 1 msk) (push_bit 1 sz) else sz)"
  by pat_completeness auto
termination
proof (relation "measure (\<lambda>(msk, sz). unat msk)", goal_cases)
  case 1
  then show ?case by simp
next
  case (2 msk sz)
  then have "unat msk > 0" by (metis and_zero_eq bot_nat_0.not_eq_extremum unat_eq_zero and.commute)
  then show ?case by (simp add: drop_bit_eq_div unat_div)
qed

declare napot_loop.simps [simp del]

definition pmp_range :: "nat \<Rightarrow> machine \<Rightarrow> word_t \<times> word_t" where
  "pmp_range i m =
    (let a_field = pmpcfg m ! i AND PMP_A in
     if a_field = PMP_A_TOR then
       (if i = 0 then 0 else push_bit 2 (pmpaddr m ! (i - 1)), push_bit 2 (pmpaddr m ! i))
     else if a_field = PMP_A_NA4 then
       (push_bit 2 (pmpaddr m ! i), push_bit 2 (pmpaddr m ! i) + 4)
     else if a_field = PMP_A_NAPOT then
       (let sz = napot_loop (push_bit 2 (pmpaddr m ! i) OR 3) 1;
            start = push_bit 2 (pmpaddr m ! i) AND NOT (sz - 1)
        in (start, start + sz))
     else (0, 0))"

text \<open>
  The loop over the entries: \<open>Some True\<close> for a return of true, \<open>Some False\<close> for the jump to
  the fault, \<open>None\<close> when no entry matches.
\<close>

fun pmp_scan :: "nat list \<Rightarrow> paddr_t \<Rightarrow> bool \<Rightarrow> bool \<Rightarrow> machine \<Rightarrow> bool option" where
  "pmp_scan [] addr is_execute is_write m = None"
| "pmp_scan (i # is) addr is_execute is_write m =
    (let cfg = pmpcfg m ! i; (start, stop) = pmp_range i m in
     if cfg AND PMP_A = PMP_A_OFF then pmp_scan is addr is_execute is_write m
     else if start \<le> addr \<and> addr < stop then
       if priv_level m = MACHINE \<and> cfg AND PMP_L = 0 then Some True
       else let r = (cfg AND PMP_R \<noteq> 0); w = (cfg AND PMP_W \<noteq> 0); x = (cfg AND PMP_X \<noteq> 0)
         in Some (\<not> ((is_execute \<and> \<not> x) \<or> (is_write \<and> \<not> w) \<or> (\<not> is_execute \<and> \<not> is_write \<and> \<not> r)))
     else pmp_scan is addr is_execute is_write m)"

definition pmp_check :: "paddr_t \<Rightarrow> bool \<Rightarrow> bool \<Rightarrow> machine \<Rightarrow> bool \<times> machine" where
  "pmp_check addr is_execute is_write m =
    (if pmp_on_count m = 0 \<and> priv_level m = MACHINE then (True, m)
     else case pmp_scan [0..<PMP_NUMBER_IN_SUSTEMU] addr is_execute is_write m of
       Some True \<Rightarrow> (True, m)
     | Some False \<Rightarrow> (False, abort_bad m)
     | None \<Rightarrow> if priv_level m = MACHINE then (True, m) else (False, abort_bad m))"

section \<open>Facts on privilege checks\<close>

lemma priv_check_cases:
  "priv_check no wr m = (True, m) \<or> priv_check no wr m = (False, m)
   \<or> priv_check no wr m = (False, abort_bad m)"
proof -
  have "priv_check_loop rows no wr m = (True, m) \<or> priv_check_loop rows no wr m = (False, m)
        \<or> priv_check_loop rows no wr m = (False, abort_bad m)" for rows
    by (induction rows no wr m rule: priv_check_loop.induct) auto
  then show ?thesis by (simp add: priv_check_def)
qed

text \<open>The check decides by the first row of the register and nothing else.\<close>

lemma priv_check_loop_row:
  assumes "distinct (map fst rows)" and "(no, level, rd, wr) \<in> set rows"
  shows "priv_check_loop rows no w m =
    (if priv_level m < level \<or> (if w then \<not> wr else \<not> rd) then (False, abort_bad m) else (True, m))"
  using assms
proof (induction rows no w m rule: priv_check_loop.induct)
  case (2 i lev r wt rows no w m)
  then show ?case by (cases "no = i") (force intro: rev_image_eqI)+
qed simp

lemma distinct_csr_table: "distinct (map fst csr_table)"
  by (simp add: csr_table_def)

lemmas priv_check_row = priv_check_loop_row [OF distinct_csr_table, folded priv_check_def]

lemma set_pmpcfg_ok: "i < 8 \<Longrightarrow> \<exists>m'. set_pmpcfg i d m = Inr m'"
  by (simp add: set_pmpcfg_def Let_def)

lemma pmp_check_simps [simp]:
  "cpu (snd (pmp_check a x w m)) = cpu m"
  "csr (snd (pmp_check a x w m)) = csr m"
  "pmem (snd (pmp_check a x w m)) = pmem m"
  "dev (snd (pmp_check a x w m)) = dev m"
  "caches (snd (pmp_check a x w m)) = caches m"
  "priv_level (snd (pmp_check a x w m)) = priv_level m"
  by (auto simp: pmp_check_def split: option.splits bool.splits)

section \<open>Register round trips\<close>

text \<open>
  What becomes of a write at machine level: the registers whose write case and read case name the same cells, those that
  are readable but have no write case, and those that can be written but have no read case.
\<close>

definition plain_csrs :: "word_t list" where
  "plain_csrs = [MEPC, MCAUSE, MTVEC, MTVAL, MIP, MIE, MIDELEG, MEDELEG, MSCRATCH, SSTATUS, SIE,
     STVEC, SSCRATCH, STVAL, SIP, PMPADDR0, PMPADDR2, PMPCFG0]"

definition dropped_csrs :: "word_t list" where
  "dropped_csrs = [MSTATUS, SEPC, SCAUSE]"

definition write_only_csrs :: "word_t list" where
  "write_only_csrs = [SATP, PMPADDR4, PMPADDR6, PMPADDR8, PMPCFG4, PMPCFG6, PMPCFG8, PMPCFGA, PMPCFGC, PMPCFGE]"

lemma writable_csrs:
  assumes "(no, level, rd, True) \<in> set csr_table"
  shows "no \<in> set plain_csrs \<or> no \<in> set dropped_csrs \<or> no \<in> set write_only_csrs \<or> no = PMPCFG2"
  using assms unfolding csr_table_def plain_csrs_def dropped_csrs_def write_only_csrs_def list.set
  by (elim insertE emptyE) simp_all

lemma priv_check_machine:
  assumes "priv_level m = MACHINE"
  shows
    "priv_check MEPC w m = (True, m)"
    "priv_check MCAUSE w m = (True, m)"
    "priv_check MTVEC w m = (True, m)"
    "priv_check MTVAL w m = (True, m)"
    "priv_check MIP w m = (True, m)"
    "priv_check MIE w m = (True, m)"
    "priv_check MIDELEG w m = (True, m)"
    "priv_check MEDELEG w m = (True, m)"
    "priv_check MSCRATCH w m = (True, m)"
    "priv_check SSTATUS w m = (True, m)"
    "priv_check SIE w m = (True, m)"
    "priv_check STVEC w m = (True, m)"
    "priv_check SSCRATCH w m = (True, m)"
    "priv_check STVAL w m = (True, m)"
    "priv_check SIP w m = (True, m)"
    "priv_check PMPADDR0 w m = (True, m)"
    "priv_check PMPADDR2 w m = (True, m)"
    "priv_check PMPCFG0 w m = (True, m)"
    "priv_check SATP w m = (True, m)"
    "priv_check PMPADDR4 w m = (True, m)"
    "priv_check PMPADDR6 w m = (True, m)"
    "priv_check PMPADDR8 w m = (True, m)"
    "priv_check PMPCFG4 w m = (True, m)"
    "priv_check PMPCFG6 w m = (True, m)"
    "priv_check PMPCFG8 w m = (True, m)"
    "priv_check PMPCFGA w m = (True, m)"
    "priv_check PMPCFGC w m = (True, m)"
    "priv_check PMPCFGE w m = (True, m)"
  using assms by (simp_all add: priv_check_def csr_table_def)

lemma read_csr_machine:
  assumes "priv_level m = MACHINE"
  shows
    "read_csr MEPC m = Inr (mepc (csr m), m)"
    "read_csr MCAUSE m = Inr (mcause (csr m), m)"
    "read_csr MTVEC m = Inr (mtvec (csr m), m)"
    "read_csr MTVAL m = Inr (mtval (csr m), m)"
    "read_csr MIP m = Inr (mip (csr m), m)"
    "read_csr MIE m = Inr (mie (csr m), m)"
    "read_csr MIDELEG m = Inr (mideleg (csr m), m)"
    "read_csr MEDELEG m = Inr (medeleg (csr m), m)"
    "read_csr MSCRATCH m = Inr (mscratch (csr m), m)"
    "read_csr SSTATUS m = Inr (sstatus (csr m), m)"
    "read_csr SIE m = Inr (sie (csr m), m)"
    "read_csr STVEC m = Inr (stvec (csr m), m)"
    "read_csr SSCRATCH m = Inr (sscratch (csr m), m)"
    "read_csr STVAL m = Inr (stval (csr m), m)"
    "read_csr SIP m = Inr (sip (csr m), m)"
    "read_csr PMPADDR0 m = Inr (pmpaddr m ! 0, m)"
    "read_csr PMPADDR2 m = Inr (pmpaddr m ! 1, m)"
    "read_csr PMPCFG0 m = Inr (read_pmpcfg0 m, m)"
    "read_csr SATP m = Inl Assertion_failed"
    "read_csr PMPADDR4 m = Inl Assertion_failed"
    "read_csr PMPADDR6 m = Inl Assertion_failed"
    "read_csr PMPADDR8 m = Inl Assertion_failed"
    "read_csr PMPCFG4 m = Inl Assertion_failed"
    "read_csr PMPCFG6 m = Inl Assertion_failed"
    "read_csr PMPCFG8 m = Inl Assertion_failed"
    "read_csr PMPCFGA m = Inl Assertion_failed"
    "read_csr PMPCFGC m = Inl Assertion_failed"
    "read_csr PMPCFGE m = Inl Assertion_failed"
  by (simp_all add: read_csr_def priv_check_machine [OF assms])

lemma set_csr_machine:
  assumes "priv_level m = MACHINE"
  shows
    "set_csr MEPC d m = Inr (m\<lparr>csr := (csr m)\<lparr>mepc := d\<rparr>\<rparr>)"
    "set_csr MCAUSE d m = Inr (m\<lparr>csr := (csr m)\<lparr>mcause := d\<rparr>\<rparr>)"
    "set_csr MTVEC d m = Inr (m\<lparr>csr := (csr m)\<lparr>mtvec := d\<rparr>\<rparr>)"
    "set_csr MTVAL d m = Inr (m\<lparr>csr := (csr m)\<lparr>mtval := d\<rparr>\<rparr>)"
    "set_csr MIP d m = Inr (m\<lparr>csr := (csr m)\<lparr>mip := d\<rparr>\<rparr>)"
    "set_csr MIE d m = Inr (m\<lparr>csr := (csr m)\<lparr>mie := d\<rparr>\<rparr>)"
    "set_csr MIDELEG d m = Inr (m\<lparr>csr := (csr m)\<lparr>mideleg := d\<rparr>\<rparr>)"
    "set_csr MEDELEG d m = Inr (m\<lparr>csr := (csr m)\<lparr>medeleg := d\<rparr>\<rparr>)"
    "set_csr MSCRATCH d m = Inr (m\<lparr>csr := (csr m)\<lparr>mscratch := d\<rparr>\<rparr>)"
    "set_csr SSTATUS d m = Inr (m\<lparr>csr := (csr m)\<lparr>sstatus := d\<rparr>\<rparr>)"
    "set_csr SIE d m = Inr (m\<lparr>csr := (csr m)\<lparr>sie := d\<rparr>\<rparr>)"
    "set_csr STVEC d m = Inr (m\<lparr>csr := (csr m)\<lparr>stvec := d\<rparr>\<rparr>)"
    "set_csr SSCRATCH d m = Inr (m\<lparr>csr := (csr m)\<lparr>sscratch := d\<rparr>\<rparr>)"
    "set_csr STVAL d m = Inr (m\<lparr>csr := (csr m)\<lparr>stval := d\<rparr>\<rparr>)"
    "set_csr SIP d m = Inr (m\<lparr>csr := (csr m)\<lparr>sip := d\<rparr>\<rparr>)"
    "set_csr PMPADDR0 d m = Inr (m\<lparr>pmpaddr := (pmpaddr m)[0 := d]\<rparr>)"
    "set_csr PMPADDR2 d m = Inr (m\<lparr>pmpaddr := (pmpaddr m)[1 := d]\<rparr>)"
    "set_csr SATP d m = Inr (m\<lparr>csr := (csr m)\<lparr>satp := d\<rparr>\<rparr>)"
    "set_csr PMPADDR4 d m = Inr (m\<lparr>pmpaddr := (pmpaddr m)[2 := d]\<rparr>)"
    "set_csr PMPADDR6 d m = Inr (m\<lparr>pmpaddr := (pmpaddr m)[3 := d]\<rparr>)"
    "set_csr PMPADDR8 d m = Inr (m\<lparr>pmpaddr := (pmpaddr m)[4 := d]\<rparr>)"
    "set_csr PMPCFG4 d m = Inr m"
    "set_csr PMPCFG6 d m = Inr m"
    "set_csr PMPCFG8 d m = Inr m"
    "set_csr PMPCFGA d m = Inr m"
    "set_csr PMPCFGC d m = Inr m"
    "set_csr PMPCFGE d m = Inr m"
  by (simp_all add: set_csr_def priv_check_machine [OF assms])

text \<open>The eight bytes written to the configuration registers are the eight bytes read.\<close>

lemma set_pmpcfg_shape:
  assumes "i < 8"
  shows "\<exists>k. set_pmpcfg i d m = Inr (m\<lparr>pmpcfg := (pmpcfg m)[i := d], pmp_on_count := k\<rparr>)"
proof -
  let ?on = "is_pmp_on i (m\<lparr>pmpcfg := (pmpcfg m)[i := d]\<rparr>)"
  let ?k = "if is_pmp_on i m \<and> \<not> ?on then pmp_on_count m - 1 else if \<not> is_pmp_on i m \<and> ?on then pmp_on_count m + 1 else pmp_on_count m"
  show ?thesis using assms by (intro exI [of _ ?k]) (simp add: set_pmpcfg_def Let_def)
qed

lemma set_pmpcfg_loop_result:
  assumes "\<forall>i\<in>set is. i < 8" and "length (pmpcfg m) = 8"
  shows "\<exists>k. set_pmpcfg_loop is 0 d m =
    Inr (m\<lparr>pmpcfg := fold (\<lambda>i c. c[i := ucast (drop_bit (i * 8) d AND 0xFF)]) is (pmpcfg m), pmp_on_count := k\<rparr>)"
  using assms
proof (induction "is" arbitrary: m)
  case Nil
  show ?case by (intro exI [of _ "pmp_on_count m"]) simp
next
  case (Cons i "is")
  let ?c = "(pmpcfg m)[i := ucast (drop_bit (i * 8) d AND 0xFF)]"
  obtain k where "set_pmpcfg i (ucast (drop_bit (i * 8) d AND 0xFF)) m = Inr (m\<lparr>pmpcfg := ?c, pmp_on_count := k\<rparr>)"
    using set_pmpcfg_shape Cons.prems(1) by fastforce
  then show ?case using Cons.IH [of "m\<lparr>pmpcfg := ?c, pmp_on_count := k\<rparr>"] Cons.prems by auto
qed

lemma set_pmpcfg0:
  assumes "priv_level m = MACHINE" and "length (pmpcfg m) = 8"
  shows "\<exists>k. set_csr PMPCFG0 d m = Inr (m\<lparr>pmpcfg := map (\<lambda>i. ucast (drop_bit (i * 8) d AND 0xFF)) [0..<8], pmp_on_count := k\<rparr>)"
proof -
  have u: "[0..<8] = [0, 1, 2, 3, 4, 5, 6, 7 :: nat]" by code_simp
  obtain a0 a1 a2 a3 a4 a5 a6 a7 where "pmpcfg m = [a0, a1, a2, a3, a4, a5, a6, a7]"
    using assms(2) by (auto simp: length_Suc_conv numeral_eq_Suc)
  then have "fold (\<lambda>i c. c[i := f i]) [0..<8] (pmpcfg m) = map f [0..<8]" for f unfolding u by simp
  then show ?thesis using set_pmpcfg_loop_result [of "[0..<8]" m d] assms by (simp add: set_csr_def priv_check_machine)
qed

lemma bit_fold_or: "bit (foldl (\<lambda>v i. v OR f i) z xs :: word_t) n \<longleftrightarrow> bit z n \<or> (\<exists>i\<in>set xs. bit (f i) n)"
  by (induction xs arbitrary: z) (auto simp: bit_or_iff)

lemma byte_of_and: "(ucast ((x :: word_t) AND 0xFF) :: byte) = ucast x"
proof (rule bit_word_eqI)
  fix n
  assume n: "n < LENGTH(8)"
  have m: "(0xFF :: word_t) = mask 8" by (simp add: mask_eq_exp_minus_1)
  show "bit (ucast (x AND 0xFF) :: byte) n = bit (ucast x :: byte) n"
    unfolding m using n by (simp add: bit_ucast_iff bit_and_iff bit_mask_iff)
qed

lemma read_pmpcfg0_bytes: "read_pmpcfg0 (m\<lparr>pmpcfg := map (\<lambda>i. ucast (drop_bit (i * 8) d AND 0xFF)) [0..<8], pmp_on_count := k\<rparr>) = d"
proof (rule bit_word_eqI)
  fix n
  assume n: "n < LENGTH(64)"
  let ?m = "m\<lparr>pmpcfg := map (\<lambda>i. ucast (drop_bit (i * 8) d AND 0xFF)) [0..<8], pmp_on_count := k\<rparr>"
  have "bit (push_bit (i * 8) (ucast (pmpcfg ?m ! i)) :: word_t) n \<longleftrightarrow> i = n div 8 \<and> bit d n" if "i < 8" for i
  proof -
    have "bit (push_bit (i * 8) (ucast (pmpcfg ?m ! i)) :: word_t) n \<longleftrightarrow> i * 8 \<le> n \<and> n - i * 8 < 8 \<and> bit d n"
      using that n by (auto simp: bit_push_bit_iff bit_ucast_iff bit_drop_bit_eq byte_of_and simp del: upt_Suc)
    also have "\<dots> \<longleftrightarrow> i = n div 8 \<and> bit d n" by auto
    finally show ?thesis .
  qed
  moreover have "n div 8 < 8" using n by simp
  ultimately show "bit (read_pmpcfg0 ?m) n = bit d n" unfolding read_pmpcfg0_def bit_fold_or by auto
qed

lemma set_csr_dropped:
  assumes "no \<in> set dropped_csrs" and "priv_level m = MACHINE"
  shows "set_csr no d m = Inr m"
  using assms(1) unfolding dropped_csrs_def list.set
  by (elim insertE emptyE; hypsubst) (simp_all add: set_csr_def priv_check_def csr_table_def assms(2))

text \<open>
  C12. What a CSR write at machine level does, for every register that \<^verbatim>\<open>csr_table\<close> marks writable. Eighteen of them
  (\<open>plain_csrs\<close>) then read back as written. mstatus, sepc and scause have no case in \<^verbatim>\<open>set_csr\<close>, the write changes nothing.
  satp and the higher PMP registers are accepted but reading them fails the assertion of \<^verbatim>\<open>read_csr\<close>, and a write to pmpcfg2 indexes past the
  array. Unless it fails, a write changes the value of no other plain register.
\<close>

theorem csr_write_read:
  assumes "(no, level, rd, True) \<in> set csr_table" and "priv_level m = MACHINE" and "length (pmpaddr m) = 8" and "length (pmpcfg m) = 8"
  shows "if no = PMPCFG2 then set_csr no d m = Inl Out_of_bounds
    else \<exists>m'. set_csr no d m = Inr m' \<and>
      (if no \<in> set plain_csrs then read_csr no m' = Inr (d, m')
       else if no \<in> set dropped_csrs then m' = m
       else read_csr no m' = Inl Assertion_failed) \<and>
      (\<forall>no'\<in>set plain_csrs. no' \<noteq> no \<longrightarrow> map_sum id fst (read_csr no' m') = map_sum id fst (read_csr no' m))"
proof -
  let ?same = "\<lambda>m'. \<forall>no'\<in>set plain_csrs. no' \<noteq> no \<longrightarrow> map_sum id fst (read_csr no' m') = map_sum id fst (read_csr no' m)"
  consider (plain) "no \<in> set plain_csrs" "no \<noteq> PMPCFG0" | (cfg) "no = PMPCFG0" | (dropped) "no \<in> set dropped_csrs"
    | (unread) "no \<in> set write_only_csrs" | (past) "no = PMPCFG2"
    using writable_csrs [OF assms(1)] by blast
  then show ?thesis
  proof cases
    case plain
    have "\<exists>m'. set_csr no d m = Inr m' \<and> read_csr no m' = Inr (d, m') \<and> ?same m'"
      using plain unfolding plain_csrs_def list.set
      by (elim insertE emptyE; hypsubst) (simp_all only: set_csr_machine [OF assms(2)], simp_all add: read_csr_machine read_pmpcfg0_def assms)
    moreover have "no \<noteq> PMPCFG2" using plain by (auto simp: plain_csrs_def)
    ultimately show ?thesis using plain by simp
  next
    case cfg
    obtain k where "set_csr PMPCFG0 d m = Inr (m\<lparr>pmpcfg := map (\<lambda>i. ucast (drop_bit (i * 8) d AND 0xFF)) [0..<8], pmp_on_count := k\<rparr>)"
      using set_pmpcfg0 [OF assms(2,4)] by blast
    then show ?thesis
      using cfg assms(2) by (simp add: read_csr_machine read_pmpcfg0_bytes plain_csrs_def del: upt_Suc)
  next
    case dropped
    then have "no \<noteq> PMPCFG2" "no \<notin> set plain_csrs" by (auto simp: dropped_csrs_def plain_csrs_def)
    then show ?thesis using dropped set_csr_dropped [OF dropped assms(2)] by simp
  next
    case unread
    then have "\<exists>m'. set_csr no d m = Inr m' \<and> read_csr no m' = Inl Assertion_failed \<and> ?same m'"
      unfolding write_only_csrs_def plain_csrs_def list.set
      by (elim insertE emptyE; hypsubst) (simp_all only: set_csr_machine [OF assms(2)], simp_all add: read_csr_machine read_pmpcfg0_def assms)
    moreover have "no \<noteq> PMPCFG2" "no \<notin> set plain_csrs" "no \<notin> set dropped_csrs"
      using unread by (auto simp: write_only_csrs_def plain_csrs_def dropped_csrs_def)
    ultimately show ?thesis by simp
  next
    case past
    then show ?thesis by (simp add: set_csr_def priv_check_def csr_table_def assms(2) upt_conv_Cons set_pmpcfg_def)
  qed
qed

theorem csr_write_read_witness:
  "\<exists>m'. set_csr MTVEC 0x80000100 zero_machine = Inr m' \<and> read_csr MTVEC m' = Inr (0x80000100, m') \<and>
    map_sum id fst (read_csr MEPC m') = map_sum id fst (read_csr MEPC zero_machine)"
  using csr_write_read [of MTVEC MACHINE True zero_machine "0x80000100"]
  by (auto simp: plain_csrs_def zero_machine_def csr_table_def)

section \<open>Traps\<close>

lemma bit_18000: "bit (0x18000 :: word_t) n \<longleftrightarrow> n = 15 \<or> n = 16"
proof -
  have e: "(0x18000 :: word_t) = push_bit 15 (mask 2)" by (simp add: mask_eq_exp_minus_1)
  show ?thesis unfolding e bit_push_bit_iff bit_mask_iff by auto
qed

lemma exception_mpp_bits:
  assumes "priv_level m < 4"
  shows "mstatus (csr (exception_priv_transfer m)) AND 0x18000 = 0"
proof (rule bit_word_eqI)
  fix n
  have "\<not> bit (priv_level m) 4" "\<not> bit (priv_level m) 5"
    using word_bit_above [of "priv_level m" 2] assms by (simp_all add: word_less_nat_alt)
  moreover have "\<not> bit (mstatus (csr (exception_priv_transfer m))) 15 \<longleftrightarrow> \<not> bit (priv_level m) 4"
    by (simp add: exception_priv_transfer_def Let_def bit_simps)
  moreover have "\<not> bit (mstatus (csr (exception_priv_transfer m))) 16 \<longleftrightarrow> \<not> bit (priv_level m) 5"
    by (simp add: exception_priv_transfer_def Let_def bit_simps)
  ultimately show "bit (mstatus (csr (exception_priv_transfer m)) AND 0x18000) n = bit (0::word_t) n"
    unfolding bit_and_iff bit_18000 by auto
qed

text \<open>
  C14. A trap followed by \<^verbatim>\<open>mret\<close> restores the interrupt-enable bit and sets MPIE, but always
  lands at user level: both functions address the saved level with the mask 0x18000 (bits 15 and 16)
  while \<^verbatim>\<open>exception_priv_transfer\<close> stores it at bits 11 and 12.
\<close>

theorem trap_return:
  assumes "priv_level m < 4"
  defines "m' \<equiv> mret_priv_transfer (exception_priv_transfer m)"
  shows "priv_level m' = USER \<and> (bit (mstatus (csr m')) 3 \<longleftrightarrow> bit (mstatus (csr m)) 3) \<and> bit (mstatus (csr m')) 7"
proof -
  have "priv_level m' = USER"
    using exception_mpp_bits [OF assms(1)] by (simp add: m'_def mret_priv_transfer_def Let_def)
  moreover have "bit (mstatus (csr m')) 3 \<longleftrightarrow> bit (mstatus (csr m)) 3" "bit (mstatus (csr m')) 7"
    by (simp_all add: m'_def mret_priv_transfer_def exception_priv_transfer_def Let_def bit_simps)
  ultimately show ?thesis by blast
qed

theorem trap_return_witness:
  "priv_level zero_machine = MACHINE \<and>
   priv_level (mret_priv_transfer (exception_priv_transfer zero_machine)) = USER"
  using trap_return [of zero_machine] by (simp add: zero_machine_def)

section \<open>The count of active entries\<close>

text \<open>\<^verbatim>\<open>pmp_on_count\<close> is the number of entries whose A field is not OFF.\<close>

definition pmp_inv :: "machine \<Rightarrow> bool" where
  "pmp_inv m \<longleftrightarrow> length (pmpcfg m) = 8 \<and> length (pmpaddr m) = 8 \<and>
     unat (pmp_on_count m) = length (filter (\<lambda>i. is_pmp_on i m) [0..<8])"

lemma is_pmp_on_count [simp]: "is_pmp_on j (x\<lparr>pmp_on_count := k\<rparr>) = is_pmp_on j x"
  by (simp add: is_pmp_on_def)

lemma set_pmpcfg_inv:
  assumes "pmp_inv m" and "set_pmpcfg i d m = Inr m'"
  shows "pmp_inv m'"
proof -
  from assms(2) have i: "i < 8" by (auto simp: set_pmpcfg_def)
  define m1 where "m1 = m\<lparr>pmpcfg := (pmpcfg m)[i := d]\<rparr>"
  have c: "length (filter (\<lambda>j. is_pmp_on j m) [0..<8]) + of_bool (is_pmp_on i m1)
         = length (filter (\<lambda>j. is_pmp_on j m1) [0..<8]) + of_bool (is_pmp_on i m)"
    by (rule filter_upt_update) (use i in \<open>auto simp: m1_def is_pmp_on_def\<close>)
  have le: "length (filter (\<lambda>j. is_pmp_on j m) [0..<8]) \<le> 8" by (rule length_filter_upt_le)
  have n: "unat (pmp_on_count m) = length (filter (\<lambda>j. is_pmp_on j m) [0..<8])"
    using assms(1) by (simp add: pmp_inv_def)
  have sub: "unat (pmp_on_count m - 1) = unat (pmp_on_count m) - 1" if "unat (pmp_on_count m) > 0"
    using that by (metis unat_gt_0 unat_minus_one)
  have add: "unat (pmp_on_count m + 1) = unat (pmp_on_count m) + 1"
    using le n by (subst unat_word_ariths) simp
  have len: "length (pmpcfg m1) = 8" "length (pmpaddr m1) = 8" "pmp_on_count m1 = pmp_on_count m"
    using assms(1) by (simp_all add: pmp_inv_def m1_def)
  from assms(2) i have "m' = (if is_pmp_on i m \<and> \<not> is_pmp_on i m1 then m1\<lparr>pmp_on_count := pmp_on_count m1 - 1\<rparr>
     else if \<not> is_pmp_on i m \<and> is_pmp_on i m1 then m1\<lparr>pmp_on_count := pmp_on_count m1 + 1\<rparr> else m1)"
    unfolding set_pmpcfg_def Let_def m1_def [symmetric] by simp
  then consider (off) "is_pmp_on i m" "\<not> is_pmp_on i m1" "m' = m1\<lparr>pmp_on_count := pmp_on_count m - 1\<rparr>"
    | (on) "\<not> is_pmp_on i m" "is_pmp_on i m1" "m' = m1\<lparr>pmp_on_count := pmp_on_count m + 1\<rparr>"
    | (same) "is_pmp_on i m = is_pmp_on i m1" "m' = m1"
    using len by (auto split: if_splits)
  then show ?thesis
    by cases (use c n sub add len in \<open>simp_all add: pmp_inv_def\<close>)
qed

lemma set_pmpcfg_loop_inv:
  "set_pmpcfg_loop is base d m = Inr m' \<Longrightarrow> pmp_inv m \<Longrightarrow> pmp_inv m'"
  by (induction "is" base d m rule: set_pmpcfg_loop.induct) (auto dest: set_pmpcfg_inv)

lemma pmp_inv_upd [simp]:
  "pmp_inv (m\<lparr>csr := c\<rparr>) = pmp_inv m"
  "pmp_inv (abort_bad m) = pmp_inv m"
  "pmp_inv (m\<lparr>pmpaddr := (pmpaddr m)[i := d]\<rparr>) = pmp_inv m"
  by (simp_all add: pmp_inv_def is_pmp_on_def)

text \<open>
  C11. Every CSR write, whatever the register, the value and the level, keeps the count of active PMP entries
  equal to the number of entries that are on, with both register files at eight entries.
\<close>

theorem set_csr_pmp_inv:
  assumes "pmp_inv m" and "set_csr no d m = Inr m'"
  shows "pmp_inv m'"
proof -
  have *: "set_pmpcfg_loop is base d m = Inr m' \<Longrightarrow> pmp_inv m'" for "is" base
    using set_pmpcfg_loop_inv assms(1) by blast
  show ?thesis
    using assms * priv_check_cases [of no True m]
    by (auto simp: set_csr_def split: if_splits simp del: upt_Suc)
qed

theorem set_csr_pmp_inv_witness:
  "\<exists>m'. set_csr PMPCFG0 0x1f00 zero_machine = Inr m' \<and> pmp_inv m' \<and> pmp_on_count zero_machine = 0 \<and> pmp_on_count m' = 1"
proof -
  have i: "pmp_inv zero_machine" by (simp add: pmp_inv_def is_pmp_on_def zero_machine_def upt_conv_Cons)
  have z: "priv_level zero_machine = MACHINE" "length (pmpcfg zero_machine) = 8" "pmp_on_count zero_machine = 0" by (simp_all add: zero_machine_def)
  obtain k where k: "set_csr PMPCFG0 0x1f00 zero_machine =
      Inr (zero_machine\<lparr>pmpcfg := map (\<lambda>i. ucast (drop_bit (i * 8) (0x1f00 :: word_t) AND 0xFF)) [0..<8], pmp_on_count := k\<rparr>)"
    using set_pmpcfg0 [OF z(1,2)] by blast
  have p: "pmp_inv (zero_machine\<lparr>pmpcfg := map (\<lambda>i. ucast (drop_bit (i * 8) (0x1f00 :: word_t) AND 0xFF)) [0..<8], pmp_on_count := k\<rparr>)"
    by (rule set_csr_pmp_inv [OF i k])
  have "map (\<lambda>i. ucast (drop_bit (i * 8) (0x1f00 :: word_t) AND 0xFF) :: byte) [0..<8] = [0, 0x1f, 0, 0, 0, 0, 0, 0]" by code_simp
  with p have "unat k = 1" by (simp add: pmp_inv_def is_pmp_on_def upt_conv_Cons)
  then have "k = 1" by (simp add: word_unat_eq_iff)
  then show ?thesis using k p z(3) by auto
qed

section \<open>The permission decision\<close>

text \<open>The reference: the first entry whose range holds the address decides.\<close>

definition pmp_allows :: "paddr_t \<Rightarrow> bool \<Rightarrow> bool \<Rightarrow> machine \<Rightarrow> bool" where
  "pmp_allows addr ex wr m =
    (case filter (\<lambda>i. is_pmp_on i m \<and> fst (pmp_range i m) \<le> addr \<and> addr < snd (pmp_range i m)) [0..<8] of
       [] \<Rightarrow> priv_level m = MACHINE
     | i # _ \<Rightarrow> priv_level m = MACHINE \<and> pmpcfg m ! i AND PMP_L = 0 \<or>
         (if ex then pmpcfg m ! i AND PMP_X \<noteq> 0 \<and> (wr \<longrightarrow> pmpcfg m ! i AND PMP_W \<noteq> 0)
          else if wr then pmpcfg m ! i AND PMP_W \<noteq> 0 else pmpcfg m ! i AND PMP_R \<noteq> 0))"

lemma pmp_scan_filter:
  "pmp_scan is addr ex wr m =
    (case filter (\<lambda>i. is_pmp_on i m \<and> fst (pmp_range i m) \<le> addr \<and> addr < snd (pmp_range i m)) is of
       [] \<Rightarrow> None
     | i # _ \<Rightarrow> Some (priv_level m = MACHINE \<and> pmpcfg m ! i AND PMP_L = 0 \<or>
         (if ex then pmpcfg m ! i AND PMP_X \<noteq> 0 \<and> (wr \<longrightarrow> pmpcfg m ! i AND PMP_W \<noteq> 0)
          else if wr then pmpcfg m ! i AND PMP_W \<noteq> 0 else pmpcfg m ! i AND PMP_R \<noteq> 0)))"
  by (induction "is") (auto simp: is_pmp_on_def Let_def split: prod.splits)

text \<open>
  C10. The permission check, with its shortcut on the active count, decides as the first matching entry does:
  access is granted or the simulator is put in the abort state, and nothing else of the machine changes.
\<close>

theorem pmp_check_first_match:
  assumes "pmp_inv m"
  shows "pmp_check addr ex wr m = (if pmp_allows addr ex wr m then (True, m) else (False, abort_bad m))"
proof (cases "pmp_on_count m = 0 \<and> priv_level m = MACHINE")
  case True
  with assms have "filter (\<lambda>i. is_pmp_on i m) [0..<8] = []"
    unfolding pmp_inv_def by (metis length_0_conv unat_0)
  then have "filter (\<lambda>i. is_pmp_on i m \<and> fst (pmp_range i m) \<le> addr \<and> addr < snd (pmp_range i m)) [0..<8] = []"
    by (auto simp only: filter_empty_conv)
  with True show ?thesis by (simp add: pmp_check_def pmp_allows_def del: upt_Suc)
next
  case False
  then show ?thesis
    by (auto simp: pmp_check_def pmp_allows_def pmp_scan_filter simp del: upt_Suc split: list.splits)
qed

theorem pmp_check_first_match_witness:
  "pmp_check 0x80000000 False False (zero_machine\<lparr>priv_level := USER\<rparr>)
     = (False, abort_bad (zero_machine\<lparr>priv_level := USER\<rparr>))"
proof -
  have i: "pmp_inv (zero_machine\<lparr>priv_level := USER\<rparr>)"
    by (simp add: pmp_inv_def is_pmp_on_def zero_machine_def upt_conv_Cons)
  have "\<not> pmp_allows 0x80000000 False False (zero_machine\<lparr>priv_level := USER\<rparr>)"
    by (simp add: pmp_allows_def is_pmp_on_def zero_machine_def upt_conv_Cons)
  with pmp_check_first_match [OF i] show ?thesis by simp
qed

lemma napot_loop_ones:
  assumes "take_bit (Suc n) msk = mask n" and "n < 64"
  shows "napot_loop msk sz = push_bit n sz"
  using assms
proof (induction n arbitrary: msk sz)
  case 0
  then have "\<not> bit msk 0" by (metis bit_0 even_take_bit_eq mask_0 zero_less_Suc even_zero nat.distinct(1))
  then have "msk AND 1 = 0" by (simp add: and_one_eq bit_0 even_iff_mod_2_eq_zero)
  then show ?case by (subst napot_loop.simps) simp
next
  case (Suc n)
  have b: "bit msk i \<longleftrightarrow> i < Suc n" if "i < Suc (Suc n)" for i
    using arg_cong [OF Suc.prems(1), of "\<lambda>w. bit w i"] that Suc.prems(2) by (simp add: bit_simps)
  have "take_bit (Suc n) (drop_bit 1 msk) = mask n"
    by (rule bit_word_eqI) (use b Suc.prems(2) in \<open>auto simp: bit_simps\<close>)
  moreover have "msk AND 1 \<noteq> 0" using b [of 0] by (simp add: and_one_eq bit_0 odd_iff_mod_2_eq_one)
  ultimately show ?case
    using Suc.IH [of "drop_bit 1 msk"] Suc.prems(2)
    by (subst napot_loop.simps) (simp add: add.commute)
qed

text \<open>
  C13. An entry in NAPOT mode whose address register ends in k one-bits below a zero bit covers the
  aligned region of 2^(k+2) bytes. The privileged architecture gives the encoding 2^(k+3) bytes.
\<close>

theorem napot_range_half:
  assumes "pmpcfg m ! i AND PMP_A = PMP_A_NAPOT" 
    and "take_bit (Suc k) (pmpaddr m ! i) = mask k" and "k < 61"
  defines "start \<equiv> push_bit 2 (pmpaddr m ! i) AND NOT (2 ^ (k + 2) - 1)"
  shows "pmp_range i m = (start, start + 2 ^ (k + 2))"
proof -
  have b: "bit (pmpaddr m ! i) j \<longleftrightarrow> j < k" if "j < Suc k" for j
    using arg_cong [OF assms(2), of "\<lambda>w. bit w j"] that assms(3) by (simp add: bit_simps)
  have 3: "bit (3::word_t) j \<longleftrightarrow> j < 2" for j
  proof -
    have e: "(3::word_t) = mask 2" by (simp add: mask_eq_exp_minus_1)
    show ?thesis unfolding e bit_mask_iff by auto
  qed
  have t: "take_bit (Suc (k + 2)) (push_bit 2 (pmpaddr m ! i) OR 3) = mask (k + 2)"
  proof (rule bit_word_eqI)
    fix j assume "j < LENGTH(64)"
    then have "bit (pmpaddr m ! i) (j - 2) \<longleftrightarrow> j < k + 2" if "2 \<le> j" "j < Suc (k + 2)"
      using b [of "j - 2"] that by auto
    then show "bit (take_bit (Suc (k + 2)) (push_bit 2 (pmpaddr m ! i) OR 3)) j = bit (mask (k + 2) :: word_t) j"
      using assms(3) unfolding bit_take_bit_iff bit_or_iff bit_push_bit_iff 3 bit_mask_iff by auto
  qed
  have "napot_loop (push_bit 2 (pmpaddr m ! i) OR 3) 1 = 2 ^ (k + 2)"
    using napot_loop_ones [OF t, of 1] assms(3) by (simp add: push_bit_eq_mult)
  then show ?thesis
    using assms(1) unfolding pmp_range_def Let_def start_def by simp
qed

theorem napot_range_half_witness:
  "pmp_range 0 (zero_machine\<lparr>pmpcfg := 0x18 # replicate 7 0, pmpaddr := 0x20000001 # replicate 7 0\<rparr>)
     = (0x80000000, 0x80000008)"
proof -
  let ?m = "zero_machine\<lparr>pmpcfg := 0x18 # replicate 7 0, pmpaddr := 0x20000001 # replicate 7 0\<rparr>"
  have a: "pmpaddr ?m ! 0 = 0x20000001" by simp
  have c: "pmpcfg ?m ! 0 AND PMP_A = PMP_A_NAPOT" by simp
  have t: "take_bit (Suc 1) (pmpaddr ?m ! 0) = mask 1" unfolding a by code_simp
  have s: "push_bit 2 0x20000001 AND NOT (2 ^ (1 + 2) - 1) = (0x80000000 :: word_t)" by code_simp
  have e: "0x80000000 + 2 ^ (1 + 2) = (0x80000008 :: word_t)" by code_simp
  have k: "(1::nat) < 61" by simp
  show ?thesis using napot_range_half [OF c t k] unfolding a s e .
qed

end
