(* ===== verification/Ring.thy ===== *)
theory Ring
  imports Prelude
begin

text \<open>
  Bounded FIFO queues. The locale \<open>fifo\<close> is the contract of an enqueue that may refuse and a dequeue
  that may find nothing; \<open>ring_contents\<close> reads a circular array with a head and a tail index as a list,
  and its two lemmas are what an implementation on such an array needs to meet the contract.
\<close>

section \<open>Circular arrays\<close>

definition ring_len :: "nat \<Rightarrow> nat \<Rightarrow> nat \<Rightarrow> nat" where
  "ring_len n f r = (r + n - f) mod n"

definition ring_contents :: "'a list \<Rightarrow> nat \<Rightarrow> nat \<Rightarrow> 'a list" where
  "ring_contents q f r = map (\<lambda>i. q ! ((f + i) mod length q)) [0..<ring_len (length q) f r]"

lemma length_ring_contents [simp]: "length (ring_contents q f r) = ring_len (length q) f r"
  by (simp add: ring_contents_def)

lemma ring_len_cases:
  assumes "f < n" and "r < n"
  shows "ring_len n f r = (if f \<le> r then r - f else r + n - f)"
proof (cases "f \<le> r")
  case True
  then have "r + n - f = (r - f) + n" by simp
  with True assms show ?thesis by (simp add: ring_len_def del: add_diff_assoc2)
next
  case False
  with assms show ?thesis by (simp add: ring_len_def)
qed

lemma Suc_mod_cases: "r < n \<Longrightarrow> Suc r mod n = (if Suc r = n then 0 else Suc r)"
  by simp

lemma ring_len_enq:
  assumes "f < n" and "r < n" and "(r + 1) mod n \<noteq> f"
  shows "ring_len n f ((r + 1) mod n) = Suc (ring_len n f r)"
  using assms unfolding Suc_eq_plus1 [symmetric]
  by (cases "Suc r = n") (auto simp: ring_len_cases Suc_mod_cases)

lemma ring_full_iff:
  assumes "f < n" and "r < n"
  shows "(r + 1) mod n = f \<longleftrightarrow> Suc (ring_len n f r) = n"
  using assms unfolding Suc_eq_plus1 [symmetric]
  by (cases "Suc r = n") (auto simp: ring_len_cases Suc_mod_cases)

lemma ring_len_deq:
  assumes "f < n" and "r < n" and "f \<noteq> r"
  shows "ring_len n f r = Suc (ring_len n ((f + 1) mod n) r)"
  using assms unfolding Suc_eq_plus1 [symmetric]
  by (cases "Suc f = n") (auto simp: ring_len_cases Suc_mod_cases)

lemma ring_empty_iff:
  assumes "f < n" and "r < n"
  shows "ring_len n f r = 0 \<longleftrightarrow> f = r"
  using assms by (auto simp: ring_len_cases)

lemma ring_index_ne:
  assumes "f < n" and "r < n" and "i < ring_len n f r"
  shows "(f + i) mod n \<noteq> r"
proof -
  from assms have i: "i < n" by (auto simp: ring_len_cases split: if_splits)
  then have "(f + i) mod n = (if f + i < n then f + i else f + i - n)"
    using assms(1) by (auto simp: le_mod_geq)
  with assms i show ?thesis by (auto simp: ring_len_cases split: if_splits)
qed

lemma ring_index_end:
  assumes "f < n" and "r < n"
  shows "(f + ring_len n f r) mod n = r"
  using assms by (auto simp: ring_len_cases)

lemma ring_contents_enq:
  assumes "f < length q" and "r < length q" and "(r + 1) mod length q \<noteq> f"
  shows "ring_contents (q[r := x]) f ((r + 1) mod length q) = ring_contents q f r @ [x]"
proof -
  have "map (\<lambda>i. q[r := x] ! ((f + i) mod length q)) [0..<ring_len (length q) f r] = ring_contents q f r"
    using ring_index_ne [OF assms(1,2), symmetric] by (auto simp: ring_contents_def nth_list_update_neq)
  moreover have "q[r := x] ! ((f + ring_len (length q) f r) mod length q) = x"
    using ring_index_end [OF assms(1,2)] assms(2) by simp
  ultimately show ?thesis
    by (simp add: ring_contents_def ring_len_enq [OF assms, simplified])
qed

lemma ring_contents_deq:
  assumes "f < length q" and "r < length q" and "f \<noteq> r"
  shows "ring_contents q f r = q ! f # ring_contents q ((f + 1) mod length q) r"
proof -
  let ?n = "length q"
  have "ring_contents q f r = map (\<lambda>i. q ! ((f + i) mod ?n)) (0 # map Suc [0..<ring_len ?n ((f + 1) mod ?n) r])"
    unfolding ring_contents_def ring_len_deq [OF assms] by (simp add: map_Suc_upt upt_conv_Cons del: upt_Suc)
  also have "\<dots> = q ! f # map (\<lambda>i. q ! ((f + Suc i) mod ?n)) [0..<ring_len ?n ((f + 1) mod ?n) r]"
    using assms(1) by (simp add: comp_def)
  also have "(\<lambda>i. q ! ((f + Suc i) mod ?n)) = (\<lambda>i. q ! (((f + 1) mod ?n + i) mod ?n))"
    by (simp add: mod_add_left_eq)
  finally show ?thesis by (simp add: ring_contents_def)
qed

section \<open>The queue contract\<close>

fun enq_all :: "('a \<Rightarrow> 's \<Rightarrow> 's res) \<Rightarrow> 'a list \<Rightarrow> 's \<Rightarrow> 's res" where
  "enq_all enq [] s = Inr s"
| "enq_all enq (x # xs) s = bind_res (enq x s) (enq_all enq xs)"

fun deq_n :: "('s \<Rightarrow> 'a \<times> 's) \<Rightarrow> nat \<Rightarrow> 's \<Rightarrow> 'a list \<times> 's" where
  "deq_n deq 0 s = ([], s)"
| "deq_n deq (Suc n) s = (let (x, s) = deq s; (xs, s) = deq_n deq n s in (x # xs, s))"

locale fifo =
  fixes inv :: "'s \<Rightarrow> bool"
    and contents :: "'s \<Rightarrow> 'a list"
    and cap :: nat
    and enq :: "'a \<Rightarrow> 's \<Rightarrow> 's res"
    and deq :: "'s \<Rightarrow> 'a \<times> 's"
    and none :: 'a
  assumes enq_ok: "inv s \<Longrightarrow> length (contents s) < cap \<Longrightarrow>
      \<exists>s'. enq x s = Inr s' \<and> inv s' \<and> contents s' = contents s @ [x]"
    and enq_full: "inv s \<Longrightarrow> length (contents s) = cap \<Longrightarrow> enq x s = Inl Assertion_failed"
    and deq_cons: "inv s \<Longrightarrow> contents s = x # xs \<Longrightarrow>
      \<exists>s'. deq s = (x, s') \<and> inv s' \<and> contents s' = xs"
    and deq_nil: "inv s \<Longrightarrow> contents s = [] \<Longrightarrow>
      \<exists>s'. deq s = (none, s') \<and> inv s' \<and> contents s' = []"
begin

lemma enq_all_ok:
  assumes "inv s" and "length (contents s) + length xs \<le> cap"
  shows "\<exists>s'. enq_all enq xs s = Inr s' \<and> inv s' \<and> contents s' = contents s @ xs"
  using assms
proof (induction xs arbitrary: s)
  case (Cons x xs)
  then obtain s1 where s1: "enq x s = Inr s1" "inv s1" "contents s1 = contents s @ [x]"
    using enq_ok [of s x] by auto
  with Cons.IH [of s1] Cons.prems show ?case by auto
qed simp

lemma deq_n_ok:
  assumes "inv s" and "contents s = xs @ ys"
  shows "\<exists>s'. deq_n deq (length xs) s = (xs, s') \<and> inv s' \<and> contents s' = ys"
  using assms
proof (induction xs arbitrary: s)
  case (Cons x xs)
  then obtain s1 where "deq s = (x, s1)" "inv s1" "contents s1 = xs @ ys"
    using deq_cons [of s x "xs @ ys"] by auto
  with Cons.IH [of s1] show ?case by auto
qed simp

text \<open>What goes in comes out in the same order, after what was there.\<close>

lemma fifo_order:
  assumes "inv s" and "contents s = []" and "length xs \<le> cap"
  shows "\<exists>s1 s2. enq_all enq xs s = Inr s1 \<and> deq_n deq (length xs) s1 = (xs, s2) \<and> fst (deq s2) = none"
proof -
  obtain s1 where s1: "enq_all enq xs s = Inr s1" "inv s1" "contents s1 = xs @ []"
    using enq_all_ok [OF assms(1), of xs] assms(2,3) by auto
  then obtain s2 where s2: "deq_n deq (length xs) s1 = (xs, s2)" "inv s2" "contents s2 = []"
    using deq_n_ok by blast
  with s1 deq_nil [of s2] show ?thesis by fastforce
qed

lemma overflow:
  assumes "inv s" and "contents s = []" and "cap < length xs"
  shows "enq_all enq xs s = Inl Assertion_failed"
proof -
  have "\<exists>s1. enq_all enq (take cap xs) s = Inr s1 \<and> inv s1 \<and> contents s1 = take cap xs"
    using enq_all_ok [OF assms(1), of "take cap xs"] assms(2,3) by simp
  then obtain s1 where s1: "enq_all enq (take cap xs) s = Inr s1" "inv s1" "contents s1 = take cap xs"
    by blast
  have app: "enq_all enq (ys @ zs) s = bind_res (enq_all enq ys s) (enq_all enq zs)" for ys zs s
  proof (induction ys arbitrary: s)
    case (Cons y ys)
    then have "enq_all enq (ys @ zs) = (\<lambda>s. bind_res (enq_all enq ys s) (enq_all enq zs))" by blast
    then show ?case by (simp add: bind_res_assoc)
  qed simp
  obtain z zs where "drop cap xs = z # zs"
    using assms(3) by (metis Cons_nth_drop_Suc)
  then have "xs = take cap xs @ z # zs" by (metis append_take_drop_id)
  then have "enq_all enq xs s = bind_res (enq_all enq (take cap xs) s) (enq_all enq (z # zs))"
    using app by metis
  with s1 enq_full [OF s1(2), of z] assms(3) show ?thesis by simp
qed

end

end
