(* ===== verification/Mmio.thy ===== *)
theory Mmio
  imports Sim_State Ring
begin

text \<open>
  Memory-mapped devices: host accesses of \<^verbatim>\<open>src/memory/pmem.c\<close>, the device map of
  \<^verbatim>\<open>src/memory/mmio.c\<close>, and the serial port, timer, keyboard, display and flash of
  \<^verbatim>\<open>src/device\<close>. Calls to the SDL library have no counterpart here; the scan codes it gives its
  keys are the parameter \<open>sdl_scancode\<close> of \<open>init_keymap\<close>, and the image a flash file holds is the
  parameter of \<open>init_flash\<close>.
\<close>

section \<open>Host accesses (pmem.c)\<close>

abbreviation (input) access_len :: "nat \<Rightarrow> bool" where
  "access_len n \<equiv> n = 1 \<or> n = 2 \<or> n = 4 \<or> n = 8"

text \<open>The bytes an access of \<open>len\<close> at offset \<open>off\<close> touches lie in an array of size \<open>sz\<close>.\<close>

definition in_bounds :: "nat \<Rightarrow> nat \<Rightarrow> nat \<Rightarrow> bool" where
  "in_bounds off len sz \<longleftrightarrow> (access_len len \<longrightarrow> off + len \<le> sz)"

definition host_read :: "(nat \<Rightarrow> byte) \<Rightarrow> nat \<Rightarrow> nat \<Rightarrow> word_t" where
  "host_read mem addr len =
     (if len = 1 \<or> len = 2 \<or> len = 4 \<or> len = 8 then word_of_bytes (load_bytes mem addr len) else 0)"

definition host_write :: "(nat \<Rightarrow> byte) \<Rightarrow> nat \<Rightarrow> nat \<Rightarrow> word_t \<Rightarrow> (nat \<Rightarrow> byte)" where
  "host_write mem addr len d =
     (if len = 1 \<or> len = 2 \<or> len = 4 \<or> len = 8 then store_bytes mem addr (bytes_of_word len d) else mem)"

section \<open>Device memory (mmio.c)\<close>

abbreviation (input) NR_MAP :: nat where "NR_MAP \<equiv> 16"
abbreviation (input) IO_SPACE_MAX :: nat where "IO_SPACE_MAX \<equiv> 16 * 1024 * 1024"
abbreviation (input) PAGE_SIZE :: u32 where "PAGE_SIZE \<equiv> 4096"
abbreviation (input) PAGE_MASK :: u32 where "PAGE_MASK \<equiv> 0x0fff"

definition init_map :: "devices \<Rightarrow> devices" where
  "init_map d = d\<lparr>p_space := 0\<rparr>"

definition new_space :: "u32 \<Rightarrow> devices \<Rightarrow> nat \<times> devices" where
  "new_space sz d =
     (let p = p_space d; sz = (sz + PAGE_SIZE - 1) AND NOT PAGE_MASK
      in (p, d\<lparr>p_space := p_space d + unat sz\<rparr>))"

definition add_mmio_map ::
  "string \<Rightarrow> paddr_t \<Rightarrow> nat \<Rightarrow> u32 \<Rightarrow> io_callback option \<Rightarrow> devices \<Rightarrow> devices res" where
  "add_mmio_map name addr space len callback d =
     bind_res (guard (length (maps d) < NR_MAP) Assertion_failed) (\<lambda>_.
     Inr (d\<lparr>maps := maps d @ [\<lparr>map_name = name, map_low = addr, map_high = addr + ucast len - 1,
                              map_space = space, map_callback = callback\<rparr>]\<rparr>))"

text \<open>Accesses to the pool at a device pointer: past its 16 MB there is nothing.\<close>

definition io_read :: "nat \<Rightarrow> nat \<Rightarrow> devices \<Rightarrow> word_t res" where
  "io_read p len d =
     bind_res (guard (in_bounds p len IO_SPACE_MAX) Out_of_bounds) (\<lambda>_. Inr (host_read (io_space d) p len))"

definition io_write :: "nat \<Rightarrow> nat \<Rightarrow> word_t \<Rightarrow> devices \<Rightarrow> devices res" where
  "io_write p len v d =
     bind_res (guard (in_bounds p len IO_SPACE_MAX) Out_of_bounds) (\<lambda>_.
     Inr (d\<lparr>io_space := host_write (io_space d) p len v\<rparr>))"

section \<open>Serial port (serial.c)\<close>

abbreviation (input) CONFIG_SERIAL_MMIO :: paddr_t where "CONFIG_SERIAL_MMIO \<equiv> 0xa00003f8"

definition serial_handler :: "u32 \<Rightarrow> nat \<Rightarrow> bool \<Rightarrow> devices \<Rightarrow> devices res" where
  "serial_handler offset len is_write d =
     (if offset = 0 \<and> is_write
      then bind_res (io_read (serial_base d) 1 d) (\<lambda>c. Inr (d\<lparr>serial_out := serial_out d @ [ucast c]\<rparr>))
      else Inr d)"

definition init_serial :: "devices \<Rightarrow> devices res" where
  "init_serial d =
     (let (p, d) = new_space 8 d; d = d\<lparr>serial_base := p\<rparr>
      in add_mmio_map ''serial'' CONFIG_SERIAL_MMIO p 8 (Some serial_io_handler) d)"

section \<open>Timer (timer.c)\<close>

abbreviation (input) CONFIG_TIMER_MMIO :: paddr_t where "CONFIG_TIMER_MMIO \<equiv> 0xa0000048"

definition gettimeofday :: "devices \<Rightarrow> (int \<times> int) \<times> devices" where
  "gettimeofday d = (host_clock d (clock_calls d), d\<lparr>clock_calls := Suc (clock_calls d)\<rparr>)"

definition get_time :: "devices \<Rightarrow> word_t \<times> devices" where
  "get_time d =
     (let ((sec, usec), d) = gettimeofday d;
          seconds = sec - fst (boot_time d);
          useconds = usec - snd (boot_time d)
      in (word_of_int (seconds * 1000000 + useconds + 500), d))"

definition rtc_handler :: "u32 \<Rightarrow> nat \<Rightarrow> bool \<Rightarrow> devices \<Rightarrow> devices res" where
  "rtc_handler offset len is_write d =
     (let (time_now, d) = get_time d in
      bind_res (io_write (rtc_port_base d) 4 time_now d)
        (\<lambda>d. io_write (rtc_port_base d + 4) 4 (drop_bit 32 time_now) d))"

definition init_timer :: "devices \<Rightarrow> devices res" where
  "init_timer d =
     (let (t, d) = gettimeofday d; d = d\<lparr>boot_time := t\<rparr>;
          (p, d) = new_space 8 d; d = d\<lparr>rtc_port_base := p\<rparr>
      in add_mmio_map ''rtc'' CONFIG_TIMER_MMIO p 8 (Some rtc_io_handler) d)"

section \<open>Keyboard (keyboard.c)\<close>

abbreviation (input) KEYDOWN_MASK :: u32 where "KEYDOWN_MASK \<equiv> 0x8000"
abbreviation (input) CONFIG_I8042_DATA_MMIO :: paddr_t where "CONFIG_I8042_DATA_MMIO \<equiv> 0xa0000060"
abbreviation (input) KEY_QUEUE_LEN :: nat where "KEY_QUEUE_LEN \<equiv> 1024"
abbreviation (input) KEY_NONE :: u32 where "KEY_NONE \<equiv> 0"

definition KEYS :: "string list" where
  "KEYS = [''ESCAPE'', ''F1'', ''F2'', ''F3'', ''F4'', ''F5'', ''F6'', ''F7'', ''F8'', ''F9'', ''F10'', ''F11'', ''F12'',
     ''GRAVE'', ''1'', ''2'', ''3'', ''4'', ''5'', ''6'', ''7'', ''8'', ''9'', ''0'', ''MINUS'', ''EQUALS'', ''BACKSPACE'',
     ''TAB'', ''Q'', ''W'', ''E'', ''R'', ''T'', ''Y'', ''U'', ''I'', ''O'', ''P'', ''LEFTBRACKET'', ''RIGHTBRACKET'', ''BACKSLASH'',
     ''CAPSLOCK'', ''A'', ''S'', ''D'', ''F'', ''G'', ''H'', ''J'', ''K'', ''L'', ''SEMICOLON'', ''APOSTROPHE'', ''RETURN'',
     ''LSHIFT'', ''Z'', ''X'', ''C'', ''V'', ''B'', ''N'', ''M'', ''COMMA'', ''PERIOD'', ''SLASH'', ''RSHIFT'',
     ''LCTRL'', ''APPLICATION'', ''LALT'', ''SPACE'', ''RALT'', ''RCTRL'',
     ''UP'', ''DOWN'', ''LEFT'', ''RIGHT'', ''INSERT'', ''DELETE'', ''HOME'', ''END'', ''PAGEUP'', ''PAGEDOWN'']"

text \<open>The enum numbers the keys from 1 in the order of the list; each gets its table entry in that order.\<close>

fun init_keymap_loop :: "(string \<Rightarrow> nat) \<Rightarrow> string list \<Rightarrow> nat \<Rightarrow> u32 list \<Rightarrow> u32 list res" where
  "init_keymap_loop sdl_scancode [] n km = Inr km"
| "init_keymap_loop sdl_scancode (k # ks) n km =
     bind_res (guard (sdl_scancode k < length km) Out_of_bounds) (\<lambda>_.
     init_keymap_loop sdl_scancode ks (Suc n) (km[sdl_scancode k := word_of_nat n]))"

definition init_keymap :: "(string \<Rightarrow> nat) \<Rightarrow> devices \<Rightarrow> devices res" where
  "init_keymap sdl_scancode d =
     bind_res (init_keymap_loop sdl_scancode KEYS 1 (keymap d)) (\<lambda>km. Inr (d\<lparr>keymap := km\<rparr>))"

definition key_enqueue :: "u32 \<Rightarrow> devices \<Rightarrow> devices res" where
  "key_enqueue am_scancode d =
     (let d = d\<lparr>key_queue := (key_queue d)[key_r d := am_scancode]\<rparr>;
          d = d\<lparr>key_r := (key_r d + 1) mod KEY_QUEUE_LEN\<rparr>
      in bind_res (guard (key_r d \<noteq> key_f d) Assertion_failed) (\<lambda>_. Inr d))"

definition key_dequeue :: "devices \<Rightarrow> u32 \<times> devices" where
  "key_dequeue d =
     (if key_f d \<noteq> key_r d
      then (key_queue d ! key_f d, d\<lparr>key_f := (key_f d + 1) mod KEY_QUEUE_LEN\<rparr>)
      else (KEY_NONE, d))"

definition send_key :: "byte \<Rightarrow> bool \<Rightarrow> machine \<Rightarrow> machine res" where
  "send_key scancode is_keydown m =
     (if state m = NEMU_RUNNING \<and> keymap (dev m) ! unat scancode \<noteq> KEY_NONE then
        let am_scancode = keymap (dev m) ! unat scancode OR (if is_keydown then KEYDOWN_MASK else 0)
        in bind_res (key_enqueue am_scancode (dev m)) (\<lambda>d. Inr (m\<lparr>dev := d\<rparr>))
      else Inr m)"

definition i8042_data_handler :: "u32 \<Rightarrow> nat \<Rightarrow> bool \<Rightarrow> devices \<Rightarrow> devices res" where
  "i8042_data_handler offset len is_write d =
     bind_res (guard (\<not> is_write) Assertion_failed) (\<lambda>_.
     bind_res (guard (offset = 0) Assertion_failed) (\<lambda>_.
     let (key, d) = key_dequeue d in io_write (i8042_data_port_base d) 4 (ucast key) d))"

definition init_i8042 :: "(string \<Rightarrow> nat) \<Rightarrow> devices \<Rightarrow> devices res" where
  "init_i8042 sdl_scancode d =
     (let (p, d) = new_space 4 d; d = d\<lparr>i8042_data_port_base := p\<rparr> in
      bind_res (io_write p 4 (ucast KEY_NONE) d) (\<lambda>d.
      bind_res (add_mmio_map ''keyboard'' CONFIG_I8042_DATA_MMIO p 4 (Some i8042_data_io_handler) d)
        (init_keymap sdl_scancode)))"

section \<open>Display (gpu.c)\<close>

abbreviation (input) CONFIG_FB_ADDR :: paddr_t where "CONFIG_FB_ADDR \<equiv> 0xa1000000"
abbreviation (input) CONFIG_VGA_CTL_MMIO :: paddr_t where "CONFIG_VGA_CTL_MMIO \<equiv> 0xa0000100"

definition screen_width :: u32 where "screen_width = 400"

definition screen_height :: u32 where "screen_height = 300"

definition screen_size :: u32 where "screen_size = screen_width * screen_height * 4"

abbreviation (input) FB_SIZE :: paddr_t where "FB_SIZE \<equiv> 400 * 300 * 4"

text \<open>A write of 1 to the synchronisation register shows the frame buffer and clears the register.\<close>

definition vga_update_screen :: "devices \<Rightarrow> devices res" where
  "vga_update_screen d =
     bind_res (io_read (vgactl_port_base d + 4) 4 d) (\<lambda>sync.
     if sync = 1 then io_write (vgactl_port_base d + 4) 4 0 d else Inr d)"

definition init_vga :: "devices \<Rightarrow> devices res" where
  "init_vga d =
     (let (p, d) = new_space 8 d; d = d\<lparr>vgactl_port_base := p\<rparr> in
      bind_res (io_write p 4 (ucast (push_bit 16 screen_width OR screen_height)) d) (\<lambda>d.
      let (vm, d) = new_space screen_size d; d = d\<lparr>g_fb_base := Some vm\<rparr> in
      bind_res (add_mmio_map ''vgactl'' CONFIG_VGA_CTL_MMIO p 8 None d) (\<lambda>d.
      bind_res (add_mmio_map ''vmem'' CONFIG_FB_ADDR vm screen_size None d) (\<lambda>d.
      bind_res (guard (vm + unat screen_size \<le> IO_SPACE_MAX) Out_of_bounds) (\<lambda>_.
      Inr (d\<lparr>io_space := store_bytes (io_space d) vm (replicate (unat screen_size) 0)\<rparr>))))))"

section \<open>Flash (flash.c)\<close>

abbreviation (input) FLASH_BASE_ADDR :: paddr_t where "FLASH_BASE_ADDR \<equiv> 0x30000000"

text \<open>\<open>task_file\<close> is what the file of that name holds, \<open>None\<close> when it cannot be opened.\<close>

definition init_flash :: "byte list option \<Rightarrow> devices \<Rightarrow> (nat \<times> devices) res" where
  "init_flash task_file d =
     (let (p, d) = new_space 0x100000 d in
      bind_res (add_mmio_map ''flash'' FLASH_BASE_ADDR p 0x100000 (Some flash_io_handler) d) (\<lambda>d.
      case task_file of
        None \<Rightarrow> Inr (0, d)
      | Some bs \<Rightarrow>
          bind_res (guard (p + length bs \<le> IO_SPACE_MAX) Out_of_bounds) (\<lambda>_.
          Inr (length bs, d\<lparr>io_space := store_bytes (io_space d) p bs\<rparr>))))"

section \<open>Dispatch (mmio.c)\<close>

definition map_inside :: "IOMap \<Rightarrow> paddr_t \<Rightarrow> bool" where
  "map_inside mp addr \<longleftrightarrow> map_low mp \<le> addr \<and> addr \<le> map_high mp"

fun find_mapid_by_addr :: "IOMap list \<Rightarrow> paddr_t \<Rightarrow> nat option" where
  "find_mapid_by_addr [] addr = None"
| "find_mapid_by_addr (mp # mps) addr =
     (if map_inside mp addr then Some 0 else map_option Suc (find_mapid_by_addr mps addr))"

definition fetch_mmio_map :: "paddr_t \<Rightarrow> devices \<Rightarrow> IOMap option" where
  "fetch_mmio_map addr d = map_option (\<lambda>i. maps d ! i) (find_mapid_by_addr (maps d) addr)"

definition invoke_callback :: "io_callback option \<Rightarrow> paddr_t \<Rightarrow> nat \<Rightarrow> bool \<Rightarrow> devices \<Rightarrow> devices res" where
  "invoke_callback c offset len is_write d =
     (case c of
        None \<Rightarrow> Inr d
      | Some serial_io_handler \<Rightarrow> serial_handler (ucast offset) len is_write d
      | Some rtc_io_handler \<Rightarrow> rtc_handler (ucast offset) len is_write d
      | Some i8042_data_io_handler \<Rightarrow> i8042_data_handler (ucast offset) len is_write d
      | Some flash_io_handler \<Rightarrow> Inr d)"

definition map_read :: "paddr_t \<Rightarrow> nat \<Rightarrow> IOMap \<Rightarrow> devices \<Rightarrow> (word_t \<times> devices) res" where
  "map_read addr len mp d =
     (let offset = addr - map_low mp in
      bind_res (invoke_callback (map_callback mp) offset len False d) (\<lambda>d.
      bind_res (io_read (map_space mp + unat offset) len d) (\<lambda>ret. Inr (ret, d))))"

definition map_write :: "paddr_t \<Rightarrow> nat \<Rightarrow> word_t \<Rightarrow> IOMap \<Rightarrow> devices \<Rightarrow> devices res" where
  "map_write addr len v mp d =
     (let offset = addr - map_low mp in
      bind_res (io_write (map_space mp + unat offset) len v d)
        (invoke_callback (map_callback mp) offset len True))"

definition mmio_read :: "paddr_t \<Rightarrow> nat \<Rightarrow> devices \<Rightarrow> (word_t \<times> devices) res" where
  "mmio_read addr len d =
     (case fetch_mmio_map addr d of
        None \<Rightarrow> Inl Assertion_failed
      | Some mp \<Rightarrow> map_read addr len mp d)"

definition mmio_write :: "paddr_t \<Rightarrow> nat \<Rightarrow> word_t \<Rightarrow> devices \<Rightarrow> devices res" where
  "mmio_write addr len v d =
     (case fetch_mmio_map addr d of
        None \<Rightarrow> Inl Assertion_failed
      | Some mp \<Rightarrow> map_write addr len v mp d)"

section \<open>Start-up (main.c)\<close>

text \<open>The devices the generated configuration enables; the flash is not one of them.\<close>

definition init_devices :: "(string \<Rightarrow> nat) \<Rightarrow> devices \<Rightarrow> devices res" where
  "init_devices sdl_scancode d =
     bind_res (init_serial d) (\<lambda>d.
     bind_res (init_timer d) (\<lambda>d.
     bind_res (init_vga d)
       (init_i8042 sdl_scancode)))"

section \<open>Facts on host accesses\<close>

lemma host_read_write:
  "access_len len \<Longrightarrow> host_read (host_write mem a len d) a len = take_bit (8 * len) d"
  unfolding host_read_def host_write_def
  by (simp only: if_True word_of_bytes_of_word [symmetric])
    (metis length_bytes_of_word load_store_bytes)

lemma host_read_write_disjoint:
  assumes "a + len \<le> b \<or> b + len' \<le> a"
  shows "host_read (host_write mem a len d) b len' = host_read mem b len'"
  using assms load_store_bytes_disjoint [of a "bytes_of_word len d" b len' mem]
  by (auto simp: host_read_def host_write_def)

section \<open>The keyboard queue\<close>

definition key_inv :: "devices \<Rightarrow> bool" where
  "key_inv d \<longleftrightarrow> length (key_queue d) = KEY_QUEUE_LEN \<and> key_f d < KEY_QUEUE_LEN \<and> key_r d < KEY_QUEUE_LEN"

definition key_contents :: "devices \<Rightarrow> u32 list" where
  "key_contents d = ring_contents (key_queue d) (key_f d) (key_r d)"

lemma key_enqueue_refuses_iff:
  assumes "key_inv d"
  shows "key_enqueue x d = Inl Assertion_failed \<longleftrightarrow> length (key_contents d) = 1023"
  using assms ring_full_iff [of "key_f d" 1024 "key_r d"]
  by (auto simp: key_enqueue_def key_inv_def key_contents_def guard_def)

interpretation keyq: fifo key_inv key_contents 1023 key_enqueue key_dequeue KEY_NONE
proof (unfold_locales, goal_cases)
  case (1 s x)
  then have ne: "(key_r s + 1) mod 1024 \<noteq> key_f s"
    using ring_full_iff [of "key_f s" 1024 "key_r s"] by (simp add: key_inv_def key_contents_def)
  with 1 show ?case
    using ring_contents_enq [of "key_f s" "key_queue s" "key_r s" x]
    by (simp add: key_enqueue_def key_inv_def key_contents_def)
next
  case (2 s x)
  then show ?case by (simp add: key_enqueue_refuses_iff)
next
  case (3 s x xs)
  then have "key_f s \<noteq> key_r s"
    using ring_empty_iff [of "key_f s" 1024 "key_r s"] by (auto simp: key_inv_def key_contents_def dest: arg_cong [of _ _ length])
  with 3 show ?case
    using ring_contents_deq [of "key_f s" "key_queue s" "key_r s"]
    by (simp add: key_dequeue_def key_inv_def key_contents_def)
next
  case (4 s)
  then have "key_f s = key_r s"
    using ring_empty_iff [of "key_f s" 1024 "key_r s"] by (auto simp: key_inv_def key_contents_def dest: arg_cong [of _ _ length])
  with 4 show ?case by (simp add: key_dequeue_def)
qed

section \<open>The device map\<close>

text \<open>What \<open>init_devices\<close> leaves: five maps over five page-aligned regions of the pool.\<close>

definition device_maps :: "IOMap list" where
  "device_maps =
    [\<lparr>map_name = ''serial'', map_low = 0xa00003f8, map_high = 0xa00003ff, map_space = 0,
      map_callback = Some serial_io_handler\<rparr>,
     \<lparr>map_name = ''rtc'', map_low = 0xa0000048, map_high = 0xa000004f, map_space = 4096,
      map_callback = Some rtc_io_handler\<rparr>,
     \<lparr>map_name = ''vgactl'', map_low = 0xa0000100, map_high = 0xa0000107, map_space = 8192,
      map_callback = None\<rparr>,
     \<lparr>map_name = ''vmem'', map_low = 0xa1000000, map_high = 0xa10752ff, map_space = 12288,
      map_callback = None\<rparr>,
     \<lparr>map_name = ''keyboard'', map_low = 0xa0000060, map_high = 0xa0000063, map_space = 495616,
      map_callback = Some i8042_data_io_handler\<rparr>]"

definition dev_ok :: "devices \<Rightarrow> bool" where
  "dev_ok d \<longleftrightarrow> maps d = device_maps \<and> serial_base d = 0 \<and> rtc_port_base d = 4096 \<and>
     vgactl_port_base d = 8192 \<and> g_fb_base d = Some 12288 \<and> i8042_data_port_base d = 495616 \<and>
     key_inv d \<and> length (keymap d) = 256"

lemma init_keymap_loop_ok:
  assumes "\<forall>k\<in>set ks. sc k < length km"
  shows "\<exists>km'. init_keymap_loop sc ks n km = Inr km' \<and> length km' = length km"
  using assms
proof (induction ks arbitrary: n km)
  case (Cons k ks)
  then show ?case using Cons.IH [of "km[sc k := word_of_nat n]" "Suc n"] by auto
qed simp

lemma init_keymap_loop_other:
  assumes "init_keymap_loop sc ks n km = Inr km'" and "i \<notin> sc ` set ks"
  shows "km' ! i = km ! i"
  using assms by (induction ks arbitrary: n km) (auto split: if_splits)

lemma init_keymap_loop_nth:
  assumes "init_keymap_loop sc ks n km = Inr km'" and "inj_on sc (set ks)" and "distinct ks" and "j < length ks"
  shows "km' ! sc (ks ! j) = word_of_nat (n + j)"
  using assms
proof (induction ks arbitrary: n km j)
  case (Cons k ks)
  then have k: "sc k < length km" "init_keymap_loop sc ks (Suc n) (km[sc k := word_of_nat n]) = Inr km'"
    by auto
  show ?case
  proof (cases j)
    case 0
    have "sc k \<notin> sc ` set ks" using Cons.prems by (auto simp: inj_on_def)
    then show ?thesis using init_keymap_loop_other [OF k(2)] k(1) 0 by simp
  next
    case (Suc i)
    then show ?thesis using Cons.IH [OF k(2)] Cons.prems by (simp add: inj_on_def)
  qed
qed simp

lemma init_devices_result:
  assumes "maps d = []" and "p_space d = 0" and "key_inv d" and "length (keymap d) = 256"
  shows "(\<exists>e. init_keymap_loop sc KEYS 1 (keymap d) = Inl e \<and> init_devices sc d = Inl e) \<or>
    (\<exists>d'. init_devices sc d = Inr d' \<and> dev_ok d' \<and> key_contents d' = key_contents d \<and>
       init_keymap_loop sc KEYS 1 (keymap d) = Inr (keymap d'))"
proof -
  have l: "length km = 256" if "init_keymap_loop sc ks n k0 = Inr km" "length k0 = 256" for ks n k0 km
    using that by (induction ks arbitrary: n k0) auto
  show ?thesis
    using assms l [of KEYS 1 "keymap d"]
    by (cases "init_keymap_loop sc KEYS 1 (keymap d)")
      (simp_all add: init_devices_def init_serial_def init_timer_def init_vga_def init_i8042_def init_keymap_def
        new_space_def add_mmio_map_def io_write_def in_bounds_def gettimeofday_def screen_size_def screen_width_def
        screen_height_def dev_ok_def device_maps_def key_inv_def key_contents_def case_prod_beta Let_def)
qed

lemma key_dequeue_frame [simp]:
  "maps (snd (key_dequeue d)) = maps d" "serial_base (snd (key_dequeue d)) = serial_base d"
  "rtc_port_base (snd (key_dequeue d)) = rtc_port_base d" "vgactl_port_base (snd (key_dequeue d)) = vgactl_port_base d"
  "g_fb_base (snd (key_dequeue d)) = g_fb_base d" "i8042_data_port_base (snd (key_dequeue d)) = i8042_data_port_base d"
  "keymap (snd (key_dequeue d)) = keymap d" "io_space (snd (key_dequeue d)) = io_space d"
  by (simp_all add: key_dequeue_def)

lemma dev_ok_maps: "dev_ok d \<Longrightarrow> maps d = device_maps"
  by (simp add: dev_ok_def)

lemma fetch_keyboard: "dev_ok d \<Longrightarrow> fetch_mmio_map CONFIG_I8042_DATA_MMIO d = Some (device_maps ! 4)"
  by (simp add: fetch_mmio_map_def dev_ok_maps, simp add: device_maps_def map_inside_def)

definition guest_key :: "devices \<Rightarrow> u32 \<times> devices" where
  "guest_key d = (case mmio_read CONFIG_I8042_DATA_MMIO 4 d of
     Inr (v, d') \<Rightarrow> (ucast v, d') | Inl _ \<Rightarrow> (KEY_NONE, d))"


lemma guest_key_eq:
  assumes "dev_ok d"
  shows "guest_key d = (fst (key_dequeue d),
    (snd (key_dequeue d))\<lparr>io_space := host_write (io_space d) 495616 4 (ucast (fst (key_dequeue d)))\<rparr>)"
proof -
  have b: "i8042_data_port_base d = 495616" using assms by (simp add: dev_ok_def)
  have r: "host_read (host_write (io_space d) 495616 4 (ucast k)) 495616 4 = ucast k" for k :: u32
    by (subst host_read_write) (simp, rule bit_word_eqI, auto simp: bit_simps dest: bit_imp_le_length)
  have u: "(ucast (ucast k :: word_t) :: u32) = k" for k
    by (rule bit_word_eqI) (simp add: bit_simps)
  show ?thesis
    unfolding guest_key_def mmio_read_def in_bounds_def fetch_keyboard [OF assms]
    by (simp add: device_maps_def map_read_def invoke_callback_def i8042_data_handler_def io_write_def
        io_read_def in_bounds_def case_prod_beta b r u)
qed

interpretation guestq: fifo dev_ok key_contents 1023 key_enqueue guest_key KEY_NONE
proof (unfold_locales, goal_cases)
  case (1 s x)
  then obtain s' where "key_enqueue x s = Inr s'" "key_inv s'" "key_contents s' = key_contents s @ [x]"
    using keyq.enq_ok [of s x] by (auto simp: dev_ok_def)
  moreover from this(1) 1 have "dev_ok s'"
    by (auto simp: dev_ok_def key_enqueue_def key_inv_def)
  ultimately show ?case by blast
next
  case (2 s x)
  then show ?case using keyq.enq_full by (simp add: dev_ok_def)
next
  case (3 s x xs)
  then obtain s' where "key_dequeue s = (x, s')" "key_inv s'" "key_contents s' = xs"
    using keyq.deq_cons [of s x xs] by (auto simp: dev_ok_def)
  then show ?case using 3 key_dequeue_frame [of s]
    by (auto simp: guest_key_eq dev_ok_def key_inv_def key_contents_def)
next
  case (4 s)
  then obtain s' where "key_dequeue s = (KEY_NONE, s')" "key_inv s'" "key_contents s' = []"
    using keyq.deq_nil [of s] by (auto simp: dev_ok_def)
  then show ?case using 4 key_dequeue_frame [of s]
    by (auto simp: guest_key_eq dev_ok_def key_inv_def key_contents_def)
qed

text \<open>
  C15. The keyboard path is a FIFO of 1023 codes: the codes the host enqueues come out of the guest's reads of
  the keyboard register in the same order, followed by the no-key code, and one code too many is the
  overflow assertion.
\<close>

theorem keyboard_fifo:
  assumes "dev_ok d" and "key_contents d = []"
  shows "if length codes \<le> 1023
         then \<exists>d1 d2. enq_all key_enqueue codes d = Inr d1 \<and>
                deq_n guest_key (length codes) d1 = (codes, d2) \<and> fst (guest_key d2) = KEY_NONE
         else enq_all key_enqueue codes d = Inl Assertion_failed"
  using guestq.fifo_order [OF assms] guestq.overflow [OF assms] by simp

lemma device_maps_disjoint:
  "mp1 \<in> set device_maps \<Longrightarrow> mp2 \<in> set device_maps \<Longrightarrow> map_inside mp1 a \<Longrightarrow> map_inside mp2 a \<Longrightarrow> mp1 = mp2"
  unfolding device_maps_def list.set map_inside_def word_le_nat_alt
  by (elim insertE emptyE; hypsubst; simp)

text \<open>
  Start-up succeeds for every injective scan-code assignment below 256: the device ranges never overlap,
  so an address selects at most one device, and the key table gives each key its number in the list.
\<close>

theorem init_devices_correct:
  assumes "maps d = []" and "p_space d = 0" and "key_inv d" and "length (keymap d) = 256"
    and "inj_on sc (set KEYS)" and "\<forall>k\<in>set KEYS. sc k < 256"
  shows "\<exists>d'. init_devices sc d = Inr d' \<and> dev_ok d' \<and>
    (\<forall>mp1 mp2 a. mp1 \<in> set (maps d') \<and> mp2 \<in> set (maps d') \<and> map_inside mp1 a \<and> map_inside mp2 a \<longrightarrow> mp1 = mp2) \<and>
    (\<forall>j<length KEYS. keymap d' ! sc (KEYS ! j) = word_of_nat (j + 1))"
proof -
  obtain km where km: "init_keymap_loop sc KEYS 1 (keymap d) = Inr km"
    using init_keymap_loop_ok [of KEYS sc "keymap d" 1] assms(4,6) by auto
  obtain d' where d': "init_devices sc d = Inr d'" "dev_ok d'" "keymap d' = km"
    using init_devices_result [OF assms(1-4), of sc] km by auto
  have "distinct KEYS" by (simp add: KEYS_def)
  then have "\<forall>j<length KEYS. keymap d' ! sc (KEYS ! j) = word_of_nat (j + 1)"
    using init_keymap_loop_nth [OF km assms(5)] d'(3) by simp
  with d' device_maps_disjoint show ?thesis by (auto simp: dev_ok_maps)
qed

text \<open>A scan-code assignment: each key its position in the list.\<close>

definition key_position :: "string \<Rightarrow> nat" where
  "key_position k = length (takeWhile (\<lambda>x. x \<noteq> k) KEYS)"

lemma key_position_less: "k \<in> set KEYS \<Longrightarrow> key_position k < length KEYS"
proof -
  have "k \<in> set xs \<Longrightarrow> length (takeWhile (\<lambda>x. x \<noteq> k) xs) < length xs" for xs :: "string list"
    by (induction xs) auto
  then show "k \<in> set KEYS \<Longrightarrow> ?thesis" by (simp add: key_position_def)
qed

lemma nth_key_position: "k \<in> set KEYS \<Longrightarrow> KEYS ! key_position k = k"
  using key_position_less nth_length_takeWhile [of "\<lambda>x. x \<noteq> k" KEYS] by (simp add: key_position_def)

lemma key_position_ok:
  "inj_on key_position (set KEYS)" "\<forall>k\<in>set KEYS. key_position k < 256"
proof -
  show "inj_on key_position (set KEYS)"
    by (rule inj_on_inverseI [of _ "\<lambda>i. KEYS ! i"]) (simp add: nth_key_position)
  have "length KEYS < 256" by (simp add: KEYS_def)
  then show "\<forall>k\<in>set KEYS. key_position k < 256"
    using key_position_less by fastforce
qed

lemma zero_devices_ready:
  "maps zero_devices = []" "p_space zero_devices = 0" "key_inv zero_devices"
  "length (keymap zero_devices) = 256" "key_contents zero_devices = []"
  by (simp_all add: zero_devices_def key_inv_def key_contents_def ring_contents_def ring_len_def)

lemma booted_devices:
  "\<exists>d. init_devices key_position zero_devices = Inr d \<and> dev_ok d \<and> key_contents d = []"
  using init_devices_result [OF zero_devices_ready(1-4), of key_position]
    init_keymap_loop_ok [of KEYS key_position "keymap zero_devices" 1] key_position_ok(2) zero_devices_ready(4,5)
  by auto

theorem init_devices_correct_witness:
  "\<exists>d'. init_devices key_position zero_devices = Inr d' \<and> dev_ok d' \<and>
     keymap d' ! key_position (KEYS ! 3) = 4"
proof -
  have "3 < length KEYS" by (simp add: KEYS_def)
  then show ?thesis
    using init_devices_correct [OF zero_devices_ready(1-4) key_position_ok] by fastforce
qed

theorem keyboard_fifo_witness:
  "\<exists>d d1 d2. init_devices key_position zero_devices = Inr d \<and> enq_all key_enqueue [0x8004, 0x0004] d = Inr d1 \<and>
     deq_n guest_key 2 d1 = ([0x8004, 0x0004], d2) \<and> fst (guest_key d2) = KEY_NONE"
proof -
  obtain d where d: "init_devices key_position zero_devices = Inr d" "dev_ok d" "key_contents d = []"
    using booted_devices by blast
  with keyboard_fifo [OF d(2,3), of "[0x8004, 0x0004]"] show ?thesis by (simp add: numeral_2_eq_2 del: deq_n.simps enq_all.simps)
qed

text \<open>
  C16. A byte the guest writes to the serial data register is the next byte on the terminal, and the
  write leaves the other devices alone.
\<close>

theorem serial_output:
  assumes "dev_ok d"
  shows "\<exists>d'. mmio_write CONFIG_SERIAL_MMIO 1 c d = Inr d' \<and> dev_ok d' \<and> serial_out d' = serial_out d @ [ucast c] \<and>
    key_contents d' = key_contents d"
proof -
  have f: "fetch_mmio_map CONFIG_SERIAL_MMIO d = Some (device_maps ! 0)"
    by (simp add: fetch_mmio_map_def dev_ok_maps assms, simp add: device_maps_def map_inside_def)
  have u: "ucast (take_bit 8 c) = (ucast c :: byte)"
    by (rule bit_word_eqI) (simp add: bit_simps)
  from assms show ?thesis
    unfolding mmio_write_def in_bounds_def f
    by (simp add: device_maps_def map_write_def invoke_callback_def serial_handler_def io_write_def io_read_def in_bounds_def
        host_read_write u dev_ok_def key_inv_def key_contents_def)
qed

theorem serial_output_witness:
  "\<exists>d d'. init_devices key_position zero_devices = Inr d \<and> mmio_write CONFIG_SERIAL_MMIO 1 0x41 d = Inr d' \<and>
     serial_out d' = serial_out d @ [0x41]"
proof -
  obtain d where d: "init_devices key_position zero_devices = Inr d" "dev_ok d"
    using booted_devices by blast
  with serial_output [OF d(2), of "0x41"] show ?thesis by auto
qed

end
