(* ===== verification/Flat_Memory.thy ===== *)
theory Flat_Memory
  imports Prelude
begin

text \<open>
  The contract of a memory: a read returns the bytes last written and changes no byte, a write changes
  the bytes it names and no other. The physical memory, the two-level cache and the two coherent cores each
  meet it; the lemmas here are proved once for all of them.
\<close>

section \<open>Traces on an array of bytes\<close>

datatype 'a mem_op = Rd 'a nat | Wr 'a nat word_t

text \<open>The reference: the values the reads of a sequence of accesses return on a plain array.\<close>

fun flat_run :: "('a \<Rightarrow> nat) \<Rightarrow> 'a mem_op list \<Rightarrow> (nat \<Rightarrow> byte) \<Rightarrow> word_t list \<times> (nat \<Rightarrow> byte)" where
  "flat_run loc [] mem = ([], mem)"
| "flat_run loc (Rd a n # ops) mem =
     (let (vs, mem') = flat_run loc ops mem in (word_of_bytes (load_bytes mem (loc a) n) # vs, mem'))"
| "flat_run loc (Wr a n v # ops) mem =
     flat_run loc ops (store_bytes mem (loc a) (bytes_of_word n v))"

text \<open>The same sequence on an implementation with a read and a write.\<close>

fun impl_run ::
  "('a \<Rightarrow> nat \<Rightarrow> 's \<Rightarrow> (word_t \<times> 's) res) \<Rightarrow> ('a \<Rightarrow> nat \<Rightarrow> word_t \<Rightarrow> 's \<Rightarrow> 's res) \<Rightarrow>
   'a mem_op list \<Rightarrow> 's \<Rightarrow> (word_t list \<times> 's) res" where
  "impl_run rd wr [] s = Inr ([], s)"
| "impl_run rd wr (Rd a n # ops) s =
     bind_res (rd a n s) (\<lambda>(v, s). bind_res (impl_run rd wr ops s) (\<lambda>(vs, s). Inr (v # vs, s)))"
| "impl_run rd wr (Wr a n v # ops) s = bind_res (wr a n v s) (impl_run rd wr ops)"

fun op_ok :: "('a \<Rightarrow> nat \<Rightarrow> bool) \<Rightarrow> 'a mem_op \<Rightarrow> bool" where
  "op_ok ok (Rd a n) = ok a n"
| "op_ok ok (Wr a n v) = ok a n"

section \<open>The contract\<close>

locale flat_memory =
  fixes inv :: "'s \<Rightarrow> bool"
    and view :: "'s \<Rightarrow> nat \<Rightarrow> byte"
    and loc :: "'a \<Rightarrow> nat"
    and ok :: "'a \<Rightarrow> nat \<Rightarrow> bool"
    and rd :: "'a \<Rightarrow> nat \<Rightarrow> 's \<Rightarrow> (word_t \<times> 's) res"
    and wr :: "'a \<Rightarrow> nat \<Rightarrow> word_t \<Rightarrow> 's \<Rightarrow> 's res"
  assumes rd_ok: "inv s \<Longrightarrow> ok a n \<Longrightarrow>
      \<exists>s'. rd a n s = Inr (word_of_bytes (load_bytes (view s) (loc a) n), s') \<and> inv s' \<and> view s' = view s"
    and wr_ok: "inv s \<Longrightarrow> ok a n \<Longrightarrow>
      \<exists>s'. wr a n v s = Inr s' \<and> inv s' \<and> view s' = store_bytes (view s) (loc a) (bytes_of_word n v)"
begin

lemma read_own_write:
  assumes "inv s" and "ok a n"
  shows "\<exists>s1 s2. wr a n v s = Inr s1 \<and> rd a n s1 = Inr (take_bit (8 * n) v, s2) \<and> inv s2"
proof -
  obtain s1 where s1: "wr a n v s = Inr s1" "inv s1" "view s1 = store_bytes (view s) (loc a) (bytes_of_word n v)"
    using wr_ok [OF assms] by blast
  obtain s2 where "rd a n s1 = Inr (word_of_bytes (load_bytes (view s1) (loc a) n), s2)" "inv s2"
    using rd_ok [OF s1(2) assms(2)] by blast
  moreover have "load_bytes (view s1) (loc a) n = bytes_of_word n v"
    using s1(3) load_store_bytes [of "view s" "loc a" "bytes_of_word n v"] by simp
  ultimately show ?thesis using s1(1) by (auto simp: word_of_bytes_of_word)
qed

lemma read_other_write:
  assumes "inv s" and "ok a n" and "ok b k" and "loc a + n \<le> loc b \<or> loc b + k \<le> loc a"
  shows "\<exists>s1 s2 s3 x. wr a n v s = Inr s1 \<and> rd b k s = Inr (x, s2) \<and> rd b k s1 = Inr (x, s3)"
proof -
  obtain s1 where s1: "wr a n v s = Inr s1" "inv s1" "view s1 = store_bytes (view s) (loc a) (bytes_of_word n v)"
    using wr_ok [OF assms(1,2)] by blast
  have "load_bytes (view s1) (loc b) k = load_bytes (view s) (loc b) k"
    unfolding s1(3) using assms(4) by (intro load_store_bytes_disjoint) auto
  with s1 rd_ok [OF s1(2) assms(3)] rd_ok [OF assms(1,3)] show ?thesis by metis
qed

lemma trace_refines:
  assumes "inv s" and "list_all (op_ok ok) ops"
  shows "\<exists>s'. impl_run rd wr ops s = Inr (fst (flat_run loc ops (view s)), s') \<and> inv s' \<and>
    view s' = snd (flat_run loc ops (view s))"
  using assms
proof (induction ops arbitrary: s)
  case (Cons op ops)
  show ?case
  proof (cases op)
    case (Rd a n)
    with Cons.prems obtain s1 where s1:
      "rd a n s = Inr (word_of_bytes (load_bytes (view s) (loc a) n), s1)" "inv s1" "view s1 = view s"
      using rd_ok by fastforce
    with Cons.IH [OF s1(2)] Cons.prems Rd show ?thesis by (auto simp: case_prod_beta)
  next
    case (Wr a n v)
    with Cons.prems obtain s1 where s1:
      "wr a n v s = Inr s1" "inv s1" "view s1 = store_bytes (view s) (loc a) (bytes_of_word n v)"
      using wr_ok by fastforce
    with Cons.IH [OF s1(2)] Cons.prems Wr show ?thesis by auto
  qed
qed simp

end

end
