(* ===== verification/Pmem.thy ===== *)
theory Pmem
  imports Csr Mmio Flat_Memory
begin

text \<open>
  Physical accesses (\<^verbatim>\<open>src/memory/pmem.c\<close>): the protection check, the RAM array, the frame-buffer
  shortcut and the devices. The RAM test looks at the first byte of an access only, so an access that starts inside
  the array and ends past it has no defined behaviour.
\<close>

definition guest_to_host :: "paddr_t \<Rightarrow> nat" where
  "guest_to_host paddr = unat (paddr - MBASE)"

definition host_to_guest :: "nat \<Rightarrow> paddr_t" where
  "host_to_guest haddr = word_of_nat haddr + MBASE"

definition pmem_read :: "nat \<Rightarrow> nat \<Rightarrow> machine \<Rightarrow> word_t res" where
  "pmem_read off len m =
     bind_res (guard (in_bounds off len (unat MSIZE)) Out_of_bounds) (\<lambda>_. Inr (host_read (pmem m) off len))"

definition pmem_write :: "nat \<Rightarrow> nat \<Rightarrow> word_t \<Rightarrow> machine \<Rightarrow> machine res" where
  "pmem_write off len v m =
     bind_res (guard (in_bounds off len (unat MSIZE)) Out_of_bounds) (\<lambda>_.
     Inr (m\<lparr>pmem := host_write (pmem m) off len v\<rparr>))"

definition paddr_read :: "paddr_t \<Rightarrow> nat \<Rightarrow> machine \<Rightarrow> (word_t \<times> machine) res" where
  "paddr_read addr len m =
     (let (_, m) = pmp_check addr False False m;
          addr = addr AND 0xffffffff
      in if MBASE \<le> addr \<and> addr < MBASE + MSIZE then
           bind_res (pmem_read (guest_to_host addr) len m) (\<lambda>v. Inr (v, m))
         else case (g_fb_base (dev m), CONFIG_FB_ADDR \<le> addr \<and> addr < CONFIG_FB_ADDR + FB_SIZE) of
           (Some fb, True) \<Rightarrow>
             bind_res (io_read (fb + unat (addr - CONFIG_FB_ADDR)) len (dev m)) (\<lambda>v. Inr (v, m))
         | _ \<Rightarrow> bind_res (mmio_read addr len (dev m)) (\<lambda>(v, d). Inr (v, m\<lparr>dev := d\<rparr>)))"

definition paddr_write :: "paddr_t \<Rightarrow> nat \<Rightarrow> word_t \<Rightarrow> machine \<Rightarrow> machine res" where
  "paddr_write addr len v m =
     (let (_, m) = pmp_check addr False True m;
          addr = addr AND 0xffffffff
      in if MBASE \<le> addr \<and> addr < MBASE + MSIZE then pmem_write (guest_to_host addr) len v m
         else case (g_fb_base (dev m), CONFIG_FB_ADDR \<le> addr \<and> addr < CONFIG_FB_ADDR + FB_SIZE) of
           (Some fb, True) \<Rightarrow>
             bind_res (io_write (fb + unat (addr - CONFIG_FB_ADDR)) len v (dev m)) (\<lambda>d. Inr (m\<lparr>dev := d\<rparr>))
         | _ \<Rightarrow> bind_res (mmio_write addr len v (dev m)) (\<lambda>d. Inr (m\<lparr>dev := d\<rparr>)))"

section \<open>RAM is a flat memory\<close>

definition in_ram :: "paddr_t \<Rightarrow> nat \<Rightarrow> bool" where
  "in_ram addr len \<longleftrightarrow> access_len len \<and> MBASE \<le> addr AND 0xffffffff \<and>
     guest_to_host (addr AND 0xffffffff) + len \<le> unat MSIZE"

lemma guest_to_host_range:
  assumes "MBASE \<le> x" and "guest_to_host x < unat MSIZE"
  shows "x < MBASE + MSIZE"
  using assms by (simp add: guest_to_host_def word_less_nat_alt word_le_nat_alt unat_sub)

lemma in_ram_range: "in_ram a n \<Longrightarrow> a AND 0xffffffff < MBASE + MSIZE"
  by (rule guest_to_host_range) (auto simp: in_ram_def)

interpretation ram: flat_memory "\<lambda>_. True" pmem "\<lambda>a. guest_to_host (a AND 0xffffffff)" in_ram paddr_read paddr_write
proof (unfold_locales, goal_cases)
  case (1 s a n)
  then have "MBASE \<le> a AND 0xffffffff" "a AND 0xffffffff < MBASE + MSIZE" using in_ram_range by (auto simp: in_ram_def)
  with 1 show ?case
    by (auto simp: paddr_read_def pmem_read_def in_ram_def in_bounds_def host_read_def case_prod_beta)
next
  case (2 s a n v)
  then have "MBASE \<le> a AND 0xffffffff" "a AND 0xffffffff < MBASE + MSIZE" using in_ram_range by (auto simp: in_ram_def)
  with 2 show ?case
    by (auto simp: paddr_write_def pmem_write_def in_ram_def in_bounds_def host_write_def case_prod_beta)
qed


text \<open>
  C17. Reads and writes of RAM through \<^verbatim>\<open>paddr_read\<close> and \<^verbatim>\<open>paddr_write\<close> behave as a byte array: any
  sequence of in-range accesses succeeds and its reads return what the same sequence returns on the array.
\<close>

theorem paddr_trace_refines:
  assumes "list_all (op_ok in_ram) ops"
  shows "\<exists>m'. impl_run paddr_read paddr_write ops m =
      Inr (fst (flat_run (\<lambda>a. guest_to_host (a AND 0xffffffff)) ops (pmem m)), m') \<and>
    pmem m' = snd (flat_run (\<lambda>a. guest_to_host (a AND 0xffffffff)) ops (pmem m))"
  using ram.trace_refines [OF TrueI assms] by blast

theorem paddr_trace_refines_witness:
  "\<exists>m'. impl_run paddr_read paddr_write [Wr 0x80000010 4 0x12345678, Rd 0x80000012 2] zero_machine
     = Inr ([0x1234], m')"
proof -
  have ok: "list_all (op_ok in_ram) [Wr 0x80000010 4 0x12345678, Rd 0x80000012 2]"
    by (simp add: in_ram_def guest_to_host_def)
  have v: "fst (flat_run (\<lambda>a. guest_to_host (a AND 0xffffffff)) [Wr 0x80000010 4 0x12345678, Rd 0x80000012 2]
      (pmem zero_machine)) = [0x1234]"
    by code_simp
  show ?thesis using paddr_trace_refines [OF ok, of zero_machine] v by auto
qed

section \<open>The frame-buffer shortcut\<close>

lemma fetch_vmem:
  assumes "dev_ok d" and "CONFIG_FB_ADDR \<le> x" and "x < CONFIG_FB_ADDR + FB_SIZE"
  shows "fetch_mmio_map x d = Some (device_maps ! 3)"
proof -
  have "unat x \<ge> 0xa1000000" "unat x < 0xa1075300"
    using assms(2,3) by (simp_all add: word_le_nat_alt word_less_nat_alt)
  then have "find_mapid_by_addr device_maps x = Some 3"
    by (simp add: device_maps_def map_inside_def word_le_nat_alt)
  then show ?thesis by (simp add: fetch_mmio_map_def dev_ok_maps [OF assms(1)])
qed

lemma mmio_read_vmem:
  assumes "dev_ok d" and "CONFIG_FB_ADDR \<le> x" and "x < CONFIG_FB_ADDR + FB_SIZE"
  shows "mmio_read x len d = bind_res (io_read (12288 + unat (x - CONFIG_FB_ADDR)) len d) (\<lambda>v. Inr (v, d))"
  unfolding mmio_read_def fetch_vmem [OF assms]
  by (simp add: device_maps_def map_read_def invoke_callback_def)

lemma mmio_write_vmem:
  assumes "dev_ok d" and "CONFIG_FB_ADDR \<le> x" and "x < CONFIG_FB_ADDR + FB_SIZE"
  shows "mmio_write x len v d = io_write (12288 + unat (x - CONFIG_FB_ADDR)) len v d"
  unfolding mmio_write_def fetch_vmem [OF assms]
  by (cases "io_write (12288 + unat (x - CONFIG_FB_ADDR)) len v d")
    (simp_all add: device_maps_def map_write_def invoke_callback_def)

lemma pmp_check_dev: "(snd (pmp_check a x w m))\<lparr>dev := dev m\<rparr> = snd (pmp_check a x w m)"
proof -
  have "k\<lparr>dev := dev k\<rparr> = k" for k :: machine by simp
  from this [of "snd (pmp_check a x w m)"] show ?thesis by simp
qed

text \<open>
  C18. The direct frame-buffer access of \<^verbatim>\<open>paddr_read\<close> and \<^verbatim>\<open>paddr_write\<close> gives the result of the device
  dispatch it bypasses, for every width and every address of the frame buffer, bounds errors included.
\<close>

theorem fb_shortcut:
  assumes "dev_ok (dev m)"
    and "CONFIG_FB_ADDR \<le> addr AND 0xffffffff" and "addr AND 0xffffffff < CONFIG_FB_ADDR + FB_SIZE"
  defines "m1 \<equiv> snd (pmp_check addr False False m)" and "m2 \<equiv> snd (pmp_check addr False True m)"
  shows "paddr_read addr len m =
      bind_res (mmio_read (addr AND 0xffffffff) len (dev m)) (\<lambda>(x, d). Inr (x, m1\<lparr>dev := d\<rparr>)) \<and>
    paddr_write addr len v m =
      bind_res (mmio_write (addr AND 0xffffffff) len v (dev m)) (\<lambda>d. Inr (m2\<lparr>dev := d\<rparr>))"
proof -
  have fb: "g_fb_base (dev m) = Some 12288" using assms(1) by (simp add: dev_ok_def)
  define x where "x = addr AND 0xffffffff"
  have "\<not> x < MBASE + MSIZE"
    using assms(2) by (simp add: x_def [symmetric] word_le_nat_alt word_less_nat_alt)
  then show ?thesis
    using assms(2,3) fb
    unfolding paddr_read_def paddr_write_def Let_def case_prod_beta x_def [symmetric]
    by (simp add: pmp_check_dev mmio_read_vmem [OF assms(1)] mmio_write_vmem [OF assms(1)] m1_def m2_def bind_res_assoc)
qed


theorem fb_shortcut_witness:
  "\<exists>d. init_devices key_position zero_devices = Inr d \<and>
     paddr_write 0xa1000004 4 0xff00ff (zero_machine\<lparr>dev := d\<rparr>) =
       bind_res (mmio_write 0xa1000004 4 0xff00ff d)
         (\<lambda>d'. Inr ((snd (pmp_check 0xa1000004 False True (zero_machine\<lparr>dev := d\<rparr>)))\<lparr>dev := d'\<rparr>))"
proof -
  obtain d where d: "init_devices key_position zero_devices = Inr d" "dev_ok d"
    using booted_devices by blast
  show ?thesis
    using d fb_shortcut [of "zero_machine\<lparr>dev := d\<rparr>" "0xa1000004" 4 "0xff00ff"] by simp
qed

end
