(* ===== verification/Cache_Model.thy ===== *)
theory Cache_Model
  imports Pmem
begin

text \<open>
  The two-level write-back cache hierarchy: \<^verbatim>\<open>src/memory/cache.c\<close>, \<^verbatim>\<open>src/memory/prefetch.c\<close> and
  the accessors of \<^verbatim>\<open>src/memory/vmem.c\<close>. A cache is a record; a pointer to a line is the
  set index of the address and a way number. An access that leaves its 64-byte line
  is the error \<open>Out_of_bounds\<close>.
\<close>

section \<open>Blocks in memory\<close>

abbreviation (input) BLOCK_SIZE :: nat where "BLOCK_SIZE \<equiv> 64"
abbreviation (input) WORD_SIZE :: nat where "WORD_SIZE \<equiv> 8"

text \<open>The fallback loops \<^verbatim>\<open>for (i = 0; i < BLOCK_SIZE; i += WORD_SIZE)\<close>.\<close>

fun load_block_loop :: "nat list \<Rightarrow> paddr_t \<Rightarrow> byte list \<Rightarrow> machine \<Rightarrow> (byte list \<times> machine) res" where
  "load_block_loop [] block_paddr dest m = Inr (dest, m)"
| "load_block_loop (i # is) block_paddr dest m =
     bind_res (paddr_read (block_paddr + word_of_nat i) WORD_SIZE m) (\<lambda>(val, m).
     load_block_loop is block_paddr (splice dest i (bytes_of_word WORD_SIZE val)) m)"

fun store_block_loop :: "nat list \<Rightarrow> paddr_t \<Rightarrow> byte list \<Rightarrow> machine \<Rightarrow> machine res" where
  "store_block_loop [] block_paddr src m = Inr m"
| "store_block_loop (i # is) block_paddr src m =
     bind_res (paddr_write (block_paddr + word_of_nat i) WORD_SIZE
                 (word_of_bytes (take WORD_SIZE (drop i src))) m)
       (store_block_loop is block_paddr src)"

definition load_block_from_mem :: "paddr_t \<Rightarrow> byte list \<Rightarrow> machine \<Rightarrow> (byte list \<times> machine) res" where
  "load_block_from_mem block_paddr dest m =
     (let pa = block_paddr AND 0xffffffff in
      if MBASE \<le> pa \<and> pa + 64 \<le> MBASE + MSIZE
      then Inr (load_bytes (pmem m) (guest_to_host pa) BLOCK_SIZE, m)
      else load_block_loop [0, 8, 16, 24, 32, 40, 48, 56] block_paddr dest m)"

definition store_block_to_mem :: "paddr_t \<Rightarrow> byte list \<Rightarrow> machine \<Rightarrow> machine res" where
  "store_block_to_mem block_paddr src m =
     (let pa = block_paddr AND 0xffffffff in
      if MBASE \<le> pa \<and> pa + 64 \<le> MBASE + MSIZE
      then Inr (m\<lparr>pmem := store_bytes (pmem m) (guest_to_host pa) src\<rparr>)
      else store_block_loop [0, 8, 16, 24, 32, 40, 48, 56] block_paddr src m)"

section \<open>One cache\<close>

definition zero_line :: CacheLine where
  "zero_line = \<lparr>cl_valid = False, cl_dirty = False, cl_tag = 0, cl_last_access = 0, cl_data = replicate BLOCK_SIZE 0\<rparr>"

definition init_cache :: "nat \<Rightarrow> nat \<Rightarrow> string \<Rightarrow> Cache" where
  "init_cache s w name =
     \<lparr>c_s = s, c_w = w, c_off = 6,
      c_sets = replicate (2 ^ s) \<lparr>cs_lines = replicate w zero_line, cs_mru_way = -1\<rparr>,
      c_timer = 0, c_name = name, c_hits = 0, c_misses = 0, c_evictions = 0, c_writebacks = 0\<rparr>"

definition set_index :: "Cache \<Rightarrow> paddr_t \<Rightarrow> nat" where
  "set_index c addr = unat (drop_bit (c_off c) addr AND (push_bit (c_s c) 1 - 1))"

definition tag_of :: "Cache \<Rightarrow> paddr_t \<Rightarrow> word_t" where
  "tag_of c addr = drop_bit (c_s c + c_off c) addr"

definition get_line :: "Cache \<Rightarrow> nat \<Rightarrow> nat \<Rightarrow> CacheLine" where
  "get_line c i way = cs_lines (c_sets c ! i) ! way"

definition put_line :: "Cache \<Rightarrow> nat \<Rightarrow> nat \<Rightarrow> CacheLine \<Rightarrow> Cache" where
  "put_line c i way l =
     c\<lparr>c_sets := (c_sets c)[i := (c_sets c ! i)\<lparr>cs_lines := (cs_lines (c_sets c ! i))[way := l]\<rparr>]\<rparr>"

definition put_mru :: "Cache \<Rightarrow> nat \<Rightarrow> nat \<Rightarrow> Cache" where
  "put_mru c i way = c\<lparr>c_sets := (c_sets c)[i := (c_sets c ! i)\<lparr>cs_mru_way := int way\<rparr>]\<rparr>"

text \<open>
  The loop over the ways: a hit with its way, or the least recently used way seen. A line may be the victim
  only if its time is below the largest value.
\<close>

fun scan_ways :: "CacheLine list \<Rightarrow> word_t \<Rightarrow> nat \<Rightarrow> nat \<Rightarrow> word_t \<Rightarrow> bool \<times> nat" where
  "scan_ways [] tag i lru_idx min_time = (False, lru_idx)"
| "scan_ways (l # ls) tag i lru_idx min_time =
     (if cl_valid l \<and> cl_tag l = tag then (True, i)
      else if cl_last_access l < min_time then scan_ways ls tag (Suc i) i (cl_last_access l)
      else scan_ways ls tag (Suc i) lru_idx min_time)"

definition mru_hit :: "Cache \<Rightarrow> nat \<Rightarrow> word_t \<Rightarrow> bool" where
  "mru_hit c i tag =
     (let mru = cs_mru_way (c_sets c ! i) in
      0 \<le> mru \<and> cl_valid (get_line c i (nat mru)) \<and> cl_tag (get_line c i (nat mru)) = tag)"

definition find_line :: "Cache \<Rightarrow> paddr_t \<Rightarrow> Cache \<times> bool \<times> nat" where
  "find_line c addr =
     (let c = c\<lparr>c_timer := c_timer c + 1\<rparr>;
          i = set_index c addr;
          tag = tag_of c addr;
          mru = nat (cs_mru_way (c_sets c ! i))
      in if mru_hit c i tag then
           (put_line (c\<lparr>c_hits := c_hits c + 1\<rparr>) i mru ((get_line c i mru)\<lparr>cl_last_access := c_timer c\<rparr>), True, mru)
         else let (hit, way) = scan_ways (cs_lines (c_sets c ! i)) tag 0 0 (-1) in
           if hit then
             (put_mru (put_line (c\<lparr>c_hits := c_hits c + 1\<rparr>) i way
                         ((get_line c i way)\<lparr>cl_last_access := c_timer c\<rparr>)) i way, True, way)
           else (c\<lparr>c_misses := c_misses c + 1\<rparr>, False, way))"

definition find_line_quiet :: "Cache \<Rightarrow> paddr_t \<Rightarrow> Cache \<times> bool \<times> nat" where
  "find_line_quiet c addr =
     (let i = set_index c addr; tag = tag_of c addr;
          mru = nat (cs_mru_way (c_sets c ! i))
      in if mru_hit c i tag then (c, True, mru)
         else let (hit, way) = scan_ways (cs_lines (c_sets c ! i)) tag 0 0 (-1) in
           if hit then (put_mru c i way, True, way) else (c, False, way))"

section \<open>Two levels\<close>

definition get_cache :: "nat \<Rightarrow> machine \<Rightarrow> Cache" where
  "get_cache p m = caches m ! p"

definition put_cache :: "nat \<Rightarrow> Cache \<Rightarrow> machine \<Rightarrow> machine" where
  "put_cache p c m = m\<lparr>caches := (caches m)[p := c]\<rparr>"

text \<open>The address of the block a line of set \<open>i\<close> holds.\<close>

definition block_addr :: "Cache \<Rightarrow> paddr_t \<Rightarrow> CacheLine \<Rightarrow> paddr_t" where
  "block_addr c addr l =
     push_bit (c_s c + c_off c) (cl_tag l) OR
     push_bit (c_off c) (drop_bit (c_off c) addr AND (push_bit (c_s c) 1 - 1))"

text \<open>
  The buffer \<open>data\<close> is passed in and its contents after the call are the first result. On a miss the
  victim is written back if it is dirty.
\<close>

definition l2_evict :: "nat \<Rightarrow> paddr_t \<Rightarrow> nat \<Rightarrow> machine \<Rightarrow> machine res" where
  "l2_evict l2 addr way m =
     (let c = get_cache l2 m; l2_line = get_line c (set_index c addr) way in
      if cl_valid l2_line \<and> cl_dirty l2_line then
        let m = put_cache l2 (c\<lparr>c_evictions := c_evictions c + 1, c_writebacks := c_writebacks c + 1\<rparr>) m
        in store_block_to_mem (block_addr c addr l2_line) (cl_data l2_line) m
      else Inr m)"

definition access_l2 :: "nat \<Rightarrow> paddr_t \<Rightarrow> byte list \<Rightarrow> bool \<Rightarrow> machine \<Rightarrow> (byte list \<times> machine) res" where
  "access_l2 l2 addr d is_write m =
     (let (c, hit, way) = find_line (get_cache l2 m) addr;
          m = put_cache l2 c m;
          i = set_index c addr;
          block_paddr = addr AND NOT 63
      in if hit then
           if is_write then
             Inr (d, put_cache l2 (put_line c i way ((get_line c i way)\<lparr>cl_data := d, cl_dirty := True\<rparr>)) m)
           else Inr (cl_data (get_line c i way), m)
         else
           bind_res (l2_evict l2 addr way m) (\<lambda>m.
           bind_res (if is_write then Inr (d, m)
                     else load_block_from_mem block_paddr (cl_data (get_line (get_cache l2 m) i way)) m) (\<lambda>(d, m).
           let c = get_cache l2 m in
           Inr (d, put_cache l2 (put_line c i way
                     \<lparr>cl_valid = True, cl_dirty = is_write, cl_tag = tag_of c addr,
                      cl_last_access = c_timer c, cl_data = d\<rparr>) m))))"

text \<open>Step 1 of \<open>fetch_block\<close>: a valid victim is counted, a dirty one is written back to the second level.\<close>

definition l1_evict :: "nat \<Rightarrow> nat \<Rightarrow> paddr_t \<Rightarrow> nat \<Rightarrow> machine \<Rightarrow> machine res" where
  "l1_evict l1 l2 addr way m =
     (let c = get_cache l1 m;
          l1_victim = get_line c (set_index c addr) way
      in if cl_valid l1_victim then
           let c = c\<lparr>c_evictions := c_evictions c + 1\<rparr> in
           if cl_dirty l1_victim then
             let m = put_cache l1 (c\<lparr>c_writebacks := c_writebacks c + 1\<rparr>) m
             in bind_res (access_l2 l2 (block_addr c addr l1_victim) (cl_data l1_victim) True m) (\<lambda>(_, m). Inr m)
           else Inr (put_cache l1 c m)
         else Inr m)"

definition fetch_block :: "nat \<Rightarrow> nat \<Rightarrow> paddr_t \<Rightarrow> nat \<Rightarrow> machine \<Rightarrow> machine res" where
  "fetch_block l1 l2 addr way m =
     (let i = set_index (get_cache l1 m) addr;
          l1_victim = get_line (get_cache l1 m) i way
      in bind_res (l1_evict l1 l2 addr way m) (\<lambda>m.
         bind_res (access_l2 l2 addr (cl_data l1_victim) False m) (\<lambda>(d, m).
         let c = get_cache l1 m in
         Inr (put_cache l1 (put_line c i way
                \<lparr>cl_valid = True, cl_dirty = False, cl_tag = tag_of c addr,
                 cl_last_access = c_timer c, cl_data = d\<rparr>) m))))"

section \<open>Prefetching\<close>

abbreviation (input) PREFETCH_DEGREE :: nat where "PREFETCH_DEGREE \<equiv> 2"

definition prefetch_hint :: "paddr_t \<Rightarrow> paddr_t" where
  "prefetch_hint addr = 0"

fun prefetch_loop :: "nat \<Rightarrow> nat \<Rightarrow> nat \<Rightarrow> paddr_t \<Rightarrow> machine \<Rightarrow> machine res" where
  "prefetch_loop 0 l1 l2 cur m = Inr m"
| "prefetch_loop (Suc n) l1 l2 cur m =
     (let hint = prefetch_hint cur in
      if hint = 0 then Inr m
      else let (c, already, way) = find_line_quiet (get_cache l1 m) hint; m = put_cache l1 c m
        in bind_res (if already then Inr m else fetch_block l1 l2 hint way m) (prefetch_loop n l1 l2 hint))"

definition cache_prefetch :: "nat \<Rightarrow> nat \<Rightarrow> paddr_t \<Rightarrow> machine \<Rightarrow> machine res" where
  "cache_prefetch l1 l2 miss_addr m = prefetch_loop PREFETCH_DEGREE l1 l2 miss_addr m"

section \<open>Accesses\<close>

text \<open>The common start of every access: find the line, filling it on a miss; the result is its way.\<close>

definition line_for :: "nat \<Rightarrow> nat \<Rightarrow> paddr_t \<Rightarrow> machine \<Rightarrow> (nat \<times> machine) res" where
  "line_for l1 l2 addr m =
     (let (c, hit, way) = find_line (get_cache l1 m) addr; m = put_cache l1 c m in
      if hit then Inr (way, m)
      else bind_res (fetch_block l1 l2 addr way m) (\<lambda>m.
           bind_res (cache_prefetch l1 l2 addr m) (\<lambda>m. Inr (way, m))))"

text \<open>\<^verbatim>\<open>memcpy(&res, line->data + offset, len)\<close> and the copy in the other direction.\<close>

definition line_bytes :: "CacheLine \<Rightarrow> paddr_t \<Rightarrow> nat \<Rightarrow> word_t res" where
  "line_bytes l addr len =
     (let offset = unat (addr AND 63) in
      bind_res (guard (offset + len \<le> BLOCK_SIZE \<and> len \<le> 8) Out_of_bounds) (\<lambda>_.
      Inr (word_of_bytes (take len (drop offset (cl_data l))))))"

definition cache_read :: "nat \<Rightarrow> nat \<Rightarrow> paddr_t \<Rightarrow> nat \<Rightarrow> machine \<Rightarrow> (word_t \<times> machine) res" where
  "cache_read l1 l2 addr len m =
     bind_res (line_for l1 l2 addr m) (\<lambda>(way, m).
     let c = get_cache l1 m in
     bind_res (line_bytes (get_line c (set_index c addr) way) addr len) (\<lambda>res. Inr (res, m)))"

definition cache_read_level :: "nat \<Rightarrow> nat \<Rightarrow> paddr_t \<Rightarrow> nat \<Rightarrow> machine \<Rightarrow> (nat \<times> word_t \<times> machine) res" where
  "cache_read_level l1 l2 addr len m =
     (let (c, l1_hit, way) = find_line (get_cache l1 m) addr; m = put_cache l1 c m in
      bind_res
        (if l1_hit then Inr (0, m)
         else let (c2, l2_hit, _) = find_line_quiet (get_cache l2 m) addr;
                  m = put_cache l2 c2 m;
                  level = if l2_hit then 1 else 2
           in bind_res (fetch_block l1 l2 addr way m) (\<lambda>m.
              bind_res (cache_prefetch l1 l2 addr m) (\<lambda>m. Inr (level, m)))) (\<lambda>(level, m).
      let c = get_cache l1 m in
      bind_res (line_bytes (get_line c (set_index c addr) way) addr len) (\<lambda>res. Inr (level, res, m))))"

definition cache_probe_level :: "nat \<Rightarrow> nat \<Rightarrow> paddr_t \<Rightarrow> machine \<Rightarrow> nat \<times> machine" where
  "cache_probe_level l1 l2 addr m =
     (let (c, l1_hit, _) = find_line_quiet (get_cache l1 m) addr; m = put_cache l1 c m in
      if l1_hit then (0, m)
      else let (c2, l2_hit, _) = find_line_quiet (get_cache l2 m) addr; m = put_cache l2 c2 m in
        (if l2_hit then 1 else 2, m))"

definition cache_fill_and_read :: "nat \<Rightarrow> nat \<Rightarrow> paddr_t \<Rightarrow> nat \<Rightarrow> machine \<Rightarrow> (word_t \<times> machine) res" where
  "cache_fill_and_read l1 l2 addr len m =
     bind_res (line_for l1 l2 addr m) (\<lambda>(way, m).
     let c = get_cache l1 m in
     bind_res (line_bytes (get_line c (set_index c addr) way) addr len) (\<lambda>res. Inr (res, m)))"

definition cache_write :: "nat \<Rightarrow> nat \<Rightarrow> paddr_t \<Rightarrow> nat \<Rightarrow> word_t \<Rightarrow> machine \<Rightarrow> machine res" where
  "cache_write l1 l2 addr len d m =
     bind_res (line_for l1 l2 addr m) (\<lambda>(way, m).
     let c = get_cache l1 m; i = set_index c addr; l = get_line c i way;
         offset = unat (addr AND 63)
     in bind_res (guard (offset + len \<le> BLOCK_SIZE \<and> len \<le> 8) Out_of_bounds) (\<lambda>_.
        Inr (put_cache l1 (put_line c i way
               (l\<lparr>cl_data := splice (cl_data l) offset (bytes_of_word len d), cl_dirty := True\<rparr>)) m)))"

abbreviation (input) L1D_S :: nat where "L1D_S \<equiv> 6"

definition init_cache_system :: "machine \<Rightarrow> machine" where
  "init_cache_system m =
     (let n = length (caches m) in
      m\<lparr>caches := caches m @ [init_cache 6 8 ''L1-Instruction'', init_cache L1D_S 8 ''L1-Data'',
                              init_cache 8 16 ''L2-Unified''],
        L1I_cache := Some n, L1D_cache := Some (n + 1), L2_cache := Some (n + 2)\<rparr>)"

section \<open>Coherence\<close>

text \<open>The first way whose line satisfies a test.\<close>

fun first_way :: "(CacheLine \<Rightarrow> bool) \<Rightarrow> CacheLine list \<Rightarrow> nat \<Rightarrow> nat option" where
  "first_way P [] i = None"
| "first_way P (l # ls) i = (if P l then Some i else first_way P ls (Suc i))"

definition deref :: "'a option \<Rightarrow> 'a res" where
  "deref p = (case p of None \<Rightarrow> Inl Null_pointer | Some x \<Rightarrow> Inr x)"

definition cache_snoop_invalidate :: "nat option \<Rightarrow> paddr_t \<Rightarrow> machine \<Rightarrow> machine res" where
  "cache_snoop_invalidate other_l1d addr m =
     (case other_l1d of
        None \<Rightarrow> Inr m
      | Some p \<Rightarrow>
          let c = get_cache p m; i = set_index c addr; tag = tag_of c addr in
          case first_way (\<lambda>l. cl_valid l \<and> cl_tag l = tag) (cs_lines (c_sets c ! i)) 0 of
            None \<Rightarrow> Inr m
          | Some way \<Rightarrow>
              bind_res
                (if cl_dirty (get_line c i way) then
                   bind_res (deref (L2_cache m)) (\<lambda>l2.
                   bind_res (access_l2 l2 (addr AND NOT 63) (cl_data (get_line c i way)) True m) (\<lambda>(_, m).
                   let c = get_cache p m in
                   Inr (put_cache p (c\<lparr>c_writebacks := c_writebacks c + 1\<rparr>) m)))
                 else Inr m) (\<lambda>m.
              let c = get_cache p m in
              Inr (put_cache p (put_line c i way ((get_line c i way)\<lparr>cl_valid := False, cl_dirty := False\<rparr>)) m)))"

definition cache_snoop_flush_dirty :: "nat option \<Rightarrow> nat \<Rightarrow> paddr_t \<Rightarrow> machine \<Rightarrow> machine res" where
  "cache_snoop_flush_dirty src_l1d l2 addr m =
     (case src_l1d of
        None \<Rightarrow> Inr m
      | Some p \<Rightarrow>
          let c = get_cache p m; i = set_index c addr; tag = tag_of c addr in
          case first_way (\<lambda>l. cl_valid l \<and> cl_tag l = tag \<and> cl_dirty l) (cs_lines (c_sets c ! i)) 0 of
            None \<Rightarrow> Inr m
          | Some way \<Rightarrow>
              bind_res (access_l2 l2 (addr AND NOT 63) (cl_data (get_line c i way)) True m) (\<lambda>(_, m).
              let c = get_cache p m;
                  c = put_line c i way ((get_line c i way)\<lparr>cl_dirty := False\<rparr>)
              in Inr (put_cache p (c\<lparr>c_writebacks := c_writebacks c + 1\<rparr>) m)))"

end
