(* ===== verification/Cache_Refine.thy ===== *)
theory Cache_Refine
  imports Cache_Model
begin

text \<open>
  What a cache holds, as a partial map from addresses to a dirty flag and 64 bytes, and how the operations of
  \<^verbatim>\<open>cache.c\<close> act on that map. A hierarchy of first-level data caches over a shared second level then
  has one value per block, the view, and the accesses read and write it as a flat memory.
\<close>

section \<open>Well-formed caches\<close>

definition ram_addr :: "paddr_t \<Rightarrow> bool" where
  "ram_addr a \<longleftrightarrow> 0x80000000 \<le> a \<and> a < 0x88000000"

definition line_ok :: "Cache \<Rightarrow> nat \<Rightarrow> CacheLine \<Rightarrow> bool" where
  "line_ok c i l \<longleftrightarrow> length (cl_data l) = 64 \<and>
     (cl_valid l \<longrightarrow> (\<exists>x. ram_addr x \<and> set_index c x = i \<and> tag_of c x = cl_tag l))"

definition tags_distinct :: "CacheLine list \<Rightarrow> bool" where
  "tags_distinct ls \<longleftrightarrow> (\<forall>j<length ls. \<forall>k<length ls.
     j \<noteq> k \<longrightarrow> cl_valid (ls ! j) \<longrightarrow> cl_valid (ls ! k) \<longrightarrow> cl_tag (ls ! j) \<noteq> cl_tag (ls ! k))"

definition set_ok :: "Cache \<Rightarrow> nat \<Rightarrow> CacheSet \<Rightarrow> bool" where
  "set_ok c i s \<longleftrightarrow> length (cs_lines s) = c_w c \<and> cs_mru_way s < int (c_w c) \<and>
     list_all (line_ok c i) (cs_lines s) \<and> tags_distinct (cs_lines s)"

definition wf_cache :: "Cache \<Rightarrow> bool" where
  "wf_cache c \<longleftrightarrow> c_off c = 6 \<and> c_s c \<le> 32 \<and> 0 < c_w c \<and> length (c_sets c) = 2 ^ c_s c \<and>
     (\<forall>i<2 ^ c_s c. set_ok c i (c_sets c ! i))"

definition lookup :: "Cache \<Rightarrow> paddr_t \<Rightarrow> CacheLine option" where
  "lookup c a = find (\<lambda>l. cl_valid l \<and> cl_tag l = tag_of c a) (cs_lines (c_sets c ! set_index c a))"

definition held :: "Cache \<Rightarrow> paddr_t \<Rightarrow> (bool \<times> byte list) option" where
  "held c a = map_option (\<lambda>l. (cl_dirty l, cl_data l)) (lookup c a)"

definition blk :: "paddr_t \<Rightarrow> paddr_t" where
  "blk a = a AND NOT 63"

subsection \<open>Addresses\<close>

lemma mask_s: "push_bit n 1 - 1 = (mask n :: word_t)"
  by (simp add: mask_eq_exp_minus_1 push_bit_eq_mult)

lemma set_index_eq: "set_index c a = unat (take_bit (c_s c) (drop_bit (c_off c) a))"
  unfolding set_index_def mask_s take_bit_eq_mask ..

lemma set_index_less: "c_s c \<le> 32 \<Longrightarrow> set_index c a < 2 ^ c_s c"
  unfolding set_index_eq by (simp add: unsigned_take_bit_eq)

lemma bit_63: "bit (63 :: word_t) n \<longleftrightarrow> n < 6"
proof -
  have e: "(63 :: word_t) = mask 6" by (simp add: mask_eq_exp_minus_1)
  show ?thesis unfolding e bit_mask_iff by auto
qed

lemma bit_blk: "bit (blk a) n \<longleftrightarrow> 6 \<le> n \<and> bit a n"
  unfolding blk_def bit_and_iff bit_not_iff bit_63 using bit_imp_le_length [of a n] by auto

lemma blk_eq_iff: "blk a = blk b \<longleftrightarrow> drop_bit 6 a = drop_bit 6 b"
proof
  assume "blk a = blk b"
  then have "drop_bit 6 (blk a) = drop_bit 6 (blk b)" by simp
  moreover have "drop_bit 6 (blk x) = drop_bit 6 x" for x :: paddr_t
    by (rule bit_word_eqI) (auto simp: bit_drop_bit_eq bit_blk)
  ultimately show "drop_bit 6 a = drop_bit 6 b" by simp
next
  assume e: "drop_bit 6 a = drop_bit 6 b"
  have "bit a n = bit b n" if "6 \<le> n" for n
    using arg_cong [OF e, of "\<lambda>w. bit w (n - 6)"] that by (simp add: bit_drop_bit_eq)
  then show "blk a = blk b" by (intro bit_word_eqI) (auto simp: bit_blk)
qed

text \<open>An index and a tag determine the block.\<close>

lemma same_block:
  assumes "c_off c = 6"
  shows "set_index c a = set_index c b \<and> tag_of c a = tag_of c b \<longleftrightarrow> blk a = blk b"
proof
  assume h: "set_index c a = set_index c b \<and> tag_of c a = tag_of c b"
  then have t: "take_bit (c_s c) (drop_bit 6 a) = take_bit (c_s c) (drop_bit 6 b)"
    unfolding set_index_eq assms by (metis unsigned_word_eqI)
  from h have d: "drop_bit (c_s c) (drop_bit 6 a) = drop_bit (c_s c) (drop_bit 6 b)"
    by (simp add: tag_of_def assms)
  have "drop_bit 6 a = drop_bit 6 b"
    using t d bits_ident [of "c_s c" "drop_bit 6 a"] bits_ident [of "c_s c" "drop_bit 6 b"] by metis
  then show "blk a = blk b" by (simp add: blk_eq_iff)
next
  assume "blk a = blk b"
  then have "drop_bit 6 a = drop_bit 6 b" by (simp add: blk_eq_iff)
  moreover have "tag_of c x = drop_bit (c_s c) (drop_bit 6 x)" for x
    by (simp add: tag_of_def assms)
  ultimately show "set_index c a = set_index c b \<and> tag_of c a = tag_of c b"
    unfolding set_index_eq assms by metis
qed

lemma block_addr_eq:
  assumes "c_off c = 6" and "set_index c x = set_index c addr" and "tag_of c x = cl_tag l"
  shows "block_addr c addr l = blk x"
proof (rule bit_word_eqI)
  fix n assume n: "n < LENGTH(64)"
  have t: "take_bit (c_s c) (drop_bit 6 x) = take_bit (c_s c) (drop_bit 6 addr)"
    using assms(2) unfolding set_index_eq assms(1) by (metis unsigned_word_eqI)
  have lo: "bit addr n = bit x n" if "6 \<le> n" "n < c_s c + 6"
    using arg_cong [OF t, of "\<lambda>w. bit w (n - 6)"] that by (auto simp: bit_simps)
  have hi: "bit (cl_tag l) (n - (c_s c + 6)) = bit x n" if "c_s c + 6 \<le> n"
    using that by (simp add: assms(3) [symmetric] tag_of_def assms(1) bit_drop_bit_eq)
  show "bit (block_addr c addr l) n = bit (blk x) n"
    unfolding block_addr_def assms(1) mask_s bit_blk
    using n lo hi by (cases "n < c_s c + 6") (auto simp: bit_simps)
qed

lemma blk_shift: "blk a = push_bit 6 (drop_bit 6 a)"
  by (rule bit_word_eqI) (auto simp: bit_blk bit_simps)

lemma unat_blk: "unat (blk a) = unat a div 64 * 64"
proof -
  have "unat (drop_bit 6 a) = unat a div 64"
    by (simp add: drop_bit_eq_div unat_div)
  moreover have "unat a div 64 * 64 < 2 ^ 64"
    using unsigned_less [of a] by (intro order_le_less_trans [OF div_times_less_eq_dividend]) simp
  ultimately show ?thesis
    by (simp add: blk_shift push_bit_eq_mult unat_word_ariths)
qed

lemma blk_blk [simp]: "blk (blk a) = blk a"
  by (rule bit_word_eqI) (simp add: bit_blk)

lemma ram_addr_unat: "ram_addr a \<longleftrightarrow> 0x80000000 \<le> unat a \<and> unat a < 0x88000000"
  by (simp add: ram_addr_def word_le_nat_alt word_less_nat_alt)

lemma ram_blk [simp]: "ram_addr (blk a) \<longleftrightarrow> ram_addr a"
proof -
  define q where "q = unat a div 64"
  have "(0x80000000 \<le> unat a) = (0x2000000 \<le> q)" "(unat a < 0x88000000) = (q < 0x2200000)"
    using less_eq_div_iff_mult_less_eq [of 64 "0x2000000" "unat a"] div_less_iff_less_mult [of 64 "unat a" "0x2200000"]
    by (simp_all add: q_def)
  moreover have "(0x80000000 \<le> q * 64) = (0x2000000 \<le> q)" "(q * 64 < 0x88000000) = (q < 0x2200000)"
    by linarith+
  ultimately show ?thesis
    unfolding ram_addr_unat unat_blk q_def [symmetric] by simp
qed

subsection \<open>Lines\<close>

lemma wf_cacheD:
  assumes "wf_cache c"
  shows "c_off c = 6" "c_s c \<le> 32" "0 < c_w c" "length (c_sets c) = 2 ^ c_s c"
    "i < 2 ^ c_s c \<Longrightarrow> set_ok c i (c_sets c ! i)" "set_index c a < 2 ^ c_s c" "set_index c a < length (c_sets c)"
  using assms set_index_less by (auto simp: wf_cache_def)

lemma set_okD:
  assumes "set_ok c i s"
  shows "length (cs_lines s) = c_w c" "cs_mru_way s < int (c_w c)"
    "way < c_w c \<Longrightarrow> line_ok c i (cs_lines s ! way)" "tags_distinct (cs_lines s)"
  using assms by (auto simp: set_ok_def list_all_length)

lemma line_ok_get:
  "wf_cache c \<Longrightarrow> i < 2 ^ c_s c \<Longrightarrow> way < c_w c \<Longrightarrow> line_ok c i (get_line c i way)"
  unfolding get_line_def using wf_cacheD(5) set_okD(3) by blast

definition matches :: "Cache \<Rightarrow> paddr_t \<Rightarrow> CacheLine \<Rightarrow> bool" where
  "matches c a l \<longleftrightarrow> cl_valid l \<and> cl_tag l = tag_of c a"

lemma matches_unique:
  assumes "wf_cache c" and "j < c_w c" and "k < c_w c"
    and "matches c a (get_line c (set_index c a) j)" and "matches c a (get_line c (set_index c a) k)"
  shows "j = k"
  using assms set_okD(1,4) [OF wf_cacheD(5) [OF assms(1) wf_cacheD(6) [OF assms(1)]]]
  unfolding tags_distinct_def matches_def get_line_def by metis

lemma lookup_line:
  assumes "wf_cache c" and "way < c_w c" and "matches c a (get_line c (set_index c a) way)"
  shows "lookup c a = Some (get_line c (set_index c a) way)"
proof -
  have l: "length (cs_lines (c_sets c ! set_index c a)) = c_w c"
    using assms(1) wf_cacheD set_okD(1) by blast
  have u: "\<not> matches c a (get_line c (set_index c a) j)" if "j < way" for j
    using matches_unique [OF assms(1) _ assms(2) _ assms(3), of j] assms(2) that by auto
  show ?thesis
    unfolding lookup_def find_Some_iff
    using assms u l by (intro exI [of _ way]) (simp add: matches_def get_line_def)
qed

lemma lookup_SomeE:
  assumes "wf_cache c" and "lookup c a = Some l"
  obtains way where "way < c_w c" "l = get_line c (set_index c a) way" "matches c a l"
proof -
  have l: "length (cs_lines (c_sets c ! set_index c a)) = c_w c"
    using assms(1) wf_cacheD set_okD(1) by blast
  show thesis
    using assms(2) l that unfolding lookup_def find_Some_iff by (auto simp: matches_def get_line_def)
qed

lemma lookup_None_iff:
  assumes "wf_cache c"
  shows "lookup c a = None \<longleftrightarrow> (\<forall>way<c_w c. \<not> matches c a (get_line c (set_index c a) way))"
  using lookup_line [OF assms] lookup_SomeE [OF assms]
  by (metis option.exhaust option.distinct(1))

lemma held_line:
  assumes "wf_cache c" and "way < c_w c" and "matches c a (get_line c (set_index c a) way)"
  shows "held c a = Some (cl_dirty (get_line c (set_index c a) way), cl_data (get_line c (set_index c a) way))"
  by (simp add: held_def lookup_line [OF assms])

lemma held_None_iff:
  assumes "wf_cache c"
  shows "held c a = None \<longleftrightarrow> (\<forall>way<c_w c. \<not> matches c a (get_line c (set_index c a) way))"
  by (simp add: held_def lookup_None_iff [OF assms])

lemma held_blk: "c_off c = 6 \<Longrightarrow> blk a = blk b \<Longrightarrow> held c a = held c b"
  using same_block [of c a b] by (simp add: held_def lookup_def)

lemma held_length:
  assumes "wf_cache c" and "held c a = Some (d, bs)"
  shows "length bs = 64"
proof -
  obtain l where l: "lookup c a = Some l" "bs = cl_data l" using assms(2) by (auto simp: held_def)
  obtain way where "way < c_w c" "l = get_line c (set_index c a) way"
    using lookup_SomeE [OF assms(1) l(1)] by blast
  with l(2) line_ok_get [OF assms(1) wf_cacheD(6) [OF assms(1)]] show ?thesis by (simp add: line_ok_def)
qed

subsection \<open>The scan of the ways\<close>

lemma scan_ways_hit:
  assumes "scan_ways ls tag i lru mt = (True, way)"
  shows "i \<le> way \<and> way < i + length ls \<and> cl_valid (ls ! (way - i)) \<and> cl_tag (ls ! (way - i)) = tag"
  using assms
proof (induction ls tag i lru mt rule: scan_ways.induct)
  case (2 l ls tag i lru mt)
  then show ?case by (force split: if_splits simp: nth_Cons')
qed simp

lemma scan_ways_miss:
  assumes "scan_ways ls tag i lru mt = (False, way)"
  shows "(way = lru \<or> i \<le> way \<and> way < i + length ls) \<and> (\<forall>l\<in>set ls. \<not> (cl_valid l \<and> cl_tag l = tag))"
  using assms
proof (induction ls tag i lru mt rule: scan_ways.induct)
  case (2 l ls tag i lru mt)
  then show ?case by (fastforce split: if_splits)
qed simp

subsection \<open>Counters, the clock and the hint way do not matter\<close>

lemma set_index_stat [simp]:
  "set_index (c\<lparr>c_timer := t\<rparr>) a = set_index c a"
  "set_index (c\<lparr>c_hits := x\<rparr>) a = set_index c a"
  "set_index (c\<lparr>c_misses := x\<rparr>) a = set_index c a"
  "set_index (c\<lparr>c_evictions := x\<rparr>) a = set_index c a"
  "set_index (c\<lparr>c_writebacks := x\<rparr>) a = set_index c a"
  by (simp_all add: set_index_def)

lemma tag_of_stat [simp]:
  "tag_of (c\<lparr>c_timer := t\<rparr>) a = tag_of c a"
  "tag_of (c\<lparr>c_hits := x\<rparr>) a = tag_of c a"
  "tag_of (c\<lparr>c_misses := x\<rparr>) a = tag_of c a"
  "tag_of (c\<lparr>c_evictions := x\<rparr>) a = tag_of c a"
  "tag_of (c\<lparr>c_writebacks := x\<rparr>) a = tag_of c a"
  by (simp_all add: tag_of_def)

lemma get_line_stat [simp]:
  "get_line (c\<lparr>c_timer := t\<rparr>) i way = get_line c i way"
  "get_line (c\<lparr>c_hits := x\<rparr>) i way = get_line c i way"
  "get_line (c\<lparr>c_misses := x\<rparr>) i way = get_line c i way"
  "get_line (c\<lparr>c_evictions := x\<rparr>) i way = get_line c i way"
  "get_line (c\<lparr>c_writebacks := x\<rparr>) i way = get_line c i way"
  by (simp_all add: get_line_def)

lemma line_ok_stat [simp]:
  "line_ok (c\<lparr>c_timer := t\<rparr>) = line_ok c"
  "line_ok (c\<lparr>c_hits := x\<rparr>) = line_ok c"
  "line_ok (c\<lparr>c_misses := x\<rparr>) = line_ok c"
  "line_ok (c\<lparr>c_evictions := x\<rparr>) = line_ok c"
  "line_ok (c\<lparr>c_writebacks := x\<rparr>) = line_ok c"
  by (simp_all add: line_ok_def fun_eq_iff)

lemma wf_cache_stat [simp]:
  "wf_cache (c\<lparr>c_timer := t\<rparr>) = wf_cache c"
  "wf_cache (c\<lparr>c_hits := x\<rparr>) = wf_cache c"
  "wf_cache (c\<lparr>c_misses := x\<rparr>) = wf_cache c"
  "wf_cache (c\<lparr>c_evictions := x\<rparr>) = wf_cache c"
  "wf_cache (c\<lparr>c_writebacks := x\<rparr>) = wf_cache c"
  by (simp_all add: wf_cache_def set_ok_def)

lemma held_stat [simp]:
  "held (c\<lparr>c_timer := t\<rparr>) a = held c a"
  "held (c\<lparr>c_hits := x\<rparr>) a = held c a"
  "held (c\<lparr>c_misses := x\<rparr>) a = held c a"
  "held (c\<lparr>c_evictions := x\<rparr>) a = held c a"
  "held (c\<lparr>c_writebacks := x\<rparr>) a = held c a"
  by (simp_all add: held_def lookup_def)

lemma matches_stat [simp]:
  "matches (c\<lparr>c_timer := t\<rparr>) a l = matches c a l"
  "matches (c\<lparr>c_hits := x\<rparr>) a l = matches c a l"
  "matches (c\<lparr>c_misses := x\<rparr>) a l = matches c a l"
  "matches (c\<lparr>c_evictions := x\<rparr>) a l = matches c a l"
  "matches (c\<lparr>c_writebacks := x\<rparr>) a l = matches c a l"
  by (simp_all add: matches_def)

lemma mru_hit_stat [simp]:
  "mru_hit (c\<lparr>c_timer := t\<rparr>) i tg = mru_hit c i tg"
  "mru_hit (c\<lparr>c_hits := x\<rparr>) i tg = mru_hit c i tg"
  "mru_hit (c\<lparr>c_misses := x\<rparr>) i tg = mru_hit c i tg"
  "mru_hit (c\<lparr>c_evictions := x\<rparr>) i tg = mru_hit c i tg"
  "mru_hit (c\<lparr>c_writebacks := x\<rparr>) i tg = mru_hit c i tg"
  by (simp_all add: mru_hit_def)

lemma put_line_frame [simp]:
  "c_s (put_line c i way l) = c_s c" "c_w (put_line c i way l) = c_w c" "c_off (put_line c i way l) = c_off c"
  "length (c_sets (put_line c i way l)) = length (c_sets c)" "c_timer (put_line c i way l) = c_timer c"
  "set_index (put_line c i way l) a = set_index c a" "tag_of (put_line c i way l) a = tag_of c a"
  "line_ok (put_line c i way l) = line_ok c" "matches (put_line c i way l) a x = matches c a x"
  by (simp_all add: put_line_def set_index_def tag_of_def line_ok_def matches_def fun_eq_iff)

lemma put_mru_frame [simp]:
  "c_s (put_mru c i way) = c_s c" "c_w (put_mru c i way) = c_w c" "c_off (put_mru c i way) = c_off c"
  "length (c_sets (put_mru c i way)) = length (c_sets c)" "c_timer (put_mru c i way) = c_timer c"
  "set_index (put_mru c i way) a = set_index c a" "tag_of (put_mru c i way) a = tag_of c a"
  "line_ok (put_mru c i way) = line_ok c" "matches (put_mru c i way) a x = matches c a x"
  by (simp_all add: put_mru_def set_index_def tag_of_def line_ok_def matches_def fun_eq_iff)

lemma get_line_put_mru [simp]: "get_line (put_mru c i way) j k = get_line c j k"
  by (cases "i < length (c_sets c)") (simp_all add: get_line_def put_mru_def nth_list_update list_update_beyond not_less)

lemma wf_put_mru: "wf_cache c \<Longrightarrow> way < c_w c \<Longrightarrow> wf_cache (put_mru c i way)"
  by (cases "i < length (c_sets c)")
    (auto simp: wf_cache_def nth_list_update set_ok_def, auto simp: put_mru_def nth_list_update)

lemma held_put_mru [simp]: "held (put_mru c i way) a = held c a"
  by (cases "i < length (c_sets c)") (simp_all add: held_def lookup_def put_mru_def nth_list_update list_update_beyond not_less set_index_def tag_of_def)

subsection \<open>Replacing a line\<close>

lemma get_line_put:
  assumes "wf_cache c" and "i < 2 ^ c_s c" and "way < c_w c"
  shows "get_line (put_line c i way l) j k = (if j = i \<and> k = way then l else get_line c j k)"
  using wf_cacheD(4) [OF assms(1)] set_okD(1) [OF wf_cacheD(5) [OF assms(1,2)]] assms(2,3)
  by (auto simp: get_line_def put_line_def nth_list_update)

definition fresh_tag :: "Cache \<Rightarrow> nat \<Rightarrow> nat \<Rightarrow> CacheLine \<Rightarrow> bool" where
  "fresh_tag c i way l \<longleftrightarrow> (\<forall>k<c_w c. k \<noteq> way \<longrightarrow> cl_valid l \<longrightarrow> cl_valid (get_line c i k) \<longrightarrow> cl_tag (get_line c i k) \<noteq> cl_tag l)"

lemma wf_put_line:
  assumes "wf_cache c" and "i < 2 ^ c_s c" and "way < c_w c" and "line_ok c i l" and "fresh_tag c i way l"
  shows "wf_cache (put_line c i way l)"
proof -
  let ?ls = "cs_lines (c_sets c ! i)"
  have so: "set_ok c i (c_sets c ! i)" using wf_cacheD(5) [OF assms(1,2)] .
  have len: "length ?ls = c_w c" using set_okD(1) [OF so] .
  have "list_all (line_ok c i) (?ls[way := l])"
    using so assms(3,4) by (auto simp: set_ok_def list_all_length nth_list_update)
  moreover have "tags_distinct (?ls[way := l])"
    using set_okD(4) [OF so] assms(3,5) len
    unfolding tags_distinct_def fresh_tag_def get_line_def
    by (auto simp: nth_list_update split: if_splits)
  ultimately have "set_ok c i ((c_sets c ! i)\<lparr>cs_lines := ?ls[way := l]\<rparr>)"
    using so by (simp add: set_ok_def)
  moreover have "set_ok (put_line c i way l) j x = set_ok c j x" for j x
    by (simp add: set_ok_def)
  ultimately show ?thesis
    using assms(1,2) unfolding wf_cache_def
    by (auto simp: put_line_def nth_list_update)
qed

lemma held_put_line:
  assumes "wf_cache c" and "i < 2 ^ c_s c" and "way < c_w c" and "line_ok c i l" and "fresh_tag c i way l"
  shows "held (put_line c i way l) a =
    (if set_index c a = i \<and> matches c a l then Some (cl_dirty l, cl_data l)
     else if set_index c a = i \<and> matches c a (get_line c i way) then None
     else held c a)"
proof -
  let ?c = "put_line c i way l"
  have wf: "wf_cache ?c" using wf_put_line [OF assms] .
  have g: "get_line ?c (set_index ?c a) k = (if set_index c a = i \<and> k = way then l else get_line c (set_index c a) k)" for k
    using get_line_put [OF assms(1-3)] by simp
  consider (new) "set_index c a = i" "matches c a l" | (old) "set_index c a = i" "\<not> matches c a l" "matches c a (get_line c i way)"
    | (other) "set_index c a \<noteq> i \<or> \<not> matches c a l \<and> \<not> matches c a (get_line c i way)" by blast
  then show ?thesis
  proof cases
    case new
    then show ?thesis using held_line [OF wf, of way a] assms(3) g by simp
  next
    case old
    have "\<not> matches c a (get_line ?c (set_index ?c a) k)" if k: "k < c_w c" for k
    proof (cases "k = way")
      case True
      then show ?thesis using old g [of k] by simp
    next
      case False
      then show ?thesis using matches_unique [OF assms(1) k assms(3)] old g [of k] by metis
    qed
    then have "held ?c a = None" using held_None_iff [OF wf] by simp
    then show ?thesis using old by simp
  next
    case other
    then have rhs: "\<not> (set_index c a = i \<and> matches c a l)" "\<not> (set_index c a = i \<and> matches c a (get_line c i way))" by auto
    have same: "matches ?c a (get_line ?c (set_index ?c a) k) \<longleftrightarrow> matches c a (get_line c (set_index c a) k)" for k
      using other g [of k] by auto
    show ?thesis
    proof (cases "\<exists>k<c_w c. matches c a (get_line c (set_index c a) k)")
      case True
      then obtain k where k: "k < c_w c" "matches c a (get_line c (set_index c a) k)" by blast
      with other have "get_line ?c (set_index ?c a) k = get_line c (set_index c a) k" using g [of k] by auto
      then show ?thesis
        using held_line [OF wf, of k a] held_line [OF assms(1) k] k same [of k] unfolding if_not_P [OF rhs(1)] if_not_P [OF rhs(2)] by simp
    next
      case False
      then have "held ?c a = None" "held c a = None"
        using held_None_iff [OF wf, of a] held_None_iff [OF assms(1), of a] same by simp_all
      then show ?thesis unfolding if_not_P [OF rhs(1)] if_not_P [OF rhs(2)] by simp
    qed
  qed
qed

text \<open>The three ways the code replaces a line: the same block, an invalid line, a block the cache does not hold.\<close>

lemma put_same_block:
  assumes "wf_cache c" and "i < 2 ^ c_s c" and "way < c_w c" and "length (cl_data l) = 64"
    and "cl_valid l = cl_valid (get_line c i way)" and "cl_tag l = cl_tag (get_line c i way)"
  shows "wf_cache (put_line c i way l)"
    and "held (put_line c i way l) b =
      (if set_index c b = i \<and> matches c b (get_line c i way) then Some (cl_dirty l, cl_data l) else held c b)"
proof -
  have ok: "line_ok c i l"
    using line_ok_get [OF assms(1-3)] assms(4-6) by (simp add: line_ok_def)
  have fr: "fresh_tag c i way l"
    using set_okD(1,4) [OF wf_cacheD(5) [OF assms(1,2)]] assms(3,5,6)
    by (auto simp: fresh_tag_def tags_distinct_def get_line_def)
  show "wf_cache (put_line c i way l)" using wf_put_line [OF assms(1-3) ok fr] .
  show "held (put_line c i way l) b =
      (if set_index c b = i \<and> matches c b (get_line c i way) then Some (cl_dirty l, cl_data l) else held c b)"
    unfolding held_put_line [OF assms(1-3) ok fr] using assms(5,6) by (simp add: matches_def)
qed

lemma put_invalid:
  assumes "wf_cache c" and "i < 2 ^ c_s c" and "way < c_w c" and "length (cl_data l) = 64" and "\<not> cl_valid l"
  shows "wf_cache (put_line c i way l)"
    and "held (put_line c i way l) b =
      (if set_index c b = i \<and> matches c b (get_line c i way) then None else held c b)"
proof -
  have ok: "line_ok c i l" "fresh_tag c i way l"
    using assms(4,5) by (simp_all add: line_ok_def fresh_tag_def)
  show "wf_cache (put_line c i way l)" using wf_put_line [OF assms(1-3) ok] .
  show "held (put_line c i way l) b = (if set_index c b = i \<and> matches c b (get_line c i way) then None else held c b)"
    unfolding held_put_line [OF assms(1-3) ok] using assms(5) by (simp add: matches_def)
qed

lemma put_new_block:
  assumes "wf_cache c" and "ram_addr a" and "held c a = None" and "way < c_w c" and "length (cl_data l) = 64"
    and "cl_valid l" and "cl_tag l = tag_of c a"
  defines "i \<equiv> set_index c a"
  shows "wf_cache (put_line c i way l)"
    and "held (put_line c i way l) b =
      (if blk b = blk a then Some (cl_dirty l, cl_data l)
       else if set_index c b = i \<and> matches c b (get_line c i way) then None else held c b)"
proof -
  have i: "i < 2 ^ c_s c" unfolding i_def using wf_cacheD(6) [OF assms(1)] .
  have ok: "line_ok c i l" using assms(2,5,7) by (auto simp: line_ok_def i_def)
  have fr: "fresh_tag c i way l"
    using assms(3,7) held_None_iff [OF assms(1)] unfolding fresh_tag_def i_def matches_def by metis
  have m: "set_index c b = i \<and> matches c b l \<longleftrightarrow> blk b = blk a"
    using same_block [OF wf_cacheD(1) [OF assms(1)], of b a] assms(6,7) by (auto simp: matches_def i_def)
  show "wf_cache (put_line c i way l)" using wf_put_line [OF assms(1) i assms(4) ok fr] .
  show "held (put_line c i way l) b =
      (if blk b = blk a then Some (cl_dirty l, cl_data l)
       else if set_index c b = i \<and> matches c b (get_line c i way) then None else held c b)"
    unfolding held_put_line [OF assms(1) i assms(4) ok fr] m ..
qed

subsection \<open>Finding a line\<close>

text \<open>A lookup reports a hit exactly when the block is held, points to its line, and changes nothing that is held.\<close>

definition same_held :: "Cache \<Rightarrow> Cache \<Rightarrow> bool" where
  "same_held c c' \<longleftrightarrow> c_s c' = c_s c \<and> c_off c' = c_off c \<and> c_w c' = c_w c \<and> (\<forall>b. held c' b = held c b)"

lemma touch_line:
  fixes t :: word_t
  assumes "wf_cache c" and "way < c_w c" and "matches c a (get_line c (set_index c a) way)"
  defines "l \<equiv> (get_line c (set_index c a) way)\<lparr>cl_last_access := t\<rparr>"
  shows "wf_cache (put_line c (set_index c a) way l)" and "same_held c (put_line c (set_index c a) way l)"
    and "matches c a (get_line (put_line c (set_index c a) way l) (set_index c a) way)"
proof -
  let ?i = "set_index c a"
  have i: "?i < 2 ^ c_s c" using wf_cacheD(6) [OF assms(1)] .
  have len: "length (cl_data l) = 64" using line_ok_get [OF assms(1) i assms(2)] by (simp add: l_def line_ok_def)
  have p: "cl_valid l = cl_valid (get_line c ?i way)" "cl_tag l = cl_tag (get_line c ?i way)" by (simp_all add: l_def)
  show "wf_cache (put_line c ?i way l)" using put_same_block(1) [OF assms(1) i assms(2) len p] .
  have "held (put_line c ?i way l) b = held c b" for b
    unfolding put_same_block(2) [OF assms(1) i assms(2) len p]
    using held_line [OF assms(1,2), of b] by (auto simp: l_def)
  then show "same_held c (put_line c ?i way l)" by (simp add: same_held_def)
  show "matches c a (get_line (put_line c ?i way l) ?i way)"
    using get_line_put [OF assms(1) i assms(2)] assms(3) by (simp add: l_def matches_def)
qed

lemma mru_hit_matches:
  assumes "wf_cache c" and "mru_hit c (set_index c a) (tag_of c a)"
  shows "nat (cs_mru_way (c_sets c ! set_index c a)) < c_w c"
    and "matches c a (get_line c (set_index c a) (nat (cs_mru_way (c_sets c ! set_index c a))))"
  using assms(2) set_okD(2) [OF wf_cacheD(5) [OF assms(1) wf_cacheD(6) [OF assms(1), of a]]]
  by (auto simp: mru_hit_def matches_def Let_def)

lemma scan_set:
  assumes "wf_cache c" and "scan_ways (cs_lines (c_sets c ! set_index c a)) (tag_of c a) 0 0 (-1) = (hit, way)"
  shows "way < c_w c" and "hit \<Longrightarrow> matches c a (get_line c (set_index c a) way)" and "\<not> hit \<Longrightarrow> held c a = None"
proof -
  have l: "length (cs_lines (c_sets c ! set_index c a)) = c_w c"
    using assms(1) wf_cacheD set_okD(1) by blast
  show "way < c_w c" and "hit \<Longrightarrow> matches c a (get_line c (set_index c a) way)" and "\<not> hit \<Longrightarrow> held c a = None"
    using assms scan_ways_hit scan_ways_miss l wf_cacheD(3) [OF assms(1)]
    by (cases hit; fastforce simp: matches_def get_line_def held_None_iff [OF assms(1)])+
qed

lemma find_line_cases [consumes 1, case_names mru scan miss]:
  fixes a :: paddr_t
  assumes "wf_cache c"
  defines "i \<equiv> set_index c a" and "t \<equiv> c_timer c + 1"
  defines "c2 \<equiv> c\<lparr>c_timer := t, c_hits := c_hits c + 1\<rparr>"
  obtains (mru) way where "way < c_w c" "matches c a (get_line c i way)"
      "find_line c a = (put_line c2 i way ((get_line c i way)\<lparr>cl_last_access := t\<rparr>), True, way)"
  | (scan) way where "way < c_w c" "matches c a (get_line c i way)"
      "find_line c a = (put_mru (put_line c2 i way ((get_line c i way)\<lparr>cl_last_access := t\<rparr>)) i way, True, way)"
  | (miss) way where "way < c_w c" "held c a = None"
      "find_line c a = (c\<lparr>c_timer := t, c_misses := c_misses c + 1\<rparr>, False, way)"
proof (cases "mru_hit c i (tag_of c a)")
  case True
  then show thesis
    using mru(1) [of "nat (cs_mru_way (c_sets c ! i))"] mru_hit_matches [OF assms(1), of a]
    by (simp add: find_line_def i_def t_def c2_def Let_def)
next
  case False
  obtain hit way where r: "scan_ways (cs_lines (c_sets c ! i)) (tag_of c a) 0 0 (-1) = (hit, way)"
    by (metis surj_pair)
  note sc = scan_set [OF assms(1) r [unfolded i_def], folded i_def]
  show thesis
  proof (cases hit)
    case True
    with False r show thesis
      using scan(1) [of way] sc by (simp add: find_line_def i_def t_def c2_def Let_def)
  next
    case False
    with \<open>\<not> mru_hit c i (tag_of c a)\<close> r show thesis
      using miss(1) [of way] sc by (simp add: find_line_def i_def t_def Let_def)
  qed
qed

lemma find_line_ok:
  assumes "wf_cache c" and "find_line c a = (c', hit, way)"
  shows "wf_cache c' \<and> same_held c c' \<and> way < c_w c \<and> (hit \<longleftrightarrow> held c a \<noteq> None) \<and>
    (hit \<longrightarrow> matches c a (get_line c' (set_index c a) way))"
  using assms(1)
proof (cases rule: find_line_cases [where a = a])
  case (mru w)
  define c2 where "c2 = c\<lparr>c_timer := c_timer c + 1, c_hits := c_hits c + 1\<rparr>"
  have "wf_cache c2" "w < c_w c2" "matches c2 a (get_line c2 (set_index c2 a) w)"
    using assms(1) mru(1,2) by (simp_all add: c2_def)
  from touch_line [OF this, of "c_timer c + 1"] show ?thesis
    using mru assms held_line [OF assms(1) mru(1,2)] by (simp add: c2_def same_held_def)
next
  case (scan w)
  define c2 where "c2 = c\<lparr>c_timer := c_timer c + 1, c_hits := c_hits c + 1\<rparr>"
  have "wf_cache c2" "w < c_w c2" "matches c2 a (get_line c2 (set_index c2 a) w)"
    using assms(1) scan(1,2) by (simp_all add: c2_def)
  from touch_line [OF this, of "c_timer c + 1"] show ?thesis
    using scan assms held_line [OF assms(1) scan(1,2)] by (simp add: c2_def same_held_def wf_put_mru)
next
  case (miss w)
  then show ?thesis using assms by (auto simp: same_held_def)
qed

lemma find_line_quiet_ok:
  assumes "wf_cache c" and "find_line_quiet c a = (c', hit, way)"
  shows "wf_cache c' \<and> same_held c c' \<and> way < c_w c \<and> (hit \<longleftrightarrow> held c a \<noteq> None)"
proof (cases "mru_hit c (set_index c a) (tag_of c a)")
  case True
  then show ?thesis
    using assms mru_hit_matches [OF assms(1), of a] held_line [OF assms(1)]
    by (auto simp: find_line_quiet_def same_held_def Let_def)
next
  case False
  obtain h w where r: "scan_ways (cs_lines (c_sets c ! set_index c a)) (tag_of c a) 0 0 (-1) = (h, w)"
    by (metis surj_pair)
  show ?thesis
    using False r assms scan_set [OF assms(1) r] held_line [OF assms(1), of w a] wf_put_mru [OF assms(1)]
    by (auto simp: find_line_quiet_def same_held_def Let_def split: if_splits)
qed

section \<open>Blocks of RAM\<close>

definition mem_block :: "machine \<Rightarrow> paddr_t \<Rightarrow> byte list" where
  "mem_block m a = load_bytes (pmem m) (guest_to_host (blk a)) 64"

lemma length_mem_block [simp]: "length (mem_block m a) = 64"
  by (simp add: mem_block_def)

lemma and_32: "unat a < 2 ^ 32 \<Longrightarrow> a AND 0xffffffff = (a :: word_t)"
proof -
  have "(0xffffffff :: word_t) = mask 32" by (simp add: mask_eq_exp_minus_1)
  then have "a AND 0xffffffff = take_bit 32 a" by (simp add: take_bit_eq_mask)
  then show "unat a < 2 ^ 32 \<Longrightarrow> ?thesis" by (simp add: word_take_bit_self)
qed

lemma ram_block_range:
  assumes "ram_addr a"
  shows "blk a AND 0xffffffff = blk a" "MBASE \<le> blk a" "blk a + 64 \<le> MBASE + MSIZE"
    "guest_to_host (blk a) = unat (blk a) - 0x80000000"
proof -
  have r: "0x80000000 \<le> unat (blk a)" "unat (blk a) < 0x88000000"
    using assms ram_blk [of a] unfolding ram_addr_unat by simp_all
  have d: "unat (blk a) = 64 * (unat a div 64)" using unat_blk by (simp add: mult.commute)
  show "blk a AND 0xffffffff = blk a" using r by (intro and_32) simp
  show "MBASE \<le> blk a" using r by (simp add: word_le_nat_alt)
  show "guest_to_host (blk a) = unat (blk a) - 0x80000000"
    using r by (simp add: guest_to_host_def unat_sub word_le_nat_alt)
  have "unat a div 64 < 0x2200000" using r(2) d by simp
  then have "unat (blk a) + 64 \<le> 0x88000000" using d by simp
  moreover from this have "unat (blk a + 64) = unat (blk a) + 64" by (simp add: unat_word_ariths)
  ultimately show "blk a + 64 \<le> MBASE + MSIZE" by (simp add: word_le_nat_alt)
qed

lemma load_block_ram:
  "ram_addr a \<Longrightarrow> load_block_from_mem (blk a) d m = Inr (mem_block m a, m)"
  using ram_block_range(1-3) [of a] by (simp add: load_block_from_mem_def mem_block_def)

lemma store_block_ram:
  "ram_addr a \<Longrightarrow> store_block_to_mem (blk a) d m = Inr (m\<lparr>pmem := store_bytes (pmem m) (guest_to_host (blk a)) d\<rparr>)"
  using ram_block_range(1-3) [of a] by (simp add: store_block_to_mem_def)

lemma mem_block_store:
  assumes "ram_addr a" and "ram_addr b" and "length d = 64"
  shows "mem_block (m\<lparr>pmem := store_bytes (pmem m) (guest_to_host (blk a)) d\<rparr>) b =
    (if blk b = blk a then d else mem_block m b)"
proof (cases "blk b = blk a")
  case True
  then show ?thesis using assms(3) load_store_bytes [of "pmem m" "guest_to_host (blk a)" d] by (simp add: mem_block_def)
next
  case False
  define qa qb where "qa = unat a div 64" and "qb = unat b div 64"
  have u: "unat (blk a) = 64 * qa" "unat (blk b) = 64 * qb" using unat_blk by (simp_all add: qa_def qb_def mult.commute)
  with False have "qa < qb \<or> qb < qa" by (metis linorder_neq_iff unsigned_word_eqI)
  moreover have "0x80000000 \<le> 64 * qa" "0x80000000 \<le> 64 * qb"
    using assms(1,2) ram_blk ram_addr_unat u by metis+
  ultimately have "guest_to_host (blk a) + 64 \<le> guest_to_host (blk b) \<or> guest_to_host (blk b) + 64 \<le> guest_to_host (blk a)"
    unfolding ram_block_range(4) [OF assms(1)] ram_block_range(4) [OF assms(2)] u by linarith
  with False show ?thesis
    using assms(3) by (simp add: mem_block_def load_store_bytes_disjoint)
qed

end
