(* ===== verification/Cache_Coherence.thy ===== *)
theory Cache_Coherence
  imports Cache_Refine
begin

text \<open>
  The hierarchy: one second-level cache over RAM, and the first-level data caches above it. The
  invariant and the value of every block, and how each operation of \<^verbatim>\<open>cache.c\<close> keeps the one and
  acts on the other.
\<close>

section \<open>The second level\<close>

definition l2_view :: "nat \<Rightarrow> machine \<Rightarrow> paddr_t \<Rightarrow> byte list" where
  "l2_view l2 m a = (case held (get_cache l2 m) a of Some (_, bs) \<Rightarrow> bs | None \<Rightarrow> mem_block m a)"

definition l2_ok :: "nat \<Rightarrow> machine \<Rightarrow> bool" where
  "l2_ok l2 m \<longleftrightarrow> l2 < length (caches m) \<and> wf_cache (get_cache l2 m) \<and>
     (\<forall>a bs. ram_addr a \<longrightarrow> held (get_cache l2 m) a = Some (False, bs) \<longrightarrow> bs = mem_block m a)"

text \<open>What a step of the memory system may touch: the caches and RAM; of the caches only some.\<close>

definition mem_frame :: "nat set \<Rightarrow> machine \<Rightarrow> machine \<Rightarrow> bool" where
  "mem_frame C m m' \<longleftrightarrow> m' = m\<lparr>caches := caches m', pmem := pmem m'\<rparr> \<and> length (caches m') = length (caches m) \<and>
     (\<forall>p. p \<notin> C \<longrightarrow> get_cache p m' = get_cache p m)"

lemma mem_frame_refl [simp]: "mem_frame C m m"
  by (simp add: mem_frame_def)

lemma mem_frame_trans:
  assumes "mem_frame C m m1" and "mem_frame C m1 m2"
  shows "mem_frame C m m2"
proof -
  have "m2 = m1\<lparr>caches := caches m2, pmem := pmem m2\<rparr>" "m1 = m\<lparr>caches := caches m1, pmem := pmem m1\<rparr>"
    using assms unfolding mem_frame_def by blast+
  then have "m2 = m\<lparr>caches := caches m1, pmem := pmem m1, caches := caches m2, pmem := pmem m2\<rparr>" by metis
  then have "m2 = m\<lparr>caches := caches m2, pmem := pmem m2\<rparr>" by simp
  with assms show ?thesis unfolding mem_frame_def by metis
qed

lemma mem_frame_mono: "mem_frame C m m' \<Longrightarrow> C \<subseteq> D \<Longrightarrow> mem_frame D m m'"
  unfolding mem_frame_def by blast

lemma get_put_cache:
  "p < length (caches m) \<Longrightarrow> get_cache q (put_cache p c m) = (if q = p then c else get_cache q m)"
  by (auto simp: get_cache_def put_cache_def)

lemma put_cache_frame [simp]:
  "mem_frame {p} m (put_cache p c m)" "length (caches (put_cache p c m)) = length (caches m)"
  "mem_block (put_cache p c m) a = mem_block m a" "pmem (put_cache p c m) = pmem m"
  by (auto simp: mem_frame_def put_cache_def get_cache_def mem_block_def)

lemma put_cache_twice [simp]: "put_cache p c (put_cache p c' m) = put_cache p c m"
  by (simp add: put_cache_def)

lemma mem_frame_pmem [simp]: "mem_frame C m (m\<lparr>pmem := x\<rparr>)"
  by (simp add: mem_frame_def get_cache_def)

lemma get_cache_pmem [simp]: "get_cache p (m\<lparr>pmem := x\<rparr>) = get_cache p m"
  by (simp add: get_cache_def)

text \<open>A cache exchanged for one that holds the same.\<close>

lemma l2_same_held:
  assumes "l2_ok l2 m" and "wf_cache c" and "same_held (get_cache l2 m) c"
  shows "l2_ok l2 (put_cache l2 c m)" and "l2_view l2 (put_cache l2 c m) = l2_view l2 m"
  using assms by (auto simp: l2_ok_def l2_view_def get_put_cache same_held_def fun_eq_iff split: option.splits)

lemma same_held_index:
  assumes "same_held c c'"
  shows "set_index c' a = set_index c a" "tag_of c' a = tag_of c a" "matches c' a l = matches c a l"
    "block_addr c' a l = block_addr c a l"
  using assms by (simp_all add: same_held_def set_index_def tag_of_def matches_def block_addr_def)

lemma l2_view_blk:
  assumes "l2_ok l2 m" and "blk b = blk a"
  shows "l2_view l2 m b = l2_view l2 m a"
  using held_blk [of "get_cache l2 m" b a] assms wf_cacheD(1)
  by (auto simp: l2_view_def l2_ok_def mem_block_def split: option.splits)

lemma length_l2_view: "l2_ok l2 m \<Longrightarrow> length (l2_view l2 m a) = 64"
  using held_length by (auto simp: l2_view_def l2_ok_def split: option.splits)

text \<open>After the victim is dealt with, RAM has what it held.\<close>

lemma l2_evict_ok:
  fixes a :: paddr_t
  assumes "l2_ok l2 m" and "way < c_w (get_cache l2 m)"
  defines "c \<equiv> get_cache l2 m"
  defines "v \<equiv> get_line c (set_index c a) way"
  shows "\<exists>m'. l2_evict l2 a way m = Inr m' \<and> mem_frame {l2} m m' \<and>
    (\<exists>e w. get_cache l2 m' = c\<lparr>c_evictions := e, c_writebacks := w\<rparr>) \<and>
    (\<forall>b. ram_addr b \<longrightarrow> mem_block m' b = (if set_index c b = set_index c a \<and> matches c b v then cl_data v else mem_block m b))"
proof -
  have wf: "wf_cache c" and len: "l2 < length (caches m)" using assms(1) by (simp_all add: l2_ok_def c_def)
  have wl: "way < c_w c" using assms(2) by (simp add: c_def)
  have lo: "line_ok c (set_index c a) v" unfolding v_def using line_ok_get [OF wf wf_cacheD(6) [OF wf] wl] .
  have hb: "held c b = Some (cl_dirty v, cl_data v)" if "set_index c b = set_index c a" "matches c b v" for b
    using held_line [OF wf wl, of b] that by (simp add: v_def)
  show ?thesis
  proof (cases "cl_valid v \<and> cl_dirty v")
    case True
    then obtain x where x: "ram_addr x" "set_index c x = set_index c a" "tag_of c x = cl_tag v"
      using lo by (auto simp: line_ok_def)
    have ba: "block_addr c a v = blk x" using block_addr_eq [OF wf_cacheD(1) [OF wf] x(2,3)] .
    have mt: "set_index c b = set_index c a \<and> matches c b v \<longleftrightarrow> blk b = blk x" for b
      using same_block [OF wf_cacheD(1) [OF wf], of b x] x True by (auto simp: matches_def)
    let ?m1 = "put_cache l2 (c\<lparr>c_evictions := c_evictions c + 1, c_writebacks := c_writebacks c + 1\<rparr>) m"
    let ?m2 = "?m1\<lparr>pmem := store_bytes (pmem ?m1) (guest_to_host (blk x)) (cl_data v)\<rparr>"
    have e: "l2_evict l2 a way m = Inr ?m2"
      using True ba store_block_ram [OF x(1)] by (simp add: l2_evict_def c_def v_def Let_def)
    have "mem_frame {l2} m ?m2" by (rule mem_frame_trans [OF put_cache_frame(1) mem_frame_pmem])
    moreover have "get_cache l2 ?m2 = c\<lparr>c_evictions := c_evictions c + 1, c_writebacks := c_writebacks c + 1\<rparr>"
      using len by (simp add: get_put_cache)
    moreover have "mem_block ?m2 b = (if set_index c b = set_index c a \<and> matches c b v then cl_data v else mem_block m b)"
      if "ram_addr b" for b
      unfolding mt using mem_block_store [OF x(1) that, of "cl_data v" ?m1] lo by (simp add: line_ok_def)
    ultimately show ?thesis using e by blast
  next
    case False
    then have e: "l2_evict l2 a way m = Inr m" by (auto simp: l2_evict_def c_def v_def Let_def)
    moreover have "c = c\<lparr>c_evictions := c_evictions c, c_writebacks := c_writebacks c\<rparr>" by simp
    moreover have "mem_block m b = (if set_index c b = set_index c a \<and> matches c b v then cl_data v else mem_block m b)"
      if "ram_addr b" for b
      using hb [of b] False assms(1) that by (auto simp: l2_ok_def c_def matches_def)
    ultimately show ?thesis by (metis c_def mem_frame_refl)
  qed
qed

lemma matches_same_block:
  assumes "c_off c = 6" and "matches c a l"
  shows "set_index c b = set_index c a \<and> matches c b l \<longleftrightarrow> blk b = blk a"
  using same_block [OF assms(1), of b a] assms(2) by (auto simp: matches_def)

text \<open>The contract of one second-level access: what it returns and what becomes of the view.\<close>

definition l2_access_spec :: "nat \<Rightarrow> paddr_t \<Rightarrow> byte list \<Rightarrow> bool \<Rightarrow> machine \<Rightarrow> byte list \<times> machine \<Rightarrow> bool" where
  "l2_access_spec l2 a d w m r \<longleftrightarrow> fst r = (if w then d else l2_view l2 m a) \<and>
     l2_ok l2 (snd r) \<and> mem_frame {l2} m (snd r) \<and> held (get_cache l2 (snd r)) a \<noteq> None \<and>
     (\<forall>b. ram_addr b \<longrightarrow> l2_view l2 (snd r) b = (if w \<and> blk b = blk a then d else l2_view l2 m b))"

lemma access_l2_hit:
  assumes "l2_ok l2 m" and "length d = 64" and f: "find_line (get_cache l2 m) a = (c, True, way)"
  shows "\<exists>r. access_l2 l2 a d w m = Inr r \<and> l2_access_spec l2 a d w m r"
proof -
  have wf0: "wf_cache (get_cache l2 m)" and len: "l2 < length (caches m)" using assms(1) by (simp_all add: l2_ok_def)
  note fl = find_line_ok [OF wf0 f]
  then have wf: "wf_cache c" and sh: "same_held (get_cache l2 m) c" by blast+
  from fl have w: "way < c_w c" and mt: "matches c a (get_line c (set_index c a) way)"
    using sh by (simp_all add: same_held_index [OF sh], simp add: same_held_def)
  let ?i = "set_index c a" let ?l = "get_line c ?i way"
  have hv: "held c a = Some (cl_dirty ?l, cl_data ?l)" using held_line [OF wf w mt] .
  then have v: "l2_view l2 m a = cl_data ?l" using sh by (simp add: l2_view_def same_held_def)
  show ?thesis
  proof (cases w)
    case False
    then have "access_l2 l2 a d w m = Inr (cl_data ?l, put_cache l2 c m)"
      using f by (simp add: access_l2_def)
    moreover have "l2_access_spec l2 a d w m (cl_data ?l, put_cache l2 c m)"
      using False v hv len l2_same_held [OF assms(1) wf sh] by (simp add: l2_access_spec_def get_put_cache)
    ultimately show ?thesis by blast
  next
    case True
    let ?c = "put_line c ?i way (?l\<lparr>cl_data := d, cl_dirty := True\<rparr>)"
    have e: "access_l2 l2 a d w m = Inr (d, put_cache l2 ?c m)"
      using f True by (simp add: access_l2_def Let_def)
    note ps = put_same_block [OF wf wf_cacheD(6) [OF wf] w, of "?l\<lparr>cl_data := d, cl_dirty := True\<rparr>" a, simplified, OF assms(2)]
    have h: "held ?c b = (if blk b = blk a then Some (True, d) else held (get_cache l2 m) b)" for b
      using ps(2) [of b] matches_same_block [OF wf_cacheD(1) [OF wf] mt, of b] sh by (auto simp: same_held_def)
    have "l2_access_spec l2 a d w m (d, put_cache l2 ?c m)"
      using assms(1) True ps(1) len
      by (auto simp: l2_access_spec_def l2_ok_def l2_view_def get_put_cache h split: option.splits)
    with e show ?thesis by blast
  qed
qed

lemma access_l2_miss:
  assumes "l2_ok l2 m" and "ram_addr a" and "length d = 64" and f: "find_line (get_cache l2 m) a = (c, False, way)"
  shows "\<exists>r. access_l2 l2 a d w m = Inr r \<and> l2_access_spec l2 a d w m r"
proof -
  have wf0: "wf_cache (get_cache l2 m)" and len: "l2 < length (caches m)" using assms(1) by (simp_all add: l2_ok_def)
  note fl = find_line_ok [OF wf0 f]
  then have wf: "wf_cache c" and sh: "same_held (get_cache l2 m) c" by blast+
  from fl have "way < c_w (get_cache l2 m)" "held (get_cache l2 m) a = None" by blast+
  then have wl: "way < c_w c" and no: "held c a = None"
    using sh by (simp_all add: same_held_def)
  let ?i = "set_index c a" let ?v = "get_line c ?i way" let ?m1 = "put_cache l2 c m"
  have ok1: "l2_ok l2 ?m1" and v1: "l2_view l2 ?m1 = l2_view l2 m" using l2_same_held [OF assms(1) wf sh] .
  have g1: "get_cache l2 ?m1 = c" using len by (simp add: get_put_cache)
  obtain m2 e k where ev: "l2_evict l2 a way ?m1 = Inr m2" "mem_frame {l2} ?m1 m2"
      "get_cache l2 m2 = c\<lparr>c_evictions := e, c_writebacks := k\<rparr>"
      and mb: "\<And>b. ram_addr b \<Longrightarrow> mem_block m2 b = (if set_index c b = ?i \<and> matches c b ?v then cl_data ?v else mem_block m b)"
    using l2_evict_ok [OF ok1, of way a] wl g1 by auto
  have len2: "l2 < length (caches m2)" using ev(2) len by (simp add: mem_frame_def)
  have nov: "\<not> matches c a ?v" using no held_None_iff [OF wf] wl by blast
  define d' where "d' = (if w then d else l2_view l2 m a)"
  have d64: "length d' = 64"
    using assms(3) held_length [OF wf0] by (auto simp: d'_def l2_view_def split: option.splits)
  have lb: "(if w then Inr (d, m2) else load_block_from_mem (blk a) x m2) = Inr (d', m2)" for x
    using load_block_ram [OF assms(2)] mb [OF assms(2)] nov no sh
    by (auto simp: d'_def l2_view_def same_held_def)
  define l where "l = \<lparr>cl_valid = True, cl_dirty = w, cl_tag = tag_of c a, cl_last_access = c_timer c, cl_data = d'\<rparr>"
  let ?c2 = "get_cache l2 m2"
  let ?m3 = "put_cache l2 (put_line ?c2 ?i way l) m2"
  have e: "access_l2 l2 a d w m = Inr (d', ?m3)"
    using f ev lb unfolding access_l2_def Let_def blk_def [symmetric]
    by (simp add: g1 l_def)
  have "wf_cache ?c2" "held ?c2 a = None" "way < c_w ?c2" "length (cl_data l) = 64" "cl_valid l" "cl_tag l = tag_of ?c2 a"
    using wf no wl d64 by (simp_all add: ev(3) l_def)
  note pn = put_new_block [OF this(1) assms(2) this(2-)]
  have h: "held (put_line ?c2 ?i way l) b =
      (if blk b = blk a then Some (w, d') else if set_index c b = ?i \<and> matches c b ?v then None else held c b)" for b
    using pn(2) [of b] by (simp add: ev(3) l_def)
  have hv: "held c b = Some (cl_dirty ?v, cl_data ?v)" if "set_index c b = ?i" "matches c b ?v" for b
    using held_line [OF wf wl, of b] that by simp
  have g3: "get_cache l2 ?m3 = put_line ?c2 ?i way l" using len2 by (simp add: get_put_cache)
  have vw: "l2_view l2 ?m3 b = (if blk b = blk a then d' else l2_view l2 m b)" if "ram_addr b" for b
    using mb [OF that] hv [of b] sh by (auto simp: l2_view_def g3 h same_held_def split: option.splits)
  note va = l2_view_blk [OF assms(1)]
  have cl: "bs = mem_block m2 b" if "ram_addr b" "held (put_line ?c2 ?i way l) b = Some (False, bs)" for b bs
  proof (cases "blk b = blk a")
    case True
    with that(2) have "\<not> w" "bs = d'" by (auto simp: h)
    moreover have "mem_block m2 b = mem_block m2 a" using True by (simp add: mem_block_def)
    ultimately show ?thesis using mb [OF assms(2)] nov no sh by (simp add: d'_def l2_view_def same_held_def)
  next
    case False
    with that(2) have "held c b = Some (False, bs)" "\<not> (set_index c b = ?i \<and> matches c b ?v)"
      by (auto simp: h split: if_splits)
    with that(1) assms(1) sh mb [OF that(1)] show ?thesis by (simp add: l2_ok_def same_held_def)
  qed
  have fr: "mem_frame {l2} m ?m3"
    by (rule mem_frame_trans [OF put_cache_frame(1) mem_frame_trans [OF ev(2) put_cache_frame(1)]])
  have "wf_cache (put_line ?c2 ?i way l)" using pn(1) by (simp add: ev(3))
  then have ok3: "l2_ok l2 ?m3" unfolding l2_ok_def g3 put_cache_frame using len2 cl by blast
  have vw3: "l2_view l2 ?m3 b = (if w \<and> blk b = blk a then d else l2_view l2 m b)" if "ram_addr b" for b
    unfolding vw [OF that] d'_def by (cases w; cases "blk b = blk a"; simp add: va [of b a])
  have "l2_access_spec l2 a d w m (d', ?m3)"
    unfolding l2_access_spec_def fst_conv snd_conv g3 using fr ok3 vw3 h [of a] by (simp add: d'_def)
  with e show ?thesis by blast
qed

lemma access_l2_ok:
  assumes "l2_ok l2 m" and "ram_addr a" and "length d = 64"
  shows "\<exists>r. access_l2 l2 a d w m = Inr r \<and> l2_access_spec l2 a d w m r"
proof -
  obtain c hit way where f: "find_line (get_cache l2 m) a = (c, hit, way)" by (metis surj_pair)
  then show ?thesis
    using access_l2_hit [OF assms(1,3)] access_l2_miss [OF assms] by (cases hit) auto
qed

section \<open>Filling a line of the first level\<close>

text \<open>
  The effect of \<open>fetch_block\<close>: \<open>ev\<close> says which block the victim held. A dirty victim's bytes go to the
  second level, the victim's block leaves the cache, and the new block enters it clean.
\<close>

definition fetch_spec :: "nat \<Rightarrow> nat \<Rightarrow> paddr_t \<Rightarrow> nat \<Rightarrow> machine \<Rightarrow> machine \<Rightarrow> (paddr_t \<Rightarrow> bool) \<Rightarrow> bool" where
  "fetch_spec p l2 a way m m' ev \<longleftrightarrow>
     mem_frame {p, l2} m m' \<and> l2_ok l2 m' \<and> wf_cache (get_cache p m') \<and>
     c_w (get_cache p m') = c_w (get_cache p m) \<and>
     matches (get_cache p m') a (get_line (get_cache p m') (set_index (get_cache p m') a) way) \<and>
     (\<forall>b. ev b \<longrightarrow> held (get_cache p m) b \<noteq> None \<and> blk b \<noteq> blk a) \<and>
     (\<forall>b. ram_addr b \<longrightarrow> l2_view l2 m' b =
        (if ev b \<and> fst (the (held (get_cache p m) b)) then snd (the (held (get_cache p m) b)) else l2_view l2 m b)) \<and>
     (\<forall>b. held (get_cache p m') b =
        (if blk b = blk a then Some (False, l2_view l2 m a) else if ev b then None else held (get_cache p m) b))"

lemma l2_other_cache:
  assumes "p \<noteq> l2" and "p < length (caches m)"
  shows "l2_ok l2 (put_cache p c m) = l2_ok l2 m" "l2_view l2 (put_cache p c m) = l2_view l2 m"
  using assms by (auto simp: l2_ok_def l2_view_def get_put_cache fun_eq_iff split: option.splits)

lemma l1_evict_ok:
  fixes a :: paddr_t
  assumes "l2_ok l2 m" and "p \<noteq> l2" and "p < length (caches m)" and "wf_cache (get_cache p m)"
    and "ram_addr a" and "way < c_w (get_cache p m)"
  defines "c \<equiv> get_cache p m"
  defines "v \<equiv> get_line c (set_index c a) way"
  shows "\<exists>m1 e k. mem_frame {p, l2} m m1 \<and> l2_ok l2 m1 \<and> get_cache p m1 = c\<lparr>c_evictions := e, c_writebacks := k\<rparr> \<and>
    (\<forall>b. ram_addr b \<longrightarrow> l2_view l2 m1 b =
      (if (set_index c b = set_index c a \<and> matches c b v) \<and> cl_dirty v then cl_data v else l2_view l2 m b)) \<and>
    l1_evict p l2 a way m = Inr m1"
proof -
  have wf: "wf_cache c" and wl: "way < c_w c" using assms(4,6) by (simp_all add: c_def)
  have lo: "line_ok c (set_index c a) v" unfolding v_def using line_ok_get [OF wf wf_cacheD(6) [OF wf] wl] .
  consider (dirty) "cl_valid v" "cl_dirty v" | (clean) "cl_valid v" "\<not> cl_dirty v" | (invalid) "\<not> cl_valid v" by blast
  then show ?thesis
  proof cases
    case dirty
    obtain x where x: "ram_addr x" "set_index c x = set_index c a" "tag_of c x = cl_tag v"
      using lo dirty by (auto simp: line_ok_def)
    let ?c1 = "c\<lparr>c_evictions := c_evictions c + 1, c_writebacks := c_writebacks c + 1\<rparr>"
    let ?m0 = "put_cache p ?c1 m"
    have ba: "block_addr (c\<lparr>c_evictions := c_evictions c + 1\<rparr>) a v = blk x"
      using block_addr_eq [OF wf_cacheD(1) [OF wf] x(2,3)] by (simp add: block_addr_def)
    have mt: "set_index c b = set_index c a \<and> matches c b v \<longleftrightarrow> blk b = blk x" for b
      using same_block [OF wf_cacheD(1) [OF wf], of b x] x dirty by (auto simp: matches_def)
    have ok0: "l2_ok l2 ?m0" using assms(1-3) by (simp add: l2_other_cache)
    obtain m1 where m1: "access_l2 l2 (blk x) (cl_data v) True ?m0 = Inr (cl_data v, m1)" "l2_ok l2 m1"
        "mem_frame {l2} ?m0 m1"
        "\<And>b. ram_addr b \<Longrightarrow> l2_view l2 m1 b = (if blk b = blk x then cl_data v else l2_view l2 m b)"
      using access_l2_ok [OF ok0, of "blk x" "cl_data v" True] x(1) lo assms(2,3)
      by (auto simp: l2_access_spec_def l2_other_cache line_ok_def)
    have "get_cache p m1 = ?c1" using m1(3) assms(2,3) by (simp add: mem_frame_def get_put_cache)
    moreover have "mem_frame {p, l2} m m1"
      by (rule mem_frame_trans [OF mem_frame_mono [OF put_cache_frame(1)] mem_frame_mono [OF m1(3)]]) auto
    moreover have "l1_evict p l2 a way m = Inr m1"
      using dirty m1(1) ba by (simp add: l1_evict_def c_def v_def Let_def)
    ultimately show ?thesis
      using m1(2,4) dirty unfolding mt
      by (intro exI [of _ m1] exI [of _ "c_evictions c + 1"] exI [of _ "c_writebacks c + 1"]) simp
  next
    case clean
    let ?m1 = "put_cache p (c\<lparr>c_evictions := c_evictions c + 1\<rparr>) m"
    have "l1_evict p l2 a way m = Inr ?m1" using clean by (simp add: l1_evict_def c_def v_def Let_def)
    moreover have "get_cache p ?m1 = c\<lparr>c_evictions := c_evictions c + 1, c_writebacks := c_writebacks c\<rparr>"
      using assms(3) by (simp add: get_put_cache)
    moreover have "mem_frame {p, l2} m ?m1" by (rule mem_frame_mono [OF put_cache_frame(1)]) simp
    ultimately show ?thesis
      using assms(1-3) clean
      by (intro exI [of _ ?m1] exI [of _ "c_evictions c + 1"] exI [of _ "c_writebacks c"]) (simp add: l2_other_cache)
  next
    case invalid
    then have "l1_evict p l2 a way m = Inr m" by (simp add: l1_evict_def c_def v_def Let_def)
    moreover have "get_cache p m = c\<lparr>c_evictions := c_evictions c, c_writebacks := c_writebacks c\<rparr>" by (simp add: c_def)
    ultimately show ?thesis using assms(1) invalid mem_frame_refl unfolding matches_def by metis
  qed
qed

lemma fetch_block_ok:
  assumes "l2_ok l2 m" and "p \<noteq> l2" and "p < length (caches m)" and "wf_cache (get_cache p m)"
    and "ram_addr a" and "held (get_cache p m) a = None" and "way < c_w (get_cache p m)"
  shows "\<exists>m' ev. fetch_block p l2 a way m = Inr m' \<and> fetch_spec p l2 a way m m' ev"
proof -
  define c where "c = get_cache p m"
  define i where "i = set_index c a"
  define v where "v = get_line c i way"
  define ev where "ev = (\<lambda>b. set_index c b = i \<and> matches c b v)"
  have wf: "wf_cache c" and no: "held c a = None" and wl: "way < c_w c" using assms(4,6,7) by (simp_all add: c_def)
  have i: "i < 2 ^ c_s c" unfolding i_def using wf_cacheD(6) [OF wf] .
  have lo: "line_ok c i v" unfolding v_def using line_ok_get [OF wf i wl] .
  have d64: "length (cl_data v) = 64" using lo by (simp add: line_ok_def)
  have hev: "held c b = Some (cl_dirty v, cl_data v)" if "ev b" for b
    using held_line [OF wf wl, of b] that by (simp add: ev_def v_def)
  have eva: "blk b \<noteq> blk a" if "ev b" for b
    using hev [OF that] held_blk [OF wf_cacheD(1) [OF wf], of b a] no by auto
  obtain m1 e k where m1: "mem_frame {p, l2} m m1" "l2_ok l2 m1" "get_cache p m1 = c\<lparr>c_evictions := e, c_writebacks := k\<rparr>"
      and L1: "\<And>b. ram_addr b \<Longrightarrow> l2_view l2 m1 b = (if ev b \<and> cl_dirty v then cl_data v else l2_view l2 m b)"
      and le: "l1_evict p l2 a way m = Inr m1"
    using l1_evict_ok [OF assms(1-5) assms(7)] unfolding c_def i_def v_def ev_def by blast
  obtain m2 where m2: "access_l2 l2 a (cl_data v) False m1 = Inr (l2_view l2 m1 a, m2)" "l2_ok l2 m2" "mem_frame {l2} m1 m2"
      "\<And>b. ram_addr b \<Longrightarrow> l2_view l2 m2 b = l2_view l2 m1 b"
    using access_l2_ok [OF m1(2) assms(5) d64, of False] by (auto simp: l2_access_spec_def)
  have "\<not> ev a" using eva by blast
  then have La: "l2_view l2 m1 a = l2_view l2 m a" using L1 [OF assms(5)] by simp
  have gp: "get_cache p m2 = c\<lparr>c_evictions := e, c_writebacks := k\<rparr>"
    using m2(3) m1(3) assms(2) by (simp add: mem_frame_def)
  have len: "p < length (caches m2)" using m1(1) m2(3) assms(3) by (simp add: mem_frame_def)
  let ?l = "\<lparr>cl_valid = True, cl_dirty = False, cl_tag = tag_of c a, cl_last_access = c_timer c, cl_data = l2_view l2 m a\<rparr>"
  let ?c = "put_line (get_cache p m2) i way ?l"
  let ?m3 = "put_cache p ?c m2"
  have f: "fetch_block p l2 a way m = Inr ?m3"
    using le m2(1) La by (simp add: fetch_block_def gp v_def i_def c_def [symmetric] Let_def)
  have "wf_cache (get_cache p m2)" "held (get_cache p m2) a = None" "way < c_w (get_cache p m2)"
     "length (cl_data ?l) = 64" "cl_valid ?l" "cl_tag ?l = tag_of (get_cache p m2) a"
    using wf no wl length_l2_view [OF assms(1)] by (simp_all add: gp)
  note pn = put_new_block [OF this(1) assms(5) this(2-)]
  have wf3: "wf_cache ?c" using pn(1) by (simp add: gp i_def)
  have h3: "held ?c b = (if blk b = blk a then Some (False, l2_view l2 m a) else if ev b then None else held c b)" for b
    using pn(2) [of b] by (simp add: gp i_def ev_def v_def)
  have g3: "get_cache p ?m3 = ?c" using len by (simp add: get_put_cache)
  have mt: "matches ?c a (get_line ?c (set_index ?c a) way)"
    using get_line_put [of "get_cache p m2" i way ?l i way] wf i wl by (simp add: gp i_def matches_def)
  have o3: "l2_ok l2 ?m3" "l2_view l2 ?m3 = l2_view l2 m2"
    using m2(2) assms(2) len by (auto simp: l2_ok_def l2_view_def get_put_cache fun_eq_iff split: option.splits)
  have fr: "mem_frame {p, l2} m ?m3"
    by (rule mem_frame_trans [OF m1(1) mem_frame_trans [OF mem_frame_mono [OF m2(3)] mem_frame_mono [OF put_cache_frame(1)]]]) auto
  have "fetch_spec p l2 a way m ?m3 ev"
    unfolding fetch_spec_def g3 o3(2) c_def [symmetric]
    using fr o3(1) wf3 mt h3 hev eva L1 m2(4) by (auto simp: gp)
  with f show ?thesis by blast
qed

section \<open>Coherence of the first level\<close>

text \<open>
  \<open>D\<close> lists the first-level data caches. A clean line agrees with the second level, and a dirty line is the only
  copy at the first level; the value of a block is what any first-level copy has, else the second level's.
\<close>

definition coherent :: "nat list \<Rightarrow> nat \<Rightarrow> machine \<Rightarrow> bool" where
  "coherent D l2 m \<longleftrightarrow> distinct (l2 # D) \<and> l2_ok l2 m \<and>
     (\<forall>p\<in>set D. p < length (caches m) \<and> wf_cache (get_cache p m)) \<and>
     (\<forall>p\<in>set D. \<forall>a bs. ram_addr a \<longrightarrow> held (get_cache p m) a = Some (False, bs) \<longrightarrow> bs = l2_view l2 m a) \<and>
     (\<forall>p\<in>set D. \<forall>q\<in>set D. \<forall>a bs. ram_addr a \<longrightarrow> p \<noteq> q \<longrightarrow>
        held (get_cache p m) a = Some (True, bs) \<longrightarrow> held (get_cache q m) a = None)"

definition dview :: "nat list \<Rightarrow> nat \<Rightarrow> machine \<Rightarrow> paddr_t \<Rightarrow> byte list" where
  "dview D l2 m a =
     (case find (\<lambda>p. held (get_cache p m) a \<noteq> None) D of
        Some p \<Rightarrow> snd (the (held (get_cache p m) a))
      | None \<Rightarrow> l2_view l2 m a)"

lemma coherentD:
  assumes "coherent D l2 m"
  shows "l2_ok l2 m" "l2 \<notin> set D" "distinct D"
    "p \<in> set D \<Longrightarrow> p < length (caches m)" "p \<in> set D \<Longrightarrow> wf_cache (get_cache p m)"
    "p \<in> set D \<Longrightarrow> ram_addr a \<Longrightarrow> held (get_cache p m) a = Some (False, bs) \<Longrightarrow> bs = l2_view l2 m a"
    "p \<in> set D \<Longrightarrow> q \<in> set D \<Longrightarrow> ram_addr a \<Longrightarrow> p \<noteq> q \<Longrightarrow> held (get_cache p m) a = Some (True, bs) \<Longrightarrow>
       held (get_cache q m) a = None"
  using assms unfolding coherent_def by auto

lemma dview_held:
  assumes "coherent D l2 m" and "p \<in> set D" and "ram_addr a" and "held (get_cache p m) a = Some (d, bs)"
  shows "dview D l2 m a = bs"
proof -
  have "find (\<lambda>p. held (get_cache p m) a \<noteq> None) D \<noteq> None"
    using assms(2,4) by (auto simp: find_None_iff)
  then obtain q where q: "find (\<lambda>p. held (get_cache p m) a \<noteq> None) D = Some q" by blast
  then have qD: "q \<in> set D" and "held (get_cache q m) a \<noteq> None" by (auto simp: find_Some_iff)
  then obtain e bs' where hq: "held (get_cache q m) a = Some (e, bs')" by auto
  have "bs' = bs"
  proof (cases "p = q")
    case True
    then show ?thesis using hq assms(4) by simp
  next
    case False
    then have "\<not> e" "\<not> d"
      using coherentD(7) [OF assms(1) qD assms(2,3)] coherentD(7) [OF assms(1,2) qD assms(3)] hq assms(4) by auto
    then show ?thesis
      using coherentD(6) [OF assms(1) qD assms(3), of bs'] coherentD(6) [OF assms(1,2,3), of bs] hq assms(4) by simp
  qed
  then show ?thesis using q hq by (simp add: dview_def)
qed

lemma dview_none:
  assumes "\<And>p. p \<in> set D \<Longrightarrow> held (get_cache p m) a = None"
  shows "dview D l2 m a = l2_view l2 m a"
proof -
  have "find (\<lambda>p. held (get_cache p m) a \<noteq> None) D = None" using assms by (auto simp: find_None_iff)
  then show ?thesis by (simp add: dview_def)
qed

text \<open>With no dirty copy, the value is the second level's.\<close>

lemma dview_clean:
  assumes "coherent D l2 m" and "ram_addr a" and "\<And>p bs. p \<in> set D \<Longrightarrow> held (get_cache p m) a \<noteq> Some (True, bs)"
  shows "dview D l2 m a = l2_view l2 m a"
proof (cases "\<forall>p\<in>set D. held (get_cache p m) a = None")
  case True
  then show ?thesis using dview_none by blast
next
  case False
  then obtain p d bs where p: "p \<in> set D" "held (get_cache p m) a = Some (d, bs)" by auto
  then have "\<not> d" using assms(3) by auto
  then show ?thesis
    using dview_held [OF assms(1) p(1) assms(2) p(2)] coherentD(6) [OF assms(1) p(1) assms(2)] p(2) by simp
qed

text \<open>
  A step that only exchanges what cache \<open>p\<close> holds and what the second level has. The hypotheses are the
  coherence conditions that involve \<open>p\<close> or the changed second level.
\<close>

lemma coherent_step:
  assumes "coherent D l2 m" and "p \<noteq> l2" and fr: "mem_frame {p, l2} m m'" and ok: "l2_ok l2 m'"
    and wf: "p \<in> set D \<Longrightarrow> wf_cache (get_cache p m')"
    and pc: "\<And>a bs. p \<in> set D \<Longrightarrow> ram_addr a \<Longrightarrow> held (get_cache p m') a = Some (False, bs) \<Longrightarrow> bs = l2_view l2 m' a"
    and pd: "\<And>a bs q. p \<in> set D \<Longrightarrow> ram_addr a \<Longrightarrow> held (get_cache p m') a = Some (True, bs) \<Longrightarrow>
        q \<in> set D \<Longrightarrow> q \<noteq> p \<Longrightarrow> held (get_cache q m) a = None"
    and qd: "\<And>a bs q. p \<in> set D \<Longrightarrow> ram_addr a \<Longrightarrow> held (get_cache q m) a = Some (True, bs) \<Longrightarrow>
        q \<in> set D \<Longrightarrow> q \<noteq> p \<Longrightarrow> held (get_cache p m') a = None"
    and lv: "\<And>a q. ram_addr a \<Longrightarrow> q \<in> set D \<Longrightarrow> q \<noteq> p \<Longrightarrow> held (get_cache q m) a \<noteq> None \<Longrightarrow> l2_view l2 m' a = l2_view l2 m a"
  shows "coherent D l2 m'"
proof -
  note cd = coherentD [OF assms(1)]
  have other: "get_cache q m' = get_cache q m" if "q \<in> set D" "q \<noteq> p" for q
    using fr that cd(2) by (auto simp: mem_frame_def)
  have 1: "q < length (caches m') \<and> wf_cache (get_cache q m')" if "q \<in> set D" for q
    using fr wf cd(4,5) [OF that] other [OF that] that by (cases "q = p") (auto simp: mem_frame_def)
  have 2: "bs = l2_view l2 m' a" if "q \<in> set D" "ram_addr a" "held (get_cache q m') a = Some (False, bs)" for q a bs
  proof (cases "q = p")
    case True
    then show ?thesis using pc that by simp
  next
    case False
    then have h: "held (get_cache q m) a = Some (False, bs)" using other [OF that(1)] that(3) by simp
    then have "held (get_cache q m) a \<noteq> None" by simp
    from lv [OF that(2,1) False this] cd(6) [OF that(1,2) h] show ?thesis by simp
  qed
  have 3: "held (get_cache r m') a = None"
    if "q \<in> set D" "r \<in> set D" "ram_addr a" "q \<noteq> r" "held (get_cache q m') a = Some (True, bs)" for q r a bs
    using pd [of a bs r] qd [of a q bs] cd(7) [of q r a bs] other that by (metis (full_types))
  show ?thesis
    unfolding coherent_def using cd(2,3) ok 1 2 3 by auto
qed

text \<open>The value of a block no other cache has is what \<open>p\<close> has, else the second level's.\<close>

definition pview :: "nat \<Rightarrow> nat \<Rightarrow> machine \<Rightarrow> paddr_t \<Rightarrow> byte list" where
  "pview p l2 m a = (case held (get_cache p m) a of Some (_, bs) \<Rightarrow> bs | None \<Rightarrow> l2_view l2 m a)"

lemma dview_pview:
  assumes "coherent D l2 m" and "p \<in> set D" and "ram_addr a"
    and "\<forall>q\<in>set D. q \<noteq> p \<longrightarrow> held (get_cache q m) a = None"
  shows "dview D l2 m a = pview p l2 m a"
proof (cases "held (get_cache p m) a")
  case None
  then have "dview D l2 m a = l2_view l2 m a" using assms(4) by (intro dview_none) metis
  then show ?thesis using None by (simp add: pview_def)
next
  case (Some x)
  then show ?thesis using dview_held [OF assms(1-3)] by (cases x) (simp add: pview_def)
qed

lemma dview_step:
  assumes "coherent D l2 m" and "coherent D l2 m'" and "p \<in> set D" and "mem_frame {p, l2} m m'"
    and "ram_addr a" and "\<forall>q\<in>set D. q \<noteq> p \<longrightarrow> held (get_cache q m) a = None \<Longrightarrow> pview p l2 m' a = pview p l2 m a"
  shows "dview D l2 m' a = dview D l2 m a"
proof -
  have other: "get_cache q m' = get_cache q m" if "q \<in> set D" "q \<noteq> p" for q
    using assms(4) that coherentD(2) [OF assms(1)] by (auto simp: mem_frame_def)
  show ?thesis
  proof (cases "\<forall>q\<in>set D. q \<noteq> p \<longrightarrow> held (get_cache q m) a = None")
    case True
    moreover have "\<forall>q\<in>set D. q \<noteq> p \<longrightarrow> held (get_cache q m') a = None" using True other by metis
    ultimately show ?thesis
      using dview_pview [OF assms(1,3,5)] dview_pview [OF assms(2,3,5)] assms(6) by simp
  next
    case False
    then obtain q d bs where q: "q \<in> set D" "q \<noteq> p" "held (get_cache q m) a = Some (d, bs)" by auto
    then show ?thesis
      using dview_held [OF assms(2) q(1) assms(5)] dview_held [OF assms(1) q(1) assms(5)] other [OF q(1,2)] by simp
  qed
qed

section \<open>Accesses\<close>

text \<open>The blocks some data cache holds dirty.\<close>

definition dirty :: "nat list \<Rightarrow> machine \<Rightarrow> paddr_t set" where
  "dirty D m = {blk b | b q bs. q \<in> set D \<and> held (get_cache q m) b = Some (True, bs)}"

lemma dirty_subI:
  assumes "\<And>q b bs. q \<in> set D \<Longrightarrow> held (get_cache q m') b = Some (True, bs) \<Longrightarrow> blk b \<in> X \<or> (\<exists>bs. held (get_cache q m) b = Some (True, bs))"
  shows "dirty D m' \<subseteq> X \<union> dirty D m"
  using assms unfolding dirty_def by blast

lemma dirty_one:
  assumes "\<And>q. q \<in> set D \<Longrightarrow> q \<noteq> p \<Longrightarrow> get_cache q m' = get_cache q m"
    and "\<And>b bs. held (get_cache p m') b = Some (True, bs) \<Longrightarrow> blk b \<in> X \<or> (\<exists>bs. held (get_cache p m) b = Some (True, bs))"
  shows "dirty D m' \<subseteq> X \<union> dirty D m"
  by (rule dirty_subI) (metis assms)

text \<open>A fill is coherent unless another cache has the block dirty, and changes no value.\<close>

lemma fetch_coherent:
  assumes "coherent D l2 m" and "p \<in> set D" and "ram_addr a" and "held (get_cache p m) a = None"
    and "way < c_w (get_cache p m)" and nd: "\<And>q bs. q \<in> set D \<Longrightarrow> held (get_cache q m) a \<noteq> Some (True, bs)"
  shows "\<exists>m'. fetch_block p l2 a way m = Inr m' \<and> coherent D l2 m' \<and> mem_frame {p, l2} m m' \<and>
    (\<forall>b. ram_addr b \<longrightarrow> dview D l2 m' b = dview D l2 m b) \<and>
    c_w (get_cache p m') = c_w (get_cache p m) \<and>
    matches (get_cache p m') a (get_line (get_cache p m') (set_index (get_cache p m') a) way) \<and> dirty D m' \<subseteq> dirty D m"
proof -
  note cd = coherentD [OF assms(1)]
  have pl2: "p \<noteq> l2" using cd(2) assms(2) by blast
  obtain m' ev where f: "fetch_block p l2 a way m = Inr m'" and fs: "fetch_spec p l2 a way m m' ev"
    using fetch_block_ok [OF cd(1) pl2 cd(4,5) [OF assms(2)] assms(3-5)] by blast
  let ?H = "held (get_cache p m)" let ?H' = "held (get_cache p m')"
  have fr: "mem_frame {p, l2} m m'" and ok: "l2_ok l2 m'" and wf: "wf_cache (get_cache p m')"
    and ev: "\<And>b. ev b \<Longrightarrow> ?H b \<noteq> None \<and> blk b \<noteq> blk a"
    and L: "\<And>b. ram_addr b \<Longrightarrow> l2_view l2 m' b = (if ev b \<and> fst (the (?H b)) then snd (the (?H b)) else l2_view l2 m b)"
    and H: "\<And>b. ?H' b = (if blk b = blk a then Some (False, l2_view l2 m a) else if ev b then None else ?H b)"
    using fs unfolding fetch_spec_def by auto
  have blka: "held (get_cache q m) b = held (get_cache q m) a" if "q \<in> set D" "blk b = blk a" for q b
    using held_blk wf_cacheD(1) [OF cd(5) [OF that(1)]] that(2) by blast
  have nev: "\<not> ev b" if "blk b = blk a" for b using ev that by blast
  have evd: "\<not> (ev b \<and> fst (the (?H b)))" if "ram_addr b" "q \<in> set D" "q \<noteq> p" "held (get_cache q m) b \<noteq> None" for q b
    using ev [of b] cd(7) [OF assms(2) that(2,1) that(3) [symmetric]] that(4) by fastforce
  have co: "coherent D l2 m'"
  proof (rule coherent_step [OF assms(1) pl2 fr ok wf])
    fix b bs assume b: "ram_addr b" "?H' b = Some (False, bs)"
    show "bs = l2_view l2 m' b"
    proof (cases "blk b = blk a")
      case True
      then show ?thesis using b H [of b] L [OF b(1)] nev [OF True] l2_view_blk [OF cd(1) True] by simp
    next
      case False
      then have nb: "\<not> ev b" and hb: "?H b = Some (False, bs)" using b H [of b] by (auto split: if_splits)
      then show ?thesis using L [OF b(1)] cd(6) [OF assms(2) b(1) hb] by simp
    qed
  next
    fix b bs q assume b: "ram_addr b" "?H' b = Some (True, bs)" "q \<in> set D" "q \<noteq> p"
    then have "?H b = Some (True, bs)" using H [of b] by (auto split: if_splits)
    then show "held (get_cache q m) b = None" using cd(7) [OF assms(2) b(3,1)] b(4) by blast
  next
    fix b bs q assume b: "ram_addr b" "held (get_cache q m) b = Some (True, bs)" "q \<in> set D" "q \<noteq> p"
    then have "blk b \<noteq> blk a" using blka nd by metis
    moreover have "?H b = None" using cd(7) [OF b(3) assms(2) b(1,4,2)] .
    ultimately show "?H' b = None" using H [of b] by simp
  next
    fix b q assume b: "ram_addr b" "q \<in> set D" "q \<noteq> p" "held (get_cache q m) b \<noteq> None"
    show "l2_view l2 m' b = l2_view l2 m b" using L [OF b(1)] evd [OF b] by auto
  qed
  have pv: "pview p l2 m' b = pview p l2 m b" if rb: "ram_addr b" for b
  proof (cases "blk b = blk a")
    case True
    then show ?thesis
      using H [of b] blka [OF assms(2) True] assms(4) l2_view_blk [OF cd(1) True] by (simp add: pview_def)
  next
    case False
    show ?thesis
    proof (cases "ev b")
      case True
      then obtain d bs where x: "?H b = Some (d, bs)" using ev [of b] by auto
      then show ?thesis
        using True False H [of b] L [OF rb] cd(6) [OF assms(2) rb, of bs] by (cases d) (simp_all add: pview_def)
    next
      case False
      with \<open>blk b \<noteq> blk a\<close> show ?thesis using H [of b] L [OF rb] by (simp add: pview_def split: option.splits)
    qed
  qed
  have vw: "dview D l2 m' b = dview D l2 m b" if "ram_addr b" for b
    using dview_step [OF assms(1) co assms(2) fr that] pv [OF that] by blast
  have "dirty D m' \<subseteq> {} \<union> dirty D m"
  proof (rule dirty_one)
    show "get_cache q m' = get_cache q m" if "q \<in> set D" "q \<noteq> p" for q using fr that cd(2) by (auto simp: mem_frame_def)
    show "blk b \<in> {} \<or> (\<exists>bs. ?H b = Some (True, bs))" if "?H' b = Some (True, bs)" for b bs
      using that H [of b] by (auto split: if_splits)
  qed
  then have dt: "dirty D m' \<subseteq> dirty D m" by simp
  show ?thesis using f co fr vw fs dt unfolding fetch_spec_def by blast
qed

lemma coherent_same_held:
  assumes "coherent D l2 m" and "p \<in> set D" and "wf_cache c" and "same_held (get_cache p m) c"
  shows "coherent D l2 (put_cache p c m)" and "ram_addr a \<Longrightarrow> dview D l2 (put_cache p c m) a = dview D l2 m a"
proof -
  note cd = coherentD [OF assms(1)]
  have pl2: "p \<noteq> l2" using cd(2) assms(2) by blast
  have h: "held (get_cache q (put_cache p c m)) b = held (get_cache q m) b" for q b
    using cd(4) [OF assms(2)] assms(4) by (simp add: get_put_cache same_held_def)
  have v: "l2_view l2 (put_cache p c m) = l2_view l2 m" using l2_other_cache(2) [OF pl2 cd(4) [OF assms(2)]] .
  show "coherent D l2 (put_cache p c m)"
    using assms(1) l2_other_cache(1) [OF pl2 cd(4) [OF assms(2)], of c] assms(3) cd(4,5)
    unfolding coherent_def h v by (auto simp: get_put_cache [OF cd(4) [OF assms(2)]])
  show "ram_addr a \<Longrightarrow> dview D l2 (put_cache p c m) a = dview D l2 m a"
    unfolding dview_def h v ..
qed

lemma cache_prefetch_none [simp]: "cache_prefetch l1 l2 a m = Inr m"
  by (simp add: cache_prefetch_def prefetch_hint_def numeral_2_eq_2)

text \<open>The line every access works on: present, holding the value of the block.\<close>

definition no_dirty_other :: "nat list \<Rightarrow> nat \<Rightarrow> machine \<Rightarrow> paddr_t \<Rightarrow> bool" where
  "no_dirty_other D p m a \<longleftrightarrow> (\<forall>q\<in>set D. q \<noteq> p \<longrightarrow> (\<forall>bs. held (get_cache q m) a \<noteq> Some (True, bs)))"

definition line_spec :: "nat list \<Rightarrow> nat \<Rightarrow> nat \<Rightarrow> paddr_t \<Rightarrow> machine \<Rightarrow> nat \<Rightarrow> machine \<Rightarrow> bool" where
  "line_spec D p l2 a m way m' \<longleftrightarrow>
     coherent D l2 m' \<and> mem_frame {p, l2} m m' \<and> (\<forall>b. ram_addr b \<longrightarrow> dview D l2 m' b = dview D l2 m b) \<and>
     way < c_w (get_cache p m') \<and>
     matches (get_cache p m') a (get_line (get_cache p m') (set_index (get_cache p m') a) way) \<and>
     cl_data (get_line (get_cache p m') (set_index (get_cache p m') a) way) = dview D l2 m a \<and> dirty D m' \<subseteq> dirty D m"

lemma line_specI:
  assumes "coherent D l2 m'" and "mem_frame {p, l2} m m'" and "\<And>b. ram_addr b \<Longrightarrow> dview D l2 m' b = dview D l2 m b"
    and "way < c_w (get_cache p m')" and "p \<in> set D" and "ram_addr a"
    and "matches (get_cache p m') a (get_line (get_cache p m') (set_index (get_cache p m') a) way)" and "dirty D m' \<subseteq> dirty D m"
  shows "line_spec D p l2 a m way m'"
  using assms held_line [OF coherentD(5) [OF assms(1,5)] assms(4,7)] dview_held [OF assms(1,5,6)]
  unfolding line_spec_def by metis

lemma line_for_ok:
  assumes "coherent D l2 m" and "p \<in> set D" and "ram_addr a" and "no_dirty_other D p m a"
  shows "\<exists>way m'. line_for p l2 a m = Inr (way, m') \<and> line_spec D p l2 a m way m'"
proof -
  note cd = coherentD [OF assms(1)]
  obtain c hit way where f: "find_line (get_cache p m) a = (c, hit, way)" by (metis surj_pair)
  note fl = find_line_ok [OF cd(5) [OF assms(2)] f]
  then have wf: "wf_cache c" and sh: "same_held (get_cache p m) c" by blast+
  let ?m1 = "put_cache p c m"
  have co: "coherent D l2 ?m1" and vw: "\<And>b. ram_addr b \<Longrightarrow> dview D l2 ?m1 b = dview D l2 m b"
    using coherent_same_held [OF assms(1,2) wf sh] by blast+
  have g: "get_cache q ?m1 = (if q = p then c else get_cache q m)" for q
    using cd(4) [OF assms(2)] by (simp add: get_put_cache)
  have w: "way < c_w (get_cache p ?m1)" using fl sh g by (simp add: same_held_def)
  have "held (get_cache q ?m1) = held (get_cache q m)" for q using sh by (auto simp: g same_held_def fun_eq_iff)
  then have d1: "dirty D ?m1 = dirty D m" by (simp add: dirty_def)
  have fr1: "mem_frame {p, l2} m ?m1" by (rule mem_frame_mono [OF put_cache_frame(1)]) simp
  show ?thesis
  proof (cases hit)
    case True
    then have "matches (get_cache p ?m1) a (get_line (get_cache p ?m1) (set_index (get_cache p ?m1) a) way)"
      using fl g by (simp add: same_held_index [OF sh])
    from line_specI [OF co fr1 vw w assms(2,3) this] d1 True f show ?thesis by (auto simp: line_for_def)
  next
    case False
    then have no: "held (get_cache p m) a = None" using fl by blast
    have nd: "held (get_cache q ?m1) a \<noteq> Some (True, bs)" if "q \<in> set D" for q bs
      using that assms(4) no sh g unfolding no_dirty_other_def by (auto simp: same_held_def)
    have no1: "held (get_cache p ?m1) a = None" using no sh g by (simp add: same_held_def)
    obtain m2 where m2: "fetch_block p l2 a way ?m1 = Inr m2" "coherent D l2 m2" "mem_frame {p, l2} ?m1 m2"
        "\<And>b. ram_addr b \<Longrightarrow> dview D l2 m2 b = dview D l2 ?m1 b" "c_w (get_cache p m2) = c_w (get_cache p ?m1)"
        "matches (get_cache p m2) a (get_line (get_cache p m2) (set_index (get_cache p m2) a) way)" "dirty D m2 \<subseteq> dirty D ?m1"
      using fetch_coherent [OF co assms(2,3) no1 w nd] by blast
    have "line_spec D p l2 a m way m2"
      using line_specI [OF m2(2) mem_frame_trans [OF fr1 m2(3)] _ _ assms(2,3) m2(6)] m2(4,5,7) d1 vw w by simp
    moreover have "line_for p l2 a m = Inr (way, m2)" using f False m2(1) by (simp add: line_for_def)
    ultimately show ?thesis by blast
  qed
qed

text \<open>The bytes an access names, inside one block.\<close>

definition access_ok :: "paddr_t \<Rightarrow> nat \<Rightarrow> bool" where
  "access_ok a n \<longleftrightarrow> ram_addr a \<and> unat (a AND 63) + n \<le> 64 \<and> n \<le> 8"

lemma cache_read_ok:
  assumes "coherent D l2 m" and "p \<in> set D" and "access_ok a n" and "no_dirty_other D p m a"
  shows "\<exists>m'. cache_read p l2 a n m = Inr (word_of_bytes (take n (drop (unat (a AND 63)) (dview D l2 m a))), m') \<and>
    coherent D l2 m' \<and> mem_frame {p, l2} m m' \<and> (\<forall>b. ram_addr b \<longrightarrow> dview D l2 m' b = dview D l2 m b) \<and> dirty D m' \<subseteq> dirty D m"
proof -
  have ra: "ram_addr a" using assms(3) by (simp add: access_ok_def)
  obtain way m' where l: "line_for p l2 a m = Inr (way, m')" "line_spec D p l2 a m way m'"
    using line_for_ok [OF assms(1,2) ra assms(4)] by blast
  then show ?thesis
    using assms(3) by (simp add: cache_read_def line_bytes_def line_spec_def access_ok_def)
qed

text \<open>A write needs the only copy.\<close>

definition no_other :: "nat list \<Rightarrow> nat \<Rightarrow> machine \<Rightarrow> paddr_t \<Rightarrow> bool" where
  "no_other D p m a \<longleftrightarrow> (\<forall>q\<in>set D. q \<noteq> p \<longrightarrow> held (get_cache q m) a = None)"

lemma write_line_ok:
  assumes "coherent D l2 m" and "p \<in> set D" and "ram_addr a" and "no_other D p m a" and "length bs = 64"
    and "way < c_w (get_cache p m)"
  defines "c \<equiv> get_cache p m"
  defines "l \<equiv> get_line c (set_index c a) way"
  defines "m' \<equiv> put_cache p (put_line c (set_index c a) way (l\<lparr>cl_data := bs, cl_dirty := True\<rparr>)) m"
  assumes mt: "matches c a l"
  shows "coherent D l2 m'" and "mem_frame {p, l2} m m'"
    and "ram_addr b \<Longrightarrow> dview D l2 m' b = (if blk b = blk a then bs else dview D l2 m b)"
    and "dirty D m' \<subseteq> insert (blk a) (dirty D m)"
proof -
  note cd = coherentD [OF assms(1)]
  have pl2: "p \<noteq> l2" using cd(2) assms(2) by blast
  have wf: "wf_cache c" and wl: "way < c_w c" using cd(5) [OF assms(2)] assms(6) by (simp_all add: c_def)
  note ps = put_same_block [OF wf wf_cacheD(6) [OF wf, of a] wl, of "l\<lparr>cl_data := bs, cl_dirty := True\<rparr>", folded l_def, simplified, OF assms(5)]
  have g: "get_cache q m' = (if q = p then put_line c (set_index c a) way (l\<lparr>cl_data := bs, cl_dirty := True\<rparr>) else get_cache q m)" for q
    using cd(4) [OF assms(2)] by (simp add: m'_def get_put_cache)
  have h: "held (get_cache p m') b = (if blk b = blk a then Some (True, bs) else held c b)" for b
    using ps(2) [of b] matches_same_block [OF wf_cacheD(1) [OF wf] mt, of b] by (auto simp: g)
  have L: "l2_ok l2 m'" "l2_view l2 m' = l2_view l2 m"
    using l2_other_cache [OF pl2 cd(4) [OF assms(2)]] cd(1) by (simp_all add: m'_def)
  show fr: "mem_frame {p, l2} m m'" unfolding m'_def by (rule mem_frame_mono [OF put_cache_frame(1)]) simp
  have "dirty D m' \<subseteq> {blk a} \<union> dirty D m"
    by (rule dirty_one [of _ p]) (simp_all add: g, use h in \<open>auto simp: c_def g split: if_splits\<close>)
  then show "dirty D m' \<subseteq> insert (blk a) (dirty D m)" by simp
  have blka: "held (get_cache q m) b = held (get_cache q m) a" if "q \<in> set D" "blk b = blk a" for q b
    using held_blk wf_cacheD(1) [OF cd(5) [OF that(1)]] that(2) by blast
  show co: "coherent D l2 m'"
  proof (rule coherent_step [OF assms(1) pl2 fr L(1)])
    show "wf_cache (get_cache p m')" using ps(1) g by simp
  next
    fix b bs' assume b: "ram_addr b" "held (get_cache p m') b = Some (False, bs')"
    then have "held c b = Some (False, bs')" using h [of b] by (auto split: if_splits)
    then show "bs' = l2_view l2 m' b" using cd(6) [OF assms(2) b(1)] L(2) by (simp add: c_def)
  next
    fix b bs' q assume b: "ram_addr b" "held (get_cache p m') b = Some (True, bs')" "q \<in> set D" "q \<noteq> p"
    show "held (get_cache q m) b = None"
    proof (cases "blk b = blk a")
      case True
      then show ?thesis using blka [OF b(3) True] assms(4) b(3,4) by (simp add: no_other_def)
    next
      case False
      then show ?thesis using cd(7) [OF assms(2) b(3,1)] b(2,4) h [of b] by (simp add: c_def)
    qed
  next
    fix b bs' q assume b: "ram_addr b" "held (get_cache q m) b = Some (True, bs')" "q \<in> set D" "q \<noteq> p"
    then have "blk b \<noteq> blk a" using blka [OF b(3), of b] assms(4) unfolding no_other_def by auto
    then show "held (get_cache p m') b = None" using cd(7) [OF b(3) assms(2) b(1,4,2)] h [of b] by (simp add: c_def)
  next
    fix b q show "l2_view l2 m' b = l2_view l2 m b" using L(2) by simp
  qed
  show "ram_addr b \<Longrightarrow> dview D l2 m' b = (if blk b = blk a then bs else dview D l2 m b)"
  proof (cases "blk b = blk a")
    case True
    then show "ram_addr b \<Longrightarrow> ?thesis" using dview_held [OF co assms(2), of b True bs] h [of b] by simp
  next
    case False
    then have "pview p l2 m' b = pview p l2 m b" using h [of b] L(2) by (simp add: pview_def c_def split: option.splits)
    then show "ram_addr b \<Longrightarrow> ?thesis" using dview_step [OF assms(1) co assms(2) fr, of b] False by simp
  qed
qed

lemma no_other_dirty: "no_other D p m a \<Longrightarrow> no_dirty_other D p m a"
  by (simp add: no_other_def no_dirty_other_def)

lemma frame_other:
  assumes "coherent D l2 m" and "mem_frame {p, l2} m m'" and "q \<in> set D" and "q \<noteq> p"
  shows "get_cache q m' = get_cache q m"
  using assms coherentD(2) [OF assms(1)] by (auto simp: mem_frame_def)

lemma length_dview: "coherent D l2 m \<Longrightarrow> ram_addr a \<Longrightarrow> length (dview D l2 m a) = 64"
  using dview_held [of D l2 m _ a] dview_none [of D m a l2] held_length length_l2_view coherentD(1,5)
  by (metis option.exhaust surj_pair)

lemma cache_write_ok:
  assumes "coherent D l2 m" and "p \<in> set D" and "access_ok a n" and "no_other D p m a"
  shows "\<exists>m'. cache_write p l2 a n v m = Inr m' \<and> coherent D l2 m' \<and> mem_frame {p, l2} m m' \<and>
    (\<forall>b. ram_addr b \<longrightarrow> dview D l2 m' b =
      (if blk b = blk a then splice (dview D l2 m a) (unat (a AND 63)) (bytes_of_word n v) else dview D l2 m b)) \<and>
    dirty D m' \<subseteq> insert (blk a) (dirty D m)"
proof -
  have ra: "ram_addr a" using assms(3) by (simp add: access_ok_def)
  obtain way m1 where l: "line_for p l2 a m = Inr (way, m1)" and ls: "line_spec D p l2 a m way m1"
    using line_for_ok [OF assms(1,2) ra no_other_dirty [OF assms(4)]] by blast
  have co: "coherent D l2 m1" and fr: "mem_frame {p, l2} m m1" and wl: "way < c_w (get_cache p m1)"
    and mt: "matches (get_cache p m1) a (get_line (get_cache p m1) (set_index (get_cache p m1) a) way)"
    and dt: "cl_data (get_line (get_cache p m1) (set_index (get_cache p m1) a) way) = dview D l2 m a"
    and vw: "\<And>b. ram_addr b \<Longrightarrow> dview D l2 m1 b = dview D l2 m b" and d1: "dirty D m1 \<subseteq> dirty D m"
    using ls by (auto simp: line_spec_def)
  let ?bs = "splice (dview D l2 m a) (unat (a AND 63)) (bytes_of_word n v)"
  have len: "length ?bs = 64" using length_dview [OF assms(1) ra] assms(3) by (simp add: access_ok_def)
  have no: "no_other D p m1 a"
    using assms(4) frame_other [OF assms(1) fr] by (simp add: no_other_def)
  note w = write_line_ok [OF co assms(2) ra no len wl mt]
  let ?c = "get_cache p m1"
  let ?m2 = "put_cache p (put_line ?c (set_index ?c a) way
      ((get_line ?c (set_index ?c a) way)\<lparr>cl_data := ?bs, cl_dirty := True\<rparr>)) m1"
  have "cache_write p l2 a n v m = Inr ?m2"
    using l assms(3) dt by (simp add: cache_write_def access_ok_def Let_def)
  moreover have "mem_frame {p, l2} m ?m2" by (rule mem_frame_trans [OF fr w(2)])
  moreover have "dirty D ?m2 \<subseteq> insert (blk a) (dirty D m)" using w(4) d1 by blast
  ultimately show ?thesis using w(1,3) vw by auto
qed

section \<open>Snoops\<close>

lemma first_way_Some:
  assumes "first_way P ls i = Some k"
  shows "i \<le> k \<and> k < i + length ls \<and> P (ls ! (k - i))"
  using assms by (induction ls arbitrary: i) (force split: if_splits simp: nth_Cons')+

lemma first_way_None: "first_way P ls i = None \<longleftrightarrow> (\<forall>l\<in>set ls. \<not> P l)"
  by (induction ls arbitrary: i) auto

text \<open>Writing a dirty block back to the second level, the line of \<open>q\<close> then clean or invalid.\<close>

lemma snoop_coherent:
  assumes "coherent D l2 m" and "q \<in> set D" and "ram_addr a" and hq: "held (get_cache q m) a = Some (d, bs)"
    and fr: "mem_frame {q, l2} m m'" and ok: "l2_ok l2 m'" and wf: "wf_cache (get_cache q m')"
    and L: "\<And>b. ram_addr b \<Longrightarrow> l2_view l2 m' b = (if d \<and> blk b = blk a then bs else l2_view l2 m b)"
    and H: "\<And>b. held (get_cache q m') b =
      (if blk b = blk a then (if keep then Some (False, bs) else None) else held (get_cache q m) b)"
  shows "coherent D l2 m'" and "ram_addr b \<Longrightarrow> dview D l2 m' b = dview D l2 m b"
proof -
  note cd = coherentD [OF assms(1)]
  have ql2: "q \<noteq> l2" using cd(2) assms(2) by blast
  have blka: "held (get_cache r m) b = held (get_cache r m) a" if "r \<in> set D" "blk b = blk a" for r b
    using held_blk wf_cacheD(1) [OF cd(5) [OF that(1)]] that(2) by blast
  have bsL: "bs = l2_view l2 m' b" if "ram_addr b" "blk b = blk a" for b
    using L [OF that(1)] that hq cd(6) [OF assms(2,3), of bs] l2_view_blk [OF cd(1) that(2)] by (cases d) auto
  show co: "coherent D l2 m'"
  proof (rule coherent_step [OF assms(1) ql2 fr ok wf])
    fix b bs' assume b: "ram_addr b" "held (get_cache q m') b = Some (False, bs')"
    show "bs' = l2_view l2 m' b"
    proof (cases "blk b = blk a")
      case True
      then show ?thesis using b H [of b] bsL [OF b(1)] by (auto split: if_splits)
    next
      case False
      then show ?thesis using b H [of b] L [OF b(1)] cd(6) [OF assms(2) b(1)] by simp
    qed
  next
    fix b bs' r assume b: "ram_addr b" "held (get_cache q m') b = Some (True, bs')" "r \<in> set D" "r \<noteq> q"
    then have "held (get_cache q m) b = Some (True, bs')" using H [of b] by (auto split: if_splits)
    then show "held (get_cache r m) b = None" using cd(7) [OF assms(2) b(3,1)] b(4) by blast
  next
    fix b bs' r assume b: "ram_addr b" "held (get_cache r m) b = Some (True, bs')" "r \<in> set D" "r \<noteq> q"
    then have n: "held (get_cache q m) b = None" using cd(7) [OF b(3) assms(2) b(1,4,2)] by simp
    then have "blk b \<noteq> blk a" using blka [OF assms(2), of b] hq by auto
    then show "held (get_cache q m') b = None" using H [of b] n by simp
  next
    fix b r assume b: "ram_addr b" "r \<in> set D" "r \<noteq> q" "held (get_cache r m) b \<noteq> None"
    have "\<not> (d \<and> blk b = blk a)"
      using blka [OF b(2), of b] blka [OF assms(2), of b] cd(7) [OF assms(2) b(2,1)] b(3,4) hq by auto
    then show "l2_view l2 m' b = l2_view l2 m b" unfolding L [OF b(1)] by auto
  qed
  show "ram_addr b \<Longrightarrow> dview D l2 m' b = dview D l2 m b"
  proof (rule dview_step [OF assms(1) co assms(2) fr], assumption)
    assume rb: "ram_addr b"
    show "pview q l2 m' b = pview q l2 m b"
    proof (cases "blk b = blk a")
      case True
      then show ?thesis using H [of b] bsL [OF rb True] blka [OF assms(2) True] hq by (auto simp: pview_def)
    next
      case False
      then show ?thesis using H [of b] L [OF rb] by (simp add: pview_def split: option.splits)
    qed
  qed
qed

text \<open>The way a snoop selects holds the block.\<close>

lemma first_way_set:
  assumes "wf_cache c" and "first_way P (cs_lines (c_sets c ! set_index c a)) 0 = Some way"
  shows "way < c_w c" and "P (get_line c (set_index c a) way)"
  using first_way_Some [OF assms(2)] set_okD(1) [OF wf_cacheD(5) [OF assms(1) wf_cacheD(6) [OF assms(1), of a]]]
  by (simp_all add: get_line_def)

lemma first_way_none_held:
  assumes "wf_cache c" and "first_way (\<lambda>l. cl_valid l \<and> cl_tag l = tag_of c a \<and> Q l) (cs_lines (c_sets c ! set_index c a)) 0 = None"
    and "held c a = Some (d, bs)"
  shows "\<exists>l. matches c a l \<and> \<not> Q l \<and> d = cl_dirty l \<and> bs = cl_data l"
proof -
  obtain l where l: "lookup c a = Some l" "d = cl_dirty l" "bs = cl_data l" using assms(3) by (auto simp: held_def)
  then have "l \<in> set (cs_lines (c_sets c ! set_index c a))" "matches c a l"
    unfolding lookup_def matches_def find_Some_iff by (auto simp: in_set_conv_nth)
  with assms(2) l show ?thesis by (auto simp: first_way_None matches_def)
qed

text \<open>The write-back both snoops make of a dirty line.\<close>

lemma blk_numeral: "a AND - 64 = blk a"
  by (simp add: blk_def)

lemma snoop_writeback:
  assumes "coherent D l2 m" and "q \<in> set D" and "ram_addr a" and "held (get_cache q m) a = Some (d, bs)"
  shows "\<exists>m1. access_l2 l2 (blk a) bs True m = Inr (bs, m1) \<and> l2_ok l2 m1 \<and> mem_frame {l2} m m1 \<and>
    get_cache q m1 = get_cache q m \<and> q < length (caches m1) \<and> held (get_cache l2 m1) a \<noteq> None \<and>
    (\<forall>b. ram_addr b \<longrightarrow> l2_view l2 m1 b = (if blk b = blk a then bs else l2_view l2 m b))"
proof -
  note cd = coherentD [OF assms(1)]
  have q: "q \<noteq> l2" using cd(2) assms(2) by blast
  obtain r where r: "access_l2 l2 (blk a) bs True m = Inr r" "l2_access_spec l2 (blk a) bs True m r"
    using access_l2_ok [OF cd(1), of "blk a" bs True] assms(3) held_length [OF cd(5) [OF assms(2)] assms(4)] by auto
  then have "wf_cache (get_cache l2 (snd r))" by (simp add: l2_access_spec_def l2_ok_def)
  then have "held (get_cache l2 (snd r)) (blk a) = held (get_cache l2 (snd r)) a" by (intro held_blk wf_cacheD(1)) simp_all
  then show ?thesis
    using r q cd(4) [OF assms(2)] by (cases r) (auto simp: l2_access_spec_def mem_frame_def)
qed

definition snoop_spec :: "nat list \<Rightarrow> nat \<Rightarrow> nat \<Rightarrow> machine \<Rightarrow> machine \<Rightarrow> bool" where
  "snoop_spec D q l2 m m' \<longleftrightarrow> coherent D l2 m' \<and> mem_frame {q, l2} m m' \<and>
     (\<forall>b. ram_addr b \<longrightarrow> dview D l2 m' b = dview D l2 m b) \<and> dirty D m' \<subseteq> dirty D m"

text \<open>A snoop makes no block dirty.\<close>

lemma snoop_dirty:
  assumes "coherent D l2 m" and "mem_frame {q, l2} m m'"
    and "\<And>b. held (get_cache q m') b =
      (if blk b = blk a then (if keep then Some (False, bs) else None) else held (get_cache q m) b)"
  shows "dirty D m' \<subseteq> dirty D m"
proof -
  have "dirty D m' \<subseteq> {} \<union> dirty D m"
    by (rule dirty_one [of _ q]) (use assms coherentD(2) [OF assms(1)] in \<open>auto simp: mem_frame_def split: if_splits\<close>)
  then show ?thesis by simp
qed

lemma snoop_flush_ok:
  assumes "coherent D l2 m" and "q \<in> set D" and "ram_addr a"
  shows "\<exists>m'. cache_snoop_flush_dirty (Some q) l2 a m = Inr m' \<and> snoop_spec D q l2 m m' \<and>
    (\<forall>bs. held (get_cache q m') a \<noteq> Some (True, bs)) \<and>
    (held (get_cache l2 m') a \<noteq> None \<longleftrightarrow> held (get_cache l2 m) a \<noteq> None \<or> (\<exists>bs. held (get_cache q m) a = Some (True, bs)))"
proof -
  note cd = coherentD [OF assms(1)]
  define c where "c = get_cache q m"
  define i where "i = set_index c a"
  have wf: "wf_cache c" using cd(5) [OF assms(2)] by (simp add: c_def)
  let ?P = "\<lambda>l. cl_valid l \<and> cl_tag l = tag_of c a \<and> cl_dirty l"
  show ?thesis
  proof (cases "first_way ?P (cs_lines (c_sets c ! i)) 0")
    case None
    then have "held c a \<noteq> Some (True, bs)" for bs
      using first_way_none_held [OF wf, of a cl_dirty] by (auto simp: i_def)
    moreover have "cache_snoop_flush_dirty (Some q) l2 a m = Inr m"
      using None by (simp add: cache_snoop_flush_dirty_def c_def i_def Let_def)
    ultimately show ?thesis using assms(1) by (auto simp: snoop_spec_def c_def)
  next
    case (Some way)
    let ?l = "get_line c i way"
    have wl: "way < c_w c" and P: "?P ?l" using first_way_set [OF wf, of _ a] Some by (auto simp: i_def)
    then have mt: "matches c a ?l" by (simp add: matches_def)
    have hq: "held (get_cache q m) a = Some (True, cl_data ?l)"
      using held_line [OF wf wl, of a] mt P by (simp add: i_def c_def)
    obtain m1 where m1: "access_l2 l2 (blk a) (cl_data ?l) True m = Inr (cl_data ?l, m1)" "l2_ok l2 m1"
        "mem_frame {l2} m m1" "get_cache q m1 = c" "q < length (caches m1)"
        "\<And>b. ram_addr b \<Longrightarrow> l2_view l2 m1 b = (if blk b = blk a then cl_data ?l else l2_view l2 m b)" "held (get_cache l2 m1) a \<noteq> None"
      using snoop_writeback [OF assms hq] unfolding c_def by blast
    let ?c' = "put_line c i way (?l\<lparr>cl_dirty := False\<rparr>)"
    let ?m2 = "put_cache q (?c'\<lparr>c_writebacks := c_writebacks ?c' + 1\<rparr>) m1"
    have e: "cache_snoop_flush_dirty (Some q) l2 a m = Inr ?m2"
      using Some m1(1) by (simp add: blk_numeral cache_snoop_flush_dirty_def c_def [symmetric] i_def [symmetric] m1(4) Let_def)
    have "i < 2 ^ c_s c" "length (cl_data ?l) = 64"
      using wf_cacheD(6) [OF wf] line_ok_get [OF wf _ wl] by (auto simp: i_def line_ok_def)
    note ps = put_same_block [OF wf this(1) wl, of "?l\<lparr>cl_dirty := False\<rparr>", simplified, OF this(2)]
    have g: "get_cache q ?m2 = ?c'\<lparr>c_writebacks := c_writebacks ?c' + 1\<rparr>" using m1(5) by (simp add: get_put_cache)
    have H: "held (get_cache q ?m2) b = (if blk b = blk a then (if True then Some (False, cl_data ?l) else None) else held (get_cache q m) b)" for b
      unfolding g using ps(2) [of b] matches_same_block [OF wf_cacheD(1) [OF wf] mt, of b] by (simp add: i_def c_def)
    have ql2: "q \<noteq> l2" using cd(2) assms(2) by blast
    have fr: "mem_frame {q, l2} m ?m2"
      by (rule mem_frame_trans [OF mem_frame_mono [OF m1(3)] mem_frame_mono [OF put_cache_frame(1)]]) auto
    have L2: "l2_ok l2 ?m2" "l2_view l2 ?m2 = l2_view l2 m1" using l2_other_cache [OF ql2 m1(5)] m1(2) by simp_all
    have L: "l2_view l2 ?m2 b = (if True \<and> blk b = blk a then cl_data ?l else l2_view l2 m b)" if "ram_addr b" for b
      using L2(2) m1(6) [OF that] by simp
    have wf2: "wf_cache (get_cache q ?m2)" unfolding g using ps(1) by simp
    note sc = snoop_coherent [OF assms hq fr L2(1) wf2 L H]
    have "held (get_cache l2 ?m2) a \<noteq> None" using m1(5,7) ql2 by (simp add: get_put_cache)
    then show ?thesis using e sc fr hq H [of a] snoop_dirty [OF assms(1) fr H] by (auto simp: snoop_spec_def)
  qed
qed

lemma snoop_invalidate_ok:
  assumes "coherent D l2 m" and "q \<in> set D" and "ram_addr a" and "L2_cache m = Some l2"
  shows "\<exists>m'. cache_snoop_invalidate (Some q) a m = Inr m' \<and> snoop_spec D q l2 m m' \<and> held (get_cache q m') a = None"
proof -
  note cd = coherentD [OF assms(1)]
  define c where "c = get_cache q m"
  define i where "i = set_index c a"
  have wf: "wf_cache c" and ql2: "q \<noteq> l2" using cd(2,5) assms(2) by (auto simp: c_def)
  let ?P = "\<lambda>l. cl_valid l \<and> cl_tag l = tag_of c a"
  show ?thesis
  proof (cases "first_way ?P (cs_lines (c_sets c ! i)) 0")
    case None
    then have "held c a = None"
      using first_way_none_held [OF wf, of a "\<lambda>_. True"] by (cases "held c a") (auto simp: i_def)
    moreover have "cache_snoop_invalidate (Some q) a m = Inr m"
      using None by (simp add: cache_snoop_invalidate_def c_def i_def Let_def)
    ultimately show ?thesis using assms(1) by (auto simp: snoop_spec_def c_def)
  next
    case (Some way)
    let ?l = "get_line c i way" let ?l' = "?l\<lparr>cl_valid := False, cl_dirty := False\<rparr>"
    have wl: "way < c_w c" and P: "?P ?l" using first_way_set [OF wf, of _ a] Some by (auto simp: i_def)
    then have mt: "matches c a ?l" by (simp add: matches_def)
    have hq: "held (get_cache q m) a = Some (cl_dirty ?l, cl_data ?l)"
      using held_line [OF wf wl, of a] mt by (simp add: i_def c_def)
    obtain m1 k where m1: "mem_frame {q, l2} m m1" "l2_ok l2 m1" "get_cache q m1 = c\<lparr>c_writebacks := k\<rparr>" "q < length (caches m1)"
        "\<And>b. ram_addr b \<Longrightarrow> l2_view l2 m1 b = (if cl_dirty ?l \<and> blk b = blk a then cl_data ?l else l2_view l2 m b)"
        and e: "cache_snoop_invalidate (Some q) a m = Inr (put_cache q (put_line (c\<lparr>c_writebacks := k\<rparr>) i way ?l') m1)"
    proof (cases "cl_dirty ?l")
      case False
      have "c = c\<lparr>c_writebacks := c_writebacks c\<rparr>" by simp
      moreover have "cache_snoop_invalidate (Some q) a m = Inr (put_cache q (put_line c i way ?l') m)"
        using Some False by (simp add: cache_snoop_invalidate_def c_def i_def Let_def)
      ultimately show thesis
        using that [of m "c_writebacks c"] False cd(1,4) assms(2) by (simp add: c_def)
    next
      case True
      obtain m0 where m0: "access_l2 l2 (blk a) (cl_data ?l) True m = Inr (cl_data ?l, m0)" "l2_ok l2 m0"
          "mem_frame {l2} m m0" "get_cache q m0 = c" "q < length (caches m0)"
          "\<And>b. ram_addr b \<Longrightarrow> l2_view l2 m0 b = (if blk b = blk a then cl_data ?l else l2_view l2 m b)"
        using snoop_writeback [OF assms(1-3) hq] unfolding c_def by blast
      let ?c1 = "c\<lparr>c_writebacks := c_writebacks c + 1\<rparr>"
      let ?m1 = "put_cache q ?c1 m0"
      have "cache_snoop_invalidate (Some q) a m = Inr (put_cache q (put_line ?c1 i way ?l') ?m1)"
        using Some True m0(1,4,5) assms(4)
        by (simp add: blk_numeral cache_snoop_invalidate_def deref_def c_def [symmetric] i_def [symmetric] get_put_cache Let_def)
      moreover have "mem_frame {q, l2} m ?m1"
        by (rule mem_frame_trans [OF mem_frame_mono [OF m0(3)] mem_frame_mono [OF put_cache_frame(1)]]) auto
      ultimately show thesis
        using that [of ?m1 "c_writebacks c + 1"] m0(2,4,5,6) True l2_other_cache [OF ql2 m0(5)] by (simp add: get_put_cache)
    qed
    let ?m2 = "put_cache q (put_line (c\<lparr>c_writebacks := k\<rparr>) i way ?l') m1"
    have "i < 2 ^ c_s c" "length (cl_data ?l) = 64"
      using wf_cacheD(6) [OF wf] line_ok_get [OF wf _ wl] by (auto simp: i_def line_ok_def)
    then have ps: "wf_cache (put_line (c\<lparr>c_writebacks := k\<rparr>) i way ?l')"
        "held (put_line (c\<lparr>c_writebacks := k\<rparr>) i way ?l') b = (if set_index c b = i \<and> matches c b ?l then None else held c b)" for b
      using put_invalid [of "c\<lparr>c_writebacks := k\<rparr>" i way ?l'] wf wl by simp_all
    have g: "get_cache q ?m2 = put_line (c\<lparr>c_writebacks := k\<rparr>) i way ?l'" using m1(4) by (simp add: get_put_cache)
    have H: "held (get_cache q ?m2) b = (if blk b = blk a then (if False then Some (False, cl_data ?l) else None) else held (get_cache q m) b)" for b
      unfolding g using ps(2) [of b] matches_same_block [OF wf_cacheD(1) [OF wf] mt, of b] by (simp add: i_def c_def)
    have fr: "mem_frame {q, l2} m ?m2"
      by (rule mem_frame_trans [OF m1(1) mem_frame_mono [OF put_cache_frame(1)]]) auto
    have L2: "l2_ok l2 ?m2" "l2_view l2 ?m2 = l2_view l2 m1" using l2_other_cache [OF ql2 m1(4)] m1(2) by simp_all
    have L: "l2_view l2 ?m2 b = (if cl_dirty ?l \<and> blk b = blk a then cl_data ?l else l2_view l2 m b)" if "ram_addr b" for b
      using L2(2) m1(5) [OF that] by simp
    have wf2: "wf_cache (get_cache q ?m2)" unfolding g using ps(1) .
    note sc = snoop_coherent [OF assms(1-3) hq fr L2(1) wf2 L H]
    show ?thesis using e sc fr H [of a] snoop_dirty [OF assms(1) fr H] by (auto simp: snoop_spec_def)
  qed
qed

section \<open>The instruction cache\<close>

text \<open>
  The instruction cache is never written, so its lines are clean; it is not one of the data
  caches, and a fetch changes no data value. What it returns is its own copy if it has one.
\<close>

definition icache_ok :: "nat \<Rightarrow> machine \<Rightarrow> bool" where
  "icache_ok p m \<longleftrightarrow> p < length (caches m) \<and> wf_cache (get_cache p m) \<and>
     (\<forall>a bs. held (get_cache p m) a \<noteq> Some (True, bs))"

lemma coherent_icache:
  assumes "coherent D l2 m" and "p \<notin> set D" and "p \<noteq> l2" and "mem_frame {p, l2} m m'" and "l2_ok l2 m'"
    and "\<And>b. ram_addr b \<Longrightarrow> l2_view l2 m' b = l2_view l2 m b"
  shows "coherent D l2 m'" and "ram_addr b \<Longrightarrow> dview D l2 m' b = dview D l2 m b"
proof -
  have g: "get_cache q m' = get_cache q m" if "q \<in> set D" for q
    using assms(2,4) coherentD(2) [OF assms(1)] that by (auto simp: mem_frame_def)
  show "coherent D l2 m'"
    by (rule coherent_step [OF assms(1,3,4,5)]) (use assms(2,6) in auto)
  have e: "find (\<lambda>p. held (get_cache p m') b \<noteq> None) D = find (\<lambda>p. held (get_cache p m) b \<noteq> None) D"
    using g by (auto cong: find_cong)
  show "ram_addr b \<Longrightarrow> dview D l2 m' b = dview D l2 m b"
  proof (cases "find (\<lambda>p. held (get_cache p m) b \<noteq> None) D")
    case None
    then show "ram_addr b \<Longrightarrow> ?thesis" unfolding dview_def e None using assms(6) by simp
  next
    case (Some q)
    then have "q \<in> set D" by (metis find_Some_iff nth_mem)
    then show "ram_addr b \<Longrightarrow> ?thesis" unfolding dview_def e Some using g by simp
  qed
qed

lemma cache_read_icache:
  assumes "coherent D l2 m" and "icache_ok p m" and "p \<notin> set D" and "p \<noteq> l2" and "access_ok a n"
  shows "\<exists>v m'. cache_read p l2 a n m = Inr (v, m') \<and> coherent D l2 m' \<and> icache_ok p m' \<and> mem_frame {p, l2} m m' \<and>
    (\<forall>b. ram_addr b \<longrightarrow> dview D l2 m' b = dview D l2 m b) \<and>
    v = word_of_bytes (take n (drop (unat (a AND 63)) (pview p l2 m a))) \<and>
    (\<forall>b x. held (get_cache p m') b = Some x \<longrightarrow> held (get_cache p m) b = Some x \<or> blk b = blk a \<and> snd x = l2_view l2 m a)"
proof -
  have ra: "ram_addr a" using assms(5) by (simp add: access_ok_def)
  have wf0: "wf_cache (get_cache p m)" and len: "p < length (caches m)" using assms(2) by (simp_all add: icache_ok_def)
  obtain c hit way where f: "find_line (get_cache p m) a = (c, hit, way)" by (metis surj_pair)
  note fl = find_line_ok [OF wf0 f]
  then have wf: "wf_cache c" and sh: "same_held (get_cache p m) c" by blast+
  let ?m1 = "put_cache p c m"
  have g1: "get_cache p ?m1 = c" using len by (simp add: get_put_cache)
  have L1: "l2_ok l2 ?m1" "l2_view l2 ?m1 = l2_view l2 m"
    using l2_other_cache [OF assms(4) len] coherentD(1) [OF assms(1)] by simp_all
  have fr1: "mem_frame {p, l2} m ?m1" by (rule mem_frame_mono [OF put_cache_frame(1)]) simp
  have w: "way < c_w c" using fl sh by (simp add: same_held_def)
  obtain m2 where m2: "line_for p l2 a m = Inr (way, m2)" "l2_ok l2 m2" "mem_frame {p, l2} m m2" "icache_ok p m2"
      "\<And>b. ram_addr b \<Longrightarrow> l2_view l2 m2 b = l2_view l2 m b"
      "cl_data (get_line (get_cache p m2) (set_index (get_cache p m2) a) way) = pview p l2 m a"
      "\<And>b x. held (get_cache p m2) b = Some x \<Longrightarrow> held (get_cache p m) b = Some x \<or> blk b = blk a \<and> snd x = l2_view l2 m a"
  proof (cases hit)
    case True
    then have mt: "matches c a (get_line c (set_index c a) way)" using fl by (simp add: same_held_index [OF sh])
    have "icache_ok p ?m1" using assms(2) wf sh len by (simp add: icache_ok_def g1 same_held_def)
    then show thesis
      using that [of ?m1] True f L1 fr1 held_line [OF wf w mt] sh by (simp add: line_for_def g1 pview_def same_held_def)
  next
    case False
    then have no: "held (get_cache p m) a = None" using fl by blast
    have no1: "held (get_cache p ?m1) a = None" using no sh by (simp add: g1 same_held_def)
    obtain m2 ev where fb: "fetch_block p l2 a way ?m1 = Inr m2" and fs: "fetch_spec p l2 a way ?m1 m2 ev"
      using fetch_block_ok [OF L1(1) assms(4) _ _ ra no1, of way] wf w len g1 by auto
    have fl2: "line_for p l2 a m = Inr (way, m2)" using f False fb by (simp add: line_for_def)
    have h1: "held (get_cache p ?m1) b \<noteq> Some (True, bs)" for b bs
      using assms(2) sh by (simp add: g1 icache_ok_def same_held_def)
    have nf: "\<not> (ev b \<and> fst (the (held (get_cache p ?m1) b)))" for b
    proof
      assume ev: "ev b \<and> fst (the (held (get_cache p ?m1) b))"
      then obtain d bs where "held (get_cache p ?m1) b = Some (d, bs)"
        using fs unfolding fetch_spec_def by (metis not_None_eq surj_pair)
      with ev h1 show False by (cases d) auto
    qed
    have "l2_view l2 m2 b = l2_view l2 m b" if "ram_addr b" for b
      using fs that nf [of b] L1(2) unfolding fetch_spec_def by (simp only: if_False)
    moreover have "icache_ok p m2"
      using fs h1 len unfolding fetch_spec_def icache_ok_def mem_frame_def by auto
    moreover have "held (get_cache p m2) a = Some (False, l2_view l2 m a)"
      using fs L1(2) unfolding fetch_spec_def by simp
    then have "cl_data (get_line (get_cache p m2) (set_index (get_cache p m2) a) way) = pview p l2 m a"
      using held_line [of "get_cache p m2" way a] fs w g1 no unfolding fetch_spec_def pview_def by simp
    moreover have "held (get_cache p m) b = Some x \<or> blk b = blk a \<and> snd x = l2_view l2 m a"
      if "held (get_cache p m2) b = Some x" for b x
      using fs that L1(2) sh g1 unfolding fetch_spec_def same_held_def by (auto split: if_splits)
    ultimately show thesis
      using that [OF fl2] fs mem_frame_trans [OF fr1] unfolding fetch_spec_def by blast
  qed
  have "cache_read p l2 a n m = Inr (word_of_bytes (take n (drop (unat (a AND 63)) (pview p l2 m a))), m2)"
    using m2(1,6) assms(5) by (simp add: cache_read_def line_bytes_def access_ok_def)
  with m2 coherent_icache [OF assms(1,3,4) m2(3,2,5)] show ?thesis by blast
qed

end
