(* ===== verification/Vmem.thy ===== *)
theory Vmem
  imports Cache_Coherence
begin

text \<open>
  Guest accesses (\<^verbatim>\<open>src/memory/vmem.c\<close>): RAM goes through the first-level cache of the running core,
  after a snoop of the other core's data cache when there are two; the rest goes to the devices. The main
  result: however the two cores interleave their accesses, memory behaves as one array of bytes.
\<close>

section \<open>The accessors\<close>

text \<open>\<^verbatim>\<open>cores[1 - g_current_hartid].l1d\<close>\<close>

definition other_l1d :: "machine \<Rightarrow> nat option res" where
  "other_l1d m =
     bind_res (guard (g_current_hartid m \<le> 1 \<and> 1 - g_current_hartid m < length (cores m)) Out_of_bounds) (\<lambda>_.
     Inr (core_l1d (cores m ! (1 - g_current_hartid m))))"

definition in_ram_range :: "vaddr_t \<Rightarrow> bool" where
  "in_ram_range addr \<longleftrightarrow> 0x80000000 \<le> addr \<and> addr < 0x88000000"

definition vaddr_ifetch :: "vaddr_t \<Rightarrow> nat \<Rightarrow> machine \<Rightarrow> (word_t \<times> machine) res" where
  "vaddr_ifetch addr len m =
     (if in_ram_range addr then
        bind_res (deref (L1I_cache m)) (\<lambda>l1i. bind_res (deref (L2_cache m)) (\<lambda>l2. cache_read l1i l2 addr len m))
      else paddr_read addr len m)"

text \<open>The flush of the other core's dirty copy before a read, and the invalidation before a write.\<close>

definition snoop_flush :: "vaddr_t \<Rightarrow> machine \<Rightarrow> machine res" where
  "snoop_flush addr m =
     (if g_num_cores m > 1 then
        bind_res (other_l1d m) (\<lambda>other. bind_res (deref (L2_cache m)) (\<lambda>l2. cache_snoop_flush_dirty other l2 addr m))
      else Inr m)"

definition snoop_invalidate :: "vaddr_t \<Rightarrow> machine \<Rightarrow> machine res" where
  "snoop_invalidate addr m =
     (if g_num_cores m > 1 then bind_res (other_l1d m) (\<lambda>other. cache_snoop_invalidate other addr m)
      else Inr m)"

definition vaddr_read :: "vaddr_t \<Rightarrow> nat \<Rightarrow> machine \<Rightarrow> (word_t \<times> machine) res" where
  "vaddr_read addr len m =
     (if in_ram_range addr then
        bind_res (snoop_flush addr m) (\<lambda>m.
        bind_res (deref (L1D_cache m)) (\<lambda>l1d. bind_res (deref (L2_cache m)) (\<lambda>l2. cache_read l1d l2 addr len m)))
      else paddr_read addr len m)"

definition vaddr_read_level :: "vaddr_t \<Rightarrow> nat \<Rightarrow> machine \<Rightarrow> (nat \<times> word_t \<times> machine) res" where
  "vaddr_read_level addr len m =
     (if in_ram_range addr then
        bind_res (snoop_flush addr m) (\<lambda>m.
        bind_res (deref (L1D_cache m)) (\<lambda>l1d. bind_res (deref (L2_cache m)) (\<lambda>l2. cache_read_level l1d l2 addr len m)))
      else bind_res (paddr_read addr len m) (\<lambda>(v, m). Inr (0, v, m)))"

definition vaddr_probe_level :: "vaddr_t \<Rightarrow> machine \<Rightarrow> (nat \<times> machine) res" where
  "vaddr_probe_level addr m =
     (if in_ram_range addr then
        bind_res (deref (L1D_cache m)) (\<lambda>l1d. bind_res (deref (L2_cache m)) (\<lambda>l2. Inr (cache_probe_level l1d l2 addr m)))
      else Inr (0, m))"

definition vaddr_fill_and_read :: "vaddr_t \<Rightarrow> nat \<Rightarrow> machine \<Rightarrow> (word_t \<times> machine) res" where
  "vaddr_fill_and_read addr len m =
     (if in_ram_range addr then
        bind_res (snoop_flush addr m) (\<lambda>m.
        bind_res (deref (L1D_cache m)) (\<lambda>l1d. bind_res (deref (L2_cache m)) (\<lambda>l2. cache_fill_and_read l1d l2 addr len m)))
      else paddr_read addr len m)"

definition vaddr_write :: "vaddr_t \<Rightarrow> nat \<Rightarrow> word_t \<Rightarrow> machine \<Rightarrow> machine res" where
  "vaddr_write addr len d m =
     (if in_ram_range addr then
        bind_res (snoop_invalidate addr m) (\<lambda>m.
        bind_res (deref (L1D_cache m)) (\<lambda>l1d. bind_res (deref (L2_cache m)) (\<lambda>l2. cache_write l1d l2 addr len d m)))
      else paddr_write addr len d m)"

section \<open>The memory system of the running core\<close>

definition data_caches :: "machine \<Rightarrow> nat list" where
  "data_caches m =
     (if g_num_cores m > 1 then map (the \<circ> core_l1d) (cores m) else [the (L1D_cache m)])"

text \<open>
  The pointers are set up as \<^verbatim>\<open>core_create\<close> and \<^verbatim>\<open>core_cycle\<close> leave them, the data caches are coherent and the
  instruction caches hold no dirty line.
\<close>

definition l1i_caches :: "machine \<Rightarrow> nat list" where
  "l1i_caches m = (if g_num_cores m > 1 then map (the \<circ> core_l1i) (cores m) else [the (L1I_cache m)])"

definition hart_ok :: "machine \<Rightarrow> bool" where
  "hart_ok m \<longleftrightarrow>
     (if g_num_cores m > 1 then
        length (cores m) = 2 \<and> g_current_hartid m < 2 \<and>
        L1D_cache m = core_l1d (cores m ! g_current_hartid m) \<and> L1I_cache m = core_l1i (cores m ! g_current_hartid m) \<and>
        (\<forall>c\<in>set (cores m). core_l1d c \<noteq> None \<and> core_l1i c \<noteq> None)
      else L1D_cache m \<noteq> None \<and> L1I_cache m \<noteq> None) \<and> L2_cache m \<noteq> None"

definition mem_sys :: "machine \<Rightarrow> bool" where
  "mem_sys m \<longleftrightarrow> hart_ok m \<and> coherent (data_caches m) (the (L2_cache m)) m \<and>
     (\<forall>p\<in>set (l1i_caches m). icache_ok p m \<and> p \<notin> set (data_caches m) \<and> p \<noteq> the (L2_cache m))"

text \<open>The byte at an offset of RAM.\<close>

definition ram_view :: "machine \<Rightarrow> nat \<Rightarrow> byte" where
  "ram_view m x =
     (if x < 0x8000000
      then dview (data_caches m) (the (L2_cache m)) m (0x80000000 + word_of_nat x) ! (x mod 64)
      else 0)"

subsection \<open>Bytes and blocks\<close>

definition ram_off :: "paddr_t \<Rightarrow> nat" where
  "ram_off a = unat a - 0x80000000"

lemma unat_and_63: "unat (a AND 63 :: word_t) = unat a mod 64"
proof -
  have e: "(63 :: word_t) = mask 6" by (simp add: mask_eq_exp_minus_1)
  have "a AND 63 = take_bit 6 a" unfolding e take_bit_eq_mask ..
  then have "unat (a AND 63) = take_bit 6 (unat a)" by (metis unsigned_take_bit_eq)
  then show ?thesis by (simp add: take_bit_eq_mod)
qed

lemma blk_eq_div: "blk a = blk b \<longleftrightarrow> unat a div 64 = unat b div 64"
proof
  assume "blk a = blk b"
  then have "unat a div 64 * 64 = unat b div 64 * 64" by (metis unat_blk)
  then show "unat a div 64 = unat b div 64" by simp
next
  assume "unat a div 64 = unat b div 64"
  then have "unat (blk a) = unat (blk b)" by (simp add: unat_blk)
  then show "blk a = blk b" by (metis unsigned_word_eqI)
qed

lemma unat_ram: "x < 0x8000000 \<Longrightarrow> unat (0x80000000 + word_of_nat x :: word_t) = 0x80000000 + x"
  by (simp add: unat_word_ariths unsigned_of_nat take_bit_nat_eq_self)

lemma ram_addr_of: "x < 0x8000000 \<Longrightarrow> ram_addr (0x80000000 + word_of_nat x)"
  by (simp add: ram_addr_unat unat_ram)

lemma div_base: "(0x80000000 + x) div 64 = 0x2000000 + x div 64" "(0x80000000 + x) mod 64 = x mod 64" for x :: nat
proof -
  have e: "0x80000000 = 0x2000000 * (64 :: nat)" by simp
  show "(0x80000000 + x) div 64 = 0x2000000 + x div 64" by simp
  show "(0x80000000 + x) mod 64 = x mod 64" unfolding e by (simp only: mod_mult_self3)
qed

lemma access_range:
  assumes "access_ok a n" and "j < n"
  shows "ram_off a + j < 0x8000000" "blk (0x80000000 + word_of_nat (ram_off a + j)) = blk a"
    "(ram_off a + j) mod 64 = unat (a AND 63) + j" "(ram_off a + j) div 64 = ram_off a div 64"
proof -
  define r q where "r = ram_off a mod 64" and "q = ram_off a div 64"
  have ra: "0x80000000 \<le> unat a" "unat a < 0x88000000" using assms(1) by (auto simp: access_ok_def ram_addr_unat)
  then have a: "unat a = 0x80000000 + ram_off a" by (simp add: ram_off_def)
  have o: "ram_off a = 64 * q + r" "r < 64" by (simp_all add: r_def q_def)
  have u: "unat (a AND 63) = r" unfolding unat_and_63 a div_base r_def ..
  have rj: "r + j < 64" using assms u by (simp add: access_ok_def)
  have "q < 0x200000" using ra a o by simp
  then show lt: "ram_off a + j < 0x8000000" using o rj by simp
  show m: "(ram_off a + j) mod 64 = unat (a AND 63) + j" using o(1) rj u by (simp add: add.assoc)
  show d: "(ram_off a + j) div 64 = ram_off a div 64" using o rj by (simp add: add.assoc q_def [symmetric])
  show "blk (0x80000000 + word_of_nat (ram_off a + j)) = blk a"
    unfolding blk_eq_div unat_ram [OF lt] a div_base d ..
qed

lemma dview_blk:
  assumes "coherent D l2 m" and "blk a = blk b"
  shows "dview D l2 m a = dview D l2 m b"
proof -
  have h: "held (get_cache p m) a = held (get_cache p m) b" if "p \<in> set D" for p
    using held_blk [OF wf_cacheD(1) [OF coherentD(5) [OF assms(1) that]] assms(2)] .
  have e: "find (\<lambda>p. held (get_cache p m) a \<noteq> None) D = find (\<lambda>p. held (get_cache p m) b \<noteq> None) D"
    using h by (auto cong: find_cong)
  show ?thesis
  proof (cases "find (\<lambda>p. held (get_cache p m) b \<noteq> None) D")
    case None
    then show ?thesis unfolding dview_def e None using l2_view_blk [OF coherentD(1) [OF assms(1)] assms(2)] by simp
  next
    case (Some q)
    then have "q \<in> set D" by (metis find_Some_iff nth_mem)
    then show ?thesis unfolding dview_def e Some using h by simp
  qed
qed

lemma load_view:
  assumes "coherent (data_caches m) (the (L2_cache m)) m" and "access_ok a n"
  shows "load_bytes (ram_view m) (ram_off a) n =
    take n (drop (unat (a AND 63)) (dview (data_caches m) (the (L2_cache m)) m a))"
proof (rule nth_equalityI)
  have "length (dview (data_caches m) (the (L2_cache m)) m a) = 64"
    using length_dview [OF assms(1)] assms(2) by (simp add: access_ok_def)
  then show "length (load_bytes (ram_view m) (ram_off a) n) =
      length (take n (drop (unat (a AND 63)) (dview (data_caches m) (the (L2_cache m)) m a)))"
    using assms(2) by (auto simp: access_ok_def min_def)
  fix j assume "j < length (load_bytes (ram_view m) (ram_off a) n)"
  then have j: "j < n" by simp
  note r = access_range [OF assms(2) j]
  show "load_bytes (ram_view m) (ram_off a) n ! j =
      take n (drop (unat (a AND 63)) (dview (data_caches m) (the (L2_cache m)) m a)) ! j"
    using j r(1,3) dview_blk [OF assms(1) r(2)] length_dview [OF assms(1)] assms(2)
    by (simp add: ram_view_def access_ok_def)
qed

lemma store_view:
  assumes "access_ok a n" and co: "coherent (data_caches m) (the (L2_cache m)) m"
    and same: "data_caches m' = data_caches m" "L2_cache m' = L2_cache m"
    and w: "\<And>b. ram_addr b \<Longrightarrow> dview (data_caches m) (the (L2_cache m)) m' b =
      (if blk b = blk a then splice (dview (data_caches m) (the (L2_cache m)) m a) (unat (a AND 63)) bs
       else dview (data_caches m) (the (L2_cache m)) m b)"
    and len: "length bs = n"
  shows "ram_view m' = store_bytes (ram_view m) (ram_off a) bs"
proof
  fix x
  let ?b = "0x80000000 + word_of_nat x :: word_t" let ?V = "dview (data_caches m) (the (L2_cache m)) m"
  have a: "unat a = 0x80000000 + ram_off a" using assms(1) by (simp add: access_ok_def ram_addr_unat ram_off_def)
  have r: "unat (a AND 63) = ram_off a mod 64" unfolding unat_and_63 a div_base ..
  have n: "ram_off a mod 64 + n \<le> 64" using assms(1) r by (simp add: access_ok_def)
  have ox: "ram_off a = 64 * (ram_off a div 64) + ram_off a mod 64" "x = 64 * (x div 64) + x mod 64" by simp_all
  show "ram_view m' x = store_bytes (ram_view m) (ram_off a) bs x"
  proof (cases "x < 0x8000000")
    case False
    have "\<not> (ram_off a \<le> x \<and> x < ram_off a + n)"
      using access_range(1) [OF assms(1), of "x - ram_off a"] False by (auto simp: less_diff_conv2)
    then show ?thesis using False len by (auto simp: ram_view_def store_bytes_def)
  next
    case True
    have bl: "blk ?b = blk a \<longleftrightarrow> x div 64 = ram_off a div 64"
      unfolding blk_eq_div unat_ram [OF True] a div_base by simp
    have lv: "length (?V a) = 64" using length_dview [OF co] assms(1) by (simp add: access_ok_def)
    show ?thesis
    proof (cases "blk ?b = blk a")
      case same_blk: True
      then have in_range: "ram_off a \<le> x \<and> x < ram_off a + n \<longleftrightarrow> ram_off a mod 64 \<le> x mod 64 \<and> x mod 64 < ram_off a mod 64 + n"
        using bl ox by linarith
      have sub: "x mod 64 - ram_off a mod 64 = x - ram_off a" using same_blk bl ox by linarith
      show ?thesis
        using True same_blk w [OF ram_addr_of [OF True]] same lv n len in_range sub dview_blk [OF co same_blk]
          nth_splice [of "ram_off a mod 64" bs "?V a" "x mod 64"]
        by (simp add: ram_view_def store_bytes_def r)
    next
      case False
      have "\<not> (ram_off a \<le> x \<and> x < ram_off a + n)"
      proof
        assume h: "ram_off a \<le> x \<and> x < ram_off a + n"
        then have "x div 64 = ram_off a div 64"
          using access_range(4) [OF assms(1), of "x - ram_off a"] by auto
        with False bl show False by blast
      qed
      then show ?thesis
        using True False w [OF ram_addr_of [OF True]] same len by (auto simp: ram_view_def store_bytes_def)
    qed
  qed
qed

subsection \<open>The invariant under an access\<close>

lemma frame_fields:
  assumes "mem_frame C m m'"
  shows "data_caches m' = data_caches m" "l1i_caches m' = l1i_caches m" "L2_cache m' = L2_cache m"
    "L1D_cache m' = L1D_cache m" "L1I_cache m' = L1I_cache m" "g_num_cores m' = g_num_cores m" "cores m' = cores m"
    "g_current_hartid m' = g_current_hartid m" "hart_ok m' = hart_ok m" "dev m' = dev m" "cpu m' = cpu m"
proof -
  have e: "m' = m\<lparr>caches := caches m', pmem := pmem m'\<rparr>" using assms by (simp add: mem_frame_def)
  show "data_caches m' = data_caches m" "l1i_caches m' = l1i_caches m" "L2_cache m' = L2_cache m"
    "L1D_cache m' = L1D_cache m" "L1I_cache m' = L1I_cache m" "g_num_cores m' = g_num_cores m" "cores m' = cores m"
    "g_current_hartid m' = g_current_hartid m" "hart_ok m' = hart_ok m" "dev m' = dev m" "cpu m' = cpu m"
    by (subst e, simp add: data_caches_def l1i_caches_def hart_ok_def)+
qed

lemma mem_sys_step:
  assumes "mem_sys m" and "p \<in> set (data_caches m)" and "mem_frame {p, the (L2_cache m)} m m'"
    and "coherent (data_caches m) (the (L2_cache m)) m'"
  shows "mem_sys m'"
proof -
  note ff = frame_fields [OF assms(3)]
  have "icache_ok q m'" if "q \<in> set (l1i_caches m)" for q
  proof -
    from that assms(1) have "icache_ok q m" "q \<noteq> p" "q \<noteq> the (L2_cache m)" using assms(2) by (auto simp: mem_sys_def)
    moreover from this have "get_cache q m' = get_cache q m" using assms(3) by (simp add: mem_frame_def)
    ultimately show ?thesis using assms(3) by (simp add: icache_ok_def mem_frame_def)
  qed
  then show ?thesis using assms(1,4) ff unfolding mem_sys_def by simp
qed

text \<open>The cache the running core uses and, with two cores, the other one.\<close>

lemma hart_caches:
  assumes "hart_ok m"
  obtains p l2 where "L1D_cache m = Some p" "L2_cache m = Some l2" "p \<in> set (data_caches m)"
    "g_num_cores m > 1 \<Longrightarrow> \<exists>q. other_l1d m = Inr (Some q) \<and> set (data_caches m) = {p, q}"
    "\<not> g_num_cores m > 1 \<Longrightarrow> data_caches m = [p]"
proof -
  obtain l2 where l2: "L2_cache m = Some l2" using assms by (auto simp: hart_ok_def)
  show thesis
  proof (cases "g_num_cores m > 1")
    case False
    then obtain p where "L1D_cache m = Some p" using assms by (auto simp: hart_ok_def)
    with False l2 show thesis using that [of p l2] by (simp add: data_caches_def)
  next
    case True
    then obtain c0 c1 where c: "cores m = [c0, c1]" and h: "g_current_hartid m < 2"
      using assms by (auto simp: hart_ok_def length_Suc_conv numeral_2_eq_2)
    obtain p0 p1 where p: "core_l1d c0 = Some p0" "core_l1d c1 = Some p1" using assms True c by (auto simp: hart_ok_def)
    have "g_current_hartid m = 0 \<or> g_current_hartid m = 1" using h by auto
    then show thesis
      using that [of p0 l2] that [of p1 l2] assms True c p l2
      by (auto simp: hart_ok_def data_caches_def other_l1d_def insert_commute)
  qed
qed

definition mem_caches :: "machine \<Rightarrow> nat set" where
  "mem_caches m = insert (the (L2_cache m)) (set (data_caches m))"

lemma snoop_flush_sys:
  assumes "mem_sys m" and "ram_addr a" and "L1D_cache m = Some p"
  shows "\<exists>m'. snoop_flush a m = Inr m' \<and> mem_sys m' \<and> mem_frame (mem_caches m) m m' \<and> data_caches m' = data_caches m \<and> L2_cache m' = L2_cache m \<and>
    L1D_cache m' = Some p \<and> no_dirty_other (data_caches m) p m' a \<and> ram_view m' = ram_view m \<and> dirty (data_caches m) m' \<subseteq> dirty (data_caches m) m \<and>
    get_cache p m' = get_cache p m \<and>
    (held (get_cache (the (L2_cache m)) m') a \<noteq> None \<longleftrightarrow> held (get_cache (the (L2_cache m)) m) a \<noteq> None \<or> \<not> no_dirty_other (data_caches m) p m a)"
proof -
  have ho: "hart_ok m" and co: "coherent (data_caches m) (the (L2_cache m)) m" using assms(1) by (simp_all add: mem_sys_def)
  obtain p' l2 where h: "L1D_cache m = Some p'" "L2_cache m = Some l2" "p' \<in> set (data_caches m)"
    "g_num_cores m > 1 \<Longrightarrow> \<exists>q. other_l1d m = Inr (Some q) \<and> set (data_caches m) = {p', q}"
    "\<not> g_num_cores m > 1 \<Longrightarrow> data_caches m = [p']"
    using hart_caches [OF ho] by blast
  show ?thesis
  proof (cases "g_num_cores m > 1")
    case False
    then show ?thesis using assms h by (auto simp: snoop_flush_def no_dirty_other_def)
  next
    case True
    then obtain q where q: "other_l1d m = Inr (Some q)" "set (data_caches m) = {p', q}" using h(4) by blast
    then have qD: "q \<in> set (data_caches m)" by simp
    obtain m' where m': "cache_snoop_flush_dirty (Some q) l2 a m = Inr m'" "snoop_spec (data_caches m) q l2 m m'"
        "\<And>bs. held (get_cache q m') a \<noteq> Some (True, bs)"
        "held (get_cache l2 m') a \<noteq> None \<longleftrightarrow> held (get_cache l2 m) a \<noteq> None \<or> (\<exists>bs. held (get_cache q m) a = Some (True, bs))"
      using snoop_flush_ok [OF co qD assms(2)] h(2) by (metis option.sel)
    have "card {p', q} = 2"
      using distinct_card [OF coherentD(3) [OF co]] True ho unfolding q(2) by (simp add: data_caches_def hart_ok_def)
    then have pq: "p' \<noteq> q" by auto
    have "p' \<noteq> l2" using coherentD(2) [OF co] h(2,3) by auto
    from m'(2) have fr: "mem_frame {q, l2} m m'" and co': "coherent (data_caches m) l2 m'"
      and vw: "\<And>b. ram_addr b \<Longrightarrow> dview (data_caches m) l2 m' b = dview (data_caches m) l2 m b" and dt: "dirty (data_caches m) m' \<subseteq> dirty (data_caches m) m"
      by (auto simp: snoop_spec_def)
    have "snoop_flush a m = Inr m'" using True q(1) h(2) m'(1) by (simp add: snoop_flush_def deref_def)
    moreover have "mem_sys m'" using mem_sys_step [OF assms(1) qD] fr co' h(2) by simp
    moreover have "ram_view m' = ram_view m"
      using frame_fields [OF fr] vw ram_addr_of h(2) by (auto simp: ram_view_def fun_eq_iff)
    moreover have "mem_frame (mem_caches m) m m'" by (rule mem_frame_mono [OF fr]) (simp add: mem_caches_def h(2) qD)
    moreover have "get_cache p' m' = get_cache p' m" using fr pq \<open>p' \<noteq> l2\<close> by (simp add: mem_frame_def)
    moreover have "\<not> no_dirty_other (data_caches m) p' m a \<longleftrightarrow> (\<exists>bs. held (get_cache q m) a = Some (True, bs))"
      using pq q(2) by (auto simp: no_dirty_other_def)
    ultimately show ?thesis
      using frame_fields [OF fr] m'(3,4) q(2) h(1,2) assms(3) dt by (auto simp: no_dirty_other_def)
  qed
qed

lemma snoop_invalidate_sys:
  assumes "mem_sys m" and "ram_addr a" and "L1D_cache m = Some p"
  shows "\<exists>m'. snoop_invalidate a m = Inr m' \<and> mem_sys m' \<and> mem_frame (mem_caches m) m m' \<and> data_caches m' = data_caches m \<and> L2_cache m' = L2_cache m \<and>
    L1D_cache m' = Some p \<and> no_other (data_caches m) p m' a \<and> ram_view m' = ram_view m \<and> dirty (data_caches m) m' \<subseteq> dirty (data_caches m) m"
proof -
  have ho: "hart_ok m" and co: "coherent (data_caches m) (the (L2_cache m)) m" using assms(1) by (simp_all add: mem_sys_def)
  obtain p' l2 where h: "L1D_cache m = Some p'" "L2_cache m = Some l2" "p' \<in> set (data_caches m)"
    "g_num_cores m > 1 \<Longrightarrow> \<exists>q. other_l1d m = Inr (Some q) \<and> set (data_caches m) = {p', q}"
    "\<not> g_num_cores m > 1 \<Longrightarrow> data_caches m = [p']"
    using hart_caches [OF ho] by blast
  show ?thesis
  proof (cases "g_num_cores m > 1")
    case False
    then show ?thesis using assms h by (auto simp: snoop_invalidate_def no_other_def)
  next
    case True
    then obtain q where q: "other_l1d m = Inr (Some q)" "set (data_caches m) = {p', q}" using h(4) by blast
    then have qD: "q \<in> set (data_caches m)" by simp
    obtain m' where m': "cache_snoop_invalidate (Some q) a m = Inr m'" "snoop_spec (data_caches m) q l2 m m'"
        "held (get_cache q m') a = None"
      using snoop_invalidate_ok [OF co qD assms(2)] h(2) by auto
    then have fr: "mem_frame {q, l2} m m'" and co': "coherent (data_caches m) l2 m'"
      and vw: "\<And>b. ram_addr b \<Longrightarrow> dview (data_caches m) l2 m' b = dview (data_caches m) l2 m b" and dt: "dirty (data_caches m) m' \<subseteq> dirty (data_caches m) m"
      by (auto simp: snoop_spec_def)
    have "snoop_invalidate a m = Inr m'" using True q(1) m'(1) by (simp add: snoop_invalidate_def)
    moreover have "mem_sys m'" using mem_sys_step [OF assms(1) qD] fr co' h(2) by simp
    moreover have "ram_view m' = ram_view m"
      using frame_fields [OF fr] vw ram_addr_of h(2) by (auto simp: ram_view_def fun_eq_iff)
    moreover have "mem_frame (mem_caches m) m m'" by (rule mem_frame_mono [OF fr]) (simp add: mem_caches_def h(2) qD)
    ultimately show ?thesis
      using frame_fields [OF fr] m'(3) q(2) h(1) assms(3) dt by (auto simp: no_other_def)
  qed
qed

section \<open>Memory behaves as an array of bytes\<close>

lemma vaddr_read_sys:
  assumes "mem_sys m" and "access_ok a n"
  shows "\<exists>m'. vaddr_read a n m = Inr (word_of_bytes (load_bytes (ram_view m) (ram_off a) n), m') \<and>
    mem_sys m' \<and> mem_frame (mem_caches m) m m' \<and> ram_view m' = ram_view m \<and> dirty (data_caches m) m' \<subseteq> dirty (data_caches m) m"
proof -
  have ra: "ram_addr a" "in_ram_range a" using assms(2) by (simp_all add: access_ok_def ram_addr_def in_ram_range_def)
  obtain p l2 where h: "L1D_cache m = Some p" "L2_cache m = Some l2" "p \<in> set (data_caches m)"
    using hart_caches [of m] assms(1) by (metis mem_sys_def)
  obtain m1 where m1: "snoop_flush a m = Inr m1" "mem_sys m1" "data_caches m1 = data_caches m" "L2_cache m1 = Some l2"
      "L1D_cache m1 = Some p" "no_dirty_other (data_caches m) p m1 a" "ram_view m1 = ram_view m" "mem_frame (mem_caches m) m m1"
      "dirty (data_caches m) m1 \<subseteq> dirty (data_caches m) m"
    using snoop_flush_sys [OF assms(1) ra(1) h(1)] h(2) by auto
  have co: "coherent (data_caches m1) l2 m1" using m1(2,4) by (simp add: mem_sys_def)
  obtain m2 where m2: "cache_read p l2 a n m1 = Inr (word_of_bytes (take n (drop (unat (a AND 63)) (dview (data_caches m1) l2 m1 a))), m2)"
      "coherent (data_caches m1) l2 m2" "mem_frame {p, l2} m1 m2"
      "\<And>b. ram_addr b \<Longrightarrow> dview (data_caches m1) l2 m2 b = dview (data_caches m1) l2 m1 b"
      "dirty (data_caches m1) m2 \<subseteq> dirty (data_caches m1) m1"
    using cache_read_ok [OF co _ assms(2), of p] h(3) m1(3,6) by auto
  have "mem_sys m2" using mem_sys_step [OF m1(2), of p m2] m1(3,4) h(3) m2(2,3) by simp
  moreover have "ram_view m2 = ram_view m1"
    using frame_fields [OF m2(3)] m2(4) ram_addr_of m1(4) by (auto simp: ram_view_def fun_eq_iff)
  moreover have "vaddr_read a n m = Inr (word_of_bytes (load_bytes (ram_view m1) (ram_off a) n), m2)"
    using ra(2) m1(1,4,5) m2(1) load_view [of m1 a n] co assms(2) by (simp add: vaddr_read_def deref_def)
  moreover have "mem_frame (mem_caches m) m m2"
    using mem_frame_trans [OF m1(8) mem_frame_mono [OF m2(3)]] h(2,3) by (simp add: mem_caches_def)
  moreover have "dirty (data_caches m) m2 \<subseteq> dirty (data_caches m) m" using m1(9) m2(5) unfolding m1(3) by (rule subset_trans [rotated])
  ultimately show ?thesis using m1(7) by simp
qed

lemma vaddr_write_sys:
  assumes "mem_sys m" and "access_ok a n"
  shows "\<exists>m'. vaddr_write a n v m = Inr m' \<and> mem_sys m' \<and> mem_frame (mem_caches m) m m' \<and>
    ram_view m' = store_bytes (ram_view m) (ram_off a) (bytes_of_word n v) \<and>
    dirty (data_caches m) m' \<subseteq> insert (blk a) (dirty (data_caches m) m)"
proof -
  have ra: "ram_addr a" "in_ram_range a" using assms(2) by (simp_all add: access_ok_def ram_addr_def in_ram_range_def)
  obtain p l2 where h: "L1D_cache m = Some p" "L2_cache m = Some l2" "p \<in> set (data_caches m)"
    using hart_caches [of m] assms(1) by (metis mem_sys_def)
  obtain m1 where m1: "snoop_invalidate a m = Inr m1" "mem_sys m1" "data_caches m1 = data_caches m" "L2_cache m1 = Some l2"
      "L1D_cache m1 = Some p" "no_other (data_caches m) p m1 a" "ram_view m1 = ram_view m" "mem_frame (mem_caches m) m m1"
      "dirty (data_caches m) m1 \<subseteq> dirty (data_caches m) m"
    using snoop_invalidate_sys [OF assms(1) ra(1) h(1)] h(2) by auto
  have co: "coherent (data_caches m1) l2 m1" using m1(2,4) by (simp add: mem_sys_def)
  obtain m2 where m2: "cache_write p l2 a n v m1 = Inr m2" "coherent (data_caches m1) l2 m2" "mem_frame {p, l2} m1 m2"
      "\<And>b. ram_addr b \<Longrightarrow> dview (data_caches m1) l2 m2 b =
        (if blk b = blk a then splice (dview (data_caches m1) l2 m1 a) (unat (a AND 63)) (bytes_of_word n v)
         else dview (data_caches m1) l2 m1 b)"
      "dirty (data_caches m1) m2 \<subseteq> insert (blk a) (dirty (data_caches m1) m1)"
    using cache_write_ok [OF co _ assms(2), of p v] h(3) m1(3,6) by auto
  have "mem_sys m2" using mem_sys_step [OF m1(2), of p m2] m1(3,4) h(3) m2(2,3) by simp
  moreover have "ram_view m2 = store_bytes (ram_view m1) (ram_off a) (bytes_of_word n v)"
    using store_view [OF assms(2), of m1 m2 "bytes_of_word n v"] frame_fields [OF m2(3)] m2(4) m1(4) co by simp
  moreover have "vaddr_write a n v m = Inr m2"
    using ra(2) m1(1,4,5) m2(1) by (simp add: vaddr_write_def deref_def)
  moreover have "mem_frame (mem_caches m) m m2"
    using mem_frame_trans [OF m1(8) mem_frame_mono [OF m2(3)]] h(2,3) by (simp add: mem_caches_def)
  moreover have "dirty (data_caches m) m2 \<subseteq> insert (blk a) (dirty (data_caches m) m)" using m1(9) m2(5) unfolding m1(3) by blast
  ultimately show ?thesis using m1(7) by simp
qed

interpretation core_mem: flat_memory mem_sys ram_view ram_off access_ok vaddr_read vaddr_write
  by unfold_locales (use vaddr_read_sys vaddr_write_sys in blast)+

subsection \<open>Two cores\<close>

text \<open>How \<^verbatim>\<open>core_cycle\<close> installs the running core, and an access made by hart \<open>h\<close>.\<close>

definition select_hart :: "nat \<Rightarrow> machine \<Rightarrow> machine" where
  "select_hart h m = m\<lparr>g_current_hartid := h, L1I_cache := core_l1i (cores m ! h), L1D_cache := core_l1d (cores m ! h)\<rparr>"

definition smp_read :: "nat \<times> vaddr_t \<Rightarrow> nat \<Rightarrow> machine \<Rightarrow> (word_t \<times> machine) res" where
  "smp_read = (\<lambda>(h, a) n m. vaddr_read a n (select_hart h m))"

definition smp_write :: "nat \<times> vaddr_t \<Rightarrow> nat \<Rightarrow> word_t \<Rightarrow> machine \<Rightarrow> machine res" where
  "smp_write = (\<lambda>(h, a) n v m. vaddr_write a n v (select_hart h m))"

definition smp_ok :: "machine \<Rightarrow> bool" where
  "smp_ok m \<longleftrightarrow> g_num_cores m > 1 \<and> mem_sys m"

definition smp_access :: "nat \<times> vaddr_t \<Rightarrow> nat \<Rightarrow> bool" where
  "smp_access = (\<lambda>(h, a) n. h < 2 \<and> access_ok a n)"

text \<open>What the memory system reads of the machine: the caches, the array and which cache belongs to whom.\<close>

definition same_caches :: "machine \<Rightarrow> machine \<Rightarrow> bool" where
  "same_caches m m' \<longleftrightarrow> caches m' = caches m \<and> pmem m' = pmem m \<and> L2_cache m' = L2_cache m \<and>
     data_caches m' = data_caches m \<and> l1i_caches m' = l1i_caches m"

lemma same_caches_sys:
  assumes "same_caches m m'"
  shows "mem_sys m' \<longleftrightarrow> hart_ok m' \<and> coherent (data_caches m) (the (L2_cache m)) m \<and>
      (\<forall>p\<in>set (l1i_caches m). icache_ok p m \<and> p \<notin> set (data_caches m) \<and> p \<noteq> the (L2_cache m))"
    and "ram_view m' = ram_view m" and "pview p l2 m' = pview p l2 m" and "l2_view l2 m' = l2_view l2 m"
proof -
  have 1: "data_caches m' = data_caches m" "l1i_caches m' = l1i_caches m" "L2_cache m' = L2_cache m"
      "get_cache p m' = get_cache p m" "mem_block m' a = mem_block m a" "caches m' = caches m" for p a
    using assms by (simp_all add: same_caches_def get_cache_def mem_block_def)
  show 2: "l2_view l2 m' = l2_view l2 m" for l2
    by (auto simp: l2_view_def 1 fun_eq_iff split: option.splits)
  have "l2_ok l2 m' = l2_ok l2 m" for l2 by (simp add: l2_ok_def 1 2)
  then have 3: "coherent D l2 m' = coherent D l2 m" "icache_ok p m' = icache_ok p m" "dview D l2 m' = dview D l2 m" for D l2 p
    by (simp_all add: coherent_def icache_ok_def dview_def fun_eq_iff 1 2 split: option.splits)
  show "mem_sys m' \<longleftrightarrow> hart_ok m' \<and> coherent (data_caches m) (the (L2_cache m)) m \<and>
      (\<forall>p\<in>set (l1i_caches m). icache_ok p m \<and> p \<notin> set (data_caches m) \<and> p \<noteq> the (L2_cache m))"
    by (simp add: mem_sys_def 1 3)
  show "ram_view m' = ram_view m" "pview p l2 m' = pview p l2 m"
    by (simp_all add: ram_view_def pview_def fun_eq_iff 1 2 3 split: option.splits)
qed

lemma select_hart_sys:
  assumes "smp_ok m" and "h < 2"
  shows "mem_sys (select_hart h m)" and "ram_view (select_hart h m) = ram_view m"
    and "g_num_cores (select_hart h m) = g_num_cores m"
proof -
  let ?s = "select_hart h m"
  have "same_caches m ?s"
    using assms(1) by (simp add: same_caches_def select_hart_def data_caches_def l1i_caches_def smp_ok_def)
  note s = same_caches_sys [OF this]
  have "hart_ok ?s" using assms by (simp add: hart_ok_def smp_ok_def mem_sys_def select_hart_def)
  then show "mem_sys ?s" using assms(1) s(1) by (simp add: mem_sys_def smp_ok_def)
  show "ram_view ?s = ram_view m" by (rule s)
  show "g_num_cores ?s = g_num_cores m" by (simp add: select_hart_def)
qed

interpretation smp: flat_memory smp_ok ram_view "\<lambda>(h, a). ram_off a" smp_access smp_read smp_write
proof (unfold_locales, goal_cases)
  case (1 s a n)
  obtain h x where a: "a = (h, x)" by (cases a)
  with 1 have h: "h < 2" "access_ok x n" by (simp_all add: smp_access_def)
  note sel = select_hart_sys [OF 1(1) h(1)]
  then show ?case
    using vaddr_read_sys [OF sel(1) h(2)] frame_fields(6) 1(1) a by (fastforce simp: smp_read_def smp_ok_def)
next
  case (2 s a n v)
  obtain h x where a: "a = (h, x)" by (cases a)
  with 2 have h: "h < 2" "access_ok x n" by (simp_all add: smp_access_def)
  note sel = select_hart_sys [OF 2(1) h(1)]
  then show ?case
    using vaddr_write_sys [OF sel(1) h(2), of v] frame_fields(6) 2(1) a by (fastforce simp: smp_write_def smp_ok_def)
qed

subsection \<open>Fresh caches\<close>

lemma wf_init_cache:
  assumes "s \<le> 32" and "0 < w"
  shows "wf_cache (init_cache s w nm)" and "held (init_cache s w nm) a = None"
proof -
  let ?c = "init_cache s w nm"
  have l: "get_line ?c i k = zero_line" if "i < 2 ^ s" "k < w" for i k
    using that by (simp add: get_line_def init_cache_def)
  have ok: "set_ok ?c i (c_sets ?c ! i)" if "i < 2 ^ s" for i
    using that by (simp add: set_ok_def init_cache_def line_ok_def zero_line_def tags_distinct_def list_all_length)
  then show wf: "wf_cache ?c" using assms by (simp add: wf_cache_def) (simp add: init_cache_def)
  have "c_w ?c = w" "c_s ?c = s" by (simp_all add: init_cache_def)
  then show "held ?c a = None"
    using l wf_cacheD(6) [OF wf, of a] by (simp add: held_None_iff [OF wf] matches_def zero_line_def)
qed

lemma coherent_fresh:
  assumes "distinct (l2 # D)" and "\<And>p. p \<in> set (l2 # D) \<Longrightarrow> p < length (caches m) \<and> wf_cache (get_cache p m) \<and> (\<forall>a. held (get_cache p m) a = None)"
  shows "coherent D l2 m"
  using assms by (auto simp: coherent_def l2_ok_def)

text \<open>The machine with the caches \<^verbatim>\<open>init_cache_system\<close> and two calls of \<^verbatim>\<open>core_create\<close> allocate.\<close>

definition dual_machine :: machine where
  "dual_machine =
     (let m = init_cache_system zero_machine;
          fresh = init_cache 6 8
      in m\<lparr>caches := caches m @ [fresh ''L1I'', fresh ''L1D'', fresh ''L1I'', fresh ''L1D''],
           cores := [zero_core\<lparr>core_id := 0, core_l1i := Some 3, core_l1d := Some 4\<rparr>,
                     zero_core\<lparr>core_id := 1, core_l1i := Some 5, core_l1d := Some 6\<rparr>],
           g_num_cores := 2, L1I_cache := Some 3, L1D_cache := Some 4\<rparr>)"

lemma dual_caches:
  "p < 7 \<Longrightarrow> \<exists>s w nm. get_cache p dual_machine = init_cache s w nm \<and> s \<le> 32 \<and> 0 < w"
  by (auto simp: dual_machine_def init_cache_system_def zero_machine_def get_cache_def Let_def less_Suc_eq numeral_eq_Suc
      nth_Cons split: nat.splits)

lemma dual_machine_ok: "smp_ok dual_machine"
proof -
  have c: "p < length (caches dual_machine) \<and> wf_cache (get_cache p dual_machine) \<and> (\<forall>a. held (get_cache p dual_machine) a = None)"
    if p: "p < 7" for p
  proof -
    obtain s w nm where "get_cache p dual_machine = init_cache s w nm" "s \<le> 32" "0 < w" using dual_caches [OF p] by blast
    with p show ?thesis using wf_init_cache by (simp add: dual_machine_def init_cache_system_def zero_machine_def Let_def)
  qed
  have "data_caches dual_machine = [4, 6]" "l1i_caches dual_machine = [3, 5]" "L2_cache dual_machine = Some 2"
      "g_num_cores dual_machine > 1" "hart_ok dual_machine"
    by (simp_all add: dual_machine_def data_caches_def l1i_caches_def init_cache_system_def zero_machine_def Let_def hart_ok_def)
  moreover have "coherent [4, 6] 2 dual_machine" by (rule coherent_fresh) (use c in auto)
  moreover have "icache_ok 3 dual_machine" "icache_ok 5 dual_machine" using c [of 3] c [of 5] by (simp_all add: icache_ok_def)
  ultimately show ?thesis by (simp add: smp_ok_def mem_sys_def)
qed

section \<open>Fetches and reported levels\<close>

lemma hart_icache:
  assumes "hart_ok m"
  obtains p where "L1I_cache m = Some p" "p \<in> set (l1i_caches m)"
proof (cases "g_num_cores m > 1")
  case True
  then have "cores m ! g_current_hartid m \<in> set (cores m)" "L1I_cache m = core_l1i (cores m ! g_current_hartid m)"
    using assms by (auto simp: hart_ok_def)
  moreover from this have "L1I_cache m \<noteq> None" using assms True unfolding hart_ok_def by metis
  then obtain p where "L1I_cache m = Some p" by blast
  moreover have "the (core_l1i (cores m ! g_current_hartid m)) \<in> set (l1i_caches m)"
    using True calculation(1) by (simp add: l1i_caches_def)
  ultimately show thesis using that [of p] by (metis option.sel)
next
  case False
  then show thesis using that assms by (auto simp: hart_ok_def l1i_caches_def)
qed

lemma vaddr_ifetch_sys:
  assumes "mem_sys m" and "access_ok a n"
  shows "\<exists>m'. vaddr_ifetch a n m =
      Inr (word_of_bytes (take n (drop (unat (a AND 63)) (pview (the (L1I_cache m)) (the (L2_cache m)) m a))), m') \<and>
    mem_sys m' \<and> mem_frame UNIV m m' \<and> ram_view m' = ram_view m \<and>
    (\<forall>q. q \<notin> {the (L1I_cache m), the (L2_cache m)} \<longrightarrow> get_cache q m' = get_cache q m) \<and>
    (\<forall>b x. held (get_cache (the (L1I_cache m)) m') b = Some x \<longrightarrow>
      held (get_cache (the (L1I_cache m)) m) b = Some x \<or> blk b = blk a \<and> snd x = l2_view (the (L2_cache m)) m a)"
proof -
  have ra: "ram_addr a" "in_ram_range a" using assms(2) by (simp_all add: access_ok_def ram_addr_def in_ram_range_def)
  obtain p where p: "L1I_cache m = Some p" "p \<in> set (l1i_caches m)" using hart_icache assms(1) by (auto simp: mem_sys_def)
  obtain l2 where l2: "L2_cache m = Some l2" using assms(1) by (auto simp: mem_sys_def hart_ok_def)
  have co: "coherent (data_caches m) l2 m" and ic: "icache_ok p m" "p \<notin> set (data_caches m)" "p \<noteq> l2"
    using assms(1) p(2) l2 by (auto simp: mem_sys_def)
  obtain m' where m': "cache_read p l2 a n m = Inr (word_of_bytes (take n (drop (unat (a AND 63)) (pview p l2 m a))), m')"
      "coherent (data_caches m) l2 m'" "icache_ok p m'" "mem_frame {p, l2} m m'"
      "\<And>b. ram_addr b \<Longrightarrow> dview (data_caches m) l2 m' b = dview (data_caches m) l2 m b"
      "\<And>b x. held (get_cache p m') b = Some x \<Longrightarrow> held (get_cache p m) b = Some x \<or> blk b = blk a \<and> snd x = l2_view l2 m a"
    using cache_read_icache [OF co ic assms(2)] by blast
  note ff = frame_fields [OF m'(4)]
  have "icache_ok q m'" if "q \<in> set (l1i_caches m)" for q
  proof (cases "q = p")
    case False
    from that assms(1) have "icache_ok q m" "q \<noteq> l2" using l2 by (auto simp: mem_sys_def)
    with False m'(4) show ?thesis by (simp add: icache_ok_def mem_frame_def)
  qed (use m'(3) in simp)
  then have "mem_sys m'" using assms(1) m'(2) ff l2 by (simp add: mem_sys_def)
  moreover have "ram_view m' = ram_view m"
    using ff m'(5) ram_addr_of l2 by (auto simp: ram_view_def fun_eq_iff)
  moreover have "mem_frame UNIV m m'" by (rule mem_frame_mono [OF m'(4)]) simp
  moreover have "get_cache q m' = get_cache q m" if "q \<notin> {p, l2}" for q using m'(4) that by (simp add: mem_frame_def)
  moreover have "vaddr_ifetch a n m = Inr (word_of_bytes (take n (drop (unat (a AND 63)) (pview p l2 m a))), m')"
    using ra(2) p(1) l2 m'(1) by (simp add: vaddr_ifetch_def deref_def)
  ultimately show ?thesis using m'(6) unfolding p(1) l2 option.sel by blast
qed

lemma coherent_l2_same_held:
  assumes "coherent D l2 m" and "wf_cache c" and "same_held (get_cache l2 m) c"
  shows "coherent D l2 (put_cache l2 c m)" and "dview D l2 (put_cache l2 c m) a = dview D l2 m a"
    and "p \<in> set D \<Longrightarrow> get_cache p (put_cache l2 c m) = get_cache p m"
proof -
  note cd = coherentD [OF assms(1)]
  have len: "l2 < length (caches m)" using cd(1) by (simp add: l2_ok_def)
  have g: "p \<in> set D \<Longrightarrow> get_cache p (put_cache l2 c m) = get_cache p m" for p
    using cd(2) len by (auto simp: get_put_cache)
  then show "p \<in> set D \<Longrightarrow> get_cache p (put_cache l2 c m) = get_cache p m" .
  note l2 = l2_same_held [OF cd(1) assms(2,3)]
  show "coherent D l2 (put_cache l2 c m)"
    using assms(1) l2 g unfolding coherent_def by simp
  have e: "find (\<lambda>p. held (get_cache p (put_cache l2 c m)) a \<noteq> None) D = find (\<lambda>p. held (get_cache p m) a \<noteq> None) D"
    using g by (auto cong: find_cong)
  show "dview D l2 (put_cache l2 c m) a = dview D l2 m a"
  proof (cases "find (\<lambda>p. held (get_cache p m) a \<noteq> None) D")
    case None
    then show ?thesis unfolding dview_def e None using l2(2) by simp
  next
    case (Some q)
    then have "q \<in> set D" by (metis find_Some_iff nth_mem)
    then show ?thesis unfolding dview_def e Some using g by simp
  qed
qed

text \<open>Which level has a block.\<close>

definition level_of :: "nat \<Rightarrow> nat \<Rightarrow> machine \<Rightarrow> paddr_t \<Rightarrow> nat" where
  "level_of p l2 m a =
     (if held (get_cache p m) a \<noteq> None then 0 else if held (get_cache l2 m) a \<noteq> None then 1 else 2)"

lemma cache_read_level_ok:
  assumes "coherent D l2 m" and "p \<in> set D" and "access_ok a n" and "no_dirty_other D p m a"
  shows "\<exists>m'. cache_read_level p l2 a n m =
      Inr (level_of p l2 m a, word_of_bytes (take n (drop (unat (a AND 63)) (dview D l2 m a))), m') \<and>
    coherent D l2 m' \<and> mem_frame {p, l2} m m' \<and> (\<forall>b. ram_addr b \<longrightarrow> dview D l2 m' b = dview D l2 m b) \<and> dirty D m' \<subseteq> dirty D m"
proof -
  have ra: "ram_addr a" using assms(3) by (simp add: access_ok_def)
  note cd = coherentD [OF assms(1)]
  have pl2: "p \<noteq> l2" using cd(2) assms(2) by blast
  obtain c hit way where f: "find_line (get_cache p m) a = (c, hit, way)" by (metis surj_pair)
  note fl = find_line_ok [OF cd(5) [OF assms(2)] f]
  then have wf: "wf_cache c" and sh: "same_held (get_cache p m) c" by blast+
  let ?m1 = "put_cache p c m"
  have co: "coherent D l2 ?m1" and vw: "\<And>b. ram_addr b \<Longrightarrow> dview D l2 ?m1 b = dview D l2 m b"
    using coherent_same_held [OF assms(1,2) wf sh] by blast+
  have g: "get_cache q ?m1 = (if q = p then c else get_cache q m)" for q
    using cd(4) [OF assms(2)] by (simp add: get_put_cache)
  have w: "way < c_w c" using fl sh by (simp add: same_held_def)
  have hq: "held (get_cache q ?m1) = held (get_cache q m)" for q using sh by (auto simp: g same_held_def fun_eq_iff)
  have d1: "dirty D ?m1 = dirty D m" by (simp add: dirty_def hq)
  have fr1: "mem_frame {p, l2} m ?m1" by (rule mem_frame_mono [OF put_cache_frame(1)]) simp
  show ?thesis
  proof (cases hit)
    case True
    then have "matches (get_cache p ?m1) a (get_line (get_cache p ?m1) (set_index (get_cache p ?m1) a) way)"
      using fl g by (simp add: same_held_index [OF sh])
    from line_specI [OF co fr1 vw _ assms(2) ra this] w g True f fl assms(3) co fr1 vw d1 show ?thesis
      by (auto simp: cache_read_level_def line_spec_def line_bytes_def access_ok_def level_of_def)
  next
    case False
    then have no: "held (get_cache p m) a = None" using fl by blast
    obtain c2 h2 w2 where f2: "find_line_quiet (get_cache l2 ?m1) a = (c2, h2, w2)" by (metis surj_pair)
    have wf2: "wf_cache (get_cache l2 ?m1)" using coherentD(1) [OF co] by (simp add: l2_ok_def)
    note q2 = find_line_quiet_ok [OF wf2 f2]
    have h2: "h2 \<longleftrightarrow> held (get_cache l2 m) a \<noteq> None" using q2 g pl2 by simp
    let ?m2 = "put_cache l2 c2 ?m1"
    have co2: "coherent D l2 ?m2" and vw2: "\<And>b. dview D l2 ?m2 b = dview D l2 ?m1 b"
      and g2: "\<And>r. r \<in> set D \<Longrightarrow> get_cache r ?m2 = get_cache r ?m1"
      using coherent_l2_same_held [OF co, of c2] q2 by blast+
    have nd: "held (get_cache r ?m2) a \<noteq> Some (True, bs)" if "r \<in> set D" for r bs
      using that assms(4) no sh g g2 [OF that] unfolding no_dirty_other_def by (auto simp: same_held_def)
    have no2: "held (get_cache p ?m2) a = None" "way < c_w (get_cache p ?m2)"
      using no sh g g2 [OF assms(2)] w by (simp_all add: same_held_def)
    obtain m3 where m3: "fetch_block p l2 a way ?m2 = Inr m3" "coherent D l2 m3" "mem_frame {p, l2} ?m2 m3"
        "\<And>b. ram_addr b \<Longrightarrow> dview D l2 m3 b = dview D l2 ?m2 b" "c_w (get_cache p m3) = c_w (get_cache p ?m2)"
        "matches (get_cache p m3) a (get_line (get_cache p m3) (set_index (get_cache p m3) a) way)" "dirty D m3 \<subseteq> dirty D ?m2"
      using fetch_coherent [OF co2 assms(2) ra no2 nd] by blast
    have fr2: "mem_frame {p, l2} m m3"
      by (rule mem_frame_trans [OF fr1 mem_frame_trans [OF mem_frame_mono [OF put_cache_frame(1)] m3(3)]]) simp
    have vw3: "dview D l2 m3 b = dview D l2 m b" if "ram_addr b" for b using m3(4) [OF that] vw2 vw [OF that] by simp
    have "dirty D ?m2 = dirty D ?m1" unfolding dirty_def using g2 by (intro Collect_cong ex_cong1 conj_cong refl) (simp only:)
    then have d3: "dirty D m3 \<subseteq> dirty D m" using m3(7) d1 by simp
    from line_specI [OF m3(2) fr2 vw3 _ assms(2) ra m3(6) d3] m3(5) no2(2)
    have "line_spec D p l2 a m way m3" by simp
    then have "cache_read_level p l2 a n m =
        Inr (level_of p l2 m a, word_of_bytes (take n (drop (unat (a AND 63)) (dview D l2 m a))), m3)"
      using f f2 False m3(1) h2 no assms(3)
      by (simp add: cache_read_level_def line_spec_def line_bytes_def access_ok_def level_of_def)
    with m3(2) fr2 vw3 d3 show ?thesis by blast
  qed
qed

text \<open>
  The level that serves a load: the core's own data cache, the second level, to which the snoop first writes a dirty copy of the other
  core, or memory.
\<close>

definition served_level :: "machine \<Rightarrow> paddr_t \<Rightarrow> nat" where
  "served_level m a =
     (if held (get_cache (the (L1D_cache m)) m) a \<noteq> None then 0
      else if held (get_cache (the (L2_cache m)) m) a \<noteq> None \<or> \<not> no_dirty_other (data_caches m) (the (L1D_cache m)) m a then 1 else 2)"

lemma served_level_le: "served_level m a \<le> 2"
  by (simp add: served_level_def)

lemma vaddr_read_level_sys:
  assumes "mem_sys m" and "access_ok a n"
  shows "\<exists>m'. vaddr_read_level a n m = Inr (served_level m a, word_of_bytes (load_bytes (ram_view m) (ram_off a) n), m') \<and>
    mem_sys m' \<and> mem_frame (mem_caches m) m m' \<and> ram_view m' = ram_view m \<and> dirty (data_caches m) m' \<subseteq> dirty (data_caches m) m"
proof -
  have ra: "ram_addr a" "in_ram_range a" using assms(2) by (simp_all add: access_ok_def ram_addr_def in_ram_range_def)
  obtain p l2 where h: "L1D_cache m = Some p" "L2_cache m = Some l2" "p \<in> set (data_caches m)"
    using hart_caches [of m] assms(1) by (metis mem_sys_def)
  obtain m1 where m1: "snoop_flush a m = Inr m1" "mem_sys m1" "data_caches m1 = data_caches m" "L2_cache m1 = Some l2"
      "L1D_cache m1 = Some p" "no_dirty_other (data_caches m) p m1 a" "ram_view m1 = ram_view m" "mem_frame (mem_caches m) m m1"
      "dirty (data_caches m) m1 \<subseteq> dirty (data_caches m) m" "get_cache p m1 = get_cache p m"
      "held (get_cache l2 m1) a \<noteq> None \<longleftrightarrow> held (get_cache l2 m) a \<noteq> None \<or> \<not> no_dirty_other (data_caches m) p m a"
    using snoop_flush_sys [OF assms(1) ra(1) h(1)] h(2) by auto
  have co: "coherent (data_caches m1) l2 m1" using m1(2,4) by (simp add: mem_sys_def)
  obtain m2 where m2: "cache_read_level p l2 a n m1 =
        Inr (level_of p l2 m1 a, word_of_bytes (take n (drop (unat (a AND 63)) (dview (data_caches m1) l2 m1 a))), m2)"
      "coherent (data_caches m1) l2 m2" "mem_frame {p, l2} m1 m2"
      "\<And>b. ram_addr b \<Longrightarrow> dview (data_caches m1) l2 m2 b = dview (data_caches m1) l2 m1 b"
      "dirty (data_caches m1) m2 \<subseteq> dirty (data_caches m1) m1"
    using cache_read_level_ok [OF co _ assms(2), of p] h(3) m1(3,6) by auto
  have "mem_sys m2" using mem_sys_step [OF m1(2), of p m2] m1(3,4) h(3) m2(2,3) by simp
  moreover have "ram_view m2 = ram_view m1"
    using frame_fields [OF m2(3)] m2(4) ram_addr_of m1(4) by (auto simp: ram_view_def fun_eq_iff)
  moreover have "vaddr_read_level a n m = Inr (level_of p l2 m1 a, word_of_bytes (load_bytes (ram_view m1) (ram_off a) n), m2)"
    using ra(2) m1(1,4,5) m2(1) load_view [of m1 a n] co assms(2) by (simp add: vaddr_read_level_def deref_def)
  moreover have "mem_frame (mem_caches m) m m2"
    using mem_frame_trans [OF m1(8) mem_frame_mono [OF m2(3)]] h(2,3) by (simp add: mem_caches_def)
  moreover have "dirty (data_caches m) m2 \<subseteq> dirty (data_caches m) m" using m1(9) m2(5) unfolding m1(3) by blast
  moreover have "level_of p l2 m1 a = served_level m a" using m1(10,11) h(1,2) by (simp add: level_of_def served_level_def)
  ultimately show ?thesis using m1(7) by auto
qed

section \<open>Properties\<close>

text \<open>
  C19. Two cores with private write-back data caches over a shared second level see one memory: any interleaving of
  their reads and writes inside RAM succeeds, and every read returns what the same sequence of accesses returns on a plain array
  of bytes, whichever core made the last write.
\<close>

theorem smp_trace_refines:
  assumes "smp_ok m" and "list_all (op_ok smp_access) ops"
  shows "\<exists>m'. impl_run smp_read smp_write ops m = Inr (fst (flat_run (\<lambda>(h, a). ram_off a) ops (ram_view m)), m') \<and>
    smp_ok m' \<and> ram_view m' = snd (flat_run (\<lambda>(h, a). ram_off a) ops (ram_view m))"
  by (rule smp.trace_refines [OF assms])

theorem smp_trace_refines_witness:
  "\<exists>m'. impl_run smp_read smp_write
      [Wr (0, 0x80001000) 8 0x1122334455667788, Rd (1, 0x80001004) 4, Wr (1, 0x80001000) 1 0xff, Rd (0, 0x80001000) 4] dual_machine
      = Inr ([0x11223344, 0x556677ff], m')"
proof -
  let ?ops = "[Wr (0, 0x80001000) 8 0x1122334455667788, Rd (1, 0x80001004) 4, Wr (1, 0x80001000) 1 0xff, Rd (0, 0x80001000) 4]"
  have ok: "list_all (op_ok smp_access) ?ops"
    by (simp add: smp_access_def access_ok_def ram_addr_def)
  have "fst (flat_run (\<lambda>(h, a). ram_off a) ?ops mem) = [0x11223344, 0x556677ff]" for mem
    by (simp add: ram_off_def, code_simp)
  with smp_trace_refines [OF dual_machine_ok ok] show ?thesis by auto
qed

text \<open>
  C20. The read used for timing returns the value of the plain memory together with the level that served it, with one core and
  with two: 0 for the core's own data cache; 1 for the second level, also when it gets the block from the other core's data cache,
  whose dirty copy is written back first; 2 for memory. Afterwards the memory has the same value.
\<close>

theorem vaddr_read_level_correct:
  assumes "mem_sys m" and "access_ok a n"
  shows "\<exists>m'. vaddr_read_level a n m = Inr (served_level m a, word_of_bytes (load_bytes (ram_view m) (ram_off a) n), m') \<and>
    mem_sys m' \<and> ram_view m' = ram_view m"
  using vaddr_read_level_sys [OF assms] by blast

lemma init_cache_system_sys: "mem_sys (init_cache_system zero_machine)"
proof -
  let ?m = "init_cache_system zero_machine"
  have c: "p < length (caches ?m) \<and> wf_cache (get_cache p ?m) \<and> (\<forall>a. held (get_cache p ?m) a = None)" if "p \<in> {0, 1, 2}" for p
    using that wf_init_cache by (auto simp: init_cache_system_def zero_machine_def get_cache_def)
  have "data_caches ?m = [1]" "l1i_caches ?m = [0]" "L2_cache ?m = Some 2" "hart_ok ?m"
    by (simp_all add: data_caches_def l1i_caches_def init_cache_system_def zero_machine_def hart_ok_def)
  moreover have "coherent [1] 2 ?m" by (rule coherent_fresh) (use c in auto)
  moreover have "icache_ok 0 ?m" using c [of 0] by (simp add: icache_ok_def)
  ultimately show ?thesis by (simp add: mem_sys_def)
qed

theorem vaddr_read_level_correct_witness:
  "\<exists>v m'. vaddr_read_level 0x80000040 8 (init_cache_system zero_machine) = Inr (2, v, m') \<and> mem_sys m'"
proof -
  let ?m = "init_cache_system zero_machine"
  have "\<forall>a. held (get_cache p ?m) a = None" if "p \<in> {1, 2}" for p
    using that wf_init_cache by (auto simp: init_cache_system_def zero_machine_def get_cache_def)
  moreover have "data_caches ?m = [1]" "L1D_cache ?m = Some 1" "L2_cache ?m = Some 2"
    by (simp_all add: data_caches_def init_cache_system_def zero_machine_def)
  ultimately have "served_level ?m 0x80000040 = 2" by (simp add: served_level_def no_dirty_other_def)
  then show ?thesis
    using vaddr_read_level_correct [OF init_cache_system_sys, of "0x80000040" 8] by (auto simp: access_ok_def ram_addr_def)
qed

text \<open>
  C21. An instruction fetch returns the bytes of the core's instruction cache if it has the block, and of the
  second level otherwise, and leaves the value of every byte of memory and the coherence of the data caches as they were.
\<close>

theorem vaddr_ifetch_correct:
  assumes "mem_sys m" and "access_ok a n"
  shows "\<exists>m'. vaddr_ifetch a n m =
      Inr (word_of_bytes (take n (drop (unat (a AND 63)) (pview (the (L1I_cache m)) (the (L2_cache m)) m a))), m') \<and>
    mem_sys m' \<and> ram_view m' = ram_view m"
  using vaddr_ifetch_sys [OF assms] by blast

theorem vaddr_ifetch_correct_witness:
  "\<exists>v m'. vaddr_ifetch 0x80000000 4 (init_cache_system zero_machine) = Inr (v, m') \<and> mem_sys m'"
  using vaddr_ifetch_correct [OF init_cache_system_sys, of "0x80000000" 4]
  by (auto simp: access_ok_def ram_addr_def)

text \<open>
  C22. A store does not reach the instruction caches: a fetch from a block the core's instruction cache
  holds returns the same bytes before and after any store of the core, to that block included.
\<close>

theorem fetch_misses_store:
  assumes "mem_sys m" and "access_ok a n" and "access_ok b k"
    and "held (get_cache (the (L1I_cache m)) m) a \<noteq> None"
  shows "\<exists>m1 m2 m3 x. vaddr_ifetch a n m = Inr (x, m1) \<and> vaddr_write b k v m = Inr m2 \<and> vaddr_ifetch a n m2 = Inr (x, m3)"
proof -
  obtain m2 where w: "vaddr_write b k v m = Inr m2" "mem_sys m2" "mem_frame (mem_caches m) m m2"
    using vaddr_write_sys [OF assms(1,3)] by blast
  obtain p where p: "L1I_cache m = Some p" "p \<in> set (l1i_caches m)" using hart_icache assms(1) by (auto simp: mem_sys_def)
  have "p \<notin> mem_caches m" using assms(1) p(2) by (auto simp: mem_sys_def mem_caches_def)
  then have "get_cache p m2 = get_cache p m" using w(3) by (simp add: mem_frame_def)
  then have "pview p l2 m2 a = pview p l2 m a" for l2
    using assms(4) p(1) by (auto simp: pview_def)
  then show ?thesis
    using vaddr_ifetch_sys [OF assms(1,2)] vaddr_ifetch_sys [OF w(2) assms(2)] w(1) frame_fields [OF w(3)] p(1) by auto
qed

text \<open>A machine whose instruction cache has the block at the reset address.\<close>

definition warm_machine :: machine where
  "warm_machine =
     (let m = init_cache_system zero_machine; c = get_cache 0 m
      in put_cache 0 (put_line c (set_index c 0x80000000) 0 (zero_line\<lparr>cl_valid := True, cl_tag := tag_of c 0x80000000\<rparr>)) m)"

lemma warm_machine_ok:
  "mem_sys warm_machine" "held (get_cache (the (L1I_cache warm_machine)) warm_machine) 0x80000000 \<noteq> None"
proof -
  let ?m = "init_cache_system zero_machine" let ?c = "get_cache 0 ?m"
  let ?l = "zero_line\<lparr>cl_valid := True, cl_tag := tag_of ?c 0x80000000\<rparr>"
  have c: "p < length (caches ?m) \<and> wf_cache (get_cache p ?m) \<and> (\<forall>a. held (get_cache p ?m) a = None)" if "p \<in> {0, 1, 2}" for p
    using that wf_init_cache by (auto simp: init_cache_system_def zero_machine_def get_cache_def)
  have "?c = init_cache 6 8 ''L1-Instruction''" by (simp add: init_cache_system_def zero_machine_def get_cache_def)
  then have w: "0 < c_w ?c" by (simp add: init_cache_def)
  have r: "ram_addr 0x80000000" by (simp add: ram_addr_def)
  note pn = put_new_block [of ?c "0x80000000" 0 ?l, OF _ r _ w]
  have f: "data_caches warm_machine = [1]" "l1i_caches warm_machine = [0]" "L2_cache warm_machine = Some 2" "hart_ok warm_machine"
      "L1I_cache warm_machine = Some 0"
    by (simp_all add: warm_machine_def put_cache_def data_caches_def l1i_caches_def init_cache_system_def zero_machine_def hart_ok_def Let_def)
  have g: "get_cache q warm_machine = (if q = 0 then put_line ?c (set_index ?c 0x80000000) 0 ?l else get_cache q ?m)" for q
    using c [of 0] unfolding warm_machine_def Let_def by (subst get_put_cache) auto
  have len: "length (caches warm_machine) = length (caches ?m)" unfolding warm_machine_def Let_def by simp
  have wf: "wf_cache (get_cache 0 warm_machine)"
    and h: "\<And>b. held (get_cache 0 warm_machine) b \<noteq> Some (True, bs)" "held (get_cache 0 warm_machine) 0x80000000 \<noteq> None" for bs
    using c [of 0] g [of 0] pn by (auto simp: zero_line_def)
  have "coherent [1] 2 warm_machine" by (rule coherent_fresh) (use c g len in auto)
  moreover have "icache_ok 0 warm_machine" using wf h(1) c [of 0] len by (simp add: icache_ok_def)
  ultimately show "mem_sys warm_machine" using f by (simp add: mem_sys_def)
  show "held (get_cache (the (L1I_cache warm_machine)) warm_machine) 0x80000000 \<noteq> None" using f(5) h(2) by simp
qed

theorem fetch_misses_store_witness:
  "\<exists>m1 m2 m3 x. vaddr_ifetch 0x80000000 4 warm_machine = Inr (x, m1) \<and>
     vaddr_write 0x80000000 4 0x00100073 warm_machine = Inr m2 \<and> vaddr_ifetch 0x80000000 4 m2 = Inr (x, m3)"
  using fetch_misses_store [OF warm_machine_ok(1) _ _ warm_machine_ok(2), of 4 "0x80000000" 4 "0x00100073"]
  by (simp add: access_ok_def ram_addr_def)

end
