(* ===== verification/Decode_Model.thy ===== *)
theory Decode_Model
  imports Sim_State
begin

text \<open>
  Instruction decoding: the immediates and the pattern matcher of \<^verbatim>\<open>include/cpu/decode.h\<close>, the pattern
  table \<^verbatim>\<open>include/cpu/inst_table.inc\<close>, and the opcode dispatch of \<^verbatim>\<open>ir_decode\<close> in \<^verbatim>\<open>src/cpu/ir.c\<close>.
  The decoder writes into a record it is given and leaves the fields it does not name as
  they were, so the record before the call is an argument.
\<close>

section \<open>Immediates (decode.h)\<close>

datatype inst_type = TYPE_I | TYPE_U | TYPE_S | TYPE_J | TYPE_R | TYPE_B | TYPE_N

text \<open>\<^verbatim>\<open>BITS\<close> of a 32-bit instruction word.\<close>

definition ibits :: "u32 \<Rightarrow> nat \<Rightarrow> nat \<Rightarrow> word_t" where
  "ibits i hi lo = BITS (ucast i) hi lo"

definition immI :: "u32 \<Rightarrow> word_t" where
  "immI i = SEXT (ibits i 31 20) 12"

definition immU :: "u32 \<Rightarrow> word_t" where
  "immU i = push_bit 12 (SEXT (ibits i 31 12) 20)"

definition immS :: "u32 \<Rightarrow> word_t" where
  "immS i = push_bit 5 (SEXT (ibits i 31 25) 7) OR ibits i 11 7"

definition immJ :: "u32 \<Rightarrow> word_t" where
  "immJ i = push_bit 20 (SEXT (ibits i 31 31) 1) OR push_bit 12 (ibits i 19 12) OR
            push_bit 11 (ibits i 20 20) OR push_bit 1 (ibits i 30 21)"

definition immB :: "u32 \<Rightarrow> word_t" where
  "immB i = push_bit 12 (SEXT (ibits i 31 31) 1) OR push_bit 11 (ibits i 7 7) OR
            push_bit 5 (ibits i 30 25) OR push_bit 1 (ibits i 11 8)"

section \<open>Operands (ir.c)\<close>

definition reg_val :: "int \<Rightarrow> machine \<Rightarrow> word_t" where
  "reg_val r m = gpr (cpu m) ! nat r"

definition ir_fill_operands :: "IR_Inst \<Rightarrow> u32 \<Rightarrow> inst_type \<Rightarrow> machine \<Rightarrow> IR_Inst" where
  "ir_fill_operands ir i ty m =
    (let ir = ir\<lparr>ir_rd := uint (ibits i 11 7), ir_rs1 := uint (ibits i 19 15), ir_rs2 := uint (ibits i 24 20)\<rparr> in
     case ty of
       TYPE_I \<Rightarrow> ir\<lparr>src1_val := reg_val (ir_rs1 ir) m, src2_val := immI i, ir_rs2 := -1\<rparr>
     | TYPE_U \<Rightarrow> ir\<lparr>src1_val := immU i, ir_rs1 := -1, ir_rs2 := -1\<rparr>
     | TYPE_S \<Rightarrow> ir\<lparr>ir_rd := -1, imm := immS i, src1_val := reg_val (ir_rs1 ir) m, src2_val := reg_val (ir_rs2 ir) m\<rparr>
     | TYPE_J \<Rightarrow> ir\<lparr>src1_val := immJ i, ir_rs1 := -1, ir_rs2 := -1\<rparr>
     | TYPE_R \<Rightarrow> ir\<lparr>src1_val := reg_val (ir_rs1 ir) m, src2_val := reg_val (ir_rs2 ir) m\<rparr>
     | TYPE_B \<Rightarrow> ir\<lparr>ir_rd := -1, src1_val := reg_val (ir_rs1 ir) m, src2_val := reg_val (ir_rs2 ir) m, imm := immB i\<rparr>
     | TYPE_N \<Rightarrow> ir\<lparr>ir_rd := -1, ir_rs1 := -1, ir_rs2 := -1\<rparr>)"

section \<open>Opcode dispatch (ir.c)\<close>

definition ir_init :: "u32 \<Rightarrow> vaddr_t \<Rightarrow> vaddr_t \<Rightarrow> IR_Inst \<Rightarrow> IR_Inst" where
  "ir_init raw pc snpc ir =
    ir\<lparr>ir_pc := pc, ir_snpc := snpc, ir_raw := raw, ir_type := ITYPE_INVALID, ir_name := ''???'',
       ir_rd := -1, ir_rs1 := -1, ir_rs2 := -1, dnpc := snpc, taken := False, mem_addr := 0, mem_width := 0,
       serializing := False, fault := False, ir_phys_rd := -1, ir_rob_idx := -1, ir_cycles_rem := 0,
       exec_fn := X_inv\<rparr>"

definition set_exec :: "string \<Rightarrow> exec_op \<Rightarrow> IR_Inst \<Rightarrow> IR_Inst" where
  "set_exec nm x ir = ir\<lparr>ir_name := nm, exec_fn := x\<rparr>"

definition opcode_of :: "u32 \<Rightarrow> u32" where
  "opcode_of raw = drop_bit 2 raw AND 0x1f"

definition funct3_of :: "u32 \<Rightarrow> u32" where
  "funct3_of raw = drop_bit 12 raw AND 0x7"

definition funct7_of :: "u32 \<Rightarrow> u32" where
  "funct7_of raw = drop_bit 25 raw AND 0x7f"

definition decode_op_imm :: "u32 \<Rightarrow> u32 \<Rightarrow> IR_Inst \<Rightarrow> IR_Inst" where
  "decode_op_imm funct3 funct7 ir =
    (if funct3 = 0 then set_exec ''addi'' X_addi ir
     else if funct3 = 6 then set_exec ''ori'' X_ori ir
     else if funct3 = 4 then set_exec ''xori'' X_xori ir
     else if funct3 = 7 then set_exec ''andi'' X_andi ir
     else if funct3 = 2 then set_exec ''slti'' X_slti ir
     else if funct3 = 3 then set_exec ''sltiu'' X_sltiu ir
     else if funct3 = 1 then set_exec ''slli'' X_slli ir
     else if funct3 = 5 then
       (if drop_bit 1 funct7 = 0x20 then set_exec ''srai'' X_srai ir
        else set_exec ''srli'' X_srli ir)
     else ir)"

definition decode_load :: "u32 \<Rightarrow> u32 \<Rightarrow> IR_Inst \<Rightarrow> IR_Inst" where
  "decode_load funct3 funct7 ir =
    (if funct3 = 4 then set_exec ''lbu'' X_lbu ir
     else if funct3 = 0 then set_exec ''lb'' X_lb ir
     else if funct3 = 2 then set_exec ''lw'' X_lw ir
     else if funct3 = 3 then set_exec ''ld'' X_ld ir
     else if funct3 = 1 then set_exec ''lh'' X_lh ir
     else if funct3 = 5 then set_exec ''lhu'' X_lhu ir
     else if funct3 = 6 then set_exec ''lwu'' X_lwu ir
     else ir)"

definition decode_store :: "u32 \<Rightarrow> u32 \<Rightarrow> IR_Inst \<Rightarrow> IR_Inst" where
  "decode_store funct3 funct7 ir =
    (if funct3 = 0 then set_exec ''sb'' X_sb ir
     else if funct3 = 1 then set_exec ''sh'' X_sh ir
     else if funct3 = 2 then set_exec ''sw'' X_sw ir
     else if funct3 = 3 then set_exec ''sd'' X_sd ir
     else ir)"

definition decode_branch :: "u32 \<Rightarrow> u32 \<Rightarrow> IR_Inst \<Rightarrow> IR_Inst" where
  "decode_branch funct3 funct7 ir =
    (if funct3 = 0 then set_exec ''beq'' X_beq ir
     else if funct3 = 1 then set_exec ''bne'' X_bne ir
     else if funct3 = 4 then set_exec ''blt'' X_blt ir
     else if funct3 = 5 then set_exec ''bge'' X_bge ir
     else if funct3 = 6 then set_exec ''bltu'' X_bltu ir
     else if funct3 = 7 then set_exec ''bgeu'' X_bgeu ir
     else ir)"

definition decode_op_imm_w :: "u32 \<Rightarrow> u32 \<Rightarrow> IR_Inst \<Rightarrow> IR_Inst" where
  "decode_op_imm_w funct3 funct7 ir =
    (if funct3 = 0 then set_exec ''addiw'' X_addiw ir
     else if funct3 = 1 then set_exec ''slliw'' X_slliw ir
     else if funct3 = 5 then
       (if funct7 = 0x20 then set_exec ''sraiw'' X_sraiw ir
        else set_exec ''srliw'' X_srliw ir)
     else ir)"

definition decode_op :: "u32 \<Rightarrow> u32 \<Rightarrow> IR_Inst \<Rightarrow> IR_Inst" where
  "decode_op funct3 funct7 ir =
    (if funct3 = 0 then
       (if funct7 = 0x00 then set_exec ''add'' X_add ir
        else if funct7 = 0x20 then set_exec ''sub'' X_sub ir
        else if funct7 = 0x01 then set_exec ''mul'' X_mul ir
        else ir)
     else if funct3 = 6 then
       (if funct7 = 0x00 then set_exec ''or'' X_or ir
        else if funct7 = 0x01 then set_exec ''rem'' X_rem ir
        else ir)
     else if funct3 = 4 then
       (if funct7 = 0x00 then set_exec ''xor'' X_xor ir
        else if funct7 = 0x01 then set_exec ''div'' X_div ir
        else ir)
     else if funct3 = 7 then
       (if funct7 = 0x00 then set_exec ''and'' X_and ir
        else if funct7 = 0x01 then set_exec ''remu'' X_remu ir
        else ir)
     else if funct3 = 2 then
       (if funct7 = 0x00 then set_exec ''slt'' X_slt ir
        else ir)
     else if funct3 = 3 then
       (if funct7 = 0x00 then set_exec ''sltu'' X_sltu ir
        else if funct7 = 0x01 then set_exec ''divu'' X_divu ir
        else ir)
     else if funct3 = 1 then
       (if funct7 = 0x00 then set_exec ''sll'' X_sll ir
        else ir)
     else if funct3 = 5 then
       (if funct7 = 0x00 then set_exec ''srl'' X_srl ir
        else if funct7 = 0x20 then set_exec ''sra'' X_sra ir
        else if funct7 = 0x01 then set_exec ''divu'' X_divu ir
        else ir)
     else ir)"

definition decode_op_w :: "u32 \<Rightarrow> u32 \<Rightarrow> IR_Inst \<Rightarrow> IR_Inst" where
  "decode_op_w funct3 funct7 ir =
    (if funct3 = 0 then
       (if funct7 = 0x00 then set_exec ''addw'' X_addw ir
        else if funct7 = 0x20 then set_exec ''subw'' X_subw ir
        else if funct7 = 0x01 then set_exec ''mulw'' X_mulw ir
        else ir)
     else if funct3 = 1 then
       (if funct7 = 0x00 then set_exec ''sllw'' X_sllw ir
        else ir)
     else if funct3 = 5 then
       (if funct7 = 0x00 then set_exec ''srlw'' X_srlw ir
        else if funct7 = 0x20 then set_exec ''sraw'' X_sraw ir
        else if funct7 = 0x01 then set_exec ''divuw'' X_divuw ir
        else ir)
     else if funct3 = 4 then
       (if funct7 = 0x01 then set_exec ''divw'' X_divw ir
        else ir)
     else if funct3 = 6 then
       (if funct7 = 0x01 then set_exec ''remw'' X_remw ir
        else ir)
     else if funct3 = 7 then
       (if funct7 = 0x01 then set_exec ''remuw'' X_remuw ir
        else ir)
     else ir)"

definition decode_system :: "u32 \<Rightarrow> u32 \<Rightarrow> machine \<Rightarrow> IR_Inst \<Rightarrow> IR_Inst" where
  "decode_system raw funct3 m ir =
    (if funct3 = 1 then (set_exec ''csrrw'' X_csrrw (ir_fill_operands ir raw TYPE_I m))\<lparr>serializing := True\<rparr>
     else if funct3 = 2 then (set_exec ''csrrs'' X_csrrs (ir_fill_operands ir raw TYPE_I m))\<lparr>serializing := True\<rparr>
     else if funct3 = 3 then (set_exec ''csrrc'' X_csrrc (ir_fill_operands ir raw TYPE_I m))\<lparr>serializing := True\<rparr>
     else if funct3 = 0 then
       (let ir = ir_fill_operands ir raw TYPE_N m in
        if raw = 0x00000073 then (set_exec ''ecall'' X_ecall ir)\<lparr>serializing := True\<rparr>
        else if raw = 0x30200073 then (set_exec ''mret'' X_mret ir)\<lparr>serializing := True\<rparr>
        else if raw = 0x00100073 then (set_exec ''ebreak'' X_ebreak ir)\<lparr>serializing := True\<rparr>
        else ir)
     else ir)"

definition ir_decode :: "u32 \<Rightarrow> vaddr_t \<Rightarrow> vaddr_t \<Rightarrow> IR_Inst \<Rightarrow> machine \<Rightarrow> IR_Inst" where
  "ir_decode raw pc snpc ir m =
    (let ir = ir_init raw pc snpc ir;
         opcode = opcode_of raw; funct3 = funct3_of raw; funct7 = funct7_of raw
     in if opcode = 0x04 then decode_op_imm funct3 funct7 (ir_fill_operands ir raw TYPE_I m)
        else if opcode = 0x00 then decode_load funct3 funct7 (ir_fill_operands ir raw TYPE_I m)
        else if opcode = 0x08 then decode_store funct3 funct7 (ir_fill_operands ir raw TYPE_S m)
        else if opcode = 0x18 then decode_branch funct3 funct7 (ir_fill_operands ir raw TYPE_B m)
        else if opcode = 0x1b then set_exec ''jal'' X_jal (ir_fill_operands ir raw TYPE_J m)
        else if opcode = 0x19 then set_exec ''jalr'' X_jalr (ir_fill_operands ir raw TYPE_I m)
        else if opcode = 0x05 then set_exec ''auipc'' X_auipc (ir_fill_operands ir raw TYPE_U m)
        else if opcode = 0x0d then set_exec ''lui'' X_lui (ir_fill_operands ir raw TYPE_U m)
        else if opcode = 0x06 then decode_op_imm_w funct3 funct7 (ir_fill_operands ir raw TYPE_I m)
        else if opcode = 0x0c then decode_op funct3 funct7 (ir_fill_operands ir raw TYPE_R m)
        else if opcode = 0x0e then decode_op_w funct3 funct7 (ir_fill_operands ir raw TYPE_R m)
        else if opcode = 0x1c then decode_system raw funct3 m ir
        else if opcode = 0x03 then (set_exec ''fence'' X_fence (ir_fill_operands ir raw TYPE_N m))\<lparr>serializing := True\<rparr>
        else ir)"

section \<open>The pattern table (decode.h, inst_table.inc)\<close>

text \<open>The state of the matcher's loop: key, msk and shift.\<close>

definition pattern_char :: "char \<Rightarrow> word_t \<times> word_t \<times> nat \<Rightarrow> (word_t \<times> word_t \<times> nat) res" where
  "pattern_char c = (\<lambda>(key, msk, shift).
     if c = CHR '' '' then Inr (key, msk, shift)
     else if c = CHR ''0'' \<or> c = CHR ''1'' \<or> c = CHR ''?'' then
       Inr (push_bit 1 key OR (if c = CHR ''1'' then 1 else 0),
            push_bit 1 msk OR (if c = CHR ''?'' then 0 else 1),
            if c = CHR ''?'' then shift + 1 else 0)
     else Inl Assertion_failed)"

fun pattern_loop :: "string \<Rightarrow> word_t \<times> word_t \<times> nat \<Rightarrow> (word_t \<times> word_t \<times> nat) res" where
  "pattern_loop [] st = Inr st"
| "pattern_loop (c # cs) st = bind_res (pattern_char c st) (pattern_loop cs)"

definition pattern_decode :: "string \<Rightarrow> (word_t \<times> word_t \<times> nat) res" where
  "pattern_decode str =
     bind_res (guard (length str < 64) Assertion_failed) (\<lambda>_.
     bind_res (pattern_loop str (0, 0, 0)) (\<lambda>(key, msk, shift).
     Inr (drop_bit shift key, drop_bit shift msk, shift)))"

definition instpat_match :: "string \<Rightarrow> u32 \<Rightarrow> bool" where
  "instpat_match pat inst =
     (case pattern_decode pat of
        Inr (key, msk, shift) \<Rightarrow> drop_bit shift (ucast inst AND msk) = key
      | Inl _ \<Rightarrow> False)"

definition inst_table :: "(string \<times> exec_op \<times> inst_type) list" where
  "inst_table =
    [(''??????? ????? ????? ??? ????? 00101 11'', X_auipc, TYPE_U),
     (''??????? ????? ????? ??? ????? 01101 11'', X_lui, TYPE_U),
     (''0000000 ????? ????? 000 ????? 01100 11'', X_add, TYPE_R),
     (''0000001 ????? ????? 000 ????? 01100 11'', X_mul, TYPE_R),
     (''0100000 ????? ????? 000 ????? 01100 11'', X_sub, TYPE_R),
     (''0000000 ????? ????? 110 ????? 01100 11'', X_or, TYPE_R),
     (''0000000 ????? ????? 100 ????? 01100 11'', X_xor, TYPE_R),
     (''0000000 ????? ????? 111 ????? 01100 11'', X_and, TYPE_R),
     (''0000000 ????? ????? 010 ????? 01100 11'', X_slt, TYPE_R),
     (''0000000 ????? ????? 011 ????? 01100 11'', X_sltu, TYPE_R),
     (''0000000 ????? ????? 001 ????? 01100 11'', X_sll, TYPE_R),
     (''0000000 ????? ????? 101 ????? 01100 11'', X_srl, TYPE_R),
     (''0100000 ????? ????? 101 ????? 01100 11'', X_sra, TYPE_R),
     (''0000001 ????? ????? 100 ????? 01100 11'', X_div, TYPE_R),
     (''0000001 ????? ????? 101 ????? 01100 11'', X_divu, TYPE_R),
     (''0000001 ????? ????? 110 ????? 01100 11'', X_rem, TYPE_R),
     (''0000001 ????? ????? 111 ????? 01100 11'', X_remu, TYPE_R),
     (''0000000 ????? ????? 000 ????? 01110 11'', X_addw, TYPE_R),
     (''0000001 ????? ????? 000 ????? 01110 11'', X_mulw, TYPE_R),
     (''0100000 ????? ????? 000 ????? 01110 11'', X_subw, TYPE_R),
     (''0000000 ????? ????? 001 ????? 01110 11'', X_sllw, TYPE_R),
     (''0000000 ????? ????? 101 ????? 01110 11'', X_srlw, TYPE_R),
     (''0100000 ????? ????? 101 ????? 01110 11'', X_sraw, TYPE_R),
     (''0000001 ????? ????? 100 ????? 01110 11'', X_divw, TYPE_R),
     (''0000001 ????? ????? 101 ????? 01110 11'', X_divuw, TYPE_R),
     (''0000001 ????? ????? 110 ????? 01110 11'', X_remw, TYPE_R),
     (''0000001 ????? ????? 111 ????? 01110 11'', X_remuw, TYPE_R),
     (''??????? ????? ????? 000 ????? 00100 11'', X_addi, TYPE_I),
     (''??????? ????? ????? 110 ????? 00100 11'', X_ori, TYPE_I),
     (''??????? ????? ????? 100 ????? 00100 11'', X_xori, TYPE_I),
     (''??????? ????? ????? 111 ????? 00100 11'', X_andi, TYPE_I),
     (''??????? ????? ????? 010 ????? 00100 11'', X_slti, TYPE_I),
     (''??????? ????? ????? 011 ????? 00100 11'', X_sltiu, TYPE_I),
     (''000000? ????? ????? 001 ????? 00100 11'', X_slli, TYPE_I),
     (''000000? ????? ????? 101 ????? 00100 11'', X_srli, TYPE_I),
     (''010000? ????? ????? 101 ????? 00100 11'', X_srai, TYPE_I),
     (''??????? ????? ????? 000 ????? 00110 11'', X_addiw, TYPE_I),
     (''0000000 ????? ????? 001 ????? 00110 11'', X_slliw, TYPE_I),
     (''0000000 ????? ????? 101 ????? 00110 11'', X_srliw, TYPE_I),
     (''0100000 ????? ????? 101 ????? 00110 11'', X_sraiw, TYPE_I),
     (''??????? ????? ????? ??? ????? 11011 11'', X_jal, TYPE_J),
     (''??????? ????? ????? 000 ????? 11001 11'', X_jalr, TYPE_I),
     (''??????? ????? ????? 000 ????? 11000 11'', X_beq, TYPE_B),
     (''??????? ????? ????? 001 ????? 11000 11'', X_bne, TYPE_B),
     (''??????? ????? ????? 100 ????? 11000 11'', X_blt, TYPE_B),
     (''??????? ????? ????? 101 ????? 11000 11'', X_bge, TYPE_B),
     (''??????? ????? ????? 110 ????? 11000 11'', X_bltu, TYPE_B),
     (''??????? ????? ????? 111 ????? 11000 11'', X_bgeu, TYPE_B),
     (''??????? ????? ????? 011 ????? 00000 11'', X_ld, TYPE_I),
     (''??????? ????? ????? 010 ????? 00000 11'', X_lw, TYPE_I),
     (''??????? ????? ????? 001 ????? 00000 11'', X_lh, TYPE_I),
     (''??????? ????? ????? 000 ????? 00000 11'', X_lb, TYPE_I),
     (''??????? ????? ????? 110 ????? 00000 11'', X_lwu, TYPE_I),
     (''??????? ????? ????? 101 ????? 00000 11'', X_lhu, TYPE_I),
     (''??????? ????? ????? 100 ????? 00000 11'', X_lbu, TYPE_I),
     (''??????? ????? ????? 011 ????? 01000 11'', X_sd, TYPE_S),
     (''??????? ????? ????? 010 ????? 01000 11'', X_sw, TYPE_S),
     (''??????? ????? ????? 001 ????? 01000 11'', X_sh, TYPE_S),
     (''??????? ????? ????? 000 ????? 01000 11'', X_sb, TYPE_S),
     (''??????? ????? ????? 001 ????? 11100 11'', X_csrrw, TYPE_I),
     (''??????? ????? ????? 010 ????? 11100 11'', X_csrrs, TYPE_I),
     (''??????? ????? ????? 011 ????? 11100 11'', X_csrrc, TYPE_I),
     (''0000000 00000 00000 000 00000 11100 11'', X_ecall, TYPE_I),
     (''0011000 00010 00000 000 00000 11100 11'', X_mret, TYPE_R),
     (''0000000 00001 00000 000 00000 11100 11'', X_ebreak, TYPE_N),
     (''??????? ????? 00000 000 00000 00011 11'', X_fence, TYPE_N),
     (''0000000 00000 00000 001 00000 00011 11'', X_fence_i, TYPE_I),
     (''??????? ????? ????? ??? ????? ????? ??'', X_inv, TYPE_N)]"

fun table_lookup :: "(string \<times> exec_op \<times> inst_type) list \<Rightarrow> u32 \<Rightarrow> exec_op" where
  "table_lookup [] inst = X_inv"
| "table_lookup ((pat, x, ty) # rows) inst = (if instpat_match pat inst then x else table_lookup rows inst)"

section \<open>The dispatch against the table\<close>

lemma exec_fn_fill [simp]: "exec_fn (ir_fill_operands ir raw ty m) = exec_fn ir"
  by (cases ty) (simp_all add: ir_fill_operands_def Let_def)

lemma exec_fn_set [simp]: "exec_fn (set_exec nm x ir) = x"
  by (simp add: set_exec_def)

text \<open>A field of the word that a pattern fixes has the value the pattern gives it.\<close>

lemma masked_field:
  fixes x :: word_t
  assumes "x AND msk = key" and "push_bit n (mask w) AND msk = push_bit n (mask w)" and "n + w \<le> 64"
  shows "drop_bit n x AND mask w = drop_bit n key AND mask w"
proof (rule bit_word_eqI)
  fix i assume "i < LENGTH(64)"
  have "bit msk (n + i)" if "i < w"
    using arg_cong [OF assms(2), of "\<lambda>y. bit y (n + i)"] that assms(3) by (simp add: bit_simps)
  then show "bit (drop_bit n x AND mask w) i = bit (drop_bit n key AND mask w) i"
    using assms(1) [symmetric] by (auto simp: bit_simps)
qed

lemma ucast_field: "drop_bit n raw AND mask w = (ucast (drop_bit n (ucast raw :: word_t) AND mask w) :: u32)"
  by (rule bit_word_eqI) (auto simp: bit_simps dest: bit_imp_le_length)

lemma match_fields:
  assumes "instpat_match pat raw" and "pattern_decode pat = Inr (key, msk, 0)"
  shows "0x7c AND msk = 0x7c \<Longrightarrow> opcode_of raw = ucast (drop_bit 2 key AND 0x1f)"
    and "0x7000 AND msk = 0x7000 \<Longrightarrow> funct3_of raw = ucast (drop_bit 12 key AND 0x7)"
    and "0xfe000000 AND msk = 0xfe000000 \<Longrightarrow> funct7_of raw = ucast (drop_bit 25 key AND 0x7f)"
    and "0xfc000000 AND msk = 0xfc000000 \<Longrightarrow> drop_bit 1 (funct7_of raw) = ucast (drop_bit 26 key AND 0x3f)"
    and "msk = 0xffffffff \<Longrightarrow> raw = ucast key"
proof -
  have e: "ucast raw AND msk = key" using assms by (simp add: instpat_match_def)
  have m: "(mask 5 :: word_t) = 0x1f" "(mask 3 :: word_t) = 0x7" "(mask 7 :: word_t) = 0x7f" "(mask 6 :: word_t) = 0x3f"
      "(mask 5 :: u32) = 0x1f" "(mask 3 :: u32) = 0x7" "(mask 7 :: u32) = 0x7f" "(mask 6 :: u32) = 0x3f"
    by (simp_all add: mask_eq_exp_minus_1)
  have f: "drop_bit n raw AND mask w = (ucast (drop_bit n key AND mask w) :: u32)"
    if "push_bit n (mask w) AND msk = push_bit n (mask w)" "n + w \<le> 64" for n w
    unfolding ucast_field [of n raw w] masked_field [OF e that] ..
  show "0x7c AND msk = 0x7c \<Longrightarrow> opcode_of raw = ucast (drop_bit 2 key AND 0x1f)"
    using f [of 2 5] by (simp add: opcode_of_def m push_bit_eq_mult)
  show "0x7000 AND msk = 0x7000 \<Longrightarrow> funct3_of raw = ucast (drop_bit 12 key AND 0x7)"
    using f [of 12 3] by (simp add: funct3_of_def m push_bit_eq_mult)
  show "0xfe000000 AND msk = 0xfe000000 \<Longrightarrow> funct7_of raw = ucast (drop_bit 25 key AND 0x7f)"
    using f [of 25 7] by (simp add: funct7_of_def m push_bit_eq_mult)
  have "drop_bit 1 (funct7_of raw) = drop_bit 26 raw AND mask 6"
    unfolding funct7_of_def m(7) [symmetric] by (rule bit_word_eqI) (auto simp: bit_simps)
  then show "0xfc000000 AND msk = 0xfc000000 \<Longrightarrow> drop_bit 1 (funct7_of raw) = ucast (drop_bit 26 key AND 0x3f)"
    using f [of 26 6] by (simp add: m push_bit_eq_mult)
  show "msk = 0xffffffff \<Longrightarrow> raw = ucast key"
  proof -
    assume "msk = 0xffffffff"
    then have "msk = mask 32" by (simp add: mask_eq_exp_minus_1)
    then have "key = ucast raw"
      using e bit_imp_le_length [of raw] by (auto intro!: bit_word_eqI simp: bit_simps)
    then show "raw = ucast key" by (auto intro!: bit_word_eqI simp: bit_simps)
  qed
qed

lemma pattern_decode_rows:
  "pattern_decode ''??????? ????? ????? ??? ????? 00101 11'' = Inr (0x17, 0x7f, 0)"
  "pattern_decode ''??????? ????? ????? ??? ????? 01101 11'' = Inr (0x37, 0x7f, 0)"
  "pattern_decode ''0000000 ????? ????? 000 ????? 01100 11'' = Inr (0x33, 0xfe00707f, 0)"
  "pattern_decode ''0000001 ????? ????? 000 ????? 01100 11'' = Inr (0x2000033, 0xfe00707f, 0)"
  "pattern_decode ''0100000 ????? ????? 000 ????? 01100 11'' = Inr (0x40000033, 0xfe00707f, 0)"
  "pattern_decode ''0000000 ????? ????? 110 ????? 01100 11'' = Inr (0x6033, 0xfe00707f, 0)"
  "pattern_decode ''0000000 ????? ????? 100 ????? 01100 11'' = Inr (0x4033, 0xfe00707f, 0)"
  "pattern_decode ''0000000 ????? ????? 111 ????? 01100 11'' = Inr (0x7033, 0xfe00707f, 0)"
  "pattern_decode ''0000000 ????? ????? 010 ????? 01100 11'' = Inr (0x2033, 0xfe00707f, 0)"
  "pattern_decode ''0000000 ????? ????? 011 ????? 01100 11'' = Inr (0x3033, 0xfe00707f, 0)"
  "pattern_decode ''0000000 ????? ????? 001 ????? 01100 11'' = Inr (0x1033, 0xfe00707f, 0)"
  "pattern_decode ''0000000 ????? ????? 101 ????? 01100 11'' = Inr (0x5033, 0xfe00707f, 0)"
  "pattern_decode ''0100000 ????? ????? 101 ????? 01100 11'' = Inr (0x40005033, 0xfe00707f, 0)"
  "pattern_decode ''0000001 ????? ????? 100 ????? 01100 11'' = Inr (0x2004033, 0xfe00707f, 0)"
  "pattern_decode ''0000001 ????? ????? 101 ????? 01100 11'' = Inr (0x2005033, 0xfe00707f, 0)"
  "pattern_decode ''0000001 ????? ????? 110 ????? 01100 11'' = Inr (0x2006033, 0xfe00707f, 0)"
  "pattern_decode ''0000001 ????? ????? 111 ????? 01100 11'' = Inr (0x2007033, 0xfe00707f, 0)"
  "pattern_decode ''0000000 ????? ????? 000 ????? 01110 11'' = Inr (0x3b, 0xfe00707f, 0)"
  "pattern_decode ''0000001 ????? ????? 000 ????? 01110 11'' = Inr (0x200003b, 0xfe00707f, 0)"
  "pattern_decode ''0100000 ????? ????? 000 ????? 01110 11'' = Inr (0x4000003b, 0xfe00707f, 0)"
  "pattern_decode ''0000000 ????? ????? 001 ????? 01110 11'' = Inr (0x103b, 0xfe00707f, 0)"
  "pattern_decode ''0000000 ????? ????? 101 ????? 01110 11'' = Inr (0x503b, 0xfe00707f, 0)"
  "pattern_decode ''0100000 ????? ????? 101 ????? 01110 11'' = Inr (0x4000503b, 0xfe00707f, 0)"
  "pattern_decode ''0000001 ????? ????? 100 ????? 01110 11'' = Inr (0x200403b, 0xfe00707f, 0)"
  "pattern_decode ''0000001 ????? ????? 101 ????? 01110 11'' = Inr (0x200503b, 0xfe00707f, 0)"
  "pattern_decode ''0000001 ????? ????? 110 ????? 01110 11'' = Inr (0x200603b, 0xfe00707f, 0)"
  "pattern_decode ''0000001 ????? ????? 111 ????? 01110 11'' = Inr (0x200703b, 0xfe00707f, 0)"
  "pattern_decode ''??????? ????? ????? 000 ????? 00100 11'' = Inr (0x13, 0x707f, 0)"
  "pattern_decode ''??????? ????? ????? 110 ????? 00100 11'' = Inr (0x6013, 0x707f, 0)"
  "pattern_decode ''??????? ????? ????? 100 ????? 00100 11'' = Inr (0x4013, 0x707f, 0)"
  "pattern_decode ''??????? ????? ????? 111 ????? 00100 11'' = Inr (0x7013, 0x707f, 0)"
  "pattern_decode ''??????? ????? ????? 010 ????? 00100 11'' = Inr (0x2013, 0x707f, 0)"
  "pattern_decode ''??????? ????? ????? 011 ????? 00100 11'' = Inr (0x3013, 0x707f, 0)"
  "pattern_decode ''000000? ????? ????? 001 ????? 00100 11'' = Inr (0x1013, 0xfc00707f, 0)"
  "pattern_decode ''000000? ????? ????? 101 ????? 00100 11'' = Inr (0x5013, 0xfc00707f, 0)"
  "pattern_decode ''010000? ????? ????? 101 ????? 00100 11'' = Inr (0x40005013, 0xfc00707f, 0)"
  "pattern_decode ''??????? ????? ????? 000 ????? 00110 11'' = Inr (0x1b, 0x707f, 0)"
  "pattern_decode ''0000000 ????? ????? 001 ????? 00110 11'' = Inr (0x101b, 0xfe00707f, 0)"
  "pattern_decode ''0000000 ????? ????? 101 ????? 00110 11'' = Inr (0x501b, 0xfe00707f, 0)"
  "pattern_decode ''0100000 ????? ????? 101 ????? 00110 11'' = Inr (0x4000501b, 0xfe00707f, 0)"
  "pattern_decode ''??????? ????? ????? ??? ????? 11011 11'' = Inr (0x6f, 0x7f, 0)"
  "pattern_decode ''??????? ????? ????? 000 ????? 11001 11'' = Inr (0x67, 0x707f, 0)"
  "pattern_decode ''??????? ????? ????? 000 ????? 11000 11'' = Inr (0x63, 0x707f, 0)"
  "pattern_decode ''??????? ????? ????? 001 ????? 11000 11'' = Inr (0x1063, 0x707f, 0)"
  "pattern_decode ''??????? ????? ????? 100 ????? 11000 11'' = Inr (0x4063, 0x707f, 0)"
  "pattern_decode ''??????? ????? ????? 101 ????? 11000 11'' = Inr (0x5063, 0x707f, 0)"
  "pattern_decode ''??????? ????? ????? 110 ????? 11000 11'' = Inr (0x6063, 0x707f, 0)"
  "pattern_decode ''??????? ????? ????? 111 ????? 11000 11'' = Inr (0x7063, 0x707f, 0)"
  "pattern_decode ''??????? ????? ????? 011 ????? 00000 11'' = Inr (0x3003, 0x707f, 0)"
  "pattern_decode ''??????? ????? ????? 010 ????? 00000 11'' = Inr (0x2003, 0x707f, 0)"
  "pattern_decode ''??????? ????? ????? 001 ????? 00000 11'' = Inr (0x1003, 0x707f, 0)"
  "pattern_decode ''??????? ????? ????? 000 ????? 00000 11'' = Inr (0x3, 0x707f, 0)"
  "pattern_decode ''??????? ????? ????? 110 ????? 00000 11'' = Inr (0x6003, 0x707f, 0)"
  "pattern_decode ''??????? ????? ????? 101 ????? 00000 11'' = Inr (0x5003, 0x707f, 0)"
  "pattern_decode ''??????? ????? ????? 100 ????? 00000 11'' = Inr (0x4003, 0x707f, 0)"
  "pattern_decode ''??????? ????? ????? 011 ????? 01000 11'' = Inr (0x3023, 0x707f, 0)"
  "pattern_decode ''??????? ????? ????? 010 ????? 01000 11'' = Inr (0x2023, 0x707f, 0)"
  "pattern_decode ''??????? ????? ????? 001 ????? 01000 11'' = Inr (0x1023, 0x707f, 0)"
  "pattern_decode ''??????? ????? ????? 000 ????? 01000 11'' = Inr (0x23, 0x707f, 0)"
  "pattern_decode ''??????? ????? ????? 001 ????? 11100 11'' = Inr (0x1073, 0x707f, 0)"
  "pattern_decode ''??????? ????? ????? 010 ????? 11100 11'' = Inr (0x2073, 0x707f, 0)"
  "pattern_decode ''??????? ????? ????? 011 ????? 11100 11'' = Inr (0x3073, 0x707f, 0)"
  "pattern_decode ''0000000 00000 00000 000 00000 11100 11'' = Inr (0x73, 0xffffffff, 0)"
  "pattern_decode ''0011000 00010 00000 000 00000 11100 11'' = Inr (0x30200073, 0xffffffff, 0)"
  "pattern_decode ''0000000 00001 00000 000 00000 11100 11'' = Inr (0x100073, 0xffffffff, 0)"
  "pattern_decode ''??????? ????? 00000 000 00000 00011 11'' = Inr (0xf, 0xfffff, 0)"
  "pattern_decode ''0000000 00000 00000 001 00000 00011 11'' = Inr (0x100f, 0xffffffff, 0)"
  "pattern_decode ''??????? ????? ????? ??? ????? ????? ??'' = Inr (0x0, 0x0, 32)"
  by code_simp+

lemmas dispatch_defs = ir_decode_def ir_init_def decode_op_imm_def decode_load_def decode_store_def
  decode_branch_def decode_op_imm_w_def decode_op_def decode_op_w_def decode_system_def Let_def

lemma table_row_dispatch:
  assumes "(pat, x, ty) \<in> set inst_table" and "instpat_match pat raw" and "x \<notin> {X_inv, X_fence_i, X_srai}"
  shows "exec_fn (ir_decode raw pc snpc ir m) = x"
  using assms(1,3) unfolding inst_table_def list.set
  by (elim insertE emptyE; use match_fields [OF assms(2)] in \<open>simp add: pattern_decode_rows dispatch_defs\<close>)

section \<open>Immediate formats\<close>

lemma bit_ibits: "bit (ibits i hi lo) n \<longleftrightarrow> n < hi - lo + 1 \<and> lo + n < 64 \<and> bit i (lo + n)"
  using bit_imp_le_length [of i "lo + n"] by (auto simp: ibits_def bit_BITS bit_simps)

lemmas imm_bits = bit_or_iff bit_push_bit_iff bit_SEXT bit_ibits

text \<open>The immediate formats of the architecture, bit by bit.\<close>

definition imm_bit :: "inst_type \<Rightarrow> u32 \<Rightarrow> nat \<Rightarrow> bool" where
  "imm_bit ty i n =
    (if ty = TYPE_I then (if n \<le> 10 then bit i (n + 20) else bit i 31)
     else if ty = TYPE_S then (if n \<le> 4 then bit i (n + 7) else if n \<le> 10 then bit i (n + 20) else bit i 31)
     else if ty = TYPE_B then
       (if n = 0 then False else if n \<le> 4 then bit i (n + 7) else if n \<le> 10 then bit i (n + 20)
        else if n = 11 then bit i 7 else bit i 31)
     else if ty = TYPE_U then (if n < 12 then False else if n \<le> 30 then bit i n else bit i 31)
     else (if n = 0 then False else if n \<le> 10 then bit i (n + 20) else if n = 11 then bit i 20
           else if n \<le> 19 then bit i n else bit i 31))"

lemma immI_bit: "n < 64 \<Longrightarrow> bit (immI i) n = imm_bit TYPE_I i n"
  unfolding immI_def imm_bit_def imm_bits by (cases "n \<le> 10"; cases "n = 11") (auto simp: imm_bits min_def add.commute)

lemma immS_bit: "n < 64 \<Longrightarrow> bit (immS i) n = imm_bit TYPE_S i n"
  unfolding immS_def imm_bit_def imm_bits by (cases "n \<le> 4"; cases "n \<le> 10"; cases "n = 11") (auto simp: imm_bits min_def add.commute)

lemma immB_bit: "n < 64 \<Longrightarrow> bit (immB i) n = imm_bit TYPE_B i n"
  unfolding immB_def imm_bit_def imm_bits by (cases "n \<le> 4"; cases "n \<le> 10"; cases "n = 11") (auto simp: imm_bits min_def add.commute)

lemma immU_bit: "n < 64 \<Longrightarrow> bit (immU i) n = imm_bit TYPE_U i n"
  unfolding immU_def imm_bit_def imm_bits by (cases "n \<le> 11"; cases "n \<le> 30"; cases "n = 31") (auto simp: imm_bits min_def add.commute)

lemma immJ_bit: "n < 64 \<Longrightarrow> bit (immJ i) n = imm_bit TYPE_J i n"
  unfolding immJ_def imm_bit_def imm_bits by (cases "n \<le> 10"; cases "n = 11"; cases "n \<le> 19") (auto simp: imm_bits min_def add.commute)

text \<open>
  The five immediate decoders place every bit as the instruction formats prescribe, sign bits included.
\<close>

theorem immediate_formats:
  assumes "n < 64"
  shows "bit (immI i) n = imm_bit TYPE_I i n \<and> bit (immS i) n = imm_bit TYPE_S i n \<and> bit (immB i) n = imm_bit TYPE_B i n \<and>
    bit (immU i) n = imm_bit TYPE_U i n \<and> bit (immJ i) n = imm_bit TYPE_J i n"
  using assms immI_bit immS_bit immB_bit immU_bit immJ_bit by simp

theorem immediate_formats_witness:
  "bit (immB 0xfe0008e3) 12 = imm_bit TYPE_B 0xfe0008e3 12"
  using immediate_formats [of 12 "0xfe0008e3"] by simp

section \<open>Properties of the dispatch\<close>

lemma table_lookup_row:
  assumes "table_lookup rows raw = x" and "x \<noteq> X_inv"
  shows "\<exists>pat ty. (pat, x, ty) \<in> set rows \<and> instpat_match pat raw"
  using assms by (induction rows raw rule: table_lookup.induct) (auto split: if_splits)

text \<open>
  C23. For every instruction word that the pattern table decodes to an instruction other than srai and fence.i, the
  opcode dispatch selects the executor of that instruction.
\<close>

theorem dispatch_agrees_with_table:
  assumes "table_lookup inst_table raw = x" and "x \<notin> {X_inv, X_fence_i, X_srai}"
  shows "exec_fn (ir_decode raw pc snpc ir m) = x"
  using table_lookup_row [OF assms(1)] table_row_dispatch assms(2) by blast

theorem dispatch_agrees_with_table_witness:
  "exec_fn (ir_decode 0x00150513 0x80000000 0x80000004 zero_ir zero_machine) = X_addi"
proof -
  have "table_lookup inst_table 0x00150513 = X_addi"
    by (simp add: inst_table_def instpat_match_def pattern_decode_rows)
  then show ?thesis using dispatch_agrees_with_table [of "0x00150513" X_addi] by simp
qed

text \<open>
  A word that matches the srai pattern is dispatched to the executor of srli, since the dispatch compares the top six
  bits with 0x20 instead of 0x10.
\<close>

lemma srai_dispatched_as_srli:
  assumes "instpat_match ''010000? ????? ????? 101 ????? 00100 11'' raw"
  shows "ir_decode raw pc snpc ir m = set_exec ''srli'' X_srli (ir_fill_operands (ir_init raw pc snpc ir) raw TYPE_I m)"
  using match_fields [OF assms] by (simp add: pattern_decode_rows ir_decode_def decode_op_imm_def Let_def)

end
