(* ===== verification/Decode_Facts.thy ===== *)
theory Decode_Facts
  imports Decode_Model
begin

text \<open>
  What the rest of the development uses of the decoder: the register fields are in range, and an instruction of the
  user level is decoded to the operands of its format and its executor.
\<close>

section \<open>Register fields\<close>

text \<open>A decoded instruction names a register or none.\<close>

definition reg_field :: "int \<Rightarrow> bool" where
  "reg_field r \<longleftrightarrow> r = -1 \<or> 0 \<le> r \<and> r < 32"

lemma ibits_reg: "uint (ibits i (lo + 4) lo) < 32"
proof -
  have "unat (BITS (ucast i) (lo + 4) lo) < 2 ^ 5"
    by (rule order_less_le_trans [OF BITS_less]) simp
  then have "nat (uint (ibits i (lo + 4) lo)) < nat 32"
    unfolding ibits_def unat_eq_nat_uint by (rule order_less_le_trans) simp
  then show ?thesis unfolding zless_nat_conj by blast
qed

lemma fill_reg_fields:
  "reg_field (ir_rd (ir_fill_operands ir raw ty m))"
  using ibits_reg [where i = raw and lo = 7] by (cases ty) (simp_all add: ir_fill_operands_def reg_field_def Let_def)

text \<open>The decoded form of an instruction of the user level: the operands of its format and its executor.\<close>

definition user_op :: "exec_op \<Rightarrow> bool" where
  "user_op x \<longleftrightarrow> x \<notin> {X_inv, X_fence_i, X_srai, X_csrrw, X_csrrs, X_csrrc, X_ecall, X_mret, X_ebreak, X_fence}"

lemmas decode_defs = ir_decode_def decode_op_imm_def decode_load_def decode_store_def
  decode_branch_def decode_op_imm_w_def decode_op_def decode_op_w_def decode_system_def Let_def

lemma user_rows:
  "user_op X_auipc = True" "user_op X_lui = True" "user_op X_add = True" "user_op X_mul = True" "user_op X_sub = True" "user_op X_or = True" "user_op X_xor = True" "user_op X_and = True" "user_op X_slt = True" "user_op X_sltu = True" "user_op X_sll = True" "user_op X_srl = True" "user_op X_sra = True" "user_op X_div = True" "user_op X_divu = True" "user_op X_rem = True" "user_op X_remu = True" "user_op X_addw = True" "user_op X_mulw = True" "user_op
  X_subw = True" "user_op X_sllw = True" "user_op X_srlw = True" "user_op X_sraw = True" "user_op X_divw = True"
  "user_op X_divuw = True" "user_op X_remw = True" "user_op X_remuw = True" "user_op X_addi = True" "user_op X_ori = True" "user_op X_xori = True" "user_op X_andi = True" "user_op X_slti = True" "user_op X_sltiu = True" "user_op
  X_slli = True" "user_op X_srli = True" "user_op X_srai = False" "user_op X_addiw = True" "user_op X_slliw = True"
  "user_op X_srliw = True" "user_op X_sraiw = True" "user_op X_jal = True" "user_op X_jalr = True" "user_op X_beq = True" "user_op X_bne = True" "user_op X_blt = True" "user_op X_bge = True" "user_op X_bltu = True" "user_op X_bgeu
  = True" "user_op X_ld = True" "user_op X_lw = True" "user_op X_lh = True" "user_op X_lb = True" "user_op X_lwu = True" "user_op X_lhu = True" "user_op X_lbu = True" "user_op X_sd = True" "user_op X_sw = True" "user_op X_sh = True" "user_op X_sb = True" "user_op X_csrrw = False" "user_op X_csrrs = False" "user_op X_csrrc = False" "user_op
  X_ecall = False" "user_op X_mret = False" "user_op X_ebreak = False" "user_op X_fence_i = False" "user_op X_fence = False" "user_op X_inv = False"
  by (simp_all add: user_op_def)

lemma ir_name_set [simp]: "ir_name (set_exec nm x ir) = nm"
  by (simp add: set_exec_def)

lemma table_row_decode:
  assumes "(pat, x, ty) \<in> set inst_table" and "instpat_match pat raw" and "user_op x"
  shows "ir_decode raw pc snpc ir m =
    set_exec (ir_name (ir_decode raw pc snpc ir m)) x (ir_fill_operands (ir_init raw pc snpc ir) raw ty m)"
  using assms(1,3) unfolding inst_table_def list.set
  by (elim insertE emptyE;
      (simp add: user_rows; fail | use match_fields [OF assms(2)] in \<open>simp add: pattern_decode_rows decode_defs user_rows\<close>))

lemma set_exec_rd [simp]: "ir_rd (set_exec nm x ir) = ir_rd ir"
  by (simp add: set_exec_def)

lemma decode_rd: "reg_field (ir_rd (ir_decode raw pc snpc ir m))"
proof -
  have g: "ir_rd (decode_op_imm a b x) = ir_rd x" "ir_rd (decode_load a b x) = ir_rd x" "ir_rd (decode_store a b x) = ir_rd x"
    "ir_rd (decode_branch a b x) = ir_rd x" "ir_rd (decode_op_imm_w a b x) = ir_rd x" "ir_rd (decode_op a b x) = ir_rd x"
    "ir_rd (decode_op_w a b x) = ir_rd x" for a b x
    by (simp_all add: decode_op_imm_def decode_load_def decode_store_def decode_branch_def decode_op_imm_w_def decode_op_def
        decode_op_w_def)
  have "reg_field (-1)" by (simp add: reg_field_def)
  then show ?thesis
    using fill_reg_fields by (auto simp: ir_decode_def ir_init_def decode_system_def Let_def g)
qed

end
