(* ===== verification/Elftl.thy ===== *)
theory Elftl
  imports Sim_State
begin

text \<open>
  The function trace (\<^verbatim>\<open>src/monitor/elftl.c\<close>): look-ups in the symbol table and the list of calls and returns
  that \<^verbatim>\<open>jal\<close> and \<^verbatim>\<open>jalr\<close> append to. The linked list from \<^verbatim>\<open>head\<close> to \<^verbatim>\<open>tail\<close> is a list in the same order.
\<close>

section \<open>Strings\<close>

text \<open>\<^verbatim>\<open>strcmp(p, s) == 0\<close> where \<open>p\<close> points into a buffer.\<close>

fun streq :: "byte list \<Rightarrow> byte list \<Rightarrow> bool res" where
  "streq [] s = Inl Out_of_bounds"
| "streq (b # bs) [] = Inr (b = 0)"
| "streq (b # bs) (c # cs) = (if b \<noteq> c then Inr False else streq bs cs)"

definition ascii :: "string \<Rightarrow> byte list" where
  "ascii = map (\<lambda>c. of_char c)"

section \<open>Symbol table\<close>

fun findSym_loop :: "byte list \<Rightarrow> Elf64_Sym list \<Rightarrow> string \<Rightarrow> word_t res" where
  "findSym_loop st [] name = Inr (-1)"
| "findSym_loop st (y # ys) name =
     bind_res (streq (drop (unat (st_name y)) st) (ascii name)) (\<lambda>eq. if eq then Inr (st_value y) else findSym_loop st ys name)"

definition findSym :: "string \<Rightarrow> machine \<Rightarrow> word_t res" where
  "findSym name m = findSym_loop (strtab m) (symtab m) name"

fun findFunc_loop :: "Elf64_Sym list \<Rightarrow> word_t \<Rightarrow> u32 option" where
  "findFunc_loop [] addr = None"
| "findFunc_loop (y # ys) addr =
     (if st_value y \<le> addr \<and> addr < st_value y + st_size y then Some (st_name y) else findFunc_loop ys addr)"

definition findFunc :: "word_t \<Rightarrow> machine \<Rightarrow> u32 option" where
  "findFunc addr m = findFunc_loop (symtab m) addr"

section \<open>The trace\<close>

definition add_ftrace :: "word_t \<Rightarrow> bool \<Rightarrow> machine \<Rightarrow> machine" where
  "add_ftrace addr is_call m =
     (if \<not> g_ftrace_en m then m
      else
        let d = (if is_call then ftrace_depth m else ftrace_depth m - 1);
            p = \<lparr>ft_func_name = findFunc addr m, ft_addr = addr, ft_is_call = is_call, ft_depth = d\<rparr>
        in m\<lparr>ftrace := ftrace m @ [p], ftrace_depth := (if is_call then ftrace_depth m + 1 else d)\<rparr>)"

section \<open>Facts\<close>

lemma findFunc_loop_Some:
  assumes "findFunc_loop ys addr = Some s"
  shows "\<exists>y\<in>set ys. st_name y = s \<and> st_value y \<le> addr \<and> addr < st_value y + st_size y"
  using assms by (induction ys) (auto split: if_splits)

lemma findFunc_loop_None:
  "findFunc_loop ys addr = None \<longleftrightarrow> (\<forall>y\<in>set ys. \<not> (st_value y \<le> addr \<and> addr < st_value y + st_size y))"
  by (induction ys) auto

lemma add_ftrace_frame:
  "add_ftrace a c m = m\<lparr>ftrace := ftrace (add_ftrace a c m), ftrace_depth := ftrace_depth (add_ftrace a c m)\<rparr>"
  by (simp add: add_ftrace_def Let_def)

text \<open>
  The indentation of each entry is the number of calls before it less the number of returns up to it.
\<close>

definition call_balance :: "ftrace_element list \<Rightarrow> int" where
  "call_balance t = sum_list (map (\<lambda>e. if ft_is_call e then 1 else -1) t)"

definition depths_ok :: "int \<Rightarrow> ftrace_element list \<Rightarrow> bool" where
  "depths_ok d t \<longleftrightarrow> (\<forall>i < length t.
     ft_depth (t ! i) = d + call_balance (take (if ft_is_call (t ! i) then i else Suc i) t))"

lemma call_balance_append [simp]: "call_balance (t @ u) = call_balance t + call_balance u"
  by (simp add: call_balance_def)

lemma call_balance_Nil [simp]: "call_balance [] = 0"
  by (simp add: call_balance_def)

lemma call_balance_single [simp]: "call_balance [e] = (if ft_is_call e then 1 else -1)"
  by (simp add: call_balance_def)

lemma depths_ok_snoc:
  assumes "depths_ok d t"
    and "ft_depth e = d + call_balance t + (if ft_is_call e then 0 else -1)"
  shows "depths_ok d (t @ [e])"
  using assms by (auto simp: depths_ok_def nth_append less_Suc_eq)

lemma add_ftrace_depths:
  assumes "depths_ok 0 (ftrace m)" and "ftrace_depth m = call_balance (ftrace m)"
  shows "depths_ok 0 (ftrace (add_ftrace a c m))"
    and "ftrace_depth (add_ftrace a c m) = call_balance (ftrace (add_ftrace a c m))"
  using assms by (auto simp: add_ftrace_def Let_def intro!: depths_ok_snoc)

end
