(* ===== verification/Exec.thy ===== *)
theory Exec
  imports Vmem Decode_Facts Elftl
begin

text \<open>
  Execution of a decoded instruction (\<^verbatim>\<open>src/cpu/ir.c\<close>): the executor functions \<^verbatim>\<open>ir_exec_*\<close>, \<^verbatim>\<open>ir_execute\<close>,
  \<^verbatim>\<open>ir_mem_access\<close> and \<^verbatim>\<open>ir_writeback\<close>. An operation that C leaves undefined (a division by zero or with a quotient
  out of range, a shift by 64 or more, a signed product out of range) is an error.
\<close>

section \<open>C arithmetic on signed integers\<close>

text \<open>\<^verbatim>\<open>(int32_t)(w & 0xffffffff)\<close>\<close>

definition int32 :: "word_t \<Rightarrow> int" where
  "int32 w = sint (ucast w :: u32)"

definition int_fits :: "nat \<Rightarrow> int \<Rightarrow> bool" where
  "int_fits n x \<longleftrightarrow> - (2 ^ (n - 1)) \<le> x \<and> x < 2 ^ (n - 1)"

definition div_defined :: "nat \<Rightarrow> int \<Rightarrow> int \<Rightarrow> bool" where
  "div_defined n x y \<longleftrightarrow> y \<noteq> 0 \<and> int_fits n (x sdiv y)"

section \<open>Executors\<close>

subsection \<open>Upper immediates\<close>

definition ir_exec_auipc :: "IR_Inst \<Rightarrow> IR_Inst" where
  "ir_exec_auipc ir = ir\<lparr>ir_type := ITYPE_AUIPC, result := src1_val ir + ir_pc ir, dnpc := ir_snpc ir\<rparr>"

definition ir_exec_lui :: "IR_Inst \<Rightarrow> IR_Inst" where
  "ir_exec_lui ir = ir\<lparr>ir_type := ITYPE_LUI, result := src1_val ir AND 0xfffffffffffff000, dnpc := ir_snpc ir\<rparr>"

subsection \<open>Register-register\<close>

definition ir_exec_add :: "IR_Inst \<Rightarrow> IR_Inst" where
  "ir_exec_add ir =
     ir\<lparr>ir_type := ITYPE_ALU, result := src1_val ir + src2_val ir, dnpc := ir_snpc ir\<rparr>"

definition ir_exec_mul :: "IR_Inst \<Rightarrow> IR_Inst" where
  "ir_exec_mul ir =
     ir\<lparr>ir_type := ITYPE_ALU, result := src1_val ir * src2_val ir, dnpc := ir_snpc ir\<rparr>"

definition ir_exec_sub :: "IR_Inst \<Rightarrow> IR_Inst" where
  "ir_exec_sub ir =
     ir\<lparr>ir_type := ITYPE_ALU, result := src1_val ir - src2_val ir, dnpc := ir_snpc ir\<rparr>"

definition ir_exec_or :: "IR_Inst \<Rightarrow> IR_Inst" where
  "ir_exec_or ir =
     ir\<lparr>ir_type := ITYPE_ALU, result := src1_val ir OR src2_val ir, dnpc := ir_snpc ir\<rparr>"

definition ir_exec_xor :: "IR_Inst \<Rightarrow> IR_Inst" where
  "ir_exec_xor ir =
     ir\<lparr>ir_type := ITYPE_ALU, result := src1_val ir XOR src2_val ir, dnpc := ir_snpc ir\<rparr>"

definition ir_exec_and :: "IR_Inst \<Rightarrow> IR_Inst" where
  "ir_exec_and ir =
     ir\<lparr>ir_type := ITYPE_ALU, result := src1_val ir AND src2_val ir, dnpc := ir_snpc ir\<rparr>"

definition ir_exec_slt :: "IR_Inst \<Rightarrow> IR_Inst" where
  "ir_exec_slt ir =
     ir\<lparr>ir_type := ITYPE_ALU, result := (if src1_val ir <s src2_val ir then 1 else 0), dnpc := ir_snpc ir\<rparr>"

definition ir_exec_sltu :: "IR_Inst \<Rightarrow> IR_Inst" where
  "ir_exec_sltu ir =
     ir\<lparr>ir_type := ITYPE_ALU, result := (if src1_val ir < src2_val ir then 1 else 0), dnpc := ir_snpc ir\<rparr>"

definition ir_exec_sll :: "IR_Inst \<Rightarrow> IR_Inst" where
  "ir_exec_sll ir =
     ir\<lparr>ir_type := ITYPE_ALU, result := push_bit (unat (src2_val ir AND 0x3f)) (src1_val ir), dnpc := ir_snpc ir\<rparr>"

definition ir_exec_srl :: "IR_Inst \<Rightarrow> IR_Inst" where
  "ir_exec_srl ir =
     ir\<lparr>ir_type := ITYPE_ALU, result := drop_bit (unat (src2_val ir AND 0x3f)) (src1_val ir), dnpc := ir_snpc ir\<rparr>"

definition ir_exec_sra :: "IR_Inst \<Rightarrow> IR_Inst" where
  "ir_exec_sra ir =
     ir\<lparr>ir_type := ITYPE_ALU, result := signed_drop_bit (unat (src2_val ir AND 0x3f)) (src1_val ir), dnpc := ir_snpc ir\<rparr>"

definition ir_exec_div :: "IR_Inst \<Rightarrow> IR_Inst res" where
  "ir_exec_div ir =
     bind_res (guard (div_defined 64 (sint (src1_val ir)) (sint (src2_val ir))) Division_undefined) (\<lambda>_.
     Inr (ir\<lparr>ir_type := ITYPE_ALU, result := word_of_int (sint (src1_val ir) sdiv sint (src2_val ir)), dnpc := ir_snpc ir\<rparr>))"

definition ir_exec_divu :: "IR_Inst \<Rightarrow> IR_Inst res" where
  "ir_exec_divu ir =
     bind_res (guard (src2_val ir \<noteq> 0) Division_undefined) (\<lambda>_.
     Inr (ir\<lparr>ir_type := ITYPE_ALU, result := src1_val ir div src2_val ir, dnpc := ir_snpc ir\<rparr>))"

definition ir_exec_rem :: "IR_Inst \<Rightarrow> IR_Inst res" where
  "ir_exec_rem ir =
     bind_res (guard (div_defined 64 (sint (src1_val ir)) (sint (src2_val ir))) Division_undefined) (\<lambda>_.
     Inr (ir\<lparr>ir_type := ITYPE_ALU, result := word_of_int (sint (src1_val ir) smod sint (src2_val ir)), dnpc := ir_snpc ir\<rparr>))"

definition ir_exec_remu :: "IR_Inst \<Rightarrow> IR_Inst res" where
  "ir_exec_remu ir =
     bind_res (guard (src2_val ir \<noteq> 0) Division_undefined) (\<lambda>_.
     Inr (ir\<lparr>ir_type := ITYPE_ALU, result := src1_val ir mod src2_val ir, dnpc := ir_snpc ir\<rparr>))"

subsection \<open>Register-register, 32 bits\<close>

definition ir_exec_addw :: "IR_Inst \<Rightarrow> IR_Inst" where
  "ir_exec_addw ir =
     ir\<lparr>ir_type := ITYPE_ALU, result := SEXT ((src1_val ir + src2_val ir) AND 0xffffffff) 32, dnpc := ir_snpc ir\<rparr>"

definition ir_exec_mulw :: "IR_Inst \<Rightarrow> IR_Inst res" where
  "ir_exec_mulw ir =
     bind_res (guard (int_fits 32 (int32 (src1_val ir) * int32 (src2_val ir))) Signed_overflow) (\<lambda>_.
     Inr (ir\<lparr>ir_type := ITYPE_ALU, result := SEXT (word_of_int (int32 (src1_val ir) * int32 (src2_val ir))) 32, dnpc := ir_snpc ir\<rparr>))"

definition ir_exec_subw :: "IR_Inst \<Rightarrow> IR_Inst" where
  "ir_exec_subw ir =
     ir\<lparr>ir_type := ITYPE_ALU, result := SEXT ((src1_val ir - src2_val ir) AND 0xffffffff) 32, dnpc := ir_snpc ir\<rparr>"

definition ir_exec_sllw :: "IR_Inst \<Rightarrow> IR_Inst" where
  "ir_exec_sllw ir =
     ir\<lparr>ir_type := ITYPE_ALU, result := SEXT (push_bit (unat (src2_val ir AND 0x1f)) (src1_val ir AND 0xffffffff) AND 0xffffffff) 32, dnpc := ir_snpc ir\<rparr>"

definition ir_exec_srlw :: "IR_Inst \<Rightarrow> IR_Inst" where
  "ir_exec_srlw ir =
     ir\<lparr>ir_type := ITYPE_ALU, result := SEXT (drop_bit (unat (src2_val ir AND 0x1f)) (src1_val ir AND 0xffffffff) AND 0xffffffff) 32, dnpc := ir_snpc ir\<rparr>"

definition ir_exec_sraw :: "IR_Inst \<Rightarrow> IR_Inst" where
  "ir_exec_sraw ir =
     ir\<lparr>ir_type := ITYPE_ALU, result := SEXT (word_of_int (drop_bit (unat (src2_val ir AND 0x1f)) (int32 (src1_val ir)))) 32, dnpc := ir_snpc ir\<rparr>"

definition ir_exec_divw :: "IR_Inst \<Rightarrow> IR_Inst res" where
  "ir_exec_divw ir =
     bind_res (guard (div_defined 32 (int32 (src1_val ir)) (int32 (src2_val ir))) Division_undefined) (\<lambda>_.
     Inr (ir\<lparr>ir_type := ITYPE_ALU, result := SEXT (word_of_int (int32 (src1_val ir) sdiv int32 (src2_val ir))) 32, dnpc := ir_snpc ir\<rparr>))"

definition ir_exec_divuw :: "IR_Inst \<Rightarrow> IR_Inst res" where
  "ir_exec_divuw ir =
     bind_res (guard (src2_val ir AND 0xffffffff \<noteq> 0) Division_undefined) (\<lambda>_.
     Inr (ir\<lparr>ir_type := ITYPE_ALU, result := SEXT ((src1_val ir AND 0xffffffff) div (src2_val ir AND 0xffffffff)) 32, dnpc := ir_snpc ir\<rparr>))"

definition ir_exec_remw :: "IR_Inst \<Rightarrow> IR_Inst res" where
  "ir_exec_remw ir =
     bind_res (guard (div_defined 32 (int32 (src1_val ir)) (int32 (src2_val ir))) Division_undefined) (\<lambda>_.
     Inr (ir\<lparr>ir_type := ITYPE_ALU, result := SEXT (word_of_int (int32 (src1_val ir) smod int32 (src2_val ir)) AND 0xffffffff) 32, dnpc := ir_snpc ir\<rparr>))"

definition ir_exec_remuw :: "IR_Inst \<Rightarrow> IR_Inst res" where
  "ir_exec_remuw ir =
     bind_res (guard (src2_val ir AND 0xffffffff \<noteq> 0) Division_undefined) (\<lambda>_.
     Inr (ir\<lparr>ir_type := ITYPE_ALU, result := SEXT (((src1_val ir AND 0xffffffff) mod (src2_val ir AND 0xffffffff)) AND 0xffffffff) 32, dnpc := ir_snpc ir\<rparr>))"

subsection \<open>Register-immediate\<close>

definition ir_exec_addi :: "IR_Inst \<Rightarrow> IR_Inst" where
  "ir_exec_addi ir =
     ir\<lparr>ir_type := ITYPE_ALU, result := src1_val ir + src2_val ir, dnpc := ir_snpc ir\<rparr>"

definition ir_exec_ori :: "IR_Inst \<Rightarrow> IR_Inst" where
  "ir_exec_ori ir =
     ir\<lparr>ir_type := ITYPE_ALU, result := src1_val ir OR src2_val ir, dnpc := ir_snpc ir\<rparr>"

definition ir_exec_xori :: "IR_Inst \<Rightarrow> IR_Inst" where
  "ir_exec_xori ir =
     ir\<lparr>ir_type := ITYPE_ALU, result := src1_val ir XOR src2_val ir, dnpc := ir_snpc ir\<rparr>"

definition ir_exec_andi :: "IR_Inst \<Rightarrow> IR_Inst" where
  "ir_exec_andi ir =
     ir\<lparr>ir_type := ITYPE_ALU, result := src1_val ir AND src2_val ir, dnpc := ir_snpc ir\<rparr>"

definition ir_exec_slti :: "IR_Inst \<Rightarrow> IR_Inst" where
  "ir_exec_slti ir =
     ir\<lparr>ir_type := ITYPE_ALU, result := (if src1_val ir <s src2_val ir then 1 else 0), dnpc := ir_snpc ir\<rparr>"

definition ir_exec_sltiu :: "IR_Inst \<Rightarrow> IR_Inst" where
  "ir_exec_sltiu ir =
     ir\<lparr>ir_type := ITYPE_ALU, result := (if src1_val ir < src2_val ir then 1 else 0), dnpc := ir_snpc ir\<rparr>"

definition ir_exec_slli :: "IR_Inst \<Rightarrow> IR_Inst res" where
  "ir_exec_slli ir =
     bind_res (guard (src2_val ir < 64) Shift_undefined) (\<lambda>_.
     Inr (ir\<lparr>ir_type := ITYPE_ALU, result := push_bit (unat (src2_val ir)) (src1_val ir), dnpc := ir_snpc ir\<rparr>))"

definition ir_exec_srli :: "IR_Inst \<Rightarrow> IR_Inst res" where
  "ir_exec_srli ir =
     bind_res (guard (src2_val ir < 64) Shift_undefined) (\<lambda>_.
     Inr (ir\<lparr>ir_type := ITYPE_ALU, result := drop_bit (unat (src2_val ir)) (src1_val ir), dnpc := ir_snpc ir\<rparr>))"

definition ir_exec_srai :: "IR_Inst \<Rightarrow> IR_Inst" where
  "ir_exec_srai ir =
     ir\<lparr>ir_type := ITYPE_ALU, result := signed_drop_bit (unat (src2_val ir AND 0x3f)) (src1_val ir), dnpc := ir_snpc ir\<rparr>"

subsection \<open>Register-immediate, 32 bits\<close>

definition ir_exec_addiw :: "IR_Inst \<Rightarrow> IR_Inst" where
  "ir_exec_addiw ir =
     ir\<lparr>ir_type := ITYPE_ALU, result := SEXT ((src1_val ir + src2_val ir) AND 0xffffffff) 32, dnpc := ir_snpc ir\<rparr>"

definition ir_exec_slliw :: "IR_Inst \<Rightarrow> IR_Inst res" where
  "ir_exec_slliw ir =
     bind_res (guard (src2_val ir < 64) Shift_undefined) (\<lambda>_.
     Inr (ir\<lparr>ir_type := ITYPE_ALU, result := SEXT (push_bit (unat (src2_val ir)) (src1_val ir AND 0xffffffff) AND 0xffffffff) 32, dnpc := ir_snpc ir\<rparr>))"

definition ir_exec_srliw :: "IR_Inst \<Rightarrow> IR_Inst res" where
  "ir_exec_srliw ir =
     bind_res (guard (src2_val ir < 64) Shift_undefined) (\<lambda>_.
     Inr (ir\<lparr>ir_type := ITYPE_ALU, result := SEXT (drop_bit (unat (src2_val ir)) (src1_val ir AND 0xffffffff) AND 0xffffffff) 32, dnpc := ir_snpc ir\<rparr>))"

definition ir_exec_sraiw :: "IR_Inst \<Rightarrow> IR_Inst" where
  "ir_exec_sraiw ir =
     ir\<lparr>ir_type := ITYPE_ALU, result := SEXT (word_of_int (drop_bit (unat (src2_val ir AND 0x1f)) (int32 (src1_val ir)))) 32, dnpc := ir_snpc ir\<rparr>"

lemmas alu_defs =
  ir_exec_add_def ir_exec_mul_def ir_exec_sub_def ir_exec_or_def ir_exec_xor_def ir_exec_and_def ir_exec_slt_def
  ir_exec_sltu_def ir_exec_sll_def ir_exec_srl_def ir_exec_sra_def ir_exec_div_def ir_exec_divu_def
  ir_exec_rem_def ir_exec_remu_def ir_exec_addw_def ir_exec_mulw_def ir_exec_subw_def ir_exec_sllw_def
  ir_exec_srlw_def ir_exec_sraw_def ir_exec_divw_def ir_exec_divuw_def ir_exec_remw_def ir_exec_remuw_def
  ir_exec_addi_def ir_exec_ori_def ir_exec_xori_def ir_exec_andi_def ir_exec_slti_def ir_exec_sltiu_def
  ir_exec_slli_def ir_exec_srli_def ir_exec_srai_def ir_exec_addiw_def ir_exec_slliw_def ir_exec_srliw_def
  ir_exec_sraiw_def

subsection \<open>Jumps\<close>

definition ir_exec_jal :: "IR_Inst \<Rightarrow> machine \<Rightarrow> IR_Inst \<times> machine" where
  "ir_exec_jal ir m =
    (let ir = ir\<lparr>ir_type := ITYPE_JAL, result := ir_snpc ir, dnpc := ir_pc ir + src1_val ir\<rparr> in
     (ir, if ir_rd ir = 1 \<or> ir_rd ir = 5 then add_ftrace (dnpc ir) True m else m))"

definition ir_exec_jalr :: "IR_Inst \<Rightarrow> machine \<Rightarrow> IR_Inst \<times> machine" where
  "ir_exec_jalr ir m =
    (let ir = ir\<lparr>ir_type := ITYPE_JALR, result := ir_snpc ir, dnpc := (src1_val ir + src2_val ir) AND NOT 1\<rparr> in
     (ir, if ir_rd ir = 0 \<and> ir_rs1 ir = 1 then add_ftrace (dnpc ir) False m
          else if ir_rd ir = 1 \<or> ir_rd ir = 5 then add_ftrace (dnpc ir) True m else m))"

subsection \<open>Branches\<close>

definition ir_exec_beq :: "IR_Inst \<Rightarrow> IR_Inst" where
  "ir_exec_beq ir =
    (let t = (src1_val ir = src2_val ir) in
     ir\<lparr>ir_type := ITYPE_BRANCH, taken := t, dnpc := if t then ir_pc ir + imm ir else ir_snpc ir\<rparr>)"

definition ir_exec_bne :: "IR_Inst \<Rightarrow> IR_Inst" where
  "ir_exec_bne ir =
    (let t = (src1_val ir \<noteq> src2_val ir) in
     ir\<lparr>ir_type := ITYPE_BRANCH, taken := t, dnpc := if t then ir_pc ir + imm ir else ir_snpc ir\<rparr>)"

definition ir_exec_blt :: "IR_Inst \<Rightarrow> IR_Inst" where
  "ir_exec_blt ir =
    (let t = (src1_val ir <s src2_val ir) in
     ir\<lparr>ir_type := ITYPE_BRANCH, taken := t, dnpc := if t then ir_pc ir + imm ir else ir_snpc ir\<rparr>)"

definition ir_exec_bge :: "IR_Inst \<Rightarrow> IR_Inst" where
  "ir_exec_bge ir =
    (let t = (src2_val ir <=s src1_val ir) in
     ir\<lparr>ir_type := ITYPE_BRANCH, taken := t, dnpc := if t then ir_pc ir + imm ir else ir_snpc ir\<rparr>)"

definition ir_exec_bltu :: "IR_Inst \<Rightarrow> IR_Inst" where
  "ir_exec_bltu ir =
    (let t = (src1_val ir < src2_val ir) in
     ir\<lparr>ir_type := ITYPE_BRANCH, taken := t, dnpc := if t then ir_pc ir + imm ir else ir_snpc ir\<rparr>)"

definition ir_exec_bgeu :: "IR_Inst \<Rightarrow> IR_Inst" where
  "ir_exec_bgeu ir =
    (let t = (src1_val ir \<ge> src2_val ir) in
     ir\<lparr>ir_type := ITYPE_BRANCH, taken := t, dnpc := if t then ir_pc ir + imm ir else ir_snpc ir\<rparr>)"

subsection \<open>Loads and stores: the address; the access is made later\<close>

definition ir_exec_ld :: "IR_Inst \<Rightarrow> IR_Inst" where
  "ir_exec_ld ir =
     ir\<lparr>ir_type := ITYPE_LOAD, mem_addr := src1_val ir + src2_val ir, mem_width := 8, mem_sign := False, dnpc := ir_snpc ir\<rparr>"

definition ir_exec_lw :: "IR_Inst \<Rightarrow> IR_Inst" where
  "ir_exec_lw ir =
     ir\<lparr>ir_type := ITYPE_LOAD, mem_addr := src1_val ir + src2_val ir, mem_width := 4, mem_sign := True, dnpc := ir_snpc ir\<rparr>"

definition ir_exec_lh :: "IR_Inst \<Rightarrow> IR_Inst" where
  "ir_exec_lh ir =
     ir\<lparr>ir_type := ITYPE_LOAD, mem_addr := src1_val ir + src2_val ir, mem_width := 2, mem_sign := True, dnpc := ir_snpc ir\<rparr>"

definition ir_exec_lb :: "IR_Inst \<Rightarrow> IR_Inst" where
  "ir_exec_lb ir =
     ir\<lparr>ir_type := ITYPE_LOAD, mem_addr := src1_val ir + src2_val ir, mem_width := 1, mem_sign := True, dnpc := ir_snpc ir\<rparr>"

definition ir_exec_lwu :: "IR_Inst \<Rightarrow> IR_Inst" where
  "ir_exec_lwu ir =
     ir\<lparr>ir_type := ITYPE_LOAD, mem_addr := src1_val ir + src2_val ir, mem_width := 4, mem_sign := False, dnpc := ir_snpc ir\<rparr>"

definition ir_exec_lhu :: "IR_Inst \<Rightarrow> IR_Inst" where
  "ir_exec_lhu ir =
     ir\<lparr>ir_type := ITYPE_LOAD, mem_addr := src1_val ir + src2_val ir, mem_width := 2, mem_sign := False, dnpc := ir_snpc ir\<rparr>"

definition ir_exec_lbu :: "IR_Inst \<Rightarrow> IR_Inst" where
  "ir_exec_lbu ir =
     ir\<lparr>ir_type := ITYPE_LOAD, mem_addr := src1_val ir + src2_val ir, mem_width := 1, mem_sign := False, dnpc := ir_snpc ir\<rparr>"

definition ir_exec_sd :: "IR_Inst \<Rightarrow> IR_Inst" where
  "ir_exec_sd ir =
     ir\<lparr>ir_type := ITYPE_STORE, mem_addr := src1_val ir + imm ir, mem_width := 8, dnpc := ir_snpc ir\<rparr>"

definition ir_exec_sw :: "IR_Inst \<Rightarrow> IR_Inst" where
  "ir_exec_sw ir =
     ir\<lparr>ir_type := ITYPE_STORE, mem_addr := src1_val ir + imm ir, mem_width := 4, dnpc := ir_snpc ir\<rparr>"

definition ir_exec_sh :: "IR_Inst \<Rightarrow> IR_Inst" where
  "ir_exec_sh ir =
     ir\<lparr>ir_type := ITYPE_STORE, mem_addr := src1_val ir + imm ir, mem_width := 2, dnpc := ir_snpc ir\<rparr>"

definition ir_exec_sb :: "IR_Inst \<Rightarrow> IR_Inst" where
  "ir_exec_sb ir =
     ir\<lparr>ir_type := ITYPE_STORE, mem_addr := src1_val ir + imm ir, mem_width := 1, dnpc := ir_snpc ir\<rparr>"

subsection \<open>CSR and system instructions\<close>

definition ir_exec_csrrw :: "IR_Inst \<Rightarrow> machine \<Rightarrow> (IR_Inst \<times> machine) res" where
  "ir_exec_csrrw ir m =
    (let ir = ir\<lparr>ir_type := ITYPE_CSR, serializing := True\<rparr>;
         csr_no = src2_val ir AND 0xfff
     in bind_res (if src2_val ir \<noteq> 0
                  then bind_res (read_csr csr_no m) (\<lambda>(v, m). Inr (ir\<lparr>result := v\<rparr>, m)) else Inr (ir, m)) (\<lambda>(ir, m).
        bind_res (set_csr csr_no (src1_val ir) m) (\<lambda>m.
        Inr (ir\<lparr>dnpc := ir_snpc ir\<rparr>, m))))"

definition ir_exec_csrrs :: "IR_Inst \<Rightarrow> machine \<Rightarrow> (IR_Inst \<times> machine) res" where
  "ir_exec_csrrs ir m =
    (let csr_no = src2_val ir AND 0xfff
     in bind_res (read_csr csr_no m) (\<lambda>(v, m).
        let ir = ir\<lparr>ir_type := ITYPE_CSR, serializing := True, result := v\<rparr> in
        bind_res (if src1_val ir \<noteq> 0 then set_csr csr_no (result ir OR src1_val ir) m else Inr m) (\<lambda>m.
        Inr (ir\<lparr>dnpc := ir_snpc ir\<rparr>, m))))"

definition ir_exec_csrrc :: "IR_Inst \<Rightarrow> machine \<Rightarrow> (IR_Inst \<times> machine) res" where
  "ir_exec_csrrc ir m =
    (let csr_no = src2_val ir AND 0xfff
     in bind_res (read_csr csr_no m) (\<lambda>(v, m).
        let ir = ir\<lparr>ir_type := ITYPE_CSR, serializing := True, result := v\<rparr> in
        bind_res (if src1_val ir \<noteq> 0 then set_csr csr_no (result ir AND NOT (src1_val ir)) m else Inr m) (\<lambda>m.
        Inr (ir\<lparr>dnpc := ir_snpc ir\<rparr>, m))))"

definition ir_exec_ecall :: "IR_Inst \<Rightarrow> CPU_state \<Rightarrow> machine \<Rightarrow> IR_Inst \<times> machine" where
  "ir_exec_ecall ir c m =
    (let (target, m) = raise_intr 11 (ir_pc ir) (ucast (gpr c ! 17)) m
     in (ir\<lparr>ir_type := ITYPE_SYSTEM, serializing := True, ir_rd := -1, dnpc := target\<rparr>, exception_priv_transfer m))"

definition ir_exec_mret :: "IR_Inst \<Rightarrow> machine \<Rightarrow> (IR_Inst \<times> machine) res" where
  "ir_exec_mret ir m =
     bind_res (read_csr (MEPC AND 0xfff) m) (\<lambda>(v, m).
     Inr (ir\<lparr>ir_type := ITYPE_SYSTEM, serializing := True, ir_rd := -1, dnpc := v\<rparr>, mret_priv_transfer m))"

definition ir_exec_ebreak :: "IR_Inst \<Rightarrow> machine \<Rightarrow> IR_Inst \<times> machine" where
  "ir_exec_ebreak ir m =
     (ir\<lparr>ir_type := ITYPE_SYSTEM, serializing := True, ir_rd := -1, dnpc := ir_snpc ir\<rparr>, m\<lparr>state := NEMU_END\<rparr>)"

subsection \<open>Fences and invalid instructions\<close>

definition ir_exec_fence_i :: "IR_Inst \<Rightarrow> IR_Inst" where
  "ir_exec_fence_i ir = ir\<lparr>ir_type := ITYPE_FENCE, result := 0, dnpc := ir_snpc ir\<rparr>"

definition ir_exec_fence :: "IR_Inst \<Rightarrow> IR_Inst" where
  "ir_exec_fence ir =
     ir\<lparr>ir_type := ITYPE_FENCE, serializing := True, ir_rd := -1, result := 0, dnpc := ir_snpc ir\<rparr>"

definition ir_exec_inv :: "IR_Inst \<Rightarrow> IR_Inst" where
  "ir_exec_inv ir = ir\<lparr>ir_type := ITYPE_INVALID, fault := True, dnpc := ir_snpc ir\<rparr>"

section \<open>Execute, memory access, write-back\<close>

definition ir_execute :: "IR_Inst \<Rightarrow> CPU_state \<Rightarrow> machine \<Rightarrow> (IR_Inst \<times> machine) res" where
  "ir_execute ir c m =
    (case exec_fn ir of
       X_auipc \<Rightarrow> Inr (ir_exec_auipc ir, m)
     | X_lui \<Rightarrow> Inr (ir_exec_lui ir, m)
     | X_add \<Rightarrow> Inr (ir_exec_add ir, m)
     | X_mul \<Rightarrow> Inr (ir_exec_mul ir, m)
     | X_sub \<Rightarrow> Inr (ir_exec_sub ir, m)
     | X_or \<Rightarrow> Inr (ir_exec_or ir, m)
     | X_xor \<Rightarrow> Inr (ir_exec_xor ir, m)
     | X_and \<Rightarrow> Inr (ir_exec_and ir, m)
     | X_slt \<Rightarrow> Inr (ir_exec_slt ir, m)
     | X_sltu \<Rightarrow> Inr (ir_exec_sltu ir, m)
     | X_sll \<Rightarrow> Inr (ir_exec_sll ir, m)
     | X_srl \<Rightarrow> Inr (ir_exec_srl ir, m)
     | X_sra \<Rightarrow> Inr (ir_exec_sra ir, m)
     | X_div \<Rightarrow> bind_res (ir_exec_div ir) (\<lambda>ir. Inr (ir, m))
     | X_divu \<Rightarrow> bind_res (ir_exec_divu ir) (\<lambda>ir. Inr (ir, m))
     | X_rem \<Rightarrow> bind_res (ir_exec_rem ir) (\<lambda>ir. Inr (ir, m))
     | X_remu \<Rightarrow> bind_res (ir_exec_remu ir) (\<lambda>ir. Inr (ir, m))
     | X_addw \<Rightarrow> Inr (ir_exec_addw ir, m)
     | X_mulw \<Rightarrow> bind_res (ir_exec_mulw ir) (\<lambda>ir. Inr (ir, m))
     | X_subw \<Rightarrow> Inr (ir_exec_subw ir, m)
     | X_sllw \<Rightarrow> Inr (ir_exec_sllw ir, m)
     | X_srlw \<Rightarrow> Inr (ir_exec_srlw ir, m)
     | X_sraw \<Rightarrow> Inr (ir_exec_sraw ir, m)
     | X_divw \<Rightarrow> bind_res (ir_exec_divw ir) (\<lambda>ir. Inr (ir, m))
     | X_divuw \<Rightarrow> bind_res (ir_exec_divuw ir) (\<lambda>ir. Inr (ir, m))
     | X_remw \<Rightarrow> bind_res (ir_exec_remw ir) (\<lambda>ir. Inr (ir, m))
     | X_remuw \<Rightarrow> bind_res (ir_exec_remuw ir) (\<lambda>ir. Inr (ir, m))
     | X_addi \<Rightarrow> Inr (ir_exec_addi ir, m)
     | X_ori \<Rightarrow> Inr (ir_exec_ori ir, m)
     | X_xori \<Rightarrow> Inr (ir_exec_xori ir, m)
     | X_andi \<Rightarrow> Inr (ir_exec_andi ir, m)
     | X_slti \<Rightarrow> Inr (ir_exec_slti ir, m)
     | X_sltiu \<Rightarrow> Inr (ir_exec_sltiu ir, m)
     | X_slli \<Rightarrow> bind_res (ir_exec_slli ir) (\<lambda>ir. Inr (ir, m))
     | X_srli \<Rightarrow> bind_res (ir_exec_srli ir) (\<lambda>ir. Inr (ir, m))
     | X_srai \<Rightarrow> Inr (ir_exec_srai ir, m)
     | X_addiw \<Rightarrow> Inr (ir_exec_addiw ir, m)
     | X_slliw \<Rightarrow> bind_res (ir_exec_slliw ir) (\<lambda>ir. Inr (ir, m))
     | X_srliw \<Rightarrow> bind_res (ir_exec_srliw ir) (\<lambda>ir. Inr (ir, m))
     | X_sraiw \<Rightarrow> Inr (ir_exec_sraiw ir, m)
     | X_jal \<Rightarrow> Inr (ir_exec_jal ir m)
     | X_jalr \<Rightarrow> Inr (ir_exec_jalr ir m)
     | X_beq \<Rightarrow> Inr (ir_exec_beq ir, m)
     | X_bne \<Rightarrow> Inr (ir_exec_bne ir, m)
     | X_blt \<Rightarrow> Inr (ir_exec_blt ir, m)
     | X_bge \<Rightarrow> Inr (ir_exec_bge ir, m)
     | X_bltu \<Rightarrow> Inr (ir_exec_bltu ir, m)
     | X_bgeu \<Rightarrow> Inr (ir_exec_bgeu ir, m)
     | X_ld \<Rightarrow> Inr (ir_exec_ld ir, m)
     | X_lw \<Rightarrow> Inr (ir_exec_lw ir, m)
     | X_lh \<Rightarrow> Inr (ir_exec_lh ir, m)
     | X_lb \<Rightarrow> Inr (ir_exec_lb ir, m)
     | X_lwu \<Rightarrow> Inr (ir_exec_lwu ir, m)
     | X_lhu \<Rightarrow> Inr (ir_exec_lhu ir, m)
     | X_lbu \<Rightarrow> Inr (ir_exec_lbu ir, m)
     | X_sd \<Rightarrow> Inr (ir_exec_sd ir, m)
     | X_sw \<Rightarrow> Inr (ir_exec_sw ir, m)
     | X_sh \<Rightarrow> Inr (ir_exec_sh ir, m)
     | X_sb \<Rightarrow> Inr (ir_exec_sb ir, m)
     | X_csrrw \<Rightarrow> ir_exec_csrrw ir m
     | X_csrrs \<Rightarrow> ir_exec_csrrs ir m
     | X_csrrc \<Rightarrow> ir_exec_csrrc ir m
     | X_ecall \<Rightarrow> Inr (ir_exec_ecall ir c m)
     | X_mret \<Rightarrow> ir_exec_mret ir m
     | X_ebreak \<Rightarrow> Inr (ir_exec_ebreak ir m)
     | X_fence_i \<Rightarrow> Inr (ir_exec_fence_i ir, m)
     | X_fence \<Rightarrow> Inr (ir_exec_fence ir, m)
     | X_inv \<Rightarrow> Inr (ir_exec_inv ir, m))"

definition ir_writeback :: "IR_Inst \<Rightarrow> CPU_state \<Rightarrow> CPU_state res" where
  "ir_writeback ir c =
     bind_res (guard (ir_rd ir = -1 \<or> 0 \<le> ir_rd ir \<and> ir_rd ir < 32) Out_of_bounds) (\<lambda>_.
     let g = (if ir_rd ir \<noteq> -1 then (gpr c)[nat (ir_rd ir) := result ir] else gpr c)
     in Inr (c\<lparr>gpr := g[0 := 0]\<rparr>))"

text \<open>The latencies of \<^verbatim>\<open>exec_cfg.h\<close> by the level that answers.\<close>

definition level_to_lat :: "nat \<Rightarrow> nat" where
  "level_to_lat level = (if level = 0 then 1 else if level = 1 then 8 else 40)"

definition extend_load :: "bool \<Rightarrow> nat \<Rightarrow> word_t \<Rightarrow> word_t" where
  "extend_load sg width raw =
     (if sg then
        if width = 1 then SEXT raw 8 else if width = 2 then SEXT raw 16 else if width = 4 then SEXT raw 32 else raw
      else
        if width = 1 then UEXT raw 8 else if width = 2 then UEXT raw 16 else if width = 4 then UEXT raw 32 else raw)"

text \<open>
  \<open>want_lat\<close> tells whether \<^verbatim>\<open>out_lat\<close> is given; without it the latency of the result is 0.
\<close>

definition ir_mem_access :: "bool \<Rightarrow> IR_Inst \<Rightarrow> machine \<Rightarrow> (IR_Inst \<times> nat \<times> machine) res" where
  "ir_mem_access want_lat ir m =
    (if ir_type ir = ITYPE_LOAD then
       bind_res (if want_lat
                 then bind_res (vaddr_read_level (mem_addr ir) (mem_width ir) m) (\<lambda>(level, raw, m).
                      Inr (raw, level_to_lat level, m))
                 else bind_res (vaddr_read (mem_addr ir) (mem_width ir) m) (\<lambda>(raw, m). Inr (raw, 0, m))) (\<lambda>(raw, lat, m).
       Inr (ir\<lparr>result := extend_load (mem_sign ir) (mem_width ir) raw\<rparr>, lat, m))
     else if ir_type ir = ITYPE_STORE then
       bind_res (vaddr_write (mem_addr ir) (mem_width ir) (src2_val ir) m) (\<lambda>m.
       Inr (ir, if want_lat then 1 else 0, m))
     else Inr (ir, 0, m))"

end
