(* ===== verification/Isa.thy ===== *)
theory Isa
  imports Exec
begin

text \<open>
  A reference semantics of the arithmetic instructions over the integers, in the terms of the RISC-V manual, and the
  executors of \<^verbatim>\<open>ir.c\<close> against it.
\<close>

section \<open>Reference\<close>

definition wrap64 :: "int \<Rightarrow> word_t" where
  "wrap64 z = word_of_int z"

text \<open>The low 32 bits as a signed integer, and a 32-bit result sign-extended to a register.\<close>

definition low32 :: "word_t \<Rightarrow> int" where
  "low32 w = signed_take_bit 31 (uint w)"

definition ulow32 :: "word_t \<Rightarrow> int" where
  "ulow32 w = uint w mod 2 ^ 32"

definition wrap32 :: "int \<Rightarrow> word_t" where
  "wrap32 z = word_of_int (signed_take_bit 31 z)"

definition isa_alu :: "exec_op \<Rightarrow> word_t \<Rightarrow> word_t \<Rightarrow> word_t" where
  "isa_alu x a b =
    (let sh = unat b mod 64; shw = unat b mod 32 in
     case x of
       X_add \<Rightarrow> wrap64 (sint a + sint b) | X_addi \<Rightarrow> wrap64 (sint a + sint b)
     | X_sub \<Rightarrow> wrap64 (sint a - sint b)
     | X_mul \<Rightarrow> wrap64 (sint a * sint b)
     | X_or \<Rightarrow> wrap64 (sint a OR sint b) | X_ori \<Rightarrow> wrap64 (sint a OR sint b)
     | X_xor \<Rightarrow> wrap64 (sint a XOR sint b) | X_xori \<Rightarrow> wrap64 (sint a XOR sint b)
     | X_and \<Rightarrow> wrap64 (sint a AND sint b) | X_andi \<Rightarrow> wrap64 (sint a AND sint b)
     | X_slt \<Rightarrow> of_bool (sint a < sint b) | X_slti \<Rightarrow> of_bool (sint a < sint b)
     | X_sltu \<Rightarrow> of_bool (uint a < uint b) | X_sltiu \<Rightarrow> of_bool (uint a < uint b)
     | X_sll \<Rightarrow> wrap64 (uint a * 2 ^ sh) | X_slli \<Rightarrow> wrap64 (uint a * 2 ^ sh)
     | X_srl \<Rightarrow> wrap64 (uint a div 2 ^ sh) | X_srli \<Rightarrow> wrap64 (uint a div 2 ^ sh)
     | X_sra \<Rightarrow> wrap64 (sint a div 2 ^ sh) | X_srai \<Rightarrow> wrap64 (sint a div 2 ^ sh)
     | X_div \<Rightarrow> (if b = 0 then -1 else wrap64 (sint a sdiv sint b))
     | X_divu \<Rightarrow> (if b = 0 then -1 else wrap64 (uint a div uint b))
     | X_rem \<Rightarrow> (if b = 0 then a else wrap64 (sint a smod sint b))
     | X_remu \<Rightarrow> (if b = 0 then a else wrap64 (uint a mod uint b))
     | X_addw \<Rightarrow> wrap32 (sint a + sint b) | X_addiw \<Rightarrow> wrap32 (sint a + sint b)
     | X_subw \<Rightarrow> wrap32 (sint a - sint b)
     | X_mulw \<Rightarrow> wrap32 (sint a * sint b)
     | X_sllw \<Rightarrow> wrap32 (uint a * 2 ^ shw) | X_slliw \<Rightarrow> wrap32 (uint a * 2 ^ unat b)
     | X_srlw \<Rightarrow> wrap32 (ulow32 a div 2 ^ shw) | X_srliw \<Rightarrow> wrap32 (ulow32 a div 2 ^ unat b)
     | X_sraw \<Rightarrow> wrap32 (low32 a div 2 ^ shw) | X_sraiw \<Rightarrow> wrap32 (low32 a div 2 ^ shw)
     | X_divw \<Rightarrow> (if low32 b = 0 then -1 else wrap32 (low32 a sdiv low32 b))
     | X_divuw \<Rightarrow> (if ulow32 b = 0 then -1 else wrap32 (ulow32 a div ulow32 b))
     | X_remw \<Rightarrow> (if low32 b = 0 then wrap32 (sint a) else wrap32 (low32 a smod low32 b))
     | X_remuw \<Rightarrow> (if ulow32 b = 0 then wrap32 (sint a) else wrap32 (ulow32 a mod ulow32 b))
     | _ \<Rightarrow> 0)"

definition alu_ops :: "exec_op list" where
  "alu_ops =
    [X_add, X_mul, X_sub, X_or, X_xor, X_and, X_slt, X_sltu, X_sll, X_srl, X_sra, X_div, X_divu, X_rem, X_remu,
     X_addw, X_mulw, X_subw, X_sllw, X_srlw, X_sraw, X_divw, X_divuw, X_remw, X_remuw,
     X_addi, X_ori, X_xori, X_andi, X_slti, X_sltiu, X_slli, X_srli, X_srai, X_addiw, X_slliw, X_srliw, X_sraiw]"

text \<open>
  The operands for which the C expression has a value: the manual defines a result for all of them.
\<close>

definition alu_error :: "exec_op \<Rightarrow> word_t \<Rightarrow> word_t \<Rightarrow> c_error option" where
  "alu_error x a b =
    (if x \<in> {X_div, X_rem} then
       if b = 0 \<or> sint a = - (2 ^ 63) \<and> sint b = -1 then Some Division_undefined else None
     else if x \<in> {X_divu, X_remu} then if b = 0 then Some Division_undefined else None
     else if x \<in> {X_divw, X_remw} then
       if low32 b = 0 \<or> low32 a = - (2 ^ 31) \<and> low32 b = -1 then Some Division_undefined else None
     else if x \<in> {X_divuw, X_remuw} then if ulow32 b = 0 then Some Division_undefined else None
     else if x \<in> {X_slli, X_srli, X_slliw, X_srliw} then if b < 64 then None else Some Shift_undefined
     else if x = X_mulw then if int_fits 32 (low32 a * low32 b) then None else Some Signed_overflow
     else None)"

section \<open>Words as integers\<close>

named_theorems int_view \<open>word operations as operations on integers\<close>

lemma int32_low32: "int32 w = low32 w"
  by (simp add: int32_def low32_def sint_uint unsigned_ucast_eq signed_take_bit_take_bit)

lemma SEXT32_word_of_int: "SEXT (word_of_int z) 32 = wrap32 z"
  by (rule bit_word_eqI) (auto simp: SEXT_def wrap32_def bit_simps)

lemma SEXT32_and: "SEXT (w AND 0xffffffff) 32 = wrap32 (uint w)"
proof -
  have m: "(0xffffffff :: word_t) = mask 32" by (simp add: mask_eq_exp_minus_1)
  show ?thesis
    by (rule bit_word_eqI) (auto simp: SEXT_def wrap32_def m bit_simps min_def)
qed

lemma wrap32_cong: "take_bit 32 y = take_bit 32 z \<Longrightarrow> wrap32 y = wrap32 z"
  using signed_take_bit_eq_iff_take_bit_eq [of 31 y z] by (simp add: wrap32_def)

lemma and32_int: "uint (w AND 0xffffffff :: word_t) = ulow32 w"
proof -
  have m: "(0xffffffff :: word_t) = mask 32" by (simp add: mask_eq_exp_minus_1)
  have "w AND 0xffffffff = take_bit 32 w" unfolding m take_bit_eq_mask ..
  then show ?thesis by (simp add: ulow32_def take_bit_eq_mod uint_mod)
qed

lemma unat_and_mask: "unat (b AND 0x3f :: word_t) = unat b mod 64" "unat (b AND 0x1f :: word_t) = unat b mod 32"
proof -
  have m: "(0x3f :: word_t) = mask 6" "(0x1f :: word_t) = mask 5" by (simp_all add: mask_eq_exp_minus_1)
  have "b AND 0x3f = take_bit 6 b" "b AND 0x1f = take_bit 5 b" unfolding m take_bit_eq_mask by auto
  then show "unat (b AND 0x3f) = unat b mod 64" "unat (b AND 0x1f) = unat b mod 32"
    by (simp_all add: take_bit_eq_mod unat_mod)
qed

lemma word64_int [int_view]:
  "(a :: word_t) + b = wrap64 (sint a + sint b)" "a - b = wrap64 (sint a - sint b)" "a * b = wrap64 (sint a * sint b)"
  by (simp_all add: wrap64_def)

lemma bit_sint64: "n < 64 \<Longrightarrow> bit (sint (a :: word_t)) n = bit a n"
  by (cases "n = 63") (auto simp: bit_simps min_def)

lemma bits64_int [int_view]:
  "(a :: word_t) OR b = wrap64 (sint a OR sint b)" "a XOR b = wrap64 (sint a XOR sint b)"
  "a AND b = wrap64 (sint a AND sint b)"
  by (rule bit_word_eqI; simp add: wrap64_def bit_or_iff bit_xor_iff bit_and_iff bit_word_of_int_iff bit_sint64)+

lemma push64_int [int_view]: "push_bit n (a :: word_t) = wrap64 (uint a * 2 ^ n)"
  by (simp add: wrap64_def push_bit_eq_mult)

lemma drop64_int [int_view]: "drop_bit n (a :: word_t) = wrap64 (uint a div 2 ^ n)"
proof -
  have "drop_bit n a = word_of_int (uint (drop_bit n a))" by simp
  also have "uint (drop_bit n a) = drop_bit n (uint a)" by (rule bit_eqI) (simp add: bit_simps)
  finally show ?thesis unfolding drop_bit_eq_div [where 'a = int] wrap64_def .
qed

lemma sdrop64_int [int_view]: "signed_drop_bit n (a :: word_t) = wrap64 (sint a div 2 ^ n)"
proof -
  have "signed_drop_bit n a = word_of_int (sint (signed_drop_bit n a))" by simp
  then show ?thesis unfolding sint_signed_drop_bit_eq drop_bit_eq_div wrap64_def .
qed

lemma div64_int [int_view]: "(a :: word_t) div b = wrap64 (uint a div uint b)" "a mod b = wrap64 (uint a mod uint b)"
proof -
  have "a div b = word_of_int (uint (a div b))" "a mod b = word_of_int (uint (a mod b))" by simp_all
  then show "a div b = wrap64 (uint a div uint b)" "a mod b = wrap64 (uint a mod uint b)"
    unfolding uint_div uint_mod wrap64_def by auto
qed

text \<open>Operations on 32 bits.\<close>

lemma take32_sint: "take_bit 32 (uint (w :: word_t)) = take_bit 32 (sint w)"
proof (rule bit_eqI)
  fix n
  show "bit (take_bit 32 (uint w)) n = bit (take_bit 32 (sint w)) n"
    by (simp add: bit_take_bit_iff bit_uint_iff bit_sint64) (auto simp: bit_sint64)
qed

lemma wrap32_sint: "wrap32 (uint (w :: word_t)) = wrap32 (sint w)"
  by (rule wrap32_cong [OF take32_sint])

lemma wrap32_ulow: "wrap32 (ulow32 w) = wrap32 (uint w)"
  by (rule wrap32_cong) (simp add: ulow32_def take_bit_eq_mod)

lemma wrap32_wrap64: "wrap32 (uint (wrap64 z)) = wrap32 z"
  by (rule wrap32_cong) (simp add: wrap64_def unsigned_of_int take_bit_take_bit)

lemma SEXT32_uint: "SEXT w 32 = wrap32 (uint w)"
  using SEXT32_word_of_int [of "uint w"] by simp

lemma sext32_int [int_view]:
  "SEXT ((a + b) AND 0xffffffff) 32 = wrap32 (sint a + sint b)"
  "SEXT ((a - b) AND 0xffffffff) 32 = wrap32 (sint a - sint b)"
  "SEXT (word_of_int z AND 0xffffffff) 32 = wrap32 z"
  unfolding SEXT32_and SEXT32_word_of_int word64_int wrap32_wrap64 wrap64_def [symmetric] by simp_all

lemma low_bits_mult: "wrap32 (ulow32 a * k) = wrap32 (uint a * k)"
  by (rule wrap32_cong) (simp add: ulow32_def take_bit_eq_mod mod_mult_left_eq)

lemma shift32_int [int_view]:
  "SEXT (push_bit n (a AND 0xffffffff) AND 0xffffffff) 32 = wrap32 (uint a * 2 ^ n)"
  "SEXT (drop_bit n (a AND 0xffffffff) AND 0xffffffff) 32 = wrap32 (ulow32 a div 2 ^ n)"
  "SEXT (word_of_int (drop_bit n z)) 32 = wrap32 (z div 2 ^ n)"
  unfolding SEXT32_and SEXT32_word_of_int push64_int drop64_int wrap32_wrap64 and32_int drop_bit_eq_div [where 'a = int]
  by (simp_all add: low_bits_mult)

lemma div32_int [int_view]:
  "SEXT ((a AND 0xffffffff) div (b AND 0xffffffff)) 32 = wrap32 (ulow32 a div ulow32 b)"
  "SEXT ((a AND 0xffffffff) mod (b AND 0xffffffff) AND 0xffffffff) 32 = wrap32 (ulow32 a mod ulow32 b)"
  unfolding SEXT32_uint and32_int wrap32_ulow div64_int wrap32_wrap64 by simp_all

lemma mul32_int: "wrap32 (low32 a * low32 b) = wrap32 (sint a * sint b)"
proof (rule wrap32_cong)
  have e: "take_bit 32 (low32 w) = take_bit 32 (sint w)" for w
    by (simp add: low32_def take_bit_signed_take_bit take32_sint)
  show "take_bit 32 (low32 a * low32 b) = take_bit 32 (sint a * sint b)"
    using e [of a] e [of b] by (metis take_bit_mult)
qed

section \<open>Definedness\<close>

lemma low32_range: "- (2 ^ 31) \<le> low32 w" "low32 w < 2 ^ 31"
  using signed_take_bit_int_greater_eq_minus_exp [of 31 "uint w"] signed_take_bit_int_less_exp [of 31 "uint w"]
  by (simp_all add: low32_def)

lemma ulow32_0: "w AND 0xffffffff = 0 \<longleftrightarrow> ulow32 w = 0"
  using and32_int [of w] by (metis uint_0_iff)

lemma sdiv_fits:
  assumes "- (2 ^ (n - 1)) \<le> x" "x < 2 ^ (n - 1)" "y \<noteq> 0"
  shows "int_fits n (x sdiv y) \<longleftrightarrow> \<not> (x = - (2 ^ (n - 1)) \<and> y = -1)"
proof -
  let ?B = "2 ^ (n - 1) :: int"
  have ab: "\<bar>x sdiv y\<bar> = \<bar>x\<bar> div \<bar>y\<bar>"
    using assms(3) by (cases "x = 0") (simp_all add: signed_divide_int_def abs_mult pos_imp_zdiv_nonneg_iff)
  show ?thesis
  proof (cases "\<bar>y\<bar> = 1")
    case True
    then have "y = 1 \<or> y = -1" by arith
    then show ?thesis using assms by (auto simp: int_fits_def signed_divide_int_def sgn_if)
  next
    case False
    then have "2 \<le> \<bar>y\<bar>" using assms(3) by arith
    moreover have "\<bar>x\<bar> \<le> ?B" using assms by arith
    ultimately have "\<bar>x\<bar> div \<bar>y\<bar> \<le> ?B div 2"
      by (meson abs_ge_zero order_trans zdiv_mono1 zdiv_mono2 zero_less_numeral)
    moreover have "?B div 2 < ?B" by (rule int_div_less_self) simp_all
    ultimately have "\<bar>x sdiv y\<bar> < ?B" using ab by linarith
    then show ?thesis using False by (auto simp: int_fits_def)
  qed
qed

lemma div64_defined:
  "div_defined 64 (sint a) (sint b) \<longleftrightarrow> \<not> (b = 0 \<or> sint a = - (2 ^ 63) \<and> sint b = -1)" for a b :: word_t
proof -
  have "- (2 ^ (64 - 1)) \<le> sint a" "sint a < 2 ^ (64 - 1)"
    using sint_greater_eq [of a] sint_less [of a] by simp_all
  from sdiv_fits [OF this, of "sint b"] show ?thesis
    by (cases "b = 0") (simp_all add: div_defined_def signed_eq_0_iff)
qed

lemma div32_defined:
  "div_defined 32 (low32 a) (low32 b) \<longleftrightarrow> \<not> (low32 b = 0 \<or> low32 a = - (2 ^ 31) \<and> low32 b = -1)"
  using sdiv_fits [of 32 "low32 a" "low32 b"] low32_range [of a] by (cases "low32 b = 0") (simp_all add: div_defined_def)

section \<open>The executors compute the reference\<close>

lemmas alu_views = int32_low32 unat_and_mask mul32_int word_sless_alt div64_defined div32_defined ulow32_0
  sext32_int shift32_int div32_int SEXT32_word_of_int

lemma shift_small: "b < 64 \<Longrightarrow> unat b mod 64 = unat b" for b :: word_t
  by (simp add: word_less_nat_alt)

lemma alu_ops_execute:
  "list_all (\<lambda>x. exec_fn ir = x \<longrightarrow> ir_execute ir c m =
     (case alu_error x (src1_val ir) (src2_val ir) of
        Some e \<Rightarrow> Inl e
      | None \<Rightarrow> Inr (ir\<lparr>ir_type := ITYPE_ALU, result := isa_alu x (src1_val ir) (src2_val ir), dnpc := ir_snpc ir\<rparr>, m)))
   alu_ops"
  unfolding alu_ops_def list.pred_inject ir_execute_def alu_defs isa_alu_def alu_error_def alu_views Let_def
  apply (intro conjI impI)
  apply (simp_all add: guard_def shift_small drop_bit_eq_div [where 'a = int])
  apply (simp_all add: bits64_int push64_int drop64_int sdrop64_int div64_int word_less_def)
  apply (simp_all add: wrap64_def)
  done

lemma alu_execute:
  assumes "x \<in> set alu_ops" and "exec_fn ir = x"
  shows "ir_execute ir c m =
    (case alu_error x (src1_val ir) (src2_val ir) of
       Some e \<Rightarrow> Inl e
     | None \<Rightarrow> Inr (ir\<lparr>ir_type := ITYPE_ALU, result := isa_alu x (src1_val ir) (src2_val ir), dnpc := ir_snpc ir\<rparr>, m))"
  using alu_ops_execute assms by (auto simp: list_all_iff)

text \<open>
  C24. Every arithmetic instruction leaves in its result the value the RISC-V manual gives for its operands, as an
  integer operation wrapped to the width, and continues at the next instruction; it fails in exactly the cases
  where the C expression has no defined value.
\<close>

theorem alu_executes_isa:
  assumes "x \<in> set alu_ops" and "exec_fn ir = x"
  shows "ir_execute ir c m =
    (case alu_error x (src1_val ir) (src2_val ir) of
       Some e \<Rightarrow> Inl e
     | None \<Rightarrow> Inr (ir\<lparr>ir_type := ITYPE_ALU, result := isa_alu x (src1_val ir) (src2_val ir), dnpc := ir_snpc ir\<rparr>, m))"
  by (rule alu_execute [OF assms])

theorem alu_executes_isa_witness:
  "ir_execute (zero_ir\<lparr>exec_fn := X_sraw, src1_val := 0x80000000, src2_val := 4\<rparr>) zero_cpu zero_machine =
     Inr (zero_ir\<lparr>exec_fn := X_sraw, src1_val := 0x80000000, src2_val := 4, result := 0xfffffffff8000000\<rparr>, zero_machine)"
proof -
  have "X_sraw \<in> set alu_ops" "alu_error X_sraw 0x80000000 4 = None" "isa_alu X_sraw 0x80000000 4 = 0xfffffffff8000000"
    by code_simp+
  then show ?thesis
    using alu_executes_isa [of X_sraw "zero_ir\<lparr>exec_fn := X_sraw, src1_val := 0x80000000, src2_val := 4\<rparr>"]
    by (simp add: zero_ir_def)
qed

lemma srai_imm:
  assumes "instpat_match ''010000? ????? ????? 101 ????? 00100 11'' raw"
  shows "bit (immI raw) 10"
proof -
  have "(ucast raw :: word_t) AND 0xfc00707f = 0x40005013"
    using assms by (simp add: instpat_match_def pattern_decode_rows)
  then have "bit ((ucast raw :: word_t) AND 0xfc00707f) 30 = bit (0x40005013 :: word_t) 30" by simp
  then have "bit raw 30" by (simp add: bit_simps)
  then show ?thesis by (simp add: immI_bit imm_bit_def)
qed

text \<open>
  C25. A word that the table decodes as an arithmetic right shift by an immediate makes the executor shift by
  1024 or more, which C leaves undefined: it never computes the shift.
\<close>

theorem srai_undefined:
  assumes "instpat_match ''010000? ????? ????? 101 ????? 00100 11'' raw"
  shows "ir_execute (ir_decode raw pc snpc ir m) c m = Inl Shift_undefined"
proof -
  note d = srai_dispatched_as_srli [OF assms]
  have "\<not> immI raw < 64"
    using srai_imm [OF assms] word_bit_above [of "immI raw" 6 10] by (auto simp: word_less_nat_alt)
  then show ?thesis
    using alu_execute [of X_srli "ir_decode raw pc snpc ir m" c m]
    by (simp add: d alu_error_def alu_ops_def set_exec_def ir_fill_operands_def Let_def)
qed

theorem srai_undefined_witness:
  "ir_execute (ir_decode 0x40155513 0x80000000 0x80000004 zero_ir zero_machine) zero_cpu zero_machine = Inl Shift_undefined"
  by (rule srai_undefined) (simp add: instpat_match_def pattern_decode_rows)

end
