(* ===== verification/Code_Region.thy ===== *)
theory Code_Region
  imports Vmem
begin

text \<open>
  Instruction fetches and data accesses together. The instruction caches are not kept coherent with stores, so fetches see
  the memory of the data accesses only on blocks that are not stored to: a set of such blocks (the program's code) stays
  clean under every access, and a fetch from it returns what a load would.
\<close>

definition code_clean :: "paddr_t set \<Rightarrow> machine \<Rightarrow> bool" where
  "code_clean B m \<longleftrightarrow> dirty (data_caches m) m \<inter> B = {} \<and>
     (\<forall>p\<in>set (l1i_caches m). \<forall>b x. ram_addr b \<longrightarrow> blk b \<in> B \<longrightarrow> held (get_cache p m) b = Some x \<longrightarrow>
        snd x = l2_view (the (L2_cache m)) m b)"

lemma code_clean_same: "same_caches m m' \<Longrightarrow> code_clean B m' = code_clean B m"
  using same_caches_sys(4) [of m m'] by (simp add: code_clean_def dirty_def get_cache_def same_caches_def)

section \<open>Blocks of the flat memory\<close>

lemma block_offsets:
  assumes "ram_addr b" and "i < 64"
  defines "x \<equiv> ram_off (blk b) + i"
  shows "x < 0x8000000" "blk (0x80000000 + word_of_nat x) = blk b" "x mod 64 = i" "x div 64 = ram_off b div 64"
proof -
  have r: "0x80000000 \<le> unat b" "unat b < 0x88000000" using assms(1) by (simp_all add: ram_addr_unat)
  then have b: "unat b = 0x80000000 + ram_off b" by (simp add: ram_off_def)
  define q where "q = ram_off b div 64"
  have "unat (blk b) = (0x2000000 + q) * 64" unfolding unat_blk b div_base q_def ..
  then have o: "ram_off (blk b) = 64 * q" by (simp add: ram_off_def add_mult_distrib)
  have x: "x = 64 * q + i" unfolding x_def o ..
  have "ram_off b < 0x8000000" using r by (simp add: ram_off_def)
  then have "q < 0x200000" by (simp add: q_def)
  then show lt: "x < 0x8000000" using x assms(2) by simp
  show "x mod 64 = i" using x assms(2) by simp
  show d: "x div 64 = ram_off b div 64" using x assms(2) by (simp add: q_def [symmetric])
  show "blk (0x80000000 + word_of_nat x) = blk b" unfolding blk_eq_div unat_ram [OF lt] b div_base d ..
qed

lemma dview_ram_view:
  assumes "coherent (data_caches m) (the (L2_cache m)) m" and "ram_addr b"
  shows "dview (data_caches m) (the (L2_cache m)) m b = load_bytes (ram_view m) (ram_off (blk b)) 64"
proof (rule nth_equalityI)
  show "length (dview (data_caches m) (the (L2_cache m)) m b) = length (load_bytes (ram_view m) (ram_off (blk b)) 64)"
    using length_dview [OF assms] by simp
  fix i assume "i < length (dview (data_caches m) (the (L2_cache m)) m b)"
  then have i: "i < 64" using length_dview [OF assms] by simp
  note o = block_offsets [OF assms(2) i]
  show "dview (data_caches m) (the (L2_cache m)) m b ! i = load_bytes (ram_view m) (ram_off (blk b)) 64 ! i"
    using i o dview_blk [OF assms(1) o(2)] by (simp add: ram_view_def)
qed

lemma ram_view_blocks:
  assumes "mem_sys m" and "mem_sys m'" and "data_caches m' = data_caches m" and "L2_cache m' = L2_cache m" and "ram_addr b"
    and "\<And>i. i < 64 \<Longrightarrow> ram_view m' (ram_off (blk b) + i) = ram_view m (ram_off (blk b) + i)"
  shows "dview (data_caches m) (the (L2_cache m)) m' b = dview (data_caches m) (the (L2_cache m)) m b"
proof -
  have "load_bytes (ram_view m') (ram_off (blk b)) 64 = load_bytes (ram_view m) (ram_off (blk b)) 64"
    using assms(6) by (simp add: load_bytes_def)
  then show ?thesis
    using dview_ram_view [of m b] dview_ram_view [of m' b] assms(1-5) by (simp add: mem_sys_def)
qed

section \<open>Code stays clean\<close>

lemma clean_view:
  assumes "mem_sys m" and "ram_addr b" and "blk b \<notin> dirty (data_caches m) m"
  shows "dview (data_caches m) (the (L2_cache m)) m b = l2_view (the (L2_cache m)) m b"
  by (rule dview_clean) (use assms in \<open>auto simp: mem_sys_def dirty_def\<close>)

lemma code_clean_step:
  assumes "mem_sys m" and "mem_sys m'" and "code_clean B m" and "mem_frame UNIV m m'"
    and "dirty (data_caches m) m' \<inter> B = {}"
    and "\<And>b i. ram_addr b \<Longrightarrow> blk b \<in> B \<Longrightarrow> i < 64 \<Longrightarrow> ram_view m' (ram_off (blk b) + i) = ram_view m (ram_off (blk b) + i)"
    and "\<And>p b x. p \<in> set (l1i_caches m) \<Longrightarrow> ram_addr b \<Longrightarrow> blk b \<in> B \<Longrightarrow> held (get_cache p m') b = Some x \<Longrightarrow>
      held (get_cache p m) b = Some x \<or> snd x = l2_view (the (L2_cache m)) m b"
  shows "code_clean B m'"
proof -
  note ff = frame_fields [OF assms(4)]
  have v: "l2_view (the (L2_cache m)) m' b = l2_view (the (L2_cache m)) m b" if "ram_addr b" "blk b \<in> B" for b
  proof -
    have "dview (data_caches m) (the (L2_cache m)) m' b = dview (data_caches m) (the (L2_cache m)) m b"
      using ram_view_blocks [OF assms(1,2) ff(1,3) that(1)] assms(6) [OF that] by blast
    moreover have "blk b \<notin> dirty (data_caches m) m" "blk b \<notin> dirty (data_caches m') m'"
      using that(2) assms(3,5) ff(1) by (auto simp: code_clean_def)
    ultimately show ?thesis
      using clean_view [OF assms(1) that(1)] clean_view [OF assms(2) that(1)] ff(1,3) by simp
  qed
  show ?thesis
    using assms(3,5,7) v ff(1-3) unfolding code_clean_def by metis
qed

lemma fetch_keeps_code:
  assumes "mem_sys m" and "code_clean B m" and "access_ok a n"
  shows "\<exists>m'. vaddr_ifetch a n m = Inr (word_of_bytes (take n (drop (unat (a AND 63)) (pview (the (L1I_cache m)) (the (L2_cache m)) m a))), m') \<and>
    mem_sys m' \<and> mem_frame UNIV m m' \<and> ram_view m' = ram_view m \<and> code_clean B m'"
proof -
  let ?p = "the (L1I_cache m)" and ?l2 = "the (L2_cache m)" and ?D = "data_caches m"
  have p: "?p \<in> set (l1i_caches m)" using hart_icache [of m] assms(1) by (force simp: mem_sys_def)
  have co: "coherent ?D ?l2 m" using assms(1) by (simp add: mem_sys_def)
  obtain m' where m': "vaddr_ifetch a n m = Inr (word_of_bytes (take n (drop (unat (a AND 63)) (pview ?p ?l2 m a))), m')"
      "mem_sys m'" "mem_frame UNIV m m'" "ram_view m' = ram_view m"
      "\<And>q. q \<notin> {?p, ?l2} \<Longrightarrow> get_cache q m' = get_cache q m"
      "\<And>b x. held (get_cache ?p m') b = Some x \<Longrightarrow> held (get_cache ?p m) b = Some x \<or> blk b = blk a \<and> snd x = l2_view ?l2 m a"
    using vaddr_ifetch_sys [OF assms(1,3)] by blast
  have "get_cache q m' = get_cache q m" if "q \<in> set ?D" for q
    using m'(5) [of q] that p assms(1) coherentD(2) [OF co] by (auto simp: mem_sys_def)
  then have d: "dirty ?D m' = dirty ?D m" unfolding dirty_def by (intro Collect_cong ex_cong1 conj_cong refl) (simp only:)
  have "code_clean B m'"
  proof (rule code_clean_step [OF assms(1) m'(2) assms(2) m'(3)])
    show "dirty ?D m' \<inter> B = {}" using d assms(2) by (simp add: code_clean_def)
    show "ram_view m' (ram_off (blk b) + i) = ram_view m (ram_off (blk b) + i)" for b i by (simp add: m'(4))
    fix q b x assume q: "q \<in> set (l1i_caches m)" "ram_addr b" "held (get_cache q m') b = Some x"
    show "held (get_cache q m) b = Some x \<or> snd x = l2_view ?l2 m b"
    proof (cases "q = ?p")
      case True
      then show ?thesis using m'(6) [of b x] q l2_view_blk [OF coherentD(1) [OF co], of b a] by auto
    next
      case False
      then show ?thesis using m'(5) [of q] q assms(1) by (auto simp: mem_sys_def)
    qed
  qed
  then show ?thesis using m'(1-4) by blast
qed

lemma code_fetch:
  assumes "mem_sys m" and "code_clean B m" and "access_ok a n" and "blk a \<in> B"
  shows "\<exists>m'. vaddr_ifetch a n m = Inr (word_of_bytes (load_bytes (ram_view m) (ram_off a) n), m') \<and>
    mem_sys m' \<and> mem_frame UNIV m m' \<and> ram_view m' = ram_view m \<and> code_clean B m'"
proof -
  have ra: "ram_addr a" using assms(3) by (simp add: access_ok_def)
  let ?p = "the (L1I_cache m)" and ?l2 = "the (L2_cache m)" and ?D = "data_caches m"
  have p: "?p \<in> set (l1i_caches m)" using hart_icache [of m] assms(1) by (force simp: mem_sys_def)
  have co: "coherent ?D ?l2 m" using assms(1) by (simp add: mem_sys_def)
  have nd: "blk a \<notin> dirty ?D m" using assms(2,4) by (auto simp: code_clean_def)
  have "pview ?p ?l2 m a = l2_view ?l2 m a"
    using assms(2,4) ra p by (auto simp: pview_def code_clean_def split: option.splits)
  then have "pview ?p ?l2 m a = dview ?D ?l2 m a" using clean_view [OF assms(1) ra nd] by simp
  then show ?thesis using fetch_keeps_code [OF assms(1-3)] load_view [OF co assms(3)] by auto
qed

text \<open>Loads and stores leave the instruction caches alone.\<close>

lemma code_clean_data:
  assumes "mem_sys m" and "mem_sys m'" and "code_clean B m" and "mem_frame (mem_caches m) m m'"
    and "dirty (data_caches m) m' \<inter> B = {}"
    and "\<And>b i. ram_addr b \<Longrightarrow> blk b \<in> B \<Longrightarrow> i < 64 \<Longrightarrow> ram_view m' (ram_off (blk b) + i) = ram_view m (ram_off (blk b) + i)"
  shows "code_clean B m'"
proof (rule code_clean_step [OF assms(1-3) mem_frame_mono [OF assms(4)] assms(5,6)])
  fix p b x assume p: "p \<in> set (l1i_caches m)" "held (get_cache p m') b = Some x"
  then have "p \<notin> mem_caches m" using assms(1) by (auto simp: mem_sys_def mem_caches_def)
  then have "get_cache p m' = get_cache p m" using assms(4) by (simp add: mem_frame_def)
  then show "held (get_cache p m) b = Some x \<or> snd x = l2_view (the (L2_cache m)) m b" using p(2) by simp
qed simp

lemma code_clean_read:
  assumes "mem_sys m" and "mem_sys m'" and "code_clean B m" and "mem_frame (mem_caches m) m m'"
    and "dirty (data_caches m) m' \<subseteq> dirty (data_caches m) m" and "ram_view m' = ram_view m"
  shows "code_clean B m'"
proof (rule code_clean_data [OF assms(1-4)])
  show "dirty (data_caches m) m' \<inter> B = {}" using assms(3,5) unfolding code_clean_def by auto
qed (simp add: assms(6))

lemma code_clean_write:
  assumes "mem_sys m" and "mem_sys m'" and "code_clean B m" and "mem_frame (mem_caches m) m m'" and "access_ok a n"
    and "blk a \<notin> B" and "dirty (data_caches m) m' \<subseteq> insert (blk a) (dirty (data_caches m) m)"
    and "ram_view m' = store_bytes (ram_view m) (ram_off a) (bytes_of_word n v)"
  shows "code_clean B m'"
proof (rule code_clean_data [OF assms(1-4)])
  show "dirty (data_caches m) m' \<inter> B = {}" using assms(3,6,7) unfolding code_clean_def by auto
  fix b :: paddr_t and i :: nat
  assume b: "ram_addr b" "blk b \<in> B" "i < 64"
  have "\<not> (ram_off a \<le> ram_off (blk b) + i \<and> ram_off (blk b) + i < ram_off a + n)"
  proof
    assume r: "ram_off a \<le> ram_off (blk b) + i \<and> ram_off (blk b) + i < ram_off a + n"
    define j where "j = ram_off (blk b) + i - ram_off a"
    then have j: "j < n" "ram_off (blk b) + i = ram_off a + j" using r by auto
    then have "blk a = blk b" using access_range(2) [OF assms(5) j(1)] block_offsets(2) [OF b(1,3)] by simp
    then show False using b(2) assms(6) by simp
  qed
  then show "ram_view m' (ram_off (blk b) + i) = ram_view m (ram_off (blk b) + i)"
    unfolding assms(8) by (intro store_bytes_outside) auto
qed

end
