(* ===== verification/Stages.thy ===== *)
theory Stages
  imports Isa Code_Region
begin

text \<open>
  A step of the ISA on program counter, registers and a flat memory, and what each stage of the engines contributes to it:
  decoding gives the format and the operands, execution the result or the address, the memory stage the loaded value or the
  store, write-back the register. The functional and the pipelined engines share these lemmas.
\<close>

section \<open>The ISA step\<close>

record isa_state =
  i_pc :: word_t
  i_regs :: "word_t list"
  i_mem :: "nat \<Rightarrow> byte"

definition op_type :: "exec_op \<Rightarrow> inst_type" where
  "op_type x =
    (if x \<in> {X_lui, X_auipc} then TYPE_U
     else if x = X_jal then TYPE_J
     else if x \<in> {X_beq, X_bne, X_blt, X_bge, X_bltu, X_bgeu} then TYPE_B
     else if x \<in> {X_sd, X_sw, X_sh, X_sb} then TYPE_S
     else if x \<in> {X_add, X_mul, X_sub, X_or, X_xor, X_and, X_slt, X_sltu, X_sll, X_srl, X_sra, X_div, X_divu, X_rem,
       X_remu, X_addw, X_mulw, X_subw, X_sllw, X_srlw, X_sraw, X_divw, X_divuw, X_remw, X_remuw} then TYPE_R
     else TYPE_I)"

definition set_reg :: "nat \<Rightarrow> word_t \<Rightarrow> word_t list \<Rightarrow> word_t list" where
  "set_reg rd v rs = (if rd = 0 then rs else rs[rd := v])"

definition branch_taken :: "exec_op \<Rightarrow> word_t \<Rightarrow> word_t \<Rightarrow> bool" where
  "branch_taken x a b =
    (case x of
       X_beq \<Rightarrow> a = b | X_bne \<Rightarrow> a \<noteq> b | X_blt \<Rightarrow> sint a < sint b | X_bge \<Rightarrow> sint a \<ge> sint b
     | X_bltu \<Rightarrow> uint a < uint b | X_bgeu \<Rightarrow> uint a \<ge> uint b | _ \<Rightarrow> False)"

text \<open>Width of a load or store and the extension of a loaded value.\<close>

definition access_width :: "exec_op \<Rightarrow> nat" where
  "access_width x =
    (if x \<in> {X_ld, X_sd} then 8 else if x \<in> {X_lw, X_lwu, X_sw} then 4 else if x \<in> {X_lh, X_lhu, X_sh} then 2 else 1)"

definition loaded :: "exec_op \<Rightarrow> word_t \<Rightarrow> word_t" where
  "loaded x v = (if x \<in> {X_lw, X_lh, X_lb} then signed_take_bit (8 * access_width x - 1) v else v)"

definition load_ops :: "exec_op set" where "load_ops = {X_ld, X_lw, X_lh, X_lb, X_lwu, X_lhu, X_lbu}"

definition store_ops :: "exec_op set" where "store_ops = {X_sd, X_sw, X_sh, X_sb}"

definition isa_addr :: "exec_op \<Rightarrow> u32 \<Rightarrow> isa_state \<Rightarrow> word_t" where
  "isa_addr x raw s =
     i_regs s ! unat (ibits raw 19 15) + (if x \<in> store_ops then immS raw else immI raw)"

definition isa_step :: "exec_op \<Rightarrow> u32 \<Rightarrow> isa_state \<Rightarrow> isa_state" where
  "isa_step x raw s =
    (let pc = i_pc s; rd = unat (ibits raw 11 7);
         a = i_regs s ! unat (ibits raw 19 15); b = i_regs s ! unat (ibits raw 24 20);
         ad = isa_addr x raw s in
     if x \<in> set alu_ops then
       s\<lparr>i_regs := set_reg rd (isa_alu x a (if op_type x = TYPE_R then b else immI raw)) (i_regs s), i_pc := pc + 4\<rparr>
     else if x = X_lui then s\<lparr>i_regs := set_reg rd (immU raw) (i_regs s), i_pc := pc + 4\<rparr>
     else if x = X_auipc then s\<lparr>i_regs := set_reg rd (pc + immU raw) (i_regs s), i_pc := pc + 4\<rparr>
     else if x = X_jal then s\<lparr>i_regs := set_reg rd (pc + 4) (i_regs s), i_pc := pc + immJ raw\<rparr>
     else if x = X_jalr then s\<lparr>i_regs := set_reg rd (pc + 4) (i_regs s), i_pc := (a + immI raw) AND NOT 1\<rparr>
     else if x \<in> load_ops then
       s\<lparr>i_regs := set_reg rd (loaded x (word_of_bytes (load_bytes (i_mem s) (ram_off ad) (access_width x)))) (i_regs s),
         i_pc := pc + 4\<rparr>
     else if x \<in> store_ops then
       s\<lparr>i_mem := store_bytes (i_mem s) (ram_off ad) (bytes_of_word (access_width x) b), i_pc := pc + 4\<rparr>
     else s\<lparr>i_pc := pc + (if branch_taken x a b then immB raw else 4)\<rparr>)"

text \<open>The state of the simulator as the ISA sees it.\<close>

definition isa_of :: "machine \<Rightarrow> isa_state" where
  "isa_of m = \<lparr>i_pc = cpu_pc (cpu m), i_regs = gpr (cpu m), i_mem = ram_view m\<rparr>"

definition regs_ok :: "CPU_state \<Rightarrow> bool" where
  "regs_ok c \<longleftrightarrow> length (gpr c) = 32 \<and> gpr c ! 0 = 0"

text \<open>The program the ISA runs lies in the same memory.\<close>

definition isa_fetch :: "isa_state \<Rightarrow> u32" where
  "isa_fetch s = ucast (word_of_bytes (load_bytes (i_mem s) (ram_off (i_pc s)) 4))"

definition isa_op :: "isa_state \<Rightarrow> exec_op" where
  "isa_op s = table_lookup inst_table (isa_fetch s)"

definition isa_next :: "isa_state \<Rightarrow> isa_state" where
  "isa_next s = isa_step (isa_op s) (isa_fetch s) s"

section \<open>Updates outside the memory system\<close>

definition mem_eq :: "machine \<Rightarrow> machine \<Rightarrow> bool" where
  "mem_eq m m' \<longleftrightarrow> caches m' = caches m \<and> pmem m' = pmem m \<and> L1I_cache m' = L1I_cache m \<and> L1D_cache m' = L1D_cache m \<and>
     L2_cache m' = L2_cache m \<and> cores m' = cores m \<and> g_num_cores m' = g_num_cores m \<and> g_current_hartid m' = g_current_hartid m"

text \<open>Devices, watchpoints, run state, control registers and the cores, which a user instruction leaves alone.\<close>

definition env_eq :: "machine \<Rightarrow> machine \<Rightarrow> bool" where
  "env_eq m m' \<longleftrightarrow> dev m' = dev m \<and> wp_head m' = wp_head m \<and> state m' = state m \<and> exec_last m' = exec_last m \<and>
     pmp_on_count m' = pmp_on_count m \<and> priv_level m' = priv_level m \<and> csr m' = csr m \<and> pmpcfg m' = pmpcfg m \<and>
     pmpaddr m' = pmpaddr m \<and> cores m' = cores m \<and> g_num_cores m' = g_num_cores m \<and>
     g_current_hartid m' = g_current_hartid m \<and> L1I_cache m' = L1I_cache m \<and> L1D_cache m' = L1D_cache m \<and> L2_cache m' = L2_cache m"

lemma mem_frame_env: "mem_frame C m m' \<Longrightarrow> env_eq m m'"
proof -
  assume "mem_frame C m m'"
  then have e: "m' = m\<lparr>caches := caches m', pmem := pmem m'\<rparr>" by (simp add: mem_frame_def)
  show ?thesis by (subst e) (simp add: env_eq_def)
qed

lemma env_eq_refl [simp]: "env_eq m m" by (simp add: env_eq_def)

lemma env_eq_trans: "env_eq a b \<Longrightarrow> env_eq b c \<Longrightarrow> env_eq a c" by (simp add: env_eq_def)

lemma env_eq_cpu [simp]: "env_eq m (m'\<lparr>cpu := c\<rparr>) = env_eq m m'" by (simp add: env_eq_def)

lemma mem_eq_caches: "mem_eq m m' \<Longrightarrow> same_caches m m' \<and> hart_ok m' = hart_ok m"
  by (simp add: mem_eq_def same_caches_def data_caches_def l1i_caches_def hart_ok_def)

lemma mem_eq_sys:
  assumes "mem_eq m m'"
  shows "mem_sys m' = mem_sys m" "ram_view m' = ram_view m" "pview p l2 m' = pview p l2 m"
  using mem_eq_caches [OF assms] same_caches_sys [of m m'] by (simp_all add: mem_sys_def)

lemma code_clean_mem_eq: "mem_eq m m' \<Longrightarrow> code_clean B m' = code_clean B m"
  using mem_eq_caches code_clean_same by blast

lemma pmp_check_mem_eq: "mem_eq m (snd (pmp_check a x w m))" "cpu (snd (pmp_check a x w m)) = cpu m"
  by (auto simp: pmp_check_def mem_eq_def split: option.splits bool.splits)

lemma add_ftrace_mem_eq: "mem_eq m (add_ftrace a c m)" "cpu (add_ftrace a c m) = cpu m" "env_eq m (add_ftrace a c m)"
  by (simp_all add: add_ftrace_def mem_eq_def env_eq_def Let_def)

lemma set_cpu_sys:
  "mem_sys (m\<lparr>cpu := c\<rparr>) = mem_sys m" "ram_view (m\<lparr>cpu := c\<rparr>) = ram_view m"
  using mem_eq_sys(1,2) [of m "m\<lparr>cpu := c\<rparr>"] by (simp_all add: mem_eq_def)

section \<open>Decoding and executing a user instruction\<close>

lemma op_type_rows: "list_all (\<lambda>(_, x, ty). user_op x \<longrightarrow> ty = op_type x) inst_table"
  by code_simp

lemma decode_user:
  assumes "table_lookup inst_table raw = x" and "user_op x"
  shows "ir_decode raw pc snpc ir m =
    set_exec (ir_name (ir_decode raw pc snpc ir m)) x (ir_fill_operands (ir_init raw pc snpc ir) raw (op_type x) m)"
proof -
  have "x \<noteq> X_inv" using assms(2) by (auto simp: user_op_def)
  then obtain pat ty where row: "(pat, x, ty) \<in> set inst_table" "instpat_match pat raw"
    using table_lookup_row [OF assms(1)] by blast
  then have "ty = op_type x" using op_type_rows assms(2) by (auto simp: list_all_iff)
  then show ?thesis using table_row_decode [OF row assms(2)] by blast
qed

lemma writeback_set:
  assumes "regs_ok c" and "ir_rd ir = int rd" and "rd < 32"
  shows "ir_writeback ir c = Inr (c\<lparr>gpr := set_reg rd (result ir) (gpr c)\<rparr>)"
proof (cases "rd = 0")
  case True
  then show ?thesis using assms by (simp add: ir_writeback_def set_reg_def regs_ok_def Let_def list_update_same_conv)
next
  case False
  then have "(gpr c)[rd := v, 0 := 0] = (gpr c)[rd := v]" for v
    using assms(1) by (simp add: list_update_same_conv regs_ok_def)
  then show ?thesis using False assms by (simp add: ir_writeback_def set_reg_def Let_def)
qed

lemma writeback_none:
  assumes "regs_ok c" and "ir_rd ir = -1"
  shows "ir_writeback ir c = Inr c"
  using assms by (simp add: ir_writeback_def regs_ok_def Let_def list_update_same_conv)

lemma regs_ok_set: "regs_ok c \<Longrightarrow> regs_ok (c\<lparr>gpr := set_reg rd v (gpr c)\<rparr>)"
  by (auto simp: regs_ok_def set_reg_def nth_list_update)

lemma regs_ok_pc [simp]: "regs_ok (c\<lparr>cpu_pc := p\<rparr>) = regs_ok c"
  by (simp add: regs_ok_def)

lemma rd_field: "unat (ibits raw 11 7) < 32" "uint (ibits raw 11 7) = int (unat (ibits raw 11 7))"
proof -
  show e: "uint (ibits raw 11 7) = int (unat (ibits raw 11 7))" by simp
  have "nat (uint (ibits raw 11 7)) < nat 32" using ibits_reg [where i = raw and lo = 7] unfolding zless_nat_conj by simp
  then show "unat (ibits raw 11 7) < 32" by simp
qed

lemma rd_reg_field [simp]: "reg_field (uint (ibits raw 11 7))"
  using ibits_reg [where i = raw and lo = 7] by (simp add: reg_field_def)

lemma uint_minus_one [simp]: "uint w \<noteq> -1" for w :: "'a :: len word"
  using uint_ge_0 [of w] by linarith

lemma writeback_field:
  "regs_ok c \<Longrightarrow> ir_rd ir = uint (ibits raw 11 7) \<Longrightarrow>
    ir_writeback ir c = Inr (c\<lparr>gpr := set_reg (unat (ibits raw 11 7)) (result ir) (gpr c)\<rparr>)"
  by (rule writeback_set) (simp_all add: rd_field(1))

lemma user_classes:
  "user_op x \<Longrightarrow> x \<in> set alu_ops \<or> x \<in> {X_lui, X_auipc, X_jal, X_jalr} \<or> x \<in> load_ops \<or> x \<in> store_ops \<or>
     x \<in> {X_beq, X_bne, X_blt, X_bge, X_bltu, X_bgeu}"
  by (cases x) (simp_all add: user_op_def alu_ops_def load_ops_def store_ops_def)

text \<open>What is left to do once the instruction is executed: a memory access for a load or store, and the write-back.\<close>

lemma finish_inst:
  assumes "ir_type ir \<noteq> ITYPE_LOAD" and "ir_type ir \<noteq> ITYPE_STORE"
  shows "ir_mem_access False ir m = Inr (ir, 0, m)"
  using assms by (simp add: ir_mem_access_def)

lemma immU_low: "immU raw AND 0xfffffffffffff000 = immU raw"
proof (rule bit_word_eqI)
  fix i assume i: "i < LENGTH(64)"
  have e: "(0xfffffffffffff000 :: word_t) = NOT (mask 12)" by (simp add: mask_eq_exp_minus_1)
  show "bit (immU raw AND 0xfffffffffffff000) i = bit (immU raw) i"
    using i immU_bit [of i raw] unfolding e by (auto simp: bit_simps imm_bit_def)
qed

definition user_ok :: "exec_op \<Rightarrow> u32 \<Rightarrow> isa_state \<Rightarrow> bool" where
  "user_ok x raw s \<longleftrightarrow> user_op x \<and>
     (x \<in> set alu_ops \<longrightarrow> alu_error x (i_regs s ! unat (ibits raw 19 15))
        (if op_type x = TYPE_R then i_regs s ! unat (ibits raw 24 20) else immI raw) = None) \<and>
     (x \<in> load_ops \<union> store_ops \<longrightarrow> access_ok (isa_addr x raw s) (access_width x))"

lemma branch_execute:
  assumes "x \<in> {X_beq, X_bne, X_blt, X_bge, X_bltu, X_bgeu}" and "exec_fn ir = x"
  shows "ir_execute ir c m = Inr (ir\<lparr>ir_type := ITYPE_BRANCH, taken := branch_taken x (src1_val ir) (src2_val ir),
    dnpc := if branch_taken x (src1_val ir) (src2_val ir) then ir_pc ir + imm ir else ir_snpc ir\<rparr>, m)"
  using assms
  by (elim insertE emptyE; simp add: ir_execute_def ir_exec_beq_def ir_exec_bne_def ir_exec_blt_def ir_exec_bge_def
      ir_exec_bltu_def ir_exec_bgeu_def branch_taken_def word_sless_alt word_sle_eq word_less_def word_le_def Let_def)

lemma load_execute:
  assumes "x \<in> load_ops" and "exec_fn ir = x"
  shows "ir_execute ir c m = Inr (ir\<lparr>ir_type := ITYPE_LOAD, mem_addr := src1_val ir + src2_val ir, mem_width := access_width x,
    mem_sign := x \<in> {X_lw, X_lh, X_lb}, dnpc := ir_snpc ir\<rparr>, m)"
  using assms unfolding load_ops_def
  by (elim insertE emptyE; simp add: ir_execute_def ir_exec_ld_def ir_exec_lw_def ir_exec_lh_def ir_exec_lb_def
      ir_exec_lwu_def ir_exec_lhu_def ir_exec_lbu_def access_width_def)

lemma store_execute:
  assumes "x \<in> store_ops" and "exec_fn ir = x"
  shows "ir_execute ir c m = Inr (ir\<lparr>ir_type := ITYPE_STORE, mem_addr := src1_val ir + imm ir, mem_width := access_width x,
    dnpc := ir_snpc ir\<rparr>, m)"
  using assms unfolding store_ops_def
  by (elim insertE emptyE; simp add: ir_execute_def ir_exec_sd_def ir_exec_sw_def ir_exec_sh_def ir_exec_sb_def access_width_def)

lemma word_of_bytes_bound: "take_bit (8 * length bs) (word_of_bytes bs) = word_of_bytes bs"
  by (rule bit_word_eqI) (auto simp: bit_simps bit_word_of_bytes)

text \<open>The extension of a loaded value, for the widths the loads use.\<close>

lemma extend_loaded:
  assumes "x \<in> load_ops"
  shows "extend_load (x \<in> {X_lw, X_lh, X_lb}) (access_width x) (word_of_bytes (load_bytes mem a (access_width x))) =
    loaded x (word_of_bytes (load_bytes mem a (access_width x)))"
proof -
  have "take_bit (8 * n) (word_of_bytes (load_bytes mem a n)) = word_of_bytes (load_bytes mem a n)" for n
    using word_of_bytes_bound [of "load_bytes mem a n"] by simp
  from this [of 4] this [of 2] this [of 1] show ?thesis
    using assms by (auto simp: load_ops_def extend_load_def loaded_def access_width_def SEXT_def UEXT_def)
qed

section \<open>The stages\<close>

definition fmt :: "exec_op \<Rightarrow> u32 \<Rightarrow> vaddr_t \<Rightarrow> IR_Inst \<Rightarrow> bool" where
  "fmt x raw pc ir \<longleftrightarrow> exec_fn ir = x \<and> ir_pc ir = pc \<and> ir_snpc ir = pc + 4 \<and> \<not> fault ir \<and>
     ir_rd ir = (if op_type x \<in> {TYPE_S, TYPE_B} then -1 else uint (ibits raw 11 7)) \<and>
     ir_rs1 ir = (if op_type x \<in> {TYPE_U, TYPE_J} then -1 else uint (ibits raw 19 15)) \<and>
     ir_rs2 ir = (if op_type x \<in> {TYPE_S, TYPE_R, TYPE_B} then uint (ibits raw 24 20) else -1) \<and>
     (op_type x = TYPE_S \<longrightarrow> imm ir = immS raw) \<and> (op_type x = TYPE_B \<longrightarrow> imm ir = immB raw) \<and>
     (op_type x = TYPE_U \<longrightarrow> src1_val ir = immU raw) \<and> (op_type x = TYPE_J \<longrightarrow> src1_val ir = immJ raw) \<and>
     (op_type x = TYPE_I \<longrightarrow> src2_val ir = immI raw)"

definition operands :: "word_t list \<Rightarrow> IR_Inst \<Rightarrow> bool" where
  "operands rs ir \<longleftrightarrow> (0 \<le> ir_rs1 ir \<longrightarrow> src1_val ir = rs ! nat (ir_rs1 ir)) \<and>
     (0 \<le> ir_rs2 ir \<longrightarrow> src2_val ir = rs ! nat (ir_rs2 ir))"

definition ready :: "exec_op \<Rightarrow> u32 \<Rightarrow> isa_state \<Rightarrow> IR_Inst \<Rightarrow> bool" where
  "ready x raw s ir \<longleftrightarrow> fmt x raw (i_pc s) ir \<and> operands (i_regs s) ir"

definition retired :: "exec_op \<Rightarrow> u32 \<Rightarrow> isa_state \<Rightarrow> IR_Inst \<Rightarrow> bool" where
  "retired x raw s ir \<longleftrightarrow> dnpc ir = i_pc (isa_step x raw s) \<and> reg_field (ir_rd ir) \<and>
     i_regs (isa_step x raw s) = (if ir_rd ir = -1 then i_regs s else set_reg (nat (ir_rd ir)) (result ir) (i_regs s))"

definition executed :: "exec_op \<Rightarrow> u32 \<Rightarrow> isa_state \<Rightarrow> IR_Inst \<Rightarrow> bool" where
  "executed x raw s ir \<longleftrightarrow>
    (if x \<in> load_ops then ir_type ir = ITYPE_LOAD \<and> mem_addr ir = isa_addr x raw s \<and> mem_width ir = access_width x \<and>
       mem_sign ir = (x \<in> {X_lw, X_lh, X_lb}) \<and> ir_rd ir = uint (ibits raw 11 7) \<and> dnpc ir = i_pc s + 4
     else if x \<in> store_ops then ir_type ir = ITYPE_STORE \<and> mem_addr ir = isa_addr x raw s \<and> mem_width ir = access_width x \<and>
       src2_val ir = i_regs s ! unat (ibits raw 24 20) \<and> ir_rd ir = -1 \<and> dnpc ir = i_pc s + 4
     else ir_type ir \<noteq> ITYPE_LOAD \<and> ir_type ir \<noteq> ITYPE_STORE \<and> retired x raw s ir \<and> i_mem (isa_step x raw s) = i_mem s)"

text \<open>What execution leaves of the instruction and of the machine.\<close>

definition same_inst :: "IR_Inst \<Rightarrow> IR_Inst \<Rightarrow> bool" where
  "same_inst ir ir' \<longleftrightarrow> ir_pc ir' = ir_pc ir \<and> ir_snpc ir' = ir_snpc ir \<and> ir_raw ir' = ir_raw ir \<and> ir_rd ir' = ir_rd ir \<and>
     bp_predicted_pc ir' = bp_predicted_pc ir \<and> fault ir' = fault ir"

definition trace_eq :: "machine \<Rightarrow> machine \<Rightarrow> bool" where
  "trace_eq m m' \<longleftrightarrow> m' = m\<lparr>ftrace := ftrace m', ftrace_depth := ftrace_depth m'\<rparr>"

lemma trace_eq_refl [simp]: "trace_eq m m" by (simp add: trace_eq_def)

lemma trace_eq_mem: "trace_eq m m' \<Longrightarrow> mem_eq m m' \<and> env_eq m m' \<and> cpu m' = cpu m"
proof -
  assume "trace_eq m m'"
  then obtain f d where "m' = m\<lparr>ftrace := f, ftrace_depth := d\<rparr>" unfolding trace_eq_def by metis
  then show ?thesis by (simp add: mem_eq_def env_eq_def)
qed

lemma decode_stage:
  assumes "table_lookup inst_table raw = x" and "user_op x"
  shows "fmt x raw pc (ir_decode raw pc (pc + 4) stk m)" "operands (gpr (cpu m)) (ir_decode raw pc (pc + 4) stk m)"
    "ir_raw (ir_decode raw pc (pc + 4) stk m) = raw"
proof -
  obtain nm where d: "ir_decode raw pc (pc + 4) stk m =
      set_exec nm x (ir_fill_operands (ir_init raw pc (pc + 4) stk) raw (op_type x) m)"
    using decode_user [OF assms] by blast
  have "op_type x \<noteq> TYPE_N" by (simp add: op_type_def)
  then show "fmt x raw pc (ir_decode raw pc (pc + 4) stk m)" "operands (gpr (cpu m)) (ir_decode raw pc (pc + 4) stk m)"
      "ir_raw (ir_decode raw pc (pc + 4) stk m) = raw"
    unfolding d
    by (cases "op_type x"; simp add: fmt_def operands_def set_exec_def ir_fill_operands_def ir_init_def reg_val_def Let_def)+
qed

text \<open>Execution, by kind of instruction.\<close>

lemma execute_alu:
  assumes "ready x raw s ir" and "user_ok x raw s" and "x \<in> set alu_ops"
  shows "\<exists>ir'. ir_execute ir c m = Inr (ir', m) \<and> executed x raw s ir' \<and> same_inst ir ir'"
proof -
  have ty: "op_type x = TYPE_R \<or> op_type x = TYPE_I" using assms(3) by (auto simp: alu_ops_def op_type_def)
  have nm: "x \<notin> load_ops" "x \<notin> store_ops" using assms(3) by (auto simp: alu_ops_def load_ops_def store_ops_def)
  have ops: "exec_fn ir = x" "ir_snpc ir = i_pc s + 4" "ir_rd ir = uint (ibits raw 11 7)"
      "src1_val ir = i_regs s ! unat (ibits raw 19 15)"
      "src2_val ir = (if op_type x = TYPE_R then i_regs s ! unat (ibits raw 24 20) else immI raw)"
    using ty assms(1) by (auto simp: ready_def fmt_def operands_def)
  have "alu_error x (src1_val ir) (src2_val ir) = None"
    unfolding ops(4,5) using assms(2,3) by (auto simp: user_ok_def)
  then have "ir_execute ir c m = Inr (ir\<lparr>ir_type := ITYPE_ALU, result := isa_alu x (src1_val ir) (src2_val ir), dnpc := ir_snpc ir\<rparr>, m)"
    using alu_execute [OF assms(3) ops(1), of c m] by simp
  then show ?thesis
    using nm assms(3) ops
    by (simp add: executed_def retired_def same_inst_def isa_step_def Let_def)
qed

lemma execute_jump:
  assumes "ready x raw s ir" and "x \<in> {X_lui, X_auipc, X_jal, X_jalr}"
  shows "\<exists>ir' m'. ir_execute ir c m = Inr (ir', m') \<and> executed x raw s ir' \<and> same_inst ir ir' \<and> trace_eq m m'"
proof -
  have no: "x \<notin> set alu_ops" "x \<notin> load_ops" "x \<notin> store_ops"
    using assms(2) by (auto simp: alu_ops_def load_ops_def store_ops_def)
  have tr: "trace_eq m (add_ftrace a b m)" for a b unfolding trace_eq_def by (rule add_ftrace_frame)
  note d = ir_execute_def ready_def fmt_def operands_def executed_def retired_def same_inst_def op_type_def isa_step_def Let_def
  consider "x = X_lui" | "x = X_auipc" | "x = X_jal" | "x = X_jalr" using assms(2) by auto
  then show ?thesis
  proof cases
    case 1
    then show ?thesis using assms(1) no by (auto simp: d ir_exec_lui_def immU_low)
  next
    case 2
    then show ?thesis using assms(1) no by (auto simp: d ir_exec_auipc_def add.commute)
  next
    case 3
    then show ?thesis using assms(1) no tr by (auto simp: d ir_exec_jal_def)
  next
    case 4
    then show ?thesis using assms(1) no tr by (auto simp: d ir_exec_jalr_def)
  qed
qed

lemma execute_branch:
  assumes "ready x raw s ir" and "x \<in> {X_beq, X_bne, X_blt, X_bge, X_bltu, X_bgeu}"
  shows "\<exists>ir'. ir_execute ir c m = Inr (ir', m) \<and> executed x raw s ir' \<and> same_inst ir ir'"
proof -
  have no: "x \<notin> set alu_ops" "x \<notin> load_ops" "x \<notin> store_ops" "x \<notin> {X_lui, X_auipc, X_jal, X_jalr}"
    and ty: "op_type x = TYPE_B"
    using assms(2) by (auto simp: alu_ops_def load_ops_def store_ops_def op_type_def)
  have "exec_fn ir = x" using assms(1) by (simp add: ready_def fmt_def)
  from branch_execute [OF assms(2) this, of c m] show ?thesis
    using assms(1) no ty by (auto simp: ready_def fmt_def operands_def executed_def retired_def same_inst_def isa_step_def reg_field_def Let_def)
qed

lemma execute_memory:
  assumes "ready x raw s ir" and "x \<in> load_ops \<union> store_ops"
  shows "\<exists>ir'. ir_execute ir c m = Inr (ir', m) \<and> executed x raw s ir' \<and> same_inst ir ir'"
proof -
  have x: "exec_fn ir = x" using assms(1) by (simp add: ready_def fmt_def)
  show ?thesis
  proof (cases "x \<in> load_ops")
    case True
    then have ty: "op_type x = TYPE_I" "x \<notin> store_ops" by (auto simp: load_ops_def store_ops_def op_type_def)
    from load_execute [OF True x, of c m] show ?thesis
      using assms(1) True ty by (auto simp: ready_def fmt_def operands_def executed_def same_inst_def isa_addr_def)
  next
    case False
    then have st: "x \<in> store_ops" and ty: "op_type x = TYPE_S" using assms(2) by (auto simp: store_ops_def op_type_def)
    from store_execute [OF st x, of c m] show ?thesis
      using assms(1) False st ty by (auto simp: ready_def fmt_def operands_def executed_def same_inst_def isa_addr_def)
  qed
qed

lemma execute_stage:
  assumes "ready x raw s ir" and "user_ok x raw s"
  shows "\<exists>ir' m'. ir_execute ir c m = Inr (ir', m') \<and> executed x raw s ir' \<and> same_inst ir ir' \<and> trace_eq m m'"
  using user_classes [of x] execute_alu [OF assms, of c m] execute_jump [OF assms(1), of c m] execute_branch [OF assms(1), of c m]
    execute_memory [OF assms(1), of c m] assms(2) trace_eq_refl [of m]
  unfolding user_ok_def by blast

text \<open>The memory stage. With the latency asked for, the load goes through \<^verbatim>\<open>vaddr_read_level\<close>.\<close>

definition mem_done :: "paddr_t set \<Rightarrow> exec_op \<Rightarrow> u32 \<Rightarrow> isa_state \<Rightarrow> IR_Inst \<Rightarrow> machine \<Rightarrow> IR_Inst \<Rightarrow> machine \<Rightarrow> bool" where
  "mem_done B x raw s ir m ir' m' \<longleftrightarrow> retired x raw s ir' \<and> ir' = ir\<lparr>result := result ir'\<rparr> \<and>
     ram_view m' = i_mem (isa_step x raw s) \<and> mem_sys m' \<and> mem_frame (mem_caches m) m m' \<and>
     (code_clean B m \<longrightarrow> (x \<in> store_ops \<longrightarrow> blk (isa_addr x raw s) \<notin> B) \<longrightarrow> code_clean B m')"

lemma access_load:
  assumes "executed x raw s ir" and "x \<in> load_ops" and "user_ok x raw s" and "mem_sys m" and "ram_view m = i_mem s"
  shows "\<exists>ir' lat m'. ir_mem_access w ir m = Inr (ir', lat, m') \<and> lat \<le> 40 \<and> mem_done B x raw s ir m ir' m'"
proof -
  let ?a = "isa_addr x raw s" and ?w = "access_width x"
  let ?r = "word_of_bytes (load_bytes (i_mem s) (ram_off ?a) ?w)"
  have ok: "access_ok ?a ?w" using assms(2,3) by (simp add: user_ok_def)
  have f: "ir_type ir = ITYPE_LOAD" "mem_addr ir = ?a" "mem_width ir = ?w" "mem_sign ir = (x \<in> {X_lw, X_lh, X_lb})"
      "ir_rd ir = uint (ibits raw 11 7)" "dnpc ir = i_pc s + 4"
    using assms(1,2) by (simp_all add: executed_def)
  have no: "x \<notin> set alu_ops" "x \<notin> store_ops" "x \<notin> {X_lui, X_auipc, X_jal, X_jalr}"
    using assms(2) by (auto simp: alu_ops_def load_ops_def store_ops_def)
  have ext: "extend_load (x \<in> {X_lw, X_lh, X_lb}) ?w ?r = loaded x ?r" by (rule extend_loaded [OF assms(2)])
  obtain lat m' where m': "ir_mem_access w ir m = Inr (ir\<lparr>result := loaded x ?r\<rparr>, lat, m')" "lat \<le> 40"
      "mem_sys m'" "mem_frame (mem_caches m) m m'" "ram_view m' = ram_view m" "dirty (data_caches m) m' \<subseteq> dirty (data_caches m) m"
  proof (cases w)
    case True
    obtain lv m' where "vaddr_read_level ?a ?w m = Inr (lv, ?r, m')" "lv \<le> 2"
        "mem_sys m'" "mem_frame (mem_caches m) m m'" "ram_view m' = ram_view m" "dirty (data_caches m) m' \<subseteq> dirty (data_caches m) m"
      using vaddr_read_level_sys [OF assms(4) ok] served_level_le unfolding assms(5) by blast
    moreover from this have "ir_mem_access w ir m = Inr (ir\<lparr>result := loaded x ?r\<rparr>, level_to_lat lv, m')"
      unfolding ir_mem_access_def f ext [symmetric] using True by simp
    moreover have "level_to_lat lv \<le> 40" by (simp add: level_to_lat_def)
    ultimately show thesis using that by blast
  next
    case False
    obtain m' where "vaddr_read ?a ?w m = Inr (?r, m')"
        "mem_sys m'" "mem_frame (mem_caches m) m m'" "ram_view m' = ram_view m" "dirty (data_caches m) m' \<subseteq> dirty (data_caches m) m"
      using vaddr_read_sys [OF assms(4) ok] unfolding assms(5) by blast
    moreover from this have "ir_mem_access w ir m = Inr (ir\<lparr>result := loaded x ?r\<rparr>, 0, m')"
      unfolding ir_mem_access_def f ext [symmetric] using False by simp
    ultimately show thesis using that [of 0] by blast
  qed
  have st: "isa_step x raw s = s\<lparr>i_regs := set_reg (unat (ibits raw 11 7)) (loaded x ?r) (i_regs s), i_pc := i_pc s + 4\<rparr>"
    using no assms(2) by (simp add: isa_step_def Let_def)
  have "code_clean B m \<Longrightarrow> code_clean B m'" using code_clean_read [OF assms(4) m'(3) _ m'(4,6,5)] .
  then have "mem_done B x raw s ir m (ir\<lparr>result := loaded x ?r\<rparr>) m'"
    using f(5,6) st m'(3-5) assms(5) by (simp add: mem_done_def retired_def)
  then show ?thesis using m'(1,2) by blast
qed

lemma access_store:
  assumes "executed x raw s ir" and "x \<in> store_ops" and "user_ok x raw s" and "mem_sys m" and "ram_view m = i_mem s"
  shows "\<exists>ir' lat m'. ir_mem_access w ir m = Inr (ir', lat, m') \<and> lat \<le> 40 \<and> mem_done B x raw s ir m ir' m'"
proof -
  let ?a = "isa_addr x raw s" and ?w = "access_width x" and ?b = "i_regs s ! unat (ibits raw 24 20)"
  have ok: "access_ok ?a ?w" using assms(2,3) by (simp add: user_ok_def)
  have no: "x \<notin> set alu_ops" "x \<notin> load_ops" "x \<notin> {X_lui, X_auipc, X_jal, X_jalr}"
    using assms(2) by (auto simp: alu_ops_def load_ops_def store_ops_def)
  have f: "ir_type ir = ITYPE_STORE" "mem_addr ir = ?a" "mem_width ir = ?w" "src2_val ir = ?b" "ir_rd ir = -1" "dnpc ir = i_pc s + 4"
    using assms(1,2) no(2) by (simp_all add: executed_def)
  obtain m' where m': "vaddr_write ?a ?w ?b m = Inr m'" "mem_sys m'" "mem_frame (mem_caches m) m m'"
      "ram_view m' = store_bytes (ram_view m) (ram_off ?a) (bytes_of_word ?w ?b)"
      "dirty (data_caches m) m' \<subseteq> insert (blk ?a) (dirty (data_caches m) m)"
    using vaddr_write_sys [OF assms(4) ok] by blast
  have st: "isa_step x raw s = s\<lparr>i_mem := store_bytes (i_mem s) (ram_off ?a) (bytes_of_word ?w ?b), i_pc := i_pc s + 4\<rparr>"
    using no assms(2) by (simp add: isa_step_def Let_def)
  have "code_clean B m \<Longrightarrow> blk ?a \<notin> B \<Longrightarrow> code_clean B m'" using code_clean_write [OF assms(4) m'(2) _ m'(3) ok _ m'(5,4)] .
  then have "mem_done B x raw s ir m ir m'"
    using f(5,6) st m'(2-4) assms(2,5) by (simp add: mem_done_def retired_def reg_field_def)
  moreover have "ir_mem_access w ir m = Inr (ir, if w then 1 else 0, m')" using m'(1) f(1-4) by (simp add: ir_mem_access_def)
  ultimately show ?thesis by (cases w) auto
qed

lemma access_stage:
  assumes "executed x raw s ir" and "user_ok x raw s" and "mem_sys m" and "ram_view m = i_mem s"
  shows "\<exists>ir' lat m'. ir_mem_access w ir m = Inr (ir', lat, m') \<and> lat \<le> 40 \<and> mem_done B x raw s ir m ir' m'"
proof (cases "x \<in> load_ops \<union> store_ops")
  case True
  then show ?thesis using access_load [OF assms(1) _ assms(2-4)] access_store [OF assms(1) _ assms(2-4)] by blast
next
  case False
  then have e: "ir_type ir \<noteq> ITYPE_LOAD" "ir_type ir \<noteq> ITYPE_STORE" "retired x raw s ir" "i_mem (isa_step x raw s) = i_mem s"
    using assms(1) by (auto simp: executed_def)
  then have "ir_mem_access w ir m = Inr (ir, 0, m)" by (simp add: ir_mem_access_def)
  moreover have "mem_done B x raw s ir m ir m" using e(3,4) assms(3,4) by (simp add: mem_done_def)
  ultimately show ?thesis by blast
qed

lemma writeback_stage:
  assumes "retired x raw s ir" and "gpr c = i_regs s" and "regs_ok c"
  shows "ir_writeback ir c = Inr (c\<lparr>gpr := i_regs (isa_step x raw s)\<rparr>) \<and> regs_ok (c\<lparr>gpr := i_regs (isa_step x raw s)\<rparr>)"
proof (cases "ir_rd ir = -1")
  case True
  then have "i_regs (isa_step x raw s) = gpr c" using assms(1,2) by (simp add: retired_def)
  then show ?thesis using writeback_none [OF assms(3) True] assms(3) by simp
next
  case False
  then have r: "ir_rd ir = int (nat (ir_rd ir))" "nat (ir_rd ir) < 32" using assms(1) by (auto simp: retired_def reg_field_def)
  have "i_regs (isa_step x raw s) = set_reg (nat (ir_rd ir)) (result ir) (gpr c)"
    using assms(1,2) False by (simp add: retired_def)
  then show ?thesis using writeback_set [OF assms(3) r] regs_ok_set [OF assms(3)] by simp
qed

end
