(* ===== verification/Img.thy ===== *)
theory Img
  imports Vmem
begin

text \<open>
  The program image (\<^verbatim>\<open>src/simulator/img.c\<close>): the built-in program and the loader. The host's file is an argument:
  \<open>None\<close> when no image is given, \<open>Some None\<close> when the file cannot be opened, \<open>Some (Some bs)\<close> for its bytes.
\<close>

definition default_program :: "u32 list" where
  "default_program = replicate 15 0x00150513 @ [0x00100073]"

abbreviation (input) RESET_VECTOR :: paddr_t where "RESET_VECTOR \<equiv> MBASE"

definition init_default_program :: "machine \<Rightarrow> machine" where
  "init_default_program m =
     m\<lparr>pmem := store_bytes (pmem m) (guest_to_host RESET_VECTOR) (concat (map (bytes_of_word 4 \<circ> ucast) default_program))\<rparr>"

text \<open>\<^verbatim>\<open>fread\<close> of one item returns 1 unless the file is empty; an image larger than RAM is written past the array.\<close>

definition load_img :: "byte list option option \<Rightarrow> machine \<Rightarrow> (int \<times> machine) res" where
  "load_img img_file m =
    (case img_file of
       None \<Rightarrow> Inr (4096, m\<lparr>img_size := 4096\<rparr>)
     | Some None \<Rightarrow> Inl Assertion_failed
     | Some (Some bs) \<Rightarrow>
         bind_res (guard (guest_to_host RESET_VECTOR + length bs \<le> unat MSIZE) Out_of_bounds) (\<lambda>_.
         bind_res (guard (bs \<noteq> []) Assertion_failed) (\<lambda>_.
         Inr (int (length bs),
           m\<lparr>img_size := word_of_nat (length bs), pmem := store_bytes (pmem m) (guest_to_host RESET_VECTOR) bs\<rparr>))))"

section \<open>Memory behind empty caches\<close>

text \<open>No cache holds a block.\<close>

definition cold :: "machine \<Rightarrow> bool" where
  "cold m \<longleftrightarrow> (\<forall>c\<in>set (caches m). wf_cache c \<and> (\<forall>a. held c a = None))"

lemma cold_get: "cold m \<Longrightarrow> p < length (caches m) \<Longrightarrow> wf_cache (get_cache p m) \<and> (\<forall>a. held (get_cache p m) a = None)"
  by (simp add: cold_def get_cache_def)

lemma init_cache_cold: "wf_cache (init_cache 6 8 n)" "wf_cache (init_cache 8 16 n)"
    "held (init_cache 6 8 n) a = None" "held (init_cache 8 16 n) a = None"
  using wf_init_cache by auto

lemma cold_sys:
  assumes "cold m" and "hart_ok m" and "distinct (the (L2_cache m) # data_caches m @ l1i_caches m)"
    and "\<forall>p\<in>set (the (L2_cache m) # data_caches m @ l1i_caches m). p < length (caches m)"
  shows "mem_sys m"
proof -
  have c: "p < length (caches m) \<and> wf_cache (get_cache p m) \<and> (\<forall>a. held (get_cache p m) a = None)"
    if "p \<in> set (the (L2_cache m) # data_caches m @ l1i_caches m)" for p
    using that assms(4) cold_get [OF assms(1)] by blast
  have "coherent (data_caches m) (the (L2_cache m)) m"
    by (rule coherent_fresh) (use assms(3) c in auto)
  moreover have "icache_ok p m" if "p \<in> set (l1i_caches m)" for p
    using c [of p] that by (simp add: icache_ok_def)
  ultimately show ?thesis using assms(2,3) by (auto simp: mem_sys_def)
qed

lemma cold_view:
  assumes "cold m" and "the (L2_cache m) < length (caches m)"
  shows "p < length (caches m) \<Longrightarrow> pview p (the (L2_cache m)) m a = mem_block m a"
    and "\<forall>p\<in>set (data_caches m). p < length (caches m) \<Longrightarrow> dview (data_caches m) (the (L2_cache m)) m a = mem_block m a"
proof -
  have v: "l2_view (the (L2_cache m)) m a = mem_block m a" using cold_get [OF assms] by (simp add: l2_view_def)
  then show "p < length (caches m) \<Longrightarrow> pview p (the (L2_cache m)) m a = mem_block m a"
    using cold_get [OF assms(1)] by (simp add: pview_def)
  show "\<forall>p\<in>set (data_caches m). p < length (caches m) \<Longrightarrow> dview (data_caches m) (the (L2_cache m)) m a = mem_block m a"
    using cold_get [OF assms(1)] v dview_none by metis
qed

lemma cold_ram_view:
  assumes "cold m" and "the (L2_cache m) < length (caches m)" and "\<forall>p\<in>set (data_caches m). p < length (caches m)"
  shows "ram_view m = (\<lambda>x. if x < 0x8000000 then pmem m x else 0)"
proof (rule ext)
  fix x
  show "ram_view m x = (if x < 0x8000000 then pmem m x else 0)"
  proof (cases "x < 0x8000000")
    case True
    let ?a = "0x80000000 + word_of_nat x :: paddr_t"
    have d: "dview (data_caches m) (the (L2_cache m)) m ?a = mem_block m ?a" by (rule cold_view(2) [OF assms])
    have "unat (blk ?a) = (0x2000000 + x div 64) * 64" unfolding unat_blk unat_ram [OF True] div_base ..
    then have "guest_to_host (blk ?a) = x div 64 * 64"
      using ram_block_range(4) [OF ram_addr_of [OF True]] by (simp add: add_mult_distrib)
    then show ?thesis using True by (simp add: ram_view_def d mem_block_def)
  qed (simp add: ram_view_def)
qed

text \<open>With empty caches both kinds of access see the array \<open>pmem\<close>.\<close>

lemma cold_fetch_bytes:
  assumes "cold m" and "mem_sys m" and "the (L2_cache m) < length (caches m)" and "\<forall>p\<in>set (data_caches m). p < length (caches m)"
    and "p < length (caches m)" and "access_ok a n"
  shows "take n (drop (unat (a AND 63)) (pview p (the (L2_cache m)) m a)) = load_bytes (pmem m) (ram_off a) n"
proof -
  have "coherent (data_caches m) (the (L2_cache m)) m" using assms(2) by (simp add: mem_sys_def)
  from load_view [OF this assms(6)] have "take n (drop (unat (a AND 63)) (pview p (the (L2_cache m)) m a)) = load_bytes (ram_view m) (ram_off a) n"
    using cold_view [OF assms(1,3)] assms(4,5) by simp
  also have "\<dots> = load_bytes (pmem m) (ram_off a) n"
    using access_range(1) [OF assms(6)] cold_ram_view [OF assms(1,3,4)] by (simp add: load_bytes_def)
  finally show ?thesis .
qed

lemma load_img_ok:
  assumes "bs \<noteq> []" and "length bs \<le> 0x8000000"
  shows "load_img (Some (Some bs)) m = Inr (int (length bs), m\<lparr>img_size := word_of_nat (length bs), pmem := store_bytes (pmem m) 0 bs\<rparr>)"
  using assms by (simp add: load_img_def guest_to_host_def)

end
