(* ===== verification/Functional.thy ===== *)
theory Functional
  imports Stages Img
begin

text \<open>
  The functional engine (\<^verbatim>\<open>exec_once\<close> and its helpers in \<^verbatim>\<open>src/cpu/exec.c\<close>) and its refinement of the
  ISA step. The queue of SDL events at a call is an argument; so is the
  record \<open>stk\<close> that the local \<^verbatim>\<open>IR_Inst ir\<close> holds before it is decoded, since \<^verbatim>\<open>ir_decode\<close> does not set all its fields.
\<close>

section \<open>exec.c\<close>

text \<open>Fetch, decode, execute, memory access and write-back of one instruction.\<close>

definition step_inst :: "IR_Inst \<Rightarrow> machine \<Rightarrow> (IR_Inst \<times> machine) res" where
  "step_inst stk m =
    (let pc = cpu_pc (cpu m); snpc = pc + 4; m = snd (pmp_check pc True False m) in
     bind_res (vaddr_ifetch pc 4 m) (\<lambda>(raw, m).
     bind_res (ir_execute (ir_decode (ucast raw) pc snpc stk m) (cpu m) m) (\<lambda>(ir, m).
     bind_res (ir_mem_access False ir m) (\<lambda>(ir, _, m).
     bind_res (ir_writeback ir (cpu m)) (\<lambda>c.
     Inr (ir, m\<lparr>cpu := c\<lparr>cpu_pc := dnpc ir\<rparr>\<rparr>))))))"

datatype sdl_event = SDL_QUIT | SDL_KEYDOWN byte | SDL_KEYUP byte | SDL_OTHER

fun poll_events :: "sdl_event list \<Rightarrow> machine \<Rightarrow> machine res" where
  "poll_events [] m = Inr m"
| "poll_events (SDL_QUIT # es) m = poll_events es (m\<lparr>state := NEMU_QUIT\<rparr>)"
| "poll_events (SDL_KEYDOWN k # es) m = bind_res (send_key k True m) (poll_events es)"
| "poll_events (SDL_KEYUP k # es) m = bind_res (send_key k False m) (poll_events es)"
| "poll_events (SDL_OTHER # es) m = poll_events es m"

text \<open>The refresh of the screen and the poll of events, at most sixty times a second.\<close>

definition refresh :: "sdl_event list \<Rightarrow> machine \<Rightarrow> machine res" where
  "refresh evs m =
    (let (now, d) = get_time (dev m); m = m\<lparr>dev := d\<rparr> in
     if now - exec_last m < 16666 then Inr m
     else
       let m = m\<lparr>exec_last := now\<rparr> in
       bind_res (vga_update_screen (dev m)) (\<lambda>d. poll_events evs (m\<lparr>dev := d\<rparr>)))"

definition exec_once :: "IR_Inst \<Rightarrow> sdl_event list \<Rightarrow> machine \<Rightarrow> machine res" where
  "exec_once stk evs m =
     bind_res (step_inst stk m) (\<lambda>(ir, m).
     refresh evs (m\<lparr>dec_s := \<lparr>s_pc = ir_pc ir, s_snpc = dnpc ir, s_dnpc = dnpc ir, s_inst_val = ir_raw ir\<rparr>,
       g_sim_cycles := g_sim_cycles m + 1, g_sim_instret := g_sim_instret m + 1\<rparr>))"

text \<open>The word the instruction cache gives at the program counter.\<close>

definition fetched :: "machine \<Rightarrow> u32" where
  "fetched m =
    (let pc = cpu_pc (cpu m) in
     ucast (word_of_bytes (take 4 (drop (unat (pc AND 63)) (pview (the (L1I_cache m)) (the (L2_cache m)) m pc)))))"

section \<open>One instruction refines the ISA\<close>

lemma fetch_step:
  assumes "mem_sys m" and "access_ok (cpu_pc (cpu m)) 4"
  shows "\<exists>w m1. vaddr_ifetch (cpu_pc (cpu m)) 4 (snd (pmp_check (cpu_pc (cpu m)) True False m)) = Inr (w, m1) \<and>
    ucast w = fetched m \<and> mem_sys m1 \<and> cpu m1 = cpu m \<and> ram_view m1 = ram_view m \<and>
    env_eq (snd (pmp_check (cpu_pc (cpu m)) True False m)) m1"
proof -
  let ?m = "snd (pmp_check (cpu_pc (cpu m)) True False m)"
  note q = mem_eq_sys [OF pmp_check_mem_eq(1) [of m "cpu_pc (cpu m)" True False]]
  obtain m1 where "vaddr_ifetch (cpu_pc (cpu m)) 4 ?m = Inr (word_of_bytes (take 4 (drop (unat (cpu_pc (cpu m) AND 63))
        (pview (the (L1I_cache ?m)) (the (L2_cache ?m)) ?m (cpu_pc (cpu m))))), m1)"
      "mem_sys m1" "mem_frame UNIV ?m m1" "ram_view m1 = ram_view ?m"
    using vaddr_ifetch_sys [of ?m "cpu_pc (cpu m)" 4] q(1) assms by blast
  moreover from this have "cpu m1 = cpu m" using frame_fields(11) pmp_check_mem_eq(2) by metis
  moreover have "L1I_cache ?m = L1I_cache m" "L2_cache ?m = L2_cache m"
    using pmp_check_mem_eq(1) by (simp_all add: mem_eq_def)
  ultimately show ?thesis using q mem_frame_env by (simp add: fetched_def Let_def)
qed

text \<open>What follows the fetch, from any machine with the registers and memory of the ISA state.\<close>

lemma finish_step:
  assumes "mem_sys m" "regs_ok (cpu m)" "table_lookup inst_table raw = x" and "user_ok x raw (isa_of m)"
  shows "\<exists>ir m' ir1 m1 lat c. ir_execute (ir_decode raw (cpu_pc (cpu m)) (cpu_pc (cpu m) + 4) stk m) (cpu m) m = Inr (ir1, m1) \<and>
    ir_mem_access False ir1 m1 = Inr (ir, lat, m') \<and> ir_writeback ir (cpu m') = Inr c \<and>
    isa_of (m'\<lparr>cpu := c\<lparr>cpu_pc := dnpc ir\<rparr>\<rparr>) = isa_step x raw (isa_of m) \<and> mem_sys m' \<and> regs_ok c \<and> env_eq m m' \<and>
    (code_clean B m \<longrightarrow> (x \<in> store_ops \<longrightarrow> blk (isa_addr x raw (isa_of m)) \<notin> B) \<longrightarrow> code_clean B m')"
proof -
  let ?s = "isa_of m" and ?ir = "ir_decode raw (cpu_pc (cpu m)) (cpu_pc (cpu m) + 4) stk m"
  have "ready x raw ?s ?ir"
    using decode_stage [OF assms(3), where pc = "cpu_pc (cpu m)" and stk = stk and m = m] assms(4) by (simp add: ready_def user_ok_def isa_of_def)
  from execute_stage [OF this assms(4), of "cpu m" m] obtain ir1 m1 where
    e: "ir_execute ?ir (cpu m) m = Inr (ir1, m1)" "executed x raw ?s ir1" "trace_eq m m1" by blast
  note t = trace_eq_mem [OF e(3)] mem_eq_sys [of m m1]
  have m1: "mem_sys m1" "ram_view m1 = i_mem ?s" "cpu m1 = cpu m" using t assms(1) by (simp_all add: isa_of_def)
  obtain ir lat m' where a: "ir_mem_access False ir1 m1 = Inr (ir, lat, m')" "mem_done B x raw ?s ir1 m1 ir m'"
    using access_stage [OF e(2) assms(4) m1(1,2)] by blast
  have d: "retired x raw ?s ir" "ram_view m' = i_mem (isa_step x raw ?s)" "mem_sys m'" "mem_frame (mem_caches m1) m1 m'"
    using a(2) by (simp_all add: mem_done_def)
  have c: "cpu m' = cpu m" using frame_fields(11) [OF d(4)] m1(3) by simp
  have w: "ir_writeback ir (cpu m') = Inr ((cpu m')\<lparr>gpr := i_regs (isa_step x raw ?s)\<rparr>)"
      "regs_ok ((cpu m')\<lparr>gpr := i_regs (isa_step x raw ?s)\<rparr>)"
    using writeback_stage [OF d(1), of "cpu m'"] c assms(2) by (simp_all add: isa_of_def)
  have i: "isa_of (m'\<lparr>cpu := (cpu m')\<lparr>gpr := i_regs (isa_step x raw ?s), cpu_pc := dnpc ir\<rparr>\<rparr>) = isa_step x raw ?s"
    using d(1,2) set_cpu_sys by (simp add: isa_of_def retired_def)
  have "env_eq m m'" using t mem_frame_env [OF d(4)] env_eq_trans by blast
  moreover have "code_clean B m1 = code_clean B m" using code_clean_mem_eq t by blast
  ultimately show ?thesis using e(1) a w d(3) i unfolding mem_done_def by auto
qed

lemma step_inst_refines:
  assumes "mem_sys m" "regs_ok (cpu m)" "access_ok (cpu_pc (cpu m)) 4"
    and "table_lookup inst_table (fetched m) = x" and "user_ok x (fetched m) (isa_of m)"
  shows "\<exists>ir m'. step_inst stk m = Inr (ir, m') \<and> isa_of m' = isa_step x (fetched m) (isa_of m) \<and> mem_sys m' \<and>
    regs_ok (cpu m') \<and> env_eq (snd (pmp_check (cpu_pc (cpu m)) True False m)) m'"
proof -
  let ?p = "snd (pmp_check (cpu_pc (cpu m)) True False m)"
  obtain w m1 where m1: "vaddr_ifetch (cpu_pc (cpu m)) 4 ?p = Inr (w, m1)"
      "ucast w = fetched m" "mem_sys m1" "cpu m1 = cpu m" "ram_view m1 = ram_view m" "env_eq ?p m1"
    using fetch_step [OF assms(1,3)] by blast
  have i: "isa_of m1 = isa_of m" using m1(4,5) by (simp add: isa_of_def)
  from finish_step [OF m1(3) _ assms(4), of stk] i assms(2,5) m1(4) obtain ir m' ir1 m2 lat c where
    "ir_execute (ir_decode (fetched m) (cpu_pc (cpu m1)) (cpu_pc (cpu m1) + 4) stk m1) (cpu m1) m1 = Inr (ir1, m2)"
    "ir_mem_access False ir1 m2 = Inr (ir, lat, m')" "ir_writeback ir (cpu m') = Inr c"
    "isa_of (m'\<lparr>cpu := c\<lparr>cpu_pc := dnpc ir\<rparr>\<rparr>) = isa_step x (fetched m) (isa_of m)" "mem_sys m'" "regs_ok c" "env_eq m1 m'"
    by metis
  then show ?thesis
    using m1(1,2,4,6) env_eq_trans by (auto simp: step_inst_def Let_def set_cpu_sys)
qed

section \<open>Events and refresh\<close>

definition run_ok :: "machine \<Rightarrow> bool" where
  "run_ok m \<longleftrightarrow> mem_sys m \<and> regs_ok (cpu m) \<and> dev_ok (dev m)"

lemma send_key_ok:
  assumes "dev_ok (dev m)" and "length (key_contents (dev m)) < 1023"
  shows "\<exists>d. send_key k b m = Inr (m\<lparr>dev := d\<rparr>) \<and> dev_ok d \<and> length (key_contents d) \<le> Suc (length (key_contents (dev m)))"
proof (cases "state m = NEMU_RUNNING \<and> keymap (dev m) ! unat k \<noteq> KEY_NONE")
  case True
  then show ?thesis
    using guestq.enq_ok [OF assms, of "keymap (dev m) ! unat k OR (if b then KEYDOWN_MASK else 0)"]
    by (auto simp: send_key_def Let_def)
next
  case False
  then have "send_key k b m = Inr (m\<lparr>dev := dev m\<rparr>)" by (auto simp: send_key_def)
  then show ?thesis using assms(1) by (intro exI [of _ "dev m"]) simp
qed

lemma vga_update_screen_ok:
  assumes "dev_ok d"
  shows "\<exists>e. vga_update_screen d = Inr e \<and> dev_ok e \<and> key_contents e = key_contents d"
proof -
  have "vgactl_port_base d = 8192" using assms by (simp add: dev_ok_def)
  then show ?thesis
    using assms
    by (cases "host_read (io_space d) 8196 4 = 1")
      (simp_all add: vga_update_screen_def io_read_def io_write_def in_bounds_def, simp add: dev_ok_def key_inv_def key_contents_def)
qed

text \<open>Nothing but devices, run state and the time of the last refresh changes.\<close>

definition dev_part :: "machine \<Rightarrow> machine" where
  "dev_part m = m\<lparr>dev := zero_devices, state := NEMU_RUNNING, exec_last := 0, pip_last := 0, pip_cycle_ctr := 0\<rparr>"

definition dev_frame :: "machine \<Rightarrow> machine \<Rightarrow> bool" where
  "dev_frame m m' \<longleftrightarrow> dev_part m' = dev_part m"

lemma dev_frame_simps [simp]:
  "dev_frame m m" "dev_frame m (m'\<lparr>dev := d\<rparr>) = dev_frame m m'" "dev_frame m (m'\<lparr>state := s\<rparr>) = dev_frame m m'"
  "dev_frame m (m'\<lparr>exec_last := w\<rparr>) = dev_frame m m'" "dev_frame m (m'\<lparr>pip_last := w\<rparr>) = dev_frame m m'"
  "dev_frame m (m'\<lparr>pip_cycle_ctr := w\<rparr>) = dev_frame m m'"
  "dev_frame (m\<lparr>dev := d\<rparr>) m' = dev_frame m m'" "dev_frame (m\<lparr>state := s\<rparr>) m' = dev_frame m m'"
  "dev_frame (m\<lparr>exec_last := w\<rparr>) m' = dev_frame m m'" "dev_frame (m\<lparr>pip_last := w\<rparr>) m' = dev_frame m m'"
  "dev_frame (m\<lparr>pip_cycle_ctr := w\<rparr>) m' = dev_frame m m'"
  by (simp_all add: dev_frame_def dev_part_def)

lemma dev_frame_fields:
  assumes "dev_frame m m'"
  shows "mem_eq m m'" "cpu m' = cpu m" "wp_head m' = wp_head m" "pmp_on_count m' = pmp_on_count m" "priv_level m' = priv_level m"
    "cpu_pipe m' = cpu_pipe m" "pipe_stats m' = pipe_stats m" "g_difftest_en m' = g_difftest_en m" "g_bpred_mode m' = g_bpred_mode m"
    "bpred_state m' = bpred_state m"
proof -
  have 1: "mem_eq (dev_part x) x" "mem_eq x (dev_part x)" for x by (simp_all add: dev_part_def mem_eq_def)
  have e: "dev_part m' = dev_part m" using assms by (simp add: dev_frame_def)
  then have "mem_eq m (dev_part m')" using 1 by metis
  then show "mem_eq m m'" using 1(1) [of m'] by (simp add: mem_eq_def)
  have "cpu (dev_part x) = cpu x" "wp_head (dev_part x) = wp_head x" "pmp_on_count (dev_part x) = pmp_on_count x"
      "priv_level (dev_part x) = priv_level x" "cpu_pipe (dev_part x) = cpu_pipe x" "pipe_stats (dev_part x) = pipe_stats x"
      "g_difftest_en (dev_part x) = g_difftest_en x" "g_bpred_mode (dev_part x) = g_bpred_mode x" "bpred_state (dev_part x) = bpred_state x" for x
    by (simp_all add: dev_part_def)
  then show "cpu m' = cpu m" "wp_head m' = wp_head m" "pmp_on_count m' = pmp_on_count m" "priv_level m' = priv_level m"
    "cpu_pipe m' = cpu_pipe m" "pipe_stats m' = pipe_stats m" "g_difftest_en m' = g_difftest_en m" "g_bpred_mode m' = g_bpred_mode m"
    "bpred_state m' = bpred_state m"
    using e by metis+
qed

text \<open>The keyboard queue has room for the events.\<close>

definition room :: "sdl_event list \<Rightarrow> machine \<Rightarrow> bool" where
  "room evs m \<longleftrightarrow> dev_ok (dev m) \<and> length (key_contents (dev m)) + length evs \<le> 1023"

definition polled :: "sdl_event list \<Rightarrow> machine \<Rightarrow> machine \<Rightarrow> bool" where
  "polled evs m m' \<longleftrightarrow> dev_ok (dev m') \<and> length (key_contents (dev m')) \<le> length (key_contents (dev m)) + length evs \<and> dev_frame m m'"

lemma poll_events_ok:
  assumes "room evs m"
  shows "\<exists>m'. poll_events evs m = Inr m' \<and> polled evs m m' \<and> state m' = (if SDL_QUIT \<in> set evs then NEMU_QUIT else state m)"
  using assms
proof (induction evs arbitrary: m)
  case Nil
  then show ?case by (simp add: polled_def room_def)
next
  case (Cons e evs)
  have key: ?case if k: "e = SDL_KEYDOWN k \<or> e = SDL_KEYUP k" for k
  proof -
    obtain b where b: "poll_events (e # evs) m = bind_res (send_key k b m) (poll_events evs)" "e \<noteq> SDL_QUIT"
      using k by auto
    obtain d where d: "send_key k b m = Inr (m\<lparr>dev := d\<rparr>)" "dev_ok d" "length (key_contents d) \<le> Suc (length (key_contents (dev m)))"
      using send_key_ok [of m k b] Cons.prems by (auto simp: room_def)
    with Cons.IH [of "m\<lparr>dev := d\<rparr>"] Cons.prems b show ?thesis by (auto simp: room_def polled_def)
  qed
  show ?case
  proof (cases e)
    case SDL_QUIT
    then show ?thesis using Cons.IH [of "m\<lparr>state := NEMU_QUIT\<rparr>"] Cons.prems by (auto simp: room_def polled_def)
  next
    case SDL_OTHER
    then show ?thesis using Cons.IH [of m] Cons.prems by (auto simp: room_def polled_def)
  qed (use key in blast)+
qed

lemma get_time_ok:
  "dev_ok d \<Longrightarrow> dev_ok (snd (get_time d)) \<and> key_contents (snd (get_time d)) = key_contents d"
  by (simp add: get_time_def gettimeofday_def dev_ok_def key_inv_def key_contents_def case_prod_beta Let_def)

text \<open>The update of the screen and the poll, as every engine does them when it is time.\<close>

lemma update_poll_ok:
  assumes "room evs m"
  shows "\<exists>m'. bind_res (vga_update_screen (dev m)) (\<lambda>d. poll_events evs (m\<lparr>dev := d\<rparr>)) = Inr m' \<and> polled evs m m' \<and>
    state m' = (if SDL_QUIT \<in> set evs then NEMU_QUIT else state m)"
proof -
  obtain e where e: "vga_update_screen (dev m) = Inr e" "dev_ok e" "key_contents e = key_contents (dev m)"
    using vga_update_screen_ok [of "dev m"] assms by (auto simp: room_def)
  then have "room evs (m\<lparr>dev := e\<rparr>)" using assms by (simp add: room_def)
  from poll_events_ok [OF this] show ?thesis using e by (auto simp: polled_def)
qed

lemma refresh_ok:
  assumes "room evs m"
  shows "\<exists>m'. refresh evs m = Inr m' \<and> polled evs m m' \<and> (state m' = state m \<or> SDL_QUIT \<in> set evs \<and> state m' = NEMU_QUIT)"
proof -
  let ?d = "snd (get_time (dev m))" and ?now = "fst (get_time (dev m))"
  have d: "dev_ok ?d" "key_contents ?d = key_contents (dev m)" using get_time_ok [of "dev m"] assms by (simp_all add: room_def)
  show ?thesis
  proof (cases "?now - exec_last m < 16666")
    case True
    then show ?thesis using d by (simp add: refresh_def case_prod_beta Let_def polled_def)
  next
    case False
    have "room evs (m\<lparr>exec_last := ?now, dev := ?d\<rparr>)" using assms d by (simp add: room_def)
    from update_poll_ok [OF this] show ?thesis
      using False d by (auto simp: refresh_def case_prod_beta Let_def polled_def)
  qed
qed

text \<open>
  C9. In functional mode one call of the step function executes one instruction of the user level exactly as the ISA
  does on program counter, registers and memory, through the caches, whatever the screen refresh and the key events do:
  the word the instruction cache returns is decoded by the table, and the memory invariant and register zero are kept.
\<close>

theorem exec_once_refines_isa:
  assumes "run_ok m" and "access_ok (cpu_pc (cpu m)) 4"
    and "table_lookup inst_table (fetched m) = x" and "user_ok x (fetched m) (isa_of m)"
    and "length (key_contents (dev m)) + length evs \<le> 1023"
  shows "\<exists>m'. exec_once stk evs m = Inr m' \<and> isa_of m' = isa_step x (fetched m) (isa_of m) \<and> run_ok m'"
proof -
  obtain ir m1 where s: "step_inst stk m = Inr (ir, m1)" "isa_of m1 = isa_step x (fetched m) (isa_of m)" "mem_sys m1"
      "regs_ok (cpu m1)" "env_eq (snd (pmp_check (cpu_pc (cpu m)) True False m)) m1"
    using step_inst_refines [OF _ _ assms(2-4), of stk] assms(1) unfolding run_ok_def by blast
  define m2 where "m2 = m1\<lparr>dec_s := \<lparr>s_pc = ir_pc ir, s_snpc = dnpc ir, s_dnpc = dnpc ir, s_inst_val = ir_raw ir\<rparr>,
    g_sim_cycles := g_sim_cycles m1 + 1, g_sim_instret := g_sim_instret m1 + 1\<rparr>"
  have "dev (snd (pmp_check a b c m)) = dev m" for a b c by (simp add: pmp_check_def split: option.splits bool.splits)
  then have dev: "dev m2 = dev m" using s(5) by (simp add: m2_def env_eq_def)
  have q: "mem_eq m1 m2" "cpu m2 = cpu m1" by (simp_all add: m2_def mem_eq_def)
  have "room evs m2" using dev assms(1,5) by (simp add: room_def run_ok_def)
  from refresh_ok [OF this] obtain m' where m': "refresh evs m2 = Inr m'" "dev_ok (dev m')" "dev_frame m2 m'"
    by (auto simp: polled_def)
  have e: "mem_sys m' = mem_sys m1" "ram_view m' = ram_view m1" "cpu m' = cpu m1"
    using mem_eq_sys [OF q(1)] mem_eq_sys [OF dev_frame_fields(1) [OF m'(3)]] dev_frame_fields(2) [OF m'(3)] q(2) by simp_all
  show ?thesis
    using s(1-4) m'(1,2) e by (simp add: exec_once_def m2_def [symmetric] run_ok_def isa_of_def)
qed

end
