(* ===== verification/Isa_Run.thy ===== *)
theory Isa_Run
  imports Stages
begin

text \<open>
  Runs of the ISA from a program in memory. A run is \<open>safe\<close> for a set of code addresses as long as its instructions are of
  the user level, lie in the set with their successors, access RAM inside a block, and do not store into a block of the code.
\<close>

definition code_at :: "isa_state \<Rightarrow> vaddr_t \<Rightarrow> u32" where
  "code_at s a = ucast (word_of_bytes (load_bytes (i_mem s) (ram_off a) 4))"

definition fetchable :: "vaddr_t set \<Rightarrow> bool" where
  "fetchable C \<longleftrightarrow> (\<forall>a\<in>C. access_ok a 4)"

definition safe :: "vaddr_t set \<Rightarrow> isa_state \<Rightarrow> bool" where
  "safe C s \<longleftrightarrow> i_pc s \<in> C \<and> i_pc s + 4 \<in> C \<and> user_ok (isa_op s) (isa_fetch s) s \<and>
     (isa_op s \<in> store_ops \<longrightarrow> blk (isa_addr (isa_op s) (isa_fetch s) s) \<notin> blk ` C)"

definition safe_run :: "vaddr_t set \<Rightarrow> nat \<Rightarrow> isa_state \<Rightarrow> bool" where
  "safe_run C n s \<longleftrightarrow> (\<forall>i<n. safe C ((isa_next ^^ i) s))"

definition adv :: "bool \<Rightarrow> isa_state \<Rightarrow> isa_state" where
  "adv b s = (if b then isa_next s else s)"

lemma adv_simps [simp]: "adv True s = isa_next s" "adv False s = s"
  by (simp_all add: adv_def)

lemma isa_fetch_at: "isa_fetch s = code_at s (i_pc s)"
  by (simp add: isa_fetch_def code_at_def)

lemma safe_runD: "safe_run C n s \<Longrightarrow> 0 < n \<Longrightarrow> safe C s"
  by (force simp: safe_run_def)

lemma safe_run_next: "safe_run C (Suc n) s \<Longrightarrow> safe_run C n (isa_next s)"
  unfolding safe_run_def by (metis Suc_less_eq funpow_Suc_right o_apply)

lemma safe_run_mono: "safe_run C n s \<Longrightarrow> k \<le> n \<Longrightarrow> safe_run C k s"
  by (simp add: safe_run_def)

lemma safe_run_skip: "safe_run C (n + j) s \<Longrightarrow> safe_run C n ((isa_next ^^ j) s)"
  by (induction j arbitrary: s) (auto simp: funpow_swap1 dest: safe_run_next)

lemma safe_run_adv: "safe_run C (Suc n) s \<Longrightarrow> safe_run C n (adv b s)"
  using safe_run_next safe_run_mono [of C "Suc n" s n] by (cases b) auto

section \<open>Code does not change\<close>

lemma isa_step_mem: "x \<notin> store_ops \<Longrightarrow> i_mem (isa_step x raw s) = i_mem s"
  by (simp add: isa_step_def Let_def)

lemma isa_step_store_eq:
  assumes "x \<in> store_ops"
  shows "isa_step x raw s = s\<lparr>i_mem := store_bytes (i_mem s) (ram_off (isa_addr x raw s))
      (bytes_of_word (access_width x) (i_regs s ! unat (ibits raw 24 20))), i_pc := i_pc s + 4\<rparr>"
proof -
  have "x \<notin> set alu_ops" "x \<notin> load_ops" "x \<notin> {X_lui, X_auipc, X_jal, X_jalr}"
    using assms by (auto simp: alu_ops_def load_ops_def store_ops_def)
  then show ?thesis using assms by (simp add: isa_step_def Let_def)
qed

lemma isa_step_store:
  "x \<in> store_ops \<Longrightarrow> i_mem (isa_step x raw s) =
    store_bytes (i_mem s) (ram_off (isa_addr x raw s)) (bytes_of_word (access_width x) (i_regs s ! unat (ibits raw 24 20)))"
  by (simp add: isa_step_store_eq)

lemma isa_step_store_regs: "x \<in> store_ops \<Longrightarrow> i_regs (isa_step x raw s) = i_regs s"
  by (simp add: isa_step_store_eq)

lemma blocks_apart:
  assumes "access_ok a n" and "j < n" and "access_ok b k" and "i < k" and "blk a \<noteq> blk b"
  shows "ram_off a + j \<noteq> ram_off b + i"
  using access_range(2) [OF assms(1,2)] access_range(2) [OF assms(3,4)] assms(5) by metis

lemma load_other_block:
  assumes "access_ok a n" and "access_ok b k" and "blk a \<noteq> blk b"
  shows "load_bytes (store_bytes mm (ram_off b) (bytes_of_word k v)) (ram_off a) n = load_bytes mm (ram_off a) n"
proof (rule nth_equalityI)
  fix i assume "i < length (load_bytes (store_bytes mm (ram_off b) (bytes_of_word k v)) (ram_off a) n)"
  then have i: "i < n" by simp
  have "\<not> (ram_off b \<le> ram_off a + i \<and> ram_off a + i < ram_off b + k)"
  proof
    assume r: "ram_off b \<le> ram_off a + i \<and> ram_off a + i < ram_off b + k"
    then have "ram_off a + i - ram_off b < k" "ram_off a + i = ram_off b + (ram_off a + i - ram_off b)" by auto
    then show False using blocks_apart [OF assms(1) i assms(2) _ assms(3)] by metis
  qed
  then show "load_bytes (store_bytes mm (ram_off b) (bytes_of_word k v)) (ram_off a) n ! i = load_bytes mm (ram_off a) n ! i"
    using i store_bytes_outside [of "ram_off a + i" "ram_off b" "bytes_of_word k v" mm] by (simp add: not_le not_less)
qed simp

lemma code_stable:
  assumes "fetchable C" and "safe C s" and "a \<in> C"
  shows "code_at (isa_next s) a = code_at s a"
proof (cases "isa_op s \<in> store_ops")
  case False
  then show ?thesis by (simp add: code_at_def isa_next_def isa_step_mem)
next
  case True
  let ?b = "isa_addr (isa_op s) (isa_fetch s) s"
  have "blk ?b \<notin> blk ` C" using assms(2) True by (simp add: safe_def)
  then have "access_ok a 4" "access_ok ?b (access_width (isa_op s))" "blk a \<noteq> blk ?b"
    using assms True by (simp_all add: fetchable_def safe_def user_ok_def image_iff, metis)
  then show ?thesis using True load_other_block by (simp add: code_at_def isa_next_def isa_step_store)
qed

lemma code_stable_adv: "fetchable C \<Longrightarrow> safe C s \<Longrightarrow> a \<in> C \<Longrightarrow> code_at (adv b s) a = code_at s a"
  by (cases b) (simp_all add: code_stable)

end
