(* ===== verification/Functional_Run.thy ===== *)
theory Functional_Run
  imports Functional Isa_Run
begin

text \<open>
  Runs of the functional engine on a program in memory: as long as the ISA run is safe for the code region, every step of
  \<^verbatim>\<open>exec_once\<close> fetches the word the ISA fetches and keeps the region clean.
\<close>

lemma pmp_check_env:
  "dev (snd (pmp_check a x w m)) = dev m" "wp_head (snd (pmp_check a x w m)) = wp_head m"
  "exec_last (snd (pmp_check a x w m)) = exec_last m" "pmp_on_count (snd (pmp_check a x w m)) = pmp_on_count m"
  "priv_level (snd (pmp_check a x w m)) = priv_level m" "csr (snd (pmp_check a x w m)) = csr m"
  "pmpcfg (snd (pmp_check a x w m)) = pmpcfg m" "pmpaddr (snd (pmp_check a x w m)) = pmpaddr m"
  by (simp_all add: pmp_check_def abort_bad_def set_bad_def split: option.splits bool.splits)

lemma step_inst_safe:
  assumes "mem_sys m" "regs_ok (cpu m)" "code_clean (blk ` C) m" and "fetchable C" and "safe C (isa_of m)"
  shows "\<exists>ir m'. step_inst stk m = Inr (ir, m') \<and> isa_of m' = isa_next (isa_of m) \<and> mem_sys m' \<and> regs_ok (cpu m') \<and>
    code_clean (blk ` C) m' \<and> env_eq (snd (pmp_check (cpu_pc (cpu m)) True False m)) m'"
proof -
  let ?pc = "cpu_pc (cpu m)" and ?s = "isa_of m"
  let ?p = "snd (pmp_check ?pc True False m)"
  have q: "mem_eq m ?p" "cpu ?p = cpu m" by (rule pmp_check_mem_eq)+
  note s = mem_eq_sys [OF q(1)] code_clean_mem_eq [OF q(1)]
  have pc: "?pc \<in> C" "access_ok ?pc 4" using assms(4,5) by (simp_all add: safe_def isa_of_def fetchable_def)
  obtain m1 where m1: "vaddr_ifetch ?pc 4 ?p = Inr (word_of_bytes (load_bytes (ram_view ?p) (ram_off ?pc) 4), m1)"
      "mem_sys m1" "mem_frame UNIV ?p m1" "ram_view m1 = ram_view ?p" "code_clean (blk ` C) m1"
    using code_fetch [of ?p "blk ` C" ?pc 4] pc assms(1,3) s by auto
  have c: "cpu m1 = cpu m" using frame_fields(11) [OF m1(3)] q(2) by simp
  have i: "isa_of m1 = ?s" using c m1(4) s by (simp add: isa_of_def)
  have f: "ucast (word_of_bytes (load_bytes (ram_view ?p) (ram_off ?pc) 4)) = isa_fetch ?s"
    using s by (simp add: isa_fetch_def isa_of_def)
  have u: "user_ok (isa_op ?s) (isa_fetch ?s) (isa_of m1)"
      "isa_op ?s \<in> store_ops \<longrightarrow> blk (isa_addr (isa_op ?s) (isa_fetch ?s) (isa_of m1)) \<notin> blk ` C"
    using assms(5) i by (simp_all add: safe_def)
  obtain ir m' ir1 m2 lat r where e:
      "ir_execute (ir_decode (isa_fetch ?s) (cpu_pc (cpu m1)) (cpu_pc (cpu m1) + 4) stk m1) (cpu m1) m1 = Inr (ir1, m2)"
      "ir_mem_access False ir1 m2 = Inr (ir, lat, m')" "ir_writeback ir (cpu m') = Inr r"
      "isa_of (m'\<lparr>cpu := r\<lparr>cpu_pc := dnpc ir\<rparr>\<rparr>) = isa_step (isa_op ?s) (isa_fetch ?s) (isa_of m1)"
      "mem_sys m'" "regs_ok r" "env_eq m1 m'" "code_clean (blk ` C) m'"
    using finish_step [OF m1(2) _ _ u(1), of stk "blk ` C"] assms(2) c m1(5) u(2) unfolding isa_op_def by auto
  have "step_inst stk m = Inr (ir, m'\<lparr>cpu := r\<lparr>cpu_pc := dnpc ir\<rparr>\<rparr>)"
    using m1(1) e(1-3) c f by (simp add: step_inst_def Let_def)
  moreover have "env_eq ?p m'" using env_eq_trans [OF mem_frame_env [OF m1(3)] e(7)] .
  moreover have "code_clean (blk ` C) (m'\<lparr>cpu := r\<lparr>cpu_pc := dnpc ir\<rparr>\<rparr>)"
    using e(8) code_clean_mem_eq [of m' "m'\<lparr>cpu := r\<lparr>cpu_pc := dnpc ir\<rparr>\<rparr>"] by (simp add: mem_eq_def)
  ultimately show ?thesis
    using e(4-6) i by (simp add: isa_next_def set_cpu_sys)
qed

end
