(* ===== verification/Stack.thy ===== *)
theory Stack
  imports Prelude
begin

text \<open>
  The contract of a bounded stack: a push puts an entry on top and drops the oldest beyond the capacity, a pop of a
  non-empty stack takes the top. Clients rely on the order in which entries come back.
\<close>

fun push_all :: "('c \<Rightarrow> 's \<Rightarrow> 's res) \<Rightarrow> 'c list \<Rightarrow> 's \<Rightarrow> 's res" where
  "push_all push [] s = Inr s"
| "push_all push (c # cs) s = bind_res (push c s) (push_all push cs)"

fun pop_all :: "('s \<Rightarrow> ('a \<times> 's) res) \<Rightarrow> nat \<Rightarrow> 's \<Rightarrow> ('a list \<times> 's) res" where
  "pop_all pop 0 s = Inr ([], s)"
| "pop_all pop (Suc n) s =
     bind_res (pop s) (\<lambda>(x, s). bind_res (pop_all pop n s) (\<lambda>(xs, s). Inr (x # xs, s)))"

locale bounded_stack =
  fixes inv :: "'s \<Rightarrow> bool" and view :: "'s \<Rightarrow> 'a list" and cap :: nat and entry :: "'c \<Rightarrow> 'a"
    and push :: "'c \<Rightarrow> 's \<Rightarrow> 's res" and pop :: "'s \<Rightarrow> ('a \<times> 's) res"
  assumes push_view: "inv s \<Longrightarrow> \<exists>s'. push c s = Inr s' \<and> inv s' \<and> view s' = take cap (entry c # view s)"
    and pop_view: "inv s \<Longrightarrow> view s \<noteq> [] \<Longrightarrow> \<exists>s'. pop s = Inr (hd (view s), s') \<and> inv s' \<and> view s' = tl (view s)"
begin

lemma push_all_view:
  assumes "inv s" and "length (view s) \<le> cap"
  shows "\<exists>s'. push_all push cs s = Inr s' \<and> inv s' \<and> view s' = take cap (rev (map entry cs) @ view s)"
  using assms
proof (induction cs arbitrary: s)
  case Nil
  then show ?case by simp
next
  case (Cons c cs)
  obtain s1 where s1: "push c s = Inr s1" "inv s1" "view s1 = take cap (entry c # view s)"
    using push_view [OF Cons.prems(1)] by blast
  obtain s2 where "push_all push cs s1 = Inr s2" "inv s2" "view s2 = take cap (rev (map entry cs) @ view s1)"
    using Cons.IH [OF s1(2)] s1(3) by auto
  then show ?case using s1 by (simp add: min_def)
qed

lemma pop_all_view:
  assumes "inv s" and "n \<le> length (view s)"
  shows "\<exists>s'. pop_all pop n s = Inr (take n (view s), s') \<and> inv s' \<and> view s' = drop n (view s)"
  using assms
proof (induction n arbitrary: s)
  case 0
  then show ?case by simp
next
  case (Suc n)
  then obtain x xs where v: "view s = x # xs" by (cases "view s") auto
  obtain s1 where s1: "pop s = Inr (x, s1)" "inv s1" "view s1 = xs"
    using pop_view [OF Suc.prems(1)] v by auto
  obtain s2 where "pop_all pop n s1 = Inr (take n xs, s2)" "inv s2" "view s2 = drop n xs"
    using Suc.IH [OF s1(2)] Suc.prems(2) s1(3) v by auto
  then show ?case using s1 v by simp
qed

text \<open>Entries come back in the reverse order of their pushes, as long as they fit.\<close>

lemma lifo:
  assumes "inv s" and "length (view s) \<le> cap" and "length cs \<le> cap"
  shows "\<exists>s1 s2. push_all push cs s = Inr s1 \<and> inv s1 \<and>
    pop_all pop (length cs) s1 = Inr (rev (map entry cs), s2) \<and> inv s2"
proof -
  obtain s1 where s1: "push_all push cs s = Inr s1" "inv s1" "view s1 = take cap (rev (map entry cs) @ view s)"
    using push_all_view [OF assms(1,2)] by blast
  have "length cs \<le> length (view s1)" "take (length cs) (view s1) = rev (map entry cs)"
    using s1(3) assms(3) by (simp_all add: min_def)
  then show ?thesis using pop_all_view [OF s1(2), of "length cs"] s1(1,2) by auto
qed

end

end
