(* ===== verification/Bpred.thy ===== *)
theory Bpred
  imports Sim_State Stack
begin

text \<open>
  The branch predictors: the tournament predictor with its target buffer and return stack
  (\<^verbatim>\<open>src/cpu/bpred.c\<close>) and the variant \<^verbatim>\<open>src/cpu/bpred2.c\<close>. Every array access is guarded by its bounds, so that an index
  out of range is an error; the invariant \<open>bp_inv\<close> shows that none is.
\<close>

section \<open>bpred.c\<close>

definition bpred_init :: "BranchPredictor \<Rightarrow> BranchPredictor" where
  "bpred_init bp = zero_bpred"

definition is_call :: "u32 \<Rightarrow> bool" where
  "is_call raw =
    (if raw AND 0x7f = 0x6f then
       (let rd = drop_bit 7 raw AND 0x1f in rd = 1 \<or> rd = 5)
     else if raw AND 0x707f = 0x0067 then
       (let rd = drop_bit 7 raw AND 0x1f; rs1 = drop_bit 15 raw AND 0x1f in (rd = 1 \<or> rd = 5) \<and> rs1 \<noteq> rd)
     else False)"

definition is_ret :: "u32 \<Rightarrow> bool" where
  "is_ret raw =
    (if raw AND 0x707f = 0x0067 then
       (let rd = drop_bit 7 raw AND 0x1f; rs1 = drop_bit 15 raw AND 0x1f in rd = 0 \<and> (rs1 = 1 \<or> rs1 = 5))
     else False)"

text \<open>An array element, with the bounds check.\<close>

definition elem :: "'a list \<Rightarrow> nat \<Rightarrow> 'a res" where
  "elem xs i = bind_res (guard (i < length xs) Out_of_bounds) (\<lambda>_. Inr (xs ! i))"

definition ras_pop :: "BranchPredictor \<Rightarrow> (BPredResult \<times> BranchPredictor) res" where
  "ras_pop bp =
     bind_res (guard (0 \<le> ras_top bp) Out_of_bounds) (\<lambda>_.
     bind_res (elem (ras bp) (nat (ras_top bp))) (\<lambda>t.
     Inr (\<lparr>bpr_taken = True, bpr_target = t, bpr_btb_hit = True\<rparr>,
          bp\<lparr>ras_top := (ras_top bp - 1 + 16) smod 16, ras_count := ras_count bp - 1\<rparr>)))"

definition ras_push :: "vaddr_t \<Rightarrow> BranchPredictor \<Rightarrow> BranchPredictor res" where
  "ras_push pc bp =
    (let new_top = (ras_top bp + 1) smod 16 in
     bind_res (guard (0 \<le> new_top \<and> nat new_top < length (ras bp)) Out_of_bounds) (\<lambda>_.
     Inr (bp\<lparr>ras := (ras bp)[nat new_top := pc + 4], ras_top := new_top,
             ras_count := if ras_count bp < 16 then ras_count bp + 1 else ras_count bp\<rparr>)))"

definition btb_index :: "vaddr_t \<Rightarrow> nat" where
  "btb_index pc = unat (drop_bit 2 pc AND 511)"

definition lht_index :: "vaddr_t \<Rightarrow> nat" where
  "lht_index pc = unat (drop_bit 2 pc AND 1023)"

definition gpht_index :: "u32 \<Rightarrow> vaddr_t \<Rightarrow> nat" where
  "gpht_index g pc = unat ((g XOR ucast (drop_bit 2 pc)) AND 4095)"

definition btb_match :: "BTBEntry \<Rightarrow> vaddr_t \<Rightarrow> bool" where
  "btb_match e pc \<longleftrightarrow> btb_valid e \<and> btb_tag e = drop_bit 11 pc"

definition bpred_predict :: "BranchPredictor \<Rightarrow> vaddr_t \<Rightarrow> u32 \<Rightarrow> (BPredResult \<times> BranchPredictor) res" where
  "bpred_predict bp pc raw =
    (if is_ret raw \<and> ras_count bp > 0 then ras_pop bp
     else
       bind_res (if is_call raw then ras_push pc bp else Inr bp) (\<lambda>bp.
       bind_res (elem (btb bp) (btb_index pc)) (\<lambda>e.
       bind_res (elem (lht bp) (lht_index pc)) (\<lambda>hist.
       bind_res (elem (lpht bp) (unat hist)) (\<lambda>lc.
       bind_res (elem (gpht bp) (gpht_index (ghr bp) pc)) (\<lambda>gc.
       bind_res (elem (meta bp) (gpht_index (ghr bp) pc)) (\<lambda>mc.
       Inr (\<lparr>bpr_taken = (if mc \<ge> 2 then gc \<ge> 2 else lc \<ge> 2),
             bpr_target = (if btb_match e pc then btb_target e else 0), bpr_btb_hit = btb_match e pc\<rparr>, bp))))))))"

text \<open>One step of a two-bit saturating counter.\<close>

definition sat_step :: "bool \<Rightarrow> byte \<Rightarrow> byte" where
  "sat_step up c =
    (let c = (if up \<and> c < 3 then c + 1 else c) in if \<not> up \<and> c > 0 then c - 1 else c)"

definition update_btb :: "IR_Inst \<Rightarrow> BranchPredictor \<Rightarrow> BranchPredictor res" where
  "update_btb ir bp =
    (if dnpc ir \<noteq> ir_snpc ir then
       bind_res (elem (btb bp) (btb_index (ir_pc ir))) (\<lambda>e.
       Inr (bp\<lparr>btb_misses := (if btb_match e (ir_pc ir) then btb_misses bp else btb_misses bp + 1),
               btb := (btb bp)[btb_index (ir_pc ir) :=
                 \<lparr>btb_tag = drop_bit 11 (ir_pc ir), btb_target = dnpc ir, btb_valid = True\<rparr>]\<rparr>))
     else Inr bp)"

definition meta_step :: "bool \<Rightarrow> bool \<Rightarrow> bool \<Rightarrow> byte \<Rightarrow> byte" where
  "meta_step actual local_pred global_pred c =
    (if local_pred \<noteq> global_pred then
       (let c = (if actual = global_pred \<and> c < 3 then c + 1 else c)
        in if actual = local_pred \<and> c > 0 then c - 1 else c)
     else c)"

definition bpred_update :: "BranchPredictor \<Rightarrow> IR_Inst \<Rightarrow> BranchPredictor res" where
  "bpred_update bp ir =
    (if ir_type ir \<noteq> ITYPE_BRANCH \<and> ir_type ir \<noteq> ITYPE_JAL \<and> ir_type ir \<noteq> ITYPE_JALR then Inr bp
     else
       let pc = ir_pc ir; actual = (dnpc ir \<noteq> ir_snpc ir);
           bp = bp\<lparr>predictions := predictions bp + 1,
                   mispredictions := (if dnpc ir \<noteq> bp_predicted_pc ir then mispredictions bp + 1 else mispredictions bp)\<rparr>
       in
       bind_res (update_btb ir bp) (\<lambda>bp.
       bind_res (elem (lht bp) (lht_index pc)) (\<lambda>hist.
       bind_res (elem (lpht bp) (unat hist)) (\<lambda>lc.
       let bp = bp\<lparr>lpht := (lpht bp)[unat hist := sat_step actual lc],
                   lht := (lht bp)[lht_index pc := (push_bit 1 hist OR of_bool actual) AND 0x3ff]\<rparr>;
           gi = gpht_index (ghr bp) pc
       in
       bind_res (elem (gpht bp) gi) (\<lambda>gc.
       bind_res (elem (meta bp) gi) (\<lambda>mc.
       Inr (bp\<lparr>gpht := (gpht bp)[gi := sat_step actual gc],
               meta := (meta bp)[gi := meta_step actual (lc \<ge> 2) (gc \<ge> 2) mc],
               ghr := (push_bit 1 (ghr bp) OR of_bool actual) AND 0xfff\<rparr>)))))))"

section \<open>bpred2.c\<close>

text \<open>The tags of this variant are compared and stored as 32-bit values.\<close>

definition bpred2_tag :: "vaddr_t \<Rightarrow> vaddr_t" where
  "bpred2_tag pc = ucast (ucast (drop_bit 11 pc) :: u32)"

definition bpred2_predict :: "BranchPredictor \<Rightarrow> vaddr_t \<Rightarrow> machine \<Rightarrow> BPredResult res" where
  "bpred2_predict bp pc m =
     bind_res (elem (btb bp) (btb_index pc)) (\<lambda>e.
     bind_res (elem (spec_lht m) (lht_index pc)) (\<lambda>spec_hist.
     bind_res (elem (lpht bp) (unat (spec_hist AND 1023))) (\<lambda>lc.
     let hit = btb_valid e \<and> btb_tag e = bpred2_tag pc in
     Inr \<lparr>bpr_taken = lc \<ge> 2, bpr_target = (if hit then btb_target e else 0), bpr_btb_hit = hit\<rparr>)))"

definition bpred2_update :: "BranchPredictor \<Rightarrow> IR_Inst \<Rightarrow> BranchPredictor res" where
  "bpred2_update bp ir =
    (let pc = ir_pc ir; actual = (dnpc ir \<noteq> ir_snpc ir);
         bp = bp\<lparr>predictions := predictions bp + 1,
                 mispredictions := (if dnpc ir \<noteq> bp_predicted_pc ir then mispredictions bp + 1 else mispredictions bp)\<rparr>
     in
     bind_res (if actual then
         bind_res (elem (btb bp) (btb_index pc)) (\<lambda>e.
         Inr (bp\<lparr>btb_misses := (if btb_valid e \<and> btb_tag e = bpred2_tag pc then btb_misses bp else btb_misses bp + 1),
                 btb := (btb bp)[btb_index pc := \<lparr>btb_tag = bpred2_tag pc, btb_target = dnpc ir, btb_valid = True\<rparr>]\<rparr>))
       else Inr bp) (\<lambda>bp.
     bind_res (elem (lht bp) (lht_index pc)) (\<lambda>hist.
     bind_res (elem (lpht bp) (unat (hist AND 1023))) (\<lambda>lc.
     Inr (bp\<lparr>lpht := (lpht bp)[unat (hist AND 1023) := sat_step actual lc],
             lht := (lht bp)[lht_index pc := (push_bit 1 hist OR of_bool actual) AND 0x3ff],
             ghr := (push_bit 1 (ghr bp) OR of_bool actual) AND 0xfff\<rparr>)))))"

section \<open>The invariant\<close>

text \<open>Sizes of the tables, counters of two bits, histories of 10 and 12 bits, return stack inside its array.\<close>

definition bp_inv :: "BranchPredictor \<Rightarrow> bool" where
  "bp_inv bp \<longleftrightarrow> length (btb bp) = 512 \<and> length (lht bp) = 1024 \<and> length (lpht bp) = 1024 \<and>
     length (gpht bp) = 4096 \<and> length (meta bp) = 4096 \<and> length (ras bp) = 16 \<and>
     (\<forall>h\<in>set (lht bp). h < 1024) \<and> (\<forall>c\<in>set (lpht bp). c \<le> 3) \<and> (\<forall>c\<in>set (gpht bp). c \<le> 3) \<and>
     (\<forall>c\<in>set (meta bp). c \<le> 3) \<and> ghr bp < 4096 \<and>
     0 \<le> ras_top bp \<and> ras_top bp < 16 \<and> 0 \<le> ras_count bp \<and> ras_count bp \<le> 16"

lemma bp_inv_init: "bp_inv (bpred_init bp)"
  by (simp add: bp_inv_def bpred_init_def zero_bpred_def)

lemma elem_ok [simp]: "i < length xs \<Longrightarrow> elem xs i = Inr (xs ! i)"
  by (simp add: elem_def)

lemma unat_and_less: "unat (x AND y :: 'a::len word) < Suc (unat y)"
  using word_and_le1 [of x y] by (simp add: word_le_nat_alt less_Suc_eq_le)

lemma word_and_less: "(x AND y :: 'a::len word) \<le> y"
  by (rule word_and_le1)

lemma index_bounds [simp]:
  "btb_index pc < 512" "lht_index pc < 1024" "gpht_index g pc < 4096"
  using unat_and_less [of "drop_bit 2 pc" 511] unat_and_less [of "drop_bit 2 pc" 1023]
    unat_and_less [of "g XOR ucast (drop_bit 2 pc)" 4095]
  by (simp_all add: btb_index_def lht_index_def gpht_index_def)

lemma count_up_le: "c < 3 \<Longrightarrow> c + 1 \<le> (3 :: byte)"
  by (simp add: word_less_nat_alt word_le_nat_alt unat_word_ariths)

lemma count_down_le: "0 < c \<Longrightarrow> c \<le> 3 \<Longrightarrow> c - 1 \<le> (3 :: byte)"
  using unat_minus_one [of c] by (auto simp: word_le_nat_alt)

lemma sat_step_le: "c \<le> 3 \<Longrightarrow> sat_step up c \<le> 3"
  by (auto simp: sat_step_def Let_def count_up_le count_down_le)

lemma meta_step_le: "c \<le> 3 \<Longrightarrow> meta_step a l g c \<le> 3"
  by (auto simp: meta_step_def Let_def count_up_le count_down_le)

lemma hist_less: "(x AND 0x3ff :: u32) < 1024" "(x AND 0xfff :: u32) < 4096"
  using unat_and_less [of x "0x3ff"] unat_and_less [of x "0xfff"] by (simp_all add: word_less_nat_alt)

lemma ball_set_update: "\<forall>x\<in>set xs. P x \<Longrightarrow> P y \<Longrightarrow> \<forall>x\<in>set (xs[i := y]). P x"
  using set_update_subset_insert [of xs i y] by blast

lemma bp_invD:
  assumes "bp_inv bp"
  shows "length (btb bp) = 512" "length (lht bp) = 1024" "length (lpht bp) = 1024" "length (gpht bp) = 4096"
    "length (meta bp) = 4096" "length (ras bp) = 16" "\<And>i. i < 1024 \<Longrightarrow> unat (lht bp ! i) < 1024"
    "\<And>i. i < 1024 \<Longrightarrow> lpht bp ! i \<le> 3" "\<And>i. i < 4096 \<Longrightarrow> gpht bp ! i \<le> 3" "\<And>i. i < 4096 \<Longrightarrow> meta bp ! i \<le> 3"
    "0 \<le> ras_top bp" "ras_top bp < 16" "0 \<le> ras_count bp" "ras_count bp \<le> 16"
  using assms by (auto simp: bp_inv_def word_less_nat_alt)

lemma smod16 [simp]: "0 \<le> z \<Longrightarrow> z smod 16 = z mod 16" for z :: int
  by (cases "z = 0") (simp_all add: signed_modulo_int_def signed_divide_int_def minus_mult_div_eq_mod mult.commute)

lemma ras_pop_inv:
  assumes "bp_inv bp" and "ras_count bp > 0"
  shows "\<exists>r bp'. ras_pop bp = Inr (r, bp') \<and> bp_inv bp'"
  using assms bp_invD [OF assms(1)] by (simp add: ras_pop_def bp_inv_def)

lemma ras_push_inv:
  assumes "bp_inv bp"
  shows "\<exists>bp'. ras_push pc bp = Inr bp' \<and> bp_inv bp'"
  using assms bp_invD [OF assms] by (simp add: ras_push_def bp_inv_def Let_def nat_less_iff)

lemma bpred_predict_inv:
  assumes "bp_inv bp"
  shows "\<exists>r bp'. bpred_predict bp pc raw = Inr (r, bp') \<and> bp_inv bp'"
proof (cases "is_ret raw \<and> ras_count bp > 0")
  case True
  then show ?thesis using ras_pop_inv [OF assms] by (simp add: bpred_predict_def)
next
  case False
  obtain b where b: "(if is_call raw then ras_push pc bp else Inr bp) = Inr b" "bp_inv b"
    using ras_push_inv [OF assms, of pc] assms by (cases "is_call raw") auto
  show ?thesis unfolding bpred_predict_def if_not_P [OF False] b(1) using b(2) bp_invD [OF b(2)] by simp
qed

lemma update_btb_inv:
  assumes "bp_inv bp"
  shows "\<exists>bp'. update_btb ir bp = Inr bp' \<and> bp_inv bp'"
  using assms by (simp add: update_btb_def bp_inv_def)

lemma bpred_update_inv:
  assumes "bp_inv bp"
  shows "\<exists>bp'. bpred_update bp ir = Inr bp' \<and> bp_inv bp'"
proof -
  let ?c = "bp\<lparr>predictions := predictions bp + 1,
    mispredictions := (if dnpc ir \<noteq> bp_predicted_pc ir then mispredictions bp + 1 else mispredictions bp)\<rparr>"
  have "bp_inv ?c" using assms by (simp add: bp_inv_def)
  then obtain b where b: "update_btb ir ?c = Inr b" "bp_inv b" using update_btb_inv by blast
  note d = bp_invD [OF b(2)]
  let ?h = "lht b ! lht_index (ir_pc ir)" and ?a = "dnpc ir \<noteq> ir_snpc ir" and ?g = "gpht_index (ghr b) (ir_pc ir)"
  let ?r = "b\<lparr>lpht := (lpht b)[unat ?h := sat_step ?a (lpht b ! unat ?h)],
    lht := (lht b)[lht_index (ir_pc ir) := (push_bit 1 ?h OR of_bool ?a) AND 0x3ff],
    gpht := (gpht b)[?g := sat_step ?a (gpht b ! ?g)],
    meta := (meta b)[?g := meta_step ?a (lpht b ! unat ?h \<ge> 2) (gpht b ! ?g \<ge> 2) (meta b ! ?g)],
    ghr := (push_bit 1 (ghr b) OR of_bool ?a) AND 0xfff\<rparr>"
  note i = b(2) [unfolded bp_inv_def]
  have "\<forall>h\<in>set ((lht b)[j := x AND 0x3ff]). h < 1024" for j x
    by (rule ball_set_update) (use i hist_less in auto)
  moreover have "\<forall>c\<in>set ((lpht b)[j := sat_step a (lpht b ! k)]). c \<le> 3" if "k < 1024" for j a k
    by (rule ball_set_update) (use i d(8) [OF that] sat_step_le in auto)
  moreover have "\<forall>c\<in>set ((gpht b)[?g := sat_step a (gpht b ! ?g)]). c \<le> 3" for a
    by (rule ball_set_update) (use i d(9) [of ?g] sat_step_le in auto)
  moreover have "\<forall>c\<in>set ((meta b)[?g := meta_step a l g (meta b ! ?g)]). c \<le> 3" for a l g
    by (rule ball_set_update) (use i d(10) [of ?g] meta_step_le in auto)
  ultimately have "bp_inv ?r" using i hist_less(2) d(7) [of "lht_index (ir_pc ir)"] by (simp add: bp_inv_def)
  moreover have "bpred_update bp ir = Inr ?r \<or> bpred_update bp ir = Inr bp"
    unfolding bpred_update_def Let_def b(1) bind_res_Inr using d(2-5) d(7) [of "lht_index (ir_pc ir)"] by simp
  ultimately show ?thesis using assms by blast
qed

section \<open>The return stack\<close>

text \<open>The valid entries, the newest first.\<close>

definition ras_stack :: "BranchPredictor \<Rightarrow> vaddr_t list" where
  "ras_stack bp = map (\<lambda>i. ras bp ! nat ((ras_top bp - int i) mod 16)) [0..<nat (ras_count bp)]"

definition ras_target :: "BranchPredictor \<Rightarrow> (vaddr_t \<times> BranchPredictor) res" where
  "ras_target bp = bind_res (ras_pop bp) (\<lambda>(r, bp). Inr (bpr_target r, bp))"

lemma ras_push_stack:
  assumes "bp_inv bp" and "ras_push pc bp = Inr bp'"
  shows "ras_stack bp' = take 16 ((pc + 4) # ras_stack bp)"
proof (rule nth_equalityI)
  note d = bp_invD [OF assms(1)]
  have b: "bp' = bp\<lparr>ras := (ras bp)[nat ((ras_top bp + 1) mod 16) := pc + 4], ras_top := (ras_top bp + 1) mod 16,
      ras_count := if ras_count bp < 16 then ras_count bp + 1 else ras_count bp\<rparr>"
    using assms(2) d by (simp add: ras_push_def Let_def nat_less_iff)
  show len: "length (ras_stack bp') = length (take 16 ((pc + 4) # ras_stack bp))"
    using d by (auto simp: b ras_stack_def)
  fix i assume i: "i < length (ras_stack bp')"
  then have i16: "i < 16" using len by simp
  show "ras_stack bp' ! i = take 16 ((pc + 4) # ras_stack bp) ! i"
  proof (cases i)
    case 0
    then show ?thesis using i d by (simp add: b ras_stack_def nat_less_iff)
  next
    case (Suc j)
    have "((ras_top bp + 1) mod 16 - (1 + int j)) mod 16 = (ras_top bp - int j) mod 16"
      unfolding mod_diff_left_eq by simp
    moreover have "(ras_top bp - int j) mod 16 \<noteq> (ras_top bp + 1) mod 16"
    proof
      assume "(ras_top bp - int j) mod 16 = (ras_top bp + 1) mod 16"
      then have "16 dvd - (1 + int j)" unfolding mod_eq_dvd_iff by (simp add: algebra_simps)
      then have "16 \<le> 1 + int j" unfolding dvd_minus_iff by (rule zdvd_imp_le) simp
      then show False using i16 Suc by simp
    qed
    ultimately show ?thesis
      using i i16 Suc d by (auto simp: b ras_stack_def nat_eq_iff split: if_splits)
  qed
qed

lemma ras_pop_stack:
  assumes "bp_inv bp" and "ras_stack bp \<noteq> []"
  shows "\<exists>bp'. ras_target bp = Inr (hd (ras_stack bp), bp') \<and> bp_inv bp' \<and> ras_stack bp' = tl (ras_stack bp)"
proof -
  note d = bp_invD [OF assms(1)]
  have c: "ras_count bp > 0" using assms(2) d by (simp add: ras_stack_def)
  obtain r bp' where r: "ras_pop bp = Inr (r, bp')" "bp_inv bp'" using ras_pop_inv [OF assms(1) c] by blast
  have e: "r = \<lparr>bpr_taken = True, bpr_target = ras bp ! nat (ras_top bp), bpr_btb_hit = True\<rparr>"
      "bp' = bp\<lparr>ras_top := (ras_top bp + 15) mod 16, ras_count := ras_count bp - 1\<rparr>"
    using r(1) d by (auto simp: ras_pop_def nat_less_iff add.commute)
  have "ras_stack bp = ras bp ! nat (ras_top bp) # ras_stack bp'"
  proof (rule nth_equalityI)
    show "length (ras_stack bp) = length (ras bp ! nat (ras_top bp) # ras_stack bp')"
      using c by (simp add: ras_stack_def e)
    fix i assume i: "i < length (ras_stack bp)"
    have "((ras_top bp + 15) mod 16 - int j) mod 16 = (ras_top bp - (1 + int j)) mod 16" for j
    proof -
      have "((ras_top bp + 15) mod 16 - int j) mod 16 = (ras_top bp + 15 - int j) mod 16" by (rule mod_diff_left_eq)
      also have "ras_top bp + 15 - int j = ras_top bp - (1 + int j) + 16" by simp
      finally show ?thesis unfolding mod_add_self2 .
    qed
    then show "ras_stack bp ! i = (ras bp ! nat (ras_top bp) # ras_stack bp') ! i"
      using i d c by (cases i) (simp_all add: ras_stack_def e)
  qed
  then show ?thesis using r e(1) by (simp add: ras_target_def)
qed

lemma length_ras_stack: "bp_inv bp \<Longrightarrow> length (ras_stack bp) \<le> 16"
  using bp_invD(14) [of bp] by (simp add: ras_stack_def)

interpretation ras: bounded_stack bp_inv ras_stack 16 "\<lambda>pc. pc + 4" ras_push ras_target
proof
  show "\<exists>s'. ras_push c s = Inr s' \<and> bp_inv s' \<and> ras_stack s' = take 16 ((c + 4) # ras_stack s)" if "bp_inv s" for s c
    using ras_push_inv [OF that] ras_push_stack [OF that] by blast
qed (rule ras_pop_stack)

section \<open>Properties\<close>

fun predict_all :: "(vaddr_t \<times> u32) list \<Rightarrow> BranchPredictor \<Rightarrow> (BPredResult list \<times> BranchPredictor) res" where
  "predict_all [] bp = Inr ([], bp)"
| "predict_all ((pc, raw) # ps) bp =
     bind_res (bpred_predict bp pc raw) (\<lambda>(r, bp). bind_res (predict_all ps bp) (\<lambda>(rs, bp). Inr (r # rs, bp)))"

lemma call_not_ret: "is_call raw \<Longrightarrow> \<not> is_ret raw"
  by (auto simp: is_call_def is_ret_def Let_def split: if_splits)

lemma predict_call:
  assumes "bp_inv bp" and "is_call raw"
  shows "\<exists>r bp'. bpred_predict bp pc raw = Inr (r, bp') \<and> ras_push pc bp = Inr bp'"
proof -
  obtain b where b: "ras_push pc bp = Inr b" "bp_inv b" using ras_push_inv [OF assms(1)] by blast
  then show ?thesis using assms(2) call_not_ret [OF assms(2)] bp_invD [OF b(2)] by (simp add: bpred_predict_def)
qed

lemma predict_calls:
  assumes "bp_inv bp" and "\<forall>(pc, raw)\<in>set calls. is_call raw"
  shows "\<exists>rs bp'. predict_all (calls @ ps) bp = bind_res (predict_all ps bp') (\<lambda>(qs, b). Inr (rs @ qs, b)) \<and>
    length rs = length calls \<and> push_all ras_push (map fst calls) bp = Inr bp'"
  using assms
proof (induction calls arbitrary: bp)
  case Nil
  then show ?case by (auto intro!: exI [of _ "[]"] simp: bind_res_def split: sum.splits)
next
  case (Cons c calls)
  obtain pc raw where c: "c = (pc, raw)" "is_call raw" using Cons.prems(2) by (cases c) auto
  obtain r b where b: "bpred_predict bp pc raw = Inr (r, b)" "ras_push pc bp = Inr b"
    using predict_call [OF Cons.prems(1) c(2)] by blast
  have "bp_inv b" using ras_push_inv [OF Cons.prems(1), of pc] b(2) by auto
  from Cons.IH [OF this] Cons.prems(2) obtain rs bp' where
    "predict_all (calls @ ps) b = bind_res (predict_all ps bp') (\<lambda>(qs, b). Inr (rs @ qs, b))"
    "length rs = length calls" "push_all ras_push (map fst calls) b = Inr bp'" by auto
  then show ?case
    using b c by (intro exI [of _ "r # rs"] exI [of _ bp']) (simp add: bind_res_assoc case_prod_unfold)
qed

lemma predict_rets:
  assumes "bp_inv bp" and "\<forall>(pc, raw)\<in>set rets. is_ret raw" and "length rets \<le> length (ras_stack bp)"
  shows "\<exists>rs bp'. predict_all rets bp = Inr (rs, bp') \<and> bp_inv bp' \<and> list_all (\<lambda>r. bpr_taken r \<and> bpr_btb_hit r) rs \<and>
    pop_all ras_target (length rets) bp = Inr (map bpr_target rs, bp')"
  using assms
proof (induction rets arbitrary: bp)
  case Nil
  then show ?case by simp
next
  case (Cons c rets)
  obtain pc raw where c: "c = (pc, raw)" "is_ret raw" using Cons.prems(2) by (cases c) auto
  have pos: "ras_count bp > 0" using Cons.prems(3) by (auto simp: ras_stack_def)
  obtain r b where b: "ras_pop bp = Inr (r, b)" "bp_inv b" using ras_pop_inv [OF Cons.prems(1) pos] by blast
  have r: "bpr_taken r \<and> bpr_btb_hit r" using b(1) by (auto simp: ras_pop_def)
  have "ras_stack bp \<noteq> []" using Cons.prems(3) by auto
  then have "ras_stack b = tl (ras_stack bp)"
    using ras_pop_stack [OF Cons.prems(1)] b(1) by (auto simp: ras_target_def)
  then have "length rets \<le> length (ras_stack b)" using Cons.prems(3) by simp
  with Cons.IH [OF b(2)] Cons.prems(2) obtain rs bp' where
    "predict_all rets b = Inr (rs, bp')" "bp_inv bp'" "list_all (\<lambda>r. bpr_taken r \<and> bpr_btb_hit r) rs"
    "pop_all ras_target (length rets) b = Inr (map bpr_target rs, bp')" by auto
  moreover have "ras_target bp = Inr (bpr_target r, b)" using b(1) by (simp add: ras_target_def)
  ultimately show ?case using b(1) c pos r by (auto simp: bpred_predict_def)
qed

text \<open>
  C26. From any consistent state the predictor answers and learns without an access outside its tables, and stays
  consistent: two-bit counters, histories that fit their tables, a return stack inside its array.
\<close>

theorem bpred_safe:
  assumes "bp_inv bp"
  shows "(\<exists>r bp'. bpred_predict bp pc raw = Inr (r, bp') \<and> bp_inv bp') \<and> (\<exists>bp'. bpred_update bp ir = Inr bp' \<and> bp_inv bp')"
  using bpred_predict_inv [OF assms] bpred_update_inv [OF assms] by blast

theorem bpred_safe_witness:
  "\<exists>r bp'. bpred_predict (bpred_init zero_bpred) 0x80000000 0x000080e7 = Inr (r, bp') \<and> bp_inv bp'"
  using bpred_safe [OF bp_inv_init] by blast

text \<open>
  C27. Up to sixteen nested calls followed by as many returns: every return is predicted taken to the instruction after
  its own call, innermost first, whatever the target buffer and the counters hold.
\<close>

theorem ras_predicts_returns:
  assumes "bp_inv bp" and "\<forall>(pc, raw)\<in>set calls. is_call raw" and "\<forall>(pc, raw)\<in>set rets. is_ret raw"
    and "length rets = length calls" and "length calls \<le> 16"
  shows "\<exists>qs rs bp'. predict_all (calls @ rets) bp = Inr (qs @ rs, bp') \<and> length qs = length calls \<and>
    map bpr_target rs = rev (map (\<lambda>(pc, _). pc + 4) calls) \<and> list_all (\<lambda>r. bpr_taken r \<and> bpr_btb_hit r) rs"
proof -
  obtain qs b where b: "predict_all (calls @ rets) bp = bind_res (predict_all rets b) (\<lambda>(rs, b). Inr (qs @ rs, b))"
      "length qs = length calls" "push_all ras_push (map fst calls) bp = Inr b"
    using predict_calls [OF assms(1,2)] by blast
  obtain s2 where s: "bp_inv b" "pop_all ras_target (length calls) b = Inr (rev (map (\<lambda>(pc, _). pc + 4) calls), s2)"
      "length calls \<le> length (ras_stack b)"
    using ras.lifo [OF assms(1) length_ras_stack [OF assms(1)], of "map fst calls"]
      ras.push_all_view [OF assms(1) length_ras_stack [OF assms(1)], of "map fst calls"] assms(5) b(3)
    by (auto simp: comp_def case_prod_unfold)
  obtain rs bp' where "predict_all rets b = Inr (rs, bp')" "list_all (\<lambda>r. bpr_taken r \<and> bpr_btb_hit r) rs"
      "pop_all ras_target (length rets) b = Inr (map bpr_target rs, bp')"
    using predict_rets [OF s(1) assms(3)] s(3) assms(4) by auto
  then show ?thesis using b(1,2) s(2) assms(4) by auto
qed

theorem ras_predicts_returns_witness:
  "\<exists>qs rs bp'. predict_all [(0x80000010, 0x010000ef), (0x80000020, 0x010000ef), (0x80000030, 0x00008067), (0x80000040, 0x00008067)]
      (bpred_init zero_bpred) = Inr (qs @ rs, bp') \<and> map bpr_target rs = [0x80000024, 0x80000014]"
proof -
  have "is_call 0x010000ef" "is_ret 0x00008067" by code_simp+
  with ras_predicts_returns [OF bp_inv_init, of "[(0x80000010, 0x010000ef), (0x80000020, 0x010000ef)]"
      "[(0x80000030, 0x00008067), (0x80000040, 0x00008067)]" zero_bpred]
  obtain qs rs bp' where "predict_all [(0x80000010, 0x010000ef), (0x80000020, 0x010000ef), (0x80000030, 0x00008067),
      (0x80000040, 0x00008067)] (bpred_init zero_bpred) = Inr (qs @ rs, bp')" "map bpr_target rs = [0x80000024, 0x80000014]"
    by (simp only: append.simps list.map list.set rev.simps) (auto simp del: predict_all.simps)
  then show ?thesis by (intro exI [of _ qs] exI [of _ rs] exI [of _ bp'] conjI)
qed

section \<open>Learning\<close>

text \<open>The state after a branch was executed \<open>n\<close> times in a row with the same outcome.\<close>

fun train :: "nat \<Rightarrow> IR_Inst \<Rightarrow> BranchPredictor \<Rightarrow> BranchPredictor res" where
  "train 0 ir bp = Inr bp"
| "train (Suc n) ir bp = bind_res (train n ir bp) (\<lambda>bp. bpred_update bp ir)"

definition control_inst :: "IR_Inst \<Rightarrow> bool" where
  "control_inst ir \<longleftrightarrow> ir_type ir = ITYPE_BRANCH \<or> ir_type ir = ITYPE_JAL \<or> ir_type ir = ITYPE_JALR"

text \<open>What one taken execution leaves of the entries of the branch.\<close>

lemma update_taken:
  assumes "bp_inv bp" and "control_inst ir" and "dnpc ir \<noteq> ir_snpc ir"
  obtains bp' where "bpred_update bp ir = Inr bp'" "bp_inv bp'"
    "btb bp' ! btb_index (ir_pc ir) = \<lparr>btb_tag = drop_bit 11 (ir_pc ir), btb_target = dnpc ir, btb_valid = True\<rparr>"
    "lht bp' ! lht_index (ir_pc ir) = (push_bit 1 (lht bp ! lht_index (ir_pc ir)) OR 1) AND 0x3ff"
    "ghr bp' = (push_bit 1 (ghr bp) OR 1) AND 0xfff"
    "lpht bp' = (lpht bp)[unat (lht bp ! lht_index (ir_pc ir)) := sat_step True (lpht bp ! unat (lht bp ! lht_index (ir_pc ir)))]"
    "gpht bp' = (gpht bp)[gpht_index (ghr bp) (ir_pc ir) := sat_step True (gpht bp ! gpht_index (ghr bp) (ir_pc ir))]"
proof -
  obtain bp' where b: "bpred_update bp ir = Inr bp'" "bp_inv bp'" using bpred_update_inv [OF assms(1)] by blast
  note d = bp_invD [OF assms(1)]
  have "btb bp' ! btb_index (ir_pc ir) = \<lparr>btb_tag = drop_bit 11 (ir_pc ir), btb_target = dnpc ir, btb_valid = True\<rparr> \<and>
    lht bp' ! lht_index (ir_pc ir) = (push_bit 1 (lht bp ! lht_index (ir_pc ir)) OR 1) AND 0x3ff \<and>
    ghr bp' = (push_bit 1 (ghr bp) OR 1) AND 0xfff \<and>
    lpht bp' = (lpht bp)[unat (lht bp ! lht_index (ir_pc ir)) := sat_step True (lpht bp ! unat (lht bp ! lht_index (ir_pc ir)))] \<and>
    gpht bp' = (gpht bp)[gpht_index (ghr bp) (ir_pc ir) := sat_step True (gpht bp ! gpht_index (ghr bp) (ir_pc ir))]"
    using b(1) assms(2,3) d(1-5) d(7) [of "lht_index (ir_pc ir)"]
    unfolding bpred_update_def update_btb_def control_inst_def Let_def by (auto simp del: push_bit_eq_mult)
  then show thesis using that b by blast
qed

text \<open>A history that takes in ones fills up with them.\<close>

lemma history_fill:
  fixes h :: u32
  assumes "h AND mask k = mask k" and "Suc k \<le> n" and "n \<le> 31"
  shows "((push_bit 1 h OR 1) AND mask n) AND mask (Suc k) = mask (Suc k)"
proof (rule bit_word_eqI)
  fix i assume "i < LENGTH(32)"
  have "bit h j" if "j < k" for j
    using arg_cong [OF assms(1), of "\<lambda>w. bit w j"] that assms(2,3) by (simp add: bit_simps)
  then show "bit (((push_bit 1 h OR 1) AND mask n) AND mask (Suc k)) i = bit (mask (Suc k) :: u32) i"
    using assms(2,3) by (cases i) (auto simp: bit_simps bit_1_iff bit_double_iff mult.commute [of h 2])
qed

lemma history_full:
  fixes h :: u32
  assumes "h AND mask n = mask n" and "n \<le> 31"
  shows "(push_bit 1 h OR 1) AND mask n = mask n"
proof (cases n)
  case (Suc k)
  have "h AND mask k = mask k"
  proof (rule bit_word_eqI)
    fix i assume "i < LENGTH(32)"
    then show "bit (h AND mask k) i = bit (mask k :: u32) i"
      using arg_cong [OF assms(1), of "\<lambda>w. bit w i"] Suc by (auto simp: bit_simps)
  qed
  from history_fill [OF this, of n] Suc assms(2) show ?thesis by simp
qed simp

lemma sat_up: "c \<le> 3 \<Longrightarrow> unat (sat_step True c) = min 3 (unat c + 1)"
  by (auto simp: sat_step_def Let_def word_le_nat_alt word_less_nat_alt unat_word_ariths)

text \<open>Where the branch stands after \<open>k\<close> taken executions.\<close>

definition trained :: "nat \<Rightarrow> IR_Inst \<Rightarrow> BranchPredictor \<Rightarrow> bool" where
  "trained k ir bp \<longleftrightarrow> bp_inv bp \<and>
     (0 < k \<longrightarrow> btb bp ! btb_index (ir_pc ir) = \<lparr>btb_tag = drop_bit 11 (ir_pc ir), btb_target = dnpc ir, btb_valid = True\<rparr>) \<and>
     (lht bp ! lht_index (ir_pc ir)) AND mask (min k 10) = mask (min k 10) \<and>
     ghr bp AND mask (min k 12) = mask (min k 12) \<and>
     min 3 (k - 12) \<le> unat (lpht bp ! 1023) \<and>
     min 3 (k - 12) \<le> unat (gpht bp ! gpht_index 0xfff (ir_pc ir))"

lemma mask_numerals: "mask 10 = (0x3ff :: u32)" "mask 12 = (0xfff :: u32)"
  by (simp_all add: mask_eq_exp_minus_1)

lemma and_mask_less: "h AND mask n = h" if "unat h < 2 ^ n" for h :: u32
proof -
  have "unat (take_bit n h) = unat h" using that by (simp add: unsigned_take_bit_eq take_bit_nat_eq_self)
  then show ?thesis unfolding take_bit_eq_mask by (rule word_unat_eq_iff [THEN iffD2])
qed

lemma counter_up: "12 \<le> k \<Longrightarrow> min 3 (k - 12) \<le> a \<Longrightarrow> min 3 (Suc k - 12) \<le> min 3 (a + 1)" for a k :: nat
  by auto

lemma trained_step:
  assumes "trained k ir bp" and "control_inst ir" and "dnpc ir \<noteq> ir_snpc ir"
  shows "\<exists>bp'. bpred_update bp ir = Inr bp' \<and> trained (Suc k) ir bp'"
proof -
  have i: "bp_inv bp" using assms(1) by (simp add: trained_def)
  obtain b where b: "bpred_update bp ir = Inr b" "bp_inv b"
    "btb b ! btb_index (ir_pc ir) = \<lparr>btb_tag = drop_bit 11 (ir_pc ir), btb_target = dnpc ir, btb_valid = True\<rparr>"
    "lht b ! lht_index (ir_pc ir) = (push_bit 1 (lht bp ! lht_index (ir_pc ir)) OR 1) AND 0x3ff"
    "ghr b = (push_bit 1 (ghr bp) OR 1) AND 0xfff"
    "lpht b = (lpht bp)[unat (lht bp ! lht_index (ir_pc ir)) := sat_step True (lpht bp ! unat (lht bp ! lht_index (ir_pc ir)))]"
    "gpht b = (gpht bp)[gpht_index (ghr bp) (ir_pc ir) := sat_step True (gpht bp ! gpht_index (ghr bp) (ir_pc ir))]"
    using update_taken [OF i assms(2,3)] by blast
  let ?h = "lht bp ! lht_index (ir_pc ir)"
  have h: "?h AND mask (min k 10) = mask (min k 10)" "ghr bp AND mask (min k 12) = mask (min k 12)"
      "min 3 (k - 12) \<le> unat (lpht bp ! 1023)" "min 3 (k - 12) \<le> unat (gpht bp ! gpht_index 0xfff (ir_pc ir))"
    using assms(1) by (simp_all add: trained_def)
  have f: "((push_bit 1 x OR 1) AND mask n) AND mask (min (Suc k) n) = mask (min (Suc k) n)"
    if "x AND mask (min k n) = mask (min k n)" "n \<le> 31" for x :: u32 and n
  proof (cases "k < n")
    case True
    then show ?thesis using history_fill [of x k n] that by simp
  next
    case False
    then show ?thesis using history_full [of x n] that by simp
  qed
  have hist: "(lht b ! lht_index (ir_pc ir)) AND mask (min (Suc k) 10) = mask (min (Suc k) 10)"
    unfolding b(4) mask_numerals(1) [symmetric] by (rule f [OF h(1)]) simp
  have glob: "ghr b AND mask (min (Suc k) 12) = mask (min (Suc k) 12)"
    unfolding b(5) mask_numerals(2) [symmetric] by (rule f [OF h(2)]) simp
  have cnt: "min 3 (Suc k - 12) \<le> unat (lpht b ! 1023) \<and> min 3 (Suc k - 12) \<le> unat (gpht b ! gpht_index 0xfff (ir_pc ir))"
  proof (cases "12 \<le> k")
    case True
    have "unat ?h < 2 ^ 10" "unat (ghr bp) < 2 ^ 12" using i bp_invD(7) [OF i] by (auto simp: bp_inv_def word_less_nat_alt)
    from and_mask_less [OF this(1)] and_mask_less [OF this(2)] h(1,2) True
    have e: "?h = 0x3ff" "ghr bp = 0xfff" by (simp_all add: mask_numerals min.absorb2)
    show ?thesis
      using sat_up [OF bp_invD(8) [OF i, of 1023]] sat_up [OF bp_invD(9) [OF i, of "gpht_index 0xfff (ir_pc ir)"]]
        counter_up [OF True h(3)] counter_up [OF True h(4)] bp_invD(3,4) [OF i] unfolding b(6,7) e by simp
  qed simp
  show ?thesis using b(1-3) hist glob cnt by (auto simp: trained_def)
qed

lemma train_trained:
  assumes "bp_inv bp" and "control_inst ir" and "dnpc ir \<noteq> ir_snpc ir"
  shows "\<exists>bp'. train k ir bp = Inr bp' \<and> trained k ir bp'"
proof (induction k)
  case 0
  then show ?case using assms(1) by (simp add: trained_def)
next
  case (Suc k)
  then obtain b where "train k ir bp = Inr b" "trained k ir b" by blast
  then show ?case using trained_step [OF _ assms(2,3)] by auto
qed

text \<open>
  C28. A jump or branch executed fourteen times in a row with the same taken target is from then on predicted taken to
  that target, whatever the predictor had learned before.
\<close>

theorem bpred_learns:
  assumes "bp_inv bp" and "control_inst ir" and "dnpc ir \<noteq> ir_snpc ir" and "14 \<le> k"
    and "\<not> is_call raw" and "\<not> is_ret raw"
  shows "\<exists>bp'. train k ir bp = Inr bp' \<and>
    bpred_predict bp' (ir_pc ir) raw = Inr (\<lparr>bpr_taken = True, bpr_target = dnpc ir, bpr_btb_hit = True\<rparr>, bp')"
proof -
  obtain b where b: "train k ir bp = Inr b" "trained k ir b" using train_trained [OF assms(1-3)] by blast
  have i: "bp_inv b" using b(2) by (simp add: trained_def)
  have "unat (lht b ! lht_index (ir_pc ir)) < 2 ^ 10" "unat (ghr b) < 2 ^ 12"
    using i bp_invD(7) [OF i] by (auto simp: bp_inv_def word_less_nat_alt)
  from and_mask_less [OF this(1)] and_mask_less [OF this(2)] b(2) assms(4)
  have e: "lht b ! lht_index (ir_pc ir) = 0x3ff" "ghr b = 0xfff" by (simp_all add: trained_def mask_numerals min.absorb2)
  have c: "2 \<le> lpht b ! 1023" "2 \<le> gpht b ! gpht_index 0xfff (ir_pc ir)"
    using b(2) assms(4) by (auto simp: trained_def word_le_nat_alt)
  have "btb b ! btb_index (ir_pc ir) = \<lparr>btb_tag = drop_bit 11 (ir_pc ir), btb_target = dnpc ir, btb_valid = True\<rparr>"
    using b(2) assms(4) by (simp add: trained_def)
  then show ?thesis
    using b(1) e c assms(5,6) bp_invD [OF i] by (simp add: bpred_predict_def btb_match_def)
qed

theorem bpred_learns_witness:
  "\<exists>bp'. train 14 (zero_ir\<lparr>ir_type := ITYPE_BRANCH, ir_pc := 0x80000010, ir_snpc := 0x80000014, dnpc := 0x80000000\<rparr>)
      (bpred_init zero_bpred) = Inr bp' \<and>
    bpred_predict bp' 0x80000010 0xfe0008e3 = Inr (\<lparr>bpr_taken = True, bpr_target = 0x80000000, bpr_btb_hit = True\<rparr>, bp')"
proof -
  have "\<not> is_call 0xfe0008e3" "\<not> is_ret 0xfe0008e3" by code_simp+
  then show ?thesis
    using bpred_learns [OF bp_inv_init, of "zero_ir\<lparr>ir_type := ITYPE_BRANCH, ir_pc := 0x80000010, ir_snpc := 0x80000014, dnpc := 0x80000000\<rparr>"
        14 "0xfe0008e3" zero_bpred]
    by (simp add: control_inst_def del: train.simps)
qed

end
