(* ===== verification/Pipeline.thy ===== *)
theory Pipeline
  imports Functional Bpred
begin

text \<open>
  The five-stage in-order pipeline (\<^verbatim>\<open>src/cpu/pipeline.c\<close>). The latch pointers are indices into the slots, since every
  pointer the code stores aims into the global \<^verbatim>\<open>cpu_pipe\<close>; \<open>stk\<close> is the content of the local \<^verbatim>\<open>IR_Inst diff_ir\<close> before it
  is decoded. The per-cycle trace and the report are output on the terminal and not modelled.
\<close>

section \<open>Latches\<close>

definition latch :: "nat \<Rightarrow> machine \<Rightarrow> PipeReg" where
  "latch i m = slots (cpu_pipe m) ! i"

definition put_latch :: "nat \<Rightarrow> PipeReg \<Rightarrow> machine \<Rightarrow> machine" where
  "put_latch i r m = m\<lparr>cpu_pipe := (cpu_pipe m)\<lparr>slots := (slots (cpu_pipe m))[i := r]\<rparr>\<rparr>"

definition set_valid :: "nat \<Rightarrow> bool \<Rightarrow> machine \<Rightarrow> machine" where
  "set_valid i v m = put_latch i ((latch i m)\<lparr>pr_valid := v\<rparr>) m"

definition set_ir :: "nat \<Rightarrow> IR_Inst \<Rightarrow> machine \<Rightarrow> machine" where
  "set_ir i ir m = put_latch i ((latch i m)\<lparr>pr_ir := ir\<rparr>) m"

section \<open>Initialisation\<close>

text \<open>The body that \<^verbatim>\<open>pipeline_init\<close> and \<^verbatim>\<open>pipeline_init_core\<close> share.\<close>

definition reset_pipe :: "vaddr_t \<Rightarrow> Pipeline \<Rightarrow> Pipeline" where
  "reset_pipe pc p =
     p\<lparr>p_id := 0, p_ex := 1, p_mem := 2, p_wb := 3,
       slots := map (\<lambda>r. r\<lparr>pr_valid := False\<rparr>) (slots p), fetch_pc := pc, mem_stall_rem := 0\<rparr>"

definition pipeline_init :: "machine \<Rightarrow> machine" where
  "pipeline_init m =
    (let m = m\<lparr>cpu_pipe := reset_pipe (cpu_pc (cpu m)) (cpu_pipe m), pipe_stats := zero_pipe_stats\<rparr> in
     if g_bpred_mode m then m\<lparr>bpred_state := bpred_init (bpred_state m)\<rparr> else m)"

section \<open>The reference run beside the pipeline\<close>

definition difftest_step :: "IR_Inst \<Rightarrow> IR_Inst \<Rightarrow> machine \<Rightarrow> machine res" where
  "difftest_step stk ir m =
    (if \<not> g_difftest_en m then Inr m
     else
       let m = (if \<not> diff_init m then m\<lparr>diff_cpu := (cpu m)\<lparr>cpu_pc := ir_pc ir\<rparr>, diff_init := True\<rparr> else m) in
       bind_res (guard (ir_pc ir = cpu_pc (diff_cpu m)) Aborted) (\<lambda>_.
       let d = ir_decode (ir_raw ir) (ir_pc ir) (ir_pc ir + 4) stk m;
           d = (if ir_rs1 d > 0 then d\<lparr>src1_val := gpr (diff_cpu m) ! nat (ir_rs1 d)\<rparr> else d);
           d = (if ir_rs2 d > 0 then d\<lparr>src2_val := gpr (diff_cpu m) ! nat (ir_rs2 d)\<rparr> else d)
       in
       bind_res (ir_execute d (diff_cpu m) m) (\<lambda>(d, m).
       bind_res (ir_mem_access False d m) (\<lambda>(d, _, m).
       bind_res (ir_writeback d (diff_cpu m)) (\<lambda>c.
       let m = m\<lparr>diff_cpu := c\<lparr>cpu_pc := dnpc d\<rparr>\<rparr>;
           is_csr = (ir_raw ir AND 0x7f = 0x73)
       in
       bind_res (guard (\<not> (ir_rd ir > 0 \<and> \<not> is_csr \<and> result ir \<noteq> result d)) Aborted) (\<lambda>_.
       Inr (if ir_rd ir > 0 \<and> is_csr
            then m\<lparr>diff_cpu := (diff_cpu m)\<lparr>gpr := (gpr (diff_cpu m))[nat (ir_rd ir) := result ir]\<rparr>\<rparr> else m)))))))"

section \<open>The stages\<close>

definition stage_WB :: "IR_Inst \<Rightarrow> machine \<Rightarrow> machine res" where
  "stage_WB stk m =
    (let w = p_wb (cpu_pipe m) in
     if \<not> pr_valid (latch w m) then Inr m
     else
       let ir = pr_ir (latch w m) in
       bind_res (difftest_step stk ir m) (\<lambda>m.
       bind_res (ir_writeback ir (cpu m)) (\<lambda>c.
       Inr (set_valid w False (m\<lparr>cpu := c\<lparr>cpu_pc := dnpc ir\<rparr>,
         pipe_stats := (pipe_stats m)\<lparr>ps_insts := ps_insts (pipe_stats m) + 1\<rparr>\<rparr>)))))"

definition stage_MEM :: "machine \<Rightarrow> machine res" where
  "stage_MEM m =
    (let i = p_mem (cpu_pipe m) in
     if \<not> pr_valid (latch i m) then Inr m
     else
       bind_res (ir_mem_access True (pr_ir (latch i m)) m) (\<lambda>(ir, lat, m).
       let m = set_ir i ir m in
       Inr (if lat > 1 \<and> ir_type ir = ITYPE_LOAD
            then m\<lparr>cpu_pipe := (cpu_pipe m)\<lparr>mem_stall_rem := int lat - 1\<rparr>,
                   pipe_stats := (pipe_stats m)\<lparr>stall_cache_miss := stall_cache_miss (pipe_stats m) + word_of_nat (lat - 1)\<rparr>\<rparr>
            else m)))"

text \<open>A wrong path: the instruction in ID and the fetch of this cycle are dropped.\<close>

definition flush :: "vaddr_t \<Rightarrow> machine \<Rightarrow> machine" where
  "flush pc m =
    (let m = set_valid (g_fetch_slot m) False (set_valid (p_id (cpu_pipe m)) False m)
     in m\<lparr>cpu_pipe := (cpu_pipe m)\<lparr>fetch_pc := pc\<rparr>\<rparr>)"

definition is_control :: "u32 \<Rightarrow> bool" where
  "is_control raw \<longleftrightarrow> (let op5 = drop_bit 2 raw AND 0x1f in op5 = 0x18 \<or> op5 = 0x1b \<or> op5 = 0x19)"

definition stage_EX :: "machine \<Rightarrow> machine res" where
  "stage_EX m =
    (let i = p_ex (cpu_pipe m) in
     if \<not> pr_valid (latch i m) then Inr m
     else
       bind_res (ir_execute (pr_ir (latch i m)) (cpu m) m) (\<lambda>(ir, m).
       let m = set_ir i ir m; m = (if fault ir then INV (ir_pc ir) m else m) in
       if g_bpred_mode m then
         bind_res (if is_control (ir_raw ir)
                   then bind_res (bpred_update (bpred_state m) ir) (\<lambda>bp. Inr (m\<lparr>bpred_state := bp\<rparr>)) else Inr m) (\<lambda>m.
         Inr (if dnpc ir \<noteq> bp_predicted_pc ir then flush (dnpc ir) m else m))
       else
         Inr (if dnpc ir \<noteq> ir_snpc ir
              then (flush (dnpc ir) m)\<lparr>pipe_stats := (pipe_stats m)\<lparr>stall_control := stall_control (pipe_stats m) + 1\<rparr>\<rparr>
              else m)))"

text \<open>The operands of the instruction in ID: from the register file, then from MEM, then from EX.\<close>

definition reread :: "CPU_state \<Rightarrow> IR_Inst \<Rightarrow> IR_Inst" where
  "reread c ir =
    (let ir = (if ir_rs1 ir > 0 then ir\<lparr>src1_val := gpr c ! nat (ir_rs1 ir)\<rparr> else ir)
     in if ir_rs2 ir > 0 then ir\<lparr>src2_val := gpr c ! nat (ir_rs2 ir)\<rparr> else ir)"

definition forward :: "IR_Inst \<Rightarrow> IR_Inst \<Rightarrow> IR_Inst" where
  "forward from ir =
    (let ir = (if ir_rd from = ir_rs1 ir then ir\<lparr>src1_val := result from\<rparr> else ir)
     in if ir_rd from = ir_rs2 ir then ir\<lparr>src2_val := result from\<rparr> else ir)"

definition stage_ID :: "machine \<Rightarrow> machine" where
  "stage_ID m =
    (let d = p_id (cpu_pipe m); ex = latch (p_ex (cpu_pipe m)) m; mm = latch (p_mem (cpu_pipe m)) m in
     if \<not> pr_valid (latch d m) then m
     else
       let ir = reread (cpu m) (pr_ir (latch d m)) in
       if pr_valid ex \<and> ir_type (pr_ir ex) = ITYPE_LOAD \<and> ir_rd (pr_ir ex) > 0 \<and>
          (ir_rd (pr_ir ex) = ir_rs1 ir \<or> ir_rd (pr_ir ex) = ir_rs2 ir)
       then (set_ir d ir m)\<lparr>pipe_stats := (pipe_stats m)\<lparr>stall_load_use := stall_load_use (pipe_stats m) + 1\<rparr>,
              g_pipe_stalled := True\<rparr>
       else
         let ir = (if pr_valid mm \<and> ir_rd (pr_ir mm) > 0 then forward (pr_ir mm) ir else ir);
             ir = (if pr_valid ex \<and> ir_rd (pr_ir ex) > 0 \<and> ir_type (pr_ir ex) \<noteq> ITYPE_LOAD
                   then forward (pr_ir ex) ir else ir)
         in set_ir d ir m)"

definition stage_IF :: "machine \<Rightarrow> machine res" where
  "stage_IF m =
    (if g_pipe_stalled m then Inr m
     else
       let pc = fetch_pc (cpu_pipe m); f = g_fetch_slot m in
       bind_res (vaddr_ifetch pc 4 m) (\<lambda>(w, m).
       let raw = ucast w;
           ir = (ir_decode raw pc (pc + 4) (pr_ir (latch f m)) m)\<lparr>bp_predict_taken := False, bp_predicted_pc := pc + 4\<rparr>;
           m = put_latch f \<lparr>pr_ir = ir, pr_valid = True\<rparr> m;
           m = m\<lparr>cpu_pipe := (cpu_pipe m)\<lparr>fetch_pc := pc + 4\<rparr>\<rparr>
       in
       if g_bpred_mode m \<and> is_control raw then
         bind_res (bpred_predict (bpred_state m) pc raw) (\<lambda>(r, bp).
         let hit = bpr_taken r \<and> bpr_btb_hit r;
             m = set_ir f (ir\<lparr>bp_predict_taken := bpr_taken r,
                              bp_predicted_pc := if hit then bpr_target r else pc + 4\<rparr>) (m\<lparr>bpred_state := bp\<rparr>)
         in Inr (if hit then m\<lparr>cpu_pipe := (cpu_pipe m)\<lparr>fetch_pc := bpr_target r\<rparr>\<rparr> else m))
       else Inr m))"

definition rotate_latches :: "bool \<Rightarrow> nat \<Rightarrow> Pipeline \<Rightarrow> Pipeline" where
  "rotate_latches stalled f p =
    (if \<not> stalled then p\<lparr>p_wb := p_mem p, p_mem := p_ex p, p_ex := p_id p, p_id := f\<rparr>
     else p\<lparr>p_wb := p_mem p, p_mem := p_ex p, p_ex := f\<rparr>)"

text \<open>The five stages, last first, and the rotation.\<close>

definition run_stages :: "IR_Inst \<Rightarrow> machine \<Rightarrow> machine res" where
  "run_stages stk m =
    (let m = m\<lparr>g_fetch_slot := p_wb (cpu_pipe m)\<rparr> in
     bind_res (stage_WB stk m) (\<lambda>m.
     bind_res (stage_MEM m) (\<lambda>m.
     bind_res (stage_EX m) (\<lambda>m.
     bind_res (stage_IF (stage_ID m)) (\<lambda>m.
     Inr (m\<lparr>cpu_pipe := rotate_latches (g_pipe_stalled m) (g_fetch_slot m) (cpu_pipe m)\<rparr>))))))"

definition pipeline_cycle :: "IR_Inst \<Rightarrow> machine \<Rightarrow> machine res" where
  "pipeline_cycle stk m =
    (if mem_stall_rem (cpu_pipe m) > 0 then
       Inr (m\<lparr>cpu_pipe := (cpu_pipe m)\<lparr>mem_stall_rem := mem_stall_rem (cpu_pipe m) - 1\<rparr>,
              pipe_stats := (pipe_stats m)\<lparr>ps_cycles := ps_cycles (pipe_stats m) + 1\<rparr>,
              g_sim_cycles := g_sim_cycles m + 1\<rparr>)
     else
       bind_res (run_stages stk (m\<lparr>g_pipe_stalled := False\<rparr>)) (\<lambda>m.
       Inr (m\<lparr>pipe_stats := (pipe_stats m)\<lparr>ps_cycles := ps_cycles (pipe_stats m) + 1\<rparr>,
              g_sim_cycles := g_sim_cycles m + 1, g_sim_instret := ps_insts (pipe_stats m)\<rparr>)))"

section \<open>Per-core entry points\<close>

definition put_core :: "nat \<Rightarrow> Core \<Rightarrow> machine \<Rightarrow> machine" where
  "put_core i c m = m\<lparr>cores := (cores m)[i := c]\<rparr>"

text \<open>The globals are saved and restored around the work, so that only the core changes.\<close>

definition pipeline_init_core :: "nat \<Rightarrow> machine \<Rightarrow> machine" where
  "pipeline_init_core i m =
    (let c = cores m ! i;
         c = (if core_bpred_enabled c then c\<lparr>core_bpred := bpred_init (core_bpred c)\<rparr> else c)
     in put_core i (c\<lparr>core_pipe := reset_pipe (cpu_pc (cpu m)) (core_pipe c), core_pipe_stats := zero_pipe_stats\<rparr>) m)"

text \<open>Re-aiming the latch pointers of a copied struct: in terms of indices, each keeps the index it has in the source.\<close>

definition pipeline_fix_ptrs :: "Pipeline \<Rightarrow> Pipeline \<Rightarrow> Pipeline" where
  "pipeline_fix_ptrs dst src =
     fold (\<lambda>i d. let d = (if p_id src = i then d\<lparr>p_id := i\<rparr> else d);
                     d = (if p_ex src = i then d\<lparr>p_ex := i\<rparr> else d);
                     d = (if p_mem src = i then d\<lparr>p_mem := i\<rparr> else d)
                 in if p_wb src = i then d\<lparr>p_wb := i\<rparr> else d) [0..<4] dst"

definition pipeline_cycle_core :: "IR_Inst \<Rightarrow> nat \<Rightarrow> machine \<Rightarrow> machine res" where
  "pipeline_cycle_core stk i m =
    (let save_pipe = cpu_pipe m; save_stats = pipe_stats m; save_bp = bpred_state m; c = cores m ! i;
         m = m\<lparr>cpu_pipe := pipeline_fix_ptrs (core_pipe c) (core_pipe c), pipe_stats := core_pipe_stats c,
               bpred_state := core_bpred c, g_pipe_stalled := False\<rparr>
     in
     bind_res (if mem_stall_rem (cpu_pipe m) > 0
               then Inr (m\<lparr>cpu_pipe := (cpu_pipe m)\<lparr>mem_stall_rem := mem_stall_rem (cpu_pipe m) - 1\<rparr>\<rparr>)
               else run_stages stk m) (\<lambda>m.
     let m = m\<lparr>pipe_stats := (pipe_stats m)\<lparr>ps_cycles := ps_cycles (pipe_stats m) + 1\<rparr>,
               g_sim_cycles := g_sim_cycles m + 1, g_sim_instret := ps_insts (pipe_stats m)\<rparr>;
         c = (cores m ! i)\<lparr>core_sim_cycles := ps_cycles (pipe_stats m), core_sim_instret := ps_insts (pipe_stats m),
               core_pipe := cpu_pipe m, core_pipe_stats := pipe_stats m, core_bpred := bpred_state m\<rparr>
     in Inr ((put_core i c m)\<lparr>cpu_pipe := pipeline_fix_ptrs save_pipe save_pipe, pipe_stats := save_stats, bpred_state := save_bp\<rparr>)))"

end
