(* ===== verification/Ooo.thy ===== *)
theory Ooo
  imports Pipeline
begin

text \<open>
  The out-of-order engine (\<^verbatim>\<open>src/cpu/ooo.c\<close>): renaming, reservation stations, the three kinds of functional units, the
  re-order buffer, the store buffer, the fetch. The loops over set bits (\<^verbatim>\<open>__builtin_ctz\<close>) run over \<open>mask_bits\<close>, the loops
  around the re-order buffer over the slots from its head. \<open>stk\<close> gives the content of the local \<^verbatim>\<open>IR_Inst\<close> of the
  reference run before it is decoded, for each commit of a cycle. Messages, the commit log and the trace are output.
\<close>

section \<open>Bit masks\<close>

definition ctz :: "u32 \<Rightarrow> nat" where
  "ctz w = length (takeWhile (\<lambda>i. \<not> bit w i) [0..<32])"

lemma unat_and_dec: "w \<noteq> 0 \<Longrightarrow> unat (w AND (w - 1)) < unat w" for w :: u32
proof -
  assume "w \<noteq> 0"
  then have "unat (w - 1) < unat w" by (simp add: unat_minus_one unat_gt_0)
  moreover have "w AND (w - 1) \<le> w - 1" by (rule word_and_le1)
  ultimately show ?thesis by (simp add: word_le_nat_alt)
qed

text \<open>\<^verbatim>\<open>while (mask) { i = __builtin_ctz(mask); mask &= mask - 1; ... }\<close>\<close>

function mask_bits :: "u32 \<Rightarrow> nat list" where
  "mask_bits w = (if w = 0 then [] else ctz w # mask_bits (w AND (w - 1)))"
  by pat_completeness auto

termination
  by (relation "measure unat") (simp_all add: unat_and_dec)

declare mask_bits.simps [simp del]

definition set_ready :: "nat \<Rightarrow> nat \<Rightarrow> OOOState \<Rightarrow> OOOState" where
  "set_ready eu i t = t\<lparr>rs_ready_mask := (rs_ready_mask t)[eu := set_bit i (rs_ready_mask t ! eu)]\<rparr>"

definition clear_ready :: "nat \<Rightarrow> nat \<Rightarrow> OOOState \<Rightarrow> OOOState" where
  "clear_ready eu i t = t\<lparr>rs_ready_mask := (rs_ready_mask t)[eu := unset_bit i (rs_ready_mask t ! eu)]\<rparr>"

definition rs_mask_update :: "nat \<Rightarrow> OOOState \<Rightarrow> OOOState" where
  "rs_mask_update i t =
    (let e = rs_tab t ! i in
     if rs_valid e \<and> src1_ready e \<and> src2_ready e then set_ready (eu_type e) i t else clear_ready (eu_type e) i t)"

definition rs_mask_clear :: "nat \<Rightarrow> nat \<Rightarrow> OOOState \<Rightarrow> OOOState" where
  "rs_mask_clear i eu t = (clear_ready eu i t)\<lparr>rs_free_mask := set_bit i (rs_free_mask t)\<rparr>"

section \<open>Free list and order in the re-order buffer\<close>

definition freelist_pop :: "OOOState \<Rightarrow> int \<times> OOOState" where
  "freelist_pop t =
    (let f = freelist t in
     (fl_regs f ! fl_head f, t\<lparr>freelist := f\<lparr>fl_head := (fl_head f + 1) mod 64, fl_count := fl_count f - 1\<rparr>\<rparr>))"

definition freelist_push :: "int \<Rightarrow> OOOState \<Rightarrow> OOOState" where
  "freelist_push reg t =
    (let f = freelist t in
     t\<lparr>freelist := f\<lparr>fl_regs := (fl_regs f)[fl_tail f := reg], fl_tail := (fl_tail f + 1) mod 64, fl_count := fl_count f + 1\<rparr>\<rparr>)"

text \<open>The distance of a slot from the head, and the slots from the head up to a slot.\<close>

definition rob_dist :: "OOOState \<Rightarrow> nat \<Rightarrow> nat" where
  "rob_dist t a = (a + 32 - rob_head t) mod 32"

definition rob_newer_than :: "nat \<Rightarrow> nat \<Rightarrow> OOOState \<Rightarrow> bool" where
  "rob_newer_than a b t \<longleftrightarrow> rob_dist t a > rob_dist t b"

definition slots_before :: "OOOState \<Rightarrow> nat \<Rightarrow> nat list" where
  "slots_before t idx = map (\<lambda>k. (rob_head t + k) mod 32) [0..<rob_dist t idx]"

section \<open>Results\<close>

text \<open>One waiting station sees the result of \<open>phys_tag\<close>.\<close>

definition cdb_step :: "int \<Rightarrow> nat \<Rightarrow> OOOState \<Rightarrow> OOOState" where
  "cdb_step phys_tag i t =
    (let v = p_value (phys t ! nat phys_tag); e = rs_tab t ! i;
         c1 = (\<not> src1_ready e \<and> src1_ptag e = phys_tag); c2 = (\<not> src2_ready e \<and> src2_ptag e = phys_tag);
         e = (if c1 then e\<lparr>rs_src1_val := v, src1_ready := True\<rparr> else e);
         e = (if c2 then e\<lparr>rs_src2_val := v, src2_ready := True\<rparr> else e);
         t = t\<lparr>rs_tab := (rs_tab t)[i := e]\<rparr>
     in if (c1 \<or> c2) \<and> src1_ready e \<and> src2_ready e then set_ready (eu_type e) i t else t)"

definition cdb_broadcast :: "int \<Rightarrow> OOOState \<Rightarrow> OOOState" where
  "cdb_broadcast phys_tag t = fold (cdb_step phys_tag) (mask_bits (NOT (rs_free_mask t) AND 0xffff)) t"

definition set_phys :: "int \<Rightarrow> word_t \<Rightarrow> OOOState \<Rightarrow> OOOState" where
  "set_phys p v t = t\<lparr>phys := (phys t)[nat p := \<lparr>p_value = v, p_ready = True\<rparr>]\<rparr>"

definition set_unready :: "int \<Rightarrow> OOOState \<Rightarrow> OOOState" where
  "set_unready p t = t\<lparr>phys := (phys t)[nat p := (phys t ! nat p)\<lparr>p_ready := False\<rparr>]\<rparr>"

definition put_rob :: "nat \<Rightarrow> ROBEntry \<Rightarrow> OOOState \<Rightarrow> OOOState" where
  "put_rob i e t = t\<lparr>rob := (rob t)[i := e]\<rparr>"

definition put_rs :: "nat \<Rightarrow> RSEntry \<Rightarrow> OOOState \<Rightarrow> OOOState" where
  "put_rs i e t = t\<lparr>rs_tab := (rs_tab t)[i := e]\<rparr>"

definition is_store_op :: "u32 \<Rightarrow> bool" where
  "is_store_op raw \<longleftrightarrow> raw AND 0x7f = 0x23"

section \<open>Flush\<close>

text \<open>The renaming of the youngest entry is undone.\<close>

definition undo_last :: "OOOState \<Rightarrow> OOOState" where
  "undo_last t =
    (let i = (rob_tail t + 31) mod 32; t = t\<lparr>rob_tail := i\<rparr>; e = rob t ! i in
     if rob_valid e then
       let t = (if arch_rd e \<noteq> -1 \<and> arch_rd e \<noteq> 0
                then freelist_push (rob_phys_rd e) (set_unready (rob_phys_rd e) (t\<lparr>rat := (rat t)[nat (arch_rd e) := old_phys e]\<rparr>))
                else t);
           t = (if \<not> rob_ready e \<and> is_store_op (ir_raw (rob_ir e)) then t\<lparr>unready_store_count := unready_store_count t - 1\<rparr> else t)
       in (put_rob i (e\<lparr>rob_valid := False\<rparr>) t)\<lparr>rob_count := rob_count t - 1\<rparr>
     else t)"

definition flush_rs :: "nat \<Rightarrow> nat \<Rightarrow> OOOState \<Rightarrow> OOOState" where
  "flush_rs branch_rob_idx i t =
    (let e = rs_tab t ! i in
     if rs_valid e \<and> rob_newer_than (rs_rob_idx e) branch_rob_idx t
     then put_rs i (e\<lparr>rs_valid := False\<rparr>) (rs_mask_clear i (eu_type e) t) else t)"

definition flush_latch :: "nat \<Rightarrow> OOOState \<Rightarrow> OOOLatch \<Rightarrow> OOOLatch" where
  "flush_latch branch_rob_idx t l =
    (if l_valid l \<and> rob_newer_than (l_rob_idx l) branch_rob_idx t then l\<lparr>l_valid := False\<rparr> else l)"

definition flush_lsu :: "nat \<Rightarrow> OOOState \<Rightarrow> OOOLatch \<Rightarrow> OOOLatch" where
  "flush_lsu branch_rob_idx t l =
    (if l_valid l \<and> rob_newer_than (l_rob_idx l) branch_rob_idx t
     then if l_mshr_idx l \<ge> 0 then l\<lparr>l_flushed := True\<rparr> else l\<lparr>l_valid := False\<rparr>
     else l)"

definition kill :: "PipeReg list \<Rightarrow> PipeReg list" where
  "kill = map (\<lambda>r. r\<lparr>pr_valid := False\<rparr>)"

definition ooo_flush_after :: "nat \<Rightarrow> OOOState \<Rightarrow> OOOState" where
  "ooo_flush_after branch_rob_idx t =
    (let new_tail = (branch_rob_idx + 1) mod 32;
         t = (undo_last ^^ ((rob_tail t + 32 - new_tail) mod 32)) t;
         t = fold (flush_rs branch_rob_idx) [0..<16] t
     in t\<lparr>latch_int := map (flush_latch branch_rob_idx t) (latch_int t),
          latch_mul := map (flush_latch branch_rob_idx t) (latch_mul t),
          latch_lsu := map (flush_lsu branch_rob_idx t) (latch_lsu t),
          latch_if_id := kill (latch_if_id t), latch_id_rn := kill (latch_id_rn t)\<rparr>)"

section \<open>Initialisation\<close>

definition ooo_init :: "machine \<Rightarrow> machine" where
  "ooo_init m =
    (let t = zero_ooo\<lparr>phys := map (\<lambda>i. \<lparr>p_value = (if 0 < i \<and> i < 32 then gpr (cpu m) ! i else 0), p_ready = True\<rparr>) [0..<64],
                      rat := map int [0..<32], rrat := map int [0..<32]\<rparr>;
         t = fold freelist_push (map int [32..<64]) t;
         t = t\<lparr>rs_free_mask := 0xffff, ooo_fetch_pc := cpu_pc (cpu m)\<rparr>;
         m = m\<lparr>ooo := t, ooo_stats := zero_ooo_stats\<rparr>;
         m = (if g_bpred_mode m then m\<lparr>bpred_state := bpred_init (bpred_state m)\<rparr> else m);
         m = (if g_bpred2_mode m then m\<lparr>bpred2_state := bpred_init (bpred2_state m)\<rparr> else m)
     in m\<lparr>difftest_ref := cpu m, difftest_active := g_num_cores m = 1 \<and> g_difftest_en m\<rparr>)"

section \<open>The reference run beside the engine\<close>

definition ooo_difftest_step :: "IR_Inst \<Rightarrow> machine \<Rightarrow> machine res" where
  "ooo_difftest_step stk m =
    (let pc = cpu_pc (difftest_ref m) in
     bind_res (vaddr_read pc 4 m) (\<lambda>(w, m).
     let ir = reread (difftest_ref m) (ir_decode (ucast w) pc (pc + 4) stk m) in
     bind_res (ir_execute ir (difftest_ref m) m) (\<lambda>(ir, m).
     bind_res (if ir_type ir = ITYPE_LOAD then bind_res (ir_mem_access False ir m) (\<lambda>(ir, _, m). Inr (ir, m)) else Inr (ir, m)) (\<lambda>(ir, m).
     bind_res (ir_writeback ir (difftest_ref m)) (\<lambda>c.
     Inr (m\<lparr>difftest_ref := c\<lparr>cpu_pc := dnpc ir, gpr := (gpr c)[0 := 0]\<rparr>\<rparr>))))))"

definition sbuf_covers :: "IR_Inst \<Rightarrow> OOOState \<Rightarrow> bool" where
  "sbuf_covers ir t \<longleftrightarrow>
     list_ex (\<lambda>bi. let se = sbuf t ! ((sbuf_tail t + 15 - bi) mod 16) in se_valid se \<and> se_addr se = mem_addr ir \<and> se_width se = mem_width ir)
       [0..<nat (sbuf_count t)]"

definition set_ref :: "nat \<Rightarrow> word_t \<Rightarrow> machine \<Rightarrow> machine" where
  "set_ref i v m = m\<lparr>difftest_ref := (difftest_ref m)\<lparr>gpr := (gpr (difftest_ref m))[i := v]\<rparr>\<rparr>"

definition difftest_check :: "IR_Inst \<Rightarrow> ROBEntry \<Rightarrow> machine \<Rightarrow> machine res" where
  "difftest_check stk e m =
    (let ty = ir_type (rob_ir e); rd = nat (arch_rd e) in
     bind_res (ooo_difftest_step stk m) (\<lambda>m.
     let ooo_val = gpr (cpu m) ! rd; ref_val = gpr (difftest_ref m) ! rd in
     if ty = ITYPE_CSR \<or> ty = ITYPE_SYSTEM \<or> ty = ITYPE_FENCE \<or> ty = ITYPE_STORE then
       Inr (if arch_rd e > 0 then set_ref rd ooo_val m else m)
     else if ty = ITYPE_LOAD \<and> arch_rd e > 0 then
       if mem_addr (rob_ir e) \<ge> 0xa0000000 then Inr (set_ref rd ooo_val m)
       else if ooo_val \<noteq> ref_val \<and> \<not> sbuf_covers (rob_ir e) (ooo m)
       then Inr (set_ref rd ref_val (m\<lparr>cpu := (cpu m)\<lparr>gpr := (gpr (cpu m))[rd := ref_val]\<rparr>\<rparr>))
       else Inr (set_ref rd ooo_val m)
     else if list_ex (\<lambda>i. gpr (cpu m) ! i \<noteq> gpr (difftest_ref m) ! i) [1..<32] then
       Inr (m\<lparr>difftest_ref := \<lparr>gpr = gpr (cpu m), cpu_pc = cpu_pc (cpu m)\<rparr>\<rparr>)
     else Inr m))"

section \<open>Commit\<close>

definition sbuf_push :: "ROBEntry \<Rightarrow> OOOState \<Rightarrow> OOOState" where
  "sbuf_push e t =
     t\<lparr>sbuf := (sbuf t)[sbuf_tail t := \<lparr>se_addr = mem_addr (rob_ir e), se_data = store_data e, se_width = mem_width (rob_ir e), se_valid = True\<rparr>],
       sbuf_tail := (sbuf_tail t + 1) mod 16, sbuf_count := sbuf_count t + 1\<rparr>"

text \<open>The result becomes the architectural one, and the physical register it supersedes is free again.\<close>

definition retire :: "ROBEntry \<Rightarrow> machine \<Rightarrow> machine" where
  "retire e m =
    (let m = (if arch_rd e \<noteq> -1 \<and> arch_rd e \<noteq> 0 then
                m\<lparr>cpu := (cpu m)\<lparr>gpr := (gpr (cpu m))[nat (arch_rd e) := p_value (phys (ooo m) ! nat (rob_phys_rd e))]\<rparr>,
                  ooo := freelist_push (old_phys e) (set_unready (old_phys e)
                    ((ooo m)\<lparr>rrat := (rrat (ooo m))[nat (arch_rd e) := rob_phys_rd e]\<rparr>))\<rparr>
              else m)
     in m\<lparr>cpu := (cpu m)\<lparr>gpr := (gpr (cpu m))[0 := 0], cpu_pc := dnpc (rob_ir e)\<rparr>\<rparr>)"

definition drop_head :: "machine \<Rightarrow> machine" where
  "drop_head m =
    (let t = ooo m; h = rob_head t in
     m\<lparr>ooo := (put_rob h ((rob t ! h)\<lparr>rob_valid := False\<rparr>) t)\<lparr>rob_head := (h + 1) mod 32, rob_count := rob_count t - 1\<rparr>,
       ooo_stats := (ooo_stats m)\<lparr>os_insts := os_insts (ooo_stats m) + 1\<rparr>\<rparr>)"

text \<open>One round of the loop; the flag is false when it breaks.\<close>

definition commit_one :: "IR_Inst \<Rightarrow> machine \<Rightarrow> (bool \<times> machine) res" where
  "commit_one stk m =
    (let t = ooo m; e = rob t ! rob_head t; ir = rob_ir e; is_store = (ir_type ir = ITYPE_STORE); ram = in_ram_range (mem_addr ir) in
     if rob_count t = 0 \<or> \<not> rob_valid e \<or> \<not> rob_ready e then Inr (False, m)
     else if ir_type ir = ITYPE_FENCE \<and> sbuf_count t > 0 then Inr (False, m)
     else
       bind_res (guard (\<not> fault ir) Assertion_failed) (\<lambda>_.
       if is_store \<and> ram \<and> sbuf_count t \<ge> 16 then Inr (False, m)
       else
         bind_res (if is_store then if ram then Inr (m\<lparr>ooo := sbuf_push e t\<rparr>) else vaddr_write (mem_addr ir) (mem_width ir) (store_data e) m
                   else Inr m) (\<lambda>m.
         let m = retire e m in
         bind_res (if difftest_active m then difftest_check stk e m else Inr m) (\<lambda>m. Inr (True, drop_head m)))))"

fun commit_loop :: "IR_Inst list \<Rightarrow> machine \<Rightarrow> machine res" where
  "commit_loop [] m = Inr m"
| "commit_loop (stk # stks) m = bind_res (commit_one stk m) (\<lambda>(go, m). if go then commit_loop stks m else Inr m)"

definition ooo_stage_commit :: "(nat \<Rightarrow> IR_Inst) \<Rightarrow> machine \<Rightarrow> machine res" where
  "ooo_stage_commit stk m = commit_loop (map stk [0..<2]) m"

section \<open>Miss status registers\<close>

fun find_mshr :: "MSHREntry list \<Rightarrow> nat \<Rightarrow> paddr_t \<Rightarrow> nat option" where
  "find_mshr [] i a = None"
| "find_mshr (e # es) i a = (if mshr_valid e \<and> line_addr e = a then Some i else find_mshr es (Suc i) a)"

fun free_mshr :: "MSHREntry list \<Rightarrow> nat \<Rightarrow> nat option" where
  "free_mshr [] i = None"
| "free_mshr (e # es) i = (if \<not> mshr_valid e then Some i else free_mshr es (Suc i))"

definition mshr_find_or_alloc :: "paddr_t \<Rightarrow> nat \<Rightarrow> OOOState \<Rightarrow> int \<times> OOOState" where
  "mshr_find_or_alloc a lat t =
    (case find_mshr (mshr t) 0 a of
       Some i \<Rightarrow> (int i, t)
     | None \<Rightarrow> (case free_mshr (mshr t) 0 of
         None \<Rightarrow> (-1, t)
       | Some i \<Rightarrow> (int i, t\<lparr>mshr := (mshr t)[i := \<lparr>mshr_valid = True, line_addr = a, mshr_cycles_rem = int lat - 1\<rparr>]\<rparr>)))"

definition mshr_tick :: "OOOState \<Rightarrow> OOOState" where
  "mshr_tick t = t\<lparr>mshr := map (\<lambda>e. if mshr_valid e \<and> mshr_cycles_rem e > 0 then e\<lparr>mshr_cycles_rem := mshr_cycles_rem e - 1\<rparr> else e) (mshr t)\<rparr>"

text \<open>An entry is given back unless another load unit waits for it.\<close>

definition release_mshr :: "nat \<Rightarrow> int \<Rightarrow> OOOState \<Rightarrow> OOOState" where
  "release_mshr s mi t =
    (if list_ex (\<lambda>j. j \<noteq> s \<and> l_valid (latch_lsu t ! j) \<and> l_mshr_idx (latch_lsu t ! j) = mi) [0..<2] then t
     else t\<lparr>mshr := (mshr t)[nat mi := (mshr t ! nat mi)\<lparr>mshr_valid := False\<rparr>]\<rparr>)"

section \<open>Functional units\<close>

definition with_ooo :: "(OOOState \<Rightarrow> OOOState) \<Rightarrow> machine \<Rightarrow> machine" where
  "with_ooo f m = m\<lparr>ooo := f (ooo m)\<rparr>"

definition put_int :: "nat \<Rightarrow> OOOLatch \<Rightarrow> OOOState \<Rightarrow> OOOState" where
  "put_int s l t = t\<lparr>latch_int := (latch_int t)[s := l]\<rparr>"

definition put_mul :: "nat \<Rightarrow> OOOLatch \<Rightarrow> OOOState \<Rightarrow> OOOState" where
  "put_mul s l t = t\<lparr>latch_mul := (latch_mul t)[s := l]\<rparr>"

definition put_lsu :: "nat \<Rightarrow> OOOLatch \<Rightarrow> OOOState \<Rightarrow> OOOState" where
  "put_lsu s l t = t\<lparr>latch_lsu := (latch_lsu t)[s := l]\<rparr>"

definition free_lsu :: "nat \<Rightarrow> OOOState \<Rightarrow> OOOState" where
  "free_lsu s t = put_lsu s ((latch_lsu t ! s)\<lparr>l_valid := False\<rparr>) t"

text \<open>The instruction's record is written back, its result broadcast, its entry marked ready.\<close>

definition write_result :: "int \<Rightarrow> word_t \<Rightarrow> OOOState \<Rightarrow> OOOState" where
  "write_result p v t =
    (if p \<ge> 0 then let t = set_phys p v t in if p > 0 then cdb_broadcast p t else t else t)"

definition mark_ready :: "nat \<Rightarrow> OOOState \<Rightarrow> OOOState" where
  "mark_ready i t = put_rob i ((rob t ! i)\<lparr>rob_ready := True\<rparr>) t"

definition set_rob_ir :: "nat \<Rightarrow> IR_Inst \<Rightarrow> OOOState \<Rightarrow> OOOState" where
  "set_rob_ir i ir t = put_rob i ((rob t ! i)\<lparr>rob_ir := ir\<rparr>) t"

definition complete :: "nat \<Rightarrow> int \<Rightarrow> IR_Inst \<Rightarrow> OOOState \<Rightarrow> OOOState" where
  "complete i p ir t = mark_ready i (write_result p (result ir) (set_rob_ir i ir t))"

definition with_sources :: "OOOLatch \<Rightarrow> IR_Inst \<Rightarrow> IR_Inst" where
  "with_sources l ir = ir\<lparr>src1_val := l_src1_val l, src2_val := l_src2_val l\<rparr>"

definition train_predictor :: "IR_Inst \<Rightarrow> machine \<Rightarrow> machine res" where
  "train_predictor ir m =
    (if g_bpred2_mode m then bind_res (bpred2_update (bpred2_state m) ir) (\<lambda>bp. Inr (m\<lparr>bpred2_state := bp\<rparr>))
     else if g_bpred_mode m then bind_res (bpred_update (bpred_state m) ir) (\<lambda>bp. Inr (m\<lparr>bpred_state := bp\<rparr>))
     else Inr m)"

text \<open>A mispredicted branch: a target outside of RAM is left to an older branch, else the younger instructions are dropped.\<close>

definition redirect :: "nat \<Rightarrow> IR_Inst \<Rightarrow> machine \<Rightarrow> machine" where
  "redirect i ir m =
    (if \<not> in_ram_range (dnpc ir) then with_ooo (\<lambda>t. set_rob_ir i ((rob_ir (rob t ! i))\<lparr>fault := True\<rparr>) t) m
     else
       let m = (if g_bpred_mode m then m\<lparr>bpred_state := (bpred_state m)\<lparr>ras_top := ras_top_snap ir, ras_count := ras_cnt_snap ir\<rparr>\<rparr> else m)
       in m\<lparr>ooo := (ooo_flush_after i (ooo m))\<lparr>ooo_fetch_pc := dnpc ir\<rparr>,
            ooo_stats := (ooo_stats m)\<lparr>mispred_flushes := mispred_flushes (ooo_stats m) + 1\<rparr>\<rparr>)"

definition int_slot :: "nat \<Rightarrow> machine \<Rightarrow> machine res" where
  "int_slot s m =
    (let l = latch_int (ooo m) ! s; i = l_rob_idx l in
     if \<not> l_valid l then Inr m
     else
       let m = with_ooo (put_int s (l\<lparr>l_valid := False\<rparr>)) m in
       if \<not> rob_valid (rob (ooo m) ! i) then Inr m
       else
         bind_res (ir_execute (with_sources l (rob_ir (rob (ooo m) ! i))) (cpu m) m) (\<lambda>(ir, m).
         let m = with_ooo (complete i (l_phys_rd l) ir) m in
         if ir_type ir = ITYPE_BRANCH \<or> ir_type ir = ITYPE_JAL \<or> ir_type ir = ITYPE_JALR then
           bind_res (train_predictor ir m) (\<lambda>m.
           let predicted = (if bp_predicted_pc ir \<noteq> 0 then bp_predicted_pc ir else ir_snpc ir)
           in Inr (if dnpc ir \<noteq> predicted then redirect i ir m else m))
         else Inr m))"

definition ooo_unit_int :: "machine \<Rightarrow> machine res" where
  "ooo_unit_int m = bind_res (int_slot 0 m) (int_slot 1)"

definition mul_latency :: "u32 \<Rightarrow> nat" where
  "mul_latency raw =
    (let opc = raw AND 0x7f; funct7 = drop_bit 25 raw; funct3 = drop_bit 12 raw AND 0x7 in
     if (opc = 0x33 \<or> opc = 0x3b) \<and> funct7 = 1 then if funct3 < 4 then 3 else 20 else 1)"

definition mul_finish :: "nat \<Rightarrow> machine \<Rightarrow> machine res" where
  "mul_finish s m =
    (let l = latch_mul (ooo m) ! s; i = l_rob_idx l; m = with_ooo (put_mul s (l\<lparr>l_valid := False\<rparr>)) m in
     if \<not> rob_valid (rob (ooo m) ! i) then Inr m
     else
       bind_res (ir_execute (with_sources l (rob_ir (rob (ooo m) ! i))) (cpu m) m) (\<lambda>(ir, m).
       Inr (with_ooo (complete i (l_phys_rd l) ir) m)))"

definition mul_slot :: "nat \<Rightarrow> machine \<Rightarrow> machine res" where
  "mul_slot s m =
    (let l = latch_mul (ooo m) ! s; i = l_rob_idx l in
     if \<not> l_valid l then Inr m
     else if l_cycles_rem l = -1 then
       let lat = mul_latency (ir_raw (rob_ir (rob (ooo m) ! i)));
           m = with_ooo (put_mul s (l\<lparr>l_cycles_rem := int lat - 1\<rparr>)) m
       in if lat > 1 then Inr m else mul_finish s m
     else if l_cycles_rem l > 0 then
       Inr (with_ooo (put_mul s (if \<not> rob_valid (rob (ooo m) ! i) then l\<lparr>l_valid := False\<rparr> else l\<lparr>l_cycles_rem := l_cycles_rem l - 1\<rparr>)) m)
     else mul_finish s m)"

definition ooo_unit_mul :: "machine \<Rightarrow> machine res" where
  "ooo_unit_mul m = mul_slot 0 m"

section \<open>Loads and stores\<close>

text \<open>\<^verbatim>\<open>STLF_TRY\<close>: a store that covers the load supplies its bytes.\<close>

definition stlf_try :: "vaddr_t \<Rightarrow> nat \<Rightarrow> word_t \<Rightarrow> IR_Inst \<Rightarrow> word_t \<Rightarrow> word_t" where
  "stlf_try sa sw sd ir out =
    (let la = mem_addr ir; lw = mem_width ir in
     if sa \<le> la \<and> la + word_of_nat lw \<le> sa + word_of_nat sw
     then extend_load (mem_sign ir) lw (drop_bit (8 * unat (la - sa)) sd) else out)"

definition stlf_sbuf :: "OOOState \<Rightarrow> IR_Inst \<Rightarrow> word_t \<Rightarrow> word_t" where
  "stlf_sbuf t ir out =
     fold (\<lambda>bi out. let se = sbuf t ! ((sbuf_head t + bi) mod 16) in
             if se_valid se then stlf_try (se_addr se) (se_width se) (se_data se) ir out else out) [0..<nat (sbuf_count t)] out"

definition stlf_rob :: "OOOState \<Rightarrow> nat \<Rightarrow> IR_Inst \<Rightarrow> word_t \<Rightarrow> word_t" where
  "stlf_rob t i ir out =
     fold (\<lambda>j out. let e = rob t ! j in
             if rob_valid e \<and> rob_ready e \<and> is_store_op (ir_raw (rob_ir e))
             then stlf_try (mem_addr (rob_ir e)) (mem_width (rob_ir e)) (store_data e) ir out else out) (slots_before t i) out"

text \<open>The label \<^verbatim>\<open>lsu_do_fill\<close>.\<close>

definition lsu_fill :: "nat \<Rightarrow> machine \<Rightarrow> machine res" where
  "lsu_fill s m =
    (let l = latch_lsu (ooo m) ! s; i = l_rob_idx l; ir = rob_ir (rob (ooo m) ! i); pa = mem_addr ir AND 0xffffffff in
     if \<not> in_ram_range pa \<and> pa < 0xa0000000 then
       Inr (with_ooo (\<lambda>t.
         let t = set_rob_ir i (ir\<lparr>fault := True, result := 0\<rparr>) t;
             t = (if l_phys_rd l > 0 then cdb_broadcast (l_phys_rd l) (set_phys (l_phys_rd l) 0 t) else t)
         in free_lsu s (mark_ready i t)) m)
     else
       bind_res (vaddr_fill_and_read (mem_addr ir) (mem_width ir) m) (\<lambda>(raw, m).
       let r = stlf_rob (ooo m) i ir (stlf_sbuf (ooo m) ir (extend_load (mem_sign ir) (mem_width ir) raw)) in
       bind_res (guard (0 \<le> l_phys_rd l) Out_of_bounds) (\<lambda>_.
       Inr (with_ooo (\<lambda>t.
         let t = (if l_mshr_idx l \<ge> 0 then release_mshr s (l_mshr_idx l) t else t);
             t = cdb_broadcast (l_phys_rd l) (set_phys (l_phys_rd l) r t)
         in free_lsu s (mark_ready i (set_rob_ir i (ir\<lparr>result := r\<rparr>) t))) m))))"

definition lsu_first :: "nat \<Rightarrow> machine \<Rightarrow> machine res" where
  "lsu_first s m =
    (let l = latch_lsu (ooo m) ! s; i = l_rob_idx l in
     bind_res (ir_execute (with_sources l (rob_ir (rob (ooo m) ! i))) (cpu m) m) (\<lambda>(ir, m).
     let m = with_ooo (set_rob_ir i ir) m in
     if ir_type ir = ITYPE_STORE then
       Inr (with_ooo (\<lambda>t. free_lsu s ((put_rob i ((rob t ! i)\<lparr>store_data := src2_val ir, rob_ready := True\<rparr>) t)
         \<lparr>unready_store_count := unready_store_count t - 1\<rparr>)) m)
     else if mem_addr ir \<ge> 0xa0000000 then
       if i \<noteq> rob_head (ooo m) then Inr (with_ooo (put_lsu s (l\<lparr>l_cycles_rem := -2\<rparr>)) m) else lsu_fill s m
     else
       bind_res (vaddr_probe_level (mem_addr ir) m) (\<lambda>(level, m).
       let lat = level_to_lat level in
       if lat = 1 then lsu_fill s m
       else
         let (mi, t) = mshr_find_or_alloc (mem_addr ir AND NOT 63) lat (ooo m); m = m\<lparr>ooo := t\<rparr> in
         Inr (if mi = -1 then m else with_ooo (put_lsu s (l\<lparr>l_mshr_idx := mi, l_cycles_rem := 0\<rparr>)) m))))"

definition lsu_flushed :: "nat \<Rightarrow> machine \<Rightarrow> machine res" where
  "lsu_flushed s m =
    (let mi = l_mshr_idx (latch_lsu (ooo m) ! s); e = mshr (ooo m) ! nat mi in
     if mi < 0 then Inr (with_ooo (free_lsu s) m)
     else if mshr_cycles_rem e > 0 then Inr m
     else bind_res (vaddr_fill_and_read (line_addr e) 8 m) (\<lambda>(_, m). Inr (with_ooo (\<lambda>t. free_lsu s (release_mshr s mi t)) m)))"

definition lsu_slot :: "nat \<Rightarrow> machine \<Rightarrow> machine res" where
  "lsu_slot s m =
    (let l = latch_lsu (ooo m) ! s; i = l_rob_idx l; mi = l_mshr_idx l in
     if \<not> l_valid l then Inr m
     else if \<not> rob_valid (rob (ooo m) ! i) \<or> l_flushed l then lsu_flushed s m
     else if mi = -1 \<and> l_cycles_rem l = -1 then lsu_first s m
     else if mi = -1 \<and> l_cycles_rem l = 0 then lsu_fill s m
     else if mi = -1 \<and> l_cycles_rem l = -2 then if i \<noteq> rob_head (ooo m) then Inr m else lsu_fill s m
     else if mi \<ge> 0 \<and> mshr_cycles_rem (mshr (ooo m) ! nat mi) > 0 then Inr m
     else lsu_fill s m)"

definition ooo_unit_lsu :: "machine \<Rightarrow> machine res" where
  "ooo_unit_lsu m = bind_res (lsu_slot 0 m) (lsu_slot 1)"

section \<open>Issue\<close>

definition latch_from_rs :: "nat \<Rightarrow> OOOState \<Rightarrow> OOOLatch \<times> OOOState" where
  "latch_from_rs i t =
    (let e = rs_tab t ! i in
     (\<lparr>l_rob_idx = rs_rob_idx e, l_phys_rd = rs_phys_rd e, l_valid = True, l_cycles_rem = -1, l_mshr_idx = -1, l_flushed = False,
        l_src1_val = rs_src1_val e, l_src2_val = rs_src2_val e\<rparr>,
      put_rs i (e\<lparr>rs_valid := False\<rparr>) (rs_mask_clear i (eu_type e) t)))"

text \<open>A load waits for older stores without an address, and behind a fence for the store buffer.\<close>

definition load_blocked :: "OOOState \<Rightarrow> nat \<Rightarrow> bool" where
  "load_blocked t i \<longleftrightarrow>
     ir_raw (rob_ir (rob t ! rs_rob_idx (rs_tab t ! i))) AND 0x7f = 0x03 \<and>
     list_ex (\<lambda>j. let e = rob t ! j in
       rob_valid e \<and> (\<not> rob_ready e \<and> is_store_op (ir_raw (rob_ir e)) \<or> ir_type (rob_ir e) = ITYPE_FENCE \<and> sbuf_count t > 0))
       (slots_before t (rs_rob_idx (rs_tab t ! i)))"

definition pick_older :: "OOOState \<Rightarrow> bool \<Rightarrow> nat \<Rightarrow> nat option \<Rightarrow> nat option" where
  "pick_older t do_mem_order i best =
    (if do_mem_order \<and> load_blocked t i then best
     else case best of
       None \<Rightarrow> Some i
     | Some b \<Rightarrow> if rob_dist t (rs_rob_idx (rs_tab t ! i)) < rob_dist t (rs_rob_idx (rs_tab t ! b)) then Some i else best)"

definition select_rs :: "bool \<Rightarrow> nat \<Rightarrow> OOOState \<Rightarrow> nat option" where
  "select_rs do_mem_order eu t = fold (pick_older t do_mem_order) (mask_bits (rs_ready_mask t ! eu)) None"

text \<open>\<^verbatim>\<open>ISSUE_UNIT\<close> for one slot of an array of latches.\<close>

definition issue_unit :: "bool \<Rightarrow> nat \<Rightarrow> OOOLatch \<Rightarrow> (OOOLatch \<Rightarrow> OOOState \<Rightarrow> OOOState) \<Rightarrow> OOOState \<Rightarrow> OOOState" where
  "issue_unit do_mem_order eu l put t =
    (if l_valid l then t
     else case select_rs do_mem_order eu t of
       None \<Rightarrow> t
     | Some best \<Rightarrow> let (l, t) = latch_from_rs best t in put l t)"

definition ooo_stage_is :: "OOOState \<Rightarrow> OOOState" where
  "ooo_stage_is t =
    (let t = fold (\<lambda>s t. issue_unit False 0 (latch_int t ! s) (put_int s) t) [0..<2] t;
         t = fold (\<lambda>s t. issue_unit False 1 (latch_mul t ! s) (put_mul s) t) [0..<1] t
     in fold (\<lambda>s t. issue_unit True 2 (latch_lsu t ! s) (put_lsu s) t) [0..<2] t)"

section \<open>Rename\<close>

definition eu_of :: "u32 \<Rightarrow> nat" where
  "eu_of raw =
    (let opc = raw AND 0x7f in
     if opc = 0x03 \<or> opc = 0x23 then 2 else if (opc = 0x33 \<or> opc = 0x3b) \<and> drop_bit 25 raw = 1 then 1 else 0)"

text \<open>Readiness, value and tag of a source operand: from the decoder, the constant 0, or the physical register.\<close>

definition operand :: "OOOState \<Rightarrow> int \<Rightarrow> word_t \<Rightarrow> bool \<times> word_t \<times> int" where
  "operand t r v =
    (if r = -1 then (True, v, 0) else if r = 0 then (True, 0, 0)
     else let p = rat t ! nat r; e = phys t ! nat p in if p_ready e then (True, p_value e, p) else (False, 0, p))"

definition rename_rd :: "int \<Rightarrow> OOOState \<Rightarrow> int \<times> int \<times> OOOState" where
  "rename_rd rd t =
    (if rd \<noteq> -1 \<and> rd \<noteq> 0 then
       let (p, t) = freelist_pop t; old = rat t ! nat rd
       in (p, old, t\<lparr>rat := (rat t)[nat rd := p], phys := (phys t)[nat p := \<lparr>p_value = 0, p_ready = False\<rparr>]\<rparr>)
     else if rd = 0 then (0, 0, t) else (-1, -1, t))"

definition rename_one :: "IR_Inst \<Rightarrow> OOOState \<Rightarrow> OOOState" where
  "rename_one ir t =
    (let i = rob_tail t;
         t = t\<lparr>rob_tail := (i + 1) mod 32, rob_count := rob_count t + 1\<rparr>;
         t = (if is_store_op (ir_raw ir) then t\<lparr>unready_store_count := unready_store_count t + 1\<rparr> else t);
         (r1, v1, p1) = operand t (ir_rs1 ir) (src1_val ir);
         (r2, v2, p2) = operand t (ir_rs2 ir) (src2_val ir);
         (p, old, t) = rename_rd (ir_rd ir) t;
         t = put_rob i \<lparr>rob_ir = ir, arch_rd = ir_rd ir, rob_phys_rd = p, old_phys = old, store_data = 0, rob_ready = False, rob_valid = True\<rparr> t;
         j = ctz (rs_free_mask t);
         t = t\<lparr>rs_free_mask := unset_bit j (rs_free_mask t)\<rparr>;
         t = put_rs j \<lparr>rs_valid = True, rs_phys_rd = p, rs_rob_idx = i, src1_ready = r1, rs_src1_val = v1, src1_ptag = p1,
               src2_ready = r2, rs_src2_val = v2, src2_ptag = p2, rs_cycles_rem = rs_cycles_rem (rs_tab t ! j), eu_type = eu_of (ir_raw ir)\<rparr> t
     in rs_mask_update j t)"

text \<open>The loop over the latches; \<open>n\<close> is the position, \<open>rs_used\<close> the count of stations in use.\<close>

fun rename_loop :: "nat list \<Rightarrow> nat \<Rightarrow> OOOState \<times> OOOStats \<Rightarrow> OOOState \<times> OOOStats" where
  "rename_loop [] rs_used s = s"
| "rename_loop (n # ns) rs_used (t, st) =
    (let r = latch_id_rn t ! n; ir = pr_ir r in
     if \<not> pr_valid r then (t, st)
     else if serializing ir \<and> (rob_count t > 0 \<or> n > 0) then
       (t, if n = 0 then st\<lparr>serializing_stalls := serializing_stalls st + 1\<rparr> else st)
     else if rob_count t \<ge> 32 then (t, st\<lparr>rob_full_stalls := rob_full_stalls st + 1\<rparr>)
     else if rs_used \<ge> 16 then (t, st\<lparr>rs_full_stalls := rs_full_stalls st + 1\<rparr>)
     else if ir_rd ir \<noteq> -1 \<and> ir_rd ir \<noteq> 0 \<and> fl_count (freelist t) = 0 then (t, st\<lparr>rob_full_stalls := rob_full_stalls st + 1\<rparr>)
     else
       let t = rename_one ir t
       in rename_loop ns (rs_used + 1) (t\<lparr>latch_id_rn := (latch_id_rn t)[n := r\<lparr>pr_valid := False\<rparr>]\<rparr>, st))"

definition compact :: "OOOState \<Rightarrow> OOOState" where
  "compact t =
    (let r0 = latch_id_rn t ! 0; r1 = latch_id_rn t ! 1 in
     if \<not> pr_valid r0 \<and> pr_valid r1 then t\<lparr>latch_id_rn := (latch_id_rn t)[0 := r1, 1 := r1\<lparr>pr_valid := False\<rparr>]\<rparr> else t)"

definition ooo_stage_rn :: "OOOState \<times> OOOStats \<Rightarrow> OOOState \<times> OOOStats" where
  "ooo_stage_rn = (\<lambda>(t, st).
     if \<not> pr_valid (latch_id_rn t ! 0) then (t, st)
     else let (t, st) = rename_loop [0..<2] (16 - length (mask_bits (rs_free_mask t))) (t, st) in (compact t, st))"

section \<open>Decode and fetch\<close>

definition ooo_stage_id :: "OOOState \<Rightarrow> OOOState" where
  "ooo_stage_id t =
    (if \<not> pr_valid (latch_if_id t ! 0) \<or> pr_valid (latch_id_rn t ! 0) then t
     else t\<lparr>latch_id_rn := latch_if_id t, latch_if_id := kill (latch_if_id t)\<rparr>)"

definition ooo_predict :: "vaddr_t \<Rightarrow> u32 \<Rightarrow> machine \<Rightarrow> (BPredResult \<times> machine) res" where
  "ooo_predict pc raw m =
    (if g_bpred2_mode m then bind_res (bpred2_predict (bpred2_state m) pc m) (\<lambda>r. Inr (r, m))
     else bind_res (bpred_predict (bpred_state m) pc raw) (\<lambda>(r, bp). Inr (r, m\<lparr>bpred_state := bp\<rparr>)))"

definition put_if :: "nat \<Rightarrow> IR_Inst \<Rightarrow> vaddr_t \<Rightarrow> machine \<Rightarrow> machine" where
  "put_if s ir pc m =
     with_ooo (\<lambda>t. t\<lparr>latch_if_id := (latch_if_id t)[s := \<lparr>pr_ir = ir, pr_valid = True\<rparr>], ooo_fetch_pc := pc\<rparr>) m"

text \<open>One round of the loop; the flag is false when it breaks.\<close>

definition fetch_one :: "nat \<Rightarrow> machine \<Rightarrow> (bool \<times> machine) res" where
  "fetch_one s m =
    (let pc = ooo_fetch_pc (ooo m) AND 0xffffffff in
     if \<not> in_ram_range pc then Inr (False, with_ooo (\<lambda>t. t\<lparr>ooo_fetch_pc := pc + 4\<rparr>) m)
     else
       bind_res (vaddr_ifetch pc 4 m) (\<lambda>(w, m).
       let raw = ucast w;
           ir = (ir_decode raw pc (pc + 4) (pr_ir (latch_if_id (ooo m) ! s)) m)\<lparr>bp_predict_taken := False, bp_predicted_pc := pc + 4\<rparr>
       in
       if (g_bpred_mode m \<or> g_bpred2_mode m) \<and> is_control raw then
         let ir = ir\<lparr>ras_top_snap := ras_top (bpred_state m), ras_cnt_snap := ras_count (bpred_state m)\<rparr> in
         bind_res (ooo_predict pc raw m) (\<lambda>(r, m).
         let hit = bpr_taken r \<and> bpr_btb_hit r; next = (if hit then bpr_target r else pc + 4)
         in Inr (\<not> hit, put_if s (ir\<lparr>bp_predict_taken := bpr_taken r, bp_predicted_pc := next\<rparr>) next m))
       else Inr (True, put_if s ir (pc + 4) m)))"

fun fetch_loop :: "nat list \<Rightarrow> machine \<Rightarrow> machine res" where
  "fetch_loop [] m = Inr m"
| "fetch_loop (s # ss) m = bind_res (fetch_one s m) (\<lambda>(go, m). if go then fetch_loop ss m else Inr m)"

definition ooo_stage_if :: "machine \<Rightarrow> machine res" where
  "ooo_stage_if m = (if pr_valid (latch_if_id (ooo m) ! 0) then Inr m else fetch_loop [0..<2] m)"

section \<open>The cycle\<close>

definition ooo_drain_store_buf :: "machine \<Rightarrow> machine res" where
  "ooo_drain_store_buf m =
    (let t = ooo m; h = sbuf_head t; se = sbuf t ! h in
     if sbuf_count t = 0 then Inr m
     else if g_num_cores m > 1 \<and> sbuf_drain_tick t > 0 then Inr (m\<lparr>ooo := t\<lparr>sbuf_drain_tick := sbuf_drain_tick t - 1\<rparr>\<rparr>)
     else
       let m = (if g_num_cores m > 1 then m\<lparr>ooo := t\<lparr>sbuf_drain_tick := 7\<rparr>\<rparr> else m) in
       bind_res (vaddr_write (se_addr se) (se_width se) (se_data se) m) (\<lambda>m.
       Inr (with_ooo (\<lambda>t. t\<lparr>sbuf := (sbuf t)[h := se\<lparr>se_valid := False\<rparr>], sbuf_head := (h + 1) mod 16, sbuf_count := sbuf_count t - 1\<rparr>) m)))"

definition mid_stages :: "machine \<Rightarrow> machine" where
  "mid_stages m = (let (t, st) = ooo_stage_rn (ooo_stage_is (ooo m), ooo_stats m) in m\<lparr>ooo := ooo_stage_id t, ooo_stats := st\<rparr>)"

text \<open>The stages, last first: what \<^verbatim>\<open>ooo_cycle\<close> and \<^verbatim>\<open>ooo_cycle_core\<close> share.\<close>

definition ooo_stages :: "(nat \<Rightarrow> IR_Inst) \<Rightarrow> machine \<Rightarrow> machine res" where
  "ooo_stages stk m =
     bind_res (ooo_drain_store_buf m) (\<lambda>m.
     bind_res (ooo_stage_commit stk m) (\<lambda>m.
     bind_res (ooo_unit_int (with_ooo mshr_tick m)) (\<lambda>m.
     bind_res (ooo_unit_mul m) (\<lambda>m.
     bind_res (ooo_unit_lsu m) (\<lambda>m.
     bind_res (ooo_stage_if (mid_stages m)) (\<lambda>m.
     Inr (m\<lparr>ooo_stats := (ooo_stats m)\<lparr>os_cycles := os_cycles (ooo_stats m) + 1\<rparr>, g_sim_cycles := g_sim_cycles m + 1,
            g_sim_instret := os_insts (ooo_stats m)\<rparr>)))))))"

definition ooo_cycle :: "(nat \<Rightarrow> IR_Inst) \<Rightarrow> machine \<Rightarrow> machine res" where
  "ooo_cycle stk m = ooo_stages stk m"

section \<open>Per-core entry points\<close>

text \<open>The globals are saved, the core's state installed, and both are put back.\<close>

definition ooo_init_core :: "nat \<Rightarrow> machine \<Rightarrow> machine" where
  "ooo_init_core i m =
    (let c = cores m ! i;
         n = ooo_init (m\<lparr>ooo := core_ooo c, ooo_stats := core_ooo_stats c, bpred_state := core_bpred c\<rparr>)
     in (put_core i ((cores n ! i)\<lparr>core_ooo := ooo n, core_ooo_stats := ooo_stats n, core_bpred := bpred_state n\<rparr>) n)
          \<lparr>ooo := ooo m, ooo_stats := ooo_stats m, bpred_state := bpred_state m\<rparr>)"

definition ooo_cycle_core :: "(nat \<Rightarrow> IR_Inst) \<Rightarrow> nat \<Rightarrow> machine \<Rightarrow> machine res" where
  "ooo_cycle_core stk i m =
    (let c = cores m ! i in
     bind_res (ooo_stages stk (m\<lparr>ooo := core_ooo c, ooo_stats := core_ooo_stats c, bpred_state := core_bpred c\<rparr>)) (\<lambda>n.
     let c = (cores n ! i)\<lparr>core_sim_cycles := os_cycles (ooo_stats n), core_sim_instret := os_insts (ooo_stats n),
               core_ooo := ooo n, core_ooo_stats := ooo_stats n, core_bpred := bpred_state n\<rparr>
     in Inr ((put_core i c n)\<lparr>ooo := ooo m, ooo_stats := ooo_stats m, bpred_state := bpred_state m\<rparr>)))"

end
