(* ===== verification/Core.thy ===== *)
theory Core
  imports Functional_Run Ooo
begin

text \<open>
  The cores (\<^verbatim>\<open>src/cpu/core.c\<close>): a core is an index into \<^verbatim>\<open>cores\<close>.
\<close>

section \<open>core.c\<close>

definition core_create :: "nat \<Rightarrow> CoreMode \<Rightarrow> bool \<Rightarrow> machine \<Rightarrow> machine" where
  "core_create i mode bpred_enabled m =
    (let n = length (caches m);
         c = zero_core\<lparr>core_id := i, core_mode := mode, core_bpred_enabled := bpred_enabled, core_priv_level := MACHINE\<rparr>;
         c = c\<lparr>core_cpu := cpu m, core_csr := csr m, core_priv_level := priv_level m, core_pmpcfg := pmpcfg m,
               core_pmpaddr := pmpaddr m, core_l1i := Some n, core_l1d := Some (n + 1)\<rparr>;
         m = m\<lparr>caches := caches m @ [init_cache 6 8 ''L1I'', init_cache L1D_S 8 ''L1D'']\<rparr>;
         c = (if bpred_enabled then c\<lparr>core_bpred := bpred_init (core_bpred c)\<rparr> else c);
         m = put_core i c m
     in if mode = CORE_MODE_INORDER then pipeline_init_core i m else m)"

definition exec_once_core :: "IR_Inst \<Rightarrow> nat \<Rightarrow> machine \<Rightarrow> machine res" where
  "exec_once_core stk i m =
     bind_res (step_inst stk m) (\<lambda>(_, m).
     let c = cores m ! i;
         c = c\<lparr>core_sim_cycles := core_sim_cycles c + 1, core_sim_instret := core_sim_instret c + 1\<rparr>
     in Inr (put_core i c (m\<lparr>g_sim_cycles := g_sim_cycles m + 1, g_sim_instret := g_sim_instret m + 1\<rparr>)))"

text \<open>The core's context becomes the globals, and back; the count of active PMP entries is not part of it.\<close>

definition install :: "nat \<Rightarrow> machine \<Rightarrow> machine" where
  "install i m =
    (let c = cores m ! i in
     m\<lparr>g_current_hartid := core_id c, cpu := core_cpu c, csr := core_csr c, priv_level := core_priv_level c,
       pmpcfg := core_pmpcfg c, pmpaddr := core_pmpaddr c, L1I_cache := core_l1i c, L1D_cache := core_l1d c\<rparr>)"

definition save_back :: "nat \<Rightarrow> machine \<Rightarrow> machine" where
  "save_back i m =
     put_core i ((cores m ! i)\<lparr>core_cpu := cpu m, core_csr := csr m, core_priv_level := priv_level m,
       core_pmpcfg := pmpcfg m, core_pmpaddr := pmpaddr m\<rparr>) m"

definition core_cycle :: "(nat \<Rightarrow> IR_Inst) \<Rightarrow> nat \<Rightarrow> machine \<Rightarrow> machine res" where
  "core_cycle stk i m =
    (let m = install i m in
     bind_res (case core_mode (cores m ! i) of
         CORE_MODE_FUNCTIONAL \<Rightarrow> exec_once_core (stk 0) i m
       | CORE_MODE_INORDER \<Rightarrow> pipeline_cycle_core (stk 0) i m
       | CORE_MODE_OOO \<Rightarrow> ooo_cycle_core stk i m) (\<lambda>m. Inr (save_back i m)))"

section \<open>Two harts on one memory\<close>

text \<open>The reference: program counters and registers of the harts, and one memory; hart \<open>i\<close> takes one step.\<close>

record smp_isa =
  s_harts :: "(word_t \<times> word_t list) list"
  s_mem :: "nat \<Rightarrow> byte"

definition hart_state :: "nat \<Rightarrow> smp_isa \<Rightarrow> isa_state" where
  "hart_state i S = \<lparr>i_pc = fst (s_harts S ! i), i_regs = snd (s_harts S ! i), i_mem = s_mem S\<rparr>"

definition hart_step :: "nat \<Rightarrow> smp_isa \<Rightarrow> smp_isa" where
  "hart_step i S =
    (let s = isa_next (hart_state i S) in S\<lparr>s_harts := (s_harts S)[i := (i_pc s, i_regs s)], s_mem := i_mem s\<rparr>)"

fun smp_safe :: "vaddr_t set \<Rightarrow> nat list \<Rightarrow> smp_isa \<Rightarrow> bool" where
  "smp_safe C [] S \<longleftrightarrow> True"
| "smp_safe C (i # is) S \<longleftrightarrow> i < 2 \<and> safe C (hart_state i S) \<and> smp_safe C is (hart_step i S)"

definition smp_of :: "machine \<Rightarrow> smp_isa" where
  "smp_of m = \<lparr>s_harts = map (\<lambda>c. (cpu_pc (core_cpu c), gpr (core_cpu c))) (cores m), s_mem = ram_view m\<rparr>"

text \<open>The state of a two-core machine in functional mode between two calls of \<open>core_cycle\<close>.\<close>

definition smp_ready :: "vaddr_t set \<Rightarrow> machine \<Rightarrow> bool" where
  "smp_ready C m \<longleftrightarrow> g_num_cores m = 2 \<and> length (cores m) = 2 \<and> mem_sys (install 0 m) \<and> code_clean (blk ` C) m \<and>
     (\<forall>i<2. core_id (cores m ! i) = i \<and> core_mode (cores m ! i) = CORE_MODE_FUNCTIONAL \<and> regs_ok (core_cpu (cores m ! i)))"

text \<open>No PMP entry denies anything, no watchpoint is set, the machine runs.\<close>

definition smp_going :: "machine \<Rightarrow> bool" where
  "smp_going m \<longleftrightarrow> pmp_on_count m = 0 \<and> (\<forall>i<2. core_priv_level (cores m ! i) = MACHINE) \<and> wp_head m = [] \<and> state m = NEMU_RUNNING"

fun run_cores :: "(nat \<times> (nat \<Rightarrow> IR_Inst)) list \<Rightarrow> machine \<Rightarrow> machine res" where
  "run_cores [] m = Inr m"
| "run_cores ((i, stk) # sched) m = bind_res (core_cycle stk i m) (run_cores sched)"

lemma install_cores [simp]: "cores (install i m) = cores m" "g_num_cores (install i m) = g_num_cores m" "L2_cache (install i m) = L2_cache m"
  by (simp_all add: install_def Let_def)

lemma install_same: "g_num_cores m = 2 \<Longrightarrow> same_caches m (install i m)"
  by (simp add: same_caches_def install_def data_caches_def l1i_caches_def Let_def)

lemma install_sys:
  assumes "smp_ready C m" and "i < 2"
  shows "mem_sys (install i m)" "ram_view (install i m) = ram_view m" "code_clean (blk ` C) (install i m)"
    "isa_of (install i m) = hart_state i (smp_of m)" "regs_ok (cpu (install i m))"
proof -
  note r = assms(1) [unfolded smp_ready_def]
  have s: "same_caches m (install j m)" for j using r install_same by blast
  have h: "hart_ok (install 0 m)" using r by (simp add: mem_sys_def)
  have "core_id (cores m ! i) = i" using r assms(2) by blast
  then have "hart_ok (install i m)"
    using h r assms(2) by (simp add: hart_ok_def) (simp add: install_def Let_def)
  then show "mem_sys (install i m)"
    using r same_caches_sys(1) [OF s] by simp
  show v: "ram_view (install i m) = ram_view m" by (rule same_caches_sys(2) [OF s])
  show "code_clean (blk ` C) (install i m)" using r code_clean_same [OF s] by blast
  have c: "cpu (install i m) = core_cpu (cores m ! i)" by (simp add: install_def Let_def)
  then show "regs_ok (cpu (install i m))" using r assms(2) by simp
  show "isa_of (install i m) = hart_state i (smp_of m)"
    using r assms(2) v c by (simp add: isa_of_def hart_state_def smp_of_def)
qed

lemma core_cycle_step:
  assumes "smp_ready C m" and "i < 2" and "fetchable C" and "safe C (hart_state i (smp_of m))"
  shows "\<exists>m'. core_cycle stk i m = Inr m' \<and> smp_ready C m' \<and> smp_of m' = hart_step i (smp_of m) \<and> (smp_going m \<longrightarrow> smp_going m')"
proof -
  note r = assms(1) [unfolded smp_ready_def] and n = install_sys [OF assms(1,2)]
  let ?n = "install i m"
  obtain ir m1 where m1: "step_inst (stk 0) ?n = Inr (ir, m1)" "isa_of m1 = isa_next (hart_state i (smp_of m))" "mem_sys m1"
      "regs_ok (cpu m1)" "code_clean (blk ` C) m1" "env_eq (snd (pmp_check (cpu_pc (cpu ?n)) True False ?n)) m1"
    using step_inst_safe [OF n(1,5,3) assms(3), of "stk 0"] assms(4) n(4) by auto
  have e: "cores m1 = cores m" "g_num_cores m1 = 2" "L2_cache m1 = L2_cache m"
    using m1(6) pmp_check_mem_eq(1) [of ?n "cpu_pc (cpu ?n)" True False] r by (simp_all add: env_eq_def mem_eq_def)
  define c where "c = (cores m ! i)\<lparr>core_sim_cycles := core_sim_cycles (cores m ! i) + 1, core_sim_instret := core_sim_instret (cores m ! i) + 1,
    core_cpu := cpu m1, core_csr := csr m1, core_priv_level := priv_level m1, core_pmpcfg := pmpcfg m1, core_pmpaddr := pmpaddr m1\<rparr>"
  define m' where "m' = m1\<lparr>g_sim_cycles := g_sim_cycles m1 + 1, g_sim_instret := g_sim_instret m1 + 1, cores := (cores m)[i := c]\<rparr>"
  have l: "i < length (cores m)" using r assms(2) by simp
  have mode: "core_mode (cores m ! i) = CORE_MODE_FUNCTIONAL" using r assms(2) by blast
  have "core_cycle stk i m = Inr m'"
    using m1(1) l e(1) mode
    by (simp add: core_cycle_def exec_once_core_def save_back_def put_core_def m'_def c_def Let_def)
  moreover have q: "core_l1d c = core_l1d (cores m ! i)" "core_l1i c = core_l1i (cores m ! i)" "core_id c = core_id (cores m ! i)"
      "core_mode c = core_mode (cores m ! i)" "core_cpu c = cpu m1" by (simp_all add: c_def)
  have lists: "map (the \<circ> core_l1d) ((cores m)[i := c]) = map (the \<circ> core_l1d) (cores m)"
      "map (the \<circ> core_l1i) ((cores m)[i := c]) = map (the \<circ> core_l1i) (cores m)"
    using q(1,2) l by (simp_all add: map_update) (metis list_update_id map_update comp_apply)+
  have s: "same_caches m1 m'"
    using lists e by (simp add: same_caches_def m'_def data_caches_def l1i_caches_def)
  note v = same_caches_sys [OF s]
  have s0: "same_caches m1 (install 0 m')"
    using s install_same [of m' 0] e(2) by (simp add: same_caches_def m'_def)
  have "core_id (cores m' ! 0) = 0" "core_l1d (cores m' ! j) = core_l1d (cores m ! j)" "core_l1i (cores m' ! j) = core_l1i (cores m ! j)" for j
    using q l r by (cases "j = i"; cases "i = 0"; simp add: m'_def)+
  then have "hart_ok (install 0 m')"
    using n(1) m1(3) e r by (auto simp: hart_ok_def mem_sys_def install_def m'_def Let_def all_set_conv_all_nth)
  then have "mem_sys (install 0 m')" using same_caches_sys(1) [OF s0] m1(3) by (simp add: mem_sys_def)
  moreover have "smp_of m' = hart_step i (smp_of m)"
  proof -
    have "s_mem (smp_of m') = ram_view m1" "s_harts (smp_of m') = (s_harts (smp_of m))[i := (cpu_pc (cpu m1), gpr (cpu m1))]"
      using v(2) q(5) by (simp_all add: smp_of_def m'_def map_update)
    then show ?thesis by (simp add: hart_step_def Let_def flip: m1(2)) (simp add: isa_of_def)
  qed
  moreover have "code_clean (blk ` C) m'" using code_clean_same [OF s] m1(5) by blast
  moreover have "core_id (cores m' ! j) = j \<and> core_mode (cores m' ! j) = CORE_MODE_FUNCTIONAL \<and> regs_ok (core_cpu (cores m' ! j))" if "j < 2" for j
    using r q m1(4) that l by (cases "j = i") (auto simp: m'_def)
  moreover have "smp_going m'" if g: "smp_going m"
  proof -
    have "priv_level ?n = MACHINE" "pmp_on_count ?n = 0" "wp_head ?n = []" "state ?n = NEMU_RUNNING"
      using g assms(2) by (simp_all add: smp_going_def install_def Let_def)
    then have "env_eq ?n m1" and "priv_level m1 = MACHINE \<and> pmp_on_count m1 = 0 \<and> wp_head m1 = [] \<and> state m1 = NEMU_RUNNING"
      using m1(6) by (simp_all add: pmp_check_def env_eq_def)
    then show ?thesis using g l by (auto simp: smp_going_def m'_def c_def nth_list_update)
  qed
  ultimately show ?thesis using e(2) r by (auto simp: smp_ready_def m'_def)
qed

lemma run_cores_ok:
  "smp_ready C m \<Longrightarrow> fetchable C \<Longrightarrow> smp_safe C (map fst sched) (smp_of m) \<Longrightarrow>
   \<exists>m'. run_cores sched m = Inr m' \<and> smp_ready C m' \<and> smp_of m' = fold hart_step (map fst sched) (smp_of m)"
proof (induction sched arbitrary: m)
  case (Cons x sched)
  obtain i stk where x: "x = (i, stk)" by (cases x)
  with Cons.prems obtain m1 where "core_cycle stk i m = Inr m1" "smp_ready C m1" "smp_of m1 = hart_step i (smp_of m)"
    using core_cycle_step [of C m i stk] by auto
  then show ?case using Cons.IH [of m1] Cons.prems x by auto
qed simp

text \<open>
  C36. The two cores in functional mode, their private caches and the shared second level behave as two ISA harts on one memory:
  in whatever order their cycles are run, the registers, program counters and memory are those of the instructions executed one
  after the other in this order.
\<close>

theorem cores_interleave:
  assumes "smp_ready C m" and "fetchable C" and "smp_safe C (map fst sched) (smp_of m)"
  shows "\<exists>m'. run_cores sched m = Inr m' \<and> smp_of m' = fold hart_step (map fst sched) (smp_of m)"
  using run_cores_ok [OF assms] by blast

end
