(* ===== verification/Expr.thy ===== *)
theory Expr
  imports Vmem
begin

text \<open>
  The expression evaluator of the debugger (\<^verbatim>\<open>src/monitor/expr.c\<close>). The POSIX expressions of the rule table are a small
  datatype; \<^verbatim>\<open>regexec\<close> with a match at offset 0 is the longest matching prefix. The token array is a list, the position of a
  missing operator is \<open>-1\<close> as in the code, and reading \<^verbatim>\<open>tokens[-1]\<close>, an overlong token, a shift by 64 or more, a literal that
  does not fit and an uninitialised result are error values.
\<close>

section \<open>Regular expressions\<close>

datatype rx = Empty | Eps | Chars "char \<Rightarrow> bool" | Seq rx rx | Alt rx rx | Many rx

primrec nullable :: "rx \<Rightarrow> bool" where
  "nullable Empty \<longleftrightarrow> False"
| "nullable Eps \<longleftrightarrow> True"
| "nullable (Chars p) \<longleftrightarrow> False"
| "nullable (Seq r s) \<longleftrightarrow> nullable r \<and> nullable s"
| "nullable (Alt r s) \<longleftrightarrow> nullable r \<or> nullable s"
| "nullable (Many r) \<longleftrightarrow> True"

text \<open>Sequence and alternative with the trivial cases removed.\<close>

fun seq :: "rx \<Rightarrow> rx \<Rightarrow> rx" where
  "seq Empty s = Empty"
| "seq Eps s = s"
| "seq r s = Seq r s"

fun alt :: "rx \<Rightarrow> rx \<Rightarrow> rx" where
  "alt Empty s = s"
| "alt r Empty = r"
| "alt r s = Alt r s"

primrec deriv :: "char \<Rightarrow> rx \<Rightarrow> rx" where
  "deriv c Empty = Empty"
| "deriv c Eps = Empty"
| "deriv c (Chars p) = (if p c then Eps else Empty)"
| "deriv c (Seq r s) = (if nullable r then alt (seq (deriv c r) s) (deriv c s) else seq (deriv c r) s)"
| "deriv c (Alt r s) = alt (deriv c r) (deriv c s)"
| "deriv c (Many r) = seq (deriv c r) (Many r)"

text \<open>\<open>longest r n best s\<close>: \<open>n\<close> characters have been read, \<open>best\<close> is the longest match so far.\<close>

fun longest :: "rx \<Rightarrow> nat \<Rightarrow> nat option \<Rightarrow> string \<Rightarrow> nat option" where
  "longest Empty n best s = best"
| "longest r n best [] = (if nullable r then Some n else best)"
| "longest r n best (c # s) = longest (deriv c r) (Suc n) (if nullable r then Some n else best) s"

definition regexec :: "rx \<Rightarrow> string \<Rightarrow> nat option" where
  "regexec r s = longest r 0 None s"

fun lit :: "string \<Rightarrow> rx" where
  "lit [] = Eps"
| "lit (c # s) = Seq (Chars (\<lambda>d. d = c)) (lit s)"

definition some_of :: "rx \<Rightarrow> rx" where
  "some_of r = Seq r (Many r)"

definition in_range :: "char \<Rightarrow> char \<Rightarrow> char \<Rightarrow> bool" where
  "in_range a b c \<longleftrightarrow> (of_char a :: int) \<le> of_char c \<and> (of_char c :: int) \<le> of_char b"

section \<open>Tables\<close>

datatype token_type =
    NOTYPE | EQ | NEQ | HEX | NUM | REG | SYMB | TK_LS | TK_RS | NG | NL | TK_AND | TK_OR | DEREF | Op char

record Token =
  tk_type :: token_type
  tk_str :: string

definition rules :: "(rx \<times> token_type) list" where
  "rules =
    [(some_of (lit '' ''), NOTYPE), (lit ''=='', EQ), (lit ''!='', NEQ),
     (Seq (lit ''0'') (Seq (Chars (\<lambda>c. c = CHR ''x'' \<or> c = CHR ''X''))
        (some_of (Chars (\<lambda>c. in_range (CHR ''0'') (CHR ''9'') c \<or> in_range (CHR ''a'') (CHR ''f'') c \<or> in_range (CHR ''A'') (CHR ''F'') c)))), HEX),
     (some_of (Chars (in_range (CHR ''0'') (CHR ''9''))), NUM),
     (Seq (lit ''t'') (Chars (in_range (CHR ''0'') (CHR ''6''))), REG),
     (Seq (lit ''s'') (Chars (in_range (CHR ''0'') (CHR ''1''))), REG),
     (Seq (lit ''a'') (Chars (in_range (CHR ''0'') (CHR ''7''))), REG),
     (Seq (lit ''s'') (Alt (Chars (in_range (CHR ''2'') (CHR ''9''))) (Alt (lit ''10'') (lit ''11''))), REG),
     (lit ''pc'', REG),
     (Alt (lit [CHR ''$'', CHR ''0'']) (Alt (lit ''ra'') (Alt (lit ''sp'') (Alt (lit ''gp'') (lit ''tp'')))), REG),
     (Seq (some_of (Chars (\<lambda>c. in_range (CHR ''a'') (CHR ''z'') c \<or> in_range (CHR ''A'') (CHR ''z'') c)))
        (Many (Chars (\<lambda>c. in_range (CHR ''a'') (CHR ''z'') c \<or> in_range (CHR ''A'') (CHR ''Z'') c \<or> in_range (CHR ''0'') (CHR ''9'') c))), SYMB),
     (lit ''<<'', TK_LS), (lit ''>>'', TK_RS), (lit ''<='', NG), (lit ''>='', NL), (lit ''&&'', TK_AND), (lit ''||'', TK_OR),
     (lit ''+'', Op CHR ''+''), (lit ''-'', Op CHR ''-''), (lit ''*'', Op CHR ''*''), (lit ''/'', Op CHR ''/''), (lit ''%'', Op CHR ''%''),
     (lit ''('', Op CHR ''(''), (lit '')'', Op CHR '')''), (lit ''>'', Op CHR ''>''), (lit ''<'', Op CHR ''<''), (lit ''&'', Op CHR ''&''),
     (lit ''^'', Op CHR ''^''), (lit ''|'', Op CHR ''|''), (lit ''!'', Op CHR ''!''), (lit ''~'', Op CHR ''~'')]"

definition prior_arr :: "(token_type \<times> int) list" where
  "prior_arr =
    [(Op CHR ''+'', 4), (Op CHR ''-'', 4), (EQ, 7), (NEQ, 7), (Op CHR ''*'', 3), (Op CHR ''/'', 3), (Op CHR ''%'', 3), (TK_LS, 5), (TK_RS, 5),
     (NG, 6), (NL, 6), (Op CHR ''<'', 6), (Op CHR ''>'', 6), (TK_AND, 11), (TK_OR, 12), (Op CHR ''&'', 8), (Op CHR ''^'', 9),
     (Op CHR ''|'', 10), (Op CHR ''!'', 2), (Op CHR ''~'', 2), (DEREF, 2)]"

section \<open>Tokens\<close>

text \<open>The first rule that matches at the position.\<close>

fun first_rule :: "(rx \<times> token_type) list \<Rightarrow> string \<Rightarrow> (nat \<times> token_type) option" where
  "first_rule [] s = None"
| "first_rule ((r, ty) # rs) s = (case regexec r s of Some n \<Rightarrow> Some (n, ty) | None \<Rightarrow> first_rule rs s)"

lemma longest_Some:
  "longest r n best s = Some k \<Longrightarrow> best = Some k \<or> n \<le> k \<and> (k = n \<longrightarrow> nullable r)"
  by (induction r n best s rule: longest.induct) (fastforce split: if_splits)+

lemma rules_consume: "list_all (\<lambda>(r, _). \<not> nullable r) rules"
  by (simp add: rules_def some_of_def)

lemma first_rule_pos:
  assumes "first_rule rules s = Some (n, ty)"
  shows "0 < n"
proof -
  have "list_all (\<lambda>(r, _). \<not> nullable r) rs \<Longrightarrow> first_rule rs s = Some (n, ty) \<Longrightarrow> 0 < n" for rs
    by (induction rs) (auto simp: regexec_def split: option.splits dest: longest_Some)
  then show ?thesis using assms rules_consume by blast
qed

text \<open>\<open>None\<close> when no rule matches; the \<^verbatim>\<open>while\<close> loop is over the rest of the string, every match takes at least one character.\<close>

function make_token :: "string \<Rightarrow> Token list \<Rightarrow> Token list option res" where
  "make_token e ts =
    (if e = [] then Inr (Some ts)
     else case first_rule rules e of
       None \<Rightarrow> Inr None
     | Some (n, ty) \<Rightarrow>
         if ty = NOTYPE then make_token (drop n e) ts
         else if length ts \<ge> 65536 then Inl Out_of_bounds
         else if ty \<in> {HEX, NUM, REG, SYMB} then
           if n \<ge> 64 then Inl Out_of_bounds
           else make_token (drop n e) (ts @ [\<lparr>tk_type = ty, tk_str = take n e\<rparr>])
         else make_token (drop n e) (ts @ [\<lparr>tk_type = ty, tk_str = []\<rparr>]))"
  by pat_completeness auto
termination by (relation "measure (\<lambda>(e, _). length e)") (auto dest: first_rule_pos)

definition find_prior :: "token_type \<Rightarrow> int" where
  "find_prior ty = (case map_of prior_arr ty of Some p \<Rightarrow> p | None \<Rightarrow> -1)"

section \<open>Evaluation\<close>

definition type_at :: "Token list \<Rightarrow> int \<Rightarrow> token_type" where
  "type_at ts i = tk_type (ts ! nat i)"

abbreviation (input) LP :: token_type where "LP \<equiv> Op CHR ''(''"
abbreviation (input) RP :: token_type where "RP \<equiv> Op CHR '')''"

text \<open>The scan from \<open>i\<close> down to \<open>p + 1\<close>.\<close>

function paren_scan :: "Token list \<Rightarrow> int \<Rightarrow> int \<Rightarrow> int \<Rightarrow> int" where
  "paren_scan ts p i match =
    (if i < p + 1 then match
     else paren_scan ts p (i - 1)
       (if type_at ts i = RP then match + 1 else if type_at ts i = LP \<and> match > 0 then match - 1 else match))"
  by pat_completeness auto
termination by (relation "measure (\<lambda>(_, p, i, _). nat (i - p))") auto

definition check_parentheses :: "Token list \<Rightarrow> int \<Rightarrow> int \<Rightarrow> bool" where
  "check_parentheses ts p q \<longleftrightarrow>
     (let match = (if type_at ts p = LP \<and> type_at ts q = RP then paren_scan ts p (q - 1) 0 else 0)
      in match = 0 \<and> type_at ts p = LP \<and> type_at ts q = RP)"

text \<open>The parenthesis that opens the one at \<open>i\<close>, searched from \<open>j\<close> down; \<open>i\<close> when there is none.\<close>

function skip_paren :: "Token list \<Rightarrow> int \<Rightarrow> int \<Rightarrow> int \<Rightarrow> int \<Rightarrow> int" where
  "skip_paren ts p i j colon_match =
    (if j < p then i
     else if type_at ts j = RP then skip_paren ts p i (j - 1) (colon_match + 1)
     else if type_at ts j = LP then
       if colon_match - 1 = 0 then j else skip_paren ts p i (j - 1) (colon_match - 1)
     else skip_paren ts p i (j - 1) colon_match)"
  by pat_completeness auto
termination by (relation "measure (\<lambda>(_, p, _, j, _). nat (j - p + 1))") auto

lemma skip_paren_le: "j < i \<Longrightarrow> skip_paren ts p i j n \<le> i"
proof (induction ts p i j n rule: skip_paren.induct)
  case (1 ts p i j n)
  then show ?case by (subst skip_paren.simps) (simp split: if_splits)
qed

declare skip_paren.simps [simp del]

text \<open>The rightmost operator of the given priority between \<open>p\<close> and \<open>i\<close>, outside parentheses.\<close>

function find_op_at :: "Token list \<Rightarrow> int \<Rightarrow> int \<Rightarrow> int \<Rightarrow> int option" where
  "find_op_at ts p i prior =
    (if i < p then None
     else if type_at ts i = RP then find_op_at ts p (skip_paren ts p i (i - 1) 1 - 1) prior
     else if prior = find_prior (type_at ts i) then Some i
     else find_op_at ts p (i - 1) prior)"
  by pat_completeness auto
termination
proof (relation "measure (\<lambda>(_, p, i, _). nat (i - p + 1))", goal_cases)
  case (2 ts p i prior)
  then show ?case using skip_paren_le [of "i - 1" i ts p 1] by simp
qed auto

fun find_op :: "Token list \<Rightarrow> int \<Rightarrow> int \<Rightarrow> nat \<Rightarrow> int" where
  "find_op ts p q 0 = -1"
| "find_op ts p q (Suc prior) = (case find_op_at ts p q (int (Suc prior)) of Some i \<Rightarrow> i | None \<Rightarrow> find_op ts p q prior)"

text \<open>The value of a digit string, and the conversions \<^verbatim>\<open>%lu\<close> and \<^verbatim>\<open>0x%lx\<close> of \<^verbatim>\<open>sscanf\<close>.\<close>

definition digit_val :: "char \<Rightarrow> int" where
  "digit_val c = (if in_range (CHR ''0'') (CHR ''9'') c then of_char c - 48
                  else if in_range (CHR ''a'') (CHR ''f'') c then of_char c - 87 else of_char c - 55)"

definition digits_val :: "int \<Rightarrow> string \<Rightarrow> int" where
  "digits_val b s = foldl (\<lambda>n c. b * n + digit_val c) 0 s"

definition scan_number :: "int \<Rightarrow> string \<Rightarrow> word_t res" where
  "scan_number b s =
     bind_res (guard (digits_val b s < 0x10000000000000000) Indeterminate_value) (\<lambda>_. Inr (word_of_int (digits_val b s)))"

definition scan_hex :: "string \<Rightarrow> word_t res" where
  "scan_hex s = (if take 2 s = ''0x'' then scan_number 16 (drop 2 s) else Inl Indeterminate_value)"

definition apply_op :: "token_type \<Rightarrow> word_t \<Rightarrow> word_t \<Rightarrow> machine \<Rightarrow> (word_t \<times> machine) res" where
  "apply_op ty val1 val2 m =
    (case ty of
       TK_LS \<Rightarrow> bind_res (guard (val2 < 64) Shift_undefined) (\<lambda>_. Inr (push_bit (unat val2) val1, m))
     | TK_RS \<Rightarrow> bind_res (guard (val2 < 64) Shift_undefined) (\<lambda>_. Inr (drop_bit (unat val2) val1, m))
     | NG \<Rightarrow> Inr (of_bool (val1 \<le> val2), m)
     | NL \<Rightarrow> Inr (of_bool (val1 \<ge> val2), m)
     | EQ \<Rightarrow> Inr (of_bool (val1 = val2), m)
     | NEQ \<Rightarrow> Inr (of_bool (val1 \<noteq> val2), m)
     | TK_AND \<Rightarrow> Inr (of_bool (val1 \<noteq> 0 \<and> val2 \<noteq> 0), m)
     | TK_OR \<Rightarrow> Inr (of_bool (val1 \<noteq> 0 \<or> val2 \<noteq> 0), m)
     | DEREF \<Rightarrow> vaddr_read val2 8 m
     | Op c \<Rightarrow>
         if c = CHR ''+'' then Inr (val1 + val2, m)
         else if c = CHR ''-'' then Inr (val1 - val2, m)
         else if c = CHR ''*'' then Inr (val1 * val2, m)
         else if c = CHR ''/'' then Inr (val1 div val2, m)
         else if c = CHR ''%'' then Inr (val1 mod val2, m)
         else if c = CHR ''&'' then Inr (val1 AND val2, m)
         else if c = CHR ''^'' then Inr (val1 XOR val2, m)
         else if c = CHR ''|'' then Inr (val1 OR val2, m)
         else if c = CHR ''~'' then Inr (NOT val2, m)
         else if c = CHR ''!'' then Inr (of_bool (val2 = 0), m)
         else if c = CHR ''<'' then Inr (of_bool (val1 < val2), m)
         else if c = CHR ''>'' then Inr (of_bool (val1 > val2), m)
         else Inl Assertion_failed
     | _ \<Rightarrow> Inl Assertion_failed)"

text \<open>A single token.\<close>

definition eval_leaf :: "Token \<Rightarrow> machine \<Rightarrow> (word_t \<times> bool \<times> machine) res" where
  "eval_leaf t m =
    (case tk_type t of
       NUM \<Rightarrow> bind_res (scan_number 10 (tk_str t)) (\<lambda>v. Inr (v, True, m))
     | REG \<Rightarrow> (let (v, ok) = reg_str2val (tk_str t) m in Inr (v, ok, m))
     | HEX \<Rightarrow> bind_res (scan_hex (tk_str t)) (\<lambda>v. Inr (v, True, m))
     | _ \<Rightarrow> Inr (0, True, m))"

function eval :: "Token list \<Rightarrow> int \<Rightarrow> int \<Rightarrow> bool \<Rightarrow> nat \<Rightarrow> machine \<Rightarrow> (word_t \<times> bool \<times> machine) res" where
  "eval ts p q success depth m =
    (if \<not> success \<or> depth > 35 then Inr (-1, False, m)
     else if p > q then Inr (0, True, m)
     else if p = q then eval_leaf (ts ! nat p) m
     else if check_parentheses ts p q then eval ts (p + 1) (q - 1) success (depth + 1) m
     else
       let op = find_op ts p q 15 in
       bind_res (eval ts p (op - 1) success (depth + 1) m) (\<lambda>(val1, success, m).
       bind_res (eval ts (op + 1) q success (depth + 1) m) (\<lambda>(val2, success, m).
       bind_res (guard (0 \<le> op) Out_of_bounds) (\<lambda>_.
       if val2 = 0 \<and> type_at ts op \<in> {Op CHR ''/'', Op CHR ''%''} then Inr (-1, False, m)
       else bind_res (apply_op (type_at ts op) val1 val2 m) (\<lambda>(v, m). Inr (v, success, m))))))"
  by pat_completeness auto
termination by (relation "measure (\<lambda>(_, _, _, _, depth, _). 36 - depth)") auto

definition operator_judge :: "token_type \<Rightarrow> bool" where
  "operator_judge ty \<longleftrightarrow> ty \<in> {EQ, NEQ, TK_LS, TK_RS, NG, NL, TK_AND, TK_OR} \<or> (\<exists>c\<in>set ''+-*/%<>&^|!~''. ty = Op c)"

text \<open>The loop that marks the dereferences; \<open>prev\<close> is the type of the token before, as the loop left it.\<close>

fun mark_deref :: "token_type option \<Rightarrow> Token list \<Rightarrow> Token list" where
  "mark_deref prev [] = []"
| "mark_deref prev (t # ts) =
    (let ty = (if tk_type t = Op CHR ''*'' \<and> (case prev of None \<Rightarrow> True | Some ty \<Rightarrow> operator_judge ty) then DEREF else tk_type t)
     in t\<lparr>tk_type := ty\<rparr> # mark_deref (Some ty) ts)"

definition expr :: "string \<Rightarrow> machine \<Rightarrow> (word_t \<times> bool \<times> machine) res" where
  "expr e m =
     bind_res (make_token e []) (\<lambda>r.
     case r of
       None \<Rightarrow> Inr (0, False, m)
     | Some ts \<Rightarrow> eval (mark_deref None ts) 0 (int (length ts) - 1) True 0 m)"

declare make_token.simps [simp del] paren_scan.simps [simp del] find_op_at.simps [simp del] eval.simps [simp del]

end
