(* ===== verification/Expr_Refine.thy ===== *)
theory Expr_Refine
  imports Expr
begin

text \<open>
  What the evaluator computes: expression trees with a compositional value, their tokens with parentheses only where the
  priorities need them, and the proof that \<^verbatim>\<open>eval\<close> parses those tokens back and returns the value. Two inputs on which it
  does not: stacked unary operators and tokens with no operator between them.
\<close>

section \<open>Reference semantics\<close>

datatype ast = Leaf Token | Unary token_type ast | Binary token_type ast ast

definition unary_ops :: "token_type set" where
  "unary_ops = {Op CHR ''!'', Op CHR ''~'', DEREF}"

definition binary_ops :: "token_type set" where
  "binary_ops = {EQ, NEQ, TK_LS, TK_RS, NG, NL, TK_AND, TK_OR, Op CHR ''+'', Op CHR ''-'', Op CHR ''*'', Op CHR ''/'', Op CHR ''%'',
     Op CHR ''<'', Op CHR ''>'', Op CHR ''&'', Op CHR ''^'', Op CHR ''|''}"

fun wf_ast :: "ast \<Rightarrow> bool" where
  "wf_ast (Leaf t) \<longleftrightarrow> tk_type t \<in> {NUM, HEX, REG}"
| "wf_ast (Unary u a) \<longleftrightarrow> u \<in> unary_ops \<and> wf_ast a"
| "wf_ast (Binary b x y) \<longleftrightarrow> b \<in> binary_ops \<and> wf_ast x \<and> wf_ast y"

fun level :: "ast \<Rightarrow> int" where
  "level (Leaf t) = 0"
| "level (Unary u a) = 2"
| "level (Binary b x y) = find_prior b"

definition tok :: "token_type \<Rightarrow> Token" where
  "tok ty = \<lparr>tk_type = ty, tk_str = []\<rparr>"

definition wrap :: "bool \<Rightarrow> Token list \<Rightarrow> Token list" where
  "wrap b w = (if b then tok LP # w @ [tok RP] else w)"

text \<open>The tokens of a tree, with parentheses only where priorities and left associativity need them.\<close>

fun toks :: "ast \<Rightarrow> Token list" where
  "toks (Leaf t) = [t]"
| "toks (Unary u a) = tok u # wrap (level a > 0) (toks a)"
| "toks (Binary b x y) = wrap (level x > find_prior b) (toks x) @ tok b # wrap (level y \<ge> find_prior b) (toks y)"

text \<open>Nesting as \<open>eval\<close> counts it.\<close>

fun depth_of :: "ast \<Rightarrow> nat" where
  "depth_of (Leaf t) = 0"
| "depth_of (Unary u a) = Suc (of_bool (level a > 0) + depth_of a)"
| "depth_of (Binary b x y) = Suc (max (of_bool (level x > find_prior b) + depth_of x) (of_bool (level y \<ge> find_prior b) + depth_of y))"

definition combine :: "token_type \<Rightarrow> word_t \<Rightarrow> word_t \<times> bool \<times> machine \<Rightarrow> (word_t \<times> bool \<times> machine) res" where
  "combine op val1 = (\<lambda>(val2, ok, m).
     if val2 = 0 \<and> op \<in> {Op CHR ''/'', Op CHR ''%''} then Inr (-1, False, m)
     else bind_res (apply_op op val1 val2 m) (\<lambda>(v, m). Inr (v, ok, m)))"

fun aval :: "ast \<Rightarrow> machine \<Rightarrow> (word_t \<times> bool \<times> machine) res" where
  "aval (Leaf t) m = eval_leaf t m"
| "aval (Unary u a) m = bind_res (aval a m) (combine u 0)"
| "aval (Binary b x y) m =
     bind_res (aval x m) (\<lambda>(v, ok, m). bind_res (if ok then aval y m else Inr (-1, False, m)) (combine b v))"

section \<open>Balanced token lists\<close>

fun net :: "Token list \<Rightarrow> int" where
  "net [] = 0"
| "net (t # ts) = (if tk_type t = RP then 1 else if tk_type t = LP then -1 else 0) + net ts"

text \<open>Read from the right with \<open>k\<close> parentheses to open, a list never opens more; balanced lists are moreover even.\<close>

fun suffix_ok :: "int \<Rightarrow> Token list \<Rightarrow> bool" where
  "suffix_ok k [] \<longleftrightarrow> k \<ge> 0"
| "suffix_ok k (t # ts) \<longleftrightarrow> k + net (t # ts) \<ge> 0 \<and> suffix_ok k ts"

definition balanced :: "Token list \<Rightarrow> bool" where
  "balanced w \<longleftrightarrow> net w = 0 \<and> suffix_ok 0 w"

lemma suffix_ok_base: "suffix_ok k w \<Longrightarrow> 0 \<le> k + net w"
  by (cases w) auto

lemma net_append [simp]: "net (v @ w) = net v + net w"
  by (induction v) auto

lemma suffix_ok_append [simp]: "suffix_ok k (v @ w) \<longleftrightarrow> suffix_ok (k + net w) v \<and> suffix_ok k w"
  by (induction v) (auto simp: algebra_simps suffix_ok_base)

lemma suffix_ok_mono: "suffix_ok k w \<Longrightarrow> k \<le> l \<Longrightarrow> suffix_ok l w"
  by (induction w) auto

lemma balanced_append [intro]: "balanced v \<Longrightarrow> balanced w \<Longrightarrow> balanced (v @ w)"
  by (simp add: balanced_def)

lemma balanced_single [simp]: "tk_type t \<noteq> LP \<Longrightarrow> tk_type t \<noteq> RP \<Longrightarrow> balanced (t # w) = balanced w"
  by (auto simp: balanced_def)

lemma tok_type [simp]: "tk_type (tok ty) = ty" by (simp add: tok_def)

lemma balanced_paren: "balanced w \<Longrightarrow> balanced (tok LP # w @ [tok RP])"
  using suffix_ok_mono [of 0 w 1] by (simp add: balanced_def)

lemma balanced_wrap [intro]: "balanced w \<Longrightarrow> balanced (wrap b w)"
  by (simp add: wrap_def balanced_paren)

lemma ops_not_paren:
  "b \<in> binary_ops \<Longrightarrow> b \<noteq> LP \<and> b \<noteq> RP" "u \<in> unary_ops \<Longrightarrow> u \<noteq> LP \<and> u \<noteq> RP"
  by (auto simp: binary_ops_def unary_ops_def)

lemma balanced_toks: "wf_ast a \<Longrightarrow> balanced (toks a)"
proof (induction a)
  case (Leaf t)
  then show ?case by (auto simp: balanced_def)
next
  case (Unary u a)
  then show ?case using ops_not_paren by auto
next
  case (Binary b x y)
  then have "balanced (tok b # wrap (level y \<ge> find_prior b) (toks y))" using ops_not_paren by auto
  then show ?case using Binary by auto
qed

lemma toks_ne [simp]: "toks a \<noteq> []" by (cases a) auto

lemma wrap_ne [simp]: "w \<noteq> [] \<Longrightarrow> wrap b w \<noteq> []" by (simp add: wrap_def)

section \<open>The scans over a segment\<close>

text \<open>Scans run over \<open>pre @ w @ post\<close>; \<open>last_of pre w\<close> is the position of the last token of \<open>w\<close>.\<close>

definition last_of :: "Token list \<Rightarrow> Token list \<Rightarrow> int" where
  "last_of pre w = int (length pre + length w) - 1"

lemma last_of_snoc: "last_of pre (w @ [t]) - 1 = last_of pre w"
  by (simp add: last_of_def)

lemma last_of_append: "last_of pre (v @ w) = last_of (pre @ v) w"
  by (simp add: last_of_def)

lemma type_last [simp]: "type_at (pre @ w @ t # post) (last_of pre (w @ [t])) = tk_type t"
proof -
  have "nat (last_of pre (w @ [t])) = length (pre @ w)" by (simp add: last_of_def nat_int_add)
  then show ?thesis unfolding type_at_def append_assoc [symmetric] by (simp only: nth_append_length)
qed

lemma scan_segment:
  "p + 1 \<le> int (length pre) \<Longrightarrow> suffix_ok k w \<Longrightarrow>
   paren_scan (pre @ w @ post) p (last_of pre w) k = paren_scan (pre @ w @ post) p (int (length pre) - 1) (k + net w)"
proof (induction w arbitrary: post k rule: rev_induct)
  case (snoc t w)
  let ?k = "k + net [t]"
  have k: "0 \<le> k" "suffix_ok ?k w" "0 \<le> ?k" using snoc.prems(2) suffix_ok_base by auto
  have "p + 1 \<le> last_of pre (w @ [t])" using snoc.prems(1) by (simp add: last_of_def)
  then have "paren_scan (pre @ w @ t # post) p (last_of pre (w @ [t])) k = paren_scan (pre @ w @ t # post) p (last_of pre w) ?k"
    using k by (subst paren_scan.simps) (auto simp: last_of_snoc split: if_splits)
  then show ?case using snoc.IH [OF snoc.prems(1) k(2), of "t # post"] by (simp add: algebra_simps)
qed (simp add: last_of_def)

lemma skip_segment:
  "p \<le> int (length pre) \<Longrightarrow> suffix_ok (n - 1) w \<Longrightarrow>
   skip_paren (pre @ w @ post) p i (last_of pre w) n = skip_paren (pre @ w @ post) p i (int (length pre) - 1) (n + net w)"
proof (induction w arbitrary: post n rule: rev_induct)
  case (snoc t w)
  let ?n = "n + net [t]"
  have n: "suffix_ok (?n - 1) w" "1 \<le> n" "1 \<le> ?n"
    using snoc.prems(2) suffix_ok_base [of "n - 1" "[t]"] by (auto simp: algebra_simps)
  have "\<not> last_of pre (w @ [t]) < p" using snoc.prems(1) by (simp add: last_of_def)
  then have "skip_paren (pre @ w @ t # post) p i (last_of pre (w @ [t])) n = skip_paren (pre @ w @ t # post) p i (last_of pre w) ?n"
    using n(3) by (subst skip_paren.simps) (auto simp: last_of_snoc split: if_splits)
  then show ?case using snoc.IH [OF snoc.prems(1) n(1), of "t # post"] by (simp add: algebra_simps)
qed (simp add: last_of_def)

lemma find_paren:
  assumes "balanced w" and "p \<le> int (length pre)"
  shows "find_op_at (pre @ (tok LP # w @ [tok RP]) @ post) p (last_of pre (tok LP # w @ [tok RP])) prior =
    find_op_at (pre @ (tok LP # w @ [tok RP]) @ post) p (int (length pre) - 1) prior"
proof -
  let ?v = "tok LP # w" and ?ts = "pre @ (tok LP # w @ [tok RP]) @ post"
  let ?i = "last_of pre (?v @ [tok RP])"
  have i: "\<not> ?i < p" "type_at ?ts ?i = RP" using assms(2) type_last [of pre ?v "tok RP" post] by (simp_all add: last_of_def)
  have "skip_paren ?ts p ?i (?i - 1) 1 = skip_paren ?ts p ?i (int (length pre)) 1"
    using skip_segment [of p "pre @ [tok LP]" 1 w "tok RP # post" ?i] assms
    by (simp add: balanced_def last_of_def)
  also have "\<dots> = int (length pre)"
    using assms(2) by (subst skip_paren.simps) (simp add: type_at_def nth_append)
  finally have s: "skip_paren ?ts p ?i (?i - 1) 1 = int (length pre)" .
  have "find_op_at ?ts p ?i prior = find_op_at ?ts p (skip_paren ?ts p ?i (?i - 1) 1 - 1) prior"
    using i by (subst find_op_at.simps) (simp del: append_assoc append_Cons append_Nil)
  then show ?thesis using s by simp
qed

lemma find_other:
  assumes "p \<le> int (length pre)" and "tk_type t \<noteq> RP" and "find_prior (tk_type t) \<noteq> prior"
  shows "find_op_at (pre @ t # post) p (int (length pre)) prior = find_op_at (pre @ t # post) p (int (length pre) - 1) prior"
  using assms by (subst find_op_at.simps) (simp add: type_at_def nth_append)

lemma find_wrap:
  assumes "balanced w" and "p \<le> int (length pre)"
    and "\<not> b \<Longrightarrow> find_op_at (pre @ w @ post) p (last_of pre w) prior = find_op_at (pre @ w @ post) p (int (length pre) - 1) prior"
  shows "find_op_at (pre @ wrap b w @ post) p (last_of pre (wrap b w)) prior = find_op_at (pre @ wrap b w @ post) p (int (length pre) - 1) prior"
  using find_paren [OF assms(1,2)] assms(3) by (cases b) (simp_all add: wrap_def)

lemma prior_of:
  "b \<in> binary_ops \<Longrightarrow> 3 \<le> find_prior b \<and> find_prior b \<le> 12" "u \<in> unary_ops \<Longrightarrow> find_prior u = 2"
  "ty \<in> {NUM, HEX, REG} \<Longrightarrow> find_prior ty = -1"
  by (auto simp: binary_ops_def unary_ops_def find_prior_def prior_arr_def)

text \<open>No operator of a priority above the tree's own is found in its tokens.\<close>

lemma find_pass:
  "wf_ast a \<Longrightarrow> p \<le> int (length pre) \<Longrightarrow> 1 \<le> prior \<Longrightarrow> level a < prior \<Longrightarrow>
   find_op_at (pre @ toks a @ post) p (last_of pre (toks a)) prior = find_op_at (pre @ toks a @ post) p (int (length pre) - 1) prior"
proof (induction a arbitrary: pre post)
  case (Leaf t)
  then have "tk_type t \<noteq> RP" "find_prior (tk_type t) \<noteq> prior" using prior_of(3) by auto
  then show ?case using find_other [of p pre t prior post] Leaf.prems by (simp add: last_of_def)
next
  case (Unary u a)
  let ?w = "wrap (level a > 0) (toks a)"
  have u: "u \<noteq> RP" "find_prior u \<noteq> prior" using Unary.prems prior_of(2) ops_not_paren by auto
  have "find_op_at ((pre @ [tok u]) @ ?w @ post) p (last_of (pre @ [tok u]) ?w) prior =
      find_op_at ((pre @ [tok u]) @ ?w @ post) p (int (length (pre @ [tok u])) - 1) prior"
    using Unary.prems balanced_toks by (intro find_wrap Unary.IH) auto
  then show ?case
    using find_other [of p pre "tok u" prior "?w @ post"] Unary.prems u by (simp add: last_of_def)
next
  case (Binary b x y)
  let ?v = "wrap (level x > find_prior b) (toks x)" and ?w = "wrap (level y \<ge> find_prior b) (toks y)"
  have b: "b \<noteq> RP" "find_prior b \<noteq> prior" using Binary.prems ops_not_paren by auto
  have "find_op_at ((pre @ ?v @ [tok b]) @ ?w @ post) p (last_of (pre @ ?v @ [tok b]) ?w) prior =
      find_op_at ((pre @ ?v @ [tok b]) @ ?w @ post) p (int (length (pre @ ?v @ [tok b])) - 1) prior"
    using Binary.prems balanced_toks by (intro find_wrap Binary.IH) auto
  moreover have "find_op_at (pre @ ?v @ tok b # ?w @ post) p (last_of pre ?v) prior =
      find_op_at (pre @ ?v @ tok b # ?w @ post) p (int (length pre) - 1) prior"
    using Binary.prems balanced_toks by (intro find_wrap Binary.IH) auto
  ultimately show ?case
    using find_other [of p "pre @ ?v" "tok b" prior "?w @ post"] Binary.prems b by (simp add: last_of_def add.assoc)
qed

section \<open>Evaluation of the tokens of a tree\<close>

lemma find_op_none: "(\<And>k. 0 < k \<Longrightarrow> k \<le> n \<Longrightarrow> lo < k \<Longrightarrow> find_op_at ts p q (int k) = None) \<Longrightarrow> lo \<le> n \<Longrightarrow> find_op ts p q n = find_op ts p q lo"
proof (induction n)
  case (Suc n)
  show ?case
  proof (cases "lo = Suc n")
    case False
    then have "find_op_at ts p q (int (Suc n)) = None" using Suc.prems by (intro Suc.prems(1)) auto
    then have "find_op ts p q (Suc n) = find_op ts p q n" by simp
    also have "\<dots> = find_op ts p q lo" using Suc False by simp
    finally show ?thesis .
  qed simp
qed simp

lemma find_op_is:
  assumes "find_op_at ts p q (int lo) = Some i" and "0 < lo" and "lo \<le> 15"
    and "\<And>k. lo < k \<Longrightarrow> find_op_at ts p q (int k) = None"
  shows "find_op ts p q 15 = i"
proof -
  have "find_op ts p q 15 = find_op ts p q lo" using find_op_none [of 15 lo ts p q] assms(3,4) by blast
  then show ?thesis using assms(1,2) by (cases lo) auto
qed

lemma find_op_at_end: "find_op_at ts p (p - 1) prior = None"
  by (subst find_op_at.simps) simp

lemma find_op_unary:
  assumes "wf_ast (Unary u a)"
  shows "find_op (pre @ toks (Unary u a) @ post) (int (length pre)) (last_of pre (toks (Unary u a))) 15 = int (length pre)"
proof -
  let ?w = "wrap (level a > 0) (toks a)" and ?p = "int (length pre)"
  have w: "find_op_at (pre @ toks (Unary u a) @ post) ?p (last_of pre (toks (Unary u a))) k = find_op_at (pre @ toks (Unary u a) @ post) ?p ?p k"
    if "1 \<le> k" for k
    using find_wrap [of "toks a" ?p "pre @ [tok u]" "level a > 0" post k] find_pass [of a ?p "pre @ [tok u]" k post] assms balanced_toks [of a] that
    by (simp add: last_of_def)
  have u: "u \<noteq> RP" "find_prior u = 2" using assms prior_of(2) ops_not_paren by auto
  then have at: "find_op_at (pre @ tok u # ?w @ post) ?p ?p 2 = Some ?p"
    by (subst find_op_at.simps) (simp add: type_at_def nth_append)
  show ?thesis
    by (rule find_op_is [of _ _ _ 2]) (use w at u find_other [of ?p pre "tok u" _ "?w @ post"] find_op_at_end in auto)
qed

lemma find_op_binary:
  assumes "wf_ast (Binary b x y)"
  shows "find_op (pre @ toks (Binary b x y) @ post) (int (length pre)) (last_of pre (toks (Binary b x y))) 15 =
    int (length pre + length (wrap (level x > find_prior b) (toks x)))"
proof -
  let ?v = "wrap (level x > find_prior b) (toks x)" and ?w = "wrap (level y \<ge> find_prior b) (toks y)" and ?p = "int (length pre)"
  let ?ts = "pre @ toks (Binary b x y) @ post" and ?q = "last_of pre (toks (Binary b x y))" and ?i = "int (length (pre @ ?v))"
  note wf = assms [simplified] and bal = balanced_toks
  have b: "b \<noteq> RP" "3 \<le> find_prior b" "find_prior b \<le> 12" using wf prior_of(1) ops_not_paren by auto
  have w: "find_op_at ?ts ?p ?q k = find_op_at ?ts ?p ?i k" if "find_prior b \<le> k" for k
    using find_wrap [of "toks y" ?p "pre @ ?v @ [tok b]" "level y \<ge> find_prior b" post k]
      find_pass [of y ?p "pre @ ?v @ [tok b]" k post] wf bal [of y] that b by (simp add: last_of_def add.assoc)
  have "find_op_at ?ts ?p ?i (find_prior b) = Some ?i"
    using b by (subst find_op_at.simps) (simp add: type_at_def nth_append flip: of_nat_add)
  moreover have "find_op_at ?ts ?p ?q k = None" if k: "find_prior b < k" for k
  proof -
    have "find_op_at ?ts ?p (last_of pre ?v) k = find_op_at ?ts ?p (?p - 1) k"
      using find_wrap [of "toks x" ?p pre "level x > find_prior b" "tok b # ?w @ post" k]
        find_pass [of x ?p pre k "tok b # ?w @ post"] wf bal [of x] k b by simp
    then show ?thesis
      using w [of k] k b find_other [of ?p "pre @ ?v" "tok b" k "?w @ post"] find_op_at_end [of ?ts ?p k] by (simp add: last_of_def)
  qed
  ultimately show ?thesis
    using w b by (intro find_op_is [of _ _ _ "nat (find_prior b)"]) auto
qed

lemma scan_any:
  "p + 1 \<le> int (length pre) \<Longrightarrow> 0 \<le> k \<Longrightarrow>
   \<exists>l\<ge>0. paren_scan (pre @ w @ post) p (last_of pre w) k = paren_scan (pre @ w @ post) p (int (length pre) - 1) l"
proof (induction w arbitrary: post k rule: rev_induct)
  case (snoc t w)
  let ?k = "if tk_type t = RP then k + 1 else if tk_type t = LP \<and> k > 0 then k - 1 else k"
  have "p + 1 \<le> last_of pre (w @ [t])" using snoc.prems(1) by (simp add: last_of_def)
  then have "paren_scan (pre @ w @ t # post) p (last_of pre (w @ [t])) k = paren_scan (pre @ w @ t # post) p (last_of pre w) ?k"
    by (subst paren_scan.simps) (simp add: last_of_snoc)
  then show ?case using snoc.IH [of ?k "t # post"] snoc.prems by simp
qed (auto simp: last_of_def)

lemma scan_end: "paren_scan ts p p k = k"
  by (subst paren_scan.simps) simp

lemma check_wrapped:
  assumes "balanced w"
  shows "check_parentheses (pre @ (tok LP # w @ [tok RP]) @ post) (int (length pre)) (last_of pre (tok LP # w @ [tok RP]))"
proof -
  have "paren_scan ((pre @ [tok LP]) @ w @ tok RP # post) (int (length pre)) (last_of (pre @ [tok LP]) w) 0 = 0"
    using scan_segment [of "int (length pre)" "pre @ [tok LP]" 0 w "tok RP # post"] scan_end assms by (simp add: balanced_def)
  then show ?thesis
    using type_last [of pre "tok LP # w" "tok RP" post]
    by (simp add: check_parentheses_def type_at_def nth_append last_of_def Let_def)
qed

lemma check_binary:
  assumes "balanced v" and "v \<noteq> []" and "w \<noteq> []"
  shows "\<not> check_parentheses (pre @ (v @ t # w) @ post) (int (length pre)) (last_of pre (v @ t # w))"
proof
  let ?ts = "pre @ (v @ t # w) @ post"
  assume c: "check_parentheses ?ts (int (length pre)) (last_of pre (v @ t # w))"
  obtain u where v: "v = hd v # u" using assms(2) by (cases v) auto
  obtain w' where w: "w = w' @ [last w]" using assms(3) by (metis append_butlast_last_id)
  have ts: "?ts = (pre @ [hd v]) @ (u @ t # w') @ last w # post" by (subst v, subst w) simp
  have "type_at ?ts (int (length pre)) = tk_type (hd v)" by (subst v) (simp add: type_at_def nth_append)
  then have "tk_type (hd v) = LP" using c by (auto simp: check_parentheses_def Let_def)
  then have "net u = 1" "suffix_ok 0 u" using assms(1) by (subst (asm) v, simp add: balanced_def)+
  have "last_of pre (v @ t # w) - 1 = last_of (pre @ [hd v]) (u @ t # w')" by (subst v, subst w) (simp add: last_of_def)
  then have "paren_scan ?ts (int (length pre)) (last_of (pre @ [hd v]) (u @ t # w')) 0 = 0"
    using c by (simp add: check_parentheses_def Let_def split: if_splits)
  moreover obtain l where "l \<ge> 0" "paren_scan ?ts (int (length pre)) (last_of (pre @ [hd v] @ u) (t # w')) 0 =
      paren_scan ?ts (int (length pre)) (int (length (pre @ [hd v] @ u)) - 1) l"
    using scan_any [of "int (length pre)" "pre @ [hd v] @ u" 0 "t # w'" "last w # post"] unfolding ts by auto
  moreover have "paren_scan ?ts (int (length pre)) (last_of (pre @ [hd v]) u) l = l + 1"
    using scan_segment [of "int (length pre)" "pre @ [hd v]" l u "(t # w') @ last w # post"] scan_end
      suffix_ok_mono [OF \<open>suffix_ok 0 u\<close> \<open>l \<ge> 0\<close>] \<open>net u = 1\<close> unfolding ts by simp
  ultimately show False by (simp add: last_of_def)
qed

lemma eval_split:
  assumes "p < q" and "d \<le> 35" and "\<not> check_parentheses ts p q" and "find_op ts p q 15 = i" and "0 \<le> i"
  shows "eval ts p q True d m = bind_res (eval ts p (i - 1) True (Suc d) m) (\<lambda>(v, ok, m).
      bind_res (eval ts (i + 1) q ok (Suc d) m) (combine (type_at ts i) v))"
  using assms by (subst eval.simps) (simp add: Let_def guard_def combine_def)

lemma length_mark [simp]: "length (mark_deref prev ts) = length ts"
  by (induction prev ts rule: mark_deref.induct) (simp_all add: Let_def)

lemma eval_wrap:
  assumes "balanced w" and "w \<noteq> []" and "d + of_bool b \<le> 35"
    and "\<And>pre post. eval (pre @ w @ post) (int (length pre)) (last_of pre w) True (d + of_bool b) m = r"
  shows "eval (pre @ wrap b w @ post) (int (length pre)) (last_of pre (wrap b w)) True d m = r"
proof (cases b)
  case True
  have "int (length pre) < last_of pre (tok LP # w @ [tok RP])" using assms(2) by (simp add: last_of_def)
  then have "eval (pre @ wrap b w @ post) (int (length pre)) (last_of pre (wrap b w)) True d m =
      eval (pre @ wrap b w @ post) (int (length pre) + 1) (last_of pre (wrap b w) - 1) True (d + 1) m"
    using True check_wrapped [OF assms(1), of pre post] assms(3) by (subst eval.simps) (simp add: wrap_def)
  then show ?thesis using assms(4) [of "pre @ [tok LP]" "tok RP # post"] True by (simp add: wrap_def last_of_def algebra_simps)
qed (use assms in \<open>simp add: wrap_def\<close>)

lemma eval_toks:
  "wf_ast a \<Longrightarrow> d + depth_of a \<le> 35 \<Longrightarrow> eval (pre @ toks a @ post) (int (length pre)) (last_of pre (toks a)) True d m = aval a m"
proof (induction a arbitrary: pre post d m)
  case (Leaf t)
  then show ?case by (subst eval.simps) (simp add: last_of_def)
next
  case (Unary u a)
  let ?w = "wrap (level a > 0) (toks a)" and ?p = "int (length pre)"
  have u: "u \<noteq> LP" using Unary.prems ops_not_paren by auto
  have "eval ((pre @ [tok u]) @ ?w @ post) (int (length (pre @ [tok u]))) (last_of (pre @ [tok u]) ?w) True (Suc d) m = aval a m"
    using Unary.prems balanced_toks by (intro eval_wrap Unary.IH) auto
  moreover have "eval (pre @ tok u # ?w @ post) ?p (?p - 1) True (Suc d) m = Inr (0, True, m)"
    using Unary.prems by (subst eval.simps) simp
  moreover have "?p < last_of pre (tok u # ?w)" by (simp add: last_of_def)
  moreover have "\<not> check_parentheses (pre @ tok u # ?w @ post) ?p q" for q
    using u by (simp add: check_parentheses_def type_at_def nth_append Let_def)
  ultimately have "eval (pre @ tok u # ?w @ post) ?p (last_of pre (tok u # ?w)) True d m =
      bind_res (aval a m) (combine (type_at (pre @ tok u # ?w @ post) ?p) 0)"
    using eval_split [of ?p "last_of pre (tok u # ?w)" d "pre @ tok u # ?w @ post" ?p m] Unary.prems
      find_op_unary [OF Unary.prems(1), of pre post] by (simp add: last_of_def algebra_simps)
  moreover have "type_at (pre @ tok u # ?w @ post) ?p = u" by (simp add: type_at_def nth_append)
  ultimately show ?case by simp
next
  case (Binary b x y)
  let ?v = "wrap (level x > find_prior b) (toks x)" and ?w = "wrap (level y \<ge> find_prior b) (toks y)" and ?p = "int (length pre)"
  let ?ts = "pre @ toks (Binary b x y) @ post" and ?q = "last_of pre (toks (Binary b x y))" and ?i = "int (length pre + length ?v)"
  have bal: "balanced ?v" "?v \<noteq> []" "?w \<noteq> []" using Binary.prems balanced_toks by auto
  have x: "eval ?ts ?p (?i - 1) True (Suc d) m = aval x m"
    using Binary.prems balanced_toks eval_wrap [of "toks x" "Suc d" "level x > find_prior b" m "aval x m" pre "tok b # ?w @ post"]
      Binary.IH(1) by (simp add: last_of_def)
  have y: "eval ?ts (?i + 1) ?q True (Suc d) m' = aval y m'" for m'
    using Binary.prems balanced_toks eval_wrap [of "toks y" "Suc d" "level y \<ge> find_prior b" m' "aval y m'" "pre @ ?v @ [tok b]" post]
      Binary.IH(2) by (simp add: last_of_def algebra_simps)
  have f: "eval ?ts (?i + 1) ?q False (Suc d) m' = Inr (-1, False, m')" for m' by (subst eval.simps) simp
  have "0 < length ?v" using bal(2) by blast
  then have "?p < ?q" unfolding last_of_def toks.simps length_append length_Cons by linarith
  moreover have "\<not> check_parentheses ?ts ?p ?q" using check_binary [OF bal, of pre "tok b" post] by simp
  ultimately have "eval ?ts ?p ?q True d m = bind_res (aval x m) (\<lambda>(v, ok, m).
      bind_res (eval ?ts (?i + 1) ?q ok (Suc d) m) (combine (type_at ?ts ?i) v))"
    unfolding x [symmetric] using Binary.prems(2) by (intro eval_split find_op_binary Binary.prems(1)) auto
  also have "type_at ?ts ?i = b" by (simp add: type_at_def nth_append flip: of_nat_add)
  also have "bind_res (aval x m) (\<lambda>(v, ok, m). bind_res (eval ?ts (?i + 1) ?q ok (Suc d) m) (combine b v)) = aval (Binary b x y) m"
    using y f by (simp add: bind_res_def case_prod_beta split: sum.splits) 
  finally show ?case .
qed

section \<open>Properties\<close>

lemmas lexing = make_token.simps rules_def in_range_def some_of_def regexec_def

lemma expr_tree:
  assumes "make_token e [] = Inr (Some ts)" and "mark_deref None ts = toks a" and "wf_ast a" and "depth_of a \<le> 35"
  shows "expr e m = aval a m"
proof -
  have "length ts = length (toks a)" using length_mark [of None ts] assms(2) by metis
  then show ?thesis
    using eval_toks [OF assms(3), of 0 "[]" "[]" m] assms(1,2,4) by (simp add: expr_def last_of_def)
qed

text \<open>
  C29. Parse and print: an expression whose tokens are those of a tree, written with parentheses only where priority and left
  associativity need them and nested at most 35 deep, evaluates to the tree's value, memory reads, failed divisions and
  errors included.
\<close>

theorem expr_evaluates:
  assumes "make_token e [] = Inr (Some ts)" and "mark_deref None ts = toks a" and "wf_ast a" and "depth_of a \<le> 35"
  shows "expr e m = aval a m"
  by (rule expr_tree [OF assms])

definition num :: "string \<Rightarrow> Token" where
  "num s = \<lparr>tk_type = NUM, tk_str = s\<rparr>"

lemma zero_a0: "reg_str2val ''a0'' zero_machine = (0, True)"
  using reg_str2val_reg [of 10 zero_machine] by (simp add: regs_def zero_machine_def zero_cpu_def)

theorem expr_evaluates_witness:
  "expr ''(1+2)*3-4 == 5 && !(a0 > 16)'' zero_machine = Inr (1, True, zero_machine)"
proof -
  let ?n = "\<lambda>s. Leaf (num s)"
  let ?a = "Binary TK_AND (Binary EQ (Binary (Op CHR ''-'') (Binary (Op CHR ''*'') (Binary (Op CHR ''+'') (?n ''1'') (?n ''2'')) (?n ''3'')) (?n ''4'')) (?n ''5''))
    (Unary (Op CHR ''!'') (Binary (Op CHR ''>'') (Leaf \<lparr>tk_type = REG, tk_str = ''a0''\<rparr>) (?n ''16'')))"
  have p: "find_prior TK_AND = 11" "find_prior EQ = 7" "find_prior (Op CHR ''-'') = 4" "find_prior (Op CHR ''*'') = 3" "find_prior (Op CHR ''+'') = 4" "find_prior (Op CHR ''>'') = 6"
    by (simp_all add: find_prior_def prior_arr_def)
  have "expr ''(1+2)*3-4 == 5 && !(a0 > 16)'' zero_machine = aval ?a zero_machine"
  proof (rule expr_evaluates)
    show "make_token ''(1+2)*3-4 == 5 && !(a0 > 16)'' [] = Inr (Some (toks ?a))"
      by (simp add: lexing p wrap_def tok_def num_def)
    show "mark_deref None (toks ?a) = toks ?a" by (simp add: p wrap_def tok_def num_def operator_judge_def Let_def)
    show "wf_ast ?a" by (simp add: binary_ops_def unary_ops_def num_def)
    show "depth_of ?a \<le> 35" by (simp add: p)
  qed
  also have "\<dots> = Inr (1, True, zero_machine)"
    by (simp add: num_def eval_leaf_def scan_number_def digits_val_def digit_val_def in_range_def guard_def combine_def apply_op_def zero_a0)
  finally show ?thesis .
qed

text \<open>A unary operator, another operator that takes its operand on the right, and an operand: the second operator is the root.\<close>

lemma eval_stacked:
  assumes "u \<in> unary_ops" and "v \<in> insert (Op CHR ''*'') unary_ops" and "tk_type t \<in> {NUM, HEX, REG}"
  shows "eval [tok u, tok v, t] 0 2 True 0 m = bind_res (eval_leaf t m) (combine v 0)"
proof -
  let ?ts = "[tok u, tok v, t]"
  have "find_prior (Op CHR ''*'') = 3" by (simp add: find_prior_def prior_arr_def)
  then have pv: "find_prior v \<in> {2, 3}" using assms(2) prior_of(2) [of v] by blast
  note pr = prior_of(2) [OF assms(1)] prior_of(3) [OF assms(3)]
  have ty: "tk_type t \<noteq> RP" "v \<noteq> RP" "u \<noteq> RP" using assms by (auto simp: unary_ops_def)
  have at: "find_op_at ?ts 0 2 k = (if k = find_prior v then Some 1 else None)" if "find_prior v \<le> k" for k
  proof -
    have "find_op_at ?ts 0 2 k = find_op_at ?ts 0 1 k"
      using find_other [of 0 "[tok u, tok v]" t k "[]"] ty pr pv that by auto
    also have "\<dots> = (if k = find_prior v then Some 1 else find_op_at ?ts 0 0 k)"
      using ty pr by (subst find_op_at.simps) (simp add: type_at_def)
    also have "k \<noteq> find_prior v \<Longrightarrow> find_op_at ?ts 0 0 k = None"
      using find_other [of 0 "[]" "tok u" k "[tok v, t]"] find_op_at_end [of ?ts 0 k] ty pr pv that by auto
    ultimately show ?thesis by auto
  qed
  have "find_op ?ts 0 2 15 = 1" by (rule find_op_is [of _ _ _ "nat (find_prior v)"]) (use at pv in auto)
  moreover have "\<not> check_parentheses ?ts 0 2" using assms(1) by (auto simp: check_parentheses_def type_at_def Let_def unary_ops_def)
  ultimately have "eval ?ts 0 2 True 0 m = bind_res (eval ?ts 0 0 True 1 m) (\<lambda>(x, ok, m). bind_res (eval ?ts 2 2 ok 1 m) (combine v x))"
    using eval_split [of 0 2 0 ?ts 1 m] by (simp add: type_at_def)
  also have "eval ?ts 0 0 True 1 m = Inr (0, True, m)"
    using assms(1) by (subst eval.simps) (auto simp: eval_leaf_def unary_ops_def)
  also have "bind_res (Inr (0, True, m)) (\<lambda>(x, ok, m). bind_res (eval ?ts 2 2 ok 1 m) (combine v x)) = bind_res (eval_leaf t m) (combine v 0)"
    by (simp add: eval.simps [of ?ts 2])
  finally show ?thesis .
qed

text \<open>
  C30. What becomes of an expression that consists of two of the unary operators \<^verbatim>\<open>!\<close>, \<^verbatim>\<open>~\<close> and \<^verbatim>\<open>*\<close> and an operand. Only the inner operator is
  applied, the outer one is evaluated as an operand and dropped; except that two stars are not two dereferences: the second one stays
  a multiplication, and the value is 0 whatever the operand points to.
\<close>

theorem stacked_unary:
  assumes "make_token e [] = Inr (Some [tok (Op u), tok (Op v), t])" and "u \<in> set ''!~*''" and "v \<in> set ''!~*''"
    and "tk_type t \<in> {NUM, HEX, REG}"
  shows "expr e m =
    (if u = CHR ''*'' \<and> v = CHR ''*'' then bind_res (eval_leaf t m) (\<lambda>(x, ok, m). Inr (0, ok, m))
     else aval (Unary (if v = CHR ''*'' then DEREF else Op v) (Leaf t)) m)"
proof -
  let ?u = "if u = CHR ''*'' then DEREF else Op u" and ?v = "if v = CHR ''*'' \<and> u \<noteq> CHR ''*'' then DEREF else Op v"
  have "tk_type t \<noteq> Op CHR ''*''" using assms(4) by auto
  then have "mark_deref None [tok (Op u), tok (Op v), t] = [tok ?u, tok ?v, t]"
    using assms(2,3) unfolding list.set
    by (elim insertE emptyE; hypsubst) (simp_all add: tok_def operator_judge_def Let_def)
  moreover have "?u \<in> unary_ops" "?v \<in> insert (Op CHR ''*'') unary_ops"
    using assms(2,3) unfolding list.set by (elim insertE emptyE; hypsubst; simp add: unary_ops_def)+
  ultimately have "expr e m = bind_res (eval_leaf t m) (combine ?v 0)"
    using assms(1) eval_stacked [OF _ _ assms(4), of ?u ?v m] by (simp add: expr_def)
  moreover have "combine (Op CHR ''*'') 0 = (\<lambda>(x, ok, m). Inr (0, ok, m))" by (auto simp: combine_def apply_op_def fun_eq_iff)
  ultimately show ?thesis by simp
qed

theorem stacked_unary_witness:
  "expr ''!!7'' zero_machine = Inr (0, True, zero_machine) \<and> expr ''**7'' zero_machine = Inr (0, True, zero_machine)"
proof -
  have l: "make_token ''!!7'' [] = Inr (Some [tok (Op CHR ''!''), tok (Op CHR ''!''), num ''7''])"
    "make_token ''**7'' [] = Inr (Some [tok (Op CHR ''*''), tok (Op CHR ''*''), num ''7''])"
    by (simp_all add: lexing tok_def num_def)
  have e: "eval_leaf (num ''7'') zero_machine = Inr (7, True, zero_machine)"
    by (simp add: num_def eval_leaf_def scan_number_def digits_val_def digit_val_def in_range_def guard_def)
  have "tk_type (num ''7'') \<in> {NUM, HEX, REG}" by (simp add: num_def)
  from stacked_unary [OF l(1) _ _ this] stacked_unary [OF l(2) _ _ this] show ?thesis
    by (simp add: e combine_def apply_op_def)
qed

lemma eval_no_op:
  assumes "0 < q" and "\<not> check_parentheses ts 0 q" and "find_op ts 0 q 15 = -1" and "d \<le> 35"
  shows "eval ts 0 q True d m = Inl Out_of_bounds"
  using assms(4)
proof (induction "35 - d" arbitrary: d)
  case 0
  then have "d = 35" by simp
  then show ?case using assms(1-3) by (simp add: eval.simps [of ts 0 q True 35] eval.simps [of ts _ _ _ 36] guard_def Let_def)
next
  case (Suc n)
  then have "eval ts 0 q True (Suc d) m = Inl Out_of_bounds" by simp
  moreover have "eval ts 0 (-2) True (Suc d) m = Inr (0, True, m)" using Suc.hyps(2) by (subst eval.simps) simp
  ultimately show ?case using assms(1-3) Suc.prems by (subst eval.simps) (simp add: Let_def)
qed

text \<open>
  C31. Two or more operands with no operator between them make the evaluator read the token before the array. The
  register names \<^verbatim>\<open>s10\<close> and \<^verbatim>\<open>s11\<close> are such inputs: the rule for \<^verbatim>\<open>s0\<close> and \<^verbatim>\<open>s1\<close> comes first and takes two characters.
\<close>

theorem missing_operator:
  assumes "make_token e [] = Inr (Some ts)" and "2 \<le> length ts" and "\<forall>t\<in>set ts. tk_type t \<in> {NUM, HEX, REG, SYMB}"
  shows "expr e m = Inl Out_of_bounds"
proof -
  let ?q = "int (length ts) - 1"
  have ty: "type_at ts i \<in> {NUM, HEX, REG, SYMB}" if "0 \<le> i" "i \<le> ?q" for i
    using assms(3) that by (simp add: type_at_def)
  have "find_op_at ts 0 i k = None" if "i \<le> ?q" "0 < k" for i k
    using that(1)
  proof (induction "nat (i + 1)" arbitrary: i)
    case 0
    then show ?case by (subst find_op_at.simps) simp
  next
    case (Suc n)
    then have "find_op_at ts 0 (i - 1) k = None" by simp
    moreover have i: "0 \<le> i" using Suc.hyps(2) by simp
    moreover have "type_at ts i \<noteq> RP" "find_prior (type_at ts i) = -1"
      using ty [of i] i Suc.prems by (auto simp: find_prior_def prior_arr_def)
    ultimately show ?case using that(2) by (subst find_op_at.simps) simp
  qed
  then have "find_op ts 0 ?q 15 = -1" using find_op_none [of 15 0 ts 0 ?q] by simp
  moreover have "\<not> check_parentheses ts 0 ?q" using ty [of 0] assms(2) by (cases ts) (auto simp: check_parentheses_def Let_def)
  moreover have "mark_deref p ts = ts" for p
    using assms(3) by (induction ts arbitrary: p) (auto simp: Let_def)
  ultimately show ?thesis using assms(1,2) eval_no_op [of ?q ts 0 m] by (simp add: expr_def)
qed

theorem missing_operator_witness: "expr ''s10'' zero_machine = Inl Out_of_bounds"
proof -
  have "make_token ''s10'' [] = Inr (Some [\<lparr>tk_type = REG, tk_str = ''s1''\<rparr>, num ''0''])" by (simp add: lexing num_def)
  from missing_operator [OF this] show ?thesis by (simp add: num_def)
qed

end
