(* ===== verification/Mem_Frame.thy ===== *)
theory Mem_Frame
  imports Vmem
begin

text \<open>
  What a memory access can change, whatever its address and whatever the caches hold: the caches, the RAM array, the devices
  and, when a PMP check fails, the run state.
\<close>

definition core_part :: "machine \<Rightarrow> machine" where
  "core_part m = m\<lparr>caches := [], pmem := (\<lambda>_. 0), dev := zero_devices, state := NEMU_RUNNING, is_bad := False, halt_pc := 0\<rparr>"

definition io_frame :: "machine \<Rightarrow> machine \<Rightarrow> bool" where
  "io_frame m m' \<longleftrightarrow> core_part m' = core_part m"

lemma io_frame_refl [simp]: "io_frame m m" by (simp add: io_frame_def)

lemma io_frame_trans [trans]: "io_frame a b \<Longrightarrow> io_frame b c \<Longrightarrow> io_frame a c" by (simp add: io_frame_def)

lemma core_part_simps [simp]:
  "core_part (put_cache p c m) = core_part m" "core_part (m\<lparr>pmem := x\<rparr>) = core_part m" "core_part (m\<lparr>dev := d\<rparr>) = core_part m"
  "core_part (abort_bad m) = core_part m"
  by (simp_all add: core_part_def put_cache_def abort_bad_def set_bad_def)

lemma io_frame_simps [simp]:
  "io_frame m (put_cache p c m') = io_frame m m'" "io_frame (put_cache p c m) m' = io_frame m m'"
  "io_frame m (m'\<lparr>pmem := x\<rparr>) = io_frame m m'" "io_frame m (m'\<lparr>dev := d\<rparr>) = io_frame m m'" "io_frame m (abort_bad m') = io_frame m m'"
  by (simp_all add: io_frame_def)

named_theorems framing \<open>accesses stay within the frame\<close>

lemma pmp_check_frame [simp]: "io_frame m (snd (pmp_check a x w m))"
  by (auto simp: pmp_check_def split: option.splits bool.splits)

lemma paddr_read_frame [framing]: "paddr_read a n m = Inr (v, m') \<Longrightarrow> io_frame m m'"
  by (auto simp: paddr_read_def Let_def case_prod_beta split: if_splits option.splits bool.splits)

lemma paddr_write_frame [framing]: "paddr_write a n v m = Inr m' \<Longrightarrow> io_frame m m'"
  by (auto simp: paddr_write_def pmem_write_def Let_def case_prod_beta split: if_splits option.splits bool.splits)

lemma load_block_loop_frame: "load_block_loop is a d m = Inr (e, m') \<Longrightarrow> io_frame m m'"
  by (induction "is" a d m rule: load_block_loop.induct) (auto dest: framing intro: io_frame_trans)

lemma store_block_loop_frame: "store_block_loop is a d m = Inr m' \<Longrightarrow> io_frame m m'"
  by (induction "is" a d m rule: store_block_loop.induct) (auto dest: framing intro: io_frame_trans)

lemma load_block_frame [framing]: "load_block_from_mem a d m = Inr (e, m') \<Longrightarrow> io_frame m m'"
  by (auto simp: load_block_from_mem_def Let_def dest: load_block_loop_frame split: if_splits simp del: load_block_loop.simps)

lemma store_block_frame [framing]: "store_block_to_mem a d m = Inr m' \<Longrightarrow> io_frame m m'"
  by (auto simp: store_block_to_mem_def Let_def dest: store_block_loop_frame split: if_splits simp del: store_block_loop.simps)

lemma l2_evict_frame [framing]: "l2_evict l2 a w m = Inr m' \<Longrightarrow> io_frame m m'"
  by (auto simp: l2_evict_def Let_def dest!: framing split: if_splits)

lemma access_l2_frame [framing]: "access_l2 l2 a d wr m = Inr (e, m') \<Longrightarrow> io_frame m m'"
  by (auto simp: access_l2_def Let_def dest!: framing split: if_splits prod.splits intro: io_frame_trans)

lemma l1_evict_frame [framing]: "l1_evict l1 l2 a w m = Inr m' \<Longrightarrow> io_frame m m'"
  by (auto simp: l1_evict_def Let_def dest!: framing split: if_splits)

lemma fetch_block_frame [framing]: "fetch_block l1 l2 a w m = Inr m' \<Longrightarrow> io_frame m m'"
  by (auto simp: fetch_block_def Let_def dest!: framing intro: io_frame_trans)

lemma line_for_frame [framing]: "line_for l1 l2 a m = Inr (w, m') \<Longrightarrow> io_frame m m'"
  by (auto simp: line_for_def Let_def cache_prefetch_def prefetch_hint_def numeral_2_eq_2 dest!: framing split: if_splits prod.splits
     )

lemma cache_read_frame [framing]: "cache_read l1 l2 a n m = Inr (v, m') \<Longrightarrow> io_frame m m'"
  by (auto simp: cache_read_def Let_def dest: framing)

lemma snoop_flush_dirty_frame [framing]: "cache_snoop_flush_dirty p l2 a m = Inr m' \<Longrightarrow> io_frame m m'"
  by (auto simp: cache_snoop_flush_dirty_def Let_def dest!: framing split: option.splits)

lemma snoop_flush_frame [framing]: "snoop_flush a m = Inr m' \<Longrightarrow> io_frame m m'"
  by (auto simp: snoop_flush_def dest: framing split: if_splits)

lemma vaddr_read_frame [framing]: "vaddr_read a n m = Inr (v, m') \<Longrightarrow> io_frame m m'"
  by (auto simp: vaddr_read_def dest!: framing split: if_splits intro: io_frame_trans)

lemma vaddr_ifetch_frame [framing]: "vaddr_ifetch a n m = Inr (v, m') \<Longrightarrow> io_frame m m'"
  by (auto simp: vaddr_ifetch_def dest: framing split: if_splits)

lemma io_frame_fields:
  assumes "io_frame m m'"
  shows "cpu m' = cpu m" "wp_head m' = wp_head m" "wp_free m' = wp_free m" "cores m' = cores m"
proof -
  have "cpu (core_part x) = cpu x" "wp_head (core_part x) = wp_head x" "wp_free (core_part x) = wp_free x" "cores (core_part x) = cores x" for x
    by (simp_all add: core_part_def)
  then show "cpu m' = cpu m" "wp_head m' = wp_head m" "wp_free m' = wp_free m" "cores m' = cores m"
    using assms unfolding io_frame_def by metis+
qed

end
