(* ===== verification/Demo.thy ===== *)
theory Demo
  imports Functional Isa_Run
begin

text \<open>
  A machine as it stands after start-up, with a program loaded: a loop that counts in \<^verbatim>\<open>a0\<close>
  (\<^verbatim>\<open>addi a0, a0, 1; jal x0, -4\<close>). The engines' results are instantiated on it.
\<close>

definition demo_words :: "u32 list" where
  "demo_words = [0x00150513, 0xffdff06f, 0]"

definition demo_image :: "byte list" where
  "demo_image = concat (map (\<lambda>w. bytes_of_word 4 (ucast w)) demo_words)"

definition loaded_machine :: machine where
  "loaded_machine = snd (projr (load_img (Some (Some demo_image)) zero_machine))"

definition demo_machine :: machine where
  "demo_machine =
     (init_cache_system (init_regs loaded_machine))\<lparr>dev := projr (init_devices key_position (init_map zero_devices))\<rparr>"

lemma length_demo_image: "length demo_image = 12"
  by (simp add: demo_image_def demo_words_def)

lemma loaded_machine_eq: "loaded_machine = zero_machine\<lparr>img_size := 12, pmem := store_bytes (\<lambda>_. 0) 0 demo_image\<rparr>"
proof -
  have "demo_image \<noteq> []" "length demo_image \<le> 0x8000000" using length_demo_image by auto
  from load_img_ok [OF this, of zero_machine] show ?thesis
    using length_demo_image by (simp add: loaded_machine_def zero_machine_def)
qed

lemma demo_fields:
  "caches demo_machine = [init_cache 6 8 ''L1-Instruction'', init_cache 6 8 ''L1-Data'', init_cache 8 16 ''L2-Unified'']"
  "L1I_cache demo_machine = Some 0" "L1D_cache demo_machine = Some 1" "L2_cache demo_machine = Some 2"
  "g_num_cores demo_machine = 1" "pmem demo_machine = store_bytes (\<lambda>_. 0) 0 demo_image"
  "cpu demo_machine = \<lparr>gpr = replicate 32 0, cpu_pc = 0x80000000\<rparr>" "\<not> g_difftest_en demo_machine" "\<not> g_bpred_mode demo_machine"
  "cpu_pipe demo_machine = zero_pipe" "state demo_machine = NEMU_RUNNING" "wp_head demo_machine = []"
  by (simp_all add: demo_machine_def init_cache_system_def init_regs_def loaded_machine_eq Let_def) (simp_all add: zero_machine_def)

lemma demo_cold: "cold demo_machine"
  using init_cache_cold by (auto simp: cold_def demo_fields)

lemma demo_caches: "data_caches demo_machine = [1]" "l1i_caches demo_machine = [0]" "hart_ok demo_machine"
  by (simp_all add: data_caches_def l1i_caches_def hart_ok_def demo_fields)

lemma demo_sys: "mem_sys demo_machine"
  by (rule cold_sys [OF demo_cold demo_caches(3)]) (simp_all add: demo_caches demo_fields)

lemma demo_clean: "code_clean B demo_machine"
proof -
  have "held (get_cache p demo_machine) b = None" if "p < 3" for p b
    using cold_get [OF demo_cold, of p] that by (simp add: demo_fields)
  then show ?thesis by (auto simp: code_clean_def dirty_def demo_caches)
qed

lemma demo_dev: "dev_ok (dev demo_machine)" "key_contents (dev demo_machine) = []"
proof -
  obtain d where "init_devices key_position zero_devices = Inr d" "dev_ok d" "key_contents d = []"
    using booted_devices by blast
  moreover have "init_map zero_devices = zero_devices" by (simp add: init_map_def zero_devices_def)
  ultimately show "dev_ok (dev demo_machine)" "key_contents (dev demo_machine) = []" by (simp_all add: demo_machine_def)
qed

lemma demo_regs: "regs_ok (cpu demo_machine)"
  by (simp add: demo_fields regs_ok_def)

lemma demo_run_ok: "run_ok demo_machine"
  using demo_sys demo_regs demo_dev(1) by (simp add: run_ok_def)

section \<open>The run of the program\<close>

definition demo_code :: "vaddr_t set" where
  "demo_code = {0x80000000, 0x80000004, 0x80000008}"

text \<open>The states of the loop.\<close>

definition in_loop :: "isa_state \<Rightarrow> bool" where
  "in_loop s \<longleftrightarrow> i_pc s \<in> {0x80000000, 0x80000004} \<and> load_bytes (i_mem s) 0 12 = demo_image"

lemma demo_words_at:
  assumes "load_bytes (i_mem s) 0 12 = demo_image"
  shows "code_at s 0x80000000 = 0x00150513" "code_at s 0x80000004 = 0xffdff06f" "code_at s 0x80000008 = 0"
proof -
  have p: "load_bytes (i_mem s) k 4 = take 4 (drop k demo_image)" if "k \<le> 8" for k
    using that unfolding assms [symmetric] by (intro nth_equalityI) simp_all
  have "take 4 (drop 0 demo_image) = [0x13, 0x05, 0x15, 0x00]" "take 4 (drop 4 demo_image) = [0x6f, 0xf0, 0xdf, 0xff]"
      "take 4 (drop 8 demo_image) = [0, 0, 0, 0]" by code_simp+
  then show "code_at s 0x80000000 = 0x00150513" "code_at s 0x80000004 = 0xffdff06f" "code_at s 0x80000008 = 0"
    using p [of 0] p [of 4] p [of 8] by (simp_all add: code_at_def ram_off_def) (code_simp+)?
qed

lemma demo_ops:
  "table_lookup inst_table 0x00150513 = X_addi" "table_lookup inst_table 0xffdff06f = X_jal"
  by (simp_all add: inst_table_def instpat_match_def pattern_decode_rows)

lemma demo_fields_of:
  "ibits 0x00150513 11 7 = 10" "ibits 0x00150513 19 15 = 10" "immI 0x00150513 = 1"
  "ibits 0xffdff06f 11 7 = 0" "immJ 0xffdff06f = 0xfffffffffffffffc"
  by code_simp+

lemma addi_step:
  "isa_step X_addi 0x00150513 s = s\<lparr>i_regs := (i_regs s)[10 := i_regs s ! 10 + 1], i_pc := i_pc s + 4\<rparr>"
proof -
  have "X_addi \<in> set alu_ops" "op_type X_addi = TYPE_I" "isa_alu X_addi a 1 = a + 1" for a
    by (simp_all add: alu_ops_def op_type_def isa_alu_def wrap64_def)
  then show ?thesis by (simp add: isa_step_def Let_def demo_fields_of set_reg_def)
qed

lemma jal_step: "isa_step X_jal 0xffdff06f s = s\<lparr>i_pc := i_pc s + 0xfffffffffffffffc\<rparr>"
proof -
  have "X_jal \<notin> set alu_ops" by (simp add: alu_ops_def)
  then show ?thesis by (simp add: isa_step_def Let_def demo_fields_of set_reg_def)
qed

lemma in_loop_step:
  assumes "in_loop s"
  shows "isa_next s = (if i_pc s = 0x80000000
      then s\<lparr>i_regs := (i_regs s)[10 := i_regs s ! 10 + 1], i_pc := 0x80000004\<rparr> else s\<lparr>i_pc := 0x80000000\<rparr>)"
    "in_loop (isa_next s)" "user_ok (isa_op s) (isa_fetch s) s" "isa_op s \<notin> store_ops"
proof -
  note w = demo_words_at [OF conjunct2 [OF assms [unfolded in_loop_def]]]
  have pc: "i_pc s = 0x80000000 \<or> i_pc s = 0x80000004" using assms by (simp add: in_loop_def)
  then have f: "isa_fetch s = (if i_pc s = 0x80000000 then 0x00150513 else 0xffdff06f)"
      "isa_op s = (if i_pc s = 0x80000000 then X_addi else X_jal)"
    using w by (auto simp: isa_fetch_at isa_op_def demo_ops)
  show n: "isa_next s = (if i_pc s = 0x80000000
      then s\<lparr>i_regs := (i_regs s)[10 := i_regs s ! 10 + 1], i_pc := 0x80000004\<rparr> else s\<lparr>i_pc := 0x80000000\<rparr>)"
    using pc by (auto simp: isa_next_def f addi_step jal_step)
  show "in_loop (isa_next s)" using assms unfolding n by (auto simp: in_loop_def)
  show "isa_op s \<notin> store_ops" by (simp add: f store_ops_def)
  show "user_ok (isa_op s) (isa_fetch s) s"
    by (simp add: f user_ok_def user_rows alu_error_def load_ops_def store_ops_def alu_ops_def)
qed

lemma in_loop_run: "in_loop s \<Longrightarrow> in_loop ((isa_next ^^ n) s)"
  by (induction n) (simp_all add: in_loop_step(2))

lemma demo_safe: "in_loop s \<Longrightarrow> safe_run demo_code n s"
  using in_loop_step(3,4) [OF in_loop_run] in_loop_run
  by (fastforce simp: safe_run_def safe_def demo_code_def in_loop_def)

lemma demo_fetchable: "fetchable demo_code"
  by (auto simp: fetchable_def demo_code_def access_ok_def ram_addr_def)

lemma demo_in_loop: "in_loop (isa_of demo_machine)"
proof -
  have v: "ram_view demo_machine = (\<lambda>x. if x < 0x8000000 then pmem demo_machine x else 0)"
    by (rule cold_ram_view [OF demo_cold]) (simp_all add: demo_caches demo_fields)
  have "load_bytes (ram_view demo_machine) 0 12 = load_bytes (pmem demo_machine) 0 12"
    unfolding v by (simp add: load_bytes_def)
  also have "\<dots> = demo_image" using load_store_bytes [of "\<lambda>_. 0" 0 demo_image] by (simp add: demo_fields length_demo_image)
  finally show ?thesis by (simp add: in_loop_def isa_of_def demo_fields)
qed

lemma demo_fetched: "fetched demo_machine = isa_fetch (isa_of demo_machine)"
proof -
  have a: "access_ok 0x80000000 4" by (simp add: access_ok_def ram_addr_def)
  have "coherent (data_caches demo_machine) (the (L2_cache demo_machine)) demo_machine" using demo_sys by (simp add: mem_sys_def)
  then show ?thesis
    using load_view [of demo_machine "0x80000000" 4] a cold_view [OF demo_cold]
    by (simp add: fetched_def isa_fetch_def isa_of_def demo_fields demo_caches)
qed

section \<open>Witness of the functional engine\<close>

theorem exec_once_refines_isa_witness:
  "\<exists>m'. exec_once zero_ir [SDL_KEYDOWN 4] demo_machine = Inr m' \<and> cpu_pc (cpu m') = 0x80000004 \<and> gpr (cpu m') ! 10 = 1 \<and> run_ok m'"
proof -
  let ?s = "isa_of demo_machine"
  have op: "table_lookup inst_table (fetched demo_machine) = isa_op ?s" by (simp add: demo_fetched isa_op_def)
  have ok: "user_ok (isa_op ?s) (fetched demo_machine) ?s" using in_loop_step(3) [OF demo_in_loop] by (simp add: demo_fetched)
  have "access_ok (cpu_pc (cpu demo_machine)) 4" by (simp add: demo_fields access_ok_def ram_addr_def)
  then obtain m' where m': "exec_once zero_ir [SDL_KEYDOWN 4] demo_machine = Inr m'"
      "isa_of m' = isa_step (isa_op ?s) (fetched demo_machine) ?s" "run_ok m'"
    using exec_once_refines_isa [OF demo_run_ok _ op ok, of "[SDL_KEYDOWN 4]" zero_ir] demo_dev(2) by auto
  have "isa_of m' = isa_next ?s" using m'(2) by (simp add: isa_next_def demo_fetched)
  then have "cpu_pc (cpu m') = i_pc (isa_next ?s)" "gpr (cpu m') = i_regs (isa_next ?s)"
    unfolding isa_of_def [of m'] by (metis isa_state.select_convs)+
  then show ?thesis using m'(1,3) in_loop_step(1) [OF demo_in_loop] by (simp add: isa_of_def demo_fields)
qed

end
