(* ===== verification/Watchpoint.thy ===== *)
theory Watchpoint
  imports Expr_Refine Mem_Frame Demo "HOL-Library.Multiset"
begin

text \<open>
  Watchpoints (\<^verbatim>\<open>src/monitor/watchpoint.c\<close>). The linked lists from \<^verbatim>\<open>head\<close> and \<^verbatim>\<open>free_\<close> are the lists \<open>wp_head\<close> and \<open>wp_free\<close>
  of the elements of \<^verbatim>\<open>wp_pool\<close>. The text of a watchpoint has 99 characters at most, a longer one is written past its array.
\<close>

definition init_wp_pool :: "machine \<Rightarrow> machine" where
  "init_wp_pool m = m\<lparr>wp_head := [], wp_free := map (\<lambda>i. \<lparr>wp_NO = i, wp_expr = [], wp_value = 0\<rparr>) [0..<32]\<rparr>"

definition new_wp :: "string \<Rightarrow> machine \<Rightarrow> machine res" where
  "new_wp expression m =
    (case wp_free m of
       [] \<Rightarrow> Inr m
     | w # ws \<Rightarrow>
         bind_res (guard (length expression < 100) Out_of_bounds) (\<lambda>_.
         bind_res (expr expression (m\<lparr>wp_free := ws, wp_head := w\<lparr>wp_expr := expression\<rparr> # wp_head m\<rparr>)) (\<lambda>(v, _, m).
         Inr (m\<lparr>wp_head := (case wp_head m of [] \<Rightarrow> [] | w # ws \<Rightarrow> w\<lparr>wp_value := v\<rparr> # ws)\<rparr>))))"

text \<open>The walk along the list, \<open>pre\<close> being the elements passed.\<close>

fun free_walk :: "int \<Rightarrow> WP list \<Rightarrow> WP list \<Rightarrow> (WP \<times> WP list) option" where
  "free_walk NO pre [] = None"
| "free_walk NO pre (w # ws) = (if int (wp_NO w) = NO then Some (w, pre @ ws) else free_walk NO (pre @ [w]) ws)"

definition free_wp :: "int \<Rightarrow> machine \<Rightarrow> machine" where
  "free_wp NO m =
    (case free_walk NO [] (wp_head m) of
       None \<Rightarrow> m
     | Some (w, ws) \<Rightarrow> m\<lparr>wp_head := ws, wp_free := w # wp_free m\<rparr>)"

definition wp_any_active :: "machine \<Rightarrow> bool" where
  "wp_any_active m \<longleftrightarrow> wp_head m \<noteq> []"

text \<open>The walk of \<^verbatim>\<open>check_wp\<close>; it stops at the first watchpoint whose value has changed.\<close>

fun check_walk :: "WP list \<Rightarrow> WP list \<Rightarrow> machine \<Rightarrow> (bool \<times> machine) res" where
  "check_walk pre [] m = Inr (False, m)"
| "check_walk pre (w # ws) m =
     bind_res (expr (wp_expr w) m) (\<lambda>(value, _, m).
     if value \<noteq> wp_value w then Inr (True, m\<lparr>wp_head := pre @ w\<lparr>wp_value := value\<rparr> # ws\<rparr>)
     else check_walk (pre @ [w]) ws m)"

definition check_wp :: "machine \<Rightarrow> (bool \<times> machine) res" where
  "check_wp m = check_walk [] (wp_head m) m"

section \<open>Evaluation leaves the lists alone\<close>

lemma apply_op_frame: "apply_op ty x y m = Inr (v, m') \<Longrightarrow> io_frame m m'"
  by (auto simp: apply_op_def dest: vaddr_read_frame split: token_type.splits if_splits)

lemma eval_leaf_frame: "eval_leaf t m = Inr (v, ok, m') \<Longrightarrow> io_frame m m'"
  by (auto simp: eval_leaf_def case_prod_beta Let_def split: token_type.splits)

lemma eval_frame: "eval ts p q s d m = Inr (v, ok, m') \<Longrightarrow> io_frame m m'"
proof (induction ts p q s d m arbitrary: v ok m' rule: eval.induct)
  case (1 ts p q s d m)
  show ?case
  proof (cases "\<not> s \<or> d > 35 \<or> p > q \<or> p = q \<or> check_parentheses ts p q")
    case True
    then show ?thesis using 1(1) 1(4) [unfolded eval.simps [of ts p q s d m]] by (auto split: if_splits dest: eval_leaf_frame)
  next
    case False
    let ?i = "find_op ts p q 15"
    obtain v1 ok1 m1 v2 ok2 m2 where e: "eval ts p (?i - 1) s (d + 1) m = Inr (v1, ok1, m1)" "eval ts (?i + 1) q ok1 (d + 1) m1 = Inr (v2, ok2, m2)"
        "m' = m2 \<or> apply_op (type_at ts ?i) v1 v2 m2 = Inr (v, m')"
      using 1(4) [unfolded eval.simps [of ts p q s d m]] False by (auto simp: Let_def split: if_splits)
    have "io_frame m m1" using 1(2) [OF _ _ _ _ refl e(1)] False by simp
    also have "io_frame m1 m2" using 1(3) [OF _ _ _ _ refl e(2)] False by simp
    finally have "io_frame m m2" .
    then show ?thesis using e(3) apply_op_frame io_frame_trans by blast
  qed
qed

lemma expr_frame: "expr e m = Inr (v, ok, m') \<Longrightarrow> io_frame m m'"
  by (auto simp: expr_def dest: eval_frame split: option.splits)

section \<open>The pool\<close>

text \<open>Every watchpoint of the pool is in one of the two lists, once.\<close>

definition wp_inv :: "machine \<Rightarrow> bool" where
  "wp_inv m \<longleftrightarrow> mset (map wp_NO (wp_head m @ wp_free m)) = mset [0..<32]"

definition active :: "machine \<Rightarrow> nat list" where
  "active m = map wp_NO (wp_head m)"

lemma free_walk_Some:
  "free_walk NO pre ws = Some (w, vs) \<Longrightarrow> \<exists>xs ys. ws = xs @ w # ys \<and> vs = pre @ xs @ ys \<and> int (wp_NO w) = NO"
proof (induction NO pre ws rule: free_walk.induct)
  case (2 NO pre x ws)
  show ?case
  proof (cases "int (wp_NO x) = NO")
    case True
    then show ?thesis using 2 by (intro exI [of _ "[]"] exI [of _ ws]) auto
  next
    case False
    then obtain xs ys where "ws = xs @ w # ys" "vs = (pre @ [x]) @ xs @ ys" "int (wp_NO w) = NO" using 2 by auto
    then show ?thesis by (intro exI [of _ "x # xs"] exI [of _ ys]) simp
  qed
qed simp

lemma free_walk_None: "free_walk NO pre ws = None \<longleftrightarrow> (\<forall>w\<in>set ws. int (wp_NO w) \<noteq> NO)"
  by (induction NO pre ws rule: free_walk.induct) auto

lemma check_walk_frame:
  "check_walk pre ws m = Inr (b, m') \<Longrightarrow> wp_head m = pre @ ws \<Longrightarrow>
   map wp_NO (wp_head m') = map wp_NO (wp_head m) \<and> wp_free m' = wp_free m"
proof (induction pre ws m arbitrary: m' rule: check_walk.induct)
  case (2 pre w ws m)
  from 2(2) obtain v ok m1 where e: "expr (wp_expr w) m = Inr (v, ok, m1)"
      "(if v \<noteq> wp_value w then Inr (True, m1\<lparr>wp_head := pre @ w\<lparr>wp_value := v\<rparr> # ws\<rparr>) else check_walk (pre @ [w]) ws m1) = Inr (b, m')"
    by auto
  note f = io_frame_fields [OF expr_frame [OF e(1)]]
  show ?case
    using 2(1) [where m' = m'] e(2) f 2(3) by (auto split: if_splits)
qed simp

lemma new_wp_cases:
  assumes "new_wp e m = Inr m'"
  shows "wp_free m = [] \<and> m' = m \<or>
    (\<exists>w ws v. wp_free m = w # ws \<and> wp_head m' = w\<lparr>wp_expr := e, wp_value := v\<rparr> # wp_head m \<and> wp_free m' = ws)"
proof (cases "wp_free m")
  case (Cons w ws)
  let ?m = "m\<lparr>wp_free := ws, wp_head := w\<lparr>wp_expr := e\<rparr> # wp_head m\<rparr>"
  obtain v ok m1 where e: "expr e ?m = Inr (v, ok, m1)"
      "m' = m1\<lparr>wp_head := (case wp_head m1 of [] \<Rightarrow> [] | w # ws \<Rightarrow> w\<lparr>wp_value := v\<rparr> # ws)\<rparr>"
    using assms Cons by (auto simp: new_wp_def)
  then show ?thesis using io_frame_fields [OF expr_frame [OF e(1)]] Cons by auto
qed (use assms in \<open>simp add: new_wp_def\<close>)

datatype wp_op = New string | Free int | Check

fun run_wp :: "wp_op list \<Rightarrow> machine \<Rightarrow> machine res" where
  "run_wp [] m = Inr m"
| "run_wp (New e # ops) m = bind_res (new_wp e m) (run_wp ops)"
| "run_wp (Free n # ops) m = run_wp ops (free_wp n m)"
| "run_wp (Check # ops) m = bind_res (check_wp m) (\<lambda>(_, m). run_wp ops m)"

lemma new_wp_inv: "wp_inv m \<Longrightarrow> new_wp e m = Inr m' \<Longrightarrow> wp_inv m'"
  using new_wp_cases [of e m m'] by (auto simp: wp_inv_def)

lemma free_wp_inv: "wp_inv m \<Longrightarrow> wp_inv (free_wp n m)"
  by (auto simp: wp_inv_def free_wp_def dest!: free_walk_Some split: option.splits)

lemma check_wp_inv: "wp_inv m \<Longrightarrow> check_wp m = Inr (b, m') \<Longrightarrow> wp_inv m'"
  using check_walk_frame [of "[]" "wp_head m" m b m'] by (simp add: wp_inv_def check_wp_def)

lemma run_wp_inv: "wp_inv m \<Longrightarrow> run_wp ops m = Inr m' \<Longrightarrow> wp_inv m'"
  by (induction ops m rule: run_wp.induct) (auto simp: free_wp_inv dest: new_wp_inv check_wp_inv)

lemma init_wp_inv: "wp_inv (init_wp_pool m)"
  by (simp add: wp_inv_def init_wp_pool_def comp_def)

lemma wp_inv_distinct: "wp_inv m \<Longrightarrow> distinct (map wp_NO (wp_head m @ wp_free m)) \<and> set (active m) \<subseteq> {0..<32}"
proof -
  assume "wp_inv m"
  then have e: "mset (map wp_NO (wp_head m @ wp_free m)) = mset [0..<32]" by (simp add: wp_inv_def)
  have "distinct (map wp_NO (wp_head m @ wp_free m))" using mset_eq_imp_distinct_iff [OF e] by simp
  moreover have "set (map wp_NO (wp_head m @ wp_free m)) = {0..<32}" using mset_eq_setD [OF e] by simp
  ultimately show ?thesis by (auto simp: active_def)
qed

lemma active_bound: "wp_inv m \<Longrightarrow> length (active m) \<le> 32"
  using size_mset [of "map wp_NO (wp_head m @ wp_free m)"] by (simp add: wp_inv_def active_def)

section \<open>What an expression means\<close>

text \<open>
  The value of a tree as a function of the registers and the bytes of RAM alone; \<open>None\<close> where evaluation ends the
  simulator, and for a dereference outside RAM or across the end of a cache line.
\<close>

definition op_value :: "token_type \<Rightarrow> word_t \<Rightarrow> word_t \<Rightarrow> (nat \<Rightarrow> byte) \<Rightarrow> word_t option" where
  "op_value op x y mem =
    (if op = DEREF then if access_ok y 8 then Some (word_of_bytes (load_bytes mem (ram_off y) 8)) else None
     else case apply_op op x y zero_machine of Inl _ \<Rightarrow> None | Inr (v, _) \<Rightarrow> Some v)"

definition leaf_value :: "Token \<Rightarrow> CPU_state \<Rightarrow> (word_t \<times> bool) option" where
  "leaf_value t c = (case eval_leaf t (zero_machine\<lparr>cpu := c\<rparr>) of Inl _ \<Rightarrow> None | Inr (v, ok, _) \<Rightarrow> Some (v, ok))"

definition combine_value :: "token_type \<Rightarrow> word_t \<Rightarrow> (nat \<Rightarrow> byte) \<Rightarrow> word_t \<times> bool \<Rightarrow> (word_t \<times> bool) option" where
  "combine_value op x mem = (\<lambda>(y, ok).
     if y = 0 \<and> op \<in> {Op CHR ''/'', Op CHR ''%''} then Some (-1, False)
     else map_option (\<lambda>v. (v, ok)) (op_value op x y mem))"

fun tree_value :: "ast \<Rightarrow> CPU_state \<Rightarrow> (nat \<Rightarrow> byte) \<Rightarrow> (word_t \<times> bool) option" where
  "tree_value (Leaf t) c mem = leaf_value t c"
| "tree_value (Unary u a) c mem = Option.bind (tree_value a c mem) (combine_value u 0 mem)"
| "tree_value (Binary b x y) c mem =
     Option.bind (tree_value x c mem) (\<lambda>(v, ok).
     Option.bind (if ok then tree_value y c mem else Some (-1, False)) (combine_value b v mem))"

text \<open>Evaluation may move blocks between the caches and RAM, and does nothing else.\<close>

definition only_caches :: "machine \<Rightarrow> machine \<Rightarrow> bool" where
  "only_caches m m' \<longleftrightarrow> mem_sys m' \<and> ram_view m' = ram_view m \<and> m' = m\<lparr>caches := caches m', pmem := pmem m'\<rparr>"

lemma only_cachesD:
  assumes "only_caches m m'"
  shows "mem_sys m'" "ram_view m' = ram_view m" "m' = m\<lparr>caches := caches m', pmem := pmem m'\<rparr>" "cpu m' = cpu m"
proof -
  show e: "mem_sys m'" "ram_view m' = ram_view m" "m' = m\<lparr>caches := caches m', pmem := pmem m'\<rparr>" using assms by (simp_all add: only_caches_def)
  show "cpu m' = cpu m" by (subst e(3)) simp
qed

lemma only_caches_refl: "mem_sys m \<Longrightarrow> only_caches m m" by (simp add: only_caches_def)

lemma only_caches_trans:
  assumes "only_caches m n" and "only_caches n k"
  shows "only_caches m k"
proof -
  obtain c p where n: "n = m\<lparr>caches := c, pmem := p\<rparr>" using only_cachesD(3) [OF assms(1)] by blast
  have "k = n\<lparr>caches := caches k, pmem := pmem k\<rparr>" by (rule only_cachesD(3) [OF assms(2)])
  also have "\<dots> = m\<lparr>caches := caches k, pmem := pmem k\<rparr>" by (simp add: n)
  finally show ?thesis using only_cachesD(1,2) [OF assms(1)] only_cachesD(1,2) [OF assms(2)] by (simp add: only_caches_def)
qed

text \<open>Only a dereference looks at the machine.\<close>

lemma apply_op_pure:
  assumes "op \<noteq> DEREF" and "apply_op op x y n = Inr (v, n')"
  shows "apply_op op x y m = Inr (v, m)"
  using assms by (cases op) (auto simp: apply_op_def split: if_splits)

lemma apply_op_value:
  assumes "mem_sys m" and "op_value op x y (ram_view m) = Some v"
  shows "\<exists>m'. apply_op op x y m = Inr (v, m') \<and> only_caches m m'"
proof (cases "op = DEREF")
  case True
  then have ok: "access_ok y 8" "v = word_of_bytes (load_bytes (ram_view m) (ram_off y) 8)"
    using assms(2) by (auto simp: op_value_def split: if_splits)
  obtain m' where m': "vaddr_read y 8 m = Inr (v, m')" "mem_sys m'" "mem_frame (mem_caches m) m m'" "ram_view m' = ram_view m"
    using vaddr_read_sys [OF assms(1) ok(1)] ok(2) by blast
  have "m' = m\<lparr>caches := caches m', pmem := pmem m'\<rparr>" using m'(3) by (simp add: mem_frame_def)
  then have "only_caches m m'" using m'(2,4) by (simp add: only_caches_def)
  then show ?thesis using m'(1) True by (simp add: apply_op_def)
next
  case False
  then obtain n where "apply_op op x y zero_machine = Inr (v, n)" using assms(2) by (auto simp: op_value_def split: sum.splits)
  then show ?thesis using apply_op_pure [OF False] only_caches_refl [OF assms(1)] by blast
qed

lemma leaf_value_eval: "leaf_value t (cpu m) = Some (v, ok) \<Longrightarrow> eval_leaf t m = Inr (v, ok, m)"
  by (auto simp: leaf_value_def eval_leaf_def reg_str2val_def bind_res_def Let_def split: token_type.splits sum.splits option.splits if_splits)

lemma combine_value_combine:
  assumes "mem_sys m" and "combine_value op x (ram_view m) (y, ok) = Some (v, ok')"
  shows "\<exists>m'. combine op x (y, ok, m) = Inr (v, ok', m') \<and> only_caches m m'"
proof (cases "y = 0 \<and> op \<in> {Op CHR ''/'', Op CHR ''%''}")
  case True
  then show ?thesis using assms only_caches_refl by (auto simp: combine_def combine_value_def)
next
  case False
  then have "op_value op x y (ram_view m) = Some v" "ok' = ok" using assms(2) unfolding combine_value_def by auto
  from apply_op_value [OF assms(1) this(1)] obtain m' where "apply_op op x y m = Inr (v, m')" "only_caches m m'" by blast
  then show ?thesis using False \<open>ok' = ok\<close> unfolding combine_def by auto
qed

lemma aval_tree_value:
  "mem_sys m \<Longrightarrow> tree_value a (cpu m) (ram_view m) = Some (v, ok) \<Longrightarrow> \<exists>m'. aval a m = Inr (v, ok, m') \<and> only_caches m m'"
proof (induction a arbitrary: m v ok)
  case (Leaf t)
  then show ?case using leaf_value_eval only_caches_refl by auto
next
  case (Unary u a)
  then obtain y k where y: "tree_value a (cpu m) (ram_view m) = Some (y, k)" "combine_value u 0 (ram_view m) (y, k) = Some (v, ok)"
    by (auto simp: Option.bind_eq_Some_conv)
  from Unary.IH [OF Unary.prems(1) y(1)] obtain m1 where m1: "aval a m = Inr (y, k, m1)" "only_caches m m1" by blast
  note o = only_cachesD [OF m1(2)]
  have "combine_value u 0 (ram_view m1) (y, k) = Some (v, ok)" using y(2) o(2) by simp
  from combine_value_combine [OF o(1) this] show ?case using m1 only_caches_trans by auto
next
  case (Binary b x y)
  then obtain p k q l where x: "tree_value x (cpu m) (ram_view m) = Some (p, k)"
      and y: "(if k then tree_value y (cpu m) (ram_view m) else Some (-1, False)) = Some (q, l)" "combine_value b p (ram_view m) (q, l) = Some (v, ok)"
    by (auto simp: Option.bind_eq_Some_conv)
  from Binary.IH(1) [OF Binary.prems(1) x] obtain m1 where m1: "aval x m = Inr (p, k, m1)" "only_caches m m1" by blast
  note o = only_cachesD [OF m1(2)]
  obtain m2 where m2: "(if k then aval y m1 else Inr (-1, False, m1)) = Inr (q, l, m2)" "only_caches m1 m2"
  proof (cases k)
    case True
    then have "tree_value y (cpu m1) (ram_view m1) = Some (q, l)" using y(1) o by simp
    from Binary.IH(2) [OF o(1) this] show thesis using True that by auto
  next
    case False
    then show thesis using y(1) that only_caches_refl [OF o(1)] by simp
  qed
  note o2 = only_cachesD [OF m2(2)]
  have "combine_value b p (ram_view m2) (q, l) = Some (v, ok)" using y(2) o(2) o2(2) by simp
  from combine_value_combine [OF o2(1) this] obtain m3 where m3: "combine b p (q, l, m2) = Inr (v, ok, m3)" "only_caches m2 m3" by blast
  have "aval (Binary b x y) m = Inr (v, ok, m3)" using m1(1) m2(1) m3(1) by simp
  moreover have "only_caches m m3" using m1(2) m2(2) m3(2) only_caches_trans by blast
  ultimately show ?case by blast
qed

text \<open>The expression of a watchpoint is a tree in print whose value is \<open>v\<close>.\<close>

definition shows_value :: "CPU_state \<Rightarrow> (nat \<Rightarrow> byte) \<Rightarrow> string \<Rightarrow> word_t \<Rightarrow> bool" where
  "shows_value c mem e v \<longleftrightarrow> (\<exists>ts a ok. make_token e [] = Inr (Some ts) \<and> mark_deref None ts = toks a \<and> wf_ast a \<and> depth_of a \<le> 35 \<and>
     tree_value a c mem = Some (v, ok))"

lemma expr_shows:
  assumes "mem_sys m" and "shows_value (cpu m) (ram_view m) e v"
  shows "\<exists>ok m'. expr e m = Inr (v, ok, m') \<and> only_caches m m'"
proof -
  obtain ts a ok where a: "make_token e [] = Inr (Some ts)" "mark_deref None ts = toks a" "wf_ast a" "depth_of a \<le> 35"
      "tree_value a (cpu m) (ram_view m) = Some (v, ok)"
    using assms(2) by (auto simp: shows_value_def)
  then show ?thesis using expr_tree [OF a(1-4), of m] aval_tree_value [OF assms(1) a(5)] by auto
qed

text \<open>The list after a check: the first watchpoint with a new value has taken it.\<close>

fun checked :: "(WP \<Rightarrow> word_t) \<Rightarrow> WP list \<Rightarrow> WP list" where
  "checked val [] = []"
| "checked val (w # ws) = (if val w \<noteq> wp_value w then w\<lparr>wp_value := val w\<rparr> # ws else w # checked val ws)"

lemma check_walk_result:
  assumes "mem_sys m" and "\<forall>w\<in>set ws. shows_value (cpu m) (ram_view m) (wp_expr w) (val w)" and "wp_head m = pre @ ws"
  shows "\<exists>m'. only_caches m m' \<and> check_walk pre ws m = Inr (\<exists>w\<in>set ws. val w \<noteq> wp_value w, m'\<lparr>wp_head := pre @ checked val ws\<rparr>)"
  using assms
proof (induction ws arbitrary: pre m)
  case Nil
  then show ?case using only_caches_refl by (intro exI [of _ m]) simp
next
  case (Cons w ws)
  have "shows_value (cpu m) (ram_view m) (wp_expr w) (val w)" using Cons.prems(2) by simp
  from expr_shows [OF Cons.prems(1) this] obtain ok m1 where m1: "expr (wp_expr w) m = Inr (val w, ok, m1)" "only_caches m m1" by blast
  note o = only_cachesD [OF m1(2)]
  show ?case
  proof (cases "val w = wp_value w")
    case True
    have h: "wp_head m1 = (pre @ [w]) @ ws" by (subst o(3)) (simp add: Cons.prems(3))
    have "\<forall>w\<in>set ws. shows_value (cpu m1) (ram_view m1) (wp_expr w) (val w)" using Cons.prems(2) unfolding o(2,4) by simp
    from Cons.IH [OF o(1) this h] obtain m' where m': "only_caches m1 m'"
        "check_walk (pre @ [w]) ws m1 = Inr (\<exists>w\<in>set ws. val w \<noteq> wp_value w, m'\<lparr>wp_head := (pre @ [w]) @ checked val ws\<rparr>)" by blast
    have "check_walk pre (w # ws) m = check_walk (pre @ [w]) ws m1" using True m1(1) by simp
    then show ?thesis using True m' only_caches_trans [OF m1(2) m'(1)] by (intro exI [of _ m']) simp
  next
    case False
    then show ?thesis using m1 by (intro exI [of _ m1]) simp
  qed
qed

section \<open>Properties\<close>

text \<open>
  C32. Whatever watchpoints are set, deleted and checked after start-up, the two lists always share out the 32 elements of the
  pool: no watchpoint is lost, active twice, or active and free at once.
\<close>

theorem wp_pool_partition:
  assumes "run_wp ops (init_wp_pool m) = Inr m'"
  shows "mset (map wp_NO (wp_head m' @ wp_free m')) = mset [0..<32] \<and> distinct (active m') \<and> length (active m') \<le> 32"
  using run_wp_inv [OF init_wp_inv assms] wp_inv_distinct [of m'] active_bound [of m'] by (auto simp: wp_inv_def active_def)

lemma expr_num: "expr [c] m = Inr (word_of_int (of_char c - 48), True, m)" if "c \<in> set ''0123456789''" for c m
proof -
  have "make_token [c] [] = Inr (Some [num [c]])" using that unfolding list.set by (elim insertE emptyE) (simp_all add: lexing num_def)
  then have "expr [c] m = aval (Leaf (num [c])) m"
    using eval_toks [of "Leaf (num [c])" 0 "[]" "[]" m] by (simp add: expr_def num_def last_of_def)
  then show ?thesis
    using that unfolding list.set
    by (elim insertE emptyE) (simp_all add: num_def eval_leaf_def scan_number_def digits_val_def digit_val_def in_range_def guard_def)
qed

theorem wp_pool_partition_witness:
  "\<exists>m'. run_wp [New ''1'', New ''2'', Free 0, Check, New ''3''] (init_wp_pool zero_machine) = Inr m' \<and> active m' = [0, 1] \<and> length (active m') \<le> 32"
proof -
  have "\<exists>m'. run_wp [New ''1'', New ''2'', Free 0, Check, New ''3''] (init_wp_pool zero_machine) = Inr m' \<and> active m' = [0, 1]"
    by (simp add: init_wp_pool_def new_wp_def guard_def expr_num upt_rec free_wp_def check_wp_def active_def)
  then show ?thesis using wp_pool_partition by blast
qed

text \<open>
  C40. A check of the watchpoints stops the run exactly when the expression of some active one has a new value, and then only the first
  such watchpoint takes its new value. Besides, the check may move blocks between the caches and RAM, since expressions may
  dereference memory, but leaves the registers, the value of every byte and everything else as it was. The expressions are those of
  the trees of C29, with defined values and dereferences inside RAM that do not cross a cache line.
\<close>

theorem check_wp_stops:
  assumes "mem_sys m" and "\<forall>w\<in>set (wp_head m). shows_value (cpu m) (ram_view m) (wp_expr w) (val w)"
  shows "\<exists>m'. check_wp m = Inr (\<exists>w\<in>set (wp_head m). val w \<noteq> wp_value w, m') \<and> wp_head m' = checked val (wp_head m) \<and>
    m' = m\<lparr>caches := caches m', pmem := pmem m', wp_head := wp_head m'\<rparr> \<and> mem_sys m' \<and> ram_view m' = ram_view m"
proof -
  obtain n where n: "only_caches m n" "check_walk [] (wp_head m) m = Inr (\<exists>w\<in>set (wp_head m). val w \<noteq> wp_value w, n\<lparr>wp_head := checked val (wp_head m)\<rparr>)"
    using check_walk_result [OF assms, of "[]"] by auto
  note o = only_cachesD [OF n(1)]
  let ?n = "n\<lparr>wp_head := checked val (wp_head m)\<rparr>"
  have "mem_eq n ?n" by (simp add: mem_eq_def)
  then have "mem_sys ?n" "ram_view ?n = ram_view m" using mem_eq_sys [of n ?n] o(1,2) by simp_all
  moreover have "?n = m\<lparr>caches := caches ?n, pmem := pmem ?n, wp_head := wp_head ?n\<rparr>" by (subst o(3)) simp
  ultimately show ?thesis using n(2) unfolding check_wp_def by (intro exI [of _ ?n]) simp
qed

text \<open>On the demonstration program: a watch on the first two instructions and one on a register.\<close>

lemma demo_shows:
  "shows_value (cpu demo_machine) (ram_view demo_machine) ''*0x80000000'' 0xffdff06f00150513"
  "shows_value (cpu demo_machine) (ram_view demo_machine) ''a0 + 5'' 5"
proof -
  let ?h = "\<lparr>tk_type = HEX, tk_str = ''0x80000000''\<rparr>" and ?r = "\<lparr>tk_type = REG, tk_str = ''a0''\<rparr>"
  let ?b = "Binary (Op CHR ''+'') (Leaf ?r) (Leaf (num ''5''))"
  have "load_bytes (ram_view demo_machine) 0 12 = demo_image" using demo_in_loop by (simp add: in_loop_def isa_of_def)
  then have "load_bytes (ram_view demo_machine) 0 8 = take 8 demo_image" by (simp add: load_bytes_def take_map flip: \<open>_ = demo_image\<close>)
  moreover have "take 8 demo_image = [0x13, 0x05, 0x15, 0x00, 0x6f, 0xf0, 0xdf, 0xff]" by code_simp
  moreover have "word_of_bytes [0x13, 0x05, 0x15, 0x00, 0x6f, 0xf0, 0xdf, 0xff] = 0xffdff06f00150513" by code_simp
  ultimately have "tree_value (Unary DEREF (Leaf ?h)) (cpu demo_machine) (ram_view demo_machine) = Some (0xffdff06f00150513, True)"
    by (simp add: leaf_value_def eval_leaf_def scan_hex_def scan_number_def digits_val_def digit_val_def in_range_def guard_def
      combine_value_def op_value_def access_ok_def ram_addr_def ram_off_def)
  moreover have "make_token ''*0x80000000'' [] = Inr (Some [tok (Op CHR ''*''), ?h])" by (simp add: lexing tok_def)
  moreover have "mark_deref None [tok (Op CHR ''*''), ?h] = toks (Unary DEREF (Leaf ?h))" by (simp add: tok_def wrap_def Let_def)
  moreover have "wf_ast (Unary DEREF (Leaf ?h))" by (simp add: unary_ops_def)
  ultimately show "shows_value (cpu demo_machine) (ram_view demo_machine) ''*0x80000000'' 0xffdff06f00150513"
    unfolding shows_value_def by (intro exI [of _ "[tok (Op CHR ''*''), ?h]"] exI [of _ "Unary DEREF (Leaf ?h)"] exI [of _ True]) simp
  have "tree_value ?b (cpu demo_machine) (ram_view demo_machine) = Some (5, True)"
    by (simp add: leaf_value_def eval_leaf_def num_def scan_number_def digits_val_def digit_val_def in_range_def guard_def reg_str2val_def regs_def
      combine_value_def op_value_def apply_op_def demo_fields)
  moreover have "make_token ''a0 + 5'' [] = Inr (Some (toks ?b))" by (simp add: lexing tok_def num_def wrap_def find_prior_def prior_arr_def)
  moreover have "mark_deref None (toks ?b) = toks ?b" by (simp add: tok_def num_def wrap_def find_prior_def prior_arr_def Let_def)
  moreover have "wf_ast ?b" by (simp add: binary_ops_def num_def)
  moreover have "depth_of ?b \<le> 35" by (simp add: find_prior_def prior_arr_def)
  ultimately show "shows_value (cpu demo_machine) (ram_view demo_machine) ''a0 + 5'' 5"
    unfolding shows_value_def by (intro exI [of _ "toks ?b"] exI [of _ ?b] exI [of _ True]) simp
qed

theorem check_wp_stops_witness:
  "\<exists>m'. check_wp (demo_machine\<lparr>wp_head := [\<lparr>wp_NO = 1, wp_expr = ''*0x80000000'', wp_value = 0xffdff06f00150513\<rparr>,
       \<lparr>wp_NO = 0, wp_expr = ''a0 + 5'', wp_value = 4\<rparr>]\<rparr>) = Inr (True, m') \<and>
     wp_head m' = [\<lparr>wp_NO = 1, wp_expr = ''*0x80000000'', wp_value = 0xffdff06f00150513\<rparr>, \<lparr>wp_NO = 0, wp_expr = ''a0 + 5'', wp_value = 5\<rparr>]"
proof -
  let ?m = "demo_machine\<lparr>wp_head := [\<lparr>wp_NO = 1, wp_expr = ''*0x80000000'', wp_value = 0xffdff06f00150513\<rparr>,
    \<lparr>wp_NO = 0, wp_expr = ''a0 + 5'', wp_value = 4\<rparr>]\<rparr>" and ?val = "\<lambda>w. if wp_NO w = 1 then 0xffdff06f00150513 else 5"
  have "mem_eq demo_machine ?m" by (simp add: mem_eq_def)
  then have s: "mem_sys ?m" "ram_view ?m = ram_view demo_machine" using mem_eq_sys [of demo_machine ?m] demo_sys by simp_all
  have "\<forall>w\<in>set (wp_head ?m). shows_value (cpu ?m) (ram_view ?m) (wp_expr w) (?val w)" unfolding s(2) using demo_shows by simp
  from check_wp_stops [OF s(1) this] show ?thesis by auto
qed

end
