(* ===== verification/Pipe_Stages.thy ===== *)
theory Pipe_Stages
  imports Pipeline Isa_Run
begin

text \<open>
  What each stage of the in-order pipeline does to the latches, the registers and the memory, in terms of the states of an
  ISA run: write-back, memory access, execution with flush, operand read with forwarding and stall, fetch with prediction.
\<close>

section \<open>Predicted targets\<close>

definition targets_in :: "vaddr_t set \<Rightarrow> BranchPredictor \<Rightarrow> bool" where
  "targets_in C bp \<longleftrightarrow> bp_inv bp \<and> (\<forall>e\<in>set (btb bp). btb_valid e \<longrightarrow> btb_target e \<in> C) \<and> set (ras_stack bp) \<subseteq> C"

lemma predict_targets:
  assumes "targets_in C bp" and "is_call raw \<Longrightarrow> pc + 4 \<in> C"
  shows "\<exists>r bp'. bpred_predict bp pc raw = Inr (r, bp') \<and> targets_in C bp' \<and> (bpr_btb_hit r \<longrightarrow> bpr_target r \<in> C)"
proof (cases "is_ret raw \<and> ras_count bp > 0")
  case True
  have inv: "bp_inv bp" and st: "set (ras_stack bp) \<subseteq> C" using assms(1) by (simp_all add: targets_in_def)
  have ne: "ras_stack bp \<noteq> []" using True by (simp add: ras_stack_def)
  obtain r bp' where p: "ras_pop bp = Inr (r, bp')" using ras_pop_inv [OF inv] True by blast
  then have t: "bpr_target r = hd (ras_stack bp)" "bp_inv bp'" "ras_stack bp' = tl (ras_stack bp)"
    using ras_pop_stack [OF inv ne] by (auto simp: ras_target_def)
  have "btb bp' = btb bp" using p by (auto simp: ras_pop_def elem_def)
  moreover have "set (tl (ras_stack bp)) \<subseteq> C" "hd (ras_stack bp) \<in> C"
    using st ne by (auto dest: list.set_sel(2))
  ultimately show ?thesis using True p t assms(1) by (simp add: bpred_predict_def targets_in_def)
next
  case False
  have inv: "bp_inv bp" using assms(1) by (simp add: targets_in_def)
  obtain b where b: "(if is_call raw then ras_push pc bp else Inr bp) = Inr b" "targets_in C b"
  proof (cases "is_call raw")
    case True
    obtain b where b: "ras_push pc bp = Inr b" "bp_inv b" using ras_push_inv [OF inv] by blast
    moreover have "set (ras_stack b) \<subseteq> C"
      using ras_push_stack [OF inv b(1)] assms True by (auto simp: targets_in_def dest: in_set_takeD)
    moreover have "btb b = btb bp" using b(1) by (auto simp: ras_push_def Let_def)
    ultimately show thesis using that True assms(1) by (simp add: targets_in_def)
  qed (use that assms(1) in simp)
  have "bp_inv b" using b(2) by (simp add: targets_in_def)
  note d = bp_invD [OF this]
  let ?e = "btb b ! btb_index pc"
  have "?e \<in> set (btb b)" using d(1) by simp
  then have "btb_match ?e pc \<Longrightarrow> btb_target ?e \<in> C" using b(2) by (simp add: targets_in_def btb_match_def)
  then show ?thesis
    unfolding bpred_predict_def if_not_P [OF False] b(1) using b(2) d by (simp add: elem_def)
qed

lemma update_btb_frame:
  assumes "update_btb ir bp = Inr bp'"
  shows "ras bp' = ras bp \<and> ras_top bp' = ras_top bp \<and> ras_count bp' = ras_count bp"
    "set (btb bp') \<subseteq> insert \<lparr>btb_tag = drop_bit 11 (ir_pc ir), btb_target = dnpc ir, btb_valid = True\<rparr> (set (btb bp))"
proof -
  let ?e = "\<lparr>btb_tag = drop_bit 11 (ir_pc ir), btb_target = dnpc ir, btb_valid = True\<rparr>"
  have "bp' = bp \<or> (\<exists>n. bp' = bp\<lparr>btb_misses := n, btb := (btb bp)[btb_index (ir_pc ir) := ?e]\<rparr>)"
    using assms by (auto simp: update_btb_def elem_def split: if_splits)
  then show "ras bp' = ras bp \<and> ras_top bp' = ras_top bp \<and> ras_count bp' = ras_count bp" "set (btb bp') \<subseteq> insert ?e (set (btb bp))"
    using set_update_subset_insert [of "btb bp" "btb_index (ir_pc ir)" ?e] by auto
qed

lemma bpred_update_frame:
  assumes "bpred_update bp ir = Inr bp'"
  shows "ras_stack bp' = ras_stack bp"
    "set (btb bp') \<subseteq> insert \<lparr>btb_tag = drop_bit 11 (ir_pc ir), btb_target = dnpc ir, btb_valid = True\<rparr> (set (btb bp))"
proof -
  let ?c = "bp\<lparr>predictions := predictions bp + 1,
    mispredictions := (if dnpc ir \<noteq> bp_predicted_pc ir then mispredictions bp + 1 else mispredictions bp)\<rparr>"
  have c: "ras ?c = ras bp" "ras_top ?c = ras_top bp" "ras_count ?c = ras_count bp" "btb ?c = btb bp" by simp_all
  have "bp' = bp \<or> (\<exists>b. update_btb ir ?c = Inr b \<and> ras bp' = ras b \<and> ras_top bp' = ras_top b \<and> ras_count bp' = ras_count b \<and> btb bp' = btb b)"
    using assms unfolding bpred_update_def Let_def by (cases "update_btb ir ?c") (auto split: if_splits)
  then show "ras_stack bp' = ras_stack bp"
      "set (btb bp') \<subseteq> insert \<lparr>btb_tag = drop_bit 11 (ir_pc ir), btb_target = dnpc ir, btb_valid = True\<rparr> (set (btb bp))"
    using update_btb_frame [of ir ?c] unfolding ras_stack_def c by auto
qed

lemma update_targets:
  assumes "targets_in C bp" and "dnpc ir \<in> C"
  shows "\<exists>bp'. bpred_update bp ir = Inr bp' \<and> targets_in C bp'"
proof -
  obtain bp' where b: "bpred_update bp ir = Inr bp'" "bp_inv bp'"
    using bpred_update_inv assms(1) unfolding targets_in_def by blast
  with bpred_update_frame [OF b(1)] assms show ?thesis by (fastforce simp: targets_in_def)
qed

section \<open>Latches and what a stage leaves alone\<close>

definition pipe_wf :: "Pipeline \<Rightarrow> bool" where
  "pipe_wf p \<longleftrightarrow> length (slots p) = 4 \<and> distinct [p_id p, p_ex p, p_mem p, p_wb p] \<and>
     set [p_id p, p_ex p, p_mem p, p_wb p] \<subseteq> {..<4}"

text \<open>The pointers, and the flags that steer the stages.\<close>

definition ptrs :: "machine \<Rightarrow> (nat \<times> nat \<times> nat \<times> nat) \<times> nat \<times> nat \<times> bool \<times> bool" where
  "ptrs m = ((p_id (cpu_pipe m), p_ex (cpu_pipe m), p_mem (cpu_pipe m), p_wb (cpu_pipe m)),
     length (slots (cpu_pipe m)), g_fetch_slot m, g_pipe_stalled m, g_bpred_mode m)"

lemma ptrsD:
  assumes "ptrs m' = ptrs m"
  shows "p_id (cpu_pipe m') = p_id (cpu_pipe m)" "p_ex (cpu_pipe m') = p_ex (cpu_pipe m)"
    "p_mem (cpu_pipe m') = p_mem (cpu_pipe m)" "p_wb (cpu_pipe m') = p_wb (cpu_pipe m)"
    "length (slots (cpu_pipe m')) = length (slots (cpu_pipe m))" "g_fetch_slot m' = g_fetch_slot m"
    "g_pipe_stalled m' = g_pipe_stalled m" "g_bpred_mode m' = g_bpred_mode m"
  using assms by (simp_all add: ptrs_def)

lemma put_latch_simps [simp]:
  "i < length (slots (cpu_pipe m)) \<Longrightarrow> latch j (put_latch i r m) = (if j = i then r else latch j m)"
  "ptrs (put_latch i r m) = ptrs m" "mem_eq m (put_latch i r m)" "env_eq m (put_latch i r m)"
  "cpu (put_latch i r m) = cpu m" "bpred_state (put_latch i r m) = bpred_state m" "g_difftest_en (put_latch i r m) = g_difftest_en m"
  "fetch_pc (cpu_pipe (put_latch i r m)) = fetch_pc (cpu_pipe m)"
  "mem_stall_rem (cpu_pipe (put_latch i r m)) = mem_stall_rem (cpu_pipe m)" "g_bpred_mode (put_latch i r m) = g_bpred_mode m"
  "p_id (cpu_pipe (put_latch i r m)) = p_id (cpu_pipe m)" "length (slots (cpu_pipe (put_latch i r m))) = length (slots (cpu_pipe m))"
  "pipe_stats (put_latch i r m) = pipe_stats m" "g_fetch_slot (put_latch i r m) = g_fetch_slot m"
  by (simp_all add: put_latch_def latch_def ptrs_def mem_eq_def env_eq_def)

text \<open>The memory system, the registers of one ISA state and the memory of another (or the same).\<close>

definition base :: "vaddr_t set \<Rightarrow> machine \<Rightarrow> isa_state \<Rightarrow> isa_state \<Rightarrow> bool" where
  "base C m s s' \<longleftrightarrow> mem_sys m \<and> code_clean (blk ` C) m \<and> \<not> g_difftest_en m \<and>
     cpu_pc (cpu m) = i_pc s \<and> gpr (cpu m) = i_regs s \<and> regs_ok (cpu m) \<and> ram_view m = i_mem s' \<and>
     (g_bpred_mode m \<longrightarrow> targets_in C (bpred_state m))"

text \<open>Updates that touch neither memory system nor registers nor predictor.\<close>

definition base_eq :: "machine \<Rightarrow> machine \<Rightarrow> bool" where
  "base_eq m m' \<longleftrightarrow> mem_eq m m' \<and> cpu m' = cpu m \<and> g_difftest_en m' = g_difftest_en m \<and> g_bpred_mode m' = g_bpred_mode m \<and>
     bpred_state m' = bpred_state m"

lemma base_eq: "base_eq m m' \<Longrightarrow> base C m' s s' = base C m s s'"
  using mem_eq_sys [of m m'] code_clean_mem_eq [of m m'] by (simp add: base_eq_def base_def)

lemma base_eq_put_latch [simp]: "base_eq m (put_latch i r m)"
  by (simp add: base_eq_def)

lemma base_eq_trans: "base_eq a b \<Longrightarrow> base_eq b c \<Longrightarrow> base_eq a c"
  by (simp add: base_eq_def mem_eq_def)

section \<open>WB\<close>

lemma WB_ok:
  assumes "base C m s s'" and "p_wb (cpu_pipe m) = w" and "w < length (slots (cpu_pipe m))"
    and "pr_valid (latch w m) \<Longrightarrow> retired (isa_op s) (isa_fetch s) s (pr_ir (latch w m))"
  shows "\<exists>m'. stage_WB stk m = Inr m' \<and> base C m' (adv (pr_valid (latch w m)) s) s' \<and> ptrs m' = ptrs m \<and> env_eq m m' \<and>
    fetch_pc (cpu_pipe m') = fetch_pc (cpu_pipe m) \<and> mem_stall_rem (cpu_pipe m') = mem_stall_rem (cpu_pipe m) \<and>
    (\<forall>i. latch i m' = (if i = w then (latch w m)\<lparr>pr_valid := False\<rparr> else latch i m)) \<and>
    ps_insts (pipe_stats m') = ps_insts (pipe_stats m) + of_bool (pr_valid (latch w m))"
proof (cases "pr_valid (latch w m)")
  case False
  then have "(latch w m)\<lparr>pr_valid := False\<rparr> = latch w m" by simp
  then show ?thesis using False assms(1,2) by (auto simp: stage_WB_def Let_def)
next
  case True
  let ?ir = "pr_ir (latch w m)" and ?t = "isa_next s"
  have r: "retired (isa_op s) (isa_fetch s) s ?ir" using assms(4) True .
  have b: "gpr (cpu m) = i_regs s" "regs_ok (cpu m)" "\<not> g_difftest_en m" using assms(1) by (simp_all add: base_def)
  note wb = writeback_stage [OF r b(1,2), folded isa_next_def]
  let ?m1 = "m\<lparr>cpu := (cpu m)\<lparr>gpr := i_regs ?t, cpu_pc := dnpc ?ir\<rparr>, pipe_stats := (pipe_stats m)\<lparr>ps_insts := ps_insts (pipe_stats m) + 1\<rparr>\<rparr>"
  let ?m2 = "put_latch w ((latch w m)\<lparr>pr_valid := False\<rparr>) ?m1"
  have l: "latch i ?m1 = latch i m" for i by (simp add: latch_def)
  have e: "stage_WB stk m = Inr ?m2"
    using True assms(2) wb b(3) l by (simp add: stage_WB_def difftest_step_def set_valid_def Let_def)
  have d: "dnpc ?ir = i_pc ?t" using r by (simp add: retired_def isa_next_def)
  have q: "mem_eq m ?m1" by (simp add: mem_eq_def)
  have "base C ?m1 ?t s'"
    using assms(1) wb d mem_eq_sys [OF q] code_clean_mem_eq [OF q] by (simp add: base_def)
  then have "base C ?m2 ?t s'" using base_eq [OF base_eq_put_latch] by blast
  moreover have "ptrs ?m2 = ptrs m" "env_eq m ?m2" "fetch_pc (cpu_pipe ?m2) = fetch_pc (cpu_pipe m)"
      "mem_stall_rem (cpu_pipe ?m2) = mem_stall_rem (cpu_pipe m)"
    by (simp_all add: ptrs_def env_eq_def put_latch_def)
  moreover have "latch i ?m2 = (if i = w then (latch w m)\<lparr>pr_valid := False\<rparr> else latch i m)" for i
    using assms(3) l by simp
  ultimately show ?thesis using e True by auto
qed

section \<open>MEM\<close>

lemma MEM_ok:
  assumes "base C m s s'" and "p_mem (cpu_pipe m) = i" and "i < length (slots (cpu_pipe m))" and "mem_stall_rem (cpu_pipe m) \<ge> 0"
    and "pr_valid (latch i m) \<Longrightarrow> executed (isa_op s') (isa_fetch s') s' (pr_ir (latch i m))" and "safe C s'"
  shows "\<exists>m' ir'. stage_MEM m = Inr m' \<and> base C m' s (adv (pr_valid (latch i m)) s') \<and> ptrs m' = ptrs m \<and> env_eq m m' \<and>
    fetch_pc (cpu_pipe m') = fetch_pc (cpu_pipe m) \<and> 0 \<le> mem_stall_rem (cpu_pipe m') \<and> mem_stall_rem (cpu_pipe m') \<le> max (mem_stall_rem (cpu_pipe m)) 39 \<and>
    (\<forall>j. latch j m' = (if j = i then \<lparr>pr_ir = ir', pr_valid = pr_valid (latch i m)\<rparr> else latch j m)) \<and>
    (pr_valid (latch i m) \<longrightarrow> retired (isa_op s') (isa_fetch s') s' ir') \<and> ps_insts (pipe_stats m') = ps_insts (pipe_stats m)"
proof (cases "pr_valid (latch i m)")
  case False
  then have "\<lparr>pr_ir = pr_ir (latch i m), pr_valid = False\<rparr> = latch i m" by simp
  then show ?thesis
    using False assms(1,2,4) by (intro exI [of _ m] exI [of _ "pr_ir (latch i m)"]) (simp add: stage_MEM_def Let_def)
next
  case True
  have b: "mem_sys m" "ram_view m = i_mem s'" "user_ok (isa_op s') (isa_fetch s') s'" "code_clean (blk ` C) m"
      "isa_op s' \<in> store_ops \<Longrightarrow> blk (isa_addr (isa_op s') (isa_fetch s') s') \<notin> blk ` C"
    using assms(1,6) by (simp_all add: base_def safe_def)
  obtain ir lat m1 where a: "ir_mem_access True (pr_ir (latch i m)) m = Inr (ir, lat, m1)" "lat \<le> 40"
      "mem_done (blk ` C) (isa_op s') (isa_fetch s') s' (pr_ir (latch i m)) m ir m1"
    using access_stage [OF assms(5) [OF True] b(3,1,2)] by blast
  have d: "retired (isa_op s') (isa_fetch s') s' ir" "ram_view m1 = i_mem (isa_next s')" "mem_sys m1"
      "mem_frame (mem_caches m) m m1" "code_clean (blk ` C) m1"
    using a(3) b(4,5) by (auto simp: mem_done_def isa_next_def)
  have fr: "m1 = m\<lparr>caches := caches m1, pmem := pmem m1\<rparr>" using d(4) by (simp add: mem_frame_def)
  have f1: "cpu_pipe m1 = cpu_pipe m" "cpu m1 = cpu m" "g_difftest_en m1 = g_difftest_en m" "g_bpred_mode m1 = g_bpred_mode m"
      "bpred_state m1 = bpred_state m" "ptrs m1 = ptrs m" "env_eq m m1" "pipe_stats m1 = pipe_stats m"
    by (subst fr, simp add: ptrs_def env_eq_def)+
  then have l: "latch j m1 = latch j m" for j by (simp add: latch_def)
  have b1: "base C m1 s (isa_next s')" using assms(1) d f1 by (simp add: base_def)
  let ?m2 = "set_ir i ir m1"
  let ?m3 = "if lat > 1 \<and> ir_type ir = ITYPE_LOAD
    then ?m2\<lparr>cpu_pipe := (cpu_pipe ?m2)\<lparr>mem_stall_rem := int lat - 1\<rparr>,
             pipe_stats := (pipe_stats ?m2)\<lparr>stall_cache_miss := stall_cache_miss (pipe_stats ?m2) + word_of_nat (lat - 1)\<rparr>\<rparr>
    else ?m2"
  have e: "stage_MEM m = Inr ?m3" using True assms(2) a(1) by (simp add: stage_MEM_def Let_def)
  have q: "base_eq ?m2 ?m3" "ptrs ?m3 = ptrs ?m2" "env_eq ?m2 ?m3" "latch j ?m3 = latch j ?m2" "fetch_pc (cpu_pipe ?m3) = fetch_pc (cpu_pipe ?m2)"
      "ps_insts (pipe_stats ?m3) = ps_insts (pipe_stats ?m2)" for j
    by (simp_all add: base_eq_def mem_eq_def ptrs_def env_eq_def latch_def)
  have "base C ?m3 s (isa_next s')" using base_eq [OF q(1)] base_eq [OF base_eq_put_latch] b1 by (simp add: set_ir_def)
  moreover have "ptrs ?m3 = ptrs m" using q(2) f1(6) by (simp add: set_ir_def)
  moreover have "env_eq m ?m3" using env_eq_trans [OF env_eq_trans [OF f1(7)] q(3)] by (simp add: set_ir_def)
  moreover have "0 \<le> mem_stall_rem (cpu_pipe ?m3) \<and> mem_stall_rem (cpu_pipe ?m3) \<le> max (mem_stall_rem (cpu_pipe m)) 39"
    using assms(4) a(2) f1(1) by (auto simp: set_ir_def)
  moreover have "latch j ?m2 = (if j = i then \<lparr>pr_ir = ir, pr_valid = pr_valid (latch i m)\<rparr> else latch j m)" for j
    using assms(3) f1(1) l by (simp add: set_ir_def)
  then have "latch j ?m3 = (if j = i then \<lparr>pr_ir = ir, pr_valid = pr_valid (latch i m)\<rparr> else latch j m)" for j
    using q(4) [of j] by (simp only:)
  moreover have "fetch_pc (cpu_pipe ?m3) = fetch_pc (cpu_pipe m)" using q(5) f1(1) by (simp add: set_ir_def)
  moreover have "ps_insts (pipe_stats ?m3) = ps_insts (pipe_stats m)" using q(6) f1(8) by (simp add: set_ir_def)
  ultimately show ?thesis using e d(1) True by (intro exI [of _ ?m3] exI [of _ ir]) simp
qed

section \<open>EX\<close>

lemma flush_simps [simp]:
  assumes "p_id (cpu_pipe m) < length (slots (cpu_pipe m))" and "g_fetch_slot m < length (slots (cpu_pipe m))"
  shows "latch j (flush pc m) = (if j = p_id (cpu_pipe m) \<or> j = g_fetch_slot m then (latch j m)\<lparr>pr_valid := False\<rparr> else latch j m)"
    "ptrs (flush pc m) = ptrs m" "base_eq m (flush pc m)" "env_eq m (flush pc m)" "fetch_pc (cpu_pipe (flush pc m)) = pc"
    "mem_stall_rem (cpu_pipe (flush pc m)) = mem_stall_rem (cpu_pipe m)" "pipe_stats (flush pc m) = pipe_stats m"
proof -
  let ?a = "set_valid (p_id (cpu_pipe m)) False m" let ?b = "set_valid (g_fetch_slot m) False ?a"
  have f: "flush pc m = ?b\<lparr>cpu_pipe := (cpu_pipe ?b)\<lparr>fetch_pc := pc\<rparr>\<rparr>" by (simp add: flush_def Let_def)
  have l: "latch j ?b = (if j = p_id (cpu_pipe m) \<or> j = g_fetch_slot m then (latch j m)\<lparr>pr_valid := False\<rparr> else latch j m)" for j
    using assms by (simp add: set_valid_def)
  show "latch j (flush pc m) = (if j = p_id (cpu_pipe m) \<or> j = g_fetch_slot m then (latch j m)\<lparr>pr_valid := False\<rparr> else latch j m)"
    using l [of j] by (simp add: f latch_def)
  show "ptrs (flush pc m) = ptrs m" "base_eq m (flush pc m)" "env_eq m (flush pc m)" "fetch_pc (cpu_pipe (flush pc m)) = pc"
    "mem_stall_rem (cpu_pipe (flush pc m)) = mem_stall_rem (cpu_pipe m)" "pipe_stats (flush pc m) = pipe_stats m"
    by (simp_all add: f set_valid_def put_latch_def latch_def ptrs_def base_eq_def mem_eq_def env_eq_def)
qed

text \<open>The instruction in EX after execution, and whether the fetch path was wrong.\<close>

definition wrong_path :: "isa_state \<Rightarrow> PipeReg \<Rightarrow> bool" where
  "wrong_path s r \<longleftrightarrow> pr_valid r \<and> i_pc (isa_next s) \<noteq> bp_predicted_pc (pr_ir r)"

lemma executed_dnpc: "executed x raw s ir \<Longrightarrow> dnpc ir = i_pc (isa_step x raw s)"
  by (auto simp: executed_def retired_def isa_step_def Let_def load_ops_def store_ops_def alu_ops_def split: if_splits)

lemma EX_ok:
  assumes "base C m s s'" and "p_ex (cpu_pipe m) = i" and "pipe_wf (cpu_pipe m)" and "g_fetch_slot m = p_wb (cpu_pipe m)"
    and v: "pr_valid (latch i m) \<Longrightarrow> ready (isa_op s') (isa_fetch s') s' (pr_ir (latch i m)) \<and>
      (\<not> g_bpred_mode m \<longrightarrow> bp_predicted_pc (pr_ir (latch i m)) = i_pc s' + 4)"
    and "safe C s'" and "safe C (isa_next s')"
  shows "\<exists>m' ir'. stage_EX m = Inr m' \<and> base C m' s s' \<and> ptrs m' = ptrs m \<and> env_eq m m' \<and>
    fetch_pc (cpu_pipe m') = (if wrong_path s' (latch i m) then i_pc (isa_next s') else fetch_pc (cpu_pipe m)) \<and>
    mem_stall_rem (cpu_pipe m') = mem_stall_rem (cpu_pipe m) \<and>
    (\<forall>j. latch j m' = (if j = i then \<lparr>pr_ir = ir', pr_valid = pr_valid (latch i m)\<rparr>
       else if wrong_path s' (latch i m) \<and> (j = p_id (cpu_pipe m) \<or> j = p_wb (cpu_pipe m)) then (latch j m)\<lparr>pr_valid := False\<rparr>
       else latch j m)) \<and>
    (pr_valid (latch i m) \<longrightarrow> executed (isa_op s') (isa_fetch s') s' ir') \<and> ps_insts (pipe_stats m') = ps_insts (pipe_stats m)"
proof (cases "pr_valid (latch i m)")
  case False
  then have "\<lparr>pr_ir = pr_ir (latch i m), pr_valid = False\<rparr> = latch i m" by simp
  then show ?thesis
    using False assms(1,2) by (intro exI [of _ m] exI [of _ "pr_ir (latch i m)"]) (simp add: stage_EX_def wrong_path_def Let_def)
next
  case True
  let ?r = "pr_ir (latch i m)" and ?x = "isa_op s'" and ?raw = "isa_fetch s'"
  have wf: "i < length (slots (cpu_pipe m))" "p_id (cpu_pipe m) < length (slots (cpu_pipe m))"
      "p_wb (cpu_pipe m) < length (slots (cpu_pipe m))" "i \<noteq> p_id (cpu_pipe m)" "i \<noteq> p_wb (cpu_pipe m)"
    using assms(2,3) by (auto simp: pipe_wf_def)
  have "user_ok ?x ?raw s'" using assms(6) by (simp add: safe_def)
  with execute_stage [of ?x ?raw s' ?r "cpu m" m] v [OF True] obtain ir m1 where
    e: "ir_execute ?r (cpu m) m = Inr (ir, m1)" "executed ?x ?raw s' ir" "same_inst ?r ir" "trace_eq m m1" by blast
  have fr: "m1 = m\<lparr>ftrace := ftrace m1, ftrace_depth := ftrace_depth m1\<rparr>" using e(4) by (simp add: trace_eq_def)
  have f1: "cpu_pipe m1 = cpu_pipe m" "g_bpred_mode m1 = g_bpred_mode m" "bpred_state m1 = bpred_state m"
      "ptrs m1 = ptrs m" "pipe_stats m1 = pipe_stats m" "base_eq m m1" "env_eq m m1" "g_fetch_slot m1 = g_fetch_slot m"
    by (subst fr, simp add: ptrs_def env_eq_def base_eq_def mem_eq_def)+
  then have l1: "latch j m1 = latch j m" for j by (simp add: latch_def)
  let ?m2 = "set_ir i ir m1"
  have l2: "latch j ?m2 = (if j = i then \<lparr>pr_ir = ir, pr_valid = True\<rparr> else latch j m)" for j
    using wf(1) f1(1) l1 True by (simp add: set_ir_def)
  have b2: "base C ?m2 s s'" "ptrs ?m2 = ptrs m" "env_eq m ?m2" "fetch_pc (cpu_pipe ?m2) = fetch_pc (cpu_pipe m) \<and> mem_stall_rem (cpu_pipe ?m2) = mem_stall_rem (cpu_pipe m)"
      "length (slots (cpu_pipe ?m2)) = length (slots (cpu_pipe m))"
    using base_eq [OF f1(6), of C s s'] base_eq [OF base_eq_put_latch, of C i _ m1 s s'] f1 assms(1)
    by (simp_all add: set_ir_def env_eq_trans)
  have si: "fault ir = fault ?r" "bp_predicted_pc ir = bp_predicted_pc ?r" "ir_snpc ir = i_pc s' + 4" "\<not> fault ir"
    using e(3) v [OF True] by (simp_all add: same_inst_def ready_def fmt_def)
  have dn: "dnpc ir = i_pc (isa_next s')" using executed_dnpc [OF e(2)] by (simp add: isa_next_def)
  have w: "wrong_path s' (latch i m) \<longleftrightarrow> dnpc ir \<noteq> bp_predicted_pc ir" using True dn si(2) by (simp add: wrong_path_def)
  let ?fl = "dnpc ir \<noteq> bp_predicted_pc ir"
  obtain bp n where m': "stage_EX m = Inr (if ?fl then (flush (dnpc ir) (?m2\<lparr>bpred_state := bp\<rparr>))\<lparr>pipe_stats := n\<rparr> else ?m2\<lparr>bpred_state := bp\<rparr>)"
      "g_bpred_mode m \<longrightarrow> targets_in C bp" "ps_insts n = ps_insts (pipe_stats m)"
  proof (cases "g_bpred_mode m")
    case False
    have "ps_insts ((pipe_stats ?m2)\<lparr>stall_control := stall_control (pipe_stats ?m2) + 1\<rparr>) = ps_insts (pipe_stats m)"
      using f1(5) by (simp add: set_ir_def)
    moreover have "bp_predicted_pc ir = ir_snpc ir" using si(2,3) v [OF True] False by simp
    moreover have "\<not> g_bpred_mode ?m2" using False f1(2) by (simp add: set_ir_def)
    then have "stage_EX m = Inr (if dnpc ir \<noteq> ir_snpc ir then (flush (dnpc ir) ?m2)\<lparr>pipe_stats := (pipe_stats ?m2)\<lparr>stall_control := stall_control (pipe_stats ?m2) + 1\<rparr>\<rparr> else ?m2)"
      using True assms(2) e(1) si(4) by (simp add: stage_EX_def Let_def)
    moreover have "?m2\<lparr>bpred_state := bpred_state ?m2\<rparr> = ?m2" by simp
    ultimately show thesis
      using that [of "(pipe_stats ?m2)\<lparr>stall_control := stall_control (pipe_stats ?m2) + 1\<rparr>" "bpred_state ?m2"] False by (simp only:) blast
  next
    case T: True
    have tg: "targets_in C (bpred_state ?m2)" using b2(1) T f1(2) by (simp add: base_def set_ir_def)
    obtain bp where bp: "(if is_control (ir_raw ir) then bind_res (bpred_update (bpred_state ?m2) ir) (\<lambda>bp. Inr (?m2\<lparr>bpred_state := bp\<rparr>)) else Inr ?m2) =
        Inr (?m2\<lparr>bpred_state := bp\<rparr>)" "targets_in C bp"
    proof (cases "is_control (ir_raw ir)")
      case True
      have "dnpc ir \<in> C" using assms(7) dn by (simp add: safe_def)
      then obtain bp where "bpred_update (bpred_state ?m2) ir = Inr bp" "targets_in C bp" using update_targets [OF tg] by blast
      then show thesis using that [of bp] True by simp
    qed (use that [of "bpred_state ?m2"] tg in simp)
    have "(flush pc (?m2\<lparr>bpred_state := bp\<rparr>))\<lparr>pipe_stats := pipe_stats ?m2\<rparr> = flush pc (?m2\<lparr>bpred_state := bp\<rparr>)" for pc
      by (simp add: flush_def set_valid_def put_latch_def Let_def)
    moreover have "g_bpred_mode ?m2" using T f1(2) by (simp add: set_ir_def)
    then have "stage_EX m = Inr (if ?fl then flush (dnpc ir) (?m2\<lparr>bpred_state := bp\<rparr>) else ?m2\<lparr>bpred_state := bp\<rparr>)"
      using True assms(2) e(1) bp(1) by (simp add: stage_EX_def Let_def if_not_P [OF si(4)] split del: if_split cong del: if_weak_cong)
    moreover have "ps_insts (pipe_stats ?m2) = ps_insts (pipe_stats m)" using f1(5) by (simp add: set_ir_def)
    ultimately show thesis using that [of "pipe_stats ?m2" bp] bp(2) by (simp only:) blast
  qed
  let ?m3 = "?m2\<lparr>bpred_state := bp\<rparr>"
  have q3: "ptrs ?m3 = ptrs m" "env_eq m ?m3" "latch j ?m3 = latch j ?m2" "cpu_pipe ?m3 = cpu_pipe ?m2" for j
    using b2(2,3) by (simp_all add: ptrs_def env_eq_def latch_def)
  have mq: "mem_eq ?m2 ?m3" by (simp add: mem_eq_def)
  have b3: "base C ?m3 s s'"
    using b2(1) m'(2) mem_eq_sys [OF mq] code_clean_mem_eq [OF mq] f1(2) by (simp add: base_def set_ir_def)
  note p3 = ptrsD [OF q3(1)]
  let ?m4 = "if ?fl then (flush (dnpc ir) ?m3)\<lparr>pipe_stats := n\<rparr> else ?m3"
  have in3: "p_id (cpu_pipe ?m3) < length (slots (cpu_pipe ?m3))" "g_fetch_slot ?m3 < length (slots (cpu_pipe ?m3))"
    using wf(2,3) p3 assms(4) by simp_all
  note fs = flush_simps [OF in3, where pc = "dnpc ir"]
  have q4: "base_eq ?m3 ?m4" "ptrs ?m4 = ptrs m" "env_eq m ?m4" "mem_stall_rem (cpu_pipe ?m4) = mem_stall_rem (cpu_pipe m)"
      "fetch_pc (cpu_pipe ?m4) = (if ?fl then dnpc ir else fetch_pc (cpu_pipe m))"
  proof -
    have n: "base_eq x (x\<lparr>pipe_stats := n\<rparr>)" "ptrs (x\<lparr>pipe_stats := n\<rparr>) = ptrs x" "env_eq x (x\<lparr>pipe_stats := n\<rparr>)" for x
      by (simp_all add: base_eq_def mem_eq_def ptrs_def env_eq_def)
    have "base_eq ?m3 ?m3" by (simp add: base_eq_def mem_eq_def)
    then show "base_eq ?m3 ?m4" using base_eq_trans [OF fs(3) n(1)] by simp
    show "ptrs ?m4 = ptrs m" using fs(2) n(2) q3(1) by simp
    show "env_eq m ?m4" using env_eq_trans [OF q3(2) env_eq_trans [OF fs(4) n(3)]] q3(2) by simp
    show "mem_stall_rem (cpu_pipe ?m4) = mem_stall_rem (cpu_pipe m)" "fetch_pc (cpu_pipe ?m4) = (if ?fl then dnpc ir else fetch_pc (cpu_pipe m))"
      using fs(5,6) b2(4) by simp_all
  qed
  have l4: "latch j ?m4 = (if j = i then \<lparr>pr_ir = ir, pr_valid = True\<rparr>
       else if ?fl \<and> (j = p_id (cpu_pipe m) \<or> j = p_wb (cpu_pipe m)) then (latch j m)\<lparr>pr_valid := False\<rparr> else latch j m)" for j
  proof -
    have "latch j ?m4 = (if ?fl then latch j (flush (dnpc ir) ?m3) else latch j ?m3)" by (simp add: latch_def)
    then show ?thesis using fs(1) [of j] q3(3) [of j] l2 [of j] p3 assms(4) wf(4,5) by (cases "j = i") simp_all
  qed
  have "ps_insts (pipe_stats ?m4) = ps_insts (pipe_stats m)" using m'(3) f1(5) by (simp add: set_ir_def)
  then show ?thesis
    using m'(1) base_eq [OF q4(1)] b3 q4(2-5) l4 e(2) True w dn by (intro exI [of _ ?m4] exI [of _ ir]) simp
qed

section \<open>ID\<close>

text \<open>A decoded instruction in ID: its format, its prediction, and its operands that are not read from registers.\<close>

definition id_ok :: "vaddr_t \<Rightarrow> u32 \<Rightarrow> IR_Inst \<Rightarrow> bool" where
  "id_ok pc raw ir \<longleftrightarrow> fmt (table_lookup inst_table raw) raw pc ir \<and>
     (ir_rs1 ir = 0 \<longrightarrow> src1_val ir = 0) \<and> (ir_rs2 ir = 0 \<longrightarrow> src2_val ir = 0)"

lemma id_ok_fields: "id_ok pc raw ir \<Longrightarrow> reg_field (ir_rs1 ir) \<and> reg_field (ir_rs2 ir)"
  using ibits_reg [where i = raw and lo = 15] ibits_reg [where i = raw and lo = 20]
  by (simp add: id_ok_def fmt_def reg_field_def)

lemma reread_simps [simp]:
  "ir_rs1 (reread c ir) = ir_rs1 ir" "ir_rs2 (reread c ir) = ir_rs2 ir" "ir_pc (reread c ir) = ir_pc ir"
  "ir_raw (reread c ir) = ir_raw ir" "bp_predicted_pc (reread c ir) = bp_predicted_pc ir"
  by (simp_all add: reread_def Let_def)

lemma forward_simps [simp]:
  "ir_rs1 (forward f ir) = ir_rs1 ir" "ir_rs2 (forward f ir) = ir_rs2 ir" "ir_pc (forward f ir) = ir_pc ir"
  "ir_raw (forward f ir) = ir_raw ir" "bp_predicted_pc (forward f ir) = bp_predicted_pc ir"
  by (simp_all add: forward_def Let_def)

lemma fmt_reread: "fmt x raw pc ir \<Longrightarrow> fmt x raw pc (reread c ir)"
  by (auto simp: fmt_def reread_def Let_def)

lemma fmt_forward: "fmt x raw pc ir \<Longrightarrow> ir_rd f > 0 \<Longrightarrow> fmt x raw pc (forward f ir)"
  by (auto simp: fmt_def forward_def Let_def)

lemma id_ok_reread: "id_ok pc raw ir \<Longrightarrow> id_ok pc raw (reread c ir)"
  using fmt_reread by (auto simp: id_ok_def) (auto simp: reread_def Let_def)

lemma reread_operands:
  assumes "id_ok pc raw ir" and "regs_ok c"
  shows "operands (gpr c) (reread c ir)"
  using assms id_ok_fields [OF assms(1)] by (auto simp: id_ok_def operands_def reread_def regs_ok_def reg_field_def Let_def)

text \<open>Forwarding a result that is about to be written gives the operands after the write.\<close>

lemma forward_operands:
  assumes "retired x raw s f" and "operands (i_regs s) ir" and "length (i_regs s) = 32"
    and "reg_field (ir_rs1 ir)" and "reg_field (ir_rs2 ir)"
  shows "operands (i_regs (isa_step x raw s)) (if ir_rd f > 0 then forward f ir else ir)"
proof -
  have r: "reg_field (ir_rd f)" "i_regs (isa_step x raw s) = (if ir_rd f = -1 then i_regs s else set_reg (nat (ir_rd f)) (result f) (i_regs s))"
    using assms(1) by (simp_all add: retired_def)
  show ?thesis
  proof (cases "ir_rd f > 0")
    case True
    then show ?thesis
      using r assms(2-5) by (auto simp: operands_def forward_def set_reg_def reg_field_def nth_list_update Let_def nat_eq_iff2)
  next
    case False
    then show ?thesis using r assms(2) by (auto simp: set_reg_def reg_field_def)
  qed
qed

text \<open>A load whose target is no operand leaves the operands as they are.\<close>

lemma load_operands:
  assumes "executed x raw s f" and "x \<in> load_ops" and "operands (i_regs s) ir"
    and "\<not> (ir_rd f > 0 \<and> (ir_rd f = ir_rs1 ir \<or> ir_rd f = ir_rs2 ir))"
  shows "operands (i_regs (isa_step x raw s)) ir"
proof -
  have rd: "ir_rd f = uint (ibits raw 11 7)" using assms(1,2) by (simp add: executed_def)
  have no: "x \<notin> set alu_ops" "x \<notin> store_ops" "x \<notin> {X_lui, X_auipc, X_jal, X_jalr}"
    using assms(2) by (auto simp: alu_ops_def load_ops_def store_ops_def)
  obtain v where "i_regs (isa_step x raw s) = set_reg (nat (ir_rd f)) v (i_regs s)"
    using no assms(2) rd by (simp add: isa_step_def Let_def)
  then show ?thesis
    using assms(3,4) by (auto simp: operands_def set_reg_def nth_list_update)
qed

definition load_use :: "PipeReg \<Rightarrow> IR_Inst \<Rightarrow> bool" where
  "load_use ex ir \<longleftrightarrow> pr_valid ex \<and> ir_type (pr_ir ex) = ITYPE_LOAD \<and> ir_rd (pr_ir ex) > 0 \<and>
     (ir_rd (pr_ir ex) = ir_rs1 ir \<or> ir_rd (pr_ir ex) = ir_rs2 ir)"

text \<open>
  The instruction in ID at the address of the ISA state reached behind MEM (\<open>s\<close>) and EX (\<open>t\<close>): unless it must wait for a load
  it leaves the stage with the operands of that state.
\<close>

lemma ID_operands:
  assumes id: "id_ok (i_pc u) (isa_fetch u) ir" and u: "u = adv (pr_valid ex) t" and t: "t = adv (pr_valid mm) s" and "safe C u"
    and "gpr c = i_regs s" and "regs_ok c" and "length (i_regs t) = 32"
    and m: "pr_valid mm \<Longrightarrow> retired (isa_op s) (isa_fetch s) s (pr_ir mm)"
    and e: "pr_valid ex \<Longrightarrow> executed (isa_op t) (isa_fetch t) t (pr_ir ex)"
    and nl: "\<not> load_use ex (reread c ir)"
  defines "ir1 \<equiv> (if pr_valid mm \<and> ir_rd (pr_ir mm) > 0 then forward (pr_ir mm) (reread c ir) else reread c ir)"
  defines "ir2 \<equiv> (if pr_valid ex \<and> ir_rd (pr_ir ex) > 0 \<and> ir_type (pr_ir ex) \<noteq> ITYPE_LOAD then forward (pr_ir ex) ir1 else ir1)"
  shows "ready (isa_op u) (isa_fetch u) u ir2"
proof -
  have rf: "reg_field (ir_rs1 ir)" "reg_field (ir_rs2 ir)" using id_ok_fields [OF id] by simp_all
  have uo: "fmt (isa_op u) (isa_fetch u) (i_pc u) ir"
    using id by (simp add: id_ok_def isa_op_def)
  have 0: "operands (i_regs s) (reread c ir)" using reread_operands [OF id assms(6)] assms(5) by simp
  have 1: "operands (i_regs t) ir1"
    using forward_operands [OF m 0] 0 rf assms(5,6) t by (cases "pr_valid mm") (simp_all add: ir1_def isa_next_def regs_ok_def)
  have r1: "ir_rs1 ir1 = ir_rs1 ir" "ir_rs2 ir1 = ir_rs2 ir" by (simp_all add: ir1_def)
  have 2: "operands (i_regs u) ir2"
  proof (cases "pr_valid ex")
    case False
    then show ?thesis using 1 u by (simp add: ir2_def)
  next
    case True
    note ex = e [OF True]
    show ?thesis
    proof (cases "isa_op t \<in> load_ops")
      case L: True
      then have "ir_type (pr_ir ex) = ITYPE_LOAD" using ex by (simp add: executed_def)
      then show ?thesis
        using load_operands [OF ex L 1] nl True u r1 by (simp add: ir2_def load_use_def isa_next_def)
    next
      case L: False
      then have r: "retired (isa_op t) (isa_fetch t) t (pr_ir ex) \<or> isa_op t \<in> store_ops"
        and nt: "ir_type (pr_ir ex) \<noteq> ITYPE_LOAD" using ex by (auto simp: executed_def split: if_splits)
      show ?thesis
      proof (cases "isa_op t \<in> store_ops")
        case S: True
        then have "ir_rd (pr_ir ex) = -1" using ex L by (simp add: executed_def)
        moreover have "i_regs (isa_next t) = i_regs t"
          unfolding isa_next_def by (rule isa_step_store_regs [OF S])
        ultimately show ?thesis using 1 u True by (simp add: ir2_def)
      next
        case False
        then have "retired (isa_op t) (isa_fetch t) t (pr_ir ex)" using r by blast
        from forward_operands [OF this 1 assms(7)] rf r1 show ?thesis using u True nt by (simp add: ir2_def isa_next_def)
      qed
    qed
  qed
  have "fmt (isa_op u) (isa_fetch u) (i_pc u) ir2"
    using fmt_reread [OF uo] fmt_forward by (simp add: ir1_def ir2_def)
  then show ?thesis using 2 by (simp add: ready_def)
qed

lemma stage_ID_eq:
  assumes "p_id (cpu_pipe m) = d" and "pr_valid (latch d m)"
  defines "ex \<equiv> latch (p_ex (cpu_pipe m)) m" and "mm \<equiv> latch (p_mem (cpu_pipe m)) m" and "r \<equiv> reread (cpu m) (pr_ir (latch d m))"
  defines "i1 \<equiv> (if pr_valid mm \<and> ir_rd (pr_ir mm) > 0 then forward (pr_ir mm) r else r)"
  shows "stage_ID m = (if load_use ex r
    then (set_ir d r m)\<lparr>pipe_stats := (pipe_stats m)\<lparr>stall_load_use := stall_load_use (pipe_stats m) + 1\<rparr>, g_pipe_stalled := True\<rparr>
    else set_ir d (if pr_valid ex \<and> ir_rd (pr_ir ex) > 0 \<and> ir_type (pr_ir ex) \<noteq> ITYPE_LOAD then forward (pr_ir ex) i1 else i1) m)"
  unfolding stage_ID_def Let_def assms(1) load_use_def i1_def ex_def mm_def r_def using assms(2) by (simp only: not_True_eq_False if_False)

lemma ID_ok:
  assumes "base C m s t" and "t = adv (pr_valid (latch (p_mem (cpu_pipe m)) m)) s" and "pipe_wf (cpu_pipe m)"
    and "u = adv (pr_valid (latch (p_ex (cpu_pipe m)) m)) t" and "safe C u" and "length (i_regs t) = 32"
    and d: "p_id (cpu_pipe m) = d" "pr_valid (latch d m) \<Longrightarrow> id_ok (i_pc u) (isa_fetch u) (pr_ir (latch d m))"
    and mm: "pr_valid (latch (p_mem (cpu_pipe m)) m) \<Longrightarrow> retired (isa_op s) (isa_fetch s) s (pr_ir (latch (p_mem (cpu_pipe m)) m))"
    and ex: "pr_valid (latch (p_ex (cpu_pipe m)) m) \<Longrightarrow> executed (isa_op t) (isa_fetch t) t (pr_ir (latch (p_ex (cpu_pipe m)) m))"
    and "\<not> g_pipe_stalled m"
  shows "\<exists>ir' st. g_pipe_stalled (stage_ID m) = st \<and> base C (stage_ID m) s t \<and>
    ptrs ((stage_ID m)\<lparr>g_pipe_stalled := False\<rparr>) = ptrs m \<and> env_eq m (stage_ID m) \<and>
    fetch_pc (cpu_pipe (stage_ID m)) = fetch_pc (cpu_pipe m) \<and> mem_stall_rem (cpu_pipe (stage_ID m)) = mem_stall_rem (cpu_pipe m) \<and>
    (\<forall>j. latch j (stage_ID m) = (if j = d then (latch d m)\<lparr>pr_ir := ir'\<rparr> else latch j m)) \<and>
    (pr_valid (latch d m) \<longrightarrow> bp_predicted_pc ir' = bp_predicted_pc (pr_ir (latch d m)) \<and>
      (if st then id_ok (i_pc u) (isa_fetch u) ir' else ready (isa_op u) (isa_fetch u) u ir')) \<and> (\<not> pr_valid (latch d m) \<longrightarrow> \<not> st) \<and>
    (st \<longrightarrow> pr_valid (latch (p_ex (cpu_pipe m)) m)) \<and> ps_insts (pipe_stats (stage_ID m)) = ps_insts (pipe_stats m)"
proof (cases "pr_valid (latch d m)")
  case False
  then have e: "stage_ID m = m" using d(1) by (simp add: stage_ID_def Let_def)
  show ?thesis
    unfolding e using False assms(1) \<open>\<not> g_pipe_stalled m\<close>
    by (intro exI [of _ "pr_ir (latch d m)"] exI [of _ False]) (simp add: ptrs_def)
next
  case True
  let ?ex = "latch (p_ex (cpu_pipe m)) m" and ?mm = "latch (p_mem (cpu_pipe m)) m" and ?ir = "pr_ir (latch d m)"
  let ?r = "reread (cpu m) ?ir"
  let ?i1 = "if pr_valid ?mm \<and> ir_rd (pr_ir ?mm) > 0 then forward (pr_ir ?mm) ?r else ?r"
  let ?i2 = "if pr_valid ?ex \<and> ir_rd (pr_ir ?ex) > 0 \<and> ir_type (pr_ir ?ex) \<noteq> ITYPE_LOAD then forward (pr_ir ?ex) ?i1 else ?i1"
  have dl: "d < length (slots (cpu_pipe m))" using assms(3) d(1) by (auto simp: pipe_wf_def)
  have b: "gpr (cpu m) = i_regs s" "regs_ok (cpu m)" using assms(1) by (simp_all add: base_def)
  have id: "id_ok (i_pc u) (isa_fetch u) ?ir" using d(2) True .
  have li: "latch j (set_ir d r m) = (if j = d then (latch d m)\<lparr>pr_ir := r\<rparr> else latch j m)" for j r
    using dl by (simp add: set_ir_def)
  have bi: "base C (set_ir d r m) s t" "ptrs (set_ir d r m) = ptrs m" "env_eq m (set_ir d r m)" "base_eq m (set_ir d r m)" for r
    using base_eq [OF base_eq_put_latch] assms(1) by (simp_all add: set_ir_def)
  show ?thesis
  proof (cases "load_use ?ex ?r")
    case L: True
    let ?m = "(set_ir d ?r m)\<lparr>pipe_stats := (pipe_stats m)\<lparr>stall_load_use := stall_load_use (pipe_stats m) + 1\<rparr>, g_pipe_stalled := True\<rparr>"
    have e: "stage_ID m = ?m" unfolding stage_ID_eq [OF d(1) True] using L by (simp only: if_True)
    have q: "base_eq (set_ir d ?r m) ?m" "latch j ?m = latch j (set_ir d ?r m)" for j by (simp_all add: base_eq_def mem_eq_def latch_def)
    have "ptrs (?m\<lparr>g_pipe_stalled := False\<rparr>) = ptrs m" "env_eq m ?m"
      using bi(2,3) \<open>\<not> g_pipe_stalled m\<close> by (simp_all add: ptrs_def env_eq_def)
    then show ?thesis
      unfolding e using base_eq [OF q(1)] bi(1) q(2) li id_ok_reread [OF id] True L
      by (intro exI [of _ ?r] exI [of _ True]) (simp add: set_ir_def load_use_def)
  next
    case L: False
    have e: "stage_ID m = set_ir d ?i2 m" unfolding stage_ID_eq [OF d(1) True] using L by (simp only: if_False)
    have r: "ready (isa_op u) (isa_fetch u) u ?i2"
      by (rule ID_operands [OF id assms(4,2,5) b assms(6) mm ex L])
    have "bp_predicted_pc ?i2 = bp_predicted_pc ?ir" by simp
    then show ?thesis
      unfolding e using bi li r True \<open>\<not> g_pipe_stalled m\<close>
      by (intro exI [of _ ?i2] exI [of _ False]) (simp add: set_ir_def ptrs_def)
  qed
qed

section \<open>IF\<close>

lemma fetched_id_ok:
  assumes "user_op (table_lookup inst_table raw)" and "regs_ok (cpu m)"
  shows "id_ok pc raw ((ir_decode raw pc (pc + 4) stk m)\<lparr>bp_predict_taken := t, bp_predicted_pc := q\<rparr>)"
proof -
  let ?x = "table_lookup inst_table raw" and ?ir = "ir_decode raw pc (pc + 4) stk m"
  note d = decode_stage [OF refl assms(1), where pc = pc and stk = stk and m = m]
  have "fmt ?x raw pc (?ir\<lparr>bp_predict_taken := t, bp_predicted_pc := q\<rparr>)" using d(1) by (simp add: fmt_def)
  then show ?thesis using d(2) assms(2) by (simp add: id_ok_def operands_def regs_ok_def)
qed

lemma IF_ok:
  assumes "base C m s s'" and "g_fetch_slot m = w" and "w < length (slots (cpu_pipe m))" and "\<not> g_pipe_stalled m"
    and "fetch_pc (cpu_pipe m) = pc" and "pc \<in> C" and "fetchable C" and cl: "g_bpred_mode m \<Longrightarrow> is_call (code_at s' pc) \<Longrightarrow> pc + 4 \<in> C"
  shows "\<exists>m' ir'. stage_IF m = Inr m' \<and> base C m' s s' \<and> ptrs m' = ptrs m \<and> env_eq m m' \<and>
    mem_stall_rem (cpu_pipe m') = mem_stall_rem (cpu_pipe m) \<and>
    (\<forall>j. latch j m' = (if j = w then \<lparr>pr_ir = ir', pr_valid = True\<rparr> else latch j m)) \<and>
    (user_op (table_lookup inst_table (code_at s' pc)) \<longrightarrow> id_ok pc (code_at s' pc) ir') \<and>
    fetch_pc (cpu_pipe m') = bp_predicted_pc ir' \<and>
    (bp_predicted_pc ir' = pc + 4 \<or> g_bpred_mode m \<and> bp_predicted_pc ir' \<in> C) \<and>
    ps_insts (pipe_stats m') = ps_insts (pipe_stats m)"
proof -
  have b: "mem_sys m" "code_clean (blk ` C) m" "ram_view m = i_mem s'" "regs_ok (cpu m)" using assms(1) by (simp_all add: base_def)
  have ac: "access_ok pc 4" "blk pc \<in> blk ` C" using assms(6,7) by (auto simp: fetchable_def)
  let ?w = "word_of_bytes (load_bytes (i_mem s') (ram_off pc) 4)" and ?raw = "code_at s' pc"
  obtain m1 where m1: "vaddr_ifetch pc 4 m = Inr (?w, m1)" "mem_sys m1" "mem_frame UNIV m m1" "ram_view m1 = i_mem s'"
      "code_clean (blk ` C) m1"
    using code_fetch [OF b(1,2) ac] unfolding b(3) by blast
  have fr: "m1 = m\<lparr>caches := caches m1, pmem := pmem m1\<rparr>" using m1(3) by (simp add: mem_frame_def)
  have f1: "cpu_pipe m1 = cpu_pipe m" "cpu m1 = cpu m" "g_difftest_en m1 = g_difftest_en m" "g_bpred_mode m1 = g_bpred_mode m"
      "bpred_state m1 = bpred_state m" "ptrs m1 = ptrs m" "env_eq m m1" "pipe_stats m1 = pipe_stats m"
    by (subst fr, simp add: ptrs_def env_eq_def)+
  have l1: "latch j m1 = latch j m" for j by (simp add: latch_def f1(1))
  have b1: "base C m1 s s'" using assms(1) m1(2,4,5) f1 by (simp add: base_def)
  let ?d = "ir_decode ?raw pc (pc + 4) (pr_ir (latch w m1)) m1"
  let ?i = "\<lambda>t q. ?d\<lparr>bp_predict_taken := t, bp_predicted_pc := q\<rparr>"
  let ?m' = "\<lambda>t q bp. (put_latch w \<lparr>pr_ir = ?i t q, pr_valid = True\<rparr> m1)\<lparr>bpred_state := bp,
    cpu_pipe := (cpu_pipe (put_latch w \<lparr>pr_ir = ?i t q, pr_valid = True\<rparr> m1))\<lparr>fetch_pc := q\<rparr>\<rparr>"
  obtain t q bp where e: "stage_IF m = Inr (?m' t q bp)" "q = pc + 4 \<or> g_bpred_mode m \<and> q \<in> C" "g_bpred_mode m \<Longrightarrow> targets_in C bp"
  proof (cases "g_bpred_mode m \<and> is_control ?raw")
    case False
    let ?p = "put_latch w \<lparr>pr_ir = ?i False (pc + 4), pr_valid = True\<rparr> m1"
    have r: "ucast ?w = ?raw" by (simp add: code_at_def)
    have "?m' False (pc + 4) (bpred_state m) = ?p\<lparr>cpu_pipe := (cpu_pipe ?p)\<lparr>fetch_pc := pc + 4\<rparr>\<rparr>"
      using f1(5) by (simp add: put_latch_def)
    moreover have "stage_IF m = Inr (?p\<lparr>cpu_pipe := (cpu_pipe ?p)\<lparr>fetch_pc := pc + 4\<rparr>\<rparr>)"
      using m1(1) assms(2,4,5) False f1(4) r by (auto simp: stage_IF_def Let_def)
    ultimately show thesis using that [of "pc + 4" False "bpred_state m"] assms(1) by (simp add: base_def)
  next
    case True
    then have tg: "targets_in C (bpred_state m)" using assms(1) by (simp add: base_def)
    obtain r bp where r: "bpred_predict (bpred_state m) pc ?raw = Inr (r, bp)" "targets_in C bp" "bpr_btb_hit r \<longrightarrow> bpr_target r \<in> C"
      using predict_targets [OF tg cl] True by blast
    let ?q = "if bpr_taken r \<and> bpr_btb_hit r then bpr_target r else pc + 4"
    have w: "ucast ?w = ?raw" by (simp add: code_at_def)
    have "stage_IF m = Inr (?m' (bpr_taken r) ?q bp)"
      using m1(1) assms(2,3,4,5) True f1 w r(1)
      by (simp add: stage_IF_def Let_def set_ir_def put_latch_def latch_def)
    then show thesis using that [of ?q "bpr_taken r" bp] r(2,3) True by auto
  qed
  let ?p = "put_latch w \<lparr>pr_ir = ?i t q, pr_valid = True\<rparr> m1"
  let ?m2 = "?m' t q bp"
  have mq: "mem_eq ?p ?m2" by (simp add: mem_eq_def)
  have bp: "base C ?p s s'" using base_eq [OF base_eq_put_latch] b1 by blast
  then have "base C ?m2 s s'"
    using e(3) f1(4) mem_eq_sys [OF mq] code_clean_mem_eq [OF mq] by (simp add: base_def)
  moreover have "ptrs ?m2 = ptrs ?p" "env_eq ?p ?m2" "latch j ?m2 = latch j ?p" for j by (simp_all add: ptrs_def env_eq_def latch_def)
  moreover have "env_eq m ?p" using env_eq_trans [OF f1(7)] by simp
  moreover have "latch j ?p = (if j = w then \<lparr>pr_ir = ?i t q, pr_valid = True\<rparr> else latch j m)" for j
    using assms(3) f1(1) l1 by simp
  moreover have "user_op (table_lookup inst_table ?raw) \<Longrightarrow> id_ok pc ?raw (?i t q)"
    using fetched_id_ok [of ?raw m1] b(4) f1(2) by simp
  ultimately show ?thesis
    using e(1,2) f1(1,6,8) env_eq_trans by (intro exI [of _ ?m2] exI [of _ "?i t q"]) auto
qed

end
