(* ===== verification/Pipe_Refine.thy ===== *)
theory Pipe_Refine
  imports Pipe_Stages Demo
begin

text \<open>
  The in-order pipeline against the ISA: in every cycle the registers and the program counter are those of the ISA
  after the instructions retired so far, whatever is in flight, with and without branch prediction.
\<close>

section \<open>The invariant\<close>

definition calls_closed :: "vaddr_t set \<Rightarrow> isa_state \<Rightarrow> bool" where
  "calls_closed C s \<longleftrightarrow> (\<forall>a\<in>C. is_call (code_at s a) \<longrightarrow> a + 4 \<in> C)"

text \<open>
  The instruction in WB belongs to the ISA state \<open>s\<close>, those in MEM and EX to the following ones; memory is that after WB's
  instruction. The instruction in ID was fetched where EX's was predicted to go, or where the run goes when EX is empty.
\<close>

definition pinv4 :: "vaddr_t set \<Rightarrow> machine \<Rightarrow> isa_state \<Rightarrow> PipeReg \<Rightarrow> PipeReg \<Rightarrow> PipeReg \<Rightarrow> PipeReg \<Rightarrow> bool" where
  "pinv4 C m s wb mm ex d \<longleftrightarrow>
    (let s1 = adv (pr_valid wb) s; s2 = adv (pr_valid mm) s1; q = (if pr_valid ex then bp_predicted_pc (pr_ir ex) else i_pc s2)
     in base C m s s1 \<and>
        (pr_valid wb \<longrightarrow> retired (isa_op s) (isa_fetch s) s (pr_ir wb)) \<and>
        (pr_valid mm \<longrightarrow> executed (isa_op s1) (isa_fetch s1) s1 (pr_ir mm)) \<and>
        (pr_valid ex \<longrightarrow> ready (isa_op s2) (isa_fetch s2) s2 (pr_ir ex) \<and>
           (\<not> g_bpred_mode m \<longrightarrow> bp_predicted_pc (pr_ir ex) = i_pc s2 + 4)) \<and>
        q \<in> C \<and>
        (if pr_valid d
         then (user_op (table_lookup inst_table (code_at s q)) \<longrightarrow> id_ok q (code_at s q) (pr_ir d)) \<and>
           fetch_pc (cpu_pipe m) = bp_predicted_pc (pr_ir d) \<and>
           (bp_predicted_pc (pr_ir d) = q + 4 \<or> g_bpred_mode m \<and> bp_predicted_pc (pr_ir d) \<in> C)
         else fetch_pc (cpu_pipe m) = q))"

definition pinv :: "vaddr_t set \<Rightarrow> machine \<Rightarrow> isa_state \<Rightarrow> bool" where
  "pinv C m s \<longleftrightarrow> pipe_wf (cpu_pipe m) \<and> 0 \<le> mem_stall_rem (cpu_pipe m) \<and> mem_stall_rem (cpu_pipe m) \<le> 39 \<and>
     (let p = cpu_pipe m in pinv4 C m s (latch (p_wb p) m) (latch (p_mem p) m) (latch (p_ex p) m) (latch (p_id p) m))"

text \<open>Cycles to the next retirement, without the stalls.\<close>

definition dist :: "machine \<Rightarrow> nat" where
  "dist m = (let p = cpu_pipe m in
     if pr_valid (latch (p_wb p) m) then 0 else if pr_valid (latch (p_mem p) m) then 1
     else if pr_valid (latch (p_ex p) m) then 2 else if pr_valid (latch (p_id p) m) then 3 else 4)"

definition wb_valid :: "machine \<Rightarrow> bool" where
  "wb_valid m = pr_valid (latch (p_wb (cpu_pipe m)) m)"

section \<open>One cycle\<close>

text \<open>After the stages WB, MEM and EX: registers of \<open>t\<close>, memory of \<open>u\<close>, and a right path to \<open>v\<close>.\<close>

definition mid :: "vaddr_t set \<Rightarrow> machine \<Rightarrow> isa_state \<Rightarrow> isa_state \<Rightarrow> isa_state \<Rightarrow> bool" where
  "mid C m t u v \<longleftrightarrow>
    (let p = cpu_pipe m; mm = latch (p_mem p) m; ex = latch (p_ex p) m; d = latch (p_id p) m
     in pipe_wf p \<and> 0 \<le> mem_stall_rem p \<and> mem_stall_rem p \<le> 39 \<and> base C m t u \<and> g_fetch_slot m = p_wb p \<and>
        \<not> g_pipe_stalled m \<and> \<not> pr_valid (latch (p_wb p) m) \<and> u = adv (pr_valid mm) t \<and> v = adv (pr_valid ex) u \<and>
        (pr_valid mm \<longrightarrow> retired (isa_op t) (isa_fetch t) t (pr_ir mm)) \<and>
        (pr_valid ex \<longrightarrow> executed (isa_op u) (isa_fetch u) u (pr_ir ex)) \<and>
        (if pr_valid d then id_ok (i_pc v) (isa_fetch v) (pr_ir d) \<and> fetch_pc p = bp_predicted_pc (pr_ir d) \<and>
           (bp_predicted_pc (pr_ir d) = i_pc v + 4 \<or> g_bpred_mode m \<and> bp_predicted_pc (pr_ir d) \<in> C)
         else fetch_pc p = i_pc v))"

lemma front_ok:
  assumes "pinv C m s" and "fetchable C" and "safe_run C 5 s" and "\<not> g_pipe_stalled m" and "g_fetch_slot m = p_wb (cpu_pipe m)"
  defines "s1 \<equiv> adv (wb_valid m) s" and "mv \<equiv> pr_valid (latch (p_mem (cpu_pipe m)) m)" and "xv \<equiv> pr_valid (latch (p_ex (cpu_pipe m)) m)"
    and "dv \<equiv> pr_valid (latch (p_id (cpu_pipe m)) m)"
  shows "\<exists>m'. bind_res (stage_WB stk m) (\<lambda>m. bind_res (stage_MEM m) stage_EX) = Inr m' \<and>
    mid C m' s1 (adv mv s1) (adv xv (adv mv s1)) \<and> ptrs m' = ptrs m \<and> env_eq m m' \<and>
    ps_insts (pipe_stats m') = ps_insts (pipe_stats m) + of_bool (wb_valid m) \<and>
    pr_valid (latch (p_mem (cpu_pipe m)) m') = mv \<and> pr_valid (latch (p_ex (cpu_pipe m)) m') = xv \<and>
    (\<not> xv \<longrightarrow> pr_valid (latch (p_id (cpu_pipe m)) m') = dv)"
proof -
  let ?p = "cpu_pipe m"
  define w where "w = p_wb ?p"
  define i where "i = p_mem ?p"
  define x where "x = p_ex ?p"
  define d where "d = p_id ?p"
  have wf: "pipe_wf ?p" "length (slots ?p) = 4" "w < 4" "i < 4" "x < 4" "d < 4" "distinct [d, x, i, w]"
    using assms(1) by (auto simp: pinv_def pipe_wf_def w_def i_def x_def d_def)
  define s2 where "s2 = adv mv s1"
  define s3 where "s3 = adv xv s2"
  define q where "q = (if xv then bp_predicted_pc (pr_ir (latch x m)) else i_pc s2)"
  have v: "wb_valid m = pr_valid (latch w m)" "mv = pr_valid (latch i m)" "xv = pr_valid (latch x m)" "dv = pr_valid (latch d m)"
    by (simp_all add: wb_valid_def w_def mv_def i_def xv_def x_def dv_def d_def)
  have sr: "safe_run C 4 s1" "safe_run C 3 s2" "safe_run C 2 s3"
    using assms(3) by (simp_all add: s1_def s2_def s3_def safe_run_adv eval_nat_numeral)
  have sf: "safe C s" "safe C s1" "safe C s2" "safe C (isa_next s2)" "safe C s3"
    using safe_runD [OF assms(3)] safe_runD [OF sr(1)] safe_runD [OF sr(2)] safe_runD [OF sr(3)]
      safe_runD [OF safe_run_next, of C 2 s2] sr(2) by (simp_all add: eval_nat_numeral)
  have code: "code_at s3 a = code_at s a" if "a \<in> C" for a
    using code_stable_adv [OF assms(2) _ that] sf by (simp add: s1_def s2_def s3_def)
  have inv: "base C m s s1" "wb_valid m \<Longrightarrow> retired (isa_op s) (isa_fetch s) s (pr_ir (latch w m))"
      "mv \<Longrightarrow> executed (isa_op s1) (isa_fetch s1) s1 (pr_ir (latch i m))"
      "xv \<Longrightarrow> ready (isa_op s2) (isa_fetch s2) s2 (pr_ir (latch x m)) \<and>
         (\<not> g_bpred_mode m \<longrightarrow> bp_predicted_pc (pr_ir (latch x m)) = i_pc s2 + 4)"
      "q \<in> C" "\<not> dv \<Longrightarrow> fetch_pc ?p = q"
      "dv \<Longrightarrow> (user_op (table_lookup inst_table (code_at s q)) \<longrightarrow> id_ok q (code_at s q) (pr_ir (latch d m))) \<and>
         fetch_pc ?p = bp_predicted_pc (pr_ir (latch d m)) \<and>
         (bp_predicted_pc (pr_ir (latch d m)) = q + 4 \<or> g_bpred_mode m \<and> bp_predicted_pc (pr_ir (latch d m)) \<in> C)"
      "0 \<le> mem_stall_rem ?p" "mem_stall_rem ?p \<le> 39"
    using assms(1) unfolding pinv_def pinv4_def Let_def w_def [symmetric] i_def [symmetric] x_def [symmetric] d_def [symmetric]
      v [symmetric] s1_def [symmetric] s2_def [symmetric] q_def [symmetric] by (simp_all split: if_splits)
  have "w < length (slots ?p)" using wf by simp
  from WB_ok [OF inv(1) w_def [symmetric] this inv(2) [unfolded v(1)], of stk] obtain m1 where
    m1: "stage_WB stk m = Inr m1" "base C m1 s1 s1" "ptrs m1 = ptrs m" "env_eq m m1" "fetch_pc (cpu_pipe m1) = fetch_pc ?p"
      "mem_stall_rem (cpu_pipe m1) = mem_stall_rem ?p" "\<And>j. latch j m1 = (if j = w then (latch w m)\<lparr>pr_valid := False\<rparr> else latch j m)"
      "ps_insts (pipe_stats m1) = ps_insts (pipe_stats m) + of_bool (wb_valid m)"
    unfolding v(1) s1_def by blast
  note p1 = ptrsD [OF m1(3)]
  have l1: "latch i m1 = latch i m" "latch x m1 = latch x m" "latch d m1 = latch d m" using m1(7) wf(7) by auto
  have "\<exists>m' ir'. stage_MEM m1 = Inr m' \<and> base C m' s1 s2 \<and> ptrs m' = ptrs m1 \<and> env_eq m1 m' \<and>
    fetch_pc (cpu_pipe m') = fetch_pc (cpu_pipe m1) \<and> 0 \<le> mem_stall_rem (cpu_pipe m') \<and> mem_stall_rem (cpu_pipe m') \<le> max (mem_stall_rem (cpu_pipe m1)) 39 \<and>
    (\<forall>j. latch j m' = (if j = i then \<lparr>pr_ir = ir', pr_valid = mv\<rparr> else latch j m1)) \<and>
    (mv \<longrightarrow> retired (isa_op s1) (isa_fetch s1) s1 ir') \<and> ps_insts (pipe_stats m') = ps_insts (pipe_stats m1)"
    unfolding s2_def v(2) l1(1) [symmetric]
    by (rule MEM_ok [OF m1(2)]) (use p1 i_def wf inv(3,8) m1(6) l1 v sf in auto)
  then obtain m2 r2 where
    m2: "stage_MEM m1 = Inr m2" "base C m2 s1 s2" "ptrs m2 = ptrs m1" "env_eq m1 m2" "fetch_pc (cpu_pipe m2) = fetch_pc (cpu_pipe m1)"
      "0 \<le> mem_stall_rem (cpu_pipe m2)" "mem_stall_rem (cpu_pipe m2) \<le> 39"
      "\<And>j. latch j m2 = (if j = i then \<lparr>pr_ir = r2, pr_valid = mv\<rparr> else latch j m1)"
      "mv \<longrightarrow> retired (isa_op s1) (isa_fetch s1) s1 r2" "ps_insts (pipe_stats m2) = ps_insts (pipe_stats m1)"
    using inv(9) m1(6) by fastforce
  note p2 = ptrsD [OF m2(3)]
  have wf2: "pipe_wf (cpu_pipe m2)" using wf(1) p1 p2 by (simp add: pipe_wf_def)
  have l2: "latch x m2 = latch x m" "latch d m2 = latch d m" "latch w m2 = (latch w m)\<lparr>pr_valid := False\<rparr>"
    using m2(8) m1(7) wf(7) by auto
  let ?wr = "wrong_path s2 (latch x m)"
  have "\<exists>m' ir'. stage_EX m2 = Inr m' \<and> base C m' s1 s2 \<and> ptrs m' = ptrs m2 \<and> env_eq m2 m' \<and>
    fetch_pc (cpu_pipe m') = (if wrong_path s2 (latch x m2) then i_pc (isa_next s2) else fetch_pc (cpu_pipe m2)) \<and>
    mem_stall_rem (cpu_pipe m') = mem_stall_rem (cpu_pipe m2) \<and>
    (\<forall>j. latch j m' = (if j = x then \<lparr>pr_ir = ir', pr_valid = pr_valid (latch x m2)\<rparr>
       else if wrong_path s2 (latch x m2) \<and> (j = p_id (cpu_pipe m2) \<or> j = p_wb (cpu_pipe m2)) then (latch j m2)\<lparr>pr_valid := False\<rparr>
       else latch j m2)) \<and>
    (pr_valid (latch x m2) \<longrightarrow> executed (isa_op s2) (isa_fetch s2) s2 ir') \<and> ps_insts (pipe_stats m') = ps_insts (pipe_stats m2)"
    by (rule EX_ok [OF m2(2) _ wf2]) (use p1 p2 x_def assms(5) inv(4) l2 v sf in auto)
  then obtain m3 r3 where
    m3: "stage_EX m2 = Inr m3" "base C m3 s1 s2" "ptrs m3 = ptrs m2" "env_eq m2 m3"
      "fetch_pc (cpu_pipe m3) = (if ?wr then i_pc (isa_next s2) else fetch_pc ?p)"
      "mem_stall_rem (cpu_pipe m3) = mem_stall_rem (cpu_pipe m2)"
      "\<And>j. latch j m3 = (if j = x then \<lparr>pr_ir = r3, pr_valid = xv\<rparr>
         else if ?wr \<and> (j = d \<or> j = w) then (latch j m2)\<lparr>pr_valid := False\<rparr> else latch j m2)"
      "xv \<longrightarrow> executed (isa_op s2) (isa_fetch s2) s2 r3" "ps_insts (pipe_stats m3) = ps_insts (pipe_stats m2)"
    unfolding l2 v(3) m2(5) m1(5) p2(1,4) p1(1,4) d_def [symmetric] w_def [symmetric] by blast
  have p3: "p_id (cpu_pipe m3) = d" "p_ex (cpu_pipe m3) = x" "p_mem (cpu_pipe m3) = i" "p_wb (cpu_pipe m3) = w" "g_fetch_slot m3 = w"
      "g_pipe_stalled m3 = g_pipe_stalled m" "g_bpred_mode m3 = g_bpred_mode m" "length (slots (cpu_pipe m3)) = 4"
    using ptrsD [OF m3(3)] p1 p2 assms(5) wf(2) by (simp_all add: d_def x_def i_def w_def)
  have l3: "latch i m3 = \<lparr>pr_ir = r2, pr_valid = mv\<rparr>" "latch x m3 = \<lparr>pr_ir = r3, pr_valid = xv\<rparr>" "\<not> pr_valid (latch w m3)"
      "latch d m3 = (if ?wr then (latch d m)\<lparr>pr_valid := False\<rparr> else latch d m)"
    using m3(7) m2(8) l2 wf(7) by auto
  have qr: "q = i_pc s3" if "\<not> ?wr" using that by (cases xv) (simp_all add: q_def s3_def wrong_path_def v(3) [symmetric])
  have qw: "?wr \<Longrightarrow> xv \<and> i_pc s3 = i_pc (isa_next s2)" by (simp add: wrong_path_def v(3) s3_def)
  have uo: "user_op (table_lookup inst_table (isa_fetch s3))" "isa_fetch s3 = code_at s (i_pc s3)"
    using sf(5) code [of "i_pc s3"] by (simp_all add: safe_def user_ok_def isa_op_def isa_fetch_at)
  have dd: "if pr_valid (latch d m3)
    then id_ok (i_pc s3) (isa_fetch s3) (pr_ir (latch d m3)) \<and> fetch_pc (cpu_pipe m3) = bp_predicted_pc (pr_ir (latch d m3)) \<and>
      (bp_predicted_pc (pr_ir (latch d m3)) = i_pc s3 + 4 \<or> g_bpred_mode m3 \<and> bp_predicted_pc (pr_ir (latch d m3)) \<in> C)
    else fetch_pc (cpu_pipe m3) = i_pc s3"
  proof (cases ?wr)
    case True
    then show ?thesis using l3(4) m3(5) qw by simp
  next
    case False
    then show ?thesis using l3(4) m3(5) qr inv(6,7) uo p3(7) v(4) by (cases dv) simp_all
  qed
  have "mid C m3 s1 s2 s3"
    using wf(7,3-6) m2(6,7) m3(2,6,8) m2(9) l3(1-3) p3 assms(4) dd
    by (simp add: mid_def pipe_wf_def Let_def s2_def [symmetric] s3_def [symmetric] split del: if_split cong del: if_weak_cong)
  moreover have "env_eq m m3" using env_eq_trans m1(4) m2(4) m3(4) by blast
  moreover have "ps_insts (pipe_stats m3) = ps_insts (pipe_stats m) + of_bool (wb_valid m)" using m1(8) m2(10) m3(9) by simp
  moreover have "\<not> xv \<longrightarrow> pr_valid (latch d m3) = dv" using l3(4) v by (simp add: wrong_path_def)
  moreover have "bind_res (stage_WB stk m) (\<lambda>m. bind_res (stage_MEM m) stage_EX) = Inr m3" using m1(1) m2(1) m3(1) by simp
  ultimately show ?thesis
    using m1(3) m2(3) m3(3) l3(1,2) by (intro exI [of _ m3]) (simp add: s2_def s3_def i_def x_def d_def)
qed

lemma safe_length: "length (i_regs s) = 32 \<Longrightarrow> length (i_regs (isa_next s)) = 32"
  by (simp add: isa_next_def isa_step_def set_reg_def Let_def)

lemma rotate_simps [simp]:
  "latch j (m\<lparr>cpu_pipe := rotate_latches st f (cpu_pipe m)\<rparr>) = latch j m"
  "slots (rotate_latches st f p) = slots p" "mem_stall_rem (rotate_latches st f p) = mem_stall_rem p"
  "fetch_pc (rotate_latches st f p) = fetch_pc p" "p_wb (rotate_latches st f p) = p_mem p" "p_mem (rotate_latches st f p) = p_ex p"
  "p_ex (rotate_latches st f p) = (if st then f else p_id p)" "p_id (rotate_latches st f p) = (if st then p_id p else f)"
  by (simp_all add: latch_def rotate_latches_def)

lemma base_eq_pipe [simp]: "base C (m\<lparr>cpu_pipe := p\<rparr>) s s' = base C m s s'"
  by (rule base_eq) (simp add: base_eq_def mem_eq_def)

lemma back_ok:
  assumes "mid C m t u v" and "fetchable C" and "g_bpred_mode m \<longrightarrow> calls_closed C t" and "safe_run C 4 t"
  shows "\<exists>m'. bind_res (stage_IF (stage_ID m)) (\<lambda>m. Inr (m\<lparr>cpu_pipe := rotate_latches (g_pipe_stalled m) (g_fetch_slot m) (cpu_pipe m)\<rparr>)) = Inr m' \<and>
    pinv C m' t \<and> env_eq m m' \<and> g_bpred_mode m' = g_bpred_mode m \<and> ps_insts (pipe_stats m') = ps_insts (pipe_stats m) \<and>
    pr_valid (latch (p_wb (cpu_pipe m')) m') = pr_valid (latch (p_mem (cpu_pipe m)) m) \<and>
    pr_valid (latch (p_mem (cpu_pipe m')) m') = pr_valid (latch (p_ex (cpu_pipe m)) m) \<and>
    (\<not> pr_valid (latch (p_ex (cpu_pipe m)) m) \<longrightarrow> pr_valid (latch (p_ex (cpu_pipe m')) m') = pr_valid (latch (p_id (cpu_pipe m)) m)) \<and>
    pr_valid (latch (p_id (cpu_pipe m')) m')"
proof -
  let ?p = "cpu_pipe m"
  define w where "w = p_wb ?p"
  define i where "i = p_mem ?p"
  define x where "x = p_ex ?p"
  define d where "d = p_id ?p"
  note defs = w_def [symmetric] i_def [symmetric] x_def [symmetric] d_def [symmetric]
  have mi: "pipe_wf ?p" "0 \<le> mem_stall_rem ?p" "mem_stall_rem ?p \<le> 39" "base C m t u" "g_fetch_slot m = w" "\<not> g_pipe_stalled m"
      "\<not> pr_valid (latch w m)" "u = adv (pr_valid (latch i m)) t" "v = adv (pr_valid (latch x m)) u"
      "pr_valid (latch i m) \<Longrightarrow> retired (isa_op t) (isa_fetch t) t (pr_ir (latch i m))"
      "pr_valid (latch x m) \<Longrightarrow> executed (isa_op u) (isa_fetch u) u (pr_ir (latch x m))"
      "pr_valid (latch d m) \<Longrightarrow> id_ok (i_pc v) (isa_fetch v) (pr_ir (latch d m)) \<and> fetch_pc ?p = bp_predicted_pc (pr_ir (latch d m)) \<and>
         (bp_predicted_pc (pr_ir (latch d m)) = i_pc v + 4 \<or> g_bpred_mode m \<and> bp_predicted_pc (pr_ir (latch d m)) \<in> C)"
      "\<not> pr_valid (latch d m) \<Longrightarrow> fetch_pc ?p = i_pc v"
    using assms(1) unfolding mid_def Let_def defs by argo+
  have wf: "length (slots ?p) = 4" "w < 4" "i < 4" "x < 4" "d < 4" "distinct [d, x, i, w]"
    using mi(1) by (auto simp: pipe_wf_def w_def i_def x_def d_def)
  have sr: "safe_run C 3 u" "safe_run C 2 v" using assms(4) mi(8,9) by (simp_all add: safe_run_adv eval_nat_numeral)
  have sf: "safe C t" "safe C u" "safe C v"
    using safe_runD [OF assms(4)] safe_runD [OF sr(1)] safe_runD [OF sr(2)] by simp_all
  have code: "code_at u a = code_at t a" "code_at v a = code_at t a" if "a \<in> C" for a
    using code_stable_adv [OF assms(2) _ that] sf mi(8,9) by simp_all
  have "length (i_regs t) = 32" using mi(4) unfolding base_def regs_ok_def by metis
  then have len: "length (i_regs u) = 32" using safe_length mi(8) by (cases "pr_valid (latch i m)") simp_all
  obtain r st where id: "g_pipe_stalled (stage_ID m) = st" "base C (stage_ID m) t u" "ptrs ((stage_ID m)\<lparr>g_pipe_stalled := False\<rparr>) = ptrs m"
      "env_eq m (stage_ID m)" "fetch_pc (cpu_pipe (stage_ID m)) = fetch_pc ?p" "mem_stall_rem (cpu_pipe (stage_ID m)) = mem_stall_rem ?p"
      "\<And>j. latch j (stage_ID m) = (if j = d then (latch d m)\<lparr>pr_ir := r\<rparr> else latch j m)"
      "pr_valid (latch d m) \<longrightarrow> bp_predicted_pc r = bp_predicted_pc (pr_ir (latch d m)) \<and>
         (if st then id_ok (i_pc v) (isa_fetch v) r else ready (isa_op v) (isa_fetch v) v r)"
      "\<not> pr_valid (latch d m) \<longrightarrow> \<not> st" "st \<longrightarrow> pr_valid (latch x m)" "ps_insts (pipe_stats (stage_ID m)) = ps_insts (pipe_stats m)"
    using ID_ok [OF mi(4), unfolded defs, OF mi(8,1,9) sf(3) len refl] mi(6,10-12) by blast
  let ?m1 = "stage_ID m"
  have p1: "p_id (cpu_pipe ?m1) = d" "p_ex (cpu_pipe ?m1) = x" "p_mem (cpu_pipe ?m1) = i" "p_wb (cpu_pipe ?m1) = w" "g_fetch_slot ?m1 = w"
      "g_bpred_mode ?m1 = g_bpred_mode m" "length (slots (cpu_pipe ?m1)) = 4"
    using ptrsD [OF id(3)] mi(5) wf(1) by (simp_all add: defs)
  have l1: "latch i ?m1 = latch i m" "latch x ?m1 = latch x m" "latch w ?m1 = latch w m" "latch d ?m1 = (latch d m)\<lparr>pr_ir := r\<rparr>"
    using id(7) wf(6) by auto
  show ?thesis
  proof (cases st)
    case True
    let ?m2 = "?m1\<lparr>cpu_pipe := rotate_latches True w (cpu_pipe ?m1)\<rparr>"
    have e: "stage_IF ?m1 = Inr ?m1" using id(1) True by (simp add: stage_IF_def)
    have v1: "pr_valid (latch x m)" "pr_valid (latch d m)" using id(9,10) True by blast+
    have c: "i_pc v \<in> C" "code_at t (i_pc v) = isa_fetch v" using sf(3) code [of "i_pc v"] by (simp_all add: safe_def isa_fetch_at)
    have "pinv4 C ?m2 t (latch i m) (latch x m) (latch w m) ((latch d m)\<lparr>pr_ir := r\<rparr>)"
      unfolding pinv4_def Let_def mi(8) [symmetric] mi(9) [symmetric] using id(2,5,8) mi(7,10-12) v1 True c p1(6) by simp
    then have "pinv C ?m2 t"
      using wf(2-6) id(6) mi(2,3) p1 l1 by (simp add: pinv_def pipe_wf_def Let_def)
    moreover have "env_eq m ?m2" using id(4) by (simp add: env_eq_def)
    ultimately show ?thesis using e id(1,11) True p1 l1 v1 mi(7) by (intro exI [of _ ?m2]) (simp add: defs)
  next
    case False
    let ?f = "fetch_pc ?p"
    have fc: "?f \<in> C" using mi(12,13) sf(3) by (cases "pr_valid (latch d m)") (auto simp: safe_def)
    have "\<exists>m' ir'. stage_IF ?m1 = Inr m' \<and> base C m' t u \<and> ptrs m' = ptrs ?m1 \<and> env_eq ?m1 m' \<and>
      mem_stall_rem (cpu_pipe m') = mem_stall_rem (cpu_pipe ?m1) \<and>
      (\<forall>j. latch j m' = (if j = w then \<lparr>pr_ir = ir', pr_valid = True\<rparr> else latch j ?m1)) \<and>
      (user_op (table_lookup inst_table (code_at u ?f)) \<longrightarrow> id_ok ?f (code_at u ?f) ir') \<and>
      fetch_pc (cpu_pipe m') = bp_predicted_pc ir' \<and> (bp_predicted_pc ir' = ?f + 4 \<or> g_bpred_mode ?m1 \<and> bp_predicted_pc ir' \<in> C) \<and>
      ps_insts (pipe_stats m') = ps_insts (pipe_stats ?m1)"
      by (rule IF_ok [OF id(2) p1(5)]) (use p1 wf(2) id(1,5) False fc assms(2,3) code in \<open>auto simp: calls_closed_def\<close>)
    then obtain m2 r2 where m2: "stage_IF ?m1 = Inr m2" "base C m2 t u" "ptrs m2 = ptrs ?m1" "env_eq ?m1 m2"
        "mem_stall_rem (cpu_pipe m2) = mem_stall_rem ?p" "\<And>j. latch j m2 = (if j = w then \<lparr>pr_ir = r2, pr_valid = True\<rparr> else latch j ?m1)"
        "user_op (table_lookup inst_table (code_at t ?f)) \<longrightarrow> id_ok ?f (code_at t ?f) r2"
        "fetch_pc (cpu_pipe m2) = bp_predicted_pc r2" "bp_predicted_pc r2 = ?f + 4 \<or> g_bpred_mode m \<and> bp_predicted_pc r2 \<in> C"
        "ps_insts (pipe_stats m2) = ps_insts (pipe_stats m)"
      unfolding code(1) [OF fc] id(6,11) p1(6) by blast
    have p2: "p_id (cpu_pipe m2) = d" "p_ex (cpu_pipe m2) = x" "p_mem (cpu_pipe m2) = i" "p_wb (cpu_pipe m2) = w" "g_fetch_slot m2 = w"
        "g_bpred_mode m2 = g_bpred_mode m" "length (slots (cpu_pipe m2)) = 4" "\<not> g_pipe_stalled m2"
      using ptrsD [OF m2(3)] p1 id(1) False by simp_all
    have l2: "latch i m2 = latch i m" "latch x m2 = latch x m" "latch w m2 = \<lparr>pr_ir = r2, pr_valid = True\<rparr>" "latch d m2 = (latch d m)\<lparr>pr_ir := r\<rparr>"
      using m2(6) l1 wf(6) by auto
    let ?m3 = "m2\<lparr>cpu_pipe := rotate_latches False w (cpu_pipe m2)\<rparr>"
    have q: "(if pr_valid (latch d m) then bp_predicted_pc r else i_pc v) = ?f" using mi(12,13) id(8) by (cases "pr_valid (latch d m)") simp_all
    have "pinv4 C ?m3 t (latch i m) (latch x m) ((latch d m)\<lparr>pr_ir := r\<rparr>) \<lparr>pr_ir = r2, pr_valid = True\<rparr>"
      unfolding pinv4_def Let_def mi(8) [symmetric] mi(9) [symmetric]
      using q m2(2,7-9) mi(10-12) id(8) False p2(6) fc by (cases "pr_valid (latch d m)") (simp_all, blast)
    then have "pinv C ?m3 t"
      using wf(2-6) m2(5) mi(2,3) p2 l2 by (simp add: pinv_def pipe_wf_def Let_def)
    moreover have "env_eq m ?m3" using env_eq_trans [OF id(4) m2(4)] by (simp add: env_eq_def)
    ultimately show ?thesis using m2(1,10) p2 l2 by (intro exI [of _ ?m3]) (simp add: defs)
  qed
qed

lemma run_stages_ok:
  assumes "pinv C m s" and "fetchable C" and "g_bpred_mode m \<longrightarrow> calls_closed C s" and "safe_run C 5 s" and "\<not> g_pipe_stalled m"
  shows "\<exists>m'. run_stages stk m = Inr m' \<and> pinv C m' (adv (wb_valid m) s) \<and> env_eq m m' \<and> g_bpred_mode m' = g_bpred_mode m \<and>
    ps_insts (pipe_stats m') = ps_insts (pipe_stats m) + of_bool (wb_valid m) \<and> (dist m > 0 \<longrightarrow> dist m' = dist m - 1)"
proof -
  let ?m = "m\<lparr>g_fetch_slot := p_wb (cpu_pipe m)\<rparr>"
  have l: "latch j ?m = latch j m" for j by (simp add: latch_def)
  have eq: "base_eq m ?m" by (simp add: base_eq_def mem_eq_def)
  have pi: "pinv C ?m s" using assms(1) by (simp add: pinv_def pinv4_def l base_eq [OF eq] Let_def)
  have wv: "wb_valid ?m = wb_valid m" by (simp add: wb_valid_def l)
  let ?mv = "pr_valid (latch (p_mem (cpu_pipe m)) m)" and ?xv = "pr_valid (latch (p_ex (cpu_pipe m)) m)" and ?t = "adv (wb_valid m) s"
  have "\<not> g_pipe_stalled ?m" "g_fetch_slot ?m = p_wb (cpu_pipe ?m)" using assms(5) by simp_all
  from front_ok [OF pi assms(2,4) this, of stk] obtain m1 where m1: "bind_res (stage_WB stk ?m) (\<lambda>m. bind_res (stage_MEM m) stage_EX) = Inr m1"
      "mid C m1 ?t (adv ?mv ?t) (adv ?xv (adv ?mv ?t))" "ptrs m1 = ptrs ?m" "env_eq ?m m1"
      "ps_insts (pipe_stats m1) = ps_insts (pipe_stats m) + of_bool (wb_valid m)"
      "pr_valid (latch (p_mem (cpu_pipe m)) m1) = ?mv" "pr_valid (latch (p_ex (cpu_pipe m)) m1) = ?xv"
      "\<not> ?xv \<longrightarrow> pr_valid (latch (p_id (cpu_pipe m)) m1) = pr_valid (latch (p_id (cpu_pipe m)) m)"
    unfolding wv l by auto
  note p1 = ptrsD [OF m1(3)]
  have sr: "safe_run C 4 ?t" using assms(4) by (simp add: safe_run_adv eval_nat_numeral)
  have "safe C s" using safe_runD [OF assms(4)] by simp
  then have "g_bpred_mode m1 \<longrightarrow> calls_closed C ?t"
    using assms(3) code_stable_adv [OF assms(2)] p1 by (simp add: calls_closed_def)
  from back_ok [OF m1(2) assms(2) this sr] obtain m2 where
    m2: "bind_res (stage_IF (stage_ID m1)) (\<lambda>m. Inr (m\<lparr>cpu_pipe := rotate_latches (g_pipe_stalled m) (g_fetch_slot m) (cpu_pipe m)\<rparr>)) = Inr m2"
      "pinv C m2 ?t" "env_eq m1 m2" "g_bpred_mode m2 = g_bpred_mode m" "ps_insts (pipe_stats m2) = ps_insts (pipe_stats m1)"
      "pr_valid (latch (p_wb (cpu_pipe m2)) m2) = ?mv" "pr_valid (latch (p_mem (cpu_pipe m2)) m2) = ?xv"
      "\<not> ?xv \<longrightarrow> pr_valid (latch (p_ex (cpu_pipe m2)) m2) = pr_valid (latch (p_id (cpu_pipe m)) m)"
      "pr_valid (latch (p_id (cpu_pipe m2)) m2)"
    using p1 m1(6-8) by auto
  have "run_stages stk m = Inr m2"
    using m1(1) m2(1) by (simp add: run_stages_def Let_def bind_res_assoc [symmetric])
  moreover have "env_eq m m2" using env_eq_trans m1(4) m2(3) by (auto simp: env_eq_def)
  moreover have "dist m > 0 \<longrightarrow> dist m2 = dist m - 1" using m2(6-9) by (auto simp: dist_def Let_def)
  ultimately show ?thesis using m2(2,4,5) m1(5) by auto
qed

section \<open>Any number of cycles\<close>

lemma pinv_cong:
  assumes "pinv C m s" and "base_eq m m'" and "\<And>j. latch j m' = latch j m" and "fetch_pc (cpu_pipe m') = fetch_pc (cpu_pipe m)"
    and "pipe_wf (cpu_pipe m')" and "p_id (cpu_pipe m') = p_id (cpu_pipe m)" and "p_ex (cpu_pipe m') = p_ex (cpu_pipe m)"
    and "p_mem (cpu_pipe m') = p_mem (cpu_pipe m)" and "p_wb (cpu_pipe m') = p_wb (cpu_pipe m)"
    and "0 \<le> mem_stall_rem (cpu_pipe m')" and "mem_stall_rem (cpu_pipe m') \<le> 39"
  shows "pinv C m' s"
proof -
  have "g_bpred_mode m' = g_bpred_mode m" using assms(2) by (simp add: base_eq_def)
  then have "pinv4 C m' s a b c d = pinv4 C m s a b c d" for a b c d
    unfolding pinv4_def base_eq [OF assms(2)] assms(4) by simp
  then show ?thesis using assms(1,3,5-11) by (simp add: pinv_def Let_def)
qed

text \<open>A bound on the cycles to the next retirement; a load that misses both caches costs 39 more.\<close>

definition wait :: "machine \<Rightarrow> nat" where
  "wait m = nat (mem_stall_rem (cpu_pipe m)) + 40 * dist m"

lemma pipeline_cycle_ok:
  assumes "pinv C m s" and "fetchable C" and "g_bpred_mode m \<longrightarrow> calls_closed C s" and "safe_run C 5 s"
  shows "\<exists>m' b. pipeline_cycle stk m = Inr m' \<and> pinv C m' (adv b s) \<and> env_eq m m' \<and> g_bpred_mode m' = g_bpred_mode m \<and>
    ps_insts (pipe_stats m') = ps_insts (pipe_stats m) + of_bool b \<and> wait m' \<le> 199 \<and> (\<not> b \<longrightarrow> wait m' < wait m)"
proof (cases "mem_stall_rem (cpu_pipe m) > 0")
  case True
  let ?m = "m\<lparr>cpu_pipe := (cpu_pipe m)\<lparr>mem_stall_rem := mem_stall_rem (cpu_pipe m) - 1\<rparr>,
    pipe_stats := (pipe_stats m)\<lparr>ps_cycles := ps_cycles (pipe_stats m) + 1\<rparr>, g_sim_cycles := g_sim_cycles m + 1\<rparr>"
  have l: "latch j ?m = latch j m" for j by (simp add: latch_def)
  have eq: "base_eq m ?m" "env_eq m ?m" by (simp_all add: base_eq_def mem_eq_def env_eq_def)
  have "pinv C ?m s" by (rule pinv_cong [OF assms(1) eq(1) l]) (use assms(1) True in \<open>simp_all add: pinv_def pipe_wf_def\<close>)
  moreover have "mem_stall_rem (cpu_pipe m) \<le> 39" "dist ?m = dist m" "dist m \<le> 4"
    using assms(1) by (simp_all add: pinv_def dist_def l Let_def)
  ultimately show ?thesis
    using True eq(2) by (intro exI [of _ ?m] exI [of _ False]) (simp add: pipeline_cycle_def wait_def)
next
  case False
  let ?m = "m\<lparr>g_pipe_stalled := False\<rparr>"
  have l: "latch j (x\<lparr>g_pipe_stalled := False\<rparr>) = latch j x" for j x by (simp add: latch_def)
  have eq: "base_eq m ?m" by (simp add: base_eq_def mem_eq_def)
  have pi: "pinv C ?m s" by (rule pinv_cong [OF assms(1) eq l]) (use assms(1) in \<open>simp_all add: pinv_def\<close>)
  have d: "wb_valid ?m = wb_valid m" "dist ?m = dist m" by (simp_all add: wb_valid_def dist_def l Let_def)
  obtain m1 where m1: "run_stages stk ?m = Inr m1" "pinv C m1 (adv (wb_valid m) s)" "env_eq ?m m1" "g_bpred_mode m1 = g_bpred_mode m"
      "ps_insts (pipe_stats m1) = ps_insts (pipe_stats m) + of_bool (wb_valid m)" "dist m > 0 \<longrightarrow> dist m1 = dist m - 1"
    using run_stages_ok [OF pi assms(2) _ assms(4), of stk] assms(3) d by auto
  let ?m2 = "m1\<lparr>pipe_stats := (pipe_stats m1)\<lparr>ps_cycles := ps_cycles (pipe_stats m1) + 1\<rparr>,
    g_sim_cycles := g_sim_cycles m1 + 1, g_sim_instret := ps_insts (pipe_stats m1)\<rparr>"
  have l2: "latch j ?m2 = latch j m1" for j by (simp add: latch_def)
  have eq2: "base_eq m1 ?m2" by (simp add: base_eq_def mem_eq_def)
  have pi2: "pinv C ?m2 (adv (wb_valid m) s)" by (rule pinv_cong [OF m1(2) eq2 l2]) (use m1(2) in \<open>simp_all add: pinv_def\<close>)
  have "env_eq m ?m2" using m1(3) by (simp add: env_eq_def)
  moreover have "mem_stall_rem (cpu_pipe m1) \<le> 39" "0 \<le> mem_stall_rem (cpu_pipe m1)" "dist ?m2 = dist m1" "dist m1 \<le> 4"
    using m1(2) by (simp_all add: pinv_def dist_def l2 Let_def)
  moreover have "wb_valid m = (dist m = 0)" by (simp add: wb_valid_def dist_def Let_def)
  ultimately show ?thesis
    using pi2 m1(1,4,5,6) False by (intro exI [of _ ?m2] exI [of _ "wb_valid m"]) (auto simp: pipeline_cycle_def wait_def)
qed

lemma wait_le: "pinv C m s \<Longrightarrow> wait m \<le> 199"
proof -
  assume "pinv C m s"
  then have "mem_stall_rem (cpu_pipe m) \<le> 39" by (simp add: pinv_def)
  moreover have "dist m \<le> 4" by (simp add: dist_def Let_def)
  ultimately show ?thesis by (simp add: wait_def)
qed

fun pipeline_run :: "IR_Inst list \<Rightarrow> machine \<Rightarrow> machine res" where
  "pipeline_run [] m = Inr m"
| "pipeline_run (stk # stks) m = bind_res (pipeline_cycle stk m) (pipeline_run stks)"

lemma calls_closed_adv: "fetchable C \<Longrightarrow> safe C s \<Longrightarrow> calls_closed C s \<Longrightarrow> calls_closed C (adv b s)"
  by (simp add: calls_closed_def code_stable_adv)

lemma calls_closed_run: "fetchable C \<Longrightarrow> safe_run C j s \<Longrightarrow> calls_closed C s \<Longrightarrow> calls_closed C ((isa_next ^^ j) s)"
proof (induction j)
  case (Suc j)
  have "safe C ((isa_next ^^ j) s)" using Suc.prems(2) by (simp add: safe_run_def)
  moreover have "calls_closed C ((isa_next ^^ j) s)" using Suc.IH Suc.prems safe_run_mono by simp
  ultimately show ?case using calls_closed_adv [OF Suc.prems(1), of "(isa_next ^^ j) s" True] by simp
qed simp

lemma pipeline_run_ok:
  assumes "pinv C m s" and "fetchable C" and "g_bpred_mode m \<longrightarrow> calls_closed C s" and "safe_run C (length stks + 5) s"
  shows "\<exists>m' k. pipeline_run stks m = Inr m' \<and> pinv C m' ((isa_next ^^ k) s) \<and> k \<le> length stks \<and> env_eq m m' \<and>
    g_bpred_mode m' = g_bpred_mode m \<and> ps_insts (pipe_stats m') = ps_insts (pipe_stats m) + word_of_nat k \<and> length stks + wait m' \<le> wait m + 200 * k"
  using assms
proof (induction stks arbitrary: m s)
  case Nil
  then show ?case by (intro exI [of _ m] exI [of _ 0]) simp
next
  case (Cons stk stks)
  have sr: "safe_run C 5 s" "safe_run C (length stks + 5) (adv b s)" for b
    using Cons.prems(4) safe_run_mono [of C _ s 5] safe_run_adv [of C "length stks + 5" s b] by simp_all
  obtain m1 b where m1: "pipeline_cycle stk m = Inr m1" "pinv C m1 (adv b s)" "env_eq m m1" "g_bpred_mode m1 = g_bpred_mode m"
      "ps_insts (pipe_stats m1) = ps_insts (pipe_stats m) + of_bool b" "wait m1 \<le> 199" "\<not> b \<longrightarrow> wait m1 < wait m"
    using pipeline_cycle_ok [OF Cons.prems(1-3) sr(1)] by blast
  have "g_bpred_mode m1 \<longrightarrow> calls_closed C (adv b s)"
    using Cons.prems(2,3) m1(4) calls_closed_adv safe_runD [OF sr(1)] by simp
  from Cons.IH [OF m1(2) Cons.prems(2) this sr(2)] obtain m' k where m': "pipeline_run stks m1 = Inr m'"
      "pinv C m' ((isa_next ^^ k) (adv b s))" "k \<le> length stks" "env_eq m1 m'"
      "ps_insts (pipe_stats m') = ps_insts (pipe_stats m1) + word_of_nat k" "length stks + wait m' \<le> wait m1 + 200 * k"
      "g_bpred_mode m' = g_bpred_mode m1" by blast
  have e: "(isa_next ^^ k) (adv b s) = (isa_next ^^ (k + of_bool b)) s" by (cases b) (simp_all add: funpow_swap1)
  have "env_eq m m'" using env_eq_trans m1(3) m'(4) by blast
  moreover have "ps_insts (pipe_stats m') = ps_insts (pipe_stats m) + word_of_nat (k + of_bool b)" using m1(5) m'(5) by simp
  moreover have "length (stk # stks) + wait m' \<le> wait m + 200 * (k + of_bool b)" using m1(6,7) m'(6) by (cases b) simp_all
  moreover have "k + of_bool b \<le> length (stk # stks)" using m'(3) by (cases b) simp_all
  ultimately show ?case using m1(1,4) m'(1,2,7) e by (intro exI [of _ m'] exI [of _ "k + of_bool b"]) simp
qed

text \<open>A run that continues another: the instructions it retires follow those retired before.\<close>

lemma pipeline_run_again:
  assumes "pinv C m s" and "fetchable C" and "g_bpred_mode m \<longrightarrow> calls_closed C s" and "safe_run C (length before + length later + 5) s"
  shows "\<exists>m1 m2 j k. pipeline_run before m = Inr m1 \<and> pipeline_run later m1 = Inr m2 \<and>
    pinv C m1 ((isa_next ^^ j) s) \<and> pinv C m2 ((isa_next ^^ (j + k)) s) \<and> length later \<le> 199 + 200 * k \<and>
    ps_insts (pipe_stats m1) = ps_insts (pipe_stats m) + word_of_nat j \<and> ps_insts (pipe_stats m2) = ps_insts (pipe_stats m) + word_of_nat (j + k)"
proof -
  have sr: "safe_run C (length before + 5) s" using safe_run_mono [OF assms(4)] by simp
  obtain m1 j where m1: "pipeline_run before m = Inr m1" "pinv C m1 ((isa_next ^^ j) s)" "j \<le> length before"
      "g_bpred_mode m1 = g_bpred_mode m" "ps_insts (pipe_stats m1) = ps_insts (pipe_stats m) + word_of_nat j"
    using pipeline_run_ok [OF assms(1-3) sr] by blast
  have "g_bpred_mode m1 \<longrightarrow> calls_closed C ((isa_next ^^ j) s)"
    using calls_closed_run [OF assms(2) safe_run_mono [OF assms(4)]] assms(3) m1(3,4) by simp
  moreover have "safe_run C (length later + 5) ((isa_next ^^ j) s)"
    using safe_run_skip [of C "length later + 5" j s] safe_run_mono [OF assms(4), of "length later + 5 + j"] m1(3) by simp
  ultimately obtain m2 k where m2: "pipeline_run later m1 = Inr m2" "pinv C m2 ((isa_next ^^ k) ((isa_next ^^ j) s))"
      "ps_insts (pipe_stats m2) = ps_insts (pipe_stats m1) + word_of_nat k" "length later + wait m2 \<le> wait m1 + 200 * k"
    using pipeline_run_ok [OF m1(2) assms(2), of later] by blast
  have "(isa_next ^^ k) ((isa_next ^^ j) s) = (isa_next ^^ (j + k)) s" by (simp add: funpow_add add.commute [of j])
  then show ?thesis
    using m1 m2 wait_le [OF m1(2)] by (intro exI [of _ m1] exI [of _ m2] exI [of _ j] exI [of _ k]) simp
qed

lemma targets_init: "targets_in C (bpred_init bp)"
  using bp_inv_init by (simp add: targets_in_def) (simp add: bpred_init_def zero_bpred_def ras_stack_def)

text \<open>Where an in-order run may start.\<close>

definition start_ok :: "vaddr_t set \<Rightarrow> machine \<Rightarrow> bool" where
  "start_ok C m \<longleftrightarrow> mem_sys m \<and> code_clean (blk ` C) m \<and> regs_ok (cpu m) \<and> \<not> g_difftest_en m \<and>
     length (slots (cpu_pipe m)) = 4 \<and> fetchable C \<and> (g_bpred_mode m \<longrightarrow> calls_closed C (isa_of m))"

lemma pipeline_init_pinv:
  assumes "start_ok C m" and "safe C (isa_of m)"
  shows "pinv C (pipeline_init m) (isa_of m)" "env_eq m (pipeline_init m)" "g_bpred_mode (pipeline_init m) = g_bpred_mode m"
    "ps_insts (pipe_stats (pipeline_init m)) = 0" "wait (pipeline_init m) = 160"
proof -
  let ?m = "pipeline_init m"
  have f: "cpu_pipe ?m = reset_pipe (cpu_pc (cpu m)) (cpu_pipe m)" "mem_eq m ?m" "cpu ?m = cpu m" "g_difftest_en ?m = g_difftest_en m"
      "g_bpred_mode ?m = g_bpred_mode m" "g_bpred_mode m \<longrightarrow> bpred_state ?m = bpred_init (bpred_state m)"
    by (simp_all add: pipeline_init_def mem_eq_def Let_def)
  have v: "\<not> pr_valid (latch j ?m)" if "j < 4" for j
    using that assms(1) f(1) by (simp add: latch_def reset_pipe_def start_ok_def)
  have "base C ?m (isa_of m) (isa_of m)"
    using assms(1) f(3-6) mem_eq_sys [OF f(2)] code_clean_mem_eq [OF f(2)] targets_init
    by (simp add: base_def start_ok_def isa_of_def)
  moreover have "cpu_pc (cpu m) \<in> C" using assms(2) by (simp add: safe_def isa_of_def)
  moreover have "cpu_pc (cpu m) = i_pc (isa_of m)" by (simp add: isa_of_def)
  ultimately show "pinv C ?m (isa_of m)"
    using assms(1) v [of 0] v [of 1] v [of 2] v [of 3] f(1)
    by (simp add: pinv_def pinv4_def pipe_wf_def reset_pipe_def start_ok_def Let_def)
  show "env_eq m ?m" "g_bpred_mode ?m = g_bpred_mode m" "ps_insts (pipe_stats ?m) = 0"
    by (simp_all add: pipeline_init_def env_eq_def Let_def zero_pipe_stats_def)
  show "wait ?m = 160" using v [of 0] v [of 1] v [of 2] v [of 3] f(1) by (simp add: wait_def dist_def reset_pipe_def Let_def)
qed

section \<open>Properties\<close>

text \<open>
  C1. However many cycles the in-order pipeline runs, with branch prediction or without, and with the lock-step reference run
  (\<^verbatim>\<open>--difftest\<close>) off, its registers and program counter are those of the ISA after exactly as many instructions as it has retired, and memory is at most one instruction ahead:
  forwarding, load-use and cache stalls, flushes and wrong predictions are invisible to the program.
\<close>

theorem pipeline_refines_isa:
  assumes "start_ok C m" and "safe_run C (length stks + 5) (isa_of m)"
  shows "\<exists>m' k j. pipeline_run stks (pipeline_init m) = Inr m' \<and> k \<le> length stks \<and> ps_insts (pipe_stats m') = word_of_nat k \<and>
    cpu_pc (cpu m') = i_pc ((isa_next ^^ k) (isa_of m)) \<and> gpr (cpu m') = i_regs ((isa_next ^^ k) (isa_of m)) \<and>
    j \<le> 1 \<and> ram_view m' = i_mem ((isa_next ^^ (j + k)) (isa_of m))"
proof -
  have "safe C (isa_of m)" using safe_runD [OF assms(2)] by simp
  note i = pipeline_init_pinv [OF assms(1) this]
  have c: "fetchable C" "g_bpred_mode (pipeline_init m) \<longrightarrow> calls_closed C (isa_of m)"
    using assms(1) i(3) by (simp_all add: start_ok_def)
  obtain m' k where m': "pipeline_run stks (pipeline_init m) = Inr m'" "pinv C m' ((isa_next ^^ k) (isa_of m))" "k \<le> length stks"
      "ps_insts (pipe_stats m') = word_of_nat k"
    using pipeline_run_ok [OF i(1) c assms(2)] i(4) by auto
  then have "base C m' ((isa_next ^^ k) (isa_of m)) (adv (wb_valid m') ((isa_next ^^ k) (isa_of m)))"
    by (simp add: pinv_def pinv4_def wb_valid_def Let_def)
  then show ?thesis
    using m' by (intro exI [of _ m'] exI [of _ k] exI [of _ "of_bool (wb_valid m') :: nat"]) (cases "wb_valid m'"; simp add: base_def)
qed

lemma demo_start: "start_ok demo_code (demo_machine\<lparr>g_bpred_mode := True\<rparr>)" "isa_of (demo_machine\<lparr>g_bpred_mode := True\<rparr>) = isa_of demo_machine"
proof -
  let ?m = "demo_machine\<lparr>g_bpred_mode := True\<rparr>"
  have q: "mem_eq demo_machine ?m" by (simp add: mem_eq_def)
  show i: "isa_of ?m = isa_of demo_machine" using mem_eq_sys(2) [OF q] by (simp add: isa_of_def)
  note w = demo_words_at [OF conjunct2 [OF demo_in_loop [unfolded in_loop_def]]]
  have "calls_closed demo_code (isa_of demo_machine)"
    by (auto simp: calls_closed_def demo_code_def w is_call_def)
  then show "start_ok demo_code ?m"
    using demo_sys demo_regs demo_fetchable demo_clean mem_eq_sys(1) [OF q] code_clean_mem_eq [OF q] i
    by (simp add: start_ok_def demo_fields zero_pipe_def)
qed

theorem pipeline_refines_isa_witness:
  "\<exists>m' k. pipeline_run (replicate 100 zero_ir) (pipeline_init (demo_machine\<lparr>g_bpred_mode := True\<rparr>)) = Inr m' \<and> k \<le> 100 \<and>
     gpr (cpu m') = i_regs ((isa_next ^^ k) (isa_of demo_machine))"
proof -
  have s: "safe_run demo_code (length (replicate 100 zero_ir) + 5) (isa_of (demo_machine\<lparr>g_bpred_mode := True\<rparr>))"
    unfolding demo_start(2) by (rule demo_safe [OF demo_in_loop])
  show ?thesis using pipeline_refines_isa [OF demo_start(1) s] demo_start(2) by auto
qed

text \<open>
  C3. The pipeline never hangs: whatever it has done before, in any later stretch of \<open>200 * n\<close> cycles it retires at least \<open>n\<close>
  instructions more, and the registers before and after are those of the ISA run at these points.
\<close>

theorem pipeline_progress:
  assumes "start_ok C m" and "safe_run C (length before + 200 * n + 5) (isa_of m)" and "length later = 200 * n"
  shows "\<exists>m1 m2 j k. pipeline_run before (pipeline_init m) = Inr m1 \<and> pipeline_run later m1 = Inr m2 \<and> n \<le> k \<and>
    ps_insts (pipe_stats m1) = word_of_nat j \<and> ps_insts (pipe_stats m2) = word_of_nat (j + k) \<and>
    gpr (cpu m1) = i_regs ((isa_next ^^ j) (isa_of m)) \<and> gpr (cpu m2) = i_regs ((isa_next ^^ (j + k)) (isa_of m))"
proof -
  have "safe C (isa_of m)" using safe_runD [OF assms(2)] by simp
  note i = pipeline_init_pinv [OF assms(1) this]
  have c: "fetchable C" "g_bpred_mode (pipeline_init m) \<longrightarrow> calls_closed C (isa_of m)"
    using assms(1) i(3) by (simp_all add: start_ok_def)
  obtain m1 m2 j k where r: "pipeline_run before (pipeline_init m) = Inr m1" "pipeline_run later m1 = Inr m2"
      "pinv C m1 ((isa_next ^^ j) (isa_of m))" "pinv C m2 ((isa_next ^^ (j + k)) (isa_of m))" "length later \<le> 199 + 200 * k"
      "ps_insts (pipe_stats m1) = word_of_nat j" "ps_insts (pipe_stats m2) = word_of_nat (j + k)"
    using pipeline_run_again [OF i(1) c, of before later] assms(2,3) i(4) by auto
  have "gpr (cpu x) = i_regs s" if "pinv C x s" for x s using that by (simp add: pinv_def pinv4_def base_def Let_def)
  moreover have "n \<le> k" using r(5) assms(3) by simp
  ultimately show ?thesis using r(1-4,6,7) by blast
qed

theorem pipeline_progress_witness:
  "\<exists>m1 m2 j k. pipeline_run (replicate 100 zero_ir) (pipeline_init (demo_machine\<lparr>g_bpred_mode := True\<rparr>)) = Inr m1 \<and>
     pipeline_run (replicate 400 zero_ir) m1 = Inr m2 \<and> 2 \<le> k \<and>
     ps_insts (pipe_stats m1) = word_of_nat j \<and> ps_insts (pipe_stats m2) = word_of_nat (j + k)"
proof -
  have s: "safe_run demo_code (length (replicate 100 zero_ir) + 200 * 2 + 5) (isa_of (demo_machine\<lparr>g_bpred_mode := True\<rparr>))"
    unfolding demo_start(2) by (rule demo_safe [OF demo_in_loop])
  have "length (replicate 400 zero_ir) = 200 * 2" by simp
  from pipeline_progress [OF demo_start(1) s this] show ?thesis by blast
qed

end
