(* ===== verification/Exec_Loop.thy ===== *)
theory Exec_Loop
  imports Core Watchpoint Pipe_Refine
begin

text \<open>
  The run loops of \<^verbatim>\<open>exec\<close> (\<^verbatim>\<open>src/cpu/exec.c\<close>). What the environment supplies in iteration \<open>k\<close>, the stack content before the
  decoder writes it and the queue of SDL events, is the function \<open>env\<close>. The loops of the other modes run
  until enough instructions have retired, so that they are partial functions: \<open>None\<close> is a run that does not return. The
  reports and the message at the end are output.
\<close>

type_synonym env = "nat \<Rightarrow> (nat \<Rightarrow> IR_Inst) \<times> sdl_event list"

section \<open>exec.c\<close>

definition watch :: "machine \<Rightarrow> machine res" where
  "watch m =
    (if wp_any_active m
     then bind_res (check_wp m) (\<lambda>(hit, m). Inr (if hit \<and> state m \<noteq> NEMU_ABORT then m\<lparr>state := NEMU_STOP\<rparr> else m))
     else Inr m)"

fun run_functional :: "env \<Rightarrow> nat \<Rightarrow> nat \<Rightarrow> machine \<Rightarrow> machine res" where
  "run_functional env k 0 m = Inr m"
| "run_functional env k (Suc n) m =
     bind_res (exec_once (fst (env k) 0) (snd (env k)) m) (\<lambda>m.
     bind_res (watch m) (\<lambda>m.
     if state m \<noteq> NEMU_RUNNING then Inr m else run_functional env (Suc k) n m))"

text \<open>Every 4096 cycles the clock is read.\<close>

definition pip_refresh :: "sdl_event list \<Rightarrow> machine \<Rightarrow> machine res" where
  "pip_refresh evs m =
    (let m = m\<lparr>pip_cycle_ctr := pip_cycle_ctr m + 1\<rparr> in
     if pip_cycle_ctr m AND 4095 = 0 then
       let (now, d) = get_time (dev m); m = m\<lparr>dev := d\<rparr> in
       if now - pip_last m \<ge> 16666
       then let m = m\<lparr>pip_last := now\<rparr> in bind_res (vga_update_screen (dev m)) (\<lambda>d. poll_events evs (m\<lparr>dev := d\<rparr>))
       else Inr m
     else Inr m)"

definition inorder_step :: "(nat \<Rightarrow> IR_Inst) \<times> sdl_event list \<Rightarrow> machine \<Rightarrow> machine res" where
  "inorder_step e m =
     bind_res (pipeline_cycle (fst e 0) m) (\<lambda>m. bind_res (watch m) (pip_refresh (snd e)))"

partial_function (option) run_inorder :: "env \<Rightarrow> word_t \<Rightarrow> nat \<Rightarrow> machine \<Rightarrow> machine res option" where
  [code]: "run_inorder env n k m =
    (if ps_insts (pipe_stats m) < n \<and> state m = NEMU_RUNNING then
       case inorder_step (env k) m of Inl e \<Rightarrow> Some (Inl e) | Inr m \<Rightarrow> run_inorder env n (Suc k) m
     else Some (Inr m))"

definition ooo_refresh :: "sdl_event list \<Rightarrow> machine \<Rightarrow> machine res" where
  "ooo_refresh evs m =
    (let m = m\<lparr>ooo_cycle_ctr := ooo_cycle_ctr m + 1\<rparr> in
     if ooo_cycle_ctr m AND 4095 = 0 then
       let (now, d) = get_time (dev m); m = m\<lparr>dev := d\<rparr> in
       if now - ooo_last m \<ge> 16666
       then let m = m\<lparr>ooo_last := now\<rparr> in bind_res (vga_update_screen (dev m)) (\<lambda>d. poll_events evs (m\<lparr>dev := d\<rparr>))
       else Inr m
     else Inr m)"

definition ooo_step :: "(nat \<Rightarrow> IR_Inst) \<times> sdl_event list \<Rightarrow> machine \<Rightarrow> machine res" where
  "ooo_step e m =
     bind_res (ooo_cycle (fst e) m) (\<lambda>m. bind_res (watch m) (ooo_refresh (snd e)))"

partial_function (option) run_ooo :: "env \<Rightarrow> word_t \<Rightarrow> nat \<Rightarrow> machine \<Rightarrow> machine res option" where
  [code]: "run_ooo env n k m =
    (if os_insts (ooo_stats m) < n \<and> state m = NEMU_RUNNING then
       case ooo_step (env k) m of Inl e \<Rightarrow> Some (Inl e) | Inr m \<Rightarrow> run_ooo env n (Suc k) m
     else Some (Inr m))"

text \<open>The first call of \<^verbatim>\<open>exec\<close> with two cores initialises their engines.\<close>

definition init_engine :: "nat \<Rightarrow> machine \<Rightarrow> machine" where
  "init_engine i m =
    (let c = cores m ! i;
         m = m\<lparr>g_current_hartid := core_id c, cpu := core_cpu c, csr := core_csr c, L1I_cache := core_l1i c, L1D_cache := core_l1d c\<rparr>
     in case core_mode c of
          CORE_MODE_INORDER \<Rightarrow> pipeline_init_core i m
        | CORE_MODE_OOO \<Rightarrow> ooo_init_core i m
        | CORE_MODE_FUNCTIONAL \<Rightarrow> m)"

definition init_engines :: "machine \<Rightarrow> machine" where
  "init_engines m =
    (if cores_initialised m then m
     else fold init_engine [0..<g_num_cores m] (m\<lparr>cores_initialised := True\<rparr>))"

text \<open>The inner loop over the cores, with \<^verbatim>\<open>total\<close>.\<close>

fun core_round :: "env \<Rightarrow> nat \<Rightarrow> nat list \<Rightarrow> word_t \<Rightarrow> machine \<Rightarrow> (word_t \<times> machine) res" where
  "core_round env k [] tot m = Inr (tot, m)"
| "core_round env k (i # is) tot m =
     bind_res (core_cycle (fst (env k)) i m) (\<lambda>m.
     bind_res (watch m) (\<lambda>m.
     if state m \<noteq> NEMU_RUNNING then Inr (tot + 1, m) else core_round env (Suc k) is (tot + 1) m))"

partial_function (option) run_multicore :: "env \<Rightarrow> word_t \<Rightarrow> nat \<Rightarrow> word_t \<Rightarrow> machine \<Rightarrow> machine res option" where
  [code]: "run_multicore env n k tot m =
    (if tot < n \<and> state m = NEMU_RUNNING then
       case core_round env k [0..<g_num_cores m] tot m of
         Inl e \<Rightarrow> Some (Inl e)
       | Inr (tot, m) \<Rightarrow> run_multicore env n (k + 2) tot m
     else Some (Inr m))"

definition exec :: "env \<Rightarrow> word_t \<Rightarrow> machine \<Rightarrow> machine res option" where
  "exec env n m =
    (if state m \<in> {NEMU_END, NEMU_ABORT} then Some (Inr m)
     else
       let m = m\<lparr>state := NEMU_RUNNING\<rparr> in
       if g_num_cores m > 1 then run_multicore env n 0 0 (init_engines m)
       else if g_ooo_mode m then run_ooo env n 0 (ooo_init m)
       else if g_inorder_mode m then run_inorder env n 0 (pipeline_init m)
       else Some (run_functional env 0 (unat n) m))"

section \<open>The functional loop\<close>

lemma watch_none [simp]: "wp_head m = [] \<Longrightarrow> watch m = Inr m"
  by (simp add: watch_def wp_any_active_def)

text \<open>No PMP entry denies anything, no watchpoint is set, the machine runs.\<close>

definition going :: "machine \<Rightarrow> bool" where
  "going m \<longleftrightarrow> pmp_on_count m = 0 \<and> priv_level m = MACHINE \<and> wp_head m = [] \<and> state m = NEMU_RUNNING"

text \<open>Of the next \<open>n\<close> iterations none brings a request to quit, and the keyboard queue has room for all their events.\<close>

definition quiet :: "env \<Rightarrow> nat \<Rightarrow> nat \<Rightarrow> machine \<Rightarrow> bool" where
  "quiet env k n m \<longleftrightarrow> (\<forall>i<n. SDL_QUIT \<notin> set (snd (env (k + i)))) \<and> dev_ok (dev m) \<and>
     length (key_contents (dev m)) + (\<Sum>i<n. length (snd (env (k + i)))) \<le> 1023"

lemma quiet_next:
  assumes "quiet env k (Suc n) m" and "dev_ok (dev m')"
    and "length (key_contents (dev m')) \<le> length (key_contents (dev m)) + length (snd (env k))"
  shows "quiet env (Suc k) n m'"
  using assms by (auto simp: quiet_def sum.lessThan_Suc_shift simp del: sum.lessThan_Suc)

lemma quiet_mono: "quiet env k n m \<Longrightarrow> j \<le> n \<Longrightarrow> quiet env k j m"
  using sum_mono2 [of "{..<n}" "{..<j}" "\<lambda>i. length (snd (env (k + i)))"] by (force simp: quiet_def)

lemma quiet_room: "quiet env k (Suc n) m \<Longrightarrow> room (snd (env k)) m \<and> SDL_QUIT \<notin> set (snd (env k))"
  by (force simp: quiet_def room_def sum.lessThan_Suc_shift simp del: sum.lessThan_Suc)

definition code_ok :: "vaddr_t set \<Rightarrow> machine \<Rightarrow> bool" where
  "code_ok C m \<longleftrightarrow> mem_sys m \<and> regs_ok (cpu m) \<and> code_clean (blk ` C) m"

lemma code_ok_mem_eq: "mem_eq m m' \<Longrightarrow> cpu m' = cpu m \<Longrightarrow> code_ok C m' = code_ok C m \<and> isa_of m' = isa_of m"
  using mem_eq_sys [of m m'] code_clean_mem_eq [of m m'] by (simp add: code_ok_def isa_of_def)

lemma exec_once_safe:
  assumes "code_ok C m" and "going m" and "fetchable C" and "safe C (isa_of m)" and "room evs m" and "SDL_QUIT \<notin> set evs"
  shows "\<exists>m'. exec_once stk evs m = Inr m' \<and> isa_of m' = isa_next (isa_of m) \<and> code_ok C m' \<and> going m' \<and> dev_ok (dev m') \<and>
    length (key_contents (dev m')) \<le> length (key_contents (dev m)) + length evs"
proof -
  have p: "snd (pmp_check (cpu_pc (cpu m)) True False m) = m" using assms(2) by (simp add: pmp_check_def going_def)
  obtain ir m1 where s: "step_inst stk m = Inr (ir, m1)" "isa_of m1 = isa_next (isa_of m)" "code_ok C m1" "env_eq m m1"
    using step_inst_safe [OF _ _ _ assms(3,4), of stk] assms(1) p by (auto simp: code_ok_def)
  define m2 where "m2 = m1\<lparr>dec_s := \<lparr>s_pc = ir_pc ir, s_snpc = dnpc ir, s_dnpc = dnpc ir, s_inst_val = ir_raw ir\<rparr>,
    g_sim_cycles := g_sim_cycles m1 + 1, g_sim_instret := g_sim_instret m1 + 1\<rparr>"
  have q: "mem_eq m1 m2" "cpu m2 = cpu m1" "env_eq m m2" using s(4) by (simp_all add: m2_def mem_eq_def env_eq_def)
  have "room evs m2" using assms(5) q(3) by (simp add: room_def env_eq_def)
  from refresh_ok [OF this] obtain m' where m': "refresh evs m2 = Inr m'" "polled evs m2 m'" "state m' = state m2" using assms(6) by blast
  note f = dev_frame_fields [of m2 m']
  have "dev_frame m2 m'" using m'(2) by (simp add: polled_def)
  then have "going m'" "code_ok C m' = code_ok C m2 \<and> isa_of m' = isa_of m2"
    using f m'(3) assms(2) q(3) code_ok_mem_eq [OF f(1,2)] by (simp_all add: going_def env_eq_def)
  then show ?thesis
    using s m'(1,2) q code_ok_mem_eq [OF q(1,2)] by (auto simp: exec_once_def m2_def [symmetric] polled_def env_eq_def)
qed

lemma run_functional_ok:
  "code_ok C m \<Longrightarrow> going m \<Longrightarrow> fetchable C \<Longrightarrow> safe_run C n (isa_of m) \<Longrightarrow> quiet env k n m \<Longrightarrow>
   \<exists>m'. run_functional env k n m = Inr m' \<and> isa_of m' = (isa_next ^^ n) (isa_of m) \<and> code_ok C m' \<and> going m'"
proof (induction n arbitrary: k m)
  case (Suc n)
  have s: "safe C (isa_of m)" "safe_run C n (isa_next (isa_of m))" using Suc.prems(4) safe_runD safe_run_next by auto
  obtain m1 where m1: "exec_once (fst (env k) 0) (snd (env k)) m = Inr m1" "isa_of m1 = isa_next (isa_of m)" "code_ok C m1" "going m1"
      "dev_ok (dev m1)" "length (key_contents (dev m1)) \<le> length (key_contents (dev m)) + length (snd (env k))"
    using exec_once_safe [OF Suc.prems(1-3) s(1)] quiet_room [OF Suc.prems(5)] by metis
  have "quiet env (Suc k) n m1" by (rule quiet_next [OF Suc.prems(5) m1(5,6)])
  from Suc.IH [OF m1(3,4) Suc.prems(3) _ this] obtain m' where
    "run_functional env (Suc k) n m1 = Inr m'" "isa_of m' = (isa_next ^^ n) (isa_of m1)" "code_ok C m'" "going m'" using m1(2) s(2) by auto
  then show ?case using m1 by (auto simp: going_def funpow_swap1)
qed auto

section \<open>The in-order loop\<close>

lemma pip_refresh_ok:
  assumes "room evs m" and "SDL_QUIT \<notin> set evs"
  shows "\<exists>m'. pip_refresh evs m = Inr m' \<and> polled evs m m' \<and> state m' = state m"
proof -
  let ?m = "m\<lparr>pip_cycle_ctr := pip_cycle_ctr m + 1\<rparr>" and ?d = "snd (get_time (dev m))" and ?now = "fst (get_time (dev m))"
  have d: "dev_ok ?d" "key_contents ?d = key_contents (dev m)" using get_time_ok [of "dev m"] assms(1) by (simp_all add: room_def)
  have "room evs (?m\<lparr>dev := ?d, pip_last := ?now\<rparr>)" using assms(1) d by (simp add: room_def)
  from update_poll_ok [OF this] show ?thesis
    using assms d by (auto simp: pip_refresh_def case_prod_beta Let_def polled_def room_def)
qed

lemma inorder_step_ok:
  assumes "pinv C m s" and "fetchable C" and "g_bpred_mode m \<longrightarrow> calls_closed C s" and "safe_run C 5 s" and "going m"
    and "room (snd e) m" and "SDL_QUIT \<notin> set (snd e)"
  shows "\<exists>m' b. inorder_step e m = Inr m' \<and> pinv C m' (adv b s) \<and> g_bpred_mode m' = g_bpred_mode m \<and> going m' \<and>
    ps_insts (pipe_stats m') = ps_insts (pipe_stats m) + of_bool b \<and> wait m' \<le> 199 \<and> (\<not> b \<longrightarrow> wait m' < wait m) \<and>
    dev_ok (dev m') \<and> length (key_contents (dev m')) \<le> length (key_contents (dev m)) + length (snd e)"
proof -
  obtain m1 b where m1: "pipeline_cycle (fst e 0) m = Inr m1" "pinv C m1 (adv b s)" "env_eq m m1" "g_bpred_mode m1 = g_bpred_mode m"
      "ps_insts (pipe_stats m1) = ps_insts (pipe_stats m) + of_bool b" "wait m1 \<le> 199" "\<not> b \<longrightarrow> wait m1 < wait m"
    using pipeline_cycle_ok [OF assms(1-4)] by blast
  have g: "going m1" "room (snd e) m1" using assms(5,6) m1(3) by (simp_all add: going_def room_def env_eq_def)
  obtain m' where m': "pip_refresh (snd e) m1 = Inr m'" "polled (snd e) m1 m'" "state m' = state m1"
    using pip_refresh_ok [OF g(2) assms(7)] by blast
  have fr: "dev_frame m1 m'" using m'(2) by (simp add: polled_def)
  note f = dev_frame_fields [OF fr]
  have "base_eq m1 m'" using f by (simp add: base_eq_def)
  moreover have "latch j m' = latch j m1" for j using f by (simp add: latch_def)
  ultimately have "pinv C m' (adv b s)" by (rule pinv_cong [OF m1(2)]) (use f(6) m1(2) in \<open>simp_all add: pinv_def\<close>)
  moreover have "wait m' = wait m1" using f(6) by (simp add: wait_def dist_def latch_def Let_def)
  moreover have "going m'" using g(1) f m'(3) by (simp add: going_def)
  ultimately show ?thesis
    using m1 m'(1,2) g(1) f by (intro exI [of _ m'] exI [of _ b]) (simp add: inorder_step_def going_def polled_def env_eq_def)
qed

lemma run_inorder_ok:
  assumes "fetchable C"
  shows "pinv C m s \<Longrightarrow> (g_bpred_mode m \<longrightarrow> calls_closed C s) \<Longrightarrow> safe_run C (unat n - j + 5) s \<Longrightarrow> going m \<Longrightarrow> quiet env k bound m \<Longrightarrow>
    ps_insts (pipe_stats m) = word_of_nat j \<Longrightarrow> j \<le> unat n \<Longrightarrow> wait m + 200 * (unat n - j) \<le> bound \<Longrightarrow>
    \<exists>m'. run_inorder env n k m = Some (Inr m') \<and> pinv C m' ((isa_next ^^ (unat n - j)) s) \<and> ps_insts (pipe_stats m') = n \<and> going m'"
proof (induction bound arbitrary: m s j k)
  case 0
  then have "j = unat n" by simp
  then show ?case using 0 by (subst run_inorder.simps) simp
next
  case (Suc bound)
  show ?case
  proof (cases "j = unat n")
    case True
    then show ?thesis using Suc.prems by (subst run_inorder.simps) simp
  next
    case False
    then have j: "j < unat n" using Suc.prems(7) by simp
    then have lt: "(word_of_nat j :: word_t) < n"
      using order_less_trans [OF j unsigned_less [of n]] by (simp add: word_less_nat_alt unsigned_of_nat take_bit_nat_eq_self)
    have sr: "safe_run C 5 s" using safe_run_mono [OF Suc.prems(3)] by simp
    obtain m1 b where m1: "inorder_step (env k) m = Inr m1" "pinv C m1 (adv b s)" "g_bpred_mode m1 = g_bpred_mode m" "going m1"
        "ps_insts (pipe_stats m1) = ps_insts (pipe_stats m) + of_bool b" "wait m1 \<le> 199" "\<not> b \<longrightarrow> wait m1 < wait m"
        "dev_ok (dev m1)" "length (key_contents (dev m1)) \<le> length (key_contents (dev m)) + length (snd (env k))"
      using inorder_step_ok [OF Suc.prems(1) assms Suc.prems(2) sr Suc.prems(4)] quiet_room [OF Suc.prems(5)] by blast
    let ?j = "j + of_bool b"
    have q: "quiet env (Suc k) bound m1" by (rule quiet_next [OF Suc.prems(5) m1(8,9)])
    have cc: "g_bpred_mode m1 \<longrightarrow> calls_closed C (adv b s)"
      using Suc.prems(2) m1(3) calls_closed_adv [OF assms safe_runD [OF sr]] by simp
    have sr': "safe_run C (unat n - ?j + 5) (adv b s)"
    proof (cases b)
      case True
      have "unat n - j + 5 = Suc (unat n - ?j + 5)" using j True by simp
      then show ?thesis using Suc.prems(3) safe_run_next True by simp
    qed (use Suc.prems(3) in simp)
    have "wait m1 + 200 * (unat n - ?j) \<le> bound" using m1(6,7) Suc.prems(8) j by (cases b) simp_all
    moreover have "ps_insts (pipe_stats m1) = word_of_nat ?j" using m1(5) Suc.prems(6) by simp
    ultimately obtain m' where m': "run_inorder env n (Suc k) m1 = Some (Inr m')" "pinv C m' ((isa_next ^^ (unat n - ?j)) (adv b s))"
        "ps_insts (pipe_stats m') = n" "going m'"
      using Suc.IH [OF m1(2) cc sr' m1(4) q] j by (cases b) auto
    have "(isa_next ^^ (unat n - ?j)) (adv b s) = (isa_next ^^ (unat n - j)) s"
    proof (cases b)
      case True
      have "(isa_next ^^ Suc (unat n - Suc j)) s = (isa_next ^^ (unat n - Suc j)) (isa_next s)" by (simp add: funpow_swap1)
      then show ?thesis using True Suc_diff_Suc [OF j] by simp
    qed simp
    then show ?thesis
      using m' m1(1) lt Suc.prems(4,6) by (subst run_inorder.simps) (simp add: going_def)
  qed
qed

section \<open>The loop over two cores\<close>

definition round_robin :: "nat \<Rightarrow> nat list" where
  "round_robin r = concat (replicate r [0, 1])"

lemma core_round_ok:
  assumes "smp_ready C m" and "smp_going m" and "fetchable C" and "smp_safe C [0, 1] (smp_of m)"
  shows "\<exists>m'. core_round env k [0, 1] tot m = Inr (tot + 2, m') \<and> smp_ready C m' \<and> smp_going m' \<and>
    smp_of m' = hart_step 1 (hart_step 0 (smp_of m))"
proof -
  obtain m1 where m1: "core_cycle (fst (env k)) 0 m = Inr m1" "smp_ready C m1" "smp_going m1" "smp_of m1 = hart_step 0 (smp_of m)"
    using core_cycle_step [OF assms(1) _ assms(3), of 0] assms(2,4) by auto
  obtain m2 where m2: "core_cycle (fst (env (Suc k))) 1 m1 = Inr m2" "smp_ready C m2" "smp_going m2" "smp_of m2 = hart_step 1 (smp_of m1)"
    using core_cycle_step [OF m1(2) _ assms(3), of 1] m1(3,4) assms(4) by auto
  show ?thesis using m1 m2 by (auto simp: smp_going_def)
qed

lemma smp_safe_append: "smp_safe C (xs @ ys) S \<longleftrightarrow> smp_safe C xs S \<and> smp_safe C ys (fold hart_step xs S)"
  by (induction xs arbitrary: S) auto

lemma run_multicore_ok:
  "smp_ready C m \<Longrightarrow> smp_going m \<Longrightarrow> fetchable C \<Longrightarrow> smp_safe C (round_robin r) (smp_of m) \<Longrightarrow>
   unat n < 2 ^ 63 \<Longrightarrow> unat n \<le> unat tot + 2 * r \<Longrightarrow> unat tot + 2 * r \<le> unat n + 1 \<Longrightarrow>
   \<exists>m'. run_multicore env n k tot m = Some (Inr m') \<and> smp_ready C m' \<and> smp_of m' = fold hart_step (round_robin r) (smp_of m)"
proof (induction r arbitrary: k tot m)
  case 0
  then have "\<not> tot < n" by (simp add: word_less_nat_alt)
  then show ?case using 0 by (subst run_multicore.simps) (simp add: round_robin_def)
next
  case (Suc r)
  have rr: "round_robin (Suc r) = [0, 1] @ round_robin r" by (simp add: round_robin_def)
  have lt: "tot < n" using Suc.prems(7) by (simp add: word_less_nat_alt)
  have tot: "unat (tot + 2) = unat tot + 2"
    using Suc.prems(5,7) by (simp add: unat_word_ariths)
  have ss: "smp_safe C [0, 1] (smp_of m)" "smp_safe C (round_robin r) (hart_step 1 (hart_step 0 (smp_of m)))"
    using Suc.prems(4) unfolding rr smp_safe_append by simp_all
  obtain m1 where m1: "core_round env k [0, 1] tot m = Inr (tot + 2, m1)" "smp_ready C m1" "smp_going m1"
      "smp_of m1 = hart_step 1 (hart_step 0 (smp_of m))"
    using core_round_ok [OF Suc.prems(1-3) ss(1)] by blast
  obtain m' where m': "run_multicore env n (k + 2) (tot + 2) m1 = Some (Inr m')" "smp_ready C m'"
      "smp_of m' = fold hart_step (round_robin r) (smp_of m1)"
    using Suc.IH [OF m1(2,3) Suc.prems(3) _ Suc.prems(5), of "tot + 2" "k + 2"] ss(2) m1(4) tot Suc.prems(6,7) by auto
  have "[0..<g_num_cores m] = [0, 1]" "state m = NEMU_RUNNING" using Suc.prems(1,2) by (simp_all add: smp_ready_def smp_going_def upt_rec)
  then show ?case
    using m1 m' lt by (subst run_multicore.simps) (simp add: rr)
qed

text \<open>Installing the context of a functional core for its initialisation changes nothing that matters to the next cycle.\<close>

lemma init_engine_ready:
  assumes "smp_ready C m" and "i < 2"
  shows "smp_ready C (init_engine i m) \<and> smp_of (init_engine i m) = smp_of m \<and> cores (init_engine i m) = cores m \<and>
    (smp_going m \<longrightarrow> smp_going (init_engine i m))"
proof -
  note r = assms(1) [unfolded smp_ready_def]
  let ?c = "cores m ! i"
  let ?m = "m\<lparr>g_current_hartid := core_id ?c, cpu := core_cpu ?c, csr := core_csr ?c, L1I_cache := core_l1i ?c, L1D_cache := core_l1d ?c\<rparr>"
  have m: "init_engine i m = ?m" using r assms(2) by (simp add: init_engine_def Let_def)
  have i: "install 0 ?m = install 0 m" by (simp add: install_def Let_def)
  have s: "same_caches m ?m" using r by (simp add: same_caches_def data_caches_def l1i_caches_def)
  have "smp_of ?m = smp_of m" using same_caches_sys(2) [OF s] by (simp add: smp_of_def)
  moreover have "smp_ready C ?m" using r i code_clean_same [OF s] by (simp add: smp_ready_def)
  ultimately show ?thesis unfolding m by (simp add: smp_going_def)
qed

lemma init_engines_ready:
  assumes "smp_ready C m"
  shows "smp_ready C (init_engines m) \<and> smp_of (init_engines m) = smp_of m \<and> (smp_going m \<longrightarrow> smp_going (init_engines m))"
proof (cases "cores_initialised m")
  case False
  let ?m = "m\<lparr>cores_initialised := True\<rparr>"
  have "same_caches m ?m" by (simp add: same_caches_def data_caches_def l1i_caches_def)
  note s = same_caches_sys(2) [OF this] code_clean_same [OF this]
  have "mem_eq (install 0 m) (install 0 ?m)" by (simp add: mem_eq_def install_def Let_def)
  then have "mem_sys (install 0 ?m) \<longleftrightarrow> mem_sys (install 0 m)" by (rule mem_eq_sys)
  then have r: "smp_ready C ?m" "smp_of ?m = smp_of m" "smp_going m \<longrightarrow> smp_going ?m"
    using assms s by (simp_all add: smp_ready_def smp_of_def smp_going_def)
  have "[0..<g_num_cores m] = [0, 1]" using assms by (simp add: smp_ready_def upt_rec)
  then show ?thesis
    using False init_engine_ready [OF r(1), of 0] init_engine_ready [of C "init_engine 0 ?m" 1] r by (simp add: init_engines_def)
qed (use assms in \<open>simp add: init_engines_def\<close>)

section \<open>One core, either engine\<close>

lemma exec_single:
  assumes "start_ok C m" and "going m" and "g_num_cores m = 1" and "\<not> g_ooo_mode m"
    and "safe_run C (unat n + 5) (isa_of m)" and "quiet env 0 (200 * unat n + 160) m"
  shows "\<exists>m'. exec env n m = Some (Inr m') \<and> (let s = (isa_next ^^ unat n) (isa_of m) in
    cpu m' = \<lparr>gpr = i_regs s, cpu_pc = i_pc s\<rparr> \<and> (\<exists>j\<le>1. ram_view m' = i_mem ((isa_next ^^ j) s)) \<and> (\<not> g_inorder_mode m \<longrightarrow> isa_of m' = s))"
proof (cases "g_inorder_mode m")
  case False
  have r: "state m = NEMU_RUNNING" "m\<lparr>state := NEMU_RUNNING\<rparr> = m" using assms(2) by (simp_all add: going_def)
  have c: "code_ok C m" "fetchable C" "safe_run C (unat n) (isa_of m)" "quiet env 0 (unat n) m"
    using assms(1) safe_run_mono [OF assms(5)] quiet_mono [OF assms(6)] by (simp_all add: code_ok_def start_ok_def)
  obtain m' where m': "run_functional env 0 (unat n) m = Inr m'" "isa_of m' = (isa_next ^^ unat n) (isa_of m)"
    using run_functional_ok [OF c(1) assms(2) c(2-4)] by blast
  have "exec env n m = Some (Inr m')" using assms(3,4) False m'(1) by (simp add: exec_def r)
  moreover have "cpu m' = \<lparr>gpr = i_regs (isa_of m'), cpu_pc = i_pc (isa_of m')\<rparr>" "ram_view m' = i_mem ((isa_next ^^ 0) (isa_of m'))"
    by (simp_all add: isa_of_def)
  ultimately show ?thesis using m'(2) by (metis zero_le)
next
  case True
  let ?s = "(isa_next ^^ unat n) (isa_of m)" and ?i = "pipeline_init m"
  have r: "state m = NEMU_RUNNING" "m\<lparr>state := NEMU_RUNNING\<rparr> = m" using assms(2) by (simp_all add: going_def)
  have "safe C (isa_of m)" using safe_runD [OF assms(5)] by simp
  note i = pipeline_init_pinv [OF assms(1) this]
  have gi: "going ?i" "quiet env 0 (200 * unat n + 160) ?i" using assms(2,6) i(2) by (simp_all add: going_def quiet_def env_eq_def)
  obtain m' where m': "run_inorder env n 0 ?i = Some (Inr m')" "pinv C m' ?s"
    using run_inorder_ok [of C ?i "isa_of m" n 0 env 0 "200 * unat n + 160"] i gi assms(1,5) by (auto simp: start_ok_def)
  have b: "base C m' ?s (adv (pr_valid (latch (p_wb (cpu_pipe m')) m')) ?s)" using m'(2) by (simp add: pinv_def pinv4_def Let_def)
  then have "ram_view m' = i_mem ((isa_next ^^ of_bool (pr_valid (latch (p_wb (cpu_pipe m')) m'))) ?s)"
    by (cases "pr_valid (latch (p_wb (cpu_pipe m')) m')") (simp_all add: base_def)
  then have "\<exists>j\<le>1. ram_view m' = i_mem ((isa_next ^^ j) ?s)" by (metis of_bool_less_eq_one)
  moreover have "cpu m' = \<lparr>gpr = i_regs ?s, cpu_pc = i_pc ?s\<rparr>" using b by (simp add: base_def CPU_state.equality)
  moreover have "exec env n m = Some (Inr m')" using assms(3,4) True m'(1) by (simp add: exec_def r)
  ultimately show ?thesis using True by simp
qed

text \<open>With two functional cores a call of \<^verbatim>\<open>exec n\<close> runs as many rounds as \<open>n\<close> needs.\<close>

lemma exec_dual:
  assumes "smp_ready C m" and "smp_going m" and "fetchable C" and "unat n < 2 ^ 63"
    and "smp_safe C (round_robin ((unat n + 1) div 2)) (smp_of m)"
  shows "\<exists>m'. exec env n m = Some (Inr m') \<and> smp_of m' = fold hart_step (round_robin ((unat n + 1) div 2)) (smp_of m)"
proof -
  have r: "g_num_cores m = 2" "state m = NEMU_RUNNING" "m\<lparr>state := NEMU_RUNNING\<rparr> = m"
    using assms(1,2) by (simp_all add: smp_ready_def smp_going_def)
  note i = init_engines_ready [OF assms(1)]
  have "exec env n m = run_multicore env n 0 0 (init_engines m)" using r(1,2) by (simp add: exec_def r(3))
  moreover have "unat n \<le> unat (0 :: word_t) + 2 * ((unat n + 1) div 2)" "unat (0 :: word_t) + 2 * ((unat n + 1) div 2) \<le> unat n + 1" by simp_all
  ultimately show ?thesis
    using run_multicore_ok [of C "init_engines m" "(unat n + 1) div 2" n 0 env 0] i assms(2-5) by auto
qed

section \<open>Properties\<close>

text \<open>
  C34. \<^verbatim>\<open>exec n\<close> in functional mode on one core returns, still running, and has run exactly the next \<open>n\<close> instructions of the ISA. The
  machine is at machine level with no PMP entry on and no watchpoint set (\<open>going\<close>); key events may arrive meanwhile, none of them a
  request to quit, and no more than the keyboard queue has room for (\<open>quiet\<close>): one more is its overflow assertion.
\<close>

theorem exec_functional:
  assumes "code_ok C m" and "going m" and "fetchable C" and "g_num_cores m = 1" and "\<not> g_ooo_mode m" and "\<not> g_inorder_mode m"
    and "safe_run C (unat n) (isa_of m)" and "quiet env 0 (unat n) m"
  shows "\<exists>m'. exec env n m = Some (Inr m') \<and> isa_of m' = (isa_next ^^ unat n) (isa_of m) \<and> state m' = NEMU_RUNNING"
proof -
  have r: "state m = NEMU_RUNNING" "m\<lparr>state := NEMU_RUNNING\<rparr> = m" using assms(2) by (simp_all add: going_def)
  have "exec env n m = Some (run_functional env 0 (unat n) m)" using assms(4-6) by (simp add: exec_def r)
  then show ?thesis using run_functional_ok [OF assms(1-3,7,8)] by (auto simp: going_def)
qed

definition demo_env :: env where
  "demo_env k = (\<lambda>_. zero_ir, if k = 7 then [SDL_KEYDOWN 4, SDL_KEYUP 4] else [])"

lemma demo_quiet: "quiet demo_env 0 n demo_machine"
proof -
  have "(\<Sum>i<n. length (snd (demo_env i))) = (\<Sum>i<n. if i = 7 then 2 else 0)" by (intro sum.cong) (simp_all add: demo_env_def)
  also have "\<dots> \<le> 2" by (simp add: sum.delta)
  finally show ?thesis using demo_dev by (simp add: quiet_def) (simp add: demo_env_def)
qed

lemma demo_ready: "code_ok demo_code demo_machine" "going demo_machine" "g_num_cores demo_machine = 1" "\<not> g_ooo_mode demo_machine" "\<not> g_inorder_mode demo_machine"
proof -
  show "code_ok demo_code demo_machine" using demo_sys demo_regs demo_clean by (simp add: code_ok_def)
  show "going demo_machine" "g_num_cores demo_machine = 1" "\<not> g_ooo_mode demo_machine" "\<not> g_inorder_mode demo_machine"
    by (simp_all add: going_def demo_machine_def init_cache_system_def init_regs_def loaded_machine_eq Let_def) (simp_all add: zero_machine_def)
qed

theorem exec_functional_witness:
  "\<exists>m'. exec demo_env 1000 demo_machine = Some (Inr m') \<and> isa_of m' = (isa_next ^^ 1000) (isa_of demo_machine) \<and> state m' = NEMU_RUNNING"
  using exec_functional [OF demo_ready(1,2) demo_fetchable demo_ready(3-5) demo_safe [OF demo_in_loop] demo_quiet, of 1000] by simp

text \<open>
  C35. The two single-core engines agree: from the same state \<^verbatim>\<open>exec n\<close> returns in functional and in in-order mode, with and
  without branch prediction, and leaves the same registers and program counter; the memory of the in-order mode may already
  hold the store of the instruction that would retire next. PMP, watchpoints and key events are as in C34, difftest is off.
\<close>

theorem exec_modes_agree:
  assumes "start_ok C m" and "going m" and "g_num_cores m = 1" and "\<not> g_ooo_mode m"
    and "safe_run C (unat n + 5) (isa_of m)" and "quiet env 0 (200 * unat n + 160) m"
  shows "\<exists>f p. exec env n (m\<lparr>g_inorder_mode := False\<rparr>) = Some (Inr f) \<and> exec env n (m\<lparr>g_inorder_mode := True\<rparr>) = Some (Inr p) \<and>
    cpu p = cpu f \<and> (\<exists>j\<le>1. ram_view p = i_mem ((isa_next ^^ j) (isa_of f)))"
proof -
  have m: "start_ok C n" "going n" "g_num_cores n = 1" "\<not> g_ooo_mode n" "isa_of n = isa_of m" "quiet env 0 k n"
    if "n = m\<lparr>g_inorder_mode := b\<rparr>" and "quiet env 0 k m" for n b k
  proof -
    have "mem_eq m n" using that by (simp add: mem_eq_def)
    then show "start_ok C n" "going n" "g_num_cores n = 1" "\<not> g_ooo_mode n" "isa_of n = isa_of m" "quiet env 0 k n"
      using assms(1-4) code_ok_mem_eq [of m n C] that by (simp_all add: start_ok_def code_ok_def going_def quiet_def)
  qed
  show ?thesis
    using exec_single [of C "m\<lparr>g_inorder_mode := False\<rparr>" n env] exec_single [of C "m\<lparr>g_inorder_mode := True\<rparr>" n env]
      m [OF refl assms(6)] assms(5) by (auto simp: Let_def)
qed

theorem exec_modes_agree_witness:
  "\<exists>f p. exec demo_env 1000 (demo_machine\<lparr>g_bpred_mode := True, g_inorder_mode := False\<rparr>) = Some (Inr f) \<and>
     exec demo_env 1000 (demo_machine\<lparr>g_bpred_mode := True, g_inorder_mode := True\<rparr>) = Some (Inr p) \<and> cpu p = cpu f"
proof -
  let ?m = "demo_machine\<lparr>g_bpred_mode := True\<rparr>"
  have "going ?m" "quiet demo_env 0 k ?m" "g_num_cores ?m = 1" "\<not> g_ooo_mode ?m" for k
    using demo_ready demo_quiet [of k] by (simp_all add: going_def quiet_def)
  moreover have "safe_run demo_code k (isa_of ?m)" for k unfolding demo_start(2) by (rule demo_safe [OF demo_in_loop])
  ultimately show ?thesis using exec_modes_agree [OF demo_start(1), of 1000 demo_env] by auto
qed

end
