(* ===== verification/Elf.thy ===== *)
theory Elf
  imports Elftl
begin

text \<open>
  Reading the symbol table (\<^verbatim>\<open>init_elf\<close> in \<^verbatim>\<open>src/monitor/elftl.c\<close>). The host's file is an argument: \<open>None\<close> when no file is named,
  \<open>Some None\<close> when it cannot be opened, \<open>Some (Some f)\<close> for its bytes. The file position is explicit, since a seek to a negative
  offset leaves it; a read of no bytes or past the end fails the assertion that follows it. The symbols are
  kept as they are in the file, with offsets into the string table for names.
\<close>

section \<open>Files and structs\<close>

definition fseek :: "word_t \<Rightarrow> nat \<Rightarrow> nat" where
  "fseek off pos = (if 0 \<le> sint off then unat off else pos)"

definition fread :: "nat \<Rightarrow> byte list \<Rightarrow> nat \<Rightarrow> (byte list \<times> nat) res" where
  "fread n f pos =
    (if 0 < n \<and> pos + n \<le> length f then Inr (take n (drop pos f), pos + n) else Inl Assertion_failed)"

text \<open>A little-endian field of a struct.\<close>

definition field :: "nat \<Rightarrow> nat \<Rightarrow> byte list \<Rightarrow> word_t" where
  "field off n bs = word_of_bytes (take n (drop off bs))"

definition slice :: "nat \<Rightarrow> nat \<Rightarrow> byte list \<Rightarrow> byte list res" where
  "slice off n bs = bind_res (guard (off + n \<le> length bs) Out_of_bounds) (\<lambda>_. Inr (take n (drop off bs)))"

text \<open>The C string at an offset.\<close>

definition cstring :: "byte list \<Rightarrow> nat \<Rightarrow> string res" where
  "cstring buf off =
     bind_res (guard (0 \<in> set (drop off buf)) Out_of_bounds) (\<lambda>_.
     Inr (map (\<lambda>b. char_of (unat b)) (takeWhile (\<lambda>b. b \<noteq> 0) (drop off buf))))"

section \<open>init_elf\<close>

definition header_ok :: "byte list \<Rightarrow> bool" where
  "header_ok h \<longleftrightarrow>
     take 4 h = [0x7f, 0x45, 0x4c, 0x46] \<and> h ! 4 = 2 \<and> h ! 5 = 1 \<and> h ! 6 = 1 \<and> (h ! 7 = 0 \<or> h ! 7 = 3) \<and> h ! 8 = 0 \<and>
     field 16 2 h = 2 \<and> field 20 4 h = 1"

text \<open>The state of the loop over the section headers: the two tables and the file position.\<close>

fun read_sections :: "byte list \<Rightarrow> byte list \<Rightarrow> byte list \<Rightarrow> nat list \<Rightarrow> byte list option \<Rightarrow> byte list option \<Rightarrow> nat \<Rightarrow>
    (byte list option \<times> byte list option) res" where
  "read_sections f sh shstrtab [] sy st pos = Inr (sy, st)"
| "read_sections f sh shstrtab (i # is) sy st pos =
     bind_res (slice (64 * i) 64 sh) (\<lambda>s.
     let sh_name = unat (field 0 4 s); sh_type = field 4 4 s; sh_offset = field 24 8 s; sh_size = unat (field 32 8 s) in
     bind_res (if sh_type = 2 then streq (drop sh_name shstrtab) (ascii ''.symtab'') else Inr False) (\<lambda>is_sym.
     if is_sym then
       bind_res (fread sh_size f (fseek sh_offset pos)) (\<lambda>(bs, pos). read_sections f sh shstrtab is (Some bs) st pos)
     else
       bind_res (if sh_type = 3 then streq (drop sh_name shstrtab) (ascii ''.strtab'') else Inr False) (\<lambda>is_str.
       if is_str then
         bind_res (fread sh_size f (fseek sh_offset pos)) (\<lambda>(bs, pos). read_sections f sh shstrtab is sy (Some bs) pos)
       else read_sections f sh shstrtab is sy st pos)))"

text \<open>The element \<open>i\<close> of the array of structs that the bytes of a symbol table are.\<close>

definition sym_at :: "byte list \<Rightarrow> nat \<Rightarrow> Elf64_Sym" where
  "sym_at sy i =
    (let s = take 24 (drop (24 * i) sy)
     in \<lparr>st_name = ucast (field 0 4 s), st_value = field 8 8 s, st_size = field 16 8 s\<rparr>)"

definition init_elf :: "byte list option option \<Rightarrow> machine \<Rightarrow> machine res" where
  "init_elf elf_file m =
    (case elf_file of
       None \<Rightarrow> Inl Assertion_failed
     | Some None \<Rightarrow> Inl Assertion_failed
     | Some (Some f) \<Rightarrow>
         bind_res (fread 64 f 0) (\<lambda>(elf, pos).
         bind_res (guard (header_ok elf) Assertion_failed) (\<lambda>_.
         let e_shnum = unat (field 60 2 elf); e_shstrndx = unat (field 62 2 elf); sh_size = unat (field 58 2 elf) * e_shnum in
         bind_res (guard (sh_size < 2 ^ 31) Signed_overflow) (\<lambda>_.
         bind_res (fread sh_size f (fseek (field 40 8 elf) pos)) (\<lambda>(sh, pos).
         bind_res (slice (64 * e_shstrndx) 64 sh) (\<lambda>s.
         bind_res (fread (unat (field 32 8 s)) f (fseek (field 24 8 s) pos)) (\<lambda>(shstrtab, pos).
         bind_res (read_sections f sh shstrtab [0..<e_shnum] None None pos) (\<lambda>(sy, st).
         case (sy, st) of
           (Some sy, Some st) \<Rightarrow> Inr (m\<lparr>strtab := st, symtab := map (sym_at sy) [0..<length sy div 24]\<rparr>)
         | _ \<Rightarrow> Inl Assertion_failed))))))))"

lemma init_elf_only_symbols:
  assumes "init_elf f m = Inr m'"
  shows "m' = m\<lparr>strtab := strtab m', symtab := symtab m'\<rparr> \<and> init_elf f n = Inr (n\<lparr>strtab := strtab m', symtab := symtab m'\<rparr>)"
  using assms by (auto simp: init_elf_def Let_def split: option.splits prod.splits)

section \<open>An ELF file with given symbols\<close>

text \<open>
  Header, three section headers, their names, the symbols and the string table, in this order. A symbol is given by
  its name, value and size.
\<close>

type_synonym symbol = "string \<times> word_t \<times> word_t"

definition elf_header :: "byte list" where
  "elf_header = [0x7f, 0x45, 0x4c, 0x46, 2, 1, 1, 0, 0] @ replicate 7 0 @ [2, 0, 0xf3, 0, 1, 0, 0, 0] @ replicate 16 0 @
     [64, 0, 0, 0, 0, 0, 0, 0] @ replicate 4 0 @ [64, 0, 0, 0, 0, 0, 64, 0, 3, 0, 2, 0]"

definition shdr :: "word_t \<Rightarrow> word_t \<Rightarrow> nat \<Rightarrow> nat \<Rightarrow> byte list" where
  "shdr nm ty off sz = bytes_of_word 4 nm @ bytes_of_word 4 ty @ replicate 16 0 @ bytes_of_word 8 (word_of_nat off) @
     bytes_of_word 8 (word_of_nat sz) @ replicate 24 0"

definition elf_names :: "byte list" where
  "elf_names = ascii ''.symtab'' @ [0] @ ascii ''.strtab'' @ [0, 0]"

fun sym_bytes :: "symbol list \<Rightarrow> nat \<Rightarrow> byte list" where
  "sym_bytes [] off = []"
| "sym_bytes ((nm, v, sz) # ys) off =
     bytes_of_word 4 (word_of_nat off) @ replicate 4 0 @ bytes_of_word 8 v @ bytes_of_word 8 sz @ sym_bytes ys (off + length nm + 1)"

definition str_bytes :: "symbol list \<Rightarrow> byte list" where
  "str_bytes ys = concat (map (\<lambda>y. ascii (fst y) @ [0]) ys)"

definition elf_image :: "symbol list \<Rightarrow> byte list" where
  "elf_image ys =
    (let n = 24 * length ys in
     elf_header @ shdr 0 2 273 n @ shdr 8 3 (273 + n) (length (str_bytes ys)) @ shdr 16 3 256 17 @ elf_names @ sym_bytes ys 0 @ str_bytes ys)"

lemma length_sym_bytes [simp]: "length (sym_bytes ys off) = 24 * length ys"
  by (induction ys off rule: sym_bytes.induct) simp_all

lemma length_parts [simp]: "length elf_header = 64" "length (shdr a b c d) = 64" "length elf_names = 17"
  by (simp_all add: elf_header_def shdr_def elf_names_def ascii_def)

lemma field_append: "length u = off \<Longrightarrow> n = length v \<Longrightarrow> field off n (u @ v @ w) = word_of_bytes v"
  by (simp add: field_def)

lemma fread_part:
  "length u = pos \<Longrightarrow> length v = n \<Longrightarrow> 0 < n \<Longrightarrow> fread n (u @ v @ w) pos = Inr (v, pos + n)"
  by (simp add: fread_def)

lemma slice_part: "length u = off \<Longrightarrow> length v = n \<Longrightarrow> slice off n (u @ v @ w) = Inr v"
  by (simp add: slice_def guard_def)

lemma whole_word [simp]: "take_bit 64 (w :: word_t) = w"
  by (simp add: take_bit_word_eq_self)

lemma fields_shdr:
  "field 0 4 (shdr nm ty off sz) = take_bit 32 nm" "field 4 4 (shdr nm ty off sz) = take_bit 32 ty"
  "field 24 8 (shdr nm ty off sz) = word_of_nat off" "field 32 8 (shdr nm ty off sz) = word_of_nat sz"
  by (simp_all add: field_def shdr_def word_of_bytes_of_word)

lemma fields_header:
  "header_ok elf_header" "field 60 2 elf_header = 3" "field 62 2 elf_header = 2" "field 58 2 elf_header = 64" "field 40 8 elf_header = 64"
  by (simp_all add: header_ok_def field_def elf_header_def numeral_eq_Suc) (code_simp+)?

lemma names_at:
  "streq (drop 0 elf_names) (ascii ''.symtab'') = Inr True"
  "streq (drop 8 elf_names) (ascii ''.symtab'') = Inr False" "streq (drop 8 elf_names) (ascii ''.strtab'') = Inr True"
  "streq (drop 16 elf_names) (ascii ''.strtab'') = Inr False"
  by (simp_all add: elf_names_def ascii_def)

lemma seek_to [simp]: "n < 2 ^ 63 \<Longrightarrow> fseek (word_of_nat n) pos = n"
proof -
  assume n: "n < 2 ^ 63"
  have "sint (word_of_nat n :: word_t) = int n"
    using n by (simp add: signed_of_nat signed_take_bit_int_eq_self)
  then show ?thesis using n by (simp add: fseek_def unsigned_of_nat take_bit_nat_eq_self)
qed

lemma seek_parts [simp]: "fseek 64 pos = 64" "fseek 256 pos = 256" "fseek 273 pos = 273"
  by (simp_all add: fseek_def)

lemma char_byte: "char_of (unat (of_char c :: byte)) = c"
proof -
  have "unat (word_of_nat (of_char c) :: byte) = of_char c"
    using nat_of_char_less_256 [of c] by (simp add: unsigned_of_nat take_bit_nat_eq_self)
  then show ?thesis by (metis char_of_char of_nat_of_char)
qed

lemma byte_nonzero: "(of_char c :: byte) = 0 \<longleftrightarrow> c = CHR 0x00"
proof
  assume "(of_char c :: byte) = 0"
  then show "c = CHR 0x00" using char_byte [of c] by (simp add: char_of_def)
qed simp

lemma cstring_part:
  assumes "CHR 0x00 \<notin> set s" and "length u = off"
  shows "cstring (u @ (ascii s @ [0]) @ w) off = Inr s"
proof -
  have "\<forall>b\<in>set (ascii s). b \<noteq> 0" using assms(1) byte_nonzero by (auto simp: ascii_def)
  then have "takeWhile (\<lambda>b. b \<noteq> 0) ((ascii s @ [0]) @ w) = ascii s" by (simp add: takeWhile_append2)
  moreover have "map (\<lambda>b. char_of (unat b)) (ascii s) = s" by (simp add: ascii_def char_byte comp_def)
  ultimately show ?thesis using assms(2) by (simp add: cstring_def guard_def)
qed

text \<open>Comparing the bytes at an offset with a name is comparing the string there.\<close>

lemma byte_char: "(of_char (char_of (unat (b :: byte)) :: char) :: byte) = b"
proof -
  have "unat b < 2 ^ LENGTH(8)" by (rule unsigned_less)
  then have "unat b mod 256 = unat b" by simp
  then have "of_char (char_of (unat b)) = unat b" by simp
  then show ?thesis by (metis of_nat_of_char of_nat_unat ucast_id)
qed

lemma streq_string:
  "0 \<in> set bs \<Longrightarrow> CHR 0x00 \<notin> set s \<Longrightarrow> streq bs (ascii s) = Inr (map (\<lambda>b. char_of (unat b)) (takeWhile (\<lambda>b. b \<noteq> 0) bs) = s)"
proof (induction s arbitrary: bs)
  case Nil
  then show ?case by (cases bs) (simp_all add: ascii_def)
next
  case (Cons c s)
  then obtain b bs' where bs: "bs = b # bs'" by (cases bs) auto
  have c: "(of_char c :: byte) \<noteq> 0" using Cons.prems(2) byte_nonzero by auto
  show ?case
  proof (cases "b = of_char c")
    case True
    then show ?thesis using Cons bs c char_byte [of c] by (simp add: ascii_def)
  next
    case False
    then have "char_of (unat b) \<noteq> c" using byte_char [of b] by metis
    then show ?thesis using False bs by (simp add: ascii_def)
  qed
qed

lemma streq_cstring: "cstring buf off = Inr x \<Longrightarrow> CHR 0x00 \<notin> set s \<Longrightarrow> streq (drop off buf) (ascii s) = Inr (x = s)"
  using streq_string [of "drop off buf" s] by (auto simp: cstring_def guard_def split: if_splits)

text \<open>A symbol with its name read from the string table.\<close>

definition resolve :: "byte list \<Rightarrow> Elf64_Sym \<Rightarrow> string res \<times> word_t \<times> word_t" where
  "resolve st s = (cstring st (unat (st_name s)), st_value s, st_size s)"

lemma resolve_image:
  assumes "\<forall>y\<in>set ys. CHR 0x00 \<notin> set (fst y)" and "length u = 24 * i" and "length v = off" and "off + length (str_bytes ys) < 2 ^ 32"
  shows "map (resolve (v @ str_bytes ys) \<circ> sym_at (u @ sym_bytes ys off)) [i..<i + length ys] = map (apfst Inr) ys"
  using assms
proof (induction ys arbitrary: u i v off)
  case (Cons y ys)
  obtain nm x sz where y: "y = (nm, x, sz)" by (cases y)
  let ?s = "bytes_of_word 4 (word_of_nat off) @ replicate 4 0 @ bytes_of_word 8 x @ bytes_of_word 8 sz"
  let ?off = "off + length nm + 1" and ?u = "u @ sym_bytes (y # ys) off" and ?v = "v @ str_bytes (y # ys)"
  have off: "off < 2 ^ 32" using Cons.prems(4) by simp
  have str: "?v = (v @ ascii nm @ [0]) @ str_bytes ys" "?u = (u @ ?s) @ sym_bytes ys ?off" by (simp_all add: str_bytes_def y)
  have tl: "map (resolve ?v \<circ> sym_at ?u) [Suc i..<Suc i + length ys] = map (apfst Inr) ys"
    unfolding str by (rule Cons.IH) (use Cons.prems in \<open>simp_all add: str_bytes_def ascii_def y\<close>)
  have s: "take 24 (drop (24 * i) ?u) = ?s" using Cons.prems(2) by (simp add: y)
  have "unat (field 0 4 ?s) = off" "field 8 8 ?s = x" "field 16 8 ?s = sz"
    using off by (simp_all add: field_def word_of_bytes_of_word unsigned_of_nat take_bit_nat_eq_self unsigned_take_bit_eq)
  moreover from this(1) have "unat (ucast (field 0 4 ?s) :: u32) = off" using off by (simp add: unsigned_ucast_eq take_bit_nat_eq_self)
  moreover have "cstring ?v off = Inr nm"
    using cstring_part [of nm v off "str_bytes ys"] Cons.prems(1,3) by (simp add: str_bytes_def y)
  moreover have "sym_at ?u i = \<lparr>st_name = ucast (field 0 4 ?s), st_value = field 8 8 ?s, st_size = field 16 8 ?s\<rparr>"
    unfolding sym_at_def s Let_def ..
  ultimately have "(resolve ?v \<circ> sym_at ?u) i = apfst Inr y" unfolding comp_apply resolve_def by (simp add: y)
  with tl show ?case by (simp add: upt_conv_Cons comp_def del: upt_Suc)
qed simp

lemma find_resolved:
  assumes "map (resolve st) sy = map (apfst Inr) ys" and "\<forall>y\<in>set ys. CHR 0x00 \<notin> set (fst y)" and "distinct (map fst ys)" and "(nm, v, sz) \<in> set ys"
  shows "findSym_loop st sy nm = Inr v"
  using assms
proof (induction sy arbitrary: ys)
  case (Cons s sy)
  from Cons.prems(1) obtain y ys' where y: "ys = y # ys'" "resolve st s = apfst Inr y" "map (resolve st) sy = map (apfst Inr) ys'"
    by (cases ys) auto
  obtain x w k where "y = (x, w, k)" by (cases y)
  with y have ys: "ys = (x, w, k) # ys'" "cstring st (unat (st_name s)) = Inr x" "st_value s = w" "map (resolve st) sy = map (apfst Inr) ys'"
    by (simp_all add: resolve_def)
  have "CHR 0x00 \<notin> set nm" using Cons.prems(2,4) by auto
  then have "streq (drop (unat (st_name s)) st) (ascii nm) = Inr (x = nm)" using streq_cstring [OF ys(2)] by simp
  moreover have "x = nm \<Longrightarrow> w = v" using Cons.prems(3,4) ys(1) by force
  moreover have "x \<noteq> nm \<Longrightarrow> findSym_loop st sy nm = Inr v" using Cons.IH [OF ys(4)] Cons.prems(2-4) ys(1) by auto
  ultimately show ?case using ys(3) by auto
qed simp

lemma init_elf_image:
  assumes "ys \<noteq> []" and "length (elf_image ys) < 2 ^ 32"
  shows "init_elf (Some (Some (elf_image ys))) m = Inr (m\<lparr>strtab := str_bytes ys, symtab := map (sym_at (sym_bytes ys 0)) [0..<length ys]\<rparr>)"
proof -
  define n where "n = 24 * length ys"
  let ?k = "length (str_bytes ys)"
  let ?a = "shdr 0 2 273 n" and ?b = "shdr 8 3 (273 + n) ?k" and ?c = "shdr 16 3 256 17"
  let ?sh = "?a @ ?b @ ?c" and ?f = "elf_image ys"
  have f: "?f = [] @ elf_header @ (?sh @ elf_names @ sym_bytes ys 0 @ str_bytes ys)" by (simp add: elf_image_def n_def Let_def)
  have n: "24 * length ys = n" "n div 24 = length ys" by (simp_all add: n_def)
  have k: "0 < ?k" "0 < n" using assms(1) by (cases ys; simp add: str_bytes_def n_def)+
  have len: "length ?f = 273 + n + ?k" by (simp add: f n_def)
  have small: "273 + n < 2 ^ 63" "unat (word_of_nat n :: word_t) = n" "unat (word_of_nat ?k :: word_t) = ?k"
    using assms(2) len by (simp_all add: unsigned_of_nat take_bit_nat_eq_self)
  have r1: "fread 64 ?f 0 = Inr (elf_header, 64)" unfolding f by (subst fread_part) simp_all
  have r2: "fread 192 ?f 64 = Inr (?sh, 256)" using fread_part [of elf_header 64 ?sh 192] by (simp add: f)
  have r3: "fread 17 ?f 256 = Inr (elf_names, 273)" using fread_part [of "elf_header @ ?sh" 256 elf_names 17] by (simp add: f)
  have r4: "fread n ?f 273 = Inr (sym_bytes ys 0, 273 + n)"
    using fread_part [of "elf_header @ ?sh @ elf_names" 273 "sym_bytes ys 0" n] k by (simp add: f n)
  have r5: "fread ?k ?f (273 + n) = Inr (str_bytes ys, 273 + n + ?k)"
    using fread_part [of "elf_header @ ?sh @ elf_names @ sym_bytes ys 0" "273 + n" "str_bytes ys" ?k "[]"] k by (simp add: f n)
  have s: "slice 0 64 ?sh = Inr ?a" "slice 64 64 ?sh = Inr ?b" "slice 128 64 ?sh = Inr ?c"
    using slice_part [of "[]" 0 ?a 64] slice_part [of ?a 64 ?b 64] slice_part [of "?a @ ?b" 128 ?c 64 "[]"] by simp_all
  have sec: "read_sections ?f ?sh elf_names [0, 1, 2] None None 273 = Inr (Some (sym_bytes ys 0), Some (str_bytes ys))"
    using s r4 r5 small n seek_to [OF small(1)] by (simp add: fields_shdr names_at [simplified] Let_def)
  have "[0..<3] = [0, 1, 2 :: nat]" by code_simp
  then show ?thesis
    using r1 r2 r3 s sec n by (simp add: init_elf_def fields_header fields_shdr guard_def Let_def)
qed

text \<open>
  C38. Reading back what was written: from an ELF file that consists of the header, the section headers of a symbol table, its strings and
  the section names, and these sections, \<open>init_elf\<close> reads exactly the symbols of the table and changes nothing else; every name is then
  found at its address.
\<close>

theorem init_elf_reads:
  assumes "ys \<noteq> []" and "\<forall>y\<in>set ys. CHR 0x00 \<notin> set (fst y)" and "length (elf_image ys) < 2 ^ 32" and "distinct (map fst ys)"
  shows "\<exists>m'. init_elf (Some (Some (elf_image ys))) m = Inr m' \<and> m' = m\<lparr>strtab := strtab m', symtab := symtab m'\<rparr> \<and>
    map (resolve (strtab m')) (symtab m') = map (apfst Inr) ys \<and> (\<forall>(nm, v, sz)\<in>set ys. findSym nm m' = Inr v)"
proof -
  let ?st = "str_bytes ys" and ?sy = "map (sym_at (sym_bytes ys 0)) [0..<length ys]"
  have "length ?st < 2 ^ 32" using assms(3) by (simp add: elf_image_def Let_def)
  then have r: "map (resolve ?st) ?sy = map (apfst Inr) ys" using resolve_image [of ys "[]" 0 "[]" 0] assms(2) by simp
  moreover have "findSym_loop ?st ?sy nm = Inr v" if "(nm, v, sz) \<in> set ys" for nm v sz
    using find_resolved [OF r assms(2,4) that] .
  ultimately show ?thesis using init_elf_image [OF assms(1,3), of m] by (auto simp: findSym_def)
qed

theorem init_elf_reads_witness:
  "\<exists>m'. init_elf (Some (Some (elf_image [(''main'', 0x80000000, 64), (''f'', 0x80000040, 8)]))) zero_machine = Inr m' \<and>
     findSym ''f'' m' = Inr 0x80000040"
proof -
  let ?ys = "[(''main'', 0x80000000, 64), (''f'', 0x80000040, 8)]"
  have "length (elf_image ?ys) < 2 ^ 32" by (simp add: elf_image_def str_bytes_def ascii_def)
  then show ?thesis using init_elf_reads [of ?ys zero_machine] by auto
qed

end
