(* ===== verification/Boot.thy ===== *)
theory Boot
  imports Exec_Loop Elf Decode_Model
begin

text \<open>
  Start-up (\<^verbatim>\<open>src/main.c\<close>). The options as \<^verbatim>\<open>getopt_long\<close> returns them, the host's files, clock and scan codes are arguments. The
  log file, the disassembler and the compilation of the regular expressions change nothing that is modelled.
\<close>

section \<open>Options\<close>

datatype opt =
    Opt_b | Opt_l string | Opt_e string | Opt_t string | Opt_i | Opt_p | Opt_bpred2 | Opt_o | Opt_d | Opt_D | Opt_trace
  | Opt_arg string | Opt_other

record config =
  is_batch_mode :: bool
  log_file :: "string option"
  elf_file :: "string option"
  task_file :: "string option"
  img_file :: "string option"
  g_default_mode :: CoreMode
  g_dual_flag :: bool
  g_trace_en :: bool

definition zero_config :: config where
  "zero_config = \<lparr>is_batch_mode = False, log_file = None, elf_file = None, task_file = None, img_file = None,
     g_default_mode = CORE_MODE_FUNCTIONAL, g_dual_flag = False, g_trace_en = False\<rparr>"

fun parse_args :: "opt list \<Rightarrow> config \<times> machine \<Rightarrow> config \<times> machine" where
  "parse_args [] s = s"
| "parse_args (Opt_b # os) (c, m) = parse_args os (c\<lparr>is_batch_mode := True\<rparr>, m)"
| "parse_args (Opt_l f # os) (c, m) = parse_args os (c\<lparr>log_file := Some f\<rparr>, m)"
| "parse_args (Opt_e f # os) (c, m) = parse_args os (c\<lparr>elf_file := Some f\<rparr>, m)"
| "parse_args (Opt_t f # os) (c, m) = parse_args os (c\<lparr>task_file := Some f\<rparr>, m)"
| "parse_args (Opt_i # os) (c, m) = parse_args os (c\<lparr>g_default_mode := CORE_MODE_INORDER\<rparr>, m\<lparr>g_inorder_mode := True\<rparr>)"
| "parse_args (Opt_p # os) (c, m) = parse_args os (c, m\<lparr>g_bpred_mode := True\<rparr>)"
| "parse_args (Opt_bpred2 # os) (c, m) = parse_args os (c, m\<lparr>g_bpred2_mode := True\<rparr>)"
| "parse_args (Opt_o # os) (c, m) = parse_args os (c\<lparr>g_default_mode := CORE_MODE_OOO\<rparr>, m\<lparr>g_ooo_mode := True\<rparr>)"
| "parse_args (Opt_d # os) (c, m) = parse_args os (c\<lparr>g_dual_flag := True\<rparr>, m)"
| "parse_args (Opt_D # os) (c, m) = parse_args os (c, m\<lparr>g_difftest_en := True\<rparr>)"
| "parse_args (Opt_trace # os) (c, m) = parse_args os (c\<lparr>g_trace_en := True\<rparr>, m)"
| "parse_args (Opt_arg f # os) (c, m) = (c\<lparr>img_file := Some f\<rparr>, m)"
| "parse_args (Opt_other # os) (c, m) = parse_args os (c, m)"

section \<open>The boot sequence\<close>

definition init_decode_info :: "machine \<Rightarrow> machine" where
  "init_decode_info m = m\<lparr>dec_s := (dec_s m)\<lparr>s_pc := 0x80000000, s_dnpc := 0x80000000, s_snpc := 0x80000000\<rparr>\<rparr>"

definition create_cores :: "CoreMode \<Rightarrow> machine \<Rightarrow> machine" where
  "create_cores mode m = fold (\<lambda>i m. core_create i mode (g_bpred_mode m) m) [0..<g_num_cores m] m"

definition boot :: "(string \<Rightarrow> nat) \<Rightarrow> (nat \<Rightarrow> int \<times> int) \<Rightarrow> (string \<Rightarrow> byte list option) \<Rightarrow> opt list \<Rightarrow> (config \<times> machine) res" where
  "boot sdl_scancode clock files opts =
    (let (c, m) = parse_args opts (zero_config, zero_machine\<lparr>dev := zero_devices\<lparr>host_clock := clock\<rparr>\<rparr>);
         m = init_default_program (init_wp_pool m)
     in
     bind_res (load_img (map_option files (img_file c)) m) (\<lambda>(_, m).
     bind_res (init_elf (map_option files (elf_file c)) m) (\<lambda>m.
     let m = m\<lparr>dev := init_map (dev m)\<rparr>;
         m = init_cache_system (init_regs (init_decode_info m))
     in
     bind_res (init_devices sdl_scancode (dev m)) (\<lambda>d.
     let m = m\<lparr>dev := d, g_num_cores := (if g_dual_flag c then 2 else 1)\<rparr>
     in Inr (c, create_cores (g_default_mode c) m)))))"

section \<open>The booted machine\<close>

definition default_bytes :: "byte list" where
  "default_bytes = concat (map (bytes_of_word 4 \<circ> ucast) default_program)"

text \<open>The ISA state at reset: the image over the built-in program, registers zero, the program counter at the start of RAM.\<close>

definition boot_mem :: "byte list \<Rightarrow> nat \<Rightarrow> byte" where
  "boot_mem bs x = (if x < 0x8000000 then store_bytes (store_bytes (\<lambda>_. 0) 0 default_bytes) 0 bs x else 0)"

definition reset_isa :: "byte list \<Rightarrow> isa_state" where
  "reset_isa bs = \<lparr>i_pc = 0x80000000, i_regs = replicate 32 0, i_mem = boot_mem bs\<rparr>"

text \<open>The state before the cores are created, \<open>p\<close> being the machine as the options leave it.\<close>

definition boot_base :: "machine \<Rightarrow> byte list \<Rightarrow> machine \<Rightarrow> bool" where
  "boot_base p bs m \<longleftrightarrow>
     caches m = [init_cache 6 8 ''L1-Instruction'', init_cache 6 8 ''L1-Data'', init_cache 8 16 ''L2-Unified''] \<and>
     L1I_cache m = Some 0 \<and> L1D_cache m = Some 1 \<and> L2_cache m = Some 2 \<and> length (cores m) = 2 \<and>
     cpu m = \<lparr>gpr = replicate 32 0, cpu_pc = 0x80000000\<rparr> \<and> going m \<and> cpu_pipe m = zero_pipe \<and>
     pmem m = store_bytes (store_bytes (\<lambda>_. 0) 0 default_bytes) 0 bs \<and> dev_ok (dev m) \<and> key_contents (dev m) = [] \<and>
     g_inorder_mode m = g_inorder_mode p \<and> g_ooo_mode m = g_ooo_mode p \<and> g_bpred_mode m = g_bpred_mode p \<and> g_difftest_en m = g_difftest_en p"

lemma core_create_shape:
  assumes "i < length (cores m)"
  shows "\<exists>c. core_create i mode b m = m\<lparr>caches := caches m @ [init_cache 6 8 ''L1I'', init_cache 6 8 ''L1D''], cores := (cores m)[i := c]\<rparr> \<and>
    core_id c = i \<and> core_mode c = mode \<and> core_cpu c = cpu m \<and> core_priv_level c = priv_level m \<and>
    core_l1i c = Some (length (caches m)) \<and> core_l1d c = Some (length (caches m) + 1)"
proof -
  let ?c = "cores (core_create i mode b m) ! i"
  have "core_create i mode b m = m\<lparr>caches := caches m @ [init_cache 6 8 ''L1I'', init_cache 6 8 ''L1D''], cores := (cores m)[i := ?c]\<rparr>"
    using assms by (cases "mode = CORE_MODE_INORDER") (simp_all add: core_create_def put_core_def pipeline_init_core_def Let_def)
  moreover have "core_id ?c = i" "core_mode ?c = mode" "core_cpu ?c = cpu m" "core_priv_level ?c = priv_level m"
      "core_l1i ?c = Some (length (caches m))" "core_l1d ?c = Some (length (caches m) + 1)"
    using assms by (cases "mode = CORE_MODE_INORDER"; simp add: core_create_def put_core_def pipeline_init_core_def Let_def)+
  ultimately show ?thesis by blast
qed

lemma parse_args_frame:
  "\<exists>i oo b b2 d. snd (parse_args opts (c, m)) = m\<lparr>g_inorder_mode := i, g_ooo_mode := oo, g_bpred_mode := b, g_bpred2_mode := b2, g_difftest_en := d\<rparr>"
proof (induction opts arbitrary: c m)
  case Nil
  show ?case by (intro exI [of _ "g_inorder_mode m"] exI [of _ "g_ooo_mode m"] exI [of _ "g_bpred_mode m"] exI [of _ "g_bpred2_mode m"] exI [of _ "g_difftest_en m"]) simp
next
  case (Cons op opts)
  show ?case
  proof (cases op)
    case Opt_i then show ?thesis using Cons.IH [of _ "m\<lparr>g_inorder_mode := True\<rparr>"] by simp
  next
    case Opt_o then show ?thesis using Cons.IH [of _ "m\<lparr>g_ooo_mode := True\<rparr>"] by simp
  next
    case Opt_p then show ?thesis using Cons.IH [of _ "m\<lparr>g_bpred_mode := True\<rparr>"] by simp
  next
    case Opt_bpred2 then show ?thesis using Cons.IH [of _ "m\<lparr>g_bpred2_mode := True\<rparr>"] by simp
  next
    case Opt_D then show ?thesis using Cons.IH [of _ "m\<lparr>g_difftest_en := True\<rparr>"] by simp
  next
    case (Opt_arg f)
    then show ?thesis by (intro exI [of _ "g_inorder_mode m"] exI [of _ "g_ooo_mode m"] exI [of _ "g_bpred_mode m"] exI [of _ "g_bpred2_mode m"] exI [of _ "g_difftest_en m"]) simp
  qed (use Cons.IH in simp)+
qed

lemma dev_flags:
  "m\<lparr>dev := d, g_inorder_mode := b\<rparr> = m\<lparr>g_inorder_mode := b, dev := d\<rparr>" "m\<lparr>dev := d, g_ooo_mode := b\<rparr> = m\<lparr>g_ooo_mode := b, dev := d\<rparr>"
  "m\<lparr>dev := d, g_bpred_mode := b\<rparr> = m\<lparr>g_bpred_mode := b, dev := d\<rparr>" "m\<lparr>dev := d, g_bpred2_mode := b\<rparr> = m\<lparr>g_bpred2_mode := b, dev := d\<rparr>"
  "m\<lparr>dev := d, g_difftest_en := b\<rparr> = m\<lparr>g_difftest_en := b, dev := d\<rparr>"
  by simp_all

lemma parse_args_dev:
  "parse_args opts (c, m\<lparr>dev := d\<rparr>) = (fst (parse_args opts (c, m)), (snd (parse_args opts (c, m)))\<lparr>dev := d\<rparr>)"
  by (induction opts "(c, m)" arbitrary: c m rule: parse_args.induct) (simp_all only: parse_args.simps dev_flags fst_conv snd_conv)

text \<open>What the host supplies for a start to succeed.\<close>

definition host_ok :: "(string \<Rightarrow> nat) \<Rightarrow> (string \<Rightarrow> byte list option) \<Rightarrow> config \<Rightarrow> byte list \<Rightarrow> bool" where
  "host_ok sc files c bs \<longleftrightarrow> (\<forall>k\<in>set KEYS. sc k < 256) \<and> bs \<noteq> [] \<and> length bs \<le> 0x8000000 \<and> map_option files (img_file c) = Some (Some bs) \<and>
     (\<exists>eb z. map_option files (elf_file c) = Some (Some eb) \<and> init_elf (Some (Some eb)) zero_machine = Inr z)"

lemma devices_start:
  assumes "\<forall>k\<in>set KEYS. sc k < 256"
  shows "\<exists>d. init_devices sc (init_map (zero_devices\<lparr>host_clock := clock\<rparr>)) = Inr d \<and> dev_ok d \<and> key_contents d = []"
proof -
  let ?d = "init_map (zero_devices\<lparr>host_clock := clock\<rparr>)"
  have d: "maps ?d = []" "p_space ?d = 0" "key_inv ?d" "length (keymap ?d) = 256" "key_contents ?d = []"
    using zero_devices_ready by (simp_all add: init_map_def key_inv_def key_contents_def)
  then show ?thesis
    using init_devices_result [OF d(1-4), of sc] init_keymap_loop_ok [of KEYS sc "keymap ?d" 1] assms by auto
qed

lemma boot_result:
  assumes "parse_args opts (zero_config, zero_machine) = (c, p)" and "host_ok sc files c bs"
  shows "\<exists>m. boot sc clock files opts = Inr (c, create_cores (g_default_mode c) m) \<and> boot_base p bs m \<and>
    g_num_cores m = (if g_dual_flag c then 2 else 1)"
proof -
  let ?d = "zero_devices\<lparr>host_clock := clock\<rparr>"
  obtain i oo b b2 df where p: "p = zero_machine\<lparr>g_inorder_mode := i, g_ooo_mode := oo, g_bpred_mode := b, g_bpred2_mode := b2, g_difftest_en := df\<rparr>"
    using parse_args_frame [of opts zero_config zero_machine] assms(1) by auto
  obtain f g eb z where e: "img_file c = Some f" "files f = Some bs" "elf_file c = Some g" "files g = Some eb"
      "init_elf (Some (Some eb)) zero_machine = Inr z"
    using assms(2) by (auto simp: host_ok_def)
  have elf: "init_elf (Some (Some eb)) n = Inr (n\<lparr>strtab := strtab z, symtab := symtab z\<rparr>)" for n using init_elf_only_symbols [OF e(5)] by blast
  have img: "bs \<noteq> []" "length bs \<le> 0x8000000" using assms(2) by (simp_all add: host_ok_def)
  obtain d where d: "init_devices sc (init_map ?d) = Inr d" "dev_ok d" "key_contents d = []"
    using devices_start assms(2) unfolding host_ok_def by blast
  define m0 where "m0 = init_default_program (init_wp_pool (p\<lparr>dev := ?d\<rparr>))"
  define m where "m = (init_cache_system (init_regs (init_decode_info (m0\<lparr>img_size := word_of_nat (length bs),
      pmem := store_bytes (pmem m0) 0 bs, strtab := strtab z, symtab := symtab z\<rparr>))))\<lparr>dev := d, g_num_cores := if g_dual_flag c then 2 else 1\<rparr>"
  have dv: "dev m0 = ?d" by (simp add: m0_def init_default_program_def init_wp_pool_def)
  have "parse_args opts (zero_config, zero_machine\<lparr>dev := ?d\<rparr>) = (c, p\<lparr>dev := ?d\<rparr>)"
    using parse_args_dev [of opts zero_config ?d zero_machine] assms(1) by simp
  then have "boot sc clock files opts = Inr (c, create_cores (g_default_mode c) m)"
    using d(1) e(1-4) by (simp add: boot_def load_img_ok [OF img] elf m_def m0_def [symmetric] dv init_cache_system_def
      init_regs_def init_decode_info_def Let_def)
  moreover have "boot_base p bs m"
    using d(2,3) by (simp add: boot_base_def m_def m0_def p init_cache_system_def init_regs_def init_decode_info_def init_default_program_def
      init_wp_pool_def default_bytes_def going_def guest_to_host_def Let_def) (simp add: zero_machine_def)
  ultimately show ?thesis by (auto simp: m_def)
qed

lemma cold_clean:
  assumes "cold m" and "\<forall>p\<in>set (data_caches m @ l1i_caches m). p < length (caches m)"
  shows "code_clean B m"
proof -
  have "held (get_cache p m) b = None" if "p \<in> set (data_caches m @ l1i_caches m)" for p b
    using cold_get [OF assms(1), of p] assms(2) that by blast
  then show ?thesis by (force simp: code_clean_def dirty_def)
qed

lemma boot_base_cold: "boot_base p bs m \<Longrightarrow> cold (m\<lparr>caches := caches m @ xs\<rparr>)" if "\<forall>c\<in>set xs. c = init_cache 6 8 ''L1I'' \<or> c = init_cache 6 8 ''L1D''"
  using that init_cache_cold by (auto simp: boot_base_def cold_def)

lemma isa_of_boot:
  assumes "boot_base p bs m" and "cold n" and "the (L2_cache n) < length (caches n)" and "\<forall>q\<in>set (data_caches n). q < length (caches n)"
    and "pmem n = pmem m"
  shows "ram_view n = boot_mem bs"
  using cold_ram_view [OF assms(2-4)] assms(1,5) by (auto simp: boot_base_def boot_mem_def)

text \<open>The single core: the start state of the run loops.\<close>

lemma boot_one_core:
  assumes "boot_base p bs m" and "g_num_cores m = 1" and "fetchable C" and "\<not> g_difftest_en p"
    and "g_bpred_mode p \<longrightarrow> calls_closed C (reset_isa bs)"
  shows "let n = create_cores mode m in start_ok C n \<and> going n \<and> g_num_cores n = 1 \<and> isa_of n = reset_isa bs \<and> dev_ok (dev n) \<and>
    key_contents (dev n) = [] \<and> g_ooo_mode n = g_ooo_mode p \<and> g_inorder_mode n = g_inorder_mode p"
proof -
  note b = assms(1) [unfolded boot_base_def]
  obtain c where n: "create_cores mode m = m\<lparr>caches := caches m @ [init_cache 6 8 ''L1I'', init_cache 6 8 ''L1D''], cores := (cores m)[0 := c]\<rparr>"
    using core_create_shape [of 0 m mode "g_bpred_mode m"] b assms(2) by (auto simp: create_cores_def)
  let ?n = "create_cores mode m"
  have "cold ?n" using boot_base_cold [OF _ assms(1), of "[init_cache 6 8 ''L1I'', init_cache 6 8 ''L1D'']"] unfolding n by (simp add: cold_def)
  have p: "data_caches ?n = [1]" "l1i_caches ?n = [0]" "hart_ok ?n" "L2_cache ?n = Some 2" "length (caches ?n) = 5"
    using b assms(2) by (simp_all add: n data_caches_def l1i_caches_def hart_ok_def)
  have "mem_sys ?n" by (rule cold_sys [OF \<open>cold ?n\<close> p(3)]) (simp_all add: p)
  moreover have "code_clean B ?n" for B by (rule cold_clean [OF \<open>cold ?n\<close>]) (simp add: p)
  moreover have "ram_view ?n = boot_mem bs" by (rule isa_of_boot [OF assms(1) \<open>cold ?n\<close>]) (simp_all add: p, simp add: n)
  moreover have f: "cpu ?n = \<lparr>gpr = replicate 32 0, cpu_pc = 0x80000000\<rparr>" "going ?n" "g_num_cores ?n = 1" "dev ?n = dev m"
      "g_ooo_mode ?n = g_ooo_mode p" "g_inorder_mode ?n = g_inorder_mode p" "g_difftest_en ?n = g_difftest_en p" "g_bpred_mode ?n = g_bpred_mode p"
      "cpu_pipe ?n = zero_pipe"
    using b assms(2) by (simp_all add: n going_def)
  moreover have "isa_of ?n = reset_isa bs" using f calculation(3) by (simp add: isa_of_def reset_isa_def)
  ultimately show ?thesis
    using b assms(3-5) by (simp add: start_ok_def regs_ok_def zero_pipe_def)
qed

text \<open>Two functional cores: each has its own first-level caches, both start at the reset state.\<close>

lemma boot_two_cores:
  assumes "boot_base p bs m" and "g_num_cores m = 2"
  shows "let n = create_cores CORE_MODE_FUNCTIONAL m in smp_ready C n \<and> smp_going n \<and>
    smp_of n = \<lparr>s_harts = replicate 2 (0x80000000, replicate 32 0), s_mem = boot_mem bs\<rparr>"
proof -
  note b = assms(1) [unfolded boot_base_def]
  let ?x = "[init_cache 6 8 ''L1I'', init_cache 6 8 ''L1D'']" and ?M = "CORE_MODE_FUNCTIONAL"
  have l: "0 < length (cores m)" "length (caches m) = 3" "1 < length (cores m)" using b by simp_all
  obtain c0 where m1: "core_create 0 ?M (g_bpred_mode m) m = m\<lparr>caches := caches m @ ?x, cores := (cores m)[0 := c0]\<rparr>"
      and c0: "core_id c0 = 0" "core_mode c0 = ?M" "core_cpu c0 = cpu m" "core_priv_level c0 = priv_level m"
      "core_l1i c0 = Some (length (caches m))" "core_l1d c0 = Some (length (caches m) + 1)"
    using core_create_shape [OF l(1)] by blast
  define m1 where "m1 = m\<lparr>caches := caches m @ ?x, cores := (cores m)[0 := c0]\<rparr>"
  have l1: "1 < length (cores m1)" "length (caches m1) = 5" "cpu m1 = cpu m" "priv_level m1 = priv_level m" using l by (simp_all add: m1_def)
  obtain c1 where n: "core_create 1 ?M (g_bpred_mode m) m1 = m1\<lparr>caches := caches m1 @ ?x, cores := (cores m1)[1 := c1]\<rparr>"
      and c1: "core_id c1 = 1" "core_mode c1 = ?M" "core_cpu c1 = cpu m1" "core_priv_level c1 = priv_level m1"
      "core_l1i c1 = Some (length (caches m1))" "core_l1d c1 = Some (length (caches m1) + 1)"
    using core_create_shape [OF l1(1), of ?M "g_bpred_mode m"] by blast
  let ?n = "create_cores ?M m"
  have "[0..<g_num_cores m] = [0, 1]" using assms(2) by (simp add: upt_rec)
  then have "?n = core_create 1 ?M (g_bpred_mode m1) m1" by (simp add: create_cores_def m1 m1_def)
  moreover obtain x y where "cores m = [x, y]" using b by (auto simp: numeral_2_eq_2 length_Suc_conv)
  ultimately have n: "?n = m\<lparr>caches := caches m @ ?x @ ?x, cores := [c0, c1]\<rparr>" using n by (simp add: m1_def)
  let ?i = "install 0 ?n"
  have "cold ?n" using boot_base_cold [OF _ assms(1), of "?x @ ?x"] by (simp add: n cold_def)
  then have ci: "cold ?i" by (simp add: cold_def install_def Let_def)
  have p: "data_caches ?i = [4, 6]" "l1i_caches ?i = [3, 5]" "hart_ok ?i" "L2_cache ?i = Some 2" "length (caches ?i) = 7"
      "data_caches ?n = [4, 6]" "l1i_caches ?n = [3, 5]" "L2_cache ?n = Some 2" "length (caches ?n) = 7"
    using b assms(2) c0 c1 l(2) l1 by (simp_all add: n install_def data_caches_def l1i_caches_def hart_ok_def Let_def)
  have "mem_sys ?i" by (rule cold_sys [OF ci p(3)]) (simp_all add: p)
  moreover have "code_clean B ?n" for B by (rule cold_clean [OF \<open>cold ?n\<close>]) (simp add: p)
  moreover have "ram_view ?n = boot_mem bs" by (rule isa_of_boot [OF assms(1) \<open>cold ?n\<close>]) (simp_all add: p, simp add: n)
  moreover have "(\<forall>i<2. P i) \<longleftrightarrow> P 0 \<and> P (1 :: nat)" "replicate 2 x = [x, x]" for P and x :: "word_t \<times> word_t list"
    by (auto simp: less_2_cases_iff) (simp add: numeral_2_eq_2)
  ultimately show ?thesis
    using b assms(2) c0 c1 l1 by (simp add: smp_ready_def smp_going_def smp_of_def going_def n regs_ok_def Let_def)
qed

section \<open>Properties\<close>

text \<open>
  C33. From the command line to the registers: started with an image and an ELF file, in functional or in-order mode, with or
  without branch prediction, the simulator boots, and \<^verbatim>\<open>exec n\<close> returns with the registers and the program counter of the ISA after
  \<open>n\<close> instructions from the reset state. The program is safe for these instructions, and during the run the host asks for no
  end and delivers no more than the 1023 key events the keyboard queue holds.
\<close>

theorem boot_and_run:
  assumes "parse_args opts (zero_config, zero_machine) = (c, p)" and "host_ok sc files c bs"
    and "\<not> g_dual_flag c" and "\<not> g_ooo_mode p" and "\<not> g_difftest_en p"
    and "fetchable C" and "safe_run C (unat n + 5) (reset_isa bs)" and "g_bpred_mode p \<longrightarrow> calls_closed C (reset_isa bs)"
    and "\<forall>i < 200 * unat n + 160. SDL_QUIT \<notin> set (snd (env i))" and "(\<Sum>i < 200 * unat n + 160. length (snd (env i))) \<le> 1023"
  shows "\<exists>m m'. boot sc clock files opts = Inr (c, m) \<and> exec env n m = Some (Inr m') \<and>
    (let s = (isa_next ^^ unat n) (reset_isa bs) in cpu m' = \<lparr>gpr = i_regs s, cpu_pc = i_pc s\<rparr>)"
proof -
  obtain b where b: "boot sc clock files opts = Inr (c, create_cores (g_default_mode c) b)" "boot_base p bs b" "g_num_cores b = 1"
    using boot_result [OF assms(1,2), of clock] assms(3) by auto
  let ?m = "create_cores (g_default_mode c) b"
  have m: "start_ok C ?m" "going ?m" "g_num_cores ?m = 1" "isa_of ?m = reset_isa bs" "dev_ok (dev ?m)" "key_contents (dev ?m) = []" "\<not> g_ooo_mode ?m"
    using boot_one_core [OF b(2,3) assms(6,5,8), of "g_default_mode c"] assms(4) by (simp_all add: Let_def)
  have "quiet env 0 (200 * unat n + 160) ?m" using m(5,6) assms(9,10) by (simp add: quiet_def)
  then show ?thesis
    using exec_single [OF m(1-3,7)] b(1) assms(7) m(4) by (fastforce simp: Let_def)
qed

text \<open>The demonstration program and a symbol table as the host's files.\<close>

definition demo_files :: "string \<Rightarrow> byte list option" where
  "demo_files f = (if f = ''loop.bin'' then Some demo_image
     else if f = ''loop.elf'' then Some (elf_image [(''main'', 0x80000000, 8)]) else None)"

lemma demo_host_ok:
  assumes "elf_file c = Some ''loop.elf''" and "img_file c = Some ''loop.bin''"
  shows "host_ok key_position demo_files c demo_image"
proof -
  let ?ys = "[(''main'', 0x80000000, 8)]"
  have "length (elf_image ?ys) < 2 ^ 32" by (simp add: elf_image_def str_bytes_def ascii_def)
  then have "\<exists>z. init_elf (Some (Some (elf_image ?ys))) zero_machine = Inr z" using init_elf_image [of ?ys zero_machine] by simp
  moreover have "demo_image \<noteq> []" "length demo_image \<le> 0x8000000" using length_demo_image by auto
  ultimately show ?thesis
    using key_position_ok(2) assms zero_devices_ready(4) by (simp add: host_ok_def demo_files_def) (simp add: zero_devices_def)?
qed

lemma demo_reset: "in_loop (reset_isa demo_image)"
proof -
  have "load_bytes (boot_mem demo_image) 0 12 = load_bytes (store_bytes (store_bytes (\<lambda>_. 0) 0 default_bytes) 0 demo_image) 0 12"
    by (simp add: load_bytes_def boot_mem_def)
  then show ?thesis
    using load_store_bytes [of "store_bytes (\<lambda>_. 0) 0 default_bytes" 0 demo_image] by (simp add: in_loop_def reset_isa_def length_demo_image)
qed

theorem boot_and_run_witness:
  "\<exists>c m m'. boot key_position (\<lambda>_. (0, 0)) demo_files [Opt_i, Opt_p, Opt_e ''loop.elf'', Opt_arg ''loop.bin''] = Inr (c, m) \<and>
     exec (\<lambda>_. (\<lambda>_. zero_ir, [])) 1000 m = Some (Inr m') \<and> cpu_pc (cpu m') = i_pc ((isa_next ^^ 1000) (reset_isa demo_image))"
proof -
  let ?opts = "[Opt_i, Opt_p, Opt_e ''loop.elf'', Opt_arg ''loop.bin'']"
  obtain c p where cp: "parse_args ?opts (zero_config, zero_machine) = (c, p)" by (cases "parse_args ?opts (zero_config, zero_machine)")
  then have c: "elf_file c = Some ''loop.elf''" "img_file c = Some ''loop.bin''" "\<not> g_dual_flag c" "\<not> g_ooo_mode p" "\<not> g_difftest_en p"
    by (auto simp: zero_config_def zero_machine_def)
  note w = demo_words_at [OF conjunct2 [OF demo_reset [unfolded in_loop_def]]]
  have "calls_closed demo_code (reset_isa demo_image)" by (auto simp: calls_closed_def demo_code_def w is_call_def)
  then show ?thesis
    using boot_and_run [OF cp demo_host_ok [OF c(1,2)] c(3-5) demo_fetchable demo_safe [OF demo_reset], of 1000 "\<lambda>_. (\<lambda>_. zero_ir, [])" "\<lambda>_. (0, 0)"]
    by (auto simp: Let_def)
qed

text \<open>
  C37. With \<^verbatim>\<open>--dual\<close> the simulator boots two cores on one image, and \<^verbatim>\<open>exec n\<close> returns after the two have run in turn on one memory, one
  ISA instruction each per round.
\<close>

theorem boot_dual_run:
  assumes "parse_args opts (zero_config, zero_machine) = (c, p)" and "host_ok sc files c bs"
    and "g_dual_flag c" and "g_default_mode c = CORE_MODE_FUNCTIONAL" and "fetchable C" and "unat n < 2 ^ 63"
    and "smp_safe C (round_robin ((unat n + 1) div 2)) \<lparr>s_harts = replicate 2 (0x80000000, replicate 32 0), s_mem = boot_mem bs\<rparr>"
  shows "\<exists>m m'. boot sc clock files opts = Inr (c, m) \<and> exec env n m = Some (Inr m') \<and>
    smp_of m' = fold hart_step (round_robin ((unat n + 1) div 2)) \<lparr>s_harts = replicate 2 (0x80000000, replicate 32 0), s_mem = boot_mem bs\<rparr>"
proof -
  obtain b where b: "boot sc clock files opts = Inr (c, create_cores CORE_MODE_FUNCTIONAL b)" "boot_base p bs b" "g_num_cores b = 2"
    using boot_result [OF assms(1,2), of clock] assms(3,4) by auto
  note r = boot_two_cores [OF b(2,3), of C, unfolded Let_def]
  show ?thesis using exec_dual [OF _ _ assms(5,6), of "create_cores CORE_MODE_FUNCTIONAL b" env] r b(1) assms(7) by auto
qed

text \<open>Harts that run the demonstration loop stay in it.\<close>

lemma loop_step:
  assumes "length (s_harts S) = 2" and "in_loop (hart_state 0 S)" and "in_loop (hart_state 1 S)" and "i < 2"
  shows "length (s_harts (hart_step i S)) = 2" "in_loop (hart_state 0 (hart_step i S))" "in_loop (hart_state 1 (hart_step i S))"
proof -
  have l: "in_loop (hart_state i S)" using assms(2-4) by (auto simp: less_2_cases_iff)
  have m: "i_mem (isa_next (hart_state i S)) = s_mem S" unfolding in_loop_step(1) [OF l] by (simp add: hart_state_def)
  have "hart_state j (hart_step i S) = (if j = i then isa_next (hart_state i S) else hart_state j S)" if "j < 2" for j
    using m assms(1) that by (simp add: hart_step_def hart_state_def Let_def) (metis isa_state.surjective old.unit.exhaust)?
  then show "length (s_harts (hart_step i S)) = 2" "in_loop (hart_state 0 (hart_step i S))" "in_loop (hart_state 1 (hart_step i S))"
    using assms(1-3) in_loop_step(2) [OF l] by (auto simp: hart_step_def Let_def)
qed

lemma loop_smp_safe:
  "length (s_harts S) = 2 \<Longrightarrow> in_loop (hart_state 0 S) \<Longrightarrow> in_loop (hart_state 1 S) \<Longrightarrow> set is \<subseteq> {0, 1} \<Longrightarrow> smp_safe demo_code is S"
proof (induction "is" arbitrary: S)
  case (Cons i "is")
  then have i: "i < 2" "in_loop (hart_state i S)" by auto
  have "safe demo_code (hart_state i S)" using safe_runD [OF demo_safe [OF i(2)], of 1] by simp
  then show ?case using Cons loop_step [OF Cons.prems(1-3) i(1)] i(1) by simp
qed simp

lemma demo_smp_safe: "set is \<subseteq> {0, 1} \<Longrightarrow> smp_safe demo_code is \<lparr>s_harts = replicate 2 (0x80000000, replicate 32 0), s_mem = boot_mem demo_image\<rparr>"
  using demo_reset by (intro loop_smp_safe) (simp_all add: hart_state_def reset_isa_def)

lemma demo_dual:
  "\<exists>c p. parse_args [Opt_d, Opt_e ''loop.elf'', Opt_arg ''loop.bin''] (zero_config, zero_machine) = (c, p) \<and> g_dual_flag c \<and>
     g_default_mode c = CORE_MODE_FUNCTIONAL \<and> host_ok key_position demo_files c demo_image"
  using demo_host_ok by (simp add: zero_config_def)

theorem boot_dual_run_witness:
  "\<exists>c m m'. boot key_position (\<lambda>_. (0, 0)) demo_files [Opt_d, Opt_e ''loop.elf'', Opt_arg ''loop.bin''] = Inr (c, m) \<and>
     exec (\<lambda>_. (\<lambda>_. zero_ir, [])) 5 m = Some (Inr m') \<and>
     smp_of m' = fold hart_step [0, 1, 0, 1, 0, 1] \<lparr>s_harts = replicate 2 (0x80000000, replicate 32 0), s_mem = boot_mem demo_image\<rparr>"
proof -
  obtain c p where c: "parse_args [Opt_d, Opt_e ''loop.elf'', Opt_arg ''loop.bin''] (zero_config, zero_machine) = (c, p)" "g_dual_flag c"
      "g_default_mode c = CORE_MODE_FUNCTIONAL" "host_ok key_position demo_files c demo_image"
    using demo_dual by blast
  have r: "round_robin ((unat (5 :: word_t) + 1) div 2) = [0, 1, 0, 1, 0, 1]" by (simp add: round_robin_def numeral_3_eq_3)
  show ?thesis
    using boot_dual_run [OF c(1,4,2,3) demo_fetchable, of 5 "\<lambda>_. (0, 0)" "\<lambda>_. (\<lambda>_. zero_ir, [])"] demo_smp_safe [of "[0, 1, 0, 1, 0, 1]"]
    unfolding r by auto
qed

theorem cores_interleave_witness:
  "\<exists>c m m'. boot key_position (\<lambda>_. (0, 0)) demo_files [Opt_d, Opt_e ''loop.elf'', Opt_arg ''loop.bin''] = Inr (c, m) \<and>
     run_cores (map (\<lambda>i. (i, \<lambda>_. zero_ir)) [1, 0, 0, 1, 0]) m = Inr m' \<and> smp_of m' = fold hart_step [1, 0, 0, 1, 0] (smp_of m)"
proof -
  obtain c p where c: "parse_args [Opt_d, Opt_e ''loop.elf'', Opt_arg ''loop.bin''] (zero_config, zero_machine) = (c, p)" "g_dual_flag c"
      "g_default_mode c = CORE_MODE_FUNCTIONAL" "host_ok key_position demo_files c demo_image"
    using demo_dual by blast
  obtain b where b: "boot key_position (\<lambda>_. (0, 0)) demo_files [Opt_d, Opt_e ''loop.elf'', Opt_arg ''loop.bin''] = Inr (c, create_cores CORE_MODE_FUNCTIONAL b)"
      "boot_base p demo_image b" "g_num_cores b = 2"
    using boot_result [OF c(1,4)] c(2,3) by fastforce
  note r = boot_two_cores [OF b(2,3), of demo_code, unfolded Let_def]
  let ?s = "map (\<lambda>i. (i, \<lambda>_ :: nat. zero_ir)) [1, 0, 0, 1, 0]"
  have "map fst ?s = [1, 0, 0, 1, 0 :: nat]" by simp
  then show ?thesis
    using cores_interleave [OF _ demo_fetchable, of "create_cores CORE_MODE_FUNCTIONAL b" ?s] r b(1) demo_smp_safe [of "[1, 0, 0, 1, 0]"] by simp
qed

text \<open>
  C39. Without the option \<^verbatim>\<open>--elf\<close> every start ends in an assertion failure, whatever the image, and also with none, although the loader has a
  built-in image for that case: \<^verbatim>\<open>init_elf\<close> asserts a file name. (An image larger than the RAM, for which the loader writes
  past its array, is set aside.)
\<close>

theorem boot_needs_elf:
  assumes "parse_args opts (zero_config, zero_machine) = (c, p)" and "elf_file c = None"
    and "\<And>f bs. img_file c = Some f \<Longrightarrow> files f = Some bs \<Longrightarrow> length bs \<le> 0x8000000"
  shows "boot sc clock files opts = Inl Assertion_failed"
proof -
  have "load_img (map_option files (img_file c)) m = Inl Assertion_failed \<or> (\<exists>r. load_img (map_option files (img_file c)) m = Inr r)" for m
    using assms(3) by (auto simp: load_img_def guest_to_host_def guard_def split: option.splits)
  then show ?thesis
    using parse_args_dev [of opts zero_config "zero_devices\<lparr>host_clock := clock\<rparr>" zero_machine] assms(1,2)
    by (simp add: boot_def init_elf_def bind_res_def Let_def split: sum.split) (metis Inr_Inl_False sum.inject(1))
qed

theorem boot_needs_elf_witness:
  "boot key_position (\<lambda>_. (0, 0)) demo_files [] = Inl Assertion_failed \<and>
   boot key_position (\<lambda>_. (0, 0)) demo_files [Opt_i, Opt_arg ''loop.bin''] = Inl Assertion_failed"
proof -
  have "length bs \<le> 0x8000000" if "demo_files ''loop.bin'' = Some bs" for bs
    using that length_demo_image by (auto simp: demo_files_def)
  then show ?thesis
    by (intro conjI boot_needs_elf [OF surjective_pairing]) (simp_all add: zero_config_def)
qed

end
