(* ===== verification/Ooo_Frame.thy ===== *)
theory Ooo_Frame
  imports Ooo Mem_Frame
begin

text \<open>
  What the parts of a cycle that lie outside the engine leave alone: memory accesses and executors change neither its state nor
  its statistics, the registers, the predictors or the mode.
\<close>

section \<open>Memory\<close>

lemma snoop_invalidate_line_frame [framing]: "cache_snoop_invalidate p a m = Inr m' \<Longrightarrow> io_frame m m'"
  by (auto simp: cache_snoop_invalidate_def Let_def dest!: framing split: option.splits if_splits)

lemma snoop_invalidate_frame [framing]: "snoop_invalidate a m = Inr m' \<Longrightarrow> io_frame m m'"
  by (auto simp: snoop_invalidate_def dest: framing split: if_splits)

lemma cache_write_frame [framing]: "cache_write l1 l2 a n d m = Inr m' \<Longrightarrow> io_frame m m'"
  by (auto simp: cache_write_def Let_def dest!: framing)

lemma vaddr_write_frame [framing]: "vaddr_write a n d m = Inr m' \<Longrightarrow> io_frame m m'"
  by (auto simp: vaddr_write_def dest!: framing split: if_splits intro: io_frame_trans)

lemma cache_fill_frame [framing]: "cache_fill_and_read l1 l2 a n m = Inr (v, m') \<Longrightarrow> io_frame m m'"
  by (auto simp: cache_fill_and_read_def Let_def dest!: framing)

lemma vaddr_fill_frame [framing]: "vaddr_fill_and_read a n m = Inr (v, m') \<Longrightarrow> io_frame m m'"
  by (auto simp: vaddr_fill_and_read_def dest!: framing split: if_splits intro: io_frame_trans)

lemma vaddr_probe_frame [framing]: "vaddr_probe_level a m = Inr (v, m') \<Longrightarrow> io_frame m m'"
  by (auto simp: vaddr_probe_level_def cache_probe_level_def Let_def split: if_splits prod.splits)

section \<open>Executors\<close>

text \<open>The control registers, the run state and the function trace, which an executor may change.\<close>

definition exec_part :: "machine \<Rightarrow> machine" where
  "exec_part m = m\<lparr>csr := zero_csr, priv_level := 0, pmpcfg := [], pmpaddr := [], pmp_on_count := 0, ftrace := [], ftrace_depth := 0,
     state := NEMU_RUNNING, is_bad := False, halt_pc := 0\<rparr>"

definition exec_frame :: "machine \<Rightarrow> machine \<Rightarrow> bool" where
  "exec_frame m m' \<longleftrightarrow> exec_part m' = exec_part m"

lemma exec_frame_refl [simp]: "exec_frame m m" by (simp add: exec_frame_def)

lemma exec_frame_trans [trans]: "exec_frame a b \<Longrightarrow> exec_frame b c \<Longrightarrow> exec_frame a c" by (simp add: exec_frame_def)

lemma exec_frame_simps [simp]:
  "exec_frame m (m'\<lparr>csr := c\<rparr>) = exec_frame m m'" "exec_frame m (m'\<lparr>priv_level := p\<rparr>) = exec_frame m m'"
  "exec_frame m (m'\<lparr>pmpcfg := x\<rparr>) = exec_frame m m'" "exec_frame m (m'\<lparr>pmpaddr := y\<rparr>) = exec_frame m m'"
  "exec_frame m (m'\<lparr>pmp_on_count := z\<rparr>) = exec_frame m m'" "exec_frame m (m'\<lparr>state := s\<rparr>) = exec_frame m m'"
  "exec_frame m (m'\<lparr>ftrace := f\<rparr>) = exec_frame m m'" "exec_frame m (m'\<lparr>ftrace_depth := d\<rparr>) = exec_frame m m'"
  "exec_frame m (abort_bad m') = exec_frame m m'"
  by (simp_all add: exec_frame_def exec_part_def abort_bad_def set_bad_def)

text \<open>With what a memory access may change.\<close>

definition eng_frame :: "machine \<Rightarrow> machine \<Rightarrow> bool" where
  "eng_frame m m' \<longleftrightarrow> core_part (exec_part m') = core_part (exec_part m)"

lemma eng_frame_refl [simp]: "eng_frame m m" by (simp add: eng_frame_def)

lemma eng_frame_trans [trans]: "eng_frame a b \<Longrightarrow> eng_frame b c \<Longrightarrow> eng_frame a c" by (simp add: eng_frame_def)

lemma io_eng: "io_frame m m' \<Longrightarrow> eng_frame m m'"
proof -
  have "core_part (exec_part n) = exec_part (core_part n)" for n by (simp add: core_part_def exec_part_def)
  then show "io_frame m m' \<Longrightarrow> ?thesis" by (simp add: io_frame_def eng_frame_def)
qed

lemma exec_eng: "exec_frame m m' \<Longrightarrow> eng_frame m m'"
  by (simp add: exec_frame_def eng_frame_def)

lemma eng_frame_fields:
  assumes "eng_frame m m'"
  shows "ooo m' = ooo m" "ooo_stats m' = ooo_stats m" "cpu m' = cpu m" "difftest_active m' = difftest_active m" "difftest_ref m' = difftest_ref m"
    "g_bpred_mode m' = g_bpred_mode m" "g_bpred2_mode m' = g_bpred2_mode m" "bpred_state m' = bpred_state m"
    "bpred2_state m' = bpred2_state m" "spec_lht m' = spec_lht m" "g_num_cores m' = g_num_cores m" "wp_head m' = wp_head m"
proof -
  have "ooo (core_part (exec_part x)) = ooo x" "ooo_stats (core_part (exec_part x)) = ooo_stats x" "cpu (core_part (exec_part x)) = cpu x" "difftest_active (core_part (exec_part x)) = difftest_active x"
      "difftest_ref (core_part (exec_part x)) = difftest_ref x" "g_bpred_mode (core_part (exec_part x)) = g_bpred_mode x" "g_bpred2_mode (core_part (exec_part x)) = g_bpred2_mode x"
      "bpred_state (core_part (exec_part x)) = bpred_state x" "bpred2_state (core_part (exec_part x)) = bpred2_state x" "spec_lht (core_part (exec_part x)) = spec_lht x"
      "g_num_cores (core_part (exec_part x)) = g_num_cores x" "wp_head (core_part (exec_part x)) = wp_head x" for x
    by (simp_all add: exec_part_def core_part_def)
  then show "ooo m' = ooo m" "ooo_stats m' = ooo_stats m" "cpu m' = cpu m" "difftest_active m' = difftest_active m" "difftest_ref m' = difftest_ref m"
      "g_bpred_mode m' = g_bpred_mode m" "g_bpred2_mode m' = g_bpred2_mode m" "bpred_state m' = bpred_state m"
      "bpred2_state m' = bpred2_state m" "spec_lht m' = spec_lht m" "g_num_cores m' = g_num_cores m" "wp_head m' = wp_head m"
    using assms unfolding eng_frame_def by metis+
qed

lemma priv_check_exec: "exec_frame m m0 \<Longrightarrow> exec_frame m (snd (priv_check no w m0))"
proof -
  have "exec_frame m m0 \<Longrightarrow> exec_frame m (snd (priv_check_loop tb no w m0))" for tb
    by (induction tb no w m0 rule: priv_check_loop.induct) (auto simp: Let_def)
  then show "exec_frame m m0 \<Longrightarrow> exec_frame m (snd (priv_check no w m0))" by (simp add: priv_check_def)
qed

lemma set_pmpcfg_exec: "set_pmpcfg i d m0 = Inr m' \<Longrightarrow> exec_frame m m0 \<Longrightarrow> exec_frame m m'"
  by (auto simp: set_pmpcfg_def Let_def split: if_splits)

lemma set_pmpcfg_loop_exec: "set_pmpcfg_loop is x d m0 = Inr m' \<Longrightarrow> exec_frame m m0 \<Longrightarrow> exec_frame m m'"
  by (induction "is" x d m0 rule: set_pmpcfg_loop.induct) (auto dest: set_pmpcfg_exec)

lemma set_csr_exec: "set_csr no d m = Inr m' \<Longrightarrow> exec_frame m m'"
  using priv_check_exec [of m m no True] 
  by (auto simp: set_csr_def Let_def case_prod_beta dest: set_pmpcfg_loop_exec split: if_splits)

lemma read_csr_exec: "read_csr no m = Inr (v, m') \<Longrightarrow> exec_frame m m'"
  using priv_check_exec [of m m no False] 
  by (auto simp: read_csr_def Let_def case_prod_beta split: if_splits)

lemma add_ftrace_exec [simp]: "exec_frame m (add_ftrace a c m') = exec_frame m m'"
proof -
  have "exec_frame m (add_ftrace a c m') = exec_frame m (m'\<lparr>ftrace := ftrace (add_ftrace a c m'), ftrace_depth := ftrace_depth (add_ftrace a c m')\<rparr>)"
    using add_ftrace_frame [of a c m'] by metis
  then show ?thesis by simp
qed

lemma system_exec:
  "ir_exec_csrrw ir m = Inr (ir', m') \<Longrightarrow> exec_frame m m'" "ir_exec_csrrs ir m = Inr (ir', m') \<Longrightarrow> exec_frame m m'"
  "ir_exec_csrrc ir m = Inr (ir', m') \<Longrightarrow> exec_frame m m'" "ir_exec_mret ir m = Inr (ir', m') \<Longrightarrow> exec_frame m m'"
  "ir_exec_ecall ir c m = (ir', m') \<Longrightarrow> exec_frame m m'" "ir_exec_ebreak ir m = (ir', m') \<Longrightarrow> exec_frame m m'"
  "ir_exec_jal ir m = (ir', m') \<Longrightarrow> exec_frame m m'" "ir_exec_jalr ir m = (ir', m') \<Longrightarrow> exec_frame m m'"
  by (auto simp: ir_exec_csrrw_def ir_exec_csrrs_def ir_exec_csrrc_def ir_exec_mret_def ir_exec_ecall_def ir_exec_ebreak_def
      ir_exec_jal_def ir_exec_jalr_def raise_intr_def exception_priv_transfer_def mret_priv_transfer_def Let_def
      dest!: read_csr_exec set_csr_exec split: if_splits intro: exec_frame_trans)

lemma ir_execute_exec: "ir_execute ir c m = Inr (ir', m') \<Longrightarrow> exec_frame m m'"
  by (cases "exec_fn ir") (auto simp: ir_execute_def dest: system_exec)

lemma ir_execute_eng: "ir_execute ir c m = Inr (ir', m') \<Longrightarrow> eng_frame m m'"
  by (rule exec_eng [OF ir_execute_exec])

end
