(* ===== verification/Window.thy ===== *)
theory Window
  imports Prelude
begin

text \<open>
  Circular arrays with a head and a count: the window of the elements in use, oldest first, and how it changes when an element
  is added at the end, taken from either end, or updated in place.
\<close>

definition window :: "'a list \<Rightarrow> nat \<Rightarrow> nat \<Rightarrow> 'a list" where
  "window q h n = map (\<lambda>k. q ! ((h + k) mod length q)) [0..<n]"

lemma length_window [simp]: "length (window q h n) = n"
  by (simp add: window_def)

lemma nth_window [simp]: "k < n \<Longrightarrow> window q h n ! k = q ! ((h + k) mod length q)"
  by (simp add: window_def)

lemma window_0 [simp]: "window q h 0 = []"
  by (simp add: window_def)

lemma slot_inj:
  fixes h k j N :: nat
  assumes "k < N" and "j < N" and "(h + k) mod N = (h + j) mod N"
  shows "k = j"
proof -
  have "x = y" if "x \<le> y" "y < N" "(h + x) mod N = (h + y) mod N" for x y
  proof -
    have "N dvd (h + y) - (h + x)" using that by (metis add_le_cancel_left mod_eq_dvd_iff_nat)
    then show ?thesis using that(1,2) nat_dvd_not_less [of "y - x" N] by (cases "x = y") auto
  qed
  from this [of k j] this [of j k] assms show ?thesis by (cases "k \<le> j") simp_all
qed

text \<open>Adding at the end, taking from the end, taking from the front.\<close>

lemma window_snoc: "window q h (Suc n) = window q h n @ [q ! ((h + n) mod length q)]"
  by (simp add: window_def)

lemma window_Cons:
  assumes "h < length q"
  shows "window q h (Suc n) = q ! h # window q ((h + 1) mod length q) n"
proof (rule nth_equalityI)
  fix k assume k: "k < length (window q h (Suc n))"
  show "window q h (Suc n) ! k = (q ! h # window q ((h + 1) mod length q) n) ! k"
    using k assms by (cases k) (simp_all add: mod_add_left_eq)
qed simp

lemma window_update:
  assumes "k < n" and "n \<le> length q"
  shows "window (q[(h + k) mod length q := x]) h n = (window q h n)[k := x]"
proof (rule nth_equalityI)
  fix j assume "j < length (window (q[(h + k) mod length q := x]) h n)"
  then have j: "j < n" by simp
  then have "(h + k) mod length q = (h + j) mod length q \<longleftrightarrow> k = j" using slot_inj [of k "length q" j h] assms by auto
  moreover have "(h + k) mod length q < length q" using assms by (intro mod_less_divisor) auto
  ultimately show "window (q[(h + k) mod length q := x]) h n ! j = (window q h n)[k := x] ! j"
    using j by (auto simp: nth_list_update)
qed simp

lemma window_outside:
  assumes "n \<le> k" and "k < length q"
  shows "window (q[(h + k) mod length q := x]) h n = window q h n"
proof (rule nth_equalityI)
  fix j assume "j < length (window (q[(h + k) mod length q := x]) h n)"
  then have j: "j < n" by simp
  then have "(h + k) mod length q \<noteq> (h + j) mod length q" using slot_inj [of k "length q" j h] assms by auto
  then show "window (q[(h + k) mod length q := x]) h n ! j = window q h n ! j" using j by simp
qed simp

lemma window_push:
  assumes "n < length q"
  shows "window (q[(h + n) mod length q := x]) h (Suc n) = window q h n @ [x]"
proof -
  have "(h + n) mod length q < length q" using assms by (intro mod_less_divisor) auto
  then show ?thesis using window_outside [of n n q h x] assms by (simp add: window_snoc)
qed

lemma window_map: "h < length q \<Longrightarrow> map f (window q h n) = window (map f q) h n"
proof (rule nth_equalityI)
  fix i assume "h < length q" and "i < length (map f (window q h n))"
  moreover from this have "(h + i) mod length q < length q" by (intro mod_less_divisor) linarith
  ultimately show "map f (window q h n) ! i = window (map f q) h n ! i" by simp
qed simp

text \<open>Every slot is at one distance from the head.\<close>

lemma slot_at:
  fixes h i N :: nat
  assumes "h < N" and "i < N"
  shows "(h + (i + N - h) mod N) mod N = i" "(i + N - h) mod N < N"
proof -
  have "(h + (i + N - h) mod N) mod N = (h + (i + N - h)) mod N" by (simp add: mod_add_right_eq)
  also have "\<dots> = i" using assms by simp
  finally show "(h + (i + N - h) mod N) mod N = i" .
  show "(i + N - h) mod N < N" using assms by simp
qed

lemma dist_slot:
  fixes h k N :: nat
  assumes "h < N" and "k < N"
  shows "((h + k) mod N + N - h) mod N = k"
proof -
  have "(h + k) mod N < N" using assms by simp
  from slot_at [OF assms(1) this] show ?thesis using slot_inj [OF _ assms(2)] by blast
qed

end
