(* ===== verification/Renaming.thy ===== *)
theory Renaming
  imports Window "HOL-Library.Multiset"
begin

text \<open>
  Register renaming as a specification: the map from architectural to physical registers, the map at the last commit, the
  queue of free registers and the renamings in flight, oldest first. A renaming takes a register from the queue, a commit
  returns the one it supersedes, a squash takes back the youngest renaming.
\<close>

record slot =
  sl_rd :: int
  sl_phys :: int
  sl_old :: int

record renaming =
  r_map :: "int list"
  r_committed :: "int list"
  r_free :: "int list"
  r_flight :: "slot list"

definition writes :: "slot \<Rightarrow> bool" where
  "writes e \<longleftrightarrow> sl_rd e \<noteq> -1 \<and> sl_rd e \<noteq> 0"

definition a_rename :: "int \<Rightarrow> renaming \<Rightarrow> renaming" where
  "a_rename rd r =
    (if rd \<noteq> -1 \<and> rd \<noteq> 0
     then let p = hd (r_free r) in r\<lparr>r_map := (r_map r)[nat rd := p], r_free := tl (r_free r),
            r_flight := r_flight r @ [\<lparr>sl_rd = rd, sl_phys = p, sl_old = r_map r ! nat rd\<rparr>]\<rparr>
     else let p = (if rd = 0 then 0 else -1) in r\<lparr>r_flight := r_flight r @ [\<lparr>sl_rd = rd, sl_phys = p, sl_old = p\<rparr>]\<rparr>)"

definition a_commit :: "renaming \<Rightarrow> renaming" where
  "a_commit r =
    (let e = hd (r_flight r); r = r\<lparr>r_flight := tl (r_flight r)\<rparr> in
     if writes e then r\<lparr>r_committed := (r_committed r)[nat (sl_rd e) := sl_phys e], r_free := r_free r @ [sl_old e]\<rparr> else r)"

definition a_squash :: "renaming \<Rightarrow> renaming" where
  "a_squash r =
    (let e = last (r_flight r); r = r\<lparr>r_flight := butlast (r_flight r)\<rparr> in
     if writes e then r\<lparr>r_map := (r_map r)[nat (sl_rd e) := sl_old e], r_free := r_free r @ [sl_phys e]\<rparr> else r)"

section \<open>The invariant\<close>

text \<open>The renamings in flight lead from one map to the other.\<close>

fun chain :: "slot list \<Rightarrow> int list \<Rightarrow> int list \<Rightarrow> bool" where
  "chain [] f g \<longleftrightarrow> g = f"
| "chain (e # es) f g \<longleftrightarrow>
     (if writes e then 0 < sl_rd e \<and> sl_rd e < 32 \<and> sl_old e = f ! nat (sl_rd e) \<and> chain es (f[nat (sl_rd e) := sl_phys e]) g
      else (sl_phys e = 0 \<or> sl_phys e = -1) \<and> chain es f g)"

text \<open>Every physical register is mapped, free, or the predecessor of a renaming in flight, and only one of these.\<close>

definition owners :: "renaming \<Rightarrow> int list" where
  "owners r = r_map r @ r_free r @ map sl_old (filter writes (r_flight r))"

definition all_regs :: "int list" where
  "all_regs = map int [0..<64]"

definition renaming_ok :: "renaming \<Rightarrow> bool" where
  "renaming_ok r \<longleftrightarrow> length (r_map r) = 32 \<and> length (r_committed r) = 32 \<and> r_committed r ! 0 = 0 \<and>
     chain (r_flight r) (r_committed r) (r_map r) \<and> mset (owners r) = mset all_regs"

lemma chain_append: "chain (es @ fs) f g \<longleftrightarrow> (\<exists>h. chain es f h \<and> chain fs h g)"
  by (induction es arbitrary: f) auto

lemma chain_length: "chain es f g \<Longrightarrow> length g = length f"
  by (induction es arbitrary: f) (force split: if_splits)+

lemma chain_zero: "chain es f g \<Longrightarrow> 0 < length f \<Longrightarrow> g ! 0 = f ! 0"
  by (induction es arbitrary: f) (force split: if_splits)+

lemma mset_swap: "i < length xs \<Longrightarrow> mset (xs[i := v]) + {#xs ! i#} = mset xs + {#v#}"
  by (simp add: mset_update)

lemma free_bound:
  assumes "renaming_ok r"
  shows "length (r_free r) \<le> 32" "length (r_free r) + length (filter writes (r_flight r)) = 32"
proof -
  have "length (owners r) = length all_regs" using assms by (simp add: renaming_ok_def flip: size_mset)
  then have "32 + length (r_free r) + length (filter writes (r_flight r)) = 64" using assms by (simp add: renaming_ok_def owners_def all_regs_def)
  then show "length (r_free r) \<le> 32" "length (r_free r) + length (filter writes (r_flight r)) = 32" by simp_all
qed

lemma a_rename_ok:
  assumes "renaming_ok r" and "rd = -1 \<or> 0 \<le> rd \<and> rd < 32" and "rd \<noteq> -1 \<and> rd \<noteq> 0 \<Longrightarrow> r_free r \<noteq> []"
  shows "renaming_ok (a_rename rd r)"
proof (cases "rd \<noteq> -1 \<and> rd \<noteq> 0")
  case True
  then obtain p ps where f: "r_free r = p # ps" using assms(3) by (cases "r_free r") auto
  let ?e = "\<lparr>sl_rd = rd, sl_phys = p, sl_old = r_map r ! nat rd\<rparr>"
  have i: "nat rd < length (r_map r)" using assms(1,2) True by (auto simp: renaming_ok_def)
  have r: "a_rename rd r = r\<lparr>r_map := (r_map r)[nat rd := p], r_free := ps, r_flight := r_flight r @ [?e]\<rparr>" and w: "writes ?e"
    using True f by (simp_all add: a_rename_def writes_def)
  have "mset (owners (a_rename rd r)) = mset (owners r)"
    using mset_swap [OF i, of p] w f by (simp add: r owners_def ac_simps)
  moreover have "chain (r_flight r @ [?e]) (r_committed r) ((r_map r)[nat rd := p])"
    using assms(1,2) True w by (auto simp: renaming_ok_def chain_append)
  ultimately show ?thesis using assms(1) by (simp add: renaming_ok_def r)
next
  case False
  then show ?thesis using assms(1) by (auto simp: a_rename_def renaming_ok_def owners_def writes_def chain_append Let_def)
qed

lemma a_commit_ok:
  assumes "renaming_ok r" and "r_flight r \<noteq> []"
  shows "renaming_ok (a_commit r)"
proof -
  obtain e es where f: "r_flight r = e # es" using assms(2) by (cases "r_flight r") auto
  then have "mset (owners (a_commit r)) = mset (owners r)" by (simp add: a_commit_def owners_def Let_def ac_simps)
  then show ?thesis using assms(1) f by (auto simp: a_commit_def renaming_ok_def Let_def)
qed

lemma a_squash_ok:
  assumes "renaming_ok r" and "r_flight r \<noteq> []"
  shows "renaming_ok (a_squash r)" "r_flight (a_squash r) = butlast (r_flight r)" "r_committed (a_squash r) = r_committed r"
proof -
  obtain e es where f: "r_flight r = es @ [e]" using assms(2) by (cases "r_flight r" rule: rev_cases) auto
  show "r_flight (a_squash r) = butlast (r_flight r)" "r_committed (a_squash r) = r_committed r" by (simp_all add: a_squash_def Let_def)
  obtain h where h: "chain es (r_committed r) h" "chain [e] h (r_map r)"
    using assms(1) f by (auto simp: renaming_ok_def chain_append)
  show "renaming_ok (a_squash r)"
  proof (cases "writes e")
    case True
    have l: "length h = 32" using chain_length [OF h(1)] assms(1) by (simp add: renaming_ok_def)
    have e: "0 < sl_rd e" "sl_rd e < 32" "sl_old e = h ! nat (sl_rd e)" "r_map r = h[nat (sl_rd e) := sl_phys e]" using h(2) True by auto
    have "mset (r_map r) + {#sl_old e#} = mset h + {#sl_phys e#}"
      using mset_swap [of "nat (sl_rd e)" h "sl_phys e"] e l by simp
    moreover have r: "a_squash r = r\<lparr>r_map := h, r_free := r_free r @ [sl_phys e], r_flight := es\<rparr>"
      using f True e by (simp add: a_squash_def Let_def)
    ultimately have "mset (owners (a_squash r)) = mset (owners r)" using True f by (simp add: owners_def ac_simps)
    then show ?thesis using assms(1) h(1) l r by (simp add: renaming_ok_def)
  qed (use assms(1) f h in \<open>simp add: a_squash_def renaming_ok_def owners_def Let_def\<close>)
qed

text \<open>Registers of different owners differ.\<close>

lemma owners_distinct:
  assumes "renaming_ok r"
  shows "distinct (owners r)" "set (owners r) = {0..<64}"
proof -
  have m: "mset (owners r) = mset all_regs" using assms by (simp add: renaming_ok_def)
  have "distinct all_regs" by (simp add: all_regs_def distinct_map inj_on_def)
  then show "distinct (owners r)" using m mset_eq_imp_distinct_iff by metis
  have "set all_regs = {0..<64}" by (simp add: all_regs_def atLeastLessThan_upt [symmetric] image_int_atLeastLessThan)
  then show "set (owners r) = {0..<64}" using m mset_eq_setD by metis
qed

text \<open>Seen from the committed side: every physical register is committed, free, or the target of a renaming in flight.\<close>

lemma chain_mset:
  "chain es f g \<Longrightarrow> length f = 32 \<Longrightarrow> mset g + mset (map sl_old (filter writes es)) = mset f + mset (map sl_phys (filter writes es))"
proof (induction es arbitrary: f)
  case (Cons e es)
  show ?case
  proof (cases "writes e")
    case True
    let ?i = "nat (sl_rd e)"
    have e: "?i < length f" "sl_old e = f ! ?i" "chain es (f[?i := sl_phys e]) g" using Cons.prems True by auto
    show ?thesis using Cons.IH [OF e(3)] Cons.prems(2) mset_swap [OF e(1), of "sl_phys e"] e(2) True by (simp add: ac_simps)
  qed (use Cons in \<open>auto split: if_splits\<close>)
qed simp

lemma targets_distinct:
  assumes "renaming_ok r"
  defines "xs \<equiv> r_committed r @ r_free r @ map sl_phys (filter writes (r_flight r))"
  shows "distinct xs" "set xs = {0..<64}"
proof -
  have "mset xs = mset (owners r)"
    using assms(1) chain_mset [of "r_flight r" "r_committed r" "r_map r"] by (simp add: xs_def renaming_ok_def owners_def ac_simps)
  then show "distinct xs" "set xs = {0..<64}"
    using owners_distinct [OF assms(1)] mset_eq_imp_distinct_iff mset_eq_setD by metis+
qed

lemma slot_target:
  assumes "renaming_ok r" and "e \<in> set (r_flight r)"
  shows "if writes e then 0 < sl_phys e \<and> sl_phys e < 64 else sl_phys e = 0 \<or> sl_phys e = -1"
proof (cases "writes e")
  case True
  note t = targets_distinct [OF assms(1)]
  have p: "sl_phys e \<in> set (map sl_phys (filter writes (r_flight r)))" using True assms(2) by auto
  then have "0 \<le> sl_phys e" "sl_phys e < 64" using t(2) by auto
  moreover have "0 \<in> set (r_committed r)" using assms(1) nth_mem [of 0 "r_committed r"] by (simp add: renaming_ok_def)
  ultimately show ?thesis using t(1) p True by force
next
  case False
  have "chain es f g \<Longrightarrow> e \<in> set es \<Longrightarrow> sl_phys e = 0 \<or> sl_phys e = -1" for es f g
    using False by (induction es arbitrary: f) (auto split: if_splits)
  then show ?thesis using assms False by (auto simp: renaming_ok_def)
qed

end
