(* ===== verification/Ooo_Rename.thy ===== *)
theory Ooo_Rename
  imports Ooo_Frame Renaming
begin

text \<open>
  The tables of the engine (\<^verbatim>\<open>ooo.c\<close>) implement the renaming specification: free list and re-order buffer are rings whose contents
  are its queue and its renamings in flight. Every part of a cycle keeps the representation, and renames, commits or squashes as
  the specification does.
\<close>

section \<open>The abstraction\<close>

definition slot_of :: "ROBEntry \<Rightarrow> slot" where
  "slot_of e = \<lparr>sl_rd = arch_rd e, sl_phys = rob_phys_rd e, sl_old = old_phys e\<rparr>"

definition renaming_of :: "OOOState \<Rightarrow> renaming" where
  "renaming_of t = \<lparr>r_map = rat t, r_committed = rrat t,
     r_free = window (fl_regs (freelist t)) (fl_head (freelist t)) (nat (fl_count (freelist t))),
     r_flight = window (map slot_of (rob t)) (rob_head t) (nat (rob_count t))\<rparr>"

definition free_ring :: "FreeList \<Rightarrow> bool" where
  "free_ring f \<longleftrightarrow> length (fl_regs f) = 64 \<and> fl_head f < 64 \<and> 0 \<le> fl_count f \<and> fl_tail f = (fl_head f + nat (fl_count f)) mod 64"

text \<open>The valid entries are those of the window.\<close>

definition rob_ring :: "bool list \<Rightarrow> nat \<Rightarrow> nat \<Rightarrow> int \<Rightarrow> bool" where
  "rob_ring vs h b n \<longleftrightarrow> length vs = 32 \<and> h < 32 \<and> 0 \<le> n \<and> n \<le> 32 \<and> b = (h + nat n) mod 32 \<and>
     (\<forall>k<32. vs ! ((h + k) mod 32) \<longleftrightarrow> k < nat n)"

definition rings_ok :: "OOOState \<Rightarrow> bool" where
  "rings_ok t \<longleftrightarrow> free_ring (freelist t) \<and> rob_ring (map rob_valid (rob t)) (rob_head t) (rob_tail t) (rob_count t)"

text \<open>The part of the engine's state that renaming is about.\<close>

definition ren_part :: "OOOState \<Rightarrow> int list \<times> int list \<times> FreeList \<times> (slot \<times> bool) list \<times> nat \<times> nat \<times> int" where
  "ren_part t = (rat t, rrat t, freelist t, map (\<lambda>e. (slot_of e, rob_valid e)) (rob t), rob_head t, rob_tail t, rob_count t)"

lemma ren_part_eq:
  assumes "ren_part t' = ren_part t"
  shows "rings_ok t' = rings_ok t" "renaming_of t' = renaming_of t"
proof -
  have m: "map (\<lambda>e. (slot_of e, rob_valid e)) (rob t') = map (\<lambda>e. (slot_of e, rob_valid e)) (rob t)" using assms by (simp add: ren_part_def)
  have "map slot_of (rob t') = map slot_of (rob t)" "map rob_valid (rob t') = map rob_valid (rob t)" "length (rob t') = length (rob t)"
    using arg_cong [OF m, of "map fst"] arg_cong [OF m, of "map snd"] arg_cong [OF m, of length] by (simp_all add: comp_def)
  then show "rings_ok t' = rings_ok t" "renaming_of t' = renaming_of t"
    using assms by (simp_all add: ren_part_def rings_ok_def renaming_of_def rob_dist_def)
qed

definition rename_ok :: "OOOState \<Rightarrow> bool" where
  "rename_ok t \<longleftrightarrow> rings_ok t \<and> renaming_ok (renaming_of t)"

lemma rename_ok_eq: "ren_part t' = ren_part t \<Longrightarrow> rename_ok t' = rename_ok t"
  using ren_part_eq [of t' t] by (simp add: rename_ok_def)

section \<open>Steps that leave renaming alone\<close>

lemma put_rob_same: "slot_of e = slot_of (rob t ! i) \<Longrightarrow> rob_valid e = rob_valid (rob t ! i) \<Longrightarrow> ren_part (put_rob i e t) = ren_part t"
  by (cases "i < length (rob t)") (simp_all add: ren_part_def put_rob_def map_update list_update_same_conv list_update_beyond)

lemma ren_part_simps [simp]:
  "ren_part (set_ready eu i t) = ren_part t" "ren_part (clear_ready eu i t) = ren_part t" "ren_part (rs_mask_update i t) = ren_part t"
  "ren_part (rs_mask_clear i eu t) = ren_part t" "ren_part (put_rs i e t) = ren_part t" "ren_part (set_phys p v t) = ren_part t"
  "ren_part (set_unready p t) = ren_part t" "ren_part (put_int s l t) = ren_part t" "ren_part (put_mul s l t) = ren_part t"
  "ren_part (put_lsu s l t) = ren_part t" "ren_part (free_lsu s t) = ren_part t" "ren_part (mshr_tick t) = ren_part t"
  "ren_part (release_mshr s mi t) = ren_part t" "ren_part (sbuf_push x t) = ren_part t" "ren_part (compact t) = ren_part t"
  "ren_part (ooo_stage_id t) = ren_part t"
  by (simp_all add: ren_part_def set_ready_def clear_ready_def rs_mask_update_def rs_mask_clear_def put_rs_def set_phys_def set_unready_def
      put_int_def put_mul_def put_lsu_def free_lsu_def mshr_tick_def release_mshr_def sbuf_push_def compact_def ooo_stage_id_def Let_def)

lemma ren_part_rob [simp]: "ren_part (mark_ready i t) = ren_part t" "ren_part (set_rob_ir i ir t) = ren_part t"
  by (simp_all add: mark_ready_def set_rob_ir_def put_rob_same slot_of_def)

lemma ren_part_fold: "(\<And>i t. ren_part (f i t) = ren_part t) \<Longrightarrow> ren_part (fold f is t) = ren_part t"
  by (induction "is" arbitrary: t) simp_all

lemma ren_part_cdb [simp]: "ren_part (cdb_broadcast p t) = ren_part t"
proof -
  have "ren_part (cdb_step p i t) = ren_part t" for i t by (simp add: cdb_step_def put_rs_def [symmetric] Let_def)
  then show ?thesis by (simp add: cdb_broadcast_def ren_part_fold)
qed

lemma ren_part_complete [simp]: "ren_part (write_result p v t) = ren_part t" "ren_part (complete i p ir t) = ren_part t"
  by (simp_all add: complete_def write_result_def Let_def)

lemma ren_part_mshr [simp]: "ren_part (snd (mshr_find_or_alloc a n t)) = ren_part t"
  by (simp add: mshr_find_or_alloc_def ren_part_def split: option.split)

lemma ren_part_issue [simp]: "ren_part (ooo_stage_is t) = ren_part t"
proof -
  have "ren_part (issue_unit b eu l put t) = ren_part t" if "\<And>l t. ren_part (put l t) = ren_part t" for b eu l put t
    by (simp add: issue_unit_def latch_from_rs_def that Let_def split: option.split)
  then show ?thesis by (simp add: ooo_stage_is_def Let_def ren_part_fold)
qed

section \<open>Rings\<close>

lemma ring_nth:
  assumes "length q = 32" and "j < 32" and "k < 32"
  shows "q[(h + j) mod 32 := x] ! ((h + k) mod 32) = (if k = j then x else q ! ((h + k) mod 32))"
  using slot_inj [of k 32 j h] assms by (auto simp: nth_list_update)

lemma rob_ring_fields:
  assumes "rings_ok t"
  shows "length (rob t) = 32" "rob_head t < 32" "0 \<le> rob_count t" "rob_count t \<le> 32" "rob_tail t = (rob_head t + nat (rob_count t)) mod 32"
  using assms by (simp_all add: rings_ok_def rob_ring_def)

lemma valid_dist:
  assumes "rings_ok t" and "i < 32"
  shows "rob_valid (rob t ! i) \<longleftrightarrow> rob_dist t i < nat (rob_count t)" "(rob_head t + rob_dist t i) mod 32 = i" "rob_dist t i < 32"
proof -
  note h = rob_ring_fields [OF assms(1)]
  note s = slot_at [OF h(2) assms(2)]
  show d: "(rob_head t + rob_dist t i) mod 32 = i" "rob_dist t i < 32" using s by (simp_all add: rob_dist_def)
  have "map rob_valid (rob t) ! ((rob_head t + rob_dist t i) mod 32) \<longleftrightarrow> rob_dist t i < nat (rob_count t)"
    using assms(1) d(2) unfolding rings_ok_def rob_ring_def by blast
  then show "rob_valid (rob t ! i) \<longleftrightarrow> rob_dist t i < nat (rob_count t)" using d(1) assms(2) h(1) by simp
qed

lemma freelist_push_ok:
  assumes "rings_ok t" and "fl_count (freelist t) < 64"
  shows "rings_ok (freelist_push p t)" "renaming_of (freelist_push p t) = (renaming_of t)\<lparr>r_free := r_free (renaming_of t) @ [p]\<rparr>"
proof -
  let ?f = "freelist t"
  let ?n = "nat (fl_count ?f)"
  have f: "length (fl_regs ?f) = 64" "fl_head ?f < 64" "0 \<le> fl_count ?f" "fl_tail ?f = (fl_head ?f + ?n) mod 64"
    using assms(1) by (simp_all add: rings_ok_def free_ring_def)
  have n: "nat (fl_count ?f + 1) = Suc ?n" "?n < 64" using f(3) assms(2) by simp_all
  have "(fl_tail ?f + 1) mod 64 = (fl_head ?f + Suc ?n) mod 64" by (simp add: f(4) mod_Suc_eq)
  then show "rings_ok (freelist_push p t)" using assms(1) f n by (simp add: rings_ok_def free_ring_def freelist_push_def Let_def)
  have "window ((fl_regs ?f)[fl_tail ?f := p]) (fl_head ?f) (Suc ?n) = window (fl_regs ?f) (fl_head ?f) ?n @ [p]"
    using window_push [of ?n "fl_regs ?f" "fl_head ?f" p] f n by simp
  then show "renaming_of (freelist_push p t) = (renaming_of t)\<lparr>r_free := r_free (renaming_of t) @ [p]\<rparr>"
    using n by (simp add: renaming_of_def freelist_push_def Let_def)
qed

lemma freelist_pop_ok:
  assumes "rings_ok t" and "fl_count (freelist t) > 0"
  shows "rings_ok (snd (freelist_pop t))" "renaming_of (snd (freelist_pop t)) = (renaming_of t)\<lparr>r_free := tl (r_free (renaming_of t))\<rparr>"
    "fst (freelist_pop t) = hd (r_free (renaming_of t))" "r_free (renaming_of t) \<noteq> []"
proof -
  let ?f = "freelist t"
  obtain n where n: "fl_count ?f = int n + 1" using assms(2) by (metis add.commute zless_iff_Suc_zadd of_nat_Suc add_0)
  have f: "length (fl_regs ?f) = 64" "fl_head ?f < 64" "fl_tail ?f = (fl_head ?f + Suc n) mod 64" "nat (fl_count ?f) = Suc n"
    using assms n by (simp_all add: rings_ok_def free_ring_def nat_add_distrib)
  have "(fl_head ?f + Suc n) mod 64 = ((fl_head ?f + 1) mod 64 + n) mod 64" by (simp add: mod_add_left_eq)
  then show "rings_ok (snd (freelist_pop t))" using assms f n by (simp add: rings_ok_def free_ring_def freelist_pop_def Let_def)
  have w: "window (fl_regs ?f) (fl_head ?f) (Suc n) = fl_regs ?f ! fl_head ?f # window (fl_regs ?f) ((fl_head ?f + 1) mod 64) n"
    using window_Cons [of "fl_head ?f" "fl_regs ?f" n] f by simp
  show "renaming_of (snd (freelist_pop t)) = (renaming_of t)\<lparr>r_free := tl (r_free (renaming_of t))\<rparr>"
    "fst (freelist_pop t) = hd (r_free (renaming_of t))" "r_free (renaming_of t) \<noteq> []"
    unfolding renaming_of_def f(4) w using n by (simp_all add: freelist_pop_def Let_def)
qed

section \<open>Squash\<close>

lemma slot_before: "0 < n \<Longrightarrow> ((h + n) mod 32 + 31) mod 32 = (h + (n - 1)) mod (32 :: nat)"
proof -
  assume "0 < n"
  then have "h + n + 31 = (h + (n - 1)) + 32" by simp
  then show ?thesis by (metis mod_add_left_eq mod_add_self2)
qed

lemma free_room: "rename_ok t \<Longrightarrow> fl_count (freelist t) < 64"
  using free_bound(1) [of "renaming_of t"] by (simp add: rename_ok_def renaming_of_def rings_ok_def free_ring_def)

lemma undo_last_ok:
  assumes "rename_ok t" and "rob_count t > 0"
  shows "rename_ok (undo_last t)" "renaming_of (undo_last t) = a_squash (renaming_of t)" "rob_count (undo_last t) = rob_count t - 1"
    "rob_head (undo_last t) = rob_head t"
proof -
  have r: "rings_ok t" using assms(1) by (simp add: rename_ok_def)
  note f = rob_ring_fields [OF r]
  define n where "n = nat (rob_count t) - 1"
  define i where "i = (rob_head t + n) mod 32"
  have n: "nat (rob_count t) = Suc n" "n < 32" "rob_count t = int n + 1" using assms(2) f(4) by (auto simp: n_def)
  have tl: "(rob_tail t + 31) mod 32 = i" using slot_before [of "Suc n" "rob_head t"] f(5) n(1) by (simp add: i_def)
  have i: "i < 32" "i < length (rob t)" using f(1) by (simp_all add: i_def)
  let ?e = "rob t ! i"
  have d: "rob_dist t i = n" using dist_slot [OF f(2) n(2)] by (simp add: i_def rob_dist_def)
  then have v: "rob_valid ?e" using valid_dist(1) [OF r i(1)] n by simp
  let ?w = "window (map slot_of (rob t)) (rob_head t)"
  have fl: "r_flight (renaming_of t) = ?w n @ [slot_of ?e]"
    using window_snoc [of "map slot_of (rob t)" "rob_head t" n] n f(1) i(1) by (simp add: renaming_of_def i_def)
  have w: "writes (slot_of ?e) \<longleftrightarrow> arch_rd ?e \<noteq> -1 \<and> arch_rd ?e \<noteq> 0" by (simp add: writes_def slot_of_def)
  define u where "u = t\<lparr>rob := (rob t)[i := ?e\<lparr>rob_valid := False\<rparr>], rob_tail := i, rob_count := rob_count t - 1\<rparr>"
  have "rob_ring (map rob_valid (rob u)) (rob_head u) (rob_tail u) (rob_count u)"
  proof -
    have "map rob_valid (rob u) ! ((rob_head t + k) mod 32) \<longleftrightarrow> k < n" if "k < 32" for k
      using ring_nth [of "map rob_valid (rob t)" n k "rob_head t" False] that n f(1) r
      by (auto simp: u_def map_update i_def rings_ok_def rob_ring_def)
    then show ?thesis using f n i(1) by (simp add: rob_ring_def u_def i_def)
  qed
  then have ru: "rings_ok u" using r by (simp add: rings_ok_def u_def)
  have "?w n = window (map slot_of (rob u)) (rob_head t) n"
    using window_outside [of n n "map slot_of (rob t)" "rob_head t"] n(2) f(1) by (simp add: u_def map_update i_def)
  then have rn: "renaming_of u = (renaming_of t)\<lparr>r_flight := ?w n\<rparr>" using n by (simp add: renaming_of_def u_def)
  have cnt: "fl_count (freelist u) < 64" using free_room [OF assms(1)] by (simp add: u_def)
  let ?u = "if arch_rd ?e \<noteq> -1 \<and> arch_rd ?e \<noteq> 0
    then freelist_push (rob_phys_rd ?e) (u\<lparr>rat := (rat t)[nat (arch_rd ?e) := old_phys ?e]\<rparr>) else u"
  have p: "ren_part (undo_last t) = ren_part ?u"
    using v by (simp add: undo_last_def tl Let_def) (simp add: ren_part_def u_def freelist_push_def set_unready_def put_rob_def Let_def)
  have q: "rings_ok (u\<lparr>rat := x\<rparr>)" "renaming_of (u\<lparr>rat := x\<rparr>) = (renaming_of u)\<lparr>r_map := x\<rparr>" for x
    using ru by (simp_all add: rings_ok_def renaming_of_def)
  have "rings_ok ?u" using ru freelist_push_ok(1) [OF q(1)] cnt by simp
  then have "rings_ok (undo_last t)" using ren_part_eq(1) [OF p] by simp
  moreover show sq: "renaming_of (undo_last t) = a_squash (renaming_of t)"
    unfolding ren_part_eq(2) [OF p] using fl w rn freelist_push_ok(2) [OF q(1)] cnt q(2)
    by (simp add: a_squash_def slot_of_def Let_def) (simp add: renaming_of_def)
  ultimately show "rename_ok (undo_last t)" using a_squash_ok(1) [of "renaming_of t"] assms(1) fl by (simp add: rename_ok_def)
  show "rob_count (undo_last t) = rob_count t - 1" "rob_head (undo_last t) = rob_head t"
    using p by (simp_all add: ren_part_def u_def freelist_push_def Let_def split: if_splits)
qed

lemma undo_many_ok:
  "rename_ok t \<Longrightarrow> k \<le> nat (rob_count t) \<Longrightarrow> (let u = (undo_last ^^ k) t in rename_ok u \<and> rob_count u = rob_count t - int k \<and> rob_head u = rob_head t \<and>
     r_committed (renaming_of u) = r_committed (renaming_of t) \<and>
     r_flight (renaming_of u) = take (nat (rob_count t) - k) (r_flight (renaming_of t)))"
proof (induction k)
  case 0
  then show ?case by (simp add: renaming_of_def)
next
  case (Suc k)
  let ?u = "(undo_last ^^ k) t"
  have u: "rename_ok ?u" "rob_count ?u = rob_count t - int k" "rob_head ?u = rob_head t" "r_committed (renaming_of ?u) = r_committed (renaming_of t)"
      "r_flight (renaming_of ?u) = take (nat (rob_count t) - k) (r_flight (renaming_of t))"
    using Suc by (simp_all add: Let_def)
  have c: "rob_count ?u > 0" using u(2) Suc.prems(2) by simp
  have l: "length (r_flight (renaming_of t)) = nat (rob_count t)" by (simp add: renaming_of_def)
  have "r_flight (renaming_of ?u) \<noteq> []" using u(5) l Suc.prems(2) by auto
  note a = a_squash_ok [OF _ this]
  have "butlast (take (nat (rob_count t) - k) (r_flight (renaming_of t))) = take (nat (rob_count t) - Suc k) (r_flight (renaming_of t))"
    using l Suc.prems(2) by (simp add: butlast_take)
  then show ?case
    using undo_last_ok [OF u(1) c] u a by (simp add: Let_def rename_ok_def)
qed

lemma squash_count:
  fixes h n d :: nat
  assumes "d < n" and "n \<le> 32"
  shows "((h + n) mod 32 + 32 - (h + d + 1) mod 32) mod 32 = n - (d + 1)"
proof -
  have "h + n = (h + d + 1) + (n - (d + 1))" using assms(1) by simp
  then have "(h + n) mod 32 = ((h + d + 1) mod 32 + (n - (d + 1))) mod 32" by (metis mod_add_left_eq)
  then show ?thesis using dist_slot [of "(h + d + 1) mod 32" 32 "n - (d + 1)"] assms by simp
qed

lemma ooo_flush_ok:
  assumes "rename_ok t" and "i < 32" and "rob_valid (rob t ! i)"
  shows "rename_ok (ooo_flush_after i t)" "r_flight (renaming_of (ooo_flush_after i t)) = take (rob_dist t i + 1) (r_flight (renaming_of t))"
    "r_committed (renaming_of (ooo_flush_after i t)) = r_committed (renaming_of t)"
    "rob_head (ooo_flush_after i t) = rob_head t" "rob_count (ooo_flush_after i t) = int (rob_dist t i) + 1"
proof -
  have r: "rings_ok t" using assms(1) by (simp add: rename_ok_def)
  note f = rob_ring_fields [OF r] and v = valid_dist [OF r assms(2)]
  let ?n = "nat (rob_count t)" and ?d = "rob_dist t i"
  let ?k = "(rob_tail t + 32 - (i + 1) mod 32) mod 32"
  have d: "?d < ?n" "?n \<le> 32" using v(1) assms(3) f by simp_all
  have "(i + 1) mod 32 = (rob_head t + ?d + 1) mod 32" using v(2) by (metis mod_add_left_eq)
  then have k: "?k = ?n - (?d + 1)" using squash_count [OF d] f(5) by simp
  define u where "u = (undo_last ^^ ?k) t"
  have u: "rename_ok u" "rob_count u = int ?d + 1" "rob_head u = rob_head t" "r_committed (renaming_of u) = r_committed (renaming_of t)"
      "r_flight (renaming_of u) = take (?d + 1) (r_flight (renaming_of t))"
  proof -
    have "?n - (?d + 1) \<le> ?n" "rob_count t - int (?n - (?d + 1)) = int ?d + 1" "?n - (?n - (?d + 1)) = ?d + 1" using d f(3) by linarith+
    then show "rename_ok u" "rob_count u = int ?d + 1" "rob_head u = rob_head t" "r_committed (renaming_of u) = r_committed (renaming_of t)"
        "r_flight (renaming_of u) = take (?d + 1) (r_flight (renaming_of t))"
      using undo_many_ok [OF assms(1), of "?n - (?d + 1)"] unfolding u_def k Let_def by metis+
  qed
  have "ren_part (fold (flush_rs i) [0..<16] u) = ren_part u"
    by (rule ren_part_fold) (simp add: flush_rs_def Let_def)
  then have p: "ren_part (ooo_flush_after i t) = ren_part u"
    by (simp add: ooo_flush_after_def u_def Let_def) (simp add: ren_part_def)
  show "rename_ok (ooo_flush_after i t)" using rename_ok_eq [OF p] u(1) by simp
  show "r_flight (renaming_of (ooo_flush_after i t)) = take (?d + 1) (r_flight (renaming_of t))"
    "r_committed (renaming_of (ooo_flush_after i t)) = r_committed (renaming_of t)" using ren_part_eq(2) [OF p] u by simp_all
  show "rob_head (ooo_flush_after i t) = rob_head t" "rob_count (ooo_flush_after i t) = int ?d + 1" using p u by (simp_all add: ren_part_def)
qed

section \<open>Commit\<close>

definition pop_head :: "OOOState \<Rightarrow> OOOState" where
  "pop_head t = (put_rob (rob_head t) ((rob t ! rob_head t)\<lparr>rob_valid := False\<rparr>) t)\<lparr>rob_head := (rob_head t + 1) mod 32, rob_count := rob_count t - 1\<rparr>"

lemma pop_head_ok:
  assumes "rings_ok t" and "rob_count t > 0"
  shows "rings_ok (pop_head t)" "renaming_of (pop_head t) = (renaming_of t)\<lparr>r_flight := tl (r_flight (renaming_of t))\<rparr>"
    "hd (r_flight (renaming_of t)) = slot_of (rob t ! rob_head t)" "r_flight (renaming_of t) \<noteq> []"
proof -
  note f = rob_ring_fields [OF assms(1)]
  obtain n where n: "rob_count t = int n + 1" using assms(2) by (metis add.commute zless_iff_Suc_zadd of_nat_Suc add_0)
  let ?h = "rob_head t" and ?q = "map slot_of (rob t)"
  have w: "window ?q ?h (Suc n) = slot_of (rob t ! ?h) # window ?q ((?h + 1) mod 32) n"
    using window_Cons [of ?h ?q n] f by simp
  have l: "nat (rob_count t) = Suc n" "n < 32" using n f(4) by simp_all
  show "hd (r_flight (renaming_of t)) = slot_of (rob t ! rob_head t)" "r_flight (renaming_of t) \<noteq> []"
    unfolding renaming_of_def l(1) by (simp_all add: w)
  have q: "map slot_of (rob (pop_head t)) = ?q" using f by (simp add: pop_head_def put_rob_def map_update list_update_same_conv slot_of_def)
  show "renaming_of (pop_head t) = (renaming_of t)\<lparr>r_flight := tl (r_flight (renaming_of t))\<rparr>"
    unfolding renaming_of_def q l(1) w using n by (simp add: pop_head_def put_rob_def)
  have "map rob_valid (rob (pop_head t)) ! (((?h + 1) mod 32 + k) mod 32) \<longleftrightarrow> k < n" if "k < 32" for k
  proof -
    have s: "((?h + 1) mod 32 + k) mod 32 = (?h + (k + 1) mod 32) mod 32" by (simp add: mod_add_left_eq mod_Suc_eq mod_add_right_eq)
    have "map rob_valid (rob (pop_head t)) ! ((?h + j) mod 32) \<longleftrightarrow> j \<noteq> 0 \<and> j < Suc n" if "j < 32" for j
      using ring_nth [of "map rob_valid (rob t)" 0 j ?h False] that f l assms(1)
      by (auto simp: pop_head_def put_rob_def map_update rings_ok_def rob_ring_def)
    from this [of "(k + 1) mod 32"] show ?thesis unfolding s using that l(2) by (cases "k = 31") simp_all
  qed
  moreover have "rob_tail t = ((?h + 1) mod 32 + n) mod 32" using f(5) l by (simp add: mod_add_left_eq)
  ultimately show "rings_ok (pop_head t)"
    using assms(1) f n l by (simp add: rings_ok_def rob_ring_def) (simp add: pop_head_def put_rob_def)
qed

lemma commit_ok:
  assumes "rename_ok (ooo m)" and "rob_count (ooo m) > 0" and "ooo m' = ooo (retire (rob (ooo m) ! rob_head (ooo m)) m)"
  shows "rename_ok (ooo (drop_head m'))" "renaming_of (ooo (drop_head m')) = a_commit (renaming_of (ooo m))"
proof -
  let ?t = "ooo m"
  let ?e = "rob ?t ! rob_head ?t"
  have r: "rings_ok ?t" using assms(1) by (simp add: rename_ok_def)
  have w: "writes (slot_of ?e) \<longleftrightarrow> arch_rd ?e \<noteq> -1 \<and> arch_rd ?e \<noteq> 0" by (simp add: writes_def slot_of_def)
  let ?u = "if writes (slot_of ?e) then freelist_push (old_phys ?e) (?t\<lparr>rrat := (rrat ?t)[nat (arch_rd ?e) := rob_phys_rd ?e]\<rparr>) else ?t"
  have q: "rings_ok (?t\<lparr>rrat := x\<rparr>)" "renaming_of (?t\<lparr>rrat := x\<rparr>) = (renaming_of ?t)\<lparr>r_committed := x\<rparr>" for x
    using r by (simp_all add: rings_ok_def renaming_of_def)
  have ru: "rings_ok ?u" using r freelist_push_ok(1) [OF q(1)] free_room [OF assms(1)] by simp
  have rn: "renaming_of ?u = (if writes (slot_of ?e) then (renaming_of ?t)\<lparr>r_committed := (rrat ?t)[nat (arch_rd ?e) := rob_phys_rd ?e],
      r_free := r_free (renaming_of ?t) @ [old_phys ?e]\<rparr> else renaming_of ?t)"
    using freelist_push_ok(2) [OF q(1)] free_room [OF assms(1)] q(2) by simp
  have fu: "rob ?u = rob ?t" "rob_head ?u = rob_head ?t" "rob_count ?u = rob_count ?t" by (simp_all add: freelist_push_def Let_def)
  have p: "ren_part (ooo (drop_head m')) = ren_part (pop_head ?u)"
    using assms(3) w by (simp add: drop_head_def pop_head_def retire_def ren_part_def put_rob_def freelist_push_def set_unready_def Let_def)
  note h = pop_head_ok [OF ru] and h0 = pop_head_ok(3,4) [OF r assms(2)]
  have "renaming_of (pop_head ?u) = a_commit (renaming_of ?t)"
    using h(2) fu(3) assms(2) rn h0 by (simp add: a_commit_def slot_of_def Let_def) (simp add: renaming_of_def)
  then show "renaming_of (ooo (drop_head m')) = a_commit (renaming_of ?t)" using ren_part_eq(2) [OF p] by simp
  then show "rename_ok (ooo (drop_head m'))"
    using ren_part_eq(1) [OF p] h(1) fu(3) assms(1,2) a_commit_ok [OF _ h0(2)] by (simp add: rename_ok_def)
qed

section \<open>Rename\<close>

definition push_rob :: "ROBEntry \<Rightarrow> OOOState \<Rightarrow> OOOState" where
  "push_rob e t = (put_rob (rob_tail t) e t)\<lparr>rob_tail := (rob_tail t + 1) mod 32, rob_count := rob_count t + 1\<rparr>"

lemma push_rob_ok:
  assumes "rings_ok t" and "rob_count t < 32" and "rob_valid e"
  shows "rings_ok (push_rob e t)" "renaming_of (push_rob e t) = (renaming_of t)\<lparr>r_flight := r_flight (renaming_of t) @ [slot_of e]\<rparr>"
proof -
  note f = rob_ring_fields [OF assms(1)]
  let ?n = "nat (rob_count t)" and ?h = "rob_head t"
  have n: "nat (rob_count t + 1) = Suc ?n" "?n < 32" using f(3) assms(2) by simp_all
  have "map rob_valid (rob (push_rob e t)) ! ((?h + k) mod 32) \<longleftrightarrow> k < Suc ?n" if "k < 32" for k
    using ring_nth [of "map rob_valid (rob t)" ?n k ?h True] that f n assms(1,3)
    by (auto simp: push_rob_def put_rob_def map_update rings_ok_def rob_ring_def)
  moreover have "(rob_tail t + 1) mod 32 = (?h + Suc ?n) mod 32" using f(5) by (simp add: mod_Suc_eq)
  ultimately show "rings_ok (push_rob e t)"
    using assms(1) f n assms(2) by (simp add: rings_ok_def rob_ring_def) (simp add: push_rob_def put_rob_def)
  have "window ((map slot_of (rob t))[(?h + ?n) mod 32 := slot_of e]) ?h (Suc ?n) = window (map slot_of (rob t)) ?h ?n @ [slot_of e]"
    using window_push [of ?n "map slot_of (rob t)" ?h "slot_of e"] f n by simp
  then show "renaming_of (push_rob e t) = (renaming_of t)\<lparr>r_flight := r_flight (renaming_of t) @ [slot_of e]\<rparr>"
    using n f(5) by (simp add: renaming_of_def push_rob_def put_rob_def map_update)
qed

lemma rename_one_ok:
  assumes "rename_ok t" and "rob_count t < 32" and "reg_field (ir_rd ir)" and "ir_rd ir \<noteq> -1 \<and> ir_rd ir \<noteq> 0 \<Longrightarrow> fl_count (freelist t) \<noteq> 0"
  shows "rename_ok (rename_one ir t)" "renaming_of (rename_one ir t) = a_rename (ir_rd ir) (renaming_of t)"
proof -
  have r: "rings_ok t" using assms(1) by (simp add: rename_ok_def)
  let ?rd = "ir_rd ir"
  obtain p old u where u: "rename_rd ?rd t = (p, old, u)" by (cases "rename_rd ?rd t")
  define e where "e = \<lparr>rob_ir = ir, arch_rd = ?rd, rob_phys_rd = p, old_phys = old, store_data = 0, rob_ready = False, rob_valid = True\<rparr>"
  have pt: "ren_part (rename_one ir t) = ren_part (push_rob e u)"
    using u by (auto simp: rename_one_def rename_rd_def freelist_pop_def e_def push_rob_def Let_def case_prod_beta)
      (auto simp: ren_part_def put_rob_def put_rs_def rs_mask_update_def set_ready_def clear_ready_def Let_def)?
  have c: "rob_count u < 32" using u assms(2) by (auto simp: rename_rd_def freelist_pop_def Let_def split: if_splits)
  have pu: "rings_ok u \<Longrightarrow> rings_ok (push_rob e u) \<and> renaming_of (push_rob e u) = (renaming_of u)\<lparr>r_flight := r_flight (renaming_of u) @ [slot_of e]\<rparr>"
    using push_rob_ok [OF _ c, of e] by (simp add: e_def)
  have ru: "rings_ok u \<and> renaming_of (push_rob e u) = a_rename ?rd (renaming_of t)"
  proof (cases "?rd \<noteq> -1 \<and> ?rd \<noteq> 0")
    case True
    have c: "fl_count (freelist t) > 0" using assms(4) [OF True] r by (auto simp: rings_ok_def free_ring_def)
    note o = freelist_pop_ok [OF r c]
    let ?v = "snd (freelist_pop t)"
    have v: "rat ?v = rat t" by (simp add: freelist_pop_def Let_def)
    have eu: "p = fst (freelist_pop t)" "old = rat t ! nat ?rd" "u = ?v\<lparr>rat := (rat t)[nat ?rd := p], phys := (phys ?v)[nat p := \<lparr>p_value = 0, p_ready = False\<rparr>]\<rparr>"
      using u True v by (auto simp: rename_rd_def case_prod_beta Let_def)
    have "rings_ok u" "renaming_of u = (renaming_of ?v)\<lparr>r_map := (rat t)[nat ?rd := p]\<rparr>"
      using o(1) eu(3) by (simp_all add: rings_ok_def renaming_of_def)
    then show ?thesis using pu o eu True by (simp add: a_rename_def slot_of_def e_def Let_def) (simp add: renaming_of_def)
  next
    case False
    then have "u = t" "p = (if ?rd = 0 then 0 else -1)" "old = p" using u by (auto simp: rename_rd_def)
    then show ?thesis using pu r False by (auto simp: a_rename_def slot_of_def e_def Let_def)
  qed
  show "renaming_of (rename_one ir t) = a_rename ?rd (renaming_of t)" using ren_part_eq(2) [OF pt] ru by simp
  moreover have "renaming_ok (a_rename ?rd (renaming_of t))"
  proof (rule a_rename_ok)
    show "renaming_ok (renaming_of t)" using assms(1) by (simp add: rename_ok_def)
    show "?rd = -1 \<or> 0 \<le> ?rd \<and> ?rd < 32" using assms(3) by (simp add: reg_field_def)
    assume "?rd \<noteq> -1 \<and> ?rd \<noteq> 0"
    then show "r_free (renaming_of t) \<noteq> []" using assms(4) r freelist_pop_ok(4) [OF r] by (force simp: rings_ok_def free_ring_def)
  qed
  ultimately show "rename_ok (rename_one ir t)" using ren_part_eq(1) [OF pt] ru pu by (simp add: rename_ok_def)
qed

end
