(* ===== verification/Ooo_Masks.thy ===== *)
theory Ooo_Masks
  imports Ooo_Rename
begin

text \<open>
  The bit masks over the reservation stations (\<^verbatim>\<open>rs_free_mask\<close>, \<^verbatim>\<open>rs_ready_mask\<close>): the loops over set bits visit them in
  order, and the masks always say what a scan of the stations would.
\<close>

section \<open>Loops over set bits\<close>

lemma ctz_lowest:
  assumes "w \<noteq> 0"
  shows "ctz w < 32" "bit w (ctz w)" "i < ctz w \<Longrightarrow> \<not> bit w i"
proof -
  obtain j where j: "j < 32" "bit w j"
    using assms bit_word_eqI [of w 0] bit_imp_le_length [of w] by auto
  let ?P = "\<lambda>i. \<not> bit w i"
  have "\<not> (\<forall>i\<in>set [0..<32]. ?P i)" using j by auto
  then have l: "length (takeWhile ?P [0..<32]) < length [0..<32::nat]" by (metis length_takeWhile_le nat_less_le takeWhile_eq_all_conv takeWhile_eq_take take_all_iff order_refl)
  then show c: "ctz w < 32" by (simp add: ctz_def)
  show "bit w (ctz w)" using nth_length_takeWhile [OF l] l by (simp add: ctz_def)
  show "\<not> bit w i" if "i < ctz w"
  proof -
    have "takeWhile ?P [0..<32] ! i \<in> set (takeWhile ?P [0..<32])" using that by (simp add: ctz_def)
    moreover have "takeWhile ?P [0..<32] ! i = i" using that c by (simp add: ctz_def takeWhile_nth)
    ultimately show ?thesis using set_takeWhileD by metis
  qed
qed

lemma bit_clear_lowest:
  fixes w :: u32
  assumes "w \<noteq> 0"
  shows "bit (w AND (w - 1)) i \<longleftrightarrow> bit w i \<and> i \<noteq> ctz w"
proof -
  note c = ctz_lowest [OF assms]
  let ?k = "ctz w" and ?n = "unat w"
  have b: "bit ?n j \<longleftrightarrow> bit w j" for j by (simp add: bit_unsigned_iff)
  have t: "take_bit (Suc ?k) ?n = 2 ^ ?k"
  proof (rule bit_eqI)
    fix j
    show "bit (take_bit (Suc ?k) ?n) j \<longleftrightarrow> bit (2 ^ ?k :: nat) j"
      using c(2,3) by (auto simp: bit_take_bit_iff bit_exp_iff b less_Suc_eq)
  qed
  have n: "?n = drop_bit (Suc ?k) ?n * 2 ^ Suc ?k + 2 ^ ?k"
    using bits_ident [of "Suc ?k" ?n] t by (simp add: push_bit_eq_mult)
  let ?a = "drop_bit (Suc ?k) ?n"
  have m: "unat (w - 1) = ?a * 2 ^ Suc ?k + (2 ^ ?k - 1)"
    using n assms by (simp add: unat_minus_one)
  have m1: "unat (w - 1) = push_bit (Suc ?k) ?a + mask ?k" using m by (simp add: push_bit_eq_mult mask_eq_exp_minus_1)
  have "bit (unat (w - 1)) i \<longleftrightarrow> (if i < ?k then True else if i = ?k then False else bit ?n i)"
  proof -
    have "unat (w - 1) = push_bit (Suc ?k) ?a OR mask ?k"
      unfolding m1 by (rule disjunctive_add) (auto simp: bit_push_bit_iff bit_mask_iff)
    then show ?thesis by (auto simp: bit_or_iff bit_push_bit_iff bit_mask_iff bit_drop_bit_eq simp del: push_bit_Suc)
  qed
  then have "bit (w - 1) i \<longleftrightarrow> i < ?k \<or> i \<noteq> ?k \<and> bit w i" by (auto simp: b bit_unsigned_iff)
  then show ?thesis using c(3) [of i] by (auto simp: bit_and_iff)
qed

text \<open>The bits in rising order.\<close>

lemma mask_bits_eq: "mask_bits w = filter (bit w) [0..<32]"
proof (induction w rule: mask_bits.induct)
  case (1 w)
  show ?case
  proof (cases "w = 0")
    case True
    then show ?thesis by (simp add: mask_bits.simps [of 0])
  next
    case False
    note c = ctz_lowest [OF False]
    let ?k = "ctz w"
    have s: "[0..<32] = [0..<?k] @ ?k # [Suc ?k..<32]"
      using c(1) upt_add_eq_append [of 0 ?k "32 - ?k"] by (simp add: upt_conv_Cons)
    have f: "filter (bit w) [0..<?k] = []" "filter (bit (w AND (w - 1))) [0..<?k] = []"
      using c(3) bit_clear_lowest [OF False] by (auto simp: filter_empty_conv)
    have "filter (bit (w AND (w - 1))) [Suc ?k..<32] = filter (bit w) [Suc ?k..<32]"
      by (rule filter_cong) (auto simp: bit_clear_lowest [OF False])
    then have "filter (bit w) [0..<32] = ?k # filter (bit (w AND (w - 1))) [0..<32]"
      unfolding s using f c(2) bit_clear_lowest [OF False, of ?k] by simp
    then show ?thesis using 1 [OF False] False by (simp add: mask_bits.simps [of w])
  qed
qed

lemma set_mask_bits: "set (mask_bits w) = {i. bit w i}"
  using bit_imp_le_length [of w] by (auto simp: mask_bits_eq)

section \<open>What the masks say\<close>

definition rs_issuable :: "nat \<Rightarrow> RSEntry \<Rightarrow> bool" where
  "rs_issuable eu e \<longleftrightarrow> rs_valid e \<and> src1_ready e \<and> src2_ready e \<and> eu_type e = eu"

definition masks_ok :: "OOOState \<Rightarrow> bool" where
  "masks_ok t \<longleftrightarrow> length (rs_tab t) = 16 \<and> length (rs_ready_mask t) = 3 \<and> (\<forall>e\<in>set (rs_tab t). eu_type e < 3) \<and>
     (\<forall>i. bit (rs_free_mask t) i \<longleftrightarrow> i < 16 \<and> \<not> rs_valid (rs_tab t ! i)) \<and>
     (\<forall>eu<3. \<forall>i. bit (rs_ready_mask t ! eu) i \<longleftrightarrow> i < 16 \<and> rs_issuable eu (rs_tab t ! i))"

definition mask_part :: "OOOState \<Rightarrow> RSEntry list \<times> u32 list \<times> u32" where
  "mask_part t = (rs_tab t, rs_ready_mask t, rs_free_mask t)"

lemma masks_ok_eq: "mask_part t' = mask_part t \<Longrightarrow> masks_ok t' = masks_ok t"
  by (simp add: mask_part_def masks_ok_def)

text \<open>A step that rewrites one station and its bits.\<close>

lemma masks_step:
  assumes "masks_ok t" and "i < 16" and "rs_tab t' = (rs_tab t)[i := e]" and "eu_type e < 3" and "length (rs_ready_mask t') = 3"
    and "\<And>j. bit (rs_free_mask t') j \<longleftrightarrow> (if j = i then \<not> rs_valid e else bit (rs_free_mask t) j)"
    and "\<And>eu j. eu < 3 \<Longrightarrow> bit (rs_ready_mask t' ! eu) j \<longleftrightarrow> (if j = i then rs_issuable eu e else bit (rs_ready_mask t ! eu) j)"
  shows "masks_ok t'"
  using assms set_update_subset_insert [of "rs_tab t" i e] by (auto simp: masks_ok_def nth_list_update)

lemma bit_set_unset:
  fixes w :: u32
  assumes "i < 16"
  shows "bit (set_bit i w) j \<longleftrightarrow> j = i \<or> bit w j" "bit (unset_bit i w) j \<longleftrightarrow> j \<noteq> i \<and> bit w j"
  using assms by (auto simp: bit_set_bit_iff bit_unset_bit_iff possible_bit_def)

lemma masks_release:
  assumes "masks_ok t" and "i < 16"
  shows "masks_ok (put_rs i ((rs_tab t ! i)\<lparr>rs_valid := False\<rparr>) (rs_mask_clear i (eu_type (rs_tab t ! i)) t))"
proof (rule masks_step [OF assms])
  let ?e = "rs_tab t ! i"
  have e: "eu_type ?e < 3" "length (rs_ready_mask t) = 3" "?e \<in> set (rs_tab t)" using assms by (auto simp: masks_ok_def)
  then show "eu_type (?e\<lparr>rs_valid := False\<rparr>) < 3"
    "length (rs_ready_mask (put_rs i (?e\<lparr>rs_valid := False\<rparr>) (rs_mask_clear i (eu_type ?e) t))) = 3"
    "rs_tab (put_rs i (?e\<lparr>rs_valid := False\<rparr>) (rs_mask_clear i (eu_type ?e) t)) = (rs_tab t)[i := ?e\<lparr>rs_valid := False\<rparr>]"
    by (simp_all add: put_rs_def rs_mask_clear_def clear_ready_def)
  show "bit (rs_free_mask (put_rs i (?e\<lparr>rs_valid := False\<rparr>) (rs_mask_clear i (eu_type ?e) t))) j \<longleftrightarrow>
      (if j = i then \<not> rs_valid (?e\<lparr>rs_valid := False\<rparr>) else bit (rs_free_mask t) j)" for j
    using bit_set_unset(1) [OF assms(2)] by (simp add: put_rs_def rs_mask_clear_def clear_ready_def)
  fix eu j :: nat
  assume eu: "eu < 3"
  have "\<not> bit (rs_ready_mask t ! eu) i" if "eu \<noteq> eu_type ?e" using assms eu that by (simp add: masks_ok_def rs_issuable_def)
  then show "bit (rs_ready_mask (put_rs i (?e\<lparr>rs_valid := False\<rparr>) (rs_mask_clear i (eu_type ?e) t)) ! eu) j \<longleftrightarrow>
      (if j = i then rs_issuable eu (?e\<lparr>rs_valid := False\<rparr>) else bit (rs_ready_mask t ! eu) j)"
    using bit_set_unset(2) [OF assms(2)] eu e by (auto simp: put_rs_def rs_mask_clear_def clear_ready_def rs_issuable_def nth_list_update)
qed

lemma cdb_step_masks:
  assumes "masks_ok t" and "i < 16" and "rs_valid (rs_tab t ! i)"
  shows "masks_ok (cdb_step p i t)" "rs_free_mask (cdb_step p i t) = rs_free_mask t" "map rs_valid (rs_tab (cdb_step p i t)) = map rs_valid (rs_tab t)"
proof -
  let ?e = "rs_tab t ! i"
  let ?c1 = "\<not> src1_ready ?e \<and> src1_ptag ?e = p" and ?c2 = "\<not> src2_ready ?e \<and> src2_ptag ?e = p" and ?v = "p_value (phys t ! nat p)"
  define e1 where "e1 = (if ?c1 then ?e\<lparr>rs_src1_val := ?v, src1_ready := True\<rparr> else ?e)"
  define e2 where "e2 = (if ?c2 then e1\<lparr>rs_src2_val := ?v, src2_ready := True\<rparr> else e1)"
  have c: "cdb_step p i t = (if (?c1 \<or> ?c2) \<and> src1_ready e2 \<and> src2_ready e2 then set_ready (eu_type e2) i (t\<lparr>rs_tab := (rs_tab t)[i := e2]\<rparr>)
      else t\<lparr>rs_tab := (rs_tab t)[i := e2]\<rparr>)"
    by (simp add: cdb_step_def e1_def e2_def Let_def)
  have e: "eu_type ?e < 3" "length (rs_ready_mask t) = 3" using assms by (auto simp: masks_ok_def)
  have f: "rs_valid e2 = rs_valid ?e" "eu_type e2 = eu_type ?e" by (simp_all add: e1_def e2_def)
  have r: "(?c1 \<or> ?c2) \<or> e2 = ?e" "(?c1 \<or> ?c2) \<longrightarrow> \<not> (src1_ready ?e \<and> src2_ready ?e)" by (auto simp: e1_def e2_def)
  show "rs_free_mask (cdb_step p i t) = rs_free_mask t" by (simp add: c set_ready_def)
  have "rs_tab (cdb_step p i t) = (rs_tab t)[i := e2]" by (simp add: c set_ready_def)
  then show "map rs_valid (rs_tab (cdb_step p i t)) = map rs_valid (rs_tab t)"
    using f(1) assms(1,2) by (simp add: map_update list_update_same_conv masks_ok_def)
  show "masks_ok (cdb_step p i t)"
  proof (rule masks_step [OF assms(1,2)])
    show "rs_tab (cdb_step p i t) = (rs_tab t)[i := e2]" "eu_type e2 < 3" "length (rs_ready_mask (cdb_step p i t)) = 3"
      using e f by (simp_all add: c set_ready_def)
    show "bit (rs_free_mask (cdb_step p i t)) j \<longleftrightarrow> (if j = i then \<not> rs_valid e2 else bit (rs_free_mask t) j)" for j
      using f assms by (simp add: c set_ready_def masks_ok_def)
    fix eu j :: nat
    assume eu: "eu < 3"
    have "bit (rs_ready_mask t ! eu) i \<longleftrightarrow> rs_issuable eu ?e" using assms eu by (simp add: masks_ok_def)
    then show "bit (rs_ready_mask (cdb_step p i t) ! eu) j \<longleftrightarrow> (if j = i then rs_issuable eu e2 else bit (rs_ready_mask t ! eu) j)"
      using r f assms(3) e eu bit_set_unset(1) [OF assms(2)] by (auto simp: c set_ready_def rs_issuable_def nth_list_update)
  qed
qed

lemma cdb_masks:
  assumes "masks_ok t"
  shows "masks_ok (cdb_broadcast p t)"
proof -
  have *: "masks_ok t \<Longrightarrow> \<forall>i\<in>set is. i < 16 \<and> rs_valid (rs_tab t ! i) \<Longrightarrow> masks_ok (fold (cdb_step p) is t)" for "is" t
  proof (induction "is" arbitrary: t)
    case (Cons i "is")
    then have i: "i < 16" "rs_valid (rs_tab t ! i)" by simp_all
    note s = cdb_step_masks [OF Cons.prems(1) i, of p]
    have "rs_valid (rs_tab (cdb_step p i t) ! j)" if "j \<in> set is" for j
      using arg_cong [OF s(3), of "\<lambda>xs. xs ! j"] Cons.prems that s(1) by (auto simp: masks_ok_def)
    then show ?case using Cons.IH [OF s(1)] Cons.prems(2) by simp
  qed simp
  have "bit (NOT (rs_free_mask t) AND 0xffff) i \<Longrightarrow> i < 16 \<and> \<not> bit (rs_free_mask t) i" for i
  proof -
    have m: "(0xffff :: u32) = mask 16" by (simp add: mask_eq_exp_minus_1)
    show "bit (NOT (rs_free_mask t) AND 0xffff) i \<Longrightarrow> i < 16 \<and> \<not> bit (rs_free_mask t) i"
      unfolding m by (auto simp: bit_and_iff bit_not_iff bit_mask_iff)
  qed
  then show ?thesis unfolding cdb_broadcast_def using assms by (intro *) (auto simp: set_mask_bits masks_ok_def)
qed

lemma mask_part_simps [simp]:
  "mask_part (set_phys p v t) = mask_part t" "mask_part (set_unready p t) = mask_part t" "mask_part (put_rob i e t) = mask_part t"
  "mask_part (put_int s l t) = mask_part t" "mask_part (put_mul s l t) = mask_part t" "mask_part (put_lsu s l t) = mask_part t"
  "mask_part (free_lsu s t) = mask_part t" "mask_part (mshr_tick t) = mask_part t" "mask_part (release_mshr s mi t) = mask_part t"
  "mask_part (sbuf_push x t) = mask_part t" "mask_part (compact t) = mask_part t" "mask_part (ooo_stage_id t) = mask_part t"
  "mask_part (mark_ready i t) = mask_part t" "mask_part (set_rob_ir i ir t) = mask_part t" "mask_part (freelist_push r t) = mask_part t"
  "mask_part (undo_last t) = mask_part t" "mask_part (snd (mshr_find_or_alloc a n t)) = mask_part t"
  by (simp_all add: mask_part_def set_phys_def set_unready_def put_rob_def put_int_def put_mul_def put_lsu_def free_lsu_def mshr_tick_def
      release_mshr_def sbuf_push_def compact_def ooo_stage_id_def mark_ready_def set_rob_ir_def freelist_push_def undo_last_def
      mshr_find_or_alloc_def Let_def split: option.split)

lemma write_result_masks: "masks_ok t \<Longrightarrow> masks_ok (write_result p v t)"
  using masks_ok_eq [of "set_phys p v t" t] by (auto simp: write_result_def cdb_masks Let_def)

lemma complete_masks: "masks_ok t \<Longrightarrow> masks_ok (complete i p ir t)"
  using write_result_masks [of "set_rob_ir i ir t" p "result ir"] masks_ok_eq [of "set_rob_ir i ir t" t]
    masks_ok_eq [of "complete i p ir t" "write_result p (result ir) (set_rob_ir i ir t)"] by (simp add: complete_def)

lemma undo_mask_part [simp]: "mask_part ((undo_last ^^ n) t) = mask_part t"
  by (induction n) simp_all

lemma flush_masks:
  assumes "masks_ok t"
  shows "masks_ok (ooo_flush_after i t)"
proof -
  have *: "masks_ok u \<Longrightarrow> \<forall>j\<in>set js. j < 16 \<Longrightarrow> masks_ok (fold (flush_rs i) js u)" for js u
    by (induction js arbitrary: u) (simp_all add: flush_rs_def masks_release Let_def)
  define u where "u = (undo_last ^^ ((rob_tail t + 32 - (i + 1) mod 32) mod 32)) t"
  have "masks_ok (fold (flush_rs i) [0..<16] u)"
    by (rule *) (use masks_ok_eq [of u t] assms in \<open>simp_all add: u_def\<close>)
  moreover have "mask_part (ooo_flush_after i t) = mask_part (fold (flush_rs i) [0..<16] u)"
    by (simp add: ooo_flush_after_def u_def Let_def) (simp add: mask_part_def)
  ultimately show ?thesis using masks_ok_eq by blast
qed

section \<open>Issue and rename\<close>

lemma pick_in: "fold (pick_older t b) xs best = Some i \<Longrightarrow> i \<in> set xs \<or> best = Some i"
proof (induction xs arbitrary: best)
  case (Cons x xs)
  from Cons.IH [of "pick_older t b x best"] Cons.prems show ?case by (auto simp: pick_older_def split: if_splits option.splits)
qed simp

lemma select_issuable:
  assumes "masks_ok t" and "eu < 3" and "select_rs b eu t = Some i"
  shows "i < 16" "rs_issuable eu (rs_tab t ! i)"
proof -
  have "bit (rs_ready_mask t ! eu) i" using pick_in assms(3) by (fastforce simp: select_rs_def set_mask_bits)
  then show "i < 16" "rs_issuable eu (rs_tab t ! i)" using assms(1,2) by (simp_all add: masks_ok_def)
qed

lemma issue_unit_masks:
  assumes "masks_ok t" and "eu < 3" and "\<And>l t. mask_part (put l t) = mask_part t"
  shows "masks_ok (issue_unit b eu l put t)"
proof (cases "select_rs b eu t")
  case (Some i)
  then show ?thesis
    using assms masks_release [OF assms(1) select_issuable(1) [OF assms(1,2) Some]]
      masks_ok_eq [OF assms(3), of _ "put_rs i ((rs_tab t ! i)\<lparr>rs_valid := False\<rparr>) (rs_mask_clear i (eu_type (rs_tab t ! i)) t)"]
    by (simp add: issue_unit_def latch_from_rs_def Let_def)
qed (use assms(1) in \<open>simp add: issue_unit_def\<close>)

lemma issue_masks: "masks_ok t \<Longrightarrow> masks_ok (ooo_stage_is t)"
  by (simp add: ooo_stage_is_def Let_def upt_rec issue_unit_masks numeral_2_eq_2)

lemma free_bits: "masks_ok t \<Longrightarrow> length (mask_bits (rs_free_mask t)) \<le> 16"
proof -
  assume "masks_ok t"
  then have "filter (bit (rs_free_mask t)) [16..<32] = []" by (auto simp: filter_empty_conv masks_ok_def)
  moreover have "[0..<32] = [0..<16] @ [16..<32 :: nat]" by (simp add: upt_add_eq_append [of 0 16 16, simplified])
  ultimately have "mask_bits (rs_free_mask t) = filter (bit (rs_free_mask t)) [0..<16]" by (simp add: mask_bits_eq)
  then show ?thesis using length_filter_le [of "bit (rs_free_mask t)" "[0..<16]"] by simp
qed

lemma take_bit_count:
  fixes w :: u32
  assumes "bit w j"
  shows "length (mask_bits w) = Suc (length (mask_bits (unset_bit j w)))"
proof -
  have j: "j < 32" using bit_imp_le_length [OF assms] by simp
  have l: "length (mask_bits v) = card {i. bit v i}" for v :: u32
    using distinct_card [of "mask_bits v"] by (simp add: set_mask_bits) (simp add: mask_bits_eq)
  have "{i. bit w i} = insert j {i. bit (unset_bit j w) i}" using assms by (auto simp: bit_unset_bit_iff)
  moreover have "finite {i. bit (unset_bit j w) i}" using finite_subset [of _ "{..<32}"] bit_imp_le_length [of "unset_bit j w"] by auto
  ultimately show ?thesis by (simp add: l bit_unset_bit_iff)
qed

lemma rename_one_eq:
  fixes ir :: IR_Inst and t :: OOOState
  defines "j \<equiv> ctz (rs_free_mask t)"
  obtains v p old w e where "rename_one ir t = rs_mask_update j (put_rs j e ((put_rob (rob_tail t) \<lparr>rob_ir = ir, arch_rd = ir_rd ir, rob_phys_rd = p, old_phys = old,
        store_data = 0, rob_ready = False, rob_valid = True\<rparr> w)\<lparr>rs_free_mask := unset_bit j (rs_free_mask t)\<rparr>))"
    and "rename_rd (ir_rd ir) v = (p, old, w)" and "rs_valid e" and "rs_phys_rd e = p" and "rs_rob_idx e = rob_tail t"
    and "v = t\<lparr>rob_tail := (rob_tail t + 1) mod 32, rob_count := rob_count t + 1, unready_store_count := unready_store_count t + (if is_store_op (ir_raw ir) then 1 else 0)\<rparr>"
    and "eu_type e = eu_of (ir_raw ir)" and "operand t (ir_rs1 ir) (src1_val ir) = (src1_ready e, rs_src1_val e, src1_ptag e)"
    and "operand t (ir_rs2 ir) (src2_val ir) = (src2_ready e, rs_src2_val e, src2_ptag e)"
proof -
  define v where "v = t\<lparr>rob_tail := (rob_tail t + 1) mod 32, rob_count := rob_count t + 1, unready_store_count := unready_store_count t + (if is_store_op (ir_raw ir) then 1 else 0)\<rparr>"
  obtain p old w where w: "rename_rd (ir_rd ir) v = (p, old, w)" by (cases "rename_rd (ir_rd ir) v")
  have f: "rs_tab w = rs_tab t" "rs_free_mask w = rs_free_mask t"
    using w by (auto simp: v_def rename_rd_def freelist_pop_def Let_def split: if_splits)
  obtain r1 v1 p1 where o1: "operand v (ir_rs1 ir) (src1_val ir) = (r1, v1, p1)" by (cases "operand v (ir_rs1 ir) (src1_val ir)")
  obtain r2 v2 p2 where o2: "operand v (ir_rs2 ir) (src2_val ir) = (r2, v2, p2)" by (cases "operand v (ir_rs2 ir) (src2_val ir)")
  let ?e = "\<lparr>rs_valid = True, rs_phys_rd = p, rs_rob_idx = rob_tail t, src1_ready = r1, rs_src1_val = v1, src1_ptag = p1,
    src2_ready = r2, rs_src2_val = v2, src2_ptag = p2, rs_cycles_rem = rs_cycles_rem (rs_tab t ! j), eu_type = eu_of (ir_raw ir)\<rparr>"
  have v: "(let t' = t\<lparr>rob_tail := (rob_tail t + 1) mod 32, rob_count := rob_count t + 1\<rparr> in
      if is_store_op (ir_raw ir) then t'\<lparr>unready_store_count := unready_store_count t' + 1\<rparr> else t') = v" by (simp add: v_def)
  have "rename_one ir t = rs_mask_update j (put_rs j ?e ((put_rob (rob_tail t) \<lparr>rob_ir = ir, arch_rd = ir_rd ir, rob_phys_rd = p, old_phys = old, store_data = 0,
      rob_ready = False, rob_valid = True\<rparr> w)\<lparr>rs_free_mask := unset_bit j (rs_free_mask t)\<rparr>))"
    using v w o1 o2 f unfolding rename_one_def Let_def by (simp add: put_rob_def j_def)
  moreover have "operand v r x = operand t r x" for r x by (simp add: operand_def v_def)
  note o1 [unfolded this] o2 [unfolded this]
  ultimately show ?thesis using that [of ?e p old w v] w v_def by simp
qed

lemma rename_one_station:
  assumes "ctz (rs_free_mask t) < 16" and "length (rs_tab t) = 16"
  shows "\<exists>e. rs_tab (rename_one ir t) = (rs_tab t)[ctz (rs_free_mask t) := e] \<and> rs_valid e \<and> eu_type e = eu_of (ir_raw ir) \<and>
    rs_free_mask (rename_one ir t) = unset_bit (ctz (rs_free_mask t)) (rs_free_mask t) \<and>
    rs_ready_mask (rename_one ir t) = (let eu = eu_type e in (rs_ready_mask t)[eu :=
      (if src1_ready e \<and> src2_ready e then set_bit else unset_bit) (ctz (rs_free_mask t)) (rs_ready_mask t ! eu)])"
proof (rule rename_one_eq [of ir t])
  let ?j = "ctz (rs_free_mask t)"
  fix v p old w e
  assume o: "rename_one ir t = rs_mask_update ?j (put_rs ?j e ((put_rob (rob_tail t) \<lparr>rob_ir = ir, arch_rd = ir_rd ir, rob_phys_rd = p, old_phys = old,
        store_data = 0, rob_ready = False, rob_valid = True\<rparr> w)\<lparr>rs_free_mask := unset_bit ?j (rs_free_mask t)\<rparr>))"
    and w: "rename_rd (ir_rd ir) v = (p, old, w)" and e: "rs_valid e" "eu_type e = eu_of (ir_raw ir)"
    and v: "v = t\<lparr>rob_tail := (rob_tail t + 1) mod 32, rob_count := rob_count t + 1, unready_store_count := unready_store_count t + (if is_store_op (ir_raw ir) then 1 else 0)\<rparr>"
  have "rs_tab w = rs_tab t" "rs_free_mask w = rs_free_mask t" "rs_ready_mask w = rs_ready_mask t"
    using w v by (auto simp: rename_rd_def freelist_pop_def Let_def split: if_splits)
  then show ?thesis
    using assms e by (intro exI [of _ e]) (auto simp: o rs_mask_update_def put_rs_def put_rob_def set_ready_def clear_ready_def Let_def)
qed

lemma rename_one_masks:
  assumes "masks_ok t" and "rs_free_mask t \<noteq> 0"
  shows "masks_ok (rename_one ir t)" "Suc (length (mask_bits (rs_free_mask (rename_one ir t)))) = length (mask_bits (rs_free_mask t))"
proof -
  let ?j = "ctz (rs_free_mask t)"
  note c = ctz_lowest [OF assms(2)]
  have j: "?j < 16" "\<not> rs_valid (rs_tab t ! ?j)" using c(2) assms(1) by (simp_all add: masks_ok_def)
  obtain e where e: "rs_tab (rename_one ir t) = (rs_tab t)[?j := e]" "rs_valid e" "eu_type e = eu_of (ir_raw ir)"
      "rs_free_mask (rename_one ir t) = unset_bit ?j (rs_free_mask t)"
      "rs_ready_mask (rename_one ir t) = (let eu = eu_type e in (rs_ready_mask t)[eu := (if src1_ready e \<and> src2_ready e then set_bit else unset_bit) ?j (rs_ready_mask t ! eu)])"
    using rename_one_station [OF j(1), of ir] assms(1) by (auto simp: masks_ok_def)
  show "Suc (length (mask_bits (rs_free_mask (rename_one ir t)))) = length (mask_bits (rs_free_mask t))" using take_bit_count [OF c(2)] e(4) by simp
  have eu: "eu_type e < 3" using e(3) by (simp add: eu_of_def Let_def)
  have l: "length (rs_ready_mask t) = 3" using assms(1) by (simp add: masks_ok_def)
  show "masks_ok (rename_one ir t)"
  proof (rule masks_step [OF assms(1) j(1) e(1) eu])
    show "length (rs_ready_mask (rename_one ir t)) = 3" using e(5) l by (simp add: Let_def)
    show "bit (rs_free_mask (rename_one ir t)) i \<longleftrightarrow> (if i = ?j then \<not> rs_valid e else bit (rs_free_mask t) i)" for i
      using e bit_set_unset(2) [OF j(1)] by simp
    fix u i :: nat
    assume u: "u < 3"
    have "\<not> bit (rs_ready_mask t ! u) ?j" using assms(1) j u by (simp add: masks_ok_def rs_issuable_def)
    then show "bit (rs_ready_mask (rename_one ir t) ! u) i \<longleftrightarrow> (if i = ?j then rs_issuable u e else bit (rs_ready_mask t ! u) i)"
      using e(2,5) eu u l bit_set_unset [OF j(1)] by (auto simp: Let_def rs_issuable_def nth_list_update)
  qed
qed

end
