(* ===== verification/Ooo_Tokens.thy ===== *)
theory Ooo_Tokens
  imports Ooo_Masks
begin

text \<open>
  The instructions in flight: every entry of the re-order buffer that is not ready is waited for in exactly one place, a
  reservation station or the latch of a unit, which names its slot and its physical register. With the tables of renaming and
  the masks this is the invariant of the engine; the committed registers are those of the committed map.
\<close>

section \<open>The invariant\<close>

definition latch_token :: "OOOLatch \<Rightarrow> nat \<times> int" where
  "latch_token l = (l_rob_idx l, l_phys_rd l)"

definition live_lsu :: "OOOLatch \<Rightarrow> bool" where
  "live_lsu l \<longleftrightarrow> l_valid l \<and> \<not> l_flushed l"

definition rs_token :: "RSEntry \<Rightarrow> nat \<times> int" where
  "rs_token e = (rs_rob_idx e, rs_phys_rd e)"

definition rs_tokens :: "OOOState \<Rightarrow> (nat \<times> int) multiset" where
  "rs_tokens t = mset (map rs_token (filter rs_valid (rs_tab t)))"

definition unit_tokens :: "OOOState \<Rightarrow> (nat \<times> int) multiset" where
  "unit_tokens t = mset (map latch_token (filter l_valid (latch_int t))) + mset (map latch_token (filter l_valid (latch_mul t))) +
     mset (map latch_token (filter live_lsu (latch_lsu t)))"

definition tokens :: "OOOState \<Rightarrow> (nat \<times> int) multiset" where
  "tokens t = rs_tokens t + unit_tokens t"

definition pending :: "ROBEntry \<Rightarrow> bool" where
  "pending e \<longleftrightarrow> rob_valid e \<and> \<not> rob_ready e"

definition waiting :: "OOOState \<Rightarrow> (nat \<times> int) multiset" where
  "waiting t = mset (map (\<lambda>i. (i, rob_phys_rd (rob t ! i))) (filter (\<lambda>i. pending (rob t ! i)) [0..<32]))"

definition shape_ok :: "OOOState \<Rightarrow> bool" where
  "shape_ok t \<longleftrightarrow> length (phys t) = 64 \<and> length (latch_int t) = 2 \<and> length (latch_mul t) = 1 \<and> length (latch_lsu t) = 2 \<and>
     length (latch_if_id t) = 2 \<and> length (latch_id_rn t) = 2 \<and>
     (\<forall>r\<in>set (latch_if_id t). reg_field (ir_rd (pr_ir r))) \<and> (\<forall>r\<in>set (latch_id_rn t). reg_field (ir_rd (pr_ir r)))"

definition ooo_inv :: "OOOState \<Rightarrow> bool" where
  "ooo_inv t \<longleftrightarrow> rename_ok t \<and> masks_ok t \<and> shape_ok t \<and> tokens t = waiting t"

definition committed :: "OOOState \<Rightarrow> nat \<Rightarrow> word_t" where
  "committed t r = p_value (phys t ! nat (rrat t ! r))"

definition same_view :: "OOOState \<Rightarrow> OOOState \<Rightarrow> bool" where
  "same_view t t' \<longleftrightarrow> (\<forall>r. 0 < r \<and> r < 32 \<longrightarrow> committed t' r = committed t r)"

lemma same_view_refl [simp]: "same_view t t" by (simp add: same_view_def)

lemma same_view_trans [trans]: "same_view a b \<Longrightarrow> same_view b c \<Longrightarrow> same_view a c" by (simp add: same_view_def)

text \<open>What every part of a cycle but the commit does: the invariant is kept and no committed register changes.\<close>

definition keeps :: "OOOState \<Rightarrow> OOOState \<Rightarrow> bool" where
  "keeps t t' \<longleftrightarrow> (ooo_inv t \<longrightarrow> ooo_inv t' \<and> same_view t t')"

lemma keeps_refl [simp]: "keeps t t" by (simp add: keeps_def)

lemma keeps_trans [trans]: "keeps a b \<Longrightarrow> keeps b c \<Longrightarrow> keeps a c"
  by (auto simp: keeps_def intro: same_view_trans)

lemma keeps_fold: "(\<And>s t. s \<in> set xs \<Longrightarrow> keeps t (f s t)) \<Longrightarrow> keeps t (fold f xs t)"
  by (induction xs arbitrary: t) (auto intro: keeps_trans)

section \<open>Selections of a list under an update\<close>

lemma mset_select_update:
  assumes "i < length xs"
  shows "mset (map f (filter P (xs[i := x]))) + (if P (xs ! i) then {#f (xs ! i)#} else {#}) =
     mset (map f (filter P xs)) + (if P x then {#f x#} else {#})"
  using assms
proof (induction xs arbitrary: i)
  case (Cons y ys)
  show ?case
  proof (cases i)
    case (Suc j)
    then show ?thesis using Cons.IH [of j] Cons.prems by (simp split: if_splits)
  qed simp
qed simp

lemma select_same: "f x = f (xs ! i) \<Longrightarrow> P x = P (xs ! i) \<Longrightarrow> mset (map f (filter P (xs[i := x]))) = mset (map f (filter P xs))"
  using mset_select_update [of i xs f P x] by (cases "i < length xs") (auto simp: list_update_beyond split: if_splits)

lemma in_waiting: "(i, p) \<in># waiting t \<longleftrightarrow> i < 32 \<and> pending (rob t ! i) \<and> rob_phys_rd (rob t ! i) = p"
  by (auto simp: waiting_def)

lemma distinct_upt_select:
  assumes "i < n" and "\<And>j. j < n \<Longrightarrow> j \<noteq> i \<Longrightarrow> f' j = f j \<and> P' j = P j"
  shows "mset (map f' (filter P' [0..<n])) + (if P i then {#f i#} else {#}) = mset (map f (filter P [0..<n])) + (if P' i then {#f' i#} else {#})"
proof -
  have "mset (map g (filter Q [0..<n])) = mset (map g (filter Q [0..<i])) + (if Q i then {#g i#} else {#}) + mset (map g (filter Q [Suc i..<n]))" for g :: "nat \<Rightarrow> 'a" and Q
    using assms(1) upt_add_eq_append [of 0 i "n - i"] by (simp add: upt_conv_Cons)
  moreover have "map f' (filter P' xs) = map f (filter P xs)" if "\<forall>j\<in>set xs. j < n \<and> j \<noteq> i" for xs
    using that assms(2) by (induction xs) auto
  from this [of "[0..<i]"] this [of "[Suc i..<n]"]
  have "map f' (filter P' [0..<i]) = map f (filter P [0..<i])" "map f' (filter P' [Suc i..<n]) = map f (filter P [Suc i..<n])" using assms(1) by auto
  ultimately show ?thesis by (simp del: mset_map mset_filter)
qed

lemma waiting_put:
  assumes "i < 32" and "length (rob t) = 32" and "rob t' = (rob t)[i := e]"
  shows "waiting t' + (if pending (rob t ! i) then {#(i, rob_phys_rd (rob t ! i))#} else {#}) = waiting t + (if pending e then {#(i, rob_phys_rd e)#} else {#})"
  unfolding waiting_def using distinct_upt_select [OF assms(1), of "\<lambda>i. (i, rob_phys_rd (rob t' ! i))" "\<lambda>i. (i, rob_phys_rd (rob t ! i))" "\<lambda>i. pending (rob t' ! i)" "\<lambda>i. pending (rob t ! i)"]
    assms by simp

lemma waiting_same: "map (\<lambda>e. (rob_phys_rd e, pending e)) (rob t') = map (\<lambda>e. (rob_phys_rd e, pending e)) (rob t) \<Longrightarrow> length (rob t) = 32 \<Longrightarrow> waiting t' = waiting t"
proof -
  assume a: "map (\<lambda>e. (rob_phys_rd e, pending e)) (rob t') = map (\<lambda>e. (rob_phys_rd e, pending e)) (rob t)" and l: "length (rob t) = 32"
  have "rob_phys_rd (rob t' ! i) = rob_phys_rd (rob t ! i)" "pending (rob t' ! i) = pending (rob t ! i)" if "i < 32" for i
    using arg_cong [OF a, of "\<lambda>xs. xs ! i"] arg_cong [OF a, of length] l that by simp_all
  then show ?thesis unfolding waiting_def by (intro arg_cong [of _ _ mset] map_cong filter_cong) auto
qed

section \<open>Steps that leave the tokens alone\<close>

definition rob_core :: "OOOState \<Rightarrow> (int \<times> bool) list" where
  "rob_core t = map (\<lambda>e. (rob_phys_rd e, pending e)) (rob t)"

lemma waiting_core: "rob_core t' = rob_core t \<Longrightarrow> length (rob t) = 32 \<Longrightarrow> waiting t' = waiting t"
  unfolding rob_core_def by (rule waiting_same)

lemma rob_core_simps [simp]:
  "rob_core (set_phys p v t) = rob_core t" "rob_core (set_unready p t) = rob_core t" "rob_core (put_rs i e t) = rob_core t"
  "rob_core (put_int s l t) = rob_core t" "rob_core (put_mul s l t) = rob_core t" "rob_core (put_lsu s l t) = rob_core t"
  "rob_core (free_lsu s t) = rob_core t" "rob_core (mshr_tick t) = rob_core t" "rob_core (release_mshr s mi t) = rob_core t"
  "rob_core (sbuf_push x t) = rob_core t" "rob_core (compact t) = rob_core t" "rob_core (ooo_stage_id t) = rob_core t"
  "rob_core (freelist_push r t) = rob_core t" "rob_core (snd (mshr_find_or_alloc a n t)) = rob_core t"
  "rob_core (set_ready eu i t) = rob_core t" "rob_core (rs_mask_clear i eu t) = rob_core t"
  by (simp_all add: rob_core_def set_phys_def set_unready_def put_rs_def put_int_def put_mul_def put_lsu_def free_lsu_def mshr_tick_def
      release_mshr_def sbuf_push_def compact_def ooo_stage_id_def freelist_push_def mshr_find_or_alloc_def set_ready_def rs_mask_clear_def
      clear_ready_def Let_def split: option.split)

lemma rob_core_ir [simp]: "rob_core (set_rob_ir i ir t) = rob_core t"
  by (cases "i < length (rob t)") (simp_all add: rob_core_def set_rob_ir_def put_rob_def map_update list_update_same_conv list_update_beyond pending_def)

lemma tokens_simps [simp]:
  "tokens (set_phys p v t) = tokens t" "tokens (set_unready p t) = tokens t" "tokens (put_rob i e t) = tokens t"
  "tokens (mshr_tick t) = tokens t" "tokens (release_mshr s mi t) = tokens t" "tokens (sbuf_push x t) = tokens t" "tokens (compact t) = tokens t"
  "tokens (ooo_stage_id t) = tokens t" "tokens (mark_ready i t) = tokens t" "tokens (set_rob_ir i ir t) = tokens t"
  "tokens (freelist_push r t) = tokens t" "tokens (snd (mshr_find_or_alloc a n t)) = tokens t" "tokens (set_ready eu i t) = tokens t"
  "tokens (undo_last t) = tokens t"
  by (simp_all add: tokens_def rs_tokens_def unit_tokens_def set_phys_def set_unready_def put_rob_def mshr_tick_def release_mshr_def sbuf_push_def compact_def
      ooo_stage_id_def mark_ready_def set_rob_ir_def freelist_push_def undo_last_def mshr_find_or_alloc_def set_ready_def Let_def split: option.split)

lemma cdb_step_core [simp]: "tokens (cdb_step p i t) = tokens t" "rob_core (cdb_step p i t) = rob_core t"
proof -
  define e where "e = (let v = p_value (phys t ! nat p); e = rs_tab t ! i;
      e' = (if \<not> src1_ready e \<and> src1_ptag e = p then e\<lparr>rs_src1_val := v, src1_ready := True\<rparr> else e)
     in if \<not> src2_ready e \<and> src2_ptag e = p then e'\<lparr>rs_src2_val := v, src2_ready := True\<rparr> else e')"
  have "rs_token e = rs_token (rs_tab t ! i)" "rs_valid e = rs_valid (rs_tab t ! i)" by (simp_all add: e_def rs_token_def Let_def)
  then have "tokens (put_rs i e t) = tokens t"
    by (simp add: tokens_def rs_tokens_def unit_tokens_def put_rs_def select_same del: mset_map mset_filter)
  then show "tokens (cdb_step p i t) = tokens t" "rob_core (cdb_step p i t) = rob_core t"
    by (simp_all add: cdb_step_def e_def put_rs_def [symmetric] Let_def)
qed

lemma cdb_core [simp]: "tokens (cdb_broadcast p t) = tokens t" "rob_core (cdb_broadcast p t) = rob_core t"
proof -
  have "tokens (fold (cdb_step p) is t) = tokens t \<and> rob_core (fold (cdb_step p) is t) = rob_core t" for "is"
    by (induction "is" arbitrary: t) simp_all
  then show "tokens (cdb_broadcast p t) = tokens t" "rob_core (cdb_broadcast p t) = rob_core t" by (simp_all add: cdb_broadcast_def)
qed

lemma write_result_core [simp]: "tokens (write_result p v t) = tokens t" "rob_core (write_result p v t) = rob_core t"
  by (simp_all add: write_result_def Let_def)

section \<open>Units\<close>

definition opt_token :: "bool \<Rightarrow> nat \<times> int \<Rightarrow> (nat \<times> int) multiset" where
  "opt_token b x = (if b then {#x#} else {#})"

lemma put_latch_tokens:
  "s < length (latch_int t) \<Longrightarrow> tokens (put_int s l t) + opt_token (l_valid (latch_int t ! s)) (latch_token (latch_int t ! s)) = tokens t + opt_token (l_valid l) (latch_token l)"
  "s < length (latch_mul t) \<Longrightarrow> tokens (put_mul s l t) + opt_token (l_valid (latch_mul t ! s)) (latch_token (latch_mul t ! s)) = tokens t + opt_token (l_valid l) (latch_token l)"
  "s < length (latch_lsu t) \<Longrightarrow> tokens (put_lsu s l t) + opt_token (live_lsu (latch_lsu t ! s)) (latch_token (latch_lsu t ! s)) = tokens t + opt_token (live_lsu l) (latch_token l)"
  using mset_select_update [of s "latch_int t" latch_token l_valid l] mset_select_update [of s "latch_mul t" latch_token l_valid l]
    mset_select_update [of s "latch_lsu t" latch_token live_lsu l]
  unfolding tokens_def rs_tokens_def unit_tokens_def put_int_def put_mul_def put_lsu_def opt_token_def
  by (simp_all add: ac_simps del: mset_map mset_filter)

lemma free_lsu_tokens: "s < length (latch_lsu t) \<Longrightarrow> tokens (free_lsu s t) + opt_token (live_lsu (latch_lsu t ! s)) (latch_token (latch_lsu t ! s)) = tokens t"
  using put_latch_tokens(3) [of s t "(latch_lsu t ! s)\<lparr>l_valid := False\<rparr>"] by (simp add: free_lsu_def opt_token_def live_lsu_def)

text \<open>A pending instruction: its entry, and that its physical register is none of the committed ones.\<close>

lemma rob_in_flight:
  assumes "rings_ok t" and "i < 32" and "rob_valid (rob t ! i)"
  shows "slot_of (rob t ! i) \<in> set (r_flight (renaming_of t))"
proof -
  note v = valid_dist [OF assms(1,2)] and f = rob_ring_fields [OF assms(1)]
  have "rob_dist t i < nat (rob_count t)" using v(1) assms(3) by simp
  then have "r_flight (renaming_of t) ! rob_dist t i \<in> set (r_flight (renaming_of t))" by (intro nth_mem) (simp add: renaming_of_def)
  then show ?thesis using v(2) f(1) assms(2) \<open>rob_dist t i < nat (rob_count t)\<close> by (simp add: renaming_of_def)
qed

lemma target_uncommitted:
  assumes "rename_ok t" and "i < 32" and "rob_valid (rob t ! i)" and "0 < r" and "r < 32"
  shows "rob_phys_rd (rob t ! i) \<noteq> rrat t ! r" "0 < rrat t ! r" "rrat t ! r < 64" "- 1 \<le> rob_phys_rd (rob t ! i)" "rob_phys_rd (rob t ! i) < 64"
proof -
  let ?r = "renaming_of t" and ?s = "slot_of (rob t ! i)"
  have ok: "renaming_ok ?r" and l: "length (rrat t) = 32" "rrat t ! 0 = 0" "r_committed ?r = rrat t"
    using assms(1) by (auto simp: rename_ok_def renaming_ok_def renaming_of_def)
  have s: "?s \<in> set (r_flight ?r)" "sl_phys ?s = rob_phys_rd (rob t ! i)" using rob_in_flight assms by (auto simp: rename_ok_def slot_of_def)
  note d = targets_distinct [OF ok]
  have m: "rrat t ! r \<in> set (rrat t)" using l assms(5) by simp
  have "distinct (rrat t)" using d(1) l(3) by simp
  then have "rrat t ! r \<noteq> rrat t ! 0" using l(1) assms(4,5) nth_eq_iff_index_eq [of "rrat t" r 0] by simp
  moreover have "0 \<le> rrat t ! r" "rrat t ! r < 64" using d(2) l(3) m by auto
  ultimately show r: "0 < rrat t ! r" "rrat t ! r < 64" using l(2) by simp_all
  note st = slot_target [OF ok s(1)]
  show "- 1 \<le> rob_phys_rd (rob t ! i)" "rob_phys_rd (rob t ! i) < 64" using st s(2) by (auto split: if_splits)
  show "rob_phys_rd (rob t ! i) \<noteq> rrat t ! r"
  proof (cases "writes ?s")
    case True
    then have "rob_phys_rd (rob t ! i) \<in> set (map sl_phys (filter writes (r_flight ?r)))" using s by force
    then show ?thesis using d(1) m l(3) by auto
  qed (use st s(2) r in auto)
qed

text \<open>The end of an instruction: its latch gives up the token and its entry becomes ready.\<close>

lemma finish_ok:
  assumes "ooo_inv t" and "(i, p) \<in># tokens t" and "ren_part t' = ren_part t" and "masks_ok t'" and "shape_ok t'"
    and "tokens t' + {#(i, p)#} = tokens t" and "rob_core t' = rob_core (mark_ready i t)"
    and "p \<ge> 0 \<and> phys t' = (phys t)[nat p := x] \<or> phys t' = phys t"
  shows "ooo_inv t'" "same_view t t'"
proof -
  have w: "i < 32" "pending (rob t ! i)" "rob_phys_rd (rob t ! i) = p" using assms(1,2) by (simp_all add: ooo_inv_def in_waiting)
  have l: "length (rob t) = 32" using assms(1) rob_ring_fields(1) by (simp add: ooo_inv_def rename_ok_def)
  have "waiting t' = waiting (mark_ready i t)" using waiting_core [OF assms(7)] l by (simp add: mark_ready_def put_rob_def)
  moreover have "waiting (mark_ready i t) + {#(i, p)#} = waiting t"
    using waiting_put [OF w(1) l, of "mark_ready i t"] w by (simp add: mark_ready_def put_rob_def pending_def)
  moreover have "tokens t = waiting t" using assms(1) by (simp add: ooo_inv_def)
  ultimately have "tokens t' + {#(i, p)#} = waiting t' + {#(i, p)#}" using assms(6) by simp
  then have "tokens t' = waiting t'" by simp
  then show "ooo_inv t'" using assms(1,4,5) rename_ok_eq [OF assms(3)] by (simp add: ooo_inv_def)
  have ro: "rename_ok t" "rob_valid (rob t ! i)" using assms(1) w(2) by (simp_all add: ooo_inv_def pending_def)
  have "nat p \<noteq> nat (rrat t ! r)" if "p \<ge> 0" "0 < r" "r < 32" for r using target_uncommitted [OF ro(1) w(1) ro(2), of r] that w(3) by auto
  then show "same_view t t'" using assms(3,8) by (auto simp: same_view_def committed_def ren_part_def)
qed

lemma rob_core_ready: "rob_core (mark_ready i t) = (rob_core t)[i := (fst (rob_core t ! i), False)]"
  by (cases "i < length (rob t)") (simp_all add: rob_core_def mark_ready_def put_rob_def map_update pending_def list_update_beyond)

lemma shape_simps [simp]:
  "shape_ok (set_phys p v t) = shape_ok t" "shape_ok (set_unready p t) = shape_ok t" "shape_ok (put_rob i e t) = shape_ok t"
  "shape_ok (put_rs i x t) = shape_ok t" "shape_ok (put_int s l t) = shape_ok t" "shape_ok (put_mul s l t) = shape_ok t" "shape_ok (put_lsu s l t) = shape_ok t"
  "shape_ok (free_lsu s t) = shape_ok t" "shape_ok (mshr_tick t) = shape_ok t" "shape_ok (release_mshr s mi t) = shape_ok t"
  "shape_ok (sbuf_push e t) = shape_ok t" "shape_ok (mark_ready i t) = shape_ok t" "shape_ok (set_rob_ir i ir t) = shape_ok t"
  "shape_ok (freelist_push r t) = shape_ok t" "shape_ok (snd (mshr_find_or_alloc a n t)) = shape_ok t" "shape_ok (set_ready eu i t) = shape_ok t"
  "shape_ok (rs_mask_clear i eu t) = shape_ok t" "shape_ok (undo_last t) = shape_ok t"
  by (simp_all add: shape_ok_def set_phys_def set_unready_def put_rob_def put_rs_def put_int_def put_mul_def put_lsu_def free_lsu_def mshr_tick_def
      release_mshr_def sbuf_push_def mark_ready_def set_rob_ir_def freelist_push_def mshr_find_or_alloc_def set_ready_def rs_mask_clear_def
      clear_ready_def undo_last_def Let_def split: option.split)

lemma cdb_rest [simp]: "shape_ok (cdb_broadcast p t) = shape_ok t" "phys (cdb_broadcast p t) = phys t" "latch_lsu (cdb_broadcast p t) = latch_lsu t"
  "rob (cdb_broadcast p t) = rob t"
proof -
  have "shape_ok (cdb_step p i t) = shape_ok t" "phys (cdb_step p i t) = phys t" "latch_lsu (cdb_step p i t) = latch_lsu t" "rob (cdb_step p i t) = rob t" for i t
    by (simp_all add: cdb_step_def put_rs_def [symmetric] Let_def) (simp_all add: put_rs_def set_ready_def)
  then have "shape_ok (fold (cdb_step p) is t) = shape_ok t \<and> phys (fold (cdb_step p) is t) = phys t \<and>
      latch_lsu (fold (cdb_step p) is t) = latch_lsu t \<and> rob (fold (cdb_step p) is t) = rob t" for "is"
    by (induction "is" arbitrary: t) simp_all
  then show "shape_ok (cdb_broadcast p t) = shape_ok t" "phys (cdb_broadcast p t) = phys t" "latch_lsu (cdb_broadcast p t) = latch_lsu t"
      "rob (cdb_broadcast p t) = rob t"
    by (simp_all add: cdb_broadcast_def)
qed

lemma complete_rest [simp]:
  "shape_ok (write_result p v t) = shape_ok t" "shape_ok (complete i p ir t) = shape_ok t" "tokens (complete i p ir t) = tokens t"
  "phys (write_result p v t) = (if p \<ge> 0 then (phys t)[nat p := \<lparr>p_value = v, p_ready = True\<rparr>] else phys t)"
  "phys (complete i p ir t) = (if p \<ge> 0 then (phys t)[nat p := \<lparr>p_value = result ir, p_ready = True\<rparr>] else phys t)"
  "rob_core (complete i p ir t) = rob_core (mark_ready i t)"
  by (simp_all add: complete_def write_result_def Let_def rob_core_ready) (simp_all add: mark_ready_def set_phys_def set_rob_ir_def put_rob_def)

lemma complete_ok:
  assumes "ooo_inv t" and "ren_part u = ren_part t" and "mask_part u = mask_part t" and "shape_ok u" and "rob_core u = rob_core t" and "phys u = phys t"
    and "tokens u + {#(i, p)#} = tokens t"
  shows "ooo_inv (complete i p ir u)" "same_view t (complete i p ir u)"
proof -
  have m: "(i, p) \<in># tokens t" using assms(7) by (metis union_single_eq_member add_mset_add_single)
  have a: "add_mset (i, p) (tokens u) = tokens t" using assms(7) by simp
  have u: "masks_ok u" using assms(1) masks_ok_eq [OF assms(3)] by (simp add: ooo_inv_def)
  note f = finish_ok [OF assms(1) m, of "complete i p ir u" "\<lparr>p_value = result ir, p_ready = True\<rparr>"]
  show "ooo_inv (complete i p ir u)" "same_view t (complete i p ir u)"
    by (rule f; simp add: assms(2-6) a u complete_masks rob_core_ready)+
qed

lemma latch_members:
  "shape_ok t \<Longrightarrow> s < 2 \<Longrightarrow> l_valid (latch_int t ! s) \<Longrightarrow> latch_token (latch_int t ! s) \<in># tokens t"
  "shape_ok t \<Longrightarrow> l_valid (latch_mul t ! 0) \<Longrightarrow> latch_token (latch_mul t ! 0) \<in># tokens t"
  "shape_ok t \<Longrightarrow> s < 2 \<Longrightarrow> live_lsu (latch_lsu t ! s) \<Longrightarrow> latch_token (latch_lsu t ! s) \<in># tokens t"
  by (auto simp: tokens_def unit_tokens_def shape_ok_def intro!: imageI)

lemma token_entry:
  assumes "ooo_inv t" and "(i, p) \<in># tokens t"
  shows "i < 32" "rob_valid (rob t ! i)" "\<not> rob_ready (rob t ! i)" "rob_phys_rd (rob t ! i) = p"
  using assms in_waiting [of i p t] by (simp_all add: ooo_inv_def pending_def)

section \<open>Flush\<close>

lemma select_kill:
  assumes "\<And>x. P (f x) \<longleftrightarrow> P x \<and> \<not> Q (g x)" and "\<And>x. g (f x) = g x"
  shows "mset (map g (filter P (map f xs))) = filter_mset (\<lambda>y. \<not> Q y) (mset (map g (filter P xs)))"
  by (induction xs) (simp_all add: assms)

definition newer :: "OOOState \<Rightarrow> nat \<Rightarrow> nat \<times> int \<Rightarrow> bool" where
  "newer t b x = rob_newer_than (fst x) b t"

definition squash_rs :: "OOOState \<Rightarrow> nat \<Rightarrow> RSEntry \<Rightarrow> RSEntry" where
  "squash_rs t b e = (if rs_valid e \<and> rob_newer_than (rs_rob_idx e) b t then e\<lparr>rs_valid := False\<rparr> else e)"

lemma flush_rs_rest: "rob_head (flush_rs b i t) = rob_head t" "shape_ok (flush_rs b i t) = shape_ok t" "unit_tokens (flush_rs b i t) = unit_tokens t"
  "rob (flush_rs b i t) = rob t" "phys (flush_rs b i t) = phys t" "rob_count (flush_rs b i t) = rob_count t"
  "latch_int (flush_rs b i t) = latch_int t" "latch_mul (flush_rs b i t) = latch_mul t" "latch_lsu (flush_rs b i t) = latch_lsu t"
  by (simp_all add: flush_rs_def Let_def) (simp_all add: put_rs_def rs_mask_clear_def clear_ready_def unit_tokens_def)

lemma flush_rs_tab: "rs_tab (flush_rs b i t) = (rs_tab t)[i := squash_rs t b (rs_tab t ! i)]"
  by (simp add: flush_rs_def squash_rs_def put_rs_def rs_mask_clear_def clear_ready_def Let_def)

lemma flush_all_rs:
  assumes "length (rs_tab t) = 16"
  shows "rs_tab (fold (flush_rs b) [0..<16] t) = map (squash_rs t b) (rs_tab t)"
    "rob_head (fold (flush_rs b) [0..<16] t) = rob_head t" "shape_ok (fold (flush_rs b) [0..<16] t) = shape_ok t" "unit_tokens (fold (flush_rs b) [0..<16] t) = unit_tokens t"
    "rob (fold (flush_rs b) [0..<16] t) = rob t" "phys (fold (flush_rs b) [0..<16] t) = phys t"
    "latch_int (fold (flush_rs b) [0..<16] t) = latch_int t" "latch_mul (fold (flush_rs b) [0..<16] t) = latch_mul t" "latch_lsu (fold (flush_rs b) [0..<16] t) = latch_lsu t"
proof -
  have f: "rob_head (fold (flush_rs b) xs t) = rob_head t \<and> shape_ok (fold (flush_rs b) xs t) = shape_ok t \<and> unit_tokens (fold (flush_rs b) xs t) = unit_tokens t \<and>
      rob (fold (flush_rs b) xs t) = rob t \<and> phys (fold (flush_rs b) xs t) = phys t \<and> latch_int (fold (flush_rs b) xs t) = latch_int t \<and>
      latch_mul (fold (flush_rs b) xs t) = latch_mul t \<and> latch_lsu (fold (flush_rs b) xs t) = latch_lsu t" for xs
    by (induction xs arbitrary: t) (simp_all add: flush_rs_rest)
  then show "rob_head (fold (flush_rs b) [0..<16] t) = rob_head t" "shape_ok (fold (flush_rs b) [0..<16] t) = shape_ok t" "unit_tokens (fold (flush_rs b) [0..<16] t) = unit_tokens t"
    "rob (fold (flush_rs b) [0..<16] t) = rob t" "phys (fold (flush_rs b) [0..<16] t) = phys t"
    "latch_int (fold (flush_rs b) [0..<16] t) = latch_int t" "latch_mul (fold (flush_rs b) [0..<16] t) = latch_mul t" "latch_lsu (fold (flush_rs b) [0..<16] t) = latch_lsu t" by blast+
  have "rs_tab (fold (flush_rs b) [0..<n] t) = map (squash_rs t b) (take n (rs_tab t)) @ drop n (rs_tab t)" if "n \<le> 16" for n
    using that
  proof (induction n)
    case (Suc n)
    let ?u = "fold (flush_rs b) [0..<n] t"
    have u: "rs_tab ?u = map (squash_rs t b) (take n (rs_tab t)) @ drop n (rs_tab t)" using Suc by simp
    have "squash_rs ?u b = squash_rs t b" using f [of "[0..<n]"] by (simp add: squash_rs_def rob_newer_than_def rob_dist_def fun_eq_iff)
    then show ?case using Suc.prems assms u
      by (simp add: flush_rs_tab nth_append take_Suc_conv_app_nth list_update_append min_def) (simp add: Cons_nth_drop_Suc [symmetric])
  qed simp
  from this [of 16] show "rs_tab (fold (flush_rs b) [0..<16] t) = map (squash_rs t b) (rs_tab t)" using assms by simp
qed

lemma undo_rest:
  "map (\<lambda>e. (rob_phys_rd e, rob_ready e)) (rob ((undo_last ^^ n) t)) = map (\<lambda>e. (rob_phys_rd e, rob_ready e)) (rob t)"
  "map p_value (phys ((undo_last ^^ n) t)) = map p_value (phys t)" "tokens ((undo_last ^^ n) t) = tokens t" "shape_ok ((undo_last ^^ n) t) = shape_ok t"
  "rs_tab ((undo_last ^^ n) t) = rs_tab t" "rob_head ((undo_last ^^ n) t) = rob_head t"
proof -
  have u: "map p_value (ps[i := (ps ! i)\<lparr>p_ready := x\<rparr>]) = map p_value ps" for ps i x
    by (cases "i < length ps") (simp_all add: map_update list_update_same_conv list_update_beyond)
  have r: "map (\<lambda>e. (rob_phys_rd e, rob_ready e)) (es[i := (es ! i)\<lparr>rob_valid := x\<rparr>]) = map (\<lambda>e. (rob_phys_rd e, rob_ready e)) es" for es i x
    by (cases "i < length es") (simp_all add: map_update list_update_same_conv list_update_beyond)
  have s: "map (\<lambda>e. (rob_phys_rd e, rob_ready e)) (rob (undo_last t)) = map (\<lambda>e. (rob_phys_rd e, rob_ready e)) (rob t)"
    "map p_value (phys (undo_last t)) = map p_value (phys t)" "rs_tab (undo_last t) = rs_tab t" "rob_head (undo_last t) = rob_head t" for t
    by (simp_all add: undo_last_def put_rob_def freelist_push_def set_unready_def u r Let_def)
  show "map (\<lambda>e. (rob_phys_rd e, rob_ready e)) (rob ((undo_last ^^ n) t)) = map (\<lambda>e. (rob_phys_rd e, rob_ready e)) (rob t)"
    "map p_value (phys ((undo_last ^^ n) t)) = map p_value (phys t)" "tokens ((undo_last ^^ n) t) = tokens t" "shape_ok ((undo_last ^^ n) t) = shape_ok t"
    "rs_tab ((undo_last ^^ n) t) = rs_tab t" "rob_head ((undo_last ^^ n) t) = rob_head t"
    by (induction n) (simp_all add: s)
qed

lemma flush_tokens:
  assumes "length (rs_tab t) = 16"
  shows "tokens (ooo_flush_after b t) = filter_mset (\<lambda>x. \<not> newer t b x) (tokens t)" "shape_ok (ooo_flush_after b t) = shape_ok t"
    "map p_value (phys (ooo_flush_after b t)) = map p_value (phys t)"
    "map (\<lambda>e. (rob_phys_rd e, rob_ready e)) (rob (ooo_flush_after b t)) = map (\<lambda>e. (rob_phys_rd e, rob_ready e)) (rob t)"
proof -
  define u where "u = (undo_last ^^ ((rob_tail t + 32 - (b + 1) mod 32) mod 32)) t"
  define v where "v = fold (flush_rs b) [0..<16] u"
  let ?w = "v\<lparr>latch_int := map (flush_latch b v) (latch_int v), latch_mul := map (flush_latch b v) (latch_mul v), latch_lsu := map (flush_lsu b v) (latch_lsu v),
      latch_if_id := kill (latch_if_id v), latch_id_rn := kill (latch_id_rn v)\<rparr>"
  have e: "ooo_flush_after b t = ?w" by (simp add: ooo_flush_after_def u_def v_def Let_def)
  note un = undo_rest [of "(rob_tail t + 32 - (b + 1) mod 32) mod 32" t, folded u_def]
  have l: "length (rs_tab u) = 16" using un(5) assms by simp
  note f = flush_all_rs [OF l, of b, folded v_def]
  have h: "rob_newer_than i b v = rob_newer_than i b t" "rob_newer_than i b u = rob_newer_than i b t" for i
    using f(2) un(6) by (simp_all add: rob_newer_than_def rob_dist_def)
  show "map p_value (phys (ooo_flush_after b t)) = map p_value (phys t)"
    "map (\<lambda>e. (rob_phys_rd e, rob_ready e)) (rob (ooo_flush_after b t)) = map (\<lambda>e. (rob_phys_rd e, rob_ready e)) (rob t)"
    using e f un by simp_all
  have "shape_ok ?w = shape_ok v" by (auto simp: shape_ok_def kill_def)
  then show "shape_ok (ooo_flush_after b t) = shape_ok t" using e f un by simp
  have "rs_tokens ?w = filter_mset (\<lambda>x. \<not> newer t b x) (rs_tokens u)"
    unfolding rs_tokens_def by (simp add: f(1) del: mset_map mset_filter filter_map) (rule select_kill; auto simp: squash_rs_def newer_def rs_token_def h)
  moreover have "mset (map latch_token (filter l_valid (map (flush_latch b v) ls))) = filter_mset (\<lambda>x. \<not> newer t b x) (mset (map latch_token (filter l_valid ls)))" for ls
    by (rule select_kill) (auto simp: flush_latch_def newer_def latch_token_def h)
  moreover have "mset (map latch_token (filter live_lsu (map (flush_lsu b v) ls))) = filter_mset (\<lambda>x. \<not> newer t b x) (mset (map latch_token (filter live_lsu ls)))" for ls
    by (rule select_kill) (auto simp: flush_lsu_def live_lsu_def newer_def latch_token_def h)
  ultimately have "tokens ?w = filter_mset (\<lambda>x. \<not> newer t b x) (tokens u)"
    unfolding tokens_def unit_tokens_def by (simp add: f(7-9) del: mset_map mset_filter filter_map)
  then show "tokens (ooo_flush_after b t) = filter_mset (\<lambda>x. \<not> newer t b x) (tokens t)" using e un by simp
qed

lemma same_view_values: "map p_value (phys t') = map p_value (phys t) \<Longrightarrow> rrat t' = rrat t \<Longrightarrow> rename_ok t \<Longrightarrow> length (phys t) = 64 \<Longrightarrow> same_view t t'"
proof -
  assume a: "map p_value (phys t') = map p_value (phys t)" "rrat t' = rrat t" "rename_ok t" "length (phys t) = 64"
  have l: "length (phys t') = 64" using arg_cong [OF a(1), of length] a(4) by simp
  have "p_value (phys t' ! i) = p_value (phys t ! i)" if "i < 64" for i using arg_cong [OF a(1), of "\<lambda>xs. xs ! i"] that a(4) l by simp
  moreover have "nat (rrat t ! r) < 64" if "r < 32" for r
  proof -
    have "rrat t ! r \<in> set (rrat t)" using a(3) that by (simp add: rename_ok_def renaming_ok_def renaming_of_def)
    then have "rrat t ! r < 64" using targets_distinct(2) [of "renaming_of t"] a(3) by (auto simp: rename_ok_def renaming_of_def)
    then show ?thesis by simp
  qed
  ultimately show ?thesis using a(2) by (simp add: same_view_def committed_def)
qed

lemma flush_ok:
  assumes "ooo_inv t" and "i < 32" and "rob_valid (rob t ! i)"
  shows "ooo_inv (ooo_flush_after i t)" "same_view t (ooo_flush_after i t)"
proof -
  let ?t = "ooo_flush_after i t"
  have t: "rename_ok t" "masks_ok t" "shape_ok t" "tokens t = waiting t" using assms(1) by (simp_all add: ooo_inv_def)
  then have r: "rings_ok t" by (simp add: rename_ok_def)
  have l: "length (rs_tab t) = 16" "length (phys t) = 64" using t by (simp_all add: masks_ok_def shape_ok_def)
  note f = flush_tokens [OF l(1), of i] and o = ooo_flush_ok [OF t(1) assms(2,3)]
  have r': "rings_ok ?t" using o(1) by (simp add: rename_ok_def)
  have "rrat ?t = rrat t" using o(3) by (simp add: renaming_of_def)
  then show "same_view t ?t" using same_view_values f(3) t(1) l(2) by blast
  have d: "rob_dist t i < nat (rob_count t)" using valid_dist(1) [OF r assms(2)] assms(3) by simp
  have n: "rob_phys_rd (rob ?t ! j) = rob_phys_rd (rob t ! j)" "pending (rob ?t ! j) \<longleftrightarrow> pending (rob t ! j) \<and> \<not> rob_newer_than j i t" if "j < 32" for j
  proof -
    have m: "rob_phys_rd (rob ?t ! j) = rob_phys_rd (rob t ! j)" "rob_ready (rob ?t ! j) = rob_ready (rob t ! j)"
      using arg_cong [OF f(4), of "\<lambda>xs. xs ! j"] rob_ring_fields(1) [OF r] rob_ring_fields(1) [OF r'] that by simp_all
    have "rob_dist ?t j = rob_dist t j" using o(4) by (simp add: rob_dist_def)
    then have "rob_valid (rob ?t ! j) \<longleftrightarrow> rob_valid (rob t ! j) \<and> \<not> rob_newer_than j i t"
      using valid_dist(1) [OF r that] valid_dist(1) [OF r' that] o(5) d by (auto simp: rob_newer_than_def)
    then show "rob_phys_rd (rob ?t ! j) = rob_phys_rd (rob t ! j)" "pending (rob ?t ! j) \<longleftrightarrow> pending (rob t ! j) \<and> \<not> rob_newer_than j i t"
      using m by (auto simp: pending_def)
  qed
  have "map (\<lambda>j. (j, rob_phys_rd (rob ?t ! j))) (filter (\<lambda>j. pending (rob ?t ! j)) js) =
      filter (\<lambda>x. \<not> newer t i x) (map (\<lambda>j. (j, rob_phys_rd (rob t ! j))) (filter (\<lambda>j. pending (rob t ! j)) js))" if "set js \<subseteq> {..<32}" for js
    using that by (induction js) (simp_all add: n newer_def)
  from this [of "[0..<32]"] have "waiting ?t = filter_mset (\<lambda>x. \<not> newer t i x) (waiting t)"
    unfolding waiting_def by (simp add: lessThan_atLeast0 del: mset_map mset_filter) (simp only: mset_filter)
  then show "ooo_inv ?t" using t o(1) flush_masks [OF t(2)] f(1,2) by (simp add: ooo_inv_def)
qed

section \<open>Issue\<close>

lemma put_rs_tokens:
  assumes "j < length (rs_tab t)" and "rs_tab t' = (rs_tab t)[j := e]" and "unit_tokens t' = unit_tokens t"
  shows "tokens t' + opt_token (rs_valid (rs_tab t ! j)) (rs_token (rs_tab t ! j)) = tokens t + opt_token (rs_valid e) (rs_token e)"
  using mset_select_update [OF assms(1), of rs_token rs_valid e] assms(2,3)
  unfolding tokens_def rs_tokens_def opt_token_def by (simp add: ac_simps del: mset_map mset_filter)

lemma latch_from_rs_ok:
  assumes "ooo_inv t" and "j < 16" and "rs_valid (rs_tab t ! j)" and "latch_from_rs j t = (l, u)"
  shows "tokens u + {#latch_token l#} = tokens t" "live_lsu l" "rob_core u = rob_core t" "shape_ok u" "phys u = phys t" "ren_part u = ren_part t" "masks_ok u"
    "latch_int u = latch_int t" "latch_mul u = latch_mul t" "latch_lsu u = latch_lsu t"
proof -
  let ?e = "rs_tab t ! j"
  have u: "u = put_rs j (?e\<lparr>rs_valid := False\<rparr>) (rs_mask_clear j (eu_type ?e) t)" and l: "latch_token l = rs_token ?e" "live_lsu l"
    using assms(4) by (auto simp: latch_from_rs_def latch_token_def rs_token_def live_lsu_def Let_def)
  show "live_lsu l" by (fact l)
  have m: "masks_ok t" "shape_ok t" using assms(1) by (simp_all add: ooo_inv_def)
  show "masks_ok u" using masks_release [OF m(1) assms(2)] u by simp
  show "rob_core u = rob_core t" "shape_ok u" "ren_part u = ren_part t" using u m by simp_all
  have r: "rs_tab u = (rs_tab t)[j := ?e\<lparr>rs_valid := False\<rparr>]" "unit_tokens u = unit_tokens t"
    by (simp_all add: u put_rs_def rs_mask_clear_def clear_ready_def unit_tokens_def)
  show "phys u = phys t" "latch_int u = latch_int t" "latch_mul u = latch_mul t" "latch_lsu u = latch_lsu t"
    by (simp_all add: u put_rs_def rs_mask_clear_def clear_ready_def)
  show "tokens u + {#latch_token l#} = tokens t" using put_rs_tokens [OF _ r] m(1) assms(2,3) l by (simp add: masks_ok_def opt_token_def)
qed

text \<open>A station gives its token to a free latch.\<close>

lemma issue_unit_ok:
  assumes "ooo_inv t" and "eu < 3"
    and "\<And>l u. latch_int u = latch_int t \<Longrightarrow> latch_mul u = latch_mul t \<Longrightarrow> latch_lsu u = latch_lsu t \<Longrightarrow> live_lsu l \<Longrightarrow> shape_ok u \<Longrightarrow>
      tokens (put l u) = tokens u + {#latch_token l#} \<and> shape_ok (put l u)"
    and "\<And>l u. ren_part (put l u) = ren_part u \<and> mask_part (put l u) = mask_part u \<and> rob_core (put l u) = rob_core u \<and> phys (put l u) = phys u"
  shows "ooo_inv (issue_unit b eu l put t)" "same_view t (issue_unit b eu l put t)"
proof -
  have "ooo_inv (issue_unit b eu l put t) \<and> same_view t (issue_unit b eu l put t)"
  proof (cases "l_valid l \<or> select_rs b eu t = None")
    case False
    then obtain j where j: "select_rs b eu t = Some j" by auto
    have t: "masks_ok t" "rename_ok t" "tokens t = waiting t" "shape_ok t" using assms(1) by (simp_all add: ooo_inv_def)
    have r: "rs_valid (rs_tab t ! j)" "j < 16" using select_issuable [OF t(1) assms(2) j] by (simp_all add: rs_issuable_def)
    obtain l' u where u: "latch_from_rs j t = (l', u)" by (cases "latch_from_rs j t")
    note o = latch_from_rs_ok [OF assms(1) r(2,1) u]
    have p: "tokens (put l' u) = tokens t" "shape_ok (put l' u)" using assms(3) [OF o(8-10,2,4)] o(1) by simp_all
    have e: "issue_unit b eu l put t = put l' u" using False j u by (simp add: issue_unit_def)
    have w: "waiting (put l' u) = waiting t" using waiting_core [of "put l' u" t] assms(4) [of l' u] o(3) rob_ring_fields(1) [of t] t(2) by (simp add: rename_ok_def)
    have ren: "ren_part (put l' u) = ren_part t" using assms(4) o(6) by simp
    have "same_view t (put l' u)" using assms(4) [of l' u] o(5) ren by (simp add: same_view_def committed_def ren_part_def)
    moreover have "masks_ok (put l' u)" using masks_ok_eq [of "put l' u" u] assms(4) o(7) by simp
    ultimately show ?thesis using p w t rename_ok_eq [OF ren] by (simp add: ooo_inv_def e)
  qed (use assms(1) in \<open>auto simp: issue_unit_def split: option.split\<close>)
  then show "ooo_inv (issue_unit b eu l put t)" "same_view t (issue_unit b eu l put t)" by simp_all
qed

lemma live_valid: "live_lsu l \<Longrightarrow> l_valid l" by (simp add: live_lsu_def)

lemma put_latch_rest [simp]: "phys (put_int s l t) = phys t" "phys (put_mul s l t) = phys t" "phys (put_lsu s l t) = phys t"
  by (simp_all add: put_int_def put_mul_def put_lsu_def)

lemma issue_slot_ok:
  assumes "ooo_inv t"
  shows "s < 2 \<Longrightarrow> ooo_inv (issue_unit False 0 (latch_int t ! s) (put_int s) t) \<and> same_view t (issue_unit False 0 (latch_int t ! s) (put_int s) t)"
    "s < 1 \<Longrightarrow> ooo_inv (issue_unit False 1 (latch_mul t ! s) (put_mul s) t) \<and> same_view t (issue_unit False 1 (latch_mul t ! s) (put_mul s) t)"
    "s < 2 \<Longrightarrow> ooo_inv (issue_unit True 2 (latch_lsu t ! s) (put_lsu s) t) \<and> same_view t (issue_unit True 2 (latch_lsu t ! s) (put_lsu s) t)"
proof -
  have busy: "l_valid l \<Longrightarrow> issue_unit b eu l put t = t" for b eu l put by (simp add: issue_unit_def)
  have len: "shape_ok u \<Longrightarrow> length (latch_int u) = 2 \<and> length (latch_mul u) = 1 \<and> length (latch_lsu u) = 2" for u by (simp add: shape_ok_def)
  show "ooo_inv (issue_unit False 0 (latch_int t ! s) (put_int s) t) \<and> same_view t (issue_unit False 0 (latch_int t ! s) (put_int s) t)" if "s < 2"
  proof (cases "l_valid (latch_int t ! s)")
    case False
    have "tokens (put_int s l u) = tokens u + {#latch_token l#}" if "latch_int u = latch_int t" "live_lsu l" "shape_ok u" for l u
      using put_latch_tokens(1) [of s u l] that \<open>s < 2\<close> len [of u] False live_valid by (simp add: opt_token_def)
    then show ?thesis using issue_unit_ok [OF assms, of 0 "put_int s"] by simp
  qed (simp add: busy assms)
  show "ooo_inv (issue_unit False 1 (latch_mul t ! s) (put_mul s) t) \<and> same_view t (issue_unit False 1 (latch_mul t ! s) (put_mul s) t)" if "s < 1"
  proof (cases "l_valid (latch_mul t ! s)")
    case False
    have "tokens (put_mul s l u) = tokens u + {#latch_token l#}" if "latch_mul u = latch_mul t" "live_lsu l" "shape_ok u" for l u
      using put_latch_tokens(2) [of s u l] that \<open>s < 1\<close> len [of u] False live_valid by (simp add: opt_token_def)
    then show ?thesis using issue_unit_ok [OF assms, of 1 "put_mul s"] by simp
  qed (simp add: busy assms)
  show "ooo_inv (issue_unit True 2 (latch_lsu t ! s) (put_lsu s) t) \<and> same_view t (issue_unit True 2 (latch_lsu t ! s) (put_lsu s) t)" if "s < 2"
  proof (cases "l_valid (latch_lsu t ! s)")
    case False
    have "tokens (put_lsu s l u) = tokens u + {#latch_token l#}" if "latch_lsu u = latch_lsu t" "live_lsu l" "shape_ok u" for l u
      using put_latch_tokens(3) [of s u l] that \<open>s < 2\<close> len [of u] False by (simp add: opt_token_def live_lsu_def)
    then show ?thesis using issue_unit_ok [OF assms, of 2 "put_lsu s"] by simp
  qed (simp add: busy assms)
qed

lemma issue_keeps: "keeps t (ooo_stage_is t)"
proof -
  have "keeps t (fold (\<lambda>s t. issue_unit False 0 (latch_int t ! s) (put_int s) t) [0..<2] t)"
    "keeps t (fold (\<lambda>s t. issue_unit False 1 (latch_mul t ! s) (put_mul s) t) [0..<1] t)"
    "keeps t (fold (\<lambda>s t. issue_unit True 2 (latch_lsu t ! s) (put_lsu s) t) [0..<2] t)" for t
    by (rule keeps_fold, use issue_slot_ok in \<open>simp add: keeps_def\<close>)+
  then show ?thesis unfolding ooo_stage_is_def Let_def by (meson keeps_trans)
qed

section \<open>Rename\<close>

lemma rename_rd_rest:
  assumes "rename_rd rd t = (p, old, u)"
  shows "rob u = rob t" "rs_tab u = rs_tab t" "unit_tokens u = unit_tokens t" "rs_free_mask u = rs_free_mask t" "rob_tail u = rob_tail t"
    "shape_ok u = shape_ok t" "rrat u = rrat t" "latch_id_rn u = latch_id_rn t" "phys u = (if rd \<noteq> -1 \<and> rd \<noteq> 0 then (phys t)[nat p := \<lparr>p_value = 0, p_ready = False\<rparr>] else phys t)"
    "rd \<noteq> -1 \<and> rd \<noteq> 0 \<Longrightarrow> p = fst (freelist_pop t)"
  using assms by (auto simp: rename_rd_def freelist_pop_def unit_tokens_def shape_ok_def Let_def split: if_splits)

lemma rename_one_tokens:
  assumes "ooo_inv t" and "rob_count t < 32" and "rs_free_mask t \<noteq> 0"
  obtains p old e where "tokens (rename_one ir t) = tokens t + {#(rob_tail t, p)#}" and "waiting (rename_one ir t) = waiting t + {#(rob_tail t, p)#}"
    and "shape_ok (rename_one ir t)" and "rrat (rename_one ir t) = rrat t" and "latch_id_rn (rename_one ir t) = latch_id_rn t"
    and "phys (rename_one ir t) = (if ir_rd ir \<noteq> -1 \<and> ir_rd ir \<noteq> 0 then (phys t)[nat (fst (freelist_pop t)) := \<lparr>p_value = 0, p_ready = False\<rparr>] else phys t)"
proof -
  have t: "rename_ok t" "masks_ok t" "shape_ok t" "rings_ok t" using assms(1) by (simp_all add: ooo_inv_def rename_ok_def)
  let ?i = "rob_tail t" and ?j = "ctz (rs_free_mask t)"
  have j: "?j < 16" "\<not> rs_valid (rs_tab t ! ?j)" "length (rs_tab t) = 16" using ctz_lowest(2) [OF assms(3)] t(2) by (simp_all add: masks_ok_def)
  obtain v p old w e where o: "rename_one ir t = rs_mask_update ?j (put_rs ?j e ((put_rob ?i \<lparr>rob_ir = ir, arch_rd = ir_rd ir, rob_phys_rd = p, old_phys = old,
        store_data = 0, rob_ready = False, rob_valid = True\<rparr> w)\<lparr>rs_free_mask := unset_bit ?j (rs_free_mask t)\<rparr>))"
      "rename_rd (ir_rd ir) v = (p, old, w)" "rs_valid e" "rs_phys_rd e = p" "rs_rob_idx e = ?i"
      "v = t\<lparr>rob_tail := (rob_tail t + 1) mod 32, rob_count := rob_count t + 1, unready_store_count := unready_store_count t + (if is_store_op (ir_raw ir) then 1 else 0)\<rparr>"
    by (rule rename_one_eq)
  note r = rename_rd_rest [OF o(2)]
  let ?re = "\<lparr>rob_ir = ir, arch_rd = ir_rd ir, rob_phys_rd = p, old_phys = old, store_data = 0, rob_ready = False, rob_valid = True\<rparr>"
  let ?u = "rename_one ir t"
  have u: "rob ?u = (rob t)[?i := ?re]" "rs_tab ?u = (rs_tab t)[?j := e]" "unit_tokens ?u = unit_tokens t"
      "rrat ?u = rrat t" "latch_id_rn ?u = latch_id_rn t" "phys ?u = phys w" "shape_ok ?u = shape_ok t"
    using r o(6) by (simp_all add: o(1) rs_mask_update_def put_rs_def put_rob_def set_ready_def clear_ready_def unit_tokens_def Let_def shape_ok_def)
  have f: "length (rob t) = 32" "?i < 32" "rob_tail t = (rob_head t + nat (rob_count t)) mod 32" "rob_head t < 32" "0 \<le> rob_count t"
    using rob_ring_fields [OF t(4)] by simp_all
  have "rob_dist t ?i = nat (rob_count t)" using dist_slot [OF f(4), of "nat (rob_count t)"] f(3,5) assms(2) by (simp add: rob_dist_def)
  then have n: "\<not> rob_valid (rob t ! ?i)" using valid_dist(1) [OF t(4) f(2)] by simp
  show ?thesis
  proof
    show "tokens ?u = tokens t + {#(?i, p)#}" using put_rs_tokens [OF _ u(2,3)] j o(3-5) by (simp add: opt_token_def rs_token_def)
    show "waiting ?u = waiting t + {#(?i, p)#}" using waiting_put [OF f(2,1) u(1)] n by (simp add: pending_def)
    show "shape_ok ?u" "rrat ?u = rrat t" "latch_id_rn ?u = latch_id_rn t" using u t by simp_all
    have "fst (freelist_pop v) = fst (freelist_pop t)" by (simp add: o(6) freelist_pop_def Let_def)
    then show "phys ?u = (if ir_rd ir \<noteq> -1 \<and> ir_rd ir \<noteq> 0 then (phys t)[nat (fst (freelist_pop t)) := \<lparr>p_value = 0, p_ready = False\<rparr>] else phys t)"
      using u(6) r(9,10) by (auto simp: o(6))
  qed
qed

lemma rename_one_keeps:
  assumes "ooo_inv t" and "rob_count t < 32" and "rs_free_mask t \<noteq> 0" and "reg_field (ir_rd ir)" and "ir_rd ir \<noteq> -1 \<and> ir_rd ir \<noteq> 0 \<Longrightarrow> fl_count (freelist t) \<noteq> 0"
  shows "ooo_inv (rename_one ir t)" "same_view t (rename_one ir t)"
proof -
  have t: "rename_ok t" "masks_ok t" "tokens t = waiting t" "rings_ok t" using assms(1) by (simp_all add: ooo_inv_def rename_ok_def)
  obtain p where o: "tokens (rename_one ir t) = tokens t + {#(rob_tail t, p)#}" "waiting (rename_one ir t) = waiting t + {#(rob_tail t, p)#}"
      "shape_ok (rename_one ir t)" "rrat (rename_one ir t) = rrat t"
      "phys (rename_one ir t) = (if ir_rd ir \<noteq> -1 \<and> ir_rd ir \<noteq> 0 then (phys t)[nat (fst (freelist_pop t)) := \<lparr>p_value = 0, p_ready = False\<rparr>] else phys t)"
    by (rule rename_one_tokens [OF assms(1-3)])
  show "ooo_inv (rename_one ir t)"
    using o(1-3) t rename_one_ok(1) [OF t(1) assms(2,4,5)] rename_one_masks(1) [OF t(2) assms(3)] by (simp add: ooo_inv_def)
  show "same_view t (rename_one ir t)"
  proof (cases "ir_rd ir \<noteq> -1 \<and> ir_rd ir \<noteq> 0")
    case True
    have "fl_count (freelist t) > 0" using assms(5) [OF True] t(4) by (auto simp: rings_ok_def free_ring_def)
    note q = freelist_pop_ok(3,4) [OF t(4) this]
    have ok: "renaming_ok (renaming_of t)" using t(1) by (simp add: rename_ok_def)
    note d = targets_distinct [OF ok]
    have m: "fst (freelist_pop t) \<in> set (r_free (renaming_of t))" using q by simp
    have "nat (fst (freelist_pop t)) \<noteq> nat (rrat t ! r)" if "r < 32" for r
    proof -
      have c: "rrat t ! r \<in> set (r_committed (renaming_of t))" using ok that by (simp add: renaming_ok_def renaming_of_def)
      then have "rrat t ! r \<noteq> fst (freelist_pop t)" using d(1) m by auto
      moreover have "0 \<le> rrat t ! r" "0 \<le> fst (freelist_pop t)" using d(2) c m by auto
      ultimately show ?thesis by simp
    qed
    then show ?thesis using o(4,5) True by (simp add: same_view_def committed_def)
  qed (use o(4,5) in \<open>auto simp: same_view_def committed_def\<close>)
qed

text \<open>Steps within the front end only touch its latches.\<close>

lemma front_keeps:
  assumes "t' = t\<lparr>latch_if_id := a, latch_id_rn := b, ooo_fetch_pc := pc\<rparr>" and "ooo_inv t \<Longrightarrow> shape_ok t'"
  shows "keeps t t'"
proof -
  have p: "ren_part t' = ren_part t" "mask_part t' = mask_part t" "tokens t' = tokens t" "waiting t' = waiting t"
    by (simp_all add: assms(1) ren_part_def mask_part_def tokens_def rs_tokens_def unit_tokens_def waiting_def)
  have "same_view t t'" by (simp add: assms(1) same_view_def committed_def)
  then show ?thesis using assms(2) p rename_ok_eq [OF p(1)] masks_ok_eq [OF p(2)] by (simp add: keeps_def ooo_inv_def)
qed

lemma kill_regs: "r \<in> set (kill rs) \<Longrightarrow> \<exists>q\<in>set rs. pr_ir r = pr_ir q" "length (kill rs) = length rs"
  by (auto simp: kill_def)

lemma stage_id_keeps: "keeps t (ooo_stage_id t)"
proof (cases "\<not> pr_valid (latch_if_id t ! 0) \<or> pr_valid (latch_id_rn t ! 0)")
  case False
  then have "ooo_stage_id t = t\<lparr>latch_if_id := kill (latch_if_id t), latch_id_rn := latch_if_id t, ooo_fetch_pc := ooo_fetch_pc t\<rparr>" by (simp add: ooo_stage_id_def)
  then show ?thesis by (rule front_keeps) (use False kill_regs in \<open>fastforce simp: ooo_stage_id_def ooo_inv_def shape_ok_def\<close>)
qed (simp add: ooo_stage_id_def)

lemma shape_latch: "shape_ok t \<Longrightarrow> n < 2 \<Longrightarrow> reg_field (ir_rd (pr_ir (latch_id_rn t ! n)))" by (simp add: shape_ok_def)

lemma put_rn_shape:
  assumes "shape_ok t" and "reg_field (ir_rd (pr_ir r))"
  shows "shape_ok (t\<lparr>latch_id_rn := (latch_id_rn t)[n := r]\<rparr>)"
  using assms set_update_subset_insert [of "latch_id_rn t" n r] by (fastforce simp: shape_ok_def)

lemma compact_keeps: "keeps t (compact t)"
proof (cases "\<not> pr_valid (latch_id_rn t ! 0) \<and> pr_valid (latch_id_rn t ! 1)")
  case True
  let ?r = "latch_id_rn t ! 1"
  have c: "compact t = t\<lparr>latch_if_id := latch_if_id t, latch_id_rn := (latch_id_rn t)[0 := ?r, 1 := ?r\<lparr>pr_valid := False\<rparr>], ooo_fetch_pc := ooo_fetch_pc t\<rparr>"
    using True by (simp add: compact_def Let_def)
  show ?thesis
  proof (rule front_keeps [OF c])
    assume "ooo_inv t"
    then have s: "shape_ok t" by (simp add: ooo_inv_def)
    have "shape_ok ((t\<lparr>latch_id_rn := (latch_id_rn t)[0 := ?r]\<rparr>)\<lparr>latch_id_rn := (latch_id_rn (t\<lparr>latch_id_rn := (latch_id_rn t)[0 := ?r]\<rparr>))[1 := ?r\<lparr>pr_valid := False\<rparr>]\<rparr>)"
      using s shape_latch [OF s, of 1] by (intro put_rn_shape) simp_all
    then show "shape_ok (compact t)" using c by simp
  qed
qed (auto simp: compact_def Let_def)

lemma rename_loop_keeps:
  assumes "\<forall>n\<in>set ns. n < 2" and "used = 16 - length (mask_bits (rs_free_mask t))"
  shows "keeps t (fst (rename_loop ns used (t, st)))"
  using assms
proof (induction ns arbitrary: used t st)
  case (Cons n ns)
  let ?r = "latch_id_rn t ! n"
  let ?ir = "pr_ir ?r"
  show ?case
  proof (cases "ooo_inv t \<and> pr_valid ?r \<and> \<not> (serializing ?ir \<and> (rob_count t > 0 \<or> n > 0)) \<and> rob_count t < 32 \<and> used < 16 \<and>
      (ir_rd ?ir \<noteq> -1 \<and> ir_rd ?ir \<noteq> 0 \<longrightarrow> fl_count (freelist t) \<noteq> 0)")
    case True
    then have t: "ooo_inv t" "rob_count t < 32" "used < 16" "masks_ok t" "shape_ok t" by (simp_all add: ooo_inv_def)
    have f: "rs_free_mask t \<noteq> 0" using Cons.prems(2) t(3) by (auto simp: mask_bits.simps [of 0])
    have rd: "reg_field (ir_rd ?ir)" using shape_latch t(5) Cons.prems(1) by simp
    let ?u = "rename_one ?ir t"
    let ?v = "?u\<lparr>latch_id_rn := (latch_id_rn ?u)[n := ?r\<lparr>pr_valid := False\<rparr>]\<rparr>"
    note k = rename_one_keeps [OF t(1,2) f rd]
    have u: "ooo_inv ?u" "same_view t ?u" using k True by auto
    have "shape_ok ?u" using u(1) by (simp add: ooo_inv_def)
    then have "shape_ok ?v" using rd by (intro put_rn_shape) simp_all
    then have v: "keeps ?u ?v" by (intro front_keeps [where a = "latch_if_id ?u" and t = ?u and pc = "ooo_fetch_pc ?u" and b = "(latch_id_rn ?u)[n := ?r\<lparr>pr_valid := False\<rparr>]"]) simp_all
    have c: "used + 1 = 16 - length (mask_bits (rs_free_mask ?v))"
      using rename_one_masks(2) [OF t(4) f, of ?ir] Cons.prems(2) free_bits [OF t(4)] by simp
    have "rename_loop (n # ns) used (t, st) = rename_loop ns (used + 1) (?v, st)" using True by (auto simp: Let_def)
    moreover have "keeps ?v (fst (rename_loop ns (used + 1) (?v, st)))" using Cons.IH [OF _ c] Cons.prems(1) by simp
    ultimately show ?thesis using u v by (auto simp: keeps_def intro: same_view_trans)
  next
    case False
    then show ?thesis by (auto simp: keeps_def Let_def)
  qed
qed simp

lemma stage_rn_keeps: "keeps t (fst (ooo_stage_rn (t, st)))"
proof -
  let ?u = "16 - length (mask_bits (rs_free_mask t))"
  have "keeps t (fst (rename_loop [0..<2] ?u (t, st)))" by (rule rename_loop_keeps) simp_all
  then have "keeps t (compact (fst (rename_loop [0..<2] ?u (t, st))))" using compact_keeps keeps_trans by blast
  then show ?thesis by (simp add: ooo_stage_rn_def case_prod_beta)
qed

end
