(* ===== verification/Ooo_Inv.thy ===== *)
theory Ooo_Inv
  imports Ooo_Tokens
begin

text \<open>
  The invariant of the out-of-order engine through a whole cycle: every stage keeps it, and only the commit changes the
  committed registers, the way the re-order buffer says.
\<close>

section \<open>Units\<close>

definition eng_keeps :: "machine \<Rightarrow> machine \<Rightarrow> bool" where
  "eng_keeps m m' \<longleftrightarrow> (ooo_inv (ooo m) \<longrightarrow>
     ooo_inv (ooo m') \<and> same_view (ooo m) (ooo m') \<and> cpu m' = cpu m \<and> difftest_active m' = difftest_active m)"

lemma eng_keeps_refl [simp]: "eng_keeps m m" by (simp add: eng_keeps_def)

lemma eng_keeps_trans [trans]: "eng_keeps a b \<Longrightarrow> eng_keeps b c \<Longrightarrow> eng_keeps a c"
  by (auto simp: eng_keeps_def intro: same_view_trans)

lemma eng_keeps_frame: "eng_frame m m' \<Longrightarrow> eng_keeps m m'"
  using eng_frame_fields [of m m'] by (simp add: eng_keeps_def)

lemma eng_keeps_with: "keeps (ooo m) (f (ooo m)) \<Longrightarrow> eng_keeps m (with_ooo f m)"
  by (simp add: eng_keeps_def keeps_def with_ooo_def)

lemma part_keeps:
  assumes "ren_part t' = ren_part t" and "mask_part t' = mask_part t" and "tokens t' = tokens t" and "rob_core t' = rob_core t" and "shape_ok t' = shape_ok t" and "phys t' = phys t"
  shows "keeps t t'"
proof -
  have "ooo_inv t \<Longrightarrow> waiting t' = waiting t" using waiting_core [OF assms(4)] rob_ring_fields(1) [of t] by (simp add: ooo_inv_def rename_ok_def)
  moreover have "same_view t t'" using assms(1,6) by (simp add: same_view_def committed_def ren_part_def)
  ultimately show ?thesis using assms rename_ok_eq [OF assms(1)] masks_ok_eq [OF assms(2)] by (simp add: keeps_def ooo_inv_def)
qed

lemma with_ooo_simps [simp]: "ooo (with_ooo f m) = f (ooo m)" "cpu (with_ooo f m) = cpu m" "difftest_active (with_ooo f m) = difftest_active m"
  by (simp_all add: with_ooo_def)

lemma rest_phys [simp]: "phys (set_rob_ir i ir t) = phys t" "phys (mshr_tick t) = phys t" "phys (free_lsu s t) = phys t" "phys (release_mshr s mi t) = phys t"
  "phys (mark_ready i t) = phys t" "phys (sbuf_push e t) = phys t" "phys (snd (mshr_find_or_alloc a n t)) = phys t"
  by (simp_all add: set_rob_ir_def put_rob_def mshr_tick_def free_lsu_def put_lsu_def release_mshr_def mark_ready_def sbuf_push_def mshr_find_or_alloc_def split: option.split)

lemma set_rob_ir_keeps: "keeps t (set_rob_ir i ir t)" by (rule part_keeps) simp_all

lemma mshr_keeps: "keeps t (mshr_tick t)" "keeps t (snd (mshr_find_or_alloc a n t))" "keeps t (release_mshr s mi t)" by (rule part_keeps; simp)+

lemma redirect_keeps:
  assumes "i < 32" and "ooo_inv (ooo m) \<Longrightarrow> rob_valid (rob (ooo m) ! i)"
  shows "eng_keeps m (redirect i ir m)"
proof (cases "in_ram_range (dnpc ir)")
  case True
  have "keeps (ooo m) (ooo_flush_after i (ooo m))" using flush_ok [OF _ assms(1)] assms(2) by (simp add: keeps_def)
  moreover have "keeps t (t\<lparr>ooo_fetch_pc := pc\<rparr>)" for t pc
    by (rule front_keeps [where a = "latch_if_id t" and b = "latch_id_rn t" and pc = pc]) (simp add: ooo_inv_def shape_ok_def)+
  ultimately have "keeps (ooo m) ((ooo_flush_after i (ooo m))\<lparr>ooo_fetch_pc := dnpc ir\<rparr>)" using keeps_trans by blast
  then show ?thesis using True by (simp add: redirect_def eng_keeps_def keeps_def Let_def)
next
  case False
  then show ?thesis using eng_keeps_with set_rob_ir_keeps by (simp add: redirect_def)
qed

lemma train_keeps: "train_predictor ir m = Inr m' \<Longrightarrow> eng_keeps m m' \<and> ooo m' = ooo m"
  by (auto simp: train_predictor_def eng_keeps_def split: if_splits)

text \<open>A unit that takes an instruction out of its latch and completes it.\<close>

lemma finish_unit:
  assumes "ooo_inv t" and "l_valid l" and "s < 2 \<and> l = latch_int t ! s \<and> u = put_int s (l\<lparr>l_valid := False\<rparr>) t \<or> s = 0 \<and> l = latch_mul t ! s \<and> u = put_mul s (l\<lparr>l_valid := False\<rparr>) t"
  shows "tokens u + {#(l_rob_idx l, l_phys_rd l)#} = tokens t" "rob u = rob t" "rob_valid (rob t ! l_rob_idx l)" "l_rob_idx l < 32"
    "ooo_inv (complete (l_rob_idx l) (l_phys_rd l) ir u)" "same_view t (complete (l_rob_idx l) (l_phys_rd l) ir u)"
proof -
  have s: "shape_ok t" "length (latch_int t) = 2" "length (latch_mul t) = 1" using assms(1) by (simp_all add: ooo_inv_def shape_ok_def)
  have m: "latch_token l \<in># tokens t" using latch_members(1,2) [OF s(1)] assms(2,3) by auto
  show u: "tokens u + {#(l_rob_idx l, l_phys_rd l)#} = tokens t"
    using put_latch_tokens(1) [of s t "l\<lparr>l_valid := False\<rparr>"] put_latch_tokens(2) [of s t "l\<lparr>l_valid := False\<rparr>"] assms(2,3) s
    by (auto simp: opt_token_def latch_token_def)
  show "rob u = rob t" using assms(3) by (auto simp: put_int_def put_mul_def)
  show "rob_valid (rob t ! l_rob_idx l)" "l_rob_idx l < 32" using token_entry [OF assms(1)] m by (auto simp: latch_token_def)
  have p: "ren_part u = ren_part t" "mask_part u = mask_part t" "shape_ok u" "rob_core u = rob_core t" "phys u = phys t" using assms(3) s(1) by auto
  show "ooo_inv (complete (l_rob_idx l) (l_phys_rd l) ir u)" "same_view t (complete (l_rob_idx l) (l_phys_rd l) ir u)"
    by (rule complete_ok [OF assms(1) p u])+
qed

lemma ren_part_valid: "ren_part t' = ren_part t \<Longrightarrow> i < length (rob t) \<Longrightarrow> rob_valid (rob t' ! i) = rob_valid (rob t ! i)"
proof -
  assume "ren_part t' = ren_part t" and i: "i < length (rob t)"
  then have m: "map (\<lambda>e. (slot_of e, rob_valid e)) (rob t') = map (\<lambda>e. (slot_of e, rob_valid e)) (rob t)" by (simp add: ren_part_def)
  then have "length (rob t') = length (rob t)" by (rule map_eq_imp_length_eq)
  then show ?thesis using arg_cong [OF m, of "\<lambda>xs. xs ! i"] i by simp
qed

lemma int_slot_keeps:
  assumes "int_slot s m = Inr m'" and "s < 2"
  shows "eng_keeps m m'"
proof (cases "ooo_inv (ooo m) \<and> l_valid (latch_int (ooo m) ! s)")
  case True
  let ?l = "latch_int (ooo m) ! s"
  let ?i = "l_rob_idx ?l" and ?n = "with_ooo (put_int s (?l\<lparr>l_valid := False\<rparr>)) m"
  have t: "ooo_inv (ooo m)" "l_valid ?l" using True by simp_all
  note f = finish_unit [OF t, of s "ooo ?n"]
  have i: "?i < 32" "rob_valid (rob (ooo ?n) ! ?i)" using f(2-4) assms(2) by simp_all
  have "bind_res (ir_execute (with_sources ?l (rob_ir (rob (ooo ?n) ! ?i))) (cpu ?n) ?n) (\<lambda>(ir, m).
         let m = with_ooo (complete ?i (l_phys_rd ?l) ir) m in
         if ir_type ir = ITYPE_BRANCH \<or> ir_type ir = ITYPE_JAL \<or> ir_type ir = ITYPE_JALR then
           bind_res (train_predictor ir m) (\<lambda>m.
           let predicted = (if bp_predicted_pc ir \<noteq> 0 then bp_predicted_pc ir else ir_snpc ir)
           in Inr (if dnpc ir \<noteq> predicted then redirect ?i ir m else m))
         else Inr m) = Inr m'"
    using assms(1) t(2) i(2) unfolding int_slot_def Let_def by simp
  then obtain ir n where n: "ir_execute (with_sources ?l (rob_ir (rob (ooo ?n) ! ?i))) (cpu ?n) ?n = Inr (ir, n)"
      "(let m = with_ooo (complete ?i (l_phys_rd ?l) ir) n in
         if ir_type ir = ITYPE_BRANCH \<or> ir_type ir = ITYPE_JAL \<or> ir_type ir = ITYPE_JALR then
           bind_res (train_predictor ir m) (\<lambda>m.
           let predicted = (if bp_predicted_pc ir \<noteq> 0 then bp_predicted_pc ir else ir_snpc ir)
           in Inr (if dnpc ir \<noteq> predicted then redirect ?i ir m else m))
         else Inr m) = Inr m'"
    by (auto elim: bind_res_eq_InrE)
  let ?c = "with_ooo (complete ?i (l_phys_rd ?l) ir) n"
  note e = eng_frame_fields [OF ir_execute_eng [OF n(1)]]
  have c: "eng_keeps m ?c" using f(5,6) [of ir] t assms(2) e by (simp add: eng_keeps_def keeps_def)
  have v: "rob_valid (rob (ooo ?c) ! ?i)"
  proof -
    have "ren_part (ooo ?c) = ren_part (ooo ?n)" using e(1) by simp
    moreover have "length (rob (ooo m)) = 32" using t(1) rob_ring_fields(1) [of "ooo m"] unfolding ooo_inv_def rename_ok_def by blast
    ultimately show ?thesis using ren_part_valid [of "ooo ?c" "ooo ?n" ?i] i f(2) assms(2) by simp
  qed
  show ?thesis
  proof (cases "ir_type ir = ITYPE_BRANCH \<or> ir_type ir = ITYPE_JAL \<or> ir_type ir = ITYPE_JALR")
    case True
    then obtain q where q: "train_predictor ir ?c = Inr q" "m' = q \<or> m' = redirect ?i ir q"
      using n(2) by (auto simp: Let_def elim!: bind_res_eq_InrE split: if_splits)
    have "eng_keeps ?c q" "ooo q = ooo ?c" using train_keeps [OF q(1)] by simp_all
    moreover have "eng_keeps q (redirect ?i ir q)" using redirect_keeps [OF i(1), of q] v \<open>ooo q = ooo ?c\<close> by simp
    ultimately show ?thesis using c q(2) eng_keeps_trans by blast
  qed (use n(2) c in \<open>simp add: Let_def\<close>)
qed (use assms(1) in \<open>auto simp: int_slot_def eng_keeps_def Let_def\<close>)

lemma mul_finish_keeps:
  assumes "mul_finish 0 m = Inr m'" and "l_valid (latch_mul (ooo m) ! 0)"
  shows "eng_keeps m m'"
proof (cases "ooo_inv (ooo m)")
  case True
  let ?l = "latch_mul (ooo m) ! 0"
  let ?i = "l_rob_idx ?l" and ?n = "with_ooo (put_mul 0 (?l\<lparr>l_valid := False\<rparr>)) m"
  note f = finish_unit [OF True assms(2), of 0 "ooo ?n"]
  have "rob_valid (rob (ooo ?n) ! ?i)" using f(2,3) by simp
  then obtain ir n where n: "ir_execute (with_sources ?l (rob_ir (rob (ooo ?n) ! ?i))) (cpu ?n) ?n = Inr (ir, n)" "m' = with_ooo (complete ?i (l_phys_rd ?l) ir) n"
    using assms(1) unfolding mul_finish_def Let_def by auto
  note e = eng_frame_fields [OF ir_execute_eng [OF n(1)]]
  show ?thesis using f(5,6) [of ir] True e by (simp add: n(2) eng_keeps_def)
qed (simp add: eng_keeps_def)

lemma mul_wait_keeps:
  assumes "l_valid l = l_valid (latch_mul t ! 0)" and "l_rob_idx l = l_rob_idx (latch_mul t ! 0)" and "l_phys_rd l = l_phys_rd (latch_mul t ! 0)"
  shows "keeps t (put_mul 0 l t)"
proof (cases "shape_ok t")
  case True
  then have "tokens (put_mul 0 l t) = tokens t"
    using put_latch_tokens(2) [of 0 t l] assms by (simp add: shape_ok_def opt_token_def latch_token_def)
  then show ?thesis by (intro part_keeps) simp_all
qed (simp add: keeps_def ooo_inv_def)

lemma unit_mul_keeps:
  assumes "ooo_unit_mul m = Inr m'"
  shows "eng_keeps m m'"
proof (cases "ooo_inv (ooo m) \<and> l_valid (latch_mul (ooo m) ! 0)")
  case True
  let ?l = "latch_mul (ooo m) ! 0"
  have t: "ooo_inv (ooo m)" "l_valid ?l" "shape_ok (ooo m)" using True by (simp_all add: ooo_inv_def)
  have v: "rob_valid (rob (ooo m) ! l_rob_idx ?l)" using finish_unit(3) [OF t(1,2), of 0 "put_mul 0 (?l\<lparr>l_valid := False\<rparr>) (ooo m)"] by simp
  have w: "keeps (ooo m) (put_mul 0 (?l\<lparr>l_cycles_rem := k\<rparr>) (ooo m))" for k by (rule mul_wait_keeps) simp_all
  have ew: "eng_keeps m (with_ooo (put_mul 0 (?l\<lparr>l_cycles_rem := k\<rparr>)) m)" for k by (rule eng_keeps_with) (rule w)
  have l: "latch_mul (put_mul 0 x t) ! 0 = x" if "shape_ok t" for x t using that by (simp add: put_mul_def shape_ok_def)
  consider k where "m' = with_ooo (put_mul 0 (?l\<lparr>l_cycles_rem := k\<rparr>)) m" | k where "mul_finish 0 (with_ooo (put_mul 0 (?l\<lparr>l_cycles_rem := k\<rparr>)) m) = Inr m'" | "mul_finish 0 m = Inr m'"
    using assms t(2) v unfolding ooo_unit_mul_def mul_slot_def Let_def by (auto split: if_splits)
  then show ?thesis
  proof cases
    case (2 k)
    have "eng_keeps (with_ooo (put_mul 0 (?l\<lparr>l_cycles_rem := k\<rparr>)) m) m'" by (rule mul_finish_keeps [OF 2]) (use l [OF t(3)] t(2) in simp)
    then show ?thesis using ew eng_keeps_trans by blast
  qed (use ew mul_finish_keeps t(2) in auto)
qed (use assms in \<open>auto simp: ooo_unit_mul_def mul_slot_def eng_keeps_def Let_def\<close>)

section \<open>The load/store unit\<close>

lemma live_entry:
  assumes "ooo_inv t" and "s < 2" and "live_lsu (latch_lsu t ! s)"
  shows "(l_rob_idx (latch_lsu t ! s), l_phys_rd (latch_lsu t ! s)) \<in># tokens t" "rob_valid (rob t ! l_rob_idx (latch_lsu t ! s))" "l_rob_idx (latch_lsu t ! s) < 32"
    "length (latch_lsu t) = 2"
proof -
  show m: "(l_rob_idx (latch_lsu t ! s), l_phys_rd (latch_lsu t ! s)) \<in># tokens t"
    using latch_members(3) [of t s] assms by (simp add: ooo_inv_def latch_token_def)
  show "rob_valid (rob t ! l_rob_idx (latch_lsu t ! s))" "l_rob_idx (latch_lsu t ! s) < 32" using token_entry [OF assms(1) m] by simp_all
  show "length (latch_lsu t) = 2" using assms(1) by (simp add: ooo_inv_def shape_ok_def)
qed

lemma free_lsu_live:
  assumes "ooo_inv t" and "s < 2" and "live_lsu (latch_lsu t ! s)" and "latch_lsu u = latch_lsu t" and "tokens u = tokens t"
  shows "tokens (free_lsu s u) + {#(l_rob_idx (latch_lsu t ! s), l_phys_rd (latch_lsu t ! s))#} = tokens t"
  using free_lsu_tokens [of s u] live_entry(4) [OF assms(1-3)] assms by (simp add: opt_token_def latch_token_def)

lemma rest_lsu [simp]: "latch_lsu (set_phys p v t) = latch_lsu t" "latch_lsu (set_rob_ir i ir t) = latch_lsu t" "latch_lsu (mark_ready i t) = latch_lsu t"
  "latch_lsu (release_mshr s mi t) = latch_lsu t" "latch_lsu (put_rob i e t) = latch_lsu t"
  by (simp_all add: set_phys_def set_rob_ir_def mark_ready_def put_rob_def release_mshr_def)

lemma mask_keep: "mask_part t' = mask_part t \<Longrightarrow> masks_ok t \<Longrightarrow> masks_ok t'"
  using masks_ok_eq by blast

lemma set_phys_phys [simp]: "phys (set_phys p v t) = (phys t)[nat p := \<lparr>p_value = v, p_ready = True\<rparr>]" by (simp add: set_phys_def)

lemma cdb_set_masks: "masks_ok t \<Longrightarrow> masks_ok (cdb_broadcast p (set_phys p v t))"
  using mask_keep [of "set_phys p v t" t] cdb_masks by simp

lemma rob_core_set_ready [simp]: "rob_core (set_rob_ir i ir (mark_ready i t)) = rob_core (mark_ready i t)" by simp

lemma lsu_fill_keeps:
  assumes "lsu_fill s m = Inr m'" and "s < 2" and "live_lsu (latch_lsu (ooo m) ! s)"
  shows "eng_keeps m m'"
proof (cases "ooo_inv (ooo m)")
  case True
  let ?t = "ooo m"
  let ?l = "latch_lsu ?t ! s"
  let ?i = "l_rob_idx ?l" and ?p = "l_phys_rd ?l"
  let ?ir = "rob_ir (rob ?t ! ?i)"
  have t: "masks_ok ?t" "shape_ok ?t" using True by (simp_all add: ooo_inv_def)
  note le = live_entry(1) [OF True assms(2,3)]
  let ?pa = "mem_addr ?ir AND 0xffffffff"
  show ?thesis
  proof (cases "\<not> in_ram_range ?pa \<and> ?pa < 0xa0000000")
    case fault: True
    define u where "u = set_rob_ir ?i (?ir\<lparr>fault := True, result := 0\<rparr>) ?t"
    define v where "v = (if ?p > 0 then cdb_broadcast ?p (set_phys ?p 0 u) else u)"
    have m': "m' = m\<lparr>ooo := free_lsu s (mark_ready ?i v)\<rparr>" using assms(1) fault by (auto simp: lsu_fill_def u_def v_def with_ooo_def Let_def)
    have u: "masks_ok u" "tokens u = tokens ?t" "latch_lsu u = latch_lsu ?t" "shape_ok u" "ren_part u = ren_part ?t" "rob_core u = rob_core ?t" "phys u = phys ?t"
      using mask_keep [of u ?t] t by (simp_all add: u_def)
    have v: "masks_ok v" "tokens v = tokens ?t" "latch_lsu v = latch_lsu ?t" "shape_ok v" "ren_part v = ren_part ?t" "rob_core v = rob_core ?t"
        "?p \<ge> 0 \<and> phys v = (phys ?t)[nat ?p := \<lparr>p_value = 0, p_ready = True\<rparr>] \<or> phys v = phys ?t"
      using u cdb_set_masks [OF u(1)] by (simp_all add: v_def)
    let ?w = "free_lsu s (mark_ready ?i v)"
    have w: "tokens ?w + {#(?i, ?p)#} = tokens ?t" using free_lsu_live [OF True assms(2,3), of "mark_ready ?i v"] v by simp
    have "masks_ok ?w" using mask_keep [of ?w v] v by simp
    then have "ooo_inv ?w" "same_view ?t ?w"
      using finish_ok [OF True le _ _ _ w, of "\<lparr>p_value = 0, p_ready = True\<rparr>"] v by (simp_all add: rob_core_ready)
    then show ?thesis by (simp add: m' eng_keeps_def)
  next
    case False
    let ?val = "\<lambda>raw n. stlf_rob (ooo n) ?i ?ir (stlf_sbuf (ooo n) ?ir (extend_load (mem_sign ?ir) (mem_width ?ir) raw))"
    have "bind_res (vaddr_fill_and_read (mem_addr ?ir) (mem_width ?ir) m) (\<lambda>(raw, n). bind_res (guard (0 \<le> ?p) Out_of_bounds) (\<lambda>_.
        Inr (with_ooo (\<lambda>t. free_lsu s (mark_ready ?i (set_rob_ir ?i (?ir\<lparr>result := ?val raw n\<rparr>) (cdb_broadcast ?p (set_phys ?p (?val raw n)
          (if l_mshr_idx ?l \<ge> 0 then release_mshr s (l_mshr_idx ?l) t else t)))))) n))) = Inr m'"
      using assms(1) False unfolding lsu_fill_def Let_def by (simp only: if_False)
    then obtain raw n where n: "vaddr_fill_and_read (mem_addr ?ir) (mem_width ?ir) m = Inr (raw, n)" and p: "0 \<le> ?p"
      and m': "m' = with_ooo (\<lambda>t. free_lsu s (mark_ready ?i (set_rob_ir ?i (?ir\<lparr>result := ?val raw n\<rparr>) (cdb_broadcast ?p (set_phys ?p (?val raw n)
          (if l_mshr_idx ?l \<ge> 0 then release_mshr s (l_mshr_idx ?l) t else t)))))) n"
      by (elim bind_res_eq_InrE) (auto simp: guard_eq_Inr elim!: bind_res_eq_InrE)
    define r where "r = ?val raw n"
    note r = m' [folded r_def]
    note e = eng_frame_fields [OF io_eng [OF vaddr_fill_frame [OF n]]]
    define u where "u = (if l_mshr_idx ?l \<ge> 0 then release_mshr s (l_mshr_idx ?l) ?t else ?t)"
    have u: "masks_ok u" "tokens u = tokens ?t" "latch_lsu u = latch_lsu ?t" "shape_ok u" "ren_part u = ren_part ?t" "rob_core u = rob_core ?t" "phys u = phys ?t"
      using mask_keep [of u ?t] t by (simp_all add: u_def)
    define v where "v = set_rob_ir ?i (?ir\<lparr>result := r\<rparr>) (cdb_broadcast ?p (set_phys ?p r u))"
    have v: "masks_ok v" "tokens v = tokens ?t" "latch_lsu v = latch_lsu ?t" "shape_ok v" "ren_part v = ren_part ?t" "rob_core v = rob_core ?t"
        "?p \<ge> 0 \<and> phys v = (phys ?t)[nat ?p := \<lparr>p_value = r, p_ready = True\<rparr>] \<or> phys v = phys ?t"
      using u p mask_keep [OF _ cdb_set_masks [OF u(1), of ?p r], of v] by (simp_all add: v_def)
    let ?w = "free_lsu s (mark_ready ?i v)"
    have w: "tokens ?w + {#(?i, ?p)#} = tokens ?t" using free_lsu_live [OF True assms(2,3), of "mark_ready ?i v"] v by simp
    have "masks_ok ?w" using mask_keep [of ?w v] v by simp
    then have "ooo_inv ?w" "same_view ?t ?w"
      using finish_ok [OF True le _ _ _ w, of "\<lparr>p_value = r, p_ready = True\<rparr>"] v by (simp_all add: rob_core_ready)
    moreover have "ooo m' = ?w" using r e by (simp add: v_def u_def)
    ultimately show ?thesis using r e by (simp add: eng_keeps_def)
  qed
qed (simp add: eng_keeps_def)

lemma count_simps [simp]:
  "ren_part (t\<lparr>unready_store_count := k\<rparr>) = ren_part t" "mask_part (t\<lparr>unready_store_count := k\<rparr>) = mask_part t" "shape_ok (t\<lparr>unready_store_count := k\<rparr>) = shape_ok t"
  "rob_core (t\<lparr>unready_store_count := k\<rparr>) = rob_core t" "tokens (t\<lparr>unready_store_count := k\<rparr>) = tokens t"
  by (simp_all add: ren_part_def mask_part_def shape_ok_def rob_core_def tokens_def rs_tokens_def unit_tokens_def)

lemma lsu_wait_keeps:
  assumes "live_lsu l = live_lsu (latch_lsu t ! s)" and "latch_token l = latch_token (latch_lsu t ! s)" and "s < 2"
  shows "keeps t (put_lsu s l t)"
proof (cases "shape_ok t")
  case True
  then have "tokens (put_lsu s l t) = tokens t" using put_latch_tokens(3) [of s t l] assms by (simp add: shape_ok_def)
  then show ?thesis by (intro part_keeps) simp_all
qed (simp add: keeps_def ooo_inv_def)

lemma store_done:
  assumes "ooo_inv t" and "s < 2" and "live_lsu (latch_lsu t ! s)" and "i = l_rob_idx (latch_lsu t ! s)"
  shows "keeps t (free_lsu s ((put_rob i ((rob t ! i)\<lparr>store_data := d, rob_ready := True\<rparr>) t)\<lparr>unready_store_count := k\<rparr>))"
proof -
  let ?p = "l_phys_rd (latch_lsu t ! s)"
  define u where "u = (put_rob i ((rob t ! i)\<lparr>store_data := d, rob_ready := True\<rparr>) t)\<lparr>unready_store_count := k\<rparr>"
  have t: "masks_ok t" "shape_ok t" "length (rob t) = 32" using assms(1) rob_ring_fields(1) [of t] by (simp_all add: ooo_inv_def rename_ok_def)
  have u: "tokens u = tokens t" "latch_lsu u = latch_lsu t" "shape_ok u" "mask_part u = mask_part t" "ren_part u = ren_part t" "phys u = phys t"
    "rob_core u = rob_core (mark_ready i t)"
  proof -
    show "tokens u = tokens t" "shape_ok u" "mask_part u = mask_part t" "ren_part u = ren_part t" using t(2) by (simp_all add: u_def put_rob_same slot_of_def)
    show "latch_lsu u = latch_lsu t" "phys u = phys t" by (simp_all add: u_def put_rob_def)
    show "rob_core u = rob_core (mark_ready i t)" by (simp add: u_def put_rob_def mark_ready_def rob_core_def map_update pending_def)
  qed
  have w: "tokens (free_lsu s u) + {#(i, ?p)#} = tokens t" using free_lsu_live [OF assms(1-3) u(2,1)] assms(4) by simp
  have "(i, ?p) \<in># tokens t" using live_entry(1) [OF assms(1-3)] assms(4) by simp
  moreover have "masks_ok (free_lsu s u)" using mask_keep [of "free_lsu s u" t] t u by simp
  ultimately show ?thesis using finish_ok [OF assms(1) _ _ _ _ w] u unfolding u_def [symmetric] keeps_def by simp
qed

lemma lsu_first_keeps:
  assumes "lsu_first s m = Inr m'" and "s < 2" and "live_lsu (latch_lsu (ooo m) ! s)"
  shows "eng_keeps m m'"
proof (cases "ooo_inv (ooo m)")
  case True
  let ?l = "latch_lsu (ooo m) ! s"
  let ?i = "l_rob_idx ?l"
  obtain ir n where n: "ir_execute (with_sources ?l (rob_ir (rob (ooo m) ! ?i))) (cpu m) m = Inr (ir, n)"
    and m': "(let m = with_ooo (set_rob_ir ?i ir) n in
     if ir_type ir = ITYPE_STORE then
       Inr (with_ooo (\<lambda>t. free_lsu s ((put_rob ?i ((rob t ! ?i)\<lparr>store_data := src2_val ir, rob_ready := True\<rparr>) t)
         \<lparr>unready_store_count := unready_store_count t - 1\<rparr>)) m)
     else if mem_addr ir \<ge> 0xa0000000 then
       if ?i \<noteq> rob_head (ooo m) then Inr (with_ooo (put_lsu s (?l\<lparr>l_cycles_rem := -2\<rparr>)) m) else lsu_fill s m
     else
       bind_res (vaddr_probe_level (mem_addr ir) m) (\<lambda>(level, m).
       let lat = level_to_lat level in
       if lat = 1 then lsu_fill s m
       else
         let (mi, t) = mshr_find_or_alloc (mem_addr ir AND NOT 63) lat (ooo m); m = m\<lparr>ooo := t\<rparr> in
         Inr (if mi = -1 then m else with_ooo (put_lsu s (?l\<lparr>l_mshr_idx := mi, l_cycles_rem := 0\<rparr>)) m))) = Inr m'"
    using assms(1) unfolding lsu_first_def Let_def by auto
  define q where "q = with_ooo (set_rob_ir ?i ir) n"
  have mq: "eng_keeps m q" using eng_keeps_frame [OF ir_execute_eng [OF n]] eng_keeps_with [of n "set_rob_ir ?i ir"] set_rob_ir_keeps eng_keeps_trans by (simp add: q_def)
  have q: "latch_lsu (ooo q) = latch_lsu (ooo m)" "ooo_inv (ooo q)" using eng_frame_fields(1) [OF ir_execute_eng [OF n]] mq True by (simp_all add: q_def eng_keeps_def)
  have wait: "keeps t (put_lsu s l t)" if "latch_lsu t ! s = ?l" "live_lsu l = live_lsu ?l" "latch_token l = latch_token ?l" for t l
    using lsu_wait_keeps [of l t s] that assms(2) by simp
  have fill: "eng_keeps r m'" if "lsu_fill s r = Inr m'" "latch_lsu (ooo r) = latch_lsu (ooo m)" for r
    using lsu_fill_keeps [OF that(1) assms(2)] assms(3) that(2) by simp
  have "eng_keeps q m'"
  proof (cases "ir_type ir = ITYPE_STORE")
    case True
    then have m': "m' = with_ooo (\<lambda>t. free_lsu s ((put_rob ?i ((rob t ! ?i)\<lparr>store_data := src2_val ir, rob_ready := True\<rparr>) t)
         \<lparr>unready_store_count := unready_store_count t - 1\<rparr>)) q"
      using m' unfolding q_def [symmetric] Let_def by simp
    have "keeps (ooo q) (ooo m')" using store_done [OF q(2) assms(2), of ?i] q(1) assms(3) m' by simp
    then show ?thesis using m' by (simp add: eng_keeps_def keeps_def)
  next
    case load: False
    show ?thesis
    proof (cases "mem_addr ir \<ge> 0xa0000000")
      case True
      have "eng_keeps q (with_ooo (put_lsu s (?l\<lparr>l_cycles_rem := -2\<rparr>)) q)"
        by (rule eng_keeps_with, rule wait) (use q(1) in \<open>simp_all add: live_lsu_def latch_token_def\<close>)
      moreover have "m' = with_ooo (put_lsu s (?l\<lparr>l_cycles_rem := -2\<rparr>)) q \<or> lsu_fill s q = Inr m'"
        using m' load True unfolding q_def [symmetric] Let_def by (simp split: if_splits)
      ultimately show ?thesis using fill [of q] q(1) by auto
    next
      case False
      then have p: "bind_res (vaddr_probe_level (mem_addr ir) q) (\<lambda>(level, m).
         let lat = level_to_lat level in
         if lat = 1 then lsu_fill s m
         else
           let (mi, t) = mshr_find_or_alloc (mem_addr ir AND NOT 63) lat (ooo m); m = m\<lparr>ooo := t\<rparr> in
           Inr (if mi = -1 then m else with_ooo (put_lsu s (?l\<lparr>l_mshr_idx := mi, l_cycles_rem := 0\<rparr>)) m)) = Inr m'"
        using m' load unfolding q_def [symmetric] by (simp only: Let_def if_False)
      then obtain v r where r: "vaddr_probe_level (mem_addr ir) q = Inr (v, r)" by (cases "vaddr_probe_level (mem_addr ir) q") auto
      obtain mi t where t: "mshr_find_or_alloc (mem_addr ir AND NOT 63) (level_to_lat v) (ooo r) = (mi, t)"
        by (cases "mshr_find_or_alloc (mem_addr ir AND NOT 63) (level_to_lat v) (ooo r)")
      note e = io_eng [OF vaddr_probe_frame [OF r]]
      have l: "latch_lsu (ooo r) = latch_lsu (ooo m)" using eng_frame_fields(1) [OF e] q(1) by simp
      have "eng_keeps r m'"
      proof (cases "level_to_lat v = 1")
        case True
        then show ?thesis using fill [OF _ l] p r by simp
      next
        case False
        then have m': "m' = (if mi = -1 then r\<lparr>ooo := t\<rparr> else with_ooo (put_lsu s (?l\<lparr>l_mshr_idx := mi, l_cycles_rem := 0\<rparr>)) (r\<lparr>ooo := t\<rparr>))"
          using p r t by (auto simp: Let_def)
        have k: "keeps (ooo r) t" using mshr_keeps(2) [of "ooo r" "mem_addr ir AND NOT 63" "level_to_lat v"] t by simp
        have "latch_lsu t = latch_lsu (ooo r)" using t by (auto simp: mshr_find_or_alloc_def split: option.splits)
        then have "keeps t (put_lsu s (?l\<lparr>l_mshr_idx := mi, l_cycles_rem := 0\<rparr>) t)" using wait [of t] l by (simp add: live_lsu_def latch_token_def)
        then have "keeps (ooo r) (ooo m')" using k keeps_trans m' by auto
        then show ?thesis using m' by (simp add: eng_keeps_def keeps_def)
      qed
      then show ?thesis using eng_keeps_frame [OF e] eng_keeps_trans by blast
    qed
  qed
  then show ?thesis using mq eng_keeps_trans by blast
qed (simp add: eng_keeps_def)

lemma lsu_flushed_keeps:
  assumes "lsu_flushed s m = Inr m'" and "s < 2" and "\<not> live_lsu (latch_lsu (ooo m) ! s)"
  shows "eng_keeps m m'"
proof -
  have f: "keeps t (free_lsu s t)" if "latch_lsu t = latch_lsu (ooo m)" for t
    unfolding free_lsu_def using assms(2,3) that by (intro lsu_wait_keeps) (simp_all add: live_lsu_def latch_token_def)
  have fr: "keeps t (free_lsu s (release_mshr s mi t))" if "latch_lsu t = latch_lsu (ooo m)" for t mi
    using f [of "release_mshr s mi t"] mshr_keeps(3) [of t s mi] that keeps_trans by simp
  consider "m' = m" | "m' = with_ooo (free_lsu s) m" | a b n mi where "vaddr_fill_and_read a 8 m = Inr (b, n)" "m' = with_ooo (\<lambda>t. free_lsu s (release_mshr s mi t)) n"
    using assms(1) unfolding lsu_flushed_def Let_def by (auto split: if_splits)
  then show ?thesis
  proof cases
    case (3 a b n mi)
    note e = io_eng [OF vaddr_fill_frame [OF 3(1)]]
    have "keeps (ooo n) (free_lsu s (release_mshr s mi (ooo n)))" using fr eng_frame_fields(1) [OF e] by simp
    then have "eng_keeps n m'" using 3(2) eng_keeps_with [of n "\<lambda>t. free_lsu s (release_mshr s mi t)"] by simp
    then show ?thesis using eng_keeps_frame [OF e] eng_keeps_trans by blast
  qed (use f eng_keeps_with in auto)
qed

lemma lsu_slot_keeps:
  assumes "lsu_slot s m = Inr m'" and "s < 2"
  shows "eng_keeps m m'"
proof (cases "ooo_inv (ooo m)")
  case True
  let ?l = "latch_lsu (ooo m) ! s"
  show ?thesis
  proof (cases "live_lsu ?l")
    case live: True
    then have v: "rob_valid (rob (ooo m) ! l_rob_idx ?l)" "l_valid ?l" "\<not> l_flushed ?l" using live_entry(2) [OF True assms(2)] by (simp_all add: live_lsu_def)
    then have "m' = m \<or> lsu_first s m = Inr m' \<or> lsu_fill s m = Inr m'" using assms(1) unfolding lsu_slot_def Let_def by (auto split: if_splits)
    then show ?thesis using lsu_first_keeps [OF _ assms(2) live] lsu_fill_keeps [OF _ assms(2) live] by auto
  next
    case False
    then have "m' = m \<or> lsu_flushed s m = Inr m'" using assms(1) unfolding lsu_slot_def Let_def live_lsu_def by (auto split: if_splits)
    then show ?thesis using lsu_flushed_keeps [OF _ assms(2) False] by auto
  qed
qed (simp add: eng_keeps_def)

lemma units_keep:
  assumes "bind_res (ooo_unit_int (with_ooo mshr_tick m)) (\<lambda>m. bind_res (ooo_unit_mul m) ooo_unit_lsu) = Inr m'"
  shows "eng_keeps m m'"
proof -
  obtain a b c d where s: "int_slot 0 (with_ooo mshr_tick m) = Inr a" "int_slot 1 a = Inr b" "ooo_unit_mul b = Inr c" "lsu_slot 0 c = Inr d" "lsu_slot 1 d = Inr m'"
    using assms by (auto simp: ooo_unit_int_def ooo_unit_lsu_def)
  have "eng_keeps m (with_ooo mshr_tick m)" by (rule eng_keeps_with) (rule mshr_keeps(1))
  also have "eng_keeps \<dots> a" by (rule int_slot_keeps [OF s(1)]) simp
  also have "eng_keeps a b" by (rule int_slot_keeps [OF s(2)]) simp
  also have "eng_keeps b c" by (rule unit_mul_keeps [OF s(3)])
  also have "eng_keeps c d" by (rule lsu_slot_keeps [OF s(4)]) simp
  also have "eng_keeps d m'" by (rule lsu_slot_keeps [OF s(5)]) simp
  finally show ?thesis .
qed

section \<open>Front end and store buffer\<close>

lemma mid_stages_keep: "eng_keeps m (mid_stages m)"
proof -
  obtain t st where r: "ooo_stage_rn (ooo_stage_is (ooo m), ooo_stats m) = (t, st)" by (cases "ooo_stage_rn (ooo_stage_is (ooo m), ooo_stats m)")
  have "keeps (ooo m) (ooo_stage_id t)"
    using issue_keeps [of "ooo m"] stage_rn_keeps [of "ooo_stage_is (ooo m)" "ooo_stats m"] stage_id_keeps [of t] r keeps_trans by (metis fst_conv)
  then show ?thesis using r by (simp add: mid_stages_def eng_keeps_def keeps_def)
qed

lemma fetch_one_keeps:
  assumes "fetch_one s m = Inr (go, m')"
  shows "eng_keeps m m'"
proof -
  have pc: "keeps t (t\<lparr>ooo_fetch_pc := pc\<rparr>)" for t pc
    by (rule front_keeps [where a = "latch_if_id t" and b = "latch_id_rn t" and pc = pc]) (simp add: ooo_inv_def shape_ok_def)+
  have pi: "keeps t (t\<lparr>latch_if_id := (latch_if_id t)[s := \<lparr>pr_ir = ir, pr_valid = True\<rparr>], ooo_fetch_pc := pc\<rparr>)" if "reg_field (ir_rd ir)" for t ir pc
    by (rule front_keeps [where a = "(latch_if_id t)[s := \<lparr>pr_ir = ir, pr_valid = True\<rparr>]" and b = "latch_id_rn t" and pc = pc])
      (use that set_update_subset_insert [of "latch_if_id t" s "\<lparr>pr_ir = ir, pr_valid = True\<rparr>"] in \<open>force simp: ooo_inv_def shape_ok_def\<close>)+
  have put: "eng_keeps n (put_if s ir pc n)" if "reg_field (ir_rd ir)" for n ir pc unfolding put_if_def by (rule eng_keeps_with) (rule pi [OF that])
  have pr: "eng_keeps n n' " if "ooo_predict pc raw n = Inr (r, n')" for pc raw n r n'
    using that by (auto simp: ooo_predict_def eng_keeps_def split: if_splits)
  let ?pc = "ooo_fetch_pc (ooo m) AND 0xffffffff"
  show ?thesis
  proof (cases "in_ram_range ?pc")
    case True
    then obtain w n where n: "vaddr_ifetch ?pc 4 m = Inr (w, n)" using assms unfolding fetch_one_def Let_def by auto
    have mn: "eng_keeps m n" using eng_keeps_frame io_eng vaddr_ifetch_frame [OF n] by blast
    have "\<exists>q ir pc. reg_field (ir_rd ir) \<and> eng_keeps n q \<and> m' = put_if s ir pc q"
    proof (cases "(g_bpred_mode n \<or> g_bpred2_mode n) \<and> is_control (ucast w)")
      case c: True
      then obtain r q where q: "ooo_predict ?pc (ucast w) n = Inr (r, q)" using assms True n unfolding fetch_one_def Let_def by auto
      let ?hit = "bpr_taken r \<and> bpr_btb_hit r"
      let ?next = "if ?hit then bpr_target r else ?pc + 4"
      let ?ir = "(ir_decode (ucast w) ?pc (?pc + 4) (pr_ir (latch_if_id (ooo n) ! s)) n)\<lparr>ras_top_snap := ras_top (bpred_state n),
        ras_cnt_snap := ras_count (bpred_state n), bp_predict_taken := bpr_taken r, bp_predicted_pc := ?next\<rparr>"
      have "m' = put_if s ?ir ?next q" using assms True n c q unfolding fetch_one_def Let_def by simp
      moreover have "reg_field (ir_rd ?ir)" by (simp add: decode_rd)
      ultimately show ?thesis using pr [OF q] by blast
    next
      case False
      let ?ir = "(ir_decode (ucast w) ?pc (?pc + 4) (pr_ir (latch_if_id (ooo n) ! s)) n)\<lparr>bp_predict_taken := False, bp_predicted_pc := ?pc + 4\<rparr>"
      have "m' = put_if s ?ir (?pc + 4) n" using assms True n False unfolding fetch_one_def Let_def by (auto simp del: de_Morgan_conj)
      moreover have "reg_field (ir_rd ?ir)" by (simp add: decode_rd)
      ultimately show ?thesis using eng_keeps_refl by blast
    qed
    then show ?thesis using mn put eng_keeps_trans by blast
  next
    case False
    then show ?thesis using assms eng_keeps_with [of m "\<lambda>t. t\<lparr>ooo_fetch_pc := ?pc + 4\<rparr>"] pc by (simp add: fetch_one_def Let_def)
  qed
qed

lemma stage_if_keeps: "ooo_stage_if m = Inr m' \<Longrightarrow> eng_keeps m m'"
proof -
  have "fetch_loop ss m = Inr m' \<Longrightarrow> eng_keeps m m'" for ss m
    by (induction ss arbitrary: m) (auto dest: fetch_one_keeps intro: eng_keeps_trans split: if_splits)
  then show "ooo_stage_if m = Inr m' \<Longrightarrow> eng_keeps m m'" by (auto simp: ooo_stage_if_def split: if_splits simp del: fetch_loop.simps)
qed

lemma drain_keeps: "ooo_drain_store_buf m = Inr m' \<Longrightarrow> eng_keeps m m'"
proof -
  have sb: "keeps t (t\<lparr>sbuf := a, sbuf_head := h, sbuf_count := c\<rparr>)" "keeps t (t\<lparr>sbuf_drain_tick := d\<rparr>)" for t a h c d
    by (rule part_keeps; simp add: ren_part_def mask_part_def tokens_def rs_tokens_def unit_tokens_def rob_core_def shape_ok_def)+
  assume a: "ooo_drain_store_buf m = Inr m'"
  have tick: "eng_keeps m (m\<lparr>ooo := (ooo m)\<lparr>sbuf_drain_tick := d\<rparr>\<rparr>)" for d using sb(2) by (simp add: eng_keeps_def keeps_def)
  show ?thesis
  proof (cases "sbuf_count (ooo m) = 0 \<or> g_num_cores m > 1 \<and> sbuf_drain_tick (ooo m) > 0")
    case False
    let ?h = "sbuf_head (ooo m)"
    let ?se = "sbuf (ooo m) ! ?h"
    have c: "\<not> sbuf_count (ooo m) = 0" "\<not> (g_num_cores m > 1 \<and> sbuf_drain_tick (ooo m) > 0)" using False by auto
    define n where "n = (if g_num_cores m > 1 then m\<lparr>ooo := (ooo m)\<lparr>sbuf_drain_tick := 7\<rparr>\<rparr> else m)"
    have "bind_res (vaddr_write (se_addr ?se) (se_width ?se) (se_data ?se) n) (\<lambda>m.
       Inr (with_ooo (\<lambda>t. t\<lparr>sbuf := (sbuf t)[?h := ?se\<lparr>se_valid := False\<rparr>], sbuf_head := (?h + 1) mod 16, sbuf_count := sbuf_count t - 1\<rparr>) m)) = Inr m'"
      using a c unfolding ooo_drain_store_buf_def Let_def n_def [symmetric] by (simp only: if_False)
    then obtain p where p: "vaddr_write (se_addr ?se) (se_width ?se) (se_data ?se) n = Inr p"
        "m' = with_ooo (\<lambda>t. t\<lparr>sbuf := (sbuf t)[?h := ?se\<lparr>se_valid := False\<rparr>], sbuf_head := (?h + 1) mod 16, sbuf_count := sbuf_count t - 1\<rparr>) p" by auto
    have "eng_keeps m n" using tick by (simp add: n_def)
    moreover have "eng_keeps n p" using eng_keeps_frame io_eng vaddr_write_frame [OF p(1)] by blast
    moreover have "eng_keeps p m'" unfolding p(2) by (rule eng_keeps_with) (rule sb(1))
    ultimately show ?thesis using eng_keeps_trans by blast
  qed (use a tick in \<open>auto simp: ooo_drain_store_buf_def Let_def split: if_splits\<close>)
qed

section \<open>Commit\<close>

text \<open>The architectural registers are those of the committed map.\<close>

definition arch_ok :: "machine \<Rightarrow> bool" where
  "arch_ok m \<longleftrightarrow> length (gpr (cpu m)) = 32 \<and> gpr (cpu m) ! 0 = 0 \<and> (\<forall>r. 0 < r \<and> r < 32 \<longrightarrow> gpr (cpu m) ! r = committed (ooo m) r)"

lemma arch_ok_keeps: "eng_keeps m m' \<Longrightarrow> ooo_inv (ooo m) \<Longrightarrow> arch_ok m \<Longrightarrow> arch_ok m'"
  by (simp add: eng_keeps_def arch_ok_def same_view_def)

definition commit_keeps :: "machine \<Rightarrow> machine \<Rightarrow> bool" where
  "commit_keeps m m' \<longleftrightarrow> (ooo_inv (ooo m) \<longrightarrow> ooo_inv (ooo m') \<and> difftest_active m' = difftest_active m \<and>
     (\<not> difftest_active m \<and> arch_ok m \<longrightarrow> arch_ok m'))"

lemma commit_keeps_refl [simp]: "commit_keeps m m" by (simp add: commit_keeps_def)

lemma commit_keeps_trans [trans]: "commit_keeps a b \<Longrightarrow> commit_keeps b c \<Longrightarrow> commit_keeps a c"
  by (auto simp: commit_keeps_def)

lemma commit_keeps_eng: "eng_keeps m m' \<Longrightarrow> commit_keeps m m'"
  using arch_ok_keeps [of m m'] by (auto simp: commit_keeps_def eng_keeps_def)

lemma sbuf_push_keeps: "keeps t (sbuf_push e t)" by (rule part_keeps) simp_all

text \<open>The head is taken out of the re-order buffer.\<close>

lemma drop_head_inv:
  assumes "ooo_inv (ooo m)" and "rob_count (ooo m) > 0" and "rob_valid (rob (ooo m) ! rob_head (ooo m))" and "rob_ready (rob (ooo m) ! rob_head (ooo m))"
    and "ooo n = ooo (retire (rob (ooo m) ! rob_head (ooo m)) m)"
  shows "ooo_inv (ooo (drop_head n))"
    "\<lbrakk>0 < r; r < 32\<rbrakk> \<Longrightarrow> committed (ooo (drop_head n)) r = (let e = rob (ooo m) ! rob_head (ooo m) in
       if arch_rd e \<noteq> -1 \<and> arch_rd e \<noteq> 0 \<and> nat (arch_rd e) = r then p_value (phys (ooo m) ! nat (rob_phys_rd e)) else committed (ooo m) r)"
proof -
  let ?t = "ooo m"
  let ?h = "rob_head ?t"
  let ?e = "rob ?t ! ?h"
  have t: "rename_ok ?t" "masks_ok ?t" "shape_ok ?t" "tokens ?t = waiting ?t" "rings_ok ?t" using assms(1) by (simp_all add: ooo_inv_def rename_ok_def)
  note f = rob_ring_fields [OF t(5)]
  define u where "u = ooo (drop_head n)"
  have n: "ooo n = (if arch_rd ?e \<noteq> -1 \<and> arch_rd ?e \<noteq> 0 then freelist_push (old_phys ?e) (set_unready (old_phys ?e)
      (?t\<lparr>rrat := (rrat ?t)[nat (arch_rd ?e) := rob_phys_rd ?e]\<rparr>)) else ?t)" using assms(5) by (simp add: retire_def Let_def)
  have nu: "rob (ooo n) = rob ?t" "rob_head (ooo n) = ?h" "mask_part (ooo n) = mask_part ?t" "tokens (ooo n) = tokens ?t" "shape_ok (ooo n) = shape_ok ?t"
      "rrat (ooo n) = (if arch_rd ?e \<noteq> -1 \<and> arch_rd ?e \<noteq> 0 then (rrat ?t)[nat (arch_rd ?e) := rob_phys_rd ?e] else rrat ?t)"
      "map p_value (phys (ooo n)) = map p_value (phys ?t)"
  proof -
    have v: "map p_value (ps[i := (ps ! i)\<lparr>p_ready := x\<rparr>]) = map p_value ps" for ps i x
      by (cases "i < length ps") (simp_all add: map_update list_update_same_conv list_update_beyond)
    show "rob (ooo n) = rob ?t" "rob_head (ooo n) = ?h" "mask_part (ooo n) = mask_part ?t" "tokens (ooo n) = tokens ?t" "shape_ok (ooo n) = shape_ok ?t"
      "rrat (ooo n) = (if arch_rd ?e \<noteq> -1 \<and> arch_rd ?e \<noteq> 0 then (rrat ?t)[nat (arch_rd ?e) := rob_phys_rd ?e] else rrat ?t)"
      "map p_value (phys (ooo n)) = map p_value (phys ?t)"
      by (simp_all add: n v freelist_push_def set_unready_def mask_part_def tokens_def rs_tokens_def unit_tokens_def shape_ok_def Let_def)
  qed
  have u: "u = (put_rob ?h (?e\<lparr>rob_valid := False\<rparr>) (ooo n))\<lparr>rob_head := (?h + 1) mod 32, rob_count := rob_count (ooo n) - 1\<rparr>"
    using nu by (simp add: u_def drop_head_def Let_def)
  have uu: "rob u = (rob ?t)[?h := ?e\<lparr>rob_valid := False\<rparr>]" "mask_part u = mask_part ?t" "tokens u = tokens ?t" "shape_ok u" "rrat u = rrat (ooo n)" "phys u = phys (ooo n)"
    using nu t(3) by (simp_all add: u put_rob_def mask_part_def tokens_def rs_tokens_def unit_tokens_def shape_ok_def)
  have "waiting u = waiting ?t" using waiting_put [OF f(2,1) uu(1)] assms(4) by (simp add: pending_def)
  moreover have "rename_ok u" using commit_ok(1) [OF t(1) assms(2,5)] by (simp add: u_def)
  ultimately show "ooo_inv (ooo (drop_head n))" using uu t mask_keep [OF uu(2)] unfolding u_def by (simp add: ooo_inv_def)
  assume r: "0 < r" "r < 32"
  have l: "length (phys ?t) = 64" "length (rrat ?t) = 32" "length (phys (ooo n)) = 64"
    using t arg_cong [OF nu(7), of length] by (simp_all add: shape_ok_def rename_ok_def renaming_ok_def renaming_of_def)
  have pv: "p_value (phys u ! i) = p_value (phys ?t ! i)" if "i < 64" for i using arg_cong [OF nu(7), of "\<lambda>xs. xs ! i"] that l uu(6) by simp
  note tc = target_uncommitted [OF t(1) f(2) assms(3) r]
  have "committed u r = (if arch_rd ?e \<noteq> -1 \<and> arch_rd ?e \<noteq> 0 \<and> nat (arch_rd ?e) = r then p_value (phys ?t ! nat (rob_phys_rd ?e)) else committed ?t r)"
    using pv [of "nat (rob_phys_rd ?e)"] pv [of "nat (rrat ?t ! r)"] tc r l uu(5) nu(6) by (auto simp: committed_def nth_list_update)
  then show "committed (ooo (drop_head n)) r = (let e = rob (ooo m) ! rob_head (ooo m) in
       if arch_rd e \<noteq> -1 \<and> arch_rd e \<noteq> 0 \<and> nat (arch_rd e) = r then p_value (phys (ooo m) ! nat (rob_phys_rd e)) else committed (ooo m) r)"
    by (simp add: u_def Let_def)
qed

lemma ref_frame: "ooo (set_ref i v m) = ooo m" "cpu (set_ref i v m) = cpu m" "difftest_active (set_ref i v m) = difftest_active m"
  by (simp_all add: set_ref_def)

lemma mem_access_frame: "ir_mem_access False ir m = Inr (ir', l, m') \<Longrightarrow> eng_frame m m'"
  by (cases "ir_type ir") (auto simp: ir_mem_access_def Let_def dest!: framing intro!: io_eng split: if_splits)

lemma difftest_step_frame:
  assumes "ooo_difftest_step stk m = Inr m'"
  shows "ooo m' = ooo m" "cpu m' = cpu m" "difftest_active m' = difftest_active m"
proof -
  obtain w a where a: "vaddr_read (cpu_pc (difftest_ref m)) 4 m = Inr (w, a)" using assms by (auto simp: ooo_difftest_step_def Let_def)
  let ?ir = "reread (difftest_ref a) (ir_decode (ucast w) (cpu_pc (difftest_ref m)) (cpu_pc (difftest_ref m) + 4) stk a)"
  obtain ir b where b: "ir_execute ?ir (difftest_ref a) a = Inr (ir, b)" using assms a by (auto simp: ooo_difftest_step_def Let_def)
  obtain c d where c: "(if ir_type ir = ITYPE_LOAD then bind_res (ir_mem_access False ir b) (\<lambda>(ir, _, m). Inr (ir, m)) else Inr (ir, b)) = Inr (c, d)"
    and m': "bind_res (ir_writeback c (difftest_ref d)) (\<lambda>x. Inr (d\<lparr>difftest_ref := x\<lparr>cpu_pc := dnpc c, gpr := (gpr x)[0 := 0]\<rparr>\<rparr>)) = Inr m'"
    using assms a b by (auto simp: ooo_difftest_step_def Let_def)
  have "eng_frame m a" using vaddr_read_frame [OF a] by (rule io_eng)
  also have "eng_frame a b" using ir_execute_eng [OF b] .
  also have "eng_frame b d" using c by (auto dest: mem_access_frame split: if_splits)
  finally have e: "eng_frame m d" .
  show "ooo m' = ooo m" "cpu m' = cpu m" "difftest_active m' = difftest_active m" using m' eng_frame_fields [OF e] by auto
qed

lemma difftest_check_frame:
  assumes "difftest_check stk e m = Inr m'"
  shows "ooo m' = ooo m" "difftest_active m' = difftest_active m"
proof -
  obtain n where n: "ooo_difftest_step stk m = Inr n" using assms by (auto simp: difftest_check_def Let_def)
  have "ooo m' = ooo n \<and> difftest_active m' = difftest_active n" using assms n by (auto simp: difftest_check_def Let_def ref_frame split: if_splits)
  then show "ooo m' = ooo m" "difftest_active m' = difftest_active m" using difftest_step_frame [OF n] by simp_all
qed

lemma retire_rest: "difftest_active (retire e m) = difftest_active m" "ooo (retire e m) = ooo (retire e m')" if "ooo m = ooo m'"
  using that by (simp_all add: retire_def Let_def)

lemma commit_one_keeps:
  assumes "commit_one stk m = Inr (go, m')"
  shows "commit_keeps m m'"
proof (cases "ooo_inv (ooo m) \<and> go")
  case True
  let ?t = "ooo m"
  let ?e = "rob ?t ! rob_head ?t"
  let ?ir = "rob_ir ?e"
  have inv: "ooo_inv ?t" and go: go using True by simp_all
  have c: "rob_count ?t \<noteq> 0" "rob_valid ?e" "rob_ready ?e" using assms go by (auto simp: commit_one_def Let_def split: if_splits)
  have w: "bind_res (if ir_type ?ir = ITYPE_STORE then if in_ram_range (mem_addr ?ir) then Inr (m\<lparr>ooo := sbuf_push ?e ?t\<rparr>)
        else vaddr_write (mem_addr ?ir) (mem_width ?ir) (store_data ?e) m else Inr m) (\<lambda>m.
         let m = retire ?e m in
         bind_res (if difftest_active m then difftest_check stk ?e m else Inr m) (\<lambda>m. Inr (True, drop_head m))) = Inr (go, m')"
    using assms go by (auto simp: commit_one_def Let_def guard_eq_Inr split: if_splits)
  then obtain n where n: "(if ir_type ?ir = ITYPE_STORE then if in_ram_range (mem_addr ?ir) then Inr (m\<lparr>ooo := sbuf_push ?e ?t\<rparr>)
        else vaddr_write (mem_addr ?ir) (mem_width ?ir) (store_data ?e) m else Inr m) = Inr n"
      "bind_res (if difftest_active (retire ?e n) then difftest_check stk ?e (retire ?e n) else Inr (retire ?e n)) (\<lambda>m. Inr (True, drop_head m)) = Inr (go, m')"
    by (elim bind_res_eq_InrE) (simp only: Let_def)
  then obtain q where q: "(if difftest_active (retire ?e n) then difftest_check stk ?e (retire ?e n) else Inr (retire ?e n)) = Inr q" "m' = drop_head q" by auto
  have "keeps ?t (ooo n) \<and> cpu n = cpu m \<and> difftest_active n = difftest_active m \<and> rob (ooo n) = rob ?t \<and> rob_head (ooo n) = rob_head ?t \<and> rob_count (ooo n) = rob_count ?t"
  proof (cases "ir_type ?ir = ITYPE_STORE \<and> \<not> in_ram_range (mem_addr ?ir)")
    case True
    then show ?thesis using n(1) eng_frame_fields [OF io_eng [OF vaddr_write_frame], of "mem_addr ?ir" "mem_width ?ir" "store_data ?e" m n] by simp
  next
    case False
    have p: "rob (sbuf_push x t) = rob t" "rob_head (sbuf_push x t) = rob_head t" "rob_count (sbuf_push x t) = rob_count t" for x t by (simp_all add: sbuf_push_def)
    show ?thesis
    proof (cases "ir_type ?ir = ITYPE_STORE")
      case True
      then have "m\<lparr>ooo := sbuf_push ?e ?t\<rparr> = n" using n(1) False by simp
      then show ?thesis using sbuf_push_keeps [of ?t ?e] p by (auto simp del: de_Morgan_conj)
    next
      case False
      then have "m = n" using n(1) by simp
      then show ?thesis by simp
    qed
  qed
  then have k: "ooo_inv (ooo n)" "same_view ?t (ooo n)" "cpu n = cpu m" "difftest_active n = difftest_active m" "rob (ooo n) = rob ?t" "rob_head (ooo n) = rob_head ?t"
      "rob_count (ooo n) = rob_count ?t" using inv by (simp_all add: keeps_def)
  have r: "rings_ok (ooo n)" "shape_ok (ooo n)" "rename_ok (ooo n)" using k(1) by (simp_all add: ooo_inv_def rename_ok_def)
  have qf: "ooo q = ooo (retire ?e n)" "difftest_active q = difftest_active m" using q(1) difftest_check_frame [of stk ?e "retire ?e n" q] retire_rest(1) [of n n ?e] k(4) by (auto split: if_splits)
  have cnt: "rob_count (ooo n) > 0" using rob_ring_fields(3) [OF r(1)] c(1) k(7) by simp
  note d = drop_head_inv [OF k(1) cnt, of q] 
  have e: "rob (ooo n) ! rob_head (ooo n) = ?e" using k by simp
  have inv': "ooo_inv (ooo m')" using d(1) c(2,3) qf(1) e q(2) by simp
  have da: "difftest_active m' = difftest_active m" using q(2) qf(2) by (simp add: drop_head_def Let_def)
  have "arch_ok m'" if a: "arch_ok m" "\<not> difftest_active m"
  proof -
    have "q = retire ?e n" using q(1) a(2) retire_rest(1) [of n n ?e] k(4) by simp
    then have g: "gpr (cpu m') = (if arch_rd ?e \<noteq> -1 \<and> arch_rd ?e \<noteq> 0 then (gpr (cpu m))[nat (arch_rd ?e) := p_value (phys (ooo n) ! nat (rob_phys_rd ?e))] else gpr (cpu m))[0 := 0]"
      using q(2) k(3) by (simp add: drop_head_def retire_def Let_def)
    have "gpr (cpu m') ! r = committed (ooo m') r" if "0 < r" "r < 32" for r
      using d(2) [OF _ _ _ that] c(2,3) qf(1) e q(2) g that a(1) k(2) by (simp add: arch_ok_def same_view_def Let_def nth_list_update)
    moreover have "length (gpr (cpu m')) = 32" "gpr (cpu m') ! 0 = 0" using g a(1) by (simp_all add: arch_ok_def)
    ultimately show ?thesis by (simp add: arch_ok_def)
  qed
  then show ?thesis using inv' da by (simp add: commit_keeps_def)
next
  case False
  then show ?thesis using assms by (auto simp: commit_keeps_def commit_one_def Let_def guard_eq_Inr split: if_splits)
qed

end
