(* ===== verification/Ooo_Run.thy ===== *)
theory Ooo_Run
  imports Ooo_Inv Exec_Loop
begin

text \<open>
  Whole runs of the out-of-order engine: what holds in every state it reaches, cycle by cycle, from its initialisation on.
\<close>

section \<open>Cycles\<close>

lemma ooo_stages_keep:
  assumes "ooo_stages stk m = Inr m'"
  shows "commit_keeps m m'"
proof -
  obtain a b c d e f where s: "ooo_drain_store_buf m = Inr a" "ooo_stage_commit stk a = Inr b"
      "ooo_unit_int (with_ooo mshr_tick b) = Inr c" "ooo_unit_mul c = Inr d" "ooo_unit_lsu d = Inr e" "ooo_stage_if (mid_stages e) = Inr f"
      "m' = f\<lparr>ooo_stats := (ooo_stats f)\<lparr>os_cycles := os_cycles (ooo_stats f) + 1\<rparr>, g_sim_cycles := g_sim_cycles f + 1, g_sim_instret := os_insts (ooo_stats f)\<rparr>"
    using assms unfolding ooo_stages_def by auto
  have loop: "commit_loop ss m = Inr m' \<Longrightarrow> commit_keeps m m'" for ss m m'
    by (induction ss m rule: commit_loop.induct) (auto dest: commit_one_keeps intro: commit_keeps_trans split: if_splits)
  have "commit_keeps m a" by (rule commit_keeps_eng [OF drain_keeps [OF s(1)]])
  also have "commit_keeps a b" using s(2) loop unfolding ooo_stage_commit_def by blast
  also have "commit_keeps b e" by (rule commit_keeps_eng [OF units_keep]) (use s(3-5) in simp)
  also have "commit_keeps e (mid_stages e)" by (rule commit_keeps_eng [OF mid_stages_keep])
  also have "commit_keeps (mid_stages e) f" by (rule commit_keeps_eng [OF stage_if_keeps [OF s(6)]])
  also have "commit_keeps f m'" by (simp add: s(7) commit_keeps_def arch_ok_def)
  finally show ?thesis .
qed

lemma watch_frame: "watch m = Inr m' \<Longrightarrow> ooo m' = ooo m \<and> cpu m' = cpu m \<and> difftest_active m' = difftest_active m"
proof -
  have "check_walk pre ws m = Inr (b, m') \<Longrightarrow> ooo m' = ooo m \<and> cpu m' = cpu m \<and> difftest_active m' = difftest_active m" for pre ws m b m'
  proof (induction pre ws m arbitrary: m' rule: check_walk.induct)
    case (2 pre w ws m)
    obtain v ok n where n: "expr (wp_expr w) m = Inr (v, ok, n)" using 2(2) by auto
    note e = eng_frame_fields(1,3,4) [OF io_eng [OF expr_frame [OF n]]]
    show ?case
    proof (cases "v = wp_value w")
      case True
      then have "check_walk (pre @ [w]) ws n = Inr (b, m')" using 2(2) n by auto
      then show ?thesis using 2(1) True n e by auto
    qed (use 2(2) n e in auto)
  qed auto
  then show "watch m = Inr m' \<Longrightarrow> ooo m' = ooo m \<and> cpu m' = cpu m \<and> difftest_active m' = difftest_active m"
    by (fastforce simp: watch_def check_wp_def split: if_splits)
qed

lemma ooo_refresh_frame: "ooo_refresh evs m = Inr m' \<Longrightarrow> ooo m' = ooo m \<and> cpu m' = cpu m \<and> difftest_active m' = difftest_active m"
proof -
  have k: "send_key k b m = Inr m' \<Longrightarrow> ooo m' = ooo m \<and> cpu m' = cpu m \<and> difftest_active m' = difftest_active m" for k b m m'
    by (auto simp: send_key_def Let_def split: if_splits)
  have p: "poll_events es m = Inr m' \<Longrightarrow> ooo m' = ooo m \<and> cpu m' = cpu m \<and> difftest_active m' = difftest_active m" for es m
    by (induction es m arbitrary: rule: poll_events.induct) (auto dest!: k)
  show "ooo_refresh evs m = Inr m' \<Longrightarrow> ooo m' = ooo m \<and> cpu m' = cpu m \<and> difftest_active m' = difftest_active m"
    by (auto simp: ooo_refresh_def Let_def case_prod_beta dest!: p split: if_splits)
qed

lemma ooo_step_keeps:
  assumes "ooo_step e m = Inr m'"
  shows "commit_keeps m m'"
proof -
  obtain a b where s: "ooo_cycle (fst e) m = Inr a" "watch a = Inr b" "ooo_refresh (snd e) b = Inr m'" using assms by (auto simp: ooo_step_def)
  have "commit_keeps m a" using ooo_stages_keep s(1) by (simp add: ooo_cycle_def)
  moreover have "commit_keeps a m'" using watch_frame [OF s(2)] ooo_refresh_frame [OF s(3)] by (simp add: commit_keeps_def arch_ok_def)
  ultimately show ?thesis using commit_keeps_trans by blast
qed

text \<open>A number of cycles, as the loop of \<^verbatim>\<open>exec\<close> runs them.\<close>

fun ooo_run :: "((nat \<Rightarrow> IR_Inst) \<times> sdl_event list) list \<Rightarrow> machine \<Rightarrow> machine res" where
  "ooo_run [] m = Inr m"
| "ooo_run (e # es) m = bind_res (ooo_step e m) (ooo_run es)"

lemma ooo_run_keeps: "ooo_run es m = Inr m' \<Longrightarrow> commit_keeps m m'"
  by (induction es m rule: ooo_run.induct) (auto dest: ooo_step_keeps intro: commit_keeps_trans)

section \<open>Initialisation\<close>

lemma freelist_fold:
  assumes "n \<le> 32" and "freelist z = freelist zero_ooo"
  shows "fold freelist_push (map int [32..<32 + n]) z = z\<lparr>freelist := \<lparr>fl_regs = map int [32..<32 + n] @ replicate (64 - n) 0, fl_head = 0, fl_tail = n, fl_count = int n\<rparr>\<rparr>"
  using assms(1)
proof (induction n)
  case 0
  then show ?case using assms(2) by (simp add: zero_ooo_def)
next
  case (Suc n)
  have "replicate (64 - n) (0 :: int) = 0 # replicate (64 - Suc n) 0" using Suc.prems by (simp flip: replicate_Suc)
  moreover have u: "[32..<32 + Suc n] = [32..<32 + n] @ [32 + n]" using upt_Suc_append [of 32 "32 + n"] by simp
  ultimately have "(map int [32..<32 + n] @ replicate (64 - n) 0)[n := int (32 + n)] = map int [32..<32 + Suc n] @ replicate (64 - Suc n) 0"
    unfolding u by (simp add: list_update_append)
  then show ?case using Suc unfolding u by (simp add: freelist_push_def Let_def)
qed

lemma ooo_init_state:
  "ooo (ooo_init m) = zero_ooo\<lparr>phys := map (\<lambda>i. \<lparr>p_value = (if 0 < i \<and> i < 32 then gpr (cpu m) ! i else 0), p_ready = True\<rparr>) [0..<64],
     rat := map int [0..<32], rrat := map int [0..<32], rs_free_mask := 0xffff, ooo_fetch_pc := cpu_pc (cpu m),
     freelist := \<lparr>fl_regs = map int [32..<64] @ replicate 32 0, fl_head = 0, fl_tail = 32, fl_count = 32\<rparr>\<rparr>"
proof -
  let ?p = "map (\<lambda>i. \<lparr>p_value = (if 0 < i \<and> i < 32 then gpr (cpu m) ! i else 0), p_ready = True\<rparr>) [0..<64]"
  let ?z = "zero_ooo\<lparr>phys := ?p, rat := map int [0..<32], rrat := map int [0..<32]\<rparr>"
  have "fold freelist_push (map int [32..<64]) ?z = ?z\<lparr>freelist := \<lparr>fl_regs = map int [32..<64] @ replicate 32 0, fl_head = 0, fl_tail = 32, fl_count = 32\<rparr>\<rparr>"
    using freelist_fold [of 32 ?z] by simp
  then show ?thesis unfolding ooo_init_def Let_def by (simp del: upt_rec_numeral)
qed

lemma ooo_init_inv: "ooo_inv (ooo (ooo_init m))"
proof -
  let ?p = "map (\<lambda>i. \<lparr>p_value = (if 0 < i \<and> i < 32 then gpr (cpu m) ! i else 0), p_ready = True\<rparr>) [0..<64]"
  let ?z = "zero_ooo\<lparr>phys := ?p, rat := map int [0..<32], rrat := map int [0..<32]\<rparr>"
  let ?f = "\<lparr>fl_regs = map int [32..<64] @ replicate 32 0, fl_head = 0, fl_tail = 32, fl_count = 32\<rparr>"
  let ?t = "?z\<lparr>freelist := ?f, rs_free_mask := 0xffff, ooo_fetch_pc := cpu_pc (cpu m)\<rparr>"
  have t: "ooo (ooo_init m) = ?t" unfolding ooo_init_state by (simp del: upt_rec_numeral)
  have "rings_ok ?t"
    by (simp add: rings_ok_def free_ring_def rob_ring_def zero_ooo_def zero_rob_def)
  moreover have "renaming_ok (renaming_of ?t)"
  proof -
    have "window (xs @ ys) 0 (length xs) = xs" for xs ys :: "int list" by (rule nth_equalityI) (simp_all add: nth_append)
    from this [of "map int [32..<64]" "replicate 32 0"] have "window (map int [32..<64] @ replicate 32 0) 0 32 = map int [32..<64]" by (simp del: upt_Suc upt_rec_numeral)
    moreover have "[0..<64] = [0..<32] @ [32..<64 :: nat]" by (simp add: upt_add_eq_append [of 0 32 32, simplified])
    ultimately show ?thesis by (simp add: renaming_of_def renaming_ok_def owners_def all_regs_def zero_ooo_def)
  qed
  moreover have "masks_ok ?t"
  proof -
    have "bit (0xffff :: u32) i \<longleftrightarrow> i < 16" for i using bit_mask_iff [where 'a = u32, of 16 i] by (auto simp: mask_eq_exp_minus_1)
    moreover have "[0, 0, 0 :: u32] ! eu = 0" if "eu < 3" for eu using that by (auto simp: less_Suc_eq numeral_3_eq_3)
    moreover have "zero_rs = (replicate 16 zero_rs) ! i" if "i < 16" for i using that by simp
    ultimately show ?thesis by (auto simp: masks_ok_def zero_ooo_def zero_rs_def rs_issuable_def)
  qed
  moreover have "shape_ok ?t" by (simp add: shape_ok_def zero_ooo_def zero_ir_def reg_field_def)
  moreover have "tokens ?t = {#}" by (simp add: tokens_def rs_tokens_def unit_tokens_def zero_ooo_def zero_rs_def zero_latch_def live_lsu_def)
  moreover have "waiting ?t = {#}" by (simp add: waiting_def zero_ooo_def zero_rob_def pending_def)
  ultimately show ?thesis unfolding t by (simp add: ooo_inv_def rename_ok_def)
qed

lemma ooo_init_arch:
  assumes "length (gpr (cpu m)) = 32" and "gpr (cpu m) ! 0 = 0"
  shows "arch_ok (ooo_init m)"
proof -
  have "rrat (ooo (ooo_init m)) = map int [0..<32]" "phys (ooo (ooo_init m)) = map (\<lambda>i. \<lparr>p_value = (if 0 < i \<and> i < 32 then gpr (cpu m) ! i else 0), p_ready = True\<rparr>) [0..<64]"
    "cpu (ooo_init m) = cpu m"
    unfolding ooo_init_state by (simp_all del: upt_rec_numeral) (simp add: ooo_init_def Let_def)
  then show ?thesis using assms by (simp add: arch_ok_def committed_def)
qed

section \<open>What holds in every state\<close>

lemma ooo_run_inv: "ooo_run es (ooo_init m) = Inr m' \<Longrightarrow> ooo_inv (ooo m')"
  using ooo_run_keeps [of es "ooo_init m" m'] ooo_init_inv [of m] by (simp add: commit_keeps_def)

text \<open>The entries in flight, oldest first, and those of them that write a register.\<close>

definition in_flight :: "OOOState \<Rightarrow> ROBEntry list" where
  "in_flight t = window (rob t) (rob_head t) (nat (rob_count t))"

definition writers :: "OOOState \<Rightarrow> ROBEntry list" where
  "writers t = filter (\<lambda>e. arch_rd e \<noteq> -1 \<and> arch_rd e \<noteq> 0) (in_flight t)"

definition free_regs :: "OOOState \<Rightarrow> int list" where
  "free_regs t = window (fl_regs (freelist t)) (fl_head (freelist t)) (nat (fl_count (freelist t)))"

lemma chain_fold: "chain es f g \<Longrightarrow> g = fold (\<lambda>e f. f[nat (sl_rd e) := sl_phys e]) (filter writes es) f"
  by (induction es arbitrary: f) (auto split: if_splits)

lemma flight_slots: "rings_ok t \<Longrightarrow> r_flight (renaming_of t) = map slot_of (in_flight t)"
  using rob_ring_fields [of t] by (simp add: renaming_of_def in_flight_def window_map)

lemma renaming_facts:
  assumes "rename_ok t"
  shows "distinct (rat t @ free_regs t @ map old_phys (writers t))" "set (rat t @ free_regs t @ map old_phys (writers t)) = {0..<64}"
    "rat t = fold (\<lambda>e f. f[nat (arch_rd e) := rob_phys_rd e]) (writers t) (rrat t)"
proof -
  have r: "renaming_ok (renaming_of t)" "rings_ok t" using assms by (simp_all add: rename_ok_def)
  have w: "filter writes (map slot_of es) = map slot_of (filter (\<lambda>e. arch_rd e \<noteq> -1 \<and> arch_rd e \<noteq> 0) es)" for es
    by (induction es) (simp_all add: writes_def slot_of_def)
  have "map sl_old (filter writes (map slot_of (in_flight t))) = map old_phys (writers t)" unfolding w writers_def by (simp add: slot_of_def)
  then have o: "owners (renaming_of t) = rat t @ free_regs t @ map old_phys (writers t)"
    unfolding owners_def flight_slots [OF r(2)] by (simp add: renaming_of_def free_regs_def)
  show "distinct (rat t @ free_regs t @ map old_phys (writers t))" "set (rat t @ free_regs t @ map old_phys (writers t)) = {0..<64}"
    using owners_distinct [OF r(1)] unfolding o by blast+
  have "chain (map slot_of (in_flight t)) (rrat t) (rat t)"
    using r(1) unfolding renaming_ok_def flight_slots [OF r(2)] by (simp add: renaming_of_def)
  from chain_fold [OF this] show "rat t = fold (\<lambda>e f. f[nat (arch_rd e) := rob_phys_rd e]) (writers t) (rrat t)"
    unfolding w writers_def by (simp add: fold_map comp_def slot_of_def)
qed

text \<open>
  C4. Register renaming is sound: after any number of cycles every physical register is either mapped, or free, or the
  predecessor of a renaming in flight, and only one of these; and the register map is the committed one with the renamings in
  flight applied in program order.
\<close>

theorem ooo_rename_partition:
  assumes "ooo_run es (ooo_init m) = Inr m'"
  shows "let t = ooo m'; regs = rat t @ free_regs t @ map old_phys (writers t) in
    distinct regs \<and> set regs = {0..<64} \<and> rat t = fold (\<lambda>e f. f[nat (arch_rd e) := rob_phys_rd e]) (writers t) (rrat t)"
  unfolding Let_def using renaming_facts [of "ooo m'"] ooo_run_inv [OF assms] by (intro conjI) (simp_all only: ooo_inv_def)

text \<open>
  C5. No instruction is lost or executed twice: after any number of cycles the slot and physical register of an entry of the
  re-order buffer that is not ready stand in exactly one place, a reservation station or the latch of a unit, and nothing else does.
\<close>

theorem ooo_no_instruction_lost:
  assumes "ooo_run es (ooo_init m) = Inr m'"
  shows "count (tokens (ooo m')) (i, p) =
    (if i < 32 \<and> rob_valid (rob (ooo m') ! i) \<and> \<not> rob_ready (rob (ooo m') ! i) \<and> rob_phys_rd (rob (ooo m') ! i) = p then 1 else 0)"
proof -
  let ?t = "ooo m'"
  have t: "tokens ?t = waiting ?t" using ooo_run_inv [OF assms(1)] by (simp add: ooo_inv_def)
  have "distinct (map (\<lambda>i. (i, rob_phys_rd (rob ?t ! i))) (filter (\<lambda>i. pending (rob ?t ! i)) [0..<32]))" by (simp add: distinct_map inj_on_def)
  then have "count (waiting ?t) (i, p) = (if (i, p) \<in># waiting ?t then 1 else 0)"
    unfolding waiting_def distinct_count_atmost_1 by (simp del: mset_map mset_filter)
  then show ?thesis using t in_waiting [of i p ?t] by (simp add: pending_def)
qed

text \<open>
  C6. The registers the program sees are those of the committed map: after any number of cycles, with the lock-step reference off,
  register \<open>r\<close> holds the value of the physical register the committed map names, whatever was executed speculatively.
\<close>

theorem ooo_committed_registers:
  assumes "ooo_run es (ooo_init m) = Inr m'" and "length (gpr (cpu m)) = 32" and "gpr (cpu m) ! 0 = 0" and "\<not> g_difftest_en m" and "0 < r" and "r < 32"
  shows "gpr (cpu m') ! r = p_value (phys (ooo m') ! nat (rrat (ooo m') ! r))"
proof -
  have "\<not> difftest_active (ooo_init m)" using assms(4) by (simp add: ooo_init_def Let_def)
  then have "arch_ok m'" using ooo_run_keeps [OF assms(1)] ooo_init_inv ooo_init_arch [OF assms(2,3)] by (simp add: commit_keeps_def)
  then show ?thesis using assms(5,6) by (simp add: arch_ok_def committed_def)
qed

section \<open>Selection and flush\<close>

text \<open>A plain scan over all stations for the oldest one that may go to a unit.\<close>

definition scan_rs :: "bool \<Rightarrow> nat \<Rightarrow> OOOState \<Rightarrow> nat option" where
  "scan_rs do_mem_order eu t = fold (pick_older t do_mem_order) (filter (\<lambda>i. rs_issuable eu (rs_tab t ! i)) [0..<16]) None"

lemma mask_scan:
  assumes "masks_ok t"
  shows "eu < 3 \<Longrightarrow> mask_bits (rs_ready_mask t ! eu) = filter (\<lambda>i. rs_issuable eu (rs_tab t ! i)) [0..<16]"
    "mask_bits (rs_free_mask t) = filter (\<lambda>i. \<not> rs_valid (rs_tab t ! i)) [0..<16]"
proof -
  have *: "mask_bits w = filter P [0..<16]" if "\<And>i. bit w i \<longleftrightarrow> i < 16 \<and> P i" for w P
  proof -
    have w: "bit w = (\<lambda>i. i < 16 \<and> P i)" using that by (simp add: fun_eq_iff)
    have "filter (bit w) [0..<32] = filter (\<lambda>i. i < 16 \<and> P i) ([0..<16] @ [16..<32])" unfolding w by (simp add: upt_add_eq_append [of 0 16 16, simplified])
    also have "\<dots> = filter P [0..<16] @ []" unfolding filter_append by (intro arg_cong2 [of _ _ _ _ append] filter_cong) (auto simp: filter_empty_conv)
    finally show ?thesis by (simp add: mask_bits_eq)
  qed
  show "eu < 3 \<Longrightarrow> mask_bits (rs_ready_mask t ! eu) = filter (\<lambda>i. rs_issuable eu (rs_tab t ! i)) [0..<16]"
    "mask_bits (rs_free_mask t) = filter (\<lambda>i. \<not> rs_valid (rs_tab t ! i)) [0..<16]"
    using assms by (auto intro!: * simp: masks_ok_def)
qed

text \<open>
  C8. The bit masks are exact: after any number of cycles, for every unit, the selection over the set bits of the ready mask is the
  selection a scan of all reservation stations makes, and the set bits of the free mask are the stations not in use.
\<close>

theorem ooo_masks_exact:
  assumes "ooo_run es (ooo_init m) = Inr m'" and "eu < 3"
  shows "select_rs b eu (ooo m') = scan_rs b eu (ooo m') \<and> mask_bits (rs_free_mask (ooo m')) = filter (\<lambda>i. \<not> rs_valid (rs_tab (ooo m') ! i)) [0..<16]"
  using mask_scan [of "ooo m'"] ooo_run_inv [OF assms(1)] assms(2) by (simp add: ooo_inv_def select_rs_def scan_rs_def)

text \<open>
  C7. A misprediction is undone completely: after any number of cycles, flushing behind an entry in flight leaves exactly that entry
  and the older ones in flight, in order, with the register map those renamings produce from the committed one, every other
  physical register free or a predecessor, the committed registers untouched, and no work waiting for a squashed instruction.
\<close>

theorem ooo_flush_restores:
  assumes "ooo_run es (ooo_init m) = Inr m'" and "i < 32" and "rob_valid (rob (ooo m') ! i)"
  shows "let t = ooo m'; u = ooo_flush_after i t in
    map slot_of (in_flight u) = take (rob_dist t i + 1) (map slot_of (in_flight t)) \<and>
    rat u = fold (\<lambda>e f. f[nat (arch_rd e) := rob_phys_rd e]) (writers u) (rrat t) \<and>
    set (rat u @ free_regs u @ map old_phys (writers u)) = {0..<64} \<and>
    (\<forall>r. 0 < r \<and> r < 32 \<longrightarrow> committed u r = committed t r) \<and> (\<forall>(j, p) \<in># tokens u. rob_dist t j \<le> rob_dist t i)"
proof -
  define t where "t = ooo m'"
  define u where "u = ooo_flush_after i t"
  have t: "ooo_inv t" "rob_valid (rob t ! i)" using ooo_run_inv [OF assms(1)] assms(3) by (simp_all add: t_def)
  have r: "rename_ok t" "rings_ok t" "length (rs_tab t) = 16" using t(1) by (simp_all add: ooo_inv_def rename_ok_def masks_ok_def)
  note o = ooo_flush_ok [OF r(1) assms(2) t(2), folded u_def] and k = flush_ok [OF t(1) assms(2) t(2), folded u_def]
  have ru: "rename_ok u" "rings_ok u" using o(1) by (simp_all add: rename_ok_def)
  have "map slot_of (in_flight u) = take (rob_dist t i + 1) (map slot_of (in_flight t))" using o(2) flight_slots [OF r(2)] flight_slots [OF ru(2)] by simp
  moreover have "rat u = fold (\<lambda>e f. f[nat (arch_rd e) := rob_phys_rd e]) (writers u) (rrat t)"
    using o(3) renaming_facts(3) [OF ru(1)] by (simp add: renaming_of_def)
  moreover have "\<forall>(j, p) \<in># tokens u. rob_dist t j \<le> rob_dist t i" using flush_tokens(1) [OF r(3), of i] by (auto simp: u_def newer_def rob_newer_than_def)
  ultimately show ?thesis
    unfolding Let_def t_def [symmetric] u_def [symmetric] using renaming_facts(2) [OF ru(1)] k(2) by (intro conjI) (simp_all only: same_view_def)
qed

end
