(* ===== verification/Forwarding.thy ===== *)
theory Forwarding
  imports Ooo Isa_Run "HOL-Library.Sublist"
begin

text \<open>
  Store-to-load forwarding: when every pending store either contains the bytes of a load or touches none of them, the value
  found by the scans of \<^verbatim>\<open>ooo_unit_lsu\<close> over the store buffer and the re-order buffer is the value in memory after these stores.
\<close>

text \<open>A store as address, width and data; its effect on memory.\<close>

type_synonym pending_store = "vaddr_t \<times> nat \<times> word_t"

definition put_store :: "pending_store \<Rightarrow> (nat \<Rightarrow> byte) \<Rightarrow> (nat \<Rightarrow> byte)" where
  "put_store = (\<lambda>(a, w, d) mem. store_bytes mem (ram_off a) (bytes_of_word w d))"

text \<open>The place of a store contains the place of a load, or is apart from it.\<close>

definition forwardable :: "vaddr_t \<times> nat \<Rightarrow> vaddr_t \<times> nat \<Rightarrow> bool" where
  "forwardable = (\<lambda>(a, w) (b, n). unat a \<le> unat b \<and> unat b + n \<le> unat a + w \<or> unat b + n \<le> unat a \<or> unat a + w \<le> unat b)"

lemma extend_load_low: "n \<in> {1, 2, 4, 8} \<Longrightarrow> extend_load sg n (take_bit (8 * n) v) = extend_load sg n v"
proof -
  have "SEXT (take_bit 8 v) 8 = SEXT v 8" "SEXT (take_bit 16 v) 16 = SEXT v 16" "SEXT (take_bit 32 v) 32 = SEXT v 32" "take_bit 64 v = v"
    by (rule bit_word_eqI; auto simp: bit_SEXT bit_simps)+
  then show "n \<in> {1, 2, 4, 8} \<Longrightarrow> ?thesis" by (auto simp: extend_load_def UEXT_def)
qed

lemma load_inside:
  assumes "s \<le> l" and "l + n \<le> s + w"
  shows "load_bytes (store_bytes mem s (bytes_of_word w d)) l n = bytes_of_word n (drop_bit (8 * (l - s)) d)"
  using assms by (intro nth_equalityI) (auto simp: store_bytes_def byte_of_def algebra_simps)

lemma load_apart: "l + n \<le> s \<or> s + w \<le> l \<Longrightarrow> load_bytes (store_bytes mem s (bytes_of_word w d)) l n = load_bytes mem l n"
  by (intro nth_equalityI) (auto simp: store_bytes_def)

lemma access_offset:
  assumes "access_ok a n"
  shows "unat a = 0x80000000 + ram_off a" "unat a + n \<le> 0x88000000" "unat (a + word_of_nat n) = unat a + n"
proof -
  have a: "0x80000000 \<le> unat a" "unat a < 0x88000000" "unat (a AND 63) + n \<le> 64"
    using assms by (simp_all add: access_ok_def ram_addr_unat)
  have m: "unat (a AND 63) = unat a mod 64"
    by (rule unat_and_63)
  show "unat a = 0x80000000 + ram_off a" using a(1) by (simp add: ram_off_def)
  have "unat a div 64 < 0x2200000" using a(2) by (simp add: div_less_iff_less_mult)
  then show b: "unat a + n \<le> 0x88000000" using div_mult_mod_eq [of "unat a" 64] a(3) m by linarith
  then show "unat (a + word_of_nat n) = unat a + n" by (simp add: unat_word_ariths unat_of_nat)
qed

text \<open>One step of the scan.\<close>

lemma stlf_try_store:
  assumes "access_ok a w" and "access_ok (mem_addr ir) (mem_width ir)" and "mem_width ir \<in> {1, 2, 4, 8}"
    and "forwardable (a, w) (mem_addr ir, mem_width ir)"
  defines "val \<equiv> \<lambda>mem. extend_load (mem_sign ir) (mem_width ir) (word_of_bytes (load_bytes mem (ram_off (mem_addr ir)) (mem_width ir)))"
  shows "stlf_try a w d ir (val mem) = val (put_store (a, w, d) mem)"
proof -
  let ?l = "mem_addr ir" and ?n = "mem_width ir"
  note s = access_offset [OF assms(1)] and l = access_offset [OF assms(2)]
  have c: "a \<le> ?l \<and> ?l + word_of_nat ?n \<le> a + word_of_nat w \<longleftrightarrow> ram_off a \<le> ram_off ?l \<and> ram_off ?l + ?n \<le> ram_off a + w"
    using s l by (simp add: word_le_nat_alt)
  show ?thesis
  proof (cases "ram_off a \<le> ram_off ?l \<and> ram_off ?l + ?n \<le> ram_off a + w")
    case True
    have "unat (?l - a) = ram_off ?l - ram_off a" using True s(1) l(1) by (simp add: unat_sub word_le_nat_alt)
    then show ?thesis
      using True c extend_load_low [OF assms(3)] load_inside [of "ram_off a" "ram_off ?l" ?n w mem d]
      by (simp add: stlf_try_def val_def put_store_def word_of_bytes_of_word Let_def)
  next
    case False
    then have "ram_off ?l + ?n \<le> ram_off a \<or> ram_off a + w \<le> ram_off ?l"
      using assms(4) s(1) l(1) by (auto simp: forwardable_def)
    then show ?thesis using False c load_apart by (auto simp: stlf_try_def val_def put_store_def Let_def)
  qed
qed

text \<open>The scan over all pending stores, oldest first.\<close>

lemma forward_stores:
  assumes "access_ok (mem_addr ir) (mem_width ir)" and "mem_width ir \<in> {1, 2, 4, 8}"
    and "\<forall>(a, w, d)\<in>set sts. access_ok a w \<and> forwardable (a, w) (mem_addr ir, mem_width ir)"
  defines "val \<equiv> \<lambda>mem. extend_load (mem_sign ir) (mem_width ir) (word_of_bytes (load_bytes mem (ram_off (mem_addr ir)) (mem_width ir)))"
  shows "fold (\<lambda>(a, w, d). stlf_try a w d ir) sts (val mem) = val (fold put_store sts mem)"
  using assms(3)
proof (induction sts arbitrary: mem)
  case (Cons st sts)
  obtain a w d where st: "st = (a, w, d)" by (cases st)
  have "stlf_try a w d ir (val mem) = val (put_store (a, w, d) mem)"
    using stlf_try_store [OF _ assms(1,2)] Cons.prems st by (simp add: val_def)
  then show ?case using Cons st by simp
qed simp

text \<open>The stores of an ISA run.\<close>

definition isa_store :: "isa_state \<Rightarrow> pending_store list" where
  "isa_store s = (if isa_op s \<in> store_ops
     then [(isa_addr (isa_op s) (isa_fetch s) s, access_width (isa_op s), i_regs s ! unat (ibits (isa_fetch s) 24 20))] else [])"

lemma isa_next_mem: "i_mem (isa_next s) = fold put_store (isa_store s) (i_mem s)"
  by (simp add: isa_next_def isa_store_def put_store_def isa_step_store isa_step_mem)

lemma run_mem: "i_mem ((isa_next ^^ (c + n)) s) = fold put_store (concat (map (\<lambda>i. isa_store ((isa_next ^^ (c + i)) s)) [0..<n])) (i_mem ((isa_next ^^ c) s))"
  by (induction n) (simp_all add: isa_next_mem)

end
