(* ===== verification/Any_Access.thy ===== *)
theory Any_Access
  imports Ooo_Frame Isa_Run
begin

text \<open>
  Memory accesses and executors at whatever operands speculation gives them: when they return, the memory system is in order,
  the code is clean and the bytes of RAM are as before.
\<close>

definition mem_kept :: "paddr_t set \<Rightarrow> machine \<Rightarrow> machine \<Rightarrow> bool" where
  "mem_kept B m m' \<longleftrightarrow> (mem_sys m \<and> code_clean B m \<longrightarrow> mem_sys m' \<and> code_clean B m' \<and> ram_view m' = ram_view m)"

lemma mem_kept_refl [simp]: "mem_kept B m m" by (simp add: mem_kept_def)

lemma mem_kept_trans [trans]: "mem_kept B a b \<Longrightarrow> mem_kept B b c \<Longrightarrow> mem_kept B a c" by (auto simp: mem_kept_def)

lemma mem_eq_kept: "mem_eq m m' \<Longrightarrow> mem_kept B m m'"
  using mem_eq_sys code_clean_mem_eq by (auto simp: mem_kept_def)

lemma mem_eq_refl [simp]: "mem_eq m m" by (simp add: mem_eq_def)

lemma mem_eq_trans [trans]: "mem_eq a b \<Longrightarrow> mem_eq b c \<Longrightarrow> mem_eq a c" by (simp add: mem_eq_def)

section \<open>Loads and fetches\<close>

lemma paddr_read_mem_eq: "paddr_read a n m = Inr (v, m') \<Longrightarrow> mem_eq m m'"
  using pmp_check_mem_eq(1) [of m a False False]
  by (auto simp: paddr_read_def Let_def case_prod_beta mem_eq_def split: if_splits option.splits bool.splits)

lemma line_bytes_fits: "line_bytes l a n = Inr v \<Longrightarrow> unat (a AND 63) + n \<le> 64 \<and> n \<le> 8"
  by (auto simp: line_bytes_def guard_def Let_def split: if_splits)

lemma cache_read_fits: "cache_read p l2 a n m = Inr (v, m') \<Longrightarrow> ram_addr a \<Longrightarrow> access_ok a n"
  by (auto simp: cache_read_def access_ok_def Let_def dest!: line_bytes_fits)

lemma fill_read: "vaddr_fill_and_read = vaddr_read"
  by (simp add: vaddr_fill_and_read_def vaddr_read_def cache_fill_and_read_def cache_read_def fun_eq_iff)

lemma vaddr_read_any:
  assumes "vaddr_read a n m = Inr (v, m')"
  shows "mem_kept B m m'" "mem_sys m \<Longrightarrow> in_ram_range a \<Longrightarrow> v = word_of_bytes (load_bytes (ram_view m) (ram_off a) n)"
proof -
  have ok: "access_ok a n" if "in_ram_range a"
  proof -
    have "ram_addr a" using that by (simp add: ram_addr_def in_ram_range_def)
    then show ?thesis using assms that by (auto simp: vaddr_read_def dest: cache_read_fits)
  qed
  then show "mem_sys m \<Longrightarrow> in_ram_range a \<Longrightarrow> v = word_of_bytes (load_bytes (ram_view m) (ram_off a) n)"
    using vaddr_read_sys [of m a n] assms by auto
  show "mem_kept B m m'"
  proof (cases "in_ram_range a")
    case True
    then show ?thesis using vaddr_read_sys [of m a n] ok assms code_clean_read [of m m' B] by (auto simp: mem_kept_def)
  next
    case False
    then show ?thesis using assms mem_eq_kept paddr_read_mem_eq by (simp add: vaddr_read_def)
  qed
qed

lemma vaddr_ifetch_any:
  assumes "vaddr_ifetch a n m = Inr (v, m')"
  shows "mem_kept B m m'"
proof (cases "in_ram_range a")
  case True
  then have "ram_addr a" by (simp add: ram_addr_def in_ram_range_def)
  then have "access_ok a n" using assms True by (auto simp: vaddr_ifetch_def dest: cache_read_fits)
  then show ?thesis using fetch_keeps_code [of m B a n] assms by (auto simp: mem_kept_def)
next
  case False
  then show ?thesis using assms mem_eq_kept paddr_read_mem_eq by (simp add: vaddr_ifetch_def)
qed

text \<open>A probe only moves the MRU hints of the two caches.\<close>

lemma probe_kept:
  assumes "mem_sys m" and "code_clean B m" and "L1D_cache m = Some p" and "L2_cache m = Some l2"
    and "wf_cache c" and "same_held (get_cache q m) c" and "q = p \<or> q = l2"
  shows "mem_sys (put_cache q c m)" "code_clean B (put_cache q c m)" "ram_view (put_cache q c m) = ram_view m"
proof -
  let ?D = "data_caches m" and ?n = "put_cache q c m"
  have p: "p \<in> set ?D" using hart_caches [of m] assms(1,3) by (auto simp: mem_sys_def)
  have co: "coherent ?D l2 m" using assms(1,4) by (simp add: mem_sys_def)
  have co': "coherent ?D l2 ?n" and v: "\<And>a. ram_addr a \<Longrightarrow> dview ?D l2 ?n a = dview ?D l2 m a"
    using assms(5-7) coherent_same_held [OF co p assms(5)] coherent_l2_same_held [OF co assms(5)] by auto
  have fr: "mem_frame {p, l2} m ?n" by (rule mem_frame_mono [OF put_cache_frame(1)]) (use assms(7) in auto)
  have h: "held (get_cache r ?n) = held (get_cache r m)" for r
    using assms(6) by (cases "q < length (caches m)"; cases "r = q") (auto simp: same_held_def fun_eq_iff get_cache_def put_cache_def list_update_beyond not_less)
  show s: "mem_sys ?n" using mem_sys_step [OF assms(1) p] fr co' assms(4) by simp
  show r: "ram_view ?n = ram_view m" using frame_fields [OF fr] v ram_addr_of assms(4) by (auto simp: ram_view_def fun_eq_iff)
  have "mem_frame (mem_caches m) m ?n" by (rule mem_frame_mono [OF fr]) (use p assms(4) in \<open>simp add: mem_caches_def\<close>)
  moreover have "dirty ?D ?n = dirty ?D m" by (simp add: dirty_def h)
  ultimately show "code_clean B ?n" using code_clean_read [OF assms(1) s assms(2)] r by simp
qed

lemma vaddr_probe_any:
  assumes "vaddr_probe_level a m = Inr (v, m')"
  shows "mem_kept B m m'"
proof (cases "in_ram_range a \<and> mem_sys m \<and> code_clean B m")
  case True
  obtain p l2 where h: "L1D_cache m = Some p" "L2_cache m = Some l2" "p \<in> set (data_caches m)"
    using hart_caches [of m] True by (metis mem_sys_def)
  have co: "coherent (data_caches m) l2 m" using True h(2) by (simp add: mem_sys_def)
  obtain c h1 w where f: "find_line_quiet (get_cache p m) a = (c, h1, w)" by (metis surj_pair)
  note q = find_line_quiet_ok [OF coherentD(5) [OF co h(3)] f]
  let ?m1 = "put_cache p c m"
  have m1: "mem_sys ?m1" "code_clean B ?m1" "ram_view ?m1 = ram_view m" using probe_kept [OF _ _ h(1,2), of B c p] True q by auto
  obtain c2 h2 w2 where f2: "find_line_quiet (get_cache l2 ?m1) a = (c2, h2, w2)" by (metis surj_pair)
  have h1': "L1D_cache ?m1 = Some p" "L2_cache ?m1 = Some l2" using h by (simp_all add: put_cache_def)
  have "wf_cache (get_cache l2 ?m1)" using m1(1) h1' by (auto simp: mem_sys_def coherent_def l2_ok_def)
  note q2 = find_line_quiet_ok [OF this f2]
  have "mem_sys (put_cache l2 c2 ?m1)" "code_clean B (put_cache l2 c2 ?m1)" "ram_view (put_cache l2 c2 ?m1) = ram_view ?m1"
    using probe_kept [OF m1(1,2) h1', of c2 l2] q2 by auto
  moreover have "m' = (if h1 then ?m1 else put_cache l2 c2 ?m1)"
    using assms True h f f2 by (auto simp: vaddr_probe_level_def cache_probe_level_def deref_def split: if_splits)
  ultimately show ?thesis using m1 by (simp add: mem_kept_def)
qed (use assms in \<open>auto simp: vaddr_probe_level_def mem_kept_def\<close>)

section \<open>Executors\<close>

lemma ir_execute_mem_eq: "ir_execute ir c m = Inr (ir', m') \<Longrightarrow> mem_eq m m'"
proof -
  assume "ir_execute ir c m = Inr (ir', m')"
  then have "exec_part m' = exec_part m" using ir_execute_exec by (simp add: exec_frame_def)
  moreover have "caches (exec_part n) = caches n" "pmem (exec_part n) = pmem n" "L1I_cache (exec_part n) = L1I_cache n"
      "L1D_cache (exec_part n) = L1D_cache n" "L2_cache (exec_part n) = L2_cache n" "cores (exec_part n) = cores n"
      "g_num_cores (exec_part n) = g_num_cores n" "g_current_hartid (exec_part n) = g_current_hartid n" for n
    by (simp_all add: exec_part_def)
  ultimately show ?thesis unfolding mem_eq_def by metis
qed

end
