(* ===== verification/Isa_Facts.thy ===== *)
theory Isa_Facts
  imports Isa_Run
begin

text \<open>
  What an ISA step writes, and how the kind of an instruction shows in its opcode.
\<close>

definition isa_rd :: "isa_state \<Rightarrow> int" where
  "isa_rd s = (if op_type (isa_op s) \<in> {TYPE_S, TYPE_B} then -1 else uint (ibits (isa_fetch s) 11 7))"

lemma isa_rd_range: "isa_rd s = -1 \<or> 0 \<le> isa_rd s \<and> isa_rd s < 32"
  using ibits_reg [where i = "isa_fetch s" and lo = 7] by (simp add: isa_rd_def)

lemma op_types:
  "x \<in> set alu_ops \<Longrightarrow> op_type x = TYPE_R \<or> op_type x = TYPE_I" "x \<in> load_ops \<Longrightarrow> op_type x = TYPE_I" "x \<in> store_ops \<Longrightarrow> op_type x = TYPE_S"
  by (cases x; simp add: alu_ops_def op_type_def load_ops_def store_ops_def)+

text \<open>The registers after a step: only the destination changes.\<close>

lemma isa_step_regs: "\<exists>v. i_regs (isa_next s) = (if isa_rd s = -1 then i_regs s else set_reg (nat (isa_rd s)) v (i_regs s))"
proof -
  let ?x = "isa_op s" and ?r = "unat (ibits (isa_fetch s) 11 7)"
  let ?W = "set alu_ops \<union> load_ops \<union> {X_lui, X_auipc, X_jal, X_jalr}"
  have w: "?x \<in> ?W \<Longrightarrow> isa_rd s = int ?r" using op_types [of ?x] by (auto simp: isa_rd_def op_type_def)
  have step: "i_regs (isa_step ?x (isa_fetch s) s) = i_regs s \<or> ?x \<in> ?W \<and> (\<exists>v. i_regs (isa_step ?x (isa_fetch s) s) = set_reg ?r v (i_regs s))"
    unfolding isa_step_def Let_def by (simp split: if_split del: disj_not1) blast?
  have same: "set_reg r (i_regs s ! r) (i_regs s) = i_regs s" for r by (simp add: set_reg_def)
  show ?thesis
  proof (cases "isa_rd s = -1")
    case True
    have "?x \<notin> ?W"
    proof
      assume "?x \<in> ?W"
      then show False using w True of_nat_0_le_iff [of ?r, where ?'a = int] by linarith
    qed
    then show ?thesis using True step by (simp add: isa_next_def)
  next
    case False
    then show ?thesis using step w same [of "nat (isa_rd s)"] unfolding isa_next_def by (metis nat_int)
  qed
qed

lemma isa_other_reg: "0 < r \<Longrightarrow> isa_rd s \<noteq> int r \<Longrightarrow> i_regs (isa_next s) ! r = i_regs s ! r"
  using isa_step_regs [of s] by (auto simp: set_reg_def nth_list_update split: if_splits)

lemma isa_regs_ok: "length (i_regs s) = 32 \<Longrightarrow> i_regs s ! 0 = 0 \<Longrightarrow> length (i_regs (isa_next s)) = 32 \<and> i_regs (isa_next s) ! 0 = 0"
  using isa_step_regs [of s] isa_rd_range [of s] by (auto simp: set_reg_def nth_list_update split: if_splits)

lemma retired_value:
  assumes "retired (isa_op s) (isa_fetch s) s ir" and "ir_rd ir = isa_rd s" and "0 < isa_rd s" and "length (i_regs s) = 32"
  shows "result ir = i_regs (isa_next s) ! nat (isa_rd s)"
  using assms isa_rd_range [of s] by (auto simp: retired_def isa_next_def set_reg_def)

section \<open>Opcodes\<close>

definition control_ops :: "exec_op set" where
  "control_ops = {X_jal, X_jalr, X_beq, X_bne, X_blt, X_bge, X_bltu, X_bgeu}"

lemma sequential_op: "user_op x \<Longrightarrow> x \<notin> control_ops \<Longrightarrow> i_pc (isa_step x raw s) = i_pc s + 4"
  using user_classes [of x] by (auto simp: isa_step_def control_ops_def Let_def)

lemma opcode_rows:
  "list_all (\<lambda>(pat, x, _). case pattern_decode pat of
     Inr (key, msk, shift) \<Rightarrow> user_op x \<longrightarrow> shift = 0 \<and> 0x7f AND msk = 0x7f \<and> (x \<in> load_ops \<longleftrightarrow> key AND 0x7f = 0x03) \<and> (x \<in> store_ops \<longleftrightarrow> key AND 0x7f = 0x23) \<and>
       (x \<in> control_ops \<longrightarrow> key AND 0x7f \<noteq> 0x33 \<and> key AND 0x7f \<noteq> 0x3b)
   | Inl _ \<Rightarrow> False) inst_table"
  by (simp add: inst_table_def pattern_decode_rows user_rows load_ops_def store_ops_def control_ops_def)

lemma op_class:
  assumes "user_op (table_lookup inst_table raw)"
  shows "table_lookup inst_table raw \<in> load_ops \<longleftrightarrow> raw AND 0x7f = 0x03" "table_lookup inst_table raw \<in> store_ops \<longleftrightarrow> raw AND 0x7f = 0x23"
    "table_lookup inst_table raw \<in> control_ops \<Longrightarrow> raw AND 0x7f \<noteq> 0x33 \<and> raw AND 0x7f \<noteq> 0x3b"
proof -
  let ?x = "table_lookup inst_table raw"
  have "?x \<noteq> X_inv" using assms by (auto simp: user_op_def)
  then obtain pat ty where row: "(pat, ?x, ty) \<in> set inst_table" "instpat_match pat raw" using table_lookup_row by blast
  then obtain key msk where p: "pattern_decode pat = Inr (key, msk, 0)" "0x7f AND msk = 0x7f" "?x \<in> load_ops \<longleftrightarrow> key AND 0x7f = 0x03" "?x \<in> store_ops \<longleftrightarrow> key AND 0x7f = 0x23"
      "?x \<in> control_ops \<Longrightarrow> key AND 0x7f \<noteq> 0x33 \<and> key AND 0x7f \<noteq> 0x3b"
    using opcode_rows assms unfolding list_all_iff by (fastforce split: sum.splits prod.splits)
  have m: "(mask 7 :: word_t) = 0x7f" "(mask 7 :: u32) = 0x7f" by (simp_all add: mask_eq_exp_minus_1)
  have e: "ucast raw AND msk = key" using row(2) p(1) by (simp add: instpat_match_def)
  have "ucast raw AND 0x7f = key AND (0x7f :: word_t)" using masked_field [OF e, of 0 7] p(2) by (simp add: m)
  moreover have "raw AND 0x7f = ucast (ucast raw AND 0x7f :: word_t)" using ucast_field [of 0 raw 7] by (simp add: m)
  moreover have "key AND 0x7f = c \<longleftrightarrow> (ucast (key AND 0x7f) :: u32) = ucast c" if "c AND 0x7f = c" for c :: word_t
  proof -
    have "ucast (ucast (y AND 0x7f) :: u32) = y AND 0x7f" for y :: word_t
      unfolding m(1) [symmetric] by (rule bit_word_eqI) (auto simp: bit_simps)
    then show ?thesis using that by metis
  qed
  ultimately show "?x \<in> load_ops \<longleftrightarrow> raw AND 0x7f = 0x03" "?x \<in> store_ops \<longleftrightarrow> raw AND 0x7f = 0x23"
      "?x \<in> control_ops \<Longrightarrow> raw AND 0x7f \<noteq> 0x33 \<and> raw AND 0x7f \<noteq> 0x3b" using p(3-5) by simp_all
qed

end
