(* ===== verification/Ooo_Path.thy ===== *)
theory Ooo_Path
  imports Ooo_Run Forwarding Any_Access Isa_Facts
begin

text \<open>
  The instructions in the out-of-order engine against an ISA run. In program order they are the entries of the re-order
  buffer, the two pairs of front-end latches and the next fetch. An initial segment of them is on the path of the run; what
  follows an unresolved taken branch is not, and nothing is claimed of it. For what is on the path the invariant says
  which operands are waited for, which values have arrived and what the finished entries hold.
\<close>

section \<open>Program order\<close>

definition front :: "OOOState \<Rightarrow> IR_Inst list" where
  "front t = map pr_ir (filter pr_valid (latch_id_rn t) @ filter pr_valid (latch_if_id t))"

definition insts :: "OOOState \<Rightarrow> IR_Inst list" where
  "insts t = map rob_ir (in_flight t) @ front t"

definition pcs :: "OOOState \<Rightarrow> vaddr_t list" where
  "pcs t = map ir_pc (insts t) @ [ooo_fetch_pc t]"

definition on_path :: "(nat \<Rightarrow> isa_state) \<Rightarrow> nat \<Rightarrow> OOOState \<Rightarrow> nat \<Rightarrow> bool" where
  "on_path R c t k \<longleftrightarrow> (\<forall>j\<le>k. pcs t ! j = i_pc (R (c + j)))"

lemma on_path_mono: "on_path R c t k \<Longrightarrow> j \<le> k \<Longrightarrow> on_path R c t j"
  by (simp add: on_path_def)

lemma on_path_eq: "pcs t' = pcs t \<Longrightarrow> on_path R c t' = on_path R c t"
  by (simp add: on_path_def fun_eq_iff)

text \<open>The run: it follows the ISA, is safe for the code, and starts with proper registers.\<close>

definition isa_run :: "vaddr_t set \<Rightarrow> nat \<Rightarrow> (nat \<Rightarrow> isa_state) \<Rightarrow> bool" where
  "isa_run C N R \<longleftrightarrow> fetchable C \<and> (\<forall>i<N. R (Suc i) = isa_next (R i) \<and> safe C (R i)) \<and> length (i_regs (R 0)) = 32 \<and> i_regs (R 0) ! 0 = 0"

lemma isa_runD: "isa_run C N R \<Longrightarrow> i < N \<Longrightarrow> R (Suc i) = isa_next (R i) \<and> safe C (R i)"
  by (simp add: isa_run_def)

lemma isa_run_user: "isa_run C N R \<Longrightarrow> i < N \<Longrightarrow> user_ok (isa_op (R i)) (isa_fetch (R i)) (R i) \<and> user_op (isa_op (R i))"
  by (simp add: isa_run_def safe_def user_ok_def)

lemma isa_run_regs: "isa_run C N R \<Longrightarrow> i \<le> N \<Longrightarrow> length (i_regs (R i)) = 32 \<and> i_regs (R i) ! 0 = 0"
proof (induction i)
  case (Suc i)
  then show ?case using isa_regs_ok [of "R i"] isa_runD [of C N R i] by simp
qed (simp add: isa_run_def)

lemma isa_run_code: "isa_run C N R \<Longrightarrow> i \<le> N \<Longrightarrow> a \<in> C \<Longrightarrow> code_at (R i) a = code_at (R 0) a"
proof (induction i)
  case (Suc i)
  then show ?case using code_stable [of C "R i" a] isa_runD [of C N R i] by (simp add: isa_run_def)
qed simp

section \<open>What the invariant says of one instruction\<close>

text \<open>Decoded; executed; an entry of the re-order buffer; its physical register.\<close>

definition inst_ok :: "isa_state \<Rightarrow> IR_Inst \<Rightarrow> bool" where
  "inst_ok q ir \<longleftrightarrow> fmt (isa_op q) (isa_fetch q) (i_pc q) ir \<and> ir_raw ir = isa_fetch q \<and> bp_predicted_pc ir = i_pc q + 4"

definition finished :: "isa_state \<Rightarrow> ROBEntry \<Rightarrow> bool" where
  "finished q e \<longleftrightarrow> executed (isa_op q) (isa_fetch q) q (rob_ir e) \<and> \<not> fault (rob_ir e) \<and>
     (isa_op q \<in> store_ops \<longrightarrow> store_data e = i_regs q ! unat (ibits (isa_fetch q) 24 20))"

definition entry_ok :: "isa_state \<Rightarrow> ROBEntry \<Rightarrow> bool" where
  "entry_ok q e \<longleftrightarrow> ir_raw (rob_ir e) = isa_fetch q \<and> arch_rd e = isa_rd q \<and> (if rob_ready e then finished q e else inst_ok q (rob_ir e))"

definition target_ok :: "isa_state \<Rightarrow> PhysReg list \<Rightarrow> ROBEntry \<Rightarrow> bool" where
  "target_ok q' ph e \<longleftrightarrow> (let r = ph ! nat (rob_phys_rd e) in 0 < arch_rd e \<and> (rob_ready e \<or> p_ready r) \<longrightarrow> p_value r = i_regs q' ! nat (arch_rd e))"

text \<open>An operand: the register number, its state in the station and the value the decoder gave. \<open>f\<close> is the map when it was renamed.\<close>

definition operand_value :: "isa_state \<Rightarrow> int \<Rightarrow> word_t \<Rightarrow> word_t" where
  "operand_value q r v = (if r = -1 then v else i_regs q ! nat r)"

definition src_ok :: "isa_state \<Rightarrow> int list \<Rightarrow> int \<Rightarrow> word_t \<Rightarrow> bool \<Rightarrow> word_t \<Rightarrow> int \<Rightarrow> bool" where
  "src_ok q f r v rdy val tag \<longleftrightarrow> (if rdy then val = operand_value q r v else 0 < r \<and> r < 32 \<and> tag = f ! nat r)"

definition station_ok :: "isa_state \<Rightarrow> int list \<Rightarrow> IR_Inst \<Rightarrow> RSEntry \<Rightarrow> bool" where
  "station_ok q f ir e \<longleftrightarrow> eu_type e = eu_of (ir_raw ir) \<and>
     src_ok q f (ir_rs1 ir) (src1_val ir) (src1_ready e) (rs_src1_val e) (src1_ptag e) \<and>
     src_ok q f (ir_rs2 ir) (src2_val ir) (src2_ready e) (rs_src2_val e) (src2_ptag e)"

definition latch_ok :: "isa_state \<Rightarrow> IR_Inst \<Rightarrow> OOOLatch \<Rightarrow> bool" where
  "latch_ok q ir l \<longleftrightarrow> l_src1_val l = operand_value q (ir_rs1 ir) (src1_val ir) \<and> l_src2_val l = operand_value q (ir_rs2 ir) (src2_val ir)"

text \<open>A load in its unit comes after stores whose address and data are known; when it waits for memory its address is known.\<close>

definition load_ok :: "isa_state \<Rightarrow> ROBEntry list \<Rightarrow> IR_Inst \<Rightarrow> OOOLatch \<Rightarrow> bool" where
  "load_ok q es ir l \<longleftrightarrow>
     (isa_op q \<in> load_ops \<longrightarrow> (\<forall>e\<in>set es. is_store_op (ir_raw (rob_ir e)) \<longrightarrow> rob_ready e)) \<and>
     (l_mshr_idx l \<noteq> -1 \<or> l_cycles_rem l \<noteq> -1 \<longrightarrow> isa_op q \<in> load_ops \<and> executed (isa_op q) (isa_fetch q) q ir)"

definition unit_ok :: "isa_state \<Rightarrow> ROBEntry list \<Rightarrow> IR_Inst \<Rightarrow> nat \<Rightarrow> OOOLatch \<Rightarrow> bool" where
  "unit_ok q es ir eu l \<longleftrightarrow> eu_of (ir_raw ir) = eu \<and> latch_ok q ir l \<and> (eu = 2 \<longrightarrow> load_ok q es ir l)"

text \<open>The latches that hold an instruction, with the number of their unit.\<close>

definition unit_set :: "OOOState \<Rightarrow> (nat \<times> OOOLatch) set" where
  "unit_set t = {(0, l) | l. l \<in> set (latch_int t) \<and> l_valid l} \<union> {(1, l) | l. l \<in> set (latch_mul t) \<and> l_valid l} \<union>
     {(2, l) | l. l \<in> set (latch_lsu t) \<and> live_lsu l}"

text \<open>The register map before the \<open>k\<close>-th instruction in flight.\<close>

definition map_step :: "ROBEntry \<Rightarrow> int list \<Rightarrow> int list" where
  "map_step e f = (if arch_rd e \<noteq> -1 \<and> arch_rd e \<noteq> 0 then f[nat (arch_rd e) := rob_phys_rd e] else f)"

definition map_at :: "OOOState \<Rightarrow> nat \<Rightarrow> int list" where
  "map_at t k = fold map_step (take k (in_flight t)) (rrat t)"

section \<open>The invariant\<close>

definition entries_ok :: "(nat \<Rightarrow> isa_state) \<Rightarrow> nat \<Rightarrow> OOOState \<Rightarrow> bool" where
  "entries_ok R c t \<longleftrightarrow> (\<forall>k<length (in_flight t). on_path R c t k \<longrightarrow>
     entry_ok (R (c + k)) (in_flight t ! k) \<and> target_ok (R (c + Suc k)) (phys t) (in_flight t ! k))"

definition front_ok :: "(nat \<Rightarrow> isa_state) \<Rightarrow> nat \<Rightarrow> OOOState \<Rightarrow> bool" where
  "front_ok R c t \<longleftrightarrow> (\<forall>k. length (in_flight t) \<le> k \<and> k < length (insts t) \<and> on_path R c t k \<longrightarrow> inst_ok (R (c + k)) (insts t ! k))"

definition stations_ok :: "(nat \<Rightarrow> isa_state) \<Rightarrow> nat \<Rightarrow> OOOState \<Rightarrow> bool" where
  "stations_ok R c t \<longleftrightarrow> (\<forall>i<16. let e = rs_tab t ! i; k = rob_dist t (rs_rob_idx e) in
     rs_valid e \<and> on_path R c t k \<longrightarrow> station_ok (R (c + k)) (map_at t k) (rob_ir (in_flight t ! k)) e)"

definition units_ok :: "(nat \<Rightarrow> isa_state) \<Rightarrow> nat \<Rightarrow> OOOState \<Rightarrow> bool" where
  "units_ok R c t \<longleftrightarrow> (\<forall>eu l. (eu, l) \<in> unit_set t \<longrightarrow> (let k = rob_dist t (l_rob_idx l) in
     on_path R c t k \<longrightarrow> unit_ok (R (c + k)) (take k (in_flight t)) (rob_ir (in_flight t ! k)) eu l))"

text \<open>Every instruction is followed by its successor once it is finished, before that by the next word. \<open>X\<close> are exceptions.\<close>

definition links_ok :: "nat set \<Rightarrow> (nat \<Rightarrow> isa_state) \<Rightarrow> nat \<Rightarrow> OOOState \<Rightarrow> bool" where
  "links_ok X R c t \<longleftrightarrow> pcs t ! 0 = i_pc (R c) \<and> (\<forall>k<length (insts t). k \<notin> X \<and> on_path R c t k \<longrightarrow>
     pcs t ! Suc k = (if k < length (in_flight t) \<and> rob_ready (in_flight t ! k) then i_pc (R (c + Suc k)) else i_pc (R (c + k)) + 4))"

definition packed :: "OOOState \<Rightarrow> bool" where
  "packed t \<longleftrightarrow> (pr_valid (latch_id_rn t ! 1) \<longrightarrow> pr_valid (latch_id_rn t ! 0)) \<and> (pr_valid (latch_if_id t ! 1) \<longrightarrow> pr_valid (latch_if_id t ! 0))"

definition base_ok :: "(nat \<Rightarrow> isa_state) \<Rightarrow> nat \<Rightarrow> OOOState \<Rightarrow> bool" where
  "base_ok R c t \<longleftrightarrow> (\<forall>r. 0 < r \<and> r < 32 \<longrightarrow> committed t r = i_regs (R c) ! r)"

definition flow :: "nat set \<Rightarrow> (nat \<Rightarrow> isa_state) \<Rightarrow> nat \<Rightarrow> OOOState \<Rightarrow> bool" where
  "flow X R c t \<longleftrightarrow> ooo_inv t \<and> base_ok R c t \<and> entries_ok R c t \<and> front_ok R c t \<and> stations_ok R c t \<and> units_ok R c t \<and> links_ok X R c t \<and> packed t"

section \<open>Entries by slot and by position\<close>

lemma in_flight_nth:
  assumes "rings_ok t" and "i < 32" and "rob_valid (rob t ! i)"
  shows "rob_dist t i < length (in_flight t)" "in_flight t ! rob_dist t i = rob t ! i"
  using valid_dist [OF assms(1,2)] assms(3) rob_ring_fields [OF assms(1)] by (simp_all add: in_flight_def)

lemma ooo_invD: "ooo_inv t \<Longrightarrow> rename_ok t \<and> rings_ok t \<and> masks_ok t \<and> shape_ok t \<and> renaming_ok (renaming_of t)"
  by (simp add: ooo_inv_def rename_ok_def)

lemma in_flight_length: "ooo_inv t \<Longrightarrow> length (in_flight t) \<le> 32" "ooo_inv t \<Longrightarrow> length (insts t) \<le> 36"
proof -
  assume inv: "ooo_inv t"
  show n: "length (in_flight t) \<le> 32" using rob_ring_fields [of t] ooo_invD [OF inv] by (simp add: in_flight_def)
  have "length (latch_id_rn t) = 2" "length (latch_if_id t) = 2" using ooo_invD [OF inv] by (simp_all add: shape_ok_def)
  then have "length (front t) \<le> 2 + 2" unfolding front_def using length_filter_le [of pr_valid "latch_id_rn t"] length_filter_le [of pr_valid "latch_if_id t"] by simp
  then show "length (insts t) \<le> 36" using n by (simp add: insts_def)
qed

text \<open>The position of a waiting instruction.\<close>

lemma token_place:
  assumes "ooo_inv t" and "(i, p) \<in># tokens t"
  defines "k \<equiv> rob_dist t i"
  shows "k < length (in_flight t)" "in_flight t ! k = rob t ! i" "\<not> rob_ready (in_flight t ! k)" "rob_phys_rd (in_flight t ! k) = p" "(rob_head t + k) mod 32 = i"
  using token_entry [OF assms(1,2)] in_flight_nth [of t i] ooo_invD [OF assms(1)] valid_dist [of t i] by (simp_all add: k_def)

lemma station_token: "ooo_inv t \<Longrightarrow> i < 16 \<Longrightarrow> rs_valid (rs_tab t ! i) \<Longrightarrow> (rs_rob_idx (rs_tab t ! i), rs_phys_rd (rs_tab t ! i)) \<in># tokens t"
proof -
  assume "ooo_inv t" "i < 16" "rs_valid (rs_tab t ! i)"
  moreover from this have "rs_tab t ! i \<in> set (rs_tab t)" by (simp add: ooo_inv_def masks_ok_def)
  ultimately show ?thesis by (force simp: tokens_def rs_tokens_def rs_token_def)
qed

lemma unit_token: "(eu, l) \<in> unit_set t \<Longrightarrow> (l_rob_idx l, l_phys_rd l) \<in># tokens t"
  by (auto simp: unit_set_def tokens_def unit_tokens_def latch_token_def image_iff)

section \<open>Maps and values\<close>

lemma map_at_0: "map_at t 0 = rrat t" by (simp add: map_at_def)

lemma map_at_Suc: "k < length (in_flight t) \<Longrightarrow> map_at t (Suc k) = map_step (in_flight t ! k) (map_at t k)"
  by (simp add: map_at_def take_Suc_conv_app_nth)

lemma map_at_length: "ooo_inv t \<Longrightarrow> length (map_at t k) = 32"
proof -
  have "length (fold map_step es f) = length f" for es f by (induction es arbitrary: f) (simp_all add: map_step_def)
  then show "ooo_inv t \<Longrightarrow> ?thesis" using ooo_invD [of t] by (simp add: map_at_def renaming_ok_def renaming_of_def)
qed

lemma map_at_all: "ooo_inv t \<Longrightarrow> map_at t (length (in_flight t)) = rat t"
proof -
  have "fold map_step es f = fold (\<lambda>e f. f[nat (arch_rd e) := rob_phys_rd e]) (filter (\<lambda>e. arch_rd e \<noteq> -1 \<and> arch_rd e \<noteq> 0) es) f" for es f
    by (induction es arbitrary: f) (simp_all add: map_step_def)
  then show "ooo_inv t \<Longrightarrow> ?thesis" using renaming_facts(3) [of t] ooo_invD [of t] by (simp add: map_at_def writers_def)
qed

lemma map_at_eq:
  assumes "rrat t' = rrat t" and "map (\<lambda>e. (arch_rd e, rob_phys_rd e)) (take k (in_flight t')) = map (\<lambda>e. (arch_rd e, rob_phys_rd e)) (take k (in_flight t))"
  shows "map_at t' k = map_at t k"
proof -
  have "fold map_step es f = fold (\<lambda>(r, p) f. if r \<noteq> -1 \<and> r \<noteq> 0 then f[nat r := p] else f) (map (\<lambda>e. (arch_rd e, rob_phys_rd e)) es) f" for es f
    by (induction es arbitrary: f) (simp_all add: map_step_def)
  then show ?thesis using assms by (simp add: map_at_def)
qed

text \<open>What the map of an instruction on the path names is the register's value, once it is there.\<close>

lemma map_value:
  assumes "ooo_inv t" and "base_ok R c t" and "entries_ok R c t" and "isa_run C N R" and "c + k \<le> N"
    and "k \<le> length (in_flight t)" and "\<And>j. j < k \<Longrightarrow> on_path R c t j" and "0 < r" and "r < 32"
    and "p_ready (phys t ! nat (map_at t k ! r))"
  shows "p_value (phys t ! nat (map_at t k ! r)) = i_regs (R (c + k)) ! r"
  using assms(5-7,10)
proof (induction k)
  case 0
  then show ?case using assms(2,8,9) by (simp add: map_at_0 base_ok_def committed_def)
next
  case (Suc k)
  let ?e = "in_flight t ! k"
  have e: "entry_ok (R (c + k)) ?e" "target_ok (R (c + Suc k)) (phys t) ?e" using assms(3) Suc.prems(2,3) by (simp_all add: entries_ok_def)
  have rd: "arch_rd ?e = isa_rd (R (c + k))" using e(1) by (simp add: entry_ok_def)
  show ?case
  proof (cases "arch_rd ?e = int r")
    case True
    then have "map_at t (Suc k) ! r = rob_phys_rd ?e"
      using Suc.prems(2) assms(8,9) map_at_length [OF assms(1)] by (simp add: map_at_Suc map_step_def)
    then show ?thesis using True e(2) Suc.prems(4) assms(8) by (simp add: target_ok_def Let_def)
  next
    case False
    have "nat (arch_rd ?e) \<noteq> r \<or> arch_rd ?e = -1 \<or> arch_rd ?e = 0" using False isa_rd_range [of "R (c + k)"] rd by auto
    then have m: "map_at t (Suc k) ! r = map_at t k ! r" using Suc.prems(2) by (auto simp: map_at_Suc map_step_def)
    have "i_regs (R (c + Suc k)) ! r = i_regs (R (c + k)) ! r"
      using isa_other_reg [OF assms(8), of "R (c + k)"] False rd isa_runD [OF assms(4), of "c + k"] Suc.prems(1) by simp
    then show ?thesis using Suc m by simp
  qed
qed

text \<open>Instructions in flight have different targets.\<close>

lemma distinct_filter_nth:
  assumes "distinct (map f (filter P xs))" and "i < length xs" and "j < length xs" and "i \<noteq> j" and "P (xs ! i)" and "P (xs ! j)"
  shows "f (xs ! i) \<noteq> f (xs ! j)"
  using assms
proof (induction xs arbitrary: i j)
  case (Cons x xs)
  have n: "P x \<Longrightarrow> P (xs ! k) \<Longrightarrow> k < length xs \<Longrightarrow> f x \<noteq> f (xs ! k)" for k using Cons.prems(1) by fastforce
  show ?case
  proof (cases i; cases j)
    fix i' j' assume "i = Suc i'" "j = Suc j'"
    then show ?thesis using Cons.IH [of i' j'] Cons.prems by (auto split: if_splits)
  next
    fix i' assume "i = Suc i'" "j = 0"
    then show ?thesis using n [of i'] Cons.prems by simp
  qed (use Cons.prems n in auto)
qed simp

lemma other_target:
  assumes "ooo_inv t" and "j < length (in_flight t)" and "k < length (in_flight t)" and "j \<noteq> k" and "0 < arch_rd (in_flight t ! j)" and "0 \<le> rob_phys_rd (in_flight t ! k)"
  shows "nat (rob_phys_rd (in_flight t ! j)) \<noteq> nat (rob_phys_rd (in_flight t ! k))"
proof -
  let ?r = "renaming_of t" and ?e = "\<lambda>i. slot_of (in_flight t ! i)"
  have ok: "renaming_ok ?r" and fl: "r_flight ?r = map slot_of (in_flight t)" using ooo_invD [OF assms(1)] flight_slots by simp_all
  have n: "r_flight ?r ! i = ?e i" "?e i \<in> set (r_flight ?r)" if "i < length (in_flight t)" for i using that fl by simp_all
  have wj: "writes (?e j)" using assms(5) by (simp add: writes_def slot_of_def)
  then have pj: "0 < sl_phys (?e j)" using slot_target [OF ok n(2) [OF assms(2)]] by simp
  have "sl_phys (?e j) \<noteq> sl_phys (?e k)"
  proof (cases "writes (?e k)")
    case True
    have "distinct (map sl_phys (filter writes (r_flight ?r)))" using targets_distinct(1) [OF ok] by simp
    from distinct_filter_nth [OF this, of j k] show ?thesis using assms(2-4) fl wj True by simp
  next
    case False
    then show ?thesis using slot_target [OF ok n(2) [OF assms(3)]] pj by auto
  qed
  then show ?thesis using pj assms(6) by (auto simp: slot_of_def nat_eq_iff2)
qed

end
