(* ===== verification/Ooo_Finish.thy ===== *)
theory Ooo_Finish
  imports Ooo_Path
begin

text \<open>
  Instructions finish: a result is written and broadcast, a branch that went elsewhere squashes what follows it.
\<close>

section \<open>Operands arrive\<close>

definition arrived :: "PhysReg list \<Rightarrow> bool \<Rightarrow> word_t \<Rightarrow> int \<Rightarrow> bool \<Rightarrow> word_t \<Rightarrow> int \<Rightarrow> bool" where
  "arrived ph r v p r' v' p' \<longleftrightarrow> r' = r \<and> v' = v \<and> p' = p \<or> \<not> r \<and> r' \<and> p_ready (ph ! nat p) \<and> v' = p_value (ph ! nat p)"

definition woken :: "PhysReg list \<Rightarrow> RSEntry \<Rightarrow> RSEntry \<Rightarrow> bool" where
  "woken ph e e' \<longleftrightarrow> rs_rob_idx e' = rs_rob_idx e \<and> eu_type e' = eu_type e \<and>
     arrived ph (src1_ready e) (rs_src1_val e) (src1_ptag e) (src1_ready e') (rs_src1_val e') (src1_ptag e') \<and>
     arrived ph (src2_ready e) (rs_src2_val e) (src2_ptag e) (src2_ready e') (rs_src2_val e') (src2_ptag e')"

lemma woken_refl [simp]: "woken ph e e" by (simp add: woken_def arrived_def)

lemma src_arrived:
  assumes "src_ok q f r v rdy val tag" and "arrived ph rdy val tag rdy' val' tag'"
    and "\<And>x. \<lbrakk>0 < x; x < 32; p_ready (ph ! nat (f ! x))\<rbrakk> \<Longrightarrow> p_value (ph ! nat (f ! x)) = i_regs q ! x"
  shows "src_ok q f r v rdy' val' tag'"
  using assms(1,2) assms(3) [of "nat r"] by (auto simp: src_ok_def arrived_def operand_value_def split: if_splits)

lemma station_woken:
  assumes "station_ok q f ir e" and "woken ph e e'"
    and "\<And>x. \<lbrakk>0 < x; x < 32; p_ready (ph ! nat (f ! x))\<rbrakk> \<Longrightarrow> p_value (ph ! nat (f ! x)) = i_regs q ! x"
  shows "station_ok q f ir e'"
  using assms(1,2) src_arrived [OF _ _ assms(3)] unfolding station_ok_def woken_def by metis

lemma nth_update: "i < length xs \<Longrightarrow> xs[a := x] ! i = (if a = i then x else xs ! i)"
  by simp

text \<open>The broadcast visits every station in use once.\<close>

definition wake :: "int \<Rightarrow> word_t \<Rightarrow> RSEntry \<Rightarrow> RSEntry" where
  "wake p v e =
    (let e = (if \<not> src1_ready e \<and> src1_ptag e = p then e\<lparr>rs_src1_val := v, src1_ready := True\<rparr> else e)
     in if \<not> src2_ready e \<and> src2_ptag e = p then e\<lparr>rs_src2_val := v, src2_ready := True\<rparr> else e)"

lemma cdb_step_tab: "rs_tab (cdb_step p i t) = (rs_tab t)[i := wake p (p_value (phys t ! nat p)) (rs_tab t ! i)]" "phys (cdb_step p i t) = phys t"
  by (simp_all add: cdb_step_def wake_def set_ready_def Let_def)

lemma cdb_tab:
  assumes "masks_ok t" and "i < 16"
  shows "rs_tab (cdb_broadcast p t) ! i = (if rs_valid (rs_tab t ! i) then wake p (p_value (phys t ! nat p)) (rs_tab t ! i) else rs_tab t ! i)"
proof -
  have f: "distinct is \<Longrightarrow> i < length (rs_tab u) \<Longrightarrow> rs_tab (fold (cdb_step p) is u) ! i = (if i \<in> set is then wake p (p_value (phys u ! nat p)) (rs_tab u ! i) else rs_tab u ! i)" for "is" u
    by (induction "is" arbitrary: u) (auto simp: cdb_step_tab nth_update)
  let ?w = "NOT (rs_free_mask t) AND 0xffff"
  have "bit ?w i \<longleftrightarrow> rs_valid (rs_tab t ! i)"
  proof -
    have m: "(0xffff :: u32) = mask 16" by (simp add: mask_eq_exp_minus_1)
    have "bit (0xffff :: u32) i" unfolding m using assms(2) by (simp add: bit_mask_iff)
    then show ?thesis using assms by (simp add: bit_and_iff bit_not_iff masks_ok_def)
  qed
  moreover have "distinct (mask_bits ?w)" by (simp add: mask_bits_eq)
  ultimately show ?thesis using f [of "mask_bits ?w" t] assms set_mask_bits [of ?w] by (simp add: cdb_broadcast_def masks_ok_def)
qed

lemma wake_woken: "p_ready (ph ! nat p) \<Longrightarrow> woken ph e (wake p (p_value (ph ! nat p)) e)"
  by (auto simp: woken_def wake_def arrived_def Let_def)

lemma wake_valid [simp]: "rs_valid (wake p v e) = rs_valid e" "rs_rob_idx (wake p v e) = rs_rob_idx e" by (simp_all add: wake_def Let_def)

section \<open>An entry becomes ready\<close>

lemma finish_flow:
  fixes e' :: ROBEntry
  defines "e \<equiv> \<lambda>t k. in_flight t ! k"
  assumes flow: "flow X R c t" and inv: "ooo_inv t'" "same_view t t'" and run: "isa_run C N R" "c + 40 \<le> N"
    and k: "k < length (in_flight t)" and es: "in_flight t' = (in_flight t)[k := e']"
    and e': "rob_ready e'" "arch_rd e' = arch_rd (e t k)" "rob_phys_rd e' = rob_phys_rd (e t k)" "ir_pc (rob_ir e') = ir_pc (rob_ir (e t k))"
    and same: "rob_head t' = rob_head t" "rrat t' = rrat t" "latch_id_rn t' = latch_id_rn t" "latch_if_id t' = latch_if_id t" "ooo_fetch_pc t' = ooo_fetch_pc t"
    and ph: "phys t' = phys t \<or> 0 \<le> rob_phys_rd e' \<and> phys t' = (phys t)[nat (rob_phys_rd e') := x]"
    and rs: "\<And>i. \<lbrakk>i < 16; rs_valid (rs_tab t' ! i)\<rbrakk> \<Longrightarrow> rs_valid (rs_tab t ! i) \<and> woken (phys t') (rs_tab t ! i) (rs_tab t' ! i)"
    and un: "unit_set t' \<subseteq> unit_set t"
    and fin: "on_path R c t k \<Longrightarrow> entry_ok (R (c + k)) e' \<and> target_ok (R (c + Suc k)) (phys t') e'"
  shows "flow (insert k X) R c t'" "(on_path R c t k \<Longrightarrow> pcs t ! Suc k = i_pc (R (c + Suc k))) \<Longrightarrow> flow X R c t'"
proof -
  note fl = flow [unfolded flow_def]
  have "map ir_pc (map rob_ir (in_flight t')) = map ir_pc (map rob_ir (in_flight t))"
    using e'(4) k by (simp add: es map_update e_def list_update_same_conv)
  then have pcs: "pcs t' = pcs t" and fr: "front t' = front t" and len: "length (in_flight t') = length (in_flight t)" "length (insts t') = length (insts t)"
    using same by (simp_all add: pcs_def insts_def front_def es)
  note on = on_path_eq [OF pcs]
  have nth: "in_flight t' ! j = (if j = k then e' else in_flight t ! j)" if "j < length (in_flight t)" for j using that k by (simp add: es nth_list_update)
  have dist: "rob_dist t' = rob_dist t" using same(1) by (simp add: rob_dist_def fun_eq_iff)
  have mp: "map_at t' j = map_at t j" for j
  proof (rule map_at_eq [OF same(2)])
    have "map (\<lambda>e. (arch_rd e, rob_phys_rd e)) (in_flight t') = map (\<lambda>e. (arch_rd e, rob_phys_rd e)) (in_flight t)"
      using e'(2,3) k by (simp add: es map_update e_def list_update_same_conv)
    then show "map (\<lambda>e. (arch_rd e, rob_phys_rd e)) (take j (in_flight t')) = map (\<lambda>e. (arch_rd e, rob_phys_rd e)) (take j (in_flight t))" by (metis take_map)
  qed
  have base: "base_ok R c t'" using fl inv(2) by (simp add: base_ok_def same_view_def)
  have ent: "entries_ok R c t'"
  proof -
    have "target_ok q (phys t') (in_flight t ! j)" if "j < length (in_flight t)" "j \<noteq> k" "target_ok q (phys t) (in_flight t ! j)" for q j
    proof (cases "0 < arch_rd (in_flight t ! j)")
      case True
      then have "0 \<le> rob_phys_rd e' \<Longrightarrow> nat (rob_phys_rd (in_flight t ! j)) \<noteq> nat (rob_phys_rd e')"
        using other_target [of t j k] fl that(1,2) k e'(3) by (simp add: e_def)
      then have "phys t' ! nat (rob_phys_rd (in_flight t ! j)) = phys t ! nat (rob_phys_rd (in_flight t ! j))" using ph by auto
      then show ?thesis using that(3) by (simp add: target_ok_def)
    qed (simp add: target_ok_def)
    then show ?thesis using fl fin unfolding entries_ok_def on len by (simp add: nth)
  qed
  have val: "p_ready (phys t' ! nat (map_at t j ! r)) \<Longrightarrow> p_value (phys t' ! nat (map_at t j ! r)) = i_regs (R (c + j)) ! r"
    if "j < length (in_flight t)" "on_path R c t j" "0 < r" "r < 32" for j r
    using map_value [OF inv(1) base ent run(1), of j r] that run(2) in_flight_length(1) [OF inv(1)] on_path_mono [OF that(2)] len by (simp add: mp on)
  have frn: "front_ok R c t'"
  proof -
    have "insts t' ! j = insts t ! j" if "length (in_flight t) \<le> j" for j using that by (simp add: insts_def nth_append len fr)
    then show ?thesis using fl unfolding front_ok_def on len by simp
  qed
  have st: "stations_ok R c t'"
    unfolding stations_ok_def Let_def
  proof (intro allI impI)
    fix i assume i: "i < 16" and v: "rs_valid (rs_tab t' ! i) \<and> on_path R c t' (rob_dist t' (rs_rob_idx (rs_tab t' ! i)))"
    let ?j = "rob_dist t (rs_rob_idx (rs_tab t' ! i))"
    note tk = token_place [OF inv(1) station_token [OF inv(1) i], unfolded dist len]
    have w: "rs_valid (rs_tab t ! i)" "woken (phys t') (rs_tab t ! i) (rs_tab t' ! i)" using rs i v by simp_all
    have j: "?j < length (in_flight t)" "?j \<noteq> k" using tk(1,3) v nth e'(1) by auto
    have "rs_rob_idx (rs_tab t' ! i) = rs_rob_idx (rs_tab t ! i)" using w(2) by (simp add: woken_def)
    then have "station_ok (R (c + ?j)) (map_at t ?j) (rob_ir (in_flight t ! ?j)) (rs_tab t ! i)"
      using fl i v w(1) by (simp add: stations_ok_def Let_def on dist)
    from station_woken [OF this w(2)] val [OF j(1)] v j
    show "station_ok (R (c + rob_dist t' (rs_rob_idx (rs_tab t' ! i)))) (map_at t' (rob_dist t' (rs_rob_idx (rs_tab t' ! i))))
        (rob_ir (in_flight t' ! rob_dist t' (rs_rob_idx (rs_tab t' ! i)))) (rs_tab t' ! i)"
      by (simp add: dist mp nth on)
  qed
  have un': "units_ok R c t'"
    unfolding units_ok_def Let_def
  proof (intro allI impI)
    fix eu l assume m: "(eu, l) \<in> unit_set t'" and p: "on_path R c t' (rob_dist t' (l_rob_idx l))"
    let ?j = "rob_dist t (l_rob_idx l)"
    note tk = token_place [OF inv(1) unit_token [OF m], unfolded dist len]
    have j: "?j < length (in_flight t)" "?j \<noteq> k" using tk(1,3) nth e'(1) by auto
    have u: "unit_ok (R (c + ?j)) (take ?j (in_flight t)) (rob_ir (in_flight t ! ?j)) eu l"
      using fl m un p by (auto simp: units_ok_def Let_def on dist)
    have "\<forall>x\<in>set (take ?j (in_flight t')). is_store_op (ir_raw (rob_ir x)) \<longrightarrow> rob_ready x"
      if "\<forall>x\<in>set (take ?j (in_flight t)). is_store_op (ir_raw (rob_ir x)) \<longrightarrow> rob_ready x"
      using that e'(1) set_update_subset_insert [of "take ?j (in_flight t)" k e'] unfolding es take_update_swap by blast
    then have "load_ok q (take ?j (in_flight t)) ir l \<Longrightarrow> load_ok q (take ?j (in_flight t')) ir l" for q ir by (auto simp: load_ok_def)
    then show "unit_ok (R (c + rob_dist t' (l_rob_idx l))) (take (rob_dist t' (l_rob_idx l)) (in_flight t')) (rob_ir (in_flight t' ! rob_dist t' (l_rob_idx l))) eu l"
      using u j by (simp add: dist nth unit_ok_def)
  qed
  have pk: "packed t'" using fl same by (simp add: packed_def)
  have "links_ok (insert k X) R c t'" using fl unfolding links_ok_def on len pcs by (auto simp: nth)
  then show "flow (insert k X) R c t'" using inv(1) base ent frn st un' pk by (simp add: flow_def)
  assume "on_path R c t k \<Longrightarrow> pcs t ! Suc k = i_pc (R (c + Suc k))"
  then have "links_ok X R c t'" using fl e'(1) k unfolding links_ok_def on len pcs by (auto simp: nth)
  then show "flow X R c t'" using inv(1) base ent frn st un' pk by (simp add: flow_def)
qed

section \<open>A branch squashes what follows\<close>

definition unmarked :: "OOOState \<Rightarrow> ROBEntry list" where
  "unmarked t = map (\<lambda>e. e\<lparr>rob_valid := True\<rparr>) (rob t)"

lemma valid_same: "rob_valid e \<Longrightarrow> e\<lparr>rob_valid := True\<rparr> = e"
  by (cases e) simp

lemma undo_last_rest:
  "unmarked (undo_last t) = unmarked t" "p_ready (phys (undo_last t) ! x) \<Longrightarrow> p_ready (phys t ! x)" "latch_int (undo_last t) = latch_int t"
  "latch_mul (undo_last t) = latch_mul t" "latch_lsu (undo_last t) = latch_lsu t"
proof -
  let ?i = "(rob_tail t + 31) mod 32"
  have "rob (undo_last t) = rob t \<or> rob (undo_last t) = (rob t)[?i := (rob t ! ?i)\<lparr>rob_valid := False\<rparr>]"
    by (simp add: undo_last_def put_rob_def set_unready_def freelist_push_def Let_def)
  then show "unmarked (undo_last t) = unmarked t" by (cases "?i < length (rob t)") (auto simp: unmarked_def map_update list_update_same_conv list_update_beyond not_less)
  have "p_ready (xs[y := (xs ! y)\<lparr>p_ready := False\<rparr>] ! x) \<Longrightarrow> p_ready (xs ! x)" for xs y
    by (cases "y = x"; cases "y < length xs") (auto simp: list_update_beyond)
  then show "p_ready (phys (undo_last t) ! x) \<Longrightarrow> p_ready (phys t ! x)"
    by (auto simp: undo_last_def put_rob_def set_unready_def freelist_push_def Let_def split: if_splits)
  show "latch_int (undo_last t) = latch_int t" "latch_mul (undo_last t) = latch_mul t" "latch_lsu (undo_last t) = latch_lsu t"
    by (simp_all add: undo_last_def put_rob_def set_unready_def freelist_push_def Let_def)
qed

lemma undo_many_rest:
  "unmarked ((undo_last ^^ n) t) = unmarked t" "p_ready (phys ((undo_last ^^ n) t) ! x) \<Longrightarrow> p_ready (phys t ! x)" "latch_int ((undo_last ^^ n) t) = latch_int t"
  "latch_mul ((undo_last ^^ n) t) = latch_mul t" "latch_lsu ((undo_last ^^ n) t) = latch_lsu t"
  by (induction n) (auto simp: undo_last_rest dest: undo_last_rest(2))

lemma flush_rest:
  assumes "ooo_inv t" and "i < 32" and "rob_valid (rob t ! i)"
  defines "t' \<equiv> ooo_flush_after i t"
  shows "unmarked t' = unmarked t" "p_ready (phys t' ! x) \<Longrightarrow> p_ready (phys t ! x)" "map p_value (phys t') = map p_value (phys t)"
    "j < 16 \<Longrightarrow> rs_valid (rs_tab t' ! j) \<Longrightarrow> rs_tab t' ! j = rs_tab t ! j" "unit_set t' \<subseteq> unit_set t" "front t' = []" "packed t'"
proof -
  let ?u = "(undo_last ^^ ((rob_tail t + 32 - (i + 1) mod 32) mod 32)) t"
  let ?w = "fold (flush_rs i) [0..<16] ?u"
  have rs: "length (rs_tab ?u) = 16" using assms(1) undo_rest(5) by (simp add: ooo_inv_def masks_ok_def)
  note f = flush_all_rs [OF rs, of i]
  have t': "t' = ?w\<lparr>latch_int := map (flush_latch i ?w) (latch_int ?w), latch_mul := map (flush_latch i ?w) (latch_mul ?w),
      latch_lsu := map (flush_lsu i ?w) (latch_lsu ?w), latch_if_id := kill (latch_if_id ?w), latch_id_rn := kill (latch_id_rn ?w)\<rparr>"
    by (simp add: t'_def ooo_flush_after_def Let_def)
  show "unmarked t' = unmarked t" using f(5) undo_many_rest(1) by (simp add: t' unmarked_def)
  show "p_ready (phys t' ! x) \<Longrightarrow> p_ready (phys t ! x)" using f(6) undo_many_rest(2) by (simp add: t')
  show "map p_value (phys t') = map p_value (phys t)" using f(6) undo_rest(2) by (simp add: t')
  show "j < 16 \<Longrightarrow> rs_valid (rs_tab t' ! j) \<Longrightarrow> rs_tab t' ! j = rs_tab t ! j"
    using f(1) rs undo_rest(5) by (auto simp: t' squash_rs_def split: if_splits)
  have v: "l_valid (flush_latch i w l) \<Longrightarrow> l \<in> S \<Longrightarrow> flush_latch i w l \<in> S" "live_lsu (flush_lsu i w l) \<Longrightarrow> l \<in> S \<Longrightarrow> flush_lsu i w l \<in> S" for w l S
    by (auto simp: flush_latch_def flush_lsu_def live_lsu_def split: if_splits)
  show "unit_set t' \<subseteq> unit_set t" unfolding unit_set_def using f(7-9) undo_many_rest(3-5) by (auto simp: t' intro: v)
  have kl: "filter pr_valid (kill rs) = []" for rs by (simp add: kill_def filter_empty_conv)
  then show "front t' = []" by (simp add: t' front_def)
  have "length (latch_id_rn t') = 2" "length (latch_if_id t') = 2"
    using flush_ok(1) [OF assms(1-3)] by (simp_all add: t'_def ooo_inv_def shape_ok_def)
  then show "packed t'" by (simp add: t' packed_def kill_def)
qed

lemma flush_in_flight:
  assumes "ooo_inv t" and "i < 32" and "rob_valid (rob t ! i)"
  defines "t' \<equiv> ooo_flush_after i t"
  shows "in_flight t' = take (Suc (rob_dist t i)) (in_flight t)"
proof -
  let ?k = "rob_dist t i"
  have r: "rename_ok t" "rings_ok t" using ooo_invD [OF assms(1)] by simp_all
  note o = ooo_flush_ok [OF r(1) assms(2,3), folded t'_def]
  have r': "rings_ok t'" using o(1) by (simp add: rename_ok_def)
  have k: "?k < length (in_flight t)" using in_flight_nth(1) [OF r(2) assms(2,3)] .
  have len: "length (in_flight t') = Suc ?k" using o(5) by (simp add: in_flight_def nat_add_distrib)
  show ?thesis
  proof (rule nth_equalityI)
    show "length (in_flight t') = length (take (Suc ?k) (in_flight t))" using len k by simp
    fix j assume "j < length (in_flight t')"
    then have j: "j < Suc ?k" "j < length (in_flight t)" using len k by simp_all
    let ?s = "(rob_head t + j) mod 32"
    have s: "?s < 32" "rob_dist t ?s = j" "rob_dist t' ?s = j"
      using dist_slot [of "rob_head t" 32 j] rob_ring_fields [OF r(2)] j(2) o(4) by (simp_all add: rob_dist_def in_flight_def)
    have "rob_valid (rob t ! ?s)" "rob_valid (rob t' ! ?s)"
      using valid_dist(1) [OF r(2) s(1)] valid_dist(1) [OF r' s(1)] s(2,3) j len by (simp_all add: in_flight_def)
    moreover have "unmarked t' ! ?s = unmarked t ! ?s" using flush_rest(1) [OF assms(1-3)] by (simp add: t'_def)
    ultimately have "rob t' ! ?s = rob t ! ?s"
      using rob_ring_fields(1) [OF r(2)] rob_ring_fields(1) [OF r'] by (simp add: unmarked_def valid_same)
    then show "in_flight t' ! j = take (Suc ?k) (in_flight t) ! j"
      using j len rob_ring_fields(1) [OF r(2)] rob_ring_fields(1) [OF r'] o(4) by (simp add: in_flight_def)
  qed
qed

lemma flush_flow:
  assumes flow: "flow X R c t" and i: "i < 32" "rob_valid (rob t ! i)" and X: "X \<subseteq> {rob_dist t i}"
    and rdy: "rob_ready (rob t ! i)" and pc: "on_path R c t (rob_dist t i) \<Longrightarrow> pc = i_pc (R (c + Suc (rob_dist t i)))"
  shows "flow {} R c ((ooo_flush_after i t)\<lparr>ooo_fetch_pc := pc\<rparr>)"
proof -
  let ?k = "rob_dist t i" and ?u = "ooo_flush_after i t"
  let ?t = "?u\<lparr>ooo_fetch_pc := pc\<rparr>"
  note fl = flow [unfolded flow_def]
  have inv: "ooo_inv t" using fl by simp
  have r: "rename_ok t" "rings_ok t" using ooo_invD [OF inv] by simp_all
  note o = ooo_flush_ok [OF r(1) i] and fr = flush_rest [OF inv i] and ok = flush_ok [OF inv i]
  have "keeps ?u ?t" by (rule part_keeps) (simp_all add: ren_part_def mask_part_def tokens_def rs_tokens_def unit_tokens_def rob_core_def shape_ok_def)
  then have inv': "ooo_inv ?t" "same_view t ?t" using ok same_view_trans [OF ok(2)] by (simp_all add: keeps_def)
  have k: "?k < length (in_flight t)" "in_flight t ! ?k = rob t ! i" using in_flight_nth [OF r(2) i] by simp_all
  have es: "in_flight ?t = take (Suc ?k) (in_flight t)" using flush_in_flight [OF inv i] by (simp add: in_flight_def)
  have fe: "front ?t = []" and pk: "packed ?t" using fr(6,7) by (simp_all add: front_def packed_def)
  have ins: "insts ?t = take (Suc ?k) (insts t)" "length (insts ?t) = Suc ?k" using es fe k(1) by (simp_all add: insts_def take_map)
  have pcs: "pcs ?t ! j = (if j \<le> ?k then pcs t ! j else pc)" if "j \<le> Suc ?k" for j
    using that ins k(1) by (auto simp: pcs_def nth_append insts_def)
  have on: "on_path R c ?t j = on_path R c t j" if "j \<le> ?k" for j using that pcs by (simp add: on_path_def)
  have hd: "rob_dist ?t = rob_dist t" using o(4) by (simp add: rob_dist_def fun_eq_iff)
  have rr: "rrat ?t = rrat t" using o(3) by (simp add: renaming_of_def)
  have mp: "map_at ?t j = map_at t j" if "j \<le> Suc ?k" for j using that es by (intro map_at_eq rr) (simp add: min_absorb1)
  have len: "length (in_flight ?t) = Suc ?k" using es k(1) by simp
  have base: "base_ok R c ?t" using fl inv'(2) by (simp add: base_ok_def same_view_def)
  have pv: "p_value (phys ?t ! x) = p_value (phys t ! x)" if "x < 64" for x
  proof -
    have l: "length (phys t) = 64" "length (phys ?t) = 64" using inv inv'(1) by (simp_all add: ooo_inv_def shape_ok_def)
    have "map p_value (phys ?t) ! x = map p_value (phys t) ! x" using fr(3) by simp
    then show ?thesis using that l by simp
  qed
  have "target_ok q (phys ?t) e" if "target_ok q (phys t) e" "e \<in> set (in_flight t)" for q e
  proof -
    have s: "renaming_ok (renaming_of t)" "slot_of e \<in> set (r_flight (renaming_of t))" using ooo_invD [OF inv] that(2) flight_slots by simp_all
    have "0 < arch_rd e \<Longrightarrow> nat (rob_phys_rd e) < 64" using slot_target [OF s] by (simp add: writes_def slot_of_def nat_less_iff)
    then show ?thesis using that(1) pv fr(2) by (auto simp: target_ok_def Let_def)
  qed
  then have ent: "entries_ok R c ?t" using fl on len es k(1) by (simp add: entries_ok_def)
  have frn: "front_ok R c ?t" using len ins(2) by (auto simp: front_ok_def)
  have st: "stations_ok R c ?t"
    unfolding stations_ok_def Let_def
  proof (intro allI impI)
    fix j assume j: "j < 16" and v: "rs_valid (rs_tab ?t ! j) \<and> on_path R c ?t (rob_dist ?t (rs_rob_idx (rs_tab ?t ! j)))"
    let ?j = "rob_dist t (rs_rob_idx (rs_tab ?t ! j))"
    note tk = token_place [OF inv'(1) station_token [OF inv'(1) j], unfolded hd len]
    have e: "rs_tab ?t ! j = rs_tab t ! j" using fr(4) j v by simp
    have "?j \<le> ?k" using tk(1) v by simp
    then show "station_ok (R (c + rob_dist ?t (rs_rob_idx (rs_tab ?t ! j)))) (map_at ?t (rob_dist ?t (rs_rob_idx (rs_tab ?t ! j))))
        (rob_ir (in_flight ?t ! rob_dist ?t (rs_rob_idx (rs_tab ?t ! j)))) (rs_tab ?t ! j)"
      using fl j v unfolding hd e by (simp add: stations_ok_def Let_def on mp es)
  qed
  have un: "units_ok R c ?t"
    unfolding units_ok_def Let_def
  proof (intro allI impI)
    fix eu l assume m: "(eu, l) \<in> unit_set ?t" and p: "on_path R c ?t (rob_dist ?t (l_rob_idx l))"
    note tk = token_place [OF inv'(1) unit_token [OF m], unfolded hd len]
    have m': "(eu, l) \<in> unit_set t" using m fr(5) by (auto simp: unit_set_def)
    then show "unit_ok (R (c + rob_dist ?t (l_rob_idx l))) (take (rob_dist ?t (l_rob_idx l)) (in_flight ?t)) (rob_ir (in_flight ?t ! rob_dist ?t (l_rob_idx l))) eu l"
      using fl m' p tk(1) unfolding hd by (auto simp: units_ok_def Let_def on es min_absorb1)
  qed
  have "links_ok {} R c ?t"
    unfolding links_ok_def
  proof (intro conjI allI impI)
    show "pcs ?t ! 0 = i_pc (R c)" using fl pcs [of 0] by (simp add: links_ok_def)
    fix j assume j: "j < length (insts ?t)" and p: "j \<notin> {} \<and> on_path R c ?t j"
    then have jk: "j \<le> ?k" "on_path R c t j" using ins(2) on by simp_all
    show "pcs ?t ! Suc j = (if j < length (in_flight ?t) \<and> rob_ready (in_flight ?t ! j) then i_pc (R (c + Suc j)) else i_pc (R (c + j)) + 4)"
    proof (cases "j = ?k")
      case True
      then show ?thesis using pc pcs [of "Suc j"] jk(2) len es rdy k by simp
    next
      case False
      then have "j < ?k" "j \<notin> X" "j < length (insts t)" using jk(1) X k(1) by (auto simp: insts_def)
      then show ?thesis using fl jk pcs [of "Suc j"] len es k(1) by (simp add: links_ok_def)
    qed
  qed
  then show ?thesis using inv'(1) base ent frn st un pk by (simp add: flow_def)
qed

end
