(* ===== verification/Ooo_Units.thy ===== *)
theory Ooo_Units
  imports Ooo_Finish
begin

text \<open>
  The integer and the multiplier unit: an instruction on the path is executed with the operands of the ISA state it belongs
  to, and a branch that leaves the sequence squashes what follows.
\<close>

section \<open>Execution\<close>

lemma ir_execute_pc:
  assumes "ir_execute ir c m = Inr (ir', m')"
  shows "ir_pc ir' = ir_pc ir"
proof -
  show ?thesis using assms
    by (cases "exec_fn ir") (auto simp: ir_execute_def alu_defs ir_exec_auipc_def ir_exec_lui_def ir_exec_jal_def ir_exec_jalr_def ir_exec_beq_def ir_exec_bne_def
      ir_exec_blt_def ir_exec_bge_def ir_exec_bltu_def ir_exec_bgeu_def ir_exec_ld_def ir_exec_lw_def ir_exec_lh_def ir_exec_lb_def ir_exec_lwu_def ir_exec_lhu_def
      ir_exec_lbu_def ir_exec_sd_def ir_exec_sw_def ir_exec_sh_def ir_exec_sb_def ir_exec_csrrw_def ir_exec_csrrs_def ir_exec_csrrc_def ir_exec_ecall_def
      ir_exec_mret_def ir_exec_ebreak_def ir_exec_fence_i_def ir_exec_fence_def ir_exec_inv_def raise_intr_def Let_def split: if_splits)
qed

lemma execute_sequential:
  assumes "ready x raw s ir" and "user_op x" and "ir_execute ir c m = Inr (ir', m')" and "ir_type ir' \<notin> {ITYPE_BRANCH, ITYPE_JAL, ITYPE_JALR}"
  shows "i_pc (isa_step x raw s) = i_pc s + 4"
proof -
  have x: "exec_fn ir = x" using assms(1) by (simp add: ready_def fmt_def)
  have "x \<notin> {X_beq, X_bne, X_blt, X_bge, X_bltu, X_bgeu}" using branch_execute [OF _ x, of c m] assms(3,4) by auto
  moreover have "x \<noteq> X_jal" "x \<noteq> X_jalr" using assms(3,4) x by (auto simp: ir_execute_def ir_exec_jal_def ir_exec_jalr_def Let_def)
  ultimately show ?thesis using user_classes [OF assms(2)] by (auto simp: isa_step_def Let_def)
qed

lemma sources_ready:
  assumes "inst_ok q ir" and "latch_ok q ir l"
  shows "ready (isa_op q) (isa_fetch q) q (with_sources l ir)" "same_inst ir (with_sources l ir)"
proof -
  have f: "ir_rs1 ir = (if op_type (isa_op q) \<in> {TYPE_U, TYPE_J} then -1 else uint (ibits (isa_fetch q) 19 15))"
      "ir_rs2 ir = (if op_type (isa_op q) \<in> {TYPE_S, TYPE_R, TYPE_B} then uint (ibits (isa_fetch q) 24 20) else -1)"
    using assms(1) by (simp_all add: inst_ok_def fmt_def)
  have "l_src1_val l = (if ir_rs1 ir = -1 then src1_val ir else i_regs q ! nat (ir_rs1 ir))"
      "l_src2_val l = (if ir_rs2 ir = -1 then src2_val ir else i_regs q ! nat (ir_rs2 ir))"
    using assms(2) by (simp_all add: latch_ok_def operand_value_def)
  then show "ready (isa_op q) (isa_fetch q) q (with_sources l ir)"
    using assms(1) f by (auto simp: inst_ok_def ready_def fmt_def operands_def with_sources_def)
  show "same_inst ir (with_sources l ir)" by (simp add: same_inst_def with_sources_def)
qed

lemma execute_on_path:
  assumes "inst_ok q ir" and "latch_ok q ir l" and "user_ok (isa_op q) (isa_fetch q) q" and "ir_execute (with_sources l ir) c m = Inr (ir', m')"
  shows "executed (isa_op q) (isa_fetch q) q ir'" "same_inst ir ir'"
    "ir_type ir' \<notin> {ITYPE_BRANCH, ITYPE_JAL, ITYPE_JALR} \<Longrightarrow> i_pc (isa_next q) = i_pc q + 4"
proof -
  note r = sources_ready [OF assms(1,2)]
  show "executed (isa_op q) (isa_fetch q) q ir'" using execute_stage [OF r(1) assms(3), of c m] assms(4) by auto
  show "same_inst ir ir'" using execute_stage [OF r(1) assms(3), of c m] assms(4) r(2) by (auto simp: same_inst_def)
  show "ir_type ir' \<notin> {ITYPE_BRANCH, ITYPE_JAL, ITYPE_JALR} \<Longrightarrow> i_pc (isa_next q) = i_pc q + 4"
    using execute_sequential [OF r(1) _ assms(4)] assms(3) by (simp add: user_ok_def isa_next_def)
qed

section \<open>Completion\<close>

lemma in_flight_put:
  assumes "rings_ok t" and "i < 32" and "rob_valid (rob t ! i)" and "rob t' = (rob t)[i := e']" and "rob_head t' = rob_head t" and "rob_count t' = rob_count t"
  shows "in_flight t' = (in_flight t)[rob_dist t i := e']"
proof -
  note v = valid_dist [OF assms(1,2)] and f = rob_ring_fields [OF assms(1)]
  have "(rob t)[i := e'] = (rob t)[(rob_head t + rob_dist t i) mod length (rob t) := e']" using v(2) f(1) by simp
  then show ?thesis
    using window_update [of "rob_dist t i" "nat (rob_count t)" "rob t" "rob_head t" e'] v(1) assms(3-6) f by (simp add: in_flight_def)
qed

text \<open>What a broadcast and a completion leave alone.\<close>

definition frame_part :: "OOOState \<Rightarrow> PipeReg list \<times> PipeReg list \<times> vaddr_t \<times> OOOLatch list \<times> OOOLatch list \<times> OOOLatch list \<times> MSHREntry list \<times>
    StoreBufEntry list \<times> nat \<times> nat \<times> int" where
  "frame_part t = (latch_id_rn t, latch_if_id t, ooo_fetch_pc t, latch_int t, latch_mul t, latch_lsu t, mshr t, sbuf t, sbuf_head t, sbuf_tail t, sbuf_count t)"

lemma frame_partD:
  assumes "frame_part t' = frame_part t"
  shows "latch_id_rn t' = latch_id_rn t" "latch_if_id t' = latch_if_id t" "ooo_fetch_pc t' = ooo_fetch_pc t" "latch_int t' = latch_int t" "latch_mul t' = latch_mul t"
    "latch_lsu t' = latch_lsu t" "mshr t' = mshr t" "sbuf t' = sbuf t" "sbuf_head t' = sbuf_head t" "sbuf_tail t' = sbuf_tail t" "sbuf_count t' = sbuf_count t"
  using assms by (simp_all add: frame_part_def)

lemma frame_part_simps [simp]:
  "frame_part (set_phys p v t) = frame_part t" "frame_part (put_rob i e t) = frame_part t" "frame_part (set_rob_ir i ir t) = frame_part t" "frame_part (mark_ready i t) = frame_part t"
  by (simp_all add: frame_part_def set_phys_def put_rob_def set_rob_ir_def mark_ready_def)

lemma cdb_frame [simp]: "frame_part (cdb_broadcast p t) = frame_part t"
proof -
  have "frame_part (cdb_step p i u) = frame_part u" for i u by (simp add: frame_part_def cdb_step_def set_ready_def Let_def)
  then have "frame_part (fold (cdb_step p) is u) = frame_part u" for "is" u by (induction "is" arbitrary: u) simp_all
  then show ?thesis by (simp add: cdb_broadcast_def)
qed

lemma complete_frame [simp]: "frame_part (complete i p ir u) = frame_part u"
  by (simp add: complete_def write_result_def Let_def)

lemma complete_rob: "i < length (rob u) \<Longrightarrow> rob (complete i p ir u) = (rob u)[i := (rob u ! i)\<lparr>rob_ir := ir, rob_ready := True\<rparr>]"
  by (simp add: complete_def mark_ready_def write_result_def set_rob_ir_def put_rob_def set_phys_def Let_def)

lemma complete_flow:
  assumes flow: "flow {} R c t" and run: "isa_run C N R" "c + 40 \<le> N" and tk: "(i, p) \<in># tokens t"
    and u: "rob u = rob t" "ren_part u = ren_part t" "mask_part u = mask_part t" "phys u = phys t" "shape_ok u" "tokens u + {#(i, p)#} = tokens t" "unit_set u \<subseteq> unit_set t"
      "latch_id_rn u = latch_id_rn t" "latch_if_id u = latch_if_id t" "ooo_fetch_pc u = ooo_fetch_pc t"
    and ir: "ir_pc ir = ir_pc (rob_ir (rob t ! i))"
    and fin: "on_path R c t (rob_dist t i) \<Longrightarrow> (let q = R (c + rob_dist t i) in executed (isa_op q) (isa_fetch q) q ir \<and> ir_raw ir = isa_fetch q \<and> \<not> fault ir \<and>
      isa_op q \<notin> store_ops \<and> (0 < isa_rd q \<longrightarrow> result ir = i_regs (R (c + Suc (rob_dist t i))) ! nat (isa_rd q)))"
  defines "t' \<equiv> complete i p ir u"
  shows "flow {rob_dist t i} R c t'" "(on_path R c t (rob_dist t i) \<Longrightarrow> pcs t ! Suc (rob_dist t i) = i_pc (R (c + Suc (rob_dist t i)))) \<Longrightarrow> flow {} R c t'"
    "rob t' = (rob t)[i := (rob t ! i)\<lparr>rob_ir := ir, rob_ready := True\<rparr>]" "rob_head t' = rob_head t" "rob_count t' = rob_count t" "pcs t' = pcs t"
proof -
  let ?k = "rob_dist t i" and ?e = "rob t ! i"
  let ?e' = "?e\<lparr>rob_ir := ir, rob_ready := True\<rparr>"
  have inv: "ooo_inv t" using flow by (simp add: flow_def)
  note te = token_entry [OF inv tk] and tp = token_place [OF inv tk]
  have ri: "rings_ok t" using ooo_invD [OF inv] by simp
  have core: "rob_core u = rob_core t" using u(1) by (simp add: rob_core_def)
  have ok: "ooo_inv t'" "same_view t t'" using complete_ok [OF inv u(2,3,5) core u(4,6)] by (simp_all add: t'_def)
  have len: "length (rob t) = 32" using rob_ring_fields [OF ri] by simp
  have d: "rob t' = (rob u)[i := ?e']" "latch_id_rn t' = latch_id_rn u" "latch_if_id t' = latch_if_id u" "ooo_fetch_pc t' = ooo_fetch_pc u"
      "latch_int t' = latch_int u" "latch_mul t' = latch_mul u" "latch_lsu t' = latch_lsu u"
    using complete_rob [of i u p ir] frame_partD [OF complete_frame [of i p ir u]] te(1) len u(1) by (auto simp: t'_def)
  have rp: "ren_part t' = ren_part t" using u(2) by (simp add: t'_def)
  then have h: "rob_head t' = rob_head t" "rob_count t' = rob_count t" "rrat t' = rrat t" by (simp_all add: ren_part_def)
  show rob: "rob t' = (rob t)[i := ?e']" and "rob_head t' = rob_head t" "rob_count t' = rob_count t" using d(1) u(1) h by simp_all
  have es: "in_flight t' = (in_flight t)[?k := ?e']" using in_flight_put [OF ri te(1,2) rob h(1,2)] .
  have ph: "phys t' = (if p \<ge> 0 then (phys t)[nat p := \<lparr>p_value = result ir, p_ready = True\<rparr>] else phys t)" using u(4) by (simp add: t'_def)
  have rs: "rs_valid (rs_tab t ! j) \<and> woken (phys t') (rs_tab t ! j) (rs_tab t' ! j)" if "j < 16" "rs_valid (rs_tab t' ! j)" for j
  proof -
    have mk: "masks_ok (set_phys p v (set_rob_ir i ir u))" for v using masks_ok_eq [of "set_phys p v (set_rob_ir i ir u)" t] ooo_invD [OF inv] u(3) by simp
    have pl: "length (phys u) = 64" using u(5) by (simp add: shape_ok_def)
    have tab: "rs_tab u = rs_tab t" using u(3) by (simp add: mask_part_def)
    have "rs_tab t' ! j = (if 0 < p then rs_tab (cdb_broadcast p (set_phys p (result ir) (set_rob_ir i ir u))) ! j else rs_tab t ! j)"
      using tab by (simp add: t'_def complete_def mark_ready_def put_rob_def write_result_def set_phys_def set_rob_ir_def Let_def)
    moreover have "rs_tab (set_phys p v (set_rob_ir i ir u)) = rs_tab t" "phys (set_phys p v (set_rob_ir i ir u)) = (phys t)[nat p := \<lparr>p_value = v, p_ready = True\<rparr>]" for v
      using tab u(4) by (simp_all add: set_phys_def set_rob_ir_def put_rob_def)
    moreover have "nat p < 64" "- 1 \<le> p" using target_uncommitted(4,5) [of t i 1] ooo_invD [OF inv] te by (simp_all add: nat_less_iff)
    ultimately show ?thesis
      using that cdb_tab [OF mk that(1), of p "result ir"] ph wake_woken [of "phys t'" p "rs_tab t ! j"] pl u(4)
      by (auto split: if_splits)
  qed
  have us: "unit_set t' \<subseteq> unit_set t" using u(7) d(5-7) by (simp add: unit_set_def)
  have p: "0 < arch_rd ?e \<Longrightarrow> 0 \<le> p \<and> nat p < 64"
  proof -
    have "slot_of ?e \<in> set (r_flight (renaming_of t))" using rob_in_flight [OF ri te(1,2)] .
    then show "0 < arch_rd ?e \<Longrightarrow> ?thesis" using slot_target [of "renaming_of t" "slot_of ?e"] ooo_invD [OF inv] te(4) by (simp add: writes_def slot_of_def nat_less_iff)
  qed
  have fin': "entry_ok (R (c + ?k)) ?e' \<and> target_ok (R (c + Suc ?k)) (phys t') ?e'" if "on_path R c t ?k"
  proof -
    have "entry_ok (R (c + ?k)) (in_flight t ! ?k)" using flow that tp(1) by (simp add: flow_def entries_ok_def)
    then have rd: "arch_rd ?e = isa_rd (R (c + ?k))" using tp(2) by (simp add: entry_ok_def)
    have "length (phys t) = 64" using inv by (simp add: ooo_inv_def shape_ok_def)
    then show ?thesis using fin [OF that] rd p te(4) ph by (auto simp: entry_ok_def finished_def target_ok_def Let_def)
  qed
  have same: "arch_rd ?e' = arch_rd (in_flight t ! ?k)" "rob_phys_rd ?e' = rob_phys_rd (in_flight t ! ?k)" "ir_pc (rob_ir ?e') = ir_pc (rob_ir (in_flight t ! ?k))" "rob_ready ?e'"
    using tp(2) ir by simp_all
  have ph': "phys t' = phys t \<or> 0 \<le> rob_phys_rd ?e' \<and> phys t' = (phys t)[nat (rob_phys_rd ?e') := \<lparr>p_value = result ir, p_ready = True\<rparr>]"
    using ph te(4) by simp
  note ff = finish_flow [OF flow ok run tp(1) es same(4,1-3) h(1,3) _ _ _ ph' rs us fin']
  show "flow {?k} R c t'" using ff(1) d(2-4) u(8-10) by simp
  show "(on_path R c t ?k \<Longrightarrow> pcs t ! Suc ?k = i_pc (R (c + Suc ?k))) \<Longrightarrow> flow {} R c t'" using ff(2) d(2-4) u(8-10) by simp
  have "map ir_pc (map rob_ir (in_flight t')) = map ir_pc (map rob_ir (in_flight t))"
    using ir tp(1,2) by (simp add: es map_update list_update_same_conv)
  then show "pcs t' = pcs t" using d(2-4) u(8-10) by (simp add: pcs_def insts_def front_def)
qed

section \<open>The machine against the run\<close>

text \<open>The committed stores that are not yet in memory, oldest first, and the stores of the run.\<close>

definition sbuf_window :: "OOOState \<Rightarrow> StoreBufEntry list" where
  "sbuf_window t = window (sbuf t) (sbuf_head t) (nat (sbuf_count t))"

definition sbuf_list :: "OOOState \<Rightarrow> pending_store list" where
  "sbuf_list t = map (\<lambda>se. (se_addr se, se_width se, se_data se)) (sbuf_window t)"

definition sbuf_ring :: "OOOState \<Rightarrow> bool" where
  "sbuf_ring t \<longleftrightarrow> length (sbuf t) = 16 \<and> sbuf_head t < 16 \<and> 0 \<le> sbuf_count t \<and> sbuf_count t \<le> 16 \<and>
     sbuf_tail t = (sbuf_head t + nat (sbuf_count t)) mod 16 \<and> (\<forall>se\<in>set (sbuf_window t). se_valid se)"

definition run_stores :: "(nat \<Rightarrow> isa_state) \<Rightarrow> nat \<Rightarrow> pending_store list" where
  "run_stores R n = concat (map (\<lambda>i. isa_store (R i)) [0..<n])"

text \<open>Memory with the buffered stores applied is the memory of the ISA state; the code in memory is the code of the run.\<close>

definition memory_ok :: "vaddr_t set \<Rightarrow> (nat \<Rightarrow> isa_state) \<Rightarrow> nat \<Rightarrow> machine \<Rightarrow> bool" where
  "memory_ok C R c m \<longleftrightarrow> mem_sys m \<and> code_clean (blk ` C) m \<and>
     (\<forall>a\<in>C. ucast (word_of_bytes (load_bytes (ram_view m) (ram_off a) 4)) = code_at (R 0) a) \<and> sbuf_ring (ooo m) \<and>
     suffix (sbuf_list (ooo m)) (run_stores R c) \<and> i_mem (R c) = fold put_store (sbuf_list (ooo m)) (ram_view m)"

definition mode_part :: "machine \<Rightarrow> bool \<times> bool \<times> bool \<times> WP list \<times> CPU_state \<times> word_t" where
  "mode_part m = (g_bpred_mode m, g_bpred2_mode m, difftest_active m, wp_head m, cpu m, os_insts (ooo_stats m))"

definition sim :: "vaddr_t set \<Rightarrow> (nat \<Rightarrow> isa_state) \<Rightarrow> nat \<Rightarrow> machine \<Rightarrow> bool" where
  "sim C R c m \<longleftrightarrow> flow {} R c (ooo m) \<and> memory_ok C R c m \<and> mode_part m = (False, False, False, [], \<lparr>gpr = i_regs (R c), cpu_pc = i_pc (R c)\<rparr>, word_of_nat c)"

definition store_part :: "OOOState \<Rightarrow> StoreBufEntry list \<times> nat \<times> nat \<times> int" where
  "store_part t = (sbuf t, sbuf_head t, sbuf_tail t, sbuf_count t)"

lemma memory_ok_kept:
  assumes "memory_ok C R c m" and "mem_kept (blk ` C) m m'" and "store_part (ooo m') = store_part (ooo m)"
  shows "memory_ok C R c m'"
  using assms by (simp add: memory_ok_def mem_kept_def store_part_def sbuf_ring_def sbuf_list_def sbuf_window_def)

lemma sim_step:
  assumes "sim C R c m" and "flow {} R c (ooo m')" and "mem_kept (blk ` C) m m'" and "store_part (ooo m') = store_part (ooo m)" and "mode_part m' = mode_part m"
  shows "sim C R c m'"
  using assms memory_ok_kept [of C R c m m'] by (simp add: sim_def)

lemma eng_mode: "eng_frame m m' \<Longrightarrow> mode_part m' = mode_part m"
  using eng_frame_fields [of m m'] by (simp add: mode_part_def)

section \<open>The integer unit\<close>

lemma not_memory_op:
  assumes "user_op (isa_op q)" and "eu_of (isa_fetch q) \<noteq> 2"
  shows "isa_op q \<notin> load_ops" "isa_op q \<notin> store_ops"
proof -
  have "isa_fetch q AND 0x7f \<noteq> 0x03" "isa_fetch q AND 0x7f \<noteq> 0x23" using assms(2) by (auto simp: eu_of_def)
  then show "isa_op q \<notin> load_ops" "isa_op q \<notin> store_ops" using op_class [of "isa_fetch q"] assms(1) by (simp_all add: isa_op_def)
qed

lemma unit_result:
  assumes "inst_ok q ir" and "unit_ok q es ir eu l" and "eu \<noteq> 2" and "user_ok (isa_op q) (isa_fetch q) q" and "length (i_regs q) = 32"
    and "ir_execute (with_sources l ir) cc m = Inr (ir', m')"
  shows "executed (isa_op q) (isa_fetch q) q ir' \<and> ir_raw ir' = isa_fetch q \<and> \<not> fault ir' \<and> isa_op q \<notin> store_ops \<and>
      (0 < isa_rd q \<longrightarrow> result ir' = i_regs (isa_next q) ! nat (isa_rd q))" "dnpc ir' = i_pc (isa_next q)"
    "bp_predicted_pc ir' = i_pc q + 4" "ir_type ir' \<notin> {ITYPE_BRANCH, ITYPE_JAL, ITYPE_JALR} \<Longrightarrow> i_pc (isa_next q) = i_pc q + 4"
proof -
  have l: "latch_ok q ir l" "eu_of (ir_raw ir) = eu" using assms(2) by (simp_all add: unit_ok_def)
  note x = execute_on_path [OF assms(1) l(1) assms(4,6)]
  have i: "ir_raw ir = isa_fetch q" "ir_rd ir = isa_rd q" "\<not> fault ir" "bp_predicted_pc ir = i_pc q + 4"
    using assms(1) by (simp_all add: inst_ok_def fmt_def isa_rd_def)
  have s: "ir_raw ir' = ir_raw ir" "ir_rd ir' = ir_rd ir" "fault ir' = fault ir" "bp_predicted_pc ir' = bp_predicted_pc ir" using x(2) by (simp_all add: same_inst_def)
  have n: "isa_op q \<notin> load_ops" "isa_op q \<notin> store_ops" using not_memory_op [of q] assms(3,4) l(2) i(1) by (simp_all add: user_ok_def)
  then have r: "retired (isa_op q) (isa_fetch q) q ir'" using x(1) by (simp add: executed_def)
  show "executed (isa_op q) (isa_fetch q) q ir' \<and> ir_raw ir' = isa_fetch q \<and> \<not> fault ir' \<and> isa_op q \<notin> store_ops \<and>
      (0 < isa_rd q \<longrightarrow> result ir' = i_regs (isa_next q) ! nat (isa_rd q))"
    using x(1) s i n retired_value [OF r _ _ assms(5)] by simp
  show "dnpc ir' = i_pc (isa_next q)" using r by (simp add: retired_def isa_next_def)
  show "bp_predicted_pc ir' = i_pc q + 4" using s i by simp
qed (use execute_on_path(3) [OF assms(1) _ assms(4,6)] assms(2) in \<open>simp add: unit_ok_def\<close>)

lemma path_inst:
  assumes "flow X R c t" and "isa_run C N R" and "c + 40 \<le> N" and "(eu, l) \<in> unit_set t" and "on_path R c t (rob_dist t (l_rob_idx l))"
  defines "q \<equiv> R (c + rob_dist t (l_rob_idx l))"
  shows "inst_ok q (rob_ir (rob t ! l_rob_idx l))" "unit_ok q (take (rob_dist t (l_rob_idx l)) (in_flight t)) (rob_ir (rob t ! l_rob_idx l)) eu l"
    "user_ok (isa_op q) (isa_fetch q) q" "user_op (isa_op q)" "length (i_regs q) = 32" "i_regs q ! 0 = 0" "R (c + Suc (rob_dist t (l_rob_idx l))) = isa_next q"
    "c + rob_dist t (l_rob_idx l) < N" "i_pc (isa_next q) \<in> C"
proof -
  let ?k = "rob_dist t (l_rob_idx l)"
  have inv: "ooo_inv t" using assms(1) by (simp add: flow_def)
  note tp = token_place [OF inv unit_token [OF assms(4)]]
  show b: "c + ?k < N" using tp(1) in_flight_length(1) [OF inv] assms(3) by simp
  have "entry_ok q (in_flight t ! ?k)" using assms(1,5) tp(1) by (simp add: flow_def entries_ok_def q_def)
  then show "inst_ok q (rob_ir (rob t ! l_rob_idx l))" using tp(2,3) by (simp add: entry_ok_def)
  show "unit_ok q (take ?k (in_flight t)) (rob_ir (rob t ! l_rob_idx l)) eu l"
    using assms(1,4,5) unfolding flow_def units_ok_def Let_def q_def tp(2) [symmetric] by blast
  show "user_ok (isa_op q) (isa_fetch q) q" "user_op (isa_op q)" using isa_run_user [OF assms(2) b] by (simp_all add: q_def)
  show "length (i_regs q) = 32" "i_regs q ! 0 = 0" using isa_run_regs [OF assms(2), of "c + ?k"] b by (simp_all add: q_def)
  show "R (c + Suc ?k) = isa_next q" using isa_runD [OF assms(2) b] by (simp add: q_def)
  moreover have "c + Suc ?k < N" using tp(1) in_flight_length(1) [OF inv] assms(3) by simp
  ultimately show "i_pc (isa_next q) \<in> C" using isa_runD [OF assms(2), of "c + Suc ?k"] by (simp add: safe_def)
qed

lemma path_next:
  assumes "flow {} R c t" and "(eu, l) \<in> unit_set t" and "on_path R c t (rob_dist t (l_rob_idx l))"
  shows "pcs t ! Suc (rob_dist t (l_rob_idx l)) = i_pc (R (c + rob_dist t (l_rob_idx l))) + 4"
proof -
  have "ooo_inv t" using assms(1) by (simp add: flow_def)
  note tp = token_place [OF this unit_token [OF assms(2)]]
  have "rob_dist t (l_rob_idx l) < length (insts t)" using tp(1) by (simp add: insts_def)
  then show ?thesis using assms(1,3) tp(1,3) by (simp add: flow_def links_ok_def)
qed

lemma unit_members:
  "s < length (latch_int t) \<Longrightarrow> l_valid (latch_int t ! s) \<Longrightarrow> (0, latch_int t ! s) \<in> unit_set t"
  "s < length (latch_mul t) \<Longrightarrow> l_valid (latch_mul t ! s) \<Longrightarrow> (1, latch_mul t ! s) \<in> unit_set t"
  "s < length (latch_lsu t) \<Longrightarrow> live_lsu (latch_lsu t ! s) \<Longrightarrow> (2, latch_lsu t ! s) \<in> unit_set t"
  by (auto simp: unit_set_def)

lemma unit_put:
  "unit_set (put_int s l t) \<subseteq> {(0, l) | x :: unit. l_valid l} \<union> unit_set t" "unit_set (put_mul s l t) \<subseteq> {(1, l) | x :: unit. l_valid l} \<union> unit_set t"
  "unit_set (put_lsu s l t) \<subseteq> {(2, l) | x :: unit. live_lsu l} \<union> unit_set t"
  using set_update_subset_insert [of "latch_int t" s l] set_update_subset_insert [of "latch_mul t" s l] set_update_subset_insert [of "latch_lsu t" s l]
  by (fastforce simp: unit_set_def put_int_def put_mul_def put_lsu_def)+

lemma put_unit_frame [simp]:
  "latch_id_rn (put_int s l t) = latch_id_rn t" "latch_if_id (put_int s l t) = latch_if_id t" "ooo_fetch_pc (put_int s l t) = ooo_fetch_pc t" "store_part (put_int s l t) = store_part t"
  "latch_id_rn (put_mul s l t) = latch_id_rn t" "latch_if_id (put_mul s l t) = latch_if_id t" "ooo_fetch_pc (put_mul s l t) = ooo_fetch_pc t" "store_part (put_mul s l t) = store_part t"
  "store_part (complete i p ir t) = store_part t" "mode_part (with_ooo f m) = mode_part m" "mem_eq m (with_ooo f m)"
  using frame_partD [OF complete_frame [of i p ir t]]
  by (simp_all add: put_int_def put_mul_def store_part_def mode_part_def mem_eq_def with_ooo_def)

text \<open>A unit that computes takes its instruction from the latch, executes it and completes the entry.\<close>

lemma unit_complete:
  assumes sim: "sim C R c m" and run: "isa_run C N R" "c + 40 \<le> N" and l: "l_valid l"
    and u: "s < 2 \<and> l = latch_int (ooo m) ! s \<and> u = put_int s (l\<lparr>l_valid := False\<rparr>) (ooo m) \<and> eu = 0 \<or>
      s = 0 \<and> l = latch_mul (ooo m) ! s \<and> u = put_mul s (l\<lparr>l_valid := False\<rparr>) (ooo m) \<and> eu = 1"
    and ex: "ir_execute (with_sources l (rob_ir (rob (ooo m) ! l_rob_idx l))) (cpu m) (m\<lparr>ooo := u\<rparr>) = Inr (ir, n)"
  defines "k \<equiv> rob_dist (ooo m) (l_rob_idx l)" and "t' \<equiv> complete (l_rob_idx l) (l_phys_rd l) ir u"
  shows "(eu, l) \<in> unit_set (ooo m)" "flow {k} R c t'" "(on_path R c (ooo m) k \<Longrightarrow> i_pc (R (c + k)) + 4 = i_pc (R (c + Suc k))) \<Longrightarrow> flow {} R c t'"
    "rob t' = (rob (ooo m))[l_rob_idx l := (rob (ooo m) ! l_rob_idx l)\<lparr>rob_ir := ir, rob_ready := True\<rparr>]" "rob_head t' = rob_head (ooo m)" "pcs t' = pcs (ooo m)"
    "store_part t' = store_part (ooo m)" "ooo n = u" "mode_part n = mode_part m" "mem_eq m n"
proof -
  let ?t = "ooo m" and ?i = "l_rob_idx l"
  have fl: "flow {} R c ?t" and inv: "ooo_inv ?t" using sim by (simp_all add: sim_def flow_def)
  have sh: "length (latch_int ?t) = 2" "length (latch_mul ?t) = 1" using inv by (simp_all add: ooo_inv_def shape_ok_def)
  show m: "(eu, l) \<in> unit_set ?t" using u l sh unit_members(1,2) [of s ?t] by auto
  note f = finish_unit [OF inv l, of s u]
  have u': "tokens u + {#(?i, l_phys_rd l)#} = tokens ?t" "rob u = rob ?t" using f(1,2) u by auto
  have sub: "unit_set u \<subseteq> unit_set ?t" using u unit_put(1,2) [of s "l\<lparr>l_valid := False\<rparr>" ?t] by auto
  have sm: "ren_part u = ren_part ?t" "mask_part u = mask_part ?t" "phys u = phys ?t" "shape_ok u" "latch_id_rn u = latch_id_rn ?t" "latch_if_id u = latch_if_id ?t"
      "ooo_fetch_pc u = ooo_fetch_pc ?t" "store_part u = store_part ?t"
    using u inv by (auto simp: ooo_inv_def)
  have fin: "let q = R (c + k) in executed (isa_op q) (isa_fetch q) q ir \<and> ir_raw ir = isa_fetch q \<and> \<not> fault ir \<and>
      isa_op q \<notin> store_ops \<and> (0 < isa_rd q \<longrightarrow> result ir = i_regs (R (c + Suc k)) ! nat (isa_rd q))" if "on_path R c ?t k"
  proof -
    note p = path_inst [OF fl run m, folded k_def, OF that]
    show ?thesis using unit_result(1) [OF p(1,2) _ p(3,5) ex] u p(7) by auto
  qed
  have pc: "ir_pc ir = ir_pc (rob_ir (rob ?t ! ?i))" using ir_execute_pc [OF ex] by (simp add: with_sources_def)
  note cf = complete_flow [OF fl run unit_token [OF m] u'(2) sm(1-4) u'(1) sub sm(5-7) pc, folded k_def, folded t'_def, OF fin]
  show "flow {k} R c t'" by (rule cf(1))
  show "(on_path R c ?t k \<Longrightarrow> i_pc (R (c + k)) + 4 = i_pc (R (c + Suc k))) \<Longrightarrow> flow {} R c t'"
    using cf(2) path_next [OF fl m, folded k_def] by simp
  show "rob t' = (rob ?t)[?i := (rob ?t ! ?i)\<lparr>rob_ir := ir, rob_ready := True\<rparr>]" "rob_head t' = rob_head ?t" "pcs t' = pcs ?t" using cf(3,4,6) by simp_all
  show "store_part t' = store_part ?t" using sm(8) by (simp add: t'_def)
  have e: "eng_frame (m\<lparr>ooo := u\<rparr>) n" using ir_execute_eng [OF ex] .
  show "ooo n = u" "mode_part n = mode_part m" using eng_frame_fields [OF e] by (simp_all add: mode_part_def)
  show "mem_eq m n" using ir_execute_mem_eq [OF ex] by (simp add: mem_eq_def)
qed

text \<open>The record of a finished instruction off the path may change.\<close>

lemma offpath_ir:
  assumes flow: "flow {} R c t" and run: "isa_run C N R" "c + 40 \<le> N" and i: "i < 32" "rob_valid (rob t ! i)" "rob_ready (rob t ! i)"
    and off: "\<not> on_path R c t (rob_dist t i)" and pc: "ir_pc ir = ir_pc (rob_ir (rob t ! i))"
  shows "flow {} R c (set_rob_ir i ir t)"
proof -
  let ?t = "set_rob_ir i ir t" and ?e = "(rob t ! i)\<lparr>rob_ir := ir\<rparr>" and ?k = "rob_dist t i"
  have inv: "ooo_inv t" using flow by (simp add: flow_def)
  have ri: "rings_ok t" using ooo_invD [OF inv] by simp
  have k: "?k < length (in_flight t)" "in_flight t ! ?k = rob t ! i" using in_flight_nth [OF ri i(1,2)] by simp_all
  have ok: "ooo_inv ?t" "same_view t ?t" using set_rob_ir_keeps [of t i ir] inv by (simp_all add: keeps_def)
  have d: "rob ?t = (rob t)[i := ?e]" "rob_head ?t = rob_head t" "rob_count ?t = rob_count t" "rrat ?t = rrat t" "phys ?t = phys t" "rs_tab ?t = rs_tab t" "unit_set ?t = unit_set t"
      "latch_id_rn ?t = latch_id_rn t" "latch_if_id ?t = latch_if_id t" "ooo_fetch_pc ?t = ooo_fetch_pc t"
    by (simp_all add: set_rob_ir_def put_rob_def unit_set_def)
  have "in_flight ?t = (in_flight t)[?k := ?e]" using in_flight_put [OF ri i(1,2) d(1-3)] .
  then show ?thesis
    using finish_flow(2) [OF flow ok run k(1), of ?e] k(2) i(3) pc off d by simp
qed

lemma in_code_ram: "isa_run C N R \<Longrightarrow> a \<in> C \<Longrightarrow> in_ram_range a \<and> a AND 0xffffffff = a"
proof -
  assume "isa_run C N R" and "a \<in> C"
  then have a: "ram_addr a" by (simp add: isa_run_def fetchable_def access_ok_def)
  then have u: "unat a < 2 ^ 32" by (simp add: ram_addr_unat)
  have m: "(0xffffffff :: word_t) = mask 32" by (simp add: mask_eq_exp_minus_1)
  have "unat (take_bit 32 a) = unat a" using u by (simp add: unsigned_take_bit_eq take_bit_nat_eq_self)
  then have "a AND 0xffffffff = a" unfolding m by (simp add: word_unat_eq_iff flip: take_bit_eq_mask)
  then show ?thesis using a by (simp add: ram_addr_def in_ram_range_def)
qed

lemma redirect_flow:
  assumes flow: "flow {k} R c (ooo m)" "\<not> on_path R c (ooo m) k \<Longrightarrow> flow {} R c (ooo m)" and run: "isa_run C N R" "c + 40 \<le> N"
    and i: "i < 32" "rob_valid (rob (ooo m) ! i)" "rob_ready (rob (ooo m) ! i)" "k = rob_dist (ooo m) i" and md: "\<not> g_bpred_mode m"
    and pc: "on_path R c (ooo m) k \<Longrightarrow> dnpc ir = i_pc (R (c + Suc k)) \<and> i_pc (R (c + Suc k)) \<in> C"
  shows "flow {} R c (ooo (redirect i ir m))" "store_part (ooo (redirect i ir m)) = store_part (ooo m)" "mode_part (redirect i ir m) = mode_part m" "mem_eq m (redirect i ir m)"
proof -
  have st: "store_part (ooo_flush_after i t) = store_part t" for t
  proof -
    have "store_part (undo_last u) = store_part u" for u by (simp add: store_part_def undo_last_def put_rob_def set_unready_def freelist_push_def Let_def)
    then have "store_part ((undo_last ^^ n) u) = store_part u" for n u by (induction n) simp_all
    moreover have "store_part (flush_rs i j u) = store_part u" for j u by (simp add: store_part_def flush_rs_def put_rs_def rs_mask_clear_def clear_ready_def Let_def)
    then have "store_part (fold (flush_rs i) js u) = store_part u" for js u by (induction js arbitrary: u) simp_all
    ultimately show ?thesis by (simp add: ooo_flush_after_def Let_def) (simp add: store_part_def)
  qed
  show "flow {} R c (ooo (redirect i ir m))"
  proof (cases "in_ram_range (dnpc ir)")
    case True
    then show ?thesis using flush_flow [OF flow(1) i(1,2) _ i(3), of "dnpc ir"] pc i(4) md by (simp add: redirect_def)
  next
    case False
    then have "\<not> on_path R c (ooo m) k" using pc in_code_ram [OF run(1)] by auto
    then show ?thesis using offpath_ir [OF flow(2) run i(1-3)] i(4) False by (simp add: redirect_def)
  qed
  show "store_part (ooo (redirect i ir m)) = store_part (ooo m)" "mode_part (redirect i ir m) = mode_part m" "mem_eq m (redirect i ir m)"
    using md st by (simp_all add: redirect_def Let_def mode_part_def mem_eq_def with_ooo_def store_part_def set_rob_ir_def put_rob_def)
qed

lemma int_slot_sim:
  assumes sim: "sim C R c m" and run: "isa_run C N R" "c + 40 \<le> N" and s: "s < 2" and ex: "int_slot s m = Inr m'"
  shows "sim C R c m'"
proof (cases "l_valid (latch_int (ooo m) ! s)")
  case True
  let ?l = "latch_int (ooo m) ! s"
  let ?i = "l_rob_idx ?l" and ?n = "with_ooo (put_int s (?l\<lparr>l_valid := False\<rparr>)) m" and ?k = "rob_dist (ooo m) (l_rob_idx ?l)"
  have inv: "ooo_inv (ooo m)" and fl: "flow {} R c (ooo m)" and md: "mode_part m = (False, False, False, [], \<lparr>gpr = i_regs (R c), cpu_pc = i_pc (R c)\<rparr>, word_of_nat c)"
    using sim by (simp_all add: sim_def flow_def)
  note f = finish_unit [OF inv True, of s "ooo ?n"]
  have i: "?i < 32" "rob_valid (rob (ooo ?n) ! ?i)" "rob (ooo ?n) = rob (ooo m)" using f(2-4) s by simp_all
  obtain ir n where n: "ir_execute (with_sources ?l (rob_ir (rob (ooo ?n) ! ?i))) (cpu ?n) ?n = Inr (ir, n)"
      "(let m = with_ooo (complete ?i (l_phys_rd ?l) ir) n in
         if ir_type ir = ITYPE_BRANCH \<or> ir_type ir = ITYPE_JAL \<or> ir_type ir = ITYPE_JALR then
           bind_res (train_predictor ir m) (\<lambda>m.
           let predicted = (if bp_predicted_pc ir \<noteq> 0 then bp_predicted_pc ir else ir_snpc ir)
           in Inr (if dnpc ir \<noteq> predicted then redirect ?i ir m else m))
         else Inr m) = Inr m'"
    using ex True i(2) unfolding int_slot_def Let_def by (auto elim!: bind_res_eq_InrE)
  let ?m2 = "with_ooo (complete ?i (l_phys_rd ?l) ir) n"
  have nn: "?n = m\<lparr>ooo := put_int s (?l\<lparr>l_valid := False\<rparr>) (ooo m)\<rparr>" by (simp add: with_ooo_def)
  have x: "ir_execute (with_sources ?l (rob_ir (rob (ooo m) ! ?i))) (cpu m) (m\<lparr>ooo := put_int s (?l\<lparr>l_valid := False\<rparr>) (ooo m)\<rparr>) = Inr (ir, n)"
    using n(1) i(3) unfolding nn by simp
  note uc = unit_complete [OF sim run True _ x, of s 0]
  have t2: "ooo ?m2 = complete ?i (l_phys_rd ?l) ir (put_int s (?l\<lparr>l_valid := False\<rparr>) (ooo m))" using uc(8) s by simp
  have mem: "mem_eq m ?m2" using uc(10) s mem_eq_trans [of m n ?m2] by simp
  have m2: "flow {?k} R c (ooo ?m2)" "store_part (ooo ?m2) = store_part (ooo m)" "mode_part ?m2 = mode_part m" "pcs (ooo ?m2) = pcs (ooo m)" "rob_head (ooo ?m2) = rob_head (ooo m)"
      "rob (ooo ?m2) = (rob (ooo m))[?i := (rob (ooo m) ! ?i)\<lparr>rob_ir := ir, rob_ready := True\<rparr>]"
    unfolding t2 using uc(2,4-7,9) s by simp_all
  have fl2: "flow {} R c (ooo ?m2)" if "on_path R c (ooo m) ?k \<Longrightarrow> i_pc (R (c + ?k)) + 4 = i_pc (R (c + Suc ?k))"
    unfolding t2 using uc(3) that s by simp
  have on2: "on_path R c (ooo ?m2) = on_path R c (ooo m)" using on_path_eq [OF m2(4)] .
  have d2: "rob_dist (ooo ?m2) ?i = ?k" using m2(5) by (simp add: rob_dist_def)
  have path: "dnpc ir = i_pc (R (c + Suc ?k)) \<and> bp_predicted_pc ir = i_pc (R (c + ?k)) + 4 \<and> i_pc (R (c + Suc ?k)) \<in> C \<and>
      i_pc (R (c + ?k)) + 4 \<noteq> 0 \<and> (ir_type ir \<notin> {ITYPE_BRANCH, ITYPE_JAL, ITYPE_JALR} \<longrightarrow> i_pc (R (c + Suc ?k)) = i_pc (R (c + ?k)) + 4)"
    if "on_path R c (ooo m) ?k"
  proof -
    have m: "(0, ?l) \<in> unit_set (ooo m)" using uc(1) s by simp
    note p = path_inst [OF fl run m that]
    have "i_pc (R (c + ?k)) + 4 \<in> C" using isa_runD [OF run(1) p(8)] by (simp add: safe_def)
    then have "in_ram_range (i_pc (R (c + ?k)) + 4)" using in_code_ram [OF run(1)] by simp
    then have "i_pc (R (c + ?k)) + 4 \<noteq> 0" by (auto simp: in_ram_range_def)
    then show ?thesis using unit_result(2-4) [OF p(1,2) _ p(3,5) x] p(7,9) by simp
  qed
  have fin: "sim C R c m'" if "flow {} R c (ooo m')" "store_part (ooo m') = store_part (ooo m)" "mode_part m' = mode_part m" "mem_eq m m'"
    using sim_step [OF sim that(1) mem_eq_kept [OF that(4)] that(2,3)] .
  show ?thesis
  proof (cases "ir_type ir \<in> {ITYPE_BRANCH, ITYPE_JAL, ITYPE_JALR}")
    case False
    then have "m' = ?m2" using n(2) by (auto simp: Let_def)
    moreover have "flow {} R c (ooo ?m2)" using path False by (intro fl2) simp
    ultimately show ?thesis using fin m2(2,3) mem by simp
  next
    case True
    have "\<not> g_bpred_mode ?m2" "\<not> g_bpred2_mode ?m2" using m2(3) md by (simp_all add: mode_part_def)
    then have tr: "train_predictor ir ?m2 = Inr ?m2" by (simp add: train_predictor_def)
    let ?p = "if bp_predicted_pc ir \<noteq> 0 then bp_predicted_pc ir else ir_snpc ir"
    have m': "m' = (if dnpc ir \<noteq> ?p then redirect ?i ir ?m2 else ?m2)" using n(2) True tr by (auto simp: Let_def)
    show ?thesis
    proof (cases "dnpc ir = ?p")
      case True
      then have "flow {} R c (ooo ?m2)" using path by (intro fl2) simp
      then show ?thesis using m' True fin m2(2,3) mem by simp
    next
      case False
      have v: "rob_valid (rob (ooo ?m2) ! ?i)" "rob_ready (rob (ooo ?m2) ! ?i)"
        using m2(6) i rob_ring_fields(1) [of "ooo m"] ooo_invD [OF inv] by simp_all
      have "\<not> on_path R c (ooo ?m2) ?k \<Longrightarrow> flow {} R c (ooo ?m2)" using fl2 on2 by simp
      note rf = redirect_flow [OF m2(1) this run i(1) v, of ir]
      have "flow {} R c (ooo m')" "store_part (ooo m') = store_part (ooo ?m2)" "mode_part m' = mode_part ?m2" "mem_eq ?m2 m'"
        using rf path \<open>\<not> g_bpred_mode ?m2\<close> d2 on2 m' False by simp_all
      then show ?thesis using fin m2(2,3) mem_eq_trans [OF mem] by simp
    qed
  qed
qed (use ex sim in \<open>simp add: int_slot_def Let_def\<close>)

section \<open>The multiplier\<close>

text \<open>Of the latches the invariant sees what is in \<open>units_ok\<close>.\<close>

definition flow_part :: "OOOState \<Rightarrow> ROBEntry list \<times> nat \<times> int \<times> int list \<times> PhysReg list \<times> RSEntry list \<times> PipeReg list \<times> PipeReg list \<times> vaddr_t" where
  "flow_part t = (rob t, rob_head t, rob_count t, rrat t, phys t, rs_tab t, latch_id_rn t, latch_if_id t, ooo_fetch_pc t)"

lemma flow_part_eq:
  assumes "flow_part t' = flow_part t"
  shows "in_flight t' = in_flight t" "insts t' = insts t" "pcs t' = pcs t" "rob_dist t' = rob_dist t" "map_at t' = map_at t" "front t' = front t"
    "phys t' = phys t" "rs_tab t' = rs_tab t" "committed t' = committed t" "packed t' = packed t" "rob t' = rob t" "rob_head t' = rob_head t"
  using assms by (simp_all add: flow_part_def in_flight_def insts_def pcs_def front_def rob_dist_def map_at_def committed_def packed_def fun_eq_iff)

lemma flow_units:
  assumes "flow X R c t" and "ooo_inv t'" and "flow_part t' = flow_part t" and "units_ok R c t'"
  shows "flow X R c t'"
proof -
  note e = flow_part_eq [OF assms(3)] and o = on_path_eq [OF flow_part_eq(3) [OF assms(3)]]
  show ?thesis
    using assms(1,2,4) by (simp add: flow_def base_ok_def entries_ok_def front_ok_def stations_ok_def links_ok_def e o)
qed

lemma flow_latch:
  assumes "flow X R c t" and "ooo_inv t'" and "flow_part t' = flow_part t"
    and "\<And>eu l. (eu, l) \<in> unit_set t' \<Longrightarrow> (eu, l) \<in> unit_set t \<or> eu \<noteq> 2 \<and> (\<exists>l'. (eu, l') \<in> unit_set t \<and> l_rob_idx l = l_rob_idx l' \<and> l_src1_val l = l_src1_val l' \<and> l_src2_val l = l_src2_val l')"
  shows "flow X R c t'"
proof (rule flow_units [OF assms(1-3)])
  note e = flow_part_eq [OF assms(3)] and o = on_path_eq [OF flow_part_eq(3) [OF assms(3)]]
  have u: "unit_ok (R (c + rob_dist t (l_rob_idx l))) (take (rob_dist t (l_rob_idx l)) (in_flight t)) (rob_ir (in_flight t ! rob_dist t (l_rob_idx l))) eu l"
    if "(eu, l) \<in> unit_set t" "on_path R c t (rob_dist t (l_rob_idx l))" for eu l
    using assms(1) that by (auto simp: flow_def units_ok_def Let_def)
  have c: "eu \<noteq> 2 \<Longrightarrow> l_src1_val l = l_src1_val l' \<Longrightarrow> l_src2_val l = l_src2_val l' \<Longrightarrow> unit_ok q es ir eu l' \<Longrightarrow> unit_ok q es ir eu l" for q es ir eu l l'
    by (simp add: unit_ok_def latch_ok_def)
  show "units_ok R c t'"
    unfolding units_ok_def Let_def e o
  proof (intro allI impI)
    fix eu l assume "(eu, l) \<in> unit_set t'" and p: "on_path R c t (rob_dist t (l_rob_idx l))"
    from assms(4) [OF this(1)] show "unit_ok (R (c + rob_dist t (l_rob_idx l))) (take (rob_dist t (l_rob_idx l)) (in_flight t)) (rob_ir (in_flight t ! rob_dist t (l_rob_idx l))) eu l"
      using u [of eu l] p u [of eu] c by metis
  qed
qed

lemma mul_wait_sim:
  assumes "sim C R c m" and "l_valid (latch_mul (ooo m) ! 0)"
  shows "sim C R c (with_ooo (put_mul 0 ((latch_mul (ooo m) ! 0)\<lparr>l_cycles_rem := n\<rparr>)) m)" (is "sim C R c ?m")
proof -
  let ?l = "(latch_mul (ooo m) ! 0)\<lparr>l_cycles_rem := n\<rparr>"
  have fl: "flow {} R c (ooo m)" and inv: "ooo_inv (ooo m)" using assms(1) by (simp_all add: sim_def flow_def)
  have "ooo_inv (put_mul 0 ?l (ooo m))" using mul_wait_keeps [of ?l "ooo m"] inv by (simp add: keeps_def)
  moreover have "flow_part (put_mul 0 ?l (ooo m)) = flow_part (ooo m)" by (simp add: flow_part_def put_mul_def)
  moreover have "0 < length (latch_mul (ooo m))" using inv by (simp add: ooo_inv_def shape_ok_def)
  then have "(1, latch_mul (ooo m) ! 0) \<in> unit_set (ooo m)" using unit_members(2) [of 0 "ooo m"] assms(2) by simp
  ultimately have "flow {} R c (put_mul 0 ?l (ooo m))"
    using unit_put(2) [of 0 ?l "ooo m"] by (intro flow_latch [OF fl]) force+
  then show ?thesis using sim_step [OF assms(1), of ?m] mem_eq_kept [of m ?m] by simp
qed

lemma eu_mul: "eu_of raw = 1 \<Longrightarrow> raw AND 0x7f = 0x33 \<or> raw AND 0x7f = 0x3b"
proof -
  let ?mem = "raw AND 0x7f = 0x03 \<or> raw AND 0x7f = 0x23" and ?reg = "raw AND 0x7f = 0x33 \<or> raw AND 0x7f = 0x3b"
  have e: "eu_of raw = (if ?mem then 2 else if ?reg \<and> drop_bit 25 raw = 1 then 1 else 0)" unfolding eu_of_def Let_def ..
  have "(if P then 2 else if Q \<and> S then 1 else 0 :: nat) = 1 \<Longrightarrow> Q" for P Q S by (simp split: if_splits)
  then show "eu_of raw = 1 \<Longrightarrow> ?thesis" unfolding e .
qed

lemma mul_finish_sim:
  assumes sim: "sim C R c m" and run: "isa_run C N R" "c + 40 \<le> N" and v: "l_valid (latch_mul (ooo m) ! 0)" and ex: "mul_finish 0 m = Inr m'"
  shows "sim C R c m'"
proof -
  let ?l = "latch_mul (ooo m) ! 0"
  let ?i = "l_rob_idx ?l" and ?n = "with_ooo (put_mul 0 (?l\<lparr>l_valid := False\<rparr>)) m" and ?k = "rob_dist (ooo m) (l_rob_idx ?l)"
  have inv: "ooo_inv (ooo m)" and fl: "flow {} R c (ooo m)" using sim by (simp_all add: sim_def flow_def)
  note f = finish_unit [OF inv v, of 0 "ooo ?n"]
  have i: "?i < 32" "rob_valid (rob (ooo ?n) ! ?i)" "rob (ooo ?n) = rob (ooo m)" using f(2-4) by simp_all
  obtain ir n where n: "ir_execute (with_sources ?l (rob_ir (rob (ooo ?n) ! ?i))) (cpu ?n) ?n = Inr (ir, n)" "m' = with_ooo (complete ?i (l_phys_rd ?l) ir) n"
    using ex i(2) unfolding mul_finish_def Let_def by (auto elim!: bind_res_eq_InrE)
  have nn: "?n = m\<lparr>ooo := put_mul 0 (?l\<lparr>l_valid := False\<rparr>) (ooo m)\<rparr>" by (simp add: with_ooo_def)
  have x: "ir_execute (with_sources ?l (rob_ir (rob (ooo m) ! ?i))) (cpu m) (m\<lparr>ooo := put_mul 0 (?l\<lparr>l_valid := False\<rparr>) (ooo m)\<rparr>) = Inr (ir, n)"
    using n(1) i(3) unfolding nn by simp
  note uc = unit_complete [OF sim run v _ x, of 0 1]
  have "i_pc (R (c + ?k)) + 4 = i_pc (R (c + Suc ?k))" if "on_path R c (ooo m) ?k"
  proof -
    have m: "(1, ?l) \<in> unit_set (ooo m)" using uc(1) by simp
    note p = path_inst [OF fl run m that]
    have "eu_of (isa_fetch (R (c + ?k))) = 1" using p(1,2) by (simp add: unit_ok_def inst_ok_def)
    then have "isa_fetch (R (c + ?k)) AND 0x7f = 0x33 \<or> isa_fetch (R (c + ?k)) AND 0x7f = 0x3b" by (rule eu_mul)
    then have "isa_op (R (c + ?k)) \<notin> control_ops" using op_class(3) [of "isa_fetch (R (c + ?k))"] p(4) by (auto simp: isa_op_def)
    then show ?thesis using sequential_op [OF p(4)] p(7) by (simp add: isa_next_def)
  qed
  then have "flow {} R c (ooo m')" using uc(3,8) n(2) by simp
  moreover have "mem_eq m m'" using uc(10) mem_eq_trans [of m n m'] n(2) by simp
  ultimately show ?thesis using sim_step [OF sim _ mem_eq_kept] uc(7-9) n(2) by simp
qed

lemma unit_mul_sim:
  assumes sim: "sim C R c m" and run: "isa_run C N R" "c + 40 \<le> N" and ex: "ooo_unit_mul m = Inr m'"
  shows "sim C R c m'"
proof (cases "l_valid (latch_mul (ooo m) ! 0)")
  case True
  let ?l = "latch_mul (ooo m) ! 0"
  have inv: "ooo_inv (ooo m)" using sim by (simp add: sim_def flow_def)
  have len: "length (latch_mul (ooo m)) = 1" using inv by (simp add: ooo_inv_def shape_ok_def)
  have v: "rob_valid (rob (ooo m) ! l_rob_idx ?l)" using finish_unit(3) [OF inv True, of 0 "put_mul 0 (?l\<lparr>l_valid := False\<rparr>) (ooo m)"] by simp
  note w = mul_wait_sim [OF sim True]
  have l: "latch_mul (put_mul 0 x (ooo m)) ! 0 = x" for x using len by (simp add: put_mul_def)
  let ?n = "mul_latency (ir_raw (rob_ir (rob (ooo m) ! l_rob_idx ?l)))"
  consider "l_cycles_rem ?l = -1" "?n > 1" | "l_cycles_rem ?l = -1" "\<not> ?n > 1" | "l_cycles_rem ?l > 0" | "l_cycles_rem ?l \<noteq> -1" "\<not> l_cycles_rem ?l > 0" by blast
  then show ?thesis
  proof cases
    case 2
    then have "mul_finish 0 (with_ooo (put_mul 0 (?l\<lparr>l_cycles_rem := int ?n - 1\<rparr>)) m) = Inr m'"
      using ex True by (simp add: ooo_unit_mul_def mul_slot_def Let_def)
    then show ?thesis using mul_finish_sim [OF w run] l True by simp
  next
    case 4
    then have "mul_finish 0 m = Inr m'" using ex True by (simp add: ooo_unit_mul_def mul_slot_def Let_def)
    then show ?thesis using mul_finish_sim [OF sim run True] by simp
  qed (use ex True v w in \<open>auto simp: ooo_unit_mul_def mul_slot_def Let_def\<close>)
qed (use ex sim in \<open>simp add: ooo_unit_mul_def mul_slot_def Let_def\<close>)

end
