(* ===== verification/Ooo_Lsu.thy ===== *)
theory Ooo_Lsu
  imports Ooo_Units
begin

text \<open>
  The load/store unit: the value of a load on the path is the one in the memory of its ISA state, from the cache or
  forwarded from the stores that have not reached it yet.
\<close>

section \<open>Pending stores\<close>

text \<open>Every load of the run finds the last 48 stores before it either around its bytes or apart from them: at most 16 stores are
  in the store buffer and fewer than 32 in the re-order buffer.\<close>

definition forward_ok :: "nat \<Rightarrow> (nat \<Rightarrow> isa_state) \<Rightarrow> bool" where
  "forward_ok N R \<longleftrightarrow> (\<forall>n<N. isa_op (R n) \<in> load_ops \<longrightarrow> (\<forall>(a, w, d)\<in>set (take 48 (rev (run_stores R n))).
     forwardable (a, w) (isa_addr (isa_op (R n)) (isa_fetch (R n)) (R n), access_width (isa_op (R n)))))"

definition stores_between :: "(nat \<Rightarrow> isa_state) \<Rightarrow> nat \<Rightarrow> nat \<Rightarrow> pending_store list" where
  "stores_between R c k = concat (map (\<lambda>j. isa_store (R (c + j))) [0..<k])"

lemma run_stores_add: "run_stores R (c + k) = run_stores R c @ stores_between R c k"
  by (induction k) (simp_all add: run_stores_def stores_between_def)

lemma stores_between_Suc: "stores_between R c (Suc k) = stores_between R c k @ isa_store (R (c + k))"
  by (simp add: stores_between_def)

lemma stores_between_length: "length (stores_between R c k) \<le> k"
  by (induction k) (simp_all add: stores_between_def isa_store_def)

lemma run_memory:
  assumes "isa_run C N R" and "c + k \<le> N"
  shows "i_mem (R (c + k)) = fold put_store (stores_between R c k) (i_mem (R c))"
  using assms(2)
proof (induction k)
  case (Suc k)
  then show ?case using isa_runD [OF assms(1), of "c + k"] by (simp add: stores_between_Suc isa_next_mem)
qed (simp add: stores_between_def)

lemma run_store_ok:
  assumes "isa_run C N R" and "n \<le> N" and "(a, w, d) \<in> set (run_stores R n)"
  shows "access_ok a w" "blk a \<notin> blk ` C"
proof -
  obtain i where "i < n" "(a, w, d) \<in> set (isa_store (R i))" using assms(3) by (auto simp: run_stores_def)
  then show "access_ok a w" "blk a \<notin> blk ` C"
    using isa_runD [OF assms(1), of i] assms(2) by (auto simp: isa_store_def safe_def user_ok_def split: if_splits)
qed

text \<open>The pending stores before a load are the last ones of the run.\<close>

lemma pending_forwardable:
  assumes "forward_ok N R" and "c + k < N" and "isa_op (R (c + k)) \<in> load_ops" and "suffix bs (run_stores R c)" and "length bs \<le> 16" and "k \<le> 32"
    and "(a, w, d) \<in> set (bs @ stores_between R c k)"
  shows "forwardable (a, w) (isa_addr (isa_op (R (c + k))) (isa_fetch (R (c + k))) (R (c + k)), access_width (isa_op (R (c + k))))"
proof -
  let ?s = "bs @ stores_between R c k"
  have "suffix ?s (run_stores R (c + k))" using assms(4) by (auto simp: run_stores_add suffix_def)
  then obtain zs where z: "rev (run_stores R (c + k)) = rev ?s @ rev zs" by (auto simp: suffix_def)
  have "length (rev ?s) \<le> 48" using assms(5,6) stores_between_length [of R c k] by simp
  then have "set ?s \<subseteq> set (take 48 (rev (run_stores R (c + k))))" unfolding z by auto
  then show ?thesis using assms(1-3,7) by (fastforce simp: forward_ok_def)
qed

section \<open>The scans\<close>

lemma in_flight_valid: "rings_ok t \<Longrightarrow> j < length (in_flight t) \<Longrightarrow> rob_valid (in_flight t ! j)"
proof -
  assume r: "rings_ok t" and j: "j < length (in_flight t)"
  let ?s = "(rob_head t + j) mod 32"
  have "rob_dist t ?s = j" using dist_slot [of "rob_head t" 32 j] rob_ring_fields [OF r] j by (simp add: rob_dist_def in_flight_def)
  then show ?thesis using valid_dist(1) [OF r, of ?s] j rob_ring_fields(1) [OF r] by (simp add: in_flight_def)
qed

lemma stlf_sbuf_list:
  assumes "sbuf_ring t"
  shows "stlf_sbuf t ir out = fold (\<lambda>(a, w, d). stlf_try a w d ir) (sbuf_list t) out"
proof -
  let ?f = "\<lambda>se out. stlf_try (se_addr se) (se_width se) (se_data se) ir out"
  have v: "se_valid (sbuf t ! ((sbuf_head t + bi) mod 16))" if "bi < nat (sbuf_count t)" for bi
    using assms that nth_mem [of bi "sbuf_window t"] by (simp add: sbuf_ring_def sbuf_window_def)
  have "stlf_sbuf t ir out = fold (\<lambda>bi. ?f (sbuf t ! ((sbuf_head t + bi) mod 16))) [0..<nat (sbuf_count t)] out"
    unfolding stlf_sbuf_def Let_def using v by (intro fold_cong) (auto simp: fun_eq_iff)
  also have "\<dots> = fold ?f (sbuf_window t) out"
    using assms by (simp add: sbuf_window_def window_def fold_map o_def sbuf_ring_def)
  also have "\<dots> = fold (\<lambda>(a, w, d). stlf_try a w d ir) (sbuf_list t) out" by (simp add: sbuf_list_def fold_map o_def)
  finally show ?thesis .
qed

lemma stlf_rob_list:
  assumes "ooo_inv t" and "i < 32" and "rob_valid (rob t ! i)" and "\<And>j. j < rob_dist t i \<Longrightarrow> entry_ok (R (c + j)) (in_flight t ! j) \<and> user_op (isa_op (R (c + j)))"
    and "\<forall>e\<in>set (take (rob_dist t i) (in_flight t)). is_store_op (ir_raw (rob_ir e)) \<longrightarrow> rob_ready e"
  shows "stlf_rob t i ir out = fold (\<lambda>(a, w, d). stlf_try a w d ir) (stores_between R c (rob_dist t i)) out"
proof -
  let ?k = "rob_dist t i"
  have ri: "rings_ok t" using ooo_invD [OF assms(1)] by simp
  note k = in_flight_nth [OF ri assms(2,3)]
  let ?g = "\<lambda>e out. if rob_valid e \<and> rob_ready e \<and> is_store_op (ir_raw (rob_ir e)) then stlf_try (mem_addr (rob_ir e)) (mem_width (rob_ir e)) (store_data e) ir out else out"
  have "stlf_rob t i ir out = fold (\<lambda>j. ?g (in_flight t ! j)) [0..<?k] out"
  proof -
    have "in_flight t ! j = rob t ! ((rob_head t + j) mod 32)" if "j < ?k" for j
      using that k(1) rob_ring_fields(1) [OF ri] by (simp add: in_flight_def)
    then show ?thesis unfolding stlf_rob_def slots_before_def fold_map o_def Let_def by (intro fold_cong) (auto simp: fun_eq_iff)
  qed
  also have "\<dots> = fold (\<lambda>(a, w, d). stlf_try a w d ir) (stores_between R c n) out" if "n = ?k" for n
  proof -
    have "n \<le> ?k \<Longrightarrow> fold (\<lambda>j. ?g (in_flight t ! j)) [0..<n] out = fold (\<lambda>(a, w, d). stlf_try a w d ir) (stores_between R c n) out" for n
    proof (induction n)
      case (Suc n)
      let ?e = "in_flight t ! n" and ?q = "R (c + n)"
      have e: "entry_ok ?q ?e" "user_op (isa_op ?q)" using assms(4) [of n] Suc.prems by simp_all
      have v: "rob_valid ?e" using in_flight_valid [OF ri] Suc.prems k(1) by simp
      have st: "is_store_op (ir_raw (rob_ir ?e)) \<longleftrightarrow> isa_op ?q \<in> store_ops"
        using op_class(2) [of "isa_fetch ?q"] e by (simp add: is_store_op_def entry_ok_def isa_op_def)
      have "?e \<in> set (take ?k (in_flight t))" using Suc.prems k(1) nth_mem [of n "take ?k (in_flight t)"] by simp
      then have "isa_op ?q \<in> store_ops \<Longrightarrow> rob_ready ?e" using assms(5) st by blast
      moreover have "isa_op ?q \<in> store_ops \<Longrightarrow> isa_op ?q \<notin> load_ops" by (auto simp: store_ops_def load_ops_def)
      ultimately have "?g ?e x = fold (\<lambda>(a, w, d). stlf_try a w d ir) (isa_store ?q) x" for x
        using st v e(1) by (auto simp: isa_store_def entry_ok_def finished_def executed_def)
      then show ?case using Suc by (simp add: stores_between_Suc)
    qed (simp add: stores_between_def)
    then show ?thesis using that by simp
  qed
  finally show ?thesis by simp
qed

section \<open>The value of a load\<close>

lemma isa_load_value:
  assumes "isa_op q \<in> load_ops" and "0 < isa_rd q" and "length (i_regs q) = 32"
  shows "i_regs (isa_next q) ! nat (isa_rd q) =
    loaded (isa_op q) (word_of_bytes (load_bytes (i_mem q) (ram_off (isa_addr (isa_op q) (isa_fetch q) q)) (access_width (isa_op q))))"
proof -
  have no: "isa_op q \<notin> set alu_ops" "isa_op q \<notin> store_ops" "isa_op q \<notin> {X_lui, X_auipc, X_jal, X_jalr}"
    using assms(1) by (auto simp: alu_ops_def load_ops_def store_ops_def)
  have rd: "isa_rd q = uint (ibits (isa_fetch q) 11 7)" using op_types(2) [OF assms(1)] by (simp add: isa_rd_def)
  then have n: "nat (isa_rd q) = unat (ibits (isa_fetch q) 11 7)" by simp
  then have "unat (ibits (isa_fetch q) 11 7) \<noteq> 0" using assms(2) by linarith
  then show ?thesis using no assms(1,3) n rd_field(1) by (simp add: isa_next_def isa_step_def set_reg_def Let_def)
qed

lemma load_value:
  assumes sim: "sim C R c m" and run: "isa_run C N R" "c + 40 \<le> N" "forward_ok N R"
    and l: "(2, l) \<in> unit_set (ooo m)" "on_path R c (ooo m) (rob_dist (ooo m) (l_rob_idx l))"
  defines "ir \<equiv> rob_ir (rob (ooo m) ! l_rob_idx l)" and "q \<equiv> R (c + rob_dist (ooo m) (l_rob_idx l))"
  assumes ex: "executed (isa_op q) (isa_fetch q) q ir" "isa_op q \<in> load_ops" and rd: "vaddr_fill_and_read (mem_addr ir) (mem_width ir) m = Inr (raw, m')" and d: "0 < isa_rd q"
  shows "stlf_rob (ooo m) (l_rob_idx l) ir (stlf_sbuf (ooo m) ir (extend_load (mem_sign ir) (mem_width ir) raw)) = i_regs (isa_next q) ! nat (isa_rd q)"
proof -
  let ?t = "ooo m" and ?i = "l_rob_idx l" and ?k = "rob_dist (ooo m) (l_rob_idx l)"
  have fl: "flow {} R c ?t" and mo: "memory_ok C R c m" and inv: "ooo_inv ?t" using sim by (simp_all add: sim_def flow_def)
  note p = path_inst [OF fl run(1,2) l, folded q_def ir_def] and te = token_entry [OF inv unit_token [OF l(1)]] and tp = token_place [OF inv unit_token [OF l(1)]]
  let ?a = "isa_addr (isa_op q) (isa_fetch q) q" and ?w = "access_width (isa_op q)"
  have f: "mem_addr ir = ?a" "mem_width ir = ?w" "mem_sign ir = (isa_op q \<in> {X_lw, X_lh, X_lb})" using ex by (simp_all add: executed_def)
  have ok: "access_ok ?a ?w" using p(3) ex(2) by (simp add: user_ok_def)
  have ws: "?w \<in> {1, 2, 4, 8}" by (simp add: access_width_def)
  have ram: "in_ram_range ?a" using ok by (simp add: access_ok_def ram_addr_def in_ram_range_def)
  have raw: "raw = word_of_bytes (load_bytes (ram_view m) (ram_off ?a) ?w)"
    using vaddr_read_any(2) [of ?a ?w m raw m'] rd ram mo by (simp add: f fill_read memory_ok_def)
  let ?s = "sbuf_list ?t @ stores_between R c ?k"
  have sf: "suffix (sbuf_list ?t) (run_stores R c)" "sbuf_ring ?t" using mo by (simp_all add: memory_ok_def)
  have len: "length (sbuf_list ?t) \<le> 16" "?k \<le> 32" using sf(2) tp(1) in_flight_length(1) [OF inv] by (simp_all add: sbuf_list_def sbuf_window_def sbuf_ring_def nat_le_iff)
  have st: "\<forall>(a, w, d)\<in>set ?s. access_ok a w \<and> forwardable (a, w) (mem_addr ir, mem_width ir)"
  proof (intro ballI, clarify)
    fix a w d assume m: "(a, w, d) \<in> set ?s"
    have "set (sbuf_list ?t) \<subseteq> set (run_stores R c)" using sf(1) by (auto simp: suffix_def)
    then have "(a, w, d) \<in> set (run_stores R (c + ?k))" using m by (auto simp: run_stores_add)
    then show "access_ok a w \<and> forwardable (a, w) (mem_addr ir, mem_width ir)"
      using run_store_ok(1) [OF run(1), of "c + ?k" a w d] p(8) pending_forwardable [OF run(3) p(8) _ sf(1) len m] ex(2) by (simp add: f q_def)
  qed
  have "stlf_rob ?t ?i ir (stlf_sbuf ?t ir (extend_load (mem_sign ir) (mem_width ir) raw)) = fold (\<lambda>(a, w, d). stlf_try a w d ir) ?s (extend_load (mem_sign ir) (mem_width ir) raw)"
  proof -
    have "entry_ok (R (c + j)) (in_flight ?t ! j) \<and> user_op (isa_op (R (c + j)))" if "j < ?k" for j
      using fl that tp(1) on_path_mono [OF l(2)] isa_run_user [OF run(1)] p(8) by (simp add: flow_def entries_ok_def)
    moreover have "\<forall>e\<in>set (take ?k (in_flight ?t)). is_store_op (ir_raw (rob_ir e)) \<longrightarrow> rob_ready e" using p(2) ex(2) by (simp add: unit_ok_def load_ok_def)
    ultimately show ?thesis using stlf_rob_list [OF inv te(1,2), of R c] stlf_sbuf_list [OF sf(2)] by simp
  qed
  also have "\<dots> = extend_load (mem_sign ir) ?w (word_of_bytes (load_bytes (fold put_store ?s (ram_view m)) (ram_off ?a) ?w))"
    using forward_stores [of ir ?s "ram_view m"] ok ws st by (simp add: f raw)
  also have "fold put_store ?s (ram_view m) = i_mem q"
    using run_memory [OF run(1), of c ?k] p(8) mo by (simp add: memory_ok_def q_def)
  finally show ?thesis using isa_load_value [OF ex(2) d p(5)] extend_loaded [OF ex(2)] f(3) by simp
qed

section \<open>An entry of the unit is done\<close>

lemma memory_op:
  assumes "user_op (isa_op q)" and "eu_of (isa_fetch q) = 2"
  shows "isa_op q \<in> load_ops \<union> store_ops"
proof -
  let ?mem = "isa_fetch q AND 0x7f = 0x03 \<or> isa_fetch q AND 0x7f = 0x23" and ?reg = "isa_fetch q AND 0x7f = 0x33 \<or> isa_fetch q AND 0x7f = 0x3b"
  have e: "eu_of (isa_fetch q) = (if ?mem then 2 else if ?reg \<and> drop_bit 25 (isa_fetch q) = 1 then 1 else 0)" unfolding eu_of_def Let_def ..
  have "(if P then 2 else if Q then 1 else 0 :: nat) = 2 \<Longrightarrow> P" for P Q by (simp split: if_splits)
  then have ?mem using assms(2) unfolding e .
  then show ?thesis using op_class(1,2) [of "isa_fetch q"] assms(1) unfolding isa_op_def by blast
qed

lemma cdb_woken:
  assumes "masks_ok t1" and "rs_tab t1 = rs_tab t" and "phys t1 = phys t" and "0 \<le> p" and "nat p < length (phys t)" and "j < 16"
    and "rs_valid (rs_tab (cdb_broadcast p (set_phys p v t1)) ! j)"
  shows "rs_valid (rs_tab t ! j) \<and> woken ((phys t)[nat p := \<lparr>p_value = v, p_ready = True\<rparr>]) (rs_tab t ! j) (rs_tab (cdb_broadcast p (set_phys p v t1)) ! j)"
proof -
  let ?u = "set_phys p v t1"
  have m: "masks_ok ?u" using assms(1) masks_ok_eq [of ?u t1] by simp
  have r: "rs_tab ?u = rs_tab t" "phys ?u = (phys t)[nat p := \<lparr>p_value = v, p_ready = True\<rparr>]" using assms(2,3) by (simp_all add: set_phys_def)
  show ?thesis
    using cdb_tab [OF m assms(6), of p] assms(5,7) r wake_woken [of "phys ?u" p "rs_tab t ! j"] by (auto split: if_splits)
qed

lemma lsu_done_flow:
  assumes flow: "flow {} R c t" and run: "isa_run C N R" "c + 40 \<le> N" and l: "(2, l) \<in> unit_set t" and ok: "ooo_inv t'" "same_view t t'"
    and rob: "rob t' = (rob t)[l_rob_idx l := (rob t ! l_rob_idx l)\<lparr>rob_ir := ir, store_data := d, rob_ready := True\<rparr>]" and rp: "ren_part t' = ren_part t"
    and fr: "latch_id_rn t' = latch_id_rn t" "latch_if_id t' = latch_if_id t" "ooo_fetch_pc t' = ooo_fetch_pc t" and us: "unit_set t' \<subseteq> unit_set t"
    and ph: "phys t' = phys t \<or> 0 \<le> l_phys_rd l \<and> phys t' = (phys t)[nat (l_phys_rd l) := x]"
    and rs: "\<And>j. j < 16 \<Longrightarrow> rs_valid (rs_tab t' ! j) \<Longrightarrow> rs_valid (rs_tab t ! j) \<and> woken (phys t') (rs_tab t ! j) (rs_tab t' ! j)"
    and pc: "ir_pc ir = ir_pc (rob_ir (rob t ! l_rob_idx l))"
    and fin: "on_path R c t (rob_dist t (l_rob_idx l)) \<Longrightarrow> (let q = R (c + rob_dist t (l_rob_idx l)) in executed (isa_op q) (isa_fetch q) q ir \<and> ir_raw ir = isa_fetch q \<and> \<not> fault ir \<and>
      (isa_op q \<in> store_ops \<longrightarrow> d = i_regs q ! unat (ibits (isa_fetch q) 24 20)) \<and>
      (0 < isa_rd q \<longrightarrow> p_value (phys t' ! nat (l_phys_rd l)) = i_regs (isa_next q) ! nat (isa_rd q)))"
  shows "flow {} R c t'"
proof -
  let ?i = "l_rob_idx l" and ?k = "rob_dist t (l_rob_idx l)"
  let ?e' = "(rob t ! ?i)\<lparr>rob_ir := ir, store_data := d, rob_ready := True\<rparr>"
  have inv: "ooo_inv t" using flow by (simp add: flow_def)
  note te = token_entry [OF inv unit_token [OF l]] and tp = token_place [OF inv unit_token [OF l]]
  have ri: "rings_ok t" using ooo_invD [OF inv] by simp
  have h: "rob_head t' = rob_head t" "rob_count t' = rob_count t" "rrat t' = rrat t" using rp by (simp_all add: ren_part_def)
  have es: "in_flight t' = (in_flight t)[?k := ?e']" using in_flight_put [OF ri te(1,2) rob h(1,2)] .
  have fin': "entry_ok (R (c + ?k)) ?e' \<and> target_ok (R (c + Suc ?k)) (phys t') ?e'" and nx: "pcs t ! Suc ?k = i_pc (R (c + Suc ?k))" if on: "on_path R c t ?k"
  proof -
    note p = path_inst [OF flow run l on]
    have "entry_ok (R (c + ?k)) (in_flight t ! ?k)" using flow on tp(1) by (simp add: flow_def entries_ok_def)
    then have "arch_rd (rob t ! ?i) = isa_rd (R (c + ?k))" using tp(2) by (simp add: entry_ok_def)
    then show "entry_ok (R (c + ?k)) ?e' \<and> target_ok (R (c + Suc ?k)) (phys t') ?e'"
      using fin [OF on] te(4) p(7) by (auto simp: entry_ok_def finished_def target_ok_def Let_def)
    have eu: "eu_of (isa_fetch (R (c + ?k))) = 2" using p(1,2) by (simp add: unit_ok_def inst_ok_def)
    have "isa_op (R (c + ?k)) \<notin> control_ops"
    proof
      assume ctl: "isa_op (R (c + ?k)) \<in> control_ops"
      have "isa_op (R (c + ?k)) \<in> load_ops \<union> store_ops" using memory_op [OF p(4) eu] .
      then show False using ctl by (auto simp: control_ops_def load_ops_def store_ops_def)
    qed
    then show "pcs t ! Suc ?k = i_pc (R (c + Suc ?k))" using path_next [OF flow l on] sequential_op [OF p(4)] p(7) by (simp add: isa_next_def)
  qed
  have same: "arch_rd ?e' = arch_rd (in_flight t ! ?k)" "rob_phys_rd ?e' = rob_phys_rd (in_flight t ! ?k)" "ir_pc (rob_ir ?e') = ir_pc (rob_ir (in_flight t ! ?k))" "rob_ready ?e'"
    using tp(2) pc by simp_all
  show ?thesis
    using finish_flow(2) [OF flow ok run tp(1) es same(4,1-3) h(1,3) fr _ rs us fin' nx] ph te(4) by simp
qed

section \<open>A load keeps its entry until memory answers\<close>

definition reexecuted :: "isa_state \<Rightarrow> IR_Inst \<Rightarrow> IR_Inst \<Rightarrow> bool" where
  "reexecuted q ir ir' \<longleftrightarrow> inst_ok q ir' \<and> ir_raw ir' = ir_raw ir \<and> ir_rs1 ir' = ir_rs1 ir \<and> ir_rs2 ir' = ir_rs2 ir \<and>
     operand_value q (ir_rs1 ir) (src1_val ir') = operand_value q (ir_rs1 ir) (src1_val ir) \<and>
     operand_value q (ir_rs2 ir) (src2_val ir') = operand_value q (ir_rs2 ir) (src2_val ir) \<and>
     isa_op q \<in> load_ops \<and> executed (isa_op q) (isa_fetch q) q ir'"

lemma load_reexecuted:
  assumes "inst_ok q ir" and "latch_ok q ir l" and "user_ok (isa_op q) (isa_fetch q) q" and "isa_op q \<in> load_ops"
    and "ir_execute (with_sources l ir) cc m = Inr (ir', m')"
  shows "reexecuted q ir ir'"
proof -
  have x: "executed (isa_op q) (isa_fetch q) q ir'" using execute_on_path(1) [OF assms(1-3,5)] .
  have f: "exec_fn ir = isa_op q" using assms(1) by (simp add: inst_ok_def fmt_def)
  have ty: "op_type (isa_op q) = TYPE_I" using op_types(2) [OF assms(4)] .
  have "ir_pc ir' = ir_pc ir \<and> ir_snpc ir' = ir_snpc ir \<and> ir_raw ir' = ir_raw ir \<and> ir_rd ir' = ir_rd ir \<and> bp_predicted_pc ir' = bp_predicted_pc ir \<and> fault ir' = fault ir \<and>
      exec_fn ir' = exec_fn ir \<and> ir_rs1 ir' = ir_rs1 ir \<and> ir_rs2 ir' = ir_rs2 ir \<and> imm ir' = imm ir \<and> src1_val ir' = l_src1_val l \<and> src2_val ir' = l_src2_val l"
    using assms(4,5) f by (auto simp: load_ops_def ir_execute_def with_sources_def ir_exec_ld_def ir_exec_lw_def ir_exec_lh_def ir_exec_lb_def ir_exec_lwu_def ir_exec_lhu_def
      ir_exec_lbu_def Let_def)
  then show ?thesis using assms(1,2,4) x ty by (auto simp: reexecuted_def inst_ok_def fmt_def latch_ok_def operand_value_def)
qed

lemma rob_ir_flow:
  assumes flow: "flow {} R c t" and l: "(2, l) \<in> unit_set t" and pc: "ir_pc ir = ir_pc (rob_ir (rob t ! l_rob_idx l))"
    and re: "on_path R c t (rob_dist t (l_rob_idx l)) \<Longrightarrow> reexecuted (R (c + rob_dist t (l_rob_idx l))) (rob_ir (rob t ! l_rob_idx l)) ir"
  shows "flow {} R c (set_rob_ir (l_rob_idx l) ir t)"
proof -
  let ?i = "l_rob_idx l" and ?t = "set_rob_ir (l_rob_idx l) ir t" and ?k = "rob_dist t (l_rob_idx l)"
  let ?e = "(rob t ! ?i)\<lparr>rob_ir := ir\<rparr>"
  note fl = flow [unfolded flow_def]
  have inv: "ooo_inv t" using fl by simp
  note te = token_entry [OF inv unit_token [OF l]] and tp = token_place [OF inv unit_token [OF l]]
  have ri: "rings_ok t" using ooo_invD [OF inv] by simp
  have ok: "ooo_inv ?t" "same_view t ?t" using set_rob_ir_keeps [of t ?i ir] inv by (simp_all add: keeps_def)
  have d: "rob ?t = (rob t)[?i := ?e]" "rob_head ?t = rob_head t" "rob_count ?t = rob_count t" "rrat ?t = rrat t" "phys ?t = phys t" "rs_tab ?t = rs_tab t" "unit_set ?t = unit_set t"
      "latch_id_rn ?t = latch_id_rn t" "latch_if_id ?t = latch_if_id t" "ooo_fetch_pc ?t = ooo_fetch_pc t"
    by (simp_all add: set_rob_ir_def put_rob_def unit_set_def)
  have es: "in_flight ?t = (in_flight t)[?k := ?e]" using in_flight_put [OF ri te(1,2) d(1-3)] .
  have len: "length (in_flight ?t) = length (in_flight t)" "length (insts ?t) = length (insts t)" and fr: "front ?t = front t" using es d by (simp_all add: insts_def front_def)
  have "map ir_pc (map rob_ir (in_flight ?t)) = map ir_pc (map rob_ir (in_flight t))" using pc tp(1,2) by (simp add: es map_update list_update_same_conv)
  then have pcs: "pcs ?t = pcs t" using d fr by (simp add: pcs_def insts_def)
  note on = on_path_eq [OF pcs]
  have dist: "rob_dist ?t = rob_dist t" using d(2) by (simp add: rob_dist_def fun_eq_iff)
  have nth: "in_flight ?t ! j = (if j = ?k then ?e else in_flight t ! j)" if "j < length (in_flight t)" for j using that tp(1) by (simp add: es nth_list_update)
  have mp: "map_at ?t j = map_at t j" for j
  proof (rule map_at_eq [OF d(4)])
    have "map (\<lambda>e. (arch_rd e, rob_phys_rd e)) (in_flight ?t) = map (\<lambda>e. (arch_rd e, rob_phys_rd e)) (in_flight t)"
      using tp(1,2) by (simp add: es map_update list_update_same_conv)
    then show "map (\<lambda>e. (arch_rd e, rob_phys_rd e)) (take j (in_flight ?t)) = map (\<lambda>e. (arch_rd e, rob_phys_rd e)) (take j (in_flight t))" by (metis take_map)
  qed
  have base: "base_ok R c ?t" using fl ok(2) by (simp add: base_ok_def same_view_def)
  have ent: "entries_ok R c ?t"
    using fl tp re unfolding entries_ok_def on len by (auto simp: nth d(5) entry_ok_def target_ok_def reexecuted_def)
  have frn: "front_ok R c ?t"
  proof -
    have "insts ?t ! j = insts t ! j" if "length (in_flight t) \<le> j" for j using that by (simp add: insts_def nth_append len fr)
    then show ?thesis using fl unfolding front_ok_def on len by simp
  qed
  have st: "stations_ok R c ?t"
    unfolding stations_ok_def Let_def on dist d(6) mp
  proof (intro allI impI)
    fix j assume j: "j < 16" and v: "rs_valid (rs_tab t ! j) \<and> on_path R c t (rob_dist t (rs_rob_idx (rs_tab t ! j)))"
    let ?j = "rob_dist t (rs_rob_idx (rs_tab t ! j))"
    have "?j < length (in_flight t)" using token_place(1) [OF inv station_token [OF inv j]] v by simp
    moreover have "station_ok (R (c + ?j)) (map_at t ?j) (rob_ir (in_flight t ! ?j)) (rs_tab t ! j)" using fl j v by (simp add: stations_ok_def Let_def)
    ultimately show "station_ok (R (c + ?j)) (map_at t ?j) (rob_ir (in_flight ?t ! ?j)) (rs_tab t ! j)"
      using re tp(2) v by (auto simp: nth station_ok_def src_ok_def reexecuted_def)
  qed
  have un: "units_ok R c ?t"
    unfolding units_ok_def Let_def on dist d(7)
  proof (intro allI impI)
    fix eu l' assume m: "(eu, l') \<in> unit_set t" and p: "on_path R c t (rob_dist t (l_rob_idx l'))"
    let ?j = "rob_dist t (l_rob_idx l')"
    have j: "?j < length (in_flight t)" using token_place(1) [OF inv unit_token [OF m]] .
    have u: "unit_ok (R (c + ?j)) (take ?j (in_flight t)) (rob_ir (in_flight t ! ?j)) eu l'" using fl m p by (auto simp: units_ok_def Let_def)
    have "\<forall>x\<in>set (take ?j (in_flight ?t)). is_store_op (ir_raw (rob_ir x)) \<longrightarrow> rob_ready x"
      if s: "\<forall>x\<in>set (take ?j (in_flight t)). is_store_op (ir_raw (rob_ir x)) \<longrightarrow> rob_ready x"
    proof (cases "?k < ?j")
      case True
      then have "reexecuted (R (c + ?k)) (rob_ir (rob t ! ?i)) ir" using re on_path_mono [OF p] by simp
      moreover have "rob t ! ?i \<in> set (take ?j (in_flight t))" using True j tp(2) nth_mem [of ?k "take ?j (in_flight t)"] by simp
      ultimately have "is_store_op (ir_raw (rob_ir ?e)) \<longrightarrow> rob_ready ?e" using s by (simp add: reexecuted_def)
      then show ?thesis using s set_update_subset_insert [of "take ?j (in_flight t)" ?k ?e] unfolding es take_update_swap by blast
    qed (use s in \<open>simp add: es\<close>)
    then show "unit_ok (R (c + ?j)) (take ?j (in_flight ?t)) (rob_ir (in_flight ?t ! ?j)) eu l'"
      using u re p tp(2) j by (auto simp: nth unit_ok_def load_ok_def latch_ok_def reexecuted_def)
  qed
  have "links_ok {} R c ?t" using fl tp unfolding links_ok_def on len pcs by (auto simp: nth)
  moreover have "packed ?t" using fl d by (simp add: packed_def)
  ultimately show ?thesis using ok(1) base ent frn st un by (simp add: flow_def)
qed

section \<open>The unit\<close>

lemma free_lsu_frame [simp]:
  "rob (free_lsu s t) = rob t" "rs_tab (free_lsu s t) = rs_tab t" "latch_id_rn (free_lsu s t) = latch_id_rn t" "latch_if_id (free_lsu s t) = latch_if_id t"
  "ooo_fetch_pc (free_lsu s t) = ooo_fetch_pc t" "store_part (free_lsu s t) = store_part t"
  by (simp_all add: free_lsu_def put_lsu_def store_part_def)

lemma free_lsu_units: "unit_set (free_lsu s t) \<subseteq> unit_set t"
  using unit_put(3) [of s "(latch_lsu t ! s)\<lparr>l_valid := False\<rparr>" t] by (auto simp: free_lsu_def live_lsu_def)

definition rest_part :: "OOOState \<Rightarrow> PipeReg list \<times> PipeReg list \<times> vaddr_t \<times> OOOLatch list \<times> OOOLatch list \<times> OOOLatch list \<times> StoreBufEntry list \<times> nat \<times> nat \<times> int" where
  "rest_part t = (latch_id_rn t, latch_if_id t, ooo_fetch_pc t, latch_int t, latch_mul t, latch_lsu t, sbuf t, sbuf_head t, sbuf_tail t, sbuf_count t)"

lemma rest_partD:
  assumes "rest_part t' = rest_part t"
  shows "latch_id_rn t' = latch_id_rn t" "latch_if_id t' = latch_if_id t" "ooo_fetch_pc t' = ooo_fetch_pc t" "unit_set t' = unit_set t" "store_part t' = store_part t"
  using assms by (simp_all add: rest_part_def unit_set_def store_part_def)

lemma rest_part_frame: "frame_part t' = frame_part t \<Longrightarrow> rest_part t' = rest_part t"
  by (simp add: frame_part_def rest_part_def)

lemma rest_part_simps [simp]:
  "rest_part (set_phys p v t) = rest_part t" "rest_part (put_rob i e t) = rest_part t" "rest_part (set_rob_ir i ir t) = rest_part t" "rest_part (mark_ready i t) = rest_part t"
  "rest_part (cdb_broadcast p t) = rest_part t" "rest_part (release_mshr s mi t) = rest_part t" "rest_part (t\<lparr>unready_store_count := n\<rparr>) = rest_part t"
proof -
  show "rest_part (set_phys p v t) = rest_part t" "rest_part (put_rob i e t) = rest_part t" "rest_part (set_rob_ir i ir t) = rest_part t" "rest_part (mark_ready i t) = rest_part t"
      "rest_part (cdb_broadcast p t) = rest_part t"
    by (rule rest_part_frame, simp)+
  show "rest_part (release_mshr s mi t) = rest_part t" "rest_part (t\<lparr>unready_store_count := n\<rparr>) = rest_part t" by (simp_all add: rest_part_def release_mshr_def)
qed

lemma mem_access_in_ram:
  assumes "access_ok a n"
  shows "in_ram_range a" "a AND 0xffffffff = a" "a < 0xa0000000"
proof -
  have a: "ram_addr a" using assms by (simp add: access_ok_def)
  then have u: "unat a < 2 ^ 32" by (simp add: ram_addr_unat)
  show "in_ram_range a" using a by (simp add: ram_addr_def in_ram_range_def)
  show "a AND 0xffffffff = a" using and_32 [of a] u by simp
  show "a < 0xa0000000" using a by (auto simp: ram_addr_def intro: less_trans)
qed

lemma entry_again: "(e :: ROBEntry)\<lparr>rob_ir := ir, store_data := store_data e, rob_ready := True\<rparr> = e\<lparr>rob_ir := ir, rob_ready := True\<rparr>"
  by (cases e) simp

lemma lsu_fill_sim:
  assumes sim: "sim C R c m" and run: "isa_run C N R" "c + 40 \<le> N" "forward_ok N R" and s: "s < 2" and live: "live_lsu (latch_lsu (ooo m) ! s)"
    and ex: "on_path R c (ooo m) (rob_dist (ooo m) (l_rob_idx (latch_lsu (ooo m) ! s))) \<Longrightarrow>
      (let l = latch_lsu (ooo m) ! s; q = R (c + rob_dist (ooo m) (l_rob_idx l)) in isa_op q \<in> load_ops \<and> executed (isa_op q) (isa_fetch q) q (rob_ir (rob (ooo m) ! l_rob_idx l)))"
    and fill: "lsu_fill s m = Inr m'"
  shows "sim C R c m'"
proof -
  let ?t = "ooo m"
  let ?l = "latch_lsu ?t ! s"
  let ?i = "l_rob_idx ?l" and ?p = "l_phys_rd ?l" and ?k = "rob_dist (ooo m) (l_rob_idx ?l)"
  let ?ir = "rob_ir (rob ?t ! ?i)" and ?q = "R (c + rob_dist (ooo m) (l_rob_idx ?l))"
  let ?pa = "mem_addr ?ir AND 0xffffffff"
  have fl: "flow {} R c ?t" and mo: "memory_ok C R c m" and inv: "ooo_inv ?t" using sim by (simp_all add: sim_def flow_def)
  have kp: "ooo_inv (ooo m')" "same_view ?t (ooo m')" using lsu_fill_keeps [OF fill s live] inv by (simp_all add: eng_keeps_def)
  note le = live_entry [OF inv s live]
  have l: "(2, ?l) \<in> unit_set ?t" using unit_members(3) [of s ?t] le(4) s live by simp
  have len: "length (rob ?t) = 32" "length (phys ?t) = 64" and mk: "masks_ok ?t" using ooo_invD [OF inv] rob_ring_fields(1) [of ?t] by (simp_all add: shape_ok_def)
  have pr: "nat ?p < 64" "- 1 \<le> ?p" using target_uncommitted(4,5) [of ?t ?i 1] ooo_invD [OF inv] token_entry [OF inv unit_token [OF l]] by (simp_all add: nat_less_iff)
  have on: "isa_op ?q \<in> load_ops" "executed (isa_op ?q) (isa_fetch ?q) ?q ?ir" "in_ram_range ?pa" "inst_ok ?q ?ir" if p: "on_path R c ?t ?k"
  proof -
    note pi = path_inst [OF fl run(1,2) l p]
    show e: "isa_op ?q \<in> load_ops" "executed (isa_op ?q) (isa_fetch ?q) ?q ?ir" using ex [OF p] by (simp_all add: Let_def)
    have "access_ok (mem_addr ?ir) (mem_width ?ir)" using e pi(3) by (simp add: executed_def user_ok_def)
    then show "in_ram_range ?pa" using mem_access_in_ram by simp
    show "inst_ok ?q ?ir" by (rule pi(1))
  qed
  show ?thesis
  proof (cases "\<not> in_ram_range ?pa \<and> ?pa < 0xa0000000")
    case fault: True
    then have off: "\<not> on_path R c ?t ?k" using on(3) by blast
    define u where "u = set_rob_ir ?i (?ir\<lparr>fault := True, result := 0\<rparr>) ?t"
    define v where "v = (if ?p > 0 then cdb_broadcast ?p (set_phys ?p 0 u) else u)"
    have m': "m' = m\<lparr>ooo := free_lsu s (mark_ready ?i v)\<rparr>" using fill fault by (auto simp: lsu_fill_def u_def v_def with_ooo_def Let_def)
    have u: "masks_ok u" "rs_tab u = rs_tab ?t" "phys u = phys ?t" "rob u = (rob ?t)[?i := (rob ?t ! ?i)\<lparr>rob_ir := ?ir\<lparr>fault := True, result := 0\<rparr>\<rparr>]" "rest_part u = rest_part ?t" "ren_part u = ren_part ?t"
      using mask_keep [of u ?t] mk by (simp_all add: u_def) (simp_all add: set_rob_ir_def put_rob_def)
    have v: "rest_part v = rest_part ?t" "ren_part v = ren_part ?t" "rob v = rob u"
      using u(5,6) by (auto simp: v_def) (simp add: set_phys_def)
    have r: "rest_part (mark_ready ?i v) = rest_part ?t" using v(1) by simp
    have rob: "rob (ooo m') = (rob ?t)[?i := (rob ?t ! ?i)\<lparr>rob_ir := ?ir\<lparr>fault := True, result := 0\<rparr>, store_data := store_data (rob ?t ! ?i), rob_ready := True\<rparr>]"
      using m' v(3) u(4) le(3) len by (simp add: mark_ready_def put_rob_def entry_again)
    have ph: "phys (ooo m') = phys ?t \<or> 0 \<le> ?p \<and> phys (ooo m') = (phys ?t)[nat ?p := \<lparr>p_value = 0, p_ready = True\<rparr>]" using m' u(3) by (simp add: v_def)
    have rs: "rs_valid (rs_tab ?t ! j) \<and> woken (phys (ooo m')) (rs_tab ?t ! j) (rs_tab (ooo m') ! j)" if "j < 16" "rs_valid (rs_tab (ooo m') ! j)" for j
    proof (cases "?p > 0")
      case True
      then show ?thesis using cdb_woken [OF u(1-3), of ?p j 0] pr len that m' u(3) by (simp add: v_def mark_ready_def put_rob_def)
    next
      case False
      then show ?thesis using that m' u(2) by (simp add: v_def mark_ready_def put_rob_def)
    qed
    have "flow {} R c (ooo m')"
      by (rule lsu_done_flow [OF fl run(1,2) l kp rob _ _ _ _ _ ph rs]) (use m' v rest_partD [OF r] free_lsu_units [of s "mark_ready ?i v"] off in auto)
    then show ?thesis using sim_step [OF sim, of m'] m' rest_partD(5) [OF r] mem_eq_kept [of m m'] by (simp add: mode_part_def mem_eq_def)
  next
    case False
    let ?val = "\<lambda>raw n. stlf_rob (ooo n) ?i ?ir (stlf_sbuf (ooo n) ?ir (extend_load (mem_sign ?ir) (mem_width ?ir) raw))"
    have "bind_res (vaddr_fill_and_read (mem_addr ?ir) (mem_width ?ir) m) (\<lambda>(raw, n). bind_res (guard (0 \<le> ?p) Out_of_bounds) (\<lambda>_.
        Inr (with_ooo (\<lambda>t. free_lsu s (mark_ready ?i (set_rob_ir ?i (?ir\<lparr>result := ?val raw n\<rparr>) (cdb_broadcast ?p (set_phys ?p (?val raw n)
          (if l_mshr_idx ?l \<ge> 0 then release_mshr s (l_mshr_idx ?l) t else t)))))) n))) = Inr m'"
      using fill False unfolding lsu_fill_def Let_def by (simp only: if_False)
    then obtain raw n where n: "vaddr_fill_and_read (mem_addr ?ir) (mem_width ?ir) m = Inr (raw, n)" and p: "0 \<le> ?p"
      and m': "m' = with_ooo (\<lambda>t. free_lsu s (mark_ready ?i (set_rob_ir ?i (?ir\<lparr>result := ?val raw n\<rparr>) (cdb_broadcast ?p (set_phys ?p (?val raw n)
          (if l_mshr_idx ?l \<ge> 0 then release_mshr s (l_mshr_idx ?l) t else t)))))) n"
      by (elim bind_res_eq_InrE) (auto simp: guard_eq_Inr elim!: bind_res_eq_InrE)
    define r where "r = ?val raw n"
    have on': "ooo n = ?t" and md: "mode_part n = mode_part m" using eng_frame_fields(1) [OF io_eng [OF vaddr_fill_frame [OF n]]] eng_mode [OF io_eng [OF vaddr_fill_frame [OF n]]] by simp_all
    define u where "u = (if l_mshr_idx ?l \<ge> 0 then release_mshr s (l_mshr_idx ?l) ?t else ?t)"
    have u: "masks_ok u" "rs_tab u = rs_tab ?t" "phys u = phys ?t" "rob u = rob ?t" "rest_part u = rest_part ?t" "ren_part u = ren_part ?t"
      using mask_keep [of u ?t] mk by (simp_all add: u_def) (simp_all add: release_mshr_def)
    define v where "v = set_rob_ir ?i (?ir\<lparr>result := r\<rparr>) (cdb_broadcast ?p (set_phys ?p r u))"
    have o': "ooo m' = free_lsu s (mark_ready ?i v)" using m' on' by (simp add: v_def u_def r_def)
    have v: "rest_part (mark_ready ?i v) = rest_part ?t" "ren_part v = ren_part ?t" "phys v = (phys ?t)[nat ?p := \<lparr>p_value = r, p_ready = True\<rparr>]"
      "rob v = (rob ?t)[?i := (rob ?t ! ?i)\<lparr>rob_ir := ?ir\<lparr>result := r\<rparr>\<rparr>]"
      using u by (simp_all add: v_def) (simp add: set_rob_ir_def put_rob_def set_phys_def)
    have rob: "rob (ooo m') = (rob ?t)[?i := (rob ?t ! ?i)\<lparr>rob_ir := ?ir\<lparr>result := r\<rparr>, store_data := store_data (rob ?t ! ?i), rob_ready := True\<rparr>]"
      using o' v(4) le(3) len by (simp add: mark_ready_def put_rob_def entry_again)
    have ph: "phys (ooo m') = phys ?t \<or> 0 \<le> ?p \<and> phys (ooo m') = (phys ?t)[nat ?p := \<lparr>p_value = r, p_ready = True\<rparr>]" using o' p v(3) by simp
    have rs: "rs_valid (rs_tab ?t ! j) \<and> woken (phys (ooo m')) (rs_tab ?t ! j) (rs_tab (ooo m') ! j)" if "j < 16" "rs_valid (rs_tab (ooo m') ! j)" for j
      using cdb_woken [OF u(1-3) p, of j r] pr len that o' v(3) by (simp add: v_def mark_ready_def put_rob_def set_rob_ir_def)
    have fin: "executed (isa_op ?q) (isa_fetch ?q) ?q (?ir\<lparr>result := r\<rparr>) \<and> ir_raw ?ir = isa_fetch ?q \<and> \<not> fault ?ir \<and> isa_op ?q \<notin> store_ops \<and>
        (0 < isa_rd ?q \<longrightarrow> r = i_regs (isa_next ?q) ! nat (isa_rd ?q))" if a: "on_path R c ?t ?k"
    proof -
      note o = on [OF a]
      have "isa_op ?q \<notin> store_ops" using o(1) by (auto simp: load_ops_def store_ops_def)
      moreover have "0 < isa_rd ?q \<longrightarrow> r = i_regs (isa_next ?q) ! nat (isa_rd ?q)" using load_value [OF sim run l a o(2,1) n] on' by (simp add: r_def)
      ultimately show ?thesis using o by (simp add: executed_def inst_ok_def fmt_def)
    qed
    have "flow {} R c (ooo m')"
      by (rule lsu_done_flow [OF fl run(1,2) l kp rob _ _ _ _ _ ph rs]) (use o' v rest_partD [OF v(1)] free_lsu_units [of s "mark_ready ?i v"] fin pr len in \<open>auto simp: Let_def\<close>)
    moreover have "mem_kept (blk ` C) m m'"
    proof (rule mem_kept_trans)
      show "mem_kept (blk ` C) m n" using vaddr_read_any(1) n by (simp add: fill_read)
      show "mem_kept (blk ` C) n m'" unfolding m' by (rule mem_eq_kept) simp
    qed
    moreover have "mode_part m' = mode_part m" unfolding m' using md by simp
    ultimately show ?thesis using sim_step [OF sim, of m'] o' rest_partD(5) [OF v(1)] by simp
  qed
qed

lemma lsu_latch_flow:
  assumes "flow {} R c t" and "s < 2" and "live_lsu (latch_lsu t ! s)" and "ooo_inv t'" and "flow_part t' = flow_part t" and "unit_set t' \<subseteq> {(2, l) | x :: unit. live_lsu l} \<union> unit_set t"
    and "l_rob_idx l = l_rob_idx (latch_lsu t ! s)" and "l_src1_val l = l_src1_val (latch_lsu t ! s)" and "l_src2_val l = l_src2_val (latch_lsu t ! s)"
    and "on_path R c t (rob_dist t (l_rob_idx l)) \<Longrightarrow> (let q = R (c + rob_dist t (l_rob_idx l)) in
      isa_op q \<in> load_ops \<and> executed (isa_op q) (isa_fetch q) q (rob_ir (rob t ! l_rob_idx l)))"
  shows "flow {} R c t'"
proof (rule flow_units [OF assms(1,4,5)])
  note e = flow_part_eq [OF assms(5)] and o = on_path_eq [OF flow_part_eq(3) [OF assms(5)]]
  have inv: "ooo_inv t" using assms(1) by (simp add: flow_def)
  have m: "(2, latch_lsu t ! s) \<in> unit_set t" using unit_members(3) [of s t] live_entry(4) [OF inv assms(2,3)] assms(2,3) by simp
  note tp = token_place(2) [OF inv unit_token [OF m]]
  have old: "unit_ok (R (c + rob_dist t (l_rob_idx l))) (take (rob_dist t (l_rob_idx l)) (in_flight t)) (rob_ir (in_flight t ! rob_dist t (l_rob_idx l))) eu l"
    if "(eu, l) \<in> unit_set t" "on_path R c t (rob_dist t (l_rob_idx l))" for eu l
    using assms(1) that by (auto simp: flow_def units_ok_def Let_def)
  show "units_ok R c t'"
    unfolding units_ok_def Let_def e o
  proof (intro allI impI)
    fix eu l' assume u: "(eu, l') \<in> unit_set t'" and p: "on_path R c t (rob_dist t (l_rob_idx l'))"
    show "unit_ok (R (c + rob_dist t (l_rob_idx l'))) (take (rob_dist t (l_rob_idx l')) (in_flight t)) (rob_ir (in_flight t ! rob_dist t (l_rob_idx l'))) eu l'"
    proof (cases "(eu, l') \<in> unit_set t")
      case True
      then show ?thesis by (rule old [OF _ p])
    next
      case False
      then have l': "eu = 2" "l' = l" using u assms(6) by auto
      then show ?thesis using old [OF m] assms(7-10) p tp by (simp add: unit_ok_def latch_ok_def load_ok_def Let_def)
    qed
  qed
qed

lemma mshr_alloc_frame: "flow_part (snd (mshr_find_or_alloc a n t)) = flow_part t" "unit_set (snd (mshr_find_or_alloc a n t)) = unit_set t" "store_part (snd (mshr_find_or_alloc a n t)) = store_part t"
    "latch_lsu (snd (mshr_find_or_alloc a n t)) = latch_lsu t"
  by (simp_all add: mshr_find_or_alloc_def flow_part_def unit_set_def store_part_def split: option.split)

lemma put_lsu_frame [simp]: "flow_part (put_lsu s l t) = flow_part t" "store_part (put_lsu s l t) = store_part t"
  by (simp_all add: put_lsu_def flow_part_def store_part_def)

lemma store_first_sim:
  fixes k :: int
  assumes sim: "sim C R c m" and run: "isa_run C N R" "c + 40 \<le> N" and s: "s < 2" and live: "live_lsu (latch_lsu (ooo m) ! s)"
    and ex: "ir_execute (with_sources (latch_lsu (ooo m) ! s) (rob_ir (rob (ooo m) ! l_rob_idx (latch_lsu (ooo m) ! s)))) (cpu m) m = Inr (ir, n)" and st: "ir_type ir = ITYPE_STORE"
  defines "i \<equiv> l_rob_idx (latch_lsu (ooo m) ! s)"
  defines "t \<equiv> set_rob_ir i ir (ooo m)"
  defines "t' \<equiv> free_lsu s ((put_rob i ((rob t ! i)\<lparr>store_data := src2_val ir, rob_ready := True\<rparr>) t)\<lparr>unready_store_count := k\<rparr>)"
  shows "flow {} R c t'" "store_part t' = store_part (ooo m)"
proof -
  let ?l = "latch_lsu (ooo m) ! s" and ?u = "(put_rob i ((rob t ! i)\<lparr>store_data := src2_val ir, rob_ready := True\<rparr>) t)\<lparr>unready_store_count := k\<rparr>"
  have fl: "flow {} R c (ooo m)" and inv: "ooo_inv (ooo m)" using sim by (simp_all add: sim_def flow_def)
  note le = live_entry [OF inv s live, folded i_def]
  have l: "(2, ?l) \<in> unit_set (ooo m)" using unit_members(3) [of s "ooo m"] le(4) s live by simp
  have len: "length (rob (ooo m)) = 32" using ooo_invD [OF inv] rob_ring_fields(1) [of "ooo m"] by simp
  have "keeps (ooo m) t" using set_rob_ir_keeps by (simp add: t_def)
  moreover have "latch_lsu t = latch_lsu (ooo m)" by (simp add: t_def)
  moreover have "ooo_inv t" using inv \<open>keeps (ooo m) t\<close> by (simp add: keeps_def)
  ultimately have kp: "ooo_inv t'" "same_view (ooo m) t'" using store_done [of t s i] s live inv same_view_trans by (auto simp: keeps_def t'_def i_def)
  have r: "rest_part ?u = rest_part (ooo m)" by (simp add: t_def)
  show "store_part t' = store_part (ooo m)" using rest_partD(5) [OF r] by (simp add: t'_def)
  have rob: "rob t' = (rob (ooo m))[l_rob_idx ?l := (rob (ooo m) ! l_rob_idx ?l)\<lparr>rob_ir := ir, store_data := src2_val ir, rob_ready := True\<rparr>]"
    using le(3) len by (simp add: t'_def t_def put_rob_def set_rob_ir_def i_def)
  have rs: "rs_tab t' = rs_tab (ooo m)" "phys t' = phys (ooo m)" by (simp_all add: t'_def t_def) (simp_all add: put_rob_def set_rob_ir_def)
  have rp: "ren_part t' = ren_part (ooo m)" using put_rob_same(1) [of "(rob t ! i)\<lparr>store_data := src2_val ir, rob_ready := True\<rparr>" t i] by (simp add: t'_def slot_of_def) (simp add: t_def)
  have fin: "let q = R (c + rob_dist (ooo m) (l_rob_idx ?l)) in executed (isa_op q) (isa_fetch q) q ir \<and> ir_raw ir = isa_fetch q \<and> \<not> fault ir \<and>
      (isa_op q \<in> store_ops \<longrightarrow> src2_val ir = i_regs q ! unat (ibits (isa_fetch q) 24 20)) \<and>
      (0 < isa_rd q \<longrightarrow> p_value (phys t' ! nat (l_phys_rd ?l)) = i_regs (isa_next q) ! nat (isa_rd q))" if p: "on_path R c (ooo m) (rob_dist (ooo m) (l_rob_idx ?l))"
  proof -
    let ?q = "R (c + rob_dist (ooo m) (l_rob_idx ?l))"
    note pi = path_inst [OF fl run l p]
    have lo: "latch_ok ?q (rob_ir (rob (ooo m) ! l_rob_idx ?l)) ?l" and eu: "eu_of (isa_fetch ?q) = 2" using pi(1,2) by (simp_all add: unit_ok_def inst_ok_def)
    note x = execute_on_path(1,2) [OF pi(1) lo pi(3) ex]
    have so: "isa_op ?q \<in> store_ops" "isa_op ?q \<notin> load_ops" using memory_op [OF pi(4) eu] x(1) st by (auto simp: executed_def split: if_splits)
    then have "isa_rd ?q = -1" using op_types(3) [of "isa_op ?q"] by (simp add: isa_rd_def)
    then show ?thesis using x so pi(1) by (auto simp: executed_def same_inst_def inst_ok_def fmt_def)
  qed
  have pc: "ir_pc ir = ir_pc (rob_ir (rob (ooo m) ! l_rob_idx ?l))" using ir_execute_pc [OF ex] by (simp add: with_sources_def)
  show "flow {} R c t'"
    by (rule lsu_done_flow [OF fl run l kp rob]) (use rs rp rest_partD [OF r] free_lsu_units [of s ?u] pc fin in \<open>auto simp: t'_def\<close>)
qed

lemma lsu_first_sim:
  assumes sim: "sim C R c m" and run: "isa_run C N R" "c + 40 \<le> N" "forward_ok N R" and s: "s < 2" and live: "live_lsu (latch_lsu (ooo m) ! s)" and first: "lsu_first s m = Inr m'"
  shows "sim C R c m'"
proof -
  let ?l = "latch_lsu (ooo m) ! s"
  let ?i = "l_rob_idx ?l" and ?k = "rob_dist (ooo m) (l_rob_idx ?l)"
  have fl: "flow {} R c (ooo m)" and inv: "ooo_inv (ooo m)" using sim by (simp_all add: sim_def flow_def)
  note le = live_entry [OF inv s live]
  have l: "(2, ?l) \<in> unit_set (ooo m)" using unit_members(3) [of s "ooo m"] le(4) s live by simp
  have len: "length (rob (ooo m)) = 32" using ooo_invD [OF inv] rob_ring_fields(1) [of "ooo m"] by simp
  obtain ir n where n: "ir_execute (with_sources ?l (rob_ir (rob (ooo m) ! ?i))) (cpu m) m = Inr (ir, n)"
    and m': "(let m = with_ooo (set_rob_ir ?i ir) n in
     if ir_type ir = ITYPE_STORE then
       Inr (with_ooo (\<lambda>t. free_lsu s ((put_rob ?i ((rob t ! ?i)\<lparr>store_data := src2_val ir, rob_ready := True\<rparr>) t)
         \<lparr>unready_store_count := unready_store_count t - 1\<rparr>)) m)
     else if mem_addr ir \<ge> 0xa0000000 then
       if ?i \<noteq> rob_head (ooo m) then Inr (with_ooo (put_lsu s (?l\<lparr>l_cycles_rem := -2\<rparr>)) m) else lsu_fill s m
     else
       bind_res (vaddr_probe_level (mem_addr ir) m) (\<lambda>(level, m).
       let lat = level_to_lat level in
       if lat = 1 then lsu_fill s m
       else
         let (mi, t) = mshr_find_or_alloc (mem_addr ir AND NOT 63) lat (ooo m); m = m\<lparr>ooo := t\<rparr> in
         Inr (if mi = -1 then m else with_ooo (put_lsu s (?l\<lparr>l_mshr_idx := mi, l_cycles_rem := 0\<rparr>)) m))) = Inr m'"
    using first unfolding lsu_first_def Let_def by auto
  define q where "q = with_ooo (set_rob_ir ?i ir) n"
  note e = ir_execute_eng [OF n]
  have on: "ooo n = ooo m" "mode_part n = mode_part m" "mem_eq m n" using eng_frame_fields(1) [OF e] eng_mode [OF e] ir_execute_mem_eq [OF n] by simp_all
  have oq: "ooo q = set_rob_ir ?i ir (ooo m)" "mem_eq m q" "mode_part q = mode_part m" using on mem_eq_trans [OF on(3)] by (simp_all add: q_def)
  show ?thesis
  proof (cases "ir_type ir = ITYPE_STORE")
    case True
    then have m': "m' = with_ooo (\<lambda>t. free_lsu s ((put_rob ?i ((rob t ! ?i)\<lparr>store_data := src2_val ir, rob_ready := True\<rparr>) t)
         \<lparr>unready_store_count := unready_store_count t - 1\<rparr>)) q"
      using m' unfolding q_def [symmetric] Let_def by simp
    note sf = store_first_sim [OF sim run(1,2) s live n True, of "unready_store_count (ooo q) - 1"]
    show ?thesis
    proof (rule sim_step [OF sim])
      show "flow {} R c (ooo m')" "store_part (ooo m') = store_part (ooo m)" using sf oq(1) m' by simp_all
      show "mem_kept (blk ` C) m m'" using mem_eq_kept mem_eq_trans [OF oq(2)] m' by simp
      show "mode_part m' = mode_part m" using m' oq(3) by simp
    qed
  next
    case load: False
    have pc: "ir_pc ir = ir_pc (rob_ir (rob (ooo m) ! ?i))" using ir_execute_pc [OF n] by (simp add: with_sources_def)
    have re: "reexecuted (R (c + ?k)) (rob_ir (rob (ooo m) ! ?i)) ir" and ad: "mem_addr ir < 0xa0000000" if p: "on_path R c (ooo m) ?k"
    proof -
      note pi = path_inst [OF fl run(1,2) l p]
      have lo: "latch_ok (R (c + ?k)) (rob_ir (rob (ooo m) ! ?i)) ?l" and eu: "eu_of (isa_fetch (R (c + ?k))) = 2" using pi(1,2) by (simp_all add: unit_ok_def inst_ok_def)
      note x = execute_on_path(1) [OF pi(1) lo pi(3) n]
      have ld: "isa_op (R (c + ?k)) \<in> load_ops" using memory_op [OF pi(4) eu] x load by (auto simp: executed_def split: if_splits)
      show "reexecuted (R (c + ?k)) (rob_ir (rob (ooo m) ! ?i)) ir" using load_reexecuted [OF pi(1) lo pi(3) ld n] .
      have "access_ok (mem_addr ir) (mem_width ir)" using x ld pi(3) by (simp add: executed_def user_ok_def)
      then show "mem_addr ir < 0xa0000000" by (rule mem_access_in_ram(3))
    qed
    have fq: "flow {} R c (ooo q)" unfolding oq(1) by (rule rob_ir_flow [OF fl l pc re])
    have st: "store_part (ooo q) = store_part (ooo m)" by (simp add: oq(1) set_rob_ir_def put_rob_def store_part_def)
    have sq: "sim C R c q" by (rule sim_step [OF sim fq mem_eq_kept [OF oq(2)] st oq(3)])
    have same: "latch_lsu (ooo q) = latch_lsu (ooo m)" "pcs (ooo q) = pcs (ooo m)" "rob_dist (ooo q) = rob_dist (ooo m)" "rob_ir (rob (ooo q) ! ?i) = ir"
    proof -
      have ri: "rings_ok (ooo m)" using ooo_invD [OF inv] by simp
      have "in_flight (ooo q) = (in_flight (ooo m))[?k := (rob (ooo m) ! ?i)\<lparr>rob_ir := ir\<rparr>]"
        by (rule in_flight_put [OF ri le(3,2)]) (simp_all add: oq(1) set_rob_ir_def put_rob_def)
      moreover note in_flight_nth [OF ri le(3,2)]
      ultimately have "map ir_pc (map rob_ir (in_flight (ooo q))) = map ir_pc (map rob_ir (in_flight (ooo m)))" using pc by (simp add: map_update list_update_same_conv)
      then show "pcs (ooo q) = pcs (ooo m)" by (simp add: pcs_def insts_def front_def) (simp add: oq(1) set_rob_ir_def put_rob_def)
      show "latch_lsu (ooo q) = latch_lsu (ooo m)" "rob_dist (ooo q) = rob_dist (ooo m)" "rob_ir (rob (ooo q) ! ?i) = ir"
        using le(3) len by (simp_all add: oq(1) set_rob_ir_def put_rob_def rob_dist_def fun_eq_iff)
    qed
    have onq: "on_path R c (ooo q) = on_path R c (ooo m)" using on_path_eq [OF same(2)] .
    have ex: "let q' = R (c + ?k) in isa_op q' \<in> load_ops \<and> executed (isa_op q') (isa_fetch q') q' ir" if "on_path R c (ooo m) ?k" using re [OF that] by (simp add: reexecuted_def Let_def)
    have fill: "sim C R c m'" if "lsu_fill s r = Inr m'" "sim C R c r" "ooo r = ooo q" for r
      using lsu_fill_sim [OF that(2) run s _ _ that(1)] live ex by (simp add: that(3) same onq Let_def)
    have wait: "sim C R c (r\<lparr>ooo := put_lsu s l t\<rparr>)"
      if r: "sim C R c r" "ooo r = ooo q" and t: "flow_part t = flow_part (ooo q)" "unit_set t = unit_set (ooo q)" "store_part t = store_part (ooo q)" "ooo_inv t" "latch_lsu t = latch_lsu (ooo q)"
        and l: "l_rob_idx l = ?i" "l_src1_val l = l_src1_val ?l" "l_src2_val l = l_src2_val ?l" "live_lsu l = live_lsu ?l" "l_phys_rd l = l_phys_rd ?l" for r t l
    proof -
      have "keeps t (put_lsu s l t)" using lsu_wait_keeps [of l t s] l t(5) s same(1) by (simp add: latch_token_def)
      then have iv: "ooo_inv (put_lsu s l t)" using t(4) by (simp add: keeps_def)
      have "flow {} R c (put_lsu s l t)"
        by (rule lsu_latch_flow [OF fq s _ iv, of l]) (use live same onq ex l t unit_put(3) [of s l t] in auto)
      then show ?thesis using sim_step [OF r(1), of "r\<lparr>ooo := put_lsu s l t\<rparr>"] t(3) r(2) mem_eq_kept [of r] by (simp add: mode_part_def mem_eq_def)
    qed
    have inq: "ooo_inv (ooo q)" using fq by (simp add: flow_def)
    show ?thesis
    proof (cases "mem_addr ir \<ge> 0xa0000000")
      case True
      have "m' = with_ooo (put_lsu s (?l\<lparr>l_cycles_rem := -2\<rparr>)) q \<or> lsu_fill s q = Inr m'"
        using m' load True unfolding q_def [symmetric] Let_def by (simp split: if_splits)
      moreover have "sim C R c (with_ooo (put_lsu s (?l\<lparr>l_cycles_rem := -2\<rparr>)) q)" unfolding with_ooo_def by (rule wait [OF sq refl]) (simp_all add: inq live_lsu_def)
      ultimately show ?thesis using fill sq by auto
    next
      case False
      then have p: "bind_res (vaddr_probe_level (mem_addr ir) q) (\<lambda>(level, m).
         let lat = level_to_lat level in
         if lat = 1 then lsu_fill s m
         else
           let (mi, t) = mshr_find_or_alloc (mem_addr ir AND NOT 63) lat (ooo m); m = m\<lparr>ooo := t\<rparr> in
           Inr (if mi = -1 then m else with_ooo (put_lsu s (?l\<lparr>l_mshr_idx := mi, l_cycles_rem := 0\<rparr>)) m)) = Inr m'"
        using m' load unfolding q_def [symmetric] by (simp only: Let_def if_False)
      then obtain v r where r: "vaddr_probe_level (mem_addr ir) q = Inr (v, r)" by (cases "vaddr_probe_level (mem_addr ir) q") auto
      let ?a = "mem_addr ir AND NOT 63" and ?n = "level_to_lat v"
      obtain mi t where t: "mshr_find_or_alloc ?a ?n (ooo r) = (mi, t)" by (cases "mshr_find_or_alloc ?a ?n (ooo r)")
      note er = io_eng [OF vaddr_probe_frame [OF r]]
      have or: "ooo r = ooo q" "mode_part r = mode_part q" using eng_frame_fields(1) [OF er] eng_mode [OF er] by simp_all
      have sr: "sim C R c r" by (rule sim_step [OF sq _ vaddr_probe_any [OF r]]) (simp_all add: or fq)
      have tt: "flow_part t = flow_part (ooo q)" "unit_set t = unit_set (ooo q)" "store_part t = store_part (ooo q)" "ooo_inv t" "latch_lsu t = latch_lsu (ooo q)"
        using mshr_alloc_frame [of ?a ?n "ooo q"] mshr_keeps(2) [of "ooo q" ?a ?n] inq t or by (simp_all add: keeps_def)
      show ?thesis
      proof (cases "?n = 1")
        case True
        then show ?thesis using fill [OF _ sr or(1)] p r by simp
      next
        case False
        then have m': "m' = (if mi = -1 then r\<lparr>ooo := t\<rparr> else r\<lparr>ooo := put_lsu s (?l\<lparr>l_mshr_idx := mi, l_cycles_rem := 0\<rparr>) t\<rparr>)"
          using p r t by (auto simp: Let_def with_ooo_def)
        have "sim C R c (r\<lparr>ooo := put_lsu s (?l\<lparr>l_mshr_idx := mi, l_cycles_rem := 0\<rparr>) t\<rparr>)" by (rule wait [OF sr or(1) tt]) (simp_all add: live_lsu_def)
        moreover have "flow {} R c t" by (rule flow_latch [OF fq tt(4,1)]) (simp add: tt(2))
        then have "sim C R c (r\<lparr>ooo := t\<rparr>)" using sim_step [OF sr, of "r\<lparr>ooo := t\<rparr>"] tt(3) or(1) mem_eq_kept [of r] by (simp add: mode_part_def mem_eq_def)
        ultimately show ?thesis using m' by simp
      qed
    qed
  qed
qed

text \<open>A slot whose instruction was squashed only gives its registers back.\<close>

lemma sim_same_flow:
  assumes "sim C R c m" and "mem_kept (blk ` C) m m'" and "mode_part m' = mode_part m" and "ooo_inv (ooo m')" and "flow_part (ooo m') = flow_part (ooo m)"
    and "unit_set (ooo m') \<subseteq> unit_set (ooo m)" and "store_part (ooo m') = store_part (ooo m)"
  shows "sim C R c m'"
proof -
  have "flow {} R c (ooo m)" using assms(1) by (simp add: sim_def)
  then have "flow {} R c (ooo m')" using flow_latch [OF _ assms(4,5)] assms(6) by blast
  then show ?thesis using sim_step [OF assms(1) _ assms(2,7,3)] by simp
qed

lemma mshr_frame [simp]:
  "flow_part (release_mshr s mi t) = flow_part t" "unit_set (release_mshr s mi t) = unit_set t" "store_part (release_mshr s mi t) = store_part t"
  "flow_part (mshr_tick t) = flow_part t" "unit_set (mshr_tick t) = unit_set t" "store_part (mshr_tick t) = store_part t" "flow_part (free_lsu s t) = flow_part t"
  by (simp_all add: release_mshr_def mshr_tick_def flow_part_def unit_set_def store_part_def free_lsu_def put_lsu_def)

lemma lsu_flushed_sim:
  assumes sim: "sim C R c m" and s: "s < 2" and dead: "\<not> live_lsu (latch_lsu (ooo m) ! s)" and fl: "lsu_flushed s m = Inr m'"
  shows "sim C R c m'"
proof -
  have iv: "ooo_inv (ooo m')" using lsu_flushed_keeps [OF fl s dead] sim by (simp add: eng_keeps_def sim_def flow_def)
  consider "m' = m" | "m' = with_ooo (free_lsu s) m" | a b n mi where "vaddr_fill_and_read a 8 m = Inr (b, n)" "m' = with_ooo (\<lambda>t. free_lsu s (release_mshr s mi t)) n"
    using fl unfolding lsu_flushed_def Let_def by (auto split: if_splits)
  then show ?thesis
  proof cases
    case 2
    then show ?thesis using sim_same_flow [OF sim _ _ iv] mem_eq_kept [of m m'] free_lsu_units [of s "ooo m"] by simp
  next
    case (3 a b n mi)
    note e = io_eng [OF vaddr_fill_frame [OF 3(1)]]
    have n: "ooo n = ooo m" "mode_part n = mode_part m" using eng_frame_fields(1) [OF e] eng_mode [OF e] by simp_all
    have "mem_kept (blk ` C) m n" using vaddr_read_any(1) 3(1) by (simp add: fill_read)
    also have "mem_kept (blk ` C) n m'" unfolding 3(2) by (rule mem_eq_kept) simp
    finally have "mem_kept (blk ` C) m m'" .
    then show ?thesis using sim_same_flow [OF sim _ _ iv] 3(2) n free_lsu_units [of s "release_mshr s mi (ooo m)"] by simp
  qed (use sim in simp)
qed

lemma lsu_slot_sim:
  assumes sim: "sim C R c m" and run: "isa_run C N R" "c + 40 \<le> N" "forward_ok N R" and s: "s < 2" and slot: "lsu_slot s m = Inr m'"
  shows "sim C R c m'"
proof -
  let ?l = "latch_lsu (ooo m) ! s"
  have fl: "flow {} R c (ooo m)" and inv: "ooo_inv (ooo m)" using sim by (simp_all add: sim_def flow_def)
  show ?thesis
  proof (cases "live_lsu ?l")
    case live: True
    note le = live_entry [OF inv s live]
    have l: "(2, ?l) \<in> unit_set (ooo m)" using unit_members(3) [of s "ooo m"] le(4) s live by simp
    have v: "rob_valid (rob (ooo m) ! l_rob_idx ?l)" "l_valid ?l" "\<not> l_flushed ?l" using le(2) live by (simp_all add: live_lsu_def)
    have "m' = m \<or> lsu_first s m = Inr m' \<or> lsu_fill s m = Inr m'" using slot v unfolding lsu_slot_def Let_def by (auto split: if_splits)
    moreover have "lsu_first s m = Inr m'" if "l_mshr_idx ?l = -1" "l_cycles_rem ?l = -1" using slot v that unfolding lsu_slot_def Let_def by simp
    ultimately consider "m' = m" | "lsu_first s m = Inr m'" | "lsu_fill s m = Inr m'" "l_mshr_idx ?l \<noteq> -1 \<or> l_cycles_rem ?l \<noteq> -1" by blast
    then show ?thesis
    proof cases
      case 3
      have "let q = R (c + rob_dist (ooo m) (l_rob_idx ?l)) in isa_op q \<in> load_ops \<and> executed (isa_op q) (isa_fetch q) q (rob_ir (rob (ooo m) ! l_rob_idx ?l))"
        if p: "on_path R c (ooo m) (rob_dist (ooo m) (l_rob_idx ?l))"
        using path_inst(2) [OF fl run(1,2) l p] 3(2) by (simp add: unit_ok_def load_ok_def Let_def)
      then show ?thesis using lsu_fill_sim [OF sim run s live _ 3(1)] by (simp add: Let_def)
    qed (use lsu_first_sim [OF sim run s live] sim in auto)
  next
    case False
    then have "m' = m \<or> lsu_flushed s m = Inr m'" using slot unfolding lsu_slot_def Let_def live_lsu_def by (auto split: if_splits)
    then show ?thesis using lsu_flushed_sim [OF sim s False] sim by auto
  qed
qed

lemma units_sim:
  assumes sim: "sim C R c m" and run: "isa_run C N R" "c + 40 \<le> N" "forward_ok N R"
    and u: "ooo_unit_int (with_ooo mshr_tick m) = Inr a" "ooo_unit_mul a = Inr b" "ooo_unit_lsu b = Inr m'"
  shows "sim C R c m'"
proof -
  obtain x y where s: "int_slot 0 (with_ooo mshr_tick m) = Inr x" "int_slot 1 x = Inr a" "lsu_slot 0 b = Inr y" "lsu_slot 1 y = Inr m'"
    using u(1,3) by (auto simp: ooo_unit_int_def ooo_unit_lsu_def)
  have "ooo_inv (mshr_tick (ooo m))" using sim mshr_keeps(1) [of "ooo m"] by (simp add: keeps_def sim_def flow_def)
  then have "sim C R c (with_ooo mshr_tick m)" using sim_same_flow [OF sim mem_eq_kept, of "with_ooo mshr_tick m"] by simp
  then have "sim C R c x" using int_slot_sim [OF _ run(1,2) _ s(1)] by simp
  then have "sim C R c a" using int_slot_sim [OF _ run(1,2) _ s(2)] by simp
  then have "sim C R c b" using unit_mul_sim [OF _ run(1,2) u(2)] by simp
  then have "sim C R c y" using lsu_slot_sim [OF _ run _ s(3)] by simp
  then show ?thesis using lsu_slot_sim [OF _ run _ s(4)] by simp
qed

end
