(* ===== verification/Ooo_Front.thy ===== *)
theory Ooo_Front
  imports Ooo_Lsu
begin

text \<open>
  The stages in front of the units: issue, renaming, decoding and fetching. The instructions move along in program order; an
  operand that renaming finds ready has the value of the ISA state, and one that it does not is the target of an older instruction.
\<close>

section \<open>Issue\<close>

definition back_part :: "OOOState \<Rightarrow> ROBEntry list \<times> nat \<times> int \<times> int list \<times> PhysReg list \<times> PipeReg list \<times> PipeReg list \<times> vaddr_t" where
  "back_part t = (rob t, rob_head t, rob_count t, rrat t, phys t, latch_id_rn t, latch_if_id t, ooo_fetch_pc t)"

lemma back_part_eq:
  assumes "back_part t' = back_part t"
  shows "in_flight t' = in_flight t" "insts t' = insts t" "pcs t' = pcs t" "rob_dist t' = rob_dist t" "map_at t' = map_at t" "front t' = front t"
    "phys t' = phys t" "committed t' = committed t" "packed t' = packed t" "rob t' = rob t" "rob_head t' = rob_head t"
  using assms by (simp_all add: back_part_def in_flight_def insts_def pcs_def front_def rob_dist_def map_at_def committed_def packed_def fun_eq_iff)

lemma flow_core:
  assumes "flow X R c t" and "ooo_inv t'" and "back_part t' = back_part t" and "\<And>i. i < 16 \<Longrightarrow> rs_valid (rs_tab t' ! i) \<Longrightarrow> rs_tab t' ! i = rs_tab t ! i" and "units_ok R c t'"
  shows "flow X R c t'"
proof -
  note e = back_part_eq [OF assms(3)] and o = on_path_eq [OF back_part_eq(3) [OF assms(3)]]
  have "stations_ok R c t'" using assms(1,4) by (auto simp: flow_def stations_ok_def e o Let_def)
  then show ?thesis
    using assms(1,2,5) by (simp add: flow_def base_ok_def entries_ok_def front_ok_def links_ok_def e o)
qed

lemma pick_free: "fold (pick_older t b) xs best = Some i \<Longrightarrow> best \<noteq> Some i \<Longrightarrow> \<not> (b \<and> load_blocked t i)"
proof (induction xs arbitrary: best)
  case (Cons x xs)
  show ?case
  proof (cases "pick_older t b x best = Some i")
    case True
    then show ?thesis using Cons.prems(2) by (auto simp: pick_older_def split: if_splits option.splits)
  next
    case False
    then show ?thesis using Cons.IH [of "pick_older t b x best"] Cons.prems(1) by simp
  qed
qed simp

text \<open>A load that is not held back comes after stores that are done.\<close>

lemma load_free:
  assumes "ooo_inv t" and "\<not> load_blocked t i" and "ir_raw (rob_ir (rob t ! rs_rob_idx (rs_tab t ! i))) AND 0x7f = 0x03"
    and "k = rob_dist t (rs_rob_idx (rs_tab t ! i))" and "k < length (in_flight t)" and "e \<in> set (take k (in_flight t))" and "is_store_op (ir_raw (rob_ir e))"
  shows "rob_ready e"
proof -
  have ri: "rings_ok t" using ooo_invD [OF assms(1)] by simp
  obtain j where j: "j < k" "e = in_flight t ! j" using assms(5,6) by (auto simp: in_set_conv_nth)
  let ?s = "(rob_head t + j) mod 32"
  have e: "e = rob t ! ?s" using j assms(5) rob_ring_fields(1) [OF ri] by (simp add: in_flight_def)
  have "?s \<in> set (slots_before t (rs_rob_idx (rs_tab t ! i)))" using j(1) assms(4) by (auto simp: slots_before_def)
  moreover have "rob_valid e" using in_flight_valid [OF ri, of j] j assms(5) by simp
  ultimately show ?thesis using assms(2,3,7) e by (auto simp: load_blocked_def list_ex_iff Let_def)
qed

lemma issue_flow:
  assumes flow: "flow {} R c t" and run: "isa_run C N R" "c + 40 \<le> N" and inv': "ooo_inv (issue_unit b eu l put t)" and eu: "eu < 3" "eu = 2 \<Longrightarrow> b"
    and put: "\<And>l u. back_part (put l u) = back_part u" "\<And>l u. rs_tab (put l u) = rs_tab u" "\<And>l u. unit_set (put l u) \<subseteq> insert (eu, l) (unit_set u)" "\<And>l u. store_part (put l u) = store_part u"
  shows "flow {} R c (issue_unit b eu l put t)" "store_part (issue_unit b eu l put t) = store_part t"
proof -
  have "flow {} R c (issue_unit b eu l put t) \<and> store_part (issue_unit b eu l put t) = store_part t"
  proof (cases "l_valid l \<or> select_rs b eu t = None")
    case False
    then obtain j where j: "select_rs b eu t = Some j" by auto
    note fl = flow [unfolded flow_def]
    have inv: "ooo_inv t" using fl by simp
    have r: "j < 16" "rs_issuable eu (rs_tab t ! j)" using select_issuable [OF _ eu(1) j] ooo_invD [OF inv] by simp_all
    let ?e = "rs_tab t ! j"
    let ?l = "\<lparr>l_rob_idx = rs_rob_idx ?e, l_phys_rd = rs_phys_rd ?e, l_valid = True, l_cycles_rem = -1, l_mshr_idx = -1, l_flushed = False,
        l_src1_val = rs_src1_val ?e, l_src2_val = rs_src2_val ?e\<rparr>" and ?u = "put_rs j (?e\<lparr>rs_valid := False\<rparr>) (rs_mask_clear j (eu_type ?e) t)"
    have t': "issue_unit b eu l put t = put ?l ?u" using False j by (simp add: issue_unit_def latch_from_rs_def Let_def)
    have u: "back_part ?u = back_part t" "rs_tab ?u = (rs_tab t)[j := ?e\<lparr>rs_valid := False\<rparr>]" "unit_set ?u = unit_set t" "store_part ?u = store_part t"
      by (simp_all add: back_part_def put_rs_def rs_mask_clear_def clear_ready_def unit_set_def store_part_def)
    let ?t = "put ?l ?u"
    have cp: "back_part ?t = back_part t" using put(1) u(1) by simp
    note e = back_part_eq [OF cp] and o = on_path_eq [OF back_part_eq(3) [OF cp]]
    let ?k = "rob_dist t (rs_rob_idx ?e)"
    have v: "rs_valid ?e" "src1_ready ?e" "src2_ready ?e" "eu_type ?e = eu" using r(2) by (simp_all add: rs_issuable_def)
    note tp = token_place [OF inv station_token [OF inv r(1) v(1)]]
    have new: "unit_ok (R (c + ?k)) (take ?k (in_flight t)) (rob_ir (in_flight t ! ?k)) eu ?l" if p: "on_path R c t ?k"
    proof -
      let ?q = "R (c + ?k)"
      have st: "station_ok ?q (map_at t ?k) (rob_ir (in_flight t ! ?k)) ?e" using fl r(1) v(1) p by (simp add: stations_ok_def Let_def)
      have en: "entry_ok ?q (in_flight t ! ?k)" using fl p tp(1) by (simp add: entries_ok_def)
      have "\<forall>e\<in>set (take ?k (in_flight t)). is_store_op (ir_raw (rob_ir e)) \<longrightarrow> rob_ready e" if l: "eu = 2" "isa_op ?q \<in> load_ops"
      proof -
        have "\<not> load_blocked t j" using pick_free [of t b _ None j] j eu(2) [OF l(1)] by (simp add: select_rs_def)
        moreover have "user_op (isa_op ?q)" using isa_run_user [OF run(1), of "c + ?k"] tp(1) in_flight_length(1) [OF inv] run(2) by simp
        then have "isa_fetch ?q AND 0x7f = 0x03" using op_class(1) [of "isa_fetch ?q"] l(2) by (simp add: isa_op_def)
        then have "ir_raw (rob_ir (rob t ! rs_rob_idx ?e)) AND 0x7f = 0x03" using en tp(2) by (simp add: entry_ok_def)
        ultimately show ?thesis using load_free [OF inv, of j ?k] tp(1) by blast
      qed
      then show ?thesis using st v by (simp add: unit_ok_def station_ok_def latch_ok_def src_ok_def load_ok_def)
    qed
    have "units_ok R c ?t"
      unfolding units_ok_def Let_def e o
    proof (intro allI impI)
      fix eu' l' assume m: "(eu', l') \<in> unit_set ?t" and p: "on_path R c t (rob_dist t (l_rob_idx l'))"
      have "(eu', l') = (eu, ?l) \<or> (eu', l') \<in> unit_set t" using m put(3) [of ?l ?u] u(3) by auto
      then show "unit_ok (R (c + rob_dist t (l_rob_idx l'))) (take (rob_dist t (l_rob_idx l')) (in_flight t)) (rob_ir (in_flight t ! rob_dist t (l_rob_idx l'))) eu' l'"
      proof
        assume "(eu', l') = (eu, ?l)"
        then show ?thesis using new p by simp
      qed (use fl p in \<open>auto simp: units_ok_def Let_def\<close>)
    qed
    moreover have "rs_tab ?t ! i = rs_tab t ! i" if "i < 16" "rs_valid (rs_tab ?t ! i)" for i
    proof -
      have "length (rs_tab t) = 16" using ooo_invD [OF inv] by (simp add: masks_ok_def)
      then show ?thesis using that put(2) u(2) by (cases "i = j") simp_all
    qed
    ultimately have "flow {} R c ?t" using flow_core [OF flow _ cp] inv' t' by simp
    then show ?thesis using t' put(4) u(4) by simp
  qed (use flow in \<open>auto simp: issue_unit_def split: option.split\<close>)
  then show "flow {} R c (issue_unit b eu l put t)" "store_part (issue_unit b eu l put t) = store_part t" by simp_all
qed

lemma put_unit_core [simp]:
  "back_part (put_int s l t) = back_part t" "rs_tab (put_int s l t) = rs_tab t" "back_part (put_mul s l t) = back_part t" "rs_tab (put_mul s l t) = rs_tab t"
  "back_part (put_lsu s l t) = back_part t" "rs_tab (put_lsu s l t) = rs_tab t"
  by (simp_all add: back_part_def put_int_def put_mul_def put_lsu_def)

lemma stage_is_flow:
  assumes "flow {} R c t" and "isa_run C N R" and "c + 40 \<le> N"
  shows "flow {} R c (ooo_stage_is t) \<and> store_part (ooo_stage_is t) = store_part t"
proof -
  have up: "unit_set (put_int s l u) \<subseteq> insert (0, l) (unit_set u)" "unit_set (put_mul s l u) \<subseteq> insert (1, l) (unit_set u)" "unit_set (put_lsu s l u) \<subseteq> insert (2, l) (unit_set u)" for s l u
    using unit_put [of s l u] by auto
  have i: "flow {} R c u \<Longrightarrow> ooo_inv u" for u by (simp add: flow_def)
  note f = issue_flow [OF _ assms(2,3)]
  have 0: "flow {} R c (issue_unit False 0 (latch_int u ! s) (put_int s) u) \<and> store_part (issue_unit False 0 (latch_int u ! s) (put_int s) u) = store_part u"
    if "flow {} R c u" "s < 2" for s u
    using f [OF that(1), of False 0 "latch_int u ! s" "put_int s"] issue_slot_ok(1) [OF i [OF that(1)] that(2)] up(1) by simp
  have 1: "flow {} R c (issue_unit False 1 (latch_mul u ! s) (put_mul s) u) \<and> store_part (issue_unit False 1 (latch_mul u ! s) (put_mul s) u) = store_part u"
    if "flow {} R c u" "s < 1" for s u
    using f [OF that(1), of False 1 "latch_mul u ! s" "put_mul s"] issue_slot_ok(2) [OF i [OF that(1)] that(2)] up(2) by simp
  have 2: "flow {} R c (issue_unit True 2 (latch_lsu u ! s) (put_lsu s) u) \<and> store_part (issue_unit True 2 (latch_lsu u ! s) (put_lsu s) u) = store_part u"
    if "flow {} R c u" "s < 2" for s u
    using f [OF that(1), of True 2 "latch_lsu u ! s" "put_lsu s"] issue_slot_ok(3) [OF i [OF that(1)] that(2)] up(3) by simp
  have two: "[0..<2] = [0, 1 :: nat]" "[0..<1] = [0 :: nat]" by (simp_all add: upt_rec)
  show ?thesis unfolding ooo_stage_is_def Let_def two using assms(1) 0 1 2 by simp
qed

section \<open>Renaming\<close>

text \<open>Between the two instructions of a cycle the latches have a hole.\<close>

definition loose :: "(nat \<Rightarrow> isa_state) \<Rightarrow> nat \<Rightarrow> OOOState \<Rightarrow> bool" where
  "loose R c t \<longleftrightarrow> ooo_inv t \<and> base_ok R c t \<and> entries_ok R c t \<and> front_ok R c t \<and> stations_ok R c t \<and> units_ok R c t \<and> links_ok {} R c t"

lemma flow_loose: "flow {} R c t \<longleftrightarrow> loose R c t \<and> packed t"
  by (auto simp: flow_def loose_def)

lemma rename_one_fields:
  assumes "ooo_inv t" and "rob_count t < 32" and "rs_free_mask t \<noteq> 0"
  obtains p old e where "in_flight (rename_one ir t) = in_flight t @ [\<lparr>rob_ir = ir, arch_rd = ir_rd ir, rob_phys_rd = p, old_phys = old, store_data = 0, rob_ready = False, rob_valid = True\<rparr>]"
    and "rs_tab (rename_one ir t) = (rs_tab t)[ctz (rs_free_mask t) := e]" and "rs_rob_idx e = (rob_head t + length (in_flight t)) mod 32"
    and "eu_type e = eu_of (ir_raw ir)" and "operand t (ir_rs1 ir) (src1_val ir) = (src1_ready e, rs_src1_val e, src1_ptag e)"
    and "operand t (ir_rs2 ir) (src2_val ir) = (src2_ready e, rs_src2_val e, src2_ptag e)"
    and "phys (rename_one ir t) = (if ir_rd ir \<noteq> -1 \<and> ir_rd ir \<noteq> 0 then (phys t)[nat p := \<lparr>p_value = 0, p_ready = False\<rparr>] else phys t)"
    and "unit_set (rename_one ir t) = unit_set t" and "store_part (rename_one ir t) = store_part t" and "rob_head (rename_one ir t) = rob_head t" and "rrat (rename_one ir t) = rrat t"
    and "latch_id_rn (rename_one ir t) = latch_id_rn t" and "latch_if_id (rename_one ir t) = latch_if_id t" and "ooo_fetch_pc (rename_one ir t) = ooo_fetch_pc t"
proof (rule rename_one_eq [of ir t])
  let ?j = "ctz (rs_free_mask t)"
  fix v p old w e
  assume o: "rename_one ir t = rs_mask_update ?j (put_rs ?j e ((put_rob (rob_tail t) \<lparr>rob_ir = ir, arch_rd = ir_rd ir, rob_phys_rd = p, old_phys = old,
        store_data = 0, rob_ready = False, rob_valid = True\<rparr> w)\<lparr>rs_free_mask := unset_bit ?j (rs_free_mask t)\<rparr>))"
    and w: "rename_rd (ir_rd ir) v = (p, old, w)" and e: "rs_rob_idx e = rob_tail t" "eu_type e = eu_of (ir_raw ir)" "operand t (ir_rs1 ir) (src1_val ir) = (src1_ready e, rs_src1_val e, src1_ptag e)"
      "operand t (ir_rs2 ir) (src2_val ir) = (src2_ready e, rs_src2_val e, src2_ptag e)"
    and v: "v = t\<lparr>rob_tail := (rob_tail t + 1) mod 32, rob_count := rob_count t + 1, unready_store_count := unready_store_count t + (if is_store_op (ir_raw ir) then 1 else 0)\<rparr>"
  let ?re = "\<lparr>rob_ir = ir, arch_rd = ir_rd ir, rob_phys_rd = p, old_phys = old, store_data = 0, rob_ready = False, rob_valid = True\<rparr>"
  have ri: "rings_ok t" using ooo_invD [OF assms(1)] by simp
  note f = rob_ring_fields [OF ri]
  have u: "rob (rs_mask_update j x) = rob x" "rob_head (rs_mask_update j x) = rob_head x" "rob_count (rs_mask_update j x) = rob_count x" "rs_tab (rs_mask_update j x) = rs_tab x"
      "phys (rs_mask_update j x) = phys x" "unit_set (rs_mask_update j x) = unit_set x" "store_part (rs_mask_update j x) = store_part x" "rrat (rs_mask_update j x) = rrat x"
      "latch_id_rn (rs_mask_update j x) = latch_id_rn x" "latch_if_id (rs_mask_update j x) = latch_if_id x" "ooo_fetch_pc (rs_mask_update j x) = ooo_fetch_pc x" for j x
    by (simp_all add: rs_mask_update_def set_ready_def clear_ready_def unit_set_def store_part_def Let_def)
  have w': "rob w = rob t" "rob_head w = rob_head t" "rob_count w = rob_count t + 1" "rs_tab w = rs_tab t" "unit_set w = unit_set t" "store_part w = store_part t" "rrat w = rrat t"
      "latch_id_rn w = latch_id_rn t" "latch_if_id w = latch_if_id t" "ooo_fetch_pc w = ooo_fetch_pc t"
      "phys w = (if ir_rd ir \<noteq> -1 \<and> ir_rd ir \<noteq> 0 then (phys t)[nat p := \<lparr>p_value = 0, p_ready = False\<rparr>] else phys t)"
    using w by (auto simp: v rename_rd_def freelist_pop_def unit_set_def store_part_def Let_def split: if_splits)
  have n: "nat (rob_count t) < 32" "nat (rob_count t + 1) = Suc (nat (rob_count t))" using f assms(2) by simp_all
  have t': "rob (rename_one ir t) = (rob t)[rob_tail t := ?re]" "rob_head (rename_one ir t) = rob_head t" "rob_count (rename_one ir t) = rob_count t + 1"
    using w'(1-3) by (simp_all add: o u put_rs_def put_rob_def)
  have es: "in_flight (rename_one ir t) = in_flight t @ [?re]"
    using window_push [of "nat (rob_count t)" "rob t" "rob_head t" ?re] n f by (simp add: in_flight_def t')
  have ix: "rs_rob_idx e = (rob_head t + length (in_flight t)) mod 32" using e(1) f(5) by (simp add: in_flight_def)
  show thesis
  proof (rule that [OF es _ ix e(2-4)])
    have x: "unit_set (put_rs j a ((put_rob i b x)\<lparr>rs_free_mask := k\<rparr>)) = unit_set x" "store_part (put_rs j a ((put_rob i b x)\<lparr>rs_free_mask := k\<rparr>)) = store_part x" for a b i j k x
      by (simp_all add: put_rs_def put_rob_def unit_set_def store_part_def)
    show "unit_set (rename_one ir t) = unit_set t" "store_part (rename_one ir t) = store_part t" using w' by (simp_all add: o u x)
  qed (use w' in \<open>simp_all add: o u put_rs_def put_rob_def\<close>)
qed

text \<open>What renaming finds of an operand.\<close>

lemma operand_src_ok:
  assumes "loose R c t" and "isa_run C N R" and "c + 40 \<le> N" and "k = length (in_flight t)" and "\<And>j. j < k \<Longrightarrow> on_path R c t j"
    and "r = -1 \<or> 0 \<le> r \<and> r < 32" and "operand t r v = (rdy, val, tag)"
  shows "src_ok (R (c + k)) (map_at t k) r v rdy val tag"
proof -
  have inv: "ooo_inv t" "base_ok R c t" "entries_ok R c t" using assms(1) by (simp_all add: loose_def)
  have N: "c + k \<le> N" using in_flight_length(1) [OF inv(1)] assms(3,4) by simp
  have m: "map_at t k = rat t" using map_at_all [OF inv(1)] assms(4) by simp
  have "p_value (phys t ! nat (rat t ! nat r)) = i_regs (R (c + k)) ! nat r" if "0 < r" "r < 32" "p_ready (phys t ! nat (rat t ! nat r))"
    using map_value [OF inv assms(2) N eq_refl [OF assms(4)], of "nat r"] assms(5) that by (simp add: m nat_less_iff)
  moreover have "i_regs (R (c + k)) ! 0 = 0" using isa_run_regs [OF assms(2) N] by simp
  ultimately show ?thesis using assms(6,7) by (auto simp: operand_def src_ok_def operand_value_def m Let_def split: if_splits)
qed

lemma rename_step:
  assumes lo: "loose R c t" and run: "isa_run C N R" "c + 40 \<le> N" and n: "n < 2" "pr_valid (latch_id_rn t ! n)" "\<And>j. j < n \<Longrightarrow> \<not> pr_valid (latch_id_rn t ! j)"
    and ok: "rob_count t < 32" "rs_free_mask t \<noteq> 0" "ir_rd (pr_ir (latch_id_rn t ! n)) \<noteq> -1 \<and> ir_rd (pr_ir (latch_id_rn t ! n)) \<noteq> 0 \<Longrightarrow> fl_count (freelist t) \<noteq> 0"
  defines "r \<equiv> latch_id_rn t ! n"
  defines "u \<equiv> rename_one (pr_ir r) t"
  defines "t' \<equiv> u\<lparr>latch_id_rn := (latch_id_rn u)[n := r\<lparr>pr_valid := False\<rparr>]\<rparr>"
  shows "loose R c t'" "store_part t' = store_part t" "latch_if_id t' = latch_if_id t" "latch_id_rn t' = (latch_id_rn t)[n := r\<lparr>pr_valid := False\<rparr>]"
proof -
  let ?ir = "pr_ir r" and ?k = "length (in_flight t)"
  note l = lo [unfolded loose_def]
  have inv: "ooo_inv t" using l by simp
  have sh: "length (latch_id_rn t) = 2" "reg_field (ir_rd ?ir)" using ooo_invD [OF inv] shape_latch [of t n] n(1) by (simp_all add: shape_ok_def r_def)
  note kp = rename_one_keeps [OF inv ok(1,2) sh(2), folded u_def]
  have ku: "ooo_inv u" "same_view t u" using kp ok(3) by (simp_all add: r_def)
  obtain p old e where f: "in_flight u = in_flight t @ [\<lparr>rob_ir = ?ir, arch_rd = ir_rd ?ir, rob_phys_rd = p, old_phys = old, store_data = 0, rob_ready = False, rob_valid = True\<rparr>]"
    "rs_tab u = (rs_tab t)[ctz (rs_free_mask t) := e]" "rs_rob_idx e = (rob_head t + ?k) mod 32"
    "eu_type e = eu_of (ir_raw ?ir)" "operand t (ir_rs1 ?ir) (src1_val ?ir) = (src1_ready e, rs_src1_val e, src1_ptag e)"
    "operand t (ir_rs2 ?ir) (src2_val ?ir) = (src2_ready e, rs_src2_val e, src2_ptag e)"
    "phys u = (if ir_rd ?ir \<noteq> -1 \<and> ir_rd ?ir \<noteq> 0 then (phys t)[nat p := \<lparr>p_value = 0, p_ready = False\<rparr>] else phys t)"
    "unit_set u = unit_set t" "store_part u = store_part t" "rob_head u = rob_head t" "rrat u = rrat t"
    "latch_id_rn u = latch_id_rn t" "latch_if_id u = latch_if_id t" "ooo_fetch_pc u = ooo_fetch_pc t"
    by (rule rename_one_fields [OF inv ok(1,2), of ?ir, folded u_def])
  let ?re = "\<lparr>rob_ir = ?ir, arch_rd = ir_rd ?ir, rob_phys_rd = p, old_phys = old, store_data = 0, rob_ready = False, rob_valid = True\<rparr>"
  show "store_part t' = store_part t" "latch_if_id t' = latch_if_id t" "latch_id_rn t' = (latch_id_rn t)[n := r\<lparr>pr_valid := False\<rparr>]"
    using f by (simp_all add: t'_def store_part_def)
  have "keeps u t'"
    by (rule front_keeps [where a = "latch_if_id u" and t = u and pc = "ooo_fetch_pc u" and b = "(latch_id_rn u)[n := r\<lparr>pr_valid := False\<rparr>]"])
      (use put_rn_shape [of u "r\<lparr>pr_valid := False\<rparr>" n] sh(2) in \<open>simp_all add: t'_def ooo_inv_def\<close>)
  then have inv': "ooo_inv t'" "same_view t t'" using ku same_view_trans by (auto simp: keeps_def)
  have d: "in_flight t' = in_flight t @ [?re]" "rs_tab t' = (rs_tab t)[ctz (rs_free_mask t) := e]" "phys t' = phys u" "unit_set t' = unit_set t" "rob_head t' = rob_head t" "rrat t' = rrat t"
      "ooo_fetch_pc t' = ooo_fetch_pc t" "latch_if_id t' = latch_if_id t" "latch_id_rn t' = (latch_id_rn t)[n := r\<lparr>pr_valid := False\<rparr>]"
    using f by (simp_all add: t'_def in_flight_def unit_set_def)
  obtain r0 r1 where rr: "latch_id_rn t = [r0, r1]" using sh(1) by (auto simp: length_Suc_conv numeral_2_eq_2)
  have fr: "front t = ?ir # front t'"
    using n rr d(8,9) by (cases n) (auto simp: front_def r_def less_Suc_eq numeral_2_eq_2)
  have ins: "insts t' = insts t" "insts t ! ?k = ?ir" using d(1) fr by (simp_all add: insts_def nth_append)
  have kl: "?k < length (insts t)" using fr by (simp add: insts_def)
  have pcs: "pcs t' = pcs t" using ins d(7) by (simp add: pcs_def)
  note on = on_path_eq [OF pcs]
  have dist: "rob_dist t' = rob_dist t" using d(5) by (simp add: rob_dist_def fun_eq_iff)
  have mp: "map_at t' j = map_at t j" if "j \<le> ?k" for j using that d(1) by (intro map_at_eq [OF d(6)]) simp
  have base: "base_ok R c t'" using l inv'(2) by (simp add: base_ok_def same_view_def)
  have new: "inst_ok (R (c + ?k)) ?ir" if "on_path R c t ?k" using l that kl ins(2) by (auto simp: front_ok_def)
  have len: "length (phys t) = 64" using ooo_invD [OF inv] by (simp add: shape_ok_def)
  have pr: "ir_rd ?ir \<noteq> -1 \<and> ir_rd ?ir \<noteq> 0 \<Longrightarrow> 0 < p \<and> nat p < 64"
  proof -
    have "slot_of ?re \<in> set (r_flight (renaming_of t'))" using flight_slots [of t'] ooo_invD [OF inv'(1)] d(1) by simp
    then show "ir_rd ?ir \<noteq> -1 \<and> ir_rd ?ir \<noteq> 0 \<Longrightarrow> ?thesis"
      using slot_target [of "renaming_of t'" "slot_of ?re"] ooo_invD [OF inv'(1)] by (simp add: writes_def slot_of_def nat_less_iff)
  qed
  have ent: "entries_ok R c t'"
    unfolding entries_ok_def on
  proof (intro allI impI)
    fix j assume j: "j < length (in_flight t')" and p: "on_path R c t j"
    show "entry_ok (R (c + j)) (in_flight t' ! j) \<and> target_ok (R (c + Suc j)) (phys t') (in_flight t' ! j)"
    proof (cases "j = ?k")
      case True
      have i: "inst_ok (R (c + ?k)) ?ir" using new p True by simp
      then have "entry_ok (R (c + ?k)) ?re" by (simp add: entry_ok_def inst_ok_def fmt_def isa_rd_def)
      moreover have "target_ok q (phys t') ?re" for q using pr d(3) f(7) len by (auto simp: target_ok_def Let_def)
      ultimately show ?thesis using True d(1) by simp
    next
      case False
      then have j': "j < ?k" using j d(1) by simp
      then have o: "entry_ok (R (c + j)) (in_flight t ! j)" "target_ok (R (c + Suc j)) (phys t) (in_flight t ! j)" using l p by (simp_all add: entries_ok_def)
      have "phys t' ! nat (rob_phys_rd (in_flight t ! j)) = phys t ! nat (rob_phys_rd (in_flight t ! j))" if "0 < arch_rd (in_flight t ! j)"
        using other_target [OF inv'(1), of j ?k] that j' d(1,3) f(7) pr by (auto simp: nth_append)
      then have "target_ok (R (c + Suc j)) (phys t') (in_flight t ! j)" using o(2) by (auto simp: target_ok_def Let_def)
      then show ?thesis using o(1) j' d(1) by (simp add: nth_append)
    qed
  qed
  have frn: "front_ok R c t'" using l d(1) ins by (simp add: front_ok_def on)
  have st: "stations_ok R c t'"
    unfolding stations_ok_def Let_def on dist
  proof (intro allI impI)
    fix i assume i: "i < 16" and v: "rs_valid (rs_tab t' ! i) \<and> on_path R c t (rob_dist t (rs_rob_idx (rs_tab t' ! i)))"
    have lr: "length (rs_tab t) = 16" using ooo_invD [OF inv] by (simp add: masks_ok_def)
    show "station_ok (R (c + rob_dist t (rs_rob_idx (rs_tab t' ! i)))) (map_at t' (rob_dist t (rs_rob_idx (rs_tab t' ! i))))
        (rob_ir (in_flight t' ! rob_dist t (rs_rob_idx (rs_tab t' ! i)))) (rs_tab t' ! i)"
    proof (cases "i = ctz (rs_free_mask t)")
      case True
      then have e: "rs_tab t' ! i = e" using i d(2) lr by simp
      have k: "rob_dist t (rs_rob_idx e) = ?k"
        using dist_slot [of "rob_head t" 32 ?k] f(3) rob_ring_fields [of t] ooo_invD [OF inv] ok(1) by (simp add: rob_dist_def in_flight_def nat_less_iff)
      have p: "on_path R c t ?k" using v e k by simp
      have "ir_rs1 ?ir = -1 \<or> 0 \<le> ir_rs1 ?ir \<and> ir_rs1 ?ir < 32" "ir_rs2 ?ir = -1 \<or> 0 \<le> ir_rs2 ?ir \<and> ir_rs2 ?ir < 32"
        using new [OF p] ibits_reg [where i = "isa_fetch (R (c + ?k))" and lo = 15] ibits_reg [where i = "isa_fetch (R (c + ?k))" and lo = 20] by (simp_all add: inst_ok_def fmt_def)
      then have "station_ok (R (c + ?k)) (map_at t ?k) ?ir e"
        using operand_src_ok [OF lo run refl on_path_mono [OF p less_imp_le] _ f(5)] operand_src_ok [OF lo run refl on_path_mono [OF p less_imp_le] _ f(6)] f(4)
        by (simp add: station_ok_def)
      then show ?thesis using e k mp [of ?k] d(1) by simp
    next
      case False
      then have e: "rs_tab t' ! i = rs_tab t ! i" using i d(2) lr by simp
      have k: "rob_dist t (rs_rob_idx (rs_tab t ! i)) < ?k" using token_place(1) [OF inv station_token [OF inv i]] v e by simp
      then show ?thesis using l i v e mp d(1) by (simp add: stations_ok_def Let_def nth_append)
    qed
  qed
  have un: "units_ok R c t'"
    unfolding units_ok_def Let_def on dist d(4)
  proof (intro allI impI)
    fix eu x assume m: "(eu, x) \<in> unit_set t" and p: "on_path R c t (rob_dist t (l_rob_idx x))"
    have k: "rob_dist t (l_rob_idx x) < ?k" using token_place(1) [OF inv unit_token [OF m]] .
    have "unit_ok (R (c + rob_dist t (l_rob_idx x))) (take (rob_dist t (l_rob_idx x)) (in_flight t)) (rob_ir (in_flight t ! rob_dist t (l_rob_idx x))) eu x"
      using l m p by (auto simp: units_ok_def Let_def)
    then show "unit_ok (R (c + rob_dist t (l_rob_idx x))) (take (rob_dist t (l_rob_idx x)) (in_flight t')) (rob_ir (in_flight t' ! rob_dist t (l_rob_idx x))) eu x"
      using k d(1) by (simp add: nth_append)
  qed
  have "links_ok {} R c t'" using l d(1) ins(1) unfolding links_ok_def on pcs by (auto simp: nth_append less_Suc_eq)
  then show "loose R c t'" using inv'(1) base ent frn st un by (simp add: loose_def)
qed

lemma rename_loop_loose:
  assumes "loose R c t" and "isa_run C N R" and "c + 40 \<le> N" and "\<And>j. j < n \<Longrightarrow> \<not> pr_valid (latch_id_rn t ! j)" and "used = 16 - length (mask_bits (rs_free_mask t))"
    and "rename_loop [n..<2] used (t, st) = (t', st')"
  shows "loose R c t' \<and> store_part t' = store_part t \<and> latch_if_id t' = latch_if_id t \<and> os_insts st' = os_insts st"
  using assms
proof (induction "2 - n" arbitrary: n used t st)
  case (Suc d)
  let ?r = "latch_id_rn t ! n"
  let ?ir = "pr_ir ?r"
  have n: "n < 2" "[n..<2] = n # [Suc n..<2]" using Suc.hyps(2) by (simp_all add: upt_rec [of n 2])
  show ?case
  proof (cases "pr_valid ?r \<and> \<not> (serializing ?ir \<and> (rob_count t > 0 \<or> n > 0)) \<and> rob_count t < 32 \<and> used < 16 \<and>
      (ir_rd ?ir \<noteq> -1 \<and> ir_rd ?ir \<noteq> 0 \<longrightarrow> fl_count (freelist t) \<noteq> 0)")
    case True
    let ?u = "rename_one ?ir t"
    let ?v = "?u\<lparr>latch_id_rn := (latch_id_rn ?u)[n := ?r\<lparr>pr_valid := False\<rparr>]\<rparr>"
    have mk: "masks_ok t" "length (latch_id_rn t) = 2" using ooo_invD [of t] Suc.prems(1) by (simp_all add: loose_def shape_ok_def)
    have f: "rs_free_mask t \<noteq> 0" using Suc.prems(5) True by (auto simp: mask_bits.simps [of 0])
    note s = rename_step [OF Suc.prems(1-3) n(1) _ Suc.prems(4) _ f]
    have v: "loose R c ?v" "store_part ?v = store_part t" "latch_if_id ?v = latch_if_id t" "latch_id_rn ?v = (latch_id_rn t)[n := ?r\<lparr>pr_valid := False\<rparr>]" using s True by auto
    have c: "used + 1 = 16 - length (mask_bits (rs_free_mask ?v))"
      using rename_one_masks(2) [OF mk(1) f, of ?ir] Suc.prems(5) free_bits [OF mk(1)] by simp
    have h: "\<not> pr_valid (latch_id_rn ?v ! j)" if "j < Suc n" for j using that v(4) Suc.prems(4) mk(2) n(1) by (cases "j = n") auto
    have d: "d = 2 - Suc n" using Suc.hyps(2) by simp
    have "rename_loop [Suc n..<2] (used + 1) (?v, st) = (t', st')" using Suc.prems(6) True unfolding n(2) by (auto simp: Let_def)
    from Suc.hyps(1) [OF d v(1) Suc.prems(2,3) h c this]
    have "loose R c t' \<and> store_part t' = store_part ?v \<and> latch_if_id t' = latch_if_id ?v \<and> os_insts st' = os_insts st" by simp
    then show ?thesis using v(2,3) by simp
  next
    case False
    then show ?thesis using Suc.prems(1,6) unfolding n(2) by (auto simp: Let_def split: if_splits)
  qed
qed simp

lemma front_latches:
  assumes "loose R c t" and "ooo_inv t'" and "t' = t\<lparr>latch_id_rn := a, latch_if_id := b\<rparr>" and "map pr_ir (filter pr_valid a @ filter pr_valid b) = front t"
  shows "loose R c t'"
proof -
  have e: "in_flight t' = in_flight t" "insts t' = insts t" "pcs t' = pcs t" "rob_dist t' = rob_dist t" "map_at t' = map_at t" "phys t' = phys t" "committed t' = committed t"
      "rs_tab t' = rs_tab t" "unit_set t' = unit_set t"
    using assms(3,4) by (simp_all add: in_flight_def insts_def pcs_def front_def rob_dist_def map_at_def committed_def unit_set_def fun_eq_iff)
  show ?thesis
    using assms(1,2) by (simp add: loose_def base_ok_def entries_ok_def front_ok_def stations_ok_def units_ok_def links_ok_def e on_path_eq [OF e(3)])
qed

lemma compact_flow:
  assumes "loose R c t" and "pr_valid (latch_if_id t ! 1) \<Longrightarrow> pr_valid (latch_if_id t ! 0)"
  shows "flow {} R c (compact t)" "store_part (compact t) = store_part t"
proof -
  let ?r1 = "latch_id_rn t ! 1"
  have inv: "ooo_inv t" using assms(1) by (simp add: loose_def)
  obtain r0 r1 where rr: "latch_id_rn t = [r0, r1]" using ooo_invD [OF inv] by (auto simp: shape_ok_def length_Suc_conv numeral_2_eq_2)
  show "flow {} R c (compact t)"
  proof (cases "\<not> pr_valid r0 \<and> pr_valid r1")
    case True
    then have c: "compact t = t\<lparr>latch_id_rn := [r1, r1\<lparr>pr_valid := False\<rparr>], latch_if_id := latch_if_id t\<rparr>" by (simp add: compact_def rr Let_def)
    have "ooo_inv (compact t)" using compact_keeps [of t] inv by (simp add: keeps_def)
    from front_latches [OF assms(1) this c] have "loose R c (compact t)" using True by (simp add: front_def rr)
    then show ?thesis using True assms(2) by (simp add: flow_loose packed_def c)
  next
    case False
    then show ?thesis using assms rr by (auto simp: flow_loose packed_def compact_def Let_def)
  qed
  show "store_part (compact t) = store_part t" by (simp add: compact_def store_part_def Let_def)
qed

lemma stage_rn_flow:
  assumes "flow {} R c t" and "isa_run C N R" and "c + 40 \<le> N" and "ooo_stage_rn (t, st) = (t', st')"
  shows "flow {} R c t' \<and> store_part t' = store_part t \<and> os_insts st' = os_insts st"
proof (cases "pr_valid (latch_id_rn t ! 0)")
  case True
  let ?u = "16 - length (mask_bits (rs_free_mask t))"
  obtain v sv where v: "rename_loop [0..<2] ?u (t, st) = (v, sv)" by (cases "rename_loop [0..<2] ?u (t, st)")
  have "loose R c t" "packed t" using assms(1) by (simp_all add: flow_loose)
  then have l: "loose R c v" "store_part v = store_part t" "latch_if_id v = latch_if_id t" "os_insts sv = os_insts st" using rename_loop_loose [OF _ assms(2,3) _ refl v] by simp_all
  have "t' = compact v" "st' = sv" using assms(4) True v unfolding ooo_stage_rn_def by simp_all
  then show ?thesis using compact_flow [OF l(1)] l \<open>packed t\<close> by (simp add: packed_def)
qed (use assms(1,4) in \<open>simp add: ooo_stage_rn_def\<close>)

section \<open>Decoding\<close>

lemma stage_id_flow:
  assumes "flow {} R c t"
  shows "flow {} R c (ooo_stage_id t)" "store_part (ooo_stage_id t) = store_part t"
proof -
  have lo: "loose R c t" and pk: "packed t" and inv: "ooo_inv t" using assms by (simp_all add: flow_loose loose_def)
  obtain r0 r1 where rr: "latch_id_rn t = [r0, r1]" using ooo_invD [OF inv] by (auto simp: shape_ok_def length_Suc_conv numeral_2_eq_2)
  obtain f0 f1 where ff: "latch_if_id t = [f0, f1]" using ooo_invD [OF inv] by (auto simp: shape_ok_def length_Suc_conv numeral_2_eq_2)
  show "flow {} R c (ooo_stage_id t)"
  proof (cases "\<not> pr_valid f0 \<or> pr_valid r0")
    case False
    then have t': "ooo_stage_id t = t\<lparr>latch_id_rn := [f0, f1], latch_if_id := kill [f0, f1]\<rparr>" by (simp add: ooo_stage_id_def rr ff)
    have "ooo_inv (ooo_stage_id t)" using stage_id_keeps [of t] inv by (simp add: keeps_def)
    from front_latches [OF lo this t'] have "loose R c (ooo_stage_id t)" using False pk by (auto simp: front_def packed_def rr ff kill_def)
    then show ?thesis using False by (simp add: flow_loose packed_def t' kill_def)
  qed (use assms in \<open>auto simp: ooo_stage_id_def rr ff\<close>)
  show "store_part (ooo_stage_id t) = store_part t" by (simp add: ooo_stage_id_def store_part_def)
qed

lemma mid_stages_sim:
  assumes sim: "sim C R c m" and run: "isa_run C N R" "c + 40 \<le> N"
  shows "sim C R c (mid_stages m)"
proof -
  obtain t st where r: "ooo_stage_rn (ooo_stage_is (ooo m), ooo_stats m) = (t, st)" by (cases "ooo_stage_rn (ooo_stage_is (ooo m), ooo_stats m)")
  have "flow {} R c (ooo m)" using sim by (simp add: sim_def)
  note i = stage_is_flow [OF this run]
  note n = stage_rn_flow [OF conjunct1 [OF i] run r]
  note d = stage_id_flow [OF conjunct1 [OF n]]
  have m': "mid_stages m = m\<lparr>ooo := ooo_stage_id t, ooo_stats := st\<rparr>" using r by (simp add: mid_stages_def)
  show ?thesis
    by (rule sim_step [OF sim _ mem_eq_kept]) (use d n i in \<open>simp_all add: m' mem_eq_def mode_part_def\<close>)
qed

section \<open>Fetching\<close>

text \<open>When everything fetched so far is on the path, the next fetch is from the code.\<close>

lemma fetch_in_code:
  assumes "flow {} R c t" and "isa_run C N R" and "c + 40 \<le> N" and "\<And>j. j < length (insts t) \<Longrightarrow> on_path R c t j"
  shows "ooo_fetch_pc t \<in> C"
proof -
  have inv: "ooo_inv t" and lk: "links_ok {} R c t" using assms(1) by (simp_all add: flow_def)
  let ?n = "length (insts t)"
  have n: "?n \<le> 36" using in_flight_length(2) [OF inv] .
  have pc: "pcs t ! ?n = ooo_fetch_pc t" by (simp add: pcs_def nth_append)
  have s: "i_pc (R i) \<in> C \<and> i_pc (R i) + 4 \<in> C" if "i < N" for i using isa_runD [OF assms(2) that] by (simp add: safe_def)
  show ?thesis
  proof (cases ?n)
    case 0
    then show ?thesis using lk pc s [of c] assms(3) by (simp add: links_ok_def)
  next
    case (Suc k)
    then have "pcs t ! Suc k = (if k < length (in_flight t) \<and> rob_ready (in_flight t ! k) then i_pc (R (c + Suc k)) else i_pc (R (c + k)) + 4)"
      using lk assms(4) [of k] by (simp add: links_ok_def)
    then show ?thesis using pc Suc s [of "c + k"] s [of "c + Suc k"] assms(3) n by (auto split: if_splits)
  qed
qed

text \<open>The instruction at the end of the line.\<close>

lemma fetch_flow:
  assumes flow: "flow {} R c t" and inv': "ooo_inv t'" and t': "t' = t\<lparr>latch_if_id := b, ooo_fetch_pc := pc\<rparr>"
    and b: "map pr_ir (filter pr_valid b) = map pr_ir (filter pr_valid (latch_if_id t)) @ xs" "pr_valid (b ! 1) \<Longrightarrow> pr_valid (b ! 0)"
    and xs: "xs = [] \<or> (\<exists>ir. xs = [ir] \<and> pc = ir_pc ir + 4)"
    and on: "(\<And>j. j < length (insts t) \<Longrightarrow> on_path R c t j) \<Longrightarrow> (\<exists>ir. xs = [ir] \<and> ir_pc ir = ooo_fetch_pc t \<and> (on_path R c t (length (insts t)) \<longrightarrow> inst_ok (R (c + length (insts t))) ir))"
  shows "flow {} R c t'"
proof -
  let ?n = "length (insts t)"
  note fl = flow [unfolded flow_def]
  have e: "in_flight t' = in_flight t" "rob_dist t' = rob_dist t" "map_at t' = map_at t" "phys t' = phys t" "committed t' = committed t" "rs_tab t' = rs_tab t" "unit_set t' = unit_set t"
    by (simp_all add: t' in_flight_def rob_dist_def map_at_def committed_def unit_set_def fun_eq_iff)
  have ins: "insts t' = insts t @ xs" using b(1) by (simp add: insts_def front_def e(1)) (simp add: t')
  have pc: "pcs t ! ?n = ooo_fetch_pc t" by (simp add: pcs_def nth_append)
  have pcs': "pcs t' = map ir_pc (insts t) @ map ir_pc xs @ [pc]" by (simp add: pcs_def ins) (simp add: t')
  have lo: "pcs t' ! j = pcs t ! j" if "j < ?n" for j using that by (simp add: pcs' nth_append) (simp add: pcs_def nth_append)
  have op: "on_path R c t' j = on_path R c t j" if "j < ?n" for j using that lo by (simp add: on_path_def)
  have all: "on_path R c t j" if "j < ?n" "on_path R c t' k" "j \<le> k" for j k using on_path_mono [OF that(2,3)] op [OF that(1)] by simp
  have lt: "k < ?n" if "k < length (in_flight t)" for k using that by (simp add: insts_def)
  have ent: "entries_ok R c t'" using fl op lt by (simp add: entries_ok_def e)
  have st: "stations_ok R c t'"
    unfolding stations_ok_def Let_def e
  proof (intro allI impI)
    fix i assume i: "i < 16" and v: "rs_valid (rs_tab t ! i) \<and> on_path R c t' (rob_dist t (rs_rob_idx (rs_tab t ! i)))"
    have "rob_dist t (rs_rob_idx (rs_tab t ! i)) < length (in_flight t)" using token_place(1) [OF _ station_token [OF _ i]] fl v by simp
    then show "station_ok (R (c + rob_dist t (rs_rob_idx (rs_tab t ! i)))) (map_at t (rob_dist t (rs_rob_idx (rs_tab t ! i)))) (rob_ir (in_flight t ! rob_dist t (rs_rob_idx (rs_tab t ! i)))) (rs_tab t ! i)"
      using fl i v op lt by (simp add: stations_ok_def Let_def)
  qed
  have un: "units_ok R c t'"
    unfolding units_ok_def Let_def e
  proof (intro allI impI)
    fix eu l assume m: "(eu, l) \<in> unit_set t" and p: "on_path R c t' (rob_dist t (l_rob_idx l))"
    have "rob_dist t (l_rob_idx l) < length (in_flight t)" using token_place(1) [OF _ unit_token [OF m]] fl by simp
    then show "unit_ok (R (c + rob_dist t (l_rob_idx l))) (take (rob_dist t (l_rob_idx l)) (in_flight t)) (rob_ir (in_flight t ! rob_dist t (l_rob_idx l))) eu l"
      using fl m p op lt by (auto simp: units_ok_def Let_def)
  qed
  have last: "\<exists>ir. xs = [ir] \<and> ir_pc ir = ooo_fetch_pc t \<and> on_path R c t ?n \<and> inst_ok (R (c + ?n)) ir" if k: "?n \<le> k" "k < length (insts t')" "on_path R c t' k" for k
  proof -
    obtain ir where ir: "xs = [ir]" "ir_pc ir = ooo_fetch_pc t" "on_path R c t ?n \<longrightarrow> inst_ok (R (c + ?n)) ir" using on all [OF _ k(3)] k(1) by (auto intro: order_trans less_imp_le)
    have "pcs t' ! j = pcs t ! j" if "j \<le> ?n" for j using that ir lo pc by (cases "j = ?n") (simp_all add: pcs' nth_append)
    then have "on_path R c t ?n" using on_path_mono [OF k(3,1)] by (simp add: on_path_def)
    then show ?thesis using ir by simp
  qed
  have frn: "front_ok R c t'"
    unfolding front_ok_def e
  proof (intro allI impI)
    fix k assume k: "length (in_flight t) \<le> k \<and> k < length (insts t') \<and> on_path R c t' k"
    show "inst_ok (R (c + k)) (insts t' ! k)"
    proof (cases "k < ?n")
      case True
      then show ?thesis using fl k op ins by (simp add: front_ok_def nth_append)
    next
      case False
      then obtain ir where "xs = [ir]" "inst_ok (R (c + ?n)) ir" using last [of k] k by auto
      moreover from this have "k = ?n" using False k ins by simp
      ultimately show ?thesis using ins by simp
    qed
  qed
  have "links_ok {} R c t'"
    unfolding links_ok_def e
  proof (intro conjI allI impI)
    show "pcs t' ! 0 = i_pc (R c)"
    proof (cases "?n = 0")
      case True
      then obtain ir where "xs = [ir]" "ir_pc ir = ooo_fetch_pc t" using on by auto
      then have "pcs t' ! 0 = pcs t ! 0" using True pc by (simp add: pcs')
      then show ?thesis using fl by (simp add: links_ok_def)
    qed (use fl lo in \<open>simp add: links_ok_def\<close>)
    fix k assume k: "k < length (insts t')" "k \<notin> {} \<and> on_path R c t' k"
    show "pcs t' ! Suc k = (if k < length (in_flight t) \<and> rob_ready (in_flight t ! k) then i_pc (R (c + Suc k)) else i_pc (R (c + k)) + 4)"
    proof (cases "k < ?n")
      case True
      then have old: "pcs t ! Suc k = (if k < length (in_flight t) \<and> rob_ready (in_flight t ! k) then i_pc (R (c + Suc k)) else i_pc (R (c + k)) + 4)"
        using fl k op by (simp add: links_ok_def)
      have "pcs t' ! Suc k = pcs t ! Suc k"
      proof (cases "Suc k = ?n")
        case s: True
        have "on_path R c t j" if "j < ?n" for j using all [OF that, of k] k(2) s that by simp
        then obtain ir where "xs = [ir]" "ir_pc ir = ooo_fetch_pc t" using on by auto
        then show ?thesis using s pc by (simp add: pcs' nth_append)
      qed (use True lo in simp)
      then show ?thesis using old by simp
    next
      case False
      then obtain ir where ir: "xs = [ir]" "ir_pc ir = ooo_fetch_pc t" "on_path R c t ?n" using last [of k] k by auto
      have kn: "k = ?n" "\<not> k < length (in_flight t)" using False k(1) ins ir(1) lt by auto
      moreover have "pc = ooo_fetch_pc t + 4" using xs ir by auto
      ultimately show ?thesis using ir pc by (simp add: pcs' nth_append on_path_def)
    qed
  qed
  moreover have "packed t'" using fl b(2) by (simp add: packed_def t')
  moreover have "base_ok R c t'" using fl by (simp add: base_ok_def e)
  ultimately show ?thesis using inv' ent frn st un by (simp add: flow_def)
qed

lemma decode_pc: "ir_pc (ir_decode raw pc snpc ir m) = pc"
proof -
  have g: "ir_pc (decode_op_imm a b x) = ir_pc x" "ir_pc (decode_load a b x) = ir_pc x" "ir_pc (decode_store a b x) = ir_pc x"
    "ir_pc (decode_branch a b x) = ir_pc x" "ir_pc (decode_op_imm_w a b x) = ir_pc x" "ir_pc (decode_op a b x) = ir_pc x"
    "ir_pc (decode_op_w a b x) = ir_pc x" for a b x
    by (simp_all add: decode_op_imm_def decode_load_def decode_store_def decode_branch_def decode_op_imm_w_def decode_op_def decode_op_w_def set_exec_def)
  have "ir_pc (ir_fill_operands x raw ty m) = ir_pc x" for x raw ty m by (cases ty) (simp_all add: ir_fill_operands_def Let_def)
  then show ?thesis by (auto simp: ir_decode_def ir_init_def decode_system_def set_exec_def Let_def g)
qed

lemma fetched_inst:
  assumes "memory_ok C R c m" and "isa_run C N R" and "i < N" and "vaddr_ifetch (i_pc (R i)) 4 m = Inr (w, n)"
  shows "inst_ok (R i) ((ir_decode (ucast w) (i_pc (R i)) (i_pc (R i) + 4) stk n')\<lparr>bp_predict_taken := False, bp_predicted_pc := i_pc (R i) + 4\<rparr>)"
proof -
  let ?q = "R i" and ?pc = "i_pc (R i)"
  have C: "?pc \<in> C" using isa_runD [OF assms(2,3)] by (simp add: safe_def)
  then have ac: "access_ok ?pc 4" using assms(2) by (simp add: isa_run_def fetchable_def)
  have w: "w = word_of_bytes (load_bytes (ram_view m) (ram_off ?pc) 4)"
    using code_fetch [OF _ _ ac, of m "blk ` C"] assms(1,4) C by (auto simp: memory_ok_def)
  have "ucast w = code_at (R 0) ?pc" using assms(1) C by (simp add: memory_ok_def w)
  also have "\<dots> = isa_fetch ?q" using isa_run_code [OF assms(2), of i ?pc] assms(3) C by (simp add: code_at_def isa_fetch_def)
  finally have raw: "ucast w = isa_fetch ?q" .
  have "user_op (isa_op ?q)" using isa_run_user [OF assms(2,3)] by simp
  from decode_stage(1,3) [OF refl this [unfolded isa_op_def], of ?pc stk n'] show ?thesis
    by (simp add: raw inst_ok_def fmt_def isa_op_def)
qed

lemma fetch_one_sim:
  assumes sim: "sim C R c m" and run: "isa_run C N R" "c + 40 \<le> N" and s: "s = 0 \<or> s = 1" and v: "pr_valid (latch_if_id (ooo m) ! 0) \<longleftrightarrow> s = 1" "\<not> pr_valid (latch_if_id (ooo m) ! 1)"
    and f: "fetch_one s m = Inr (go, m')"
  shows "sim C R c m'" "s = 0 \<Longrightarrow> go \<Longrightarrow> pr_valid (latch_if_id (ooo m') ! 0) \<and> \<not> pr_valid (latch_if_id (ooo m') ! 1)"
proof -
  let ?t = "ooo m" and ?pc = "ooo_fetch_pc (ooo m) AND 0xffffffff"
  let ?n = "length (insts ?t)"
  have fl: "flow {} R c ?t" and mo: "memory_ok C R c m" and inv: "ooo_inv ?t" and md: "mode_part m = (False, False, False, [], \<lparr>gpr = i_regs (R c), cpu_pc = i_pc (R c)\<rparr>, word_of_nat c)"
    using sim by (simp_all add: sim_def flow_def)
  have iv: "ooo_inv (ooo m')" using fetch_one_keeps [OF f] inv by (simp add: eng_keeps_def)
  obtain f0 f1 where ff: "latch_if_id ?t = [f0, f1]" using ooo_invD [OF inv] by (auto simp: shape_ok_def length_Suc_conv numeral_2_eq_2)
  have code: "ooo_fetch_pc ?t = ?pc \<and> in_ram_range ?pc" if "\<And>j. j < ?n \<Longrightarrow> on_path R c ?t j"
    using fetch_in_code [OF fl run that] in_code_ram [OF run(1)] by simp
  have nN: "c + ?n < N" using in_flight_length(2) [OF inv] run(2) by simp
  have "sim C R c m' \<and> (s = 0 \<and> go \<longrightarrow> pr_valid (latch_if_id (ooo m') ! 0) \<and> \<not> pr_valid (latch_if_id (ooo m') ! 1))"
  proof (cases "in_ram_range ?pc")
    case False
    then have m': "go = False" "m' = with_ooo (\<lambda>t. t\<lparr>ooo_fetch_pc := ?pc + 4\<rparr>) m" using f by (simp_all add: fetch_one_def Let_def)
    have "flow {} R c (ooo m')"
      by (rule fetch_flow [OF fl iv, where b = "latch_if_id ?t" and xs = "[]" and pc = "?pc + 4"]) (use m' v code False in auto)
    then show ?thesis using sim_step [OF sim, of m'] m' mem_eq_kept [of m m'] by (simp add: store_part_def)
  next
    case True
    then obtain w n where w: "vaddr_ifetch ?pc 4 m = Inr (w, n)" using f unfolding fetch_one_def Let_def by auto
    note e = io_eng [OF vaddr_ifetch_frame [OF w]]
    have n: "ooo n = ?t" "mode_part n = mode_part m" using eng_frame_fields(1) [OF e] eng_mode [OF e] by simp_all
    let ?ir = "(ir_decode (ucast w) ?pc (?pc + 4) (pr_ir (latch_if_id (ooo n) ! s)) n)\<lparr>bp_predict_taken := False, bp_predicted_pc := ?pc + 4\<rparr>"
    have "\<not> g_bpred_mode n" "\<not> g_bpred2_mode n" using n(2) md by (simp_all add: mode_part_def)
    then have m': "go" "m' = put_if s ?ir (?pc + 4) n" using f True w by (auto simp: fetch_one_def Let_def)
    let ?b = "(latch_if_id ?t)[s := \<lparr>pr_ir = ?ir, pr_valid = True\<rparr>]"
    have o': "ooo m' = ?t\<lparr>latch_if_id := ?b, ooo_fetch_pc := ?pc + 4\<rparr>" using m'(2) n(1) by (simp add: put_if_def)
    have pc: "ir_pc ?ir = ?pc" by (simp add: decode_pc)
    have ok: "\<exists>ir. [?ir] = [ir] \<and> ir_pc ir = ooo_fetch_pc ?t \<and> (on_path R c ?t ?n \<longrightarrow> inst_ok (R (c + ?n)) ir)" if a: "\<And>j. j < ?n \<Longrightarrow> on_path R c ?t j"
    proof -
      note cd = code [OF a]
      have "inst_ok (R (c + ?n)) ?ir" if "on_path R c ?t ?n"
      proof -
        have "pcs ?t ! ?n = i_pc (R (c + ?n))" using that unfolding on_path_def by blast
        then have "i_pc (R (c + ?n)) = ?pc" using cd by (simp add: pcs_def nth_append)
        then show ?thesis using fetched_inst [OF mo run(1) nN] w by simp
      qed
      then show ?thesis using cd pc by simp
    qed
    have "flow {} R c (ooo m')"
      by (rule fetch_flow [OF fl iv o', where xs = "[?ir]"]) (use s v ff pc ok in auto)
    moreover have "mem_kept (blk ` C) m n" by (rule vaddr_ifetch_any [OF w])
    then have "mem_kept (blk ` C) m m'" using mem_kept_trans mem_eq_kept [of n m'] m'(2) by (auto simp: put_if_def)
    moreover have "mode_part m' = mode_part m" using m'(2) n(2) by (simp add: put_if_def)
    moreover have "store_part (ooo m') = store_part ?t" by (simp add: o' store_part_def)
    ultimately have "sim C R c m'" using sim_step [OF sim] by blast
    then show ?thesis using o' v ff by auto
  qed
  then show "sim C R c m'" "s = 0 \<Longrightarrow> go \<Longrightarrow> pr_valid (latch_if_id (ooo m') ! 0) \<and> \<not> pr_valid (latch_if_id (ooo m') ! 1)" by auto
qed

lemma stage_if_sim:
  assumes sim: "sim C R c m" and run: "isa_run C N R" "c + 40 \<le> N" and f: "ooo_stage_if m = Inr m'"
  shows "sim C R c m'"
proof (cases "pr_valid (latch_if_id (ooo m) ! 0)")
  case False
  have pk: "packed (ooo m)" using sim by (simp add: sim_def flow_def)
  have two: "[0..<2] = [0, Suc 0]" by (simp add: upt_rec)
  obtain go a where a: "fetch_one 0 m = Inr (go, a)" "(if go then fetch_loop [Suc 0] a else Inr a) = Inr m'" using f False unfolding ooo_stage_if_def two by auto
  note o = fetch_one_sim [OF sim run _ _ _ a(1)]
  show ?thesis
  proof (cases go)
    case True
    then obtain g b where b: "fetch_one (Suc 0) a = Inr (g, b)" "m' = b" using a(2) by (auto split: if_splits)
    have "sim C R c a" "pr_valid (latch_if_id (ooo a) ! 0)" "\<not> pr_valid (latch_if_id (ooo a) ! 1)" using o False pk True by (auto simp: packed_def)
    then show ?thesis using fetch_one_sim(1) [OF _ run _ _ _ b(1)] b(2) by simp
  qed (use o(1) a(2) False pk in \<open>auto simp: packed_def\<close>)
qed (use sim f in \<open>simp add: ooo_stage_if_def\<close>)

end
