(* ===== verification/Ooo_Commit.thy ===== *)
theory Ooo_Commit
  imports Ooo_Front
begin

text \<open>
  The end of the line: the oldest instruction commits and the run advances by one step, the oldest buffered store goes to memory.
\<close>

section \<open>Draining the store buffer\<close>

lemma drain_memory:
  assumes run: "isa_run C N R" "c \<le> N" and mo: "memory_ok C R c m" and cnt: "sbuf_count (ooo m) \<noteq> 0"
    and w: "vaddr_write (se_addr (sbuf (ooo m) ! sbuf_head (ooo m))) (se_width (sbuf (ooo m) ! sbuf_head (ooo m))) (se_data (sbuf (ooo m) ! sbuf_head (ooo m))) n = Inr p"
    and n: "mem_eq m n" and p: "mem_eq p m'"
    and t': "sbuf (ooo m') = (sbuf (ooo m))[sbuf_head (ooo m) := (sbuf (ooo m) ! sbuf_head (ooo m))\<lparr>se_valid := False\<rparr>]" "sbuf_head (ooo m') = (sbuf_head (ooo m) + 1) mod 16"
      "sbuf_count (ooo m') = sbuf_count (ooo m) - 1" "sbuf_tail (ooo m') = sbuf_tail (ooo m)"
  shows "memory_ok C R c m'"
proof -
  let ?t = "ooo m" and ?t' = "ooo m'"
  let ?h = "sbuf_head ?t" and ?k = "nat (sbuf_count (ooo m'))"
  let ?se = "sbuf ?t ! ?h"
  have ring: "sbuf_ring ?t" and sf: "suffix (sbuf_list ?t) (run_stores R c)" using mo by (simp_all add: memory_ok_def)
  have f: "length (sbuf ?t) = 16" "?h < 16" "0 < sbuf_count ?t" "sbuf_count ?t \<le> 16" "sbuf_tail ?t = (?h + nat (sbuf_count ?t)) mod 16" using ring cnt by (auto simp: sbuf_ring_def)
  have k: "nat (sbuf_count ?t) = Suc ?k" "Suc ?k \<le> 16" using f t'(3) by simp_all
  have win: "sbuf_window ?t = ?se # sbuf_window ?t'"
  proof -
    have "window (sbuf ?t') ((?h + 1) mod 16) ?k = window (sbuf ?t) ((?h + 1) mod 16) ?k"
    proof (rule nth_equalityI)
      fix j assume "j < length (window (sbuf ?t') ((?h + 1) mod 16) ?k)"
      then have j: "Suc j < 16" "j < ?k" using k by simp_all
      have "((?h + 1) mod 16 + j) mod 16 = (?h + Suc j) mod 16" by (simp add: mod_simps)
      moreover have "(?h + Suc j) mod 16 \<noteq> ?h" using slot_inj [of "Suc j" 16 0 ?h] j f(2) by auto
      ultimately show "window (sbuf ?t') ((?h + 1) mod 16) ?k ! j = window (sbuf ?t) ((?h + 1) mod 16) ?k ! j" using j f(1) t'(1) by simp
    qed simp
    then show ?thesis using window_Cons [of ?h "sbuf ?t" ?k] f k(1) t'(2) by (simp add: sbuf_window_def)
  qed
  let ?a = "se_addr ?se" and ?w = "se_width ?se" and ?d = "se_data ?se"
  have lst: "sbuf_list ?t = (?a, ?w, ?d) # sbuf_list ?t'" using win by (simp add: sbuf_list_def)
  then have "(?a, ?w, ?d) \<in> set (run_stores R c)" using sf by (auto simp: suffix_def)
  note so = run_store_ok [OF run this]
  note me = mem_eq_sys [OF n] and ce = code_clean_mem_eq [OF n] and pe = mem_eq_sys [OF p] and pc = code_clean_mem_eq [OF p]
  have mn: "mem_sys n" "code_clean (blk ` C) n" "ram_view n = ram_view m" using mo me ce by (simp_all add: memory_ok_def)
  obtain q where q: "vaddr_write ?a ?w ?d n = Inr q" "mem_sys q" "mem_frame (mem_caches n) n q" "ram_view q = store_bytes (ram_view n) (ram_off ?a) (bytes_of_word ?w ?d)"
      "dirty (data_caches n) q \<subseteq> insert (blk ?a) (dirty (data_caches n) n)"
    using vaddr_write_sys [OF mn(1) so(1)] by blast
  then have qp: "q = p" using w by simp
  have cl: "code_clean (blk ` C) q" using code_clean_write [OF mn(1) q(2) mn(2) q(3) so q(5,4)] .
  have m': "mem_sys m'" "code_clean (blk ` C) m'" "ram_view m' = put_store (?a, ?w, ?d) (ram_view m)"
    using pe pc q(2,4) cl mn(3) qp by (simp_all add: put_store_def)
  have "load_bytes (ram_view m') (ram_off a) 4 = load_bytes (ram_view m) (ram_off a) 4" if "a \<in> C" for a
  proof -
    have "access_ok a 4" "blk a \<noteq> blk ?a" using run(1) that so(2) imageI [OF that, of blk] by (auto simp: isa_run_def fetchable_def simp del: image_eqI)
    then show ?thesis using load_other_block [OF _ so(1)] by (simp add: m'(3) put_store_def)
  qed
  moreover have "sbuf_ring ?t'"
  proof -
    have "((?h + 1) mod 16 + ?k) mod 16 = (?h + Suc ?k) mod 16" by (simp add: mod_simps)
    then show ?thesis using ring f k t' win by (simp add: sbuf_ring_def)
  qed
  moreover have "suffix (sbuf_list ?t') (run_stores R c)" using sf lst suffix_ConsD by metis
  moreover have "i_mem (R c) = fold put_store (sbuf_list ?t') (ram_view m')" using mo lst m'(3) by (simp add: memory_ok_def)
  ultimately show ?thesis using mo m'(1,2) by (simp add: memory_ok_def)
qed

lemma drain_sim:
  assumes sim: "sim C R c m" and run: "isa_run C N R" "c + 40 \<le> N" and d: "ooo_drain_store_buf m = Inr m'"
  shows "sim C R c m'"
proof -
  have inv: "ooo_inv (ooo m)" and mo: "memory_ok C R c m" and fl: "flow {} R c (ooo m)" using sim by (simp_all add: sim_def flow_def)
  have iv: "ooo_inv (ooo m')" using drain_keeps [OF d] inv by (simp add: eng_keeps_def)
  have sb: "flow_part (t\<lparr>sbuf_drain_tick := x\<rparr>) = flow_part t" "unit_set (t\<lparr>sbuf_drain_tick := x\<rparr>) = unit_set t" "store_part (t\<lparr>sbuf_drain_tick := x\<rparr>) = store_part t"
      "flow_part (t\<lparr>sbuf := a, sbuf_head := h, sbuf_count := k\<rparr>) = flow_part t" "unit_set (t\<lparr>sbuf := a, sbuf_head := h, sbuf_count := k\<rparr>) = unit_set t" for t x a h k
    by (simp_all add: flow_part_def unit_set_def store_part_def)
  show ?thesis
  proof (cases "sbuf_count (ooo m) = 0 \<or> g_num_cores m > 1 \<and> sbuf_drain_tick (ooo m) > 0")
    case True
    have "m' = m \<or> m' = m\<lparr>ooo := (ooo m)\<lparr>sbuf_drain_tick := sbuf_drain_tick (ooo m) - 1\<rparr>\<rparr>"
    proof (cases "sbuf_count (ooo m) = 0")
      case empty: False
      then have "g_num_cores m > 1 \<and> sbuf_drain_tick (ooo m) > 0" using True by blast
      then have "Inr (m\<lparr>ooo := (ooo m)\<lparr>sbuf_drain_tick := sbuf_drain_tick (ooo m) - 1\<rparr>\<rparr>) = (Inr m' :: machine res)" using d empty unfolding ooo_drain_store_buf_def Let_def by (simp only: if_True if_False simp_thms)
      then show ?thesis by blast
    next
      case full: True
      then have "Inr m = (Inr m' :: machine res)" using d unfolding ooo_drain_store_buf_def Let_def by (simp only: if_True simp_thms)
      then show ?thesis by blast
    qed
    then show ?thesis
    proof
      assume m': "m' = m\<lparr>ooo := (ooo m)\<lparr>sbuf_drain_tick := sbuf_drain_tick (ooo m) - 1\<rparr>\<rparr>"
      have "mem_eq m m'" "mode_part m' = mode_part m" by (simp_all add: m' mem_eq_def mode_part_def)
      then show ?thesis using sim_same_flow [OF sim mem_eq_kept _ iv] by (simp add: m' sb)
    qed (use sim in simp)
  next
    case False
    let ?h = "sbuf_head (ooo m)"
    let ?se = "sbuf (ooo m) ! ?h"
    have c: "\<not> sbuf_count (ooo m) = 0" "\<not> (g_num_cores m > 1 \<and> sbuf_drain_tick (ooo m) > 0)" using False by auto
    define n where "n = (if g_num_cores m > 1 then m\<lparr>ooo := (ooo m)\<lparr>sbuf_drain_tick := 7\<rparr>\<rparr> else m)"
    have "bind_res (vaddr_write (se_addr ?se) (se_width ?se) (se_data ?se) n) (\<lambda>m.
       Inr (with_ooo (\<lambda>t. t\<lparr>sbuf := (sbuf t)[?h := ?se\<lparr>se_valid := False\<rparr>], sbuf_head := (?h + 1) mod 16, sbuf_count := sbuf_count t - 1\<rparr>) m)) = Inr m'"
      using d c unfolding ooo_drain_store_buf_def Let_def n_def [symmetric] by (simp only: if_False)
    then obtain p where p: "vaddr_write (se_addr ?se) (se_width ?se) (se_data ?se) n = Inr p"
        "m' = with_ooo (\<lambda>t. t\<lparr>sbuf := (sbuf t)[?h := ?se\<lparr>se_valid := False\<rparr>], sbuf_head := (?h + 1) mod 16, sbuf_count := sbuf_count t - 1\<rparr>) p" by auto
    note e = io_eng [OF vaddr_write_frame [OF p(1)]]
    have n: "mem_eq m n" "mode_part n = mode_part m" "flow_part (ooo n) = flow_part (ooo m)" "unit_set (ooo n) = unit_set (ooo m)" "store_part (ooo n) = store_part (ooo m)"
      by (simp_all add: n_def mem_eq_def mode_part_def sb)
    have o: "ooo p = ooo n" "mode_part p = mode_part n" using eng_frame_fields(1) [OF e] eng_mode [OF e] by simp_all
    have s: "sbuf (ooo p) = sbuf (ooo m)" "sbuf_count (ooo p) = sbuf_count (ooo m)" "sbuf_tail (ooo p) = sbuf_tail (ooo m)" using n(5) o(1) by (simp_all add: store_part_def)
    have "memory_ok C R c m'" by (rule drain_memory [OF run(1) _ mo c(1) p(1) n(1)]) (use run(2) p(2) s in simp_all)
    moreover have "flow {} R c (ooo m')" by (rule flow_latch [OF fl iv]) (use p(2) n o sb in simp_all)
    moreover have "mode_part m' = mode_part m" using p(2) o n by simp
    ultimately show ?thesis using sim by (simp add: sim_def)
  qed
qed

section \<open>The line moves up\<close>

lemma dist_shift:
  assumes "h < 32" and "i < 32" and "i \<noteq> h"
  shows "Suc ((i + 32 - (h + 1) mod 32) mod 32) = (i + 32 - h) mod (32 :: nat)"
proof -
  let ?d = "(i + 32 - h) mod 32"
  have d: "(h + ?d) mod 32 = i" "?d < 32" using slot_at [of h 32 i] assms by simp_all
  then obtain k where k: "?d = Suc k" using assms(1,3) by (cases ?d) auto
  have "((h + 1) mod 32 + k) mod 32 = i" using d(1) k by (simp add: mod_simps)
  then have "(i + 32 - (h + 1) mod 32) mod 32 = k" using dist_slot [of "(h + 1) mod 32" 32 k] d(2) k by simp
  then show ?thesis using k by simp
qed

lemma shift_flow:
  assumes flow: "flow {} R c t" and inv': "ooo_inv t'" and es: "in_flight t = e # es" "in_flight t' = es" and rdy: "rob_ready e"
    and hd: "rob_head t' = (rob_head t + 1) mod 32" and rr: "rrat t' = map_step e (rrat t)"
    and ph: "map p_value (phys t') = map p_value (phys t)" "\<And>x. p_ready (phys t' ! x) \<Longrightarrow> p_ready (phys t ! x)"
    and same: "rs_tab t' = rs_tab t" "unit_set t' = unit_set t" "latch_id_rn t' = latch_id_rn t" "latch_if_id t' = latch_if_id t" "ooo_fetch_pc t' = ooo_fetch_pc t"
    and base: "base_ok R (Suc c) t'"
  shows "flow {} R (Suc c) t'"
proof -
  note fl = flow [unfolded flow_def]
  have inv: "ooo_inv t" using fl by simp
  have fr: "front t' = front t" using same by (simp add: front_def)
  have ins: "insts t = rob_ir e # insts t'" using es fr by (simp add: insts_def)
  have pcs: "pcs t = ir_pc (rob_ir e) # pcs t'" using ins same(5) by (simp add: pcs_def)
  have p0: "pcs t ! 0 = i_pc (R c)" using fl by (simp add: links_ok_def)
  have on: "on_path R (Suc c) t' k \<longleftrightarrow> on_path R c t (Suc k)" for k
    using p0 unfolding on_path_def pcs less_Suc_eq_le [symmetric] All_less_Suc2 [of "Suc k"] by simp
  have mp: "map_at t' k = map_at t (Suc k)" for k by (simp add: map_at_def es rr)
  have pl: "length (phys t) = 64" "length (phys t') = 64" using ooo_invD [OF inv] ooo_invD [OF inv'] by (simp_all add: shape_ok_def)
  have pv: "p_value (phys t' ! x) = p_value (phys t ! x)" if "x < 64" for x using arg_cong [OF ph(1), of "\<lambda>xs. xs ! x"] that pl by simp
  have dist: "rob_dist t i = Suc (rob_dist t' i)" if "(i, p) \<in># tokens t'" for i p
  proof -
    have ri: "rings_ok t'" "rings_ok t" using ooo_invD [OF inv'] ooo_invD [OF inv] by simp_all
    have i: "i < 32" "rob_dist t' i < length es" using token_entry(1) [OF inv' that] token_place(1) [OF inv' that] es(2) by simp_all
    have "length es < 32" using in_flight_length(1) [OF inv] es(1) by simp
    moreover have "rob_head t < 32" using rob_ring_fields [OF ri(2)] by simp
    moreover from this have "rob_dist t' (rob_head t) = 31" using hd by (cases "rob_head t = 31") (simp_all add: rob_dist_def)
    ultimately show ?thesis using dist_shift [of "rob_head t" i] i hd by (force simp: rob_dist_def)
  qed
  have ent: "entries_ok R (Suc c) t'"
    unfolding entries_ok_def on
  proof (intro allI impI)
    fix k assume k: "k < length (in_flight t')" and p: "on_path R c t (Suc k)"
    have x: "in_flight t ! Suc k = in_flight t' ! k" "Suc k < length (in_flight t)" using k es by simp_all
    then have o: "entry_ok (R (c + Suc k)) (in_flight t' ! k)" "target_ok (R (c + Suc (Suc k))) (phys t) (in_flight t' ! k)" using fl p by (auto simp: entries_ok_def)
    have "slot_of (in_flight t' ! k) \<in> set (r_flight (renaming_of t'))" using flight_slots [of t'] ooo_invD [OF inv'] k by simp
    then have "0 < arch_rd (in_flight t' ! k) \<Longrightarrow> nat (rob_phys_rd (in_flight t' ! k)) < 64"
      using slot_target [of "renaming_of t'"] ooo_invD [OF inv'] by (force simp: writes_def slot_of_def nat_less_iff)
    then have "target_ok (R (c + Suc (Suc k))) (phys t') (in_flight t' ! k)" using o(2) pv ph(2) by (auto simp: target_ok_def Let_def)
    then show "entry_ok (R (Suc c + k)) (in_flight t' ! k) \<and> target_ok (R (Suc c + Suc k)) (phys t') (in_flight t' ! k)" using o(1) by simp
  qed
  have frn: "front_ok R (Suc c) t'"
    unfolding front_ok_def on
  proof (intro allI impI)
    fix k assume k: "length (in_flight t') \<le> k \<and> k < length (insts t') \<and> on_path R c t (Suc k)"
    then have "inst_ok (R (c + Suc k)) (insts t ! Suc k)" using fl es ins unfolding front_ok_def by (metis Suc_le_mono Suc_less_eq length_Cons)
    then show "inst_ok (R (Suc c + k)) (insts t' ! k)" using ins by simp
  qed
  have st: "stations_ok R (Suc c) t'"
    unfolding stations_ok_def Let_def on mp
  proof (intro allI impI)
    fix i assume i: "i < 16" and v: "rs_valid (rs_tab t' ! i) \<and> on_path R c t (Suc (rob_dist t' (rs_rob_idx (rs_tab t' ! i))))"
    have d: "rob_dist t (rs_rob_idx (rs_tab t' ! i)) = Suc (rob_dist t' (rs_rob_idx (rs_tab t' ! i)))" using dist [OF station_token [OF inv' i]] v by simp
    have "station_ok (R (c + rob_dist t (rs_rob_idx (rs_tab t' ! i)))) (map_at t (rob_dist t (rs_rob_idx (rs_tab t' ! i)))) (rob_ir (in_flight t ! rob_dist t (rs_rob_idx (rs_tab t' ! i)))) (rs_tab t' ! i)"
    proof -
      have "on_path R c t (rob_dist t (rs_rob_idx (rs_tab t' ! i)))" using v d by simp
      then show ?thesis using fl i v unfolding stations_ok_def Let_def same(1) by blast
    qed
    then show "station_ok (R (Suc c + rob_dist t' (rs_rob_idx (rs_tab t' ! i)))) (map_at t (Suc (rob_dist t' (rs_rob_idx (rs_tab t' ! i)))))
        (rob_ir (in_flight t' ! rob_dist t' (rs_rob_idx (rs_tab t' ! i)))) (rs_tab t' ! i)"
      by (simp add: d es)
  qed
  have un: "units_ok R (Suc c) t'"
    unfolding units_ok_def Let_def on
  proof (intro allI impI)
    fix eu l assume m: "(eu, l) \<in> unit_set t'" and p: "on_path R c t (Suc (rob_dist t' (l_rob_idx l)))"
    have d: "rob_dist t (l_rob_idx l) = Suc (rob_dist t' (l_rob_idx l))" using dist [OF unit_token [OF m]] .
    have "unit_ok (R (c + rob_dist t (l_rob_idx l))) (take (rob_dist t (l_rob_idx l)) (in_flight t)) (rob_ir (in_flight t ! rob_dist t (l_rob_idx l))) eu l"
    proof -
      have "on_path R c t (rob_dist t (l_rob_idx l))" using p d by simp
      then show ?thesis using fl m unfolding units_ok_def Let_def same(2) by blast
    qed
    then show "unit_ok (R (Suc c + rob_dist t' (l_rob_idx l))) (take (rob_dist t' (l_rob_idx l)) (in_flight t')) (rob_ir (in_flight t' ! rob_dist t' (l_rob_idx l))) eu l"
      by (auto simp: d es unit_ok_def load_ok_def)
  qed
  have "links_ok {} R (Suc c) t'"
  proof -
    have "pcs t ! Suc 0 = i_pc (R (Suc c))" using fl ins es rdy p0 by (auto simp: links_ok_def on_path_def)
    then have a: "pcs t' ! 0 = i_pc (R (Suc c))" using pcs by simp
    have "pcs t' ! Suc k = (if k < length es \<and> rob_ready (es ! k) then i_pc (R (Suc c + Suc k)) else i_pc (R (Suc c + k)) + 4)"
      if k: "k < length (insts t')" "on_path R c t (Suc k)" for k
    proof -
      have "Suc k < length (insts t)" using k ins by simp
      then have "pcs t ! Suc (Suc k) = (if Suc k < length (in_flight t) \<and> rob_ready (in_flight t ! Suc k) then i_pc (R (c + Suc (Suc k))) else i_pc (R (c + Suc k)) + 4)"
        using fl k(2) unfolding links_ok_def by blast
      then show ?thesis using pcs es by simp
    qed
    then show ?thesis using a unfolding links_ok_def on es(2) by simp
  qed
  moreover have "packed t'" using fl same by (simp add: packed_def)
  ultimately show ?thesis using inv' base ent frn st un by (simp add: flow_def)
qed

section \<open>Commit\<close>

lemma executed_next:
  assumes "executed (isa_op q) (isa_fetch q) q ir" and "user_op (isa_op q)"
  shows "dnpc ir = i_pc (isa_next q)" "ir_type ir = ITYPE_STORE \<longleftrightarrow> isa_op q \<in> store_ops"
    "isa_op q \<in> store_ops \<Longrightarrow> mem_addr ir = isa_addr (isa_op q) (isa_fetch q) q \<and> mem_width ir = access_width (isa_op q)"
proof -
  have x: "isa_op q \<in> load_ops \<union> store_ops \<Longrightarrow> isa_op q \<notin> control_ops" "isa_op q \<in> store_ops \<Longrightarrow> isa_op q \<notin> load_ops" by (auto simp: control_ops_def load_ops_def store_ops_def)
  show "dnpc ir = i_pc (isa_next q)" using assms sequential_op [OF assms(2) x(1)] by (auto simp: executed_def retired_def isa_next_def split: if_splits)
  show "ir_type ir = ITYPE_STORE \<longleftrightarrow> isa_op q \<in> store_ops" "isa_op q \<in> store_ops \<Longrightarrow> mem_addr ir = isa_addr (isa_op q) (isa_fetch q) q \<and> mem_width ir = access_width (isa_op q)"
    using assms(1) x(2) by (auto simp: executed_def split: if_splits)
qed

text \<open>The registers after the commit are those after the ISA step.\<close>

lemma commit_regs:
  assumes "length (i_regs q) = 32" and "i_regs q ! 0 = 0" and "arch_rd e = isa_rd q" and "0 < arch_rd e \<Longrightarrow> v = i_regs (isa_next q) ! nat (arch_rd e)"
  shows "(if arch_rd e \<noteq> -1 \<and> arch_rd e \<noteq> 0 then (i_regs q)[nat (arch_rd e) := v] else i_regs q)[0 := 0] = i_regs (isa_next q)"
proof (rule nth_equalityI)
  note r = isa_regs_ok [OF assms(1,2)] and rd = isa_rd_range [of q]
  show "length ((if arch_rd e \<noteq> -1 \<and> arch_rd e \<noteq> 0 then (i_regs q)[nat (arch_rd e) := v] else i_regs q)[0 := 0]) = length (i_regs (isa_next q))" using r assms(1) by simp
  fix i assume "i < length ((if arch_rd e \<noteq> -1 \<and> arch_rd e \<noteq> 0 then (i_regs q)[nat (arch_rd e) := v] else i_regs q)[0 := 0])"
  then have i: "i < 32" using assms(1) by (simp split: if_splits)
  show "(if arch_rd e \<noteq> -1 \<and> arch_rd e \<noteq> 0 then (i_regs q)[nat (arch_rd e) := v] else i_regs q)[0 := 0] ! i = i_regs (isa_next q) ! i"
  proof (cases "0 < i \<and> isa_rd q \<noteq> int i")
    case True
    then show ?thesis using isa_other_reg [of i q] assms(1,3) rd i by (auto simp: nth_list_update)
  next
    case False
    then show ?thesis using r assms i by (cases "i = 0") auto
  qed
qed

lemma push_memory:
  assumes mo: "memory_ok C R c m" and st: "isa_store (R c) = [(mem_addr (rob_ir e), mem_width (rob_ir e), store_data e)]" and cnt: "sbuf_count (ooo m) < 16"
    and nx: "R (Suc c) = isa_next (R c)" and me: "mem_eq m m'" and sp: "store_part (ooo m') = store_part (sbuf_push e (ooo m))"
  shows "memory_ok C R (Suc c) m'"
proof -
  let ?t = "ooo m" and ?t' = "ooo m'" and ?n = "nat (sbuf_count (ooo m))"
  let ?se = "\<lparr>se_addr = mem_addr (rob_ir e), se_data = store_data e, se_width = mem_width (rob_ir e), se_valid = True\<rparr>"
  have ring: "sbuf_ring ?t" using mo by (simp add: memory_ok_def)
  have f: "length (sbuf ?t) = 16" "sbuf_head ?t < 16" "0 \<le> sbuf_count ?t" "sbuf_tail ?t = (sbuf_head ?t + ?n) mod 16" "\<forall>se\<in>set (sbuf_window ?t). se_valid se" using ring by (simp_all add: sbuf_ring_def)
  have t': "sbuf ?t' = (sbuf ?t)[sbuf_tail ?t := ?se]" "sbuf_head ?t' = sbuf_head ?t" "sbuf_tail ?t' = (sbuf_tail ?t + 1) mod 16" "sbuf_count ?t' = sbuf_count ?t + 1"
    using sp by (simp_all add: store_part_def sbuf_push_def)
  have n: "?n < 16" "nat (sbuf_count ?t + 1) = Suc ?n" using f(3) cnt by simp_all
  have win: "sbuf_window ?t' = sbuf_window ?t @ [?se]"
    using window_push [of ?n "sbuf ?t" "sbuf_head ?t" ?se] f n by (simp add: sbuf_window_def t')
  have lst: "sbuf_list ?t' = sbuf_list ?t @ isa_store (R c)" using win st by (simp add: sbuf_list_def)
  have "sbuf_ring ?t'" using f n cnt win by (simp add: sbuf_ring_def t' mod_simps)
  moreover have "run_stores R (Suc c) = run_stores R c @ isa_store (R c)" by (simp add: run_stores_def)
  then have "suffix (sbuf_list ?t') (run_stores R (Suc c))" using mo lst by (simp add: memory_ok_def suffix_def)
  moreover have "i_mem (R (Suc c)) = fold put_store (sbuf_list ?t') (ram_view m)" using mo lst by (simp add: memory_ok_def nx isa_next_mem)
  ultimately show ?thesis using mo mem_eq_sys [OF me] code_clean_mem_eq [OF me] by (simp add: memory_ok_def)
qed

lemma pass_memory:
  assumes mo: "memory_ok C R c m" and st: "isa_store (R c) = []" and nx: "R (Suc c) = isa_next (R c)" and me: "mem_eq m m'" and sp: "store_part (ooo m') = store_part (ooo m)"
  shows "memory_ok C R (Suc c) m'"
proof -
  have "run_stores R (Suc c) = run_stores R c" using st by (simp add: run_stores_def)
  then show ?thesis
    using memory_ok_kept [OF mo mem_eq_kept [OF me] sp] by (simp add: memory_ok_def nx isa_next_mem st)
qed

lemma head_entry:
  assumes "flow {} R c t" and "isa_run C N R" and "c + 40 \<le> N" and "rob_count t \<noteq> 0" and "rob_ready (rob t ! rob_head t)"
  defines "e \<equiv> rob t ! rob_head t"
  shows "in_flight t = e # tl (in_flight t)" "finished (R c) e" "target_ok (R (Suc c)) (phys t) e" "arch_rd e = isa_rd (R c)"
proof -
  have inv: "ooo_inv t" using assms(1) by (simp add: flow_def)
  note f = rob_ring_fields [of t]
  have ri: "rings_ok t" using ooo_invD [OF inv] by simp
  then obtain k where k: "nat (rob_count t) = Suc k" using assms(4) f(3) by (metis not0_implies_Suc nat_0_iff order_antisym)
  show es: "in_flight t = e # tl (in_flight t)" using window_Cons [of "rob_head t" "rob t" k] f(1,2) ri k by (simp add: in_flight_def e_def)
  have "pcs t ! 0 = i_pc (R c)" using assms(1) by (simp add: flow_def links_ok_def)
  then have p: "on_path R c t 0" by (simp add: on_path_def)
  have "in_flight t ! 0 = e" "0 < length (in_flight t)" using es by (metis nth_Cons_0, metis length_greater_0_conv list.distinct(1))
  then have "entry_ok (R c) e" "target_ok (R (Suc c)) (phys t) e" using assms(1) p by (auto simp: flow_def entries_ok_def)
  then show "finished (R c) e" "target_ok (R (Suc c)) (phys t) e" "arch_rd e = isa_rd (R c)" using assms(5) by (simp_all add: entry_ok_def e_def)
qed

text \<open>What retiring the head and dropping it does to the engine.\<close>

lemma retire_flow:
  assumes flow: "flow {} R c t" and run: "isa_run C N R" "c + 40 \<le> N" and h: "rob_count t \<noteq> 0" "rob_ready (rob t ! rob_head t)" "rob_valid (rob t ! rob_head t)"
    and t: "ooo n = t" and q: "ooo q = ooo (retire (rob t ! rob_head t) n)"
  shows "flow {} R (Suc c) (ooo (drop_head q))" "store_part (ooo (drop_head q)) = store_part t"
proof -
  let ?e = "rob t ! rob_head t" and ?t = "ooo (drop_head q)"
  have inv: "ooo_inv t" using flow by (simp add: flow_def)
  have ri: "rings_ok t" using ooo_invD [OF inv] by simp
  note f = rob_ring_fields [OF ri] and he = head_entry [OF flow run h(1,2)]
  have cnt: "0 < rob_count t" using h(1) f(3) by simp
  note di = drop_head_inv [of n q, unfolded t, OF inv cnt h(3,2) q]
  have oq: "ooo q = (if arch_rd ?e \<noteq> -1 \<and> arch_rd ?e \<noteq> 0 then freelist_push (old_phys ?e) (set_unready (old_phys ?e)
      (t\<lparr>rrat := (rrat t)[nat (arch_rd ?e) := rob_phys_rd ?e]\<rparr>)) else t)" using q t by (simp add: retire_def Let_def)
  have u: "rob (ooo q) = rob t" "rob_head (ooo q) = rob_head t" "rob_count (ooo q) = rob_count t" "rrat (ooo q) = map_step ?e (rrat t)" "rs_tab (ooo q) = rs_tab t" "unit_set (ooo q) = unit_set t"
      "latch_id_rn (ooo q) = latch_id_rn t" "latch_if_id (ooo q) = latch_if_id t" "ooo_fetch_pc (ooo q) = ooo_fetch_pc t" "store_part (ooo q) = store_part t"
      "phys (ooo q) = (if arch_rd ?e \<noteq> -1 \<and> arch_rd ?e \<noteq> 0 then (phys t)[nat (old_phys ?e) := (phys t ! nat (old_phys ?e))\<lparr>p_ready := False\<rparr>] else phys t)"
    by (simp_all add: oq freelist_push_def set_unready_def map_step_def unit_set_def store_part_def Let_def)
  have t': "rob ?t = (rob t)[rob_head t := ?e\<lparr>rob_valid := False\<rparr>]" "rob_head ?t = (rob_head t + 1) mod 32" "rob_count ?t = rob_count t - 1" "rrat ?t = rrat (ooo q)"
      "rs_tab ?t = rs_tab (ooo q)" "unit_set ?t = unit_set (ooo q)" "latch_id_rn ?t = latch_id_rn (ooo q)" "latch_if_id ?t = latch_if_id (ooo q)" "ooo_fetch_pc ?t = ooo_fetch_pc (ooo q)"
      "store_part ?t = store_part (ooo q)" "phys ?t = phys (ooo q)"
    using u by (simp_all add: drop_head_def put_rob_def unit_set_def store_part_def Let_def)
  show "store_part ?t = store_part t" using t'(10) u(10) by simp
  have es: "in_flight ?t = tl (in_flight t)"
  proof -
    define k where "k = nat (rob_count t - 1)"
    have k: "nat (rob_count t) = Suc k" "nat (rob_count t - 1) = k" using cnt by (simp_all add: k_def Suc_nat_eq_nat_zadd1)
    have "window (rob ?t) ((rob_head t + 1) mod 32) k = window (rob t) ((rob_head t + 1) mod 32) k"
    proof (rule nth_equalityI)
      fix j assume "j < length (window (rob ?t) ((rob_head t + 1) mod 32) k)"
      then have j: "Suc j < 32" "j < k" using k f(4) by simp_all
      have "((rob_head t + 1) mod 32 + j) mod 32 = (rob_head t + Suc j) mod 32" by (simp add: mod_simps)
      moreover have "(rob_head t + Suc j) mod 32 \<noteq> rob_head t" using slot_inj [of "Suc j" 32 0 "rob_head t"] j f(2) by auto
      ultimately show "window (rob ?t) ((rob_head t + 1) mod 32) k ! j = window (rob t) ((rob_head t + 1) mod 32) k ! j" using j f(1) t'(1) by simp
    qed simp
    then show ?thesis using window_Cons [of "rob_head t" "rob t" k] f(1,2) k t'(2,3) by (simp add: in_flight_def)
  qed
  have ph: "map p_value (phys ?t) = map p_value (phys t)" "p_ready (phys ?t ! x) \<Longrightarrow> p_ready (phys t ! x)" for x
  proof -
    have a: "map p_value (ps[i := (ps ! i)\<lparr>p_ready := False\<rparr>]) = map p_value ps" "p_ready (ps[i := (ps ! i)\<lparr>p_ready := False\<rparr>] ! x) \<Longrightarrow> p_ready (ps ! x)" for ps i
      by (cases "i < length ps"; simp add: map_update list_update_same_conv list_update_beyond) (cases "i = x"; cases "i < length ps"; simp add: list_update_beyond)
    show "map p_value (phys ?t) = map p_value (phys t)" "p_ready (phys ?t ! x) \<Longrightarrow> p_ready (phys t ! x)" using a t'(11) u(11) by (auto split: if_splits)
  qed
  have base: "base_ok R (Suc c) ?t"
    unfolding base_ok_def
  proof (intro allI impI, elim conjE)
    fix r assume r: "0 < r" "r < (32 :: nat)"
    have nx: "R (Suc c) = isa_next (R c)" using isa_runD [OF run(1), of c] run(2) by simp
    have cm: "committed ?t r = (if arch_rd ?e \<noteq> -1 \<and> arch_rd ?e \<noteq> 0 \<and> nat (arch_rd ?e) = r then p_value (phys t ! nat (rob_phys_rd ?e)) else committed t r)"
      using di(2) [OF r] by (simp add: Let_def)
    show "committed ?t r = i_regs (R (Suc c)) ! r"
    proof (cases "arch_rd ?e = int r")
      case True
      then show ?thesis using cm he(3) r h(2) by (simp add: target_ok_def Let_def)
    next
      case False
      then have "nat (arch_rd ?e) \<noteq> r \<or> arch_rd ?e = -1 \<or> arch_rd ?e = 0" using isa_rd_range [of "R c"] he(4) by auto
      moreover have "committed t r = i_regs (R c) ! r" using flow r by (simp add: flow_def base_ok_def)
      ultimately show ?thesis using cm isa_other_reg [OF r(1), of "R c"] False he(4) nx by auto
    qed
  qed
  show "flow {} R (Suc c) ?t"
    by (rule shift_flow [OF flow di(1) he(1) es h(2) t'(2) _ ph _ _ _ _ _ base]) (simp_all add: t'(4-9) u)
qed

lemma commit_one_sim:
  assumes sim: "sim C R c m" and run: "isa_run C N R" "c + 40 \<le> N" and co: "commit_one stk m = Inr (go, m')"
  shows "sim C R (if go then Suc c else c) m'"
proof (cases go)
  case False
  then have "m' = m" using co by (auto simp: commit_one_def Let_def guard_eq_Inr split: if_splits)
  then show ?thesis using sim False by simp
next
  case True
  let ?t = "ooo m"
  let ?e = "rob ?t ! rob_head ?t"
  let ?ir = "rob_ir ?e"
  have fl: "flow {} R c ?t" and mo: "memory_ok C R c m" and md: "mode_part m = (False, False, False, [], \<lparr>gpr = i_regs (R c), cpu_pc = i_pc (R c)\<rparr>, word_of_nat c)" using sim by (simp_all add: sim_def)
  have h: "rob_count ?t \<noteq> 0" "rob_ready ?e" "rob_valid ?e" and full: "\<not> (ir_type ?ir = ITYPE_STORE \<and> in_ram_range (mem_addr ?ir) \<and> sbuf_count ?t \<ge> 16)"
    using co True by (auto simp: commit_one_def Let_def guard_eq_Inr split: if_splits)
  note he = head_entry [OF fl run h(1,2)]
  have cN: "c < N" using run(2) by simp
  have us: "user_ok (isa_op (R c)) (isa_fetch (R c)) (R c)" "user_op (isa_op (R c))" using isa_run_user [OF run(1) cN] by simp_all
  have nx: "R (Suc c) = isa_next (R c)" using isa_runD [OF run(1) cN] by simp
  have ex: "executed (isa_op (R c)) (isa_fetch (R c)) (R c) ?ir" using he(2) by (simp add: finished_def)
  note xn = executed_next [OF ex us(2)]
  have ram: "in_ram_range (mem_addr ?ir)" if "ir_type ?ir = ITYPE_STORE" using that xn(2,3) us(1) mem_access_in_ram(1) by (auto simp: user_ok_def)
  have w: "bind_res (if ir_type ?ir = ITYPE_STORE then if in_ram_range (mem_addr ?ir) then Inr (m\<lparr>ooo := sbuf_push ?e ?t\<rparr>)
        else vaddr_write (mem_addr ?ir) (mem_width ?ir) (store_data ?e) m else Inr m) (\<lambda>m.
         let m = retire ?e m in
         bind_res (if difftest_active m then difftest_check stk ?e m else Inr m) (\<lambda>m. Inr (True, drop_head m))) = Inr (go, m')"
    using co True by (auto simp: commit_one_def Let_def guard_eq_Inr split: if_splits)
  define n where "n = (if ir_type ?ir = ITYPE_STORE then m\<lparr>ooo := sbuf_push ?e ?t\<rparr> else m)"
  have n: "cpu n = cpu m" "difftest_active n = difftest_active m" "mem_eq m n" "rob (ooo n) = rob ?t" "rob_head (ooo n) = rob_head ?t" "rob_count (ooo n) = rob_count ?t"
      "phys (ooo n) = phys ?t" "mode_part n = mode_part m" "flow_part (ooo n) = flow_part ?t" "unit_set (ooo n) = unit_set ?t"
      "store_part (ooo n) = store_part (if ir_type ?ir = ITYPE_STORE then sbuf_push ?e ?t else ?t)"
    by (simp_all add: n_def mem_eq_def sbuf_push_def mode_part_def flow_part_def unit_set_def)
  have da: "\<not> difftest_active (retire ?e n)" using md n(2) retire_rest(1) [of n n ?e] by (simp add: mode_part_def)
  have m': "m' = drop_head (retire ?e n)"
  proof -
    have "(if ir_type ?ir = ITYPE_STORE then if in_ram_range (mem_addr ?ir) then Inr (m\<lparr>ooo := sbuf_push ?e ?t\<rparr>)
        else vaddr_write (mem_addr ?ir) (mem_width ?ir) (store_data ?e) m else Inr m) = (Inr n :: machine res)" using ram by (simp add: n_def)
    then show ?thesis using w da by (simp add: Let_def)
  qed
  have fn: "flow {} R c (ooo n)"
  proof -
    have "ooo_inv (ooo n)" using sbuf_push_keeps [of ?t ?e] fl by (simp add: n_def keeps_def flow_def)
    then show ?thesis using flow_latch [OF fl _ n(9)] n(10) by simp
  qed
  have rf: "flow {} R (Suc c) (ooo m')" "store_part (ooo m') = store_part (ooo n)"
    using retire_flow [OF fn run, of n "retire ?e n"] h n(4-6) m' by simp_all
  have me: "mem_eq m m'" using n(3) by (simp add: m' drop_head_def retire_def mem_eq_def Let_def)
  have mem: "memory_ok C R (Suc c) m'"
  proof (cases "isa_op (R c) \<in> store_ops")
    case st: True
    then have "isa_store (R c) = [(mem_addr ?ir, mem_width ?ir, store_data ?e)]" using xn(3) he(2) by (simp add: isa_store_def finished_def)
    then show ?thesis using push_memory [OF mo _ _ nx me] full ram xn(2) st rf(2) n(11) by simp
  next
    case False
    then show ?thesis using pass_memory [OF mo _ nx me] xn(2) rf(2) n(11) by (simp add: isa_store_def)
  qed
  have regs: "length (i_regs (R c)) = 32" "i_regs (R c) ! 0 = 0" using isa_run_regs [OF run(1), of c] cN by simp_all
  have cpu: "cpu m = \<lparr>gpr = i_regs (R c), cpu_pc = i_pc (R c)\<rparr>" "os_insts (ooo_stats m) = word_of_nat c" using md by (simp_all add: mode_part_def)
  let ?v = "p_value (phys ?t ! nat (rob_phys_rd ?e))"
  have "0 < arch_rd ?e \<Longrightarrow> ?v = i_regs (isa_next (R c)) ! nat (arch_rd ?e)" using he(3) h(2) nx by (simp add: target_ok_def Let_def)
  note cr = commit_regs [OF regs he(4) this]
  have "gpr (cpu m') = i_regs (R (Suc c))" "cpu_pc (cpu m') = i_pc (R (Suc c))"
    using cr cpu(1) n(1,7) xn(1) nx by (auto simp: m' drop_head_def retire_def Let_def split: if_splits)
  moreover have "mode_part m' = (False, False, False, [], cpu m', word_of_nat (Suc c))"
    using md n(8) by (simp add: m' drop_head_def retire_def mode_part_def Let_def)
  ultimately have "mode_part m' = (False, False, False, [], \<lparr>gpr = i_regs (R (Suc c)), cpu_pc = i_pc (R (Suc c))\<rparr>, word_of_nat (Suc c))" by simp
  then show ?thesis using rf(1) mem True by (simp add: sim_def)
qed

lemma commit_sim:
  assumes "sim C R c m" and "isa_run C N R" and "c + 41 \<le> N" and "ooo_stage_commit stk m = Inr m'"
  shows "\<exists>c'. c' \<le> c + 2 \<and> sim C R c' m'"
proof -
  have two: "[0..<2] = [0, Suc 0]" by (simp add: upt_rec)
  obtain go a where a: "commit_one (stk 0) m = Inr (go, a)" "(if go then commit_loop [stk (Suc 0)] a else Inr a) = Inr m'"
    using assms(4) unfolding ooo_stage_commit_def two by auto
  have sa: "sim C R (if go then Suc c else c) a" using commit_one_sim [OF assms(1,2) _ a(1)] assms(3) by simp
  show ?thesis
  proof (cases go)
    case True
    then obtain g where "commit_one (stk (Suc 0)) a = Inr (g, m')" using a(2) by (auto split: if_splits)
    then have "sim C R (if g then Suc (Suc c) else Suc c) m'" using commit_one_sim [OF _ assms(2)] sa True assms(3) by simp
    then show ?thesis by (intro exI [of _ "if g then Suc (Suc c) else Suc c"]) simp
  qed (use sa a(2) in \<open>auto intro: exI [of _ c]\<close>)
qed

end
