(* ===== verification/Ooo_Demo.thy ===== *)
theory Ooo_Demo
  imports Ooo_Run
begin

text \<open>
  The out-of-order engine on the demonstration program: the first cycles fill the front end and the re-order buffer.
\<close>

section \<open>Cycles without work for the units\<close>

definition calm :: "machine \<Rightarrow> bool" where
  "calm m \<longleftrightarrow> mem_sys m \<and> code_clean UNIV m \<and> \<not> g_bpred_mode m \<and> \<not> g_bpred2_mode m \<and> wp_head m = [] \<and> g_num_cores m = 1"

definition fetched_as :: "machine \<Rightarrow> vaddr_t \<Rightarrow> IR_Inst \<Rightarrow> bool" where
  "fetched_as m pc ir \<longleftrightarrow> (\<exists>stk n. ir = (ir_decode (ucast (word_of_bytes (load_bytes (ram_view m) (ram_off pc) 4))) pc (pc + 4) stk n)
     \<lparr>bp_predict_taken := False, bp_predicted_pc := pc + 4\<rparr>)"

lemma calm_same: "mem_eq m m' \<Longrightarrow> g_bpred_mode m' = g_bpred_mode m \<Longrightarrow> g_bpred2_mode m' = g_bpred2_mode m \<Longrightarrow> wp_head m' = wp_head m \<Longrightarrow> calm m' = calm m"
  using mem_eq_sys [of m m'] code_clean_mem_eq [of m m'] by (simp add: calm_def mem_eq_def)

lemma ram_pc: "access_ok pc 4 \<Longrightarrow> pc AND 0xffffffff = pc \<and> in_ram_range pc"
proof -
  assume a: "access_ok pc 4"
  then have "unat pc < unat (0x88000000 :: word_t)" unfolding access_ok_def ram_addr_def by (metis word_less_nat_alt)
  then show ?thesis using a and_32 [of pc] by (simp add: access_ok_def ram_addr_def in_ram_range_def)
qed

lemma fetch_calm:
  assumes "calm m" and "ooo_fetch_pc (ooo m) = pc" and "access_ok pc 4"
  shows "\<exists>m' ir. fetch_one s m = Inr (True, m') \<and> calm m' \<and> ram_view m' = ram_view m \<and> fetched_as m pc ir \<and> ooo_cycle_ctr m' = ooo_cycle_ctr m \<and>
    ooo m' = (ooo m)\<lparr>latch_if_id := (latch_if_id (ooo m))[s := \<lparr>pr_ir = ir, pr_valid = True\<rparr>], ooo_fetch_pc := pc + 4\<rparr>"
proof -
  obtain n where n: "vaddr_ifetch pc 4 m = Inr (word_of_bytes (load_bytes (ram_view m) (ram_off pc) 4), n)" "mem_sys n" "mem_frame UNIV m n"
      "ram_view n = ram_view m" "code_clean UNIV n"
    using code_fetch [OF _ _ assms(3), of m UNIV] assms(1) by (auto simp: calm_def)
  have f: "n = m\<lparr>caches := caches n, pmem := pmem n\<rparr>" using n(3) by (simp add: mem_frame_def)
  have c: "calm n" "ooo n = ooo m" "ooo_cycle_ctr n = ooo_cycle_ctr m" "\<not> g_bpred_mode n" "\<not> g_bpred2_mode n"
    using assms(1) n(2,5) by (simp_all add: calm_def) (subst f, simp)+
  let ?ir = "(ir_decode (ucast (word_of_bytes (load_bytes (ram_view m) (ram_off pc) 4))) pc (pc + 4) (pr_ir (latch_if_id (ooo n) ! s)) n)
     \<lparr>bp_predict_taken := False, bp_predicted_pc := pc + 4\<rparr>"
  have "fetch_one s m = Inr (True, put_if s ?ir (pc + 4) n)" using n(1) c(4,5) ram_pc [OF assms(3)] assms(2) by (simp add: fetch_one_def Let_def)
  moreover have "calm (put_if s ?ir (pc + 4) n)" using c(1) calm_same [of n "put_if s ?ir (pc + 4) n"] by (simp add: put_if_def with_ooo_def mem_eq_def)
  moreover have "ram_view (put_if s ?ir (pc + 4) n) = ram_view m" using n(4) mem_eq_sys [of n "put_if s ?ir (pc + 4) n"] by (simp add: put_if_def with_ooo_def mem_eq_def)
  moreover have "fetched_as m pc ?ir" unfolding fetched_as_def by blast
  ultimately show ?thesis using c by (auto simp: put_if_def with_ooo_def)
qed

definition idle :: "OOOState \<Rightarrow> bool" where
  "idle t \<longleftrightarrow> shape_ok t \<and> rob_count t = 0 \<and> sbuf_count t = 0 \<and> \<not> l_valid (latch_int t ! 0) \<and> \<not> l_valid (latch_int t ! 1) \<and> \<not> l_valid (latch_mul t ! 0) \<and>
     \<not> l_valid (latch_lsu t ! 0) \<and> \<not> l_valid (latch_lsu t ! 1) \<and> rs_ready_mask t = [0, 0, 0]"

lemma idle_issue: "idle t \<Longrightarrow> ooo_stage_is t = t"
proof -
  assume i: "idle t"
  have "select_rs b eu t = None" if "eu < 3" for b eu
    using that i by (auto simp: idle_def select_rs_def less_Suc_eq numeral_3_eq_3 mask_bits.simps [of 0])
  then have "issue_unit b eu l put t = t" if "eu < 3" for b eu l put using that by (simp add: issue_unit_def)
  then show ?thesis by (simp add: ooo_stage_is_def upt_rec numeral_2_eq_2)
qed

lemma idle_cycle:
  assumes "calm m" and "idle (ooo m)" and "ooo_cycle_ctr m + 1 AND 4095 \<noteq> 0"
    and "t = ooo_stage_id (fst (ooo_stage_rn (mshr_tick (ooo m), ooo_stats m)))" and "ooo_fetch_pc t = pc" and "\<not> pr_valid (latch_if_id t ! 0)"
    and "length (latch_if_id t) = 2" and "access_ok pc 4" and "access_ok (pc + 4) 4"
  shows "\<exists>m' a b. ooo_step (stk, []) m = Inr m' \<and> calm m' \<and> ram_view m' = ram_view m \<and> fetched_as m pc a \<and> fetched_as m (pc + 4) b \<and>
    ooo_cycle_ctr m' = ooo_cycle_ctr m + 1 \<and> ooo m' = t\<lparr>latch_if_id := [\<lparr>pr_ir = a, pr_valid = True\<rparr>, \<lparr>pr_ir = b, pr_valid = True\<rparr>], ooo_fetch_pc := pc + 8\<rparr>"
proof -
  let ?n = "with_ooo mshr_tick m"
  have i: "idle (ooo ?n)" using assms(2) by (simp add: idle_def) (simp add: mshr_tick_def)
  have u: "ooo_unit_int ?n = Inr ?n" "ooo_unit_mul ?n = Inr ?n" "ooo_unit_lsu ?n = Inr ?n"
    using i by (simp_all add: idle_def ooo_unit_int_def int_slot_def ooo_unit_mul_def mul_slot_def ooo_unit_lsu_def lsu_slot_def Let_def)
  have d: "ooo_drain_store_buf m = Inr m" "ooo_stage_commit stk m = Inr m"
    using assms(2) by (simp_all add: idle_def ooo_drain_store_buf_def ooo_stage_commit_def commit_one_def upt_rec numeral_2_eq_2 Let_def)
  let ?q = "mid_stages ?n"
  have q: "ooo ?q = t" "calm ?q" "ram_view ?q = ram_view m" "ooo_cycle_ctr ?q = ooo_cycle_ctr m"
  proof -
    have "mem_eq m ?q" by (simp add: mid_stages_def with_ooo_def mem_eq_def case_prod_beta Let_def)
    then show "calm ?q" "ram_view ?q = ram_view m" using assms(1) calm_same [of m ?q] mem_eq_sys [of m ?q] by (simp_all add: mid_stages_def with_ooo_def case_prod_beta Let_def)
    show "ooo ?q = t" "ooo_cycle_ctr ?q = ooo_cycle_ctr m" using idle_issue [OF i] assms(4) by (simp_all add: mid_stages_def with_ooo_def case_prod_beta Let_def)
  qed
  obtain x a where x: "fetch_one 0 ?q = Inr (True, x)" "calm x" "ram_view x = ram_view m" "fetched_as ?q pc a" "ooo_cycle_ctr x = ooo_cycle_ctr m"
      "ooo x = t\<lparr>latch_if_id := (latch_if_id t)[0 := \<lparr>pr_ir = a, pr_valid = True\<rparr>], ooo_fetch_pc := pc + 4\<rparr>"
    using fetch_calm [OF q(2) _ assms(8), of 0] q assms(5) by auto
  obtain y b where y: "fetch_one 1 x = Inr (True, y)" "calm y" "ram_view y = ram_view m" "fetched_as x (pc + 4) b" "ooo_cycle_ctr y = ooo_cycle_ctr m"
      "ooo y = (ooo x)\<lparr>latch_if_id := (latch_if_id (ooo x))[1 := \<lparr>pr_ir = b, pr_valid = True\<rparr>], ooo_fetch_pc := pc + 4 + 4\<rparr>"
    using fetch_calm [OF x(2) _ assms(9), of 1] x by auto
  have s: "ooo_stage_if ?q = Inr y" using assms(6) q(1) x(1) y(1) by (simp add: ooo_stage_if_def upt_rec numeral_2_eq_2)
  let ?z = "y\<lparr>ooo_stats := (ooo_stats y)\<lparr>os_cycles := os_cycles (ooo_stats y) + 1\<rparr>, g_sim_cycles := g_sim_cycles y + 1, g_sim_instret := os_insts (ooo_stats y)\<rparr>"
  let ?m = "?z\<lparr>ooo_cycle_ctr := ooo_cycle_ctr y + 1\<rparr>"
  have "ooo_cycle stk m = Inr ?z" using d u s by (simp add: ooo_cycle_def ooo_stages_def)
  moreover have "watch ?z = Inr ?z" using y(2) by (intro watch_none) (simp add: calm_def)
  moreover have "ooo_refresh [] ?z = Inr ?m" using assms(3) y(5) by (simp add: ooo_refresh_def Let_def)
  ultimately have st: "ooo_step (stk, []) m = Inr ?m" by (simp add: ooo_step_def)
  have "mem_eq y ?m" by (simp add: mem_eq_def)
  then have "calm ?m" "ram_view ?m = ram_view m" using y(2,3) calm_same [of y ?m] mem_eq_sys [of y ?m] by simp_all
  moreover obtain l0 l1 where "latch_if_id t = [l0, l1]" using assms(7) by (auto simp: length_Suc_conv numeral_2_eq_2)
  ultimately show ?thesis using st x(4,6) y(4-6) q(3) x(3) by (auto simp: fetched_as_def add.assoc)
qed

section \<open>Three cycles of the demonstration program\<close>

lemma tick_simps:
  "latch_if_id (mshr_tick t) = latch_if_id t" "latch_id_rn (mshr_tick t) = latch_id_rn t" "ooo_fetch_pc (mshr_tick t) = ooo_fetch_pc t"
  "rob_count (mshr_tick t) = rob_count t" "sbuf_count (mshr_tick t) = sbuf_count t" "latch_int (mshr_tick t) = latch_int t" "latch_mul (mshr_tick t) = latch_mul t"
  "latch_lsu (mshr_tick t) = latch_lsu t" "rs_ready_mask (mshr_tick t) = rs_ready_mask t" "rs_free_mask (mshr_tick t) = rs_free_mask t"
  "freelist (mshr_tick t) = freelist t" "phys (mshr_tick t) = phys t"
  by (simp_all add: mshr_tick_def)

lemma rename_one_counts:
  "rob_count (rename_one ir t) = rob_count t + 1" "fl_count (freelist (rename_one ir t)) \<ge> fl_count (freelist t) - 1"
  "latch_id_rn (rename_one ir t) = latch_id_rn t" "latch_if_id (rename_one ir t) = latch_if_id t" "ooo_fetch_pc (rename_one ir t) = ooo_fetch_pc t"
proof -
  obtain v p old w e where o: "rename_one ir t = rs_mask_update (ctz (rs_free_mask t)) (put_rs (ctz (rs_free_mask t)) e ((put_rob (rob_tail t) \<lparr>rob_ir = ir, arch_rd = ir_rd ir,
        rob_phys_rd = p, old_phys = old, store_data = 0, rob_ready = False, rob_valid = True\<rparr> w)\<lparr>rs_free_mask := unset_bit (ctz (rs_free_mask t)) (rs_free_mask t)\<rparr>))"
      "rename_rd (ir_rd ir) v = (p, old, w)"
      "v = t\<lparr>rob_tail := (rob_tail t + 1) mod 32, rob_count := rob_count t + 1, unready_store_count := unready_store_count t + (if is_store_op (ir_raw ir) then 1 else 0)\<rparr>"
    by (rule rename_one_eq)
  have f: "rob_count (rs_mask_update j x) = rob_count x" "freelist (rs_mask_update j x) = freelist x" "latch_id_rn (rs_mask_update j x) = latch_id_rn x"
    "latch_if_id (rs_mask_update j x) = latch_if_id x" "ooo_fetch_pc (rs_mask_update j x) = ooo_fetch_pc x" for j x
    by (simp_all add: rs_mask_update_def set_ready_def clear_ready_def Let_def)
  have w: "rob_count w = rob_count t + 1" "fl_count (freelist w) \<ge> fl_count (freelist t) - 1" "latch_id_rn w = latch_id_rn t" "latch_if_id w = latch_if_id t"
    "ooo_fetch_pc w = ooo_fetch_pc t"
    using o(2) by (auto simp: o(3) rename_rd_def freelist_pop_def Let_def split: if_splits)
  show "rob_count (rename_one ir t) = rob_count t + 1" "fl_count (freelist (rename_one ir t)) \<ge> fl_count (freelist t) - 1"
    "latch_id_rn (rename_one ir t) = latch_id_rn t" "latch_if_id (rename_one ir t) = latch_if_id t" "ooo_fetch_pc (rename_one ir t) = ooo_fetch_pc t"
    using w by (simp_all add: o(1) f put_rs_def put_rob_def)
qed

lemma fetched_plain:
  assumes "fetched_as m pc ir" and "table_lookup inst_table (ucast (word_of_bytes (load_bytes (ram_view m) (ram_off pc) 4))) = x" and "user_op x"
  shows "\<not> serializing ir"
proof -
  let ?raw = "ucast (word_of_bytes (load_bytes (ram_view m) (ram_off pc) 4)) :: u32"
  obtain stk n where ir: "ir = (ir_decode ?raw pc (pc + 4) stk n)\<lparr>bp_predict_taken := False, bp_predicted_pc := pc + 4\<rparr>" using assms(1) by (auto simp: fetched_as_def)
  have "serializing (set_exec nm x (ir_fill_operands (ir_init ?raw pc (pc + 4) stk) ?raw ty n)) = False" for nm ty
    by (cases ty) (simp_all add: set_exec_def ir_fill_operands_def ir_init_def Let_def)
  moreover have "serializing (ir_decode ?raw pc (pc + 4) stk n) = serializing (set_exec (ir_name (ir_decode ?raw pc (pc + 4) stk n)) x
      (ir_fill_operands (ir_init ?raw pc (pc + 4) stk) ?raw (op_type x) n))"
    by (rule arg_cong [OF decode_user [OF assms(2,3)]])
  ultimately show ?thesis unfolding ir by simp
qed

lemma demo_ooo:
  "\<exists>m'. ooo_run (replicate 3 (\<lambda>_. zero_ir, [])) (ooo_init demo_machine) = Inr m' \<and> rob_count (ooo m') = 2"
proof -
  let ?m = "ooo_init demo_machine"
  let ?e = "(\<lambda>_ :: nat. zero_ir, [] :: sdl_event list)"
  have ac: "access_ok 0x80000000 4" "access_ok 0x80000004 4" "access_ok 0x80000008 4" "access_ok 0x8000000c 4" "access_ok 0x80000010 4" "access_ok 0x80000014 4"
    by (simp_all add: access_ok_def ram_addr_def)
  have me: "mem_eq demo_machine ?m" "g_bpred_mode ?m = g_bpred_mode demo_machine" "g_bpred2_mode ?m = g_bpred2_mode demo_machine" "wp_head ?m = wp_head demo_machine"
      "ooo_cycle_ctr ?m = ooo_cycle_ctr demo_machine"
    by (simp_all add: ooo_init_def mem_eq_def Let_def)
  have d: "\<not> g_bpred2_mode demo_machine" "ooo_cycle_ctr demo_machine = 0"
    by (simp_all add: demo_machine_def init_cache_system_def init_regs_def loaded_machine_eq zero_machine_def Let_def)
  have "calm demo_machine" using demo_sys demo_clean [of UNIV] demo_fields d by (simp add: calm_def)
  then have c0: "calm ?m" using calm_same [OF me(1-4)] by simp
  have rv: "ram_view ?m = ram_view demo_machine" using mem_eq_sys [OF me(1)] by simp
  have t0: "idle (ooo ?m)" "\<not> pr_valid (latch_if_id (ooo ?m) ! 0)" "\<not> pr_valid (latch_id_rn (ooo ?m) ! 0)" "ooo_fetch_pc (ooo ?m) = 0x80000000"
      "rs_free_mask (ooo ?m) = 0xffff" "fl_count (freelist (ooo ?m)) = 32"
  proof -
    show "idle (ooo ?m)" using ooo_init_inv [of demo_machine] unfolding idle_def ooo_inv_def
      by (simp add: ooo_init_state zero_ooo_def zero_latch_def del: upt_rec_numeral)
    show "\<not> pr_valid (latch_if_id (ooo ?m) ! 0)" "\<not> pr_valid (latch_id_rn (ooo ?m) ! 0)" "ooo_fetch_pc (ooo ?m) = 0x80000000"
      "rs_free_mask (ooo ?m) = 0xffff" "fl_count (freelist (ooo ?m)) = 32"
      using demo_fields(7) by (simp_all add: ooo_init_state zero_ooo_def del: upt_rec_numeral)
  qed
  let ?t = "ooo ?m"
  have s0: "ooo_stage_id (fst (ooo_stage_rn (mshr_tick ?t, ooo_stats ?m))) = mshr_tick ?t"
    using t0(2,3) by (simp add: ooo_stage_rn_def ooo_stage_id_def tick_simps)
  obtain m1 a b where m1: "ooo_step ?e ?m = Inr m1" "calm m1" "ram_view m1 = ram_view ?m" "fetched_as ?m 0x80000000 a" "fetched_as ?m 0x80000004 b" "ooo_cycle_ctr m1 = 1"
      "ooo m1 = (mshr_tick ?t)\<lparr>latch_if_id := [\<lparr>pr_ir = a, pr_valid = True\<rparr>, \<lparr>pr_ir = b, pr_valid = True\<rparr>], ooo_fetch_pc := 0x80000008\<rparr>"
    using idle_cycle [OF c0 t0(1) _ refl, where pc = "0x80000000" and stk = "\<lambda>_. zero_ir", unfolded s0] t0 ac(1,2) me(5) d(2)
    by (auto simp: tick_simps idle_def shape_ok_def)
  have i1: "idle (ooo m1)" "\<not> pr_valid (latch_id_rn (ooo m1) ! 0)" "rs_free_mask (ooo m1) = 0xffff" "fl_count (freelist (ooo m1)) = 32"
  proof -
    have "reg_field (ir_rd a)" "reg_field (ir_rd b)" using m1(4,5) by (auto simp: fetched_as_def decode_rd)
    then show "idle (ooo m1)" using t0(1) by (simp add: m1(7) idle_def shape_ok_def tick_simps)
    show "\<not> pr_valid (latch_id_rn (ooo m1) ! 0)" "rs_free_mask (ooo m1) = 0xffff" "fl_count (freelist (ooo m1)) = 32" using t0 by (simp_all add: m1(7) tick_simps)
  qed
  let ?u = "(mshr_tick (ooo m1))\<lparr>latch_id_rn := latch_if_id (ooo m1), latch_if_id := kill (latch_if_id (ooo m1))\<rparr>"
  have s1: "ooo_stage_id (fst (ooo_stage_rn (mshr_tick (ooo m1), ooo_stats m1))) = ?u"
    using i1(2) by (simp add: ooo_stage_rn_def ooo_stage_id_def m1(7) tick_simps)
  obtain m2 a' b' where m2: "ooo_step ?e m1 = Inr m2" "calm m2" "fetched_as m1 0x80000008 a'" "fetched_as m1 0x8000000c b'" "ooo_cycle_ctr m2 = 2"
      "ooo m2 = ?u\<lparr>latch_if_id := [\<lparr>pr_ir = a', pr_valid = True\<rparr>, \<lparr>pr_ir = b', pr_valid = True\<rparr>], ooo_fetch_pc := 0x80000010\<rparr>"
    using idle_cycle [OF m1(2) i1(1) _ refl, where pc = "0x80000008" and stk = "\<lambda>_. zero_ir", unfolded s1] ac(3,4) m1(6)
    by (auto simp: m1(7) kill_def tick_simps)
  have i2: "idle (ooo m2)" "latch_id_rn (ooo m2) = [\<lparr>pr_ir = a, pr_valid = True\<rparr>, \<lparr>pr_ir = b, pr_valid = True\<rparr>]" "rs_free_mask (ooo m2) = 0xffff" "fl_count (freelist (ooo m2)) = 32"
  proof -
    have "reg_field (ir_rd a')" "reg_field (ir_rd b')" using m2(3,4) by (auto simp: fetched_as_def decode_rd)
    then show "idle (ooo m2)" using i1(1) by (simp add: m2(6) idle_def shape_ok_def tick_simps)
    show "latch_id_rn (ooo m2) = [\<lparr>pr_ir = a, pr_valid = True\<rparr>, \<lparr>pr_ir = b, pr_valid = True\<rparr>]" "rs_free_mask (ooo m2) = 0xffff" "fl_count (freelist (ooo m2)) = 32"
      using i1 by (simp_all add: m2(6) m1(7) tick_simps)
  qed
  let ?v = "mshr_tick (ooo m2)"
  have plain: "\<not> serializing a" "\<not> serializing b"
  proof -
    have "load_bytes (i_mem (isa_of demo_machine)) 0 12 = demo_image" using demo_in_loop by (simp add: in_loop_def)
    from demo_words_at(1,2) [OF this]
    have w: "ucast (word_of_bytes (load_bytes (ram_view ?m) (ram_off 0x80000000) 4)) = (0x00150513 :: u32)"
        "ucast (word_of_bytes (load_bytes (ram_view ?m) (ram_off 0x80000004) 4)) = (0xffdff06f :: u32)"
      by (simp_all add: rv code_at_def isa_of_def)
    show "\<not> serializing a" by (rule fetched_plain [OF m1(4), where x = X_addi]) (simp_all add: w demo_ops user_op_def)
    show "\<not> serializing b" by (rule fetched_plain [OF m1(5), where x = X_jal]) (simp_all add: w demo_ops user_op_def)
  qed
  have l: "length (mask_bits 0xffff) = 16"
  proof -
    have "bit (0xffff :: u32) i \<longleftrightarrow> i < 16" for i using bit_mask_iff [where 'a = u32, of 16 i] by (auto simp: mask_eq_exp_minus_1)
    then have "filter (bit (0xffff :: u32)) [0..<32] = filter (\<lambda>i. i < 16) [0..<32]" by (intro filter_cong) auto
    also have "\<dots> = [0..<16]" by code_simp
    finally have "filter (bit (0xffff :: u32)) [0..<32] = [0..<16]" .
    then show ?thesis by (simp add: mask_bits_eq)
  qed
  let ?w = "rename_one a ?v"
  let ?x = "rename_one b (?w\<lparr>latch_id_rn := [\<lparr>pr_ir = a, pr_valid = False\<rparr>, \<lparr>pr_ir = b, pr_valid = True\<rparr>]\<rparr>)"
  have r0: "rob_count (ooo m2) = 0" using i2(1) by (simp add: idle_def)
  have "fl_count (freelist ?w) \<ge> 31" using rename_one_counts(2) [of ?v a] i2(4) by (simp add: tick_simps)
  then have s2: "fst (rename_loop [0..<2] (16 - length (mask_bits (rs_free_mask ?v))) (?v, ooo_stats m2)) =
      ?x\<lparr>latch_id_rn := [\<lparr>pr_ir = a, pr_valid = False\<rparr>, \<lparr>pr_ir = b, pr_valid = False\<rparr>]\<rparr>"
    using plain i2(2-4) l r0 by (simp add: upt_rec numeral_2_eq_2 tick_simps rename_one_counts Let_def)
  have c2: "rob_count ?x = 2" using r0 by (simp add: rename_one_counts tick_simps)
  let ?y = "?x\<lparr>latch_id_rn := [\<lparr>pr_ir = a, pr_valid = False\<rparr>, \<lparr>pr_ir = b, pr_valid = False\<rparr>]\<rparr>"
  let ?z = "?y\<lparr>latch_id_rn := latch_if_id (ooo m2), latch_if_id := kill (latch_if_id (ooo m2))\<rparr>"
  have "fst (ooo_stage_rn (?v, ooo_stats m2)) = ?y"
    using s2 i2(2) by (simp add: ooo_stage_rn_def case_prod_beta tick_simps compact_def Let_def)
  then have s3: "ooo_stage_id (fst (ooo_stage_rn (?v, ooo_stats m2))) = ?z"
    by (simp add: ooo_stage_id_def rename_one_counts tick_simps m2(6))
  have z: "ooo_fetch_pc ?z = 0x80000010" "\<not> pr_valid (latch_if_id ?z ! 0)" "length (latch_if_id ?z) = 2"
    by (simp_all add: rename_one_counts tick_simps m2(6) kill_def)
  have k: "ooo_cycle_ctr m2 + 1 AND 4095 \<noteq> 0" using m2(5) by simp
  have "access_ok (0x80000010 + 4) 4" using ac(6) by simp
  from idle_cycle [OF m2(2) i2(1) k s3 [symmetric] z ac(5) this, of "\<lambda>_. zero_ir"] c2
  obtain m3 where "ooo_step ?e m2 = Inr m3" "rob_count (ooo m3) = 2" by auto
  then show ?thesis using m1(1) m2(1) by (simp add: numeral_3_eq_3)
qed

section \<open>Witnesses\<close>

theorem ooo_rename_partition_witness:
  "\<exists>m'. ooo_run (replicate 3 (\<lambda>_. zero_ir, [])) (ooo_init demo_machine) = Inr m' \<and> rob_count (ooo m') = 2 \<and>
     (let t = ooo m' in distinct (rat t @ free_regs t @ map old_phys (writers t)))"
proof -
  obtain m' where m': "ooo_run (replicate 3 (\<lambda>_. zero_ir, [])) (ooo_init demo_machine) = Inr m'" "rob_count (ooo m') = 2" using demo_ooo by blast
  then show ?thesis using ooo_rename_partition [OF m'(1)] unfolding Let_def by blast
qed

theorem ooo_no_instruction_lost_witness:
  "\<exists>m'. ooo_run (replicate 3 (\<lambda>_. zero_ir, [])) (ooo_init demo_machine) = Inr m' \<and> rob_count (ooo m') = 2 \<and>
     (let t = ooo m' in \<forall>i<32. \<forall>p. count (tokens t) (i, p) =
       (if rob_valid (rob t ! i) \<and> \<not> rob_ready (rob t ! i) \<and> rob_phys_rd (rob t ! i) = p then 1 else 0))"
proof -
  obtain m' where m': "ooo_run (replicate 3 (\<lambda>_. zero_ir, [])) (ooo_init demo_machine) = Inr m'" "rob_count (ooo m') = 2" using demo_ooo by blast
  then show ?thesis using ooo_no_instruction_lost [OF m'(1)] by (intro exI [of _ m']) (simp add: Let_def)
qed

theorem ooo_committed_registers_witness:
  "\<exists>m'. ooo_run (replicate 3 (\<lambda>_. zero_ir, [])) (ooo_init demo_machine) = Inr m' \<and> rob_count (ooo m') = 2 \<and>
     gpr (cpu m') ! 10 = p_value (phys (ooo m') ! nat (rrat (ooo m') ! 10))"
proof -
  obtain m' where m': "ooo_run (replicate 3 (\<lambda>_. zero_ir, [])) (ooo_init demo_machine) = Inr m'" "rob_count (ooo m') = 2" using demo_ooo by blast
  then show ?thesis using ooo_committed_registers [OF m'(1), of 10] by (simp add: demo_fields)
qed

theorem ooo_masks_exact_witness:
  "\<exists>m'. ooo_run (replicate 3 (\<lambda>_. zero_ir, [])) (ooo_init demo_machine) = Inr m' \<and> rob_count (ooo m') = 2 \<and>
     select_rs False 0 (ooo m') = scan_rs False 0 (ooo m')"
proof -
  obtain m' where m': "ooo_run (replicate 3 (\<lambda>_. zero_ir, [])) (ooo_init demo_machine) = Inr m'" "rob_count (ooo m') = 2" using demo_ooo by blast
  then show ?thesis using ooo_masks_exact [OF m'(1), of 0] by auto
qed

theorem ooo_flush_restores_witness:
  "\<exists>m' h. ooo_run (replicate 3 (\<lambda>_. zero_ir, [])) (ooo_init demo_machine) = Inr m' \<and> h = rob_head (ooo m') \<and> rob_valid (rob (ooo m') ! h) \<and>
     map slot_of (in_flight (ooo_flush_after h (ooo m'))) = take 1 (map slot_of (in_flight (ooo m')))"
proof -
  obtain m' where m': "ooo_run (replicate 3 (\<lambda>_. zero_ir, [])) (ooo_init demo_machine) = Inr m'" "rob_count (ooo m') = 2" using demo_ooo by blast
  have r: "rings_ok (ooo m')" using ooo_run_inv [OF m'(1)] by (simp add: ooo_inv_def rename_ok_def)
  let ?h = "rob_head (ooo m')"
  have h: "?h < 32" "rob_dist (ooo m') ?h = 0" using rob_ring_fields(2) [OF r] by (simp_all add: rob_dist_def)
  then have v: "rob_valid (rob (ooo m') ! ?h)" using valid_dist(1) [OF r h(1)] m'(2) by simp
  show ?thesis using ooo_flush_restores [OF m'(1) h(1) v] m'(1) v h(2) by (auto simp: Let_def)
qed

end
