(* ===== verification/Ooo_Refine.thy ===== *)
theory Ooo_Refine
  imports Ooo_Commit Ooo_Demo
begin

text \<open>
  Runs of the out-of-order engine refine runs of the ISA.
\<close>

section \<open>A cycle\<close>

definition side_eq :: "machine \<Rightarrow> machine \<Rightarrow> bool" where
  "side_eq m m' \<longleftrightarrow> ooo m' = ooo m \<and> mem_eq m m' \<and> mode_part m' = mode_part m"

lemma side_eq_trans [trans]: "side_eq a b \<Longrightarrow> side_eq b c \<Longrightarrow> side_eq a c"
  by (auto simp: side_eq_def intro: mem_eq_trans)

lemma side_eq_sim: "sim C R c m \<Longrightarrow> side_eq m m' \<Longrightarrow> sim C R c m'"
  using sim_step [of C R c m m'] mem_eq_kept [of m m'] by (simp add: side_eq_def sim_def)

lemma refresh_side: "ooo_refresh evs m = Inr m' \<Longrightarrow> side_eq m m'"
proof -
  have k: "send_key k b m = Inr m' \<Longrightarrow> side_eq m m'" for k b m m'
    by (auto simp: send_key_def side_eq_def mem_eq_def mode_part_def Let_def split: if_splits)
  have q: "side_eq m (m\<lparr>state := s\<rparr>)" "side_eq m m" for m s by (simp_all add: side_eq_def mem_eq_def mode_part_def)
  have p: "poll_events es m = Inr m' \<Longrightarrow> side_eq m m'" for es m
    by (induction es m arbitrary: rule: poll_events.induct) (auto simp: q dest!: k intro: side_eq_trans q)
  have t: "side_eq (m\<lparr>ooo_cycle_ctr := x, dev := d, ooo_last := l, dev := d'\<rparr>) m' \<Longrightarrow> side_eq m m'" for x d l d' by (simp add: side_eq_def mem_eq_def mode_part_def)
  show "ooo_refresh evs m = Inr m' \<Longrightarrow> side_eq m m'"
    by (auto simp: ooo_refresh_def Let_def case_prod_beta dest!: p split: if_splits) (simp_all add: side_eq_def mem_eq_def mode_part_def)
qed

lemma ooo_step_sim:
  assumes sim: "sim C R c m" and run: "isa_run C N R" "c + 42 \<le> N" "forward_ok N R" and st: "ooo_step e m = Inr m'"
  shows "\<exists>c'. c' \<le> c + 2 \<and> sim C R c' m'"
proof -
  obtain a b where s: "ooo_stages (fst e) m = Inr a" "watch a = Inr b" "ooo_refresh (snd e) b = Inr m'" using st by (auto simp: ooo_step_def ooo_cycle_def)
  obtain d k u v w f where g: "ooo_drain_store_buf m = Inr d" "ooo_stage_commit (fst e) d = Inr k"
      "ooo_unit_int (with_ooo mshr_tick k) = Inr u" "ooo_unit_mul u = Inr v" "ooo_unit_lsu v = Inr w" "ooo_stage_if (mid_stages w) = Inr f"
      "a = f\<lparr>ooo_stats := (ooo_stats f)\<lparr>os_cycles := os_cycles (ooo_stats f) + 1\<rparr>, g_sim_cycles := g_sim_cycles f + 1, g_sim_instret := os_insts (ooo_stats f)\<rparr>"
    using s(1) unfolding ooo_stages_def by auto
  have "sim C R c d" using drain_sim [OF sim run(1) _ g(1)] run(2) by simp
  moreover have "c + 41 \<le> N" using run(2) by simp
  ultimately obtain c' where c: "c' \<le> c + 2" "sim C R c' k" using commit_sim [OF _ run(1) _ g(2)] by blast
  have N: "c' + 40 \<le> N" using c(1) run(2) by simp
  have "sim C R c' w" by (rule units_sim [OF c(2) run(1) N run(3) g(3-5)])
  then have "sim C R c' (mid_stages w)" by (rule mid_stages_sim [OF _ run(1) N])
  then have "sim C R c' f" by (rule stage_if_sim [OF _ run(1) N g(6)])
  then have sa: "sim C R c' a" by (rule side_eq_sim) (simp add: g(7) side_eq_def mem_eq_def mode_part_def)
  then have "b = a" using s(2) by (simp add: sim_def mode_part_def)
  then have "sim C R c' m'" using side_eq_sim [OF sa] refresh_side [OF s(3)] by simp
  then show ?thesis using c(1) by blast
qed

lemma ooo_run_sim:
  assumes "sim C R c m" and "isa_run C N R" and "c + 2 * length es + 40 \<le> N" and "forward_ok N R" and "ooo_run es m = Inr m'"
  shows "\<exists>c'. c' \<le> c + 2 * length es \<and> sim C R c' m'"
  using assms(1,3,5)
proof (induction es arbitrary: c m)
  case Nil
  then show ?case by auto
next
  case (Cons e es)
  obtain a where a: "ooo_step e m = Inr a" "ooo_run es a = Inr m'" using Cons.prems(3) by auto
  obtain k where k: "k \<le> c + 2" "sim C R k a" using ooo_step_sim [OF Cons.prems(1) assms(2) _ assms(4) a(1)] Cons.prems(2) by auto
  obtain c' where "c' \<le> k + 2 * length es" "sim C R c' m'" using Cons.IH [OF k(2) _ a(2)] k(1) Cons.prems(2) by auto
  then show ?case using k(1) by (intro exI [of _ c']) simp
qed

section \<open>Initialisation\<close>

definition ooo_start :: "vaddr_t set \<Rightarrow> machine \<Rightarrow> bool" where
  "ooo_start C m \<longleftrightarrow> mem_sys m \<and> code_clean (blk ` C) m \<and> regs_ok (cpu m) \<and> \<not> g_difftest_en m \<and> \<not> g_bpred_mode m \<and> \<not> g_bpred2_mode m \<and> wp_head m = [] \<and> fetchable C"

lemma ooo_init_sim:
  assumes "ooo_start C m" and "R 0 = isa_of m"
  shows "sim C R 0 (ooo_init m)"
proof -
  let ?t = "ooo (ooo_init m)"
  have me: "mem_eq m (ooo_init m)" by (simp add: ooo_init_def mem_eq_def Let_def)
  have md: "mode_part (ooo_init m) = (False, False, False, [], cpu m, 0)" using assms(1) by (simp add: ooo_init_def mode_part_def ooo_start_def zero_ooo_stats_def Let_def)
  have r: "length (gpr (cpu m)) = 32" "gpr (cpu m) ! 0 = 0" using assms(1) by (simp_all add: ooo_start_def regs_ok_def)
  have z: "rob_count ?t = 0" "latch_id_rn ?t = replicate 2 \<lparr>pr_ir = zero_ir, pr_valid = False\<rparr>" "latch_if_id ?t = replicate 2 \<lparr>pr_ir = zero_ir, pr_valid = False\<rparr>"
      "ooo_fetch_pc ?t = cpu_pc (cpu m)" "rs_tab ?t = replicate 16 zero_rs" "latch_int ?t = replicate 2 zero_latch" "latch_mul ?t = replicate 1 zero_latch" "latch_lsu ?t = replicate 2 zero_latch"
      "sbuf_count ?t = 0" "sbuf_head ?t = 0" "sbuf_tail ?t = 0" "length (sbuf ?t) = 16"
    unfolding ooo_init_state by (simp_all add: zero_ooo_def del: upt_rec_numeral)
  have fl: "in_flight ?t = []" "front ?t = []" "unit_set ?t = {}" using z by (auto simp: in_flight_def front_def unit_set_def zero_latch_def live_lsu_def)
  have "flow {} R 0 ?t"
  proof -
    have "cpu (ooo_init m) = cpu m" using md by (simp add: mode_part_def)
    then have "base_ok R 0 ?t" using ooo_init_arch [OF r] assms(2) by (simp add: base_ok_def arch_ok_def isa_of_def)
    moreover have "links_ok {} R 0 ?t" using fl z(4) assms(2) by (simp add: links_ok_def pcs_def insts_def isa_of_def)
    moreover have "stations_ok R 0 ?t" using z(5) by (simp add: stations_ok_def zero_rs_def Let_def)
    ultimately show ?thesis using ooo_init_inv [of m] fl z(2,3) by (simp add: flow_def entries_ok_def front_ok_def units_ok_def packed_def insts_def)
  qed
  moreover have "memory_ok C R 0 (ooo_init m)"
  proof -
    have w: "sbuf_window ?t = []" using z(9) by (simp add: sbuf_window_def)
    then have "sbuf_ring ?t" using z by (simp add: sbuf_ring_def)
    moreover have "sbuf_list ?t = []" using w by (simp add: sbuf_list_def)
    ultimately show ?thesis using assms mem_eq_sys [OF me] code_clean_mem_eq [OF me] by (simp add: memory_ok_def ooo_start_def code_at_def isa_of_def)
  qed
  ultimately show ?thesis using md assms(2) by (simp add: sim_def isa_of_def)
qed

section \<open>The property\<close>

text \<open>
  C2. However many cycles the out-of-order engine runs, its registers and program counter are those of the ISA after exactly as
  many instructions as it has committed, and memory with the buffered stores applied is the memory of that ISA state: renaming,
  issue out of order, speculation past branches, squashing, store-to-load forwarding and cache misses are invisible to the
  program. Branch prediction and the reference run are off, and a load finds the last 48 stores before it either around its bytes
  or apart from them.
\<close>

theorem ooo_refines_isa:
  assumes "ooo_run es (ooo_init m) = Inr m'" and "ooo_start C m" and "safe_run C (2 * length es + 40) (isa_of m)"
    and "forward_ok (2 * length es + 40) (\<lambda>i. (isa_next ^^ i) (isa_of m))"
  shows "\<exists>k\<le>2 * length es. os_insts (ooo_stats m') = word_of_nat k \<and> cpu_pc (cpu m') = i_pc ((isa_next ^^ k) (isa_of m)) \<and>
    gpr (cpu m') = i_regs ((isa_next ^^ k) (isa_of m)) \<and> fold put_store (sbuf_list (ooo m')) (ram_view m') = i_mem ((isa_next ^^ k) (isa_of m))"
proof -
  let ?R = "\<lambda>i. (isa_next ^^ i) (isa_of m)"
  have run: "isa_run C (2 * length es + 40) ?R"
    using assms(2,3) by (simp add: isa_run_def ooo_start_def safe_run_def regs_ok_def isa_of_def)
  have "sim C ?R 0 (ooo_init m)" by (rule ooo_init_sim [OF assms(2)]) simp
  from ooo_run_sim [OF this run _ assms(4,1)] obtain k where k: "k \<le> 2 * length es" "sim C ?R k m'" by auto
  then show ?thesis by (intro exI [of _ k]) (simp add: sim_def memory_ok_def mode_part_def)
qed

theorem ooo_refines_isa_witness:
  "\<exists>m' k. ooo_run (replicate 3 (\<lambda>_. zero_ir, [])) (ooo_init demo_machine) = Inr m' \<and> k \<le> 6 \<and> os_insts (ooo_stats m') = word_of_nat k \<and>
     gpr (cpu m') = i_regs ((isa_next ^^ k) (isa_of demo_machine))"
proof -
  obtain m' where m': "ooo_run (replicate 3 (\<lambda>_. zero_ir, [])) (ooo_init demo_machine) = Inr m'" using demo_ooo by blast
  have g: "\<not> g_bpred2_mode demo_machine" by (simp add: demo_machine_def init_cache_system_def init_regs_def loaded_machine_eq zero_machine_def Let_def)
  have s: "ooo_start demo_code demo_machine" using demo_sys demo_clean demo_regs demo_fetchable demo_fields(8,9,12) g by (simp add: ooo_start_def)
  have nl: "isa_op ((isa_next ^^ i) (isa_of demo_machine)) \<notin> load_ops" for i
    using in_loop_run [OF demo_in_loop, of i] demo_words_at [of "(isa_next ^^ i) (isa_of demo_machine)"]
    by (auto simp: in_loop_def isa_op_def isa_fetch_at demo_ops load_ops_def)
  have f: "forward_ok n (\<lambda>i. (isa_next ^^ i) (isa_of demo_machine))" for n using nl by (simp add: forward_ok_def)
  show ?thesis using ooo_refines_isa [OF m' s demo_safe [OF demo_in_loop] f] m' by auto
qed

end
