(* ===== verification/Spec2Isabelle.thy ===== *)
theory Spec2Isabelle
  imports Boot Demo Pipe_Refine Bpred Pmem Decode_Facts Mem_Frame Ooo_Refine
begin

text \<open>
  Verification of SUSTemu, a simulator of RV64IM machines in C. One program image runs on one of three engines: a functional
  one (\<^verbatim>\<open>src/src/cpu/exec.c\<close>), a five-stage in-order pipeline (\<^verbatim>\<open>pipeline.c\<close>) and an out-of-order engine (\<^verbatim>\<open>ooo.c\<close>). All of them
  share the decoder and executors of \<^verbatim>\<open>ir.c\<close>, the caches and memory under \<^verbatim>\<open>src/src/memory\<close>, the control registers of
  \<^verbatim>\<open>csr.c\<close>, the devices, and the watchpoints and expressions of the monitor; \<^verbatim>\<open>core.c\<close> runs two engines on a shared second-level
  cache, and \<^verbatim>\<open>main.c\<close> sets everything up.

  \<^bold>\<open>How the code is modelled.\<close> The globals of the program are one record \<open>machine\<close> (theory \<open>Machine\<close>), its structs are
  records and its enumerations datatypes with the C names. A C function is a definition of the same name that takes the machine
  and returns it; a function that can fail an assertion, index outside an array or reach an operation C leaves undefined returns
  \<open>'a res\<close>, with the failure as the left value. Machine integers are words of their width. A pointer into an array is an index: the
  caches live in a store that \<open>L1I_cache\<close>, \<open>L1D_cache\<close> and \<open>L2_cache\<close> point into, the latches of the pipeline are slots. What the
  host supplies is an argument: files, command line, clock, SDL events and scan codes, and the content of uninitialised
  locals.

  \<^bold>\<open>Theories and the parts of the program.\<close>

  \<^item> \<open>Prelude\<close>, \<open>Ring\<close>, \<open>Stack\<close>, \<open>Flat_Memory\<close>, \<open>Window\<close>, \<open>Renaming\<close>: shared vocabulary and specifications. The locales \<open>fifo\<close>,
    \<open>bounded_stack\<close> and \<open>flat_memory\<close> are the contracts of a bounded queue, of a stack that forgets its oldest entries, and of a
    byte memory. They are interpreted on the keyboard queue and on the guest's view of it (\<open>Mmio\<close>), on the return stack
    of the predictor (\<open>Bpred\<close>), and on the RAM, on the cached memory of a core and on the memory of two cores (\<open>Pmem\<close>, \<open>Vmem\<close>).
    \<open>Renaming\<close> is register renaming as a specification over lists.
  \<^item> \<open>Machine\<close>, \<open>Sim_State\<close>: the records (\<^verbatim>\<open>include/\<close>), the run state (\<^verbatim>\<open>simulator/state.c\<close>) and the registers (\<^verbatim>\<open>cpu/reg.c\<close>).
  \<^item> \<open>Csr\<close>: \<^verbatim>\<open>cpu/csr.c\<close>: privilege table, CSR access, traps, physical memory protection. The check with its counter of active
    entries is the first-match rule, every write keeps the counter right, and of every register marked writable it is shown whether a
    write reads back, is dropped, or leaves a register that cannot be read.
  \<^item> \<open>Mmio\<close>, \<open>Pmem\<close>: device map, serial port, timer, keyboard, display and flash (\<^verbatim>\<open>memory/mmio.c\<close>, \<^verbatim>\<open>device/\<close>), physical memory
    (\<^verbatim>\<open>memory/pmem.c\<close>).
  \<^item> \<open>Cache_Model\<close>, \<open>Cache_Refine\<close>, \<open>Cache_Coherence\<close>, \<open>Vmem\<close>, \<open>Code_Region\<close>, \<open>Mem_Frame\<close>: \<^verbatim>\<open>memory/cache.c\<close>, \<^verbatim>\<open>memory/prefetch.c\<close>,
    \<^verbatim>\<open>memory/vmem.c\<close>. A cache is abstracted to a map from block addresses to a dirty flag and 64 bytes; with the inclusion invariant
    of the hierarchy every access, snoop, prefetch and eviction keeps the value of every block, so that one core, and two
    cores in any interleaving, see one byte array, and a timed load reports the level that served it. Fetches are only coherent on
    blocks that are not stored to.
  \<^item> \<open>Decode_Model\<close>, \<open>Decode_Facts\<close>: \<^verbatim>\<open>ir_decode\<close>, the immediates and the pattern table, which agree up to two instructions.
  \<^item> \<open>Exec\<close>, \<open>Isa\<close>, \<open>Stages\<close>, \<open>Isa_Run\<close>: the executors of \<^verbatim>\<open>ir.c\<close>, the integer semantics of the RISC-V manual, the ISA step on
    registers, program counter and flat memory (\<open>isa_next\<close>), and what each stage contributes to it.
  \<^item> \<open>Elftl\<close>, \<open>Elf\<close>, \<open>Img\<close>: symbol table and function trace (\<^verbatim>\<open>monitor/elftl.c\<close>), program image (\<^verbatim>\<open>simulator/img.c\<close>). The symbols
    of an ELF file of one layout (header, symbol table, strings, section names) are read back.
  \<^item> \<open>Functional\<close>, \<open>Functional_Run\<close>, \<open>Demo\<close>: \<^verbatim>\<open>exec_once\<close>; a demonstration program and machine for the examples.
  \<^item> \<open>Bpred\<close>: \<^verbatim>\<open>cpu/bpred.c\<close> and \<^verbatim>\<open>cpu/bpred2.c\<close>: table bounds, return prediction, learning.
  \<^item> \<open>Pipeline\<close>, \<open>Pipe_Stages\<close>, \<open>Pipe_Refine\<close>: \<^verbatim>\<open>pipeline.c\<close>; in every cycle the committed state is that of the ISA after the
    retired instructions, with forwarding, stalls, flushes and prediction, memory being ahead by one store at most; and from any point of a
    run on instructions keep retiring.
  \<^item> \<open>Ooo\<close>: \<^verbatim>\<open>ooo.c\<close> in the order of the file. \<open>Ooo_Frame\<close> says what memory accesses and executors leave alone; \<open>Ooo_Rename\<close> shows that
    free list, maps and re-order buffer implement \<open>Renaming\<close>; \<open>Ooo_Masks\<close> treats the bit masks over the stations; \<open>Ooo_Tokens\<close>
    accounts for unfinished instructions as multisets; \<open>Ooo_Inv\<close> takes the invariant through every stage of a cycle, \<open>Ooo_Run\<close>
    through whole runs, and \<open>Ooo_Demo\<close> applies it to the demonstration program. In every state the engine reaches, physical registers
    are partitioned between the maps, the free list and the renamings in flight, every unfinished instruction is
    waited for in one place, the masks are exact, a flush restores the map, and the architectural registers are those of the
    committed map.
  \<^item> \<open>Ooo_Path\<close> lines the instructions in the out-of-order engine up in program order against an ISA run: an initial segment of them is
    on the path, what follows an unresolved branch that is taken is not. \<open>Forwarding\<close> shows that the scans over pending stores find
    the bytes in memory after these stores, \<open>Any_Access\<close> what holds of accesses at the addresses speculation makes up,
    \<open>Isa_Facts\<close> what an ISA step writes. \<open>Ooo_Finish\<close> (results and squashes), \<open>Ooo_Units\<close>, \<open>Ooo_Lsu\<close> (integer, multiply, load and store units),
    \<open>Ooo_Front\<close> (issue, renaming, decoding, fetching) and \<open>Ooo_Commit\<close> (commit, store buffer) show that every stage keeps the
    line, and \<open>Ooo_Refine\<close> concludes: the committed state is that of the ISA after the committed instructions, and memory is
    behind it by the buffered stores.
  \<^item> \<open>Core\<close>, \<open>Exec_Loop\<close>, \<open>Boot\<close>: \<^verbatim>\<open>core.c\<close>, the run loops of \<^verbatim>\<open>exec\<close>, the options and start-up of \<^verbatim>\<open>main.c\<close>. From a command line with
    an image and an ELF file, a run of \<open>n\<close> instructions returns with the registers of the ISA, in functional and in-order mode
    with one core and in functional mode with two.
  \<^item> \<open>Expr\<close>, \<open>Expr_Refine\<close>, \<open>Watchpoint\<close>: \<^verbatim>\<open>monitor/expr.c\<close> and \<^verbatim>\<open>monitor/watchpoint.c\<close>: the evaluator parses printed trees
    back to their value, two kinds of input on which it does not, the watchpoint pool, and when a check stops the run: the value of
    an expression is a function of registers and bytes of RAM, since evaluation only moves blocks between the caches.

  \<^bold>\<open>Bounds.\<close> The RAM has \<open>0x8000000\<close> bytes at \<open>0x80000000\<close>, the size in the code. A load that misses stalls the pipeline
  for at most 39 cycles, the latency of memory less one; 200 cycles per instruction cover five instructions in flight with
  such a stall, a flush and an operand stall each, and bound the iterations of the in-order loop in the theorems that say it
  returns. The out-of-order engine holds at most 36 instructions and commits two in a cycle, so that \<open>2 n + 40\<close> instructions of the ISA
  run cover \<open>n\<close> cycles; at most 16 stores are buffered and 32 in flight, so that a load looks back at 48. The expression
  evaluator stops by itself at depth 35, the bound in the code. The loops of \<^verbatim>\<open>exec\<close> that may run for ever are partial functions
  and return \<open>None\<close> when they do.

  \<^bold>\<open>Hypotheses.\<close> The refinements to the ISA are stated for runs that are \<open>safe\<close>: instructions of the user level
  whose executor has a value in C (no division by zero), accesses to the RAM that stay inside a block of 64 bytes, jumps within the code,
  and no store into the code. The last is needed since fetches are not coherent with stores; the property \<open>fetch_misses_store\<close> shows it.
  For the in-order and the out-of-order engine the reference run (\<^verbatim>\<open>--difftest\<close>) is off. For the out-of-order engine moreover
  branch prediction is off, and a store does not overlap a later
  load in part only: such a load returns stale bytes. Its refinement is about runs that return: a division by zero on a path
  that is later squashed ends the simulator. The theorems about \<^verbatim>\<open>exec\<close> assume the machine level with no PMP entry on and no
  watchpoint set (\<open>going\<close>), and that the host asks for no end and sends no more events than the keyboard queue has room for
  (\<open>quiet\<close>).

  \<^bold>\<open>Simplified.\<close> Linked lists (watchpoints, trace) are lists. The counters of hits, misses and evictions of a cache, \<^verbatim>\<open>long\<close> in C,
  are integers. The space of the devices, which \<^verbatim>\<open>malloc\<close> leaves undefined, starts with zeros; no theorem depends on it.

  \<^bold>\<open>Not modelled.\<close> Terminal output, log, instruction and memory traces, the statistics reports and the disassembler are output. The
  command loop of the monitor (\<^verbatim>\<open>monitor/sdb.c\<close>) reads from the terminal and calls what is modelled here. The guest software in
  the repository (\<^verbatim>\<open>am\<close>, \<^verbatim>\<open>litenes\<close>, tests and laboratories) is run by the simulator and is no part of it. Of the out-of-order
  engine all functions are modelled; its refinement of the ISA is not shown with branch prediction, where a predicted target 0 is
  not recognised as a prediction, nor that every run commits.
\<close>

end
